(* ===== verification/Prelude.thy ===== *)
theory Prelude
  imports Main "HOL-Library.Word" "HOL-Library.Multiset" "HOL-Library.Sublist"
begin

text \<open>
  Shared material of the datamon development: the result type of fallible operations, the
  bytes of the storage layer, the theorem collections of the components, and the generic
  lemmas on lists, options and maps that several components use.
\<close>

section \<open>Types shared by all components\<close>

text \<open>
  A Go function that returns a value and an \<open>error\<close> is a function into a sum: \<open>Inl\<close> is the
  error return and \<open>Inr\<close> the value. A run-time panic of the source is a value of the type
  \<open>panic\<close> below, so that it is never confused with an error return.
\<close>

type_synonym byte = "8 word"
type_synonym bytes = "byte list"
type_synonym ('e, 'a) res = "'e + 'a"

datatype panic =
    IndexOutOfRange
  | SliceBounds
  | NilDereference
  | ExplicitPanic string

definition rbind :: "('e, 'a) res \<Rightarrow> ('a \<Rightarrow> ('e, 'b) res) \<Rightarrow> ('e, 'b) res" where
  "rbind m f = (case m of Inl e \<Rightarrow> Inl e | Inr x \<Rightarrow> f x)"

lemma rbind_simps [simp]:
  "rbind (Inl e) f = Inl e"
  "rbind (Inr x) f = f x"
  by (simp_all add: rbind_def)

lemma rbind_eq_Inr: "rbind m f = Inr y \<longleftrightarrow> (\<exists>x. m = Inr x \<and> f x = Inr y)"
  by (cases m) auto

named_theorems store_laws \<open>what the object store interface promises\<close>
named_theorems path_simps \<open>rewriting of archive paths\<close>

section \<open>Lists\<close>

text \<open>Cutting a list into consecutive blocks of a fixed size; the last one may be shorter.\<close>

function blocks :: "nat \<Rightarrow> 'a list \<Rightarrow> 'a list list" where
  "blocks k xs = (if xs = [] \<or> k = 0 then [] else take k xs # blocks k (drop k xs))"
  by pat_completeness auto
termination
  by (relation "measure (\<lambda>(k, xs). length xs)") auto

declare blocks.simps [simp del]

lemma blocks_Nil [simp]: "blocks k [] = []"
  by (subst blocks.simps) simp

lemma blocks_step: "0 < k \<Longrightarrow> xs \<noteq> [] \<Longrightarrow> blocks k xs = take k xs # blocks k (drop k xs)"
  by (subst blocks.simps) simp

lemma concat_blocks [simp]: "0 < k \<Longrightarrow> concat (blocks k xs) = xs"
proof (induction k xs rule: blocks.induct)
  case (1 k xs)
  then show ?case by (cases "xs = []") (simp_all add: blocks_step)
qed

lemma blocks_append_block:
  "0 < k \<Longrightarrow> length ys = k \<Longrightarrow> blocks k (ys @ zs) = ys # blocks k zs"
  by (subst blocks_step) auto

lemma blocks_concat:
  "0 < k \<Longrightarrow> \<forall>b \<in> set bs. length b = k \<Longrightarrow> length r < k \<Longrightarrow>
   blocks k (concat bs @ r) = bs @ (if r = [] then [] else [r])"
proof (induction bs)
  case Nil
  then show ?case by (cases "r = []") (simp_all add: blocks_step)
next
  case (Cons b bs)
  then show ?case by (simp add: blocks_append_block)
qed

lemma blocks_nth:
  "0 < k \<Longrightarrow> i < length (blocks k xs) \<Longrightarrow>
   blocks k xs ! i = take k (drop (i * k) xs) \<and> i * k < length xs"
proof (induction k xs arbitrary: i rule: blocks.induct)
  case (1 k xs)
  from "1.prems" have ne: "xs \<noteq> []" by auto
  with "1.prems" have b: "blocks k xs = take k xs # blocks k (drop k xs)" by (simp add: blocks_step)
  show ?case
  proof (cases i)
    case 0
    with b ne show ?thesis by simp
  next
    case (Suc j)
    with "1.IH" [of j] "1.prems" ne b have
      "blocks k (drop k xs) ! j = take k (drop (j * k) (drop k xs))" "j * k < length xs - k" by auto
    with Suc b show ?thesis by (auto simp: ac_simps)
  qed
qed

lemma concat_drop_blocks: "0 < k \<Longrightarrow> concat (drop i (blocks k xs)) = drop (i * k) xs"
proof (induction k xs arbitrary: i rule: blocks.induct)
  case (1 k xs)
  show ?case
  proof (cases "xs = [] \<or> i = 0")
    case False
    then obtain j where "i = Suc j" "xs \<noteq> []" by (cases i) auto
    with "1.IH" [of j] "1.prems" show ?thesis by (simp add: blocks_step ac_simps)
  qed (use "1.prems" in auto)
qed

lemma blocks_index: "0 < k \<Longrightarrow> j < length xs \<Longrightarrow> j div k < length (blocks k xs)"
proof (induction k xs arbitrary: j rule: blocks.induct)
  case (1 k xs)
  from "1.prems" have ne: "xs \<noteq> []" by auto
  with "1.prems" have b: "blocks k xs = take k xs # blocks k (drop k xs)" by (simp add: blocks_step)
  show ?case
  proof (cases "j < k")
    case False
    then obtain j' where j: "j = k + j'" by (metis le_Suc_ex not_less)
    with "1.IH" [of j'] "1.prems" ne have "j' div k < length (blocks k (drop k xs))" by auto
    with j b "1.prems" show ?thesis by (simp add: div_add_self1)
  qed (use b in simp)
qed

lemma length_concat_const:
  "\<forall>b \<in> set bs. length b = k \<Longrightarrow> length (concat bs) = length bs * k"
  by (induction bs) auto

lemma drop_concat_const:
  "\<forall>b \<in> set bs. length b = k \<Longrightarrow> drop (i * k) (concat bs) = concat (drop i bs)"
proof (induction bs arbitrary: i)
  case Nil
  then show ?case by simp
next
  case (Cons b bs)
  then show ?case by (cases i) (auto simp: drop_append)
qed

text \<open>
  Placing values by index, as a collector does that receives \<open>(index, value)\<close> pairs from
  workers in whatever order they finish.
\<close>

definition place :: "'a list \<Rightarrow> (nat \<times> 'a) list \<Rightarrow> 'a list" where
  "place xs ps = fold (\<lambda>(i, v) acc. acc[i := v]) ps xs"

lemma place_simps [simp]:
  "place xs [] = xs"
  "place xs ((i, v) # ps) = place (xs[i := v]) ps"
  by (simp_all add: place_def)

lemma length_place [simp]: "length (place xs ps) = length xs"
  by (induction ps arbitrary: xs) auto

lemma place_nth_notin: "i \<notin> fst ` set ps \<Longrightarrow> place xs ps ! i = xs ! i"
  by (induction ps arbitrary: xs) auto

lemma place_nth_in:
  "distinct (map fst ps) \<Longrightarrow> (i, v) \<in> set ps \<Longrightarrow> i < length xs \<Longrightarrow> place xs ps ! i = v"
proof (induction ps arbitrary: xs)
  case Nil
  then show ?case by simp
next
  case (Cons p ps)
  obtain j u where p: "p = (j, u)" by (cases p)
  show ?case
  proof (cases "(i, v) = p")
    case True
    with Cons.prems p have "i \<notin> fst ` set ps" by auto
    with True p Cons.prems show ?thesis by (simp add: place_nth_notin)
  next
    case False
    with Cons p show ?thesis by auto
  qed
qed

lemma place_all:
  assumes "mset ps = mset (enumerate 0 vs)" and "length xs = length vs"
  shows "place xs ps = vs"
proof (rule nth_equalityI)
  show "length (place xs ps) = length vs" using assms(2) by simp
next
  fix i assume i: "i < length (place xs ps)"
  with assms(2) have lt: "i < length vs" by simp
  have "mset (map fst ps) = mset (map fst (enumerate 0 vs))"
    using assms(1) by (metis mset_map)
  then have "distinct (map fst ps) \<longleftrightarrow> distinct (map fst (enumerate 0 vs))"
    by (rule mset_eq_imp_distinct_iff)
  then have "distinct (map fst ps)" by simp
  moreover have "(i, vs ! i) \<in> set ps"
    using assms(1) lt by (metis in_set_enumerate_eq add.right_neutral diff_zero fst_conv
        le0 mset_eq_setD snd_conv plus_nat.add_0)
  ultimately show "place xs ps ! i = vs ! i"
    using lt assms(2) by (simp add: place_nth_in)
qed

lemma map_of_filter_neq:
  "map_of (filter (\<lambda>p. fst p \<noteq> n) os) = (map_of os)(n := None)"
  by (induction os) auto

text \<open>Removing a fixed prefix or suffix of a string, as anchored patterns do.\<close>

fun strip_prefix :: "'a list \<Rightarrow> 'a list \<Rightarrow> 'a list option" where
  "strip_prefix [] s = Some s"
| "strip_prefix (p # ps) [] = None"
| "strip_prefix (p # ps) (c # s) = (if p = c then strip_prefix ps s else None)"

lemma strip_prefix_append [simp]: "strip_prefix p (p @ s) = Some s"
  by (induction p) auto

lemma strip_prefix_Some: "strip_prefix p s = Some r \<longleftrightarrow> s = p @ r"
  by (induction p s rule: strip_prefix.induct) auto

definition strip_suffix :: "'a list \<Rightarrow> 'a list \<Rightarrow> 'a list option" where
  "strip_suffix p s = map_option rev (strip_prefix (rev p) (rev s))"

lemma strip_suffix_append [simp]: "strip_suffix p (s @ p) = Some s"
  by (simp add: strip_suffix_def)

lemma strip_suffix_Some: "strip_suffix p s = Some r \<longleftrightarrow> s = r @ p"
proof -
  have "strip_suffix p s = Some r \<longleftrightarrow> strip_prefix (rev p) (rev s) = Some (rev r)"
    by (cases "strip_prefix (rev p) (rev s)") (auto simp: strip_suffix_def)
  also have "\<dots> \<longleftrightarrow> rev s = rev (r @ p)" by (simp add: strip_prefix_Some)
  also have "\<dots> \<longleftrightarrow> s = r @ p" by (rule rev_is_rev_conv)
  finally show ?thesis .
qed

end
