(* ===== verification/GoStd.thy ===== *)
theory GoStd
  imports Prelude
begin

text \<open>
  The parts of Go's standard library that the modelled code uses on strings and bytes:
  \<open>strings.SplitN\<close>, decimal formatting and \<open>strconv.Atoi\<close>, \<open>path.Clean\<close>/\<open>path.Join\<close>/
  \<open>path.Base\<close>, \<open>encoding/hex\<close> and \<open>binary.BigEndian\<close>. Strings are lists of bytes, as in Go.
\<close>

section \<open>Splitting strings\<close>

text \<open>\<open>strings.SplitN(s, sep, n)\<close> for a one-byte separator and \<open>n \<ge> 0\<close>: at most \<open>n\<close> parts.\<close>

fun splitN :: "nat \<Rightarrow> char \<Rightarrow> string \<Rightarrow> string list" where
  "splitN 0 c s = []"
| "splitN (Suc 0) c s = [s]"
| "splitN (Suc (Suc n)) c s =
     (case dropWhile (\<lambda>x. x \<noteq> c) s of
        [] \<Rightarrow> [s]
      | _ # r \<Rightarrow> takeWhile (\<lambda>x. x \<noteq> c) s # splitN (Suc n) c r)"

lemma dropWhile_neq_append: "c \<notin> set a \<Longrightarrow> dropWhile (\<lambda>x. x \<noteq> c) (a @ c # r) = c # r"
  by (induction a) auto

lemma takeWhile_neq_append: "c \<notin> set a \<Longrightarrow> takeWhile (\<lambda>x. x \<noteq> c) (a @ c # r) = a"
  by (induction a) auto

lemma dropWhile_neq_all: "c \<notin> set a \<Longrightarrow> dropWhile (\<lambda>x. x \<noteq> c) a = []"
  by (induction a) auto

lemma splitN_cut [path_simps]:
  "c \<notin> set a \<Longrightarrow> splitN (Suc (Suc n)) c (a @ c # r) = a # splitN (Suc n) c r"
  by (simp add: dropWhile_neq_append takeWhile_neq_append)

lemma splitN_last [path_simps]: "c \<notin> set a \<Longrightarrow> splitN (Suc n) c a = [a]"
  by (cases n) (simp_all add: dropWhile_neq_all)

lemma splitN_neq_Nil [simp]: "splitN (Suc n) c s \<noteq> []"
  by (cases n) (auto split: list.splits)

lemma length_splitN: "length (splitN n c s) \<le> n"
  by (induction n c s rule: splitN.induct) (auto split: list.splits)

section \<open>Decimal numbers\<close>

definition digit_char :: "nat \<Rightarrow> char" where
  "digit_char d = char_of (48 + d)"

definition is_digit :: "char \<Rightarrow> bool" where
  "is_digit c \<longleftrightarrow> 48 \<le> (of_char c :: nat) \<and> (of_char c :: nat) \<le> 57"

definition digit_val :: "char \<Rightarrow> nat" where
  "digit_val c = of_char c - 48"

text \<open>\<open>fmt.Sprint\<close> of an unsigned integer.\<close>

fun show_nat :: "nat \<Rightarrow> string" where
  "show_nat n = (if n < 10 then [digit_char n] else show_nat (n div 10) @ [digit_char (n mod 10)])"

declare show_nat.simps [simp del]

definition read_nat :: "string \<Rightarrow> nat" where
  "read_nat s = foldl (\<lambda>a c. 10 * a + digit_val c) 0 s"

lemma of_char_digit_char [simp]: "d < 10 \<Longrightarrow> of_char (digit_char d) = (48 + d :: nat)"
  by (simp add: digit_char_def)

lemma is_digit_digit_char [simp]: "d < 10 \<Longrightarrow> is_digit (digit_char d)"
  by (simp add: is_digit_def)

lemma digit_val_digit_char [simp]: "d < 10 \<Longrightarrow> digit_val (digit_char d) = d"
  by (simp add: digit_val_def)

lemma show_nat_digits: "\<forall>c \<in> set (show_nat n). is_digit c"
proof (induction n rule: show_nat.induct)
  case (1 n)
  then show ?case
    by (subst show_nat.simps) (cases "n < 10"; auto)
qed

lemma show_nat_neq_Nil [simp]: "show_nat n \<noteq> []"
  by (subst show_nat.simps) simp

lemma read_show_nat [simp]: "read_nat (show_nat n) = n"
proof (induction n rule: show_nat.induct)
  case (1 n)
  then show ?case
    by (subst show_nat.simps) (cases "n < 10"; auto simp: read_nat_def)
qed

lemma digit_neq: "is_digit d \<Longrightarrow> \<not> is_digit c \<Longrightarrow> d \<noteq> c"
  by auto

lemma not_digit [simp]:
  "\<not> is_digit CHR ''/''" "\<not> is_digit CHR ''-''" "\<not> is_digit CHR ''+''" "\<not> is_digit CHR ''.''"
  "\<not> is_digit CHR 0x0A" "\<not> is_digit CHR ''#''"
  by (simp_all add: is_digit_def)

lemma show_nat_notin [simp]: "\<not> is_digit c \<Longrightarrow> c \<notin> set (show_nat n)"
  using show_nat_digits by blast

lemma show_nat_inj: "show_nat m = show_nat n \<longleftrightarrow> m = n"
  by (metis read_show_nat)

text \<open>
  \<open>strconv.Atoi\<close>: an optional sign and decimal digits, refused when the value does not fit the
  64-bit \<open>int\<close>.
\<close>

datatype atoi_error = ErrSyntax | ErrRange

definition atoi_digits :: "bool \<Rightarrow> string \<Rightarrow> (atoi_error, int) res" where
  "atoi_digits neg ds =
     (if ds = [] \<or> \<not> list_all is_digit ds then Inl ErrSyntax
      else let v = int (read_nat ds) in
        if neg then (if v \<le> 2 ^ 63 then Inr (- v) else Inl ErrRange)
        else (if v < 2 ^ 63 then Inr v else Inl ErrRange))"

definition Atoi :: "string \<Rightarrow> (atoi_error, int) res" where
  "Atoi s = (case s of
       [] \<Rightarrow> Inl ErrSyntax
     | c # r \<Rightarrow> if c = CHR ''-'' then atoi_digits True r
               else if c = CHR ''+'' then atoi_digits False r
               else atoi_digits False s)"

lemma Atoi_show_nat:
  "Atoi (show_nat n) = (if n < 2 ^ 63 then Inr (int n) else Inl ErrRange)"
proof -
  obtain c r where s: "show_nat n = c # r" by (cases "show_nat n") auto
  with show_nat_digits [of n] have c: "is_digit c" by auto
  have "list_all is_digit (show_nat n)"
    using show_nat_digits by (simp add: list_all_iff)
  then have "atoi_digits False (show_nat n) = (if n < 2 ^ 63 then Inr (int n) else Inl ErrRange)"
    by (auto simp: atoi_digits_def Let_def)
  with c s show ?thesis by (auto simp: Atoi_def)
qed

section \<open>Slash-separated paths\<close>

text \<open>
  \<open>path.Clean\<close> works on the components between slashes: empty and \<open>.\<close> components are
  dropped, \<open>..\<close> removes the component before it, and a rooted path never climbs above the root.
\<close>

function comps :: "string \<Rightarrow> string list" where
  "comps s = (case dropWhile (\<lambda>c. c \<noteq> CHR ''/'') s of
       [] \<Rightarrow> [s]
     | _ # r \<Rightarrow> takeWhile (\<lambda>c. c \<noteq> CHR ''/'') s # comps r)"
  by pat_completeness auto
termination
proof (relation "measure length")
  fix s :: string and x r
  assume "dropWhile (\<lambda>c. c \<noteq> CHR ''/'') s = x # r"
  then have "length (x # r) \<le> length s" by (metis length_dropWhile_le)
  then show "(r, s) \<in> measure length" by simp
qed simp

declare comps.simps [simp del]

fun clean_comps :: "bool \<Rightarrow> string list \<Rightarrow> string list \<Rightarrow> string list" where
  "clean_comps rooted acc [] = rev acc"
| "clean_comps rooted acc (c # cs) =
     (if c = '''' \<or> c = ''.'' then clean_comps rooted acc cs
      else if c = ''..'' then
        (case acc of
           [] \<Rightarrow> if rooted then clean_comps rooted [] cs else clean_comps rooted [''..''] cs
         | a # as \<Rightarrow> if a = ''..'' then clean_comps rooted (''..'' # acc) cs
                    else clean_comps rooted as cs)
      else clean_comps rooted (c # acc) cs)"

fun join_slash :: "string list \<Rightarrow> string" where
  "join_slash [] = ''''"
| "join_slash [s] = s"
| "join_slash (s # t # ss) = s @ ''/'' @ join_slash (t # ss)"

definition path_Clean :: "string \<Rightarrow> string" where
  "path_Clean p =
     (if p = '''' then ''.''
      else if hd p = CHR ''/'' then CHR ''/'' # join_slash (clean_comps True [] (comps p))
      else (case clean_comps False [] (comps p) of [] \<Rightarrow> ''.'' | cs \<Rightarrow> join_slash cs))"

text \<open>\<open>path.Join\<close> ignores empty elements and cleans the result.\<close>

definition path_Join :: "string list \<Rightarrow> string" where
  "path_Join es =
     (let ne = filter (\<lambda>e. e \<noteq> '''') es in if ne = [] then '''' else path_Clean (join_slash ne))"

text \<open>\<open>path.Base\<close>: the last component, trailing slashes removed.\<close>

definition path_Base :: "string \<Rightarrow> string" where
  "path_Base p =
     (if p = '''' then ''.''
      else let q = rev (dropWhile (\<lambda>c. c = CHR ''/'') (rev p)) in
        if q = '''' then ''/'' else rev (takeWhile (\<lambda>c. c \<noteq> CHR ''/'') (rev q)))"

lemma comps_cut: "CHR ''/'' \<notin> set a \<Longrightarrow> comps (a @ CHR ''/'' # r) = a # comps r"
  by (subst comps.simps) (simp add: dropWhile_neq_append takeWhile_neq_append)

lemma comps_last: "CHR ''/'' \<notin> set a \<Longrightarrow> comps a = [a]"
  by (subst comps.simps) (simp add: dropWhile_neq_all)

lemma comps_join:
  "cs \<noteq> [] \<Longrightarrow> \<forall>c \<in> set cs. CHR ''/'' \<notin> set c \<Longrightarrow> comps (join_slash cs) = cs"
  by (induction cs rule: join_slash.induct) (auto simp: comps_cut comps_last)

definition plain_comp :: "string \<Rightarrow> bool" where
  "plain_comp c \<longleftrightarrow> c \<noteq> '''' \<and> c \<noteq> ''.'' \<and> c \<noteq> ''..'' \<and> CHR ''/'' \<notin> set c"

lemma clean_comps_plain: "list_all plain_comp cs \<Longrightarrow> clean_comps b acc cs = rev acc @ cs"
  by (induction cs arbitrary: acc) (auto simp: plain_comp_def)

lemma path_Clean_plain:
  assumes "cs \<noteq> []" and "list_all plain_comp cs"
  shows "path_Clean (join_slash cs) = join_slash cs"
proof -
  obtain c ds where cs: "cs = c # ds" using assms(1) by (cases cs) auto
  with assms(2) have "c \<noteq> ''''" and nc: "CHR ''/'' \<notin> set c" by (auto simp: plain_comp_def)
  then have "join_slash cs \<noteq> '''' \<and> hd (join_slash cs) \<noteq> CHR ''/''"
    using cs by (cases ds; cases c) auto
  moreover have "comps (join_slash cs) = cs"
    using assms by (intro comps_join) (auto simp: list_all_iff plain_comp_def)
  ultimately show ?thesis
    using assms by (simp add: path_Clean_def clean_comps_plain split: list.splits)
qed

lemma join_slash_append:
  "xs \<noteq> [] \<Longrightarrow> ys \<noteq> [] \<Longrightarrow> join_slash (xs @ ys) = join_slash xs @ ''/'' @ join_slash ys"
  by (induction xs rule: join_slash.induct) (auto simp: neq_Nil_conv)

section \<open>Hexadecimal text and big-endian integers\<close>

definition hex_char :: "nat \<Rightarrow> char" where
  "hex_char d = char_of (if d < 10 then 48 + d else 87 + d)"

definition hex_val :: "char \<Rightarrow> nat option" where
  "hex_val c = (let n = of_char c :: nat in
     if 48 \<le> n \<and> n \<le> 57 then Some (n - 48)
     else if 97 \<le> n \<and> n \<le> 102 then Some (n - 87)
     else if 65 \<le> n \<and> n \<le> 70 then Some (n - 55)
     else None)"

text \<open>\<open>hex.EncodeToString\<close> and \<open>hex.DecodeString\<close>: \<open>None\<close> is an odd length or a bad digit.\<close>

definition hex_of_byte :: "byte \<Rightarrow> string" where
  "hex_of_byte b = [hex_char (unat b div 16), hex_char (unat b mod 16)]"

definition hex_encode :: "bytes \<Rightarrow> string" where
  "hex_encode bs = concat (map hex_of_byte bs)"

fun hex_decode :: "string \<Rightarrow> bytes option" where
  "hex_decode [] = Some []"
| "hex_decode [c] = None"
| "hex_decode (c # d # s) =
     (case (hex_val c, hex_val d) of
        (Some h, Some l) \<Rightarrow> map_option (\<lambda>bs. of_nat (16 * h + l) # bs) (hex_decode s)
      | _ \<Rightarrow> None)"

lemma hex_val_char [simp]: "d < 16 \<Longrightarrow> hex_val (hex_char d) = Some d"
  by (auto simp: hex_val_def hex_char_def Let_def)

lemma unat_byte_less: "unat (b :: byte) < 256"
proof -
  have "unat b < 2 ^ LENGTH(8)" by (rule unsigned_less)
  then show ?thesis by simp
qed

lemma hex_decode_encode [simp]: "hex_decode (hex_encode bs) = Some bs"
proof (induction bs)
  case Nil
  then show ?case by (simp add: hex_encode_def)
next
  case (Cons b bs)
  have "unat b div 16 < 16" "unat b mod 16 < 16" using unat_byte_less [of b] by auto
  moreover have "of_nat (16 * (unat b div 16) + unat b mod 16) = b" by simp
  ultimately show ?case
    using Cons by (simp add: hex_encode_def hex_of_byte_def del: of_nat_add of_nat_mult)
qed

lemma length_hex_encode [simp]: "length (hex_encode bs) = 2 * length bs"
  by (induction bs) (auto simp: hex_encode_def hex_of_byte_def)

lemma hex_encode_inj: "hex_encode a = hex_encode b \<longleftrightarrow> a = b"
  by (metis hex_decode_encode option.inject)

section \<open>Text as bytes\<close>

definition text_bytes :: "string \<Rightarrow> bytes" where
  "text_bytes s = map (\<lambda>c. of_nat (of_char c)) s"

definition bytes_text :: "bytes \<Rightarrow> string" where
  "bytes_text bs = map (\<lambda>b. char_of (unat b)) bs"

lemma bytes_text_bytes [simp]: "bytes_text (text_bytes s) = s"
proof -
  have "char_of (unat (of_nat (of_char c) :: byte)) = c" for c
  proof -
    have "(of_char c :: nat) < 256" by simp
    then show ?thesis by (simp add: unat_of_nat)
  qed
  then show ?thesis by (simp add: bytes_text_def text_bytes_def comp_def)
qed

end
