(* ===== verification/ObjectStore.thy ===== *)
theory ObjectStore
  imports GoStd
begin

text \<open>
  The object store interface of \<open>pkg/storage\<close> (\<open>store.go\<close>, \<open>multi.go\<close>) as a record of the
  operations its clients call, the CRC32C checksum that goes with every write, and the metadata
  reads and writes of \<open>pkg/core/meta_object.go\<close>. What the clients rely on is the locale
  \<open>object_store\<close>; \<open>GcsStore\<close> proves it for the Google Cloud Storage backend.
\<close>

unbundle bit_operations_syntax

section \<open>The interface\<close>

text \<open>The sentinel errors of \<open>storage/status\<close>; any other error carries its message.\<close>

datatype store_err =
    ErrNotExists | ErrNotFound | ErrUnauthorized | ErrForbidden | ErrNotSupported | ErrExists
  | ErrObjectTooBig | ErrInvalidResource | ErrStorageAPI | ErrNotImplemented
  | ErrVersioningDisabled | ErrInvalidVersion | OtherStoreErr string

record Attributes =
  attr_Updated :: nat \<comment> \<open>time of the last change\<close>
  attr_Size :: nat
  attr_CRC32C :: "32 word"

text \<open>
  A store with state \<open>'s\<close>. Writes return the new state and the error, if any. A store that also
  implements \<open>StoreCRC\<close> has a \<open>PutCRC\<close>.
\<close>

record 's Store =
  st_Has :: "'s \<Rightarrow> string \<Rightarrow> (store_err, bool) res"
  st_Get :: "'s \<Rightarrow> string \<Rightarrow> (store_err, bytes) res"
  st_GetAttr :: "'s \<Rightarrow> string \<Rightarrow> (store_err, Attributes) res"
  st_Put :: "'s \<Rightarrow> string \<Rightarrow> bytes \<Rightarrow> bool \<Rightarrow> 's \<times> store_err option"
  st_PutCRC :: "('s \<Rightarrow> string \<Rightarrow> bytes \<Rightarrow> bool \<Rightarrow> 32 word \<Rightarrow> 's \<times> store_err option) option"
  st_Delete :: "'s \<Rightarrow> string \<Rightarrow> 's \<times> store_err option"
  st_Keys :: "'s \<Rightarrow> (store_err, string list) res option" \<comment> \<open>\<open>None\<close>: the listing never ends\<close>
  st_KeysPrefix :: "'s \<Rightarrow> string \<Rightarrow> string \<Rightarrow> string \<Rightarrow> nat \<Rightarrow> (store_err, string list \<times> string) res"
  st_Clear :: "'s \<Rightarrow> 's \<times> store_err option"
  st_piped :: bool \<comment> \<open>whether the readers of \<open>Get\<close> write themselves, by \<open>PipeIO\<close>\<close>

definition NoOverWrite :: bool where "NoOverWrite = True"
definition OverWrite :: bool where "OverWrite = False"

section \<open>CRC32C\<close>

text \<open>\<open>crc32.Checksum(data, crc32.MakeTable(crc32.Castagnoli))\<close>, bit by bit.\<close>

definition crc32c_shift :: "32 word \<Rightarrow> 32 word" where
  "crc32c_shift c = (if odd c then drop_bit 1 c XOR 0x82F63B78 else drop_bit 1 c)"

definition crc32c_byte :: "32 word \<Rightarrow> byte \<Rightarrow> 32 word" where
  "crc32c_byte c b = (crc32c_shift ^^ 8) (c XOR ucast b)"

definition crc32c :: "bytes \<Rightarrow> 32 word" where
  "crc32c data = NOT (foldl crc32c_byte (NOT 0) data)"

lemma crc32c_Nil [simp]: "crc32c [] = 0"
  by (simp add: crc32c_def)

section \<open>Writing with a checksum where the store takes one\<close>

text \<open>
  The type switch that \<open>writeMetadata\<close>, \<open>MultiPut\<close> and \<open>writeBlob\<close> share: \<open>PutCRC\<close> for a store
  that has it, \<open>Put\<close> otherwise.
\<close>

definition put_crc :: "'s Store \<Rightarrow> 's \<Rightarrow> string \<Rightarrow> bytes \<Rightarrow> bool \<Rightarrow> 's \<times> store_err option" where
  "put_crc st s pth buffer noOverwrite =
     (case st_PutCRC st of
        Some putCRC \<Rightarrow> putCRC s pth buffer noOverwrite (crc32c buffer)
      | None \<Rightarrow> st_Put st s pth buffer noOverwrite)"

text \<open>\<open>metaObject.writeMetadata\<close> and \<open>metaObject.readMetadata\<close>.\<close>

definition writeMetadata ::
  "'s Store \<Rightarrow> 's \<Rightarrow> string \<Rightarrow> bool \<Rightarrow> bytes \<Rightarrow> 's \<times> store_err option" where
  "writeMetadata st s pth noOverwrite buffer = put_crc st s pth buffer noOverwrite"

definition readMetadata :: "'s Store \<Rightarrow> 's \<Rightarrow> string \<Rightarrow> (store_err, bytes) res" where
  "readMetadata st s pth = st_Get st s pth"

text \<open>
  \<open>storage.MultiPut\<close>: one goroutine per store writes the same object to its own store; the
  errors of the stores that do not tolerate failures go to a channel and one of them is returned.
  The list is the order in which the writers finish; the channel gives the first error back.
\<close>

fun MultiPut ::
  "('s Store \<times> bool) list \<Rightarrow> 's list \<Rightarrow> string \<Rightarrow> bytes \<Rightarrow> bool \<Rightarrow> 's list \<times> store_err option" where
  "MultiPut ((st, tolerate) # us) (s # ss) name buffer doesNotExist =
     (let (s', err) = put_crc st s name buffer doesNotExist;
          (ss', errs) = MultiPut us ss name buffer doesNotExist
      in (s' # ss', if tolerate \<or> err = None then errs else err))"
| "MultiPut _ ss name buffer doesNotExist = (ss, None)"

text \<open>\<open>storage.ReadTee\<close> copies an object of one store to another and returns its content.\<close>

definition ReadTee ::
  "'s Store \<Rightarrow> 's \<Rightarrow> string \<Rightarrow> 't Store \<Rightarrow> 't \<Rightarrow> string \<Rightarrow> 't \<times> (store_err, bytes) res" where
  "ReadTee sStore s source dStore d destination =
     (case st_Get sStore s source of
        Inl e \<Rightarrow> (d, Inl e)
      | Inr object \<Rightarrow>
          (case st_Put dStore d destination object NoOverWrite of
             (d', Some e) \<Rightarrow> (d', Inl e)
           | (d', None) \<Rightarrow> (d', Inr object)))"

text \<open>
  \<open>storage.PipeIO\<close> copies a reader to a writer through an in-memory pipe. Its arguments are the error
  with which the reader ends, if any, and what the copy from the pipe to the writer returned. The
  reading side closes the error channel before it closes the pipe: when the copy ends at the end of
  the pipe, the channel is ready, with the error or closed, and the count that is returned is zero.
  When the writer fails, the reading side is usually left behind, and the count and the error of the writer are
  returned; but it may be done already (\<open>readDone\<close>) when it was the last piece that could not be written, and
  then the error of the writer is lost.
\<close>

definition PipeIO :: "'e option \<Rightarrow> bool \<Rightarrow> nat \<times> 'e option \<Rightarrow> nat \<times> 'e option" where
  "PipeIO readErr readDone copied =
     (case copied of
        (written, Some e) \<Rightarrow> if readDone then (0, readErr) else (written, Some e)
      | (written, None) \<Rightarrow> (0, readErr))"

text \<open>
  What \<open>io.Copy\<close> reads from: the pieces that the source delivers, the error it ends with, and whether
  it writes itself (\<open>io.WriterTo\<close>) by means of \<open>PipeIO\<close>, as the readers of \<open>gcs.Get\<close> do.
\<close>

datatype io_source = Source (src_chunks: "bytes list") (src_err: "string option") (src_piped: bool)

definition copy_count :: "io_source \<Rightarrow> nat \<Rightarrow> nat" where
  "copy_count src written = (if src_piped src then fst (PipeIO (src_err src) True (written, None)) else written)"

lemma copy_count_simp [simp]: "copy_count (Source cs e piped) n = (if piped then 0 else n)"
  by (simp add: copy_count_def PipeIO_def)

section \<open>What clients rely on\<close>

text \<open>
  The contract of a store whose backend does not fail: its content is a map from names to bytes,
  reads answer from it, an exclusive write to a name in use fails and changes nothing, any other
  write replaces the object, and a deleted object is gone. A store may or may not report an error
  when the deleted object was not there, and its attributes may carry no checksum (zero).
\<close>

locale object_store =
  fixes st :: "'s Store"
    and content :: "'s \<Rightarrow> string \<Rightarrow> bytes option"
  assumes has [store_laws]: "st_Has st s k = Inr (content s k \<noteq> None)"
    and get [store_laws]:
      "st_Get st s k = (case content s k of None \<Rightarrow> Inl ErrNotExists | Some b \<Rightarrow> Inr b)"
    and attr_none: "content s k = None \<Longrightarrow> \<exists>e. st_GetAttr st s k = Inl e"
    and attr_some: "content s k = Some b \<Longrightarrow>
      \<exists>a. st_GetAttr st s k = Inr a \<and> attr_Size a = length b
        \<and> (attr_CRC32C a = 0 \<or> attr_CRC32C a = crc32c b)"
    and put_new: "\<not> (excl \<and> content s k \<noteq> None) \<Longrightarrow>
      \<exists>s'. st_Put st s k b excl = (s', None) \<and> content s' = (content s)(k \<mapsto> b)"
    and put_exists: "excl \<Longrightarrow> content s k \<noteq> None \<Longrightarrow>
      \<exists>s' e. st_Put st s k b excl = (s', Some e) \<and> content s' = content s"
    and put_crc_same: "st_PutCRC st = Some f \<Longrightarrow> f s k b excl (crc32c b) = st_Put st s k b excl"
    and delete_gone: "content (fst (st_Delete st s k)) = (content s)(k := None)"
    and delete_ok: "content s k \<noteq> None \<Longrightarrow> snd (st_Delete st s k) = None"
begin

lemma put_crc_is_put: "put_crc st s k b excl = st_Put st s k b excl"
  by (auto simp: put_crc_def put_crc_same split: option.splits)

lemma put_cases:
  obtains (new) s' where "\<not> (excl \<and> content s k \<noteq> None)" "put_crc st s k b excl = (s', None)"
      "content s' = (content s)(k \<mapsto> b)"
  | (exists) s' e where "excl" "content s k \<noteq> None" "put_crc st s k b excl = (s', Some e)"
      "content s' = content s"
  using put_new [of excl s k b] put_exists [of excl s k b] unfolding put_crc_is_put by blast

lemma overwrite:
  "\<exists>s'. put_crc st s k b OverWrite = (s', None) \<and> content s' = (content s)(k \<mapsto> b)"
  by (rule put_cases [of OverWrite s k b]) (auto simp: OverWrite_def)

lemma put_crc_success:
  "put_crc st s k b excl = (s', None) \<Longrightarrow> content s' = (content s)(k \<mapsto> b)"
  by (rule put_cases [of excl s k b]) auto

lemma put_crc_failure: "put_crc st s k b excl = (s', Some e) \<Longrightarrow> content s' = content s"
  by (rule put_cases [of excl s k b]) auto

lemma exclusive_keeps_existing:
  "content s k = Some v \<Longrightarrow> content (fst (put_crc st s k' b NoOverWrite)) k = Some v"
  by (rule put_cases [of NoOverWrite s k' b]) (auto simp: NoOverWrite_def)

lemma read_after_write:
  "writeMetadata st s k excl b = (s', None) \<Longrightarrow> readMetadata st s' k = Inr b"
  by (simp add: writeMetadata_def readMetadata_def put_crc_success get)

end

end
