(* ===== verification/GcsStore.thy ===== *)
theory GcsStore
  imports ObjectStore
begin

text \<open>
  The Google Cloud Storage backend, \<open>pkg/storage/gcs\<close>. The client library of the service is a
  parameter: a record of the calls the backend makes, over a bucket state of any type. The locale
  \<open>bucket_api\<close> states the documented behaviour of those calls on a bucket without failures, and
  the backend is proved to satisfy the contract of \<open>ObjectStore\<close> on it. Retries on failures are
  covered on the unrestricted client.
\<close>

section \<open>The client library\<close>

text \<open>
  An error of the API carries its code, its body and the text of its \<open>Error()\<close>, any other error
  that text.
\<close>

datatype gcs_err = ObjectNotExist | GoogleApi nat string string | OtherGcsErr string

record 'b gcsClient =
  cl_Attrs :: "'b \<Rightarrow> string \<Rightarrow> (gcs_err, Attributes) res"
  cl_Read :: "'b \<Rightarrow> string \<Rightarrow> (gcs_err, bytes) res"
  \<comment> \<open>what a writer has sent when it is closed, with the precondition that the object is new\<close>
  cl_Upload :: "'b \<Rightarrow> string \<Rightarrow> bool \<Rightarrow> bytes \<Rightarrow> 'b \<times> gcs_err option"
  \<comment> \<open>how many bytes an upload that fails has taken out of its reader\<close>
  cl_Taken :: "'b \<Rightarrow> string \<Rightarrow> bytes \<Rightarrow> nat"
  cl_Delete :: "'b \<Rightarrow> string \<Rightarrow> 'b \<times> gcs_err option"
  \<comment> \<open>a page of the listing of a prefix with a delimiter: for each object its prefix and its name,
      and the token of the next page\<close>
  cl_NextPage :: "'b \<Rightarrow> string \<Rightarrow> string \<Rightarrow> nat \<Rightarrow> string \<Rightarrow> (gcs_err, (string \<times> string) list \<times> string) res"

section \<open>The backend\<close>

text \<open>\<open>toSentinelErrors\<close> and \<open>apiErrors\<close>.\<close>

definition apiErrors :: "nat \<Rightarrow> string \<Rightarrow> store_err" where
  "apiErrors code body =
     (if code = 400 then
        (if sublist ''bucket is not valid'' body then ErrInvalidResource else ErrStorageAPI)
      else if code = 401 then ErrUnauthorized
      else if code = 403 then ErrForbidden
      else if code = 404 then ErrNotFound
      else ErrStorageAPI)"

fun toSentinelErrors :: "gcs_err \<Rightarrow> store_err" where
  "toSentinelErrors ObjectNotExist = ErrNotExists"
| "toSentinelErrors (GoogleApi code body msg) =
     (if sublist ''object doesn't exist'' msg then ErrNotExists else apiErrors code body)"
| "toSentinelErrors (OtherGcsErr msg) =
     (if sublist ''object doesn't exist'' msg then ErrNotExists else OtherStoreErr msg)"

record gcs =
  gcs_keyPrefix :: string
  gcs_tries :: nat \<comment> \<open>how often the retry policy runs a failing write again\<close>

definition getFullObjectName :: "gcs \<Rightarrow> string \<Rightarrow> string" where
  "getFullObjectName g objectName = gcs_keyPrefix g @ objectName"

definition getRelObjectName :: "gcs \<Rightarrow> string \<Rightarrow> string" where
  "getRelObjectName g key = (case strip_prefix (gcs_keyPrefix g) key of None \<Rightarrow> key | Some r \<Rightarrow> r)"

definition gcs_Has :: "'b gcsClient \<Rightarrow> gcs \<Rightarrow> 'b \<Rightarrow> string \<Rightarrow> (store_err, bool) res" where
  "gcs_Has cl g b objectName =
     (case cl_Attrs cl b (getFullObjectName g objectName) of
        Inl e \<Rightarrow> if e = ObjectNotExist then Inr False else Inl (toSentinelErrors e)
      | Inr _ \<Rightarrow> Inr True)"

definition gcs_Get :: "'b gcsClient \<Rightarrow> gcs \<Rightarrow> 'b \<Rightarrow> string \<Rightarrow> (store_err, bytes) res" where
  "gcs_Get cl g b objectName =
     (case cl_Read cl b (getFullObjectName g objectName) of
        Inl e \<Rightarrow> Inl (toSentinelErrors e)
      | Inr d \<Rightarrow> Inr d)"

definition gcs_GetAttr :: "'b gcsClient \<Rightarrow> gcs \<Rightarrow> 'b \<Rightarrow> string \<Rightarrow> (store_err, Attributes) res" where
  "gcs_GetAttr cl g b objectName =
     (case cl_Attrs cl b (getFullObjectName g objectName) of
        Inl e \<Rightarrow> Inl (toSentinelErrors e)
      | Inr a \<Rightarrow> Inr a)"

text \<open>
  The retried write of \<open>putObject\<close>. One attempt pipes what is left of the reader into a new
  writer, drops the error of the pipe and returns the one of \<open>writer.Close()\<close>. The reader is the
  same for all attempts and nothing rewinds it: an attempt after the first one finds what the ones before have
  left of it, which is nothing when they failed in the end, and the rest when the writer failed on the way.
\<close>

fun put_attempts ::
  "'b gcsClient \<Rightarrow> nat \<Rightarrow> 'b \<Rightarrow> string \<Rightarrow> bytes \<Rightarrow> bool \<Rightarrow> 'b \<times> gcs_err option" where
  "put_attempts cl tries b name reader newObject =
     (case cl_Upload cl b name newObject reader of
        (b', None) \<Rightarrow> (b', None)
      | (b', Some e) \<Rightarrow>
          (case tries of
             0 \<Rightarrow> (b', Some e)
           | Suc n \<Rightarrow> put_attempts cl n b' name (drop (cl_Taken cl b name reader) reader) newObject))"

declare put_attempts.simps [simp del]

definition putObject ::
  "'b gcsClient \<Rightarrow> gcs \<Rightarrow> 'b \<Rightarrow> string \<Rightarrow> bytes \<Rightarrow> bool \<Rightarrow> 'b \<times> store_err option" where
  "putObject cl g b objectName reader newObject =
     (case put_attempts cl (gcs_tries g) b (getFullObjectName g objectName) reader newObject of
        (b', e) \<Rightarrow> (b', map_option toSentinelErrors e))"

definition gcs_Put :: "'b gcsClient \<Rightarrow> gcs \<Rightarrow> 'b \<Rightarrow> string \<Rightarrow> bytes \<Rightarrow> bool \<Rightarrow> 'b \<times> store_err option" where
  "gcs_Put cl g b objectName reader newObject = putObject cl g b objectName reader newObject"

text \<open>
  \<open>PutCRC\<close> sets the checksum of the writer but not \<open>SendCRC32C\<close>, without which the client library
  does not send it: the upload is the same.
\<close>

definition gcs_PutCRC ::
  "'b gcsClient \<Rightarrow> gcs \<Rightarrow> 'b \<Rightarrow> string \<Rightarrow> bytes \<Rightarrow> bool \<Rightarrow> 32 word \<Rightarrow> 'b \<times> store_err option" where
  "gcs_PutCRC cl g b objectName reader newObject crc = putObject cl g b objectName reader newObject"

definition gcs_Delete :: "'b gcsClient \<Rightarrow> gcs \<Rightarrow> 'b \<Rightarrow> string \<Rightarrow> 'b \<times> store_err option" where
  "gcs_Delete cl g b objectName =
     (case cl_Delete cl b (getFullObjectName g objectName) of
        (b', e) \<Rightarrow> (b', map_option toSentinelErrors e))"

definition gcs_KeysPrefix ::
  "'b gcsClient \<Rightarrow> gcs \<Rightarrow> 'b \<Rightarrow> string \<Rightarrow> string \<Rightarrow> string \<Rightarrow> nat \<Rightarrow> (store_err, string list \<times> string) res" where
  "gcs_KeysPrefix cl g b pageToken pfx delimiter cnt =
     (case cl_NextPage cl b (getFullObjectName g pfx) delimiter cnt pageToken of
        Inl e \<Rightarrow> Inl (toSentinelErrors e)
      | Inr (objects, next) \<Rightarrow>
          Inr (map (\<lambda>(p, n). getRelObjectName g (if p \<noteq> '''' then p else n)) objects, next))"

text \<open>\<open>Keys\<close> asks for pages of a million keys until the service gives no further token.\<close>

partial_function (option) gcs_Keys_loop ::
  "'b gcsClient \<Rightarrow> gcs \<Rightarrow> 'b \<Rightarrow> string \<Rightarrow> string list \<Rightarrow> (store_err, string list) res option" where
  "gcs_Keys_loop cl g b pageToken keys =
     (case gcs_KeysPrefix cl g b pageToken '''' '''' 1000000 of
        Inl e \<Rightarrow> Some (Inl e)
      | Inr (keysCurr, nextPageToken) \<Rightarrow>
          if nextPageToken = '''' then Some (Inr (keys @ keysCurr))
          else gcs_Keys_loop cl g b nextPageToken (keys @ keysCurr))"

definition gcs_Keys :: "'b gcsClient \<Rightarrow> gcs \<Rightarrow> 'b \<Rightarrow> (store_err, string list) res option" where
  "gcs_Keys cl g b = gcs_Keys_loop cl g b '''' []"

definition gcs_Clear :: "'b \<Rightarrow> 'b \<times> store_err option" where
  "gcs_Clear b = (b, Some ErrNotImplemented)"

definition gcs_store :: "'b gcsClient \<Rightarrow> gcs \<Rightarrow> 'b Store" where
  "gcs_store cl g = \<lparr>st_Has = gcs_Has cl g, st_Get = gcs_Get cl g, st_GetAttr = gcs_GetAttr cl g,
     st_Put = gcs_Put cl g, st_PutCRC = Some (gcs_PutCRC cl g), st_Delete = gcs_Delete cl g,
     st_Keys = gcs_Keys cl g, st_KeysPrefix = gcs_KeysPrefix cl g, st_Clear = gcs_Clear, st_piped = True\<rparr>"

lemma gcs_store_simps [simp]:
  "st_piped (gcs_store cl g)" "st_Has (gcs_store cl g) = gcs_Has cl g" "st_Get (gcs_store cl g) = gcs_Get cl g"
  "st_GetAttr (gcs_store cl g) = gcs_GetAttr cl g" "st_Put (gcs_store cl g) = gcs_Put cl g"
  "st_PutCRC (gcs_store cl g) = Some (gcs_PutCRC cl g)"
  "st_Delete (gcs_store cl g) = gcs_Delete cl g"
  by (simp_all add: gcs_store_def)

section \<open>The backend on a bucket without failures\<close>

text \<open>
  What the service documents: reads and attributes answer for existing objects and say
  \<open>ObjectNotExist\<close> for the others; an upload whose precondition holds creates or replaces the
  object when the writer is closed, one whose precondition fails is refused; a deletion removes an
  existing object. Nothing here speaks of the backend's own code.
\<close>

locale bucket_api =
  fixes cl :: "'b gcsClient"
    and objects :: "'b \<Rightarrow> string \<Rightarrow> bytes option"
  assumes attrs_none: "objects b n = None \<Longrightarrow> cl_Attrs cl b n = Inl ObjectNotExist"
    and attrs_some: "objects b n = Some d \<Longrightarrow>
      \<exists>t. cl_Attrs cl b n = Inr \<lparr>attr_Updated = t, attr_Size = length d, attr_CRC32C = crc32c d\<rparr>"
    and read: "cl_Read cl b n = (case objects b n of None \<Rightarrow> Inl ObjectNotExist | Some d \<Rightarrow> Inr d)"
    and upload_ok: "\<not> (new \<and> objects b n \<noteq> None) \<Longrightarrow>
      \<exists>b'. cl_Upload cl b n new d = (b', None) \<and> objects b' = (objects b)(n \<mapsto> d)"
    and upload_refused: "new \<Longrightarrow> objects b n \<noteq> None \<Longrightarrow>
      \<exists>b' e. cl_Upload cl b n new d = (b', Some e) \<and> objects b' = objects b"
    and delete_some: "objects b n \<noteq> None \<Longrightarrow>
      \<exists>b'. cl_Delete cl b n = (b', None) \<and> objects b' = (objects b)(n := None)"
    and delete_none: "objects b n = None \<Longrightarrow> cl_Delete cl b n = (b, Some ObjectNotExist)"
begin

lemma put_attempts_refused:
  assumes "new" and "objects b n \<noteq> None"
  shows "\<exists>b' e. put_attempts cl tries b n d new = (b', Some e) \<and> objects b' = objects b"
  using assms
proof (induction tries arbitrary: b d)
  case 0
  with upload_refused [of new b n d] show ?case by (auto simp: put_attempts.simps [of _ 0])
next
  case (Suc t)
  from upload_refused [OF Suc.prems, of d] obtain b' e
    where up: "cl_Upload cl b n new d = (b', Some e)" "objects b' = objects b" by blast
  with Suc.IH [of b' "drop (cl_Taken cl b n d) d"] Suc.prems show ?case by (auto simp: put_attempts.simps [of _ "Suc t"])
qed

lemma put_attempts_ok:
  "\<not> (new \<and> objects b n \<noteq> None) \<Longrightarrow>
   \<exists>b'. put_attempts cl tries b n d new = (b', None) \<and> objects b' = (objects b)(n \<mapsto> d)"
  using upload_ok [of new b n d] by (auto simp: put_attempts.simps [of cl tries])

end

text \<open>Prefixing every name with the configured key prefix keeps the names apart.\<close>

definition gcs_content :: "('b \<Rightarrow> string \<Rightarrow> bytes option) \<Rightarrow> gcs \<Rightarrow> 'b \<Rightarrow> string \<Rightarrow> bytes option" where
  "gcs_content objects g b k = objects b (getFullObjectName g k)"

lemma full_name_inj [simp]: "getFullObjectName g k = getFullObjectName g k' \<longleftrightarrow> k = k'"
  by (simp add: getFullObjectName_def)

lemma gcs_content_upd:
  "objects b' = (objects b)(getFullObjectName g k := v) \<Longrightarrow>
   gcs_content objects g b' = (gcs_content objects g b)(k := v)"
  by (auto simp: gcs_content_def fun_eq_iff)

sublocale bucket_api \<subseteq> gcs: object_store "gcs_store cl g" "gcs_content objects g" for g
proof
  fix s k b and excl :: bool
  show "st_Has (gcs_store cl g) s k = Inr (gcs_content objects g s k \<noteq> None)"
    using attrs_some [of s "getFullObjectName g k"]
    by (cases "objects s (getFullObjectName g k)") (auto simp: gcs_Has_def gcs_content_def attrs_none)
  show "st_Get (gcs_store cl g) s k =
      (case gcs_content objects g s k of None \<Rightarrow> Inl ErrNotExists | Some b \<Rightarrow> Inr b)"
    by (auto simp: gcs_Get_def gcs_content_def read split: option.splits)
  show "gcs_content objects g s k = None \<Longrightarrow> \<exists>e. st_GetAttr (gcs_store cl g) s k = Inl e"
    by (auto simp: gcs_GetAttr_def gcs_content_def attrs_none)
  show "gcs_content objects g s k = Some b \<Longrightarrow>
      \<exists>a. st_GetAttr (gcs_store cl g) s k = Inr a \<and> attr_Size a = length b
        \<and> (attr_CRC32C a = 0 \<or> attr_CRC32C a = crc32c b)"
    using attrs_some [of s "getFullObjectName g k" b] by (auto simp: gcs_GetAttr_def gcs_content_def)
  show "\<not> (excl \<and> gcs_content objects g s k \<noteq> None) \<Longrightarrow>
      \<exists>s'. st_Put (gcs_store cl g) s k b excl = (s', None)
        \<and> gcs_content objects g s' = (gcs_content objects g s)(k \<mapsto> b)"
    using put_attempts_ok [of excl s "getFullObjectName g k" "gcs_tries g" b] gcs_content_upd
    by (fastforce simp: gcs_Put_def putObject_def gcs_content_def)
  show "excl \<Longrightarrow> gcs_content objects g s k \<noteq> None \<Longrightarrow>
      \<exists>s' e. st_Put (gcs_store cl g) s k b excl = (s', Some e)
        \<and> gcs_content objects g s' = gcs_content objects g s"
    using put_attempts_refused [of excl s "getFullObjectName g k" "gcs_tries g" b]
    by (fastforce simp: gcs_Put_def putObject_def gcs_content_def fun_eq_iff)
  show "st_PutCRC (gcs_store cl g) = Some f \<Longrightarrow>
      f s k b excl (crc32c b) = st_Put (gcs_store cl g) s k b excl" for f
    by (auto simp: gcs_PutCRC_def gcs_Put_def)
  show "gcs_content objects g (fst (st_Delete (gcs_store cl g) s k)) =
      (gcs_content objects g s)(k := None)"
  proof (cases "objects s (getFullObjectName g k)")
    case None
    then show ?thesis by (auto simp: gcs_Delete_def gcs_content_def delete_none fun_eq_iff)
  next
    case (Some d)
    with delete_some [of s "getFullObjectName g k"] obtain b' where
      "cl_Delete cl s (getFullObjectName g k) = (b', None)"
      "objects b' = (objects s)(getFullObjectName g k := None)" by auto
    then show ?thesis by (simp add: gcs_Delete_def gcs_content_upd)
  qed
  show "gcs_content objects g s k \<noteq> None \<Longrightarrow> snd (st_Delete (gcs_store cl g) s k) = None"
    using delete_some [of s "getFullObjectName g k"] by (auto simp: gcs_Delete_def gcs_content_def)
qed

context bucket_api
begin

lemma is_store: "object_store (gcs_store cl g) (gcs_content objects g)"
  by unfold_locales

end

lemmas gcs_is_store = bucket_api.is_store

section \<open>A bucket in memory\<close>

text \<open>
  The service's contract is met by a bucket kept as an association of names with contents, whose
  first \<open>failures\<close> uploads fail with a transient error before they store anything: with no
  failures left it satisfies \<open>bucket_api\<close>.
\<close>

record bucket =
  bk_objects :: "(string \<times> bytes) list"
  bk_failures :: nat

definition mem_Attrs :: "bucket \<Rightarrow> string \<Rightarrow> (gcs_err, Attributes) res" where
  "mem_Attrs b n = (case map_of (bk_objects b) n of
      None \<Rightarrow> Inl ObjectNotExist
    | Some d \<Rightarrow> Inr \<lparr>attr_Updated = 0, attr_Size = length d, attr_CRC32C = crc32c d\<rparr>)"

definition mem_Read :: "bucket \<Rightarrow> string \<Rightarrow> (gcs_err, bytes) res" where
  "mem_Read b n = (case map_of (bk_objects b) n of None \<Rightarrow> Inl ObjectNotExist | Some d \<Rightarrow> Inr d)"

definition mem_Upload :: "bucket \<Rightarrow> string \<Rightarrow> bool \<Rightarrow> bytes \<Rightarrow> bucket \<times> gcs_err option" where
  "mem_Upload b n new d =
     (if bk_failures b \<noteq> 0
      then (b\<lparr>bk_failures := bk_failures b - 1\<rparr>, Some (GoogleApi 503 '''' ''backend error''))
      else if new \<and> map_of (bk_objects b) n \<noteq> None
      then (b, Some (GoogleApi 412 '''' ''precondition failed''))
      else (b\<lparr>bk_objects := (n, d) # bk_objects b\<rparr>, None))"

definition mem_Delete :: "bucket \<Rightarrow> string \<Rightarrow> bucket \<times> gcs_err option" where
  "mem_Delete b n =
     (if map_of (bk_objects b) n = None then (b, Some ObjectNotExist)
      else (b\<lparr>bk_objects := filter (\<lambda>p. fst p \<noteq> n) (bk_objects b)\<rparr>, None))"

text \<open>A listing gives names, or up to a delimiter the prefixes they have in common, in one page.\<close>

definition page_item :: "string \<Rightarrow> string \<Rightarrow> string \<Rightarrow> string \<times> string" where
  "page_item pfx delim n =
     (case delim of [] \<Rightarrow> ('''', n)
      | d # _ \<Rightarrow> let rest = drop (length pfx) n in
          if d \<in> set rest then (pfx @ takeWhile (\<lambda>c. c \<noteq> d) rest @ [d], '''') else ('''', n))"

definition mem_NextPage ::
  "bucket \<Rightarrow> string \<Rightarrow> string \<Rightarrow> nat \<Rightarrow> string \<Rightarrow> (gcs_err, (string \<times> string) list \<times> string) res" where
  "mem_NextPage b pfx delim cnt tok =
     Inr (remdups (map (page_item pfx delim \<circ> fst) (filter (\<lambda>p. strip_prefix pfx (fst p) \<noteq> None) (bk_objects b))), '''')"

definition mem_client :: "bucket gcsClient" where
  "mem_client = \<lparr>cl_Attrs = mem_Attrs, cl_Read = mem_Read, cl_Upload = mem_Upload, cl_Taken = (\<lambda>b n d. length d),
     cl_Delete = mem_Delete, cl_NextPage = mem_NextPage\<rparr>"

text \<open>The same bucket with its failure counter held at zero.\<close>

definition steady :: "(string \<times> bytes) list \<Rightarrow> bucket" where
  "steady os = \<lparr>bk_objects = os, bk_failures = 0\<rparr>"

definition steady_client :: "(string \<times> bytes) list gcsClient" where
  "steady_client = \<lparr>cl_Attrs = (\<lambda>os. mem_Attrs (steady os)), cl_Read = (\<lambda>os. mem_Read (steady os)),
     cl_Upload = (\<lambda>os n new d. map_prod bk_objects id (mem_Upload (steady os) n new d)),
     cl_Taken = (\<lambda>os n d. length d), cl_Delete = (\<lambda>os n. map_prod bk_objects id (mem_Delete (steady os) n)),
     cl_NextPage = (\<lambda>os. mem_NextPage (steady os))\<rparr>"

interpretation steady: bucket_api steady_client map_of
  by unfold_locales
    (auto simp: steady_client_def steady_def mem_Attrs_def mem_Read_def mem_Upload_def
      mem_Delete_def map_of_filter_neq split: option.splits)

text \<open>The same with a time of last change for each name.\<close>

definition dated_client :: "(string \<Rightarrow> nat) \<Rightarrow> (string \<times> bytes) list gcsClient" where
  "dated_client t = steady_client\<lparr>cl_Attrs := (\<lambda>os n. map_sum id (\<lambda>a. a\<lparr>attr_Updated := t n\<rparr>) (mem_Attrs (steady os) n))\<rparr>"

interpretation dated: bucket_api "dated_client t" map_of for t
  by unfold_locales
    (auto simp: dated_client_def steady_client_def steady_def mem_Attrs_def mem_Read_def mem_Upload_def
      mem_Delete_def map_of_filter_neq split: option.splits)

section \<open>Retried writes\<close>

text \<open>The bytes that the failed attempts of a write have taken out of the reader.\<close>

fun taken_by_failures :: "'b gcsClient \<Rightarrow> nat \<Rightarrow> 'b \<Rightarrow> string \<Rightarrow> bytes \<Rightarrow> bool \<Rightarrow> nat" where
  "taken_by_failures cl tries b name reader newObject =
     (case (cl_Upload cl b name newObject reader, tries) of
        ((b', Some e), Suc n) \<Rightarrow>
          cl_Taken cl b name reader + taken_by_failures cl n b' name (drop (cl_Taken cl b name reader) reader) newObject
      | _ \<Rightarrow> 0)"

declare taken_by_failures.simps [simp del]

lemma put_attempts_stored:
  assumes "\<And>b n new d b'. cl_Upload cl b n new d = (b', None) \<Longrightarrow> cl_Read cl b' n = Inr d"
  shows "put_attempts cl tries b n d new = (b', None) \<Longrightarrow> cl_Read cl b' n = Inr (drop (taken_by_failures cl tries b n d new) d)"
proof (induction tries arbitrary: b d)
  case 0
  then show ?case
    using assms by (auto simp: put_attempts.simps [of _ 0] taken_by_failures.simps [of _ 0] split: prod.splits option.splits)
next
  case (Suc t)
  obtain b1 e where up: "cl_Upload cl b n new d = (b1, e)" by fastforce
  show ?case
  proof (cases e)
    case None
    with up Suc.prems assms [of b n new d b1] show ?thesis
      by (simp add: put_attempts.simps [of _ "Suc t"] taken_by_failures.simps [of _ "Suc t"])
  next
    case (Some x)
    with up Suc.prems Suc.IH [of b1 "drop (cl_Taken cl b n d) d"] show ?thesis
      by (simp add: put_attempts.simps [of _ "Suc t"] taken_by_failures.simps [of _ "Suc t"] add.commute)
  qed
qed

text \<open>
  C36: a write to Google Cloud Storage that reports success has stored the data without the bytes that failed attempts have taken: the
  retries go on with the same reader. Unless no attempt has failed after taking something, the object that is read back is not what
  was written: it is empty when the failed attempt had sent everything, and has lost its beginning when the failure came on the way.
\<close>

theorem gcs_put_loses_start:
  assumes "\<And>b n new d b'. cl_Upload cl b n new d = (b', None) \<Longrightarrow> cl_Read cl b' n = Inr d"
    and "st_Put (gcs_store cl g) b k d new = (b', None)"
  shows "st_Get (gcs_store cl g) b' k = Inr (drop (taken_by_failures cl (gcs_tries g) b (getFullObjectName g k) d new) d)"
proof -
  from assms(2) have "put_attempts cl (gcs_tries g) b (getFullObjectName g k) d new = (b', None)"
    by (auto simp: gcs_Put_def putObject_def split: prod.splits)
  from put_attempts_stored [OF assms(1) this] show ?thesis by (simp add: gcs_Get_def)
qed

text \<open>The first upload fails after it has taken two bytes.\<close>

definition failing_client :: "bucket gcsClient" where
  "failing_client = mem_client\<lparr>cl_Taken := (\<lambda>b n d. 2)\<rparr>"

lemma failing_client_reads: "cl_Upload failing_client b n new d = (b', None) \<Longrightarrow> cl_Read failing_client b' n = Inr d"
  by (auto simp: failing_client_def mem_client_def mem_Upload_def mem_Read_def split: if_splits)

theorem gcs_put_loses_start_witness:
  "let g = \<lparr>gcs_keyPrefix = '''', gcs_tries = 1\<rparr>;
       (b', err) = st_Put (gcs_store failing_client g) \<lparr>bk_objects = [], bk_failures = 1\<rparr> ''blob'' [1, 2, 3] OverWrite
   in err = None \<and> st_Get (gcs_store failing_client g) b' ''blob'' = Inr [3]"
proof -
  let ?g = "\<lparr>gcs_keyPrefix = '''', gcs_tries = 1\<rparr>" and ?b = "\<lparr>bk_objects = [], bk_failures = 1\<rparr>"
  obtain b' where put: "st_Put (gcs_store failing_client ?g) ?b ''blob'' [1, 2, 3] OverWrite = (b', None)"
    by (simp add: gcs_Put_def putObject_def put_attempts.simps [of _ "Suc 0"] put_attempts.simps [of _ 0] failing_client_def mem_client_def
        mem_Upload_def getFullObjectName_def OverWrite_def)
  have "taken_by_failures failing_client 1 ?b ''blob'' [1, 2, 3] OverWrite = 2"
    by (simp add: taken_by_failures.simps [of _ "Suc 0"] taken_by_failures.simps [of _ 0] failing_client_def mem_client_def mem_Upload_def OverWrite_def)
  with gcs_put_loses_start [OF failing_client_reads put] put show ?thesis by (simp add: getFullObjectName_def)
qed

text \<open>
  C35: over a service that behaves as documented the backend is a faithful object store, whatever its key
  prefix and retry policy: an exclusive write to a name in use is refused and leaves every object
  as it was, any other write succeeds, is read back unchanged, and touches no other name.
\<close>

theorem gcs_put_get:
  assumes "bucket_api cl objects"
  shows "let (b', err) = st_Put (gcs_store cl g) b k d excl;
       read = st_Get (gcs_store cl g)
   in (if excl \<and> read b k \<noteq> Inl ErrNotExists then err \<noteq> None \<and> read b' = read b
       else err = None \<and> read b' = (read b)(k := Inr d))"
proof -
  let ?c = "gcs_content objects g"
  have st: "object_store (gcs_store cl g) ?c" using assms by (rule gcs_is_store)
  have get: "st_Get (gcs_store cl g) b k' = (case ?c b k' of None \<Rightarrow> Inl ErrNotExists | Some b \<Rightarrow> Inr b)" for b k'
    by (rule object_store.get [OF st])
  show ?thesis
  proof (cases "excl \<and> ?c b k \<noteq> None")
    case True
    with object_store.put_exists [OF st, of excl b k d] obtain s' e where
      "st_Put (gcs_store cl g) b k d excl = (s', Some e)" "?c s' = ?c b" by auto
    with True show ?thesis
      by (auto simp: get [simplified] Let_def fun_eq_iff split: option.splits)
  next
    case False
    with object_store.put_new [OF st, of excl b k d] obtain s' where
      "st_Put (gcs_store cl g) b k d excl = (s', None)" "?c s' = (?c b)(k \<mapsto> d)"
      by auto
    with False show ?thesis
      by (auto simp: get [simplified] Let_def fun_eq_iff split: option.splits)
  qed
qed

theorem gcs_put_get_witness:
  "let (b', err) = st_Put (gcs_store steady_client \<lparr>gcs_keyPrefix = ''p/'', gcs_tries = 0\<rparr>) [(''p/x'', [1])] ''y'' [2] True;
       read = st_Get (gcs_store steady_client \<lparr>gcs_keyPrefix = ''p/'', gcs_tries = 0\<rparr>) b'
   in err = None \<and> read ''x'' = Inr [1] \<and> read ''y'' = Inr [2]"
proof -
  let ?g = "\<lparr>gcs_keyPrefix = ''p/'', gcs_tries = 0\<rparr>"
  have "st_Get (gcs_store steady_client ?g) [(''p/x'', [1])] ''y'' = Inl ErrNotExists" "st_Get (gcs_store steady_client ?g) [(''p/x'', [1])] ''x'' = Inr [1]"
    by (simp_all add: gcs_Get_def steady_client_def steady_def mem_Read_def getFullObjectName_def)
  with gcs_put_get [OF steady.bucket_api_axioms, of ?g "[(''p/x'', [1])]" "''y''" "[2]" True] show ?thesis
    by (auto simp: Let_def split: prod.splits)
qed

end
