(* ===== verification/CafsKeys.thy ===== *)
theory CafsKeys
  imports ObjectStore
begin

text \<open>
  Keys of the content-addressable file system: \<open>pkg/cafs/key.go\<close> and \<open>pkg/cafs/hasher.go\<close>. The
  tree-mode BLAKE2b hash of \<open>github.com/minio/blake2b-simd\<close> is a parameter of the definitions.
\<close>

section \<open>Keys\<close>

definition KeySize :: nat where "KeySize = 64"

type_synonym Key = bytes

datatype cafs_err =
    BadKeySize bytes
  | BadHex
  | HashErr string
  | TooShortForKey
  | NotTheRootKey
  | LeavesChecksum
  | StoreErr store_err
  | SegmentErr store_err
  | VerifySize
  | VerifyCRC
  | ClosedUnflushed
  | HashVerificationFailed
  | SourceErr string
  | CacheErr string
  | LeafTooLarge nat
  | LeafTooSmall nat

text \<open>
  \<open>NewKey\<close> copies the data into an array of \<open>KeySize\<close> bytes: the copy stops at the end of the
  array, so that only a buffer that is too short is refused.
\<close>

definition NewKey :: "bytes \<Rightarrow> (cafs_err, Key) res" where
  "NewKey data =
     (let k = take KeySize data; n = length k
      in if n \<noteq> KeySize then Inl (BadKeySize data) else Inr k)"

definition MustNewKey :: "bytes \<Rightarrow> (panic, Key) res" where
  "MustNewKey data = (case NewKey data of Inl e \<Rightarrow> Inl (ExplicitPanic ''BadKeySize'') | Inr k \<Rightarrow> Inr k)"

definition Key_String :: "Key \<Rightarrow> string" where
  "Key_String k = hex_encode k"

definition StringWithPrefix :: "string \<Rightarrow> Key \<Rightarrow> string" where
  "StringWithPrefix pfx k = pfx @ Key_String k"

definition KeyFromString :: "string \<Rightarrow> (cafs_err, Key) res" where
  "KeyFromString kv = (case hex_decode kv of None \<Rightarrow> Inl BadHex | Some vb \<Rightarrow> NewKey vb)"

section \<open>Hashing\<close>

text \<open>
  The fields of the BLAKE2b configuration that vary between calls; the others are the same
  everywhere (unlimited fanout, depth two, 64-byte digests).
\<close>

record blake_cfg =
  cfg_LeafSize :: nat
  cfg_NodeOffset :: nat
  cfg_NodeDepth :: nat
  cfg_IsLastNode :: bool

text \<open>Creating a hasher, writing the data and taking the sum; \<open>Inl\<close> when the hasher refuses the configuration.\<close>

type_synonym hasher = "blake_cfg \<Rightarrow> bytes \<Rightarrow> (string, bytes) res"

text \<open>
  What the package documents of its hasher for these configurations: it does not fail and digests
  have 64 bytes.
\<close>

definition blake_ok :: "hasher \<Rightarrow> bool" where
  "blake_ok H \<longleftrightarrow> (\<forall>cfg data. cfg_NodeDepth cfg \<le> 1 \<longrightarrow>
     (\<exists>d. H cfg data = Inr d \<and> length d = KeySize))"

definition digest_key :: "(string, bytes) res \<Rightarrow> (cafs_err, Key) res" where
  "digest_key r = (case r of Inl e \<Rightarrow> Inl (HashErr e) | Inr d \<Rightarrow> NewKey d)"

definition rootHash :: "hasher \<Rightarrow> Key list \<Rightarrow> nat \<Rightarrow> (cafs_err, Key) res" where
  "rootHash H leaves leafSize =
     digest_key (H \<lparr>cfg_LeafSize = leafSize, cfg_NodeOffset = 0, cfg_NodeDepth = 1,
                    cfg_IsLastNode = True\<rparr> (concat leaves))"

definition keyFromBytes :: "hasher \<Rightarrow> bytes \<Rightarrow> nat \<Rightarrow> nat \<Rightarrow> bool \<Rightarrow> (cafs_err, Key) res" where
  "keyFromBytes H data leafSize n isLastNode =
     digest_key (H \<lparr>cfg_LeafSize = leafSize, cfg_NodeOffset = n, cfg_NodeDepth = 0,
                    cfg_IsLastNode = isLastNode\<rparr> data)"

section \<open>The content of a root blob\<close>

text \<open>
  \<open>leaves\<close> cuts a buffer into keys; the slice that \<open>MustNewKey\<close> gets always has \<open>KeySize\<close> bytes,
  so that the call cannot panic (\<open>MustNewKey_slice\<close> below).
\<close>

function leaves :: "bytes \<Rightarrow> (cafs_err, Key list) res" where
  "leaves data =
     (if data = [] then Inr []
      else if length data < KeySize then Inl (BadKeySize data)
      else rbind (leaves (drop KeySize data)) (\<lambda>ks. Inr (take KeySize data # ks)))"
  by pat_completeness auto
termination
  by (relation "measure length") (auto simp: KeySize_def)

declare leaves.simps [simp del]

definition verificationKey :: "bytes \<Rightarrow> (cafs_err, Key) res" where
  "verificationKey data =
     (if length data < KeySize then Inl TooShortForKey
      else Inr (drop (length data - KeySize) data))"

definition verifiedKeys :: "hasher \<Rightarrow> bytes \<Rightarrow> nat \<Rightarrow> (cafs_err, Key list) res" where
  "verifiedKeys H data leafSize =
     rbind (verificationKey data) (\<lambda>verify.
     rbind (leaves (take (length data - KeySize) data)) (\<lambda>keys.
     rbind (rootHash H keys leafSize) (\<lambda>checksum.
       if verify \<noteq> checksum then Inl LeavesChecksum else Inr keys)))"

definition LeafKeys :: "hasher \<Rightarrow> Key \<Rightarrow> bytes \<Rightarrow> nat \<Rightarrow> (cafs_err, Key list) res" where
  "LeafKeys H root data leafSize =
     rbind (verificationKey data) (\<lambda>verify.
       if root \<noteq> verify then Inl NotTheRootKey else verifiedKeys H data leafSize)"

definition UnverifiedLeafKeys :: "bytes \<Rightarrow> (panic, Key list) res" where
  "UnverifiedLeafKeys data =
     (case leaves data of Inl e \<Rightarrow> Inl (ExplicitPanic ''BadKeySize'') | Inr ks \<Rightarrow> Inr ks)"

definition bytesFromRoot :: "'s Store \<Rightarrow> 's \<Rightarrow> Key \<Rightarrow> string \<Rightarrow> (cafs_err, bytes) res" where
  "bytesFromRoot st s hash pfx =
     (case st_Get st s (StringWithPrefix pfx hash) of Inl e \<Rightarrow> Inl (StoreErr e) | Inr b \<Rightarrow> Inr b)"

definition leavesForHash ::
  "hasher \<Rightarrow> 's Store \<Rightarrow> 's \<Rightarrow> Key \<Rightarrow> nat \<Rightarrow> string \<Rightarrow> (cafs_err, Key list) res" where
  "leavesForHash H st s hash leafSize pfx =
     rbind (bytesFromRoot st s hash pfx) (\<lambda>b. verifiedKeys H b leafSize)"

definition IsRootKey :: "hasher \<Rightarrow> 's Store \<Rightarrow> 's \<Rightarrow> Key \<Rightarrow> nat \<Rightarrow> bool" where
  "IsRootKey H st s key leafSize =
     (case leavesForHash H st s key leafSize '''' of Inl e \<Rightarrow> False | Inr keys \<Rightarrow> length keys > 0)"

section \<open>Properties of keys\<close>

abbreviation is_key :: "bytes \<Rightarrow> bool" where
  "is_key k \<equiv> length k = KeySize"

lemma NewKey_Inr: "NewKey d = Inr k \<longleftrightarrow> KeySize \<le> length d \<and> k = take KeySize d"
  by (auto simp: NewKey_def Let_def)

lemma NewKey_key [simp]: "is_key k \<Longrightarrow> NewKey k = Inr k"
  by (simp add: NewKey_Inr)

lemma NewKey_length: "NewKey d = Inr k \<Longrightarrow> is_key k"
  by (simp add: NewKey_Inr)

lemma digest_key_length: "digest_key r = Inr k \<Longrightarrow> is_key k"
  by (auto simp: digest_key_def NewKey_length split: sum.splits)

lemma rootHash_length: "rootHash H ks l = Inr r \<Longrightarrow> is_key r"
  by (auto simp: rootHash_def digest_key_length)

lemma keyFromBytes_length: "keyFromBytes H d l n b = Inr k \<Longrightarrow> is_key k"
  by (auto simp: keyFromBytes_def digest_key_length)

lemma blake_digest:
  assumes "blake_ok H" and "cfg_NodeDepth cfg \<le> 1"
  shows "\<exists>k. digest_key (H cfg d) = Inr k \<and> is_key k"
proof -
  from assms obtain k where "H cfg d = Inr k" "is_key k" unfolding blake_ok_def by blast
  then show ?thesis by (simp add: digest_key_def)
qed

lemma rootHash_total: "blake_ok H \<Longrightarrow> \<exists>r. rootHash H ks l = Inr r \<and> is_key r"
  unfolding rootHash_def by (rule blake_digest) simp_all

lemma keyFromBytes_total: "blake_ok H \<Longrightarrow> \<exists>k. keyFromBytes H d l n b = Inr k \<and> is_key k"
  unfolding keyFromBytes_def by (rule blake_digest) simp_all

lemma KeyFromString_String: "KeyFromString (Key_String k) = NewKey k"
  by (simp add: KeyFromString_def Key_String_def)

lemma Key_String_inj [simp]: "Key_String a = Key_String b \<longleftrightarrow> a = b"
  by (simp add: Key_String_def hex_encode_inj)

lemma StringWithPrefix_inj [simp]: "StringWithPrefix p a = StringWithPrefix p b \<longleftrightarrow> a = b"
  by (simp add: StringWithPrefix_def)

lemma MustNewKey_slice: "KeySize \<le> length d \<Longrightarrow> MustNewKey (take KeySize d) = Inr (take KeySize d)"
  by (simp add: MustNewKey_def)

lemma leaves_Nil [simp]: "leaves [] = Inr []"
  by (subst leaves.simps) simp

lemma leaves_Cons: "is_key k \<Longrightarrow> leaves (k @ d) = rbind (leaves d) (\<lambda>ks. Inr (k # ks))"
  by (subst leaves.simps) (auto simp: KeySize_def)

lemma leaves_concat: "list_all is_key ks \<Longrightarrow> leaves (concat ks) = Inr ks"
  by (induction ks) (auto simp: leaves_Cons)

lemma leaves_Inr: "leaves d = Inr ks \<Longrightarrow> d = concat ks \<and> list_all is_key ks"
proof (induction d arbitrary: ks rule: leaves.induct)
  case (1 data)
  show ?case
  proof (cases "data = [] \<or> length data < KeySize")
    case True
    with "1.prems" show ?thesis
      by (subst (asm) leaves.simps) (auto split: if_splits)
  next
    case False
    with "1.prems" obtain ks' where "leaves (drop KeySize data) = Inr ks'"
        and ks: "ks = take KeySize data # ks'"
      by (subst (asm) leaves.simps) (auto simp: rbind_eq_Inr)
    with "1.IH" False have "drop KeySize data = concat ks'" "list_all is_key ks'" by auto
    with False ks show ?thesis
      by (auto simp: list_all_iff) (metis append_take_drop_id)
  qed
qed

lemma length_concat_keys: "list_all is_key ks \<Longrightarrow> length (concat ks) = length ks * KeySize"
  by (induction ks) auto

text \<open>
  A root blob verifies exactly when it is the concatenation of 64-byte leaf keys followed by
  the root hash of these keys, and the keys returned are those. Whatever a store holds under a
  root key, \<open>verifiedKeys\<close> never accepts anything else.
\<close>

theorem verifiedKeys_iff:
  "verifiedKeys H data l = Inr ks \<longleftrightarrow>
     list_all is_key ks \<and> (\<exists>r. rootHash H ks l = Inr r \<and> data = concat ks @ r)"
proof
  assume "verifiedKeys H data l = Inr ks"
  then obtain v r where v: "verificationKey data = Inr v"
    and ks: "leaves (take (length data - KeySize) data) = Inr ks"
    and r: "rootHash H ks l = Inr r" and eq: "v = r"
    by (auto simp: verifiedKeys_def rbind_eq_Inr split: if_splits)
  from v have "v = drop (length data - KeySize) data"
    by (auto simp: verificationKey_def split: if_splits)
  with leaves_Inr [OF ks] eq have "data = concat ks @ r"
    by (metis append_take_drop_id)
  with leaves_Inr [OF ks] r
  show "list_all is_key ks \<and> (\<exists>r. rootHash H ks l = Inr r \<and> data = concat ks @ r)"
    by blast
next
  assume "list_all is_key ks \<and> (\<exists>r. rootHash H ks l = Inr r \<and> data = concat ks @ r)"
  then obtain r where "list_all is_key ks" "rootHash H ks l = Inr r" "data = concat ks @ r"
    by blast
  with rootHash_length show "verifiedKeys H data l = Inr ks"
    by (simp add: verifiedKeys_def verificationKey_def leaves_concat)
qed

text \<open>
  The textual form of a key is parsed back into the key; a text that encodes fewer than 64
  bytes is refused, while what follows the first 64 bytes of a longer one is dropped silently.
\<close>

theorem key_text_roundtrip:
  "KeyFromString (Key_String d) =
     (if length d < KeySize then Inl (BadKeySize d) else Inr (take KeySize d))"
  by (auto simp: KeyFromString_String NewKey_def Let_def)

end
