(* ===== verification/CafsWriter.thy ===== *)
theory CafsWriter
  imports CafsKeys
begin

text \<open>
  Writing into the content-addressable file system: the blob checks of \<open>pkg/cafs/check_blob.go\<close>
  and the leaf writer of \<open>pkg/cafs/writer.go\<close>. The goroutines that a writer starts for its full
  leaves are kept as a list of jobs; \<open>Flush\<close> takes the order in which they run, which is any
  permutation of that list.
\<close>

section \<open>Blob checks\<close>

definition existsAndValidBlob :: "'s Store \<Rightarrow> 's \<Rightarrow> string \<Rightarrow> bytes \<Rightarrow> bool \<times> bool" where
  "existsAndValidBlob st s pth data =
     (case st_GetAttr st s pth of
        Inl e \<Rightarrow> (False, False)
      | Inr attr \<Rightarrow>
          (True,
           if attr_Size attr = 0 then True
           else if attr_Size attr > 0 \<and> attr_CRC32C attr > 0 then crc32c data \<noteq> attr_CRC32C attr
           else False))"

definition verifyBlob :: "'s Store \<Rightarrow> 's \<Rightarrow> string \<Rightarrow> bytes \<Rightarrow> cafs_err option" where
  "verifyBlob st s pth data =
     (case st_GetAttr st s pth of
        Inl e \<Rightarrow> Some (StoreErr e)
      | Inr attr \<Rightarrow>
          if attr_Size attr \<noteq> length data then Some VerifySize
          else if attr_CRC32C attr > 0 \<and> crc32c data \<noteq> attr_CRC32C attr then Some VerifyCRC
          else None)"

section \<open>The writer\<close>

text \<open>What does not change during the life of a writer.\<close>

record writer_cfg =
  wc_leafSize :: nat
  wc_prefix :: string
  wc_verify :: bool \<comment> \<open>verify each blob right after writing it\<close>

abbreviation pather :: "writer_cfg \<Rightarrow> Key \<Rightarrow> string" where
  "pather c k \<equiv> StringWithPrefix (wc_prefix c) k"

record fsWriter =
  w_buf :: bytes \<comment> \<open>the staged leaf, \<open>leafSize\<close> bytes\<close>
  w_offset :: nat \<comment> \<open>how much of it is used\<close>
  w_count :: nat \<comment> \<open>full leaves handed out so far\<close>
  w_jobs :: "(nat \<times> bytes) list" \<comment> \<open>the \<open>pFlush\<close> goroutines started, with their leaf number\<close>
  w_leaves :: "Key list"
  w_flushed :: bool

definition newWriter :: "writer_cfg \<Rightarrow> fsWriter" where
  "newWriter c = \<lparr>w_buf = replicate (wc_leafSize c) 0, w_offset = 0, w_count = 0, w_jobs = [],
     w_leaves = [], w_flushed = False\<rparr>"

definition writeBlob ::
  "'s Store \<Rightarrow> writer_cfg \<Rightarrow> 's \<Rightarrow> bytes \<Rightarrow> Key \<Rightarrow> 's \<times> cafs_err option" where
  "writeBlob st c s data key =
     (let (found, overwrite) = existsAndValidBlob st s (pather c key) data in
      if found \<and> \<not> overwrite then (s, None)
      else case put_crc st s (pather c key) data OverWrite of
             (s', Some e) \<Rightarrow> (s', Some (SegmentErr e))
           | (s', None) \<Rightarrow>
               if wc_verify c then (s', verifyBlob st s' (pather c key) data) else (s', None))"

text \<open>
  The loop of \<open>Write\<close>. The slice expression \<open>p[written:writable]\<close> panics when its bounds cross.
  The result is \<open>None\<close> when the loop never ends.
\<close>

definition stage :: "fsWriter \<Rightarrow> bytes \<Rightarrow> fsWriter" where
  "stage w src =
     (let n = min (length (w_buf w) - w_offset w) (length src)
      in w\<lparr>w_buf := take (w_offset w) (w_buf w) @ take n src @ drop (w_offset w + n) (w_buf w),
           w_offset := w_offset w + n\<rparr>)"

definition hand_out :: "writer_cfg \<Rightarrow> fsWriter \<Rightarrow> fsWriter" where
  "hand_out c w = w\<lparr>w_count := w_count w + 1, w_jobs := w_jobs w @ [(w_count w + 1, w_buf w)],
     w_buf := replicate (wc_leafSize c) 0, w_offset := 0\<rparr>"

partial_function (option) write_loop ::
  "writer_cfg \<Rightarrow> fsWriter \<Rightarrow> bytes \<Rightarrow> nat \<Rightarrow> (panic, fsWriter \<times> nat) res option" where
  "write_loop c w p written =
     (if written = length p then Some (Inr (w, length p))
      else let room = length (w_buf w) - w_offset w;
               writable = (if length p < room then length p else room) in
        if writable < written then Some (Inl SliceBounds)
        else let src = take (writable - written) (drop written p);
                 w1 = stage w src;
                 written1 = written + (w_offset w1 - w_offset w) in
          if w_offset w1 = length (w_buf w1)
          then write_loop c (hand_out c w1) p written1
          else write_loop c w1 p written1)"

definition Write :: "writer_cfg \<Rightarrow> fsWriter \<Rightarrow> bytes \<Rightarrow> (panic, fsWriter \<times> nat) res option" where
  "Write c w p = write_loop c w p 0"

section \<open>Flushing\<close>

text \<open>One \<open>pFlush\<close> goroutine: hash the leaf, write the blob, report the key or the error.\<close>

definition pFlush ::
  "hasher \<Rightarrow> 's Store \<Rightarrow> writer_cfg \<Rightarrow> 's \<Rightarrow> nat \<times> bytes \<Rightarrow> 's \<times> (cafs_err, nat \<times> Key) res" where
  "pFlush H st c s job =
     (case job of (cnt, buffer) \<Rightarrow>
       (case keyFromBytes H buffer (wc_leafSize c) cnt False of
          Inl e \<Rightarrow> (s, Inl e)
        | Inr leafKey \<Rightarrow>
            (case writeBlob st c s buffer leafKey of
               (s', Some e) \<Rightarrow> (s', Inl e)
             | (s', None) \<Rightarrow> (s', Inr (cnt, leafKey)))))"

text \<open>\<open>flushThread\<close> collects the reports of the goroutines, in the order they arrive.\<close>

fun flushThread ::
  "hasher \<Rightarrow> 's Store \<Rightarrow> writer_cfg \<Rightarrow> 's \<Rightarrow> (nat \<times> bytes) list \<Rightarrow>
   's \<times> (nat \<times> Key) list \<times> cafs_err list" where
  "flushThread H st c s [] = (s, [], [])"
| "flushThread H st c s (job # jobs) =
     (case pFlush H st c s job of
        (s1, r) \<Rightarrow>
          (case flushThread H st c s1 jobs of
             (s2, blobFlushes, errors) \<Rightarrow>
               (case r of
                  Inl e \<Rightarrow> (s2, blobFlushes, e # errors)
                | Inr bf \<Rightarrow> (s2, bf # blobFlushes, errors))))"

text \<open>\<open>flush\<close> writes what is staged as the last leaf, numbered by the leaves before it.\<close>

definition flush_last ::
  "hasher \<Rightarrow> 's Store \<Rightarrow> writer_cfg \<Rightarrow> 's \<Rightarrow> fsWriter \<Rightarrow> bool \<Rightarrow> 's \<times> (cafs_err, fsWriter) res" where
  "flush_last H st c s w isLastNode =
     (if w_offset w = 0 then (s, Inr w)
      else let data = take (w_offset w) (w_buf w) in
        case keyFromBytes H data (wc_leafSize c) (length (w_leaves w)) isLastNode of
          Inl e \<Rightarrow> (s, Inl e)
        | Inr leafKey \<Rightarrow>
            (case writeBlob st c s data leafKey of
               (s', Some e) \<Rightarrow> (s', Inl e)
             | (s', None) \<Rightarrow> (s', Inr (w\<lparr>w_offset := 0, w_leaves := w_leaves w @ [leafKey]\<rparr>))))"

definition place_leaves :: "(nat \<times> Key) list \<Rightarrow> (panic, Key list) res" where
  "place_leaves blobFlushes =
     (let n = length blobFlushes in
      if list_all (\<lambda>(cnt, k). 1 \<le> cnt \<and> cnt \<le> n) blobFlushes
      then Inr (place (replicate n (replicate KeySize 0))
             (map (\<lambda>(cnt, k). (cnt - 1, k)) blobFlushes))
      else Inl IndexOutOfRange)"

text \<open>
  \<open>Flush\<close>, with the order in which the goroutines run. The writer that comes back records that it
  has been flushed; the first error, if there is one, is returned.
\<close>

definition Flush ::
  "hasher \<Rightarrow> 's Store \<Rightarrow> writer_cfg \<Rightarrow> (nat \<times> bytes) list \<Rightarrow> 's \<Rightarrow> fsWriter \<Rightarrow>
   's \<times> (panic, fsWriter \<times> (cafs_err, Key \<times> bytes) res) res" where
  "Flush H st c order s w =
     (case flushThread H st c s order of
        (s1, blobFlushes, errors) \<Rightarrow>
          (case errors of
             e # _ \<Rightarrow> (s1, Inr (w, Inl e))
           | [] \<Rightarrow>
               (case place_leaves blobFlushes of
                  Inl p \<Rightarrow> (s1, Inl p)
                | Inr ls \<Rightarrow>
                    let w1 = w\<lparr>w_leaves := ls, w_flushed := True\<rparr> in
                    (case flush_last H st c s1 w1 True of
                       (s2, Inl e) \<Rightarrow> (s2, Inr (w1, Inl e))
                     | (s2, Inr w2) \<Rightarrow>
                         (case rootHash H (w_leaves w2) (wc_leafSize c) of
                            Inl e \<Rightarrow> (s2, Inr (w2, Inl e))
                          | Inr rhash \<Rightarrow> (s2, Inr (w2, Inr (rhash, concat (w_leaves w2)))))))))"

definition Close :: "fsWriter \<Rightarrow> fsWriter \<times> cafs_err option" where
  "Close w = (if w_flushed w then (w\<lparr>w_flushed := False\<rparr>, None) else (w, Some ClosedUnflushed))"

section \<open>Correctness of Write\<close>

text \<open>The invariant of a writer that has not been flushed, and the bytes it has taken so far.\<close>

definition writer_inv :: "writer_cfg \<Rightarrow> fsWriter \<Rightarrow> bool" where
  "writer_inv c w \<longleftrightarrow> 0 < wc_leafSize c \<and> length (w_buf w) = wc_leafSize c
     \<and> w_offset w < wc_leafSize c \<and> list_all (\<lambda>(n, b). length b = wc_leafSize c) (w_jobs w)
     \<and> w_count w = length (w_jobs w) \<and> map fst (w_jobs w) = [1..<Suc (w_count w)]"

definition written_bytes :: "fsWriter \<Rightarrow> bytes" where
  "written_bytes w = concat (map snd (w_jobs w)) @ take (w_offset w) (w_buf w)"

lemma newWriter_inv: "0 < wc_leafSize c \<Longrightarrow> writer_inv c (newWriter c)"
  by (simp add: writer_inv_def newWriter_def)

lemma written_bytes_new [simp]: "written_bytes (newWriter c) = []"
  by (simp add: written_bytes_def newWriter_def)

lemma stage_fields [simp]:
  "w_jobs (stage w src) = w_jobs w" "w_count (stage w src) = w_count w"
  "w_leaves (stage w src) = w_leaves w" "w_flushed (stage w src) = w_flushed w"
  by (simp_all add: stage_def Let_def)

lemma stage_offset [simp]:
  "w_offset (stage w src) = w_offset w + min (length (w_buf w) - w_offset w) (length src)"
  by (simp add: stage_def Let_def)

lemma length_stage [simp]: "w_offset w \<le> length (w_buf w) \<Longrightarrow> length (w_buf (stage w src)) = length (w_buf w)"
  by (simp add: stage_def Let_def)

lemma stage_take:
  "w_offset w \<le> length (w_buf w) \<Longrightarrow> length src \<le> length (w_buf w) - w_offset w \<Longrightarrow>
   take (w_offset w + length src) (w_buf (stage w src)) = take (w_offset w) (w_buf w) @ src"
  by (simp add: stage_def Let_def)

lemma stage_Nil: "stage w [] = w"
  by (simp add: stage_def Let_def)

text \<open>A writer whose buffer has just been filled: handing the leaf out restores the invariant.\<close>

lemma hand_out_full:
  assumes "writer_inv c w" and "length src = wc_leafSize c - w_offset w"
  shows "writer_inv c (hand_out c (stage w src)) \<and>
    written_bytes (hand_out c (stage w src)) = written_bytes w @ src \<and>
    w_offset (hand_out c (stage w src)) = 0"
proof -
  have len: "length (w_buf (stage w src)) = wc_leafSize c"
    using assms by (simp add: writer_inv_def)
  have "take (w_offset w + length src) (w_buf (stage w src)) = take (w_offset w) (w_buf w) @ src"
    using assms by (intro stage_take) (auto simp: writer_inv_def)
  with assms len have "w_buf (stage w src) = take (w_offset w) (w_buf w) @ src"
    by (simp add: writer_inv_def)
  with assms len show ?thesis
    by (simp add: hand_out_def writer_inv_def written_bytes_def)
qed

lemma write_fits:
  assumes "writer_inv c w" and "k \<le> length p" and "length p \<le> wc_leafSize c - w_offset w"
  shows "\<exists>w'. write_loop c w p k = Some (Inr (w', length p)) \<and> writer_inv c w'
    \<and> written_bytes w' = written_bytes w @ drop k p"
proof (cases "k = length p")
  case True
  with assms show ?thesis by (subst write_loop.simps) simp
next
  case False
  let ?src = "drop k p"
  have src: "length ?src \<le> length (w_buf w) - w_offset w" and o: "w_offset w \<le> length (w_buf w)"
    using assms by (auto simp: writer_inv_def)
  have writable: "(if length p < length (w_buf w) - w_offset w then length p
      else length (w_buf w) - w_offset w) = length p"
    using assms by (auto simp: writer_inv_def)
  have off: "w_offset (stage w ?src) = w_offset w + length ?src" using src by simp
  then have wr: "k + (w_offset (stage w ?src) - w_offset w) = length p" using assms(2) by simp
  have step: "write_loop c w p k =
      (if w_offset (stage w ?src) = length (w_buf (stage w ?src))
       then write_loop c (hand_out c (stage w ?src)) p (length p)
       else write_loop c (stage w ?src) p (length p))"
  proof -
    have t: "take (length p - k) (drop k p) = ?src" by simp
    show ?thesis
      using assms(2) False unfolding write_loop.simps [of c w p k] Let_def writable t wr by simp
  qed
  have ends: "write_loop c v p (length p) = Some (Inr (v, length p))" for v
    by (subst write_loop.simps) simp
  show ?thesis
  proof (cases "w_offset w + length ?src = wc_leafSize c")
    case True
    then have len: "length ?src = wc_leafSize c - w_offset w" by simp
    have "w_offset (stage w ?src) = length (w_buf (stage w ?src))"
      using True assms(1) off o by (simp add: writer_inv_def)
    with step ends hand_out_full [OF assms(1) len] show ?thesis by simp
  next
    case False
    then have "w_offset (stage w ?src) \<noteq> length (w_buf (stage w ?src))"
      using assms(1) off o by (simp add: writer_inv_def)
    with step ends have res: "write_loop c w p k = Some (Inr (stage w ?src, length p))" by simp
    have "writer_inv c (stage w ?src)"
      using assms(1) src off o False by (auto simp: writer_inv_def)
    moreover have "written_bytes (stage w ?src) = written_bytes w @ ?src"
      using off stage_take [OF o src] by (simp add: written_bytes_def)
    ultimately show ?thesis using res by auto
  qed
qed

text \<open>The first pass over a slice that does not fit into what is left of the staged leaf.\<close>

lemma write_overflow:
  assumes "writer_inv c w" and "wc_leafSize c - w_offset w < length p"
  shows "write_loop c w p 0 = write_loop c
      (hand_out c (stage w (take (wc_leafSize c - w_offset w) p))) p (wc_leafSize c - w_offset w)"
proof -
  have b: "length (w_buf w) = wc_leafSize c" "w_offset w < wc_leafSize c"
    using assms(1) by (auto simp: writer_inv_def)
  with assms(2) show ?thesis
    by (subst write_loop.simps) (auto simp: Let_def)
qed

lemma write_within_leaf:
  assumes "writer_inv c w" and "length p \<le> wc_leafSize c"
  shows "\<exists>w'. Write c w p = Some (Inr (w', length p)) \<and> writer_inv c w'
    \<and> written_bytes w' = written_bytes w @ p"
proof (cases "length p \<le> wc_leafSize c - w_offset w")
  case True
  with write_fits [OF assms(1), of 0 p] show ?thesis by (simp add: Write_def)
next
  case False
  let ?r = "wc_leafSize c - w_offset w" and ?w2 = "hand_out c (stage w (take (wc_leafSize c - w_offset w) p))"
  from False have "length (take ?r p) = ?r" by simp
  note w2 = hand_out_full [OF assms(1) this]
  have "write_loop c w p 0 = write_loop c ?w2 p ?r"
    using assms False by (intro write_overflow) auto
  moreover have "\<exists>w'. write_loop c ?w2 p ?r = Some (Inr (w', length p)) \<and> writer_inv c w'
      \<and> written_bytes w' = written_bytes ?w2 @ drop ?r p"
    using w2 False assms(2) by (intro write_fits) auto
  ultimately show ?thesis using w2 by (auto simp: Write_def)
qed

text \<open>A slice longer than a leaf: with an empty buffer the loop comes back to the same state.\<close>

definition spinning :: "writer_cfg \<Rightarrow> fsWriter \<Rightarrow> bytes \<Rightarrow> nat \<Rightarrow> bool" where
  "spinning c w p k \<longleftrightarrow> w_offset w = 0 \<and> length (w_buf w) = wc_leafSize c \<and> 0 < wc_leafSize c
     \<and> k = wc_leafSize c \<and> wc_leafSize c < length p"

lemma spinning_never_returns:
  assumes "spinning c w p k"
  shows "write_loop c w p k = None"
proof (rule ccontr)
  assume "write_loop c w p k \<noteq> None"
  then obtain r where ret: "write_loop c w p k = Some r" by auto
  have "\<not> spinning c w p k"
  proof (rule write_loop.raw_induct [where P = "\<lambda>c w p k r. \<not> spinning c w p k", OF _ ret])
    fix f c w p k r
    assume IH: "\<And>c w p k r. f c w p k = Some r \<Longrightarrow> \<not> spinning c w p k"
      and eq: "(if k = length p then Some (Inr (w, length p))
      else let room = length (w_buf w) - w_offset w;
               writable = (if length p < room then length p else room) in
        if writable < k then Some (Inl SliceBounds)
        else let src = take (writable - k) (drop k p);
                 w1 = stage w src;
                 written1 = k + (w_offset w1 - w_offset w) in
          if w_offset w1 = length (w_buf w1)
          then f c (hand_out c w1) p written1
          else f c w1 p written1) = Some r"
    show "\<not> spinning c w p k"
    proof
      assume sp: "spinning c w p k"
      with eq have "f c w p k = Some r"
        by (auto simp: spinning_def Let_def stage_Nil)
      with IH sp show False by blast
    qed
  qed
  with assms show False by blast
qed

lemma write_long_empty:
  assumes "writer_inv c w" and "w_offset w = 0" and "wc_leafSize c < length p"
  shows "Write c w p = None"
proof -
  let ?w2 = "hand_out c (stage w (take (wc_leafSize c - w_offset w) p))"
  have "write_loop c w p 0 = write_loop c ?w2 p (wc_leafSize c - w_offset w)"
    using assms by (intro write_overflow) auto
  moreover have "spinning c ?w2 p (wc_leafSize c - w_offset w)"
    using assms by (auto simp: spinning_def hand_out_def writer_inv_def)
  ultimately show ?thesis by (simp add: Write_def spinning_never_returns)
qed

lemma write_crossing:
  assumes "k \<noteq> length p" and "length (w_buf w) - w_offset w < k" and "k \<le> length p"
  shows "write_loop c w p k = Some (Inl SliceBounds)"
  using assms by (subst write_loop.simps) (simp add: Let_def)

lemma write_long_staged:
  assumes "writer_inv c w" and "w_offset w \<noteq> 0" and "wc_leafSize c < length p"
  shows "Write c w p = Some (Inl SliceBounds)"
proof -
  let ?r = "wc_leafSize c - w_offset w" and ?w2 = "hand_out c (stage w (take (wc_leafSize c - w_offset w) p))"
  have b: "length (w_buf w) = wc_leafSize c" "w_offset w < wc_leafSize c" "0 < wc_leafSize c"
    using assms(1) by (auto simp: writer_inv_def)
  have f: "w_offset ?w2 = 0" "length (w_buf ?w2) = wc_leafSize c"
    by (simp_all add: hand_out_def)
  have "write_loop c w p 0 = write_loop c ?w2 p ?r"
    using assms by (intro write_overflow) auto
  moreover have "write_loop c ?w2 p ?r = write_loop c (stage ?w2 (take (w_offset w) (drop ?r p))) p (wc_leafSize c)"
    using assms b f unfolding write_loop.simps [of c ?w2 p ?r]
    by (auto simp: Let_def min_def)
  moreover have "write_loop c (stage ?w2 (take (w_offset w) (drop ?r p))) p (wc_leafSize c) = Some (Inl SliceBounds)"
    using assms b f by (intro write_crossing) auto
  ultimately show ?thesis by (simp add: Write_def)
qed

text \<open>
  C30: \<open>fsWriter.Write\<close> takes a slice exactly when it is not longer than a leaf: then it returns,
  with all bytes taken, the bytes written so far extended by them, and the invariant kept. Given a
  longer slice, a writer with nothing staged loops forever, and one with a partly filled leaf
  panics on a slice expression whose bounds cross.
\<close>

theorem Write_exact:
  assumes "writer_inv c w"
  shows "if length p \<le> wc_leafSize c
    then \<exists>w'. Write c w p = Some (Inr (w', length p)) \<and> writer_inv c w'
           \<and> written_bytes w' = written_bytes w @ p
    else if w_offset w = 0 then Write c w p = None
    else Write c w p = Some (Inl SliceBounds)"
  using assms write_within_leaf write_long_empty write_long_staged by (simp add: not_le)

theorem Write_exact_witness:
  "writer_inv \<lparr>wc_leafSize = 2, wc_prefix = '''', wc_verify = False\<rparr>
     (newWriter \<lparr>wc_leafSize = 2, wc_prefix = '''', wc_verify = False\<rparr>) \<and>
   Write \<lparr>wc_leafSize = 2, wc_prefix = '''', wc_verify = False\<rparr>
     (newWriter \<lparr>wc_leafSize = 2, wc_prefix = '''', wc_verify = False\<rparr>) [1, 2, 3] = None"
  using Write_exact [of "\<lparr>wc_leafSize = 2, wc_prefix = '''', wc_verify = False\<rparr>"
      "newWriter \<lparr>wc_leafSize = 2, wc_prefix = '''', wc_verify = False\<rparr>" "[1, 2, 3]"]
  by (simp add: writer_inv_def newWriter_def)

end
