(* ===== verification/CafsFlush.thy ===== *)
theory CafsFlush
  imports CafsWriter
begin

text \<open>
  What a flushed writer leaves in the store. The reference is the list of keys of a file, defined
  on its blocks alone; \<open>Flush\<close> is proved to produce these keys and to store exactly these blobs,
  whatever the order in which the goroutines of the writer run.
\<close>

section \<open>The keys of a file\<close>

text \<open>
  Full leaves are numbered from one; what is left at the end of the file is numbered by the leaves
  before it and flagged as the last node. This is the checksumming scheme the reader repeats.
\<close>

definition leaf_key :: "hasher \<Rightarrow> nat \<Rightarrow> nat \<Rightarrow> bytes \<Rightarrow> Key" where
  "leaf_key H l i b =
     (case (if length b = l then keyFromBytes H b l (i + 1) False else keyFromBytes H b l i True) of
        Inl e \<Rightarrow> [] | Inr k \<Rightarrow> k)"

definition file_keys :: "hasher \<Rightarrow> nat \<Rightarrow> bytes \<Rightarrow> Key list" where
  "file_keys H l d = map (\<lambda>(i, b). leaf_key H l i b) (enumerate 0 (blocks l d))"

text \<open>The blobs of a file: the path of each leaf key with its content.\<close>

definition file_blobs :: "hasher \<Rightarrow> string \<Rightarrow> nat \<Rightarrow> bytes \<Rightarrow> (string \<times> bytes) set" where
  "file_blobs H pfx l d =
     (\<lambda>(i, b). (StringWithPrefix pfx (leaf_key H l i b), b)) ` set (enumerate 0 (blocks l d))"

lemma leaf_key_full:
  "blake_ok H \<Longrightarrow> length b = l \<Longrightarrow> keyFromBytes H b l (i + 1) False = Inr (leaf_key H l i b)"
  using keyFromBytes_total [of H b l "i + 1" False] by (auto simp: leaf_key_def)

lemma leaf_key_last:
  "blake_ok H \<Longrightarrow> length b \<noteq> l \<Longrightarrow> keyFromBytes H b l i True = Inr (leaf_key H l i b)"
  using keyFromBytes_total [of H b l i True] by (auto simp: leaf_key_def)

lemma leaf_key_is_key: "blake_ok H \<Longrightarrow> is_key (leaf_key H l i b)"
  using keyFromBytes_total [of H b l "i + 1" False] keyFromBytes_total [of H b l i True]
  by (auto simp: leaf_key_def)

lemma file_keys_are_keys: "blake_ok H \<Longrightarrow> list_all is_key (file_keys H l d)"
  by (auto simp: file_keys_def list_all_iff leaf_key_is_key)

lemma length_file_keys [simp]: "length (file_keys H l d) = length (blocks l d)"
  by (simp add: file_keys_def)

section \<open>Adding blobs to a store\<close>

text \<open>
  A store has room for some blobs when no two of them claim the same path with different contents,
  and each path is free, holds an empty object, or holds that blob already.
\<close>

definition room_for :: "(string \<Rightarrow> bytes option) \<Rightarrow> (string \<times> bytes) set \<Rightarrow> bool" where
  "room_for m B \<longleftrightarrow> (\<forall>p d. (p, d) \<in> B \<longrightarrow> (\<forall>d'. (p, d') \<in> B \<longrightarrow> d' = d)
     \<and> (m p = None \<or> m p = Some [] \<or> m p = Some d))"

definition holds_also ::
  "(string \<Rightarrow> bytes option) \<Rightarrow> (string \<Rightarrow> bytes option) \<Rightarrow> (string \<times> bytes) set \<Rightarrow> bool" where
  "holds_also m m' B \<longleftrightarrow> (\<forall>p d. (p, d) \<in> B \<longrightarrow> m' p = Some d)
     \<and> (\<forall>p. (\<forall>d. (p, d) \<notin> B) \<longrightarrow> m' p = m p)"

lemma holds_also_empty [simp]: "holds_also m m {}"
  by (simp add: holds_also_def)

lemma room_for_subset: "room_for m B \<Longrightarrow> A \<subseteq> B \<Longrightarrow> room_for m A"
  unfolding room_for_def by blast

lemma holds_also_one: "holds_also m (m(p \<mapsto> d)) {(p, d)}"
  by (simp add: holds_also_def)

lemma holds_also_trans:
  assumes "holds_also m m1 A" and "holds_also m1 m2 B" and "room_for m (A \<union> B)"
  shows "holds_also m m2 (A \<union> B)"
proof -
  have "m2 p = Some d" if "(p, d) \<in> A" for p d
  proof (cases "\<exists>d'. (p, d') \<in> B")
    case True
    then obtain d' where d': "(p, d') \<in> B" by auto
    with that assms(3) have "d' = d" unfolding room_for_def by blast
    with d' assms(2) show ?thesis unfolding holds_also_def by blast
  next
    case False
    with that assms(1,2) show ?thesis by (simp add: holds_also_def)
  qed
  with assms(1,2) show ?thesis by (simp add: holds_also_def)
qed

lemma room_after:
  assumes "room_for m (A \<union> B)" and "holds_also m m1 A"
  shows "room_for m1 B"
proof -
  have "m1 p = None \<or> m1 p = Some [] \<or> m1 p = Some d" if "(p, d) \<in> B" for p d
  proof (cases "\<exists>d'. (p, d') \<in> A")
    case True
    then obtain d' where d': "(p, d') \<in> A" by auto
    with that assms(1) have "d' = d" unfolding room_for_def by blast
    with d' assms(2) show ?thesis unfolding holds_also_def by blast
  next
    case False
    with assms(2) have "m1 p = m p" by (simp add: holds_also_def)
    with that assms(1) show ?thesis unfolding room_for_def by auto
  qed
  with assms(1) show ?thesis unfolding room_for_def by blast
qed

section \<open>Flushing adds the blobs of the file\<close>

definition job_blob :: "hasher \<Rightarrow> writer_cfg \<Rightarrow> nat \<times> bytes \<Rightarrow> string \<times> bytes" where
  "job_blob H c job = (pather c (leaf_key H (wc_leafSize c) (fst job - 1) (snd job)), snd job)"

text \<open>The jobs of a writer are the full blocks of what was written, numbered from one.\<close>

lemma jobs_numbered:
  assumes "writer_inv c w"
  shows "w_jobs w = map (\<lambda>(i, b). (i + 1, b)) (enumerate 0 (map snd (w_jobs w)))"
proof -
  have "w_jobs w = zip (map fst (w_jobs w)) (map snd (w_jobs w))" by (simp add: zip_map_fst_snd)
  also have "map fst (w_jobs w) = map Suc [0..<length (w_jobs w)]"
    using assms by (simp add: writer_inv_def map_Suc_upt del: upt_Suc)
  finally show ?thesis by (simp add: enumerate_eq_zip zip_map1 flip: zip_map1)
qed

lemma writer_blocks:
  assumes "writer_inv c w"
  shows "blocks (wc_leafSize c) (written_bytes w) =
    map snd (w_jobs w) @ (if w_offset w = 0 then [] else [take (w_offset w) (w_buf w)])"
proof -
  have "blocks (wc_leafSize c) (concat (map snd (w_jobs w)) @ take (w_offset w) (w_buf w)) =
      map snd (w_jobs w) @ (if take (w_offset w) (w_buf w) = [] then [] else [take (w_offset w) (w_buf w)])"
    using assms by (intro blocks_concat) (auto simp: writer_inv_def list_all_iff)
  moreover have "take (w_offset w) (w_buf w) = [] \<longleftrightarrow> w_offset w = 0"
    using assms by (auto simp: writer_inv_def)
  ultimately show ?thesis by (simp add: written_bytes_def)
qed

abbreviation full_keys :: "hasher \<Rightarrow> writer_cfg \<Rightarrow> fsWriter \<Rightarrow> Key list" where
  "full_keys H c w \<equiv> map (\<lambda>(i, b). leaf_key H (wc_leafSize c) i b) (enumerate 0 (map snd (w_jobs w)))"

lemma writer_keys:
  assumes "writer_inv c w"
  shows "file_keys H (wc_leafSize c) (written_bytes w) = full_keys H c w @
    (if w_offset w = 0 then []
     else [leaf_key H (wc_leafSize c) (length (w_jobs w)) (take (w_offset w) (w_buf w))])"
  by (simp add: file_keys_def writer_blocks [OF assms] enumerate_append_eq)

lemma writer_blobs:
  assumes "writer_inv c w"
  shows "file_blobs H (wc_prefix c) (wc_leafSize c) (written_bytes w) =
    job_blob H c ` set (w_jobs w) \<union> (if w_offset w = 0 then {} else
      {(pather c (leaf_key H (wc_leafSize c) (length (w_jobs w)) (take (w_offset w) (w_buf w))),
        take (w_offset w) (w_buf w))})"
proof -
  have "job_blob H c ` set (w_jobs w) =
      (\<lambda>(i, b). (pather c (leaf_key H (wc_leafSize c) i b), b)) ` set (enumerate 0 (map snd (w_jobs w)))"
    by (subst jobs_numbered [OF assms]) (simp add: image_image job_blob_def case_prod_unfold)
  then show ?thesis
    by (simp add: file_blobs_def writer_blocks [OF assms] enumerate_append_eq)
qed

text \<open>The collector puts the keys in place whatever the order of the reports.\<close>

lemma place_leaves_any_order:
  assumes "writer_inv c w" and "mset order = mset (w_jobs w)"
  shows "place_leaves (map (\<lambda>job. (fst job, leaf_key H (wc_leafSize c) (fst job - 1) (snd job))) order)
    = Inr (full_keys H c w)"
proof -
  let ?n = "length (w_jobs w)"
  let ?f = "\<lambda>job. (fst job - 1, leaf_key H (wc_leafSize c) (fst job - 1) (snd job))"
  have len: "length order = ?n" using assms(2) by (metis size_mset)
  have "set order = set (w_jobs w)" using assms(2) by (rule mset_eq_setD)
  then have "fst ` set order = set (map fst (w_jobs w))" by simp
  also have "\<dots> = {1..<Suc ?n}" using assms(1) by (simp add: writer_inv_def del: upt_Suc set_map)
  finally have rng: "\<forall>job \<in> set order. 1 \<le> fst job \<and> fst job \<le> ?n"
    by (metis atLeastLessThan_iff imageI less_Suc_eq_le)
  have "mset (map ?f order) = mset (map ?f (w_jobs w))" using assms(2) by simp
  also have "map ?f (w_jobs w) = enumerate 0 (full_keys H c w)"
    by (subst jobs_numbered [OF assms(1)])
      (rule nth_equalityI, simp_all add: nth_enumerate_eq)
  finally have "place (replicate ?n (replicate KeySize 0)) (map ?f order) = full_keys H c w"
    by (intro place_all) simp_all
  with rng show ?thesis
    by (simp add: place_leaves_def Let_def len list_all_iff o_def)
qed

context object_store
begin

lemma existsAndValid:
  assumes "content s p = None \<or> content s p = Some [] \<or> content s p = Some d"
  shows "existsAndValidBlob st s p d = (content s p \<noteq> None, content s p = Some [])"
proof (cases "content s p")
  case None
  with attr_none [OF None] show ?thesis by (auto simp: existsAndValidBlob_def)
next
  case (Some b)
  from attr_some [OF this] obtain a where "st_GetAttr st s p = Inr a" "attr_Size a = length b"
    "attr_CRC32C a = 0 \<or> attr_CRC32C a = crc32c b" by blast
  with assms Some show ?thesis by (auto simp: existsAndValidBlob_def)
qed

lemma verify_written: "content s p = Some d \<Longrightarrow> verifyBlob st s p d = None"
  using attr_some [of s p d] by (auto simp: verifyBlob_def)

lemma writeBlob_ok:
  assumes "content s (pather c k) = None \<or> content s (pather c k) = Some []
    \<or> content s (pather c k) = Some d"
  shows "\<exists>s'. writeBlob st c s d k = (s', None) \<and> content s' = (content s)(pather c k \<mapsto> d)"
proof -
  obtain s' where put: "put_crc st s (pather c k) d OverWrite = (s', None)"
      "content s' = (content s)(pather c k \<mapsto> d)" using overwrite by blast
  then have "verifyBlob st s' (pather c k) d = None" by (simp add: verify_written)
  with put existsAndValid [OF assms] attr_some [of s "pather c k" d] assms show ?thesis
    by (cases "content s (pather c k)") (auto simp: writeBlob_def Let_def fun_upd_idem)
qed

lemma pFlush_ok:
  assumes "blake_ok H" and "1 \<le> fst job" and "length (snd job) = wc_leafSize c"
    and "room_for (content s) {job_blob H c job}"
  shows "\<exists>s'. pFlush H st c s job =
      (s', Inr (fst job, leaf_key H (wc_leafSize c) (fst job - 1) (snd job)))
    \<and> holds_also (content s) (content s') {job_blob H c job}"
proof -
  let ?k = "leaf_key H (wc_leafSize c) (fst job - 1) (snd job)"
  have key: "keyFromBytes H (snd job) (wc_leafSize c) (fst job) False = Inr ?k"
    using leaf_key_full [OF assms(1,3), of "fst job - 1"] assms(2) by simp
  from assms(4) obtain s' where
    "writeBlob st c s (snd job) ?k = (s', None)" "content s' = (content s)(pather c ?k \<mapsto> snd job)"
    using writeBlob_ok [of s c ?k "snd job"] by (auto simp: room_for_def job_blob_def)
  with key show ?thesis
    by (auto simp: pFlush_def job_blob_def holds_also_one split: prod.splits)
qed

lemma flushThread_ok:
  assumes "blake_ok H"
    and "\<forall>job \<in> set jobs. 1 \<le> fst job \<and> length (snd job) = wc_leafSize c"
    and "room_for (content s) (job_blob H c ` set jobs)"
  shows "\<exists>s'. flushThread H st c s jobs =
      (s', map (\<lambda>job. (fst job, leaf_key H (wc_leafSize c) (fst job - 1) (snd job))) jobs, [])
    \<and> holds_also (content s) (content s') (job_blob H c ` set jobs)"
  using assms(2,3)
proof (induction jobs arbitrary: s)
  case Nil
  then show ?case by simp
next
  case (Cons job jobs)
  have "room_for (content s) {job_blob H c job}"
    using Cons.prems(2) by (rule room_for_subset) auto
  with Cons.prems(1) pFlush_ok [OF assms(1), of job c s] obtain s1 where
    s1: "pFlush H st c s job =
      (s1, Inr (fst job, leaf_key H (wc_leafSize c) (fst job - 1) (snd job)))"
      "holds_also (content s) (content s1) {job_blob H c job}" by auto
  from Cons.prems(2) have room: "room_for (content s) ({job_blob H c job} \<union> job_blob H c ` set jobs)"
    by simp
  from Cons.IH [of s1] Cons.prems(1) room_after [OF room s1(2)] obtain s2 where
    s2: "flushThread H st c s1 jobs =
      (s2, map (\<lambda>job. (fst job, leaf_key H (wc_leafSize c) (fst job - 1) (snd job))) jobs, [])"
      "holds_also (content s1) (content s2) (job_blob H c ` set jobs)" by auto
  from s1 s2 holds_also_trans [OF s1(2) s2(2) room] show ?case by simp
qed

lemma flush_last_ok:
  assumes "blake_ok H" and "w_offset w \<noteq> 0" and "w_offset w < wc_leafSize c"
    and "length (w_buf w) = wc_leafSize c"
    and "room_for (content s) {(pather c (leaf_key H (wc_leafSize c) (length (w_leaves w))
      (take (w_offset w) (w_buf w))), take (w_offset w) (w_buf w))}"
  shows "\<exists>s'. flush_last H st c s w True = (s', Inr (w\<lparr>w_offset := 0, w_leaves := w_leaves w @
        [leaf_key H (wc_leafSize c) (length (w_leaves w)) (take (w_offset w) (w_buf w))]\<rparr>))
    \<and> holds_also (content s) (content s') {(pather c (leaf_key H (wc_leafSize c)
        (length (w_leaves w)) (take (w_offset w) (w_buf w))), take (w_offset w) (w_buf w))}"
proof -
  let ?d = "take (w_offset w) (w_buf w)"
  let ?k = "leaf_key H (wc_leafSize c) (length (w_leaves w)) ?d"
  have "keyFromBytes H ?d (wc_leafSize c) (length (w_leaves w)) True = Inr ?k"
    using assms by (intro leaf_key_last) auto
  moreover from assms(5) obtain s' where "writeBlob st c s ?d ?k = (s', None)"
      "content s' = (content s)(pather c ?k \<mapsto> ?d)"
    using writeBlob_ok [of s c ?k ?d] by (auto simp: room_for_def)
  ultimately show ?thesis
    using assms(2) by (auto simp: flush_last_def Let_def holds_also_one)
qed

lemma Flush_ok:
  assumes "blake_ok H" and inv: "writer_inv c w" and order: "mset order = mset (w_jobs w)"
    and room: "room_for (content s) (file_blobs H (wc_prefix c) (wc_leafSize c) (written_bytes w))"
    and root: "rootHash H (file_keys H (wc_leafSize c) (written_bytes w)) (wc_leafSize c) = Inr r"
  shows "\<exists>s' w'. Flush H st c order s w =
      (s', Inr (w', Inr (r, concat (file_keys H (wc_leafSize c) (written_bytes w)))))
    \<and> w_flushed w'
    \<and> holds_also (content s) (content s')
        (file_blobs H (wc_prefix c) (wc_leafSize c) (written_bytes w))"
proof -
  let ?J = "job_blob H c ` set (w_jobs w)"
  note blobs = writer_blobs [OF inv, of H] and keys = writer_keys [OF inv, of H]
  have set_eq: "set order = set (w_jobs w)" using order by (rule mset_eq_setD)
  have "set (map fst (w_jobs w)) = {1..<Suc (length (w_jobs w))}"
    using inv by (simp add: writer_inv_def del: upt_Suc set_map)
  then have jobs: "\<forall>job \<in> set order. 1 \<le> fst job \<and> length (snd job) = wc_leafSize c"
    using inv set_eq by (auto simp: writer_inv_def list_all_iff set_eq_iff image_iff)
  have "room_for (content s) ?J" using room by (rule room_for_subset) (auto simp: blobs)
  with flushThread_ok [OF assms(1) jobs, of s] set_eq obtain s1 where
    s1: "flushThread H st c s order = (s1,
        map (\<lambda>job. (fst job, leaf_key H (wc_leafSize c) (fst job - 1) (snd job))) order, [])"
      "holds_also (content s) (content s1) ?J" by auto
  note placed = place_leaves_any_order [OF inv order, of H]
  let ?w1 = "w\<lparr>w_leaves := full_keys H c w, w_flushed := True\<rparr>"
  show ?thesis
  proof (cases "w_offset w = 0")
    case True
    with s1 placed root show ?thesis
      by (simp add: Flush_def Let_def flush_last_def blobs keys)
  next
    case False
    let ?d = "take (w_offset w) (w_buf w)"
    let ?b = "(pather c (leaf_key H (wc_leafSize c) (length (w_jobs w)) ?d), ?d)"
    from False room have all: "room_for (content s) (?J \<union> {?b})" by (simp add: blobs)
    with s1 have "room_for (content s1) {?b}" using room_after by blast
    with False inv obtain s2 where
      s2: "flush_last H st c s1 ?w1 True = (s2, Inr (?w1\<lparr>w_offset := 0, w_leaves := full_keys H c w @
        [leaf_key H (wc_leafSize c) (length (w_jobs w)) ?d]\<rparr>))"
        "holds_also (content s1) (content s2) {?b}"
      using flush_last_ok [OF assms(1), of ?w1 c s1] by (auto simp: writer_inv_def)
    with False s1 placed root holds_also_trans [OF s1(2) s2(2) all] show ?thesis
      by (simp add: Flush_def Let_def blobs keys)
  qed
qed

end

end
