(* ===== verification/CafsCache.thy ===== *)
theory CafsCache
  imports CafsFlush
begin

text \<open>
  Caches and buffer pools of the content-addressable file system. The LRU cache of
  \<open>github.com/hashicorp/golang-lru\<close> is a parameter, with its documented behaviour as the locale
  \<open>lru_cache\<close>; the buffer pool is \<open>pkg/cafs/freelists.go\<close>.
\<close>

section \<open>The LRU cache\<close>

record ('c, 'k, 'v) lru =
  lru_Get :: "'c \<Rightarrow> 'k \<Rightarrow> 'v option \<times> 'c"
  lru_ContainsOrAdd :: "'c \<Rightarrow> 'k \<Rightarrow> 'v \<Rightarrow> bool \<times> 'c"

text \<open>
  What the cache documents: a look-up gives the value kept for a key and changes no entry; adding
  an entry keeps the one that is there, and otherwise adds it and may evict any entry.
\<close>

locale lru_cache =
  fixes L :: "('c, 'k, 'v) lru"
    and view :: "'c \<Rightarrow> 'k \<Rightarrow> 'v option"
  assumes get_value: "fst (lru_Get L c k) = view c k"
    and get_keeps: "view (snd (lru_Get L c k)) = view c"
    and add_present: "view c k \<noteq> None \<Longrightarrow> fst (lru_ContainsOrAdd L c k v) \<and>
      view (snd (lru_ContainsOrAdd L c k v)) = view c"
    and add_absent: "view c k = None \<Longrightarrow> \<not> fst (lru_ContainsOrAdd L c k v) \<and>
      view (snd (lru_ContainsOrAdd L c k v)) \<subseteq>\<^sub>m (view c)(k \<mapsto> v)"
begin

text \<open>An entry-wise property of the cache survives look-ups and additions, evictions included.\<close>

definition all_entries :: "('k \<Rightarrow> 'v \<Rightarrow> bool) \<Rightarrow> 'c \<Rightarrow> bool" where
  "all_entries P c \<longleftrightarrow> (\<forall>k v. view c k = Some v \<longrightarrow> P k v)"

lemma all_entries_get: "all_entries P c \<Longrightarrow> all_entries P (snd (lru_Get L c k))"
  by (simp add: all_entries_def get_keeps)

lemma all_entries_hit: "all_entries P c \<Longrightarrow> lru_Get L c k = (Some v, c') \<Longrightarrow> P k v \<and> all_entries P c'"
  using get_value [of c k] get_keeps [of c k] by (auto simp: all_entries_def)

lemma all_entries_add:
  assumes "all_entries P c" and "P k v"
  shows "all_entries P (snd (lru_ContainsOrAdd L c k v))"
proof (cases "view c k")
  case None
  from add_absent [OF this, of v] have "view (snd (lru_ContainsOrAdd L c k v)) \<subseteq>\<^sub>m (view c)(k \<mapsto> v)"
    by simp
  then have "((view c)(k \<mapsto> v)) k' = Some v'"
    if "view (snd (lru_ContainsOrAdd L c k v)) k' = Some v'" for k' v'
    using that by (metis domI map_le_def)
  then have "view c k' = Some v' \<or> k' = k \<and> v' = v"
    if "view (snd (lru_ContainsOrAdd L c k v)) k' = Some v'" for k' v'
    using that by (force split: if_splits)
  with assms show ?thesis unfolding all_entries_def by blast
next
  case (Some u)
  with add_present [of c k v] assms show ?thesis by (simp add: all_entries_def)
qed

end

text \<open>The cache as a list of entries, most recently used first, cut at its size.\<close>

definition mru_get :: "('k \<times> 'v) list \<Rightarrow> 'k \<Rightarrow> 'v option \<times> ('k \<times> 'v) list" where
  "mru_get c k = (case map_of c k of
     None \<Rightarrow> (None, c)
   | Some v \<Rightarrow> (Some v, (k, v) # filter (\<lambda>e. fst e \<noteq> k) c))"

definition mru_add :: "nat \<Rightarrow> ('k \<times> 'v) list \<Rightarrow> 'k \<Rightarrow> 'v \<Rightarrow> bool \<times> ('k \<times> 'v) list" where
  "mru_add cap c k v =
     (if map_of c k = None then (False, take cap ((k, v) # c)) else (True, c))"

definition mru_lru :: "nat \<Rightarrow> (('k \<times> 'v) list, 'k, 'v) lru" where
  "mru_lru cap = \<lparr>lru_Get = mru_get, lru_ContainsOrAdd = mru_add cap\<rparr>"

lemma map_of_filter_key: "map_of (filter (\<lambda>e. fst e \<noteq> k) c) = (map_of c)(k := None)"
  by (induction c) auto

lemma map_of_take_le: "map_of (take n c) \<subseteq>\<^sub>m map_of c"
proof -
  have "map_of (take n c) \<subseteq>\<^sub>m map_of (drop n c) ++ map_of (take n c)" by simp
  then show ?thesis by (simp flip: map_of_append)
qed

interpretation mru: lru_cache "mru_lru cap" map_of for cap
proof
  fix c :: "('k \<times> 'v) list" and k v
  show "fst (lru_Get (mru_lru cap) c k) = map_of c k"
    by (auto simp: mru_lru_def mru_get_def split: option.splits)
  show "map_of (snd (lru_Get (mru_lru cap) c k)) = map_of c"
    by (auto simp: mru_lru_def mru_get_def map_of_filter_key split: option.splits)
  show "map_of c k \<noteq> None \<Longrightarrow> fst (lru_ContainsOrAdd (mru_lru cap) c k v) \<and>
      map_of (snd (lru_ContainsOrAdd (mru_lru cap) c k v)) = map_of c"
    by (auto simp: mru_lru_def mru_add_def)
  show "map_of c k = None \<Longrightarrow> \<not> fst (lru_ContainsOrAdd (mru_lru cap) c k v) \<and>
      map_of (snd (lru_ContainsOrAdd (mru_lru cap) c k v)) \<subseteq>\<^sub>m (map_of c)(k \<mapsto> v)"
    using map_of_take_le [of cap "(k, v) # c"] by (simp add: mru_lru_def mru_add_def)
qed

section \<open>Leaf buffers\<close>

text \<open>
  A leaf buffer owns an array of fixed size and exposes a slice of it. The array is at least as
  large as the leaf size it was made for, in steps of one megabyte.
\<close>

definition MiB :: nat where "MiB = 1048576"

definition MaxLeafSize :: nat where "MaxLeafSize = 5 * MiB"

definition BytesToBuffers :: "int \<Rightarrow> nat \<Rightarrow> int" where
  "BytesToBuffers target leafSize = - ((- target) div int leafSize)"

record LeafBuffer =
  lb_arr :: bytes
  lb_off :: nat
  lb_len :: nat

definition lb_Bytes :: "LeafBuffer \<Rightarrow> bytes" where
  "lb_Bytes b = take (lb_len b) (drop (lb_off b) (lb_arr b))"

definition lb_cap :: "LeafBuffer \<Rightarrow> nat" where
  "lb_cap b = length (lb_arr b) - lb_off b"

definition lb_Copy :: "LeafBuffer \<Rightarrow> bytes \<Rightarrow> LeafBuffer" where
  "lb_Copy b val =
     (let n = min (lb_cap b) (length val)
      in b\<lparr>lb_arr := take (lb_off b) (lb_arr b) @ take n val @ drop (lb_off b + n) (lb_arr b),
           lb_len := n\<rparr>)"

definition lb_Slice :: "LeafBuffer \<Rightarrow> nat \<Rightarrow> nat \<Rightarrow> (panic, LeafBuffer) res" where
  "lb_Slice b low high =
     (if low \<le> high \<and> high \<le> lb_cap b
      then Inr (b\<lparr>lb_off := lb_off b + low, lb_len := high - low\<rparr>) else Inl SliceBounds)"

definition lb_Reset :: "LeafBuffer \<Rightarrow> LeafBuffer" where
  "lb_Reset b = b\<lparr>lb_off := 0, lb_len := 0\<rparr>"

definition bufferSize :: "nat \<Rightarrow> nat" where
  "bufferSize leafSize =
     (if leafSize \<le> 1 * MiB then 1 * MiB
      else if leafSize \<le> 2 * MiB then 2 * MiB
      else if leafSize \<le> 3 * MiB then 3 * MiB
      else if leafSize \<le> 4 * MiB then 4 * MiB
      else MaxLeafSize)"

definition allocatorFunc :: "nat \<Rightarrow> LeafBuffer" where
  "allocatorFunc leafSize = \<lparr>lb_arr = replicate (bufferSize leafSize) 0, lb_off = 0, lb_len = 0\<rparr>"

section \<open>The buffer pool\<close>

text \<open>
  The free list holds buffers by their identity: the \<open>n\<close>th buffer that the pool allocates has the
  number \<open>n\<close>. The content of the buffers is kept beside it, and so is the set of those whose mutex is locked: a buffer
  is pinned in a critical section. \<open>None\<close> is a call that waits.
\<close>

definition lb_Pin :: "nat set \<Rightarrow> nat \<Rightarrow> nat set option" where
  "lb_Pin pinned lb = (if lb \<in> pinned then None else Some (insert lb pinned))"

definition lb_Unpin :: "nat set \<Rightarrow> nat \<Rightarrow> nat set" where
  "lb_Unpin pinned lb = pinned - {lb}"

record leafFreelist =
  fl_list :: "nat list"
  fl_buffers :: nat
  fl_watermark :: nat

definition newLeafFreelist :: "nat \<Rightarrow> leafFreelist" where
  "newLeafFreelist watermark = \<lparr>fl_list = [], fl_buffers = 0, fl_watermark = watermark\<rparr>"

definition fl_Get ::
  "nat \<Rightarrow> leafFreelist \<Rightarrow> (nat \<Rightarrow> LeafBuffer) \<Rightarrow> nat \<times> leafFreelist \<times> (nat \<Rightarrow> LeafBuffer)" where
  "fl_Get leafSize l heap =
     (let ll = length (fl_list l) in
      if ll \<noteq> 0 then
        let lb = fl_list l ! (ll - 1)
        in (lb, l\<lparr>fl_list := take (ll - 1) (fl_list l)\<rparr>, heap(lb := lb_Reset (heap lb)))
      else (fl_buffers l, l\<lparr>fl_buffers := fl_buffers l + 1\<rparr>,
            heap(fl_buffers l := allocatorFunc leafSize)))"

text \<open>The body of the goroutine that \<open>Release\<close> starts: it pins the buffer, which waits until nobody else has it pinned, and unpins it under the lock.\<close>

definition fl_Release :: "nat set \<Rightarrow> leafFreelist \<Rightarrow> nat \<Rightarrow> (nat set \<times> leafFreelist) option" where
  "fl_Release pinned l lb =
     Option.bind (lb_Pin pinned lb) (\<lambda>pinned1.
       let pinned2 = lb_Unpin pinned1 lb
       in Some (pinned2, if length (fl_list l) > fl_watermark l then l else l\<lparr>fl_list := fl_list l @ [lb]\<rparr>))"

text \<open>
  A pool in use: the buffers that clients hold, those that are pinned, and those whose release was called and is not done yet. A
  client pins a buffer while it holds it, and may still have it pinned when the cache lets it go.
\<close>

record pool_state =
  ps_pool :: leafFreelist
  ps_heap :: "nat \<Rightarrow> LeafBuffer"
  ps_held :: "nat set"
  ps_pinned :: "nat set"
  ps_releasing :: "nat set"

definition new_pool :: "nat \<Rightarrow> (nat \<Rightarrow> LeafBuffer) \<Rightarrow> pool_state" where
  "new_pool n heap = \<lparr>ps_pool = newLeafFreelist n, ps_heap = heap, ps_held = {}, ps_pinned = {}, ps_releasing = {}\<rparr>"

inductive pool_step :: "nat \<Rightarrow> pool_state \<Rightarrow> pool_state \<Rightarrow> bool" for leafSize where
  get: "fl_Get leafSize (ps_pool p) (ps_heap p) = (lb, l', heap') \<Longrightarrow>
    pool_step leafSize p (p\<lparr>ps_pool := l', ps_heap := heap', ps_held := insert lb (ps_held p)\<rparr>)"
| pin: "lb \<in> ps_held p \<Longrightarrow> lb_Pin (ps_pinned p) lb = Some pinned' \<Longrightarrow> pool_step leafSize p (p\<lparr>ps_pinned := pinned'\<rparr>)"
| unpin: "lb \<in> ps_pinned p \<Longrightarrow> pool_step leafSize p (p\<lparr>ps_pinned := lb_Unpin (ps_pinned p) lb\<rparr>)"
| fill: "lb \<in> ps_held p \<union> ps_pinned p \<Longrightarrow> length (lb_arr b) = length (lb_arr (ps_heap p lb)) \<Longrightarrow>
    pool_step leafSize p (p\<lparr>ps_heap := (ps_heap p)(lb := b)\<rparr>)"
| release: "lb \<in> ps_held p \<Longrightarrow>
    pool_step leafSize p (p\<lparr>ps_held := ps_held p - {lb}, ps_releasing := insert lb (ps_releasing p)\<rparr>)"
| released: "lb \<in> ps_releasing p \<Longrightarrow> fl_Release (ps_pinned p) (ps_pool p) lb = Some (pinned', l') \<Longrightarrow>
    pool_step leafSize p (p\<lparr>ps_pool := l', ps_pinned := pinned', ps_releasing := ps_releasing p - {lb}\<rparr>)"

inductive_cases pool_stepE: "pool_step leafSize p p'"

definition in_use :: "pool_state \<Rightarrow> nat set" where
  "in_use p = ps_held p \<union> ps_pinned p \<union> ps_releasing p"

definition pool_inv :: "nat \<Rightarrow> nat \<Rightarrow> pool_state \<Rightarrow> bool" where
  "pool_inv n leafSize p \<longleftrightarrow> (let l = ps_pool p; live = set (fl_list l) \<union> ps_held p \<union> ps_releasing p in
     distinct (fl_list l) \<and> set (fl_list l) \<inter> in_use p = {} \<and> ps_held p \<inter> ps_releasing p = {} \<and> ps_pinned p \<subseteq> ps_held p \<union> ps_releasing p
     \<and> (\<forall>i \<in> live. i < fl_buffers l \<and> length (lb_arr (ps_heap p i)) = bufferSize leafSize)
     \<and> fl_watermark l = n \<and> length (fl_list l) \<le> n + 1)"

lemma pool_get_inv:
  assumes "pool_inv n leafSize p" and "fl_Get leafSize (ps_pool p) (ps_heap p) = (lb, l', heap')"
  shows "pool_inv n leafSize (p\<lparr>ps_pool := l', ps_heap := heap', ps_held := insert lb (ps_held p)\<rparr>) \<and> lb \<notin> in_use p
    \<and> lb_Bytes (heap' lb) = [] \<and> lb_cap (heap' lb) = bufferSize leafSize"
proof (cases "fl_list (ps_pool p)" rule: rev_cases)
  case Nil
  with assms(2) have get: "lb = fl_buffers (ps_pool p)" "l' = (ps_pool p)\<lparr>fl_buffers := fl_buffers (ps_pool p) + 1\<rparr>"
      "heap' = (ps_heap p)(fl_buffers (ps_pool p) := allocatorFunc leafSize)" by (auto simp: fl_Get_def Let_def)
  from assms(1) have "\<forall>i \<in> ps_held p \<union> ps_releasing p. i < fl_buffers (ps_pool p)" "ps_pinned p \<subseteq> ps_held p \<union> ps_releasing p"
    by (auto simp: pool_inv_def Let_def)
  then have "lb \<notin> in_use p" by (auto simp: in_use_def get(1))
  with assms(1) Nil show ?thesis
    by (auto simp: get pool_inv_def Let_def in_use_def allocatorFunc_def lb_Bytes_def lb_cap_def less_Suc_eq)
next
  case (snoc bs b)
  with assms(2) have get: "lb = b" "l' = (ps_pool p)\<lparr>fl_list := bs\<rparr>" "heap' = (ps_heap p)(b := lb_Reset (ps_heap p b))"
    by (auto simp: fl_Get_def Let_def)
  with assms(1) snoc show ?thesis
    by (auto simp: pool_inv_def Let_def in_use_def lb_Reset_def lb_Bytes_def lb_cap_def)
qed

lemma pool_step_inv: "pool_step leafSize p p' \<Longrightarrow> pool_inv n leafSize p \<Longrightarrow> pool_inv n leafSize p'"
proof (induction rule: pool_step.induct)
  case (get p lb l' heap')
  then show ?case using pool_get_inv by blast
next
  case (released lb p pinned' l')
  then have "lb \<notin> ps_pinned p" and r: "pinned' = ps_pinned p"
      "l' = (if length (fl_list (ps_pool p)) > fl_watermark (ps_pool p) then ps_pool p else (ps_pool p)\<lparr>fl_list := fl_list (ps_pool p) @ [lb]\<rparr>)"
    by (auto simp: fl_Release_def lb_Pin_def lb_Unpin_def split: if_splits)
  with released show ?case by (auto simp: pool_inv_def Let_def in_use_def)
qed (auto simp: pool_inv_def Let_def in_use_def lb_Pin_def lb_Unpin_def split: if_splits)

lemma pool_reachable_inv: "(pool_step leafSize)\<^sup>*\<^sup>* (new_pool n heap) p \<Longrightarrow> pool_inv n leafSize p"
proof (induction rule: rtranclp_induct)
  case base
  then show ?case by (simp add: pool_inv_def new_pool_def newLeafFreelist_def in_use_def)
next
  case (step p p')
  then show ?case using pool_step_inv by blast
qed

lemma bufferSize_enough: "leafSize \<le> MaxLeafSize \<Longrightarrow> leafSize \<le> bufferSize leafSize"
  by (simp add: bufferSize_def)

text \<open>
  C38: however clients take, pin, fill, unpin and release leaf buffers, the pool never hands out a buffer that somebody holds or has pinned,
  even when its release was called while it was pinned; the buffer it hands out is empty and has room for a leaf of the configured size; and the free list
  never outgrows its watermark by more than one buffer. A client pins and releases only what it holds.
\<close>

theorem pool_safe:
  assumes "(pool_step leafSize)\<^sup>*\<^sup>* (new_pool n heap) p" and "leafSize \<le> MaxLeafSize"
    and "fl_Get leafSize (ps_pool p) (ps_heap p) = (lb, l', heap')"
  shows "lb \<notin> in_use p \<and> lb_Bytes (heap' lb) = [] \<and> leafSize \<le> lb_cap (heap' lb) \<and> length (fl_list (ps_pool p)) \<le> n + 1"
  using pool_get_inv [OF pool_reachable_inv [OF assms(1)] assms(3)]
    pool_reachable_inv [OF assms(1)] bufferSize_enough [OF assms(2)]
  by (auto simp: pool_inv_def Let_def)

text \<open>A buffer that is released while it is pinned, and another that was taken, pinned, filled, unpinned and released.\<close>

definition used_pool :: pool_state where
  "used_pool = \<lparr>ps_pool = \<lparr>fl_list = [1], fl_buffers = 2, fl_watermark = 2\<rparr>, ps_heap = (\<lambda>_. allocatorFunc 64), ps_held = {}, ps_pinned = {0}, ps_releasing = {0}\<rparr>"

lemma used_pool_reached: "(pool_step 64)\<^sup>*\<^sup>* (new_pool 2 (\<lambda>_. allocatorFunc 64)) used_pool"
proof -
  let ?h = "\<lambda>_. allocatorFunc 64"
  let ?p = "\<lambda>l n held pinned rel. \<lparr>ps_pool = \<lparr>fl_list = l, fl_buffers = n, fl_watermark = 2\<rparr>, ps_heap = ?h, ps_held = held, ps_pinned = pinned, ps_releasing = rel\<rparr>"
  have h: "?h(i := allocatorFunc 64) = ?h" for i :: nat by auto
  have s1: "pool_step 64 (new_pool 2 ?h) (?p [] 1 {0} {} {})"
    using pool_step.get [of 64 "new_pool 2 ?h" 0] by (simp add: fl_Get_def new_pool_def newLeafFreelist_def h)
  have s2: "pool_step 64 (?p [] 1 {0} {} {}) (?p [] 1 {0} {0} {})"
    using pool_step.pin [of 0 "?p [] 1 {0} {} {}" "{0}" 64] by (simp add: lb_Pin_def)
  have s3: "pool_step 64 (?p [] 1 {0} {0} {}) (?p [] 1 {} {0} {0})"
    using pool_step.release [of 0 "?p [] 1 {0} {0} {}" 64] by simp
  have s4: "pool_step 64 (?p [] 1 {} {0} {0}) (?p [] 2 {1} {0} {0})"
    using pool_step.get [of 64 "?p [] 1 {} {0} {0}" 1] by (simp add: fl_Get_def h numeral_2_eq_2)
  have s5: "pool_step 64 (?p [] 2 {1} {0} {0}) (?p [] 2 {} {0} {0, 1})"
    using pool_step.release [of 1 "?p [] 2 {1} {0} {0}" 64] by (simp add: insert_commute)
  have s6: "pool_step 64 (?p [] 2 {} {0} {0, 1}) (?p [1] 2 {} {0} {0})"
    using pool_step.released [of 1 "?p [] 2 {} {0} {0, 1}" "{0}" "\<lparr>fl_list = [1], fl_buffers = 2, fl_watermark = 2\<rparr>" 64]
    by (simp add: fl_Release_def lb_Pin_def lb_Unpin_def insert_Diff_if)
  note next_step = converse_rtranclp_into_rtranclp
  show ?thesis unfolding used_pool_def
    by (rule next_step [OF s1 next_step [OF s2 next_step [OF s3 next_step [OF s4 next_step [OF s5 r_into_rtranclp [where r = "pool_step 64", OF s6]]]]]])
qed

theorem pool_safe_witness:
  "\<exists>lb l' heap'. fl_Get 64 (ps_pool used_pool) (ps_heap used_pool) = (lb, l', heap') \<and> ps_pinned used_pool = {0}
    \<and> lb \<notin> in_use used_pool \<and> lb_Bytes (heap' lb) = [] \<and> 64 \<le> lb_cap (heap' lb)"
proof -
  obtain lb l' heap' where g: "fl_Get 64 (ps_pool used_pool) (ps_heap used_pool) = (lb, l', heap')"
    by (cases "fl_Get 64 (ps_pool used_pool) (ps_heap used_pool)")
  have "(64::nat) \<le> MaxLeafSize" by (simp add: MaxLeafSize_def MiB_def)
  with pool_safe [OF used_pool_reached this g] g show ?thesis by (auto simp: used_pool_def)
qed

end
