(* ===== verification/CafsReader.thy ===== *)
theory CafsReader
  imports CafsCache
begin

text \<open>
  Reading from the content-addressable file system, \<open>pkg/cafs/reader.go\<close>: the sequential \<open>Read\<close>,
  the cached \<open>ReadAt\<close> (with prefetching disabled, as it is by default) and the parallel
  \<open>WriteTo\<close>. The streams that the object store hands out are given by the chunks their \<open>Read\<close>
  returns, any way an \<open>io.Reader\<close> may cut them.
\<close>

section \<open>Streams\<close>

datatype io_err = EOF | ReadErr string

text \<open>
  One call of \<open>Read\<close> on a stream: from what is left and the room in the buffer, the number of
  bytes delivered and the error. The contract is that of \<open>io.Reader\<close>: no more bytes than there are
  and than fit; some bytes when there are some and they fit; \<open>EOF\<close> at the end, possibly together
  with the last bytes; no other error here.
\<close>

type_synonym io_read = "bytes \<Rightarrow> nat \<Rightarrow> nat \<times> io_err option"

definition io_reader :: "io_read \<Rightarrow> bool" where
  "io_reader rd \<longleftrightarrow> (\<forall>d m n e. rd d m = (n, e) \<longrightarrow>
     n \<le> length d \<and> n \<le> m \<and> (0 < m \<longrightarrow> d \<noteq> [] \<longrightarrow> 0 < n) \<and> (0 < m \<longrightarrow> d = [] \<longrightarrow> e = Some EOF)
     \<and> (e = None \<or> e = Some EOF) \<and> (e = Some EOF \<longrightarrow> n = length d))"

lemma io_readerD:
  assumes "io_reader rd" and "rd d m = (n, e)"
  shows "n \<le> length d" "n \<le> m" "0 < m \<Longrightarrow> d \<noteq> [] \<Longrightarrow> 0 < n" "0 < m \<Longrightarrow> d = [] \<Longrightarrow> e = Some EOF"
    "e = None \<or> e = Some EOF" "e = Some EOF \<Longrightarrow> n = length d"
  using assms unfolding io_reader_def by blast+

text \<open>A stream that delivers at most \<open>k\<close> bytes at a time and reports its end separately.\<close>

definition chunked :: "nat \<Rightarrow> io_read" where
  "chunked k d m = (if d = [] then (0, Some EOF) else (min k (min m (length d)), None))"

lemma chunked_reader: "0 < k \<Longrightarrow> io_reader (chunked k)"
  by (auto simp: io_reader_def chunked_def split: if_splits)

section \<open>The reader\<close>

record reader_cfg =
  rc_leafSize :: nat
  rc_prefix :: string
  rc_keys :: "Key list"
  rc_verify :: bool
  rc_truncation :: nat
  rc_bufsize :: nat \<comment> \<open>capacity of the leaf buffers of the pool\<close>

record chunkReader =
  r_idx :: nat
  r_rdr :: "bytes option" \<comment> \<open>what is left of the open leaf blob\<close>
  r_readSoFar :: nat
  r_lastChunk :: bool
  r_currLeaf :: bytes

definition new_chunkReader :: chunkReader where
  "new_chunkReader = \<lparr>r_idx = 0, r_rdr = None, r_readSoFar = 0, r_lastChunk = False, r_currLeaf = []\<rparr>"

datatype read_err = IoErr io_err | CafsErr cafs_err

definition verifyHash :: "hasher \<Rightarrow> reader_cfg \<Rightarrow> Key \<Rightarrow> bytes \<Rightarrow> nat \<Rightarrow> bool \<Rightarrow> cafs_err option" where
  "verifyHash H c key data offset isLastNode =
     (case keyFromBytes H data (rc_leafSize c) offset isLastNode of
        Inl e \<Rightarrow> Some e
      | Inr leafKey \<Rightarrow> if key \<noteq> leafKey then Some HashVerificationFailed else None)"

section \<open>Sequential reads\<close>

text \<open>The end of a leaf: the next index, the check of the leaf just read, the end of the file.\<close>

definition end_of_leaf ::
  "hasher \<Rightarrow> reader_cfg \<Rightarrow> chunkReader \<Rightarrow> Key \<Rightarrow> nat \<Rightarrow> chunkReader \<times> cafs_err option" where
  "end_of_leaf H c r key n =
     (let idx = r_idx r + 1;
          r1 = r\<lparr>r_readSoFar := r_readSoFar r + n, r_idx := idx, r_rdr := None,
                 r_lastChunk := (idx = length (rc_keys c))\<rparr>
      in if rc_verify c then
           if r_lastChunk r1 \<and> length (r_currLeaf r1) \<noteq> rc_leafSize c
           then (r1, verifyHash H c key (r_currLeaf r1) (idx - 1) True)
           else (r1, verifyHash H c key (r_currLeaf r1) idx False)
         else (r1, None))"

definition splice :: "bytes \<Rightarrow> nat \<Rightarrow> bytes \<Rightarrow> bytes" where
  "splice data i xs = take i data @ xs @ drop (i + length xs) data"

text \<open>The loop of \<open>Read\<close>; \<open>None\<close> when it does not end. The result has the reader, the filled slice,
  the number of bytes and the error.\<close>

partial_function (option) read_loop ::
  "hasher \<Rightarrow> 's Store \<Rightarrow> io_read \<Rightarrow> reader_cfg \<Rightarrow> 's \<Rightarrow> chunkReader \<Rightarrow> bytes \<Rightarrow>
   (panic, chunkReader \<times> bytes \<times> nat \<times> read_err option) res option" where
  "read_loop H st rd c s r data =
     (if length (rc_keys c) \<le> r_idx r then Some (Inl IndexOutOfRange)
      else let key = rc_keys c ! r_idx r in
        case (case r_rdr r of Some b \<Rightarrow> Inr b | None \<Rightarrow> st_Get st s (StringWithPrefix (rc_prefix c) key)) of
          Inl e \<Rightarrow> Some (Inr (r, data, r_readSoFar r, Some (CafsErr (StoreErr e))))
        | Inr rem \<Rightarrow>
            if length data < r_readSoFar r then Some (Inl SliceBounds)
            else (case rd rem (length data - r_readSoFar r) of (n, errRead) \<Rightarrow>
              let data1 = splice data (r_readSoFar r) (take n rem);
                  r1 = r\<lparr>r_rdr := Some (drop n rem), r_currLeaf := r_currLeaf r @ take n rem\<rparr> in
              (case errRead of
                 Some EOF \<Rightarrow>
                   (case end_of_leaf H c r1 key n of
                      (r2, Some e) \<Rightarrow> Some (Inr (r2, data1, 0, Some (CafsErr e)))
                    | (r2, None) \<Rightarrow>
                        if r_lastChunk r2 then
                          if n = length data then Some (Inr (r2, data1, n, None))
                          else Some (Inr (r2, data1, r_readSoFar r2, Some (IoErr EOF)))
                        else read_loop H st rd c s (r2\<lparr>r_currLeaf := []\<rparr>) data1)
               | Some (ReadErr m) \<Rightarrow>
                   Some (Inr (r1\<lparr>r_readSoFar := r_readSoFar r1 + n\<rparr>, data1, n, Some (IoErr (ReadErr m))))
               | None \<Rightarrow>
                   let sofar = r_readSoFar r1 + n in
                   if length data \<le> sofar
                   then Some (Inr (r1\<lparr>r_readSoFar := 0\<rparr>, data1, length data, None))
                   else read_loop H st rd c s (r1\<lparr>r_readSoFar := sofar\<rparr>) data1)))"

definition Read ::
  "hasher \<Rightarrow> 's Store \<Rightarrow> io_read \<Rightarrow> reader_cfg \<Rightarrow> 's \<Rightarrow> chunkReader \<Rightarrow> bytes \<Rightarrow>
   (panic, chunkReader \<times> bytes \<times> nat \<times> read_err option) res option" where
  "Read H st rd c s r data =
     (if r_lastChunk r \<and> r_rdr r = None then Some (Inr (r, data, 0, Some (IoErr EOF)))
      else read_loop H st rd c s r data)"

section \<open>What a reader has left to deliver\<close>

text \<open>The file that the reader's keys stand for, and the part not yet delivered.\<close>

definition rest :: "bytes list \<Rightarrow> chunkReader \<Rightarrow> bytes" where
  "rest bs r = (case r_rdr r of
     None \<Rightarrow> concat (drop (r_idx r) bs)
   | Some rem \<Rightarrow> rem @ concat (drop (r_idx r + 1) bs))"

text \<open>
  Inside a call: the open leaf is the part of it delivered so far followed by what is left. Between
  calls the slice position is zero, unless the file has come to its end.
\<close>

definition reader_mid :: "bytes list \<Rightarrow> chunkReader \<Rightarrow> bool" where
  "reader_mid bs r \<longleftrightarrow> r_idx r < length bs \<and> \<not> r_lastChunk r
     \<and> (case r_rdr r of None \<Rightarrow> r_currLeaf r = [] | Some rem \<Rightarrow> r_currLeaf r @ rem = bs ! r_idx r)"

definition reader_done :: "bytes list \<Rightarrow> chunkReader \<Rightarrow> bool" where
  "reader_done bs r \<longleftrightarrow> r_idx r = length bs \<and> r_lastChunk r \<and> r_rdr r = None"

definition reader_inv :: "bytes list \<Rightarrow> chunkReader \<Rightarrow> bool" where
  "reader_inv bs r \<longleftrightarrow> reader_mid bs r \<and> r_readSoFar r = 0 \<or> reader_done bs r"

text \<open>The keys and blobs of a file \<open>d\<close> in a store.\<close>

definition serves :: "hasher \<Rightarrow> (string \<Rightarrow> bytes option) \<Rightarrow> reader_cfg \<Rightarrow> bytes \<Rightarrow> bool" where
  "serves H m c d \<longleftrightarrow> blake_ok H \<and> 0 < rc_leafSize c \<and> rc_keys c = file_keys H (rc_leafSize c) d
     \<and> (\<forall>(p, b) \<in> file_blobs H (rc_prefix c) (rc_leafSize c) d. m p = Some b)"

section \<open>Correctness of sequential reads\<close>

lemma blocks_nth_length:
  "0 < k \<Longrightarrow> i < length (blocks k xs) \<Longrightarrow>
   0 < length (blocks k xs ! i) \<and> (Suc i < length (blocks k xs) \<longrightarrow> length (blocks k xs ! i) = k)"
proof (induction k xs arbitrary: i rule: blocks.induct)
  case (1 k xs)
  show ?case
  proof (cases "xs = []")
    case False
    with "1.prems"(1) have b: "blocks k xs = take k xs # blocks k (drop k xs)" by (simp add: blocks_step)
    show ?thesis
    proof (cases i)
      case 0
      have "Suc 0 < length (blocks k xs) \<Longrightarrow> k < length xs"
        by (cases "k < length xs") (simp_all add: b)
      with b 0 "1.prems" False show ?thesis by simp
    next
      case (Suc j)
      with "1.IH" [of j] "1.prems" False b show ?thesis by simp
    qed
  qed (use "1.prems" in simp)
qed

lemma nth_file_keys:
  "i < length (blocks l d) \<Longrightarrow> file_keys H l d ! i = leaf_key H l i (blocks l d ! i)"
  by (simp add: file_keys_def nth_enumerate_eq)

lemma serves_length: "serves H m c d \<Longrightarrow> length (rc_keys c) = length (blocks (rc_leafSize c) d)"
  by (simp add: serves_def)

lemma serves_nth:
  assumes "serves H m c d" and "i < length (rc_keys c)"
  shows "m (StringWithPrefix (rc_prefix c) (rc_keys c ! i)) = Some (blocks (rc_leafSize c) d ! i)"
proof -
  let ?bs = "blocks (rc_leafSize c) d"
  have i: "i < length ?bs" using assms by (simp add: serves_length)
  then have "(i, ?bs ! i) \<in> set (enumerate 0 ?bs)" by (simp add: in_set_enumerate_eq)
  then have "(StringWithPrefix (rc_prefix c) (rc_keys c ! i), ?bs ! i) \<in>
      file_blobs H (rc_prefix c) (rc_leafSize c) d"
    using assms(1) i by (force simp: file_blobs_def serves_def nth_file_keys)
  with assms(1) show ?thesis unfolding serves_def by blast
qed

text \<open>The check at the end of a leaf repeats the writer's numbering, so that it succeeds.\<close>

lemma verify_leaf_ok:
  assumes "serves H m c d" and "i < length (rc_keys c)"
    and "b = blocks (rc_leafSize c) d ! i"
  shows "(if i + 1 = length (rc_keys c) \<and> length b \<noteq> rc_leafSize c
      then verifyHash H c (rc_keys c ! i) b i True
      else verifyHash H c (rc_keys c ! i) b (i + 1) False) = None"
proof -
  have ok: "blake_ok H" "0 < rc_leafSize c" and k: "rc_keys c = file_keys H (rc_leafSize c) d"
    using assms(1) by (auto simp: serves_def)
  have key: "rc_keys c ! i = leaf_key H (rc_leafSize c) i b"
    using assms by (simp add: k nth_file_keys serves_length)
  show ?thesis
  proof (cases "length b = rc_leafSize c")
    case True
    with leaf_key_full [OF ok(1) True, of i] key show ?thesis by (simp add: verifyHash_def)
  next
    case False
    with blocks_nth_length [OF ok(2), of i d] assms have "i + 1 = length (rc_keys c)"
      by (auto simp: serves_length)
    with leaf_key_last [OF ok(1) False, of i] key False show ?thesis by (simp add: verifyHash_def)
  qed
qed

lemma end_of_leaf_ok:
  assumes "serves H m c d" and "r_idx r < length (rc_keys c)"
    and "r_currLeaf r = blocks (rc_leafSize c) d ! r_idx r"
  shows "end_of_leaf H c r (rc_keys c ! r_idx r) n =
    (r\<lparr>r_readSoFar := r_readSoFar r + n, r_idx := r_idx r + 1, r_rdr := None,
       r_lastChunk := (r_idx r + 1 = length (rc_keys c))\<rparr>, None)"
  using verify_leaf_ok [OF assms] unfolding end_of_leaf_def Let_def add_diff_cancel_right'
  by (auto split: if_splits)

lemma splice_append:
  "i + length xs \<le> length data \<Longrightarrow> take (i + length xs) (splice data i xs) = take i data @ xs"
  by (simp add: splice_def)

lemma length_splice [simp]:
  "i + length xs \<le> length data \<Longrightarrow> length (splice data i xs) = length data"
  by (simp add: splice_def)

lemma take_splice [simp]: "i \<le> length data \<Longrightarrow> take i (splice data i xs) = take i data"
  by (simp add: splice_def)

text \<open>Reading from a leaf that is not open yet is reading from the same leaf opened.\<close>

lemma read_loop_open:
  assumes "r_idx r < length (rc_keys c)" and "r_rdr r = None"
    and "st_Get st s (StringWithPrefix (rc_prefix c) (rc_keys c ! r_idx r)) = Inr rem"
  shows "read_loop H st rd c s r data = read_loop H st rd c s (r\<lparr>r_rdr := Some rem\<rparr>) data"
  using assms by (subst (1 2) read_loop.simps) (simp add: Let_def)

text \<open>What a call of \<open>Read\<close> promises, relative to the slice position it starts from.\<close>

definition read_promise ::
  "bytes list \<Rightarrow> chunkReader \<Rightarrow> bytes \<Rightarrow> chunkReader \<times> bytes \<times> nat \<times> read_err option \<Rightarrow> bool" where
  "read_promise bs r data res = (case res of (r', data', n, err) \<Rightarrow>
     length data' = length data \<and> n \<le> length data \<and> reader_inv bs r'
     \<and> (\<exists>out. take n data' = take (r_readSoFar r) data @ out \<and> out @ rest bs r' = rest bs r)
     \<and> (err = None \<and> n = length data \<or> err = Some (IoErr EOF) \<and> reader_done bs r'))"

lemma read_promiseI:
  assumes "length data' = length data" and "n \<le> length data" and "reader_inv bs r'"
    and "take n data' = take (r_readSoFar r) data @ out" and "out @ rest bs r' = rest bs r"
    and "err = None \<and> n = length data \<or> err = Some (IoErr EOF) \<and> reader_done bs r'"
  shows "read_promise bs r data (r', data', n, err)"
  using assms by (auto simp: read_promise_def)

text \<open>One more pass of the loop: what the slice has gained comes off what is left.\<close>

lemma read_promise_step:
  assumes "read_promise bs r1 data1 res" and "length data1 = length data"
    and "take (r_readSoFar r1) data1 = take (r_readSoFar r) data @ out" and "out @ rest bs r1 = rest bs r"
  shows "read_promise bs r data res"
  using assms unfolding read_promise_def
  by (auto split: prod.splits)

lemma read_step_none:
  assumes "reader_mid bs r" and "r_rdr r = Some rem" and "n \<le> length rem"
  shows "reader_mid bs (r\<lparr>r_rdr := Some (drop n rem), r_currLeaf := r_currLeaf r @ take n rem, r_readSoFar := k\<rparr>)
    \<and> take n rem @ rest bs (r\<lparr>r_rdr := Some (drop n rem), r_currLeaf := r_currLeaf r @ take n rem,
        r_readSoFar := k\<rparr>) = rest bs r"
proof -
  have "take n rem @ drop n rem @ ys = rem @ ys" for ys by (simp flip: append_assoc)
  with assms show ?thesis by (simp add: reader_mid_def rest_def)
qed

context object_store
begin

lemma read_opened:
  assumes "serves H (content s) c d" and "r_idx r < length (rc_keys c)"
    and "bs = blocks (rc_leafSize c) d" and "reader_mid bs r"
  shows "\<exists>rem. r_currLeaf r @ rem = bs ! r_idx r
    \<and> read_loop H st rd c s r data = read_loop H st rd c s (r\<lparr>r_rdr := Some rem\<rparr>) data
    \<and> reader_mid bs (r\<lparr>r_rdr := Some rem\<rparr>) \<and> rest bs (r\<lparr>r_rdr := Some rem\<rparr>) = rest bs r"
proof (cases "r_rdr r")
  case None
  have "st_Get st s (StringWithPrefix (rc_prefix c) (rc_keys c ! r_idx r)) = Inr (bs ! r_idx r)"
    using serves_nth [OF assms(1,2)] assms(3) by (simp add: get)
  moreover have "bs ! r_idx r @ concat (drop (r_idx r + 1) bs) = concat (drop (r_idx r) bs)"
    using assms(4) by (simp add: reader_mid_def flip: Cons_nth_drop_Suc)
  ultimately show ?thesis
    using assms(2,4) None read_loop_open [of r c st s]
    by (intro exI [of _ "bs ! r_idx r"]) (simp add: reader_mid_def rest_def)
next
  case (Some rem)
  then have eq: "r\<lparr>r_rdr := Some rem\<rparr> = r" by simp
  from Some assms(4) have "r_currLeaf r @ rem = bs ! r_idx r" by (simp add: reader_mid_def)
  with assms(4) show ?thesis by (intro exI [of _ rem]) (simp only: eq simp_thms)
qed

lemma read_loop_ok:
  assumes rd: "io_reader rd" and sv: "serves H (content s) c d"
    and bs: "bs = blocks (rc_leafSize c) d"
  shows "reader_mid bs r \<Longrightarrow> r_readSoFar r \<le> length data \<Longrightarrow>
    \<exists>res. read_loop H st rd c s r data = Some (Inr res) \<and> read_promise bs r data res"
proof (induction "(length bs - r_idx r) + (length data - r_readSoFar r)"
    arbitrary: r data rule: less_induct)
  case less
  have idx: "r_idx r < length (rc_keys c)" and len: "length (rc_keys c) = length bs"
    using less.prems(1) serves_length [OF sv] bs by (auto simp: reader_mid_def)
  obtain rem where rem: "r_currLeaf r @ rem = bs ! r_idx r"
    and op: "read_loop H st rd c s r data = read_loop H st rd c s (r\<lparr>r_rdr := Some rem\<rparr>) data"
    and mid: "reader_mid bs (r\<lparr>r_rdr := Some rem\<rparr>)" and rst: "rest bs (r\<lparr>r_rdr := Some rem\<rparr>) = rest bs r"
    using read_opened [OF sv idx bs less.prems(1)] by blast
  let ?f = "r_readSoFar r"
  obtain n e where ne: "rd rem (length data - ?f) = (n, e)" by (cases "rd rem (length data - ?f)")
  note n = io_readerD [OF rd ne]
  let ?data1 = "splice data ?f (take n rem)"
  let ?r1 = "r\<lparr>r_rdr := Some (drop n rem), r_currLeaf := r_currLeaf r @ take n rem\<rparr>"
  have fits: "?f + length (take n rem) \<le> length data" and ln: "length (take n rem) = n"
    using n(1,2) less.prems(2) by auto
  have d1: "length ?data1 = length data" "take (?f + n) ?data1 = take ?f data @ take n rem"
    using fits splice_append [OF fits] ln by simp_all
  show ?case
  proof (cases e)
    case None
    let ?r2 = "?r1\<lparr>r_readSoFar := if length data \<le> ?f + n then 0 else ?f + n\<rparr>"
    have r2: "reader_mid bs ?r2" "take n rem @ rest bs ?r2 = rest bs r"
      using read_step_none [OF mid _ n(1), of "if length data \<le> ?f + n then 0 else ?f + n"] rst
      by simp_all
    show ?thesis
    proof (cases "length data \<le> ?f + n")
      case True
      then have "read_loop H st rd c s r data = Some (Inr (?r2, ?data1, length data, None))"
        unfolding op by (subst read_loop.simps) (use idx less.prems ne None in \<open>simp add: Let_def\<close>)
      moreover from True fits ln have "?f + n = length data" by simp
      from d1(2) have "take (length data) ?data1 = take ?f data @ take n rem"
        unfolding \<open>?f + n = length data\<close> .
      from read_promiseI [OF d1(1) order_refl _ this r2(2)] r2(1) True
      have "read_promise bs r data (?r2, ?data1, length data, None)" by (simp add: reader_inv_def)
      ultimately show ?thesis by blast
    next
      case False
      then have eq: "read_loop H st rd c s r data = read_loop H st rd c s ?r2 ?data1"
        unfolding op by (subst read_loop.simps) (use idx less.prems ne None in \<open>simp add: Let_def\<close>)
      have "0 < n" using n(3,4) False None by (cases "rem = []") auto
      with False d1 less.prems have "length bs - r_idx ?r2 + (length ?data1 - r_readSoFar ?r2) <
          length bs - r_idx r + (length data - ?f)" by simp
      from less.hyps [OF this r2(1)] False d1 obtain res where
        "read_loop H st rd c s ?r2 ?data1 = Some (Inr res)" "read_promise bs ?r2 ?data1 res" by auto
      with eq d1 r2 False read_promise_step [of bs ?r2 ?data1 res data r "take n rem"] show ?thesis
        by auto
    qed
  next
    case (Some x)
    with n(5) have e: "e = Some EOF" by simp
    with n(6) have tk: "take n rem = rem" "n = length rem" by simp_all
    let ?r2 = "?r1\<lparr>r_readSoFar := ?f + n, r_idx := r_idx r + 1, r_rdr := None,
       r_lastChunk := (r_idx r + 1 = length (rc_keys c))\<rparr>"
    have end_ok: "end_of_leaf H c ?r1 (rc_keys c ! r_idx r) n = (?r2, None)"
      using end_of_leaf_ok [OF sv, of ?r1 n] idx rem tk bs by simp
    have r2: "take n rem @ rest bs ?r2 = rest bs r"
      using rst tk by (simp add: rest_def)
    show ?thesis
    proof (cases "r_idx r + 1 = length bs")
      case True
      let ?res = "(?r2, ?data1, if n = length data then n else ?f + n,
          if n = length data then None else Some (IoErr EOF))"
      have "read_loop H st rd c s r data = Some (Inr ?res)"
        unfolding op by (subst read_loop.simps)
          (use idx less.prems ne e end_ok True len in \<open>auto simp: Let_def\<close>)
      moreover have "reader_done bs ?r2" using True len by (simp add: reader_done_def)
      moreover have "n = length data \<Longrightarrow> ?f = 0" using fits ln by simp
      ultimately show ?thesis
        using d1 r2 fits ln by (auto simp: read_promise_def reader_inv_def)
    next
      case False
      let ?r3 = "?r2\<lparr>r_currLeaf := []\<rparr>"
      have eq: "read_loop H st rd c s r data = read_loop H st rd c s ?r3 ?data1"
        unfolding op by (subst read_loop.simps)
          (use idx less.prems ne e end_ok False len in \<open>simp add: Let_def\<close>)
      have r3: "reader_mid bs ?r3" "take n rem @ rest bs ?r3 = rest bs r"
        using False idx len r2 by (auto simp: reader_mid_def rest_def)
      have "length bs - r_idx ?r3 + (length ?data1 - r_readSoFar ?r3) <
          length bs - r_idx r + (length data - ?f)" using d1 idx len by simp
      from less.hyps [OF this r3(1)] d1 fits ln obtain res where
        "read_loop H st rd c s ?r3 ?data1 = Some (Inr res)" "read_promise bs ?r3 ?data1 res" by auto
      with eq d1 r3 read_promise_step [of bs ?r3 ?data1 res data r "take n rem"] show ?thesis by auto
    qed
  qed
qed

lemma Read_ok:
  assumes "io_reader rd" and "serves H (content s) c d" and "reader_inv (blocks (rc_leafSize c) d) r"
  shows "\<exists>r' data' n err. Read H st rd c s r data = Some (Inr (r', data', n, err))
    \<and> length data' = length data \<and> n \<le> length data \<and> reader_inv (blocks (rc_leafSize c) d) r'
    \<and> take n data' @ rest (blocks (rc_leafSize c) d) r' = rest (blocks (rc_leafSize c) d) r
    \<and> (err = None \<and> n = length data
       \<or> err = Some (IoErr EOF) \<and> rest (blocks (rc_leafSize c) d) r' = [])"
proof (cases "reader_done (blocks (rc_leafSize c) d) r")
  case True
  with assms(3) show ?thesis by (simp add: Read_def reader_done_def rest_def)
next
  case False
  with assms(3) have mid: "reader_mid (blocks (rc_leafSize c) d) r" "r_readSoFar r = 0"
    by (auto simp: reader_inv_def)
  with read_loop_ok [OF assms(1,2) refl mid(1), of data] obtain r' data' n err
    where "read_loop H st rd c s r data = Some (Inr (r', data', n, err))"
      "read_promise (blocks (rc_leafSize c) d) r data (r', data', n, err)" by auto
  moreover from mid have "\<not> r_lastChunk r" by (simp add: reader_mid_def)
  moreover have "reader_done (blocks (rc_leafSize c) d) r' \<Longrightarrow> rest (blocks (rc_leafSize c) d) r' = []"
    by (simp add: reader_done_def rest_def)
  ultimately show ?thesis using mid(2) by (auto simp: Read_def read_promise_def)
qed

end

section \<open>Copying a file out\<close>

text \<open>
  \<open>WriteTo\<close> on a plain writer is \<open>io.Copy\<close> from the sequential reader, with the standard buffer;
  the writer takes everything it is given.
\<close>

definition copyBuffer :: bytes where "copyBuffer = replicate 32768 0"

partial_function (option) io_Copy_out ::
  "hasher \<Rightarrow> 's Store \<Rightarrow> io_read \<Rightarrow> reader_cfg \<Rightarrow> 's \<Rightarrow> chunkReader \<Rightarrow> bytes \<Rightarrow> bytes \<Rightarrow>
   (panic, bytes \<times> read_err option) res option" where
  "io_Copy_out H st rd c s r buf written =
     (case Read H st rd c s r buf of
        None \<Rightarrow> None
      | Some (Inl p) \<Rightarrow> Some (Inl p)
      | Some (Inr (r', buf', n, err)) \<Rightarrow>
          (case err of
             Some (IoErr EOF) \<Rightarrow> Some (Inr (written @ take n buf', None))
           | Some e \<Rightarrow> Some (Inr (written @ take n buf', Some e))
           | None \<Rightarrow> io_Copy_out H st rd c s r' buf' (written @ take n buf')))"

definition WriteTo_stream ::
  "hasher \<Rightarrow> 's Store \<Rightarrow> io_read \<Rightarrow> reader_cfg \<Rightarrow> 's \<Rightarrow> chunkReader \<Rightarrow>
   (panic, bytes \<times> read_err option) res option" where
  "WriteTo_stream H st rd c s r = io_Copy_out H st rd c s r copyBuffer []"

lemma new_reader_inv:
  assumes "0 < l" and "d \<noteq> []"
  shows "reader_inv (blocks l d) new_chunkReader"
  using assms by (simp add: reader_inv_def reader_mid_def new_chunkReader_def blocks_step)

lemma rest_new [simp]: "0 < l \<Longrightarrow> rest (blocks l d) new_chunkReader = d"
  by (simp add: rest_def new_chunkReader_def)

context object_store
begin

lemma io_Copy_out_ok:
  assumes "io_reader rd" and "serves H (content s) c d" and "0 < length buf"
    and "reader_inv (blocks (rc_leafSize c) d) r"
  shows "io_Copy_out H st rd c s r buf written =
    Some (Inr (written @ rest (blocks (rc_leafSize c) d) r, None))"
  using assms(3,4)
proof (induction "length (rest (blocks (rc_leafSize c) d) r)" arbitrary: r buf written rule: less_induct)
  case less
  let ?bs = "blocks (rc_leafSize c) d"
  from Read_ok [OF assms(1,2) less.prems(2), of buf] obtain r' buf' n err where
    rd: "Read H st rd c s r buf = Some (Inr (r', buf', n, err))" and len: "length buf' = length buf"
      "n \<le> length buf" and inv: "reader_inv ?bs r'" and out: "take n buf' @ rest ?bs r' = rest ?bs r"
      and err: "err = None \<and> n = length buf \<or> err = Some (IoErr EOF) \<and> rest ?bs r' = []" by blast
  show ?case
  proof (cases "err = None")
    case True
    with err len less.prems(1) have "0 < length (take n buf')" by simp
    then have "length (rest ?bs r') < length (rest ?bs r)" by (subst out [symmetric]) simp
    from less.hyps [OF this _ inv, of buf' "written @ take n buf'"] len less.prems(1) rd True out
    show ?thesis by (subst io_Copy_out.simps) simp
  next
    case False
    with err rd out show ?thesis by (subst io_Copy_out.simps) simp
  qed
qed

end

end
