(* ===== verification/CafsReadAt.thy ===== *)
theory CafsReadAt
  imports CafsReader
begin

text \<open>
  Random access to a file: \<open>ReadAt\<close> with its buffer cache, and the parallel \<open>WriteTo\<close>, of
  \<open>pkg/cafs/reader.go\<close>.
\<close>

section \<open>Parallel download\<close>

text \<open>
  \<open>WriteTo\<close> on a file: one goroutine per leaf writes the blob at its own offset. The file is its
  bytes, and writing past the end leaves zeros in the gap. The order is that in which the
  goroutines come to write; the first error is returned when there is one.
\<close>

definition file_WriteAt :: "bytes \<Rightarrow> nat \<Rightarrow> bytes \<Rightarrow> bytes" where
  "file_WriteAt f off p =
     (if p = [] then f
      else take off (f @ replicate (off - length f) 0) @ p @ drop (off + length p) f)"

fun write_leaves ::
  "'s Store \<Rightarrow> reader_cfg \<Rightarrow> 's \<Rightarrow> nat list \<Rightarrow> bytes \<Rightarrow> bytes \<times> nat \<times> store_err list" where
  "write_leaves st c s [] f = (f, 0, [])"
| "write_leaves st c s (i # order) f =
     (case st_Get st s (StringWithPrefix (rc_prefix c) (rc_keys c ! i)) of
        Inl e \<Rightarrow>
          (case write_leaves st c s order f of (f', w, errs) \<Rightarrow> (f', w, e # errs))
      | Inr b \<Rightarrow>
          (case write_leaves st c s order (file_WriteAt f (i * (rc_leafSize c - rc_truncation c)) b) of
             (f', w, errs) \<Rightarrow> (f', copy_count (Source [b] None (st_piped st)) (length b) + w, errs)))"

definition WriteTo_file ::
  "'s Store \<Rightarrow> reader_cfg \<Rightarrow> 's \<Rightarrow> nat list \<Rightarrow> bytes \<Rightarrow> bytes \<times> (store_err, nat) res" where
  "WriteTo_file st c s order f =
     (if rc_keys c = [] then (f, Inr 0)
      else case write_leaves st c s order f of
             (f', w, []) \<Rightarrow> (f', Inr w)
           | (f', w, e # _) \<Rightarrow> (f', Inl e))"

definition byte_at :: "bytes \<Rightarrow> nat \<Rightarrow> byte option" where
  "byte_at f k = (if k < length f then Some (f ! k) else None)"

lemma byte_at_eqI: "(\<And>k. byte_at f k = byte_at g k) \<Longrightarrow> f = g"
proof (rule nth_equalityI)
  assume eq: "\<And>k. byte_at f k = byte_at g k"
  show "length f = length g"
    using eq [of "length f"] eq [of "length g"] by (auto simp: byte_at_def split: if_splits)
  then show "f ! i = g ! i" if "i < length f" for i
    using eq [of i] that by (auto simp: byte_at_def)
qed

lemma length_file_WriteAt:
  "length (file_WriteAt f off p) = (if p = [] then length f else max (length f) (off + length p))"
  by (auto simp: file_WriteAt_def)

lemma byte_at_WriteAt:
  "byte_at (file_WriteAt f off p) k =
     (if off \<le> k \<and> k < off + length p then byte_at p (k - off)
      else if k < length f then byte_at f k
      else if k < length (file_WriteAt f off p) then Some 0 else None)"
proof -
  have "min (length f) off + (off - length f) = off" by simp
  then show ?thesis by (auto simp: byte_at_def file_WriteAt_def nth_append)
qed

lemma byte_at_WriteAt_block:
  assumes "j \<le> k" and "k < j + l" and "k < length d"
  shows "byte_at (file_WriteAt f j (take l (drop j d))) k = byte_at d k"
proof -
  from assms have "k < j + length (take l (drop j d))" by (auto simp: min_def)
  moreover from assms have "byte_at (take l (drop j d)) (k - j) = byte_at d k"
    by (auto simp: byte_at_def)
  ultimately show ?thesis using assms by (simp only: byte_at_WriteAt simp_thms if_True)
qed

lemma byte_at_WriteAt_other:
  assumes "\<not> (j \<le> k \<and> k < j + l)" and "byte_at f k = byte_at d k" and "k < length d"
  shows "byte_at (file_WriteAt f j (take l (drop j d))) k = byte_at d k"
proof -
  from assms(2,3) have "k < length f" by (auto simp: byte_at_def split: if_splits)
  moreover from assms(1) have "\<not> (j \<le> k \<and> k < j + length (take l (drop j d)))" by auto
  ultimately show ?thesis using assms(2) by (simp only: byte_at_WriteAt if_False if_True)
qed

context object_store
begin

lemma write_leaves_ok:
  assumes "serves H (content s) c d" and "rc_truncation c = 0"
  shows "\<lbrakk>set order \<subseteq> {..<length (rc_keys c)}; length f \<le> length d;
      \<forall>k < length d. k div rc_leafSize c \<in> S \<longrightarrow> byte_at f k = byte_at d k\<rbrakk> \<Longrightarrow>
    \<exists>f'. write_leaves st c s order f =
        (f', if st_piped st then 0 else sum_list (map (\<lambda>i. length (blocks (rc_leafSize c) d ! i)) order), [])
      \<and> length f' \<le> length d
      \<and> (\<forall>k < length d. k div rc_leafSize c \<in> S \<union> set order \<longrightarrow> byte_at f' k = byte_at d k)"
proof (induction order arbitrary: f S)
  case Nil
  then show ?case by simp
next
  case (Cons i order)
  let ?l = "rc_leafSize c" and ?b = "blocks (rc_leafSize c) d ! i"
  let ?f1 = "file_WriteAt f (i * ?l) ?b"
  have l: "0 < ?l" and i: "i < length (blocks ?l d)"
    using assms(1) Cons.prems(1) serves_length [OF assms(1)] by (auto simp: serves_def)
  have get: "st_Get st s (StringWithPrefix (rc_prefix c) (rc_keys c ! i)) = Inr ?b"
    using serves_nth [OF assms(1), of i] Cons.prems(1) by (simp add: get)
  have b: "?b = take ?l (drop (i * ?l) d)" "i * ?l < length d" using blocks_nth [OF l i] by auto
  have "byte_at ?f1 k = byte_at d k" if k: "k < length d" "k div ?l \<in> insert i S" for k
  proof (cases "i * ?l \<le> k \<and> k < i * ?l + ?l")
    case True
    then show ?thesis unfolding b(1) using k(1) by (intro byte_at_WriteAt_block) auto
  next
    case False
    moreover have "k div ?l * ?l \<le> k" "k < k div ?l * ?l + ?l"
      using l dividend_less_div_times [of ?l k] by (simp_all add: add.commute)
    ultimately have "k div ?l \<noteq> i" by auto
    with k Cons.prems(3) have "byte_at f k = byte_at d k" by auto
    with False k(1) show ?thesis unfolding b(1) by (intro byte_at_WriteAt_other) auto
  qed
  moreover have "length ?f1 \<le> length d" using b Cons.prems(2) by (auto simp: length_file_WriteAt)
  ultimately show ?case
    using Cons.IH [of ?f1 "insert i S"] Cons.prems(1) get assms(2) by auto
qed

lemma WriteTo_file_ok:
  assumes sv: "serves H (content s) c d" and tr: "rc_truncation c = 0"
    and order: "mset order = mset [0..<length (rc_keys c)]"
  shows "WriteTo_file st c s order [] = (d, Inr (if st_piped st then 0 else length d))"
proof -
  let ?bs = "blocks (rc_leafSize c) d"
  have l: "0 < rc_leafSize c" and len: "length (rc_keys c) = length ?bs"
    using sv serves_length by (auto simp: serves_def)
  have set: "set order = {..<length ?bs}"
    using mset_eq_setD [OF order] len by (auto simp: atLeast0LessThan)
  obtain f' where w: "write_leaves st c s order [] = (f', if st_piped st then 0 else sum_list (map (\<lambda>i. length (?bs ! i)) order), [])"
    and f': "length f' \<le> length d" "\<forall>k < length d. k div rc_leafSize c \<in> set order \<longrightarrow> byte_at f' k = byte_at d k"
    using write_leaves_ok [OF sv tr, of order "[]" "{}"] set len by auto
  have "byte_at f' k = byte_at d k" for k
    using f' set blocks_index [OF l, of k d] by (cases "k < length d") (auto simp: byte_at_def)
  then have eq: "f' = d" by (rule byte_at_eqI)
  have "mset (map (\<lambda>i. length (?bs ! i)) order) = mset (map (\<lambda>i. length (?bs ! i)) [0..<length ?bs])"
    using order len by (simp only: mset_map)
  then have "sum_list (map (\<lambda>i. length (?bs ! i)) order) = sum_list (map (\<lambda>i. length (?bs ! i)) [0..<length ?bs])"
    by (metis sum_mset_sum_list)
  also have "map (\<lambda>i. length (?bs ! i)) [0..<length ?bs] = map length ?bs"
    by (rule nth_equalityI) simp_all
  also have "sum_list (map length ?bs) = length d"
    using l by (simp flip: length_concat)
  finally have sum: "sum_list (map (\<lambda>i. length (?bs ! i)) order) = length d" .
  show ?thesis
  proof (cases "rc_keys c = []")
    case True
    with len l have "d = []" by (cases "d = []") (simp_all add: blocks_step)
    with True show ?thesis by (simp add: WriteTo_file_def)
  next
    case False
    with w eq sum show ?thesis by (simp add: WriteTo_file_def)
  qed
qed

end

section \<open>Random access\<close>

text \<open>
  \<open>readLeaf\<close> without prefetching: the blob is read into an empty buffer of the pool until the stream
  ends or the buffer is full, and its hash is checked. A stream cannot deliver more than it has or
  than fits into the buffer.
\<close>

function fill_leaf :: "io_read \<Rightarrow> nat \<Rightarrow> bytes \<Rightarrow> bytes \<Rightarrow> (string, bytes) res" where
  "fill_leaf rd cap rem buffer =
     (case rd rem (cap - length buffer) of (n, e) \<Rightarrow>
        let got = take (min n (cap - length buffer)) rem in
        (case e of
           Some (ReadErr m) \<Rightarrow> Inl m
         | Some EOF \<Rightarrow> Inr (buffer @ got)
         | None \<Rightarrow> if got = [] then Inr buffer
                   else fill_leaf rd cap (drop (length got) rem) (buffer @ got)))"
  by pat_completeness auto
termination
  by (relation "measure (\<lambda>(rd, cap, rem, buffer). length rem)") auto

declare fill_leaf.simps [simp del]

definition readLeaf ::
  "hasher \<Rightarrow> 's Store \<Rightarrow> io_read \<Rightarrow> reader_cfg \<Rightarrow> 's \<Rightarrow> Key \<Rightarrow> nat \<Rightarrow> (read_err, bytes) res" where
  "readLeaf H st rd c s k index =
     (case st_Get st s (StringWithPrefix (rc_prefix c) k) of
        Inl e \<Rightarrow> Inl (CafsErr (StoreErr e))
      | Inr blob \<Rightarrow>
          (case fill_leaf rd (rc_bufsize c) blob [] of
             Inl m \<Rightarrow> Inl (IoErr (ReadErr m))
           | Inr lb \<Rightarrow>
               if rc_verify c then
                 (case (if index + 1 = length (rc_keys c) \<and> length lb \<noteq> rc_leafSize c
                        then verifyHash H c k lb index True
                        else verifyHash H c k lb (index + 1) False) of
                    Some e \<Rightarrow> Inl (CafsErr e)
                  | None \<Rightarrow> Inr lb)
               else Inr lb))"

definition calculateKeyAndOffset :: "int \<Rightarrow> nat \<Rightarrow> int \<times> int" where
  "calculateKeyAndOffset off leafSize =
     (sgn off * (\<bar>off\<bar> div int leafSize), sgn off * (\<bar>off\<bar> mod int leafSize))"

text \<open>The loop over the leaves that the requested range covers, and \<open>ReadAt\<close> itself.\<close>

function readAt_loop ::
  "hasher \<Rightarrow> 's Store \<Rightarrow> ('c, string, bytes) lru \<Rightarrow> io_read \<Rightarrow> reader_cfg \<Rightarrow> 's \<Rightarrow> 'c \<Rightarrow> bytes \<Rightarrow>
   nat \<Rightarrow> int \<Rightarrow> nat \<Rightarrow> 'c \<times> (panic, bytes \<times> nat \<times> read_err option) res" where
  "readAt_loop H st L rd c s cache data index offset readBytes =
     (let key = rc_keys c ! index; pth = StringWithPrefix (rc_prefix c) key in
      case lru_Get L cache pth of (hit, cache1) \<Rightarrow>
        (case (case hit of Some b \<Rightarrow> Inr b | None \<Rightarrow> readLeaf H st rd c s key index) of
           Inl e \<Rightarrow> (cache1, Inr (data, readBytes, Some e))
         | Inr buffer \<Rightarrow>
             if offset < 0 \<or> int (length buffer) < offset then (cache1, Inl SliceBounds)
             else
               let chunk = take (length data - readBytes) (drop (nat offset) buffer);
                   data1 = splice data readBytes chunk;
                   readBytes1 = readBytes + length chunk;
                   cache2 = (if hit = None then snd (lru_ContainsOrAdd L cache1 pth buffer) else cache1)
               in if readBytes1 = length data1 \<or> length (rc_keys c) \<le> index + 1
                  then (cache2, Inr (data1, readBytes1, None))
                  else readAt_loop H st L rd c s cache2 data1 (index + 1) 0 readBytes1))"
  by pat_completeness auto
termination
  by (relation "measure (\<lambda>(H, st, L, rd, c, s, cache, data, index, offset, readBytes).
      length (rc_keys c) - index)") auto

declare readAt_loop.simps [simp del]

definition ReadAt ::
  "hasher \<Rightarrow> 's Store \<Rightarrow> ('c, string, bytes) lru \<Rightarrow> io_read \<Rightarrow> reader_cfg \<Rightarrow> 's \<Rightarrow> 'c \<Rightarrow> bytes \<Rightarrow>
   int \<Rightarrow> 'c \<times> (panic, bytes \<times> nat \<times> read_err option) res" where
  "ReadAt H st L rd c s cache data off =
     (case calculateKeyAndOffset off (rc_leafSize c) of (index, offset) \<Rightarrow>
        if int (length (rc_keys c)) \<le> index then (cache, Inr (data, 0, None))
        else if index < 0 then (cache, Inl IndexOutOfRange)
        else readAt_loop H st L rd c s cache data (nat index) offset 0)"

section \<open>Correctness of random access\<close>

lemma fill_leaf_ok:
  assumes "io_reader rd" and "length buffer + length rem \<le> cap"
  shows "fill_leaf rd cap rem buffer = Inr (buffer @ rem)"
  using assms(2)
proof (induction "length rem" arbitrary: rem buffer rule: less_induct)
  case less
  let ?m = "cap - length buffer"
  obtain n e where ne: "rd rem ?m = (n, e)" by (cases "rd rem ?m")
  note n = io_readerD [OF assms(1) ne]
  show ?case
  proof (cases e)
    case None
    with n less.prems have "rem \<noteq> [] \<Longrightarrow> 0 < n" by (cases rem) auto
    with less.hyps [of "drop n rem" "buffer @ take n rem"] less.prems n ne None show ?thesis
      by (subst fill_leaf.simps) (auto simp: Let_def)
  next
    case (Some x)
    with n(5) have "e = Some EOF" by simp
    with ne n show ?thesis by (subst fill_leaf.simps) (simp add: Let_def)
  qed
qed

text \<open>The store behind the reader and the buffer cache in front of it.\<close>

locale cached_store = object_store st content + lru_cache L view
  for st :: "'s Store" and content and L :: "('c, string, bytes) lru" and view
begin

abbreviation cache_ok :: "'s \<Rightarrow> 'c \<Rightarrow> bool" where
  "cache_ok s \<equiv> all_entries (\<lambda>p b. content s p = Some b)"

lemma readLeaf_ok:
  assumes "io_reader rd" and "serves H (content s) c d" and "i < length (rc_keys c)"
    and "rc_leafSize c \<le> rc_bufsize c"
  shows "readLeaf H st rd c s (rc_keys c ! i) i = Inr (blocks (rc_leafSize c) d ! i)"
proof -
  let ?b = "blocks (rc_leafSize c) d ! i"
  have "?b = take (rc_leafSize c) (drop (i * rc_leafSize c) d)"
    using assms(2,3) blocks_nth [of "rc_leafSize c" i d] serves_length [OF assms(2)]
    by (simp add: serves_def)
  with assms(4) have "length ?b \<le> rc_bufsize c" by simp
  with fill_leaf_ok [OF assms(1), of "[]" ?b] have "fill_leaf rd (rc_bufsize c) ?b [] = Inr ?b" by simp
  with serves_nth [OF assms(2,3)] verify_leaf_ok [OF assms(2,3) refl] show ?thesis
    by (simp add: readLeaf_def get split: if_splits)
qed

text \<open>Looking a leaf up in the cache or reading it from the store, and the cache after it.\<close>

lemma leaf_lookup:
  assumes "io_reader rd" and "serves H (content s) c d" and "i < length (rc_keys c)"
    and "rc_leafSize c \<le> rc_bufsize c" and "cache_ok s cache"
    and "lru_Get L cache (StringWithPrefix (rc_prefix c) (rc_keys c ! i)) = (hit, cache1)"
  shows "(case hit of Some b \<Rightarrow> Inr b | None \<Rightarrow> readLeaf H st rd c s (rc_keys c ! i) i) =
      Inr (blocks (rc_leafSize c) d ! i)" (is ?A)
    and "cache_ok s (if hit = None then snd (lru_ContainsOrAdd L cache1
      (StringWithPrefix (rc_prefix c) (rc_keys c ! i)) (blocks (rc_leafSize c) d ! i)) else cache1)" (is ?B)
proof -
  note blob = serves_nth [OF assms(2,3)]
  have c1: "cache_ok s cache1" using all_entries_get [OF assms(5)] assms(6) by (metis snd_conv)
  show ?A
  proof (cases hit)
    case None
    then show ?thesis using readLeaf_ok [OF assms(1-4)] by simp
  next
    case (Some b)
    with all_entries_hit [OF assms(5)] assms(6) blob show ?thesis by fastforce
  qed
  from c1 blob show ?B by (auto intro: all_entries_add)
qed

lemma readAt_loop_ok:
  assumes "io_reader rd" and sv: "serves H (content s) c d" and "rc_leafSize c \<le> rc_bufsize c"
    and bs: "bs = blocks (rc_leafSize c) d"
  shows "\<lbrakk>i < length bs; j \<le> length (bs ! i); k \<le> length data; cache_ok s cache\<rbrakk> \<Longrightarrow>
    \<exists>cache' data' n. readAt_loop H st L rd c s cache data i (int j) k = (cache', Inr (data', n, None))
      \<and> cache_ok s cache' \<and> length data' = length data
      \<and> take n data' = take k data @ take (length data - k) (drop j (bs ! i) @ concat (drop (Suc i) bs))
      \<and> n \<le> length data"
proof (induction "length bs - i" arbitrary: i j k data cache rule: less_induct)
  case less
  let ?p = "StringWithPrefix (rc_prefix c) (rc_keys c ! i)"
  have i: "i < length (rc_keys c)" using less.prems(1) bs serves_length [OF sv] by simp
  obtain hit cache1 where lk: "lru_Get L cache ?p = (hit, cache1)" by (cases "lru_Get L cache ?p")
  note leaf = leaf_lookup [OF assms(1) sv i assms(3) less.prems(4) lk, folded bs]
  have len: "length (rc_keys c) = length bs" using serves_length [OF sv] bs by simp
  let ?ch = "take (length data - k) (drop j (bs ! i))"
  let ?data1 = "splice data k ?ch" and ?k1 = "k + length ?ch"
  let ?cache2 = "if hit = None then snd (lru_ContainsOrAdd L cache1 ?p (bs ! i)) else cache1"
  have fits: "k + length ?ch \<le> length data" using less.prems(3) by (auto simp: min_def)
  have d1: "length ?data1 = length data" "take ?k1 ?data1 = take k data @ ?ch"
    by (rule length_splice [OF fits], rule splice_append [OF fits])
  have step: "readAt_loop H st L rd c s cache data i (int j) k =
      (if ?k1 = length ?data1 \<or> length (rc_keys c) \<le> i + 1 then (?cache2, Inr (?data1, ?k1, None))
       else readAt_loop H st L rd c s ?cache2 ?data1 (i + 1) 0 ?k1)"
    using lk leaf(1) less.prems(2) by (subst readAt_loop.simps) (simp add: Let_def)
  show ?case
  proof (cases "?k1 = length data \<or> length bs \<le> i + 1")
    case True
    have "take (length data - k) (drop j (bs ! i) @ concat (drop (Suc i) bs)) = ?ch"
      using True fits by (auto simp: min_def split: if_splits)
    then have "take ?k1 ?data1 =
        take k data @ take (length data - k) (drop j (bs ! i) @ concat (drop (Suc i) bs))"
      using d1(2) by (simp only:)
    moreover have "readAt_loop H st L rd c s cache data i (int j) k = (?cache2, Inr (?data1, ?k1, None))"
      using step True by (simp only: d1(1) len if_True)
    ultimately show ?thesis using leaf(2) d1(1) fits by blast
  next
    case False
    then have lt: "i + 1 < length bs" "length bs - (i + 1) < length bs - i" by auto
    have more: "?ch = drop j (bs ! i)" "length (drop j (bs ! i)) \<le> length data - k"
      using False fits by (auto simp: min_def split: if_splits)
    have "\<exists>cache' data' n. readAt_loop H st L rd c s ?cache2 ?data1 (i + 1) (int 0) ?k1 =
        (cache', Inr (data', n, None)) \<and> cache_ok s cache' \<and> length data' = length ?data1
      \<and> take n data' = take ?k1 ?data1 @
          take (length ?data1 - ?k1) (drop 0 (bs ! (i + 1)) @ concat (drop (Suc (i + 1)) bs))
      \<and> n \<le> length ?data1"
      using fits d1(1) leaf(2) by (intro less.hyps [OF lt(2) lt(1)]) auto
    then obtain cache' data' n where rec:
      "readAt_loop H st L rd c s ?cache2 ?data1 (i + 1) 0 ?k1 = (cache', Inr (data', n, None))"
      "cache_ok s cache'" "length data' = length data" "n \<le> length data"
      "take n data' = take k data @ ?ch @
        take (length data - ?k1) (bs ! (i + 1) @ concat (drop (Suc (i + 1)) bs))"
      unfolding d1 by auto
    have "bs ! (i + 1) @ concat (drop (Suc (i + 1)) bs) = concat (drop (Suc i) bs)"
      using lt(1) by (simp flip: Cons_nth_drop_Suc)
    note rec(5) [unfolded this]
    with more have "take n data' =
        take k data @ take (length data - k) (drop j (bs ! i) @ concat (drop (Suc i) bs))"
      by (simp add: take_append)
    moreover have "readAt_loop H st L rd c s cache data i (int j) k = (cache', Inr (data', n, None))"
      using step False rec(1) by (simp only: d1(1) len if_False)
    ultimately show ?thesis using rec(2-4) by blast
  qed
qed

text \<open>The whole call, for every offset that is not negative.\<close>

lemma ReadAt_ok:
  assumes "io_reader rd" and sv: "serves H (content s) c d" and "rc_leafSize c \<le> rc_bufsize c"
    and "cache_ok s cache"
  shows "if off \<le> length d \<or> length (rc_keys c) \<le> off div rc_leafSize c
    then \<exists>cache' data' n. ReadAt H st L rd c s cache data (int off) = (cache', Inr (data', n, None))
      \<and> cache_ok s cache' \<and> n \<le> length data \<and> take n data' = take (length data) (drop off d)
    else \<exists>cache'. ReadAt H st L rd c s cache data (int off) = (cache', Inl SliceBounds)"
proof -
  let ?l = "rc_leafSize c" and ?bs = "blocks (rc_leafSize c) d"
  let ?i = "off div ?l" and ?j = "off mod ?l"
  have l: "0 < ?l" and len: "length (rc_keys c) = length ?bs"
    using sv serves_length by (auto simp: serves_def)
  have calc: "calculateKeyAndOffset (int off) ?l = (int ?i, int ?j)"
    by (auto simp: calculateKeyAndOffset_def sgn_if zdiv_int zmod_int)
  show ?thesis
  proof (cases "length ?bs \<le> ?i")
    case True
    with blocks_index [OF l, of off d] have "length d \<le> off" by (meson not_le)
    with True calc len assms(4) show ?thesis by (simp add: ReadAt_def)
  next
    case False
    then have i: "?i < length ?bs" by simp
    have b: "?bs ! ?i = take ?l (drop (?i * ?l) d)" using blocks_nth [OF l i] by simp
    have at: "ReadAt H st L rd c s cache data (int off) = readAt_loop H st L rd c s cache data ?i (int ?j) 0"
      using i calc len by (simp add: ReadAt_def)
    have j: "?j \<le> length (?bs ! ?i) \<longleftrightarrow> off \<le> length d"
    proof -
      have "x < y \<Longrightarrow> a < n \<Longrightarrow> x \<le> min y (n - a) \<longleftrightarrow> a + x \<le> n" for x y a n :: nat by auto
      from this [of ?j ?l "?i * ?l" "length d"] blocks_nth [OF l i] l
      have "?j \<le> min ?l (length d - ?i * ?l) \<longleftrightarrow> off \<le> length d" by simp
      then show ?thesis unfolding b by (simp only: length_take length_drop min.commute)
    qed
    show ?thesis
    proof (cases "off \<le> length d")
      case True
      have "drop off d = drop (?j + ?i * ?l) d" by simp
      also have "\<dots> = drop ?j (concat (drop ?i ?bs))"
        by (simp only: drop_drop concat_drop_blocks [OF l])
      also have "concat (drop ?i ?bs) = ?bs ! ?i @ concat (drop (Suc ?i) ?bs)"
        using i by (simp flip: Cons_nth_drop_Suc)
      finally have "drop off d = drop ?j (?bs ! ?i) @ concat (drop (Suc ?i) ?bs)"
        using True j by simp
      then show ?thesis
        using readAt_loop_ok [OF assms(1) sv assms(3) refl i, of ?j 0 data cache] True j at assms(4)
        by auto
    next
      case False
      obtain hit cache1 where lk: "lru_Get L cache (StringWithPrefix (rc_prefix c) (rc_keys c ! ?i)) = (hit, cache1)"
        by (cases "lru_Get L cache (StringWithPrefix (rc_prefix c) (rc_keys c ! ?i))")
      from leaf_lookup(1) [OF assms(1) sv _ assms(3,4) lk] i len False j lk
      have "readAt_loop H st L rd c s cache data ?i (int ?j) 0 = (cache1, Inl SliceBounds)"
        by (subst readAt_loop.simps) (simp add: Let_def)
      with at False i len show ?thesis by simp
    qed
  qed
qed

end

end
