(* ===== verification/Cafs.thy ===== *)
theory Cafs
  imports GcsStore CafsReadAt
begin

text \<open>
  The content-addressable file system itself, \<open>pkg/cafs/cafs.go\<close>: its construction, \<open>Put\<close>, the
  readers it hands out, \<open>Has\<close>, \<open>Delete\<close> and the listings, over any object store and with the cache of
  resolved keys. The properties of the readers and writers are stated here over the Google Cloud
  Storage backend.
\<close>

section \<open>The file system\<close>

record defaultFs =
  fs_leafSize :: nat
  fs_prefix :: string
  fs_leafTruncation :: bool
  fs_verifyHash :: bool
  fs_verifyBlobHash :: bool
  fs_lruSize :: int
  fs_keysCacheSize :: int

text \<open>
  \<open>New\<close> checks the leaf size and creates the two caches, which the LRU package refuses when their
  size is not positive.
\<close>

definition fs_New :: "(int \<Rightarrow> string option) \<Rightarrow> defaultFs \<Rightarrow> (cafs_err, defaultFs \<times> leafFreelist) res" where
  "fs_New lruNew f =
     (if MaxLeafSize < fs_leafSize f then Inl (LeafTooLarge (fs_leafSize f))
      else if fs_leafSize f < KeySize then Inl (LeafTooSmall (fs_leafSize f))
      else
        let cacheBuffers = BytesToBuffers (fs_lruSize f) (fs_leafSize f);
            leafPool = newLeafFreelist (nat (cacheBuffers + 3)) in
        (case lruNew cacheBuffers of
           Some e \<Rightarrow> Inl (CacheErr e)
         | None \<Rightarrow>
             (case lruNew (fs_keysCacheSize f) of
                Some e \<Rightarrow> Inl (CacheErr e)
              | None \<Rightarrow> Inr (f, leafPool))))"

record PutRes =
  pr_Written :: nat
  pr_Key :: Key
  pr_Keys :: bytes
  pr_Found :: bool

definition fs_writer :: "defaultFs \<Rightarrow> writer_cfg" where
  "fs_writer f = \<lparr>wc_leafSize = fs_leafSize f, wc_prefix = fs_prefix f, wc_verify = fs_verifyBlobHash f\<rparr>"

text \<open>\<open>io.Copy\<close> into the writer: the chunks of the source, one \<open>Write\<close> each.\<close>

fun io_Copy_in ::
  "writer_cfg \<Rightarrow> fsWriter \<Rightarrow> bytes list \<Rightarrow> nat \<Rightarrow> (panic, fsWriter \<times> nat) res option" where
  "io_Copy_in c w [] written = Some (Inr (w, written))"
| "io_Copy_in c w (p # ps) written =
     (case Write c w p of
        None \<Rightarrow> None
      | Some (Inl e) \<Rightarrow> Some (Inl e)
      | Some (Inr (w', n)) \<Rightarrow> io_Copy_in c w' ps (written + n))"

definition makeRootKey :: "Key \<Rightarrow> bytes \<Rightarrow> bytes" where
  "makeRootKey root keys = keys @ root"

definition verifyFlushed :: "'s Store \<Rightarrow> defaultFs \<Rightarrow> 's \<Rightarrow> Key \<Rightarrow> bytes \<Rightarrow> cafs_err option" where
  "verifyFlushed st f s root content =
     (if \<not> fs_verifyHash f then None
      else verifyBlob st s (StringWithPrefix (fs_prefix f) root) content)"

definition writeRootKey ::
  "'s Store \<Rightarrow> defaultFs \<Rightarrow> 's \<Rightarrow> Key \<Rightarrow> bytes \<Rightarrow> 's \<times> cafs_err option" where
  "writeRootKey st f s root content =
     (case MultiPut [(st, False)] [s] (StringWithPrefix (fs_prefix f) root) content OverWrite of
        (ss, Some e) \<Rightarrow> (hd ss, Some (StoreErr e))
      | (ss, None) \<Rightarrow> (hd ss, verifyFlushed st f (hd ss) root content))"

text \<open>
  \<open>Put\<close>. The source is the list of chunks it delivers and the error it ends with, if any. The
  scheduler gives the order in which the goroutines of the writer run. After an error of the
  source the goroutines already started still write their blobs. The last part, from the root key
  on, is a definition of its own.
\<close>

definition put_root ::
  "'s Store \<Rightarrow> ('k, Key, Key list) lru \<Rightarrow> defaultFs \<Rightarrow> 's \<Rightarrow> 'k \<Rightarrow> nat \<Rightarrow> Key \<Rightarrow> bytes \<Rightarrow>
   (panic, 's \<times> 'k \<times> (cafs_err, PutRes) res) res" where
  "put_root st LK f s kc written root keys =
     (let content = makeRootKey root keys;
          (found, overwrite) = existsAndValidBlob st s (StringWithPrefix (fs_prefix f) root) content;
          (s1, err) = (if \<not> found \<or> overwrite then writeRootKey st f s root content else (s, None))
      in case err of
           Some e \<Rightarrow> Inr (s1, kc, Inl e)
         | None \<Rightarrow>
             (case UnverifiedLeafKeys keys of
                Inl p \<Rightarrow> Inl p
              | Inr ks \<Rightarrow>
                  Inr (s1, snd (lru_ContainsOrAdd LK kc root ks),
                    Inr \<lparr>pr_Written = written, pr_Key = root, pr_Keys = keys, pr_Found = found\<rparr>)))"

definition Put ::
  "hasher \<Rightarrow> 's Store \<Rightarrow> ('k, Key, Key list) lru \<Rightarrow> ((nat \<times> bytes) list \<Rightarrow> (nat \<times> bytes) list) \<Rightarrow>
   defaultFs \<Rightarrow> 's \<Rightarrow> 'k \<Rightarrow> io_source \<Rightarrow>
   (panic, 's \<times> 'k \<times> (cafs_err, PutRes) res) res option" where
  "Put H st LK sched f s kc src =
     (let c = fs_writer f in
      case io_Copy_in c (newWriter c) (src_chunks src) 0 of
        None \<Rightarrow> None
      | Some (Inl p) \<Rightarrow> Some (Inl p)
      | Some (Inr (w, written)) \<Rightarrow>
          (case src_err src of
             Some e \<Rightarrow> Some (Inr (fst (flushThread H st c s (sched (w_jobs w))), kc, Inl (SourceErr e)))
           | None \<Rightarrow>
               (case Flush H st c (sched (w_jobs w)) s w of
                  (s1, Inl p) \<Rightarrow> Some (Inl p)
                | (s1, Inr (w1, Inl e)) \<Rightarrow> Some (Inr (s1, kc, Inl e))
                | (s1, Inr (w1, Inr (root, keys))) \<Rightarrow>
                    (case Close w1 of
                       (w2, Some e) \<Rightarrow> Some (Inr (s1, kc, Inl e))
                     | (w2, None) \<Rightarrow> Some (put_root st LK f s1 kc (copy_count src written) root keys)))))"

text \<open>The reader behind \<open>Get\<close> and \<open>GetAt\<close>.\<close>

definition fs_reader_cfg :: "defaultFs \<Rightarrow> Key list \<Rightarrow> reader_cfg" where
  "fs_reader_cfg f keys = \<lparr>rc_leafSize = fs_leafSize f, rc_prefix = fs_prefix f, rc_keys = keys,
     rc_verify = fs_verifyHash f, rc_truncation = (if fs_leafTruncation f then 32768 else 0),
     rc_bufsize = bufferSize (fs_leafSize f)\<rparr>"

definition fs_reader ::
  "hasher \<Rightarrow> 's Store \<Rightarrow> ('k, Key, Key list) lru \<Rightarrow> defaultFs \<Rightarrow> 's \<Rightarrow> 'k \<Rightarrow> Key \<Rightarrow>
   'k \<times> (cafs_err, reader_cfg \<times> chunkReader) res" where
  "fs_reader H st LK f s kc hash =
     (case lru_Get LK kc hash of
        (Some keys, kc1) \<Rightarrow> (kc1, Inr (fs_reader_cfg f keys, new_chunkReader))
      | (None, kc1) \<Rightarrow>
          (case leavesForHash H st s hash (fs_leafSize f) (fs_prefix f) of
             Inl e \<Rightarrow> (kc1, Inl e)
           | Inr keys \<Rightarrow>
               (snd (lru_ContainsOrAdd LK kc1 hash keys), Inr (fs_reader_cfg f keys, new_chunkReader))))"

text \<open>
  \<open>Delete\<close> and \<open>Has\<close> look the leaves up under the prefix of the file system, but address the
  objects by the bare text of their keys.
\<close>

fun delete_keys :: "'s Store \<Rightarrow> 's \<Rightarrow> Key list \<Rightarrow> 's \<times> store_err option" where
  "delete_keys st s [] = (s, None)"
| "delete_keys st s (key # keys) =
     (case st_Delete st s (Key_String key) of
        (s', Some e) \<Rightarrow> (s', Some e)
      | (s', None) \<Rightarrow> delete_keys st s' keys)"

definition fs_Delete :: "hasher \<Rightarrow> 's Store \<Rightarrow> defaultFs \<Rightarrow> 's \<Rightarrow> Key \<Rightarrow> 's \<times> cafs_err option" where
  "fs_Delete H st f s hash =
     (case leavesForHash H st s hash (fs_leafSize f) (fs_prefix f) of
        Inl e \<Rightarrow> (s, Some e)
      | Inr keys \<Rightarrow>
          (case delete_keys st s keys of
             (s1, Some e) \<Rightarrow> (s1, Some (StoreErr e))
           | (s1, None) \<Rightarrow>
               (case st_Delete st s1 (Key_String hash) of (s2, e) \<Rightarrow> (s2, map_option StoreErr e))))"

definition fs_Has ::
  "hasher \<Rightarrow> 's Store \<Rightarrow> defaultFs \<Rightarrow> 's \<Rightarrow> Key \<Rightarrow> bool \<Rightarrow> bool \<Rightarrow> (store_err, bool \<times> Key list) res" where
  "fs_Has H st f s key onlyRoots gatherIncomplete =
     (case st_Has st s (Key_String key) of
        Inl e \<Rightarrow> Inl e
      | Inr has \<Rightarrow>
          if \<not> has then Inr (False, [])
          else if \<not> gatherIncomplete \<and> \<not> onlyRoots then Inr (has, [])
          else
            (case leavesForHash H st s key (fs_leafSize f) (fs_prefix f) of
               Inl e \<Rightarrow> Inr (False, [])
             | Inr ks \<Rightarrow>
                 if ks = [] then Inr (False, [])
                 else Inr (True,
                   if gatherIncomplete then filter (\<lambda>k. st_Has st s (Key_String k) \<noteq> Inr True) ks else [])))"

text \<open>The listings; \<open>None\<close> when the listing of the store does not end.\<close>

fun parse_keys :: "(Key \<Rightarrow> bool) \<Rightarrow> string list \<Rightarrow> (cafs_err, Key list) res" where
  "parse_keys matches [] = Inr []"
| "parse_keys matches (k # v) =
     rbind (KeyFromString k) (\<lambda>kk. rbind (parse_keys matches v) (\<lambda>result.
       Inr (if matches kk then kk # result else result)))"

definition fs_keys :: "'s Store \<Rightarrow> 's \<Rightarrow> (Key \<Rightarrow> bool) \<Rightarrow> (cafs_err, Key list) res option" where
  "fs_keys st s matches =
     (case st_Keys st s of
        None \<Rightarrow> None
      | Some (Inl e) \<Rightarrow> Some (Inl (StoreErr e))
      | Some (Inr v) \<Rightarrow> Some (parse_keys matches v))"

definition fs_Keys :: "'s Store \<Rightarrow> 's \<Rightarrow> (cafs_err, Key list) res option" where
  "fs_Keys st s = fs_keys st s (\<lambda>_. True)"

definition fs_RootKeys :: "hasher \<Rightarrow> 's Store \<Rightarrow> defaultFs \<Rightarrow> 's \<Rightarrow> (cafs_err, Key list) res option" where
  "fs_RootKeys H st f s = fs_keys st s (\<lambda>key. IsRootKey H st s key (fs_leafSize f))"

definition fs_Clear :: "'s Store \<Rightarrow> 's \<Rightarrow> 's \<times> store_err option" where
  "fs_Clear st s = st_Clear st s"

section \<open>Put stores the file\<close>

lemma fs_writer_simps [simp]:
  "wc_leafSize (fs_writer f) = fs_leafSize f" "wc_prefix (fs_writer f) = fs_prefix f"
  "wc_verify (fs_writer f) = fs_verifyBlobHash f"
  by (simp_all add: fs_writer_def)

lemma fs_reader_cfg_simps [simp]:
  "rc_leafSize (fs_reader_cfg f ks) = fs_leafSize f" "rc_prefix (fs_reader_cfg f ks) = fs_prefix f"
  "rc_keys (fs_reader_cfg f ks) = ks" "rc_verify (fs_reader_cfg f ks) = fs_verifyHash f"
  "rc_bufsize (fs_reader_cfg f ks) = bufferSize (fs_leafSize f)"
  "rc_truncation (fs_reader_cfg f ks) = (if fs_leafTruncation f then 32768 else 0)"
  by (simp_all add: fs_reader_cfg_def)

lemma io_Copy_in_ok:
  assumes "writer_inv c w" and "\<forall>p \<in> set ps. length p \<le> wc_leafSize c"
  shows "\<exists>w'. io_Copy_in c w ps n = Some (Inr (w', n + length (concat ps))) \<and> writer_inv c w'
    \<and> written_bytes w' = written_bytes w @ concat ps"
  using assms
proof (induction ps arbitrary: w n)
  case Nil
  then show ?case by simp
next
  case (Cons p ps)
  from write_within_leaf [OF Cons.prems(1), of p] Cons.prems(2) obtain w1 where
    w1: "Write c w p = Some (Inr (w1, length p))" "writer_inv c w1"
      "written_bytes w1 = written_bytes w @ p" by auto
  from Cons.IH [OF w1(2), of "n + length p"] Cons.prems(2) w1 show ?case by (auto simp: add.assoc)
qed

text \<open>All blobs of a file: its leaves and its root.\<close>

definition put_blobs :: "hasher \<Rightarrow> defaultFs \<Rightarrow> bytes \<Rightarrow> Key \<Rightarrow> (string \<times> bytes) set" where
  "put_blobs H f d r = file_blobs H (fs_prefix f) (fs_leafSize f) d \<union>
     {(StringWithPrefix (fs_prefix f) r, concat (file_keys H (fs_leafSize f) d) @ r)}"

lemma UnverifiedLeafKeys_keys:
  "blake_ok H \<Longrightarrow> UnverifiedLeafKeys (concat (file_keys H l d)) = Inr (file_keys H l d)"
  by (simp add: UnverifiedLeafKeys_def leaves_concat file_keys_are_keys)

context object_store
begin

lemma put_root_ok:
  assumes "UnverifiedLeafKeys keys = Inr ks"
    and room: "room_for (content s) {(StringWithPrefix (fs_prefix f) root, keys @ root)}"
  shows "\<exists>s'. put_root st LK f s kc written root keys =
      Inr (s', snd (lru_ContainsOrAdd LK kc root ks),
        Inr \<lparr>pr_Written = written, pr_Key = root, pr_Keys = keys,
             pr_Found = (content s (StringWithPrefix (fs_prefix f) root) \<noteq> None)\<rparr>)
    \<and> holds_also (content s) (content s') {(StringWithPrefix (fs_prefix f) root, keys @ root)}"
proof -
  let ?p = "StringWithPrefix (fs_prefix f) root" and ?c = "keys @ root"
  from room have r: "content s ?p = None \<or> content s ?p = Some [] \<or> content s ?p = Some ?c"
    by (simp add: room_for_def)
  obtain s' where put: "put_crc st s ?p ?c OverWrite = (s', None)" "content s' = (content s)(?p \<mapsto> ?c)"
    using overwrite by blast
  then have w: "writeRootKey st f s root ?c = (s', None)"
    by (simp add: writeRootKey_def verifyFlushed_def verify_written)
  show ?thesis
  proof (cases "content s ?p = Some ?c \<and> ?c \<noteq> []")
    case True
    then have "holds_also (content s) (content s) {(?p, ?c)}" by (simp add: holds_also_def)
    with True existsAndValid [OF r] assms(1) show ?thesis
      by (auto simp: put_root_def makeRootKey_def Let_def)
  next
    case False
    with r have "content s ?p = None \<or> content s ?p = Some []" by auto
    with put w existsAndValid [OF r] assms(1) show ?thesis
      by (auto simp: put_root_def makeRootKey_def Let_def holds_also_one)
  qed
qed

lemma Put_ok:
  assumes "blake_ok H" and "0 < fs_leafSize f" and "\<forall>p \<in> set chunks. length p \<le> fs_leafSize f"
    and sched: "\<And>jobs. mset (sched jobs) = mset jobs"
    and root: "rootHash H (file_keys H (fs_leafSize f) (concat chunks)) (fs_leafSize f) = Inr r"
    and room: "room_for (content s) (put_blobs H f (concat chunks) r)"
  shows "\<exists>s' found. Put H st LK sched f s kc (Source chunks None piped) =
      Some (Inr (s', snd (lru_ContainsOrAdd LK kc r (file_keys H (fs_leafSize f) (concat chunks))),
        Inr \<lparr>pr_Written = (if piped then 0 else length (concat chunks)), pr_Key = r,
             pr_Keys = concat (file_keys H (fs_leafSize f) (concat chunks)), pr_Found = found\<rparr>))
    \<and> holds_also (content s) (content s') (put_blobs H f (concat chunks) r)
    \<and> (content s (StringWithPrefix (fs_prefix f) r) \<noteq> None \<longrightarrow> found)"
proof -
  let ?c = "fs_writer f" and ?d = "concat chunks"
  let ?B = "file_blobs H (fs_prefix f) (fs_leafSize f) ?d"
  let ?R = "{(StringWithPrefix (fs_prefix f) r, concat (file_keys H (fs_leafSize f) ?d) @ r)}"
  have room2: "room_for (content s) (?B \<union> ?R)" using room by (simp add: put_blobs_def)
  obtain w where w: "io_Copy_in ?c (newWriter ?c) chunks 0 = Some (Inr (w, length ?d))"
      "writer_inv ?c w" "written_bytes w = ?d"
    using io_Copy_in_ok [OF newWriter_inv, of ?c chunks 0] assms(2,3) by auto
  have "room_for (content s) ?B" using room2 by (rule room_for_subset) blast
  with w obtain s1 w1 where
    fl: "Flush H st ?c (sched (w_jobs w)) s w = (s1, Inr (w1, Inr (r, concat (file_keys H (fs_leafSize f) ?d))))"
      "w_flushed w1" "holds_also (content s) (content s1) ?B"
    using Flush_ok [OF assms(1) w(2) sched, of s r] root by auto
  from room2 fl(3) have "room_for (content s1) ?R" by (rule room_after)
  with put_root_ok [OF UnverifiedLeafKeys_keys [OF assms(1)], of s1 f r "fs_leafSize f" ?d LK kc "if piped then 0 else length ?d"]
  obtain s2 where pr: "put_root st LK f s1 kc (if piped then 0 else length ?d) r (concat (file_keys H (fs_leafSize f) ?d)) =
      Inr (s2, snd (lru_ContainsOrAdd LK kc r (file_keys H (fs_leafSize f) ?d)),
        Inr \<lparr>pr_Written = (if piped then 0 else length ?d), pr_Key = r, pr_Keys = concat (file_keys H (fs_leafSize f) ?d),
             pr_Found = (content s1 (StringWithPrefix (fs_prefix f) r) \<noteq> None)\<rparr>)"
      "holds_also (content s1) (content s2) ?R" by auto
  have "content s p \<noteq> None \<Longrightarrow> content s1 p \<noteq> None" for p
    using fl(3) unfolding holds_also_def by (metis option.distinct(1))
  moreover have "Put H st LK sched f s kc (Source chunks None piped) =
      Some (put_root st LK f s1 kc (if piped then 0 else length ?d) r (concat (file_keys H (fs_leafSize f) ?d)))"
    using w fl by (simp add: Put_def Close_def Let_def)
  moreover have "holds_also (content s) (content s2) (put_blobs H f ?d r)"
    unfolding put_blobs_def by (rule holds_also_trans [OF fl(3) pr(2) room2])
  ultimately show ?thesis unfolding pr(1) by blast
qed

end

section \<open>Reading a stored file\<close>

text \<open>A file is stored when its leaves and its root are, under the root key \<open>r\<close>.\<close>

definition stored :: "hasher \<Rightarrow> defaultFs \<Rightarrow> (string \<Rightarrow> bytes option) \<Rightarrow> bytes \<Rightarrow> Key \<Rightarrow> bool" where
  "stored H f m d r \<longleftrightarrow> blake_ok H \<and> 0 < fs_leafSize f
     \<and> rootHash H (file_keys H (fs_leafSize f) d) (fs_leafSize f) = Inr r
     \<and> (\<forall>(p, b) \<in> put_blobs H f d r. m p = Some b)"

lemma stored_serves:
  "stored H f m d r \<Longrightarrow> serves H m (fs_reader_cfg f (file_keys H (fs_leafSize f) d)) d"
  by (auto simp: stored_def serves_def put_blobs_def)

lemma holds_stored:
  assumes "blake_ok H" and "0 < fs_leafSize f"
    and "rootHash H (file_keys H (fs_leafSize f) d) (fs_leafSize f) = Inr r"
    and "holds_also m m' (put_blobs H f d r)"
  shows "stored H f m' d r"
  using assms by (auto simp: stored_def holds_also_def)

lemma empty_file_panics:
  assumes "rc_keys c = []"
  shows "WriteTo_stream H st rd c s new_chunkReader = Some (Inl IndexOutOfRange)"
  unfolding WriteTo_stream_def
  by (subst io_Copy_out.simps, simp add: Read_def new_chunkReader_def,
      subst read_loop.simps, simp add: assms)

context object_store
begin

lemma leavesForHash_stored:
  assumes "stored H f (content s) d r"
  shows "leavesForHash H st s r (fs_leafSize f) (fs_prefix f) = Inr (file_keys H (fs_leafSize f) d)"
proof -
  have "content s (StringWithPrefix (fs_prefix f) r) = Some (concat (file_keys H (fs_leafSize f) d) @ r)"
    using assms by (auto simp: stored_def put_blobs_def)
  moreover have "list_all is_key (file_keys H (fs_leafSize f) d)" "is_key r"
    using assms file_keys_are_keys rootHash_length by (auto simp: stored_def)
  moreover from this have "verifiedKeys H (concat (file_keys H (fs_leafSize f) d) @ r) (fs_leafSize f) =
      Inr (file_keys H (fs_leafSize f) d)"
    using assms by (simp add: verifiedKeys_def verificationKey_def leaves_concat stored_def)
  ultimately show ?thesis by (simp add: leavesForHash_def bytesFromRoot_def get)
qed

lemma WriteTo_stream_ok:
  assumes "io_reader rd" and "serves H (content s) c d"
  shows "WriteTo_stream H st rd c s new_chunkReader =
    (if d = [] then Some (Inl IndexOutOfRange) else Some (Inr (d, None)))"
proof (cases "d = []")
  case True
  with assms(2) have "rc_keys c = []" by (simp add: serves_def file_keys_def)
  with True empty_file_panics show ?thesis by simp
next
  case False
  from assms(2) have l: "0 < rc_leafSize c" by (simp add: serves_def)
  from io_Copy_out_ok [OF assms, of copyBuffer] new_reader_inv [OF l False] False l show ?thesis
    by (simp add: WriteTo_stream_def copyBuffer_def)
qed

end

text \<open>A store with the cache of resolved keys.\<close>

locale keyed_store = object_store st content + lru_cache LK kview
  for st :: "'s Store" and content and LK :: "('k, Key, Key list) lru" and kview
begin

lemma fs_reader_ok:
  assumes "stored H f (content s) d r"
    and "\<And>ks. kview kc r = Some ks \<Longrightarrow> ks = file_keys H (fs_leafSize f) d"
  shows "\<exists>kc'. fs_reader H st LK f s kc r =
    (kc', Inr (fs_reader_cfg f (file_keys H (fs_leafSize f) d), new_chunkReader))"
  using get_value [of kc r] assms(2) leavesForHash_stored [OF assms(1)]
  by (cases "lru_Get LK kc r"; cases "fst (lru_Get LK kc r)") (auto simp: fs_reader_def)

lemma added_entry:
  assumes "\<And>ks'. kview kc r = Some ks' \<Longrightarrow> ks' = ks"
    and "kview (snd (lru_ContainsOrAdd LK kc r ks)) r = Some ks''"
  shows "ks'' = ks"
proof (cases "kview kc r")
  case None
  from add_absent [OF None, of ks] assms(2) show ?thesis
    by (force simp: map_le_def dom_def)
next
  case (Some v)
  with add_present [of kc r ks] assms show ?thesis by simp
qed

text \<open>Putting a file and getting a reader for the key returned.\<close>

lemma Put_then_reader:
  assumes "blake_ok H" and "0 < fs_leafSize f" and "\<forall>p \<in> set chunks. length p \<le> fs_leafSize f"
    and "\<And>jobs. mset (sched jobs) = mset jobs"
    and "rootHash H (file_keys H (fs_leafSize f) (concat chunks)) (fs_leafSize f) = Inr r"
    and "room_for (content s) (put_blobs H f (concat chunks) r)"
    and "\<And>ks. kview kc r = Some ks \<Longrightarrow> ks = file_keys H (fs_leafSize f) (concat chunks)"
  shows "\<exists>s' kc' res kc''. Put H st LK sched f s kc (Source chunks None piped) = Some (Inr (s', kc', Inr res))
    \<and> pr_Key res = r \<and> pr_Written res = (if piped then 0 else length (concat chunks))
    \<and> stored H f (content s') (concat chunks) r
    \<and> holds_also (content s) (content s') (put_blobs H f (concat chunks) r)
    \<and> fs_reader H st LK f s' kc' r =
        (kc'', Inr (fs_reader_cfg f (file_keys H (fs_leafSize f) (concat chunks)), new_chunkReader))"
proof -
  let ?ks = "file_keys H (fs_leafSize f) (concat chunks)"
  let ?kc = "snd (lru_ContainsOrAdd LK kc r ?ks)"
  from Put_ok [OF assms(1-6), where kc = kc and LK = LK] obtain s' found where
    put: "Put H st LK sched f s kc (Source chunks None piped) = Some (Inr (s', ?kc,
      Inr \<lparr>pr_Written = (if piped then 0 else length (concat chunks)), pr_Key = r, pr_Keys = concat ?ks, pr_Found = found\<rparr>))"
      "holds_also (content s) (content s') (put_blobs H f (concat chunks) r)" by blast
  from put(2) assms(1,2,5) have st: "stored H f (content s') (concat chunks) r"
    by (intro holds_stored)
  have "ks = ?ks" if "kview ?kc r = Some ks" for ks
    using added_entry [OF assms(7)] that by blast
  from fs_reader_ok [OF st this] obtain kc'' where
    "fs_reader H st LK f s' ?kc r = (kc'', Inr (fs_reader_cfg f ?ks, new_chunkReader))" by blast
  with put st show ?thesis by fastforce
qed

end

interpretation gcs_keyed: keyed_store "gcs_store steady_client g" "gcs_content map_of g" "mru_lru cap" map_of
  for g cap
  by unfold_locales

interpretation gcs_cached: cached_store "gcs_store steady_client g" "gcs_content map_of g" "mru_lru cap" map_of
  for g cap
  by unfold_locales

section \<open>Properties over the Google Cloud Storage backend\<close>

text \<open>A hash for the concrete instances: the node depth and the first bytes of the data.\<close>

definition tag_hash :: hasher where
  "tag_hash cfg data = Inr (of_nat (cfg_NodeDepth cfg) # take 63 (data @ replicate 63 0))"

lemma tag_hash_ok: "blake_ok tag_hash"
  by (auto simp: blake_ok_def tag_hash_def KeySize_def)

definition tag_fs :: defaultFs where
  "tag_fs = \<lparr>fs_leafSize = 64, fs_prefix = '''', fs_leafTruncation = False, fs_verifyHash = True,
     fs_verifyBlobHash = True, fs_lruSize = 64, fs_keysCacheSize = 1\<rparr>"

abbreviation tag_leaf :: Key where "tag_leaf \<equiv> [0, 7] @ replicate 62 0"
abbreviation tag_root :: Key where "tag_root \<equiv> [1, 0, 7] @ replicate 61 0"

lemma tag_blocks [simp]: "blocks 64 [7] = [[7]]"
  by (simp add: blocks_step)

lemma tag_keys [simp]: "file_keys tag_hash 64 [7] = [tag_leaf]"
  by (simp add: file_keys_def leaf_key_def keyFromBytes_def tag_hash_def digest_key_def NewKey_def
      KeySize_def Let_def)

lemma tag_rootHash: "rootHash tag_hash [tag_leaf] 64 = Inr tag_root"
  by (simp add: rootHash_def tag_hash_def digest_key_def NewKey_def KeySize_def Let_def numeral_eq_Suc)

lemma tag_blobs: "put_blobs tag_hash tag_fs [7] tag_root =
    {(Key_String tag_leaf, [7]), (Key_String tag_root, tag_leaf @ tag_root)}"
proof -
  have "leaf_key tag_hash 64 0 [7] = tag_leaf"
    by (simp add: leaf_key_def keyFromBytes_def tag_hash_def digest_key_def NewKey_def KeySize_def Let_def)
  then show ?thesis by (auto simp: put_blobs_def file_blobs_def tag_fs_def StringWithPrefix_def)
qed

lemma tag_distinct: "Key_String tag_leaf \<noteq> Key_String tag_root"
  by simp

lemma tag_room: "room_for (gcs_content map_of g []) (put_blobs tag_hash tag_fs [7] tag_root)"
  unfolding tag_blobs using tag_distinct by (auto simp: room_for_def gcs_content_def)

lemma tag_stored:
  assumes "gcs_content map_of g s (Key_String tag_leaf) = Some [7]"
    and "gcs_content map_of g s (Key_String tag_root) = Some (tag_leaf @ tag_root)"
  shows "stored tag_hash tag_fs (gcs_content map_of g s) [7] tag_root"
  unfolding stored_def tag_blobs using assms tag_rootHash by (simp add: tag_hash_ok tag_fs_def)

abbreviation plain_gcs :: gcs where "plain_gcs \<equiv> \<lparr>gcs_keyPrefix = '''', gcs_tries = 0\<rparr>"

abbreviation tag_bucket :: "(string \<times> bytes) list" where
  "tag_bucket \<equiv> [(Key_String tag_leaf, [7]), (Key_String tag_root, tag_leaf @ tag_root)]"

lemma tag_bucket_stored: "stored tag_hash tag_fs (gcs_content map_of plain_gcs tag_bucket) [7] tag_root"
  using tag_distinct by (intro tag_stored) (simp_all add: gcs_content_def getFullObjectName_def)

text \<open>
  C5: whatever a client puts into the file system can be read back. For any content, cut into
  chunks of at most a leaf, any schedule of the writer's goroutines and any state of the key cache
  that is right about this file, \<open>Put\<close> returns the root key of the content and its length (but zero
  for a source that is piped, as a reader of \<open>gcs.Get\<close> is), and the reader that \<open>Get\<close> gives for that key copies out exactly the content, however the store delivers
  its streams; downloading it leaf by leaf into a file, in any order, gives the same. The only
  exception is the empty file, on which the sequential reader panics. The store holds no other object under the keys of
  the content, and leaves are not truncated as in the first version of the metadata.
\<close>

theorem Put_Get_roundtrip:
  assumes "bucket_api cl objects" and "lru_cache LK kview" and "blake_ok H"
    and "0 < fs_leafSize f" and "\<forall>p \<in> set chunks. length p \<le> fs_leafSize f"
    and "\<And>jobs. mset (sched jobs) = mset jobs"
    and "rootHash H (file_keys H (fs_leafSize f) (concat chunks)) (fs_leafSize f) = Inr r"
    and "room_for (gcs_content objects g s) (put_blobs H f (concat chunks) r)"
    and "\<And>ks. kview kc r = Some ks \<Longrightarrow> ks = file_keys H (fs_leafSize f) (concat chunks)"
    and "io_reader rd" and "\<not> fs_leafTruncation f"
  shows "\<exists>s' kc' res kc'' c rdr.
      Put H (gcs_store cl g) LK sched f s kc (Source chunks None piped) = Some (Inr (s', kc', Inr res))
    \<and> pr_Key res = r \<and> pr_Written res = (if piped then 0 else length (concat chunks))
    \<and> fs_reader H (gcs_store cl g) LK f s' kc' r = (kc'', Inr (c, rdr))
    \<and> WriteTo_stream H (gcs_store cl g) rd c s' rdr =
        (if concat chunks = [] then Some (Inl IndexOutOfRange) else Some (Inr (concat chunks, None)))
    \<and> (\<forall>order. mset order = mset [0..<length (rc_keys c)] \<longrightarrow>
        WriteTo_file (gcs_store cl g) c s' order [] = (concat chunks, Inr 0))"
proof -
  note st = gcs_is_store [OF assms(1), of g]
  note ks = keyed_store.intro [OF st assms(2)]
  let ?c = "fs_reader_cfg f (file_keys H (fs_leafSize f) (concat chunks))"
  from keyed_store.Put_then_reader [OF ks assms(3-9)] obtain s' kc' res kc'' where
    put: "Put H (gcs_store cl g) LK sched f s kc (Source chunks None piped) = Some (Inr (s', kc', Inr res))"
      "pr_Key res = r" "pr_Written res = (if piped then 0 else length (concat chunks))"
      "stored H f (gcs_content objects g s') (concat chunks) r"
      "fs_reader H (gcs_store cl g) LK f s' kc' r = (kc'', Inr (?c, new_chunkReader))" by blast
  note sv = stored_serves [OF put(4)]
  have "WriteTo_file (gcs_store cl g) ?c s' order [] = (concat chunks, Inr 0)"
    if "mset order = mset [0..<length (rc_keys ?c)]" for order
    using object_store.WriteTo_file_ok [OF st sv _ that] assms(11) by simp
  with put object_store.WriteTo_stream_ok [OF st assms(10) sv] show ?thesis by blast
qed

theorem Put_Get_roundtrip_witness:
  "\<exists>s' kc' res kc'' c rdr.
      Put tag_hash (gcs_store steady_client plain_gcs) (mru_lru 1) rev tag_fs [] [] (Source [[7]] None False) =
        Some (Inr (s', kc', Inr res))
    \<and> pr_Key res = tag_root
    \<and> fs_reader tag_hash (gcs_store steady_client plain_gcs) (mru_lru 1) tag_fs s' kc' tag_root =
        (kc'', Inr (c, rdr))
    \<and> WriteTo_stream tag_hash (gcs_store steady_client plain_gcs) (chunked 3) c s' rdr = Some (Inr ([7], None))"
proof -
  have "fs_leafSize tag_fs = 64" "\<not> fs_leafTruncation tag_fs" by (simp_all add: tag_fs_def)
  then show ?thesis
    using Put_Get_roundtrip [OF steady.bucket_api_axioms mru.lru_cache_axioms [of 1] tag_hash_ok,
        of tag_fs "[[7]]" rev tag_root plain_gcs "[]" "[]" "chunked 3"]
      tag_rootHash tag_room [of plain_gcs] chunked_reader [of 3] by force
qed

text \<open>
  C29: the result of \<open>Flush\<close> does not depend on the order in which the goroutines of the writer run.
  A writer that has taken the bytes \<open>d\<close> ends with the root key and the leaf keys of \<open>d\<close>, and the
  store has gained exactly the leaf blobs of \<open>d\<close>: blobs that were there already are kept, empty
  ones replaced, and nothing else is touched.
\<close>

theorem Flush_any_order:
  assumes "bucket_api cl objects" and "blake_ok H" and "writer_inv c w"
    and "mset order = mset (w_jobs w)"
    and "room_for (gcs_content objects g s) (file_blobs H (wc_prefix c) (wc_leafSize c) (written_bytes w))"
    and "rootHash H (file_keys H (wc_leafSize c) (written_bytes w)) (wc_leafSize c) = Inr r"
  shows "\<exists>s' w'. Flush H (gcs_store cl g) c order s w =
      (s', Inr (w', Inr (r, concat (file_keys H (wc_leafSize c) (written_bytes w)))))
    \<and> holds_also (gcs_content objects g s) (gcs_content objects g s')
        (file_blobs H (wc_prefix c) (wc_leafSize c) (written_bytes w))"
  using object_store.Flush_ok [OF gcs_is_store [OF assms(1)] assms(2-6)] by blast

theorem Flush_any_order_witness:
  "let c = \<lparr>wc_leafSize = 64, wc_prefix = '''', wc_verify = True\<rparr>;
       w = (newWriter c)\<lparr>w_buf := 7 # replicate 63 0, w_offset := 1\<rparr>
   in \<exists>s' w'. Flush tag_hash (gcs_store steady_client plain_gcs) c [] [] w = (s', Inr (w', Inr (tag_root, tag_leaf)))"
proof -
  let ?c = "\<lparr>wc_leafSize = 64, wc_prefix = '''', wc_verify = True\<rparr>"
  let ?w = "(newWriter ?c)\<lparr>w_buf := 7 # replicate 63 0, w_offset := 1\<rparr>"
  have "written_bytes ?w = [7]" "w_jobs ?w = []" "writer_inv ?c ?w"
    by (simp_all add: written_bytes_def newWriter_def writer_inv_def)
  moreover have "room_for (gcs_content map_of plain_gcs []) (file_blobs tag_hash '''' 64 [7])"
    using tag_room [of plain_gcs] by (rule room_for_subset) (auto simp: put_blobs_def tag_fs_def)
  ultimately show ?thesis
    using Flush_any_order [OF steady.bucket_api_axioms tag_hash_ok, of ?c ?w "[]" plain_gcs "[]" tag_root]
      tag_rootHash by (auto simp: Let_def)
qed

text \<open>
  C27: \<open>Read\<close> refines reading a byte stream. On a reader in the middle of a stored file, a call with
  a slice of any length returns, without a panic, whether leaf hashes are verified or not: it fills the
  whole slice, or it reaches the end of the file and says \<open>EOF\<close>; the bytes it delivers are the next
  ones of the file, and the reader is left ready for the rest.
\<close>

theorem Read_delivers:
  assumes "bucket_api cl objects" and "io_reader rd" and "serves H (gcs_content objects g s) c d"
    and "reader_inv (blocks (rc_leafSize c) d) r"
  shows "\<exists>r' data' n err. Read H (gcs_store cl g) rd c s r data = Some (Inr (r', data', n, err))
    \<and> length data' = length data \<and> n \<le> length data \<and> reader_inv (blocks (rc_leafSize c) d) r'
    \<and> take n data' @ rest (blocks (rc_leafSize c) d) r' = rest (blocks (rc_leafSize c) d) r
    \<and> (err = None \<and> n = length data
       \<or> err = Some (IoErr EOF) \<and> rest (blocks (rc_leafSize c) d) r' = [])"
  by (rule object_store.Read_ok [OF gcs_is_store [OF assms(1)] assms(2-4)])

theorem Read_delivers_witness:
  "\<exists>r' data' n err. Read tag_hash (gcs_store steady_client plain_gcs) (chunked 1)
      (fs_reader_cfg tag_fs [tag_leaf]) tag_bucket new_chunkReader [0, 0] = Some (Inr (r', data', n, err))
    \<and> take n data' @ rest [[7]] r' = [7]"
proof -
  have c: "fs_leafSize tag_fs = 64" by (simp add: tag_fs_def)
  have "serves tag_hash (gcs_content map_of plain_gcs tag_bucket) (fs_reader_cfg tag_fs [tag_leaf]) [7]"
    using stored_serves [OF tag_bucket_stored] c by simp
  moreover have "reader_inv (blocks 64 [7]) new_chunkReader" by (rule new_reader_inv) simp_all
  moreover have "rest [[7]] new_chunkReader = [7]" by (simp add: rest_def new_chunkReader_def)
  ultimately show ?thesis
    using Read_delivers [OF steady.bucket_api_axioms chunked_reader [of 1], of tag_hash plain_gcs tag_bucket
        "fs_reader_cfg tag_fs [tag_leaf]" "[7]" new_chunkReader "[0, 0]"] c by auto
qed

text \<open>
  C28: \<open>ReadAt\<close> answers from the cache and the store alike. With a cache whose entries are blobs of
  the store, a read at any offset up to the end of the file, or past its last leaf, delivers the
  bytes of the file from that offset, as many as there are and as fit, and leaves the cache in that
  condition whatever it evicts. An offset past the end of the file but inside its last leaf makes it
  panic on a slice expression.
\<close>

theorem ReadAt_exact:
  assumes "bucket_api cl objects" and "lru_cache L view" and "io_reader rd"
    and "serves H (gcs_content objects g s) c d" and "rc_leafSize c \<le> rc_bufsize c"
    and "\<And>p b. view cache p = Some b \<Longrightarrow> gcs_content objects g s p = Some b"
  shows "if off \<le> length d \<or> length (rc_keys c) \<le> off div rc_leafSize c
    then \<exists>cache' data' n.
        ReadAt H (gcs_store cl g) L rd c s cache data (int off) = (cache', Inr (data', n, None))
      \<and> n \<le> length data \<and> take n data' = take (length data) (drop off d)
      \<and> (\<forall>p b. view cache' p = Some b \<longrightarrow> gcs_content objects g s p = Some b)
    else \<exists>cache'. ReadAt H (gcs_store cl g) L rd c s cache data (int off) = (cache', Inl SliceBounds)"
proof -
  note cs = cached_store.intro [OF gcs_is_store [OF assms(1), of g] assms(2)]
  have ok: "lru_cache.all_entries view (\<lambda>p b. gcs_content objects g s p = Some b) cache"
    using assms(6) by (simp add: lru_cache.all_entries_def [OF assms(2)])
  show ?thesis
    using cached_store.ReadAt_ok [OF cs assms(3-5) ok, of off data]
    unfolding lru_cache.all_entries_def [OF assms(2)] by (auto split: if_splits)
qed

theorem ReadAt_exact_witness:
  "\<exists>cache'. ReadAt tag_hash (gcs_store steady_client plain_gcs) (mru_lru 2) (chunked 1)
      (fs_reader_cfg tag_fs [tag_leaf]) tag_bucket [] [0, 0] (int 5) = (cache', Inl SliceBounds)"
proof -
  have c: "fs_leafSize tag_fs = 64" by (simp add: tag_fs_def)
  have "serves tag_hash (gcs_content map_of plain_gcs tag_bucket) (fs_reader_cfg tag_fs [tag_leaf]) [7]"
    using stored_serves [OF tag_bucket_stored] c by simp
  moreover have "(64::nat) \<le> bufferSize 64" by (simp add: bufferSize_def MiB_def)
  ultimately show ?thesis
    using ReadAt_exact [OF steady.bucket_api_axioms mru.lru_cache_axioms [of 2] chunked_reader [of 1],
        of tag_hash plain_gcs tag_bucket "fs_reader_cfg tag_fs [tag_leaf]" "[7]" "[]" 5 "[0, 0]"] c
    by simp
qed

text \<open>What is stored already leaves room for itself, and adding it again changes nothing.\<close>

lemma storedD: "stored H f m d r \<Longrightarrow> (p, b) \<in> put_blobs H f d r \<Longrightarrow> m p = Some b"
  unfolding stored_def by blast

lemma stored_room: "stored H f m d r \<Longrightarrow> room_for m (put_blobs H f d r)"
  unfolding room_for_def by (metis storedD option.inject)

lemma stored_again: "stored H f m d r \<Longrightarrow> holds_also m m' (put_blobs H f d r) \<Longrightarrow> m' = m"
  unfolding holds_also_def by (rule ext) (metis storedD)

text \<open>
  Deduplication. Putting content that is stored already, however it is cut into chunks and
  scheduled, returns the same key, reports it as found, and leaves every object of the bucket as it
  was.
\<close>

theorem Put_deduplicates:
  assumes "bucket_api cl objects" and "stored H f (gcs_content objects g s) d r"
    and "concat chunks = d" and "\<forall>p \<in> set chunks. length p \<le> fs_leafSize f"
    and "\<And>jobs. mset (sched jobs) = mset jobs"
  shows "\<exists>s' kc' res. Put H (gcs_store cl g) LK sched f s kc (Source chunks None piped) = Some (Inr (s', kc', Inr res))
    \<and> pr_Key res = r \<and> pr_Found res \<and> gcs_content objects g s' = gcs_content objects g s"
proof -
  note st = gcs_is_store [OF assms(1), of g]
  have pre: "blake_ok H" "0 < fs_leafSize f"
      "rootHash H (file_keys H (fs_leafSize f) (concat chunks)) (fs_leafSize f) = Inr r"
    using assms(2,3) by (auto simp: stored_def)
  have there: "gcs_content objects g s (StringWithPrefix (fs_prefix f) r) \<noteq> None"
    using assms(2) by (auto simp: stored_def put_blobs_def)
  from object_store.Put_ok [OF st pre(1,2) assms(4,5) pre(3), where s = s and LK = LK and kc = kc]
    stored_room [OF assms(2)] assms(3) obtain s' found where
    "Put H (gcs_store cl g) LK sched f s kc (Source chunks None piped) =
      Some (Inr (s', snd (lru_ContainsOrAdd LK kc r (file_keys H (fs_leafSize f) (concat chunks))),
        Inr \<lparr>pr_Written = (if piped then 0 else length (concat chunks)), pr_Key = r,
             pr_Keys = concat (file_keys H (fs_leafSize f) (concat chunks)), pr_Found = found\<rparr>))"
    "holds_also (gcs_content objects g s) (gcs_content objects g s') (put_blobs H f d r)"
    "gcs_content objects g s (StringWithPrefix (fs_prefix f) r) \<noteq> None \<longrightarrow> found"
    by blast
  with there stored_again [OF assms(2)] show ?thesis by fastforce
qed

theorem Put_deduplicates_witness:
  "\<exists>s' kc' res. Put tag_hash (gcs_store steady_client plain_gcs) (mru_lru 1) rev tag_fs tag_bucket []
      (Source [[7], []] None False) = Some (Inr (s', kc', Inr res)) \<and> pr_Found res"
proof -
  have "fs_leafSize tag_fs = 64" by (simp add: tag_fs_def)
  then show ?thesis
    using Put_deduplicates [OF steady.bucket_api_axioms tag_bucket_stored, of "[[7], []]" rev "mru_lru 1" "[]"]
    by fastforce
qed

section \<open>Deleting a file\<close>

context bucket_api
begin

lemma delete_keys_ok:
  "distinct ks \<Longrightarrow> \<forall>k \<in> set ks. gcs_content objects g s (Key_String k) \<noteq> None \<Longrightarrow>
   \<exists>s'. delete_keys (gcs_store cl g) s ks = (s', None) \<and>
     gcs_content objects g s' =
       (\<lambda>p. if p \<in> Key_String ` set ks then None else gcs_content objects g s p)"
proof (induction ks arbitrary: s)
  case Nil
  then show ?case by simp
next
  case (Cons k ks)
  obtain s1 where d: "st_Delete (gcs_store cl g) s (Key_String k) = (s1, None)"
    using gcs.delete_ok [of g s "Key_String k"] Cons.prems(2)
    by (cases "st_Delete (gcs_store cl g) s (Key_String k)") auto
  with gcs.delete_gone [of g s "Key_String k"] have
    s1: "gcs_content objects g s1 = (gcs_content objects g s)(Key_String k := None)" by simp
  have "gcs_content objects g s1 (Key_String k') \<noteq> None" if "k' \<in> set ks" for k'
  proof -
    from that Cons.prems(1) have "k' \<noteq> k" by auto
    with that Cons.prems(2) s1 show ?thesis by simp
  qed
  with Cons.IH [of s1] Cons.prems obtain s2 where
    "delete_keys (gcs_store cl g) s1 ks = (s2, None)"
    "gcs_content objects g s2 = (\<lambda>p. if p \<in> Key_String ` set ks then None else gcs_content objects g s1 p)"
    by auto
  with d s1 show ?case by (auto simp: fun_eq_iff)
qed

lemma delete_keys_missing:
  assumes "gcs_content objects g s (Key_String k) = None"
  shows "delete_keys (gcs_store cl g) s (k # ks) = (s, Some ErrNotExists)"
  using assms delete_none by (simp add: gcs_Delete_def gcs_content_def)

end

text \<open>
  C37: \<open>Delete\<close> removes a stored file, its leaves and its root, and nothing else, when the file
  system has no key prefix and the keys are distinct. With a prefix it addresses objects that do not
  exist: the call fails with a not-found error and the file stays where it is.
\<close>

theorem Delete_exact:
  assumes "bucket_api cl objects" and "stored H f (gcs_content objects g s) d r"
    and "distinct (r # file_keys H (fs_leafSize f) d)" and "d \<noteq> []"
    and "fs_prefix f \<noteq> '''' \<Longrightarrow>
      \<forall>k \<in> set (file_keys H (fs_leafSize f) d). gcs_content objects g s (Key_String k) = None"
  shows "if fs_prefix f = ''''
    then \<exists>s'. fs_Delete H (gcs_store cl g) f s r = (s', None) \<and> gcs_content objects g s' =
        (\<lambda>p. if p \<in> Key_String ` set (r # file_keys H (fs_leafSize f) d) then None
             else gcs_content objects g s p)
    else fs_Delete H (gcs_store cl g) f s r = (s, Some (StoreErr ErrNotExists))"
proof -
  let ?ks = "file_keys H (fs_leafSize f) d" and ?m = "gcs_content objects g"
  note st = gcs_is_store [OF assms(1), of g]
  note lv = object_store.leavesForHash_stored [OF st assms(2)]
  have l: "0 < fs_leafSize f" using assms(2) by (simp add: stored_def)
  show ?thesis
  proof (cases "fs_prefix f = ''''")
    case True
    note sv = stored_serves [OF assms(2)]
    have "?m s (Key_String k) \<noteq> None" if "k \<in> set ?ks" for k
      using that serves_nth [OF sv] True unfolding in_set_conv_nth by (auto simp: StringWithPrefix_def)
    with bucket_api.delete_keys_ok [OF assms(1), of ?ks g s] assms(3) obtain s1 where
      s1: "delete_keys (gcs_store cl g) s ?ks = (s1, None)"
        "?m s1 = (\<lambda>p. if p \<in> Key_String ` set ?ks then None else ?m s p)" by auto
    have "?m s (Key_String r) \<noteq> None"
      using assms(2) True by (auto simp: stored_def put_blobs_def StringWithPrefix_def)
    with s1 assms(3) have "?m s1 (Key_String r) \<noteq> None" by auto
    with object_store.delete_ok [OF st] obtain s2 where
      s2: "st_Delete (gcs_store cl g) s1 (Key_String r) = (s2, None)"
      by (cases "st_Delete (gcs_store cl g) s1 (Key_String r)") fastforce
    with object_store.delete_gone [OF st, of s1 "Key_String r"] s1 have
      "?m s2 = (\<lambda>p. if p \<in> Key_String ` set (r # ?ks) then None else ?m s p)"
      by (auto simp: fun_eq_iff)
    with True lv s1 s2 show ?thesis by (simp add: fs_Delete_def)
  next
    case False
    from l assms(4) obtain k ks where ks: "?ks = k # ks"
      by (cases ?ks) (simp_all add: file_keys_def blocks_step)
    with False assms(5) bucket_api.delete_keys_missing [OF assms(1), of g s k ks] lv show ?thesis
      by (simp add: fs_Delete_def)
  qed
qed

theorem Delete_exact_witness:
  "\<exists>s'. fs_Delete tag_hash (gcs_store steady_client plain_gcs) tag_fs tag_bucket tag_root = (s', None)
    \<and> gcs_content map_of plain_gcs s' (Key_String tag_root) = None"
proof -
  have "fs_leafSize tag_fs = 64" "fs_prefix tag_fs = ''''" by (simp_all add: tag_fs_def)
  then show ?thesis
    using Delete_exact [OF steady.bucket_api_axioms tag_bucket_stored] by force
qed

end
