(* ===== verification/ModelPaths.thy ===== *)
theory ModelPaths
  imports GoStd
begin

text \<open>
  The metadata paths of \<open>pkg/model\<close>: how the location of every repo, label, bundle, diamond,
  split and index file on the metadata stores is built, and how such a location is parsed back
  (\<open>paths.go\<close>, \<open>bundle.go\<close>, \<open>diamond.go\<close>, \<open>label.go\<close>, \<open>repo.go\<close>, \<open>context.go\<close>). The
  KSUID check of \<open>github.com/segmentio/ksuid\<close> is the parameter \<open>ksuid_ok\<close>.
\<close>

section \<open>Building paths\<close>

definition repoDescriptorFile :: string where "repoDescriptorFile = ''repo.yaml''"
definition labelDescriptorFile :: string where "labelDescriptorFile = ''label.yaml''"
definition bundleDescriptorFile :: string where "bundleDescriptorFile = ''bundle.yaml''"
definition contextDescriptorFile :: string where "contextDescriptorFile = ''context.yaml''"
definition reverseIndexFile :: string where "reverseIndexFile = ''reverse-index''"
definition purgeLockFile :: string where "purgeLockFile = ''purge.lock''"
definition bundleFilesIndexPrefix :: string where "bundleFilesIndexPrefix = ''bundle-files-''"
definition indexFilePrefix :: string where "indexFilePrefix = ''chunk-''"

definition diamondFinalDescriptorFile :: string where
  "diamondFinalDescriptorFile = ''diamond-done.yaml''"
definition splitFinalDescriptorFile :: string where
  "splitFinalDescriptorFile = ''split-done.yaml''"
definition diamondInitialDescriptorFile :: string where
  "diamondInitialDescriptorFile = ''diamond-running.yaml''"
definition splitInitialDescriptorFile :: string where
  "splitInitialDescriptorFile = ''split-running.yaml''"

lemmas file_names [path_simps] =
  repoDescriptorFile_def labelDescriptorFile_def bundleDescriptorFile_def
  contextDescriptorFile_def bundleFilesIndexPrefix_def
  diamondFinalDescriptorFile_def splitFinalDescriptorFile_def
  diamondInitialDescriptorFile_def splitInitialDescriptorFile_def

text \<open>The states of a diamond and of a split; a state read from a file may be any string.\<close>

datatype DiamondState = DiamondInitialized | DiamondDone | DiamondCanceled | DiamondOther string
datatype SplitState = SplitDone | SplitRunning | SplitOther string

fun DiamondState_IsValid :: "DiamondState \<Rightarrow> bool" where
  "DiamondState_IsValid (DiamondOther _) = False"
| "DiamondState_IsValid _ = True"

fun SplitState_IsValid :: "SplitState \<Rightarrow> bool" where
  "SplitState_IsValid (SplitOther _) = False"
| "SplitState_IsValid _ = True"

definition GetArchivePathToRepoDescriptor :: "string \<Rightarrow> string" where
  "GetArchivePathToRepoDescriptor repo = ''repos/'' @ repo @ ''/'' @ repoDescriptorFile"

definition GetArchivePathPrefixToRepos :: string where
  "GetArchivePathPrefixToRepos = ''repos/''"

definition GetArchivePathPrefixToLabels :: "string \<Rightarrow> string list \<Rightarrow> string" where
  "GetArchivePathPrefixToLabels repo pfxs = ''labels/'' @ repo @ ''/'' @ join_slash pfxs"

definition GetArchivePathToLabel :: "string \<Rightarrow> string \<Rightarrow> string" where
  "GetArchivePathToLabel repo labelName =
     GetArchivePathPrefixToLabels repo [] @ labelName @ ''/'' @ labelDescriptorFile"

definition GetArchivePathToBundle :: "string \<Rightarrow> string \<Rightarrow> string" where
  "GetArchivePathToBundle repo bundleID =
     ''bundles/'' @ repo @ ''/'' @ bundleID @ ''/'' @ bundleDescriptorFile"

definition GetArchivePathPrefixToBundles :: "string \<Rightarrow> string" where
  "GetArchivePathPrefixToBundles repo = ''bundles/'' @ repo @ ''/''"

definition GetArchivePathToBundleFileList :: "string \<Rightarrow> string \<Rightarrow> 64 word \<Rightarrow> string" where
  "GetArchivePathToBundleFileList repo bundleID index =
     ''bundles/'' @ repo @ ''/'' @ bundleID @ ''/'' @ bundleFilesIndexPrefix
       @ show_nat (unat index) @ ''.yaml''"

definition GetArchivePathPrefixToDiamonds :: "string \<Rightarrow> string" where
  "GetArchivePathPrefixToDiamonds repo = ''diamonds/'' @ repo @ ''/''"

definition GetArchivePathToDiamond :: "string \<Rightarrow> string \<Rightarrow> DiamondState \<Rightarrow> string" where
  "GetArchivePathToDiamond repo diamondID state =
     ''diamonds/'' @ repo @ ''/'' @ diamondID @ ''/'' @ ''diamond-''
       @ (case state of DiamondInitialized \<Rightarrow> ''running'' | _ \<Rightarrow> ''done'') @ ''.yaml''"

definition GetArchivePathToFinalDiamond :: "string \<Rightarrow> string \<Rightarrow> string" where
  "GetArchivePathToFinalDiamond repo diamondID =
     ''diamonds/'' @ repo @ ''/'' @ diamondID @ ''/'' @ diamondFinalDescriptorFile"

definition GetArchivePathToInitialDiamond :: "string \<Rightarrow> string \<Rightarrow> string" where
  "GetArchivePathToInitialDiamond repo diamondID =
     ''diamonds/'' @ repo @ ''/'' @ diamondID @ ''/'' @ diamondInitialDescriptorFile"

definition GetArchivePathPrefixToSplits :: "string \<Rightarrow> string \<Rightarrow> string" where
  "GetArchivePathPrefixToSplits repo diamondID =
     ''diamonds/'' @ repo @ ''/'' @ diamondID @ ''/'' @ ''splits'' @ ''/''"

definition GetArchivePathToSplit :: "string \<Rightarrow> string \<Rightarrow> string \<Rightarrow> SplitState \<Rightarrow> string" where
  "GetArchivePathToSplit repo diamondID splitID state =
     ''diamonds/'' @ repo @ ''/'' @ diamondID @ ''/'' @ ''splits'' @ ''/'' @ splitID @ ''/''
       @ ''split-'' @ (case state of SplitRunning \<Rightarrow> ''running'' | _ \<Rightarrow> ''done'') @ ''.yaml''"

definition GetArchivePathToFinalSplit :: "string \<Rightarrow> string \<Rightarrow> string \<Rightarrow> string" where
  "GetArchivePathToFinalSplit repo diamondID splitID =
     ''diamonds/'' @ repo @ ''/'' @ diamondID @ ''/'' @ ''splits'' @ ''/'' @ splitID @ ''/''
       @ splitFinalDescriptorFile"

definition GetArchivePathToInitialSplit :: "string \<Rightarrow> string \<Rightarrow> string \<Rightarrow> string" where
  "GetArchivePathToInitialSplit repo diamondID splitID =
     ''diamonds/'' @ repo @ ''/'' @ diamondID @ ''/'' @ ''splits'' @ ''/'' @ splitID @ ''/''
       @ splitInitialDescriptorFile"

definition GetArchivePathToSplitFileList ::
  "string \<Rightarrow> string \<Rightarrow> string \<Rightarrow> string \<Rightarrow> 64 word \<Rightarrow> string" where
  "GetArchivePathToSplitFileList repo diamondID splitID generationID index =
     ''diamonds/'' @ repo @ ''/'' @ diamondID @ ''/'' @ ''splits'' @ ''/'' @ splitID @ ''/''
       @ generationID @ ''/'' @ bundleFilesIndexPrefix @ show_nat (unat index) @ ''.yaml''"

definition GenerateConflictPath :: "string \<Rightarrow> string \<Rightarrow> string" where
  "GenerateConflictPath splitID pth = path_Join [''.conflicts'', splitID, pth]"

definition GenerateCheckpointPath :: "string \<Rightarrow> string \<Rightarrow> string" where
  "GenerateCheckpointPath splitID pth = path_Join [''.checkpoints'', splitID, pth]"

definition GetPathToContext :: "string \<Rightarrow> string" where
  "GetPathToContext ctx = path_Join [''contexts/'', ctx, contextDescriptorFile]"

definition ReverseIndexFile :: "64 word \<Rightarrow> string" where
  "ReverseIndexFile chunk =
     path_Join [reverseIndexFile, indexFilePrefix @ show_nat (unat chunk) @ ''.yaml'']"

definition ReverseIndexPrefix :: string where
  "ReverseIndexPrefix = path_Join [reverseIndexFile, indexFilePrefix]"

section \<open>Parsing archive paths\<close>

record ArchivePathComponents =
  apc_Repo :: string
  apc_BundleID :: string
  apc_ArchiveFileName :: string
  apc_LabelName :: string
  apc_Context :: string
  apc_DiamondID :: string
  apc_SplitID :: string
  apc_GenerationID :: string
  apc_IsFinalState :: bool

definition no_components :: ArchivePathComponents where
  "no_components = \<lparr>apc_Repo = '''', apc_BundleID = '''', apc_ArchiveFileName = '''', apc_LabelName = '''',
     apc_Context = '''', apc_DiamondID = '''', apc_SplitID = '''', apc_GenerationID = '''', apc_IsFinalState = False\<rparr>"

text \<open>The error returns of \<open>GetArchivePathComponents\<close>, one constructor for each kind of message.\<close>

datatype path_error =
    TooFewParts nat
  | BadLastElement
  | DiamondNotKsuid string
  | GenerationNotKsuid string
  | UnknownPrefix

text \<open>The pattern \<^verbatim>\<open>^bundle-files-(\d+)\.yaml$\<close>.\<close>

definition isBundleFileIndexRe :: "string \<Rightarrow> bool" where
  "isBundleFileIndexRe s =
     (case strip_prefix bundleFilesIndexPrefix s of
        None \<Rightarrow> False
      | Some r \<Rightarrow> (case strip_suffix ''.yaml'' r of
          None \<Rightarrow> False
        | Some ds \<Rightarrow> ds \<noteq> [] \<and> list_all is_digit ds))"

definition label_components :: "string list \<Rightarrow> (path_error, ArchivePathComponents) res" where
  "label_components cs =
     (if length cs < 4 then Inl (TooFewParts 4)
      else if cs ! 3 \<noteq> labelDescriptorFile then Inl BadLastElement
      else Inr (no_components\<lparr>apc_ArchiveFileName := cs ! 3, apc_LabelName := cs ! 2, apc_Repo := cs ! 1\<rparr>))"

definition repo_components :: "string list \<Rightarrow> (path_error, ArchivePathComponents) res" where
  "repo_components cs =
     (if length cs < 3 then Inl (TooFewParts 4)
      else if cs ! 2 \<noteq> repoDescriptorFile then Inl BadLastElement
      else Inr (no_components\<lparr>apc_ArchiveFileName := cs ! 2, apc_Repo := cs ! 1\<rparr>))"

definition bundle_components :: "string list \<Rightarrow> (path_error, ArchivePathComponents) res" where
  "bundle_components cs =
     (if length cs < 4 then Inl (TooFewParts 4)
      else if cs ! 3 = '''' \<or> cs ! 3 = bundleDescriptorFile \<or> isBundleFileIndexRe (cs ! 3)
      then Inr (no_components\<lparr>apc_ArchiveFileName := cs ! 3, apc_BundleID := cs ! 2, apc_Repo := cs ! 1\<rparr>)
      else Inl BadLastElement)"

definition context_components :: "string list \<Rightarrow> (path_error, ArchivePathComponents) res" where
  "context_components cs =
     (if length cs < 3 then Inl (TooFewParts 3)
      else Inr (no_components\<lparr>apc_ArchiveFileName := cs ! 2, apc_Context := cs ! 1\<rparr>))"

definition split_components ::
  "(string \<Rightarrow> bool) \<Rightarrow> string \<Rightarrow> string list \<Rightarrow> (path_error, ArchivePathComponents) res" where
  "split_components ksuid_ok diamondID cs =
     (if length cs < 5 then Inl (TooFewParts 5)
      else let splitID = cs ! 4 in
        if splitID = '''' then Inr (no_components\<lparr>apc_Repo := cs ! 1, apc_DiamondID := diamondID\<rparr>)
        else if length cs < 6 then Inl (TooFewParts 6)
        else if cs ! 5 = '''' \<or> cs ! 5 = splitInitialDescriptorFile \<or> cs ! 5 = splitFinalDescriptorFile
        then Inr (no_components\<lparr>apc_ArchiveFileName := cs ! 5, apc_Repo := cs ! 1, apc_DiamondID := diamondID,
               apc_SplitID := splitID, apc_IsFinalState := (cs ! 5 = splitFinalDescriptorFile)\<rparr>)
        else if length cs > 6 then
          (let generationID = cs ! 5 in
           if \<not> ksuid_ok generationID then Inl (GenerationNotKsuid generationID)
           else if length cs > 7 \<or> \<not> isBundleFileIndexRe (cs ! 6) then Inl BadLastElement
           else Inr (no_components\<lparr>apc_ArchiveFileName := cs ! 6, apc_Repo := cs ! 1,
                  apc_DiamondID := diamondID, apc_SplitID := splitID, apc_GenerationID := generationID,
                  apc_IsFinalState := (cs ! 5 = splitFinalDescriptorFile)\<rparr>))
        else Inl BadLastElement)"

definition diamond_components ::
  "(string \<Rightarrow> bool) \<Rightarrow> string list \<Rightarrow> (path_error, ArchivePathComponents) res" where
  "diamond_components ksuid_ok cs =
     (if length cs < 4 then Inl (TooFewParts 4)
      else let diamondID = cs ! 2 in
        if \<not> ksuid_ok diamondID then Inl (DiamondNotKsuid diamondID)
        else if cs ! 3 = '''' \<or> cs ! 3 = diamondInitialDescriptorFile
                \<or> cs ! 3 = diamondFinalDescriptorFile
        then Inr (no_components\<lparr>apc_ArchiveFileName := cs ! 3, apc_Repo := cs ! 1, apc_DiamondID := diamondID,
               apc_IsFinalState := (cs ! 3 = diamondFinalDescriptorFile)\<rparr>)
        else split_components ksuid_ok diamondID cs)"

definition GetArchivePathComponents ::
  "(string \<Rightarrow> bool) \<Rightarrow> string \<Rightarrow> (path_error, ArchivePathComponents) res" where
  "GetArchivePathComponents ksuid_ok archivePath =
     (let cs = splitN 7 CHR ''/'' archivePath in
      if cs ! 0 = ''labels'' then label_components cs
      else if cs ! 0 = ''repos'' then repo_components cs
      else if cs ! 0 = ''bundles'' then bundle_components cs
      else if cs ! 0 = ''contexts'' then context_components cs
      else if cs ! 0 = ''diamonds'' then diamond_components ksuid_ok cs
      else Inl UnknownPrefix)"

section \<open>Paths on a consumable store\<close>

text \<open>
  The pattern \<^verbatim>\<open>^\.datamon/(.*)\.yaml$\<close>; a dot of a Go pattern matches any character but the
  newline.
\<close>

definition metaRe :: "string \<Rightarrow> string option" where
  "metaRe s =
     (case strip_prefix ''.datamon/'' s of
        None \<Rightarrow> None
      | Some r \<Rightarrow> (case strip_suffix ''.yaml'' r of
          None \<Rightarrow> None
        | Some m \<Rightarrow> if CHR 0x0A \<in> set m then None else Some m))"

text \<open>
  Cutting a string at the last occurrence of a pattern: the greedy first group of
  \<^verbatim>\<open>^(.*)-bundle-files-(.*)$\<close>.
\<close>

fun cut_last :: "string \<Rightarrow> string \<Rightarrow> (string \<times> string) option" where
  "cut_last pat [] = None"
| "cut_last pat (c # s) =
     (case cut_last pat s of
        Some (a, b) \<Rightarrow> Some (c # a, b)
      | None \<Rightarrow> (case strip_prefix pat (c # s) of Some b \<Rightarrow> Some ([], b) | None \<Rightarrow> None))"

definition flRe :: "string \<Rightarrow> (string \<times> string) option" where
  "flRe s = (if CHR 0x0A \<in> set s then None
             else cut_last (CHR ''-'' # bundleFilesIndexPrefix) s)"

datatype ConsumableType = ConsumableStorePathTypeDescriptor | ConsumableStorePathTypeFileList

record ConsumableStorePathMetadata =
  meta_Type :: ConsumableType
  meta_BundleID :: string
  meta_Index :: "64 word"

datatype consumable_error = NotAMetadataPath | BadIndex atoi_error

definition GetConsumableStorePathMetadata ::
  "string \<Rightarrow> (consumable_error, ConsumableStorePathMetadata) res" where
  "GetConsumableStorePathMetadata path =
     (case metaRe path of
        None \<Rightarrow> Inl NotAMetadataPath
      | Some metaName \<Rightarrow> (case flRe metaName of
          None \<Rightarrow> Inr \<lparr>meta_Type = ConsumableStorePathTypeDescriptor, meta_BundleID = metaName,
                      meta_Index = 0\<rparr>
        | Some (bundleID, idx) \<Rightarrow> (case Atoi idx of
            Inl e \<Rightarrow> Inl (BadIndex e)
          | Inr index \<Rightarrow> Inr \<lparr>meta_Type = ConsumableStorePathTypeFileList,
               meta_BundleID = bundleID, meta_Index = word_of_int index\<rparr>)))"

text \<open>The path builders check their result against the parser and panic when it disagrees.\<close>

definition GetConsumablePathToBundle :: "string \<Rightarrow> (panic, string) res" where
  "GetConsumablePathToBundle bundleID =
     (let path = ''.datamon/'' @ bundleID @ ''.yaml'' in
      case GetConsumableStorePathMetadata path of
        Inl e \<Rightarrow> Inl (ExplicitPanic ''path not valid against inverse function'')
      | Inr info \<Rightarrow>
          if meta_Type info \<noteq> ConsumableStorePathTypeDescriptor
          then Inl (ExplicitPanic ''unexpected type from inverse function'')
          else if meta_BundleID info \<noteq> bundleID
          then Inl (ExplicitPanic ''inverse function bundle id does not match'')
          else Inr path)"

definition GetConsumablePathToBundleFileList :: "string \<Rightarrow> 64 word \<Rightarrow> (panic, string) res" where
  "GetConsumablePathToBundleFileList bundleID index =
     (let path = ''.datamon/'' @ bundleID @ ''-bundle-files-'' @ show_nat (unat index) @ ''.yaml'' in
      case GetConsumableStorePathMetadata path of
        Inl e \<Rightarrow> Inl (ExplicitPanic ''path not valid against inverse function'')
      | Inr info \<Rightarrow>
          if meta_Type info \<noteq> ConsumableStorePathTypeFileList
          then Inl (ExplicitPanic ''unexpected type from inverse function'')
          else if meta_BundleID info \<noteq> bundleID
          then Inl (ExplicitPanic ''inverse function bundle id does not match'')
          else if meta_Index info \<noteq> index
          then Inl (ExplicitPanic ''inverse function index does not match'')
          else Inr path)"

section \<open>Generated files\<close>

text \<open>
  The pattern of \<open>IsGeneratedFile\<close>. Its alternatives without a final \<open>$\<close> match every string
  that starts with the literal part. The last two alternatives, for the conflict and checkpoint
  directories, start with an optional dot and an optional slash.
\<close>

definition starts_with :: "string \<Rightarrow> string \<Rightarrow> bool" where
  "starts_with p s = (strip_prefix p s \<noteq> None)"

definition opt_dot_slash :: "string \<Rightarrow> string \<Rightarrow> bool" where
  "opt_dot_slash d s =
     list_ex (\<lambda>pre. starts_with (pre @ d @ ''/'') s \<or> s = pre @ d) ['''', ''.'', ''/'', ''./'']"

definition IsGeneratedFile :: "string \<Rightarrow> bool" where
  "IsGeneratedFile file \<longleftrightarrow>
     starts_with ''.datamon/'' file \<or> starts_with ''/.datamon/'' file \<or> file = ''/.datamon''
     \<or> file = ''.datamon'' \<or> starts_with ''./.datamon/'' file \<or> file = ''./.datamon''
     \<or> opt_dot_slash ''.conflicts'' file \<or> opt_dot_slash ''.checkpoints'' file"

section \<open>Round trips of archive paths\<close>

abbreviation no_slash :: "string \<Rightarrow> bool" where
  "no_slash s \<equiv> CHR ''/'' \<notin> set s"

lemma splitN7: "splitN 7 c s = splitN (Suc (Suc (Suc (Suc (Suc (Suc (Suc 0))))))) c s"
  by (simp add: eval_nat_numeral)

lemma isBundleFileIndexRe_index [simp]:
  "isBundleFileIndexRe (bundleFilesIndexPrefix @ show_nat n @ ''.yaml'')"
  using show_nat_digits [of n]
  by (simp add: isBundleFileIndexRe_def list_all_iff strip_prefix_append
      strip_suffix_append [of "''.yaml''" "show_nat n"] del: append.simps)

lemmas isBundleFileIndexRe_index_chars [simp] =
  isBundleFileIndexRe_index [unfolded bundleFilesIndexPrefix_def, simplified]

lemmas cut_path = dropWhile_neq_append takeWhile_neq_append dropWhile_neq_all

lemmas build_path =
  GetArchivePathToBundle_def GetArchivePathToBundleFileList_def GetArchivePathToLabel_def
  GetArchivePathPrefixToLabels_def GetArchivePathToRepoDescriptor_def
  GetArchivePathToDiamond_def GetArchivePathToFinalDiamond_def GetArchivePathToInitialDiamond_def
  GetArchivePathToSplit_def GetArchivePathToFinalSplit_def GetArchivePathToInitialSplit_def
  GetArchivePathToSplitFileList_def

lemmas parse_path =
  GetArchivePathComponents_def bundle_components_def label_components_def repo_components_def
  diamond_components_def split_components_def splitN7 cut_path file_names Let_def

text \<open>
  C40: every location that \<open>GetArchivePathToBundle\<close>, \<open>GetArchivePathToBundleFileList\<close>,
  \<open>GetArchivePathToLabel\<close> and \<open>GetArchivePathToRepoDescriptor\<close> build from names without a
  slash is parsed back by \<open>GetArchivePathComponents\<close> into exactly the names it was built from.
\<close>

theorem metadata_path_roundtrip:
  assumes "no_slash repo" and "no_slash name"
  shows
    "GetArchivePathComponents k (GetArchivePathToBundle repo name) =
       Inr (no_components\<lparr>apc_Repo := repo, apc_BundleID := name,
         apc_ArchiveFileName := bundleDescriptorFile\<rparr>) \<and>
     GetArchivePathComponents k (GetArchivePathToBundleFileList repo name i) =
       Inr (no_components\<lparr>apc_Repo := repo, apc_BundleID := name,
         apc_ArchiveFileName := bundleFilesIndexPrefix @ show_nat (unat i) @ ''.yaml''\<rparr>) \<and>
     GetArchivePathComponents k (GetArchivePathToLabel repo name) =
       Inr (no_components\<lparr>apc_Repo := repo, apc_LabelName := name,
         apc_ArchiveFileName := labelDescriptorFile\<rparr>) \<and>
     GetArchivePathComponents k (GetArchivePathToRepoDescriptor repo) =
       Inr (no_components\<lparr>apc_Repo := repo, apc_ArchiveFileName := repoDescriptorFile\<rparr>)"
  using assms by (intro conjI; simp add: build_path parse_path)

theorem metadata_path_roundtrip_witness:
  "GetArchivePathComponents (\<lambda>_. True) (GetArchivePathToBundle ''my-repo'' ''1INzQ5Bu'') =
     Inr (no_components\<lparr>apc_Repo := ''my-repo'', apc_BundleID := ''1INzQ5Bu'',
       apc_ArchiveFileName := bundleDescriptorFile\<rparr>)"
  using metadata_path_roundtrip [of "''my-repo''" "''1INzQ5Bu''" "\<lambda>_. True"] by simp

text \<open>
  The locations of a diamond's and of a split's descriptors and of a split's index files are
  parsed back into the diamond, split and generation they were built from, and the final flag of
  the parsed path tells exactly whether the descriptor was built for a state other than the
  initial one (diamond identifiers and generations being KSUIDs, as the code generates them, and
  a generation's name not being one of the split's descriptor files).
\<close>

theorem diamond_path_roundtrip:
  assumes "no_slash repo" and "no_slash did" and "no_slash sid" and "no_slash gid"
    and "k did" and "k gid" and "sid \<noteq> ''''"
    and "gid \<notin> {'''', splitInitialDescriptorFile, splitFinalDescriptorFile}"
  shows
    "GetArchivePathComponents k (GetArchivePathToDiamond repo did dst) =
       Inr (no_components\<lparr>apc_Repo := repo, apc_DiamondID := did,
         apc_ArchiveFileName := (if dst = DiamondInitialized then diamondInitialDescriptorFile
           else diamondFinalDescriptorFile),
         apc_IsFinalState := (dst \<noteq> DiamondInitialized)\<rparr>) \<and>
     GetArchivePathComponents k (GetArchivePathToSplit repo did sid sst) =
       Inr (no_components\<lparr>apc_Repo := repo, apc_DiamondID := did, apc_SplitID := sid,
         apc_ArchiveFileName := (if sst = SplitRunning then splitInitialDescriptorFile
           else splitFinalDescriptorFile),
         apc_IsFinalState := (sst \<noteq> SplitRunning)\<rparr>) \<and>
     GetArchivePathComponents k (GetArchivePathToSplitFileList repo did sid gid i) =
       Inr (no_components\<lparr>apc_Repo := repo, apc_DiamondID := did, apc_SplitID := sid,
         apc_GenerationID := gid,
         apc_ArchiveFileName := bundleFilesIndexPrefix @ show_nat (unat i) @ ''.yaml''\<rparr>)"
proof (intro conjI)
  show "GetArchivePathComponents k (GetArchivePathToDiamond repo did dst) =
       Inr (no_components\<lparr>apc_Repo := repo, apc_DiamondID := did,
         apc_ArchiveFileName := (if dst = DiamondInitialized then diamondInitialDescriptorFile
           else diamondFinalDescriptorFile),
         apc_IsFinalState := (dst \<noteq> DiamondInitialized)\<rparr>)"
    using assms(1,2,5) by (cases dst) (simp_all add: build_path parse_path no_components_def)
  show "GetArchivePathComponents k (GetArchivePathToSplit repo did sid sst) =
       Inr (no_components\<lparr>apc_Repo := repo, apc_DiamondID := did, apc_SplitID := sid,
         apc_ArchiveFileName := (if sst = SplitRunning then splitInitialDescriptorFile
           else splitFinalDescriptorFile),
         apc_IsFinalState := (sst \<noteq> SplitRunning)\<rparr>)"
    using assms(1,2,3,5,7) by (cases sst) (simp_all add: build_path parse_path no_components_def)
  show "GetArchivePathComponents k (GetArchivePathToSplitFileList repo did sid gid i) =
       Inr (no_components\<lparr>apc_Repo := repo, apc_DiamondID := did, apc_SplitID := sid,
         apc_GenerationID := gid,
         apc_ArchiveFileName := bundleFilesIndexPrefix @ show_nat (unat i) @ ''.yaml''\<rparr>)"
    using assms by (simp add: build_path parse_path no_components_def)
qed

theorem diamond_path_roundtrip_witness:
  "GetArchivePathComponents (\<lambda>s. length s = 3) (GetArchivePathToDiamond ''r'' ''abc'' DiamondDone) =
     Inr (no_components\<lparr>apc_Repo := ''r'', apc_DiamondID := ''abc'',
       apc_ArchiveFileName := diamondFinalDescriptorFile, apc_IsFinalState := True\<rparr>)"
  using diamond_path_roundtrip [of "''r''" "''abc''" "''s1''" "''xyz''" "\<lambda>s. length s = 3"
      DiamondDone SplitDone 0]
  by (simp add: file_names)

section \<open>Round trips of consumable paths\<close>

lemma cut_last_Some: "cut_last pat s = Some (a, b) \<Longrightarrow> s = a @ pat @ b"
  by (induction s arbitrary: a b) (auto split: option.splits simp: strip_prefix_Some)

lemma cut_last_found:
  "cut_last (p # ps) (ps @ b) = None \<Longrightarrow> cut_last (p # ps) (a @ p # ps @ b) = Some (a, b)"
  by (induction a) auto

lemma cut_last_None: "pat \<noteq> [] \<Longrightarrow> cut_last pat s = None \<longleftrightarrow> \<not> sublist pat s"
proof (induction s)
  case Nil
  then show ?case by (simp add: sublist_def)
next
  case (Cons c s)
  have "sublist pat (c # s) \<longleftrightarrow> strip_prefix pat (c # s) \<noteq> None \<or> sublist pat s"
    by (cases "strip_prefix pat (c # s)")
      (auto simp: sublist_Cons_right prefix_def strip_prefix_Some [symmetric])
  with Cons show ?case by (auto split: option.splits)
qed

lemma flRe_index:
  assumes "CHR 0x0A \<notin> set b"
  shows "flRe (b @ ''-bundle-files-'' @ show_nat n) = Some (b, show_nat n)"
proof -
  let ?ps = bundleFilesIndexPrefix
  have none: "cut_last (CHR ''-'' # ?ps) (?ps @ show_nat n) = None"
  proof (rule ccontr)
    assume "cut_last (CHR ''-'' # ?ps) (?ps @ show_nat n) \<noteq> None"
    then obtain x y where "?ps @ show_nat n = x @ (CHR ''-'' # ?ps) @ y"
      using cut_last_Some by fastforce
    then have "count_list (?ps @ show_nat n) CHR ''-'' = count_list (x @ (CHR ''-'' # ?ps) @ y) CHR ''-''"
      by simp
    moreover have "count_list (show_nat n) CHR ''-'' = 0"
      by (simp add: count_list_0_iff)
    ultimately show False by (simp add: bundleFilesIndexPrefix_def)
  qed
  have "b @ ''-bundle-files-'' @ show_nat n = b @ CHR ''-'' # ?ps @ show_nat n"
    by (simp add: bundleFilesIndexPrefix_def)
  with cut_last_found [OF none, of b] assms show ?thesis
    by (simp add: flRe_def bundleFilesIndexPrefix_def)
qed

lemma flRe_None:
  "CHR 0x0A \<notin> set b \<Longrightarrow> flRe b = None \<longleftrightarrow> \<not> sublist ''-bundle-files-'' b"
  by (simp add: flRe_def cut_last_None bundleFilesIndexPrefix_def)

lemma metaRe_path:
  "metaRe (''.datamon/'' @ m @ ''.yaml'') = (if CHR 0x0A \<in> set m then None else Some m)"
  using strip_suffix_append [of "''.yaml''" m] by (simp add: metaRe_def)

lemma word_of_nat_unat_int: "word_of_int (int (unat (i :: 64 word))) = i"
  by simp

lemma consumable_bundle_cases:
  "GetConsumablePathToBundle b =
     (if CHR 0x0A \<notin> set b \<and> \<not> sublist ''-bundle-files-'' b
      then Inr (''.datamon/'' @ b @ ''.yaml'') else Inl (projl (GetConsumablePathToBundle b)))"
proof (cases "CHR 0x0A \<in> set b")
  case True
  then show ?thesis
    by (simp add: GetConsumablePathToBundle_def GetConsumableStorePathMetadata_def Let_def
        metaRe_path del: append.simps)
next
  case False
  with flRe_None [OF False] show ?thesis
    by (auto simp: GetConsumablePathToBundle_def GetConsumableStorePathMetadata_def Let_def
        metaRe_path split: option.splits sum.splits simp del: append.simps)
qed

lemma consumable_file_list_cases:
  "GetConsumablePathToBundleFileList b i =
     (if CHR 0x0A \<notin> set b \<and> unat i < 2 ^ 63
      then Inr (''.datamon/'' @ b @ ''-bundle-files-'' @ show_nat (unat i) @ ''.yaml'')
      else Inl (projl (GetConsumablePathToBundleFileList b i)))"
proof -
  have path: "''.datamon/'' @ b @ ''-bundle-files-'' @ show_nat (unat i) @ ''.yaml'' =
      ''.datamon/'' @ (b @ ''-bundle-files-'' @ show_nat (unat i)) @ ''.yaml''"
    by simp
  have "metaRe (''.datamon/'' @ b @ ''-bundle-files-'' @ show_nat (unat i) @ ''.yaml'') =
      (if CHR 0x0A \<in> set b then None else Some (b @ ''-bundle-files-'' @ show_nat (unat i)))"
    unfolding path metaRe_path by simp
  then show ?thesis
    by (simp add: GetConsumablePathToBundleFileList_def GetConsumableStorePathMetadata_def Let_def
        flRe_index Atoi_show_nat del: append.simps)
qed

text \<open>
  C39: the self-checking builders of consumable paths, which panic when the parser does not give
  their arguments back, return exactly when they are meant to: the descriptor's path for a bundle
  ID with no newline and no \<open>-bundle-files-\<close> in it, the path of an index file for a bundle ID
  with no newline and an index below \<open>2 ^ 63\<close> (\<open>Atoi\<close> refuses the larger ones); and the parser
  then yields the type, the bundle ID and the index.
\<close>

theorem consumable_path_roundtrip:
  "((\<exists>p. GetConsumablePathToBundle b = Inr p \<and> GetConsumableStorePathMetadata p =
       Inr \<lparr>meta_Type = ConsumableStorePathTypeDescriptor, meta_BundleID = b, meta_Index = 0\<rparr>)
     \<longleftrightarrow> CHR 0x0A \<notin> set b \<and> \<not> sublist ''-bundle-files-'' b) \<and>
   ((\<exists>p. GetConsumablePathToBundleFileList b i = Inr p \<and> GetConsumableStorePathMetadata p =
       Inr \<lparr>meta_Type = ConsumableStorePathTypeFileList, meta_BundleID = b, meta_Index = i\<rparr>)
     \<longleftrightarrow> CHR 0x0A \<notin> set b \<and> unat i < 2 ^ 63)"
proof (intro conjI)
  show "(\<exists>p. GetConsumablePathToBundle b = Inr p \<and> GetConsumableStorePathMetadata p =
       Inr \<lparr>meta_Type = ConsumableStorePathTypeDescriptor, meta_BundleID = b, meta_Index = 0\<rparr>)
     \<longleftrightarrow> CHR 0x0A \<notin> set b \<and> \<not> sublist ''-bundle-files-'' b"
    by (subst consumable_bundle_cases)
      (auto simp: GetConsumableStorePathMetadata_def metaRe_path flRe_None [THEN iffD2]
        simp del: append.simps)
  have path: "''.datamon/'' @ b @ ''-bundle-files-'' @ show_nat (unat i) @ ''.yaml'' =
      ''.datamon/'' @ (b @ ''-bundle-files-'' @ show_nat (unat i)) @ ''.yaml''"
    by simp
  show "(\<exists>p. GetConsumablePathToBundleFileList b i = Inr p \<and> GetConsumableStorePathMetadata p =
       Inr \<lparr>meta_Type = ConsumableStorePathTypeFileList, meta_BundleID = b, meta_Index = i\<rparr>)
     \<longleftrightarrow> CHR 0x0A \<notin> set b \<and> unat i < 2 ^ 63"
    by (subst consumable_file_list_cases)
      (auto simp: GetConsumableStorePathMetadata_def path metaRe_path flRe_index Atoi_show_nat
        simp del: append.simps append_assoc)
qed

section \<open>Conflict and checkpoint paths\<close>

lemma plain_conflicts [simp]: "plain_comp ''.conflicts''" "plain_comp ''.checkpoints''"
  by (simp_all add: plain_comp_def)

lemma join_slash_neq_Nil: "cs \<noteq> [] \<Longrightarrow> list_all plain_comp cs \<Longrightarrow> join_slash cs \<noteq> ''''"
  by (cases cs rule: join_slash.cases) (auto simp: plain_comp_def)

lemma deconflict_path:
  assumes "plain_comp d" and "plain_comp sid" and "cs \<noteq> []" and "list_all plain_comp cs"
  shows "path_Join [d, sid, join_slash cs] = d @ ''/'' @ sid @ ''/'' @ join_slash cs"
proof -
  have "join_slash [d, sid, join_slash cs] = join_slash (d # sid # cs)"
    using assms(3) by (cases cs) auto
  moreover have "path_Clean (join_slash (d # sid # cs)) = join_slash (d # sid # cs)"
    using assms by (intro path_Clean_plain) auto
  moreover have "join_slash (d # sid # cs) = d @ ''/'' @ sid @ ''/'' @ join_slash cs"
    using assms(3) by (cases cs) auto
  moreover have "d \<noteq> ''''" "sid \<noteq> ''''" using assms(1,2) by (auto simp: plain_comp_def)
  ultimately show ?thesis
    using join_slash_neq_Nil [OF assms(3,4)] by (simp add: path_Join_def Let_def)
qed

lemma starts_with_append [simp]: "starts_with p (p @ s)"
  by (simp add: starts_with_def)

lemma generated_conflicts: "IsGeneratedFile (''.conflicts'' @ ''/'' @ r)"
proof -
  have "starts_with ('''' @ ''.conflicts'' @ ''/'') (''.conflicts'' @ ''/'' @ r)"
    by (simp add: starts_with_def)
  then have "opt_dot_slash ''.conflicts'' (''.conflicts'' @ ''/'' @ r)"
    unfolding opt_dot_slash_def list_ex_iff by (intro bexI [of _ "''''"]) auto
  then show ?thesis unfolding IsGeneratedFile_def by blast
qed

lemma generated_checkpoints: "IsGeneratedFile (''.checkpoints'' @ ''/'' @ r)"
proof -
  have "starts_with ('''' @ ''.checkpoints'' @ ''/'') (''.checkpoints'' @ ''/'' @ r)"
    by (simp add: starts_with_def)
  then have "opt_dot_slash ''.checkpoints'' (''.checkpoints'' @ ''/'' @ r)"
    unfolding opt_dot_slash_def list_ex_iff by (intro bexI [of _ "''''"]) auto
  then show ?thesis unfolding IsGeneratedFile_def by blast
qed

lemma split_path_inj:
  assumes "plain_comp sid" and "cs \<noteq> []" and "list_all plain_comp cs"
    and "plain_comp sid'" and "cs' \<noteq> []" and "list_all plain_comp cs'"
  shows "sid @ ''/'' @ join_slash cs = sid' @ ''/'' @ join_slash cs' \<longleftrightarrow> sid = sid' \<and> cs = cs'"
proof
  assume eq: "sid @ ''/'' @ join_slash cs = sid' @ ''/'' @ join_slash cs'"
  have "comps (sid @ ''/'' @ join_slash cs) = sid # cs"
    using assms(1-3) by (auto simp: comps_cut comps_join plain_comp_def list_all_iff)
  moreover have "comps (sid' @ ''/'' @ join_slash cs') = sid' # cs'"
    using assms(4-6) by (auto simp: comps_cut comps_join plain_comp_def list_all_iff)
  ultimately have "sid # cs = sid' # cs'" by (simp only: eq)
  then show "sid = sid' \<and> cs = cs'" by simp
qed simp

text \<open>
  The places where a diamond commit keeps conflicting and checkpointed versions of a file
  are told apart from every dataset path: they are recognised by \<open>IsGeneratedFile\<close>, hence never
  uploaded again as data, and two of them are equal only for the same split and file.
\<close>

theorem deconflicted_paths_generated:
  assumes "plain_comp sid" and "cs \<noteq> []" and "list_all plain_comp cs"
    and "plain_comp sid'" and "cs' \<noteq> []" and "list_all plain_comp cs'"
  shows "IsGeneratedFile (GenerateConflictPath sid (join_slash cs)) \<and>
    IsGeneratedFile (GenerateCheckpointPath sid (join_slash cs)) \<and>
    (GenerateConflictPath sid (join_slash cs) = GenerateConflictPath sid' (join_slash cs')
       \<longleftrightarrow> sid = sid' \<and> cs = cs') \<and>
    GenerateConflictPath sid (join_slash cs) \<noteq> GenerateCheckpointPath sid' (join_slash cs')"
proof -
  note paths = deconflict_path [OF plain_conflicts(1) assms(1-3)]
    deconflict_path [OF plain_conflicts(2) assms(1-3)]
    deconflict_path [OF plain_conflicts(1) assms(4-6)]
    deconflict_path [OF plain_conflicts(2) assms(4-6)]
  have "''.conflicts'' @ ''/'' @ sid @ ''/'' @ join_slash cs =
      ''.conflicts'' @ ''/'' @ sid' @ ''/'' @ join_slash cs' \<longleftrightarrow> sid = sid' \<and> cs = cs'"
    unfolding same_append_eq by (rule split_path_inj [OF assms])
  moreover have "''.conflicts'' @ ''/'' @ sid @ ''/'' @ join_slash cs \<noteq>
      ''.checkpoints'' @ ''/'' @ sid' @ ''/'' @ join_slash cs'"
    by simp
  ultimately show ?thesis
    unfolding GenerateConflictPath_def GenerateCheckpointPath_def paths
    by (intro conjI generated_conflicts generated_checkpoints)
qed

theorem deconflicted_paths_generated_witness:
  "IsGeneratedFile (GenerateConflictPath ''split1'' ''dir/f.txt'')"
  using deconflicted_paths_generated [of "''split1''" "[''dir'', ''f.txt'']" "''s2''" "[''a'']"]
  by (simp add: plain_comp_def)

end
