(* ===== verification/ModelDescriptors.thy ===== *)
theory ModelDescriptors
  imports ModelPaths "HOL-Library.List_Lexorder" "HOL-Library.Char_ord"
begin

text \<open>
  The descriptors of \<open>pkg/model\<close>: repositories, bundles and their file entries, labels, diamonds,
  splits and contexts, with the orders used to sort them and the validation of user input. Times
  are natural numbers, zero being the zero time of Go.
\<close>

type_synonym go_time = nat

section \<open>Data\<close>

record Contributor =
  c_Name :: string
  c_Email :: string

definition Contributor_String :: "Contributor \<Rightarrow> string" where
  "Contributor_String c =
     (if c_Email c = '''' then c_Name c
      else if c_Name c = '''' then c_Email c
      else c_Name c @ '' <'' @ c_Email c @ ''>'')"

record BundleEntry =
  be_Hash :: string
  be_NameWithPath :: string
  be_FileMode :: nat
  be_Size :: nat
  be_Timestamp :: go_time

record BundleDescriptor =
  bd_LeafSize :: nat
  bd_ID :: string
  bd_Message :: string
  bd_Parents :: "string list"
  bd_Timestamp :: go_time
  bd_Contributors :: "Contributor list"
  bd_BundleEntriesFileCount :: nat
  bd_Version :: nat
  bd_Deduplication :: string
  bd_RunStage :: string

text \<open>
  What YAML makes of a descriptor that is decoded into one that has values already. The fields with the tag \<open>omitempty\<close> are not
  written when they are zero, and a field that is not there keeps the value it had.
\<close>

definition decoded_over :: "BundleDescriptor \<Rightarrow> BundleDescriptor \<Rightarrow> BundleDescriptor" where
  "decoded_over base d = d\<lparr>
     bd_Parents := (if bd_Parents d = [] then bd_Parents base else bd_Parents d),
     bd_Timestamp := (if bd_Timestamp d = 0 then bd_Timestamp base else bd_Timestamp d),
     bd_Version := (if bd_Version d = 0 then bd_Version base else bd_Version d),
     bd_Deduplication := (if bd_Deduplication d = [] then bd_Deduplication base else bd_Deduplication d),
     bd_RunStage := (if bd_RunStage d = [] then bd_RunStage base else bd_RunStage d)\<rparr>"

lemma decoded_over_simps [simp]:
  "bd_LeafSize (decoded_over base d) = bd_LeafSize d" "bd_ID (decoded_over base d) = bd_ID d"
  "bd_Message (decoded_over base d) = bd_Message d" "bd_Contributors (decoded_over base d) = bd_Contributors d"
  "bd_BundleEntriesFileCount (decoded_over base d) = bd_BundleEntriesFileCount d"
  "bd_Version (decoded_over base d) = (if bd_Version d = 0 then bd_Version base else bd_Version d)"
  by (simp_all add: decoded_over_def)

record LabelDescriptor =
  ld_Name :: string
  ld_BundleID :: string
  ld_Timestamp :: go_time
  ld_Contributors :: "Contributor list"

record RepoDescriptor =
  rd_Name :: string
  rd_Description :: string
  rd_Timestamp :: go_time
  rd_Contributor :: Contributor

datatype ConflictMode = IgnoreConflicts | EnableCheckpoints | EnableConflicts | ForbidConflicts | OtherMode string

record SplitDescriptor =
  sd_SplitID :: string
  sd_StartTime :: go_time
  sd_EndTime :: go_time
  sd_State :: SplitState
  sd_Contributors :: "Contributor list"
  sd_GenerationID :: string
  sd_SplitEntriesFileCount :: nat
  sd_Tag :: string

record DiamondDescriptor =
  dd_DiamondID :: string
  dd_StartTime :: go_time
  dd_EndTime :: go_time
  dd_State :: DiamondState
  dd_Mode :: ConflictMode
  dd_HasConflicts :: bool
  dd_HasCheckpoints :: bool
  dd_Tag :: string
  dd_BundleID :: string
  dd_Splits :: "SplitDescriptor list"

record Context =
  cx_Name :: string
  cx_WAL :: string
  cx_ReadLog :: string
  cx_Blob :: string
  cx_Metadata :: string
  cx_VMetadata :: string
  cx_Version :: nat

section \<open>Orders\<close>

text \<open>The \<open>Less\<close> methods behind the sorted listings; strings compare byte by byte.\<close>

definition BundleDescriptors_Less :: "BundleDescriptor \<Rightarrow> BundleDescriptor \<Rightarrow> bool" where
  "BundleDescriptors_Less a b \<longleftrightarrow> bd_ID a < bd_ID b"

definition LabelDescriptors_Less :: "LabelDescriptor \<Rightarrow> LabelDescriptor \<Rightarrow> bool" where
  "LabelDescriptors_Less a b \<longleftrightarrow> ld_BundleID a < ld_BundleID b"

definition RepoDescriptors_Less :: "RepoDescriptor \<Rightarrow> RepoDescriptor \<Rightarrow> bool" where
  "RepoDescriptors_Less a b \<longleftrightarrow> rd_Name a < rd_Name b"

definition DiamondDescriptors_Less :: "DiamondDescriptor \<Rightarrow> DiamondDescriptor \<Rightarrow> bool" where
  "DiamondDescriptors_Less a b \<longleftrightarrow>
     (if dd_StartTime a \<noteq> 0 \<and> dd_StartTime b \<noteq> 0 then dd_StartTime a < dd_StartTime b
      else dd_DiamondID a < dd_DiamondID b)"

definition SplitDescriptors_Less :: "SplitDescriptor \<Rightarrow> SplitDescriptor \<Rightarrow> bool" where
  "SplitDescriptors_Less a b \<longleftrightarrow>
     (if sd_StartTime a \<noteq> 0 \<and> sd_StartTime b \<noteq> 0 then sd_StartTime a < sd_StartTime b
      else sd_SplitID a < sd_SplitID b)"

section \<open>Defaults\<close>

text \<open>The descriptors that the constructors start from; the clock and the identifiers are arguments.\<close>

definition NewDiamondDescriptor :: "string \<Rightarrow> go_time \<Rightarrow> DiamondDescriptor" where
  "NewDiamondDescriptor diamondID now = \<lparr>dd_DiamondID = diamondID, dd_StartTime = now, dd_EndTime = 0,
     dd_State = DiamondInitialized, dd_Mode = EnableConflicts, dd_HasConflicts = False,
     dd_HasCheckpoints = False, dd_Tag = '''', dd_BundleID = '''', dd_Splits = []\<rparr>"

definition NewSplitDescriptor :: "string \<Rightarrow> go_time \<Rightarrow> SplitDescriptor" where
  "NewSplitDescriptor splitID now = \<lparr>sd_SplitID = splitID, sd_StartTime = now, sd_EndTime = 0,
     sd_State = SplitRunning, sd_Contributors = [], sd_GenerationID = '''',
     sd_SplitEntriesFileCount = 0, sd_Tag = ''''\<rparr>"

text \<open>The names of the stores of a context, unless they are given.\<close>

definition GetWALName :: "string \<Rightarrow> string \<Rightarrow> string" where
  "GetWALName context n = (if n \<noteq> '''' then n else context @ ''-wal'')"

definition GetBlobName :: "string \<Rightarrow> string \<Rightarrow> string" where
  "GetBlobName context n = (if n \<noteq> '''' then n else context @ ''-blob'')"

definition GetMetadataName :: "string \<Rightarrow> string \<Rightarrow> string" where
  "GetMetadataName context n = (if n \<noteq> '''' then n else context @ ''-metadata'')"

definition GetVMetadataName :: "string \<Rightarrow> string \<Rightarrow> string" where
  "GetVMetadataName context n = (if n \<noteq> '''' then n else context @ ''-v-metadata'')"

definition GetReadLogName :: "string \<Rightarrow> string \<Rightarrow> string" where
  "GetReadLogName context n = (if n \<noteq> '''' then n else context @ ''-read-log'')"

section \<open>Validation\<close>

text \<open>
  \<open>ValidateContext\<close> is a \<open>switch\<close> whose cases fall through: the first failing check adds its cause
  and those of all the checks after it.
\<close>

definition ContextVersion :: nat where "ContextVersion = 1"

definition ValidateContext :: "Context \<Rightarrow> string list" where
  "ValidateContext c =
     (let causes = [''Name is empty. '', ''ReadLog is empty. '', ''Metadata is empty. '',
            ''VMetadata is empty. '', ''Blob is empty. '', ''WAL is empty. '',
            ''Version higher than supported version''];
          failed = [cx_Name c = '''', cx_ReadLog c = '''', cx_Metadata c = '''', cx_VMetadata c = '''',
            cx_Blob c = '''', cx_WAL c = '''', cx_Version c > ContextVersion]
      in map snd (dropWhile (\<lambda>(bad, cause). \<not> bad) (zip failed causes)))"

text \<open>
  Names of repositories and labels are checked rune by rune. The text is a list of runes; ranging
  over the string gives each rune with its byte offset in the UTF-8 encoding, and the error message
  uses that offset to index the runes. The Unicode tables are parameters.
\<close>

type_synonym rune = nat

definition rune_width :: "rune \<Rightarrow> nat" where
  "rune_width r = (if r < 0x80 then 1 else if r < 0x800 then 2 else if r < 0x10000 then 3 else 4)"

datatype name_error = NameEmpty | FieldEmpty | UnsupportedCharacter rune | BadContributor

fun validate_runes :: "(rune \<Rightarrow> bool) \<Rightarrow> rune list \<Rightarrow> nat \<Rightarrow> rune list \<Rightarrow> (panic, name_error option) res" where
  "validate_runes ok name i [] = Inr None"
| "validate_runes ok name i (c # cs) =
     (if \<not> ok c then
        if i < length name then Inr (Some (UnsupportedCharacter (name ! i))) else Inl IndexOutOfRange
      else validate_runes ok name (i + rune_width c) cs)"

definition ValidateRepo :: "(rune \<Rightarrow> bool) \<Rightarrow> rune list \<Rightarrow> string \<Rightarrow> (panic, name_error option) res" where
  "ValidateRepo ok name description =
     (if name = [] then Inr (Some NameEmpty)
      else if description = '''' then Inr (Some FieldEmpty)
      else validate_runes ok name 0 name)"

definition ValidateLabel ::
  "(rune \<Rightarrow> bool) \<Rightarrow> (string \<Rightarrow> bool) \<Rightarrow> rune list \<Rightarrow> string \<Rightarrow> Contributor list \<Rightarrow> (panic, name_error option) res" where
  "ValidateLabel ok mailOk name bundleID contributors =
     (if name = [] then Inr (Some NameEmpty)
      else if bundleID = '''' then Inr (Some FieldEmpty)
      else case validate_runes ok name 0 name of
          Inl p \<Rightarrow> Inl p
        | Inr (Some e) \<Rightarrow> Inr (Some e)
        | Inr None \<Rightarrow>
            if list_all (\<lambda>c. c_Name c \<noteq> '''' \<and> c_Email c \<noteq> '''' \<and> mailOk (c_Email c)) contributors
            then Inr None else Inr (Some BadContributor))"

section \<open>Properties of validation\<close>

lemma validate_runes_eq:
  "validate_runes ok name i cs =
     (let j = length (takeWhile ok cs); o1 = i + sum_list (map rune_width (take j cs)) in
      if j = length cs then Inr None
      else if o1 < length name then Inr (Some (UnsupportedCharacter (name ! o1)))
      else Inl IndexOutOfRange)"
  by (induction cs arbitrary: i) (auto simp: Let_def add.assoc)

lemma rune_width_ascii: "r < 0x80 \<Longrightarrow> rune_width r = 1"
  by (simp add: rune_width_def)

lemma ascii_offset: "\<forall>r \<in> set cs. r < 0x80 \<Longrightarrow> sum_list (map rune_width cs) = length cs"
  by (induction cs) (auto simp: rune_width_ascii)

text \<open>
  A repository descriptor is accepted exactly when its name and description are not empty and
  every rune of the name is a letter, a digit or a hyphen. For the first rune that is not, the code
  indexes the runes by a byte offset: the message names the rune found at that position, and the
  call panics when the offset is past the last rune, which takes only one multi-byte letter before
  the offending rune.
\<close>

theorem ValidateRepo_exact:
  "ValidateRepo ok name description =
     (let j = length (takeWhile ok name); i = sum_list (map rune_width (take j name)) in
      if name = [] then Inr (Some NameEmpty)
      else if description = '''' then Inr (Some FieldEmpty)
      else if list_all ok name then Inr None
      else if i < length name then Inr (Some (UnsupportedCharacter (name ! i)))
      else Inl IndexOutOfRange)"
proof -
  have "length (takeWhile ok name) = length name \<longleftrightarrow> list_all ok name"
    by (induction name) auto
  then show ?thesis by (simp add: ValidateRepo_def validate_runes_eq Let_def)
qed

text \<open>
  A context descriptor is valid exactly when no cause is reported, that is when all its names
  are set and its version is supported. The report is not the list of what is wrong: as the cases
  of the switch fall through, a context whose only fault is an empty name is told that all its
  stores are empty and its version unsupported.
\<close>

theorem ValidateContext_exact:
  "(ValidateContext c = [] \<longleftrightarrow>
      cx_Name c \<noteq> '''' \<and> cx_ReadLog c \<noteq> '''' \<and> cx_Metadata c \<noteq> '''' \<and> cx_VMetadata c \<noteq> ''''
      \<and> cx_Blob c \<noteq> '''' \<and> cx_WAL c \<noteq> '''' \<and> cx_Version c \<le> ContextVersion)
   \<and> ValidateContext (c\<lparr>cx_Name := ''''\<rparr>) =
      [''Name is empty. '', ''ReadLog is empty. '', ''Metadata is empty. '', ''VMetadata is empty. '',
       ''Blob is empty. '', ''WAL is empty. '', ''Version higher than supported version'']"
  by (auto simp: ValidateContext_def Let_def)

section \<open>Properties of the orders\<close>

text \<open>
  The orders of diamonds and of splits are strict orders among descriptors that have a start
  time, but not in general: comparing start times when both are set and identifiers otherwise makes
  cycles as soon as one descriptor has no start time, so that sorting has no defined result.
\<close>

theorem diamond_order:
  "(\<forall>a b c :: DiamondDescriptor. 0 \<notin> dd_StartTime ` {a, b, c} \<longrightarrow>
      \<not> DiamondDescriptors_Less a a
      \<and> (DiamondDescriptors_Less a b \<longrightarrow> DiamondDescriptors_Less b c \<longrightarrow> DiamondDescriptors_Less a c))
   \<and> (\<exists>a b c. DiamondDescriptors_Less a b \<and> DiamondDescriptors_Less b c \<and> DiamondDescriptors_Less c a)
   \<and> (\<exists>a b c. SplitDescriptors_Less a b \<and> SplitDescriptors_Less b c \<and> SplitDescriptors_Less c a)"
proof (intro conjI)
  show "\<forall>a b c :: DiamondDescriptor. 0 \<notin> dd_StartTime ` {a, b, c} \<longrightarrow>
      \<not> DiamondDescriptors_Less a a
      \<and> (DiamondDescriptors_Less a b \<longrightarrow> DiamondDescriptors_Less b c \<longrightarrow> DiamondDescriptors_Less a c)"
    by (auto simp: DiamondDescriptors_Less_def)
  show "\<exists>a b c. DiamondDescriptors_Less a b \<and> DiamondDescriptors_Less b c \<and> DiamondDescriptors_Less c a"
    by (rule exI [of _ "NewDiamondDescriptor ''a'' 2"], rule exI [of _ "NewDiamondDescriptor ''b'' 0"],
        rule exI [of _ "NewDiamondDescriptor ''c'' 1"])
      (simp add: DiamondDescriptors_Less_def NewDiamondDescriptor_def less_char_def)
  show "\<exists>a b c. SplitDescriptors_Less a b \<and> SplitDescriptors_Less b c \<and> SplitDescriptors_Less c a"
    by (rule exI [of _ "NewSplitDescriptor ''a'' 2"], rule exI [of _ "NewSplitDescriptor ''b'' 0"],
        rule exI [of _ "NewSplitDescriptor ''c'' 1"])
      (simp add: SplitDescriptors_Less_def NewSplitDescriptor_def less_char_def)
qed

theorem diamond_order_witness:
  "\<not> DiamondDescriptors_Less (NewDiamondDescriptor ''a'' 1) (NewDiamondDescriptor ''a'' 1)"
  using diamond_order [THEN conjunct1, rule_format, of "NewDiamondDescriptor ''a'' 1"
      "NewDiamondDescriptor ''a'' 1" "NewDiamondDescriptor ''a'' 1"]
  by (simp add: NewDiamondDescriptor_def)

end
