(* ===== verification/DiamondMerge.thy ===== *)
theory DiamondMerge
  imports ModelDescriptors
begin

text \<open>
  Merging the file lists of the splits of a diamond, \<open>mergeSplits\<close> of
  \<open>pkg/core/diamond_commit.go\<close>. The lists arrive in any order. The radix tree of
  \<open>github.com/hashicorp/go-immutable-radix\<close> that holds the result is a parameter, with its
  documented behaviour as a locale.
\<close>

section \<open>The merge\<close>

record mergeEntry =
  me_Entry :: BundleEntry
  me_ID :: string \<comment> \<open>the split that uploaded the file\<close>

record 't radix =
  rx_New :: 't
  rx_Get :: "'t \<Rightarrow> string \<Rightarrow> mergeEntry option"
  rx_Insert :: "'t \<Rightarrow> string \<Rightarrow> mergeEntry \<Rightarrow> 't"
  rx_Iterate :: "'t \<Rightarrow> mergeEntry list" \<comment> \<open>the values, in the order of their keys\<close>

datatype 't merge_outcome =
    Merging 't nat \<comment> \<open>the index and the conflicts met so far\<close>
  | CommitGivenUp string \<comment> \<open>a forbidden conflict on this path\<close>
  | MergePanic panic

text \<open>The renaming function that \<open>NewDiamond\<close> selects for a conflict mode.\<close>

fun deconflicter :: "ConflictMode \<Rightarrow> string \<Rightarrow> string \<Rightarrow> string" where
  "deconflicter EnableCheckpoints = GenerateCheckpointPath"
| "deconflicter _ = GenerateConflictPath"

text \<open>One file of a split. The mode that forbids conflicts never calls the renaming function.\<close>

definition merge_file ::
  "'t radix \<Rightarrow> ConflictMode \<Rightarrow> 't \<Rightarrow> nat \<Rightarrow> string \<Rightarrow> BundleEntry \<Rightarrow> 't merge_outcome" where
  "merge_file R mode t conflicts splitID file =
     (let key = be_NameWithPath file; new = \<lparr>me_Entry = file, me_ID = splitID\<rparr> in
      case rx_Get R t key of
        None \<Rightarrow> Merging (rx_Insert R t key new) conflicts
      | Some existing \<Rightarrow>
          if be_Hash file = be_Hash (me_Entry existing) then Merging t conflicts
          else if be_Timestamp file = 0 then MergePanic (ExplicitPanic ''files should have a timing'')
          else if be_Timestamp file > be_Timestamp (me_Entry existing) then
            if mode = IgnoreConflicts \<or> splitID = me_ID existing
            then Merging (rx_Insert R t key new) conflicts
            else if mode = ForbidConflicts then CommitGivenUp key
            else
              let name = deconflicter mode splitID (be_NameWithPath (me_Entry existing));
                  moved = existing\<lparr>me_Entry := (me_Entry existing)\<lparr>be_NameWithPath := name\<rparr>\<rparr>
              in Merging (rx_Insert R (rx_Insert R t name moved) key new) (conflicts + 1)
          else if splitID = me_ID existing then Merging t conflicts
          else if mode = EnableConflicts \<or> mode = EnableCheckpoints then
            let newEntry = file\<lparr>be_NameWithPath :=
                  deconflicter mode splitID (be_NameWithPath (me_Entry existing))\<rparr>
            in Merging (rx_Insert R t (deconflicter mode splitID (be_NameWithPath file))
                 \<lparr>me_Entry = newEntry, me_ID = splitID\<rparr>) (conflicts + 1)
          else if mode = ForbidConflicts then CommitGivenUp key
          else Merging t conflicts)"

text \<open>The loop over the files, in the order they arrive.\<close>

fun merge_loop ::
  "'t radix \<Rightarrow> ConflictMode \<Rightarrow> 't \<Rightarrow> nat \<Rightarrow> (string \<times> BundleEntry) list \<Rightarrow> 't merge_outcome" where
  "merge_loop R mode t conflicts [] = Merging t conflicts"
| "merge_loop R mode t conflicts ((splitID, file) # files) =
     (case merge_file R mode t conflicts splitID file of
        Merging t' conflicts' \<Rightarrow> merge_loop R mode t' conflicts' files
      | CommitGivenUp p \<Rightarrow> CommitGivenUp p
      | MergePanic p \<Rightarrow> MergePanic p)"

definition merge_splits ::
  "'t radix \<Rightarrow> ConflictMode \<Rightarrow> (string \<times> BundleEntry) list \<Rightarrow> 't merge_outcome" where
  "merge_splits R mode files = merge_loop R mode (rx_New R) 0 files"

text \<open>The flags of the diamond after the merge, and the files handed to the bundle's index.\<close>

definition conflict_flags :: "ConflictMode \<Rightarrow> nat \<Rightarrow> DiamondDescriptor \<Rightarrow> DiamondDescriptor" where
  "conflict_flags mode conflicts d =
     (if conflicts > 0
      then d\<lparr>dd_HasConflicts := (mode \<noteq> EnableCheckpoints), dd_HasCheckpoints := (mode = EnableCheckpoints)\<rparr>
      else d)"

record filePacked =
  fp_hash :: string
  fp_name :: string
  fp_size :: nat
  fp_snapshot :: go_time

definition mergeEntryToFilePacked :: "mergeEntry \<Rightarrow> filePacked" where
  "mergeEntryToFilePacked e = \<lparr>fp_hash = be_Hash (me_Entry e), fp_name = be_NameWithPath (me_Entry e),
     fp_size = be_Size (me_Entry e), fp_snapshot = 0\<rparr>"

definition merged_output :: "'t radix \<Rightarrow> 't \<Rightarrow> filePacked list" where
  "merged_output R t = map mergeEntryToFilePacked (rx_Iterate R t)"

section \<open>The radix tree\<close>

text \<open>
  What the package documents: a tree is a map from byte strings; \<open>ok\<close> holds of the trees that the
  package makes, whose iteration visits every entry.
\<close>

locale radix_tree =
  fixes R :: "'t radix"
    and view :: "'t \<Rightarrow> string \<Rightarrow> mergeEntry option"
    and ok :: "'t \<Rightarrow> bool"
  assumes new: "view (rx_New R) = Map.empty" "ok (rx_New R)"
    and get: "rx_Get R t k = view t k"
    and insert: "ok t \<Longrightarrow> view (rx_Insert R t k e) = (view t)(k \<mapsto> e)"
      "ok t \<Longrightarrow> ok (rx_Insert R t k e)"
    and iterate: "ok t \<Longrightarrow> set (rx_Iterate R t) = ran (view t)"
    and iterate_once: "ok t \<Longrightarrow> length (rx_Iterate R t) = card (dom (view t))"

text \<open>A tree kept as its entries in key order.\<close>

fun assoc_insert :: "(string \<times> mergeEntry) list \<Rightarrow> string \<Rightarrow> mergeEntry \<Rightarrow> (string \<times> mergeEntry) list" where
  "assoc_insert [] k e = [(k, e)]"
| "assoc_insert ((k', e') # xs) k e =
     (if k = k' then (k, e) # xs
      else if k < k' then (k, e) # (k', e') # xs
      else (k', e') # assoc_insert xs k e)"

definition assoc_radix :: "(string \<times> mergeEntry) list radix" where
  "assoc_radix = \<lparr>rx_New = [], rx_Get = map_of, rx_Insert = assoc_insert,
     rx_Iterate = map snd\<rparr>"

lemma map_of_assoc_insert: "map_of (assoc_insert t k e) = (map_of t)(k \<mapsto> e)"
  by (induction t k e rule: assoc_insert.induct) auto

lemma keys_assoc_insert: "set (map fst (assoc_insert t k e)) = insert k (set (map fst t))"
  by (induction t k e rule: assoc_insert.induct) auto

lemma sorted_assoc_insert:
  "sorted_wrt (<) (map fst t) \<Longrightarrow> sorted_wrt (<) (map fst (assoc_insert t k e))"
proof (induction t k e rule: assoc_insert.induct)
  case (2 k' e' xs k e)
  then show ?case using keys_assoc_insert [of xs k e] by auto
qed simp

interpretation assoc: radix_tree assoc_radix map_of "\<lambda>t. sorted_wrt (<) (map fst t)"
proof
  fix t :: "(string \<times> mergeEntry) list"
  assume "sorted_wrt (<) (map fst t)"
  then have "distinct (map fst t)" by (simp add: strict_sorted_iff)
  then show "set (rx_Iterate assoc_radix t) = ran (map_of t)"
      "length (rx_Iterate assoc_radix t) = card (dom (map_of t))"
    using distinct_card [of "map fst t"] by (simp_all add: assoc_radix_def ran_distinct dom_map_of_conv_image_fst)
qed (simp_all add: assoc_radix_def map_of_assoc_insert sorted_assoc_insert)

section \<open>What the merge keeps\<close>

abbreviation name :: "BundleEntry \<Rightarrow> string" where "name f \<equiv> be_NameWithPath f"

text \<open>The pairs of a split and a path that an upload has.\<close>

definition pairs :: "(string \<times> BundleEntry) set \<Rightarrow> (string \<times> string) set" where
  "pairs F = (\<lambda>(s, f). (s, name f)) ` F"

text \<open>The renamed paths of a set of pairs are told apart from each other and from the paths.\<close>

definition apart :: "(string \<Rightarrow> string \<Rightarrow> string) \<Rightarrow> (string \<times> string) set \<Rightarrow> bool" where
  "apart D U \<longleftrightarrow> (\<forall>s n s' n'. (s, n) \<in> U \<longrightarrow> (s', n') \<in> U \<longrightarrow>
     D s n \<noteq> n' \<and> (D s n = D s' n' \<longrightarrow> s = s' \<and> n = n'))"

lemma apartD:
  assumes "apart D U" and "(s, n) \<in> U" and "(s', n') \<in> U"
  shows "D s n \<noteq> n'" "D s n = D s' n' \<Longrightarrow> s = s' \<and> n = n'"
  using assms unfolding apart_def by blast+

text \<open>
  The invariant: every file seen so far is in the map with its hash, at its own path or renamed; and
  every entry sits at its own name, either the path of a file seen from the split it came from, or a
  renamed path of a pair seen.
\<close>

definition kept :: "(string \<Rightarrow> string \<Rightarrow> string) \<Rightarrow> (string \<times> BundleEntry) set \<Rightarrow>
    (string \<Rightarrow> mergeEntry option) \<Rightarrow> string \<Rightarrow> BundleEntry \<Rightarrow> bool" where
  "kept D F m s f \<longleftrightarrow> (\<exists>k e. m k = Some e \<and> be_Hash (me_Entry e) = be_Hash f
     \<and> (k = name f \<or> (\<exists>s'. (s', name f) \<in> pairs F \<and> k = D s' (name f))))"

definition places :: "(string \<Rightarrow> string \<Rightarrow> string) \<Rightarrow> (string \<times> BundleEntry) set \<Rightarrow>
    (string \<Rightarrow> mergeEntry option) \<Rightarrow> bool" where
  "places D F m \<longleftrightarrow> (\<forall>k e. m k = Some e \<longrightarrow> name (me_Entry e) = k
     \<and> ((me_ID e, k) \<in> pairs F \<or> (\<exists>s n. (s, n) \<in> pairs F \<and> k = D s n)))"

definition merge_inv :: "(string \<Rightarrow> string \<Rightarrow> string) \<Rightarrow> (string \<times> BundleEntry) set \<Rightarrow>
    (string \<Rightarrow> mergeEntry option) \<Rightarrow> bool" where
  "merge_inv D F m \<longleftrightarrow> places D F m \<and> (\<forall>s f. (s, f) \<in> F \<longrightarrow> kept D F m s f)"

lemma pairs_insert [simp]: "pairs (insert (s, f) F) = insert (s, name f) (pairs F)"
  by (simp add: pairs_def)

lemma kept_mono: "kept D F m s f \<Longrightarrow> kept D (insert p F) m s f"
  unfolding kept_def pairs_def by blast

lemma places_mono: "places D F m \<Longrightarrow> places D (insert p F) m"
  unfolding places_def pairs_def by blast

lemma places_upd:
  assumes "places D F m" and "name (me_Entry e) = k"
    and "(me_ID e, k) \<in> pairs F \<or> (\<exists>s n. (s, n) \<in> pairs F \<and> k = D s n)"
  shows "places D F (m(k \<mapsto> e))"
  using assms unfolding places_def by simp

text \<open>An entry at the path of a file comes from a pair of that path.\<close>

lemma places_path:
  assumes "places D F m" and "apart D U" and "pairs F \<subseteq> U" and "(s, k) \<in> U" and "m k = Some e"
  shows "(me_ID e, k) \<in> pairs F \<and> name (me_Entry e) = k"
proof -
  from assms(1,5) have "name (me_Entry e) = k"
    "(me_ID e, k) \<in> pairs F \<or> (\<exists>s n. (s, n) \<in> pairs F \<and> k = D s n)" unfolding places_def by blast+
  moreover have "k \<noteq> D s' n" if "(s', n) \<in> pairs F" for s' n
    using apartD(1) [OF assms(2) _ assms(4)] that assms(3) by (metis subsetD)
  ultimately show ?thesis by blast
qed

lemma renamed_free:
  assumes "places D F m" and "apart D U" and "insert (s, n) (pairs F) \<subseteq> U" and "(s, n) \<notin> pairs F"
  shows "m (D s n) = None"
proof (rule ccontr)
  assume "m (D s n) \<noteq> None"
  then obtain e where "m (D s n) = Some e" by blast
  with assms(1) consider "(me_ID e, D s n) \<in> pairs F" | s' n' where "(s', n') \<in> pairs F" "D s n = D s' n'"
    unfolding places_def by blast
  then show False
  proof cases
    case 1
    with apartD(1) [OF assms(2), of s n "me_ID e" "D s n"] assms(3) show False by blast
  next
    case 2
    with apartD(2) [OF assms(2), of s n s' n'] assms(3,4) show False by blast
  qed
qed

text \<open>The three ways a map changes: a new path, a version moved aside, a version put aside.\<close>

lemma inv_new:
  assumes "merge_inv D F m" and "m (name f) = None"
  shows "merge_inv D (insert (s, f) F) (m(name f \<mapsto> \<lparr>me_Entry = f, me_ID = s\<rparr>))"
proof -
  have "kept D (insert (s, f) F) (m(name f \<mapsto> \<lparr>me_Entry = f, me_ID = s\<rparr>)) s' g" if "(s', g) \<in> F" for s' g
  proof -
    from that assms(1) obtain k e where "m k = Some e" "be_Hash (me_Entry e) = be_Hash g"
      "k = name g \<or> (\<exists>s'. (s', name g) \<in> pairs F \<and> k = D s' (name g))"
      unfolding merge_inv_def kept_def by blast
    moreover from this assms(2) have "k \<noteq> name f" by auto
    ultimately show ?thesis unfolding kept_def by (intro exI [of _ k] exI [of _ e]) auto
  qed
  moreover have "kept D (insert (s, f) F) (m(name f \<mapsto> \<lparr>me_Entry = f, me_ID = s\<rparr>)) s f"
    unfolding kept_def by (intro exI [of _ "name f"]) simp
  moreover have "places D (insert (s, f) F) (m(name f \<mapsto> \<lparr>me_Entry = f, me_ID = s\<rparr>))"
    using assms(1) unfolding merge_inv_def places_def by auto
  ultimately show ?thesis unfolding merge_inv_def by blast
qed

lemma inv_same:
  assumes "merge_inv D F m" and "m (name f) = Some e" and "be_Hash f = be_Hash (me_Entry e)"
  shows "merge_inv D (insert (s, f) F) m"
proof -
  have "kept D (insert (s, f) F) m s f"
    unfolding kept_def using assms(2,3) by (intro exI [of _ "name f"] exI [of _ e]) simp
  with assms(1) kept_mono places_mono show ?thesis unfolding merge_inv_def by blast
qed

text \<open>Putting a version aside under a free renamed path.\<close>

lemma inv_aside:
  assumes inv: "merge_inv D F m" and free: "m (D s (name f)) = None"
    and e: "be_Hash (me_Entry e) = be_Hash f" "name (me_Entry e) = D s (name f)"
  shows "merge_inv D (insert (s, f) F) (m(D s (name f) \<mapsto> e))"
proof -
  let ?m = "m(D s (name f) \<mapsto> e)"
  have "kept D (insert (s, f) F) ?m s' g" if "(s', g) \<in> F" for s' g
  proof -
    from that inv obtain k e' where "m k = Some e'" "be_Hash (me_Entry e') = be_Hash g"
      "k = name g \<or> (\<exists>s'. (s', name g) \<in> pairs F \<and> k = D s' (name g))"
      unfolding merge_inv_def kept_def by blast
    moreover from this free have "k \<noteq> D s (name f)" by auto
    ultimately show ?thesis unfolding kept_def by (intro exI [of _ k] exI [of _ e']) auto
  qed
  moreover have "kept D (insert (s, f) F) ?m s f"
    unfolding kept_def using e by (intro exI [of _ "D s (name f)"] exI [of _ e]) auto
  moreover have "places D (insert (s, f) F) ?m"
    using inv e(2) by (intro places_upd places_mono) (auto simp: merge_inv_def)
  ultimately show ?thesis unfolding merge_inv_def by blast
qed

text \<open>Moving the version at a path aside and putting a newer one in its place.\<close>

lemma inv_move:
  assumes inv: "merge_inv D F m" and ap: "apart D U" and U: "insert (s, name f) (pairs F) \<subseteq> U"
    and fresh: "(s, name f) \<notin> pairs F" and ex: "m (name f) = Some x"
  shows "merge_inv D (insert (s, f) F)
    (m(D s (name f) \<mapsto> x\<lparr>me_Entry := (me_Entry x)\<lparr>be_NameWithPath := D s (name f)\<rparr>\<rparr>,
       name f \<mapsto> \<lparr>me_Entry = f, me_ID = s\<rparr>))"
    (is "merge_inv D _ ?m")
proof -
  from inv have pl: "places D F m" by (simp add: merge_inv_def)
  have free: "m (D s (name f)) = None" using pl ap U fresh by (rule renamed_free)
  from U have inU: "(s, name f) \<in> U" and FU: "pairs F \<subseteq> U" by auto
  have neq: "D s (name f) \<noteq> name f" by (rule apartD(1) [OF ap inU inU])
  have nopath: "name f \<noteq> D s' n" if "(s', n) \<in> pairs F" for s' n
    using apartD(1) [OF ap subsetD [OF FU that] inU] by simp
  have "kept D (insert (s, f) F) ?m s' g" if "(s', g) \<in> F" for s' g
  proof -
    from that inv obtain k e where k: "m k = Some e" "be_Hash (me_Entry e) = be_Hash g"
      "k = name g \<or> (\<exists>s'. (s', name g) \<in> pairs F \<and> k = D s' (name g))"
      unfolding merge_inv_def kept_def by blast
    show ?thesis
    proof (cases "k = name f")
      case True
      with k(3) nopath have "name g = name f" by metis
      with True k(1,2) ex neq show ?thesis
        unfolding kept_def by (intro exI [of _ "D s (name f)"]) auto
    next
      case False
      with k free show ?thesis unfolding kept_def by (intro exI [of _ k] exI [of _ e]) auto
    qed
  qed
  moreover have "kept D (insert (s, f) F) ?m s f"
    unfolding kept_def by (intro exI [of _ "name f"]) simp
  moreover have "places D (insert (s, f) F) ?m"
    using pl by (intro places_upd places_mono) auto
  ultimately show ?thesis unfolding merge_inv_def by blast
qed

context radix_tree
begin

lemma merge_file_keeps:
  assumes mode: "mode = EnableConflicts \<or> mode = EnableCheckpoints" and "ok t"
    and inv: "merge_inv (deconflicter mode) F (view t)" and ap: "apart (deconflicter mode) U"
    and U: "insert (s, name f) (pairs F) \<subseteq> U" and fresh: "(s, name f) \<notin> pairs F"
    and ts: "be_Timestamp f \<noteq> 0"
  shows "\<exists>t' n'. merge_file R mode t n s f = Merging t' n' \<and> ok t'
    \<and> merge_inv (deconflicter mode) (insert (s, f) F) (view t')"
proof (cases "view t (name f)")
  case None
  with inv_new [OF inv None, of s] assms(2) show ?thesis
    by (simp add: merge_file_def Let_def get insert)
next
  case (Some x)
  let ?D = "deconflicter mode"
  from inv have pl: "places ?D F (view t)" by (simp add: merge_inv_def)
  have x: "(me_ID x, name f) \<in> pairs F" "name (me_Entry x) = name f"
    using places_path [OF pl ap _ _ Some] U by auto
  then have other: "s \<noteq> me_ID x" using fresh by auto
  have free: "view t (?D s (name f)) = None" using pl ap U fresh by (rule renamed_free)
  show ?thesis
  proof (cases "be_Hash f = be_Hash (me_Entry x)")
    case True
    with inv_same [OF inv Some True] Some assms(2) show ?thesis
      by (simp add: merge_file_def Let_def get)
  next
    case False
    show ?thesis
    proof (cases "be_Timestamp f > be_Timestamp (me_Entry x)")
      case True
      with inv_move [OF inv ap U fresh Some] Some False ts other mode x assms(2) show ?thesis
        by (auto simp: merge_file_def Let_def get insert)
    next
      case False
      with inv_aside [OF inv free, of "\<lparr>me_Entry = f\<lparr>be_NameWithPath := ?D s (name f)\<rparr>, me_ID = s\<rparr>"]
        Some \<open>be_Hash f \<noteq> be_Hash (me_Entry x)\<close> ts other mode x assms(2) show ?thesis
        by (auto simp: merge_file_def Let_def get insert)
    qed
  qed
qed

lemma merge_loop_keeps:
  assumes mode: "mode = EnableConflicts \<or> mode = EnableCheckpoints" and ap: "apart (deconflicter mode) U"
  shows "\<lbrakk>ok t; merge_inv (deconflicter mode) F (view t); pairs (F \<union> set files) \<subseteq> U;
      distinct (map (\<lambda>(s, f). (s, name f)) files); pairs F \<inter> pairs (set files) = {};
      \<forall>(s, f) \<in> set files. be_Timestamp f \<noteq> 0\<rbrakk> \<Longrightarrow>
    \<exists>t' n'. merge_loop R mode t n files = Merging t' n' \<and> ok t'
      \<and> merge_inv (deconflicter mode) (F \<union> set files) (view t')"
proof (induction files arbitrary: t n F)
  case Nil
  then show ?case by simp
next
  case (Cons p files)
  obtain s f where p: "p = (s, f)" by (cases p)
  have fresh: "(s, name f) \<notin> pairs F" and U: "insert (s, name f) (pairs F) \<subseteq> U"
    using Cons.prems(3,5) p by (auto simp: pairs_def)
  from merge_file_keeps [OF mode Cons.prems(1,2) ap U fresh, of n] Cons.prems(6) p obtain t' n' where
    t': "merge_file R mode t n s f = Merging t' n'" "ok t'"
      "merge_inv (deconflicter mode) (insert (s, f) F) (view t')" by auto
  have "pairs (insert (s, f) F) \<inter> pairs (set files) = {}"
    using Cons.prems(4,5) p by (force simp: pairs_def)
  with Cons.IH [OF t'(2,3), of n'] Cons.prems p t'(1) show ?case by (auto simp: pairs_def)
qed

end

section \<open>Forbidden conflicts\<close>

text \<open>While no conflict has been met, the map holds each file seen under its path.\<close>

definition forbid_inv :: "(string \<times> BundleEntry) set \<Rightarrow> (string \<Rightarrow> mergeEntry option) \<Rightarrow> bool" where
  "forbid_inv F m \<longleftrightarrow> (\<forall>k e. m k = Some e \<longrightarrow> (me_ID e, k) \<in> pairs F)
     \<and> (\<forall>s f. (s, f) \<in> F \<longrightarrow> (\<exists>e. m (name f) = Some e \<and> be_Hash (me_Entry e) = be_Hash f))"

definition conflicting :: "(string \<times> BundleEntry) set \<Rightarrow> bool" where
  "conflicting F \<longleftrightarrow> (\<exists>s f s' f'. (s, f) \<in> F \<and> (s', f') \<in> F \<and> name f = name f' \<and> be_Hash f \<noteq> be_Hash f')"

lemma forbid_not_conflicting: "forbid_inv F m \<Longrightarrow> \<not> conflicting F"
  unfolding forbid_inv_def conflicting_def by (metis option.inject)

lemma forbid_step:
  assumes "forbid_inv F m"
    and "\<And>e. m (name f) = Some e \<Longrightarrow> be_Hash (me_Entry e) = be_Hash f"
  shows "forbid_inv (insert (s, f) F)
    (if m (name f) = None then m(name f \<mapsto> \<lparr>me_Entry = f, me_ID = s\<rparr>) else m)"
proof (cases "m (name f)")
  case None
  then have "name g \<noteq> name f" if "(s', g) \<in> F" for s' g
    using assms(1) that unfolding forbid_inv_def by force
  with None assms(1) show ?thesis unfolding forbid_inv_def by auto
next
  case (Some e)
  with assms show ?thesis unfolding forbid_inv_def by auto
qed

text \<open>A path whose files seen so far have another hash makes the upload conflicting.\<close>

lemma forbid_conflict:
  assumes "forbid_inv F m" and "m (name f) = Some e" and "be_Hash (me_Entry e) \<noteq> be_Hash f"
  shows "conflicting (insert (s, f) F)"
proof -
  from assms(1,2) have "(me_ID e, name f) \<in> pairs F" unfolding forbid_inv_def by blast
  then obtain g where g: "(me_ID e, g) \<in> F" "name g = name f" by (auto simp: pairs_def)
  from assms(1) g(1) have "\<exists>e'. m (name g) = Some e' \<and> be_Hash (me_Entry e') = be_Hash g"
    unfolding forbid_inv_def by blast
  with g(2) assms(2) have "be_Hash g = be_Hash (me_Entry e)" by simp
  with assms(3) have "be_Hash f \<noteq> be_Hash g" by simp
  then show ?thesis unfolding conflicting_def
    by (intro exI [of _ s] exI [of _ f] exI [of _ "me_ID e"] exI [of _ g]) (use g in simp)
qed

lemma conflicting_mono: "conflicting F \<Longrightarrow> F \<subseteq> G \<Longrightarrow> conflicting G"
  unfolding conflicting_def by blast

context radix_tree
begin

lemma merge_file_forbid:
  assumes "ok t" and inv: "forbid_inv F (view t)" and fresh: "(s, name f) \<notin> pairs F"
    and ts: "be_Timestamp f \<noteq> 0"
  shows "if conflicting (insert (s, f) F) then merge_file R ForbidConflicts t n s f = CommitGivenUp (name f)
    else \<exists>t'. merge_file R ForbidConflicts t n s f = Merging t' n \<and> ok t' \<and> forbid_inv (insert (s, f) F) (view t')"
proof (cases "view t (name f)")
  case None
  have new: "forbid_inv (insert (s, f) F) ((view t)(name f \<mapsto> \<lparr>me_Entry = f, me_ID = s\<rparr>))"
    using forbid_step [OF inv, of f s] None by simp
  with forbid_not_conflicting None assms(1) show ?thesis by (simp add: merge_file_def Let_def get insert)
next
  case (Some x)
  have other: "s \<noteq> me_ID x" using inv Some fresh unfolding forbid_inv_def by blast
  show ?thesis
  proof (cases "be_Hash (me_Entry x) = be_Hash f")
    case True
    have "forbid_inv (insert (s, f) F) (view t)" using forbid_step [OF inv, of f s] Some True by simp
    with forbid_not_conflicting Some True assms(1) show ?thesis by (simp add: merge_file_def Let_def get)
  next
    case False
    with forbid_conflict [OF inv Some False, of s] Some ts other show ?thesis
      by (auto simp: merge_file_def Let_def get)
  qed
qed

lemma merge_loop_forbid:
  "\<lbrakk>ok t; forbid_inv F (view t); distinct (map (\<lambda>(s, f). (s, name f)) files);
      pairs F \<inter> pairs (set files) = {}; \<forall>(s, f) \<in> set files. be_Timestamp f \<noteq> 0\<rbrakk> \<Longrightarrow>
    if conflicting (F \<union> set files) then \<exists>k. merge_loop R ForbidConflicts t n files = CommitGivenUp k
    else \<exists>t'. merge_loop R ForbidConflicts t n files = Merging t' n \<and> forbid_inv (F \<union> set files) (view t')"
proof (induction files arbitrary: t F)
  case Nil
  then show ?case using forbid_not_conflicting by simp
next
  case (Cons p files)
  obtain s f where p: "p = (s, f)" by (cases p)
  have fresh: "(s, name f) \<notin> pairs F" using Cons.prems(4) p by (auto simp: pairs_def)
  have ts: "be_Timestamp f \<noteq> 0" using Cons.prems(5) p by auto
  note step = merge_file_forbid [OF Cons.prems(1,2) fresh ts, of n]
  have un: "F \<union> set (p # files) = insert (s, f) F \<union> set files" using p by auto
  show ?case
  proof (cases "conflicting (insert (s, f) F)")
    case True
    with conflicting_mono [OF True, of "F \<union> set (p # files)"] step p un show ?thesis by auto
  next
    case False
    with step obtain t' where t': "merge_file R ForbidConflicts t n s f = Merging t' n" "ok t'"
      "forbid_inv (insert (s, f) F) (view t')" by auto
    have "pairs (insert (s, f) F) \<inter> pairs (set files) = {}"
      using Cons.prems(3,4) p by (force simp: pairs_def)
    with Cons.IH [OF t'(2,3)] Cons.prems(3,5) p t'(1) un show ?thesis by auto
  qed
qed

end

section \<open>The most recent version wins\<close>

definition newest :: "(string \<times> BundleEntry) set \<Rightarrow> string \<Rightarrow> mergeEntry \<Rightarrow> bool" where
  "newest F k e \<longleftrightarrow> (me_ID e, me_Entry e) \<in> F \<and> name (me_Entry e) = k
     \<and> (\<forall>s f. (s, f) \<in> F \<longrightarrow> name f = k \<longrightarrow> be_Timestamp f \<le> be_Timestamp (me_Entry e))"

definition latest_inv :: "(string \<Rightarrow> string \<Rightarrow> string) \<Rightarrow> (string \<times> BundleEntry) set \<Rightarrow>
    (string \<Rightarrow> mergeEntry option) \<Rightarrow> bool" where
  "latest_inv D F m \<longleftrightarrow> places D F m \<and> (\<forall>s f. (s, f) \<in> F \<longrightarrow> (\<exists>e. m (name f) = Some e \<and> newest F (name f) e))"

text \<open>Versions of a path with the same content were uploaded at the same time.\<close>

definition content_timed :: "(string \<times> BundleEntry) set \<Rightarrow> bool" where
  "content_timed F \<longleftrightarrow> (\<forall>s f s' f'. (s, f) \<in> F \<longrightarrow> (s', f') \<in> F \<longrightarrow> name f = name f' \<longrightarrow>
     be_Hash f = be_Hash f' \<longrightarrow> be_Timestamp f = be_Timestamp f')"

lemma newest_insert:
  "newest F k e \<Longrightarrow> name f = k \<Longrightarrow> be_Timestamp f \<le> be_Timestamp (me_Entry e) \<Longrightarrow> newest (insert (s, f) F) k e"
  by (auto simp: newest_def)

lemma newest_other: "newest F k e \<Longrightarrow> name f \<noteq> k \<Longrightarrow> newest (insert (s, f) F) k e"
  by (auto simp: newest_def)

lemma newest_new:
  assumes "\<And>s' f'. (s', f') \<in> F \<Longrightarrow> name f' = name f \<Longrightarrow> be_Timestamp f' \<le> be_Timestamp f"
  shows "newest (insert (s, f) F) (name f) \<lparr>me_Entry = f, me_ID = s\<rparr>"
  using assms by (auto simp: newest_def)

text \<open>
  Any step that leaves the other paths alone, puts a newest entry at the path of the file and places
  its entries well keeps the invariant.
\<close>

lemma latest_step:
  assumes inv: "latest_inv D F m" and "places D (insert (s, f) F) m'"
    and "\<And>g s'. (s', g) \<in> F \<Longrightarrow> name g \<noteq> name f \<Longrightarrow> m' (name g) = m (name g)"
    and e: "m' (name f) = Some e" "newest (insert (s, f) F) (name f) e"
  shows "latest_inv D (insert (s, f) F) m'"
proof -
  have "\<exists>e. m' (name g) = Some e \<and> newest (insert (s, f) F) (name g) e" if "(s', g) \<in> insert (s, f) F" for s' g
  proof (cases "name g = name f")
    case True
    with e show ?thesis by auto
  next
    case False
    with that have g: "(s', g) \<in> F" by auto
    with inv obtain e' where "m (name g) = Some e'" "newest F (name g) e'"
      unfolding latest_inv_def by blast
    with assms(3) [OF g False] newest_other [of F "name g" e' f s] False show ?thesis by auto
  qed
  with assms(2) show ?thesis unfolding latest_inv_def by blast
qed

context radix_tree
begin

lemma merge_file_latest:
  assumes mode: "mode \<in> {IgnoreConflicts, EnableConflicts, EnableCheckpoints}" and "ok t"
    and inv: "latest_inv (deconflicter mode) F (view t)" and ap: "apart (deconflicter mode) U"
    and U: "insert (s, name f) (pairs F) \<subseteq> U" and fresh: "(s, name f) \<notin> pairs F"
    and ts: "be_Timestamp f \<noteq> 0" and timed: "content_timed (insert (s, f) F)"
  shows "\<exists>t' n'. merge_file R mode t n s f = Merging t' n' \<and> ok t'
    \<and> latest_inv (deconflicter mode) (insert (s, f) F) (view t')"
proof -
  let ?D = "deconflicter mode" and ?new = "\<lparr>me_Entry = f, me_ID = s\<rparr>"
  from inv have pl: "places ?D F (view t)" by (simp add: latest_inv_def)
  note pl' = places_mono [OF pl, of "(s, f)"]
  from U have inU: "(s, name f) \<in> U" and FU: "pairs F \<subseteq> U" by auto
  have dn: "name g \<noteq> ?D s (name f)" if "(s', g) \<in> insert (s, f) F" for s' g
    using that apartD(1) [OF ap inU, of s' "name g"] inU FU by (auto simp: pairs_def)
  then have dnF: "(s', g) \<in> F \<Longrightarrow> name g = ?D s (name f) \<Longrightarrow> False" for s' g by blast
  show ?thesis
  proof (cases "view t (name f)")
    case None
    have "be_Timestamp g \<le> be_Timestamp f" if "(s', g) \<in> F" "name g = name f" for s' g
      using inv that None unfolding latest_inv_def by force
    then have "newest (insert (s, f) F) (name f) ?new" by (rule newest_new)
    then have "latest_inv ?D (insert (s, f) F) ((view t)(name f \<mapsto> ?new))"
      by (intro latest_step [OF inv] places_upd [OF pl']) auto
    with None assms(2) show ?thesis by (simp add: merge_file_def Let_def get insert)
  next
    case (Some x)
    have x: "(me_ID x, name f) \<in> pairs F" "name (me_Entry x) = name f"
      using places_path [OF pl ap FU inU Some] by auto
    then have other: "s \<noteq> me_ID x" using fresh by auto
    from x(1) obtain g where "(me_ID x, g) \<in> F" "name g = name f" by (auto simp: pairs_def)
    with inv Some have nx: "newest F (name f) x" unfolding latest_inv_def by fastforce
    show ?thesis
    proof (cases "be_Hash f = be_Hash (me_Entry x)")
      case True
      with timed nx x(2) have "be_Timestamp f \<le> be_Timestamp (me_Entry x)"
        unfolding content_timed_def newest_def by (metis insertI1 insertI2 order_refl)
      then have "latest_inv ?D (insert (s, f) F) (view t)"
        using Some newest_insert [OF nx] by (intro latest_step [OF inv pl' _ Some]) auto
      with Some True assms(2) show ?thesis by (simp add: merge_file_def Let_def get)
    next
      case False
      show ?thesis
      proof (cases "be_Timestamp f > be_Timestamp (me_Entry x)")
        case True
        have nn: "newest (insert (s, f) F) (name f) ?new"
          using nx True by (intro newest_new) (force simp: newest_def)
        let ?mv = "x\<lparr>me_Entry := (me_Entry x)\<lparr>be_NameWithPath := ?D s (name f)\<rparr>\<rparr>"
        have "places ?D (insert (s, f) F) ((view t)(?D s (name f) \<mapsto> ?mv, name f \<mapsto> ?new))"
          "places ?D (insert (s, f) F) ((view t)(name f \<mapsto> ?new))"
          by (intro places_upd pl'; auto)+
        with nn dn [of s f] have
          "latest_inv ?D (insert (s, f) F) ((view t)(?D s (name f) \<mapsto> ?mv, name f \<mapsto> ?new))"
          "latest_inv ?D (insert (s, f) F) ((view t)(name f \<mapsto> ?new))"
          by (auto intro!: latest_step [OF inv] dest: dnF)
        with True Some \<open>be_Hash f \<noteq> _\<close> ts other mode x(2) assms(2) show ?thesis
          by (auto simp: merge_file_def Let_def get insert)
      next
        case False
        let ?as = "\<lparr>me_Entry = f\<lparr>be_NameWithPath := ?D s (name f)\<rparr>, me_ID = s\<rparr>"
        have ni: "newest (insert (s, f) F) (name f) x" using nx False by (intro newest_insert) auto
        have "places ?D (insert (s, f) F) ((view t)(?D s (name f) \<mapsto> ?as))"
          by (intro places_upd pl') auto
        with ni dn [of s f] Some have "latest_inv ?D (insert (s, f) F) ((view t)(?D s (name f) \<mapsto> ?as))"
          by (auto intro!: latest_step [OF inv] dest: dnF)
        moreover have "latest_inv ?D (insert (s, f) F) (view t)"
          using ni by (intro latest_step [OF inv pl' _ Some]) auto
        ultimately show ?thesis
          using False Some \<open>be_Hash f \<noteq> _\<close> ts other mode x(2) assms(2)
          by (auto simp: merge_file_def Let_def get insert)
      qed
    qed
  qed
qed

end

lemma content_timed_subset: "content_timed G \<Longrightarrow> F \<subseteq> G \<Longrightarrow> content_timed F"
  unfolding content_timed_def by blast

context radix_tree
begin

lemma merge_loop_latest:
  assumes mode: "mode \<in> {IgnoreConflicts, EnableConflicts, EnableCheckpoints}"
    and ap: "apart (deconflicter mode) U"
  shows "\<lbrakk>ok t; latest_inv (deconflicter mode) F (view t); pairs (F \<union> set files) \<subseteq> U;
      distinct (map (\<lambda>(s, f). (s, name f)) files); pairs F \<inter> pairs (set files) = {};
      \<forall>(s, f) \<in> set files. be_Timestamp f \<noteq> 0; content_timed (F \<union> set files)\<rbrakk> \<Longrightarrow>
    \<exists>t' n'. merge_loop R mode t n files = Merging t' n' \<and> ok t'
      \<and> latest_inv (deconflicter mode) (F \<union> set files) (view t')"
proof (induction files arbitrary: t n F)
  case Nil
  then show ?case by simp
next
  case (Cons p files)
  obtain s f where p: "p = (s, f)" by (cases p)
  have fresh: "(s, name f) \<notin> pairs F" and U: "insert (s, name f) (pairs F) \<subseteq> U"
    using Cons.prems(3,5) p by (auto simp: pairs_def)
  have un: "F \<union> set (p # files) = insert (s, f) F \<union> set files" using p by auto
  have "content_timed (insert (s, f) F)"
    using Cons.prems(7) p by (rule_tac content_timed_subset) auto
  from merge_file_latest [OF mode Cons.prems(1,2) ap U fresh _ this, of n] Cons.prems(6) p
  obtain t' n' where t': "merge_file R mode t n s f = Merging t' n'" "ok t'"
      "latest_inv (deconflicter mode) (insert (s, f) F) (view t')" by auto
  have "pairs (insert (s, f) F) \<inter> pairs (set files) = {}"
    using Cons.prems(4,5) p by (force simp: pairs_def)
  with Cons.IH [OF t'(2,3), of n'] Cons.prems p t'(1) un show ?case by auto
qed

end

section \<open>Uploads with clean paths\<close>

text \<open>
  What the uploads of splits look like: split identifiers are plain path components, the paths of
  files are relative and clean and do not lie in a generated directory, each split has at most one
  entry per path, and every entry has its upload time.
\<close>

definition clean_path :: "string \<Rightarrow> bool" where
  "clean_path n \<longleftrightarrow> list_all plain_comp (comps n) \<and> join_slash (comps n) = n \<and> \<not> IsGeneratedFile n"

definition clean_upload :: "(string \<times> BundleEntry) list \<Rightarrow> bool" where
  "clean_upload files \<longleftrightarrow> distinct (map (\<lambda>(s, f). (s, name f)) files)
     \<and> list_all (\<lambda>(s, f). plain_comp s \<and> clean_path (name f) \<and> be_Timestamp f \<noteq> 0) files"

lemma comps_neq_Nil: "comps n \<noteq> []"
  by (subst comps.simps) (simp split: list.split)

lemma deconflicter_path:
  assumes "plain_comp s" and "clean_path n"
  shows "deconflicter mode s n = (if mode = EnableCheckpoints then ''.checkpoints'' else ''.conflicts'') @ ''/'' @ s @ ''/'' @ n"
proof -
  have j: "list_all plain_comp (comps n)" "join_slash (comps n) = n" using assms(2) by (auto simp: clean_path_def)
  note p = deconflict_path [OF _ assms(1) comps_neq_Nil j(1), unfolded j(2)]
  show ?thesis
    by (cases mode) (simp_all add: GenerateConflictPath_def GenerateCheckpointPath_def p)
qed

lemma deconflicter_generated:
  assumes "plain_comp s" and "clean_path n"
  shows "IsGeneratedFile (deconflicter mode s n)"
  unfolding deconflicter_path [OF assms] using generated_conflicts generated_checkpoints by simp

lemma clean_apart:
  assumes "clean_upload files"
  shows "apart (deconflicter mode) (pairs (set files))"
proof -
  have ok: "plain_comp s \<and> clean_path n" if "(s, n) \<in> pairs (set files)" for s n
    using that assms by (auto simp: pairs_def clean_upload_def list_all_iff)
  have "deconflicter mode s n \<noteq> n' \<and> (deconflicter mode s n = deconflicter mode s' n' \<longrightarrow> s = s' \<and> n = n')"
    if "(s, n) \<in> pairs (set files)" "(s', n') \<in> pairs (set files)" for s n s' n'
  proof -
    note a = ok [OF that(1)] and b = ok [OF that(2)]
    have j: "list_all plain_comp (comps n)" "join_slash (comps n) = n" "list_all plain_comp (comps n')"
      "join_slash (comps n') = n'" using a b by (auto simp: clean_path_def)
    have "s @ ''/'' @ n = s' @ ''/'' @ n' \<longleftrightarrow> s = s' \<and> comps n = comps n'"
      using split_path_inj [OF conjunct1 [OF a] comps_neq_Nil j(1) conjunct1 [OF b] comps_neq_Nil j(3)]
      by (simp only: j(2,4))
    moreover have "comps n = comps n' \<Longrightarrow> n = n'" using j by metis
    moreover have "deconflicter mode s n = deconflicter mode s' n' \<longleftrightarrow> s @ ''/'' @ n = s' @ ''/'' @ n'"
      using a b by (simp add: deconflicter_path)
    moreover have "deconflicter mode s n \<noteq> n'"
      using deconflicter_generated [of s n mode] a b by (auto simp: clean_path_def)
    ultimately show ?thesis by blast
  qed
  then show ?thesis unfolding apart_def by blast
qed

lemma clean_upload_times: "clean_upload files \<Longrightarrow> \<forall>(s, f) \<in> set files. be_Timestamp f \<noteq> 0"
  by (auto simp: clean_upload_def list_all_iff)

text \<open>
  An entry with the hash of the file, at the path of the file or renamed under a split that uploaded it.
\<close>

definition version_kept :: "ConflictMode \<Rightarrow> (string \<times> BundleEntry) list \<Rightarrow> filePacked list \<Rightarrow> BundleEntry \<Rightarrow> bool" where
  "version_kept mode files out f \<longleftrightarrow> (\<exists>p \<in> set out. fp_hash p = be_Hash f
      \<and> (fp_name p = be_NameWithPath f \<or>
         (\<exists>s' f'. (s', f') \<in> set files \<and> be_NameWithPath f' = be_NameWithPath f
            \<and> fp_name p = deconflicter mode s' (be_NameWithPath f))))"

lemma places_card:
  assumes "places D (set files) m"
  shows "card (dom m) \<le> 2 * length files"
proof -
  let ?P = "(\<lambda>(s, f). (s, name f)) ` set files"
  have "dom m \<subseteq> snd ` ?P \<union> (\<lambda>(s, n). D s n) ` ?P"
  proof
    fix k
    assume "k \<in> dom m"
    then obtain e where "m k = Some e" by blast
    with assms have "(me_ID e, k) \<in> ?P \<or> (\<exists>s n. (s, n) \<in> ?P \<and> k = D s n)"
      unfolding places_def pairs_def by blast
    then show "k \<in> snd ` ?P \<union> (\<lambda>(s, n). D s n) ` ?P" by force
  qed
  then have "card (dom m) \<le> card (snd ` ?P \<union> (\<lambda>(s, n). D s n) ` ?P)" by (intro card_mono) auto
  also have "\<dots> \<le> card (snd ` ?P) + card ((\<lambda>(s, n). D s n) ` ?P)" by (rule card_Un_le)
  also have "\<dots> \<le> card ?P + card ?P" by (intro add_mono card_image_le) auto
  also have "card ?P \<le> length files" using card_image_le [of "set files"] card_length [of files] by (meson List.finite_set le_trans)
  finally show ?thesis by simp
qed

context radix_tree
begin

lemma merge_splits_keeps:
  assumes "mode \<in> {EnableConflicts, EnableCheckpoints}" and "clean_upload files"
  shows "\<exists>t n. merge_splits R mode files = Merging t n \<and> length (merged_output R t) \<le> 2 * length files
    \<and> (\<forall>(s, f) \<in> set files. version_kept mode files (merged_output R t) f)"
proof -
  let ?D = "deconflicter mode"
  note ap = clean_apart [OF assms(2), of mode]
  have inv: "merge_inv ?D {} (view (rx_New R))"
    by (simp add: new merge_inv_def places_def)
  obtain t n where t: "merge_splits R mode files = Merging t n" "ok t" "merge_inv ?D (set files) (view t)"
    using merge_loop_keeps [OF _ ap new(2) inv, of files 0] assms clean_upload_times [OF assms(2)]
    by (auto simp: merge_splits_def clean_upload_def pairs_def)
  have "version_kept mode files (merged_output R t) f" if f: "(s, f) \<in> set files" for s f
  proof -
    from t(3) f obtain k e where k: "view t k = Some e" "be_Hash (me_Entry e) = be_Hash f"
      "k = name f \<or> (\<exists>s'. (s', name f) \<in> pairs (set files) \<and> k = ?D s' (name f))"
      unfolding merge_inv_def kept_def by blast
    from t(3) k(1) have nm: "name (me_Entry e) = k" unfolding merge_inv_def places_def by blast
    from k(1) have "e \<in> set (rx_Iterate R t)"
      using iterate [OF t(2)] by (auto simp: ran_def)
    then have "mergeEntryToFilePacked e \<in> set (merged_output R t)" by (simp add: merged_output_def)
    moreover have "fp_hash (mergeEntryToFilePacked e) = be_Hash f" "fp_name (mergeEntryToFilePacked e) = k"
      using k(2) nm by (simp_all add: mergeEntryToFilePacked_def)
    moreover from k(3) have "k = name f \<or> (\<exists>s' f'. (s', f') \<in> set files \<and> name f' = name f \<and> k = ?D s' (name f))"
      unfolding pairs_def by (auto 0 3 intro: sym)
    ultimately show ?thesis unfolding version_kept_def by blast
  qed
  moreover have "length (merged_output R t) \<le> 2 * length files"
    using places_card [of ?D files "view t"] t(3) iterate_once [OF t(2)] by (simp add: merge_inv_def merged_output_def)
  ultimately show ?thesis using t(1) by blast
qed

end

section \<open>Properties of the merge\<close>

text \<open>
  C25: in the modes that keep conflicting versions, a commit loses no version of any file, whatever
  the order in which the file lists of the splits arrive: the merge ends, and for every file of every
  split the bundle gets an entry with its hash, at the file's path or in the directory of generated
  conflicts or checkpoints, under a split that uploaded this path.
\<close>

theorem merge_keeps_versions:
  assumes "radix_tree R view ok" and "mode \<in> {EnableConflicts, EnableCheckpoints}"
    and "clean_upload files"
  shows "\<exists>t n. merge_splits R mode files = Merging t n \<and>
    (\<forall>(s, f) \<in> set files. \<exists>p \<in> set (merged_output R t). fp_hash p = be_Hash f
      \<and> (fp_name p = be_NameWithPath f \<or>
         (\<exists>s' f'. (s', f') \<in> set files \<and> be_NameWithPath f' = be_NameWithPath f
            \<and> fp_name p = deconflicter mode s' (be_NameWithPath f))))"
proof -
  from radix_tree.merge_splits_keeps [OF assms] show ?thesis unfolding version_kept_def by blast
qed

definition entry :: "string \<Rightarrow> string \<Rightarrow> go_time \<Rightarrow> BundleEntry" where
  "entry n h time = \<lparr>be_Hash = h, be_NameWithPath = n, be_FileMode = 0, be_Size = 0, be_Timestamp = time\<rparr>"

lemma clean_entry: "clean_upload [(''A'', entry ''f'' ''1'' 1), (''B'', entry ''f'' ''2'' 2)]"
proof -
  have "comps ''f'' = [''f'']" by (rule comps_last) simp
  then have "clean_path ''f''"
    by (simp add: clean_path_def plain_comp_def IsGeneratedFile_def opt_dot_slash_def starts_with_def)
  then show ?thesis by (simp add: clean_upload_def entry_def plain_comp_def)
qed

theorem merge_keeps_versions_witness:
  "\<exists>t n. merge_splits assoc_radix EnableConflicts
      [(''A'', entry ''f'' ''1'' 1), (''B'', entry ''f'' ''2'' 2)] = Merging t n
    \<and> (\<exists>p \<in> set (merged_output assoc_radix t). fp_hash p = ''1'')"
  using merge_keeps_versions [OF assoc.radix_tree_axioms _ clean_entry, of EnableConflicts]
  by (force simp: entry_def)

text \<open>
  C33: outside the mode that forbids conflicts, the entry that a commit leaves at a path is one of
  the uploaded ones and none of them is more recent, whatever the order of arrival, provided that
  equal versions of the path were uploaded at the same time.
\<close>

theorem merge_latest_wins:
  assumes "radix_tree R view ok" and "mode \<in> {IgnoreConflicts, EnableConflicts, EnableCheckpoints}"
    and "clean_upload files" and "content_timed (set files)"
  shows "\<exists>t n. merge_splits R mode files = Merging t n \<and>
    (\<forall>(s, f) \<in> set files. \<exists>e. rx_Get R t (be_NameWithPath f) = Some e
      \<and> (me_ID e, me_Entry e) \<in> set files \<and> be_NameWithPath (me_Entry e) = be_NameWithPath f
      \<and> be_Timestamp f \<le> be_Timestamp (me_Entry e))"
proof -
  let ?D = "deconflicter mode"
  note ap = clean_apart [OF assms(3), of mode]
  have inv: "latest_inv ?D {} (view (rx_New R))"
    by (simp add: radix_tree.new [OF assms(1)] latest_inv_def places_def)
  obtain t n where t: "merge_splits R mode files = Merging t n" "latest_inv ?D (set files) (view t)"
    using radix_tree.merge_loop_latest [OF assms(1,2) ap radix_tree.new(2) [OF assms(1)] inv, of files 0]
      assms(3,4) clean_upload_times [OF assms(3)]
    by (auto simp: merge_splits_def clean_upload_def pairs_def)
  then have "\<forall>(s, f) \<in> set files. \<exists>e. rx_Get R t (name f) = Some e \<and> newest (set files) (name f) e"
    unfolding latest_inv_def radix_tree.get [OF assms(1)] by blast
  with t(1) show ?thesis unfolding newest_def by fastforce
qed

theorem merge_latest_wins_witness:
  "\<exists>t n e. merge_splits assoc_radix IgnoreConflicts
      [(''A'', entry ''f'' ''1'' 1), (''B'', entry ''f'' ''2'' 2)] = Merging t n
    \<and> rx_Get assoc_radix t ''f'' = Some e \<and> 2 \<le> be_Timestamp (me_Entry e)"
proof -
  have "content_timed (set [(''A'', entry ''f'' ''1'' 1), (''B'', entry ''f'' ''2'' 2)])"
    by (auto simp: content_timed_def entry_def)
  from merge_latest_wins [OF assoc.radix_tree_axioms _ clean_entry this, of IgnoreConflicts]
  show ?thesis by (force simp: entry_def)
qed

text \<open>
  Without that proviso the result depends on the order of arrival. A file uploaded at time one,
  changed by another split at time two and changed back by a third one at time three: when the third
  list arrives before the second, its entry is dropped as a duplicate of the first without its time
  being recorded, and the commit keeps the version of time two instead of the most recent one.
\<close>

theorem merge_order_dependent:
  "let A = (''A'', entry ''f'' ''1'' 1); B = (''B'', entry ''f'' ''2'' 2); C = (''C'', entry ''f'' ''1'' 3)
   in merge_splits assoc_radix IgnoreConflicts [A, B, C] =
        Merging [(''f'', \<lparr>me_Entry = entry ''f'' ''1'' 3, me_ID = ''C''\<rparr>)] 0
    \<and> merge_splits assoc_radix IgnoreConflicts [A, C, B] =
        Merging [(''f'', \<lparr>me_Entry = entry ''f'' ''2'' 2, me_ID = ''B''\<rparr>)] 0"
  by (simp add: merge_splits_def merge_file_def assoc_radix_def entry_def Let_def)

text \<open>
  A diamond that forbids conflicts is committed exactly when no path was uploaded with two
  different contents; otherwise the merge gives up, whatever the order of arrival.
\<close>

theorem merge_forbid_exact:
  assumes "radix_tree R view ok" and "clean_upload files"
  shows "if \<exists>s f s' f'. (s, f) \<in> set files \<and> (s', f') \<in> set files
        \<and> be_NameWithPath f = be_NameWithPath f' \<and> be_Hash f \<noteq> be_Hash f'
    then \<exists>k. merge_splits R ForbidConflicts files = CommitGivenUp k
    else \<exists>t. merge_splits R ForbidConflicts files = Merging t 0"
proof -
  have "forbid_inv {} (view (rx_New R))" by (simp add: forbid_inv_def radix_tree.new [OF assms(1)])
  from radix_tree.merge_loop_forbid [OF assms(1) radix_tree.new(2) [OF assms(1)] this, of files 0]
    assms(2) clean_upload_times [OF assms(2)]
  have "if conflicting (set files) then \<exists>k. merge_splits R ForbidConflicts files = CommitGivenUp k
      else \<exists>t. merge_splits R ForbidConflicts files = Merging t 0"
    by (auto simp: merge_splits_def clean_upload_def pairs_def split: if_splits)
  then show ?thesis unfolding conflicting_def .
qed

theorem merge_forbid_exact_witness:
  "\<exists>k. merge_splits assoc_radix ForbidConflicts
      [(''A'', entry ''f'' ''1'' 1), (''B'', entry ''f'' ''2'' 2)] = CommitGivenUp k"
proof -
  let ?fs = "[(''A'', entry ''f'' ''1'' 1), (''B'', entry ''f'' ''2'' 2)]"
  have "\<exists>s f s' f'. (s, f) \<in> set ?fs \<and> (s', f') \<in> set ?fs
      \<and> be_NameWithPath f = be_NameWithPath f' \<and> be_Hash f \<noteq> be_Hash f'"
    by (intro exI [of _ "''A''"] exI [of _ "entry ''f'' ''1'' 1"] exI [of _ "''B''"]
        exI [of _ "entry ''f'' ''2'' 2"]) (simp add: entry_def)
  with merge_forbid_exact [OF assoc.radix_tree_axioms clean_entry] show ?thesis by presburger
qed

end
