(* ===== verification/Codec.thy ===== *)
theory Codec
  imports ModelDescriptors
begin

text \<open>
  Serialization of metadata. The YAML package is a parameter of the model: a pair of functions, of
  which the properties use only that what was marshalled is unmarshalled to itself. A small binary
  serializer shows that this can be met for the descriptors of the model.
\<close>

section \<open>The parameter\<close>

record 'a codec =
  cd_Marshal :: "'a \<Rightarrow> (string, bytes) res"
  cd_Unmarshal :: "bytes \<Rightarrow> (string, 'a) res"

definition codec_ok :: "'a codec \<Rightarrow> bool" where
  "codec_ok c \<longleftrightarrow> (\<forall>x. \<exists>b. cd_Marshal c x = Inr b \<and> cd_Unmarshal c b = Inr x)"

lemma codec_okD: "codec_ok c \<Longrightarrow> \<exists>b. cd_Marshal c x = Inr b \<and> cd_Unmarshal c b = Inr x"
  by (simp add: codec_ok_def)

section \<open>A serializer\<close>

text \<open>A serializer writes a value in front of the rest and reads it back, with the rest.\<close>

type_synonym 'a ser = "('a \<Rightarrow> bytes) \<times> (bytes \<Rightarrow> 'a \<times> bytes)"

definition ser_ok :: "'a ser \<Rightarrow> bool" where
  "ser_ok s \<longleftrightarrow> (\<forall>x r. snd s (fst s x @ r) = (x, r))"

lemma ser_okD: "ser_ok s \<Longrightarrow> snd s (fst s x @ r) = (x, r)"
  by (simp add: ser_ok_def)

definition ser_codec :: "'a ser \<Rightarrow> 'a codec" where
  "ser_codec s = \<lparr>cd_Marshal = (\<lambda>x. Inr (fst s x)), cd_Unmarshal = (\<lambda>b. Inr (fst (snd s b)))\<rparr>"

lemma ser_codec_ok: "ser_ok s \<Longrightarrow> codec_ok (ser_codec s)"
  using ser_okD [of s _ "[]"] by (simp add: codec_ok_def ser_codec_def)

definition nat_ser :: "nat ser" where
  "nat_ser = (\<lambda>n. replicate n 1 @ [0], \<lambda>b. (length (takeWhile (\<lambda>x. x = 1) b), drop 1 (dropWhile (\<lambda>x. x = 1) b)))"

lemma nat_ser_ok: "ser_ok nat_ser"
proof -
  have "takeWhile (\<lambda>x. x = 1) (replicate n 1 @ (0 :: byte) # r) = replicate n 1"
    "dropWhile (\<lambda>x. x = 1) (replicate n 1 @ (0 :: byte) # r) = 0 # r" for n r
    by (induction n) auto
  then show ?thesis by (simp add: ser_ok_def nat_ser_def)
qed

definition map_ser :: "('a \<Rightarrow> 'b) \<Rightarrow> ('b \<Rightarrow> 'a) \<Rightarrow> 'b ser \<Rightarrow> 'a ser" where
  "map_ser f g s = (\<lambda>x. fst s (f x), \<lambda>b. case snd s b of (y, r) \<Rightarrow> (g y, r))"

lemma map_ser_ok: "ser_ok s \<Longrightarrow> (\<And>x. g (f x) = x) \<Longrightarrow> ser_ok (map_ser f g s)"
  by (simp add: ser_ok_def map_ser_def)

definition prod_ser :: "'a ser \<Rightarrow> 'b ser \<Rightarrow> ('a \<times> 'b) ser" where
  "prod_ser s t = (\<lambda>(x, y). fst s x @ fst t y,
     \<lambda>b. case snd s b of (x, b') \<Rightarrow> case snd t b' of (y, r) \<Rightarrow> ((x, y), r))"

lemma prod_ser_ok: "ser_ok s \<Longrightarrow> ser_ok t \<Longrightarrow> ser_ok (prod_ser s t)"
  by (simp add: ser_ok_def prod_ser_def)

fun read_many :: "(bytes \<Rightarrow> 'a \<times> bytes) \<Rightarrow> nat \<Rightarrow> bytes \<Rightarrow> 'a list \<times> bytes" where
  "read_many d 0 b = ([], b)"
| "read_many d (Suc n) b = (case d b of (x, b') \<Rightarrow> case read_many d n b' of (xs, r) \<Rightarrow> (x # xs, r))"

definition list_ser :: "'a ser \<Rightarrow> 'a list ser" where
  "list_ser s = (\<lambda>xs. fst nat_ser (length xs) @ concat (map (fst s) xs),
     \<lambda>b. case snd nat_ser b of (n, b') \<Rightarrow> read_many (snd s) n b')"

lemma read_many_concat:
  "ser_ok s \<Longrightarrow> read_many (snd s) (length xs) (concat (map (fst s) xs) @ r) = (xs, r)"
  by (induction xs) (simp_all add: ser_okD)

lemma list_ser_ok: "ser_ok s \<Longrightarrow> ser_ok (list_ser s)"
  by (simp add: ser_ok_def list_ser_def ser_okD [OF nat_ser_ok] read_many_concat [unfolded ser_ok_def])

definition string_ser :: "string ser" where
  "string_ser = list_ser (map_ser of_char char_of nat_ser)"

lemma string_ser_ok: "ser_ok string_ser"
  unfolding string_ser_def by (intro list_ser_ok map_ser_ok nat_ser_ok) simp

definition entry_ser :: "BundleEntry ser" where
  "entry_ser = map_ser
     (\<lambda>e. (be_Hash e, be_NameWithPath e, be_FileMode e, be_Size e, be_Timestamp e))
     (\<lambda>(h, n, m, z, t). \<lparr>be_Hash = h, be_NameWithPath = n, be_FileMode = m, be_Size = z, be_Timestamp = t\<rparr>)
     (prod_ser string_ser (prod_ser string_ser (prod_ser nat_ser (prod_ser nat_ser nat_ser))))"

definition entries_codec :: "BundleEntry list codec" where
  "entries_codec = ser_codec (list_ser entry_ser)"

lemma entries_codec_ok: "codec_ok entries_codec"
  unfolding entries_codec_def entry_ser_def
  by (intro ser_codec_ok list_ser_ok map_ser_ok prod_ser_ok nat_ser_ok string_ser_ok) simp


section \<open>Serializers for the other descriptors\<close>

definition contributors_ser :: "Contributor list ser" where
  "contributors_ser = list_ser (map_ser (\<lambda>c. (c_Name c, c_Email c)) (\<lambda>(n, e). \<lparr>c_Name = n, c_Email = e\<rparr>)
     (prod_ser string_ser string_ser))"

definition bundle_ser :: "BundleDescriptor ser" where
  "bundle_ser = map_ser
     (\<lambda>b. ((bd_LeafSize b, bd_Timestamp b, bd_BundleEntriesFileCount b, bd_Version b),
       (bd_ID b, bd_Message b, bd_Deduplication b, bd_RunStage b), bd_Parents b, bd_Contributors b))
     (\<lambda>((l, t, n, v), (i, m, d, r), p, c). \<lparr>bd_LeafSize = l, bd_ID = i, bd_Message = m, bd_Parents = p,
       bd_Timestamp = t, bd_Contributors = c, bd_BundleEntriesFileCount = n, bd_Version = v,
       bd_Deduplication = d, bd_RunStage = r\<rparr>)
     (prod_ser (prod_ser nat_ser (prod_ser nat_ser (prod_ser nat_ser nat_ser)))
       (prod_ser (prod_ser string_ser (prod_ser string_ser (prod_ser string_ser string_ser)))
         (prod_ser (list_ser string_ser) contributors_ser)))"

lemma contributors_ser_ok: "ser_ok contributors_ser"
  unfolding contributors_ser_def by (intro list_ser_ok map_ser_ok prod_ser_ok string_ser_ok) simp

lemma bundle_ser_ok: "ser_ok bundle_ser"
  unfolding bundle_ser_def
  by (intro map_ser_ok prod_ser_ok nat_ser_ok string_ser_ok list_ser_ok contributors_ser_ok) simp

definition label_ser :: "LabelDescriptor ser" where
  "label_ser = map_ser (\<lambda>l. (ld_Name l, ld_BundleID l, ld_Timestamp l, ld_Contributors l))
     (\<lambda>(n, b, t, c). \<lparr>ld_Name = n, ld_BundleID = b, ld_Timestamp = t, ld_Contributors = c\<rparr>)
     (prod_ser string_ser (prod_ser string_ser (prod_ser nat_ser contributors_ser)))"

lemma label_ser_ok: "ser_ok label_ser"
  unfolding label_ser_def
  by (intro map_ser_ok prod_ser_ok nat_ser_ok string_ser_ok contributors_ser_ok) simp

definition repo_ser :: "RepoDescriptor ser" where
  "repo_ser = map_ser (\<lambda>r. (rd_Name r, rd_Description r, rd_Timestamp r, c_Name (rd_Contributor r), c_Email (rd_Contributor r)))
     (\<lambda>(n, d, t, cn, ce). \<lparr>rd_Name = n, rd_Description = d, rd_Timestamp = t,
       rd_Contributor = \<lparr>c_Name = cn, c_Email = ce\<rparr>\<rparr>)
     (prod_ser string_ser (prod_ser string_ser (prod_ser nat_ser (prod_ser string_ser string_ser))))"

lemma repo_ser_ok: "ser_ok repo_ser"
  unfolding repo_ser_def by (intro map_ser_ok prod_ser_ok nat_ser_ok string_ser_ok) simp


text \<open>An enumeration is written as a tag and a string.\<close>

definition split_ser :: "SplitDescriptor ser" where
  "split_ser = map_ser
     (\<lambda>s. ((sd_StartTime s, sd_EndTime s, sd_SplitEntriesFileCount s), (sd_SplitID s, sd_GenerationID s, sd_Tag s),
        (case sd_State s of SplitDone \<Rightarrow> (0, '''') | SplitRunning \<Rightarrow> (1, '''') | SplitOther x \<Rightarrow> (2, x)),
        sd_Contributors s))
     (\<lambda>((st, en, n), (i, g, t), (k, x), c). \<lparr>sd_SplitID = i, sd_StartTime = st, sd_EndTime = en,
        sd_State = (if k = 0 then SplitDone else if k = 1 then SplitRunning else SplitOther x),
        sd_Contributors = c, sd_GenerationID = g, sd_SplitEntriesFileCount = n, sd_Tag = t\<rparr>)
     (prod_ser (prod_ser nat_ser (prod_ser nat_ser nat_ser))
       (prod_ser (prod_ser string_ser (prod_ser string_ser string_ser))
         (prod_ser (prod_ser nat_ser string_ser) contributors_ser)))"

lemma split_ser_ok: "ser_ok split_ser"
  unfolding split_ser_def
  by (intro map_ser_ok prod_ser_ok nat_ser_ok string_ser_ok contributors_ser_ok) (simp split: SplitState.split)

definition diamond_ser :: "DiamondDescriptor ser" where
  "diamond_ser = map_ser
     (\<lambda>d. ((dd_StartTime d, dd_EndTime d, of_bool (dd_HasConflicts d), of_bool (dd_HasCheckpoints d)),
        (dd_DiamondID d, dd_Tag d, dd_BundleID d),
        (case dd_State d of DiamondInitialized \<Rightarrow> (0, '''') | DiamondDone \<Rightarrow> (1, '''')
          | DiamondCanceled \<Rightarrow> (2, '''') | DiamondOther x \<Rightarrow> (3, x)),
        (case dd_Mode d of IgnoreConflicts \<Rightarrow> (0, '''') | EnableCheckpoints \<Rightarrow> (1, '''') | EnableConflicts \<Rightarrow> (2, '''')
          | ForbidConflicts \<Rightarrow> (3, '''') | OtherMode x \<Rightarrow> (4, x)),
        dd_Splits d))
     (\<lambda>((st, en, hc, hk), (i, t, b), (k, x), (q, y), ss). \<lparr>dd_DiamondID = i, dd_StartTime = st, dd_EndTime = en,
        dd_State = (if k = 0 then DiamondInitialized else if k = 1 then DiamondDone
          else if k = 2 then DiamondCanceled else DiamondOther x),
        dd_Mode = (if q = 0 then IgnoreConflicts else if q = 1 then EnableCheckpoints
          else if q = 2 then EnableConflicts else if q = 3 then ForbidConflicts else OtherMode y),
        dd_HasConflicts = (hc = 1), dd_HasCheckpoints = (hk = 1), dd_Tag = t, dd_BundleID = b, dd_Splits = ss\<rparr>)
     (prod_ser (prod_ser nat_ser (prod_ser nat_ser (prod_ser nat_ser nat_ser)))
       (prod_ser (prod_ser string_ser (prod_ser string_ser string_ser))
         (prod_ser (prod_ser nat_ser string_ser) (prod_ser (prod_ser nat_ser string_ser) (list_ser split_ser)))))"

lemma diamond_ser_ok: "ser_ok diamond_ser"
  unfolding diamond_ser_def
  by (intro map_ser_ok prod_ser_ok nat_ser_ok string_ser_ok list_ser_ok split_ser_ok)
    (simp split: DiamondState.split ConflictMode.split)

end
