(* ===== verification/FileIndex.thy ===== *)
theory FileIndex
  imports DiamondMerge Codec GcsStore
begin

text \<open>
  The index files of bundles and splits: \<open>pkg/core/index.go\<close> and the iterators of
  \<open>pkg/core/index_iterators.go\<close>. A file list is cut into index files of a fixed number of entries,
  which are written one by one and read back in parallel.
\<close>

lemma unat_succ: "unat (i :: 64 word) < unat (m :: 64 word) \<Longrightarrow> unat (i + 1) = unat i + 1"
proof -
  assume lt: "unat i < unat m"
  have "unat m < 2 ^ LENGTH(64)" by (rule unsigned_less)
  with lt show ?thesis by (simp add: unat_word_ariths)
qed

section \<open>Iterators\<close>

record downloadIndexIterator =
  di_i :: "64 word"
  di_max :: "64 word"

definition downloadIndex_Next ::
  "(64 word \<Rightarrow> string) \<Rightarrow> downloadIndexIterator \<Rightarrow> string \<times> downloadIndexIterator" where
  "downloadIndex_Next pather di =
     (if di_i di \<ge> di_max di then ('''', di)
      else (pather (di_i di), di\<lparr>di_i := di_i di + 1\<rparr>))"

definition uploadIndex_Next :: "(64 word \<Rightarrow> string) \<Rightarrow> 64 word \<Rightarrow> string \<times> 64 word" where
  "uploadIndex_Next pather i = (pather i, i + 1)"

text \<open>
  The iterators over objects: what they give is the identifier of a bundle or split, the number of
  its index files and their paths.
\<close>

type_synonym index_source = "string \<times> 64 word \<times> (64 word \<Rightarrow> string)"

definition downloadBundleIterator :: "string \<Rightarrow> BundleDescriptor \<Rightarrow> index_source list" where
  "downloadBundleIterator repoID bundle =
     [(bd_ID bundle, of_nat (bd_BundleEntriesFileCount bundle), GetArchivePathToBundleFileList repoID (bd_ID bundle))]"

definition downloadAllSplitsIterator :: "string \<Rightarrow> string \<Rightarrow> SplitDescriptor list \<Rightarrow> index_source list" where
  "downloadAllSplitsIterator repoID diamondID splits =
     map (\<lambda>sp. (sd_SplitID sp, of_nat (sd_SplitEntriesFileCount sp),
        GetArchivePathToSplitFileList repoID diamondID (sd_SplitID sp) (sd_GenerationID sp))) splits"

definition downloadSplitIterator :: "string \<Rightarrow> string \<Rightarrow> SplitDescriptor \<Rightarrow> index_source list" where
  "downloadSplitIterator repoID diamondID split = downloadAllSplitsIterator repoID diamondID [split]"

definition uploadBundleIterator :: "string \<Rightarrow> BundleDescriptor \<Rightarrow> 64 word \<Rightarrow> string" where
  "uploadBundleIterator repoID bundle = GetArchivePathToBundleFileList repoID (bd_ID bundle)"

definition uploadSplitIterator :: "string \<Rightarrow> string \<Rightarrow> SplitDescriptor \<Rightarrow> 64 word \<Rightarrow> string" where
  "uploadSplitIterator repoID diamondID split =
     GetArchivePathToSplitFileList repoID diamondID (sd_SplitID split) (sd_GenerationID split)"

section \<open>Writing index files\<close>

datatype index_err = MarshalErr string | MetaErr store_err | UploadErr string

definition filePacked2BundleEntry :: "filePacked \<Rightarrow> BundleEntry" where
  "filePacked2BundleEntry p = \<lparr>be_Hash = fp_hash p, be_NameWithPath = fp_name p, be_FileMode = 0,
     be_Size = fp_size p, be_Timestamp = fp_snapshot p\<rparr>"

definition uploadIndex ::
  "'s Store \<Rightarrow> BundleEntry list codec \<Rightarrow> 's \<Rightarrow> BundleEntry list \<Rightarrow> string \<Rightarrow> 's \<times> index_err option" where
  "uploadIndex st cd s fileList pth =
     (case cd_Marshal cd fileList of
        Inl e \<Rightarrow> (s, Some (MarshalErr e))
      | Inr buffer \<Rightarrow>
          (case writeMetadata st s pth NoOverWrite buffer of (s', e) \<Rightarrow> (s', map_option MetaErr e)))"

text \<open>
  What \<open>pack\<close> receives: a packed file with the time at which it is taken, an error of an uploader,
  or the signal that all is done; the end of the list is the closed channel.
\<close>

datatype pack_event = Packed filePacked go_time | HitError string | DoneOk

definition pack_end ::
  "'s Store \<Rightarrow> BundleEntry list codec \<Rightarrow> (64 word \<Rightarrow> string) \<Rightarrow> 's \<Rightarrow> 64 word \<Rightarrow> BundleEntry list \<Rightarrow> nat \<Rightarrow>
   's \<times> nat \<times> index_err option" where
  "pack_end st cd pather s i fileList cnt =
     (if fileList \<noteq> [] then
        (case uploadIndex st cd s fileList (fst (uploadIndex_Next pather i)) of
           (s', Some e) \<Rightarrow> (s', cnt, Some e)
         | (s', None) \<Rightarrow> (s', cnt + 1, None))
      else (s, cnt, None))"

fun pack_loop ::
  "'s Store \<Rightarrow> BundleEntry list codec \<Rightarrow> nat \<Rightarrow> (64 word \<Rightarrow> string) \<Rightarrow> 's \<Rightarrow> 64 word \<Rightarrow>
   BundleEntry list \<Rightarrow> nat \<Rightarrow> pack_event list \<Rightarrow> 's \<times> nat \<times> index_err option" where
  "pack_loop st cd entriesPerFile pather s i fileList cnt [] = pack_end st cd pather s i fileList cnt"
| "pack_loop st cd entriesPerFile pather s i fileList cnt (DoneOk # es) = pack_end st cd pather s i fileList cnt"
| "pack_loop st cd entriesPerFile pather s i fileList cnt (HitError e # es) = (s, cnt, Some (UploadErr e))"
| "pack_loop st cd entriesPerFile pather s i fileList cnt (Packed file now # es) =
     (let fileList1 = fileList @ [(filePacked2BundleEntry file)\<lparr>be_Timestamp := now\<rparr>] in
      if length fileList1 = entriesPerFile then
        (case uploadIndex_Next pather i of (pth, i1) \<Rightarrow>
           (case uploadIndex st cd s fileList1 pth of
              (s', Some e) \<Rightarrow> (s', cnt, Some e)
            | (s', None) \<Rightarrow> pack_loop st cd entriesPerFile pather s' i1 [] (cnt + 1) es))
      else pack_loop st cd entriesPerFile pather s i fileList1 cnt es)"

definition pack ::
  "'s Store \<Rightarrow> BundleEntry list codec \<Rightarrow> nat \<Rightarrow> (64 word \<Rightarrow> string) \<Rightarrow> 's \<Rightarrow> pack_event list \<Rightarrow>
   's \<times> nat \<times> index_err option" where
  "pack st cd entriesPerFile pather s es = pack_loop st cd entriesPerFile pather s 0 [] 0 es"

section \<open>Reading index files\<close>

definition getIndexFile ::
  "'s Store \<Rightarrow> BundleEntry list codec \<Rightarrow> 's \<Rightarrow> string \<Rightarrow> (index_err, BundleEntry list) res" where
  "getIndexFile st cd s pth =
     (case readMetadata st s pth of
        Inl e \<Rightarrow> Inl (MetaErr e)
      | Inr buffer \<Rightarrow> (case cd_Unmarshal cd buffer of Inl e \<Rightarrow> Inl (MarshalErr e) | Inr es \<Rightarrow> Inr es))"

text \<open>
  The jobs that \<open>downloadAll\<close> starts: for each object the index files that its iterator gives until
  it returns the empty path, numbered from zero. The results arrive in any order; the first error
  ends \<open>unpack\<close>, after what was delivered before it.
\<close>

function index_paths ::
  "string \<Rightarrow> (64 word \<Rightarrow> string) \<Rightarrow> downloadIndexIterator \<Rightarrow> nat \<Rightarrow> (string \<times> string \<times> nat) list" where
  "index_paths ident pather di k =
     (if di_i di \<ge> di_max di then []
      else case downloadIndex_Next pather di of (pth, di1) \<Rightarrow>
        if pth = '''' then [] else (ident, pth, k) # index_paths ident pather di1 (k + 1))"
  by pat_completeness auto
termination
proof (relation "measure (\<lambda>(ident, pather, di, k). unat (di_max di) - unat (di_i di))", goal_cases)
  case 1
  then show ?case by simp
next
  case (2 ident pather di k pth di1)
  then have less: "unat (di_i di) < unat (di_max di)" by (simp add: word_less_nat_alt not_le)
  then have "unat (di_i di + 1) = unat (di_i di) + 1" by (rule unat_succ)
  with less 2 show ?case by (auto simp: downloadIndex_Next_def)
qed

declare index_paths.simps [simp del]

definition download_jobs :: "index_source list \<Rightarrow> (string \<times> string \<times> nat) list" where
  "download_jobs srcs =
     concat (map (\<lambda>(ident, m, pather). index_paths ident pather \<lparr>di_i = 0, di_max = m\<rparr> 0) srcs)"

fun unpack ::
  "'s Store \<Rightarrow> BundleEntry list codec \<Rightarrow> 's \<Rightarrow> (string \<times> string \<times> nat) list \<Rightarrow>
   (string \<times> nat \<times> BundleEntry list) list \<times> index_err option" where
  "unpack st cd s [] = ([], None)"
| "unpack st cd s ((ident, pth, k) # jobs) =
     (case getIndexFile st cd s pth of
        Inl e \<Rightarrow> ([], Some e)
      | Inr entries \<Rightarrow>
          (case unpack st cd s jobs of (out, e) \<Rightarrow> ((ident, k, entries) # out, e)))"

text \<open>
  \<open>reset\<close> writes an empty file over each index file. One goroutine collects one error; a second
  error finds no receiver, and its goroutine keeps its slot for ever, so that the final wait for all
  slots never ends: \<open>None\<close>.
\<close>

fun reset_files :: "'s Store \<Rightarrow> 's \<Rightarrow> string list \<Rightarrow> 's \<times> store_err list" where
  "reset_files st s [] = (s, [])"
| "reset_files st s (pth # pths) =
     (case writeMetadata st s pth NoOverWrite [] of
        (s1, e) \<Rightarrow> (case reset_files st s1 pths of (s2, errs) \<Rightarrow>
           (s2, case e of None \<Rightarrow> errs | Some x \<Rightarrow> x # errs)))"

definition reset :: "'s Store \<Rightarrow> 's \<Rightarrow> string list \<Rightarrow> 's \<times> store_err option option" where
  "reset st s pths =
     (case reset_files st s pths of
        (s', []) \<Rightarrow> (s', Some None)
      | (s', [e]) \<Rightarrow> (s', Some (Some e))
      | (s', _) \<Rightarrow> (s', None))"

section \<open>What is packed can be unpacked\<close>

definition nth_path :: "(64 word \<Rightarrow> string) \<Rightarrow> nat \<Rightarrow> string" where
  "nth_path pather n = pather (of_nat n)"

text \<open>The index files of a list of blocks, stored from a given index on.\<close>

definition index_stored :: "BundleEntry list codec \<Rightarrow> (64 word \<Rightarrow> string) \<Rightarrow> (string \<Rightarrow> bytes option) \<Rightarrow>
    nat \<Rightarrow> BundleEntry list list \<Rightarrow> bool" where
  "index_stored cd pather m i bs \<longleftrightarrow>
     (\<forall>j < length bs. \<exists>buf. cd_Marshal cd (bs ! j) = Inr buf \<and> m (nth_path pather (i + j)) = Some buf)"

definition index_free :: "(64 word \<Rightarrow> string) \<Rightarrow> (string \<Rightarrow> bytes option) \<Rightarrow> nat \<Rightarrow> nat \<Rightarrow> bool" where
  "index_free pather m i n \<longleftrightarrow> (\<forall>j < n. m (nth_path pather (i + j)) = None)"

abbreviation timed_entries :: "(filePacked \<times> go_time) list \<Rightarrow> BundleEntry list" where
  "timed_entries files \<equiv> map (\<lambda>(f, now). (filePacked2BundleEntry f)\<lparr>be_Timestamp := now\<rparr>) files"

abbreviation outside :: "(64 word \<Rightarrow> string) \<Rightarrow> nat \<Rightarrow> nat \<Rightarrow> string \<Rightarrow> bool" where
  "outside pather i n p \<equiv> \<forall>j < n. p \<noteq> nth_path pather (i + j)"

lemma unat_of_nat_len_64: "n < 2 ^ 64 \<Longrightarrow> unat (of_nat n :: 64 word) = n"
  by (simp add: unat_of_nat)

lemma of_nat_word_inj:
  "(of_nat a :: 64 word) = of_nat b \<Longrightarrow> a < 2 ^ 64 \<Longrightarrow> b < 2 ^ 64 \<Longrightarrow> a = b"
  by (metis unat_of_nat_len_64)

lemma index_stored_Cons:
  assumes "cd_Marshal cd b = Inr buf" and "m (nth_path pather i) = Some buf"
    and "index_stored cd pather m (i + 1) bs"
  shows "index_stored cd pather m i (b # bs)"
  using assms unfolding index_stored_def by (auto simp: less_Suc_eq_0_disj)

context object_store
begin

lemma uploadIndex_ok:
  assumes "codec_ok cd" and "content s pth = None"
  shows "\<exists>s' buf. uploadIndex st cd s b pth = (s', None) \<and> cd_Marshal cd b = Inr buf
    \<and> content s' = (content s)(pth \<mapsto> buf)"
proof -
  obtain buf where "cd_Marshal cd b = Inr buf" using codec_okD [OF assms(1), of b] by blast
  then show ?thesis
    by (rule_tac put_cases [of NoOverWrite s pth buf])
      (use assms(2) in \<open>auto simp: uploadIndex_def writeMetadata_def\<close>)
qed

lemma pack_end_ok:
  assumes "codec_ok cd" and "index_free pather (content s) i (length (blocks epf fl))"
    and "length fl < epf"
  shows "\<exists>s'. pack_end st cd pather s (of_nat i) fl i = (s', i + length (blocks epf fl), None)
    \<and> index_stored cd pather (content s') i (blocks epf fl)
    \<and> (\<forall>p. outside pather i (length (blocks epf fl)) p \<longrightarrow> content s' p = content s p)"
proof (cases "fl = []")
  case True
  then show ?thesis by (simp add: pack_end_def index_stored_def)
next
  case False
  with assms(3) have b: "blocks epf fl = [fl]" by (simp add: blocks_step)
  from assms(2) b uploadIndex_ok [OF assms(1), of s "nth_path pather i" fl] obtain s' buf where
    "uploadIndex st cd s fl (nth_path pather i) = (s', None)" "cd_Marshal cd fl = Inr buf"
    "content s' = (content s)(nth_path pather i \<mapsto> buf)" by (auto simp: index_free_def)
  with False b show ?thesis
    by (auto simp: pack_end_def uploadIndex_Next_def index_stored_def nth_path_def)
qed

lemma pack_loop_ok:
  assumes cd: "codec_ok cd" and epf: "0 < epf" and inj: "inj pather"
  shows "\<lbrakk>bs = blocks epf (fl @ map (\<lambda>(f, now). (filePacked2BundleEntry f)\<lparr>be_Timestamp := now\<rparr>) files);
      length fl < epf; index_free pather (content s) i (length bs); i + length bs \<le> 2 ^ 64\<rbrakk> \<Longrightarrow>
    \<exists>s'. pack_loop st cd epf pather s (of_nat i) fl i (map (\<lambda>(f, now). Packed f now) files) =
        (s', i + length bs, None)
      \<and> index_stored cd pather (content s') i bs
      \<and> (\<forall>p. outside pather i (length bs) p \<longrightarrow> content s' p = content s p)"
proof (induction files arbitrary: s i fl bs)
  case Nil
  then show ?case using pack_end_ok [OF cd] by simp
next
  case (Cons fn files)
  obtain f now where fn: "fn = (f, now)" by (cases fn)
  let ?e = "(filePacked2BundleEntry f)\<lparr>be_Timestamp := now\<rparr>"
  let ?ents = "map (\<lambda>(f, now). (filePacked2BundleEntry f)\<lparr>be_Timestamp := now\<rparr>) files"
  let ?fl1 = "fl @ [?e]"
  show ?case
  proof (cases "length ?fl1 = epf")
    case False
    have "bs = blocks epf (?fl1 @ ?ents)" using Cons.prems(1) fn by simp
    with Cons.IH [OF this _ Cons.prems(3,4)] Cons.prems(2) False fn show ?thesis
      by (simp add: Let_def)
  next
    case True
    have bs: "bs = ?fl1 # blocks epf ?ents"
      using Cons.prems(1) fn blocks_append_block [OF epf True, of ?ents] by simp
    from Cons.prems(3) bs have "content s (nth_path pather i) = None" by (auto simp: index_free_def)
    from uploadIndex_ok [OF cd this, of ?fl1] obtain s1 buf where
      up: "uploadIndex st cd s ?fl1 (nth_path pather i) = (s1, None)" "cd_Marshal cd ?fl1 = Inr buf"
        "content s1 = (content s)(nth_path pather i \<mapsto> buf)" by blast
    have ne: "nth_path pather (Suc i + j) \<noteq> nth_path pather i" if "j < length (blocks epf ?ents)" for j
    proof
      assume "nth_path pather (Suc i + j) = nth_path pather i"
      then have "(of_nat (Suc i + j) :: 64 word) = of_nat i"
        unfolding nth_path_def by (rule injD [OF inj])
      with of_nat_word_inj [of "Suc i + j" i] that Cons.prems(4) bs show False by simp
    qed
    have free: "index_free pather (content s1) (Suc i) (length (blocks epf ?ents))"
      using Cons.prems(3) bs up(3) ne by (auto simp: index_free_def)
    have "0 < epf" "Suc i + length (blocks epf ?ents) \<le> 2 ^ 64" using epf Cons.prems(4) bs by auto
    with Cons.IH [of "blocks epf ?ents" "[]" s1 "Suc i"] free obtain s2 where
      rec: "pack_loop st cd epf pather s1 (of_nat (Suc i)) [] (Suc i) (map (\<lambda>(f, now). Packed f now) files) =
          (s2, Suc i + length (blocks epf ?ents), None)"
        "index_stored cd pather (content s2) (Suc i) (blocks epf ?ents)"
        "\<And>p. outside pather (Suc i) (length (blocks epf ?ents)) p \<Longrightarrow> content s2 p = content s1 p"
      by auto
    have "content s2 (nth_path pather i) = Some buf"
      using rec(3) [of "nth_path pather i"] ne up(3) by (auto dest: sym)
    then have "index_stored cd pather (content s2) i bs"
      unfolding bs using up(2) rec(2) by (intro index_stored_Cons) auto
    moreover have "content s2 p = content s p" if "outside pather i (length bs) p" for p
    proof -
      have "p \<noteq> nth_path pather i" "outside pather (Suc i) (length (blocks epf ?ents)) p"
        using that bs by (force, force)
      with rec(3) [of p] up(3) show ?thesis by simp
    qed
    moreover have "pack_loop st cd epf pather s (of_nat i) fl i (map (\<lambda>(f, now). Packed f now) (fn # files)) =
        (s2, i + length bs, None)"
      using True up(1) rec(1) bs fn by (simp add: Let_def uploadIndex_Next_def nth_path_def add.commute)
    ultimately show ?thesis by blast
  qed
qed

end

lemma index_paths_from:
  assumes "\<And>i. pather i \<noteq> ''''"
  shows "unat i \<le> unat m \<Longrightarrow> index_paths ident pather \<lparr>di_i = i, di_max = m\<rparr> (unat i) =
    map (\<lambda>j. (ident, nth_path pather j, j)) [unat i..<unat m]"
proof (induction "unat m - unat i" arbitrary: i)
  case 0
  then have "i = m" by (simp add: word_unat_eq_iff)
  then show ?case by (subst index_paths.simps) simp
next
  case (Suc x)
  then have lt: "unat i < unat m" by simp
  note s = unat_succ [OF lt]
  have ni: "\<not> m \<le> i" using lt by (simp add: word_le_nat_alt)
  have "index_paths ident pather \<lparr>di_i = i, di_max = m\<rparr> (unat i) =
      (ident, pather i, unat i) # index_paths ident pather \<lparr>di_i = i + 1, di_max = m\<rparr> (unat (i + 1))"
    using ni assms s by (subst index_paths.simps) (simp add: downloadIndex_Next_def)
  also have "index_paths ident pather \<lparr>di_i = i + 1, di_max = m\<rparr> (unat (i + 1)) =
      map (\<lambda>j. (ident, nth_path pather j, j)) [unat (i + 1)..<unat m]"
    using Suc s by (intro Suc.hyps(1)) auto
  also have "(ident, pather i, unat i) # map (\<lambda>j. (ident, nth_path pather j, j)) [unat (i + 1)..<unat m] =
      map (\<lambda>j. (ident, nth_path pather j, j)) [unat i..<unat m]"
    using lt s by (simp add: upt_conv_Cons nth_path_def)
  finally show ?case .
qed

lemma download_jobs_one:
  assumes "\<And>i. pather i \<noteq> ''''" and "n < 2 ^ 64"
  shows "download_jobs [(ident, of_nat n, pather)] = map (\<lambda>j. (ident, nth_path pather j, j)) [0..<n]"
  using index_paths_from [OF assms(1), of 0 "of_nat n" ident] unat_of_nat_len_64 [OF assms(2)]
  by (simp add: download_jobs_def)

context object_store
begin

lemma getIndexFile_ok:
  assumes "codec_ok cd" and "index_stored cd pather (content s) 0 bs" and "j < length bs"
  shows "getIndexFile st cd s (nth_path pather j) = Inr (bs ! j)"
proof -
  from assms(2,3) obtain buf where "cd_Marshal cd (bs ! j) = Inr buf" "content s (nth_path pather j) = Some buf"
    by (auto simp: index_stored_def)
  with codec_okD [OF assms(1), of "bs ! j"] show ?thesis by (auto simp: getIndexFile_def readMetadata_def get)
qed

lemma unpack_ok:
  assumes "codec_ok cd" and "index_stored cd pather (content s) 0 bs"
  shows "\<forall>job \<in> set jobs. \<exists>j < length bs. job = (ident, nth_path pather j, j) \<Longrightarrow>
    unpack st cd s jobs = (map (\<lambda>(i, p, j). (i, j, bs ! j)) jobs, None)"
  by (induction jobs) (auto simp: getIndexFile_ok [OF assms])

end

lemma bundle_list_inj: "inj (GetArchivePathToBundleFileList repo bundle)"
  by (rule injI) (simp add: GetArchivePathToBundleFileList_def show_nat_inj word_unat_eq_iff)

lemma bundle_list_nonempty: "GetArchivePathToBundleFileList repo bundle i \<noteq> ''''"
  by (simp add: GetArchivePathToBundleFileList_def)

text \<open>
  C31: the file list of a bundle survives its storage. Packing any list of files into index files of
  any size, into locations that are free, succeeds and counts the files written; a descriptor with
  that count lets the download find them all, and whatever the order in which the index files
  arrive, putting them together by their number gives the list of entries back.
\<close>

theorem index_roundtrip:
  assumes "bucket_api cl objects" and "codec_ok cd" and "0 < epf"
    and "length (blocks epf (timed_entries files)) < 2 ^ 64"
    and "index_free (uploadBundleIterator repoID bundle) (gcs_content objects g s) 0 (length (blocks epf (timed_entries files)))"
  shows "\<exists>s' n. pack (gcs_store cl g) cd epf (uploadBundleIterator repoID bundle) s
      (map (\<lambda>(f, now). Packed f now) files) = (s', n, None)
    \<and> (\<forall>order. mset order =
          mset (download_jobs (downloadBundleIterator repoID (bundle\<lparr>bd_BundleEntriesFileCount := n\<rparr>))) \<longrightarrow>
        (\<exists>out. unpack (gcs_store cl g) cd s' order = (out, None)
          \<and> concat (place (replicate n []) (map (\<lambda>(ident, j, es). (j, es)) out)) = timed_entries files))"
proof -
  let ?p = "uploadBundleIterator repoID bundle" and ?bs = "blocks epf (timed_entries files)"
  note st = gcs_is_store [OF assms(1), of g]
  have p: "inj ?p" "\<And>i. ?p i \<noteq> ''''"
    by (simp_all add: uploadBundleIterator_def bundle_list_inj bundle_list_nonempty)
  from object_store.pack_loop_ok [OF st assms(2,3) p(1), of ?bs "[]" files s 0] assms(3-5)
  obtain s' where s': "pack (gcs_store cl g) cd epf ?p s (map (\<lambda>(f, now). Packed f now) files) =
        (s', length ?bs, None)" "index_stored cd ?p (gcs_content objects g s') 0 ?bs"
    by (auto simp: pack_def)
  let ?jobs = "map (\<lambda>j. (bd_ID bundle, nth_path ?p j, j)) [0..<length ?bs]"
  have jobs: "download_jobs (downloadBundleIterator repoID (bundle\<lparr>bd_BundleEntriesFileCount := length ?bs\<rparr>)) = ?jobs"
    using download_jobs_one [OF p(2) assms(4), of "bd_ID bundle"]
    by (simp add: downloadBundleIterator_def uploadBundleIterator_def)
  have "\<exists>out. unpack (gcs_store cl g) cd s' order = (out, None)
      \<and> concat (place (replicate (length ?bs) []) (map (\<lambda>(ident, j, es). (j, es)) out)) = timed_entries files"
    if order: "mset order = mset ?jobs" for order
  proof -
    let ?f = "\<lambda>(i, p, j). (j, ?bs ! j)"
    from mset_eq_setD [OF order] have "\<forall>job \<in> set order. \<exists>j < length ?bs. job = (bd_ID bundle, nth_path ?p j, j)"
      by auto
    from object_store.unpack_ok [OF st assms(2) s'(2) this]
    have out: "unpack (gcs_store cl g) cd s' order = (map (\<lambda>(i, p, j). (i, j, ?bs ! j)) order, None)" .
    have "mset (map ?f order) = mset (map ?f ?jobs)" using order by (simp only: mset_map)
    also have "map ?f ?jobs = enumerate 0 ?bs" by (rule nth_equalityI) (simp_all add: nth_enumerate_eq)
    finally have "place (replicate (length ?bs) []) (map ?f order) = ?bs" by (intro place_all) simp_all
    moreover have "map (\<lambda>(ident, j, es). (j, es)) (map (\<lambda>(i, p, j). (i, j, ?bs ! j)) order) = map ?f order"
      by (simp add: case_prod_unfold)
    ultimately have "concat (place (replicate (length ?bs) []) (map (\<lambda>(ident, j, es). (j, es))
        (map (\<lambda>(i, p, j). (i, j, ?bs ! j)) order))) = concat ?bs" by (simp only:)
    with out assms(3) show ?thesis by (simp only: concat_blocks prod.inject) blast
  qed
  with s'(1) jobs show ?thesis by auto
qed

abbreviation some_bundle :: BundleDescriptor where
  "some_bundle \<equiv> \<lparr>bd_LeafSize = 64, bd_ID = ''b'', bd_Message = '''', bd_Parents = [],
     bd_Timestamp = 0, bd_Contributors = [], bd_BundleEntriesFileCount = 0, bd_Version = 4,
     bd_Deduplication = '''', bd_RunStage = ''''\<rparr>"

abbreviation some_file :: filePacked where
  "some_file \<equiv> \<lparr>fp_hash = ''h'', fp_name = ''f'', fp_size = 1, fp_snapshot = 0\<rparr>"

theorem index_roundtrip_witness:
  "\<exists>s' n. pack (gcs_store steady_client \<lparr>gcs_keyPrefix = '''', gcs_tries = 0\<rparr>) entries_codec 1000
      (uploadBundleIterator ''r'' some_bundle) [] [Packed some_file 5] = (s', n, None)"
proof -
  have "blocks 1000 (timed_entries [(some_file, 5)]) = [timed_entries [(some_file, 5)]]"
    by (simp add: blocks_step)
  then show ?thesis
    using index_roundtrip [OF steady.bucket_api_axioms entries_codec_ok, of 1000 "[(some_file, 5)]" "''r''"
        some_bundle "\<lparr>gcs_keyPrefix = '''', gcs_tries = 0\<rparr>" "[]"]
    by (auto simp: index_free_def gcs_content_def)
qed

context object_store
begin

lemma reset_files_existing:
  "\<forall>p \<in> set pths. content s p \<noteq> None \<Longrightarrow>
   \<exists>s' errs. reset_files st s pths = (s', errs) \<and> content s' = content s \<and> length errs = length pths"
proof (induction pths arbitrary: s)
  case Nil
  then show ?case by simp
next
  case (Cons p pths)
  obtain s1 e where s1: "put_crc st s p [] NoOverWrite = (s1, Some e)" "content s1 = content s"
    by (rule put_cases [of NoOverWrite s p "[]"]) (use Cons.prems in \<open>auto simp: NoOverWrite_def\<close>)
  with Cons.IH [of s1] Cons.prems show ?case by (auto simp: writeMetadata_def)
qed

end

text \<open>
  \<open>Reset\<close> does not do what it is for. Index files that exist are written with the option that
  refuses to overwrite: none of them changes, for one file the error is returned, and for two or more
  the call never returns.
\<close>

theorem reset_never_resets:
  assumes "bucket_api cl objects" and "\<forall>p \<in> set pths. gcs_content objects g s p \<noteq> None" and "pths \<noteq> []"
  shows "\<exists>s' r. reset (gcs_store cl g) s pths = (s', r) \<and> gcs_content objects g s' = gcs_content objects g s
    \<and> (if length pths = 1 then \<exists>e. r = Some (Some e) else r = None)"
proof -
  from object_store.reset_files_existing [OF gcs_is_store [OF assms(1)] assms(2)] obtain s' errs where
    r: "reset_files (gcs_store cl g) s pths = (s', errs)" "gcs_content objects g s' = gcs_content objects g s"
      "length errs = length pths" by blast
  show ?thesis
  proof (cases errs)
    case Nil
    with r(3) assms(3) show ?thesis by simp
  next
    case (Cons e es)
    with r show ?thesis by (cases es) (auto simp: reset_def)
  qed
qed

theorem reset_never_resets_witness:
  "snd (reset (gcs_store steady_client \<lparr>gcs_keyPrefix = '''', gcs_tries = 0\<rparr>)
      [(''a'', [1]), (''b'', [2])] [''a'', ''b'']) = None"
  using reset_never_resets [OF steady.bucket_api_axioms, of "[''a'', ''b'']"
      "\<lparr>gcs_keyPrefix = '''', gcs_tries = 0\<rparr>" "[(''a'', [1]), (''b'', [2])]"]
  by (auto simp: gcs_content_def getFullObjectName_def)

end
