(* ===== verification/MetaLists.thy ===== *)
theory MetaLists
  imports Codec GcsStore
begin

text \<open>
  Listing repositories, bundles, labels, diamonds and splits: the key pipeline of
  \<open>pkg/core/keys.go\<close> and the five listings of \<open>pkg/core/*_list.go\<close>, which share their structure.
  A pipeline of goroutines passes batches of keys from stage to stage; a stage is a function from
  the batches it receives to those it sends. Within a batch, workers fetch the objects in any order:
  a scheduler gives the order in which their results arrive.
\<close>

section \<open>Stores and errors\<close>

record ('m, 'v) Stores =
  sx_Metadata :: "'m Store"
  sx_VMetadata :: "'v Store"

datatype meta_err =
    StoreFail store_err
  | BadPath path_error
  | YamlFail string
  | IdMismatch string string
  | RepoDoesNotExist string
  | DiamondDoesNotExist string
  | StatusNotFound
  | VersionedStoreRequired
  | Interrupted
  | NoBundles
  | ConfigContext "meta_err option"
  | DevPanic

definition is_NotExists :: "meta_err \<Rightarrow> bool" where
  "is_NotExists e \<longleftrightarrow> e = StoreFail ErrNotExists"

definition read_yaml :: "'s Store \<Rightarrow> 'a codec \<Rightarrow> 's \<Rightarrow> string \<Rightarrow> (meta_err, 'a) res" where
  "read_yaml st cd s pth =
     (case st_Get st s pth of
        Inl e \<Rightarrow> Inl (StoreFail e)
      | Inr o1 \<Rightarrow> (case cd_Unmarshal cd o1 of Inl e \<Rightarrow> Inl (YamlFail e) | Inr x \<Rightarrow> Inr x))"

definition RepoExists :: "'m Store \<Rightarrow> 'm \<Rightarrow> string \<Rightarrow> meta_err option" where
  "RepoExists st m repo =
     (case st_Has st m (GetArchivePathToRepoDescriptor repo) of
        Inl e \<Rightarrow> Some (StoreFail e)
      | Inr exists \<Rightarrow> if \<not> exists then Some (RepoDoesNotExist repo) else None)"

definition DiamondExists :: "'v Store \<Rightarrow> 'v \<Rightarrow> string \<Rightarrow> string \<Rightarrow> meta_err option" where
  "DiamondExists st v repo diamondID =
     (case st_Has st v (GetArchivePathToInitialDiamond repo diamondID) of
        Inl e \<Rightarrow> Some (StoreFail e)
      | Inr exists \<Rightarrow> if \<not> exists then Some (DiamondDoesNotExist diamondID) else None)"

section \<open>Keys\<close>

record keyBatchEvent =
  kb_keys :: "string list"
  kb_err :: "meta_err option"

text \<open>
  \<open>fetchKeys\<close> asks an iterator for batches of keys and stops at an error, at an empty batch, or when
  there is no further token; \<open>None\<close> when the iteration does not end.
\<close>



partial_function (option) fetchKeys ::
  "(string \<Rightarrow> (meta_err, string list \<times> string) res) \<Rightarrow> string \<Rightarrow> keyBatchEvent list option" where
  "fetchKeys iterator tok =
     (case iterator tok of
        Inl e \<Rightarrow> Some [\<lparr>kb_keys = [], kb_err = Some e\<rparr>]
      | Inr (ks, next_tok) \<Rightarrow>
          if ks = [] then Some []
          else if next_tok = '''' then Some [\<lparr>kb_keys = ks, kb_err = None\<rparr>]
          else Option.bind (fetchKeys iterator next_tok) (\<lambda>es. Some (\<lparr>kb_keys = ks, kb_err = None\<rparr> # es)))"

definition basenameKeyFilter ::
  "string \<Rightarrow> (meta_err, string list \<times> string) res \<Rightarrow> (meta_err, string list \<times> string) res" where
  "basenameKeyFilter flt r =
     (case r of
        Inl e \<Rightarrow> Inl e
      | Inr (keys, next_tok) \<Rightarrow> Inr (filter (\<lambda>key. starts_with flt (path_Base key)) keys, next_tok))"

text \<open>
  \<open>mergeKeys\<close> keeps one key for each diamond or split. Between batches it remembers the objects for
  which only a final descriptor has been seen. The error of a batch it receives is not passed on.
\<close>

record stateMerge =
  sm_isFinal :: bool
  sm_count :: nat
  sm_key :: string

definition no_state :: stateMerge where
  "no_state = \<lparr>sm_isFinal = False, sm_count = 0, sm_key = ''''\<rparr>"

definition merge_key ::
  "(string \<Rightarrow> bool) \<Rightarrow> string \<Rightarrow> (string \<Rightarrow> stateMerge option) \<times> string list \<times> meta_err option \<Rightarrow>
   (string \<Rightarrow> stateMerge option) \<times> string list \<times> meta_err option" where
  "merge_key ksuid_ok key acc =
     (case acc of (states, filtered, err) \<Rightarrow>
        (case GetArchivePathComponents ksuid_ok key of
           Inl e \<Rightarrow> (states, filtered, Some (BadPath e))
         | Inr apc \<Rightarrow>
             if apc_SplitID apc = '''' \<and> apc_DiamondID apc = '''' then (states, filtered, err)
             else
               let ident = apc_DiamondID apc @ apc_SplitID apc;
                   keyState = (case states ident of None \<Rightarrow> no_state | Some ks \<Rightarrow> ks);
                   retained = (if sm_isFinal keyState \<and> \<not> apc_IsFinalState apc then sm_key keyState else key);
                   new = \<lparr>sm_isFinal = sm_isFinal keyState \<or> apc_IsFinalState apc,
                          sm_count = sm_count keyState + 1, sm_key = retained\<rparr>
               in if sm_count new > 1 \<or> sm_count new = 1 \<and> \<not> sm_isFinal new
                  then (states(ident := None), filtered @ [retained], err)
                  else (states(ident \<mapsto> new), filtered, err)))"

fun mergeKeys ::
  "(string \<Rightarrow> bool) \<Rightarrow> (string \<Rightarrow> stateMerge option) \<Rightarrow> keyBatchEvent list \<Rightarrow> keyBatchEvent list" where
  "mergeKeys ksuid_ok states [] = []"
| "mergeKeys ksuid_ok states (batch # batches) =
     (case fold (merge_key ksuid_ok) (kb_keys batch) (states, [], None) of
        (states', filtered, err) \<Rightarrow>
          \<lparr>kb_keys = filtered, kb_err = err\<rparr> # mergeKeys ksuid_ok states' batches)"

text \<open>\<open>versionedKeys\<close> expands each key to its versions; here too the error of a batch is lost.\<close>

definition version_batch :: "(string \<Rightarrow> (store_err, string list) res) \<Rightarrow> keyBatchEvent \<Rightarrow> keyBatchEvent" where
  "version_batch keyVersions batch =
     fold (\<lambda>key b. case keyVersions key of
         Inl e \<Rightarrow> b\<lparr>kb_err := Some (StoreFail e)\<rparr>
       | Inr versions \<Rightarrow> b\<lparr>kb_keys := kb_keys b @ map (\<lambda>v. key @ ''#'' @ v) versions\<rparr>)
       (kb_keys batch) \<lparr>kb_keys = [], kb_err = None\<rparr>"

definition versionedKeys ::
  "(string \<Rightarrow> (store_err, string list) res) \<Rightarrow> keyBatchEvent list \<Rightarrow> keyBatchEvent list" where
  "versionedKeys keyVersions batches = map (version_batch keyVersions) batches"

section \<open>Batches of objects\<close>

text \<open>
  One worker on one key: an object, nothing (the object has gone in the meantime), or an error. A
  batch collects the results in the order they arrive, up to the first error, and sorts them.
\<close>

type_synonym 'a fetched = "(meta_err, 'a option) res"

fun collect :: "'a fetched list \<Rightarrow> (meta_err, 'a list) res" where
  "collect [] = Inr []"
| "collect (Inl e # rs) = Inl e"
| "collect (Inr None # rs) = collect rs"
| "collect (Inr (Some x) # rs) = rbind (collect rs) (\<lambda>xs. Inr (x # xs))"

text \<open>\<open>sort.Sort\<close> with a \<open>Less\<close> method, by insertion.\<close>

fun sort_insert :: "('a \<Rightarrow> 'a \<Rightarrow> bool) \<Rightarrow> 'a \<Rightarrow> 'a list \<Rightarrow> 'a list" where
  "sort_insert lt x [] = [x]"
| "sort_insert lt x (y # ys) = (if lt y x then y # sort_insert lt x ys else x # y # ys)"

definition go_sort :: "('a \<Rightarrow> 'a \<Rightarrow> bool) \<Rightarrow> 'a list \<Rightarrow> 'a list" where
  "go_sort lt xs = foldr (sort_insert lt) xs []"

definition fetch_batch ::
  "('a \<Rightarrow> 'a \<Rightarrow> bool) \<Rightarrow> (string \<Rightarrow> 'a fetched) \<Rightarrow> (string list \<Rightarrow> string list) \<Rightarrow> string list \<Rightarrow>
   (meta_err, 'a list) res" where
  "fetch_batch lt get sched keys = rbind (collect (map get (sched keys))) (\<lambda>xs. Inr (go_sort lt xs))"

text \<open>The batches that reach the caller, and the error that ended the listing.\<close>

fun fetch_batches ::
  "(string list \<Rightarrow> (meta_err, 'a list) res) \<Rightarrow> keyBatchEvent list \<Rightarrow> 'a list list \<times> meta_err option" where
  "fetch_batches fetch [] = ([], None)"
| "fetch_batches fetch (b # bs) =
     (case kb_err b of
        Some e \<Rightarrow> ([], Some e)
      | None \<Rightarrow>
          (case fetch (kb_keys b) of
             Inl e \<Rightarrow> ([], Some e)
           | Inr xs \<Rightarrow> (case fetch_batches fetch bs of (xss, e) \<Rightarrow> (xs # xss, e))))"

text \<open>
  The functions that apply an operation to the listed objects as they come. \<open>late\<close> is what the
  background stages report after the operation has failed: nothing, the interruption, or an error of
  their own.
\<close>

fun apply_until :: "('a \<Rightarrow> 's \<Rightarrow> 's \<times> 'e option) \<Rightarrow> 'a list \<Rightarrow> 's \<Rightarrow> 's \<times> 'e option" where
  "apply_until f [] s = (s, None)"
| "apply_until f (x # xs) s =
     (case f x s of (s', Some e) \<Rightarrow> (s', Some e) | (s', None) \<Rightarrow> apply_until f xs s')"

definition list_apply ::
  "('a \<Rightarrow> 's \<Rightarrow> 's \<times> meta_err option) \<Rightarrow> meta_err option \<Rightarrow> 'a list \<times> meta_err option \<Rightarrow> 's \<Rightarrow> 's \<times> meta_err option" where
  "list_apply f late listed s =
     (case apply_until f (fst listed) s of
        (s', Some applyErr) \<Rightarrow>
          (s', (case late of None \<Rightarrow> Some applyErr
                | Some e \<Rightarrow> if e = Interrupted then Some applyErr else Some e))
      | (s', None) \<Rightarrow> (s', snd listed))"


section \<open>Settings and parameters\<close>

text \<open>
  The settings of a listing, without the level of concurrency (the scheduler stands for it), metrics
  and profiling. \<open>env\<close> gathers what is not datamon's own: parsing of KSUIDs, YAML for each
  descriptor, the order in which concurrent workers deliver, and the versioned operations of the
  label store, if it has them. Labels, and the descriptor of a bundle that is downloaded, are
  unmarshalled over a descriptor that already has values.
\<close>

record Settings =
  set_batchSize :: nat
  set_labelPrefix :: string
  set_labelVersions :: bool
  set_ignoreCorruptedMetadata :: bool
  set_retainTags :: bool
  set_retainSemverTags :: bool
  set_retainNLatest :: int
  set_withMinimalBundle :: bool

definition defaultSettings :: Settings where
  "defaultSettings = \<lparr>set_batchSize = 1024, set_labelPrefix = '''', set_labelVersions = False,
     set_ignoreCorruptedMetadata = False, set_retainTags = False, set_retainSemverTags = False,
     set_retainNLatest = 1, set_withMinimalBundle = False\<rparr>"

record 'v VersionedStore =
  vs_IsVersioned :: "'v \<Rightarrow> (store_err, bool) res"
  vs_KeyVersions :: "'v \<Rightarrow> string \<Rightarrow> (store_err, string list) res"
  vs_GetVersion :: "'v \<Rightarrow> string \<Rightarrow> string \<Rightarrow> (store_err, bytes) res"

record 'v env =
  en_ksuid :: "string \<Rightarrow> bool"
  en_sched :: "string list \<Rightarrow> string list"
  en_repo :: "RepoDescriptor codec"
  en_bundle :: "BundleDescriptor codec"
  en_bundle_over :: "BundleDescriptor \<Rightarrow> bytes \<Rightarrow> (string, BundleDescriptor) res"
  en_label :: "LabelDescriptor codec"
  en_label_over :: "LabelDescriptor \<Rightarrow> bytes \<Rightarrow> (string, LabelDescriptor) res"
  en_diamond :: "DiamondDescriptor codec"
  en_split :: "SplitDescriptor codec"
  en_versioned :: "'v VersionedStore option"

abbreviation meta_store_page :: "'s Store \<Rightarrow> 's \<Rightarrow> string \<Rightarrow> string \<Rightarrow> nat \<Rightarrow> string \<Rightarrow> (meta_err, string list \<times> string) res" where
  "meta_store_page st s pfx delim n tok \<equiv>
     (case st_KeysPrefix st s tok pfx delim n of Inl e \<Rightarrow> Inl (StoreFail e) | Inr r \<Rightarrow> Inr r)"

text \<open>A worker skips an object that has disappeared since its key was listed.\<close>

definition skip_missing :: "(meta_err, 'a) res \<Rightarrow> 'a fetched" where
  "skip_missing r = (case r of Inl e \<Rightarrow> if is_NotExists e then Inr None else Inl e | Inr x \<Rightarrow> Inr (Some x))"

section \<open>Bundles\<close>

definition minimal_bundle :: "string \<Rightarrow> BundleDescriptor" where
  "minimal_bundle i = \<lparr>bd_LeafSize = 0, bd_ID = i, bd_Message = '''', bd_Parents = [], bd_Timestamp = 0,
     bd_Contributors = [], bd_BundleEntriesFileCount = 0, bd_Version = 0, bd_Deduplication = '''',
     bd_RunStage = ''''\<rparr>"

definition downloadBundleDescriptor ::
  "'v env \<Rightarrow> 'm Store \<Rightarrow> 'm \<Rightarrow> string \<Rightarrow> string \<Rightarrow> Settings \<Rightarrow> (meta_err, BundleDescriptor) res" where
  "downloadBundleDescriptor E st m repo key settings =
     (case GetArchivePathComponents (en_ksuid E) key of
        Inl e \<Rightarrow> Inl (BadPath e)
      | Inr apc \<Rightarrow>
          if set_withMinimalBundle settings then Inr (minimal_bundle (apc_BundleID apc))
          else rbind (read_yaml st (en_bundle E) m (GetArchivePathToBundle repo (apc_BundleID apc)))
            (\<lambda>bd. if bd_ID bd \<noteq> apc_BundleID apc
                  then if \<not> set_ignoreCorruptedMetadata settings then Inl (IdMismatch (bd_ID bd) (apc_BundleID apc))
                       else Inr (bd\<lparr>bd_ID := apc_BundleID apc\<rparr>)
                  else Inr bd))"

definition getBundleAsync ::
  "'v env \<Rightarrow> 'm Store \<Rightarrow> 'm \<Rightarrow> string \<Rightarrow> Settings \<Rightarrow> string \<Rightarrow> BundleDescriptor fetched" where
  "getBundleAsync E st m repo settings key = skip_missing (downloadBundleDescriptor E st m repo key settings)"

definition fetchBundleBatch ::
  "'v env \<Rightarrow> 'm Store \<Rightarrow> 'm \<Rightarrow> string \<Rightarrow> Settings \<Rightarrow> string list \<Rightarrow> (meta_err, BundleDescriptor list) res" where
  "fetchBundleBatch E st m repo settings =
     fetch_batch BundleDescriptors_Less (getBundleAsync E st m repo settings) (en_sched E)"

definition fetchBundles ::
  "'v env \<Rightarrow> 'm Store \<Rightarrow> 'm \<Rightarrow> string \<Rightarrow> Settings \<Rightarrow> keyBatchEvent list \<Rightarrow> BundleDescriptor list list \<times> meta_err option" where
  "fetchBundles E st m repo settings = fetch_batches (fetchBundleBatch E st m repo settings)"

definition listBundlesChan ::
  "'v env \<Rightarrow> 'm Store \<Rightarrow> 'm \<Rightarrow> string \<Rightarrow> Settings \<Rightarrow> (BundleDescriptor list list \<times> meta_err option) option" where
  "listBundlesChan E st m repo settings =
     (case RepoExists st m repo of
        Some e \<Rightarrow> Some ([], Some e)
      | None \<Rightarrow>
          map_option (fetchBundles E st m repo settings)
            (fetchKeys (meta_store_page st m (GetArchivePathPrefixToBundles repo) ''/'' (set_batchSize settings)) ''''))"

definition ListBundles ::
  "'v env \<Rightarrow> 'm Store \<Rightarrow> 'm \<Rightarrow> string \<Rightarrow> Settings \<Rightarrow> (BundleDescriptor list \<times> meta_err option) option" where
  "ListBundles E st m repo settings = map_option (map_prod concat id) (listBundlesChan E st m repo settings)"

definition ListBundlesApply ::
  "'v env \<Rightarrow> 'm Store \<Rightarrow> 'm \<Rightarrow> string \<Rightarrow> Settings \<Rightarrow> meta_err option \<Rightarrow>
   (BundleDescriptor \<Rightarrow> 's \<Rightarrow> 's \<times> meta_err option) \<Rightarrow> 's \<Rightarrow> ('s \<times> meta_err option) option" where
  "ListBundlesApply E st m repo settings late f s =
     map_option (\<lambda>listed. list_apply f late listed s) (ListBundles E st m repo settings)"

definition GetLatestBundle :: "'v env \<Rightarrow> 'm Store \<Rightarrow> 'm \<Rightarrow> string \<Rightarrow> (meta_err, string) res" where
  "GetLatestBundle E st m repo =
     (case RepoExists st m repo of
        Some e \<Rightarrow> Inl e
      | None \<Rightarrow>
          rbind (meta_store_page st m (GetArchivePathPrefixToBundles repo) '''' 1000000 '''') (\<lambda>(ks, _).
            if ks = [] then Inl NoBundles
            else case GetArchivePathComponents (en_ksuid E) (last ks) of
                Inl e \<Rightarrow> Inl (BadPath e)
              | Inr apc \<Rightarrow> Inr (apc_BundleID apc)))"


section \<open>Repositories\<close>

definition getRepoDescriptorByRepoName :: "'v env \<Rightarrow> 'm Store \<Rightarrow> 'm \<Rightarrow> string \<Rightarrow> (meta_err, RepoDescriptor) res" where
  "getRepoDescriptorByRepoName E st m repoName =
     (case st_Has st m (GetArchivePathToRepoDescriptor repoName) of
        Inl e \<Rightarrow> Inl (StoreFail e)
      | Inr has \<Rightarrow>
          if \<not> has then Inl StatusNotFound
          else rbind (read_yaml st (en_repo E) m (GetArchivePathToRepoDescriptor repoName))
            (\<lambda>rd. if rd_Name rd \<noteq> repoName then Inl (IdMismatch (rd_Name rd) repoName) else Inr rd))"

definition GetRepo :: "'v env \<Rightarrow> 'm Store \<Rightarrow> 'm \<Rightarrow> string \<Rightarrow> (meta_err, RepoDescriptor) res" where
  "GetRepo E st m repo = read_yaml st (en_repo E) m (GetArchivePathToRepoDescriptor repo)"

definition getRepoAsync :: "'v env \<Rightarrow> 'm Store \<Rightarrow> 'm \<Rightarrow> string \<Rightarrow> RepoDescriptor fetched" where
  "getRepoAsync E st m key =
     (case GetArchivePathComponents (en_ksuid E) key of
        Inl e \<Rightarrow> Inl (BadPath e)
      | Inr apc \<Rightarrow> skip_missing (getRepoDescriptorByRepoName E st m (apc_Repo apc)))"

definition fetchRepoBatch :: "'v env \<Rightarrow> 'm Store \<Rightarrow> 'm \<Rightarrow> string list \<Rightarrow> (meta_err, RepoDescriptor list) res" where
  "fetchRepoBatch E st m = fetch_batch RepoDescriptors_Less (getRepoAsync E st m) (en_sched E)"

definition fetchRepos ::
  "'v env \<Rightarrow> 'm Store \<Rightarrow> 'm \<Rightarrow> keyBatchEvent list \<Rightarrow> RepoDescriptor list list \<times> meta_err option" where
  "fetchRepos E st m = fetch_batches (fetchRepoBatch E st m)"

definition listReposChan ::
  "'v env \<Rightarrow> 'm Store \<Rightarrow> 'm \<Rightarrow> Settings \<Rightarrow> (RepoDescriptor list list \<times> meta_err option) option" where
  "listReposChan E st m settings =
     map_option (fetchRepos E st m)
       (fetchKeys (meta_store_page st m GetArchivePathPrefixToRepos '''' (set_batchSize settings)) '''')"

definition ListRepos ::
  "'v env \<Rightarrow> 'm Store \<Rightarrow> 'm \<Rightarrow> Settings \<Rightarrow> (RepoDescriptor list \<times> meta_err option) option" where
  "ListRepos E st m settings = map_option (map_prod concat id) (listReposChan E st m settings)"

definition ListReposApply ::
  "'v env \<Rightarrow> 'm Store \<Rightarrow> 'm \<Rightarrow> Settings \<Rightarrow> meta_err option \<Rightarrow>
   (RepoDescriptor \<Rightarrow> 's \<Rightarrow> 's \<times> meta_err option) \<Rightarrow> 's \<Rightarrow> ('s \<times> meta_err option) option" where
  "ListReposApply E st m settings late f s =
     map_option (\<lambda>listed. list_apply f late listed s) (ListRepos E st m settings)"

section \<open>Labels\<close>

text \<open>
  A label is read from the versioned store; \<open>label\<close> is the descriptor to start from, and \<open>version\<close>
  the generation wanted, empty for the current one.
\<close>

definition label_read ::
  "'v env \<Rightarrow> 'v Store \<Rightarrow> 'v \<Rightarrow> string \<Rightarrow> string \<Rightarrow> (meta_err, bytes) res" where
  "label_read E st v archivePath version =
     (if version \<noteq> '''' then
        (case en_versioned E of
           None \<Rightarrow> Inl VersionedStoreRequired
         | Some vs \<Rightarrow> (case vs_GetVersion vs v archivePath version of Inl e \<Rightarrow> Inl (StoreFail e) | Inr b \<Rightarrow> Inr b))
      else (case st_Get st v archivePath of Inl e \<Rightarrow> Inl (StoreFail e) | Inr b \<Rightarrow> Inr b))"

definition DownloadDescriptor ::
  "'v env \<Rightarrow> ('m, 'v) Stores \<Rightarrow> 'm \<Rightarrow> 'v \<Rightarrow> string \<Rightarrow> LabelDescriptor \<Rightarrow> string \<Rightarrow> bool \<Rightarrow> (meta_err, LabelDescriptor) res" where
  "DownloadDescriptor E sx m v repo label version checkRepoExists =
     (case if checkRepoExists then RepoExists (sx_Metadata sx) m repo else None of
        Some e \<Rightarrow> Inl e
      | None \<Rightarrow>
          let archivePath = GetArchivePathToLabel repo (ld_Name label) in
          (case st_Has (sx_VMetadata sx) v archivePath of
             Inl e \<Rightarrow> Inl (StoreFail e)
           | Inr has \<Rightarrow>
               if \<not> has then Inl StatusNotFound
               else rbind (label_read E (sx_VMetadata sx) v archivePath version) (\<lambda>b.
                 case en_label_over E label b of Inl e \<Rightarrow> Inl (YamlFail e) | Inr l \<Rightarrow> Inr l)))"

text \<open>
  \<open>DownloadDescriptorVersions\<close> unmarshals every version over the result of the previous one.
\<close>

fun label_versions ::
  "'v env \<Rightarrow> 'v VersionedStore \<Rightarrow> 'v \<Rightarrow> string \<Rightarrow> LabelDescriptor \<Rightarrow> string list \<Rightarrow> (meta_err, LabelDescriptor list) res" where
  "label_versions E vs v archivePath label [] = Inr []"
| "label_versions E vs v archivePath label (version # versions) =
     (case vs_GetVersion vs v archivePath version of
        Inl e \<Rightarrow> Inl (StoreFail e)
      | Inr b \<Rightarrow>
          (case en_label_over E label b of
             Inl e \<Rightarrow> Inl (YamlFail e)
           | Inr l \<Rightarrow> rbind (label_versions E vs v archivePath l versions) (\<lambda>ls. Inr (l # ls))))"

definition DownloadDescriptorVersions ::
  "'v env \<Rightarrow> ('m, 'v) Stores \<Rightarrow> 'm \<Rightarrow> 'v \<Rightarrow> string \<Rightarrow> LabelDescriptor \<Rightarrow> bool \<Rightarrow> (meta_err, LabelDescriptor list) res" where
  "DownloadDescriptorVersions E sx m v repo label checkRepoExists =
     (case if checkRepoExists then RepoExists (sx_Metadata sx) m repo else None of
        Some e \<Rightarrow> Inl e
      | None \<Rightarrow>
          let archivePath = GetArchivePathToLabel repo (ld_Name label) in
          (case st_Has (sx_VMetadata sx) v archivePath of
             Inl e \<Rightarrow> Inl (StoreFail e)
           | Inr has \<Rightarrow>
               if \<not> has then Inl StatusNotFound
               else (case en_versioned E of
                   None \<Rightarrow> Inl VersionedStoreRequired
                 | Some vs \<Rightarrow>
                     (case vs_KeyVersions vs v archivePath of
                        Inl e \<Rightarrow> Inl (StoreFail e)
                      | Inr versions \<Rightarrow> label_versions E vs v archivePath label versions))))"

definition UploadDescriptor ::
  "'v env \<Rightarrow> ('m, 'v) Stores \<Rightarrow> 'm \<Rightarrow> 'v \<Rightarrow> string \<Rightarrow> string \<Rightarrow> LabelDescriptor \<Rightarrow> 'v \<times> meta_err option" where
  "UploadDescriptor E sx m v repo bundleID label =
     (case RepoExists (sx_Metadata sx) m repo of
        Some e \<Rightarrow> (v, Some e)
      | None \<Rightarrow>
          (case cd_Marshal (en_label E) (label\<lparr>ld_BundleID := bundleID\<rparr>) of
             Inl e \<Rightarrow> (v, Some (YamlFail e))
           | Inr buffer \<Rightarrow>
               (case put_crc (sx_VMetadata sx) v (GetArchivePathToLabel repo (ld_Name label)) buffer OverWrite of
                  (v', e) \<Rightarrow> (v', map_option StoreFail e))))"

text \<open>
  One worker of the label listing; \<open>now\<close> is the time put in the descriptor it starts from. A key
  with its version has the form \<open>key#version\<close>; the code panics when the key has another hash sign,
  which ends the process and is the error \<open>DevPanic\<close> here.
\<close>

definition strings_Split :: "char \<Rightarrow> string \<Rightarrow> string list" where
  "strings_Split c s = splitN (Suc (length s)) c s" \<comment> \<open>no string has more parts than that\<close>

definition new_label :: "string \<Rightarrow> go_time \<Rightarrow> LabelDescriptor" where
  "new_label name now = \<lparr>ld_Name = name, ld_BundleID = '''', ld_Timestamp = now, ld_Contributors = []\<rparr>"

definition getLabelAsync ::
  "'v env \<Rightarrow> ('m, 'v) Stores \<Rightarrow> 'm \<Rightarrow> 'v \<Rightarrow> go_time \<Rightarrow> string \<Rightarrow> bool \<Rightarrow> string \<Rightarrow> LabelDescriptor fetched" where
  "getLabelAsync E sx m v now repo withVersions key =
     (let parts = strings_Split CHR ''#'' key in
      if withVersions \<and> length parts \<noteq> 2 then Inl DevPanic
      else
        let k = (if withVersions then parts ! 0 else key); version = (if withVersions then parts ! 1 else '''') in
        (case GetArchivePathComponents (en_ksuid E) k of
           Inl e \<Rightarrow> Inl (BadPath e)
         | Inr apc \<Rightarrow>
             rbind (DownloadDescriptor E sx m v repo (new_label (apc_LabelName apc) now) version False) (\<lambda>l.
               if ld_Name l = '''' then Inr (Some (l\<lparr>ld_Name := apc_LabelName apc\<rparr>))
               else if ld_Name l \<noteq> apc_LabelName apc then Inl (IdMismatch (ld_Name l) (apc_LabelName apc))
               else Inr (Some l))))"

definition fetchLabelBatch ::
  "'v env \<Rightarrow> ('m, 'v) Stores \<Rightarrow> 'm \<Rightarrow> 'v \<Rightarrow> go_time \<Rightarrow> string \<Rightarrow> Settings \<Rightarrow> string list \<Rightarrow>
   (meta_err, LabelDescriptor list) res" where
  "fetchLabelBatch E sx m v now repo settings =
     fetch_batch LabelDescriptors_Less (getLabelAsync E sx m v now repo (set_labelVersions settings)) (en_sched E)"

definition fetchLabels ::
  "'v env \<Rightarrow> ('m, 'v) Stores \<Rightarrow> 'm \<Rightarrow> 'v \<Rightarrow> go_time \<Rightarrow> string \<Rightarrow> Settings \<Rightarrow> keyBatchEvent list \<Rightarrow>
   LabelDescriptor list list \<times> meta_err option" where
  "fetchLabels E sx m v now repo settings = fetch_batches (fetchLabelBatch E sx m v now repo settings)"

definition listLabelsChan ::
  "'v env \<Rightarrow> ('m, 'v) Stores \<Rightarrow> 'm \<Rightarrow> 'v \<Rightarrow> go_time \<Rightarrow> string \<Rightarrow> Settings \<Rightarrow>
   (LabelDescriptor list list \<times> meta_err option) option" where
  "listLabelsChan E sx m v now repo settings =
     (let unversioned = set_labelVersions settings
            \<and> (case en_versioned E of None \<Rightarrow> True | Some vs \<Rightarrow> vs_IsVersioned vs v \<noteq> Inr True)
      in if unversioned then Some ([], Some VersionedStoreRequired)
      else
        (case RepoExists (sx_Metadata sx) m repo of
           Some e \<Rightarrow> Some ([], Some e)
         | None \<Rightarrow>
             map_option (\<lambda>batches.
                 fetchLabels E sx m v now repo settings
                   (case (set_labelVersions settings, en_versioned E) of
                      (True, Some vs) \<Rightarrow> versionedKeys (vs_KeyVersions vs v) batches
                    | _ \<Rightarrow> batches))
               (fetchKeys (meta_store_page (sx_VMetadata sx) v
                  (GetArchivePathPrefixToLabels repo [set_labelPrefix settings]) '''' (set_batchSize settings)) '''')))"

definition ListLabels ::
  "'v env \<Rightarrow> ('m, 'v) Stores \<Rightarrow> 'm \<Rightarrow> 'v \<Rightarrow> go_time \<Rightarrow> string \<Rightarrow> Settings \<Rightarrow>
   (LabelDescriptor list \<times> meta_err option) option" where
  "ListLabels E sx m v now repo settings =
     map_option (map_prod concat id) (listLabelsChan E sx m v now repo settings)"

definition ListLabelsApply ::
  "'v env \<Rightarrow> ('m, 'v) Stores \<Rightarrow> 'm \<Rightarrow> 'v \<Rightarrow> go_time \<Rightarrow> string \<Rightarrow> Settings \<Rightarrow> meta_err option \<Rightarrow>
   (LabelDescriptor \<Rightarrow> 's \<Rightarrow> 's \<times> meta_err option) \<Rightarrow> 's \<Rightarrow> ('s \<times> meta_err option) option" where
  "ListLabelsApply E sx m v now repo settings late f s =
     map_option (\<lambda>listed. list_apply f late listed s) (ListLabels E sx m v now repo settings)"


section \<open>Diamonds and splits\<close>

definition readDiamond :: "'v env \<Rightarrow> 'v Store \<Rightarrow> 'v \<Rightarrow> string \<Rightarrow> string \<Rightarrow> (meta_err, DiamondDescriptor) res" where
  "readDiamond E st v repo key =
     (case GetArchivePathComponents (en_ksuid E) key of
        Inl e \<Rightarrow> Inl (BadPath e)
      | Inr apc \<Rightarrow>
          let src = (if apc_IsFinalState apc then GetArchivePathToFinalDiamond repo (apc_DiamondID apc)
                     else GetArchivePathToInitialDiamond repo (apc_DiamondID apc))
          in rbind (read_yaml st (en_diamond E) v src) (\<lambda>sd.
               if dd_DiamondID sd \<noteq> apc_DiamondID apc then Inl (IdMismatch (dd_DiamondID sd) (apc_DiamondID apc))
               else Inr sd))"

definition getDiamondAsync :: "'v env \<Rightarrow> 'v Store \<Rightarrow> 'v \<Rightarrow> string \<Rightarrow> string \<Rightarrow> DiamondDescriptor fetched" where
  "getDiamondAsync E st v repo key = skip_missing (readDiamond E st v repo key)"

definition fetchDiamondBatch ::
  "'v env \<Rightarrow> 'v Store \<Rightarrow> 'v \<Rightarrow> string \<Rightarrow> string list \<Rightarrow> (meta_err, DiamondDescriptor list) res" where
  "fetchDiamondBatch E st v repo = fetch_batch DiamondDescriptors_Less (getDiamondAsync E st v repo) (en_sched E)"

definition fetchDiamonds ::
  "'v env \<Rightarrow> 'v Store \<Rightarrow> 'v \<Rightarrow> string \<Rightarrow> keyBatchEvent list \<Rightarrow> DiamondDescriptor list list \<times> meta_err option" where
  "fetchDiamonds E st v repo = fetch_batches (fetchDiamondBatch E st v repo)"

definition listDiamondsChan ::
  "'v env \<Rightarrow> ('m, 'v) Stores \<Rightarrow> 'm \<Rightarrow> 'v \<Rightarrow> string \<Rightarrow> Settings \<Rightarrow>
   (DiamondDescriptor list list \<times> meta_err option) option" where
  "listDiamondsChan E sx m v repo settings =
     (case RepoExists (sx_Metadata sx) m repo of
        Some e \<Rightarrow> Some ([], Some e)
      | None \<Rightarrow>
          map_option (\<lambda>batches.
              fetchDiamonds E (sx_VMetadata sx) v repo
                (mergeKeys (en_ksuid E) (\<lambda>_. None) batches))
            (fetchKeys (\<lambda>tok. basenameKeyFilter ''diamond-''
                (meta_store_page (sx_VMetadata sx) v (GetArchivePathPrefixToDiamonds repo) '''' (set_batchSize settings) tok))
              ''''))"

definition ListDiamonds ::
  "'v env \<Rightarrow> ('m, 'v) Stores \<Rightarrow> 'm \<Rightarrow> 'v \<Rightarrow> string \<Rightarrow> Settings \<Rightarrow>
   (DiamondDescriptor list \<times> meta_err option) option" where
  "ListDiamonds E sx m v repo settings =
     map_option (map_prod concat id) (listDiamondsChan E sx m v repo settings)"

definition ListDiamondsApply ::
  "'v env \<Rightarrow> ('m, 'v) Stores \<Rightarrow> 'm \<Rightarrow> 'v \<Rightarrow> string \<Rightarrow> Settings \<Rightarrow> meta_err option \<Rightarrow>
   (DiamondDescriptor \<Rightarrow> 's \<Rightarrow> 's \<times> meta_err option) \<Rightarrow> 's \<Rightarrow> ('s \<times> meta_err option) option" where
  "ListDiamondsApply E sx m v repo settings late f s =
     map_option (\<lambda>listed. list_apply f late listed s) (ListDiamonds E sx m v repo settings)"

definition readSplit :: "'v env \<Rightarrow> 'v Store \<Rightarrow> 'v \<Rightarrow> string \<Rightarrow> string \<Rightarrow> (meta_err, SplitDescriptor) res" where
  "readSplit E st v repo key =
     (case GetArchivePathComponents (en_ksuid E) key of
        Inl e \<Rightarrow> Inl (BadPath e)
      | Inr apc \<Rightarrow>
          let src = (if apc_IsFinalState apc
                     then GetArchivePathToFinalSplit repo (apc_DiamondID apc) (apc_SplitID apc)
                     else GetArchivePathToInitialSplit repo (apc_DiamondID apc) (apc_SplitID apc))
          in rbind (read_yaml st (en_split E) v src) (\<lambda>sd.
               if sd_SplitID sd \<noteq> apc_SplitID apc then Inl (IdMismatch (sd_SplitID sd) (apc_SplitID apc))
               else Inr sd))"

definition getSplitAsync :: "'v env \<Rightarrow> 'v Store \<Rightarrow> 'v \<Rightarrow> string \<Rightarrow> string \<Rightarrow> SplitDescriptor fetched" where
  "getSplitAsync E st v repo key = skip_missing (readSplit E st v repo key)"

definition fetchSplitBatch ::
  "'v env \<Rightarrow> 'v Store \<Rightarrow> 'v \<Rightarrow> string \<Rightarrow> string list \<Rightarrow> (meta_err, SplitDescriptor list) res" where
  "fetchSplitBatch E st v repo = fetch_batch SplitDescriptors_Less (getSplitAsync E st v repo) (en_sched E)"

definition fetchSplits ::
  "'v env \<Rightarrow> 'v Store \<Rightarrow> 'v \<Rightarrow> string \<Rightarrow> keyBatchEvent list \<Rightarrow> SplitDescriptor list list \<times> meta_err option" where
  "fetchSplits E st v repo = fetch_batches (fetchSplitBatch E st v repo)"

definition listSplitsChan ::
  "'v env \<Rightarrow> ('m, 'v) Stores \<Rightarrow> 'm \<Rightarrow> 'v \<Rightarrow> string \<Rightarrow> string \<Rightarrow> Settings \<Rightarrow>
   (SplitDescriptor list list \<times> meta_err option) option" where
  "listSplitsChan E sx m v repo diamondID settings =
     (case RepoExists (sx_Metadata sx) m repo of
        Some e \<Rightarrow> Some ([], Some e)
      | None \<Rightarrow>
          (case DiamondExists (sx_VMetadata sx) v repo diamondID of
             Some e \<Rightarrow> Some ([], Some e)
           | None \<Rightarrow>
               map_option (\<lambda>batches.
                   fetchSplits E (sx_VMetadata sx) v repo
                     (mergeKeys (en_ksuid E) (\<lambda>_. None) batches))
                 (fetchKeys (\<lambda>tok. basenameKeyFilter ''split-''
                     (meta_store_page (sx_VMetadata sx) v (GetArchivePathPrefixToSplits repo diamondID) ''''
                       (set_batchSize settings) tok))
                   '''')))"

definition ListSplits ::
  "'v env \<Rightarrow> ('m, 'v) Stores \<Rightarrow> 'm \<Rightarrow> 'v \<Rightarrow> string \<Rightarrow> string \<Rightarrow> Settings \<Rightarrow>
   (SplitDescriptor list \<times> meta_err option) option" where
  "ListSplits E sx m v repo diamondID settings =
     map_option (map_prod concat id) (listSplitsChan E sx m v repo diamondID settings)"

definition ListSplitsApply ::
  "'v env \<Rightarrow> ('m, 'v) Stores \<Rightarrow> 'm \<Rightarrow> 'v \<Rightarrow> string \<Rightarrow> string \<Rightarrow> Settings \<Rightarrow> meta_err option \<Rightarrow>
   (SplitDescriptor \<Rightarrow> 's \<Rightarrow> 's \<times> meta_err option) \<Rightarrow> 's \<Rightarrow> ('s \<times> meta_err option) option" where
  "ListSplitsApply E sx m v repo diamondID settings late f s =
     map_option (\<lambda>listed. list_apply f late listed s) (ListSplits E sx m v repo diamondID settings)"

text \<open>\<open>ListContexts\<close> follows the tokens itself; it does not stop at an empty page.\<close>

definition GetArchivePathPrefixToContexts :: string where
  "GetArchivePathPrefixToContexts = ''contexts/''"

partial_function (option) contexts_loop ::
  "(string \<Rightarrow> bool) \<Rightarrow> (string \<Rightarrow> (meta_err, string list \<times> string) res) \<Rightarrow> string \<Rightarrow> string list \<Rightarrow>
   (meta_err, string list) res option" where
  "contexts_loop ksuid_ok iterator tok contexts =
     (case iterator tok of
        Inl e \<Rightarrow> Some (Inl (ConfigContext (Some e)))
      | Inr (keys, next_tok) \<Rightarrow>
          (case those (map (\<lambda>k. case GetArchivePathComponents ksuid_ok k of
                              Inl _ \<Rightarrow> None | Inr c \<Rightarrow> Some (apc_Context c)) keys) of
             None \<Rightarrow> Some (Inl (ConfigContext None))
           | Some cs \<Rightarrow>
               if next_tok = '''' then Some (Inr (sort (contexts @ cs)))
               else contexts_loop ksuid_ok iterator next_tok (contexts @ cs)))"

definition ListContexts :: "(string \<Rightarrow> bool) \<Rightarrow> 's Store \<Rightarrow> 's \<Rightarrow> (meta_err, string list) res option" where
  "ListContexts ksuid_ok config s =
     contexts_loop ksuid_ok (meta_store_page config s GetArchivePathPrefixToContexts '''' 16) '''' []"


section \<open>Pages of keys\<close>

text \<open>
  What an iterator delivers from a token on: the pages of keys, and the error that ends them, if any.
\<close>

inductive pages ::
  "(string \<Rightarrow> (meta_err, string list \<times> string) res) \<Rightarrow> string \<Rightarrow> string list list \<Rightarrow> meta_err option \<Rightarrow> bool" where
  final_page: "it tok = Inr (ks, '''') \<Longrightarrow> pages it tok [ks] None"
| more_pages: "it tok = Inr (ks, nxt) \<Longrightarrow> nxt \<noteq> '''' \<Longrightarrow> pages it nxt kss e \<Longrightarrow> pages it tok (ks # kss) e"
| failed_page: "it tok = Inl e \<Longrightarrow> pages it tok [] (Some e)"

inductive_simps pages_simps: "pages it tok [] e" "pages it tok (ks # kss) e"

abbreviation good_batch :: "string list \<Rightarrow> keyBatchEvent" where
  "good_batch ks \<equiv> \<lparr>kb_keys = ks, kb_err = None\<rparr>"

definition error_batch :: "meta_err option \<Rightarrow> keyBatchEvent list" where
  "error_batch e = (case e of None \<Rightarrow> [] | Some x \<Rightarrow> [\<lparr>kb_keys = [], kb_err = Some x\<rparr>])"

lemma error_batch_simps [simp]:
  "error_batch None = []" "error_batch (Some x) = [\<lparr>kb_keys = [], kb_err = Some x\<rparr>]"
  by (simp_all add: error_batch_def)

lemma fetchKeys_pages:
  "pages it tok kss e \<Longrightarrow>
   fetchKeys it tok = Some (map good_batch (takeWhile (\<lambda>ks. ks \<noteq> []) kss)
     @ (if [] \<in> set kss then [] else error_batch e))"
  by (induction rule: pages.induct) (subst fetchKeys.simps; auto)+

lemma pages_filtered:
  "pages it tok kss e \<Longrightarrow>
   pages (\<lambda>t. basenameKeyFilter flt (it t)) tok (map (filter (\<lambda>k. starts_with flt (path_Base k))) kss) e"
  by (induction rule: pages.induct)
    (auto simp: basenameKeyFilter_def intro: pages.intros)

lemma pages_deterministic: "pages it tok kss e \<Longrightarrow> pages it tok kss' e' \<Longrightarrow> kss' = kss \<and> e' = e"
proof (induction arbitrary: kss' e' rule: pages.induct)
  case (final_page it tok ks)
  from final_page(2,1) show ?case by cases auto
next
  case (more_pages it tok ks nxt kss e)
  from more_pages(5,1,2) more_pages.IH show ?case by cases auto
next
  case (failed_page it tok e)
  from failed_page(2,1) show ?case by cases auto
qed

section \<open>Batches\<close>

lemma go_sort_key:
  assumes "\<And>a b. lt a b \<longleftrightarrow> (f a :: 'k :: linorder) < f b"
  shows "go_sort lt xs = sort_key f xs"
proof -
  have "sort_insert lt x ys = insort_key f x ys" for x ys
    by (induction ys) (auto simp: assms not_less)
  then have "sort_insert lt = insort_key f" by (intro ext)
  then show ?thesis by (simp add: go_sort_def sort_key_def)
qed

lemma collect_all: "(\<And>k. k \<in> set ks \<Longrightarrow> get k = Inr (Some (g k))) \<Longrightarrow> collect (map get ks) = Inr (map g ks)"
  by (induction ks) auto

lemma fetch_batch_sorted:
  assumes "mset (sched ks) = mset ks" and "\<And>k. k \<in> set ks \<Longrightarrow> get k = Inr (Some (g k))"
    and "\<And>a b. lt a b \<longleftrightarrow> (f a :: 'k :: linorder) < f b"
    and "sorted_wrt (<) (map (f \<circ> g) ks)"
  shows "fetch_batch lt get sched ks = Inr (map g ks)"
proof -
  have "set (sched ks) = set ks" using assms(1) by (metis set_mset_mset)
  with assms(2) have "collect (map get (sched ks)) = Inr (map g (sched ks))" by (intro collect_all) auto
  moreover have "sort_key f (map g (sched ks)) = map g ks"
  proof (rule sort_key_inj_key_eq)
    show "mset (map g (sched ks)) = mset (map g ks)" by (simp add: assms(1))
    from assms(4) have "distinct (map f (map g ks))" "sorted (map f (map g ks))"
      by (auto simp: strict_sorted_iff)
    with \<open>set (sched ks) = set ks\<close> show "inj_on f (set (map g (sched ks)))" "sorted (map f (map g ks))"
      by (auto simp: distinct_map dest: inj_on_imageI)
  qed
  ultimately show ?thesis by (simp add: fetch_batch_def go_sort_key [of lt f, OF assms(3)])
qed

lemma fetch_batches_all:
  assumes "\<And>b. b \<in> set bs \<Longrightarrow> kb_err b = None \<and> fetch (kb_keys b) = Inr (h (kb_keys b))"
  shows "fetch_batches fetch bs = (map (h \<circ> kb_keys) bs, None)"
  using assms by (induction bs) auto

lemma sorted_wrt_concat_each: "sorted_wrt P (concat kss) \<Longrightarrow> ks \<in> set kss \<Longrightarrow> sorted_wrt P ks"
  by (induction kss) (auto simp: sorted_wrt_append)


section \<open>A listing is complete\<close>

lemma bundle_prefix_path:
  "no_slash repo \<Longrightarrow> no_slash i \<Longrightarrow>
   GetArchivePathComponents k (GetArchivePathPrefixToBundles repo @ i @ ''/'') =
     Inr (no_components\<lparr>apc_Repo := repo, apc_BundleID := i\<rparr>)"
  by (simp add: parse_path GetArchivePathPrefixToBundles_def no_components_def)


lemma full_pages: "[] \<notin> set (butlast kss) \<Longrightarrow> concat (takeWhile (\<lambda>ks. ks \<noteq> []) kss) = concat kss"
  by (induction kss) (auto split: if_splits)

lemma batches_listed:
  fixes f :: "'a \<Rightarrow> 'k :: linorder"
  assumes "pages it '''' kss None" and "[] \<notin> set (butlast kss)"
    and "\<And>ks. mset (sched ks) = mset ks"
    and "\<And>k. k \<in> set (concat kss) \<Longrightarrow> get k = Inr (Some (g k))"
    and "\<And>a b. lt a b \<longleftrightarrow> f a < f b"
    and "sorted_wrt (<) (map (f \<circ> g) (concat kss))"
  shows "map_option (map_prod concat id) (map_option (fetch_batches (fetch_batch lt get sched)) (fetchKeys it '''')) =
    Some (map g (concat kss), None)"
proof -
  let ?kss = "takeWhile (\<lambda>ks. ks \<noteq> []) kss"
  have sub: "concat ?kss = concat kss" by (rule full_pages [OF assms(2)])
  have "fetch_batches (fetch_batch lt get sched) (map good_batch ?kss) =
      (map (map g \<circ> kb_keys) (map good_batch ?kss), None)"
  proof (rule fetch_batches_all)
    fix b assume "b \<in> set (map good_batch ?kss)"
    then obtain ks where b: "b = good_batch ks" and ks: "ks \<in> set ?kss" by auto
    from ks have in_kss: "ks \<in> set kss" by (metis set_takeWhileD)
    have "sorted_wrt (<) (map (f \<circ> g) ks)"
      using assms(6) sorted_wrt_concat_each [of "(<)" "map (map (f \<circ> g)) kss" "map (f \<circ> g) ks"] in_kss
      by (simp add: map_concat)
    moreover have "get k = Inr (Some (g k))" if "k \<in> set ks" for k
      using assms(4) in_kss that by auto
    ultimately have "fetch_batch lt get sched ks = Inr (map g ks)"
      using fetch_batch_sorted [of sched ks get g lt f] assms(3,5) by blast
    with b show "kb_err b = None \<and> fetch_batch lt get sched (kb_keys b) = Inr (map g (kb_keys b))" by simp
  qed
  moreover have "concat (map (map g) ?kss) = map g (concat kss)"
    by (simp add: map_concat [symmetric] sub)
  ultimately show ?thesis by (simp add: fetchKeys_pages [OF assms(1)] comp_def)
qed

abbreviation bundle_page :: "'m Store \<Rightarrow> 'm \<Rightarrow> string \<Rightarrow> Settings \<Rightarrow> string \<Rightarrow> (meta_err, string list \<times> string) res" where
  "bundle_page st m repo settings \<equiv>
     meta_store_page st m (GetArchivePathPrefixToBundles repo) ''/'' (set_batchSize settings)"

lemma ListBundles_listed:
  assumes "RepoExists st m repo = None" and "pages (bundle_page st m repo settings) '''' kss None"
    and "[] \<notin> set (butlast kss)" and "concat kss = map (\<lambda>i. GetArchivePathPrefixToBundles repo @ i @ ''/'') ids"
    and "\<And>ks. mset (en_sched E ks) = mset ks" and "sorted_wrt (<) ids"
    and "\<And>i. i \<in> set ids \<Longrightarrow>
      downloadBundleDescriptor E st m repo (GetArchivePathPrefixToBundles repo @ i @ ''/'') settings = Inr (desc i)
      \<and> bd_ID (desc i) = i"
  shows "ListBundles E st m repo settings = Some (map desc ids, None)"
proof -
  let ?p = "\<lambda>i. GetArchivePathPrefixToBundles repo @ i @ ''/''"
  have inj: "inj_on ?p (set ids)" by (auto simp: inj_on_def)
  define g where "g k = desc (the_inv_into (set ids) ?p k)" for k
  have g: "g (?p i) = desc i" if "i \<in> set ids" for i
    using that the_inv_into_f_f [OF inj that] by (simp add: g_def)
  have map_g: "map g (concat kss) = map desc ids"
    using g by (simp add: assms(4))
  have "map (bd_ID \<circ> g) (concat kss) = ids"
    using assms(7) g by (auto simp: assms(4) intro: map_idI)
  then have "map_option (map_prod concat id) (map_option (fetch_batches
      (fetch_batch BundleDescriptors_Less (getBundleAsync E st m repo settings) (en_sched E)))
      (fetchKeys (bundle_page st m repo settings) '''')) = Some (map g (concat kss), None)"
    using assms(6,7) g
    by (intro batches_listed [where f = bd_ID] assms(2,3,5))
      (auto simp: assms(4) getBundleAsync_def skip_missing_def BundleDescriptors_Less_def)
  then show ?thesis
    by (simp add: ListBundles_def listBundlesChan_def fetchBundles_def fetchBundleBatch_def assms(1) map_g)
qed

text \<open>
  Listing the bundles of a repository returns every bundle exactly once, in the order of their
  identifiers, whatever the size of the batches and the order in which the concurrent workers
  deliver, provided that the store delivers the keys in order in pages of which only the last may
  be empty, and that each descriptor can be read and has the identifier of its path.
\<close>

theorem ListBundles_complete:
  assumes "RepoExists st m repo = None" and "pages (bundle_page st m repo settings) '''' kss None"
    and "[] \<notin> set (butlast kss)" and "concat kss = map (\<lambda>i. GetArchivePathPrefixToBundles repo @ i @ ''/'') ids"
    and "\<forall>ks. mset (en_sched E ks) = mset ks" and "sorted_wrt (<) ids"
    and "no_slash repo" and "\<forall>i \<in> set ids. no_slash i"
    and "\<not> set_withMinimalBundle settings"
    and "\<forall>i \<in> set ids. read_yaml st (en_bundle E) m (GetArchivePathToBundle repo i) = Inr (desc i) \<and> bd_ID (desc i) = i"
  shows "ListBundles E st m repo settings = Some (map desc ids, None)"
  using assms
  by (intro ListBundles_listed [where kss = kss])
    (auto simp: downloadBundleDescriptor_def bundle_prefix_path no_components_def)

text \<open>A read-only store with fixed objects and pages, for concrete instances.\<close>

definition fixed_store :: "(string \<times> bytes) list \<Rightarrow> (string \<times> string list \<times> string) list \<Rightarrow> unit Store" where
  "fixed_store os ps = \<lparr>st_Has = (\<lambda>_ k. Inr (map_of os k \<noteq> None)),
     st_Get = (\<lambda>_ k. case map_of os k of None \<Rightarrow> Inl ErrNotExists | Some b \<Rightarrow> Inr b),
     st_GetAttr = (\<lambda>_ _. Inl ErrNotImplemented), st_Put = (\<lambda>_ _ _ _. ((), Some ErrNotSupported)),
     st_PutCRC = None, st_Delete = (\<lambda>_ _. ((), Some ErrNotSupported)),
     st_Keys = (\<lambda>_. Some (Inr (map fst os))),
     st_KeysPrefix = (\<lambda>_ tok pfx delim n. case map_of ps tok of None \<Rightarrow> Inl ErrStorageAPI | Some p \<Rightarrow> Inr p),
     st_Clear = (\<lambda>_. ((), Some ErrNotImplemented)), st_piped = False\<rparr>"

definition byte_codec :: "(nat \<Rightarrow> 'a) \<Rightarrow> 'a codec" where
  "byte_codec f = \<lparr>cd_Marshal = (\<lambda>_. Inr []), cd_Unmarshal = (\<lambda>b. case b of [] \<Rightarrow> Inl ''empty'' | x # _ \<Rightarrow> Inr (f (unat x)))\<rparr>"

definition byte_id :: "nat \<Rightarrow> string" where
  "byte_id n = (if n = 0 then ''a'' else if n = 1 then ''b'' else ''c'')"

definition byte_label :: "nat \<Rightarrow> LabelDescriptor" where
  "byte_label n = \<lparr>ld_Name = byte_id n, ld_BundleID = byte_id n, ld_Timestamp = 0, ld_Contributors = []\<rparr>"

definition byte_repo :: "nat \<Rightarrow> RepoDescriptor" where
  "byte_repo n = \<lparr>rd_Name = byte_id n, rd_Description = ''d'', rd_Timestamp = 0,
     rd_Contributor = \<lparr>c_Name = '''', c_Email = ''''\<rparr>\<rparr>"

definition byte_env :: "unit env" where
  "byte_env = \<lparr>en_ksuid = (\<lambda>_. True), en_sched = rev, en_repo = byte_codec byte_repo,
     en_bundle = byte_codec (minimal_bundle \<circ> byte_id),
     en_bundle_over = (\<lambda>base b. map_sum id (decoded_over base) (cd_Unmarshal (byte_codec (minimal_bundle \<circ> byte_id)) b)), en_label = byte_codec byte_label,
     en_label_over = (\<lambda>_. cd_Unmarshal (byte_codec byte_label)),
     en_diamond = byte_codec (\<lambda>n. NewDiamondDescriptor (byte_id n) (Suc n)),
     en_split = byte_codec (\<lambda>n. NewSplitDescriptor (byte_id n) (Suc n)), en_versioned = None\<rparr>"

lemmas fixed_simps = fixed_store_def byte_env_def byte_codec_def byte_id_def

theorem ListBundles_complete_witness:
  "ListBundles byte_env
     (fixed_store [(''repos/r/repo.yaml'', [0]), (''bundles/r/a/bundle.yaml'', [0]),
         (''bundles/r/b/bundle.yaml'', [1]), (''bundles/r/c/bundle.yaml'', [2])]
       [('''', [''bundles/r/a/'', ''bundles/r/b/''], ''t''), (''t'', [''bundles/r/c/''], '''')])
     () ''r'' defaultSettings = Some (map minimal_bundle [''a'', ''b'', ''c''], None)"
  by (rule ListBundles_complete [where kss = "[[''bundles/r/a/'', ''bundles/r/b/''], [''bundles/r/c/'']]"
        and ids = "[''a'', ''b'', ''c'']"])
    (simp_all add: fixed_simps pages_simps RepoExists_def GetArchivePathToRepoDescriptor_def repoDescriptorFile_def
      GetArchivePathPrefixToBundles_def defaultSettings_def read_yaml_def GetArchivePathToBundle_def
      bundleDescriptorFile_def minimal_bundle_def less_char_def)


section \<open>One key for each diamond or split\<close>

lemma merge_key_acc:
  "merge_key k key (st, fl, err) = (case merge_key k key (st, [], err) of (st', fl', err') \<Rightarrow> (st', fl @ fl', err'))"
  by (auto simp: merge_key_def Let_def split: sum.split)

lemma fold_merge_acc:
  "fold (merge_key k) ks (st, fl, err) =
     (case fold (merge_key k) ks (st, [], err) of (st', fl', err') \<Rightarrow> (st', fl @ fl', err'))"
proof (induction ks arbitrary: st fl err)
  case (Cons key ks)
  obtain st1 fl1 err1 where one: "merge_key k key (st, [], err) = (st1, fl1, err1)" by (metis prod_cases3)
  obtain st2 fl2 err2 where two: "fold (merge_key k) ks (st1, [], err1) = (st2, fl2, err2)" by (metis prod_cases3)
  from Cons.IH [of st1 "fl @ fl1" err1] Cons.IH [of st1 fl1 err1] one two show ?case
    by (simp add: merge_key_acc [of k key st fl])
qed simp

lemma mergeKeys_batches:
  assumes "\<And>key. key \<in> set (concat kss) \<Longrightarrow> \<exists>apc. GetArchivePathComponents k key = Inr apc"
    and "fold (merge_key k) (concat kss) (st, [], None) = (st', out, err)"
  shows "concat (map kb_keys (mergeKeys k st (map good_batch kss))) = out
    \<and> (\<forall>b \<in> set (mergeKeys k st (map good_batch kss)). kb_err b = None)"
  using assms
proof (induction kss arbitrary: st out)
  case (Cons ks kss)
  have no_err: "\<exists>st1 fl1. fold (merge_key k) ks (st, fl, None) = (st1, fl1, None)" for st fl
    using Cons.prems(1)
  proof (induction ks arbitrary: st fl)
    case (Cons key ks)
    from Cons.prems obtain apc where "GetArchivePathComponents k key = Inr apc" by fastforce
    then have "\<exists>st1 fl1. merge_key k key (st, fl, None) = (st1, fl1, None)"
      by (simp add: merge_key_def Let_def)
    with Cons show ?case by auto
  qed simp
  obtain st1 fl1 where one: "fold (merge_key k) ks (st, [], None) = (st1, fl1, None)"
    using no_err by blast
  obtain st2 fl2 err2 where two: "fold (merge_key k) (concat kss) (st1, [], None) = (st2, fl2, err2)"
    by (metis prod_cases3)
  from one two Cons.prems(2) have "out = fl1 @ fl2" "st' = st2" "err = err2"
    by (simp_all add: fold_merge_acc [of k "concat kss" st1 fl1])
  with one two Cons.IH [of st1 fl2] Cons.prems(1) show ?case by auto
qed simp

text \<open>
  The keys of a listing, object by object: the final descriptor first, where there is one, then the
  initial one, which every object has.
\<close>

definition object_keys :: "('a \<Rightarrow> string) \<Rightarrow> ('a \<Rightarrow> string) \<Rightarrow> ('a \<times> bool) \<Rightarrow> string list" where
  "object_keys final initial obj = (if snd obj then [final (fst obj)] else []) @ [initial (fst obj)]"

definition object_key :: "('a \<Rightarrow> string) \<Rightarrow> ('a \<Rightarrow> string) \<Rightarrow> ('a \<times> bool) \<Rightarrow> string" where
  "object_key final initial obj = (if snd obj then final (fst obj) else initial (fst obj))"

definition is_key_of :: "(string \<Rightarrow> bool) \<Rightarrow> string \<Rightarrow> bool \<Rightarrow> string \<Rightarrow> bool" where
  "is_key_of k ident fin key \<longleftrightarrow>
     (\<exists>apc. GetArchivePathComponents k key = Inr apc \<and> apc_DiamondID apc @ apc_SplitID apc = ident
        \<and> ident \<noteq> '''' \<and> apc_IsFinalState apc = fin)"

lemma merge_key_step:
  assumes "is_key_of k ident fin key"
  shows "merge_key k key (st, fl, err) =
    (case st ident of
       None \<Rightarrow> if fin then (st(ident \<mapsto> \<lparr>sm_isFinal = True, sm_count = 1, sm_key = key\<rparr>), fl, err)
         else (st(ident := None), fl @ [key], err)
     | Some ks \<Rightarrow>
         let ks' = \<lparr>sm_isFinal = sm_isFinal ks \<or> fin, sm_count = sm_count ks + 1,
                    sm_key = if sm_isFinal ks \<and> \<not> fin then sm_key ks else key\<rparr>
         in if sm_count ks \<noteq> 0 \<or> \<not> sm_isFinal ks' then (st(ident := None), fl @ [sm_key ks'], err)
            else (st(ident \<mapsto> ks'), fl, err))"
proof -
  obtain apc where apc: "GetArchivePathComponents k key = Inr apc" "apc_DiamondID apc @ apc_SplitID apc = ident"
    "ident \<noteq> ''''" "apc_IsFinalState apc = fin"
    using assms by (auto simp: is_key_of_def)
  then have "\<not> (apc_SplitID apc = '''' \<and> apc_DiamondID apc = '''')" by auto
  with apc show ?thesis
    by (cases "st ident") (auto simp: merge_key_def no_state_def Let_def)
qed

lemma merge_object:
  assumes "is_key_of k ident True (final x)" and "is_key_of k ident False (initial x)" and "st ident = None"
  shows "fold (merge_key k) (object_keys final initial (x, fin)) (st, fl, None) =
    (st, fl @ [object_key final initial (x, fin)], None)"
proof -
  have "st(ident := None) = st" using assms(3) by auto
  with assms(3) show ?thesis
    by (simp add: object_keys_def object_key_def merge_key_step [OF assms(1)] merge_key_step [OF assms(2)] no_state_def)
qed

lemma merge_objects:
  assumes "\<And>x. x \<in> fst ` set objs \<Longrightarrow> is_key_of k (ident x) True (final x) \<and> is_key_of k (ident x) False (initial x)"
  shows "fold (merge_key k) (concat (map (object_keys final initial) objs)) (\<lambda>_. None, fl, None) =
    (\<lambda>_. None, fl @ map (object_key final initial) objs, None)"
  using assms
proof (induction objs arbitrary: fl)
  case (Cons p objs)
  obtain x fin where p: "p = (x, fin)" by (cases p)
  have "fold (merge_key k) (object_keys final initial (x, fin)) (\<lambda>_. None, fl, None) =
      (\<lambda>_. None, fl @ [object_key final initial (x, fin)], None)"
    using Cons.prems [of x] p by (intro merge_object [where ident = "ident x"]) auto
  with Cons p show ?case by simp
qed simp

lemma mergeKeys_objects:
  assumes "\<And>x. x \<in> fst ` set objs \<Longrightarrow> is_key_of k (ident x) True (final x) \<and> is_key_of k (ident x) False (initial x)"
    and "concat kss = concat (map (object_keys final initial) objs)"
  shows "concat (map kb_keys (mergeKeys k (\<lambda>_. None) (map good_batch kss))) = map (object_key final initial) objs
    \<and> (\<forall>b \<in> set (mergeKeys k (\<lambda>_. None) (map good_batch kss)). kb_err b = None)"
proof (rule mergeKeys_batches)
  show "fold (merge_key k) (concat kss) (\<lambda>_. None, [], None) =
      (\<lambda>_. None, map (object_key final initial) objs, None)"
    using merge_objects [of objs k ident final initial "[]"] assms by simp
  show "\<exists>apc. GetArchivePathComponents k key = Inr apc" if "key \<in> set (concat kss)" for key
    using that assms by (fastforce simp: object_keys_def is_key_of_def split: if_splits)
qed


lemma mset_go_sort: "mset (go_sort lt xs) = mset xs"
proof -
  have "mset (sort_insert lt x ys) = add_mset x (mset ys)" for x ys
    by (induction ys) auto
  then show ?thesis by (induction xs) (auto simp: go_sort_def)
qed

lemma fetch_batches_mset:
  assumes "\<And>ks. mset (sched ks) = mset ks" and "\<And>b. b \<in> set bs \<Longrightarrow> kb_err b = None"
    and "\<And>k. k \<in> set (concat (map kb_keys bs)) \<Longrightarrow> get k = Inr (Some (g k))"
  shows "\<exists>xss. fetch_batches (fetch_batch lt get sched) bs = (xss, None)
    \<and> mset (concat xss) = mset (map g (concat (map kb_keys bs)))"
  using assms(2,3)
proof (induction bs)
  case (Cons b bs)
  then obtain xss where rest: "fetch_batches (fetch_batch lt get sched) bs = (xss, None)"
    "mset (concat xss) = mset (map g (concat (map kb_keys bs)))" by auto
  have "set (sched (kb_keys b)) = set (kb_keys b)" using assms(1) by (metis set_mset_mset)
  with Cons.prems(2) have "collect (map get (sched (kb_keys b))) = Inr (map g (sched (kb_keys b)))"
    by (intro collect_all) auto
  then have "fetch_batch lt get sched (kb_keys b) = Inr (go_sort lt (map g (sched (kb_keys b))))"
    by (simp add: fetch_batch_def)
  with rest Cons.prems(1) [of b] assms(1) show ?case by (simp add: mset_go_sort)
qed simp

lemma split_keys:
  assumes "no_slash repo" and "no_slash did" and "no_slash sid" and "k did" and "sid \<noteq> ''''"
  shows "GetArchivePathComponents k (GetArchivePathToFinalSplit repo did sid) =
      Inr (no_components\<lparr>apc_Repo := repo, apc_DiamondID := did, apc_SplitID := sid,
        apc_ArchiveFileName := splitFinalDescriptorFile, apc_IsFinalState := True\<rparr>)"
    and "GetArchivePathComponents k (GetArchivePathToInitialSplit repo did sid) =
      Inr (no_components\<lparr>apc_Repo := repo, apc_DiamondID := did, apc_SplitID := sid,
        apc_ArchiveFileName := splitInitialDescriptorFile\<rparr>)"
  using assms by (simp_all add: build_path parse_path no_components_def)

lemma diamond_keys:
  assumes "no_slash repo" and "no_slash did" and "k did"
  shows "GetArchivePathComponents k (GetArchivePathToFinalDiamond repo did) =
      Inr (no_components\<lparr>apc_Repo := repo, apc_DiamondID := did,
        apc_ArchiveFileName := diamondFinalDescriptorFile, apc_IsFinalState := True\<rparr>)"
    and "GetArchivePathComponents k (GetArchivePathToInitialDiamond repo did) =
      Inr (no_components\<lparr>apc_Repo := repo, apc_DiamondID := did,
        apc_ArchiveFileName := diamondInitialDescriptorFile\<rparr>)"
  using assms by (simp_all add: build_path parse_path no_components_def)

abbreviation split_page :: "'v Store \<Rightarrow> 'v \<Rightarrow> string \<Rightarrow> string \<Rightarrow> Settings \<Rightarrow> string \<Rightarrow> (meta_err, string list \<times> string) res" where
  "split_page st v repo did settings \<equiv>
     meta_store_page st v (GetArchivePathPrefixToSplits repo did) '''' (set_batchSize settings)"

abbreviation with_basename :: "string \<Rightarrow> string list list \<Rightarrow> string list list" where
  "with_basename flt kss \<equiv> map (filter (\<lambda>k. starts_with flt (path_Base k))) kss"

text \<open>
  C32: listing the splits of a diamond gives each split once, with its final descriptor when it has
  one and its initial descriptor otherwise, wherever the listing is cut into batches, even between
  the two keys of a split. The keys come in order, final before initial, mixed with the index files
  of the splits; each page but the last must have at least one descriptor.
\<close>

theorem ListSplits_complete:
  assumes "RepoExists (sx_Metadata sx) m repo = None" and "DiamondExists (sx_VMetadata sx) v repo did = None"
    and "pages (split_page (sx_VMetadata sx) v repo did settings) '''' kss None"
    and "[] \<notin> set (butlast (with_basename ''split-'' kss))"
    and "concat (with_basename ''split-'' kss) = concat (map
      (object_keys (GetArchivePathToFinalSplit repo did) (GetArchivePathToInitialSplit repo did)) splits)"
    and "no_slash repo" and "no_slash did" and "en_ksuid E did"
    and "\<forall>sid \<in> fst ` set splits. sid \<noteq> '''' \<and> no_slash sid"
    and "\<forall>ks. mset (en_sched E ks) = mset ks"
    and "\<forall>sp \<in> set splits. read_yaml (sx_VMetadata sx) (en_split E) v
        (object_key (GetArchivePathToFinalSplit repo did) (GetArchivePathToInitialSplit repo did) sp) = Inr (desc sp)
      \<and> sd_SplitID (desc sp) = fst sp"
  shows "\<exists>sds. ListSplits E sx m v repo did settings = Some (sds, None) \<and> mset sds = mset (map desc splits)"
proof -
  let ?fin = "GetArchivePathToFinalSplit repo did" and ?ini = "GetArchivePathToInitialSplit repo did"
  let ?kss = "takeWhile (\<lambda>ks. ks \<noteq> []) (with_basename ''split-'' kss)"
  let ?bs = "mergeKeys (en_ksuid E) (\<lambda>_. None) (map good_batch ?kss)"
  let ?get = "getSplitAsync E (sx_VMetadata sx) v repo"
  note parse = split_keys [OF assms(6,7)]
  have keys: "concat (map kb_keys ?bs) = map (object_key ?fin ?ini) splits \<and> (\<forall>b \<in> set ?bs. kb_err b = None)"
    using assms(5,7-9)
    by (intro mergeKeys_objects [where ident = "\<lambda>sid. did @ sid"])
      (auto simp: full_pages [OF assms(4)] is_key_of_def parse assms(6) no_components_def)
  have get: "?get (object_key ?fin ?ini sp) = Inr (Some (desc sp))" if "sp \<in> set splits" for sp
    using assms(8,9,11) that parse [of "fst sp" "en_ksuid E"]
    by (auto simp: getSplitAsync_def readSplit_def skip_missing_def object_key_def no_components_def split: if_splits)
  define g where "g k = (case ?get k of Inr (Some x) \<Rightarrow> x | _ \<Rightarrow> undefined)" for k
  have "\<exists>xss. fetch_batches (fetch_batch SplitDescriptors_Less ?get (en_sched E)) ?bs = (xss, None)
      \<and> mset (concat xss) = mset (map g (concat (map kb_keys ?bs)))"
    using keys get assms(10) by (intro fetch_batches_mset) (auto simp: g_def)
  moreover have "map g (concat (map kb_keys ?bs)) = map desc splits"
    using keys get by (simp add: g_def)
  moreover have "fetchKeys (\<lambda>tok. basenameKeyFilter ''split-'' (split_page (sx_VMetadata sx) v repo did settings tok)) '''' =
      Some (map good_batch ?kss)"
    using fetchKeys_pages [OF pages_filtered [OF assms(3), of "''split-''"]] by simp
  ultimately show ?thesis
    by (auto simp: ListSplits_def listSplitsChan_def fetchSplits_def fetchSplitBatch_def assms(1,2))
qed


definition splits_example :: "(unit, unit) Stores" where
  "splits_example = \<lparr>sx_Metadata = fixed_store [(''repos/r/repo.yaml'', [0])] [],
     sx_VMetadata = fixed_store
       [(''diamonds/r/d/diamond-running.yaml'', [0]), (''diamonds/r/d/splits/a/split-done.yaml'', [0]),
        (''diamonds/r/d/splits/a/split-running.yaml'', [0]), (''diamonds/r/d/splits/b/split-running.yaml'', [1])]
       [('''', [''diamonds/r/d/splits/a/g/bundle-files-0.yaml'', ''diamonds/r/d/splits/a/split-done.yaml''], ''t''),
        (''t'', [''diamonds/r/d/splits/a/split-running.yaml'', ''diamonds/r/d/splits/b/split-running.yaml''], '''')]\<rparr>"

theorem ListSplits_complete_witness:
  "\<exists>sds. ListSplits byte_env splits_example () () ''r'' ''d'' defaultSettings = Some (sds, None)
     \<and> mset sds = mset [NewSplitDescriptor ''a'' 1, NewSplitDescriptor ''b'' 2]"
proof -
  let ?desc = "\<lambda>sp. NewSplitDescriptor (fst sp) (if fst sp = ''a'' then 1 else 2)"
  let ?kss = "[[''diamonds/r/d/splits/a/g/bundle-files-0.yaml'', ''diamonds/r/d/splits/a/split-done.yaml''],
      [''diamonds/r/d/splits/a/split-running.yaml'', ''diamonds/r/d/splits/b/split-running.yaml'']]"
  have "\<exists>sds. ListSplits byte_env splits_example () () ''r'' ''d'' defaultSettings = Some (sds, None)
     \<and> mset sds = mset (map ?desc [(''a'', True), (''b'', False)])"
    by (rule ListSplits_complete [where kss = ?kss])
      (simp_all add: fixed_simps splits_example_def pages_simps RepoExists_def DiamondExists_def read_yaml_def
        build_path file_names defaultSettings_def object_keys_def object_key_def path_Base_def starts_with_def
        NewSplitDescriptor_def)
  then show ?thesis by simp
qed


section \<open>A listing that is cut short in silence\<close>

lemma mergeKeys_append_empty:
  "mergeKeys k st (bs @ [\<lparr>kb_keys = [], kb_err = e\<rparr>]) = mergeKeys k st bs @ [good_batch []]"
  by (induction bs arbitrary: st) (auto split: prod.splits)

lemma fetch_batches_append_empty:
  assumes "mset (sched []) = mset []"
  shows "map_prod concat id (fetch_batches (fetch_batch lt get sched) (bs @ [good_batch []])) =
    map_prod concat id (fetch_batches (fetch_batch lt get sched) bs)"
proof (induction bs)
  case Nil
  from assms show ?case by (simp add: fetch_batch_def go_sort_def)
next
  case (Cons b bs)
  then show ?case
    by (auto split: option.splits sum.splits prod.splits)
qed

abbreviation diamond_page :: "'v Store \<Rightarrow> 'v \<Rightarrow> string \<Rightarrow> Settings \<Rightarrow> string \<Rightarrow> (meta_err, string list \<times> string) res" where
  "diamond_page st v repo settings \<equiv>
     meta_store_page st v (GetArchivePathPrefixToDiamonds repo) '''' (set_batchSize settings)"

text \<open>
  Listing the diamonds of a repository considers only the pages before the first one without
  any diamond descriptor, and never reports the failure of a page. The result is the one of a
  store whose listing ends there without error: a page filled with the index files of the splits of
  one diamond, or an error of the store, hides all the diamonds that follow.
\<close>

theorem ListDiamonds_cut_short:
  assumes "RepoExists (sx_Metadata sx) m repo = None" and "mset (en_sched E []) = mset []"
    and "pages (diamond_page (sx_VMetadata sx) v repo settings) '''' kss e"
  shows "ListDiamonds E sx m v repo settings =
    Some (map_prod concat id
      (fetchDiamonds E (sx_VMetadata sx) v repo
        (mergeKeys (en_ksuid E) (\<lambda>_. None)
          (map good_batch (takeWhile (\<lambda>ks. ks \<noteq> []) (with_basename ''diamond-'' kss))))))"
proof -
  have "fetchKeys (\<lambda>tok. basenameKeyFilter ''diamond-'' (diamond_page (sx_VMetadata sx) v repo settings tok)) '''' =
      Some (map good_batch (takeWhile (\<lambda>ks. ks \<noteq> []) (with_basename ''diamond-'' kss))
        @ (if [] \<in> set (with_basename ''diamond-'' kss) then [] else error_batch e))"
    by (rule fetchKeys_pages [OF pages_filtered [OF assms(3)]])
  with assms(1) show ?thesis
    by (cases e) (auto simp: ListDiamonds_def listDiamondsChan_def fetchDiamonds_def fetchDiamondBatch_def
      mergeKeys_append_empty
      fetch_batches_append_empty [of "en_sched E", OF assms(2)])
qed

definition diamonds_example :: "(unit, unit) Stores" where
  "diamonds_example = \<lparr>sx_Metadata = fixed_store [(''repos/r/repo.yaml'', [0])] [],
     sx_VMetadata = fixed_store
       [(''diamonds/r/a/diamond-running.yaml'', [0]), (''diamonds/r/b/diamond-running.yaml'', [1])]
       [('''', [''diamonds/r/a/diamond-running.yaml''], ''1''),
        (''1'', [''diamonds/r/a/splits/s/g/bundle-files-0.yaml''], ''2''),
        (''2'', [''diamonds/r/b/diamond-running.yaml''], '''')]\<rparr>"

theorem ListDiamonds_cut_short_witness:
  "ListDiamonds byte_env diamonds_example () () ''r'' defaultSettings =
     Some ([NewDiamondDescriptor ''a'' 1], None)
   \<and> readDiamond byte_env (sx_VMetadata diamonds_example) () ''r'' ''diamonds/r/b/diamond-running.yaml'' =
     Inr (NewDiamondDescriptor ''b'' 2)"
proof -
  let ?kss = "[[''diamonds/r/a/diamond-running.yaml''], [''diamonds/r/a/splits/s/g/bundle-files-0.yaml''],
      [''diamonds/r/b/diamond-running.yaml'']]"
  have page: "pages (diamond_page (sx_VMetadata diamonds_example) () ''r'' defaultSettings) '''' ?kss None"
    by (simp add: diamonds_example_def fixed_store_def pages_simps)
  have repo: "RepoExists (sx_Metadata diamonds_example) () ''r'' = None"
    by (simp add: diamonds_example_def fixed_store_def RepoExists_def build_path file_names)
  have sched: "mset (en_sched byte_env []) = mset []" by (simp add: byte_env_def)
  have a: "merge_key (\<lambda>_. True) ''diamonds/r/a/diamond-running.yaml'' (\<lambda>_. None, [], None) =
      (\<lambda>_. None, [''diamonds/r/a/diamond-running.yaml''], None)"
    by (simp add: merge_key_def parse_path no_components_def no_state_def fun_upd_def)
  show ?thesis
    unfolding ListDiamonds_cut_short [OF repo sched page]
    by (simp add: diamonds_example_def fixed_simps defaultSettings_def path_Base_def starts_with_def a
        fetchDiamonds_def fetchDiamondBatch_def fetch_batch_def getDiamondAsync_def readDiamond_def parse_path build_path no_components_def
        read_yaml_def skip_missing_def NewDiamondDescriptor_def go_sort_def)
qed


section \<open>Parameters that meet the hypotheses\<close>

definition ser_env :: "unit env" where
  "ser_env = \<lparr>en_ksuid = (\<lambda>_. True), en_sched = rev, en_repo = ser_codec repo_ser, en_bundle = ser_codec bundle_ser,
     en_bundle_over = (\<lambda>base b. map_sum id (decoded_over base) (cd_Unmarshal (ser_codec bundle_ser) b)), en_label = ser_codec label_ser,
     en_label_over = (\<lambda>_. cd_Unmarshal (ser_codec label_ser)), en_diamond = ser_codec diamond_ser,
     en_split = ser_codec split_ser, en_versioned = None\<rparr>"

end
