(* ===== verification/Bundles.thy ===== *)
theory Bundles
  imports Cafs FileIndex MetaLists
begin

text \<open>
  Bundles: uploading the files of a consumable store and the metadata of the bundle
  (\<open>pkg/core/bundle_pack.go\<close>), reading the metadata back (\<open>pkg/core/bundle_unpack.go\<close>), comparing two
  bundles (\<open>pkg/core/bundle_diff.go\<close>), and the entry points of \<open>pkg/core/bundle.go\<close>.
\<close>

section \<open>Data\<close>

record Bundle =
  bn_RepoID :: string
  bn_BundleID :: string
  bn_Descriptor :: BundleDescriptor
  bn_Entries :: "BundleEntry list"
  bn_SkipOnError :: bool

datatype bundle_err =
    BMeta meta_err
  | BIndex index_err
  | BCafs cafs_err
  | BStore store_err
  | InvalidBundleDescriptor
  | InvalidKsuid
  | BundleIDExists string
  | NotExpectedEntries nat nat
  | TooManyEntries nat nat
  | NoDescriptorFound
  | BadConsumablePath consumable_error
  | NotFoundErr
  | NeedBothStores
  | NoBundleIDWithConsumable
  | AmbiguousBundle
  | InvalidBundle
  | PublishMetadataErr bundle_err
  | BundleText string

definition setBundleID :: "string \<Rightarrow> Bundle \<Rightarrow> Bundle" where
  "setBundleID i b = b\<lparr>bn_BundleID := i, bn_Descriptor := (bn_Descriptor b)\<lparr>bd_ID := i\<rparr>\<rparr>"

definition defaultBundleEntriesPerFile :: nat where
  "defaultBundleEntriesPerFile = 1000"

section \<open>Metadata of a bundle\<close>

text \<open>
  The number of the next index file is the count in the descriptor, a 64-bit number, which is
  incremented after each write.
\<close>

definition uploadBundleEntriesFileList ::
  "'m Store \<Rightarrow> BundleEntry list codec \<Rightarrow> 'm \<Rightarrow> Bundle \<Rightarrow> BundleEntry list \<Rightarrow> 'm \<times> Bundle \<times> bundle_err option" where
  "uploadBundleEntriesFileList st cd m b fileList =
     (case cd_Marshal cd fileList of
        Inl e \<Rightarrow> (m, b, Some (BIndex (MarshalErr e)))
      | Inr buffer \<Rightarrow>
          let n = bd_BundleEntriesFileCount (bn_Descriptor b) in
          (case put_crc st m (GetArchivePathToBundleFileList (bn_RepoID b) (bn_BundleID b) (of_nat n)) buffer NoOverWrite of
             (m', Some e) \<Rightarrow> (m', b, Some (BStore e))
           | (m', None) \<Rightarrow>
               (m', b\<lparr>bn_Descriptor := (bn_Descriptor b)\<lparr>bd_BundleEntriesFileCount := (n + 1) mod 2 ^ 64\<rparr>\<rparr>, None)))"

definition validateBundle :: "Bundle \<Rightarrow> bool" where
  "validateBundle b \<longleftrightarrow> bd_Deduplication (bn_Descriptor b) \<noteq> ''''"

definition uploadBundleDescriptor ::
  "'v env \<Rightarrow> 'm Store \<Rightarrow> 'm \<Rightarrow> Bundle \<Rightarrow> 'm \<times> bundle_err option" where
  "uploadBundleDescriptor E st m b =
     (if \<not> validateBundle b then (m, Some InvalidBundleDescriptor)
      else case cd_Marshal (en_bundle E) (bn_Descriptor b) of
          Inl e \<Rightarrow> (m, Some (BMeta (YamlFail e)))
        | Inr buffer \<Rightarrow>
            (case put_crc st m (GetArchivePathToBundle (bn_RepoID b) (bn_BundleID b)) buffer NoOverWrite of
               (m', e) \<Rightarrow> (m', map_option BStore e)))"

text \<open>\<open>UploadBundleEntries\<close> writes the file list of a bundle in slices, then its descriptor.\<close>

function upload_slices ::
  "'m Store \<Rightarrow> BundleEntry list codec \<Rightarrow> BundleEntry list \<Rightarrow> nat \<Rightarrow> 'm \<Rightarrow> Bundle \<Rightarrow> 'm \<times> Bundle \<times> bundle_err option" where
  "upload_slices st cd fileList i m b =
     (if i * defaultBundleEntriesPerFile < length fileList then
        let firstIdx = i * defaultBundleEntriesPerFile; nextFirstIdx = (i + 1) * defaultBundleEntriesPerFile;
            slice = (if nextFirstIdx < length fileList then take (nextFirstIdx - firstIdx) (drop firstIdx fileList)
                     else drop firstIdx fileList)
        in (case uploadBundleEntriesFileList st cd m b slice of
              (m', b', Some e) \<Rightarrow> (m', b', Some e)
            | (m', b', None) \<Rightarrow> upload_slices st cd fileList (i + 1) m' b')
      else (m, b, None))"
  by pat_completeness auto
termination
  by (relation "measure (\<lambda>(st, cd, fileList, i, m, b). length fileList - i)")
    (auto simp: defaultBundleEntriesPerFile_def)

declare upload_slices.simps [simp del]

definition UploadBundleEntries ::
  "'v env \<Rightarrow> 'm Store \<Rightarrow> BundleEntry list codec \<Rightarrow> 'm \<Rightarrow> Bundle \<Rightarrow> 'm \<times> Bundle \<times> bundle_err option" where
  "UploadBundleEntries E st cd m b =
     (case upload_slices st cd (bn_Entries b) 0 m b of
        (m', b', Some e) \<Rightarrow> (m', b', Some e)
      | (m', b', None) \<Rightarrow> (case uploadBundleDescriptor E st m' b' of (m'', e) \<Rightarrow> (m'', b', e)))"

section \<open>Uploading files\<close>

definition skipFile :: "'c Store \<Rightarrow> 'c \<Rightarrow> Bundle \<Rightarrow> string \<Rightarrow> bool" where
  "skipFile st c b file =
     (let exist = (case st_Has st c file of Inl e \<Rightarrow> True | Inr x \<Rightarrow> x)
      in IsGeneratedFile file \<or> (bn_SkipOnError b \<and> \<not> exist))"

text \<open>
  \<open>uploadBundleFiles\<close> starts an upload for each file that is not skipped, until a file cannot be
  read: the files it starts, with their contents, and the error that ends it.
\<close>

fun upload_plan :: "'c Store \<Rightarrow> 'c \<Rightarrow> Bundle \<Rightarrow> string list \<Rightarrow> (string \<times> bytes) list \<times> bundle_err option" where
  "upload_plan st c b [] = ([], None)"
| "upload_plan st c b (file # files) =
     (if skipFile st c b file then upload_plan st c b files
      else case st_Get st c file of
          Inl e \<Rightarrow> if bn_SkipOnError b then upload_plan st c b files else ([], Some (BStore e))
        | Inr d \<Rightarrow> (case upload_plan st c b files of (plan, e) \<Rightarrow> ((file, d) # plan, e)))"

text \<open>
  What is not the bundle's own: the hash, the key cache, the schedule of a writer's goroutines, how a
  reader delivers a file, the order in which the concurrent uploads complete, how many of them are
  taken before an error is, and a fresh identifier.
\<close>

record 'k upload_env =
  ue_H :: hasher
  ue_LK :: "('k, Key, Key list) lru"
  ue_flush :: "(nat \<times> bytes) list \<Rightarrow> (nat \<times> bytes) list"
  ue_read :: "bytes \<Rightarrow> bytes list"
  ue_order :: "(string \<times> bytes) list \<Rightarrow> (string \<times> bytes) list"
  ue_early :: nat
  ue_newID :: string

datatype bundle_event = FilePacked filePacked | FileError bundle_err

text \<open>
  \<open>uploadBundleFile\<close> for the files in the order they complete; the blob store and the key cache are
  passed along; \<open>piped\<close> says how the consumable store delivers its files. An upload that does not return
  keeps the whole upload from returning.
\<close>

fun uploadBundleFile ::
  "'k upload_env \<Rightarrow> bool \<Rightarrow> 'b Store \<Rightarrow> defaultFs \<Rightarrow> 'b \<Rightarrow> 'k \<Rightarrow> (string \<times> bytes) list \<Rightarrow>
   (panic, 'b \<times> bundle_event list) res option" where
  "uploadBundleFile U piped st f s kc [] = Some (Inr (s, []))"
| "uploadBundleFile U piped st f s kc ((file, d) # jobs) =
     (case Put (ue_H U) st (ue_LK U) (ue_flush U) f s kc (Source (ue_read U d) None piped) of
        None \<Rightarrow> None
      | Some (Inl p) \<Rightarrow> Some (Inl p)
      | Some (Inr (s', kc', Inl e)) \<Rightarrow>
          (case uploadBundleFile U piped st f s' kc' jobs of
             None \<Rightarrow> None
           | Some (Inl p) \<Rightarrow> Some (Inl p)
           | Some (Inr (s'', es)) \<Rightarrow> Some (Inr (s'', FileError (BCafs e) # es)))
      | Some (Inr (s', kc', Inr res)) \<Rightarrow>
          (case uploadBundleFile U piped st f s' kc' jobs of
             None \<Rightarrow> None
           | Some (Inl p) \<Rightarrow> Some (Inl p)
           | Some (Inr (s'', es)) \<Rightarrow>
               Some (Inr (s'', FilePacked \<lparr>fp_hash = Key_String (pr_Key res), fp_name = file,
                   fp_size = pr_Written res, fp_snapshot = 0\<rparr> # es))))"

definition uploadBundleFiles ::
  "'k upload_env \<Rightarrow> 'c Store \<Rightarrow> 'c \<Rightarrow> 'b Store \<Rightarrow> defaultFs \<Rightarrow> 'b \<Rightarrow> 'k \<Rightarrow> Bundle \<Rightarrow> string list \<Rightarrow>
   (panic, 'b \<times> bundle_event list) res option" where
  "uploadBundleFiles U cst c st f s kc b files =
     (case upload_plan cst c b files of
        (plan, err) \<Rightarrow>
          (case uploadBundleFile U (st_piped cst) st f s kc (ue_order U plan) of
             None \<Rightarrow> None
           | Some (Inl p) \<Rightarrow> Some (Inl p)
           | Some (Inr (s', es)) \<Rightarrow>
               Some (Inr (s', case err of None \<Rightarrow> es | Some e \<Rightarrow> take (ue_early U) es @ [FileError e]))))"

text \<open>The loop of \<open>uploadBundle\<close> over what arrives; the end of the list is the done signal.\<close>

fun uploadBundle_loop ::
  "'m Store \<Rightarrow> BundleEntry list codec \<Rightarrow> nat \<Rightarrow> 'm \<Rightarrow> Bundle \<Rightarrow> BundleEntry list \<Rightarrow> bundle_event list \<Rightarrow>
   'm \<times> Bundle \<times> bundle_err option" where
  "uploadBundle_loop st cd epf m b fileList [] =
     (if fileList \<noteq> [] then uploadBundleEntriesFileList st cd m b fileList else (m, b, None))"
| "uploadBundle_loop st cd epf m b fileList (FileError e # es) = (m, b, Some e)"
| "uploadBundle_loop st cd epf m b fileList (FilePacked p # es) =
     (let fileList1 = fileList @ [filePacked2BundleEntry p] in
      if length fileList1 = epf then
        (case uploadBundleEntriesFileList st cd m b fileList1 of
           (m', b', Some e) \<Rightarrow> (m', b', Some e)
         | (m', b', None) \<Rightarrow> uploadBundle_loop st cd epf m' b' [] es)
      else uploadBundle_loop st cd epf m b fileList1 es)"


definition bundle_fs :: "defaultFs \<Rightarrow> Bundle \<Rightarrow> defaultFs" where
  "bundle_fs opts b = opts\<lparr>fs_leafSize := bd_LeafSize (bn_Descriptor b),
     fs_leafTruncation := bd_Version (bn_Descriptor b) < 1\<rparr>"

text \<open>
  \<open>uploadBundle\<close>: \<open>getKeys\<close> is the listing of the files to upload. The result has the new states of the
  metadata and blob stores, the bundle with its identifier and count, and the error.
\<close>

definition uploadBundle ::
  "'v env \<Rightarrow> 'k upload_env \<Rightarrow> (int \<Rightarrow> string option) \<Rightarrow> 'm Store \<Rightarrow> BundleEntry list codec \<Rightarrow> nat \<Rightarrow>
   'b Store \<Rightarrow> 'c Store \<Rightarrow> defaultFs \<Rightarrow> 'm \<Rightarrow> 'b \<Rightarrow> 'c \<Rightarrow> 'k \<Rightarrow> Bundle \<Rightarrow> (store_err, string list) res \<Rightarrow>
   (panic, 'm \<times> 'b \<times> Bundle \<times> bundle_err option) res option" where
  "uploadBundle E U lruNew mst cd epf bst cst opts m s c kc b getKeys =
     (case getKeys of
        Inl e \<Rightarrow> Some (Inr (m, s, b, Some (BStore e)))
      | Inr files \<Rightarrow>
          (case fs_New lruNew (bundle_fs opts b) of
             Inl e \<Rightarrow> Some (Inr (m, s, b, Some (BCafs e)))
           | Inr (f, leafPool) \<Rightarrow>
               let b1 = (if bn_BundleID b = '''' then setBundleID (ue_newID U) b else b) in
               (case uploadBundleFiles U cst c bst f s kc b1 files of
                  None \<Rightarrow> None
                | Some (Inl p) \<Rightarrow> Some (Inl p)
                | Some (Inr (s', es)) \<Rightarrow>
                    (case uploadBundle_loop mst cd epf m b1 [] es of
                       (m', b2, Some e) \<Rightarrow> Some (Inr (m', s', b2, Some e))
                     | (m', b2, None) \<Rightarrow>
                         (case uploadBundleDescriptor E mst m' b2 of
                            (m'', e) \<Rightarrow> Some (Inr (m'', s', b2, e)))))))"

definition Bundle_Exists :: "'m Store \<Rightarrow> 'm \<Rightarrow> Bundle \<Rightarrow> (store_err, bool) res" where
  "Bundle_Exists st m b = st_Has st m (GetArchivePathToBundle (bn_RepoID b) (bn_BundleID b))"

text \<open>
  \<open>implUpload\<close> checks that the repository exists and, for a given identifier, that it is a KSUID (whose
  text form is the identifier itself) and not in use.
\<close>

definition implUpload_check :: "'v env \<Rightarrow> 'm Store \<Rightarrow> 'm \<Rightarrow> Bundle \<Rightarrow> (bundle_err, Bundle) res" where
  "implUpload_check E st m b =
     (case RepoExists st m (bn_RepoID b) of
        Some e \<Rightarrow> Inl (BMeta e)
      | None \<Rightarrow>
          if bn_BundleID b \<noteq> '''' then
            if \<not> en_ksuid E (bn_BundleID b) then Inl InvalidKsuid
            else
              let b1 = setBundleID (bn_BundleID b) b in
              (case Bundle_Exists st m b1 of
                 Inl e \<Rightarrow> Inl (BStore e)
               | Inr exists \<Rightarrow> if exists then Inl (BundleIDExists (bn_BundleID b)) else Inr b1)
          else Inr b)"

definition implUpload ::
  "'v env \<Rightarrow> 'k upload_env \<Rightarrow> (int \<Rightarrow> string option) \<Rightarrow> 'm Store \<Rightarrow> BundleEntry list codec \<Rightarrow> nat \<Rightarrow>
   'b Store \<Rightarrow> 'c Store \<Rightarrow> defaultFs \<Rightarrow> 'm \<Rightarrow> 'b \<Rightarrow> 'c \<Rightarrow> 'k \<Rightarrow> Bundle \<Rightarrow> (store_err, string list) res \<Rightarrow>
   (panic, 'm \<times> 'b \<times> Bundle \<times> bundle_err option) res option" where
  "implUpload E U lruNew mst cd epf bst cst opts m s c kc b getKeys =
     (case implUpload_check E mst m b of
        Inl e \<Rightarrow> Some (Inr (m, s, b, Some e))
      | Inr b1 \<Rightarrow> uploadBundle E U lruNew mst cd epf bst cst opts m s c kc b1 getKeys)"

section \<open>Reading the metadata of a bundle\<close>

text \<open>
  The metadata store and the consumable store may each be missing. When publishing, what is read from
  the first is copied to the second.
\<close>

type_synonym 's opened = "('s Store \<times> 's) option"

definition unpackBundleDescriptor ::
  "'v env \<Rightarrow> bool \<Rightarrow> 'm opened \<Rightarrow> 'c opened \<Rightarrow> Bundle \<Rightarrow> (panic, 'c opened \<times> (bundle_err, Bundle) res) res" where
  "unpackBundleDescriptor E publish mo co b =
     (let decode = (\<lambda>buffer. case en_bundle_over E (bn_Descriptor b) buffer of
            Inl e \<Rightarrow> Inl (BMeta (YamlFail e)) | Inr d \<Rightarrow> Inr (b\<lparr>bn_Descriptor := d\<rparr>));
          archive = GetArchivePathToBundle (bn_RepoID b) (bn_BundleID b)
      in if publish then
        (case (mo, co) of
           (Some (mst, m), Some (cst, c)) \<Rightarrow>
             (case GetConsumablePathToBundle (bn_BundleID b) of
                Inl p \<Rightarrow> Inl p
              | Inr dest \<Rightarrow>
                  (case ReadTee mst m archive cst c dest of
                     (c', Inl e) \<Rightarrow> Inr (Some (cst, c'), Inl (BStore e))
                   | (c', Inr buffer) \<Rightarrow> Inr (Some (cst, c'), decode buffer)))
         | _ \<Rightarrow> Inr (co, Inl NeedBothStores))
      else (case mo of
          Some (mst, m) \<Rightarrow>
            (case st_Has mst m archive of
               Inl e \<Rightarrow> Inr (co, Inl (BStore e))
             | Inr has \<Rightarrow>
                 if \<not> has then Inr (co, Inl NotFoundErr)
                 else (case st_Get mst m archive of
                     Inl e \<Rightarrow> Inr (co, Inl (BStore e))
                   | Inr buffer \<Rightarrow> Inr (co, decode buffer)))
        | None \<Rightarrow>
            (case GetConsumablePathToBundle (bn_BundleID b) of
               Inl p \<Rightarrow> Inl p
             | Inr src \<Rightarrow>
                 (case co of
                    None \<Rightarrow> Inl NilDereference
                  | Some (cst, c) \<Rightarrow>
                      (case st_Get cst c src of
                         Inl e \<Rightarrow> Inr (co, Inl (BStore e))
                       | Inr buffer \<Rightarrow> Inr (co, decode buffer))))))"

text \<open>One index file; both paths are built first, whichever is used.\<close>

definition downloadBundleFileListFile ::
  "BundleEntry list codec \<Rightarrow> bool \<Rightarrow> 'm opened \<Rightarrow> 'c opened \<Rightarrow> Bundle \<Rightarrow> 64 word \<Rightarrow>
   (panic, 'c opened \<times> (bundle_err, BundleEntry list) res) res" where
  "downloadBundleFileListFile cd publish mo co b i =
     (let archive = GetArchivePathToBundleFileList (bn_RepoID b) (bn_BundleID b) i;
          decode = (\<lambda>buffer. case cd_Unmarshal cd buffer of Inl e \<Rightarrow> Inl (BIndex (MarshalErr e)) | Inr es \<Rightarrow> Inr es)
      in case GetConsumablePathToBundleFileList (bn_BundleID b) i of
          Inl p \<Rightarrow> Inl p
        | Inr consumable \<Rightarrow>
            if publish then
              (case (mo, co) of
                 (Some (mst, m), Some (cst, c)) \<Rightarrow>
                   (case ReadTee mst m archive cst c consumable of
                      (c', Inl e) \<Rightarrow> Inr (Some (cst, c'), Inl (BStore e))
                    | (c', Inr buffer) \<Rightarrow> Inr (Some (cst, c'), decode buffer))
               | _ \<Rightarrow> Inr (co, Inl NeedBothStores))
            else (case mo of
                Some (mst, m) \<Rightarrow>
                  (case st_Get mst m archive of
                     Inl e \<Rightarrow> Inr (co, Inl (BStore e)) | Inr buffer \<Rightarrow> Inr (co, decode buffer))
              | None \<Rightarrow>
                  (case co of
                     None \<Rightarrow> Inl NilDereference
                   | Some (cst, c) \<Rightarrow>
                       (case st_Get cst c consumable of
                          Inl e \<Rightarrow> Inr (co, Inl (BStore e)) | Inr buffer \<Rightarrow> Inr (co, decode buffer)))))"


text \<open>
  \<open>unpackBundleFileList\<close> takes the index files in the order in which they arrive. The entries are a
  slice made for the full count; each file is copied to its place, the last one shortens the slice. A
  file of the wrong length ends the loop, as does the first error. The result list holds the index
  number and the outcome of each download.
\<close>

definition place_entries :: "BundleEntry list \<Rightarrow> nat \<Rightarrow> BundleEntry list \<Rightarrow> BundleEntry list" where
  "place_entries es start new = take start es @ take (length es - start) new @ drop (start + length new) es"

fun unpack_lists ::
  "nat \<Rightarrow> nat \<Rightarrow> BundleEntry list \<Rightarrow> (nat \<times> (bundle_err, BundleEntry list) res) list \<Rightarrow>
   (panic, BundleEntry list \<times> bundle_err option) res" where
  "unpack_lists epf cnt es [] = Inr (es, None)"
| "unpack_lists epf cnt es ((i, Inl e) # rs) = Inr (es, Some e)"
| "unpack_lists epf cnt es ((i, Inr new) # rs) =
     (if i * epf > length es then Inl SliceBounds
      else
        let es1 = place_entries es (i * epf) new in
        if i + 1 = cnt then
          if epf < length new then Inr (es1, Some (TooManyEntries (length new) epf))
          else if length es1 < epf - length new then Inl SliceBounds
          else unpack_lists epf cnt (take (length es1 - (epf - length new)) es1) rs
        else if length new \<noteq> epf then Inr (es1, Some (NotExpectedEntries (length new) epf))
        else unpack_lists epf cnt es1 rs)"

definition empty_entry :: BundleEntry where
  "empty_entry = \<lparr>be_Hash = '''', be_NameWithPath = '''', be_FileMode = 0, be_Size = 0, be_Timestamp = 0\<rparr>"

text \<open>
  The downloads themselves, in some order of the index numbers; when publishing each writes to the
  consumable store.
\<close>

fun downloadBundleFileList ::
  "BundleEntry list codec \<Rightarrow> bool \<Rightarrow> 'm opened \<Rightarrow> 'c opened \<Rightarrow> Bundle \<Rightarrow> nat list \<Rightarrow>
   (panic, 'c opened \<times> (nat \<times> (bundle_err, BundleEntry list) res) list) res" where
  "downloadBundleFileList cd publish mo co b [] = Inr (co, [])"
| "downloadBundleFileList cd publish mo co b (i # js) =
     (case downloadBundleFileListFile cd publish mo co b (of_nat i) of
        Inl p \<Rightarrow> Inl p
      | Inr (co', r) \<Rightarrow>
          (case downloadBundleFileList cd publish mo co' b js of
             Inl p \<Rightarrow> Inl p
           | Inr (co'', rs) \<Rightarrow> Inr (co'', (i, r) # rs)))"

definition unpackBundleFileList ::
  "BundleEntry list codec \<Rightarrow> (nat list \<Rightarrow> nat list) \<Rightarrow> bool \<Rightarrow> nat \<Rightarrow> 'm opened \<Rightarrow> 'c opened \<Rightarrow> Bundle \<Rightarrow>
   (panic, 'c opened \<times> Bundle \<times> bundle_err option) res" where
  "unpackBundleFileList cd order publish epf mo co b =
     (let cnt = bd_BundleEntriesFileCount (bn_Descriptor b) in
      case downloadBundleFileList cd publish mo co b (order [0..<cnt]) of
        Inl p \<Rightarrow> Inl p
      | Inr (co', rs) \<Rightarrow>
          (case unpack_lists epf cnt (replicate (cnt * epf) empty_entry) rs of
             Inl p \<Rightarrow> Inl p
           | Inr (es, e) \<Rightarrow> Inr (co', b\<lparr>bn_Entries := es\<rparr>, e)))"

text \<open>The bundle found in a consumable store: the first key must already be a metadata file.\<close>

definition getBundleIDFromPath :: "string \<Rightarrow> (bundle_err, string) res" where
  "getBundleIDFromPath pth =
     (case GetConsumableStorePathMetadata pth of
        Inl e \<Rightarrow> Inl (BadConsumablePath e)
      | Inr info \<Rightarrow> if meta_Type info \<noteq> ConsumableStorePathTypeDescriptor then Inr '''' else Inr (meta_BundleID info))"

fun find_bundleID :: "string list \<Rightarrow> (bundle_err, string) res" where
  "find_bundleID [] = Inl NoDescriptorFound"
| "find_bundleID (key # keys) =
     rbind (getBundleIDFromPath key) (\<lambda>bundleID. if bundleID \<noteq> '''' then Inr bundleID else find_bundleID keys)"

definition setBundleIDFromConsumableStore ::
  "(store_err, string list) res \<Rightarrow> Bundle \<Rightarrow> (bundle_err, Bundle) res" where
  "setBundleIDFromConsumableStore keys b =
     (case keys of
        Inl e \<Rightarrow> Inl (BStore e)
      | Inr ks \<Rightarrow> rbind (find_bundleID ks) (\<lambda>i. Inr (b\<lparr>bn_BundleID := i\<rparr>)))"

text \<open>
  \<open>implPublishMetadata\<close>; the keys of the consumable store are those it lists when it has no failure
  (a listing that never ends is \<open>None\<close>).
\<close>

definition implPublishMetadata ::
  "'v env \<Rightarrow> BundleEntry list codec \<Rightarrow> (nat list \<Rightarrow> nat list) \<Rightarrow> bool \<Rightarrow> nat \<Rightarrow> 'm opened \<Rightarrow> 'c opened \<Rightarrow> Bundle \<Rightarrow>
   (panic, 'c opened \<times> Bundle \<times> bundle_err option) res option" where
  "implPublishMetadata E cd order publish epf mo co b =
     (let named = (if bn_BundleID b \<noteq> '''' then Some (Inr b)
            else case co of
                None \<Rightarrow> Some (Inl NoBundleIDWithConsumable)
              | Some (cst, c) \<Rightarrow> map_option (\<lambda>ks. setBundleIDFromConsumableStore ks b) (st_Keys cst c))
      in case named of
          None \<Rightarrow> None
        | Some (Inl e) \<Rightarrow> Some (Inr (co, b, Some e))
        | Some (Inr b1) \<Rightarrow>
            (case unpackBundleDescriptor E publish mo co b1 of
               Inl p \<Rightarrow> Some (Inl p)
             | Inr (co', Inl e) \<Rightarrow> Some (Inr (co', b1, Some e))
             | Inr (co', Inr b2) \<Rightarrow> Some (unpackBundleFileList cd order publish epf mo co' b2)))"

section \<open>Differences between bundles\<close>

datatype DiffEntryType = DiffEntryTypeAdd | DiffEntryTypeDel | DiffEntryTypeDif

record DiffEntry =
  de_Type :: DiffEntryType
  de_Name :: string
  de_Existing :: BundleEntry
  de_Additional :: BundleEntry

text \<open>
  \<open>diffBundles\<close> indexes both bundles by name, a later entry replacing an earlier one, and ranges over
  the maps, in an order that Go does not fix: the two orders are arguments.
\<close>

definition index_entries :: "BundleEntry list \<Rightarrow> string \<rightharpoonup> BundleEntry" where
  "index_entries es = map_of (map (\<lambda>e. (be_NameWithPath e, e)) (rev es))"

definition diff_existing :: "(string \<rightharpoonup> BundleEntry) \<Rightarrow> (string \<rightharpoonup> BundleEntry) \<Rightarrow> string \<Rightarrow> DiffEntry list" where
  "diff_existing ex ad n =
     (case ex n of
        None \<Rightarrow> []
      | Some x \<Rightarrow>
          (case ad n of
             Some a \<Rightarrow> if be_Hash a \<noteq> be_Hash x
               then [\<lparr>de_Type = DiffEntryTypeDif, de_Name = n, de_Existing = x, de_Additional = a\<rparr>] else []
           | None \<Rightarrow> [\<lparr>de_Type = DiffEntryTypeDel, de_Name = n, de_Existing = x, de_Additional = empty_entry\<rparr>]))"

definition diff_additional :: "(string \<rightharpoonup> BundleEntry) \<Rightarrow> (string \<rightharpoonup> BundleEntry) \<Rightarrow> string \<Rightarrow> DiffEntry list" where
  "diff_additional ex ad n =
     (case (ad n, ex n) of
        (Some a, None) \<Rightarrow> [\<lparr>de_Type = DiffEntryTypeAdd, de_Name = n, de_Existing = empty_entry, de_Additional = a\<rparr>]
      | _ \<Rightarrow> [])"

definition diffBundles ::
  "BundleEntry list \<Rightarrow> BundleEntry list \<Rightarrow> string list \<Rightarrow> string list \<Rightarrow> DiffEntry list" where
  "diffBundles existing additional order1 order2 =
     (let ex = index_entries existing; ad = index_entries additional
      in concat (map (diff_existing ex ad) order1) @ concat (map (diff_additional ex ad) order2))"


section \<open>File lists come back whatever the order of the downloads\<close>

lemma nth_place_entries:
  assumes "start + length new \<le> length es" and "p < length es"
  shows "place_entries es start new ! p =
    (if start \<le> p \<and> p < start + length new then new ! (p - start) else es ! p)"
  using assms by (auto simp: place_entries_def nth_append min_def)

lemma length_place_entries: "start + length new \<le> length es \<Longrightarrow> length (place_entries es start new) = length es"
  by (cases "start = length es") (auto simp: place_entries_def min_def)

text \<open>What the slice holds when the index files in \<open>D\<close> have arrived.\<close>

definition partly_unpacked :: "nat \<Rightarrow> BundleEntry list \<Rightarrow> nat set \<Rightarrow> BundleEntry list \<Rightarrow> bool" where
  "partly_unpacked epf es D cur \<longleftrightarrow>
     length cur = (if length (blocks epf es) - 1 \<in> D then length es else length (blocks epf es) * epf)
     \<and> (\<forall>p < length es. p div epf \<in> D \<longrightarrow> cur ! p = es ! p)"

lemma length_blocks_bound: "0 < k \<Longrightarrow> length xs \<le> length (blocks k xs) * k"
proof (induction k xs rule: blocks.induct)
  case (1 k xs)
  then show ?case by (cases "xs = []") (simp_all add: blocks_step)
qed

lemma length_blocks_le: "0 < k \<Longrightarrow> length (blocks k xs) \<le> length xs"
proof (induction k xs rule: blocks.induct)
  case (1 k xs)
  show ?case
  proof (cases "xs = []")
    case False
    then have "length (blocks k xs) = Suc (length (blocks k (drop k xs)))" "0 < length xs"
      using "1.prems" by (simp_all add: blocks_step)
    moreover have "length (blocks k (drop k xs)) \<le> length xs - k" using "1.IH" "1.prems" False by simp
    ultimately show ?thesis using "1.prems" by linarith
  qed simp
qed

lemma length_block:
  assumes "0 < k" and "i < length (blocks k xs)"
  shows "blocks k xs ! i = take k (drop (i * k) xs)" "i * k < length xs"
    "i + 1 \<noteq> length (blocks k xs) \<Longrightarrow> i * k + k \<le> length xs"
    "i + 1 = length (blocks k xs) \<Longrightarrow> length xs \<le> i * k + k"
proof -
  show "blocks k xs ! i = take k (drop (i * k) xs)" "i * k < length xs"
    using blocks_nth [OF assms] by auto
  show "i * k + k \<le> length xs" if "i + 1 \<noteq> length (blocks k xs)"
    using blocks_nth [OF assms(1), of "i + 1" xs] assms that by (simp add: algebra_simps)
  show "length xs \<le> i * k + k" if "i + 1 = length (blocks k xs)"
    using length_blocks_bound [OF assms(1), of xs] that by (simp add: that [symmetric] algebra_simps)
qed

lemma unpack_one:
  assumes epf: "0 < epf" and i: "i < length (blocks epf es)" "i \<notin> D"
    and inv: "partly_unpacked epf es D cur"
  shows "\<exists>cur'. unpack_lists epf (length (blocks epf es)) cur ((i, Inr (blocks epf es ! i)) # rs) =
      unpack_lists epf (length (blocks epf es)) cur' rs \<and> partly_unpacked epf es (insert i D) cur'"
proof -
  let ?bs = "blocks epf es" and ?cnt = "length (blocks epf es)"
  let ?new = "?bs ! i" and ?cur1 = "place_entries cur (i * epf) (?bs ! i)"
  note b = length_block [OF epf i(1)]
  have new: "length ?new = min epf (length es - i * epf)" by (simp add: b(1))
  have len: "length cur \<ge> length es"
    using inv length_blocks_bound [OF epf, of es] by (simp add: partly_unpacked_def)
  have fits: "i * epf + length ?new \<le> length cur" using new len b(2) by simp
  have at: "?cur1 ! p = (if i * epf \<le> p \<and> p < i * epf + length ?new then es ! p else cur ! p)"
    if "p < length es" for p
  proof -
    have "?new ! (p - i * epf) = es ! p" if "i * epf \<le> p" "p < i * epf + length ?new"
      using that new by (simp add: b(1))
    with nth_place_entries [OF fits, of p] that len show ?thesis by auto
  qed
  have mine: "i * epf \<le> p \<and> p < i * epf + length ?new" if "p < length es" "p div epf = i" for p
    using that epf new by (metis add.commute div_mult_mod_eq min_def mod_less_divisor nat_add_left_cancel_less
        le_add1 le_add_diff_inverse less_imp_le_nat b(2))
  have right: "?cur1 ! p = es ! p" if "p < length es" "p div epf \<in> insert i D" for p
    using at [OF that(1)] mine [OF that(1)] that inv by (auto simp: partly_unpacked_def)
  show ?thesis
  proof (cases "i + 1 = ?cnt")
    case True
    have last: "?cnt - 1 = i" using True by simp
    have "length cur = ?cnt * epf" using inv i(2) unfolding partly_unpacked_def last by simp
    then have l: "length cur = i * epf + epf" by (simp add: True [symmetric])
    have "length ?new = length es - i * epf" "length ?new \<le> epf" using new b(4) [OF True] by auto
    with l b(2) have cut: "length cur - (epf - length ?new) = length es" by simp
    have "partly_unpacked epf es (insert i D) (take (length es) ?cur1)"
      using right True len length_place_entries [OF fits] by (auto simp: partly_unpacked_def)
    with True \<open>length ?new \<le> epf\<close> cut l fits length_place_entries [OF fits] show ?thesis
      by (auto simp: Let_def)
  next
    case False
    have "length ?new = epf" using new b(3) [OF False] by simp
    moreover have "partly_unpacked epf es (insert i D) ?cur1"
      using right False i(1) inv length_place_entries [OF fits] by (auto simp: partly_unpacked_def)
    ultimately show ?thesis using False fits by (auto simp: Let_def)
  qed
qed

lemma unpack_lists_from:
  assumes "0 < epf"
  shows "distinct order \<Longrightarrow> set order \<inter> D = {} \<Longrightarrow> set order \<subseteq> {..<length (blocks epf es)} \<Longrightarrow>
    partly_unpacked epf es D cur \<Longrightarrow>
    \<exists>cur'. unpack_lists epf (length (blocks epf es)) cur (map (\<lambda>i. (i, Inr (blocks epf es ! i))) order) = Inr (cur', None)
      \<and> partly_unpacked epf es (D \<union> set order) cur'"
proof (induction order arbitrary: D cur)
  case (Cons i order)
  then have "i < length (blocks epf es)" "i \<notin> D" by auto
  from unpack_one [OF assms this Cons.prems(4)] obtain cur' where
    step: "unpack_lists epf (length (blocks epf es)) cur
        ((i, Inr (blocks epf es ! i)) # map (\<lambda>i. (i, Inr (blocks epf es ! i))) order) =
      unpack_lists epf (length (blocks epf es)) cur' (map (\<lambda>i. (i, Inr (blocks epf es ! i))) order)"
    and inv: "partly_unpacked epf es (insert i D) cur'" by blast
  from Cons.IH [OF _ _ _ inv] Cons.prems obtain cur'' where
    "unpack_lists epf (length (blocks epf es)) cur' (map (\<lambda>i. (i, Inr (blocks epf es ! i))) order) = Inr (cur'', None)"
    "partly_unpacked epf es (insert i D \<union> set order) cur''" by auto
  with step show ?case by auto
qed simp

lemma unpack_lists_blocks:
  assumes "0 < epf" and "mset order = mset [0..<length (blocks epf es)]"
  shows "unpack_lists epf (length (blocks epf es)) (replicate (length (blocks epf es) * epf) empty_entry)
      (map (\<lambda>i. (i, Inr (blocks epf es ! i))) order) = Inr (es, None)"
proof (cases "es = []")
  case True
  with assms(2) show ?thesis by simp
next
  case False
  let ?cnt = "length (blocks epf es)"
  have ne: "?cnt \<noteq> 0" using False assms(1) by (simp add: blocks_step)
  have order: "distinct order" "set order = {..<?cnt}"
    using assms(2) by (metis distinct_upt mset_eq_imp_distinct_iff, metis atLeast_upt lessThan_atLeast0 mset_eq_setD)
  have "partly_unpacked epf es {} (replicate (?cnt * epf) empty_entry)" by (simp add: partly_unpacked_def)
  from unpack_lists_from [OF assms(1) order(1) _ _ this] order(2) obtain cur' where
    out: "unpack_lists epf ?cnt (replicate (?cnt * epf) empty_entry) (map (\<lambda>i. (i, Inr (blocks epf es ! i))) order) =
      Inr (cur', None)" and inv: "partly_unpacked epf es {..<?cnt} cur'" by auto
  from inv ne have "length cur' = length es" by (simp add: partly_unpacked_def)
  moreover have "cur' ! p = es ! p" if "p < length es" for p
    using inv that blocks_index [OF assms(1) that] by (simp add: partly_unpacked_def)
  ultimately have "cur' = es" by (simp add: list_eq_iff_nth_eq)
  with out show ?thesis by simp
qed


section \<open>The upload of file lists is the one of the file index\<close>

fun bundle_err_of :: "index_err \<Rightarrow> bundle_err" where
  "bundle_err_of (MetaErr e) = BStore e"
| "bundle_err_of e = BIndex e"

abbreviation with_count :: "nat \<Rightarrow> Bundle \<Rightarrow> Bundle" where
  "with_count n b \<equiv> b\<lparr>bn_Descriptor := (bn_Descriptor b)\<lparr>bd_BundleEntriesFileCount := n\<rparr>\<rparr>"

abbreviation bundle_pather :: "Bundle \<Rightarrow> 64 word \<Rightarrow> string" where
  "bundle_pather b \<equiv> GetArchivePathToBundleFileList (bn_RepoID b) (bn_BundleID b)"

lemma upload_list_is_uploadIndex:
  assumes "n + 1 < 2 ^ 64"
  shows "uploadBundleEntriesFileList st cd m (with_count n b) fl =
    (case uploadIndex st cd m fl (bundle_pather b (of_nat n)) of
       (m', Some e) \<Rightarrow> (m', with_count n b, Some (bundle_err_of e))
     | (m', None) \<Rightarrow> (m', with_count (n + 1) b, None))"
  using assms
  by (auto simp: uploadBundleEntriesFileList_def uploadIndex_def writeMetadata_def Let_def
      split: sum.split prod.split option.split)

lemma own_timestamp: "(filePacked2BundleEntry p)\<lparr>be_Timestamp := fp_snapshot p\<rparr> = filePacked2BundleEntry p"
  by (simp add: filePacked2BundleEntry_def)

lemma upload_loop_is_pack_loop:
  "n + length ps + 1 < 2 ^ 64 \<Longrightarrow>
   uploadBundle_loop st cd epf m (with_count n b) fl (map FilePacked ps) =
     (case pack_loop st cd epf (bundle_pather b) m (of_nat n) fl n (map (\<lambda>p. Packed p (fp_snapshot p)) ps) of
        (m', cnt, e) \<Rightarrow> (m', with_count cnt b, map_option bundle_err_of e))"
proof (induction ps arbitrary: n m fl)
  case Nil
  then show ?case
    by (auto simp: pack_end_def upload_list_is_uploadIndex uploadIndex_Next_def split: prod.split option.split)
next
  case (Cons p ps)
  let ?fl = "fl @ [filePacked2BundleEntry p]"
  from Cons.prems have n: "n + 1 < 2 ^ 64" by simp
  show ?case
  proof (cases "length ?fl = epf")
    case True
    obtain m1 e where up: "uploadIndex st cd m ?fl (bundle_pather b (of_nat n)) = (m1, e)" by force
    with True Cons.IH [of "n + 1" m1 "[]"] Cons.prems show ?thesis
      by (cases e) (simp_all add: Let_def own_timestamp upload_list_is_uploadIndex [OF n] uploadIndex_Next_def ac_simps)
  next
    case False
    with Cons.IH [of n m ?fl] Cons.prems show ?thesis by (simp add: Let_def own_timestamp)
  qed
qed

text \<open>
  C34: the upload of the file lists of a bundle, which \<open>uploadBundle\<close> has of its own, does the same as
  the file index: for the same files it writes the same index files in the same order, counts them the
  same way and fails with the same errors, up to the time stamps, which a bundle leaves as they are.
\<close>

theorem uploadBundle_loop_is_pack:
  assumes "length ps + 1 < 2 ^ 64"
  shows "uploadBundle_loop st cd epf m (with_count 0 b) [] (map FilePacked ps) =
    (case pack st cd epf (uploadBundleIterator (bn_RepoID b) ((bn_Descriptor b)\<lparr>bd_ID := bn_BundleID b\<rparr>)) m
        (map (\<lambda>p. Packed p (fp_snapshot p)) ps) of
       (m', cnt, e) \<Rightarrow> (m', with_count cnt b, map_option bundle_err_of e))"
  using upload_loop_is_pack_loop [of 0 ps st cd epf m b "[]"] assms
  by (simp add: pack_def uploadBundleIterator_def)

abbreviation small_bundle :: Bundle where
  "small_bundle \<equiv> \<lparr>bn_RepoID = ''r'', bn_BundleID = ''b'', bn_Descriptor = some_bundle, bn_Entries = [], bn_SkipOnError = False\<rparr>"

theorem uploadBundle_loop_is_pack_witness:
  "\<exists>m'. uploadBundle_loop (gcs_store steady_client plain_gcs) entries_codec 1000 [] small_bundle [] [FilePacked some_file] =
     (m', with_count 1 small_bundle, None)"
  using uploadBundle_loop_is_pack [of "[some_file]" "gcs_store steady_client plain_gcs" entries_codec 1000 "[]" small_bundle]
  by (simp add: pack_def pack_end_def uploadIndex_def writeMetadata_def put_crc_def entries_codec_def ser_codec_def
      gcs_PutCRC_def putObject_def put_attempts.simps steady_client_def mem_Upload_def steady_def uploadIndex_Next_def)

end
