(* ===== verification/BundleUpload.thy ===== *)
theory BundleUpload
  imports Bundles
begin

text \<open>
  What is uploaded as a bundle can be downloaded: the composition of the content-addressable file
  system, the index files and the descriptor, over two buckets of Google Cloud Storage, one for the
  metadata and one for the blobs.
\<close>

section \<open>The blobs of many files\<close>

definition root_of :: "hasher \<Rightarrow> nat \<Rightarrow> bytes \<Rightarrow> Key" where
  "root_of H l d = projr (rootHash H (file_keys H l d) l)"

lemma root_of: "blake_ok H \<Longrightarrow> rootHash H (file_keys H l d) l = Inr (root_of H l d)"
  using rootHash_total [of H "file_keys H l d" l] by (auto simp: root_of_def)

abbreviation blobs_of :: "hasher \<Rightarrow> defaultFs \<Rightarrow> bytes \<Rightarrow> (string \<times> bytes) set" where
  "blobs_of H f d \<equiv> put_blobs H f d (root_of H (fs_leafSize f) d)"

definition packed_file :: "bool \<Rightarrow> hasher \<Rightarrow> defaultFs \<Rightarrow> string \<times> bytes \<Rightarrow> filePacked" where
  "packed_file piped H f file = \<lparr>fp_hash = Key_String (root_of H (fs_leafSize f) (snd file)), fp_name = fst file,
     fp_size = (if piped then 0 else length (snd file)), fp_snapshot = 0\<rparr>"

text \<open>A source is read in chunks of at most a leaf, and in any schedule of the writer.\<close>

definition reads_well :: "'k upload_env \<Rightarrow> defaultFs \<Rightarrow> bytes \<Rightarrow> bool" where
  "reads_well U f d \<longleftrightarrow> concat (ue_read U d) = d \<and> (\<forall>p \<in> set (ue_read U d). length p \<le> fs_leafSize f)"

context object_store
begin

lemma uploadBundleFile_ok:
  assumes "blake_ok (ue_H U)" and "0 < fs_leafSize f" and "\<And>jobs. mset (ue_flush U jobs) = mset jobs"
  shows "\<forall>file \<in> set files. reads_well U f (snd file) \<Longrightarrow>
    room_for (content s) (\<Union>file \<in> set files. blobs_of (ue_H U) f (snd file)) \<Longrightarrow>
    \<exists>s'. uploadBundleFile U piped st f s kc files = Some (Inr (s', map (FilePacked \<circ> packed_file piped (ue_H U) f) files))
      \<and> holds_also (content s) (content s') (\<Union>file \<in> set files. blobs_of (ue_H U) f (snd file))"
proof (induction files arbitrary: s kc)
  case (Cons fd files)
  obtain n d where fd: "fd = (n, d)" by (cases fd)
  let ?H = "ue_H U" and ?A = "blobs_of (ue_H U) f d" and ?B = "\<Union>file \<in> set files. blobs_of (ue_H U) f (snd file)"
  from Cons.prems(1) fd have chunks: "concat (ue_read U d) = d" "\<forall>p \<in> set (ue_read U d). length p \<le> fs_leafSize f"
    by (auto simp: reads_well_def)
  from Cons.prems(2) fd have room: "room_for (content s) (?A \<union> ?B)" by simp
  note r = root_of [OF assms(1), of "fs_leafSize f" d]
  have "room_for (content s) ?A" by (rule room_for_subset [OF room]) simp
  from Put_ok [OF assms(1,2) chunks(2) assms(3), unfolded chunks(1), OF r this, where LK = "ue_LK U" and kc = kc]
  obtain s1 kc1 found where
    put: "Put ?H st (ue_LK U) (ue_flush U) f s kc (Source (ue_read U d) None piped) =
        Some (Inr (s1, kc1, Inr \<lparr>pr_Written = (if piped then 0 else length d), pr_Key = root_of ?H (fs_leafSize f) d,
          pr_Keys = concat (file_keys ?H (fs_leafSize f) d), pr_Found = found\<rparr>))"
      "holds_also (content s) (content s1) ?A"
    by blast
  from Cons.IH [of s1 kc1] Cons.prems(1) room_after [OF room put(2)] obtain s2 where
    rest: "uploadBundleFile U piped st f s1 kc1 files = Some (Inr (s2, map (FilePacked \<circ> packed_file piped ?H f) files))"
      "holds_also (content s1) (content s2) ?B" by auto
  have "holds_also (content s) (content s2) (?A \<union> ?B)" by (rule holds_also_trans [OF put(2) rest(2) room])
  with put(1) rest(1) fd show ?case by (auto simp: packed_file_def)
qed simp

end

section \<open>Reading a stored bundle\<close>

text \<open>The metadata of a bundle is in place: its descriptor and its index files.\<close>

definition bundle_stored ::
  "'v env \<Rightarrow> BundleEntry list codec \<Rightarrow> nat \<Rightarrow> (string \<Rightarrow> bytes option) \<Rightarrow> Bundle \<Rightarrow> BundleEntry list \<Rightarrow> bool" where
  "bundle_stored E cd epf m b es \<longleftrightarrow>
     bd_BundleEntriesFileCount (bn_Descriptor b) = length (blocks epf es)
     \<and> index_stored cd (bundle_pather b) m 0 (blocks epf es)
     \<and> (\<exists>buf. cd_Marshal (en_bundle E) (bn_Descriptor b) = Inr buf
         \<and> m (GetArchivePathToBundle (bn_RepoID b) (bn_BundleID b)) = Some buf)"

context object_store
begin

lemma downloadBundleFileList_ok:
  assumes "codec_ok cd" and "index_stored cd (bundle_pather b) (content s) 0 bs" and "length bs < 2 ^ 63"
    and "CHR 0x0A \<notin> set (bn_BundleID b)"
  shows "set order \<subseteq> {..<length bs} \<Longrightarrow>
    downloadBundleFileList cd False (Some (st, s)) co b order = Inr (co, map (\<lambda>i. (i, Inr (bs ! i))) order)"
proof (induction order)
  case (Cons i order)
  then have i: "i < length bs" by simp
  then have "unat (of_nat i :: 64 word) < 2 ^ 63" using assms(3) by (simp add: unat_of_nat)
  with assms(4) obtain p where p: "GetConsumablePathToBundleFileList (bn_BundleID b) (of_nat i) = Inr p"
    by (subst (asm) consumable_file_list_cases) auto
  from assms(2) i obtain buf where "cd_Marshal cd (bs ! i) = Inr buf" "content s (bundle_pather b (of_nat i)) = Some buf"
    by (auto simp: index_stored_def nth_path_def)
  with codec_okD [OF assms(1), of "bs ! i"] p Cons show ?case
    by (simp add: downloadBundleFileListFile_def Let_def get)
qed simp

lemma unpackBundleFileList_ok:
  assumes "codec_ok cd" and "index_stored cd (bundle_pather b) (content s) 0 (blocks epf es)"
    and "bd_BundleEntriesFileCount (bn_Descriptor b) = length (blocks epf es)" and "0 < epf"
    and "length (blocks epf es) < 2 ^ 63" and "CHR 0x0A \<notin> set (bn_BundleID b)"
    and "\<And>js. mset (order js) = mset js"
  shows "unpackBundleFileList cd order False epf (Some (st, s)) co b = Inr (co, b\<lparr>bn_Entries := es\<rparr>, None)"
proof -
  let ?cnt = "length (blocks epf es)"
  have ord: "set (order [0..<?cnt]) \<subseteq> {..<?cnt}"
    using mset_eq_setD [OF assms(7), of "[0..<?cnt]"] by auto
  have "downloadBundleFileList cd False (Some (st, s)) co b (order [0..<?cnt]) =
      Inr (co, map (\<lambda>i. (i, Inr (blocks epf es ! i))) (order [0..<?cnt]))"
    using assms(6) by (intro downloadBundleFileList_ok [OF assms(1,2,5) _ ord]) simp
  moreover have "unpack_lists epf ?cnt (replicate (?cnt * epf) empty_entry)
      (map (\<lambda>i. (i, Inr (blocks epf es ! i))) (order [0..<?cnt])) = Inr (es, None)"
    by (rule unpack_lists_blocks [OF assms(4,7)])
  ultimately show ?thesis by (simp add: unpackBundleFileList_def Let_def assms(3))
qed

lemma implPublishMetadata_ok:
  assumes "codec_ok cd" and "bundle_stored E cd epf (content s) b es" and "0 < epf"
    and "\<And>base x buf. cd_Marshal (en_bundle E) x = Inr buf \<Longrightarrow> en_bundle_over E base buf = Inr (decoded_over base x)"
    and "length (blocks epf es) < 2 ^ 63" and "CHR 0x0A \<notin> set (bn_BundleID b)" and "bn_BundleID b \<noteq> ''''"
    and "bn_RepoID b0 = bn_RepoID b" and "bn_BundleID b0 = bn_BundleID b"
    and "\<And>js. mset (order js) = mset js"
  shows "implPublishMetadata E cd order False epf (Some (st, s)) co b0 =
    Some (Inr (co, b0\<lparr>bn_Descriptor := decoded_over (bn_Descriptor b0) (bn_Descriptor b), bn_Entries := es\<rparr>, None))"
proof -
  let ?b = "b0\<lparr>bn_Descriptor := decoded_over (bn_Descriptor b0) (bn_Descriptor b)\<rparr>"
  from assms(2) obtain buf where
    buf: "cd_Marshal (en_bundle E) (bn_Descriptor b) = Inr buf"
      "content s (GetArchivePathToBundle (bn_RepoID b) (bn_BundleID b)) = Some buf"
    and cnt: "bd_BundleEntriesFileCount (bn_Descriptor ?b) = length (blocks epf es)"
    and idx: "index_stored cd (bundle_pather ?b) (content s) 0 (blocks epf es)"
    by (auto simp: bundle_stored_def assms(8,9))
  have desc: "unpackBundleDescriptor E False (Some (st, s)) co b0 = Inr (co, Inr ?b)"
    using buf assms(4) [OF buf(1)] by (simp add: unpackBundleDescriptor_def Let_def has get assms(8,9))
  have "unpackBundleFileList cd order False epf (Some (st, s)) co ?b = Inr (co, ?b\<lparr>bn_Entries := es\<rparr>, None)"
    using assms(6,9) by (intro unpackBundleFileList_ok [OF assms(1) idx cnt assms(3,5) _ assms(10)]) simp
  with desc assms(7,9) show ?thesis by (simp add: implPublishMetadata_def)
qed

end


section \<open>The whole upload\<close>

lemma descriptor_not_index: "GetArchivePathToBundle r i \<noteq> GetArchivePathToBundleFileList r i n"
  by (simp add: GetArchivePathToBundle_def GetArchivePathToBundleFileList_def file_names)

abbreviation uploaded_entries :: "bool \<Rightarrow> hasher \<Rightarrow> defaultFs \<Rightarrow> (string \<times> bytes) list \<Rightarrow> BundleEntry list" where
  "uploaded_entries piped H f files \<equiv> map (filePacked2BundleEntry \<circ> packed_file piped H f) files"

text \<open>Room for the metadata of a bundle: neither its descriptor nor an index file is there yet.\<close>

definition bundle_free :: "(string \<Rightarrow> bytes option) \<Rightarrow> Bundle \<Rightarrow> nat \<Rightarrow> bool" where
  "bundle_free m b n \<longleftrightarrow> index_free (bundle_pather b) m 0 n
     \<and> m (GetArchivePathToBundle (bn_RepoID b) (bn_BundleID b)) = None"

text \<open>
  What is asked of YAML for bundle descriptors: every descriptor can be written, and decoding what was written into a
  descriptor with values leaves the fields that were omitted as they were.
\<close>

definition yaml_marshals :: "'v env \<Rightarrow> bool" where
  "yaml_marshals E \<longleftrightarrow> (\<forall>x. \<exists>buf. cd_Marshal (en_bundle E) x = Inr buf)"

definition yaml_bundles :: "'v env \<Rightarrow> bool" where
  "yaml_bundles E \<longleftrightarrow> (\<forall>x. \<exists>buf. cd_Marshal (en_bundle E) x = Inr buf \<and> (\<forall>base. en_bundle_over E base buf = Inr (decoded_over base x)))"

lemma yaml_bundles_marshals: "yaml_bundles E \<Longrightarrow> yaml_marshals E"
  by (auto simp: yaml_bundles_def yaml_marshals_def)

lemma yaml_bundles_over: "yaml_bundles E \<Longrightarrow> cd_Marshal (en_bundle E) x = Inr buf \<Longrightarrow> en_bundle_over E base buf = Inr (decoded_over base x)"
  unfolding yaml_bundles_def by (metis sum.inject(2))

context object_store
begin

text \<open>The descriptor, written after the index files, completes the metadata of a bundle.\<close>

lemma descriptor_completes:
  assumes "yaml_marshals E" and "validateBundle b" and "index_stored cd (bundle_pather b) (content m) 0 (blocks epf es)"
    and "content m (GetArchivePathToBundle (bn_RepoID b) (bn_BundleID b)) = None"
    and "bd_BundleEntriesFileCount (bn_Descriptor b) = length (blocks epf es)"
  shows "\<exists>m'. uploadBundleDescriptor E st m b = (m', None) \<and> bundle_stored E cd epf (content m') b es"
proof -
  let ?d = "GetArchivePathToBundle (bn_RepoID b) (bn_BundleID b)"
  obtain buf where buf: "cd_Marshal (en_bundle E) (bn_Descriptor b) = Inr buf"
    using assms(1) unfolding yaml_marshals_def by blast
  from assms(4) obtain m' where m': "put_crc st m ?d buf NoOverWrite = (m', None)" "content m' = (content m)(?d \<mapsto> buf)"
    using put_cases [of NoOverWrite m ?d buf] by (metis not_None_eq)
  have "index_stored cd (bundle_pather b) (content m') 0 (blocks epf es)"
    using assms(3) m'(2) descriptor_not_index [symmetric] by (auto simp: index_stored_def nth_path_def)
  with m' buf assms(2,5) show ?thesis by (simp add: bundle_stored_def uploadBundleDescriptor_def)
qed

lemma upload_metadata_ok:
  assumes "codec_ok cd" and "yaml_marshals E" and "0 < epf" and "length ps + 1 < 2 ^ 63"
    and "bd_BundleEntriesFileCount (bn_Descriptor b) = 0" and "validateBundle b"
    and "bundle_free (content m) b (length (blocks epf (map filePacked2BundleEntry ps)))"
  shows "\<exists>m1 m2. uploadBundle_loop st cd epf m b [] (map FilePacked ps) =
      (m1, with_count (length (blocks epf (map filePacked2BundleEntry ps))) b, None)
    \<and> uploadBundleDescriptor E st m1 (with_count (length (blocks epf (map filePacked2BundleEntry ps))) b) = (m2, None)
    \<and> bundle_stored E cd epf (content m2) (with_count (length (blocks epf (map filePacked2BundleEntry ps))) b)
        (map filePacked2BundleEntry ps)"
proof -
  let ?es = "map filePacked2BundleEntry ps" and ?files = "map (\<lambda>p. (p, fp_snapshot p)) ps"
  let ?bs = "blocks epf ?es" and ?p = "bundle_pather b"
  let ?b = "with_count (length ?bs) b"
  have timed: "timed_entries ?files = ?es" by (simp add: own_timestamp comp_def)
  have b0: "with_count 0 b = b" using assms(5) by simp
  have len: "length ?bs \<le> length ps" using length_blocks_le [OF assms(3), of ?es] by simp
  have "?bs = blocks epf ([] @ timed_entries ?files)" unfolding timed by simp
  moreover have "0 + length ?bs \<le> 2 ^ 64" using len assms(4) by simp
  moreover have "index_free ?p (content m) 0 (length ?bs)" using assms(7) by (simp add: bundle_free_def)
  ultimately obtain m1 where
    m1: "pack_loop st cd epf ?p m (of_nat 0) [] 0 (map (\<lambda>(f, now). Packed f now) ?files) = (m1, 0 + length ?bs, None)"
      "index_stored cd ?p (content m1) 0 ?bs" "\<forall>q. outside ?p 0 (length ?bs) q \<longrightarrow> content m1 q = content m q"
    using pack_loop_ok [OF assms(1,3) bundle_list_inj [of "bn_RepoID b" "bn_BundleID b"], of ?bs "[]" ?files m 0] assms(3)
    by (simp only: list.size) blast
  have "uploadBundle_loop st cd epf m b [] (map FilePacked ps) = (m1, ?b, None)"
    using upload_loop_is_pack_loop [of 0 ps st cd epf m b "[]"] m1(1) assms(4) unfolding b0 by (simp add: comp_def)
  moreover have "content m1 (GetArchivePathToBundle (bn_RepoID b) (bn_BundleID b)) = None"
    using m1(3) assms(7) descriptor_not_index by (auto simp: bundle_free_def nth_path_def)
  then have "\<exists>m2. uploadBundleDescriptor E st m1 ?b = (m2, None) \<and> bundle_stored E cd epf (content m2) ?b ?es"
    using m1(2) assms(6) by (intro descriptor_completes [OF assms(2)]) (simp_all add: validateBundle_def)
  ultimately show ?thesis by blast
qed

end


lemma fs_New_fs: "fs_New lruNew f = Inr (f', pool) \<Longrightarrow> f' = f \<and> 0 < fs_leafSize f"
  by (auto simp: fs_New_def Let_def KeySize_def split: if_splits option.splits)

context keyed_store
begin

lemma readable_file:
  assumes "stored H f (content s) d r" and "kview kc r = None" and "\<not> fs_leafTruncation f"
  shows "\<exists>kc1 cfg rdr. KeyFromString (Key_String r) = Inr r \<and> fs_reader H st LK f s kc r = (kc1, Inr (cfg, rdr))
    \<and> (\<forall>leaves. mset leaves = mset [0..<length (rc_keys cfg)] \<longrightarrow>
         WriteTo_file st cfg s leaves [] = (d, Inr (if st_piped st then 0 else length d)))"
proof -
  let ?cfg = "fs_reader_cfg f (file_keys H (fs_leafSize f) d)"
  from fs_reader_ok [OF assms(1), of kc] assms(2) obtain kc1 where
    "fs_reader H st LK f s kc r = (kc1, Inr (?cfg, new_chunkReader))" by auto
  moreover have "KeyFromString (Key_String r) = Inr r"
    using rootHash_length assms(1) by (auto simp: KeyFromString_String NewKey_def stored_def)
  moreover have "WriteTo_file st ?cfg s leaves [] = (d, Inr (if st_piped st then 0 else length d))"
    if "mset leaves = mset [0..<length (rc_keys ?cfg)]" for leaves
    using assms(3) that by (intro WriteTo_file_ok [OF stored_serves [OF assms(1)]]) simp_all
  ultimately show ?thesis by blast
qed

text \<open>An uploaded file has an entry, whose key gives its bytes.\<close>

lemma uploaded_readable:
  assumes "stored H f (content s) d (root_of H (fs_leafSize f) d)" and "\<And>r. kview kc r = None" and "\<not> fs_leafTruncation f"
    and "es = uploaded_entries piped H f files" and "(n, d) \<in> set files"
  shows "\<exists>e r kc1 cfg rdr. e \<in> set es \<and> be_NameWithPath e = n \<and> be_Size e = (if piped then 0 else length d)
    \<and> KeyFromString (be_Hash e) = Inr r \<and> fs_reader H st LK f s kc r = (kc1, Inr (cfg, rdr))
    \<and> (\<forall>leaves. mset leaves = mset [0..<length (rc_keys cfg)] \<longrightarrow>
         WriteTo_file st cfg s leaves [] = (d, Inr (if st_piped st then 0 else length d)))"
proof -
  let ?e = "filePacked2BundleEntry (packed_file piped H f (n, d))"
  have "?e \<in> set es" using assms(5) by (auto simp: assms(4))
  moreover have "be_Hash ?e = Key_String (root_of H (fs_leafSize f) d)" "be_NameWithPath ?e = n" "be_Size ?e = (if piped then 0 else length d)"
    by (simp_all add: filePacked2BundleEntry_def packed_file_def)
  ultimately show ?thesis using readable_file [OF assms(1,2,3)] by metis
qed

end

text \<open>
  C1: a bundle that is uploaded can be downloaded. Whatever the order in which the concurrent uploads
  complete, the upload succeeds and counts its index files; whatever the order in which the index
  files are then fetched, the metadata that is read back has one entry for
  each file, with its name, size and root key (the size is zero when the files come from a store whose
  readers are piped, such as Google Cloud Storage); and the reader for that key writes out the bytes of the
  file. The descriptor read back is the one written, but that the fields that YAML omits when they are zero (parents, time stamp, version,
  deduplication, run stage) keep what the bundle that is read into had. The identifier of the bundle must be new, the hash must not collide, and
  the leaves must not be of the legacy truncated form.
\<close>

theorem Upload_download:
  assumes "bucket_api clm om" and "bucket_api clb ob" and "lru_cache (ue_LK U) kview" and "blake_ok (ue_H U)"
    and "codec_ok cd" and "yaml_bundles E" and "0 < epf"
    and f: "fs_New lruNew (bundle_fs opts b) = Inr (f, leafPool)" and "\<not> fs_leafTruncation f"
    and plan: "upload_plan cst c b files = (plan, None)" and "mset (ue_order U plan) = mset plan"
    and "\<And>jobs. mset (ue_flush U jobs) = mset jobs" and "\<forall>file \<in> set plan. reads_well U f (snd file)"
    and room: "room_for (gcs_content ob gb s) (\<Union>file \<in> set plan. blobs_of (ue_H U) f (snd file))"
    and "bn_BundleID b \<noteq> ''''" and "CHR 0x0A \<notin> set (bn_BundleID b)"
    and "bd_BundleEntriesFileCount (bn_Descriptor b) = 0" and "validateBundle b" and "length plan + 1 < 2 ^ 63"
    and "es = uploaded_entries (st_piped cst) (ue_H U) f (ue_order U plan)"
    and "bundle_free (gcs_content om gm m) b (length (blocks epf es))"
    and "\<And>js. mset (order js) = mset js" and "bn_RepoID br = bn_RepoID b" and "bn_BundleID br = bn_BundleID b"
    and "\<And>r. kview kcr r = None"
  shows "\<exists>m' s'. uploadBundle E U lruNew (gcs_store clm gm) cd epf (gcs_store clb gb) cst opts m s c kc b (Inr files) =
        Some (Inr (m', s', with_count (length (blocks epf es)) b, None))
    \<and> implPublishMetadata E cd order False epf (Some (gcs_store clm gm, m')) (None :: 'x opened) br =
        Some (Inr (None, br\<lparr>bn_Descriptor := decoded_over (bn_Descriptor br) (bn_Descriptor (with_count (length (blocks epf es)) b)), bn_Entries := es\<rparr>, None))
    \<and> (\<forall>(n, d) \<in> set plan. \<exists>e r kc1 cfg rdr. e \<in> set es \<and> be_NameWithPath e = n \<and> be_Size e = (if st_piped cst then 0 else length d)
        \<and> KeyFromString (be_Hash e) = Inr r
        \<and> fs_reader (ue_H U) (gcs_store clb gb) (ue_LK U) f s' kcr r = (kc1, Inr (cfg, rdr))
        \<and> (\<forall>leaves. mset leaves = mset [0..<length (rc_keys cfg)] \<longrightarrow>
             WriteTo_file (gcs_store clb gb) cfg s' leaves [] = (d, Inr 0)))"
proof -
  note mst = gcs_is_store [OF assms(1), of gm] and bst = gcs_is_store [OF assms(2), of gb]
  let ?H = "ue_H U" and ?plan = "ue_order U plan" and ?b = "with_count (length (blocks epf es)) b"
  note fN = fs_New_fs [OF f]
  have plan_set: "set ?plan = set plan" using assms(11) by (rule mset_eq_setD)
  have len: "length ?plan = length plan" using assms(11) by (rule mset_eq_length)
  from object_store.uploadBundleFile_ok [OF bst assms(4), of f ?plan s "st_piped cst" kc] fN assms(12,13) room plan_set
  obtain s' where
    up: "uploadBundleFile U (st_piped cst) (gcs_store clb gb) f s kc ?plan = Some (Inr (s', map (FilePacked \<circ> packed_file (st_piped cst) ?H f) ?plan))"
    and blobs: "holds_also (gcs_content ob gb s) (gcs_content ob gb s') (\<Union>file \<in> set plan. blobs_of ?H f (snd file))"
    by auto
  let ?ps = "map (packed_file (st_piped cst) ?H f) ?plan"
  have es: "map filePacked2BundleEntry ?ps = es" by (simp add: assms(20))
  obtain m1 m2 where
    md: "uploadBundle_loop (gcs_store clm gm) cd epf m b [] (map FilePacked ?ps) = (m1, ?b, None)"
      "uploadBundleDescriptor E (gcs_store clm gm) m1 ?b = (m2, None)"
      "bundle_stored E cd epf (gcs_content om gm m2) ?b es"
    using object_store.upload_metadata_ok [OF mst assms(5) yaml_bundles_marshals [OF assms(6)] assms(7), of ?ps b m] assms(17-19,21) len es by auto
  have "uploadBundle E U lruNew (gcs_store clm gm) cd epf (gcs_store clb gb) cst opts m s c kc b (Inr files) =
      Some (Inr (m2, s', ?b, None))"
    using up md(1,2) assms(15) by (simp add: uploadBundle_def f uploadBundleFiles_def plan)
  moreover have "implPublishMetadata E cd order False epf (Some (gcs_store clm gm, m2)) (None :: 'x opened) br =
      Some (Inr (None, br\<lparr>bn_Descriptor := decoded_over (bn_Descriptor br) (bn_Descriptor ?b), bn_Entries := es\<rparr>, None))"
  proof (rule object_store.implPublishMetadata_ok [OF mst assms(5) md(3) assms(7)])
    show "length (blocks epf es) < 2 ^ 63"
      using length_blocks_le [OF assms(7), of es] assms(19,20) len by simp
    show "en_bundle_over E base buf = Inr (decoded_over base x)" if "cd_Marshal (en_bundle E) x = Inr buf" for base x buf
      using assms(6) that by (rule yaml_bundles_over)
  qed (use assms in simp_all)
  moreover have "stored ?H f (gcs_content ob gb s') d (root_of ?H (fs_leafSize f) d)" if "(n, d) \<in> set plan" for n d
    using blobs that fN root_of [OF assms(4)] assms(4) by (force simp: stored_def holds_also_def)
  note readable = keyed_store.uploaded_readable [OF keyed_store.intro [OF bst assms(3)] this assms(25,9,20), unfolded plan_set]
  have piped: "(if st_piped (gcs_store clb gb) then 0 else length d) = 0" for d :: bytes by simp
  note readable [unfolded piped]
  ultimately show ?thesis by blast
qed


lemma yaml_bundles_of_codec:
  assumes "codec_ok (en_bundle E)"
    and "\<And>base b. en_bundle_over E base b = map_sum id (decoded_over base) (cd_Unmarshal (en_bundle E) b)"
  shows "yaml_bundles E"
  unfolding yaml_bundles_def
proof
  fix x
  obtain buf where "cd_Marshal (en_bundle E) x = Inr buf" "cd_Unmarshal (en_bundle E) buf = Inr x"
    using codec_okD [OF assms(1)] by blast
  then show "\<exists>buf. cd_Marshal (en_bundle E) x = Inr buf \<and> (\<forall>base. en_bundle_over E base buf = Inr (decoded_over base x))"
    by (simp add: assms(2))
qed

lemma ser_env_bundles: "yaml_bundles ser_env"
  by (rule yaml_bundles_of_codec) (simp_all add: ser_env_def ser_codec_ok bundle_ser_ok)

definition tag_upload :: "(Key \<times> Key list) list upload_env" where
  "tag_upload = \<lparr>ue_H = tag_hash, ue_LK = mru_lru 1, ue_flush = rev, ue_read = (\<lambda>d. [d]), ue_order = rev,
     ue_early = 0, ue_newID = ''n''\<rparr>"

definition tag_bundle :: Bundle where
  "tag_bundle = \<lparr>bn_RepoID = ''r'', bn_BundleID = ''b'', bn_Descriptor = some_bundle\<lparr>bd_Deduplication := ''blake''\<rparr>,
     bn_Entries = [], bn_SkipOnError = False\<rparr>"

lemma tag_fs_of: "bundle_fs tag_fs tag_bundle = tag_fs"
  by (simp add: bundle_fs_def tag_fs_def tag_bundle_def)

lemma fixed_not_piped: "\<not> st_piped (fixed_store objs ks)"
  by (simp add: fixed_store_def)

theorem Upload_download_witness:
  "\<exists>m' s'. uploadBundle ser_env tag_upload (\<lambda>_. None) (gcs_store steady_client plain_gcs) entries_codec 1000
      (gcs_store steady_client plain_gcs) (fixed_store [(''f'', [7])] []) tag_fs [] [] () [] tag_bundle (Inr [''f'']) =
    Some (Inr (m', s', with_count 1 tag_bundle, None))"
proof -
  let ?es = "uploaded_entries False tag_hash tag_fs [(''f'', [7])]"
  have root: "root_of tag_hash 64 [7] = tag_root"
    using tag_rootHash by (simp add: root_of_def)
  have room: "room_for (gcs_content map_of plain_gcs []) (\<Union>file \<in> set [(''f'', [7])]. blobs_of tag_hash tag_fs (snd file))"
    using tag_room [of plain_gcs] root by (simp add: tag_fs_def)
  have one: "blocks 1000 ?es = [?es]" by (simp add: blocks_step)
  have plan: "upload_plan (fixed_store [(''f'', [7])] []) () tag_bundle [''f''] = ([(''f'', [7])], None)"
    by (simp add: skipFile_def fixed_store_def tag_bundle_def IsGeneratedFile_def starts_with_def opt_dot_slash_def)
  have fs: "\<exists>pool. fs_New (\<lambda>_. None) (bundle_fs tag_fs tag_bundle) = Inr (tag_fs, pool)"
    unfolding tag_fs_of by (simp add: fs_New_def tag_fs_def Let_def KeySize_def MaxLeafSize_def MiB_def)
  then obtain pool where fs: "fs_New (\<lambda>_. None) (bundle_fs tag_fs tag_bundle) = Inr (tag_fs, pool)" by blast
  have lru: "lru_cache (ue_LK tag_upload) map_of" by (simp add: tag_upload_def mru.lru_cache_axioms)
  note ud = Upload_download [OF steady.bucket_api_axioms steady.bucket_api_axioms lru _ entries_codec_ok ser_env_bundles _ fs _ plan,
      where s = "[]" and m = "[]" and gb = plain_gcs and gm = plain_gcs and order = rev and es = ?es and kcr = "[]"
      and br = tag_bundle and kc = "[]" and epf = 1000]
  have "\<exists>m' s'. uploadBundle ser_env tag_upload (\<lambda>_. None) (gcs_store steady_client plain_gcs) entries_codec 1000
      (gcs_store steady_client plain_gcs) (fixed_store [(''f'', [7])] []) tag_fs [] [] () [] tag_bundle (Inr [''f'']) =
      Some (Inr (m', s', with_count (length (blocks 1000 ?es)) tag_bundle, None))"
    using ud room one fixed_not_piped [of "[(''f'', [7])]" "[]"]
    by (simp add: tag_upload_def tag_hash_ok tag_fs_def reads_well_def
        tag_bundle_def validateBundle_def bundle_free_def index_free_def gcs_content_def) blast
  then show ?thesis unfolding one by simp
qed

end
