(* ===== verification/LocalFs.thy ===== *)
theory LocalFs
  imports ObjectStore
begin

text \<open>
  The local file system backend, \<open>pkg/storage/localfs/store.go\<close>, which holds the files that bundles
  are uploaded from and downloaded to. The file system package \<open>afero\<close> is a parameter: a record of the
  calls the backend makes. The locale \<open>afero_api\<close> states the documented behaviour of those calls for a
  set of file names none of which is a directory of another.
\<close>

section \<open>The file system package\<close>

datatype os_err = OsNotExist | OsOther string

record file_info =
  fi_IsDir :: bool
  fi_Size :: nat

record 'f afero =
  af_Stat :: "'f \<Rightarrow> string \<Rightarrow> (os_err, file_info) res"
  af_ModTime :: "'f \<Rightarrow> string \<Rightarrow> nat" \<comment> \<open>\<open>ModTime\<close> of what \<open>Stat\<close> returns\<close>
  af_Read :: "'f \<Rightarrow> string \<Rightarrow> (os_err, bytes) res" \<comment> \<open>\<open>Open\<close>, and the bytes then read\<close>
  af_MkdirAll :: "'f \<Rightarrow> string \<Rightarrow> 'f \<times> os_err option"
  \<comment> \<open>\<open>OpenFile\<close> to create and truncate, with \<open>O_EXCL\<close> or not\<close>
  af_OpenFile :: "'f \<Rightarrow> string \<Rightarrow> bool \<Rightarrow> 'f \<times> os_err option"
  \<comment> \<open>what is on file after the given bytes were written to the file just opened\<close>
  af_Write :: "'f \<Rightarrow> string \<Rightarrow> bytes \<Rightarrow> 'f"
  af_Close :: "'f \<Rightarrow> string \<Rightarrow> 'f \<times> os_err option"
  af_Remove :: "'f \<Rightarrow> string \<Rightarrow> 'f \<times> os_err option"
  af_RemoveAll :: "'f \<Rightarrow> string \<Rightarrow> 'f \<times> os_err option"
  \<comment> \<open>what a walk from a root visits: a name with its info, \<open>nil\<close> when there is an error\<close>
  af_Walk :: "'f \<Rightarrow> string \<Rightarrow> (string \<times> file_info option \<times> os_err option) list"

section \<open>The backend\<close>

text \<open>\<open>toSentinelErrors\<close>\<close>

fun lfs_toSentinelErrors :: "os_err \<Rightarrow> store_err" where
  "lfs_toSentinelErrors OsNotExist = ErrNotExists"
| "lfs_toSentinelErrors (OsOther e) = OtherStoreErr e"

fun os_text :: "os_err \<Rightarrow> string" where
  "os_text OsNotExist = ''file does not exist''"
| "os_text (OsOther e) = e"

definition lfs_Has :: "'f afero \<Rightarrow> 'f \<Rightarrow> string \<Rightarrow> (store_err, bool) res" where
  "lfs_Has A f key =
     (case af_Stat A f key of
        Inl e \<Rightarrow> if e = OsNotExist then Inr False else Inl (OtherStoreErr (os_text e))
      | Inr fi \<Rightarrow> Inr (\<not> fi_IsDir fi))"

definition lfs_Get :: "'f afero \<Rightarrow> 'f \<Rightarrow> string \<Rightarrow> (store_err, bytes) res" where
  "lfs_Get A f key =
     (case af_Read A f key of Inl e \<Rightarrow> Inl (lfs_toSentinelErrors e) | Inr d \<Rightarrow> Inr d)"

definition lfs_GetAttr :: "'f afero \<Rightarrow> 'f \<Rightarrow> string \<Rightarrow> (store_err, Attributes) res" where
  "lfs_GetAttr A f objectName =
     (case af_Stat A f objectName of
        Inl e \<Rightarrow> Inl (OtherStoreErr (os_text e))
      | Inr st \<Rightarrow> Inr \<lparr>attr_Updated = af_ModTime A f objectName, attr_Size = fi_Size st, attr_CRC32C = 0\<rparr>)"

text \<open>\<open>filepath.Dir\<close>: what comes before the last slash, cleaned.\<close>

definition path_Dir :: "string \<Rightarrow> string" where
  "path_Dir p = path_Clean (rev (dropWhile (\<lambda>c. c \<noteq> CHR ''/'') (rev p)))"

text \<open>
  The operation that \<open>Put\<close> retries. The error of the copy (\<open>wt.WriteTo\<close> or \<open>PipeIO\<close>) is logged, then
  replaced by that of \<open>target.Close()\<close>. The source is a function of the number of copies made before: a
  reader is drained by the first one, a reader of the content-addressable file system starts again.
\<close>

fun lfs_attempts ::
  "'f afero \<Rightarrow> nat \<Rightarrow> nat \<Rightarrow> 'f \<Rightarrow> string \<Rightarrow> bool \<Rightarrow> (nat \<Rightarrow> bytes) \<Rightarrow> 'f \<times> os_err option" where
  "lfs_attempts A tries copies f key excl src =
     (case af_OpenFile A f key excl of
        (f1, Some e) \<Rightarrow>
          (case tries of 0 \<Rightarrow> (f1, Some e) | Suc n \<Rightarrow> lfs_attempts A n copies f1 key excl src)
      | (f1, None) \<Rightarrow>
          (case af_Close A (af_Write A f1 key (src copies)) key of
             (f2, None) \<Rightarrow> (f2, None)
           | (f2, Some e) \<Rightarrow>
               (case tries of 0 \<Rightarrow> (f2, Some e) | Suc n \<Rightarrow> lfs_attempts A n (copies + 1) f2 key excl src)))"

declare lfs_attempts.simps [simp del]

definition lfs_Put ::
  "'f afero \<Rightarrow> nat \<Rightarrow> 'f \<Rightarrow> string \<Rightarrow> (nat \<Rightarrow> bytes) \<Rightarrow> bool \<Rightarrow> 'f \<times> store_err option" where
  "lfs_Put A tries f key src excl =
     (case af_MkdirAll A f (path_Dir key) of
        (f1, Some e) \<Rightarrow> (f1, Some (OtherStoreErr (os_text e)))
      | (f1, None) \<Rightarrow>
          (case lfs_attempts A tries 0 f1 key excl src of
             (f2, e) \<Rightarrow> (f2, map_option (OtherStoreErr \<circ> os_text) e)))"

text \<open>A source that is a plain reader: nothing is left of it for a second copy.\<close>

definition drained :: "bytes \<Rightarrow> nat \<Rightarrow> bytes" where
  "drained d n = (if n = 0 then d else [])"

definition lfs_Delete :: "'f afero \<Rightarrow> 'f \<Rightarrow> string \<Rightarrow> 'f \<times> store_err option" where
  "lfs_Delete A f key =
     (case af_Remove A f key of
        (f1, None) \<Rightarrow> (f1, None)
      | (f1, Some e) \<Rightarrow> (f1, if e = OsNotExist then None else Some (OtherStoreErr (os_text e))))"

text \<open>\<open>Keys\<close>: the walk stops at the first visit with an error.\<close>

fun walk_files :: "(string \<times> file_info option \<times> os_err option) list \<Rightarrow> (os_err, string list) res" where
  "walk_files [] = Inr []"
| "walk_files ((pth, info, Some e) # vs) = Inl e"
| "walk_files ((pth, info, None) # vs) =
     (if pth = ''.'' \<or> fi_IsDir (the info) then walk_files vs else rbind (walk_files vs) (\<lambda>ps. Inr (pth # ps)))"

definition lfs_Keys :: "'f afero \<Rightarrow> 'f \<Rightarrow> (store_err, string list) res" where
  "lfs_Keys A f =
     (case walk_files (af_Walk A f ''.'') of Inl e \<Rightarrow> Inl (OtherStoreErr (os_text e)) | Inr ks \<Rightarrow> Inr ks)"

definition lfs_Clear :: "'f afero \<Rightarrow> 'f \<Rightarrow> 'f \<times> store_err option" where
  "lfs_Clear A f = (case af_RemoveAll A f ''/'' of (f1, e) \<Rightarrow> (f1, map_option (OtherStoreErr \<circ> os_text) e))"

section \<open>Listing by prefix\<close>

text \<open>\<open>strings.Index\<close>\<close>

fun strings_Index :: "string \<Rightarrow> string \<Rightarrow> nat option" where
  "strings_Index [] sep = (if sep = [] then Some 0 else None)"
| "strings_Index (c # s) sep = (if prefix sep (c # s) then Some 0 else map_option Suc (strings_Index s sep))"

text \<open>
  The visitor of the walk. It looks at the file info before it looks at the error: a walk that cannot
  read a directory gives it no info, and the access panics.
\<close>

fun glob_matches ::
  "string \<Rightarrow> string \<Rightarrow> bool \<Rightarrow> (string \<times> file_info option \<times> os_err option) list \<Rightarrow> (panic, string list) res" where
  "glob_matches pfx delimiter noRoot [] = Inr []"
| "glob_matches pfx delimiter noRoot ((pth, None, err) # vs) = Inl NilDereference"
| "glob_matches pfx delimiter noRoot ((pth, Some info, err) # vs) =
     (if fi_IsDir info \<or> err \<noteq> None \<or> \<not> prefix pfx pth then glob_matches pfx delimiter noRoot vs
      else
        let cut = (if delimiter \<noteq> '''' \<and> length pfx < length pth
                   then strings_Index (drop (length pfx) pth) delimiter else None);
            pth1 = (case cut of None \<Rightarrow> pth | Some i \<Rightarrow> take (length pfx + i + 1) pth);
            pth2 = (if noRoot then (case strip_prefix ''/'' pth1 of None \<Rightarrow> pth1 | Some r \<Rightarrow> r) else pth1)
        in rbind (glob_matches pfx delimiter noRoot vs) (\<lambda>ms. Inr (pth2 # ms)))"

fun dedupe :: "string list \<Rightarrow> string list \<Rightarrow> string list" where
  "dedupe deduped [] = deduped"
| "dedupe deduped (m # ms) = dedupe (if m \<in> set deduped then deduped else deduped @ [m]) ms"

text \<open>
  \<open>KeysPrefix\<close>. The matches of a prefix are cached under the cleaned prefix for as long as a client pages
  through them: the delimiter is not part of the cache key, and cleaning removes a final slash.
\<close>

definition find_token :: "string \<Rightarrow> string list \<Rightarrow> nat option" where
  "find_token token search =
     (let before = takeWhile (\<lambda>k. k \<noteq> token) search
      in if length before < length search then Some (length before) else None)"

type_synonym glob = "string \<rightharpoonup> string list"

definition lfs_page :: "glob \<Rightarrow> string \<Rightarrow> string list \<Rightarrow> string \<Rightarrow> nat \<Rightarrow> glob \<times> string list \<times> string" where
  "lfs_page glob pfx search token cnt =
     (case (if token = '''' then Some 0 else find_token token search) of
        None \<Rightarrow> (glob(pfx := None), [], '''')
      | Some start \<Rightarrow>
          if start + cnt < length search
          then (glob(pfx \<mapsto> search), take cnt (drop start search), search ! (start + cnt))
          else (glob(pfx := None), drop start search, ''''))"

definition lfs_KeysPrefix ::
  "'f afero \<Rightarrow> 'f \<Rightarrow> glob \<Rightarrow> string \<Rightarrow> string \<Rightarrow> string \<Rightarrow> nat \<Rightarrow> (panic, glob \<times> string list \<times> string) res" where
  "lfs_KeysPrefix A f glob token pfx delimiter cnt =
     (let noRoot = (\<not> prefix ''/'' pfx); pfx1 = path_Clean (''/'' @ pfx) in
      case glob pfx1 of
        Some search \<Rightarrow> Inr (lfs_page glob pfx1 search token cnt)
      | None \<Rightarrow>
          rbind (glob_matches pfx1 delimiter noRoot (af_Walk A f (path_Dir pfx1)))
            (\<lambda>ms. Inr (lfs_page glob pfx1 (if delimiter \<noteq> '''' then dedupe [] ms else ms) token cnt)))"

section \<open>As a store\<close>

text \<open>
  \<open>KeysPrefix\<close> of a store starts from an empty cache here, and a panic of it is an error: the cache of the backend, which
  outlives a call, and the panic are in \<open>lfs_KeysPrefix\<close>. No client of a local store in this development lists by prefix.
\<close>

definition lfs_store :: "'f afero \<Rightarrow> nat \<Rightarrow> 'f Store" where
  "lfs_store A tries = \<lparr>st_Has = lfs_Has A, st_Get = lfs_Get A, st_GetAttr = lfs_GetAttr A,
     st_Put = (\<lambda>f key d excl. lfs_Put A tries f key (drained d) excl), st_PutCRC = None,
     st_Delete = lfs_Delete A, st_Keys = (\<lambda>f. Some (lfs_Keys A f)),
     st_KeysPrefix = (\<lambda>f token pfx delimiter cnt.
       case lfs_KeysPrefix A f Map.empty token pfx delimiter cnt of
         Inl p \<Rightarrow> Inl (OtherStoreErr ''panic'') | Inr (glob, ks, next) \<Rightarrow> Inr (ks, next)),
     st_Clear = lfs_Clear A, st_piped = False\<rparr>"

lemma lfs_store_simps [simp]:
  "st_Has (lfs_store A tries) = lfs_Has A" "st_Get (lfs_store A tries) = lfs_Get A"
  "st_Put (lfs_store A tries) f k d excl = lfs_Put A tries f k (drained d) excl"
  "st_Delete (lfs_store A tries) = lfs_Delete A" "st_Keys (lfs_store A tries) f = Some (lfs_Keys A f)"
  "\<not> st_piped (lfs_store A tries)"
  by (simp_all add: lfs_store_def)

section \<open>On a file system without failures\<close>

text \<open>
  The file names in use are \<open>names\<close>; \<open>files\<close> are the contents. A directory can be made for each of
  them, an exclusive open of an existing file fails, any other open truncates, what is written is
  there, and a walk visits every file once.
\<close>

locale afero_api =
  fixes A :: "'f afero"
    and files :: "'f \<Rightarrow> string \<Rightarrow> bytes option"
    and names :: "string set"
  assumes stat: "k \<in> names \<Longrightarrow> af_Stat A f k =
      (case files f k of None \<Rightarrow> Inl OsNotExist | Some d \<Rightarrow> Inr \<lparr>fi_IsDir = False, fi_Size = length d\<rparr>)"
    and read: "k \<in> names \<Longrightarrow> af_Read A f k = (case files f k of None \<Rightarrow> Inl OsNotExist | Some d \<Rightarrow> Inr d)"
    and mkdir: "k \<in> names \<Longrightarrow> \<exists>f'. af_MkdirAll A f (path_Dir k) = (f', None) \<and> files f' = files f"
    and open_new: "k \<in> names \<Longrightarrow> \<not> (excl \<and> files f k \<noteq> None) \<Longrightarrow>
      \<exists>f'. af_OpenFile A f k excl = (f', None) \<and> files f' = (files f)(k \<mapsto> [])"
    and open_exists: "k \<in> names \<Longrightarrow> excl \<Longrightarrow> files f k \<noteq> None \<Longrightarrow>
      \<exists>f' e. af_OpenFile A f k excl = (f', Some e) \<and> files f' = files f"
    and written: "k \<in> names \<Longrightarrow> files f k = Some [] \<Longrightarrow> files (af_Write A f k d) = (files f)(k \<mapsto> d)"
    and close: "k \<in> names \<Longrightarrow> \<exists>f'. af_Close A f k = (f', None) \<and> files f' = files f"
    and remove: "k \<in> names \<Longrightarrow> files (fst (af_Remove A f k)) = (files f)(k := None)"
    and remove_err: "k \<in> names \<Longrightarrow> snd (af_Remove A f k) = (if files f k = None then Some OsNotExist else None)"
    and walk_ok: "\<forall>(pth, info, err) \<in> set (af_Walk A f ''.''). info \<noteq> None \<and> err = None"
    and walk_once: "distinct (map fst (af_Walk A f ''.''))"
    and walk_names: "set [pth. (pth, Some info, err) \<leftarrow> af_Walk A f ''.'', pth \<noteq> ''.'' \<and> \<not> fi_IsDir info] =
      {k. files f k \<noteq> None}"
begin

lemma attempts_fail:
  "k \<in> names \<Longrightarrow> files f k \<noteq> None \<Longrightarrow> \<exists>f' e. lfs_attempts A tries n f k True src = (f', Some e) \<and> files f' = files f"
proof (induction tries arbitrary: f)
  case 0
  from open_exists [OF 0(1) _ 0(2), of True] show ?case by (subst lfs_attempts.simps) auto
next
  case (Suc tries)
  from open_exists [OF Suc.prems(1) _ Suc.prems(2), of True] obtain f1 e where
    "af_OpenFile A f k True = (f1, Some e)" "files f1 = files f" by auto
  with Suc.IH [OF Suc.prems(1), of f1] Suc.prems(2) show ?case by (subst lfs_attempts.simps) auto
qed

lemma put_exists:
  assumes "k \<in> names" and "files f k \<noteq> None"
  shows "\<exists>f' e. lfs_Put A tries f k src True = (f', Some e) \<and> files f' = files f"
proof -
  from mkdir [OF assms(1), of f] obtain f1 where "af_MkdirAll A f (path_Dir k) = (f1, None)" "files f1 = files f" by auto
  with attempts_fail [OF assms(1), of f1 tries 0 src] assms(2) show ?thesis by (auto simp: lfs_Put_def)
qed

lemma put_new:
  assumes "k \<in> names" and "\<not> (excl \<and> files f k \<noteq> None)"
  shows "\<exists>f'. lfs_Put A tries f k src excl = (f', None) \<and> files f' = (files f)(k \<mapsto> src 0)"
proof -
  from mkdir [OF assms(1), of f] obtain f1 where 1: "af_MkdirAll A f (path_Dir k) = (f1, None)" "files f1 = files f" by auto
  with open_new [OF assms(1), of excl f1] assms(2) obtain f2 where
    2: "af_OpenFile A f1 k excl = (f2, None)" "files f2 = (files f)(k \<mapsto> [])" by auto
  with written [OF assms(1), of f2 "src 0"] have 3: "files (af_Write A f2 k (src 0)) = (files f)(k \<mapsto> src 0)" by simp
  from close [OF assms(1), of "af_Write A f2 k (src 0)"] obtain f3 where
    "af_Close A (af_Write A f2 k (src 0)) k = (f3, None)" "files f3 = files (af_Write A f2 k (src 0))" by auto
  with 1 2 3 show ?thesis by (simp add: lfs_Put_def lfs_attempts.simps)
qed

lemma get: "k \<in> names \<Longrightarrow> lfs_Get A f k = (case files f k of None \<Rightarrow> Inl ErrNotExists | Some d \<Rightarrow> Inr d)"
  by (simp add: lfs_Get_def read split: option.split)

lemma has: "k \<in> names \<Longrightarrow> lfs_Has A f k = Inr (files f k \<noteq> None)"
  by (auto simp: lfs_Has_def stat split: option.split)

lemma delete: "k \<in> names \<Longrightarrow> \<exists>f'. lfs_Delete A f k = (f', None) \<and> files f' = (files f)(k := None)"
  using remove [of k f] remove_err [of k f]
  by (cases "af_Remove A f k") (auto simp: lfs_Delete_def split: option.split if_splits)

lemma walk_files_ok:
  "\<forall>(pth, info, err) \<in> set vs. info \<noteq> None \<and> err = None \<Longrightarrow>
   walk_files vs = Inr [pth. (pth, Some info, err) \<leftarrow> vs, pth \<noteq> ''.'' \<and> \<not> fi_IsDir info]"
  by (induction vs rule: walk_files.induct) auto

lemma visited_once: "distinct (map fst vs) \<Longrightarrow> distinct [pth. (pth, Some info, err) \<leftarrow> vs, pth \<noteq> ''.'' \<and> \<not> fi_IsDir info]"
  by (induction vs) (auto simp: image_iff split: option.splits)

lemma keys: "\<exists>ks. lfs_Keys A f = Inr ks \<and> set ks = {k. files f k \<noteq> None} \<and> distinct ks"
  using walk_files_ok [OF walk_ok, of f] walk_names [of f] visited_once [OF walk_once, of f] by (auto simp: lfs_Keys_def)

end

section \<open>A file system in memory\<close>

text \<open>Files in an association list, without directories; \<open>.\<close> names the root and is no file.\<close>

definition mem_files :: "(string \<times> bytes) list \<Rightarrow> string \<Rightarrow> bytes option" where
  "mem_files f = (map_of f)(''.'' := None)"

definition mem_fs :: "(string \<times> bytes) list afero" where
  "mem_fs = \<lparr>af_Stat = (\<lambda>f k. case mem_files f k of None \<Rightarrow> Inl OsNotExist
         | Some d \<Rightarrow> Inr \<lparr>fi_IsDir = False, fi_Size = length d\<rparr>),
     af_ModTime = (\<lambda>f k. 0),
     af_Read = (\<lambda>f k. case mem_files f k of None \<Rightarrow> Inl OsNotExist | Some d \<Rightarrow> Inr d),
     af_MkdirAll = (\<lambda>f k. (f, None)),
     af_OpenFile = (\<lambda>f k excl. if excl \<and> mem_files f k \<noteq> None then (f, Some (OsOther ''file exists''))
         else ((k, []) # f, None)),
     af_Write = (\<lambda>f k d. (k, d) # f), af_Close = (\<lambda>f k. (f, None)),
     af_Remove = (\<lambda>f k. (filter (\<lambda>p. fst p \<noteq> k) f, if mem_files f k = None then Some OsNotExist else None)),
     af_RemoveAll = (\<lambda>f k. ([], None)),
     af_Walk = (\<lambda>f k. map (\<lambda>n. (n, Some \<lparr>fi_IsDir = False, fi_Size = length (the (map_of f n))\<rparr>, None)) (remdups (map fst f)))\<rparr>"

lemma mem_remove: "mem_files (filter (\<lambda>p. fst p \<noteq> k) f) = (mem_files f)(k := None)"
  by (auto simp: mem_files_def map_of_filter_neq fun_upd_twist)

lemma mem_walk: "set [pth. (pth, Some info, err) \<leftarrow> af_Walk mem_fs f r, pth \<noteq> ''.'' \<and> \<not> fi_IsDir info] =
   {k. mem_files f k \<noteq> None}"
proof -
  have "concat (map (\<lambda>n. if n \<noteq> ''.'' then [n] else []) ns) = filter (\<lambda>n. n \<noteq> ''.'') ns" for ns
    by (induction ns) auto
  then show ?thesis
    by (auto simp: mem_fs_def mem_files_def comp_def dom_map_of_conv_image_fst [symmetric] split: if_splits)
qed

interpretation mem: afero_api mem_fs mem_files "{k. k \<noteq> ''.''}"
proof (unfold_locales, goal_cases)
  case (12 f)
  show ?case by (rule mem_walk)
qed (auto simp: mem_fs_def mem_remove comp_def, auto simp: mem_files_def split: option.split if_splits)

section \<open>Paging through a prefix\<close>

text \<open>
  A client that asks for page after page; the file system may change from one call to the next. The
  flag says whether the last page was reached.
\<close>

fun lfs_list ::
  "'f afero \<Rightarrow> glob \<Rightarrow> string \<Rightarrow> string \<Rightarrow> string \<Rightarrow> nat \<Rightarrow> 'f list \<Rightarrow> (panic, glob \<times> string list \<times> bool) res" where
  "lfs_list A glob token pfx delimiter cnt [] = Inr (glob, [], False)"
| "lfs_list A glob token pfx delimiter cnt (f # fs) =
     rbind (lfs_KeysPrefix A f glob token pfx delimiter cnt) (\<lambda>(glob1, ks, next).
       if next = '''' then Inr (glob1, ks, True)
       else rbind (lfs_list A glob1 next pfx delimiter cnt fs) (\<lambda>(glob2, ks', d). Inr (glob2, ks @ ks', d)))"

lemma find_token_nth:
  assumes "distinct search" and "i < length search"
  shows "find_token (search ! i) search = Some i"
proof -
  have "takeWhile (\<lambda>k. k \<noteq> search ! i) search = take i search"
    using assms by (intro takeWhile_eq_take_P_nth) (auto simp: nth_eq_iff_index_eq)
  then show ?thesis using assms by (simp add: find_token_def)
qed

lemma lfs_page_from:
  assumes "distinct search" and "'''' \<notin> set search" and "i < length search \<or> i = 0"
  shows "lfs_page glob pfx search (if i = 0 then '''' else search ! i) cnt =
    (if i + cnt < length search then (glob(pfx \<mapsto> search), take cnt (drop i search), search ! (i + cnt))
     else (glob(pfx := None), drop i search, ''''))"
proof (cases "i = 0")
  case False
  with assms(2,3) have "i < length search" "search ! i \<noteq> ''''" by (auto dest: nth_mem)
  with False find_token_nth [OF assms(1), of i] show ?thesis by (simp add: lfs_page_def)
qed (simp add: lfs_page_def)

lemma lfs_list_from:
  assumes "distinct search" and "'''' \<notin> set search" and "0 < cnt"
  shows "glob (path_Clean (''/'' @ pfx)) = Some search \<Longrightarrow> 0 < i \<Longrightarrow> i < length search \<Longrightarrow> length search \<le> i + length fs \<Longrightarrow>
    lfs_list A glob (search ! i) pfx delimiter cnt fs =
      Inr (glob(path_Clean (''/'' @ pfx) := None), drop i search, True)"
proof (induction fs arbitrary: i glob)
  case (Cons f fs)
  let ?p = "path_Clean (''/'' @ pfx)"
  have page: "lfs_KeysPrefix A f glob (search ! i) pfx delimiter cnt = Inr
      (if i + cnt < length search then (glob(?p \<mapsto> search), take cnt (drop i search), search ! (i + cnt))
       else (glob(?p := None), drop i search, ''''))"
    using lfs_page_from [OF assms(1,2), of i glob ?p cnt] Cons.prems by (simp add: lfs_KeysPrefix_def Let_def)
  show ?case
  proof (cases "i + cnt < length search")
    case True
    then have "search ! (i + cnt) \<noteq> ''''" using assms(2) nth_mem by force
    moreover have "take cnt (drop i search) @ drop (i + cnt) search = drop i search"
      by (metis append_take_drop_id drop_drop add.commute)
    moreover have "glob(?p \<mapsto> search) = glob" using Cons.prems(1) by (simp add: fun_upd_idem)
    ultimately show ?thesis using page True Cons.IH [of glob "i + cnt"] Cons.prems assms(3) by simp
  qed (use page in \<open>simp add: fun_upd_def\<close>)
qed simp

text \<open>
  A client that pages through a prefix of the local file system, whatever the page size, gets each
  match of the first call exactly once and in the order of the walk, even when files come and go
  between the pages, and the cached listing is forgotten with the last page. The listing is that of
  the prefix without its final slash, so that the keys of another directory whose name starts the
  same way are among the matches.
\<close>

theorem KeysPrefix_pages:
  assumes "0 < cnt" and "glob (path_Clean (''/'' @ pfx)) = None"
    and "glob_matches (path_Clean (''/'' @ pfx)) delimiter (\<not> prefix ''/'' pfx) (af_Walk A f (path_Dir (path_Clean (''/'' @ pfx)))) = Inr ms"
    and "search = (if delimiter \<noteq> '''' then dedupe [] ms else ms)"
    and "distinct search" and "'''' \<notin> set search" and "length search \<le> length fs"
  shows "lfs_list A glob '''' pfx delimiter cnt (f # fs) = Inr (glob(path_Clean (''/'' @ pfx) := None), search, True)"
proof -
  let ?p = "path_Clean (''/'' @ pfx)"
  have page: "lfs_KeysPrefix A f glob '''' pfx delimiter cnt = Inr
      (if cnt < length search then (glob(?p \<mapsto> search), take cnt search, search ! cnt)
       else (glob(?p := None), search, ''''))"
    using lfs_page_from [OF assms(5,6), of 0 glob ?p cnt] assms(2-4) by (simp add: lfs_KeysPrefix_def Let_def)
  show ?thesis
  proof (cases "cnt < length search")
    case True
    then have "search ! cnt \<noteq> ''''" using assms(6) nth_mem by force
    then show ?thesis
      using page True lfs_list_from [OF assms(5,6,1), of "glob(?p \<mapsto> search)" pfx cnt fs A delimiter] assms(1,7) by simp
  qed (use page in simp)
qed

lemma dir_of: "path_Dir ''/bundles/r'' = ''/bundles''" "path_Clean ''/bundles/r/'' = ''/bundles/r''"
  by (simp_all add: path_Dir_def path_Clean_def comps.simps)

theorem KeysPrefix_pages_witness:
  "lfs_list mem_fs Map.empty '''' ''bundles/r/'' '''' 1
     [[(''/bundles/r/a'', []), (''/bundles/r2/b'', [])], [], [], []] =
   Inr (Map.empty, [''bundles/r/a'', ''bundles/r2/b''], True)"
  using KeysPrefix_pages [of 1 Map.empty "''bundles/r/''" "''''" mem_fs "[(''/bundles/r/a'', []), (''/bundles/r2/b'', [])]"
      "[''bundles/r/a'', ''bundles/r2/b'']" _ "[[], [], []]"]
  by (simp add: dir_of mem_fs_def Let_def)

end
