(* ===== verification/BundlePublish.thy ===== *)
theory BundlePublish
  imports BundleUpload LocalFs
begin

text \<open>
  Downloading bundles to the local file system: \<open>Publish\<close>, \<open>PublishFile\<close>, \<open>PopulateFiles\<close>, \<open>Diff\<close> and
  \<open>Update\<close> of \<open>pkg/core/bundle.go\<close>, over \<open>unpackDataFiles\<close> of \<open>pkg/core/bundle_unpack.go\<close>.
\<close>

section \<open>One file\<close>

text \<open>
  What is not the bundle's own: the hash, the key cache and its empty state, the other options of the
  file system, the retries of a write, and the orders in which leaves, index files, files and map
  entries are taken, and how many downloads complete before an error of the selection is seen.
\<close>

record 'k publish_env =
  pe_H :: hasher
  pe_LK :: "('k, Key, Key list) lru"
  pe_noKeys :: 'k
  pe_lruNew :: "int \<Rightarrow> string option"
  pe_opts :: defaultFs
  pe_tries :: nat
  pe_leaves :: "nat \<Rightarrow> nat list"
  pe_lists :: "nat list \<Rightarrow> nat list"
  pe_range :: "string list \<Rightarrow> string list"
  pe_early :: nat

text \<open>The reader of a file starts again when the write is retried: each copy is that of \<open>WriteTo\<close>.\<close>

definition downloadBundleEntrySyncMaybeOverwrite ::
  "'k publish_env \<Rightarrow> 'f afero \<Rightarrow> 'b Store \<Rightarrow> 'b \<Rightarrow> defaultFs \<Rightarrow> BundleEntry \<Rightarrow> bool \<Rightarrow> 'k \<times> 'f \<Rightarrow>
   ('k \<times> 'f) \<times> bundle_err option" where
  "downloadBundleEntrySyncMaybeOverwrite P A st s f e overwrite kcc =
     (case kcc of (kc, c) \<Rightarrow>
        (case KeyFromString (be_Hash e) of
           Inl er \<Rightarrow> ((kc, c), Some (BCafs er))
         | Inr key \<Rightarrow>
             (case fs_reader (pe_H P) st (pe_LK P) f s kc key of
                (kc1, Inl er) \<Rightarrow> ((kc1, c), Some (BCafs er))
              | (kc1, Inr (cfg, rdr)) \<Rightarrow>
                  (case (if overwrite then lfs_Delete A c (be_NameWithPath e) else (c, None)) of
                     (c1, Some er) \<Rightarrow> ((kc1, c1), Some (BStore er))
                   | (c1, None) \<Rightarrow>
                       (case lfs_Put A (pe_tries P) c1 (be_NameWithPath e)
                            (\<lambda>_. fst (WriteTo_file st cfg s (pe_leaves P (length (rc_keys cfg))) [])) NoOverWrite of
                          (c2, er) \<Rightarrow> ((kc1, c2), map_option BStore er))))))"

definition downloadBundleEntrySync ::
  "'k publish_env \<Rightarrow> 'f afero \<Rightarrow> 'b Store \<Rightarrow> 'b \<Rightarrow> defaultFs \<Rightarrow> BundleEntry \<Rightarrow> 'k \<times> 'f \<Rightarrow> ('k \<times> 'f) \<times> bundle_err option" where
  "downloadBundleEntrySync P A st s f e kcc = downloadBundleEntrySyncMaybeOverwrite P A st s f e False kcc"

definition deleteBundleEntrySync :: "'f afero \<Rightarrow> BundleEntry \<Rightarrow> 'k \<times> 'f \<Rightarrow> ('k \<times> 'f) \<times> bundle_err option" where
  "deleteBundleEntrySync A e kcc =
     (case kcc of (kc, c) \<Rightarrow>
        (case lfs_Delete A c (be_NameWithPath e) of (c1, er) \<Rightarrow> ((kc, c1), map_option BStore er)))"

section \<open>All files\<close>

text \<open>
  \<open>downloadBundleEntry\<close>, \<open>downloadBundleEntryOverwrite\<close> and \<open>deleteBundleEntry\<close> are the goroutines; the
  list is the order in which they complete. The first error is what \<open>unpackDataFiles\<close> returns, with the
  goroutines after it not done.
\<close>

datatype unpack_job = DownloadJob BundleEntry | OverwriteJob BundleEntry | DeleteJob BundleEntry

fun run_job ::
  "'k publish_env \<Rightarrow> 'f afero \<Rightarrow> 'b Store \<Rightarrow> 'b \<Rightarrow> defaultFs \<Rightarrow> unpack_job \<Rightarrow> 'k \<times> 'f \<Rightarrow> ('k \<times> 'f) \<times> bundle_err option" where
  "run_job P A st s f (DownloadJob e) kcc = downloadBundleEntrySync P A st s f e kcc"
| "run_job P A st s f (OverwriteJob e) kcc = downloadBundleEntrySyncMaybeOverwrite P A st s f e True kcc"
| "run_job P A st s f (DeleteJob e) kcc = deleteBundleEntrySync A e kcc"

fun run_jobs ::
  "'k publish_env \<Rightarrow> 'f afero \<Rightarrow> 'b Store \<Rightarrow> 'b \<Rightarrow> defaultFs \<Rightarrow> unpack_job list \<Rightarrow> 'k \<times> 'f \<Rightarrow> ('k \<times> 'f) \<times> bundle_err option" where
  "run_jobs P A st s f [] kcc = (kcc, None)"
| "run_jobs P A st s f (j # js) kcc =
     (case run_job P A st s f j kcc of (kcc1, Some e) \<Rightarrow> (kcc1, Some e) | (kcc1, None) \<Rightarrow> run_jobs P A st s f js kcc1)"

text \<open>The downloads that are started, and the error of the selection that ends the loop.\<close>

type_synonym selection = "(string \<Rightarrow> (string, bool) res) option"

fun download_plan :: "selection \<Rightarrow> BundleEntry list \<Rightarrow> unpack_job list \<times> bundle_err option" where
  "download_plan sel [] = ([], None)"
| "download_plan sel (b # bs) =
     (case (case sel of None \<Rightarrow> Inr True | Some p \<Rightarrow> p (be_NameWithPath b)) of
        Inl e \<Rightarrow> ([], Some (BundleText e))
      | Inr ok \<Rightarrow>
          (case download_plan sel bs of (js, e) \<Rightarrow> (if ok then (DownloadJob b # js, e) else (js, e))))"

definition diff_job :: "DiffEntry \<Rightarrow> unpack_job" where
  "diff_job de = (case de_Type de of
      DiffEntryTypeAdd \<Rightarrow> DownloadJob (de_Additional de)
    | DiffEntryTypeDel \<Rightarrow> DeleteJob (de_Existing de)
    | DiffEntryTypeDif \<Rightarrow> OverwriteJob (de_Additional de))"

definition downloadBundleEntries ::
  "'k publish_env \<Rightarrow> selection \<Rightarrow> BundleEntry list \<Rightarrow> BundleEntry list option \<Rightarrow> unpack_job list \<times> bundle_err option" where
  "downloadBundleEntries P sel entries dest =
     (case dest of
        None \<Rightarrow> download_plan sel entries
      | Some existing \<Rightarrow>
          (map diff_job (diffBundles existing entries (pe_range P (remdups (map be_NameWithPath existing)))
             (pe_range P (remdups (map be_NameWithPath entries)))), None))"

section \<open>Metadata of the destination\<close>

record consumableStoreMetadataKeysInfo =
  ki_bundleID :: string
  ki_descriptor :: string
  ki_filelists :: "string list"

fun keys_info_loop ::
  "consumableStoreMetadataKeysInfo \<Rightarrow> string list \<Rightarrow> (bundle_err, consumableStoreMetadataKeysInfo) res" where
  "keys_info_loop i [] = (if ki_bundleID i = '''' then Inl (BundleText ''bundle id not found'') else Inr i)"
| "keys_info_loop i (key # keys) =
     (case GetConsumableStorePathMetadata key of
        Inl NotAMetadataPath \<Rightarrow> keys_info_loop i keys
      | Inl e \<Rightarrow> Inl (BadConsumablePath e)
      | Inr info \<Rightarrow>
          if meta_Type info = ConsumableStorePathTypeDescriptor then
            if ki_bundleID i \<noteq> '''' then Inl (BundleText ''expected at most one descriptor'')
            else keys_info_loop (i\<lparr>ki_bundleID := meta_BundleID info, ki_descriptor := key\<rparr>) keys
          else keys_info_loop (i\<lparr>ki_filelists := ki_filelists i @ [key]\<rparr>) keys)"

definition getConsumableStoreMetadataKeysInfo ::
  "(store_err, string list) res \<Rightarrow> (bundle_err, consumableStoreMetadataKeysInfo) res" where
  "getConsumableStoreMetadataKeysInfo keys =
     (case keys of
        Inl e \<Rightarrow> Inl (BStore e)
      | Inr ks \<Rightarrow> keys_info_loop \<lparr>ki_bundleID = '''', ki_descriptor = '''', ki_filelists = []\<rparr> ks)"

fun delete_all :: "'f afero \<Rightarrow> 'f \<Rightarrow> string list \<Rightarrow> 'f \<times> store_err option" where
  "delete_all A c [] = (c, None)"
| "delete_all A c (k # ks) =
     (case lfs_Delete A c k of (c1, Some e) \<Rightarrow> (c1, Some e) | (c1, None) \<Rightarrow> delete_all A c1 ks)"

text \<open>
  \<open>NewBundle\<close> with the identifier of the source, and its \<open>PublishMetadata\<close>; the default descriptor, over
  which the one that is read is decoded, is an argument.
\<close>

definition publish_again ::
  "'v env \<Rightarrow> BundleEntry list codec \<Rightarrow> 'k publish_env \<Rightarrow> 'f afero \<Rightarrow> 'm opened \<Rightarrow> BundleDescriptor \<Rightarrow> 'f \<Rightarrow> Bundle \<Rightarrow>
   (panic, 'f \<times> bundle_err option) res option" where
  "publish_again E cd P A mo base c b =
     (case implPublishMetadata E cd (pe_lists P) True defaultBundleEntriesPerFile mo (Some (lfs_store A (pe_tries P), c))
          \<lparr>bn_RepoID = bn_RepoID b, bn_BundleID = bn_BundleID b, bn_Descriptor = base, bn_Entries = [], bn_SkipOnError = False\<rparr> of
        None \<Rightarrow> None
      | Some (Inl p) \<Rightarrow> Some (Inl p)
      | Some (Inr (co, b', e)) \<Rightarrow> Some (Inr (case co of None \<Rightarrow> c | Some (_, c') \<Rightarrow> c', e)))"

definition unpackDataFiles ::
  "'v env \<Rightarrow> BundleEntry list codec \<Rightarrow> 'k publish_env \<Rightarrow> (unpack_job list \<Rightarrow> unpack_job list) \<Rightarrow> 'f afero \<Rightarrow> 'b Store \<Rightarrow> 'b \<Rightarrow>
   'm opened \<Rightarrow> BundleDescriptor \<Rightarrow> 'f \<Rightarrow> Bundle \<Rightarrow> Bundle option \<Rightarrow> selection \<Rightarrow> (panic, 'f \<times> bundle_err option) res option" where
  "unpackDataFiles E cd P order A st s mo base c b dest sel =
     (case fs_New (pe_lruNew P) (bundle_fs (pe_opts P) b) of
        Inl e \<Rightarrow> Some (Inr (c, Some (BCafs e)))
      | Inr (f, leafPool) \<Rightarrow>
          (case downloadBundleEntries P sel (bn_Entries b) (map_option bn_Entries dest) of
             (js, selErr) \<Rightarrow>
               (case run_jobs P A st s f (if selErr = None then order js else take (pe_early P) (order js)) (pe_noKeys P, c) of
                  ((kc, c1), Some e) \<Rightarrow> Some (Inr (c1, Some e))
                | ((kc, c1), None) \<Rightarrow>
                    if selErr \<noteq> None \<or> dest = None then Some (Inr (c1, selErr))
                    else
                      (case getConsumableStoreMetadataKeysInfo (lfs_Keys A c1) of
                         Inl e \<Rightarrow> Some (Inr (c1, Some e))
                       | Inr info \<Rightarrow>
                           (case delete_all A c1 (ki_descriptor info # ki_filelists info) of
                              (c2, Some e) \<Rightarrow> Some (Inr (c2, Some (BStore e)))
                            | (c2, None) \<Rightarrow> publish_again E cd P A mo base c2 b)))))"

text \<open>\<open>unpackDataFile\<close>: every entry with the given name, in order.\<close>

fun unpack_named ::
  "'k publish_env \<Rightarrow> 'f afero \<Rightarrow> 'b Store \<Rightarrow> 'b \<Rightarrow> defaultFs \<Rightarrow> string \<Rightarrow> BundleEntry list \<Rightarrow> bool \<Rightarrow> 'k \<times> 'f \<Rightarrow>
   ('k \<times> 'f) \<times> bundle_err option" where
  "unpack_named P A st s f fileName [] foundFile kcc =
     (kcc, if foundFile then None else Some (BundleText ''didn't find file in bundle''))"
| "unpack_named P A st s f fileName (b # bs) foundFile kcc =
     (if fileName \<noteq> be_NameWithPath b then unpack_named P A st s f fileName bs foundFile kcc
      else case downloadBundleEntrySync P A st s f b kcc of
          (kcc1, Some e) \<Rightarrow> (kcc1, Some e)
        | (kcc1, None) \<Rightarrow> unpack_named P A st s f fileName bs True kcc1)"

definition unpackDataFile ::
  "'k publish_env \<Rightarrow> 'f afero \<Rightarrow> 'b Store \<Rightarrow> 'b \<Rightarrow> 'f \<Rightarrow> Bundle \<Rightarrow> string \<Rightarrow> 'f \<times> bundle_err option" where
  "unpackDataFile P A st s c b fileName =
     (case fs_New (pe_lruNew P) (bundle_fs (pe_opts P) b) of
        Inl e \<Rightarrow> (c, Some (BCafs e))
      | Inr (f, leafPool) \<Rightarrow>
          (case unpack_named P A st s f fileName (bn_Entries b) False (pe_noKeys P, c) of ((kc, c1), e) \<Rightarrow> (c1, e)))"

section \<open>Entry points\<close>

text \<open>
  The bundle that is read has the metadata store \<open>mo\<close> and the local file system \<open>c\<close>. The operations return
  the new local file system, the bundle as read, and the error.
\<close>

abbreviation local_store :: "'k publish_env \<Rightarrow> 'f afero \<Rightarrow> 'f \<Rightarrow> 'f opened" where
  "local_store P A c \<equiv> Some (lfs_store A (pe_tries P), c)"

definition opened_fs :: "'f opened \<Rightarrow> 'f \<Rightarrow> 'f" where
  "opened_fs co c = (case co of None \<Rightarrow> c | Some (_, c') \<Rightarrow> c')"

definition PublishMetadata ::
  "'v env \<Rightarrow> BundleEntry list codec \<Rightarrow> 'k publish_env \<Rightarrow> 'm opened \<Rightarrow> 'c opened \<Rightarrow> Bundle \<Rightarrow>
   (panic, 'c opened \<times> Bundle \<times> bundle_err option) res option" where
  "PublishMetadata E cd P mo co b = implPublishMetadata E cd (pe_lists P) True defaultBundleEntriesPerFile mo co b"

definition DownloadMetadata ::
  "'v env \<Rightarrow> BundleEntry list codec \<Rightarrow> 'k publish_env \<Rightarrow> 'm opened \<Rightarrow> 'c opened \<Rightarrow> Bundle \<Rightarrow>
   (panic, 'c opened \<times> Bundle \<times> bundle_err option) res option" where
  "DownloadMetadata E cd P mo co b = implPublishMetadata E cd (pe_lists P) False defaultBundleEntriesPerFile mo co b"

definition implPublish ::
  "'v env \<Rightarrow> BundleEntry list codec \<Rightarrow> 'k publish_env \<Rightarrow> (unpack_job list \<Rightarrow> unpack_job list) \<Rightarrow> 'f afero \<Rightarrow> 'b Store \<Rightarrow> 'b \<Rightarrow>
   nat \<Rightarrow> 'm opened \<Rightarrow> 'f \<Rightarrow> Bundle \<Rightarrow> selection \<Rightarrow> (panic, 'f \<times> Bundle \<times> bundle_err option) res option" where
  "implPublish E cd P order A st s epf mo c b sel =
     (case implPublishMetadata E cd (pe_lists P) True epf mo (local_store P A c) b of
        None \<Rightarrow> None
      | Some (Inl p) \<Rightarrow> Some (Inl p)
      | Some (Inr (co, b1, Some e)) \<Rightarrow> Some (Inr (opened_fs co c, b1, Some (PublishMetadataErr e)))
      | Some (Inr (co, b1, None)) \<Rightarrow>
          (case unpackDataFiles E cd P order A st s mo (bn_Descriptor b) (opened_fs co c) b1 None sel of
             None \<Rightarrow> None
           | Some (Inl p) \<Rightarrow> Some (Inl p)
           | Some (Inr (c2, e)) \<Rightarrow> Some (Inr (c2, b1, map_option PublishMetadataErr e))))"

definition PublishSelectBundleEntries ::
  "'v env \<Rightarrow> BundleEntry list codec \<Rightarrow> 'k publish_env \<Rightarrow> (unpack_job list \<Rightarrow> unpack_job list) \<Rightarrow> 'f afero \<Rightarrow> 'b Store \<Rightarrow> 'b \<Rightarrow>
   'm opened \<Rightarrow> 'f \<Rightarrow> Bundle \<Rightarrow> (string \<Rightarrow> (string, bool) res) \<Rightarrow> (panic, 'f \<times> Bundle \<times> bundle_err option) res option" where
  "PublishSelectBundleEntries E cd P order A st s mo c b p =
     implPublish E cd P order A st s defaultBundleEntriesPerFile mo c b (Some p)"

definition Publish ::
  "'v env \<Rightarrow> BundleEntry list codec \<Rightarrow> 'k publish_env \<Rightarrow> (unpack_job list \<Rightarrow> unpack_job list) \<Rightarrow> 'f afero \<Rightarrow> 'b Store \<Rightarrow> 'b \<Rightarrow>
   'm opened \<Rightarrow> 'f \<Rightarrow> Bundle \<Rightarrow> (panic, 'f \<times> Bundle \<times> bundle_err option) res option" where
  "Publish E cd P order A st s mo c b =
     implPublish E cd P order A st s defaultBundleEntriesPerFile mo c b (Some (\<lambda>_. Inr True))"

definition PublishFile ::
  "'v env \<Rightarrow> BundleEntry list codec \<Rightarrow> 'k publish_env \<Rightarrow> 'f afero \<Rightarrow> 'b Store \<Rightarrow> 'b \<Rightarrow> 'm opened \<Rightarrow> 'f \<Rightarrow> Bundle \<Rightarrow> string \<Rightarrow>
   (panic, 'f \<times> Bundle \<times> bundle_err option) res option" where
  "PublishFile E cd P A st s mo c b fileName =
     (case PublishMetadata E cd P mo (local_store P A c) b of
        None \<Rightarrow> None
      | Some (Inl p) \<Rightarrow> Some (Inl p)
      | Some (Inr (co, b1, Some e)) \<Rightarrow> Some (Inr (opened_fs co c, b1, Some e))
      | Some (Inr (co, b1, None)) \<Rightarrow>
          (case unpackDataFile P A st s (opened_fs co c) b1 fileName of (c2, e) \<Rightarrow> Some (Inr (c2, b1, e))))"

text \<open>\<open>PopulateFiles\<close> reads the metadata from the only store there is.\<close>

definition PopulateFiles ::
  "'v env \<Rightarrow> BundleEntry list codec \<Rightarrow> 'k publish_env \<Rightarrow> 'm opened \<Rightarrow> 'c opened \<Rightarrow> Bundle \<Rightarrow>
   (panic, Bundle \<times> bundle_err option) res option" where
  "PopulateFiles E cd P mo co b =
     (let read = (\<lambda>b. map_option (map_sum id (\<lambda>(co, b', e). (b', e))) (DownloadMetadata E cd P mo co b)) in
      case (co, mo) of
        (Some _, Some _) \<Rightarrow> Some (Inr (b, Some AmbiguousBundle))
      | (Some (cst, c), None) \<Rightarrow>
          if bn_BundleID b \<noteq> '''' then read b
          else
            (case st_Keys cst c of
               None \<Rightarrow> None
             | Some ks \<Rightarrow>
                 (case setBundleIDFromConsumableStore ks b of Inl e \<Rightarrow> Some (Inr (b, Some e)) | Inr b1 \<Rightarrow> read b1))
      | (None, Some (mst, m)) \<Rightarrow>
          (case RepoExists mst m (bn_RepoID b) of Some e \<Rightarrow> Some (Inr (b, Some (BMeta e))) | None \<Rightarrow> read b)
      | (None, None) \<Rightarrow> Some (Inr (b, Some InvalidBundle)))"

definition Diff ::
  "'v env \<Rightarrow> BundleEntry list codec \<Rightarrow> 'k publish_env \<Rightarrow> 'm opened \<Rightarrow> 'c opened \<Rightarrow> Bundle \<Rightarrow> 'n opened \<Rightarrow> 'd opened \<Rightarrow> Bundle \<Rightarrow>
   (panic, (bundle_err, DiffEntry list) res) res option" where
  "Diff E cd P mo co existing mo' co' additional =
     (case PopulateFiles E cd P mo co existing of
        None \<Rightarrow> None
      | Some (Inl p) \<Rightarrow> Some (Inl p)
      | Some (Inr (b1, Some e)) \<Rightarrow> Some (Inr (Inl e))
      | Some (Inr (b1, None)) \<Rightarrow>
          (case PopulateFiles E cd P mo' co' additional of
             None \<Rightarrow> None
           | Some (Inl p) \<Rightarrow> Some (Inl p)
           | Some (Inr (b2, Some e)) \<Rightarrow> Some (Inr (Inl e))
           | Some (Inr (b2, None)) \<Rightarrow>
               Some (Inr (Inr (diffBundles (bn_Entries b1) (bn_Entries b2)
                 (pe_range P (remdups (map be_NameWithPath (bn_Entries b1))))
                 (pe_range P (remdups (map be_NameWithPath (bn_Entries b2)))))))))"

text \<open>\<open>Update\<close>: the source is read from the archive, the destination from its local file system.\<close>

definition Update ::
  "'v env \<Rightarrow> BundleEntry list codec \<Rightarrow> 'k publish_env \<Rightarrow> (unpack_job list \<Rightarrow> unpack_job list) \<Rightarrow> 'f afero \<Rightarrow> 'b Store \<Rightarrow> 'b \<Rightarrow>
   'm opened \<Rightarrow> BundleDescriptor \<Rightarrow> 'f \<Rightarrow> Bundle \<Rightarrow> Bundle \<Rightarrow> (panic, 'f \<times> bundle_err option) res option" where
  "Update E cd P order A st s mo base c bundleSrc bundleDest =
     (case DownloadMetadata E cd P mo (None :: 'f opened) bundleSrc of
        None \<Rightarrow> None
      | Some (Inl p) \<Rightarrow> Some (Inl p)
      | Some (Inr (_, b1, Some e)) \<Rightarrow> Some (Inr (c, Some e))
      | Some (Inr (_, b1, None)) \<Rightarrow>
          (case DownloadMetadata E cd P (None :: 'm opened) (local_store P A c) bundleDest of
             None \<Rightarrow> None
           | Some (Inl p) \<Rightarrow> Some (Inl p)
           | Some (Inr (_, b2, Some e)) \<Rightarrow> Some (Inr (c, Some e))
           | Some (Inr (_, b2, None)) \<Rightarrow> unpackDataFiles E cd P order A st s mo base c b1 (Some b2) None))"

section \<open>Downloads change the files they name\<close>

text \<open>What a file system holds after some names were set or removed.\<close>

definition after :: "(string \<Rightarrow> bytes option) \<Rightarrow> (string \<times> bytes option) list \<Rightarrow> string \<Rightarrow> bytes option" where
  "after m ch = (\<lambda>k. case map_of ch k of None \<Rightarrow> m k | Some v \<Rightarrow> v)"

lemma after_Nil [simp]: "after m [] = m"
  by (simp add: after_def)

lemma after_Cons: "n \<notin> fst ` set ch \<Longrightarrow> after m ((n, v) # ch) = after (m(n := v)) ch"
  by (rule ext) (auto simp: after_def dom_map_of_conv_image_fst [symmetric] split: option.split)

lemma after_other: "k \<notin> fst ` set ch \<Longrightarrow> after m ch k = m k"
  by (simp add: after_def dom_map_of_conv_image_fst [symmetric] domIff)

lemma after_in: "distinct (map fst ch) \<Longrightarrow> (k, v) \<in> set ch \<Longrightarrow> after m ch k = v"
  by (simp add: after_def)

definition entry_data :: "(Key \<Rightarrow> bytes) \<Rightarrow> BundleEntry \<Rightarrow> bytes" where
  "entry_data dat e = dat (projr (KeyFromString (be_Hash e)))"

fun effect :: "(Key \<Rightarrow> bytes) \<Rightarrow> unpack_job \<Rightarrow> string \<times> bytes option" where
  "effect dat (DownloadJob e) = (be_NameWithPath e, Some (entry_data dat e))"
| "effect dat (OverwriteJob e) = (be_NameWithPath e, Some (entry_data dat e))"
| "effect dat (DeleteJob e) = (be_NameWithPath e, None)"

text \<open>The content of an entry is in the blob store.\<close>

definition blob_stored :: "hasher \<Rightarrow> defaultFs \<Rightarrow> (string \<Rightarrow> bytes option) \<Rightarrow> (Key \<Rightarrow> bytes) \<Rightarrow> BundleEntry \<Rightarrow> bool" where
  "blob_stored H f m dat e \<longleftrightarrow> (\<exists>r. KeyFromString (be_Hash e) = Inr r \<and> stored H f m (dat r) r)"

fun job_ready :: "hasher \<Rightarrow> defaultFs \<Rightarrow> (string \<Rightarrow> bytes option) \<Rightarrow> (Key \<Rightarrow> bytes) \<Rightarrow> string set \<Rightarrow> (string \<Rightarrow> bytes option) \<Rightarrow> unpack_job \<Rightarrow> bool" where
  "job_ready H f m dat names c (DownloadJob e) \<longleftrightarrow> blob_stored H f m dat e \<and> be_NameWithPath e \<in> names \<and> c (be_NameWithPath e) = None"
| "job_ready H f m dat names c (OverwriteJob e) \<longleftrightarrow> blob_stored H f m dat e \<and> be_NameWithPath e \<in> names"
| "job_ready H f m dat names c (DeleteJob e) \<longleftrightarrow> be_NameWithPath e \<in> names"

lemma job_ready_cong: "c (fst (effect dat j)) = c' (fst (effect dat j)) \<Longrightarrow> job_ready H f m dat names c j = job_ready H f m dat names c' j"
  by (cases j) auto

locale publisher = mst: object_store mst mcontent + bst: keyed_store bst bcontent "pe_LK P" kview + loc: afero_api A files names
  for mst :: "'m Store" and mcontent and bst :: "'b Store" and bcontent and P :: "'k publish_env" and kview
    and A :: "'f afero" and files and names
begin

definition right_keys :: "defaultFs \<Rightarrow> (Key \<Rightarrow> bytes) \<Rightarrow> 'k \<Rightarrow> bool" where
  "right_keys f dat = bst.all_entries (\<lambda>r ks. ks = file_keys (pe_H P) (fs_leafSize f) (dat r))"

lemma reader_right:
  assumes "stored (pe_H P) f (bcontent s) (dat r) r" and "right_keys f dat kc"
  shows "\<exists>kc'. fs_reader (pe_H P) bst (pe_LK P) f s kc r =
      (kc', Inr (fs_reader_cfg f (file_keys (pe_H P) (fs_leafSize f) (dat r)), new_chunkReader)) \<and> right_keys f dat kc'"
proof -
  obtain hit kc1 where g: "lru_Get (pe_LK P) kc r = (hit, kc1)" by force
  with assms(2) have kc1: "right_keys f dat kc1"
    using bst.all_entries_get [of _ kc r] by (metis right_keys_def snd_conv)
  show ?thesis
  proof (cases hit)
    case None
    with g bst.leavesForHash_stored [OF assms(1)] kc1 show ?thesis
      by (auto simp: fs_reader_def right_keys_def intro: bst.all_entries_add)
  next
    case (Some ks)
    with g kc1 bst.all_entries_hit [of _ kc r ks kc1] assms(2) show ?thesis
      by (auto simp: fs_reader_def right_keys_def)
  qed
qed

end

context publisher
begin

lemma download_ok:
  assumes "blob_stored (pe_H P) f (bcontent s) dat e" and "right_keys f dat kc" and "\<not> fs_leafTruncation f"
    and "\<And>n. mset (pe_leaves P n) = mset [0..<n]" and "be_NameWithPath e \<in> names"
    and "overwrite \<or> files c (be_NameWithPath e) = None"
  shows "\<exists>kc' c'. downloadBundleEntrySyncMaybeOverwrite P A bst s f e overwrite (kc, c) = ((kc', c'), None)
    \<and> right_keys f dat kc' \<and> files c' = (files c)(be_NameWithPath e \<mapsto> entry_data dat e)"
proof -
  let ?n = "be_NameWithPath e"
  from assms(1) obtain r where r: "KeyFromString (be_Hash e) = Inr r" "stored (pe_H P) f (bcontent s) (dat r) r"
    by (auto simp: blob_stored_def)
  let ?cfg = "fs_reader_cfg f (file_keys (pe_H P) (fs_leafSize f) (dat r))"
  from reader_right [OF r(2) assms(2)] obtain kc' where
    rd: "fs_reader (pe_H P) bst (pe_LK P) f s kc r = (kc', Inr (?cfg, new_chunkReader))" "right_keys f dat kc'" by blast
  have wr: "fst (WriteTo_file bst ?cfg s (pe_leaves P (length (rc_keys ?cfg))) []) = dat r"
    using bst.WriteTo_file_ok [OF stored_serves [OF r(2)] _ assms(4)] assms(3) by simp
  obtain c1 where del: "(if overwrite then lfs_Delete A c ?n else (c, None)) = (c1, None)" "files c1 ?n = None"
      "(files c1)(?n \<mapsto> dat r) = (files c)(?n \<mapsto> dat r)"
    using loc.delete [OF assms(5), of c] assms(6) by (cases overwrite) auto
  with loc.put_new [OF assms(5), of NoOverWrite c1 "pe_tries P" "\<lambda>_. dat r"] obtain c2 where
    "lfs_Put A (pe_tries P) c1 ?n (\<lambda>_. dat r) NoOverWrite = (c2, None)" "files c2 = (files c)(?n \<mapsto> dat r)" by auto
  with r rd del(1) show ?thesis
    unfolding downloadBundleEntrySyncMaybeOverwrite_def by (simp only: prod.case sum.case wr) (simp add: entry_data_def)
qed

lemma run_job_ok:
  assumes "job_ready (pe_H P) f (bcontent s) dat names (files c) j" and "right_keys f dat kc" and "\<not> fs_leafTruncation f"
    and "\<And>n. mset (pe_leaves P n) = mset [0..<n]"
  shows "\<exists>kc' c'. run_job P A bst s f j (kc, c) = ((kc', c'), None) \<and> right_keys f dat kc'
    \<and> files c' = (files c)(fst (effect dat j) := snd (effect dat j))"
proof (cases j)
  case (DeleteJob e)
  with assms(1) have "be_NameWithPath e \<in> names" by simp
  from loc.delete [OF this, of c] assms(2) DeleteJob show ?thesis by (auto simp: deleteBundleEntrySync_def)
qed (use assms download_ok in \<open>simp_all add: downloadBundleEntrySync_def\<close>)

lemma run_jobs_ok:
  assumes "\<not> fs_leafTruncation f" and "\<And>n. mset (pe_leaves P n) = mset [0..<n]"
  shows "distinct (map (fst \<circ> effect dat) js) \<Longrightarrow> \<forall>j \<in> set js. job_ready (pe_H P) f (bcontent s) dat names (files c) j \<Longrightarrow>
    right_keys f dat kc \<Longrightarrow>
    \<exists>kc' c'. run_jobs P A bst s f js (kc, c) = ((kc', c'), None) \<and> files c' = after (files c) (map (effect dat) js)"
proof (induction js arbitrary: kc c)
  case (Cons j js)
  let ?n = "fst (effect dat j)" and ?v = "snd (effect dat j)"
  from run_job_ok [OF _ Cons.prems(3) assms] Cons.prems(2) obtain kc1 c1 where
    j: "run_job P A bst s f j (kc, c) = ((kc1, c1), None)" "right_keys f dat kc1" "files c1 = (files c)(?n := ?v)" by fastforce
  have n: "?n \<notin> fst ` set (map (effect dat) js)" using Cons.prems(1) by (auto simp: image_comp)
  then have "\<forall>j' \<in> set js. fst (effect dat j') \<noteq> ?n" by (metis image_eqI image_set)
  then have "\<forall>j' \<in> set js. job_ready (pe_H P) f (bcontent s) dat names (files c1) j'"
    using Cons.prems(2) j(3) job_ready_cong by (metis fun_upd_apply list.set_intros(2))
  with Cons.IH [OF _ this j(2)] Cons.prems(1) obtain kc' c' where
    "run_jobs P A bst s f js (kc1, c1) = ((kc', c'), None)" "files c' = after (files c1) (map (effect dat) js)" by auto
  with j(1,3) after_Cons [OF n, of "files c" ?v] show ?case by simp
qed simp

end

section \<open>Publishing the metadata\<close>

lemma after_append: "after m (xs @ ys) = after (after m ys) xs"
  by (rule ext) (simp add: after_def map_add_def split: option.split)

lemma after_perm:
  assumes "mset ch = mset ch'" and "distinct (map fst ch)"
  shows "after m ch = after m ch'"
proof -
  have "mset (map fst ch) = mset (map fst ch')" using assms(1) by (metis mset_map)
  then have "distinct (map fst ch')" using assms(2) mset_eq_imp_distinct_iff by blast
  then have "map_of ch = map_of ch'" using map_of_inject_set [OF assms(2)] mset_eq_setD [OF assms(1)] by simp
  then show ?thesis by (simp add: after_def)
qed

definition desc_path :: "string \<Rightarrow> string" where
  "desc_path i = ''.datamon/'' @ i @ ''.yaml''"

definition list_path :: "string \<Rightarrow> nat \<Rightarrow> string" where
  "list_path i n = ''.datamon/'' @ i @ ''-bundle-files-'' @ show_nat n @ ''.yaml''"

lemma list_path_inj: "list_path i n = list_path i n' \<longleftrightarrow> n = n'"
  by (auto simp: list_path_def show_nat_inj)

lemma desc_not_list: "desc_path i \<noteq> list_path i n" "list_path i n \<noteq> desc_path i"
  by (simp_all add: desc_path_def list_path_def)

text \<open>An identifier that the paths can be built for, as any KSUID is.\<close>

definition good_id :: "string \<Rightarrow> bool" where
  "good_id i \<longleftrightarrow> i \<noteq> '''' \<and> CHR 0x0A \<notin> set i \<and> \<not> sublist ''-bundle-files-'' i"

lemma consumable_paths:
  assumes "good_id i"
  shows "GetConsumablePathToBundle i = Inr (desc_path i)"
    and "n < 2 ^ 63 \<Longrightarrow> GetConsumablePathToBundleFileList i (of_nat n) = Inr (list_path i n)"
proof -
  show "GetConsumablePathToBundle i = Inr (desc_path i)"
    using assms by (subst consumable_bundle_cases) (simp add: good_id_def desc_path_def)
  show "GetConsumablePathToBundleFileList i (of_nat n) = Inr (list_path i n)" if "n < 2 ^ 63"
    using assms that by (subst consumable_file_list_cases) (simp add: good_id_def list_path_def unat_of_nat)
qed

text \<open>The metadata of a bundle in a consumable store.\<close>

definition list_files :: "BundleEntry list codec \<Rightarrow> string \<Rightarrow> BundleEntry list list \<Rightarrow> nat list \<Rightarrow> (string \<times> bytes option) list" where
  "list_files cd i bs ns = map (\<lambda>n. (list_path i n, Some (projr (cd_Marshal cd (bs ! n))))) ns"

definition meta_files :: "'v env \<Rightarrow> BundleEntry list codec \<Rightarrow> nat \<Rightarrow> Bundle \<Rightarrow> BundleEntry list \<Rightarrow> (string \<times> bytes option) list" where
  "meta_files E cd epf b es =
     (desc_path (bn_BundleID b), Some (projr (cd_Marshal (en_bundle E) (bn_Descriptor b)))) #
     list_files cd (bn_BundleID b) (blocks epf es) [0..<length (blocks epf es)]"

lemma list_files_names: "fst ` set (list_files cd i bs ns) = list_path i ` set ns"
  by (auto simp: list_files_def image_comp)

lemma list_files_distinct: "distinct (map fst (list_files cd i bs ns)) = distinct ns"
proof -
  have "inj_on (list_path i) (set ns)" by (simp add: inj_on_def list_path_inj)
  then show ?thesis by (simp add: list_files_def comp_def distinct_map)
qed

lemma meta_files_names: "fst ` set (meta_files E cd epf b es) =
    insert (desc_path (bn_BundleID b)) (list_path (bn_BundleID b) ` {..<length (blocks epf es)})"
  by (auto simp: meta_files_def list_files_names)

lemma meta_files_distinct: "distinct (map fst (meta_files E cd epf b es))"
proof -
  have "desc_path (bn_BundleID b) \<notin> fst ` set (list_files cd (bn_BundleID b) bs ns)" for bs ns
    by (auto simp: list_files_names desc_not_list)
  then show ?thesis by (simp add: meta_files_def list_files_distinct)
qed

context publisher
begin

lemma ReadTee_new:
  assumes "mcontent m src = Some d" and "dst \<in> names" and "files c dst = None"
  shows "\<exists>c'. ReadTee mst m src (lfs_store A t) c dst = (c', Inr d) \<and> files c' = (files c)(dst \<mapsto> d)"
  using loc.put_new [OF assms(2), of NoOverWrite c t "drained d"] assms mst.get [of m src]
  by (auto simp: ReadTee_def drained_def)

lemma download_lists_publish:
  assumes "codec_ok cd" and "index_stored cd (bundle_pather b) (mcontent m) 0 bs" and "length bs < 2 ^ 63" and "good_id (bn_BundleID b)"
  shows "distinct order \<Longrightarrow> set order \<subseteq> {..<length bs} \<Longrightarrow>
    \<forall>n \<in> set order. list_path (bn_BundleID b) n \<in> names \<and> files c (list_path (bn_BundleID b) n) = None \<Longrightarrow>
    \<exists>c'. downloadBundleFileList cd True (Some (mst, m)) (Some (lfs_store A t, c)) b order =
        Inr (Some (lfs_store A t, c'), map (\<lambda>i. (i, Inr (bs ! i))) order)
      \<and> files c' = after (files c) (list_files cd (bn_BundleID b) bs order)"
proof (induction order arbitrary: c)
  case (Cons i order)
  let ?id = "bn_BundleID b"
  from Cons.prems(2) have i: "i < length bs" by simp
  from assms(2) i obtain buf where
    buf: "cd_Marshal cd (bs ! i) = Inr buf" "mcontent m (bundle_pather b (of_nat i)) = Some buf"
    by (auto simp: index_stored_def nth_path_def)
  from ReadTee_new [OF buf(2), of "list_path ?id i" c t] Cons.prems(3) obtain c1 where
    rt: "ReadTee mst m (bundle_pather b (of_nat i)) (lfs_store A t) c (list_path ?id i) = (c1, Inr buf)"
      "files c1 = (files c)(list_path ?id i \<mapsto> buf)" by auto
  have path: "GetConsumablePathToBundleFileList ?id (of_nat i) = Inr (list_path ?id i)"
    using consumable_paths(2) [OF assms(4)] i assms(3) by simp
  have "\<forall>n \<in> set order. list_path ?id n \<in> names \<and> files c1 (list_path ?id n) = None"
    using Cons.prems(1,3) rt(2) by (auto simp: list_path_inj)
  from Cons.IH [OF _ _ this] Cons.prems(1,2) obtain c2 where
    rest: "downloadBundleFileList cd True (Some (mst, m)) (Some (lfs_store A t, c1)) b order =
        Inr (Some (lfs_store A t, c2), map (\<lambda>i. (i, Inr (bs ! i))) order)"
      "files c2 = after (files c1) (list_files cd ?id bs order)" by auto
  have "list_path ?id i \<notin> fst ` set (list_files cd ?id bs order)"
    using Cons.prems(1) by (auto simp: list_files_names list_path_inj)
  from after_Cons [OF this, of "files c" "Some buf"] buf(1) rest(2) rt(2)
  have "files c2 = after (files c) (list_files cd ?id bs (i # order))" by (simp add: list_files_def)
  with rest(1) rt(1) path codec_okD [OF assms(1), of "bs ! i"] buf(1) show ?case
    by (auto simp: downloadBundleFileListFile_def Let_def)
qed (simp add: list_files_def)

lemma publish_metadata_ok:
  assumes "codec_ok cd" and "bundle_stored E cd epf (mcontent m) b es" and "0 < epf" and "yaml_bundles E"
    and "length (blocks epf es) < 2 ^ 63" and id: "good_id (bn_BundleID b)"
    and "bn_RepoID br = bn_RepoID b" and "bn_BundleID br = bn_BundleID b" and "\<And>js. mset (order js) = mset js"
    and free: "\<forall>k \<in> fst ` set (meta_files E cd epf b es). k \<in> names \<and> files c k = None"
  shows "\<exists>c'. implPublishMetadata E cd order True epf (Some (mst, m)) (Some (lfs_store A t, c)) br =
      Some (Inr (Some (lfs_store A t, c'), br\<lparr>bn_Descriptor := decoded_over (bn_Descriptor br) (bn_Descriptor b), bn_Entries := es\<rparr>, None))
    \<and> files c' = after (files c) (meta_files E cd epf b es)"
proof -
  let ?cnt = "length (blocks epf es)" and ?b = "br\<lparr>bn_Descriptor := decoded_over (bn_Descriptor br) (bn_Descriptor b)\<rparr>" and ?id = "bn_BundleID b"
  let ?o = "order [0..<?cnt]"
  from assms(2) obtain buf where
    buf: "cd_Marshal (en_bundle E) (bn_Descriptor b) = Inr buf"
      "mcontent m (GetArchivePathToBundle (bn_RepoID b) ?id) = Some buf"
    and cnt: "bd_BundleEntriesFileCount (bn_Descriptor b) = ?cnt"
    and idx: "index_stored cd (bundle_pather ?b) (mcontent m) 0 (blocks epf es)"
    by (auto simp: bundle_stored_def assms(7,8))
  from ReadTee_new [OF buf(2), of "desc_path ?id" c t] free obtain c1 where
    rt: "ReadTee mst m (GetArchivePathToBundle (bn_RepoID b) ?id) (lfs_store A t) c (desc_path ?id) = (c1, Inr buf)"
      "files c1 = (files c)(desc_path ?id \<mapsto> buf)" by (auto simp: meta_files_names)
  note over = yaml_bundles_over [OF assms(4) buf(1)]
  have desc: "unpackBundleDescriptor E True (Some (mst, m)) (Some (lfs_store A t, c)) br = Inr (Some (lfs_store A t, c1), Inr ?b)"
    using rt(1) over consumable_paths(1) [OF id] by (simp add: unpackBundleDescriptor_def Let_def assms(7,8))
  have ord: "set ?o = {..<?cnt}" "distinct ?o"
    using assms(9) [of "[0..<?cnt]"] by (metis atLeast_upt lessThan_atLeast0 mset_eq_setD, metis distinct_upt mset_eq_imp_distinct_iff)
  have "\<forall>n \<in> set ?o. list_path (bn_BundleID ?b) n \<in> names \<and> files c1 (list_path (bn_BundleID ?b) n) = None"
    using free rt(2) ord(1) desc_not_list by (auto simp: meta_files_names assms(8))
  from download_lists_publish [OF assms(1) idx assms(5) _ ord(2) _ this, of t] id ord(1) obtain c2 where
    lists: "downloadBundleFileList cd True (Some (mst, m)) (Some (lfs_store A t, c1)) ?b ?o =
        Inr (Some (lfs_store A t, c2), map (\<lambda>i. (i, Inr (blocks epf es ! i))) ?o)"
      "files c2 = after (files c1) (list_files cd ?id (blocks epf es) ?o)" by (auto simp: assms(8))
  have "unpack_lists epf ?cnt (replicate (?cnt * epf) empty_entry) (map (\<lambda>i. (i, Inr (blocks epf es ! i))) ?o) = Inr (es, None)"
    by (rule unpack_lists_blocks [OF assms(3,9)])
  with lists(1) have "unpackBundleFileList cd order True epf (Some (mst, m)) (Some (lfs_store A t, c1)) ?b =
      Inr (Some (lfs_store A t, c2), ?b\<lparr>bn_Entries := es\<rparr>, None)"
    by (simp add: unpackBundleFileList_def Let_def cnt)
  moreover have "mset (list_files cd ?id (blocks epf es) ?o) = mset (list_files cd ?id (blocks epf es) [0..<?cnt])"
    using assms(9) [of "[0..<?cnt]"] unfolding list_files_def by (simp only: mset_map)
  then have "files c2 = after (files c1) (list_files cd ?id (blocks epf es) [0..<?cnt])"
    using after_perm list_files_distinct ord(2) lists(2) by metis
  then have "files c2 = after (files c) (meta_files E cd epf b es)"
    using rt(2) buf(1) desc_not_list by (simp add: meta_files_def after_Cons list_files_names image_iff)
  ultimately show ?thesis using desc id assms(8) by (simp add: implPublishMetadata_def good_id_def)
qed

end

section \<open>Publishing a bundle\<close>

lemma download_plan_total: "download_plan (Some (\<lambda>n. Inr (sel n))) es = (map DownloadJob (filter (sel \<circ> be_NameWithPath) es), None)"
  by (induction es) auto

definition entry_files :: "(Key \<Rightarrow> bytes) \<Rightarrow> BundleEntry list \<Rightarrow> (string \<times> bytes option) list" where
  "entry_files dat es = map (\<lambda>e. (be_NameWithPath e, Some (entry_data dat e))) es"

lemma entry_files_effects: "map (effect dat) (map DownloadJob es) = entry_files dat es"
  by (simp add: entry_files_def)

context publisher
begin

lemma run_jobs_any_order:
  assumes "\<not> fs_leafTruncation f" and "\<And>n. mset (pe_leaves P n) = mset [0..<n]" and "mset (order js) = mset js"
    and "distinct (map (fst \<circ> effect dat) js)" and "\<forall>j \<in> set js. job_ready (pe_H P) f (bcontent s) dat names (files c) j"
    and "kview (pe_noKeys P) = Map.empty"
  shows "\<exists>kc' c'. run_jobs P A bst s f (order js) (pe_noKeys P, c) = ((kc', c'), None) \<and> files c' = after (files c) (map (effect dat) js)"
proof -
  have "right_keys f dat (pe_noKeys P)" using assms(6) by (simp add: right_keys_def bst.all_entries_def)
  moreover have d: "distinct (map (fst \<circ> effect dat) (order js))"
    using assms(3,4) by (metis mset_eq_imp_distinct_iff mset_map)
  moreover have "set (order js) = set js" using assms(3) by (rule mset_eq_setD)
  ultimately obtain kc' c' where
    "run_jobs P A bst s f (order js) (pe_noKeys P, c) = ((kc', c'), None)" "files c' = after (files c) (map (effect dat) (order js))"
    using run_jobs_ok [OF assms(1,2), of dat "order js" s c "pe_noKeys P"] assms(5) by auto
  moreover have "mset (map (effect dat) (order js)) = mset (map (effect dat) js)" using assms(3) by (metis mset_map)
  moreover have "distinct (map fst (map (effect dat) (order js)))" using d by simp
  ultimately show ?thesis using after_perm by metis
qed

lemma implPublish_ok:
  assumes "codec_ok cd" and "yaml_bundles E" and "0 < epf" and "bundle_stored E cd epf (mcontent m) b es"
    and "length (blocks epf es) < 2 ^ 63" and "good_id (bn_BundleID b)"
    and "bn_RepoID br = bn_RepoID b" and "bn_BundleID br = bn_BundleID b"
    and f: "fs_New (pe_lruNew P) (bundle_fs (pe_opts P) (br\<lparr>bn_Descriptor := decoded_over (bn_Descriptor br) (bn_Descriptor b)\<rparr>)) = Inr (f, leafPool)" and "\<not> fs_leafTruncation f"
    and "\<And>n. mset (pe_leaves P n) = mset [0..<n]" and "\<And>js. mset (pe_lists P js) = mset js" and "\<And>js. mset (order js) = mset js"
    and "kview (pe_noKeys P) = Map.empty"
    and "distinct (map be_NameWithPath es)" and "es' = filter (sel \<circ> be_NameWithPath) es"
    and blobs: "\<forall>e \<in> set es'. blob_stored (pe_H P) f (bcontent s) dat e"
    and free: "\<forall>k \<in> fst ` set (meta_files E cd epf b es) \<union> be_NameWithPath ` set es'. k \<in> names \<and> files c k = None"
    and apart: "fst ` set (meta_files E cd epf b es) \<inter> be_NameWithPath ` set es' = {}"
  shows "\<exists>c'. implPublish E cd P order A bst s epf (Some (mst, m)) c br (Some (\<lambda>n. Inr (sel n))) =
      Some (Inr (c', br\<lparr>bn_Descriptor := decoded_over (bn_Descriptor br) (bn_Descriptor b), bn_Entries := es\<rparr>, None))
    \<and> files c' = after (files c) (entry_files dat es' @ meta_files E cd epf b es)"
proof -
  let ?js = "map DownloadJob es'" and ?meta = "meta_files E cd epf b es" and ?b = "br\<lparr>bn_Descriptor := decoded_over (bn_Descriptor br) (bn_Descriptor b), bn_Entries := es\<rparr>"
  from publish_metadata_ok [OF assms(1,4,3,2,5,6,7,8,12), of c "pe_tries P"] free obtain c1 where
    md: "implPublishMetadata E cd (pe_lists P) True epf (Some (mst, m)) (local_store P A c) br = Some (Inr (local_store P A c1, ?b, None))"
      "files c1 = after (files c) ?meta" by auto
  have fs: "fs_New (pe_lruNew P) (bundle_fs (pe_opts P) ?b) = Inr (f, leafPool)" using f by (simp add: bundle_fs_def)
  have names: "fst \<circ> effect dat \<circ> DownloadJob = be_NameWithPath" by (simp add: fun_eq_iff)
  have "files c1 n = None" if "n \<in> be_NameWithPath ` set es'" for n
    using after_other [of n ?meta "files c"] md(2) that free apart by (metis disjoint_iff UnCI)
  then have "\<forall>j \<in> set ?js. job_ready (pe_H P) f (bcontent s) dat names (files c1) j" using blobs free by auto
  moreover have "distinct (map (fst \<circ> effect dat) ?js)" using assms(15,16) by (simp add: names distinct_map_filter)
  ultimately obtain kc' c2 where
    "run_jobs P A bst s f (order ?js) (pe_noKeys P, c1) = ((kc', c2), None)" "files c2 = after (files c1) (map (effect dat) ?js)"
    using run_jobs_any_order [of f order ?js dat s c1] assms(10,11,13,14) by blast
  then have "unpackDataFiles E cd P order A bst s (Some (mst, m)) (bn_Descriptor br) c1 ?b None (Some (\<lambda>n. Inr (sel n))) =
        Some (Inr (c2, None))" "files c2 = after (files c) (entry_files dat es' @ ?meta)"
    using md(2) assms(16) unfolding unpackDataFiles_def fs entry_files_effects after_append
    by (simp_all add: downloadBundleEntries_def download_plan_total)
  with md(1) show ?thesis by (auto simp: implPublish_def opened_fs_def)
qed

end

text \<open>
  C3: publishing puts exactly the bundle on the local file system. For a bundle whose metadata and
  blobs are in the buckets, and names that are not in use yet, the call succeeds whatever the orders of
  the concurrent downloads: afterwards each selected file has its content, the metadata files are
  copies of those of the archive, and every other file is as it was. The bundle in memory gets the
  entries and the descriptor of the archive, a field that the YAML omits keeping the value that the
  bundle in memory had for it (\<open>decoded_over\<close>). The blobs are read without the legacy truncation of
  leaves (metadata version 1 or later).
\<close>

theorem Publish_complete:
  assumes "bucket_api clm om" and "bucket_api clb ob" and "lru_cache (pe_LK P) kview" and "afero_api A files names"
    and "codec_ok cd" and "yaml_bundles E" and "0 < epf" and "bundle_stored E cd epf (gcs_content om gm m) b es"
    and "length (blocks epf es) < 2 ^ 63" and "good_id (bn_BundleID b)"
    and "bn_RepoID br = bn_RepoID b" and "bn_BundleID br = bn_BundleID b"
    and "fs_New (pe_lruNew P) (bundle_fs (pe_opts P) (br\<lparr>bn_Descriptor := decoded_over (bn_Descriptor br) (bn_Descriptor b)\<rparr>)) = Inr (f, leafPool)" and "\<not> fs_leafTruncation f"
    and "\<And>n. mset (pe_leaves P n) = mset [0..<n]" and "\<And>js. mset (pe_lists P js) = mset js" and "\<And>js. mset (order js) = mset js"
    and "kview (pe_noKeys P) = Map.empty"
    and "distinct (map be_NameWithPath es)" and "es' = filter (sel \<circ> be_NameWithPath) es"
    and "\<forall>e \<in> set es'. blob_stored (pe_H P) f (gcs_content ob gb s) dat e"
    and "\<forall>k \<in> fst ` set (meta_files E cd epf b es) \<union> be_NameWithPath ` set es'. k \<in> names \<and> files c k = None"
    and "fst ` set (meta_files E cd epf b es) \<inter> be_NameWithPath ` set es' = {}"
  shows "\<exists>c'. implPublish E cd P order A (gcs_store clb gb) s epf (Some (gcs_store clm gm, m)) c br (Some (\<lambda>n. Inr (sel n))) =
      Some (Inr (c', br\<lparr>bn_Descriptor := decoded_over (bn_Descriptor br) (bn_Descriptor b), bn_Entries := es\<rparr>, None))
    \<and> files c' = after (files c) (entry_files dat es' @ meta_files E cd epf b es)"
proof -
  have "publisher (gcs_store clm gm) (gcs_content om gm) (gcs_store clb gb) (gcs_content ob gb) P kview A files names"
    by (intro publisher.intro keyed_store.intro gcs_is_store assms(1-4))
  from publisher.implPublish_ok [OF this assms(5-23)] show ?thesis .
qed

text \<open>A bundle of one file in two buckets.\<close>

definition tag_entry :: BundleEntry where
  "tag_entry = \<lparr>be_Hash = Key_String tag_root, be_NameWithPath = ''f'', be_FileMode = 0, be_Size = 1, be_Timestamp = 0\<rparr>"

definition tag_meta :: "(string \<times> bytes) list" where
  "tag_meta = [(GetArchivePathToBundle ''r'' ''b'', projr (cd_Marshal (en_bundle ser_env) (bn_Descriptor (with_count 1 tag_bundle)))),
     (GetArchivePathToBundleFileList ''r'' ''b'' 0, projr (cd_Marshal entries_codec [tag_entry]))]"

lemma tag_meta_stored:
  "bundle_stored ser_env entries_codec 1000 (gcs_content map_of plain_gcs tag_meta) (with_count 1 tag_bundle) [tag_entry]"
proof -
  have "gcs_content map_of plain_gcs tag_meta (GetArchivePathToBundle ''r'' ''b'') =
      Some (projr (cd_Marshal (en_bundle ser_env) (bn_Descriptor (with_count 1 tag_bundle))))"
    "gcs_content map_of plain_gcs tag_meta (GetArchivePathToBundleFileList ''r'' ''b'' 0) = Some (projr (cd_Marshal entries_codec [tag_entry]))"
    using descriptor_not_index [of "''r''" "''b''" 0] by (simp_all add: tag_meta_def gcs_content_def getFullObjectName_def)
  moreover have "blocks 1000 [tag_entry] = [[tag_entry]]" by (simp add: blocks_step)
  ultimately show ?thesis
    by (simp add: bundle_stored_def index_stored_def nth_path_def tag_bundle_def ser_env_def entries_codec_def ser_codec_def)
qed

definition tag_publish :: "(Key \<times> Key list) list publish_env" where
  "tag_publish = \<lparr>pe_H = tag_hash, pe_LK = mru_lru 1, pe_noKeys = [], pe_lruNew = (\<lambda>_. None), pe_opts = tag_fs, pe_tries = 2,
     pe_leaves = (\<lambda>n. rev [0..<n]), pe_lists = rev, pe_range = rev, pe_early = 0\<rparr>"

text \<open>The laws hold of both backends of the repository: buckets on one side, a file system on the other.\<close>

lemma tag_caches: "lru_cache (pe_LK tag_publish) map_of"
  by (simp add: tag_publish_def mru.lru_cache_axioms)

interpretation gcs_publish: publisher "gcs_store steady_client gm" "gcs_content map_of gm" "gcs_store steady_client gb" "gcs_content map_of gb"
    tag_publish map_of mem_fs mem_files "{k. k \<noteq> ''.''}" for gm gb
  by (intro publisher.intro keyed_store.intro gcs_is_store steady.bucket_api_axioms tag_caches mem.afero_api_axioms)

lemma tag_blob: "blob_stored tag_hash tag_fs (gcs_content map_of plain_gcs tag_bucket) (\<lambda>_. [7]) tag_entry"
  using tag_bucket_stored rootHash_length [of tag_hash] tag_rootHash
  by (auto simp: blob_stored_def tag_entry_def KeyFromString_String NewKey_def KeySize_def)

text \<open>The bundle that the caller prepares has a run stage, which the descriptor of the archive leaves out.\<close>

definition tag_reader :: Bundle where
  "tag_reader = tag_bundle\<lparr>bn_Descriptor := (bn_Descriptor tag_bundle)\<lparr>bd_Message := '''', bd_RunStage := ''stage''\<rparr>\<rparr>"

abbreviation tag_read_back :: Bundle where
  "tag_read_back \<equiv> tag_reader\<lparr>bn_Descriptor := decoded_over (bn_Descriptor tag_reader) (bn_Descriptor (with_count 1 tag_bundle))\<rparr>"

lemma tag_new_fs: "\<exists>pool. fs_New (pe_lruNew tag_publish) (bundle_fs (pe_opts tag_publish) tag_read_back) = Inr (tag_fs, pool)"
proof -
  have "bundle_fs (pe_opts tag_publish) tag_read_back = tag_fs"
    by (simp add: bundle_fs_def tag_fs_def tag_bundle_def tag_reader_def tag_publish_def)
  then show ?thesis by (simp add: fs_New_def tag_fs_def tag_publish_def Let_def KeySize_def MaxLeafSize_def MiB_def)
qed

lemma tag_good_id: "good_id ''b''"
  by (auto simp: good_id_def dest: sublist_length_le)

theorem Publish_complete_witness:
  "\<exists>c'. implPublish ser_env entries_codec tag_publish rev mem_fs (gcs_store steady_client plain_gcs) tag_bucket 1000
      (Some (gcs_store steady_client plain_gcs, tag_meta)) [] tag_reader (Some (\<lambda>n. Inr True)) =
      Some (Inr (c', tag_read_back\<lparr>bn_Entries := [tag_entry]\<rparr>, None))
    \<and> bd_RunStage (bn_Descriptor tag_read_back) = ''stage'' \<and> mem_files c' ''f'' = Some [7]"
proof -
  from tag_new_fs obtain pool where
    fs: "fs_New (pe_lruNew tag_publish) (bundle_fs (pe_opts tag_publish) tag_read_back) = Inr (tag_fs, pool)" by blast
  have lru: "lru_cache (pe_LK tag_publish) map_of" by (simp add: tag_publish_def mru.lru_cache_axioms)
  have meta: "''f'' \<notin> fst ` set (meta_files ser_env entries_codec 1000 (with_count 1 tag_bundle) [tag_entry])"
      "\<forall>k \<in> fst ` set (meta_files ser_env entries_codec 1000 (with_count 1 tag_bundle) [tag_entry]). k \<noteq> ''.''"
    by (auto simp: meta_files_names desc_path_def list_path_def)
  have id: "good_id (bn_BundleID (with_count 1 tag_bundle))" using tag_good_id by (simp add: tag_bundle_def)
  have same: "bn_RepoID tag_reader = bn_RepoID (with_count 1 tag_bundle)" "bn_BundleID tag_reader = bn_BundleID (with_count 1 tag_bundle)"
    by (simp_all add: tag_reader_def)
  have one: "length (blocks 1000 [tag_entry]) < 2 ^ 63" by (simp add: blocks_step)
  have entry: "be_NameWithPath tag_entry = ''f''" "entry_data (\<lambda>_. [7]) tag_entry = [7]" by (simp_all add: tag_entry_def entry_data_def)
  note ok = Publish_complete [OF steady.bucket_api_axioms steady.bucket_api_axioms lru mem.afero_api_axioms entries_codec_ok
      ser_env_bundles _ tag_meta_stored one id same fs, where es' = "[tag_entry]" and sel = "\<lambda>_. True" and order = rev
      and gb = plain_gcs and s = tag_bucket and dat = "\<lambda>_. [7]" and c = "[]"]
  have "\<exists>c'. implPublish ser_env entries_codec tag_publish rev mem_fs (gcs_store steady_client plain_gcs) tag_bucket 1000
      (Some (gcs_store steady_client plain_gcs, tag_meta)) [] tag_reader (Some (\<lambda>n. Inr True)) =
      Some (Inr (c', tag_read_back\<lparr>bn_Entries := [tag_entry]\<rparr>, None))
    \<and> mem_files c' = after (mem_files []) (entry_files (\<lambda>_. [7]) [tag_entry] @ meta_files ser_env entries_codec 1000 (with_count 1 tag_bundle) [tag_entry])"
    using ok tag_blob meta
    by (simp add: entry comp_def tag_publish_def mem_files_def) (simp add: tag_fs_def)
  moreover have "bd_RunStage (bn_Descriptor tag_read_back) = ''stage''" by (simp add: decoded_over_def tag_reader_def tag_bundle_def)
  ultimately show ?thesis by (auto simp: after_def entry_files_def entry)
qed

section \<open>Lost blobs are not noticed\<close>

text \<open>The bytes of a leaf that cannot be read stay a hole of the file, or are missing from its end.\<close>

lemma write_leaves_hole:
  assumes "rc_truncation c = 0" and "st_Get st s (StringWithPrefix (rc_prefix c) (rc_keys c ! i)) = Inl e"
    and "\<And>j b. j < length (rc_keys c) \<Longrightarrow> st_Get st s (StringWithPrefix (rc_prefix c) (rc_keys c ! j)) = Inr b \<Longrightarrow> length b \<le> rc_leafSize c"
    and "i * rc_leafSize c \<le> k" and "k < i * rc_leafSize c + rc_leafSize c"
  shows "byte_at f k \<in> {None, Some 0} \<Longrightarrow> set order \<subseteq> {..<length (rc_keys c)} \<Longrightarrow>
    byte_at (fst (write_leaves st c s order f)) k \<in> {None, Some 0}"
proof (induction order arbitrary: f)
  case (Cons j order)
  let ?l = "rc_leafSize c"
  show ?case
  proof (cases "st_Get st s (StringWithPrefix (rc_prefix c) (rc_keys c ! j))")
    case (Inl e')
    with Cons show ?thesis by (simp split: prod.split) (metis fst_conv)
  next
    case (Inr b)
    with assms(2) have "j \<noteq> i" by auto
    moreover have "length b \<le> ?l" using assms(3) [OF _ Inr] Cons.prems(2) by simp
    moreover have "j * ?l + ?l \<le> i * ?l" if "j < i" using that mult_le_mono1 [of "Suc j" i ?l] by simp
    moreover have "i * ?l + ?l \<le> j * ?l" if "i < j" using that mult_le_mono1 [of "Suc i" j ?l] by simp
    ultimately have "\<not> (j * ?l \<le> k \<and> k < j * ?l + length b)" using assms(4,5) by (cases "j < i") auto
    then have "byte_at (file_WriteAt f (j * ?l) b) k \<in> {None, Some 0}" using Cons.prems(1) by (auto simp: byte_at_WriteAt)
    with Cons.IH [of "file_WriteAt f (j * ?l) b"] Cons.prems(2) Inr assms(1) show ?thesis
      by (simp split: prod.split) (metis fst_conv)
  qed
qed simp

context publisher
begin

lemma lost_leaf_download:
  assumes "stored (pe_H P) f (bcontent s) d r" and "KeyFromString (be_Hash e) = Inr r" and "\<not> fs_leafTruncation f"
    and lost: "bcontent s' = (bcontent s)(StringWithPrefix (fs_prefix f) (file_keys (pe_H P) (fs_leafSize f) d ! (k div fs_leafSize f)) := None)"
    and root: "file_keys (pe_H P) (fs_leafSize f) d ! (k div fs_leafSize f) \<noteq> r"
    and k: "k < length d" "d ! k \<noteq> 0" and "\<And>n. mset (pe_leaves P n) = mset [0..<n]"
    and "kview (pe_noKeys P) = Map.empty" and "be_NameWithPath e \<in> names" and "files c (be_NameWithPath e) = None"
  shows "\<exists>kc' c'. downloadBundleEntrySync P A bst s' f e (pe_noKeys P, c) = ((kc', c'), None)
    \<and> files c' (be_NameWithPath e) \<noteq> Some d \<and> files c' (be_NameWithPath e) \<noteq> None"
proof -
  let ?H = "pe_H P" and ?l = "fs_leafSize f" and ?n = "be_NameWithPath e"
  let ?ks = "file_keys ?H ?l d" and ?i = "k div ?l"
  let ?cfg = "fs_reader_cfg f ?ks" and ?order = "pe_leaves P (length ?ks)"
  have l: "0 < ?l" using assms(1) by (simp add: stored_def)
  have i: "?i < length ?ks" using blocks_index [OF l k(1)] by simp
  have same: "bcontent s' (StringWithPrefix (fs_prefix f) r) = bcontent s (StringWithPrefix (fs_prefix f) r)"
    using lost root by (simp add: StringWithPrefix_def Key_String_def hex_encode_inj)
  have "leavesForHash ?H bst s' r ?l (fs_prefix f) = leavesForHash ?H bst s r ?l (fs_prefix f)"
    using same by (simp add: leavesForHash_def bytesFromRoot_def bst.get)
  then have leaves: "leavesForHash ?H bst s' r ?l (fs_prefix f) = Inr ?ks" using bst.leavesForHash_stored [OF assms(1)] by simp
  obtain kc1 where "lru_Get (pe_LK P) (pe_noKeys P) r = (None, kc1)"
    using bst.get_value [of "pe_noKeys P" r] assms(9) by (cases "lru_Get (pe_LK P) (pe_noKeys P) r") auto
  with leaves obtain kc' where rd: "fs_reader ?H bst (pe_LK P) f s' (pe_noKeys P) r = (kc', Inr (?cfg, new_chunkReader))"
    by (auto simp: fs_reader_def)
  let ?out = "fst (WriteTo_file bst ?cfg s' ?order [])"
  have "st_Get bst s' (StringWithPrefix (fs_prefix f) (?ks ! ?i)) = Inl ErrNotExists" by (simp add: bst.get lost)
  moreover have "length b \<le> ?l" if "j < length ?ks" "st_Get bst s' (StringWithPrefix (fs_prefix f) (?ks ! j)) = Inr b" for j b
  proof -
    have "bcontent s (StringWithPrefix (fs_prefix f) (?ks ! j)) = Some b"
      using that(2) by (auto simp: bst.get lost split: option.splits if_splits)
    with serves_nth [OF stored_serves [OF assms(1)], of j] that(1) have "b = blocks ?l d ! j" by simp
    with blocks_nth [OF l, of j d] that(1) show ?thesis by simp
  qed
  moreover have "?i * ?l \<le> k" "k < ?i * ?l + ?l" using l dividend_less_div_times [of ?l k] by (simp_all add: add.commute)
  moreover have "set ?order \<subseteq> {..<length ?ks}" using mset_eq_setD [OF assms(8), of "length ?ks"] by auto
  ultimately have "byte_at (fst (write_leaves bst ?cfg s' ?order [])) k \<in> {None, Some 0}"
    using assms(3) by (intro write_leaves_hole [where i = ?i]) (auto simp: fs_reader_cfg_def byte_at_def)
  moreover have "rc_keys ?cfg \<noteq> []" using i by (auto simp: fs_reader_cfg_def simp del: length_file_keys)
  then have "?out = fst (write_leaves bst ?cfg s' ?order [])"
    by (simp add: WriteTo_file_def split: prod.split list.split)
  ultimately have "?out \<noteq> d" using k by (auto simp: byte_at_def split: if_splits)
  moreover from loc.put_new [OF assms(10), of NoOverWrite c "pe_tries P" "\<lambda>_. ?out"] assms(11) obtain c' where
    "lfs_Put A (pe_tries P) c ?n (\<lambda>_. ?out) NoOverWrite = (c', None)" "files c' = (files c)(?n \<mapsto> ?out)" by auto
  moreover have "length (rc_keys ?cfg) = length ?ks" by (simp add: fs_reader_cfg_def)
  ultimately show ?thesis
    using assms(2) rd unfolding downloadBundleEntrySync_def downloadBundleEntrySyncMaybeOverwrite_def by simp
qed

end

text \<open>
  C4: a blob that was lost goes unnoticed. When a leaf of a file, with a byte that is not zero, is missing from the blob
  store, the download of that file, without the legacy truncation of leaves, still reports success, and leaves on the local file system a file that does not
  have the content of the bundle: \<open>WriteTo\<close> returns an error, which \<open>Put\<close> of the local file system
  overwrites with the result of closing the file.
\<close>

theorem download_hides_loss:
  assumes "bucket_api clb ob" and "lru_cache (pe_LK P) kview" and "afero_api A files names"
    and "stored (pe_H P) f (gcs_content ob gb s) d r" and "KeyFromString (be_Hash e) = Inr r" and "\<not> fs_leafTruncation f"
    and "gcs_content ob gb s' =
      (gcs_content ob gb s)(StringWithPrefix (fs_prefix f) (file_keys (pe_H P) (fs_leafSize f) d ! (k div fs_leafSize f)) := None)"
    and "file_keys (pe_H P) (fs_leafSize f) d ! (k div fs_leafSize f) \<noteq> r"
    and "k < length d" and "d ! k \<noteq> 0" and "\<And>n. mset (pe_leaves P n) = mset [0..<n]"
    and "kview (pe_noKeys P) = Map.empty" and "be_NameWithPath e \<in> names" and "files c (be_NameWithPath e) = None"
  shows "\<exists>kc' c'. downloadBundleEntrySync P A (gcs_store clb gb) s' f e (pe_noKeys P, c) = ((kc', c'), None)
    \<and> files c' (be_NameWithPath e) \<noteq> Some d \<and> files c' (be_NameWithPath e) \<noteq> None"
proof -
  have "publisher (gcs_store clb gb) (gcs_content ob gb) (gcs_store clb gb) (gcs_content ob gb) P kview A files names"
    by (intro publisher.intro keyed_store.intro gcs_is_store assms(1-3))
  from publisher.lost_leaf_download [OF this assms(4-14)] show ?thesis .
qed

theorem download_hides_loss_witness:
  "\<exists>kc' c'. downloadBundleEntrySync tag_publish mem_fs (gcs_store steady_client plain_gcs) [(Key_String tag_root, tag_leaf @ tag_root)]
      tag_fs tag_entry ([], []) = ((kc', c'), None) \<and> mem_files c' ''f'' \<noteq> Some [7]"
proof -
  have lru: "lru_cache (pe_LK tag_publish) map_of" by (simp add: tag_publish_def mru.lru_cache_axioms)
  have e: "KeyFromString (be_Hash tag_entry) = Inr tag_root" "be_NameWithPath tag_entry = ''f''"
    using tag_blob by (auto simp: blob_stored_def tag_entry_def KeyFromString_String NewKey_def KeySize_def)
  have keys: "file_keys tag_hash 64 [7] = [tag_leaf]" by simp
  have pub: "pe_H tag_publish = tag_hash" "pe_noKeys tag_publish = []" "\<And>n. mset (pe_leaves tag_publish n) = mset [0..<n]"
    by (simp_all add: tag_publish_def)
  have fs: "fs_leafSize tag_fs = 64" "fs_prefix tag_fs = ''''" "\<not> fs_leafTruncation tag_fs" by (simp_all add: tag_fs_def)
  have "gcs_content map_of plain_gcs [(Key_String tag_root, tag_leaf @ tag_root)] =
      (gcs_content map_of plain_gcs tag_bucket)(StringWithPrefix '''' tag_leaf := None)"
    using tag_distinct by (auto simp: gcs_content_def getFullObjectName_def StringWithPrefix_def fun_eq_iff)
  moreover have "tag_leaf \<noteq> tag_root" by simp
  ultimately show ?thesis
    using download_hides_loss [OF steady.bucket_api_axioms lru mem.afero_api_axioms _ e(1),
        of tag_fs plain_gcs tag_bucket "[7]" "[(Key_String tag_root, tag_leaf @ tag_root)]" 0 "[]"] tag_bucket_stored pub fs keys e(2)
    by (simp add: mem_files_def) blast
qed

end
