(* ===== verification/BundleUpdate.thy ===== *)
theory BundleUpdate
  imports BundlePublish
begin

text \<open>
  \<open>Update\<close> brings a bundle that was published before to the state of another one: the differences of the
  two bundles, the local metadata, and what the local file system holds afterwards.
\<close>

section \<open>Differences\<close>

lemma index_entries_Some: "index_entries es n = Some e \<Longrightarrow> e \<in> set es \<and> be_NameWithPath e = n"
  by (auto simp: index_entries_def dest: map_of_SomeD)

lemma index_entries_dom: "dom (index_entries es) = be_NameWithPath ` set es"
  by (simp add: index_entries_def dom_map_of_conv_image_fst image_image)

lemma index_entries_in:
  assumes "distinct (map be_NameWithPath es)" and "e \<in> set es"
  shows "index_entries es (be_NameWithPath e) = Some e"
  using assms by (simp add: index_entries_def comp_def rev_map [symmetric])

lemma diff_existing_effect:
  "map (effect dat \<circ> diff_job) (diff_existing (index_entries ed) (index_entries es) n) =
     (case index_entries ed n of None \<Rightarrow> [] | Some x \<Rightarrow>
        (case index_entries es n of
           Some a \<Rightarrow> if be_Hash a \<noteq> be_Hash x then [(n, Some (entry_data dat a))] else []
         | None \<Rightarrow> [(n, None)]))"
  by (auto simp: diff_existing_def diff_job_def dest: index_entries_Some split: option.split)

lemma diff_additional_effect:
  "map (effect dat \<circ> diff_job) (diff_additional (index_entries ed) (index_entries es) n) =
     (case (index_entries es n, index_entries ed n) of (Some a, None) \<Rightarrow> [(n, Some (entry_data dat a))] | _ \<Rightarrow> [])"
  by (auto simp: diff_additional_def diff_job_def dest: index_entries_Some split: option.split)

text \<open>Lists that give at most one change for each name, with that name.\<close>

lemma concat_at_most_one:
  assumes "\<And>n. g n = [] \<or> (\<exists>v. g n = [(n, v)])"
  shows "map fst (concat (map g ns)) = filter (\<lambda>n. g n \<noteq> []) ns"
    and "(n, v) \<in> set (concat (map g ns)) \<longleftrightarrow> n \<in> set ns \<and> (n, v) \<in> set (g n)"
proof -
  show "map fst (concat (map g ns)) = filter (\<lambda>n. g n \<noteq> []) ns"
  proof (induction ns)
    case (Cons a ns)
    with assms [of a] show ?case by auto
  qed simp
  show "(n, v) \<in> set (concat (map g ns)) \<longleftrightarrow> n \<in> set ns \<and> (n, v) \<in> set (g n)"
  proof (induction ns)
    case (Cons a ns)
    with assms [of a] show ?case by auto
  qed simp
qed

abbreviation existing_changes :: "(Key \<Rightarrow> bytes) \<Rightarrow> BundleEntry list \<Rightarrow> BundleEntry list \<Rightarrow> string \<Rightarrow> (string \<times> bytes option) list" where
  "existing_changes dat ed es n \<equiv> map (effect dat \<circ> diff_job) (diff_existing (index_entries ed) (index_entries es) n)"

abbreviation additional_changes :: "(Key \<Rightarrow> bytes) \<Rightarrow> BundleEntry list \<Rightarrow> BundleEntry list \<Rightarrow> string \<Rightarrow> (string \<times> bytes option) list" where
  "additional_changes dat ed es n \<equiv> map (effect dat \<circ> diff_job) (diff_additional (index_entries ed) (index_entries es) n)"

lemma at_most_one_change:
  "existing_changes dat ed es n = [] \<or> (\<exists>v. existing_changes dat ed es n = [(n, v)])"
  "additional_changes dat ed es n = [] \<or> (\<exists>v. additional_changes dat ed es n = [(n, v)])"
  unfolding diff_existing_effect diff_additional_effect by (simp_all split: option.split)

lemmas concat_existing = concat_at_most_one [where g = "existing_changes dat ed es" for dat ed es, OF at_most_one_change(1)]
lemmas concat_additional = concat_at_most_one [where g = "additional_changes dat ed es" for dat ed es, OF at_most_one_change(2)]

text \<open>The changes that the differences amount to, and the names they have.\<close>

definition diff_changes ::
  "(Key \<Rightarrow> bytes) \<Rightarrow> BundleEntry list \<Rightarrow> BundleEntry list \<Rightarrow> string list \<Rightarrow> string list \<Rightarrow> (string \<times> bytes option) list" where
  "diff_changes dat ed es o1 o2 = map (effect dat) (map diff_job (diffBundles ed es o1 o2))"

lemma diff_changes_eq:
  "diff_changes dat ed es o1 o2 =
     concat (map (existing_changes dat ed es) o1) @ concat (map (additional_changes dat ed es) o2)"
  by (simp add: diff_changes_def diffBundles_def Let_def map_concat comp_def)

lemma diff_changes_mem:
  assumes "set o1 = be_NameWithPath ` set ed" and "set o2 = be_NameWithPath ` set es"
  shows "(n, v) \<in> set (diff_changes dat ed es o1 o2) \<longleftrightarrow>
    (case (index_entries ed n, index_entries es n) of
       (Some x, Some a) \<Rightarrow> be_Hash a \<noteq> be_Hash x \<and> v = Some (entry_data dat a)
     | (Some x, None) \<Rightarrow> v = None
     | (None, Some a) \<Rightarrow> v = Some (entry_data dat a)
     | (None, None) \<Rightarrow> False)"
proof -
  have "n \<in> set o1 \<longleftrightarrow> index_entries ed n \<noteq> None" "n \<in> set o2 \<longleftrightarrow> index_entries es n \<noteq> None"
    using assms index_entries_dom [of ed] index_entries_dom [of es] by (auto simp: dom_def)
  then show ?thesis
    unfolding diff_changes_eq set_append Un_iff concat_existing(2) concat_additional(2)
    unfolding diff_existing_effect diff_additional_effect by (auto split: option.split)
qed

lemma diff_changes_distinct:
  assumes "distinct o1" and "distinct o2" and "set o1 = be_NameWithPath ` set ed"
  shows "distinct (map fst (diff_changes dat ed es o1 o2))"
proof -
  have "additional_changes dat ed es n = []" if "n \<in> set o1" for n
  proof -
    from that assms(3) have "n \<in> dom (index_entries ed)" by (simp add: index_entries_dom)
    then obtain x where "index_entries ed n = Some x" by blast
    then show ?thesis unfolding diff_additional_effect by (simp split: option.split)
  qed
  then show ?thesis
    unfolding diff_changes_eq map_append concat_existing(1) concat_additional(1) using assms(1,2)
    by (intro distinct_append [THEN iffD2]) auto
qed

text \<open>
  Applied to a file system that holds the old bundle, the changes give the new one: old files that the
  new bundle does not have are gone.
\<close>

lemma diff_applied:
  assumes "distinct o1" and "distinct o2" and o: "set o1 = be_NameWithPath ` set ed" "set o2 = be_NameWithPath ` set es"
    and d: "distinct (map be_NameWithPath ed)" "distinct (map be_NameWithPath es)"
    and held: "\<forall>e \<in> set ed. m (be_NameWithPath e) = Some (entry_data dat e)"
  shows "after m (diff_changes dat ed es o1 o2) =
    after m (entry_files dat es @ map (\<lambda>e. (be_NameWithPath e, None)) ed)"
proof
  fix n
  let ?ch = "diff_changes dat ed es o1 o2" and ?old = "map (\<lambda>e. (be_NameWithPath e, None)) ed"
  note dist = diff_changes_distinct [OF assms(1,2) o(1), of dat es] and mem = diff_changes_mem [OF o, of n _ dat]
  have new: "after m (entry_files dat es @ ?old) n = Some (entry_data dat a)" if "index_entries es n = Some a" for a
  proof -
    from index_entries_Some [OF that] have "(n, Some (entry_data dat a)) \<in> set (entry_files dat es)" by (auto simp: entry_files_def)
    moreover have "distinct (map fst (entry_files dat es))" using d(2) by (simp add: entry_files_def comp_def)
    ultimately show ?thesis unfolding after_append by (rule after_in [rotated])
  qed
  have gone: "after m (entry_files dat es @ ?old) n = after m ?old n" if "index_entries es n = None"
  proof -
    have "n \<notin> fst ` set (entry_files dat es)"
      using that index_entries_dom [of es] by (auto simp: entry_files_def image_image)
    then show ?thesis unfolding after_append by (rule after_other)
  qed
  show "after m ?ch n = after m (entry_files dat es @ ?old) n"
  proof (cases "index_entries es n")
    case (Some a)
    show ?thesis
    proof (cases "\<exists>x. index_entries ed n = Some x \<and> be_Hash a = be_Hash x")
      case True
      then obtain x where x: "index_entries ed n = Some x" "be_Hash a = be_Hash x" by blast
      with mem Some have "n \<notin> fst ` set ?ch" by force
      moreover have "m n = Some (entry_data dat a)"
        using held index_entries_Some [OF x(1)] x(2) by (auto simp: entry_data_def)
      ultimately show ?thesis using new [OF Some] after_other by metis
    next
      case False
      with mem [of "Some (entry_data dat a)"] Some have "(n, Some (entry_data dat a)) \<in> set ?ch"
        by (cases "index_entries ed n") auto
      with after_in [OF dist] new [OF Some] show ?thesis by simp
    qed
  next
    case None
    show ?thesis
    proof (cases "index_entries ed n")
      case None': None
      with None mem have "n \<notin> fst ` set ?ch" by force
      moreover have "n \<notin> fst ` set ?old" using None' index_entries_dom [of ed] by (auto simp: image_image)
      ultimately show ?thesis using gone [OF None] after_other by metis
    next
      case (Some x)
      with None mem [of None] have "(n, None) \<in> set ?ch" by simp
      moreover have "(n, None) \<in> set ?old" using index_entries_Some [OF Some] by auto
      moreover have "distinct (map fst ?old)" using d(1) by (simp add: comp_def)
      ultimately show ?thesis using gone [OF None] after_in dist by metis
    qed
  qed
qed

section \<open>Metadata on the local file system\<close>

lemma metadata_of_paths:
  assumes "good_id i"
  shows "GetConsumableStorePathMetadata (desc_path i) =
      Inr \<lparr>meta_Type = ConsumableStorePathTypeDescriptor, meta_BundleID = i, meta_Index = 0\<rparr>"
    and "n < 2 ^ 63 \<Longrightarrow> \<exists>m. GetConsumableStorePathMetadata (list_path i n) = Inr m \<and> meta_Type m = ConsumableStorePathTypeFileList"
proof -
  show "GetConsumableStorePathMetadata (desc_path i) =
      Inr \<lparr>meta_Type = ConsumableStorePathTypeDescriptor, meta_BundleID = i, meta_Index = 0\<rparr>"
    using consumable_paths(1) [OF assms] assms
    by (auto simp: good_id_def desc_path_def GetConsumableStorePathMetadata_def metaRe_path flRe_None [THEN iffD2] simp del: append.simps)
  have path: "''.datamon/'' @ i @ ''-bundle-files-'' @ show_nat n @ ''.yaml'' =
      ''.datamon/'' @ (i @ ''-bundle-files-'' @ show_nat n) @ ''.yaml''" by simp
  show "\<exists>m. GetConsumableStorePathMetadata (list_path i n) = Inr m \<and> meta_Type m = ConsumableStorePathTypeFileList" if "n < 2 ^ 63"
    using that assms unfolding list_path_def path
    by (auto simp: good_id_def GetConsumableStorePathMetadata_def metaRe_path flRe_index Atoi_show_nat simp del: append.simps append_assoc)
qed

definition plain_name :: "string \<Rightarrow> bool" where
  "plain_name k \<longleftrightarrow> GetConsumableStorePathMetadata k = Inl NotAMetadataPath"

lemma keys_info_ok:
  assumes "good_id i" and "N < 2 ^ 63"
  shows "distinct ks \<Longrightarrow> \<forall>k \<in> set ks. k = desc_path i \<or> k \<in> list_path i ` {..<N} \<or> plain_name k \<Longrightarrow>
    (ki_bundleID a = '''') = (desc_path i \<in> set ks) \<Longrightarrow>
    \<exists>j. keys_info_loop a ks = Inr j \<and> ki_descriptor j = (if desc_path i \<in> set ks then desc_path i else ki_descriptor a)
      \<and> set (ki_filelists j) = set (ki_filelists a) \<union> (set ks \<inter> list_path i ` {..<N})"
proof (induction ks arbitrary: a)
  case (Cons k ks)
  note md = metadata_of_paths [OF assms(1)]
  consider (desc) "k = desc_path i" | (list) n where "k = list_path i n" "n < N" | (plain) "plain_name k" "k \<noteq> desc_path i" "k \<notin> list_path i ` {..<N}"
    using Cons.prems(2) by auto
  then show ?case
  proof cases
    case desc
    let ?a = "a\<lparr>ki_bundleID := i, ki_descriptor := k\<rparr>"
    have "keys_info_loop a (k # ks) = keys_info_loop ?a ks" using desc md(1) Cons.prems(3) by simp
    moreover have "(ki_bundleID ?a = '''') = (desc_path i \<in> set ks)" using desc Cons.prems(1) assms(1) by (simp add: good_id_def)
    ultimately show ?thesis using Cons.IH [of ?a] Cons.prems(1,2) desc desc_not_list by auto
  next
    case list
    let ?a = "a\<lparr>ki_filelists := ki_filelists a @ [k]\<rparr>"
    from md(2) [of n] list(2) assms(2) obtain m where
      "GetConsumableStorePathMetadata k = Inr m" "meta_Type m = ConsumableStorePathTypeFileList" using list(1) by auto
    then have "keys_info_loop a (k # ks) = keys_info_loop ?a ks"
      by simp
    moreover have "(ki_bundleID ?a = '''') = (desc_path i \<in> set ks)" using list(1) Cons.prems(3) desc_not_list by simp
    ultimately show ?thesis using Cons.IH [of ?a] Cons.prems(1,2) list desc_not_list by auto
  next
    case plain
    then have "keys_info_loop a (k # ks) = keys_info_loop a ks" by (simp add: plain_name_def)
    with plain Cons.IH [of a] Cons.prems show ?thesis by auto
  qed
qed simp

context publisher
begin

lemma delete_all_ok:
  "set ks \<subseteq> names \<Longrightarrow> \<exists>c'. delete_all A c ks = (c', None) \<and> files c' = (\<lambda>k. if k \<in> set ks then None else files c k)"
proof (induction ks arbitrary: c)
  case (Cons k ks)
  from loc.delete [of k c] Cons.prems obtain c1 where "lfs_Delete A c k = (c1, None)" "files c1 = (files c)(k := None)" by auto
  with Cons.IH [of c1] Cons.prems show ?case by (auto simp: fun_eq_iff)
qed simp

lemma download_lists_local:
  assumes "codec_ok cd" and "length bs < 2 ^ 63" and "good_id (bn_BundleID b)"
  shows "set order \<subseteq> {..<length bs} \<Longrightarrow>
    \<forall>(k, v) \<in> set (list_files cd (bn_BundleID b) bs order). k \<in> names \<and> files c k = v \<Longrightarrow>
    downloadBundleFileList cd False (None :: 'm opened) (Some (lfs_store A t, c)) b order =
      Inr (Some (lfs_store A t, c), map (\<lambda>i. (i, Inr (bs ! i))) order)"
proof (induction order)
  case (Cons i order)
  let ?p = "list_path (bn_BundleID b) i"
  have path: "GetConsumablePathToBundleFileList (bn_BundleID b) (of_nat i) = Inr ?p"
    using consumable_paths(2) [OF assms(3)] Cons.prems(1) assms(2) by simp
  obtain buf where buf: "cd_Marshal cd (bs ! i) = Inr buf" "cd_Unmarshal cd buf = Inr (bs ! i)"
    using assms(1) unfolding codec_ok_def by blast
  have "?p \<in> names" "files c ?p = Some buf" using Cons.prems(2) buf(1) by (auto simp: list_files_def)
  with path buf loc.get [of ?p c] have "downloadBundleFileListFile cd False (None :: 'm opened) (Some (lfs_store A t, c)) b (of_nat i) =
      Inr (Some (lfs_store A t, c), Inr (bs ! i))"
    by (simp add: downloadBundleFileListFile_def Let_def)
  with Cons show ?case by (simp add: list_files_def)
qed simp

lemma local_metadata_ok:
  assumes "codec_ok cd" and "yaml_bundles E" and "0 < epf" and "length (blocks epf es) < 2 ^ 63" and id: "good_id (bn_BundleID b)"
    and cnt: "bd_BundleEntriesFileCount (bn_Descriptor b) = length (blocks epf es)"
    and there: "\<forall>(k, v) \<in> set (meta_files E cd epf b es). k \<in> names \<and> files c k = v"
    and "lfs_Keys A c = Inr ks" and "find_bundleID ks = Inr (bn_BundleID b)" and "bn_BundleID b0 = ''''"
    and "\<And>js. mset (order js) = mset js"
  shows "implPublishMetadata E cd order False epf (None :: 'm opened) (Some (lfs_store A t, c)) b0 =
    Some (Inr (Some (lfs_store A t, c), b0\<lparr>bn_BundleID := bn_BundleID b, bn_Descriptor := decoded_over (bn_Descriptor b0) (bn_Descriptor b), bn_Entries := es\<rparr>, None))"
proof -
  let ?cnt = "length (blocks epf es)" and ?id = "bn_BundleID b"
  let ?b1 = "b0\<lparr>bn_BundleID := ?id\<rparr>" and ?o = "order [0..<?cnt]"
  let ?b2 = "?b1\<lparr>bn_Descriptor := decoded_over (bn_Descriptor b0) (bn_Descriptor b)\<rparr>"
  obtain buf where buf: "cd_Marshal (en_bundle E) (bn_Descriptor b) = Inr buf" "\<And>base. en_bundle_over E base buf = Inr (decoded_over base (bn_Descriptor b))"
    using assms(2) unfolding yaml_bundles_def by blast
  have "desc_path ?id \<in> names" "files c (desc_path ?id) = Some buf" using there buf(1) by (simp_all add: meta_files_def)
  then have desc: "unpackBundleDescriptor E False (None :: 'm opened) (Some (lfs_store A t, c)) ?b1 = Inr (Some (lfs_store A t, c), Inr ?b2)"
    using consumable_paths(1) [OF id] loc.get [of "desc_path ?id" c] buf(2) by (simp add: unpackBundleDescriptor_def Let_def)
  have "set ?o = set [0..<?cnt]" by (rule mset_eq_setD [OF assms(11)])
  then have ord: "set ?o = {..<?cnt}" by (simp add: atLeast0LessThan)
  then have "set (list_files cd ?id (blocks epf es) ?o) \<subseteq> set (meta_files E cd epf b es)" by (auto simp: meta_files_def list_files_def)
  then have "downloadBundleFileList cd False (None :: 'm opened) (Some (lfs_store A t, c)) ?b2 ?o =
      Inr (Some (lfs_store A t, c), map (\<lambda>i. (i, Inr (blocks epf es ! i))) ?o)"
    using there ord id assms(4) by (intro download_lists_local [OF assms(1)]) auto
  moreover have "unpack_lists epf ?cnt (replicate (?cnt * epf) empty_entry) (map (\<lambda>i. (i, Inr (blocks epf es ! i))) ?o) = Inr (es, None)"
    by (rule unpack_lists_blocks [OF assms(3,11)])
  ultimately have "unpackBundleFileList cd order False epf (None :: 'm opened) (Some (lfs_store A t, c)) ?b2 =
      Inr (Some (lfs_store A t, c), ?b2\<lparr>bn_Entries := es\<rparr>, None)"
    by (simp add: unpackBundleFileList_def Let_def cnt)
  with desc assms(8-10) show ?thesis by (simp add: implPublishMetadata_def setBundleIDFromConsumableStore_def)
qed

end

section \<open>Updating\<close>

lemma job_names: "fst (effect dat j) = (case j of DownloadJob e \<Rightarrow> be_NameWithPath e | OverwriteJob e \<Rightarrow> be_NameWithPath e | DeleteJob e \<Rightarrow> be_NameWithPath e)"
  by (cases j) auto

lemma diff_jobs_ready:
  assumes "set o1 = be_NameWithPath ` set ed" and "set o2 = be_NameWithPath ` set es"
    and "be_NameWithPath ` (set ed \<union> set es) \<subseteq> names" and "\<forall>e \<in> set es. blob_stored H f m dat e"
    and "\<forall>e \<in> set es. be_NameWithPath e \<notin> be_NameWithPath ` set ed \<longrightarrow> c (be_NameWithPath e) = None"
    and "j \<in> set (map diff_job (diffBundles ed es o1 o2))"
  shows "job_ready H f m dat names c j"
proof -
  from assms(6) obtain n where
    "j \<in> set (map diff_job (diff_existing (index_entries ed) (index_entries es) n)) \<or>
     j \<in> set (map diff_job (diff_additional (index_entries ed) (index_entries es) n))"
    by (auto simp: diffBundles_def Let_def)
  moreover have "job_ready H f m dat names c j" if "j \<in> set (map diff_job (diff_existing (index_entries ed) (index_entries es) n))"
  proof (cases "index_entries ed n")
    case (Some x)
    with that have "j = DeleteJob x \<or> (\<exists>a. index_entries es n = Some a \<and> j = OverwriteJob a)"
      by (cases "index_entries es n") (auto simp: diff_existing_def diff_job_def split: if_splits)
    with assms(3,4) index_entries_Some [OF Some] show ?thesis by (auto dest!: index_entries_Some)
  qed (use that in \<open>simp add: diff_existing_def\<close>)
  moreover have "job_ready H f m dat names c j" if "j \<in> set (map diff_job (diff_additional (index_entries ed) (index_entries es) n))"
  proof -
    from that obtain a where a: "index_entries es n = Some a" "index_entries ed n = None" "j = DownloadJob a"
      by (cases "index_entries es n"; cases "index_entries ed n") (auto simp: diff_additional_def diff_job_def)
    then have "a \<in> set es" "be_NameWithPath a = n" "n \<notin> be_NameWithPath ` set ed"
      using index_entries_Some [OF a(1)] index_entries_dom [of ed] by (auto simp: domIff simp flip: index_entries_dom)
    with a(3) assms(3-5) show ?thesis by auto
  qed
  ultimately show ?thesis by blast
qed

text \<open>What the local file system holds before: the old bundle, and no other metadata.\<close>

definition holds_bundle ::
  "'v env \<Rightarrow> BundleEntry list codec \<Rightarrow> nat \<Rightarrow> (string \<Rightarrow> bytes option) \<Rightarrow> string set \<Rightarrow> (Key \<Rightarrow> bytes) \<Rightarrow> Bundle \<Rightarrow> BundleEntry list \<Rightarrow> bool" where
  "holds_bundle E cd epf m names dat b es \<longleftrightarrow>
     bd_BundleEntriesFileCount (bn_Descriptor b) = length (blocks epf es) \<and> length (blocks epf es) < 2 ^ 63 \<and> good_id (bn_BundleID b)
     \<and> (\<forall>(k, v) \<in> set (meta_files E cd epf b es). k \<in> names \<and> m k = v)
     \<and> (\<forall>k. m k \<noteq> None \<longrightarrow> k \<in> fst ` set (meta_files E cd epf b es) \<or> plain_name k)
     \<and> (\<forall>e \<in> set es. be_NameWithPath e \<in> names \<and> plain_name (be_NameWithPath e) \<and> m (be_NameWithPath e) = Some (entry_data dat e))
     \<and> distinct (map be_NameWithPath es)"

lemma metadata_not_plain: "good_id (bn_BundleID b) \<Longrightarrow> length (blocks epf es) < 2 ^ 63 \<Longrightarrow> k \<in> fst ` set (meta_files E cd epf b es) \<Longrightarrow> \<not> plain_name k"
proof -
  assume i: "good_id (bn_BundleID b)" and n: "length (blocks epf es) < 2 ^ 63" and "k \<in> fst ` set (meta_files E cd epf b es)"
  then consider "k = desc_path (bn_BundleID b)" | j where "k = list_path (bn_BundleID b) j" "j < 2 ^ 63"
    unfolding meta_files_names by auto
  then show ?thesis
  proof cases
    case 2
    with metadata_of_paths(2) [OF i 2(2)] show ?thesis by (auto simp: plain_name_def)
  qed (use metadata_of_paths(1) [OF i] in \<open>simp add: plain_name_def\<close>)
qed

lemma after_removed: "after m (map (\<lambda>k. (k, None)) ks) = (\<lambda>k. if k \<in> set ks then None else m k)"
  by (rule ext) (induction ks; auto simp: after_def)

lemma replace_metadata:
  assumes "om \<inter> fst ` set ch = {}" and "set oms = om"
  shows "after (\<lambda>k. if k \<in> om then None else after m ch k) nm = after m (nm @ ch @ map (\<lambda>k. (k, None)) oms)"
proof -
  have "(\<lambda>k. if k \<in> om then None else after m ch k) = after m (ch @ map (\<lambda>k. (k, None)) oms)"
  proof
    fix k
    show "(if k \<in> om then None else after m ch k) = after m (ch @ map (\<lambda>k. (k, None)) oms) k"
    proof (cases "k \<in> om")
      case True
      with assms have "k \<notin> fst ` set ch" "k \<in> set oms" by auto
      with True show ?thesis using after_other [of k ch] unfolding after_append after_removed by simp
    qed (use assms(2) in \<open>simp add: after_append after_removed, simp add: after_def split: option.split\<close>)
  qed
  then show ?thesis by (simp only: after_append)
qed

definition updated_files ::
  "'v env \<Rightarrow> BundleEntry list codec \<Rightarrow> (Key \<Rightarrow> bytes) \<Rightarrow> Bundle \<Rightarrow> BundleEntry list \<Rightarrow> Bundle \<Rightarrow> BundleEntry list \<Rightarrow> (string \<times> bytes option) list" where
  "updated_files E cd dat b es bo ed =
     meta_files E cd defaultBundleEntriesPerFile b es @ entry_files dat es @
     map (\<lambda>k. (k, None)) (map be_NameWithPath ed @ map fst (meta_files E cd defaultBundleEntriesPerFile bo ed))"

context publisher
begin

lemma rewrite_metadata_ok:
  assumes "codec_ok cd" and "yaml_bundles E" and epf: "epf = defaultBundleEntriesPerFile"
    and "bundle_stored E cd epf (mcontent m) b es" and "length (blocks epf es) < 2 ^ 63" and "good_id (bn_BundleID b)"
    and "\<And>js. mset (pe_lists P js) = mset js" and "holds_bundle E cd epf m0 names dat bo ed"
    and c1: "files c1 = after m0 ch" and ch: "\<forall>k \<in> fst ` set ch. plain_name k"
    and names: "\<forall>k \<in> fst ` set (meta_files E cd epf b es). k \<in> names"
  shows "\<exists>info c2 c3. getConsumableStoreMetadataKeysInfo (lfs_Keys A c1) = Inr info
    \<and> delete_all A c1 (ki_descriptor info # ki_filelists info) = (c2, None)
    \<and> publish_again E cd P A (Some (mst, m)) base c2 b = Some (Inr (c3, None))
    \<and> files c3 = after m0 (meta_files E cd epf b es @ ch @ map (\<lambda>k. (k, None)) (map fst (meta_files E cd epf bo ed)))"
proof -
  let ?old = "meta_files E cd epf bo ed" and ?new = "meta_files E cd epf b es" and ?i = "bn_BundleID bo"
  let ?N = "length (blocks epf ed)"
  from assms(8) have o: "?N < 2 ^ 63" "good_id ?i" "\<forall>(k, v) \<in> set ?old. k \<in> names \<and> m0 k = v"
      "\<forall>k. m0 k \<noteq> None \<longrightarrow> k \<in> fst ` set ?old \<or> plain_name k" by (auto simp: holds_bundle_def)
  have np: "\<not> plain_name k" if "k \<in> fst ` set ?old" for k using metadata_not_plain [OF o(2,1) that] .
  have old: "k \<in> names \<and> files c1 k \<noteq> None" if "k \<in> fst ` set ?old" for k
  proof -
    have "m0 k \<noteq> None" "k \<in> names" using that o(3) by (auto simp: meta_files_def list_files_def)
    moreover have "k \<notin> fst ` set ch" using np [OF that] ch by blast
    ultimately show ?thesis using after_other c1 by metis
  qed
  have others: "k \<in> fst ` set ?old \<or> plain_name k" if "files c1 k \<noteq> None" for k
    using that o(4) ch after_other [of k ch m0] c1 by metis
  from loc.keys [of c1] obtain ks where ks: "lfs_Keys A c1 = Inr ks" "set ks = {k. files c1 k \<noteq> None}" "distinct ks" by blast
  have D: "desc_path ?i \<in> set ks" and L: "set ks \<inter> list_path ?i ` {..<?N} = list_path ?i ` {..<?N}"
    using old ks(2) by (auto simp: meta_files_names)
  have "\<forall>k \<in> set ks. k = desc_path ?i \<or> k \<in> list_path ?i ` {..<?N} \<or> plain_name k"
    using others ks(2) by (auto simp: meta_files_names)
  from keys_info_ok [OF o(2,1) ks(3) this, of "\<lparr>ki_bundleID = '''', ki_descriptor = '''', ki_filelists = []\<rparr>"] D L obtain info where
    info: "getConsumableStoreMetadataKeysInfo (lfs_Keys A c1) = Inr info" "ki_descriptor info = desc_path ?i"
      "set (ki_filelists info) = list_path ?i ` {..<?N}" by (auto simp: getConsumableStoreMetadataKeysInfo_def ks(1))
  then have om: "set (ki_descriptor info # ki_filelists info) = fst ` set ?old" by (simp add: meta_files_names)
  have "set (ki_descriptor info # ki_filelists info) \<subseteq> names" unfolding om using old by blast
  from delete_all_ok [OF this, of c1, unfolded om c1] obtain c2 where
    c2: "delete_all A c1 (ki_descriptor info # ki_filelists info) = (c2, None)"
      "files c2 = (\<lambda>k. if k \<in> fst ` set ?old then None else after m0 ch k)" by blast
  have "k \<in> names \<and> files c2 k = None" if "k \<in> fst ` set ?new" for k
  proof -
    have "k \<in> fst ` set ?old \<or> after m0 ch k = None"
      using others [of k] metadata_not_plain [OF assms(6,5) that] c1 by auto
    with names that c2(2) show ?thesis by auto
  qed
  then have free: "\<forall>k \<in> fst ` set ?new. k \<in> names \<and> files c2 k = None" by (rule ballI)
  have epf0: "0 < epf" by (simp add: epf defaultBundleEntriesPerFile_def)
  from publish_metadata_ok [OF assms(1,4) epf0 assms(2,5,6) _ _ assms(7) free, where t = "pe_tries P" and br =
      "\<lparr>bn_RepoID = bn_RepoID b, bn_BundleID = bn_BundleID b, bn_Descriptor = base, bn_Entries = [], bn_SkipOnError = False\<rparr>"]
  obtain c3 where
    "publish_again E cd P A (Some (mst, m)) base c2 b = Some (Inr (c3, None))" "files c3 = after (files c2) ?new"
    by (auto simp: publish_again_def epf)
  moreover have "fst ` set ?old \<inter> fst ` set ch = {}" using np ch by blast
  from replace_metadata [OF this, of "map fst ?old" m0 ?new] c2(2)
  have "after (files c2) ?new = after m0 (?new @ ch @ map (\<lambda>k. (k, None)) (map fst ?old))" by simp
  ultimately show ?thesis using info(1) c2(1) by auto
qed

end

context publisher
begin

lemma Update_ok:
  assumes "codec_ok cd" and "yaml_bundles E" and epf: "epf = defaultBundleEntriesPerFile"
    and "bundle_stored E cd epf (mcontent m) b es" and "length (blocks epf es) < 2 ^ 63" and "good_id (bn_BundleID b)"
    and "bn_RepoID br = bn_RepoID b" and "bn_BundleID br = bn_BundleID b"
    and f: "fs_New (pe_lruNew P) (bundle_fs (pe_opts P) (br\<lparr>bn_Descriptor := decoded_over (bn_Descriptor br) (bn_Descriptor b)\<rparr>)) = Inr (f, leafPool)" and "\<not> fs_leafTruncation f"
    and "\<And>n. mset (pe_leaves P n) = mset [0..<n]" and "\<And>js. mset (pe_lists P js) = mset js" and "\<And>js. mset (order js) = mset js"
    and range: "\<And>ns. mset (pe_range P ns) = mset ns" and "kview (pe_noKeys P) = Map.empty"
    and old: "holds_bundle E cd epf (files c) names dat bo ed"
    and "lfs_Keys A c = Inr ks" and "find_bundleID ks = Inr (bn_BundleID bo)" and "bn_BundleID bd = ''''"
    and "distinct (map be_NameWithPath es)"
    and new: "\<forall>e \<in> set es. blob_stored (pe_H P) f (bcontent s) dat e \<and> be_NameWithPath e \<in> names \<and> plain_name (be_NameWithPath e)
      \<and> (be_NameWithPath e \<notin> be_NameWithPath ` set ed \<longrightarrow> files c (be_NameWithPath e) = None)"
    and names: "\<forall>k \<in> fst ` set (meta_files E cd epf b es). k \<in> names"
  shows "\<exists>c'. Update E cd P order A bst s (Some (mst, m)) base c br bd = Some (Inr (c', None))
    \<and> files c' = after (files c) (updated_files E cd dat b es bo ed)"
proof -
  let ?b1 = "br\<lparr>bn_Descriptor := decoded_over (bn_Descriptor br) (bn_Descriptor b), bn_Entries := es\<rparr>"
  let ?b2 = "bd\<lparr>bn_BundleID := bn_BundleID bo, bn_Descriptor := decoded_over (bn_Descriptor bd) (bn_Descriptor bo), bn_Entries := ed\<rparr>"
  let ?o1 = "pe_range P (remdups (map be_NameWithPath ed))" and ?o2 = "pe_range P (remdups (map be_NameWithPath es))"
  let ?js = "map diff_job (diffBundles ed es ?o1 ?o2)" and ?ch = "diff_changes dat ed es
      (pe_range P (remdups (map be_NameWithPath ed))) (pe_range P (remdups (map be_NameWithPath es)))"
  have epf0: "0 < epf" by (simp add: epf defaultBundleEntriesPerFile_def)
  note over = yaml_bundles_over [OF assms(2)]
  have id: "CHR 0x0A \<notin> set (bn_BundleID b)" "bn_BundleID b \<noteq> ''''" using assms(6) by (simp_all add: good_id_def)
  note src = mst.implPublishMetadata_ok [OF assms(1,4) epf0 over assms(5) id assms(7,8,12), of "None :: 'f opened"]
  from old have o: "bd_BundleEntriesFileCount (bn_Descriptor bo) = length (blocks epf ed)" "length (blocks epf ed) < 2 ^ 63"
      "good_id (bn_BundleID bo)" "\<forall>(k, v) \<in> set (meta_files E cd epf bo ed). k \<in> names \<and> files c k = v"
      "\<forall>e \<in> set ed. be_NameWithPath e \<in> names \<and> plain_name (be_NameWithPath e) \<and> files c (be_NameWithPath e) = Some (entry_data dat e)"
      "distinct (map be_NameWithPath ed)" by (auto simp: holds_bundle_def)
  note dest = local_metadata_ok [OF assms(1,2) epf0 o(2,3,1,4) assms(17-19,12), of "pe_tries P"]
  have sets: "set ?o1 = be_NameWithPath ` set ed" "set ?o2 = be_NameWithPath ` set es"
    using mset_eq_setD [OF range] by simp_all
  have dist: "distinct ?o1" "distinct ?o2" using mset_eq_imp_distinct_iff [OF range] by simp_all
  have ch: "?ch = map (effect dat) ?js" by (simp add: diff_changes_def)
  have "distinct (map fst ?ch)" by (rule diff_changes_distinct [OF dist sets(1)])
  then have "distinct (map (fst \<circ> effect dat) ?js)" unfolding ch by (simp add: comp_assoc)
  moreover have "be_NameWithPath ` (set ed \<union> set es) \<subseteq> names" using o(5) new by auto
  then have "\<forall>j \<in> set ?js. job_ready (pe_H P) f (bcontent s) dat names (files c) j"
    using new by (intro ballI diff_jobs_ready [OF sets]) auto
  ultimately have "\<exists>kc' c1. run_jobs P A bst s f (order ?js) (pe_noKeys P, c) = ((kc', c1), None)
      \<and> files c1 = after (files c) (map (effect dat) ?js)"
    by (intro run_jobs_any_order assms(10,11,13,15))
  then obtain kc' c1 where
    jobs: "run_jobs P A bst s f (order ?js) (pe_noKeys P, c) = ((kc', c1), None)" "files c1 = after (files c) (map (effect dat) ?js)"
    by blast
  let ?final = "entry_files dat es @ map (\<lambda>e. (be_NameWithPath e, None)) ed"
  have c1: "files c1 = after (files c) ?final"
    using jobs(2) diff_applied [OF dist sets o(6) assms(20), of "files c" dat] o(5) unfolding ch by auto
  have "\<forall>k \<in> fst ` set ?final. plain_name k" using new o(5) by (auto simp: entry_files_def)
  from rewrite_metadata_ok [OF assms(1-6,12) old c1 this names, of base] obtain info c2 c3 where
    md: "getConsumableStoreMetadataKeysInfo (lfs_Keys A c1) = Inr info"
      "delete_all A c1 (ki_descriptor info # ki_filelists info) = (c2, None)"
      "publish_again E cd P A (Some (mst, m)) base c2 b = Some (Inr (c3, None))"
      "files c3 = after (files c) (meta_files E cd epf b es @ ?final @ map (\<lambda>k. (k, None)) (map fst (meta_files E cd epf bo ed)))" by blast
  have again: "publish_again E cd P A (Some (mst, m)) base c2 ?b1 = publish_again E cd P A (Some (mst, m)) base c2 b"
    using assms(7,8) by (simp add: publish_again_def)
  have fs: "fs_New (pe_lruNew P) (bundle_fs (pe_opts P) ?b1) = Inr (f, leafPool)" using f by (simp add: bundle_fs_def)
  have "unpackDataFiles E cd P order A bst s (Some (mst, m)) base c ?b1 (Some ?b2) None = Some (Inr (c3, None))"
    using jobs(1) md(1-3) unfolding unpackDataFiles_def fs by (simp add: downloadBundleEntries_def again)
  then have "Update E cd P order A bst s (Some (mst, m)) base c br bd = Some (Inr (c3, None))"
    using src dest by (simp add: Update_def DownloadMetadata_def epf)
  moreover have "files c3 = after (files c) (updated_files E cd dat b es bo ed)"
    using md(4) by (simp add: updated_files_def epf comp_def)
  ultimately show ?thesis by blast
qed

end

text \<open>
  C2: an update turns the old bundle on the local file system into the new one. When the file system
  holds the files and the metadata of one bundle, and the buckets those of another, \<open>Update\<close> succeeds,
  whatever the orders of the concurrent downloads and of the maps: the files of the new bundle have its
  content, those that only the old one had are gone, the metadata is that of the new bundle, and all
  other files are as they were. The listing must show a metadata file of the old bundle before any
  other file. The descriptors are decoded over those that the two bundles in memory had, so the
  blob file system is the one of the resulting descriptor; the blobs are read without the legacy
  truncation of leaves (metadata version 1 or later).
\<close>

theorem Update_exact:
  assumes "bucket_api clm om" and "bucket_api clb ob" and "lru_cache (pe_LK P) kview" and "afero_api A files names"
    and "codec_ok cd" and "yaml_bundles E" and "epf = defaultBundleEntriesPerFile"
    and "bundle_stored E cd epf (gcs_content om gm m) b es" and "length (blocks epf es) < 2 ^ 63" and "good_id (bn_BundleID b)"
    and "bn_RepoID br = bn_RepoID b" and "bn_BundleID br = bn_BundleID b"
    and "fs_New (pe_lruNew P) (bundle_fs (pe_opts P) (br\<lparr>bn_Descriptor := decoded_over (bn_Descriptor br) (bn_Descriptor b)\<rparr>)) = Inr (f, leafPool)" and "\<not> fs_leafTruncation f"
    and "\<And>n. mset (pe_leaves P n) = mset [0..<n]" and "\<And>js. mset (pe_lists P js) = mset js" and "\<And>js. mset (order js) = mset js"
    and "\<And>ns. mset (pe_range P ns) = mset ns" and "kview (pe_noKeys P) = Map.empty"
    and "holds_bundle E cd epf (files c) names dat bo ed"
    and "lfs_Keys A c = Inr ks" and "find_bundleID ks = Inr (bn_BundleID bo)" and "bn_BundleID bd = ''''"
    and "distinct (map be_NameWithPath es)"
    and "\<forall>e \<in> set es. blob_stored (pe_H P) f (gcs_content ob gb s) dat e \<and> be_NameWithPath e \<in> names \<and> plain_name (be_NameWithPath e)
      \<and> (be_NameWithPath e \<notin> be_NameWithPath ` set ed \<longrightarrow> files c (be_NameWithPath e) = None)"
    and "\<forall>k \<in> fst ` set (meta_files E cd epf b es). k \<in> names"
  shows "\<exists>c'. Update E cd P order A (gcs_store clb gb) s (Some (gcs_store clm gm, m)) base c br bd = Some (Inr (c', None))
    \<and> files c' = after (files c) (updated_files E cd dat b es bo ed)"
proof -
  have "publisher (gcs_store clm gm) (gcs_content om gm) (gcs_store clb gb) (gcs_content ob gb) P kview A files names"
    by (intro publisher.intro keyed_store.intro gcs_is_store assms(1-4))
  from publisher.Update_ok [OF this assms(5-26)] show ?thesis .
qed

text \<open>An old bundle of one file, which the new one does not have.\<close>

definition old_bundle :: Bundle where
  "old_bundle = (with_count 1 tag_bundle)\<lparr>bn_BundleID := ''a''\<rparr>"

definition old_entry :: BundleEntry where
  "old_entry = tag_entry\<lparr>be_NameWithPath := ''g''\<rparr>"

definition old_files :: "(string \<times> bytes) list" where
  "old_files = [(list_path ''a'' 0, projr (cd_Marshal entries_codec [old_entry])),
     (desc_path ''a'', projr (cd_Marshal (en_bundle ser_env) (bn_Descriptor old_bundle))), (''g'', [7]), (''other'', [3])]"

lemma old_good_id: "good_id ''a''"
  by (auto simp: good_id_def dest: sublist_length_le)

lemma plain_names: "plain_name ''f''" "plain_name ''g''" "plain_name ''other''"
  by (simp_all add: plain_name_def GetConsumableStorePathMetadata_def metaRe_def)

lemma old_paths: "list_path ''a'' 0 = ''.datamon/a-bundle-files-0.yaml''" "desc_path ''a'' = ''.datamon/a.yaml''"
  by (simp_all add: list_path_def desc_path_def show_nat.simps digit_char_def char_of_def bit_0)

lemma old_meta: "meta_files ser_env entries_codec 1000 old_bundle [old_entry] =
    [(desc_path ''a'', Some (projr (cd_Marshal (en_bundle ser_env) (bn_Descriptor old_bundle)))),
     (list_path ''a'' 0, Some (projr (cd_Marshal entries_codec [old_entry])))]"
  by (simp add: meta_files_def list_files_def blocks_step old_bundle_def tag_bundle_def)

lemma old_held: "holds_bundle ser_env entries_codec 1000 (mem_files old_files) {k. k \<noteq> ''.''} (\<lambda>_. [7]) old_bundle [old_entry]"
proof -
  have "blocks 1000 [old_entry] = [[old_entry]]" by (simp add: blocks_step)
  then show ?thesis
    unfolding holds_bundle_def old_meta using old_good_id plain_names
    by (auto simp: old_files_def mem_files_def old_paths old_bundle_def tag_bundle_def old_entry_def entry_data_def split: if_splits)
qed

lemma old_keys: "lfs_Keys mem_fs old_files = Inr [list_path ''a'' 0, desc_path ''a'', ''g'', ''other'']"
  "find_bundleID [list_path ''a'' 0, desc_path ''a'', ''g'', ''other''] = Inr ''a''"
proof -
  show "lfs_Keys mem_fs old_files = Inr [list_path ''a'' 0, desc_path ''a'', ''g'', ''other'']"
    by (simp add: lfs_Keys_def mem_fs_def old_files_def old_paths)
  from metadata_of_paths(1) [OF old_good_id] metadata_of_paths(2) [OF old_good_id, of 0] show "find_bundleID [list_path ''a'' 0, desc_path ''a'', ''g'', ''other''] = Inr ''a''"
    by (auto simp: getBundleIDFromPath_def)
qed

theorem Update_exact_witness:
  "\<exists>c'. Update ser_env entries_codec tag_publish rev mem_fs (gcs_store steady_client plain_gcs) tag_bucket
      (Some (gcs_store steady_client plain_gcs, tag_meta)) some_bundle old_files tag_reader (tag_bundle\<lparr>bn_BundleID := ''''\<rparr>) = Some (Inr (c', None))
    \<and> mem_files c' ''f'' = Some [7] \<and> mem_files c' ''g'' = None \<and> mem_files c' ''other'' = Some [3]"
proof -
  from tag_new_fs obtain pool where
    fs: "fs_New (pe_lruNew tag_publish) (bundle_fs (pe_opts tag_publish) tag_read_back) = Inr (tag_fs, pool)" by blast
  have lru: "lru_cache (pe_LK tag_publish) map_of" by (simp add: tag_publish_def mru.lru_cache_axioms)
  have id: "good_id (bn_BundleID (with_count 1 tag_bundle))" using tag_good_id by (simp add: tag_bundle_def)
  have same: "bn_RepoID tag_reader = bn_RepoID (with_count 1 tag_bundle)" "bn_BundleID tag_reader = bn_BundleID (with_count 1 tag_bundle)"
    by (simp_all add: tag_reader_def)
  have one: "length (blocks defaultBundleEntriesPerFile [tag_entry]) < 2 ^ 63" by (simp add: blocks_step defaultBundleEntriesPerFile_def)
  have epf: "defaultBundleEntriesPerFile = 1000" by (simp add: defaultBundleEntriesPerFile_def)
  have entry: "be_NameWithPath tag_entry = ''f''" "be_NameWithPath old_entry = ''g''" "entry_data (\<lambda>_. [7]) tag_entry = [7]"
    by (simp_all add: tag_entry_def old_entry_def entry_data_def)
  have new: "\<forall>e \<in> set [tag_entry]. blob_stored (pe_H tag_publish) tag_fs (gcs_content map_of plain_gcs tag_bucket) (\<lambda>_. [7]) e
      \<and> be_NameWithPath e \<in> {k. k \<noteq> ''.''} \<and> plain_name (be_NameWithPath e)
      \<and> (be_NameWithPath e \<notin> be_NameWithPath ` set [old_entry] \<longrightarrow> mem_files old_files (be_NameWithPath e) = None)"
    using tag_blob plain_names by (simp add: tag_publish_def entry old_files_def mem_files_def old_paths)
  have meta: "\<forall>k \<in> fst ` set (meta_files ser_env entries_codec 1000 (with_count 1 tag_bundle) [tag_entry]). k \<in> {k. k \<noteq> ''.''}"
      "\<forall>k \<in> fst ` set (meta_files ser_env entries_codec 1000 (with_count 1 tag_bundle) [tag_entry]). k \<noteq> ''f'' \<and> k \<noteq> ''g'' \<and> k \<noteq> ''other''"
    by (auto simp: meta_files_names desc_path_def list_path_def)
  have dest: "find_bundleID [list_path ''a'' 0, desc_path ''a'', ''g'', ''other''] = Inr (bn_BundleID old_bundle)"
    using old_keys(2) by (simp add: old_bundle_def)
  note ok = Update_exact [OF steady.bucket_api_axioms steady.bucket_api_axioms lru mem.afero_api_axioms entries_codec_ok
      ser_env_bundles refl tag_meta_stored [folded epf] one id same fs _ _ _ _ _ _ old_held [folded epf] old_keys(1) dest _ _ new meta(1) [folded epf],
      where bd = "tag_bundle\<lparr>bn_BundleID := ''''\<rparr>" and order = rev and base = some_bundle]
  let ?new = "meta_files ser_env entries_codec 1000 (with_count 1 tag_bundle) [tag_entry]"
  let ?files = "updated_files ser_env entries_codec (\<lambda>_. [7]) (with_count 1 tag_bundle) [tag_entry] old_bundle [old_entry]"
  have "\<exists>c'. Update ser_env entries_codec tag_publish rev mem_fs (gcs_store steady_client plain_gcs) tag_bucket
      (Some (gcs_store steady_client plain_gcs, tag_meta)) some_bundle old_files tag_reader (tag_bundle\<lparr>bn_BundleID := ''''\<rparr>) = Some (Inr (c', None))
    \<and> mem_files c' = after (mem_files old_files) ?files"
    using ok by (simp add: tag_publish_def) (simp add: tag_fs_def)
  moreover
  let ?rest = "entry_files (\<lambda>_. [7]) [tag_entry] @ map (\<lambda>k. (k, None)) (map be_NameWithPath [old_entry] @ [desc_path ''a'', list_path ''a'' 0])"
  have "after m ?files k = after m ?rest k" if "k = ''f'' \<or> k = ''g'' \<or> k = ''other''" for m k
    using that meta(2) unfolding updated_files_def epf old_meta after_append by (subst after_other) auto
  moreover have "after (mem_files old_files) ?rest ''f'' = Some [7]" "after (mem_files old_files) ?rest ''g'' = None"
      "after (mem_files old_files) ?rest ''other'' = Some [3]"
    by (simp_all add: after_def entry_files_def entry old_paths old_files_def mem_files_def)
  ultimately show ?thesis by auto
qed

end
