(* ===== verification/Diamonds.thy ===== *)
theory Diamonds
  imports BundleUpload
begin

text \<open>
  Diamonds and splits: their descriptors on the versioned metadata store and the transitions between
  their states (\<open>pkg/core/diamond.go\<close>, \<open>diamond_ops.go\<close>, \<open>split.go\<close>, \<open>split_ops.go\<close>), the upload of a
  split, and cancelling a diamond. The commit is in \<open>DiamondCommit\<close>.
\<close>

section \<open>Data\<close>

record Diamond =
  dm_Bundle :: Bundle
  dm_Descriptor :: DiamondDescriptor

record Split =
  sp_Bundle :: Bundle
  sp_Descriptor :: SplitDescriptor
  sp_DiamondID :: string
  sp_mustExist :: bool

datatype diamond_err =
    DMeta meta_err
  | DBundle bundle_err
  | DIndex index_err
  | DiamondNotReady DiamondState
  | DiamondTerminated DiamondState
  | DiamondIDRequired
  | SplitAlreadyDone
  | SplitMustExist
  | InvalidSplitDescriptor
  | NoSplitToCommit
  | CannotUpdateDescriptor diamond_err
  | CannotProceed diamond_err

abbreviation dm_RepoID :: "Diamond \<Rightarrow> string" where "dm_RepoID d \<equiv> bn_RepoID (dm_Bundle d)"
abbreviation dm_ID :: "Diamond \<Rightarrow> string" where "dm_ID d \<equiv> dd_DiamondID (dm_Descriptor d)"
abbreviation sp_RepoID :: "Split \<Rightarrow> string" where "sp_RepoID s \<equiv> bn_RepoID (sp_Bundle s)"
abbreviation sp_ID :: "Split \<Rightarrow> string" where "sp_ID s \<equiv> sd_SplitID (sp_Descriptor s)"

section \<open>Descriptors of diamonds\<close>

text \<open>
  A diamond has one descriptor for its initial state and one for its terminal state, at two paths.
  Reading prefers the terminal one; writing never replaces a file.
\<close>

definition Diamond_downloadDescriptor ::
  "'v env \<Rightarrow> 'v Store \<Rightarrow> 'v \<Rightarrow> Diamond \<Rightarrow> (diamond_err, Diamond) res" where
  "Diamond_downloadDescriptor E st v d =
     (let decode = (\<lambda>buffer. case cd_Unmarshal (en_diamond E) buffer of
            Inl e \<Rightarrow> Inl (DMeta (YamlFail e)) | Inr desc \<Rightarrow> Inr (d\<lparr>dm_Descriptor := desc\<rparr>))
      in case readMetadata st v (GetArchivePathToFinalDiamond (dm_RepoID d) (dm_ID d)) of
           Inr buffer \<Rightarrow> decode buffer
         | Inl e \<Rightarrow>
             if e \<noteq> ErrNotExists then Inl (DMeta (StoreFail e))
             else (case readMetadata st v (GetArchivePathToInitialDiamond (dm_RepoID d) (dm_ID d)) of
                     Inl e' \<Rightarrow> Inl (DMeta (StoreFail e'))
                   | Inr buffer \<Rightarrow> decode buffer))"

definition Diamond_uploadDescriptor ::
  "'v env \<Rightarrow> 'v Store \<Rightarrow> 'v \<Rightarrow> Diamond \<Rightarrow> 'v \<times> diamond_err option" where
  "Diamond_uploadDescriptor E st v d =
     (case cd_Marshal (en_diamond E) (dm_Descriptor d) of
        Inl e \<Rightarrow> (v, Some (DMeta (YamlFail e)))
      | Inr buffer \<Rightarrow>
          (case writeMetadata st v (GetArchivePathToDiamond (dm_RepoID d) (dm_ID d) (dd_State (dm_Descriptor d))) NoOverWrite buffer of
             (v', e) \<Rightarrow> (v', map_option (DMeta \<circ> StoreFail) e)))"

text \<open>
  \<open>GetDiamond\<close> looks a diamond up by its identifier. The argument \<open>d\<close> is what \<open>NewDiamond\<close> makes for it,
  with the options of the caller.
\<close>

definition GetDiamond ::
  "'v env \<Rightarrow> ('m, 'v) Stores \<Rightarrow> 'm \<Rightarrow> 'v \<Rightarrow> Diamond \<Rightarrow> (diamond_err, DiamondDescriptor) res" where
  "GetDiamond E sx m v d =
     (case RepoExists (sx_Metadata sx) m (dm_RepoID d) of
        Some e \<Rightarrow> Inl (DMeta e)
      | None \<Rightarrow>
          (case Diamond_downloadDescriptor E (sx_VMetadata sx) v d of
             Inl e \<Rightarrow> Inl e
           | Inr d' \<Rightarrow> Inr (dm_Descriptor d')))"

definition diamondReady ::
  "'v env \<Rightarrow> ('m, 'v) Stores \<Rightarrow> 'm \<Rightarrow> 'v \<Rightarrow> Diamond \<Rightarrow> diamond_err option" where
  "diamondReady E sx m v d =
     (case GetDiamond E sx m v d of
        Inl e \<Rightarrow> Some e
      | Inr desc \<Rightarrow> if dd_State desc = DiamondInitialized then None else Some (DiamondNotReady (dd_State desc)))"

definition CreateDiamond ::
  "'v env \<Rightarrow> ('m, 'v) Stores \<Rightarrow> 'm \<Rightarrow> 'v \<Rightarrow> Diamond \<Rightarrow> 'v \<times> (diamond_err, DiamondDescriptor) res" where
  "CreateDiamond E sx m v d =
     (if dm_ID d = '''' then (v, Inl DiamondIDRequired)
      else case RepoExists (sx_Metadata sx) m (dm_RepoID d) of
          Some e \<Rightarrow> (v, Inl (DMeta e))
        | None \<Rightarrow>
            (case Diamond_uploadDescriptor E (sx_VMetadata sx) v d of
               (v', Some e) \<Rightarrow> (v', Inl (CannotUpdateDescriptor e))
             | (v', None) \<Rightarrow> (v', Inr (dm_Descriptor d))))"

text \<open>\<open>WithState\<close> stamps the time when a terminal state is reached.\<close>

definition Diamond_WithState :: "go_time \<Rightarrow> DiamondState \<Rightarrow> Diamond \<Rightarrow> Diamond" where
  "Diamond_WithState now state d =
     (if state = dd_State (dm_Descriptor d) then d
      else d\<lparr>dm_Descriptor := (dm_Descriptor d)\<lparr>dd_State := state,
          dd_EndTime := (if state = DiamondDone \<or> state = DiamondCanceled then now else dd_EndTime (dm_Descriptor d))\<rparr>\<rparr>)"

definition Cancel ::
  "'v env \<Rightarrow> 'v Store \<Rightarrow> go_time \<Rightarrow> 'v \<Rightarrow> Diamond \<Rightarrow> 'v \<times> Diamond \<times> diamond_err option" where
  "Cancel E st now v d =
     (case Diamond_downloadDescriptor E st v d of
        Inl e \<Rightarrow> (v, d, Some e)
      | Inr d1 \<Rightarrow>
          (case dd_State (dm_Descriptor d1) of
             DiamondCanceled \<Rightarrow> (v, d1, Some (DiamondTerminated DiamondCanceled))
           | DiamondDone \<Rightarrow> (v, d1, Some (DiamondTerminated DiamondDone))
           | _ \<Rightarrow>
               let d2 = Diamond_WithState now DiamondCanceled d1 in
               (case Diamond_uploadDescriptor E st v d2 of (v', e) \<Rightarrow> (v', d2, e))))"

section \<open>Descriptors of splits\<close>

definition Split_downloadDescriptor ::
  "'v env \<Rightarrow> 'v Store \<Rightarrow> 'v \<Rightarrow> Split \<Rightarrow> (diamond_err, Split) res" where
  "Split_downloadDescriptor E st v s =
     (let decode = (\<lambda>buffer. case cd_Unmarshal (en_split E) buffer of
            Inl e \<Rightarrow> Inl (DMeta (YamlFail e)) | Inr desc \<Rightarrow> Inr (s\<lparr>sp_Descriptor := desc\<rparr>))
      in case readMetadata st v (GetArchivePathToFinalSplit (sp_RepoID s) (sp_DiamondID s) (sp_ID s)) of
           Inr buffer \<Rightarrow> decode buffer
         | Inl e \<Rightarrow>
             if e \<noteq> ErrNotExists then Inl (DMeta (StoreFail e))
             else (case readMetadata st v (GetArchivePathToInitialSplit (sp_RepoID s) (sp_DiamondID s) (sp_ID s)) of
                     Inl e' \<Rightarrow> Inl (DMeta (StoreFail e'))
                   | Inr buffer \<Rightarrow> decode buffer))"

text \<open>The count of index files is taken from the bundle that the split embeds.\<close>

definition Split_uploadDescriptor ::
  "'v env \<Rightarrow> 'v Store \<Rightarrow> 'v \<Rightarrow> Split \<Rightarrow> 'v \<times> Split \<times> diamond_err option" where
  "Split_uploadDescriptor E st v s =
     (let s1 = s\<lparr>sp_Descriptor := (sp_Descriptor s)\<lparr>sd_SplitEntriesFileCount :=
            bd_BundleEntriesFileCount (bn_Descriptor (sp_Bundle s))\<rparr>\<rparr>
      in case cd_Marshal (en_split E) (sp_Descriptor s1) of
           Inl e \<Rightarrow> (v, s1, Some (DMeta (YamlFail e)))
         | Inr buffer \<Rightarrow>
             (case writeMetadata st v
                 (GetArchivePathToSplit (sp_RepoID s1) (sp_DiamondID s1) (sp_ID s1) (sd_State (sp_Descriptor s1))) NoOverWrite buffer of
                (v', e) \<Rightarrow> (v', s1, map_option (DMeta \<circ> StoreFail) e)))"

definition GetSplit :: "'v env \<Rightarrow> 'v Store \<Rightarrow> 'v \<Rightarrow> Split \<Rightarrow> (diamond_err, SplitDescriptor) res" where
  "GetSplit E st v s = (case Split_downloadDescriptor E st v s of Inl e \<Rightarrow> Inl e | Inr s' \<Rightarrow> Inr (sp_Descriptor s'))"

definition Split_WithState :: "go_time \<Rightarrow> SplitState \<Rightarrow> Split \<Rightarrow> Split" where
  "Split_WithState now state s =
     (if state = sd_State (sp_Descriptor s) \<and> state \<noteq> SplitRunning then s
      else s\<lparr>sp_Descriptor := (case state of
            SplitRunning \<Rightarrow> (sp_Descriptor s)\<lparr>sd_State := state, sd_StartTime := now, sd_EndTime := 0\<rparr>
          | SplitDone \<Rightarrow> (sp_Descriptor s)\<lparr>sd_State := state, sd_EndTime := now\<rparr>
          | _ \<Rightarrow> (sp_Descriptor s)\<lparr>sd_State := state\<rparr>)\<rparr>)"

text \<open>
  \<open>CreateSplit\<close>: \<open>d\<close> is the diamond looked up by its identifier, \<open>s\<close> the split that the options describe.
  A split that exists and is not done is handed back as it is.
\<close>

definition CreateSplit ::
  "'v env \<Rightarrow> ('m, 'v) Stores \<Rightarrow> 'm \<Rightarrow> 'v \<Rightarrow> Diamond \<Rightarrow> Split \<Rightarrow> 'v \<times> (diamond_err, SplitDescriptor) res" where
  "CreateSplit E sx m v d s =
     (if sp_DiamondID s = '''' then (v, Inl DiamondIDRequired)
      else case RepoExists (sx_Metadata sx) m (sp_RepoID s) of
          Some e \<Rightarrow> (v, Inl (DMeta e))
        | None \<Rightarrow>
            (case diamondReady E sx m v d of
               Some e \<Rightarrow> (v, Inl (CannotProceed e))
             | None \<Rightarrow>
                 (case Split_downloadDescriptor E (sx_VMetadata sx) v s of
                    Inr s1 \<Rightarrow>
                      if sd_State (sp_Descriptor s1) = SplitDone then (v, Inl SplitAlreadyDone)
                      else (v, Inr (sp_Descriptor s1))
                  | Inl e \<Rightarrow>
                      if e \<noteq> DMeta (StoreFail ErrNotExists) \<and> e \<noteq> DMeta (StoreFail ErrNotFound) then (v, Inl e)
                      else if sp_mustExist s then (v, Inl SplitMustExist)
                      else
                        (case Split_uploadDescriptor E (sx_VMetadata sx) v s of
                           (v', s1, Some e') \<Rightarrow> (v', Inl (CannotUpdateDescriptor e'))
                         | (v', s1, None) \<Rightarrow> (v', Inr (sp_Descriptor s1))))))"

section \<open>Uploading a split\<close>

text \<open>
  What reaches \<open>pack\<close> from the uploads of files; \<open>clock i\<close> is the time at which it takes the i-th of them.
\<close>

fun pack_events :: "(nat \<Rightarrow> go_time) \<Rightarrow> nat \<Rightarrow> bundle_event list \<Rightarrow> pack_event list" where
  "pack_events clock i [] = [DoneOk]"
| "pack_events clock i (FilePacked p # es) = Packed p (clock i) # pack_events clock (i + 1) es"
| "pack_events clock i (FileError e # es) = HitError ''failed to upload file'' # pack_events clock i es"

text \<open>
  \<open>Split.implUpload\<close>: each attempt writes its index files under a new generation identifier, and the
  split is done when its terminal descriptor is written. \<open>clock\<close> is the clock of \<open>pack\<close>, \<open>now\<close> the time
  of the end, \<open>generation\<close> the fresh identifier.
\<close>

definition Split_implUpload ::
  "'v env \<Rightarrow> 'k upload_env \<Rightarrow> (int \<Rightarrow> string option) \<Rightarrow> 'v Store \<Rightarrow> BundleEntry list codec \<Rightarrow> nat \<Rightarrow> 'b Store \<Rightarrow> 'c Store \<Rightarrow>
   defaultFs \<Rightarrow> (nat \<Rightarrow> go_time) \<Rightarrow> go_time \<Rightarrow> string \<Rightarrow> 'v \<Rightarrow> 'b \<Rightarrow> 'c \<Rightarrow> 'k \<Rightarrow> Split \<Rightarrow> (store_err, string list) res \<Rightarrow>
   (panic, 'v \<times> 'b \<times> Split \<times> diamond_err option) res option" where
  "Split_implUpload E U lruNew vst cd epf bst cst opts clock now generation v s c kc sp getKeys =
     (if sp_ID sp = '''' \<or> sp_DiamondID sp = '''' then Some (Inr (v, s, sp, Some InvalidSplitDescriptor))
      else if sd_State (sp_Descriptor sp) = SplitDone then Some (Inr (v, s, sp, Some SplitAlreadyDone))
      else
        let sp1 = sp\<lparr>sp_Descriptor := (sp_Descriptor sp)\<lparr>sd_GenerationID := generation\<rparr>\<rparr> in
        (case fs_New lruNew (bundle_fs opts (sp_Bundle sp1)) of
           Inl e \<Rightarrow> Some (Inr (v, s, sp1, Some (DBundle (BCafs e))))
         | Inr (f, leafPool) \<Rightarrow>
             (case getKeys of
                Inl e \<Rightarrow> Some (Inr (v, s, sp1, Some (DMeta (StoreFail e))))
              | Inr files \<Rightarrow>
                  (case uploadBundleFiles U cst c bst f s kc (sp_Bundle sp1) files of
                     None \<Rightarrow> None
                   | Some (Inl p) \<Rightarrow> Some (Inl p)
                   | Some (Inr (s', es)) \<Rightarrow>
                       (case pack vst cd epf (uploadSplitIterator (sp_RepoID sp1) (sp_DiamondID sp1) (sp_Descriptor sp1)) v
                           (pack_events clock 0 es) of
                          (v', n, Some e) \<Rightarrow> Some (Inr (v', s', sp1, Some (DIndex e)))
                        | (v', n, None) \<Rightarrow>
                            let sp2 = Split_WithState now SplitDone (sp1\<lparr>sp_Bundle := (sp_Bundle sp1)\<lparr>bn_Descriptor :=
                                  (bn_Descriptor (sp_Bundle sp1))\<lparr>bd_BundleEntriesFileCount := n\<rparr>\<rparr>\<rparr>)
                            in (case Split_uploadDescriptor E vst v' sp2 of
                                  (v'', sp3, e) \<Rightarrow> Some (Inr (v'', s', sp3, e))))))))"

section \<open>The life of a diamond\<close>

text \<open>
  Many clients work on a diamond at the same time, on different machines; all they share is the store.
  Every write of theirs to it is a step: the descriptors that creations, cancellations and commits
  upload, those of splits, index files, and labels.
\<close>

inductive vmeta_step :: "'v env \<Rightarrow> BundleEntry list codec \<Rightarrow> ('m, 'v) Stores \<Rightarrow> 'v \<Rightarrow> 'v \<Rightarrow> bool"
  for E :: "'v env" and cd :: "BundleEntry list codec" and sx :: "('m, 'v) Stores" where
  diamond_upload: "Diamond_uploadDescriptor E (sx_VMetadata sx) v d = (v', e) \<Longrightarrow> vmeta_step E cd sx v v'"
| split_upload: "Split_uploadDescriptor E (sx_VMetadata sx) v s = (v', s', e) \<Longrightarrow> vmeta_step E cd sx v v'"
| index_upload: "uploadIndex (sx_VMetadata sx) cd v es (uploadSplitIterator repo did sd n) = (v', e) \<Longrightarrow> vmeta_step E cd sx v v'"
| label_upload: "UploadDescriptor E sx m v repo bundleID label = (v', e) \<Longrightarrow> vmeta_step E cd sx v v'"

lemma label_not_diamond: "GetArchivePathToLabel r n \<noteq> ''diamonds/'' @ x"
  by (simp add: GetArchivePathToLabel_def GetArchivePathPrefixToLabels_def)

lemma diamond_paths:
  "GetArchivePathToDiamond r i s = (if s = DiamondInitialized then GetArchivePathToInitialDiamond r i else GetArchivePathToFinalDiamond r i)"
  "GetArchivePathToInitialDiamond r i \<noteq> GetArchivePathToFinalDiamond r i"
  by (auto simp: GetArchivePathToDiamond_def GetArchivePathToInitialDiamond_def GetArchivePathToFinalDiamond_def file_names
      split: DiamondState.split)


context object_store
begin

text \<open>An exclusive write leaves every object as it is.\<close>

lemma exclusive_keeps:
  "content s k = Some b \<Longrightarrow> writeMetadata st s k' NoOverWrite buf = (s', e) \<Longrightarrow> content s' k = Some b"
  using exclusive_keeps_existing [of s k b k' buf] by (simp add: writeMetadata_def)

lemma Diamond_upload_keeps:
  "content v k = Some b \<Longrightarrow> Diamond_uploadDescriptor E st v d = (v', e) \<Longrightarrow> content v' k = Some b"
  by (auto simp: Diamond_uploadDescriptor_def split: sum.splits prod.splits intro: exclusive_keeps)

lemma Split_upload_keeps:
  "content v k = Some b \<Longrightarrow> Split_uploadDescriptor E st v s = (v', s', e) \<Longrightarrow> content v' k = Some b"
  by (auto simp: Split_uploadDescriptor_def Let_def split: sum.splits prod.splits intro: exclusive_keeps)

lemma uploadIndex_keeps:
  "content v k = Some b \<Longrightarrow> uploadIndex st cd v es pth = (v', e) \<Longrightarrow> content v' k = Some b"
  by (auto simp: uploadIndex_def split: sum.splits prod.splits intro: exclusive_keeps)

lemma Label_upload_keeps:
  assumes "sx_VMetadata sx = st" and "content v k = Some b" and "\<And>r n. k \<noteq> GetArchivePathToLabel r n"
    and "UploadDescriptor E sx m v repo bundleID label = (v', e)"
  shows "content v' k = Some b"
proof -
  have "content v' k = Some b" if "put_crc st v (GetArchivePathToLabel r n) buf OverWrite = (v', x)" for r n buf x
    using that overwrite [of v "GetArchivePathToLabel r n" buf] assms(2) assms(3) [of r n] by auto
  with assms(1,2,4) show ?thesis
    by (auto simp: UploadDescriptor_def split: option.splits sum.splits prod.splits)
qed

lemma vmeta_step_keeps:
  assumes "sx_VMetadata sx = st" and "vmeta_step E cd sx v v'" and "content v k = Some b"
    and "\<And>r n. k \<noteq> GetArchivePathToLabel r n"
  shows "content v' k = Some b"
  using assms(2)
proof cases
  case (label_upload m repo bundleID label e)
  then show ?thesis by (rule Label_upload_keeps [OF assms(1,3,4)])
qed (use assms(1,3) in \<open>auto intro: Diamond_upload_keeps Split_upload_keeps uploadIndex_keeps\<close>)

lemma vmeta_steps_keep:
  assumes "sx_VMetadata sx = st" and "(vmeta_step E cd sx)\<^sup>*\<^sup>* v v'" and "content v k = Some b"
    and "\<And>r n. k \<noteq> GetArchivePathToLabel r n"
  shows "content v' k = Some b"
  using assms(2)
proof induction
  case (step v1 v2)
  show ?case by (rule vmeta_step_keeps [OF assms(1) step.hyps(2) step.IH assms(4)])
qed (rule assms(3))

lemma Diamond_upload_new:
  assumes "codec_ok (en_diamond E)" and "content v (GetArchivePathToDiamond (dm_RepoID d) (dm_ID d) (dd_State (dm_Descriptor d))) = None"
  shows "\<exists>v' buf. Diamond_uploadDescriptor E st v d = (v', None) \<and> cd_Unmarshal (en_diamond E) buf = Inr (dm_Descriptor d)
    \<and> content v' = (content v)(GetArchivePathToDiamond (dm_RepoID d) (dm_ID d) (dd_State (dm_Descriptor d)) \<mapsto> buf)"
proof -
  let ?p = "GetArchivePathToDiamond (dm_RepoID d) (dm_ID d) (dd_State (dm_Descriptor d))"
  from codec_okD [OF assms(1)] obtain buf where
    "cd_Marshal (en_diamond E) (dm_Descriptor d) = Inr buf" "cd_Unmarshal (en_diamond E) buf = Inr (dm_Descriptor d)" by blast
  then show ?thesis
    by (rule_tac put_cases [of NoOverWrite v ?p buf])
      (use assms(2) in \<open>auto simp: Diamond_uploadDescriptor_def writeMetadata_def\<close>)
qed

lemma Diamond_upload_exists:
  assumes "content v (GetArchivePathToDiamond (dm_RepoID d) (dm_ID d) (dd_State (dm_Descriptor d))) \<noteq> None"
  shows "\<exists>v' e. Diamond_uploadDescriptor E st v d = (v', Some e) \<and> content v' = content v"
proof (cases "cd_Marshal (en_diamond E) (dm_Descriptor d)")
  case (Inr buf)
  then show ?thesis
    by (rule_tac put_cases [of NoOverWrite v "GetArchivePathToDiamond (dm_RepoID d) (dm_ID d) (dd_State (dm_Descriptor d))" buf])
      (use assms in \<open>auto simp: Diamond_uploadDescriptor_def writeMetadata_def NoOverWrite_def\<close>)
qed (simp add: Diamond_uploadDescriptor_def)

lemma Diamond_read_final:
  assumes "content v (GetArchivePathToFinalDiamond (dm_RepoID d) (dm_ID d)) = Some buf" and "cd_Unmarshal (en_diamond E) buf = Inr desc"
  shows "Diamond_downloadDescriptor E st v d = Inr (d\<lparr>dm_Descriptor := desc\<rparr>)"
  using assms by (simp add: Diamond_downloadDescriptor_def readMetadata_def get)

lemma Diamond_read_initial:
  assumes "content v (GetArchivePathToFinalDiamond (dm_RepoID d) (dm_ID d)) = None"
    and "content v (GetArchivePathToInitialDiamond (dm_RepoID d) (dm_ID d)) = Some buf" and "cd_Unmarshal (en_diamond E) buf = Inr desc"
  shows "Diamond_downloadDescriptor E st v d = Inr (d\<lparr>dm_Descriptor := desc\<rparr>)"
  using assms by (simp add: Diamond_downloadDescriptor_def readMetadata_def get)

end


context object_store
begin

text \<open>A terminal descriptor stays what it is, and no other one can be written.\<close>

lemma terminal_stays:
  assumes "sx_VMetadata sx = st" and "codec_ok (en_diamond E)" and "Diamond_uploadDescriptor E st v d = (v1, None)"
    and "dd_State (dm_Descriptor d) \<noteq> DiamondInitialized" and "(vmeta_step E cd sx)\<^sup>*\<^sup>* v1 v2"
    and "dm_RepoID d' = dm_RepoID d" and "dm_ID d' = dm_ID d"
  shows "Diamond_downloadDescriptor E st v2 d' = Inr (d'\<lparr>dm_Descriptor := dm_Descriptor d\<rparr>)
    \<and> (dd_State (dm_Descriptor d') \<noteq> DiamondInitialized \<longrightarrow>
        (\<exists>v3 e. Diamond_uploadDescriptor E st v2 d' = (v3, Some e) \<and> content v3 = content v2))"
proof -
  let ?p = "GetArchivePathToFinalDiamond (dm_RepoID d) (dm_ID d)"
  have p: "GetArchivePathToDiamond (dm_RepoID d) (dm_ID d) (dd_State x) = ?p" if "dd_State x \<noteq> DiamondInitialized" for x
    using that by (simp add: diamond_paths)
  from Diamond_upload_exists [of v d E] assms(3)
  have "content v ?p = None" by (cases "content v ?p") (auto simp: p [OF assms(4)])
  from Diamond_upload_new [OF assms(2), of v d] this assms(3)
  obtain buf where buf: "cd_Unmarshal (en_diamond E) buf = Inr (dm_Descriptor d)" "content v1 ?p = Some buf"
    by (auto simp: p [OF assms(4)])
  have "?p \<noteq> GetArchivePathToLabel r n" for r n
    unfolding GetArchivePathToFinalDiamond_def by (rule label_not_diamond [symmetric])
  with vmeta_steps_keep [OF assms(1,5) buf(2)] have v2: "content v2 ?p = Some buf" by blast
  then have "Diamond_downloadDescriptor E st v2 d' = Inr (d'\<lparr>dm_Descriptor := dm_Descriptor d\<rparr>)"
    using Diamond_read_final [OF _ buf(1), of v2 d'] by (simp add: assms(6,7))
  moreover have "\<exists>v3 e. Diamond_uploadDescriptor E st v2 d' = (v3, Some e) \<and> content v3 = content v2"
    if "dd_State (dm_Descriptor d') \<noteq> DiamondInitialized"
    using Diamond_upload_exists [of v2 d' E] v2 p [OF that] by (simp add: assms(6,7))
  ultimately show ?thesis by blast
qed

lemma Cancel_uploads:
  assumes "Cancel E st now v d = (v', d', None)"
  shows "Diamond_uploadDescriptor E st v d' = (v', None) \<and> dd_State (dm_Descriptor d') = DiamondCanceled \<and> dm_Bundle d' = dm_Bundle d"
proof -
  from assms obtain d1 where d1: "Diamond_downloadDescriptor E st v d = Inr d1" "d' = Diamond_WithState now DiamondCanceled d1"
      "Diamond_uploadDescriptor E st v d' = (v', None)"
    by (auto simp: Cancel_def Let_def split: sum.splits DiamondState.splits prod.splits)
  from d1(1) have "dm_Bundle d1 = dm_Bundle d"
    by (auto simp: Diamond_downloadDescriptor_def Let_def split: sum.splits if_splits)
  with d1(2,3) show ?thesis by (simp add: Diamond_WithState_def)
qed

end

text \<open>
  C26: a diamond terminates once. After a terminal descriptor, of a commit or of a cancellation, has been
  written, whatever the clients of the store write after it, the diamond reads back as exactly this
  descriptor, and every later attempt to terminate it, with whatever outcome, fails and changes nothing.
\<close>

theorem diamond_terminates_once:
  assumes "bucket_api cl objects" and "sx_VMetadata sx = gcs_store cl g" and "codec_ok (en_diamond E)"
    and "Diamond_uploadDescriptor E (sx_VMetadata sx) v d = (v1, None)" and "dd_State (dm_Descriptor d) \<noteq> DiamondInitialized"
    and "(vmeta_step E cd sx)\<^sup>*\<^sup>* v1 v2" and "dm_RepoID d' = dm_RepoID d" and "dm_ID d' = dm_ID d"
  shows "Diamond_downloadDescriptor E (sx_VMetadata sx) v2 d' = Inr (d'\<lparr>dm_Descriptor := dm_Descriptor d\<rparr>)
    \<and> (dd_State (dm_Descriptor d') \<noteq> DiamondInitialized \<longrightarrow>
        (\<exists>v3 e. Diamond_uploadDescriptor E (sx_VMetadata sx) v2 d' = (v3, Some e)
          \<and> gcs_content objects g v3 = gcs_content objects g v2))"
proof -
  have st: "object_store (sx_VMetadata sx) (gcs_content objects g)" using gcs_is_store [OF assms(1), of g] by (simp add: assms(2))
  from object_store.terminal_stays [OF st refl assms(3-8)] show ?thesis by blast
qed

definition tag_diamond :: Diamond where
  "tag_diamond = \<lparr>dm_Bundle = tag_bundle\<lparr>bn_BundleID := ''''\<rparr>, dm_Descriptor = NewDiamondDescriptor ''d'' 1\<rparr>"

definition tag_stores :: "((string \<times> bytes) list, (string \<times> bytes) list) Stores" where
  "tag_stores = \<lparr>sx_Metadata = gcs_store steady_client plain_gcs, sx_VMetadata = gcs_store steady_client plain_gcs\<rparr>"

text \<open>Facts that evaluate a bucket kept as a list.\<close>

lemma codec_projr: "codec_ok cd \<Longrightarrow> cd_Marshal cd x = Inr (projr (cd_Marshal cd x)) \<and> cd_Unmarshal cd (projr (cd_Marshal cd x)) = Inr x"
  using codec_okD [of cd x] by force

lemmas bucket_eval = gcs_store_def gcs_KeysPrefix_def gcs_Has_def gcs_Get_def steady_client_def mem_NextPage_def page_item_def mem_Attrs_def mem_Read_def
  steady_def getFullObjectName_def getRelObjectName_def tag_stores_def

text \<open>An environment as \<open>ser_env\<close>, for buckets kept as lists.\<close>

definition list_env :: "(string \<times> bytes) list env" where
  "list_env = \<lparr>en_ksuid = (\<lambda>_. True), en_sched = rev, en_repo = ser_codec repo_ser, en_bundle = ser_codec bundle_ser,
     en_bundle_over = (\<lambda>base b. map_sum id (decoded_over base) (cd_Unmarshal (ser_codec bundle_ser) b)), en_label = ser_codec label_ser,
     en_label_over = (\<lambda>_. cd_Unmarshal (ser_codec label_ser)), en_diamond = ser_codec diamond_ser,
     en_split = ser_codec split_ser, en_versioned = None\<rparr>"

lemma list_env_codecs: "codec_ok (en_diamond list_env)" "codec_ok (en_split list_env)" "yaml_bundles list_env"
  by (simp add: list_env_def ser_codec_ok diamond_ser_ok)
    (simp add: list_env_def ser_codec_ok split_ser_ok, rule yaml_bundles_of_codec, simp_all add: list_env_def ser_codec_ok bundle_ser_ok)

theorem diamond_terminates_once_witness:
  "\<exists>v1 v2 e. Diamond_uploadDescriptor list_env (sx_VMetadata tag_stores) [] (Diamond_WithState 2 DiamondCanceled tag_diamond) = (v1, None)
    \<and> Diamond_uploadDescriptor list_env (sx_VMetadata tag_stores) v1 (Diamond_WithState 3 DiamondDone tag_diamond) = (v2, Some e)"
proof -
  let ?c = "Diamond_WithState 2 DiamondCanceled tag_diamond" and ?d = "Diamond_WithState 3 DiamondDone tag_diamond"
  have st: "sx_VMetadata tag_stores = gcs_store steady_client plain_gcs" by (simp add: tag_stores_def)
  have states: "dd_State (dm_Descriptor ?c) = DiamondCanceled" "dd_State (dm_Descriptor ?d) = DiamondDone"
      "dm_RepoID ?d = dm_RepoID ?c" "dm_ID ?d = dm_ID ?c"
    by (simp_all add: Diamond_WithState_def tag_diamond_def NewDiamondDescriptor_def)
  obtain v1 where v1: "Diamond_uploadDescriptor list_env (sx_VMetadata tag_stores) [] ?c = (v1, None)"
    using object_store.Diamond_upload_new [OF gcs_is_store [OF steady.bucket_api_axioms] list_env_codecs(1), of plain_gcs "[]" ?c]
    by (auto simp: st gcs_content_def)
  from diamond_terminates_once [OF steady.bucket_api_axioms st list_env_codecs(1) v1 _ rtranclp.rtrancl_refl, of ?d] states v1
  show ?thesis by auto
qed

end
