(* ===== verification/DiamondCommit.thy ===== *)
theory DiamondCommit
  imports Diamonds
begin

text \<open>
  Committing a diamond: \<open>implCommit\<close> of \<open>pkg/core/diamond_commit.go\<close>. The index files of all splits that
  are done are read in parallel and merged, the merged list becomes the index files of a new bundle,
  then the bundle's descriptor is written and last the terminal descriptor of the diamond.
\<close>

section \<open>The merger and the uploader\<close>

text \<open>
  What is not the commit's own: the radix tree, the order in which index files arrive, how many
  merged files the uploader takes before an error, how many entries the merger handles before it sees
  that the download failed, the clock, the identifier of the new bundle, and the build flag that lets
  callers choose it.
\<close>

record 't commit_env =
  ce_R :: "'t radix"
  ce_order :: "(string \<times> string \<times> nat) list \<Rightarrow> (string \<times> string \<times> nat) list"
  ce_early :: nat
  ce_seen :: nat
  ce_clock :: "nat \<Rightarrow> go_time"
  ce_end :: go_time
  ce_newID :: string
  ce_preserve :: bool

definition bufferingFactor :: nat where "bufferingFactor = 100"

definition split_files :: "(string \<times> nat \<times> BundleEntry list) list \<Rightarrow> (string \<times> BundleEntry) list" where
  "split_files lss = concat (map (\<lambda>(ident, k, es). map (Pair ident) es) lss)"

text \<open>The lists that are left in the channel when a merge stops before the end.\<close>

fun lists_left :: "'t radix \<Rightarrow> ConflictMode \<Rightarrow> 't \<Rightarrow> nat \<Rightarrow> (string \<times> nat \<times> BundleEntry list) list \<Rightarrow> nat" where
  "lists_left R mode t n [] = 0"
| "lists_left R mode t n (l # ls) =
     (case merge_loop R mode t n (split_files [l]) of
        Merging t' n' \<Rightarrow> lists_left R mode t' n' ls
      | _ \<Rightarrow> length ls)"

text \<open>
  The outcome of \<open>mergeSplits\<close>: the files it sends, the number of conflicts, the error it reports, and
  whether it can end only if nobody else reports an error. The channel of index files holds
  \<open>100 * 1000\<close> lists: when the merger stops at a forbidden conflict, a longer rest keeps the download, and
  with it the commit, from ever returning. After a failed download the merger stops at the interrupt or
  reaches the end; a conflict it meets before that is a second error, for which there is no receiver.
\<close>

record merged =
  mg_files :: "filePacked list"
  mg_conflicts :: nat
  mg_error :: "string option"
  mg_stuck :: bool

definition mergeSplits ::
  "'t commit_env \<Rightarrow> 'v Store \<Rightarrow> BundleEntry list codec \<Rightarrow> 'v \<Rightarrow> ConflictMode \<Rightarrow> index_source list \<Rightarrow> (panic, merged) res" where
  "mergeSplits C st cd v mode srcs =
     (case unpack st cd v (ce_order C (download_jobs srcs)) of
        (lss, None) \<Rightarrow>
          (case merge_splits (ce_R C) mode (split_files lss) of
             MergePanic p \<Rightarrow> Inl p
           | CommitGivenUp p \<Rightarrow> Inr \<lparr>mg_files = [], mg_conflicts = 0, mg_error = Some ''commit given up'',
               mg_stuck = bufferingFactor * defaultBundleEntriesPerFile < lists_left (ce_R C) mode (rx_New (ce_R C)) 0 lss\<rparr>
           | Merging t n \<Rightarrow> Inr \<lparr>mg_files = merged_output (ce_R C) t, mg_conflicts = n, mg_error = None, mg_stuck = False\<rparr>)
      | (lss, Some e) \<Rightarrow>
          (case merge_splits (ce_R C) mode (take (ce_seen C) (split_files lss)) of
             MergePanic p \<Rightarrow> Inl p
           | CommitGivenUp p \<Rightarrow> Inr \<lparr>mg_files = [], mg_conflicts = 0, mg_error = Some ''commit given up'', mg_stuck = True\<rparr>
           | Merging t n \<Rightarrow> Inr \<lparr>mg_files = (if ce_seen C < length (split_files lss) then [] else merged_output (ce_R C) t),
               mg_conflicts = n, mg_error = Some ''failed downloading list files'', mg_stuck = False\<rparr>))"

text \<open>
  The uploader packs what the merger sends. When it fails it leaves, and the merger, which \<open>implCommit\<close>
  waits for, ends only if the files that were not taken fit in the channel and it has no error to report.
\<close>

definition commit_events :: "'t commit_env \<Rightarrow> merged \<Rightarrow> pack_event list" where
  "commit_events C M =
     (let packed = map (\<lambda>(i, p). Packed p (ce_clock C i)) (enumerate 0 (mg_files M)) in
      case mg_error M of None \<Rightarrow> packed | Some e \<Rightarrow> take (ce_early C) packed @ [HitError e])"

definition commit_files ::
  "'t commit_env \<Rightarrow> 'm Store \<Rightarrow> BundleEntry list codec \<Rightarrow> nat \<Rightarrow> (64 word \<Rightarrow> string) \<Rightarrow> 'm \<Rightarrow> merged \<Rightarrow>
   ('m \<times> nat \<times> index_err option) option" where
  "commit_files C st cd epf nextPath m M =
     (case pack st cd epf nextPath m (commit_events C M) of
        (m', n, None) \<Rightarrow> Some (m', n, None)
      | (m', n, Some e) \<Rightarrow>
          let sent = (case mg_error M of None \<Rightarrow> length (mg_files M) | Some _ \<Rightarrow> min (ce_early C) (length (mg_files M)));
              taken = min sent ((n + 1) * epf)
          in if mg_stuck M \<or> mg_error M \<noteq> None \<and> Some e \<noteq> map_option UploadErr (mg_error M)
                \<or> taken + bufferingFactor * epf < length (mg_files M)
             then None else Some (m', n, Some e))"

section \<open>The commit\<close>

definition collectSplits ::
  "'v env \<Rightarrow> ('m, 'v) Stores \<Rightarrow> 'm \<Rightarrow> 'v \<Rightarrow> Settings \<Rightarrow> Diamond \<Rightarrow> (diamond_err, SplitDescriptor list) res option" where
  "collectSplits E sx m v settings d =
     map_option (\<lambda>(splits, e). case e of None \<Rightarrow> Inr splits | Some x \<Rightarrow> Inl (DMeta x))
       (ListSplitsApply E sx m v (dm_RepoID d) (dm_ID d) settings None
         (\<lambda>sd splits. (if sd_State sd = SplitDone then splits @ [sd] else splits, None)) [])"

definition checkBundleID ::
  "'v env \<Rightarrow> 't commit_env \<Rightarrow> 'm Store \<Rightarrow> 'm \<Rightarrow> Diamond \<Rightarrow> (diamond_err, Diamond) res" where
  "checkBundleID E C st m d =
     (if \<not> ce_preserve C \<or> bn_BundleID (dm_Bundle d) = '''' then Inr d
      else if \<not> en_ksuid E (bn_BundleID (dm_Bundle d)) then Inl (DBundle InvalidKsuid)
      else
        let d1 = d\<lparr>dm_Bundle := setBundleID (bn_BundleID (dm_Bundle d)) (dm_Bundle d)\<rparr> in
        (case Bundle_Exists st m (dm_Bundle d1) of
           Inl e \<Rightarrow> Inl (DBundle (BStore e))
         | Inr exists \<Rightarrow> if exists then Inl (DBundle (BundleIDExists (bn_BundleID (dm_Bundle d)))) else Inr d1))"

text \<open>
  The body of \<open>implCommit\<close> up to the point where the bundle is available. Its result is the metadata store
  and the diamond, with its splits, flags and the identifier of the bundle.
\<close>

definition commit_bundle ::
  "'v env \<Rightarrow> BundleEntry list codec \<Rightarrow> 't commit_env \<Rightarrow> nat \<Rightarrow> ('m, 'v) Stores \<Rightarrow> Settings \<Rightarrow> 'm \<Rightarrow> 'v \<Rightarrow> Diamond \<Rightarrow>
   (panic, 'm \<times> Diamond \<times> diamond_err option) res option" where
  "commit_bundle E cd C epf sx settings m v d =
     (case collectSplits E sx m v settings d of
        None \<Rightarrow> None
      | Some (Inl e) \<Rightarrow> Some (Inr (m, d, Some e))
      | Some (Inr splits) \<Rightarrow>
          if splits = [] then Some (Inr (m, d, Some NoSplitToCommit))
          else
            let b = dm_Bundle d;
                b1 = b\<lparr>bn_Descriptor := (bn_Descriptor b)\<lparr>bd_Contributors := concat (map sd_Contributors splits)\<rparr>\<rparr>;
                b2 = (if bn_BundleID b1 = '''' then setBundleID (ce_newID C) b1 else b1);
                d1 = d\<lparr>dm_Bundle := b2, dm_Descriptor := (dm_Descriptor d)\<lparr>dd_Splits := splits\<rparr>\<rparr>;
                mode = dd_Mode (dm_Descriptor d)
            in (case mergeSplits C (sx_VMetadata sx) cd v mode (downloadAllSplitsIterator (dm_RepoID d) (dm_ID d) splits) of
                  Inl p \<Rightarrow> Some (Inl p)
                | Inr M \<Rightarrow>
                    let d2 = d1\<lparr>dm_Descriptor := conflict_flags mode (mg_conflicts M) (dm_Descriptor d1)\<rparr> in
                    (case commit_files C (sx_Metadata sx) cd epf (uploadBundleIterator (bn_RepoID b2) (bn_Descriptor b2)) m M of
                       None \<Rightarrow> None
                     | Some (m', n, Some e) \<Rightarrow> Some (Inr (m', d2, Some (DIndex e)))
                     | Some (m', n, None) \<Rightarrow>
                         let b3 = b2\<lparr>bn_Descriptor := (bn_Descriptor b2)\<lparr>bd_BundleEntriesFileCount := n\<rparr>\<rparr> in
                         (case uploadBundleDescriptor E (sx_Metadata sx) m' b3 of
                            (m'', Some e) \<Rightarrow> Some (Inr (m'', d2\<lparr>dm_Bundle := b3\<rparr>, Some (DBundle e)))
                          | (m'', None) \<Rightarrow>
                              Some (Inr (m'', d2\<lparr>dm_Bundle := b3, dm_Descriptor := (dm_Descriptor d2)\<lparr>dd_BundleID := bn_BundleID b3\<rparr>\<rparr>, None))))))"

text \<open>The deferred end of \<open>implCommit\<close>: a bundle that is available stays so when it fails.\<close>

definition commit_done ::
  "'v env \<Rightarrow> 't commit_env \<Rightarrow> 'v Store \<Rightarrow> 'v \<Rightarrow> Diamond \<Rightarrow> 'v \<times> Diamond \<times> diamond_err option" where
  "commit_done E C st v d =
     (let d1 = Diamond_WithState (ce_end C) DiamondDone d in
      case Diamond_uploadDescriptor E st v d1 of (v', e) \<Rightarrow> (v', d1, e))"

definition implCommit ::
  "'v env \<Rightarrow> BundleEntry list codec \<Rightarrow> 't commit_env \<Rightarrow> nat \<Rightarrow> ('m, 'v) Stores \<Rightarrow> Settings \<Rightarrow> 'm \<Rightarrow> 'v \<Rightarrow> Diamond \<Rightarrow>
   (panic, 'm \<times> 'v \<times> Diamond \<times> diamond_err option) res option" where
  "implCommit E cd C epf sx settings m v d =
     (case RepoExists (sx_Metadata sx) m (dm_RepoID d) of
        Some e \<Rightarrow> Some (Inr (m, v, d, Some (DMeta e)))
      | None \<Rightarrow>
          (case checkBundleID E C (sx_Metadata sx) m d of
             Inl e \<Rightarrow> Some (Inr (m, v, d, Some e))
           | Inr d1 \<Rightarrow>
               (case diamondReady E sx m v d1 of
                  Some e \<Rightarrow> Some (Inr (m, v, d1, Some (CannotProceed e)))
                | None \<Rightarrow>
                    (case commit_bundle E cd C epf sx settings m v d1 of
                       None \<Rightarrow> None
                     | Some (Inl p) \<Rightarrow> Some (Inl p)
                     | Some (Inr (m', d2, Some e)) \<Rightarrow> Some (Inr (m', v, d2, Some e))
                     | Some (Inr (m', d2, None)) \<Rightarrow>
                         (case commit_done E C (sx_VMetadata sx) v d2 of
                            (v', d3, e) \<Rightarrow> Some (Inr (m', v', d3, e)))))))"

section \<open>What a commit reads\<close>

definition split_path :: "string \<Rightarrow> string \<Rightarrow> SplitDescriptor \<Rightarrow> 64 word \<Rightarrow> string" where
  "split_path repo did sp = GetArchivePathToSplitFileList repo did (sd_SplitID sp) (sd_GenerationID sp)"

lemma split_path_nonempty: "split_path repo did sp i \<noteq> ''''"
  by (simp add: split_path_def GetArchivePathToSplitFileList_def)

text \<open>The index files of a split are all there.\<close>

definition split_stored ::
  "BundleEntry list codec \<Rightarrow> (string \<Rightarrow> bytes option) \<Rightarrow> string \<Rightarrow> string \<Rightarrow> SplitDescriptor \<Rightarrow> BundleEntry list list \<Rightarrow> bool" where
  "split_stored cd m repo did sp bs \<longleftrightarrow>
     index_stored cd (split_path repo did sp) m 0 bs \<and> sd_SplitEntriesFileCount sp = length bs \<and> length bs < 2 ^ 64"

text \<open>The files of splits, given the index files of each of them.\<close>

definition files_of :: "(SplitDescriptor \<Rightarrow> BundleEntry list list) \<Rightarrow> SplitDescriptor list \<Rightarrow> (string \<times> BundleEntry) list" where
  "files_of bss splits = concat (map (\<lambda>sp. map (Pair (sd_SplitID sp)) (concat (bss sp))) splits)"

lemma collectSplits_done:
  assumes "ListSplits E sx m v (dm_RepoID d) (dm_ID d) settings = Some (sds, None)"
  shows "collectSplits E sx m v settings d = Some (Inr (filter (\<lambda>sd. sd_State sd = SplitDone) sds))"
proof -
  have "apply_until (\<lambda>sd splits. (if sd_State sd = SplitDone then splits @ [sd] else splits, None :: meta_err option)) sds acc =
      (acc @ filter (\<lambda>sd. sd_State sd = SplitDone) sds, None)" for acc
    by (induction sds arbitrary: acc) auto
  then show ?thesis by (simp add: collectSplits_def ListSplitsApply_def assms list_apply_def)
qed

lemma download_jobs_splits:
  assumes "\<And>sp. sp \<in> set splits \<Longrightarrow> sd_SplitEntriesFileCount sp < 2 ^ 64"
  shows "download_jobs (downloadAllSplitsIterator repo did splits) =
    concat (map (\<lambda>sp. map (\<lambda>j. (sd_SplitID sp, nth_path (split_path repo did sp) j, j)) [0..<sd_SplitEntriesFileCount sp]) splits)"
  using assms
proof (induction splits)
  case (Cons sp splits)
  have "download_jobs [(sd_SplitID sp, of_nat (sd_SplitEntriesFileCount sp), split_path repo did sp)] =
      map (\<lambda>j. (sd_SplitID sp, nth_path (split_path repo did sp) j, j)) [0..<sd_SplitEntriesFileCount sp]"
    by (intro download_jobs_one split_path_nonempty) (use Cons.prems in simp)
  with Cons show ?case by (simp add: download_jobs_def downloadAllSplitsIterator_def split_path_def [abs_def])
qed (simp add: download_jobs_def downloadAllSplitsIterator_def)

lemma mset_concat_map:
  assumes "mset xs = mset ys"
  shows "mset (concat (map f xs)) = mset (concat (map f ys))"
proof -
  have "mset (concat (map f zs)) = (\<Sum>x \<in># mset zs. mset (f x))" for zs by (induction zs) auto
  with assms show ?thesis by simp
qed

lemma clean_upload_perm:
  assumes "mset fs = mset gs" and "clean_upload fs"
  shows "clean_upload gs"
proof -
  have "mset (map (\<lambda>(s, f). (s, be_NameWithPath f)) gs) = mset (map (\<lambda>(s, f). (s, be_NameWithPath f)) fs)"
    using assms(1) by simp
  from mset_eq_imp_distinct_iff [OF this] mset_eq_setD [OF assms(1)] assms(2) show ?thesis
    by (simp add: clean_upload_def list_all_iff)
qed

context object_store
begin

lemma unpack_all:
  "\<forall>(i, p, k) \<in> set jobs. getIndexFile st cd s p = Inr (g (i, p, k)) \<Longrightarrow>
    unpack st cd s jobs = (map (\<lambda>(i, p, k). (i, k, g (i, p, k))) jobs, None)"
  by (induction jobs) auto

text \<open>All the index files of the splits are read, in whatever order, and no file is lost.\<close>

lemma unpack_splits:
  assumes "codec_ok cd" and "\<And>sp. sp \<in> set splits \<Longrightarrow> split_stored cd (content v) repo did sp (bss sp)"
    and "mset order = mset (download_jobs (downloadAllSplitsIterator repo did splits))"
  shows "\<exists>lss. unpack st cd v order = (lss, None) \<and> mset (split_files lss) = mset (files_of bss splits)"
proof -
  define g where "g = (\<lambda>(i :: string, p, k :: nat). projr (getIndexFile st cd v p))"
  let ?h = "\<lambda>(i, p, k). map (Pair i) (g (i, p, k))"
  let ?jobs = "\<lambda>sp. map (\<lambda>j. (sd_SplitID sp, nth_path (split_path repo did sp) j, j)) [0..<length (bss sp)]"
  have get: "getIndexFile st cd v (nth_path (split_path repo did sp) j) = Inr (bss sp ! j)"
    if "sp \<in> set splits" "j < length (bss sp)" for sp j
    using getIndexFile_ok [OF assms(1), of "split_path repo did sp" v "bss sp" j] assms(2) [OF that(1)] that(2)
    by (simp add: split_stored_def)
  have "sd_SplitEntriesFileCount sp = length (bss sp)" "sd_SplitEntriesFileCount sp < 2 ^ 64" if "sp \<in> set splits" for sp
    using assms(2) [OF that] by (simp_all add: split_stored_def)
  then have jobs: "download_jobs (downloadAllSplitsIterator repo did splits) = concat (map ?jobs splits)"
    by (subst download_jobs_splits) (simp_all cong: map_cong)
  have set: "set order = (\<Union>sp \<in> set splits. set (?jobs sp))"
    using mset_eq_setD [OF assms(3)] unfolding jobs by simp
  have "unpack st cd v order = (map (\<lambda>(i, p, k). (i, k, g (i, p, k))) order, None)"
    by (rule unpack_all) (auto simp: set g_def get)
  moreover have "split_files (map (\<lambda>(i, p, k). (i, k, g (i, p, k))) order) = concat (map ?h order)"
    by (simp add: split_files_def comp_def case_prod_unfold)
  moreover have "mset (concat (map ?h order)) = mset (concat (map ?h (concat (map ?jobs splits))))"
    using assms(3) unfolding jobs by (rule mset_concat_map)
  moreover have "concat (map ?h (?jobs sp)) = map (Pair (sd_SplitID sp)) (concat (bss sp))" if "sp \<in> set splits" for sp
  proof -
    have "map ?h (?jobs sp) = map (map (Pair (sd_SplitID sp))) (bss sp)"
      by (rule nth_equalityI) (simp_all add: g_def get [OF that])
    then show ?thesis by (simp only: map_concat)
  qed
  then have "concat (map ?h (concat (map ?jobs splits))) = files_of bss splits"
    unfolding files_of_def by (induction splits) auto
  ultimately show ?thesis by auto
qed

end


section \<open>What a commit writes\<close>

definition commit_entries :: "'t commit_env \<Rightarrow> filePacked list \<Rightarrow> BundleEntry list" where
  "commit_entries C files = timed_entries (map (\<lambda>(i, p). (p, ce_clock C i)) (enumerate 0 files))"

lemma commit_entries_of:
  assumes "p \<in> set files"
  shows "\<exists>e \<in> set (commit_entries C files). be_Hash e = fp_hash p \<and> be_NameWithPath e = fp_name p"
proof -
  from assms obtain i where "i < length files" "files ! i = p" by (auto simp: in_set_conv_nth)
  then have "(i, p) \<in> set (enumerate 0 files)" by (auto simp: in_set_enumerate_eq)
  then show ?thesis by (force simp: commit_entries_def filePacked2BundleEntry_def)
qed

lemma length_commit_entries: "length (commit_entries C files) = length files"
  by (simp add: commit_entries_def)

context object_store
begin

lemma commit_files_ok:
  assumes "codec_ok cd" and "yaml_marshals E" and "0 < epf" and "mg_error M = None" and "length (mg_files M) < 2 ^ 63"
    and "validateBundle b" and "bd_ID (bn_Descriptor b) = bn_BundleID b"
    and "\<And>n. content m (bundle_pather b n) = None" and "content m (GetArchivePathToBundle (bn_RepoID b) (bn_BundleID b)) = None"
  shows "\<exists>m1 m2 n. commit_files C st cd epf (uploadBundleIterator (bn_RepoID b) (bn_Descriptor b)) m M = Some (m1, n, None)
    \<and> uploadBundleDescriptor E st m1 (with_count n b) = (m2, None)
    \<and> bundle_stored E cd epf (content m2) (with_count n b) (commit_entries C (mg_files M))"
proof -
  let ?es = "commit_entries C (mg_files M)" and ?p = "bundle_pather b"
  let ?bs = "blocks epf ?es" and ?files = "map (\<lambda>(i, p). (p, ce_clock C i)) (enumerate 0 (mg_files M))"
  have ev: "commit_events C M = map (\<lambda>(f, now). Packed f now) ?files"
    by (simp add: commit_events_def assms(4) comp_def case_prod_unfold)
  have path: "uploadBundleIterator (bn_RepoID b) (bn_Descriptor b) = ?p"
    by (simp add: uploadBundleIterator_def assms(7))
  have len: "0 + length ?bs \<le> 2 ^ 64"
    using length_blocks_le [OF assms(3), of ?es] assms(5) by (simp add: length_commit_entries)
  have free: "index_free ?p (content m) 0 (length ?bs)" by (simp add: index_free_def nth_path_def assms(8))
  have bs: "?bs = blocks epf ([] @ timed_entries ?files)" by (simp add: commit_entries_def)
  from pack_loop_ok [OF assms(1,3) bundle_list_inj [of "bn_RepoID b" "bn_BundleID b"] bs _ free len] assms(3)
  obtain m1 where m1: "pack_loop st cd epf ?p m (of_nat 0) [] 0 (map (\<lambda>(f, now). Packed f now) ?files) = (m1, 0 + length ?bs, None)"
      "index_stored cd ?p (content m1) 0 ?bs" "\<forall>q. outside ?p 0 (length ?bs) q \<longrightarrow> content m1 q = content m q"
    by (metis list.size(3))
  have "commit_files C st cd epf (uploadBundleIterator (bn_RepoID b) (bn_Descriptor b)) m M = Some (m1, length ?bs, None)"
    using m1(1) unfolding commit_files_def pack_def ev path by simp
  moreover have "content m1 (GetArchivePathToBundle (bn_RepoID b) (bn_BundleID b)) = None"
    using m1(3) assms(9) descriptor_not_index by (auto simp: nth_path_def)
  then have "\<exists>m2. uploadBundleDescriptor E st m1 (with_count (length ?bs) b) = (m2, None)
      \<and> bundle_stored E cd epf (content m2) (with_count (length ?bs) b) ?es"
    using m1(2) assms(6) by (intro descriptor_completes [OF assms(2)]) (simp_all add: validateBundle_def)
  ultimately show ?thesis by blast
qed

end

text \<open>Merging what was read, for diamonds that keep conflicting versions.\<close>

lemma mergeSplits_ok:
  assumes "object_store st content" and "radix_tree (ce_R C) view ok" and "codec_ok cd"
    and "mode \<in> {EnableConflicts, EnableCheckpoints}"
    and "\<And>sp. sp \<in> set splits \<Longrightarrow> split_stored cd (content v) repo did sp (bss sp)"
    and "\<And>js. mset (ce_order C js) = mset js" and "clean_upload (files_of bss splits)"
  shows "\<exists>M. mergeSplits C st cd v mode (downloadAllSplitsIterator repo did splits) = Inr M \<and> mg_error M = None
    \<and> length (mg_files M) \<le> 2 * length (files_of bss splits)
    \<and> (\<forall>(s, f) \<in> set (files_of bss splits). version_kept mode (files_of bss splits) (mg_files M) f)"
proof -
  from object_store.unpack_splits [OF assms(1,3,5) assms(6)] obtain lss where
    lss: "unpack st cd v (ce_order C (download_jobs (downloadAllSplitsIterator repo did splits))) = (lss, None)"
      "mset (split_files lss) = mset (files_of bss splits)" by blast
  note same = mset_eq_setD [OF lss(2)] mset_eq_length [OF lss(2)]
  have "clean_upload (split_files lss)" by (rule clean_upload_perm [OF lss(2) [symmetric] assms(7)])
  from radix_tree.merge_splits_keeps [OF assms(2,4) this] obtain t n where
    t: "merge_splits (ce_R C) mode (split_files lss) = Merging t n" "length (merged_output (ce_R C) t) \<le> 2 * length (split_files lss)"
      "\<forall>(s, f) \<in> set (split_files lss). version_kept mode (split_files lss) (merged_output (ce_R C) t) f" by blast
  have "mergeSplits C st cd v mode (downloadAllSplitsIterator repo did splits) =
      Inr \<lparr>mg_files = merged_output (ce_R C) t, mg_conflicts = n, mg_error = None, mg_stuck = False\<rparr>"
    by (simp add: mergeSplits_def lss(1) t(1))
  with t(2,3) show ?thesis unfolding version_kept_def same by auto
qed


section \<open>Committing a diamond\<close>

lemma commit_bundle_ok:
  assumes st: "object_store (sx_Metadata sx) mcontent" "object_store (sx_VMetadata sx) vcontent"
    and "radix_tree (ce_R C) view ok" and "codec_ok cd" and "yaml_marshals E" and "0 < epf"
    and "ListSplits E sx m v (dm_RepoID d) (dm_ID d) settings = Some (sds, None)"
    and "splits = filter (\<lambda>sd. sd_State sd = SplitDone) sds" and "splits \<noteq> []"
    and "\<And>sp. sp \<in> set splits \<Longrightarrow> split_stored cd (vcontent v) (dm_RepoID d) (dm_ID d) sp (bss sp)"
    and "clean_upload (files_of bss splits)" and "length (files_of bss splits) < 2 ^ 62"
    and "dd_Mode (dm_Descriptor d) \<in> {EnableConflicts, EnableCheckpoints}" and "\<And>js. mset (ce_order C js) = mset js"
    and "bn_BundleID (dm_Bundle d) = ''''" and "validateBundle (dm_Bundle d)"
    and "\<And>n. mcontent m (GetArchivePathToBundleFileList (dm_RepoID d) (ce_newID C) n) = None"
    and "mcontent m (GetArchivePathToBundle (dm_RepoID d) (ce_newID C)) = None"
  shows "\<exists>m' d' out. commit_bundle E cd C epf sx settings m v d = Some (Inr (m', d', None))
    \<and> bundle_stored E cd epf (mcontent m') (dm_Bundle d') (commit_entries C out)
    \<and> bn_BundleID (dm_Bundle d') = ce_newID C \<and> dm_RepoID d' = dm_RepoID d \<and> dm_ID d' = dm_ID d
    \<and> dd_BundleID (dm_Descriptor d') = ce_newID C \<and> dd_Splits (dm_Descriptor d') = splits
    \<and> (\<forall>(s, f) \<in> set (files_of bss splits). version_kept (dd_Mode (dm_Descriptor d)) (files_of bss splits) out f)"
proof -
  let ?mode = "dd_Mode (dm_Descriptor d)"
  let ?b1 = "(dm_Bundle d)\<lparr>bn_Descriptor := (bn_Descriptor (dm_Bundle d))\<lparr>bd_Contributors := concat (map sd_Contributors splits)\<rparr>\<rparr>"
  let ?b = "setBundleID (ce_newID C) ?b1"
  obtain M where M: "mergeSplits C (sx_VMetadata sx) cd v ?mode (downloadAllSplitsIterator (dm_RepoID d) (dm_ID d) splits) = Inr M"
      "mg_error M = None" "length (mg_files M) \<le> 2 * length (files_of bss splits)"
      "\<forall>(s, f) \<in> set (files_of bss splits). version_kept ?mode (files_of bss splits) (mg_files M) f"
    using mergeSplits_ok [OF st(2) assms(3,4,13,10,14,11)] by blast
  have b: "bn_RepoID ?b = dm_RepoID d" "bn_BundleID ?b = ce_newID C" "bd_ID (bn_Descriptor ?b) = ce_newID C"
      "validateBundle ?b" using assms(16) by (simp_all add: setBundleID_def validateBundle_def)
  have "length (mg_files M) < 2 ^ 63" using M(3) assms(12) by simp
  then obtain m1 m2 n where w: "commit_files C (sx_Metadata sx) cd epf (uploadBundleIterator (bn_RepoID ?b) (bn_Descriptor ?b)) m M = Some (m1, n, None)"
      "uploadBundleDescriptor E (sx_Metadata sx) m1 (with_count n ?b) = (m2, None)"
      "bundle_stored E cd epf (mcontent m2) (with_count n ?b) (commit_entries C (mg_files M))"
    using object_store.commit_files_ok [OF st(1) assms(4,5,6) M(2) _ b(4), of m C] b(1-3) assms(17,18) by auto
  have flags: "dd_Splits (conflict_flags mode k x) = dd_Splits x" "dd_DiamondID (conflict_flags mode k x) = dd_DiamondID x" for mode k x
    by (simp_all add: conflict_flags_def)
  let ?d2 = "conflict_flags ?mode (mg_conflicts M) ((dm_Descriptor d)\<lparr>dd_Splits := splits\<rparr>)"
  let ?d = "d\<lparr>dm_Bundle := with_count n ?b, dm_Descriptor := ?d2\<lparr>dd_BundleID := bn_BundleID ?b\<rparr>\<rparr>"
  have "commit_bundle E cd C epf sx settings m v d = Some (Inr (m2, ?d, None))"
    using assms(9,15)
    by (simp add: commit_bundle_def collectSplits_done [OF assms(7)] assms(8) [symmetric] M(1) w(1,2) Let_def)
  with M(4) w(3) b(1,2) flags show ?thesis
    by (intro exI [of _ m2] exI [of _ ?d] exI [of _ "mg_files M"]) simp
qed


text \<open>
  C6: a commit publishes everything. For a diamond that is initialized, keeps conflicting versions, and
  has splits that are done with their index files in place, the commit succeeds whatever the order in
  which the index files arrive: the new bundle is complete in the metadata bucket, every version of
  every file of every such split has an entry with its hash in it, at its path or renamed, and the
  diamond reads back as done, with the identifier of the bundle and the splits.
\<close>

theorem Commit_publishes:
  assumes "bucket_api clm om" and "bucket_api clv ov" and "radix_tree (ce_R C) view ok"
    and "codec_ok cd" and "codec_ok (en_diamond E)" and "yaml_marshals E" and "0 < epf"
    and sx: "sx = \<lparr>sx_Metadata = gcs_store clm gm, sx_VMetadata = gcs_store clv gv\<rparr>"
    and "RepoExists (sx_Metadata sx) m (dm_RepoID d) = None"
    and "gcs_content ov gv v (GetArchivePathToFinalDiamond (dm_RepoID d) (dm_ID d)) = None"
    and "Diamond_downloadDescriptor E (sx_VMetadata sx) v d = Inr d0" and "dd_State (dm_Descriptor d0) = DiamondInitialized"
    and "ListSplits E sx m v (dm_RepoID d) (dm_ID d) settings = Some (sds, None)"
    and "splits = filter (\<lambda>sd. sd_State sd = SplitDone) sds" and "splits \<noteq> []"
    and "\<And>sp. sp \<in> set splits \<Longrightarrow> split_stored cd (gcs_content ov gv v) (dm_RepoID d) (dm_ID d) sp (bss sp)"
    and "clean_upload (files_of bss splits)" and "length (files_of bss splits) < 2 ^ 62"
    and "dd_Mode (dm_Descriptor d) \<in> {EnableConflicts, EnableCheckpoints}" and "\<And>js. mset (ce_order C js) = mset js"
    and "bn_BundleID (dm_Bundle d) = ''''" and "validateBundle (dm_Bundle d)"
    and "\<And>n. gcs_content om gm m (GetArchivePathToBundleFileList (dm_RepoID d) (ce_newID C) n) = None"
    and "gcs_content om gm m (GetArchivePathToBundle (dm_RepoID d) (ce_newID C)) = None"
  shows "\<exists>m' v' d' es. implCommit E cd C epf sx settings m v d = Some (Inr (m', v', d', None))
    \<and> bn_BundleID (dm_Bundle d') = ce_newID C \<and> bundle_stored E cd epf (gcs_content om gm m') (dm_Bundle d') es
    \<and> (\<forall>(s, f) \<in> set (files_of bss splits). \<exists>e \<in> set es. be_Hash e = be_Hash f
        \<and> (be_NameWithPath e = be_NameWithPath f \<or>
           (\<exists>s' f'. (s', f') \<in> set (files_of bss splits) \<and> be_NameWithPath f' = be_NameWithPath f
              \<and> be_NameWithPath e = deconflicter (dd_Mode (dm_Descriptor d)) s' (be_NameWithPath f))))
    \<and> Diamond_downloadDescriptor E (sx_VMetadata sx) v' d = Inr (d\<lparr>dm_Descriptor := dm_Descriptor d'\<rparr>)
    \<and> dd_State (dm_Descriptor d') = DiamondDone \<and> dd_BundleID (dm_Descriptor d') = ce_newID C \<and> dd_Splits (dm_Descriptor d') = splits"
proof -
  note mst = gcs_is_store [OF assms(1), of gm] and vst = gcs_is_store [OF assms(2), of gv]
  have st: "object_store (sx_Metadata sx) (gcs_content om gm)" "object_store (sx_VMetadata sx) (gcs_content ov gv)"
    using mst vst by (simp_all add: sx)
  obtain m1 d1 out where c: "commit_bundle E cd C epf sx settings m v d = Some (Inr (m1, d1, None))"
      "bundle_stored E cd epf (gcs_content om gm m1) (dm_Bundle d1) (commit_entries C out)"
      "bn_BundleID (dm_Bundle d1) = ce_newID C" "dm_RepoID d1 = dm_RepoID d" "dm_ID d1 = dm_ID d"
      "dd_BundleID (dm_Descriptor d1) = ce_newID C" "dd_Splits (dm_Descriptor d1) = splits"
      "\<forall>(s, f) \<in> set (files_of bss splits). version_kept (dd_Mode (dm_Descriptor d)) (files_of bss splits) out f"
    using commit_bundle_ok [OF st assms(3,4,6,7,13-24)] by blast
  let ?d = "Diamond_WithState (ce_end C) DiamondDone d1"
  have d: "dm_Bundle ?d = dm_Bundle d1" "dm_ID ?d = dm_ID d1" "dd_State (dm_Descriptor ?d) = DiamondDone"
      "dd_BundleID (dm_Descriptor ?d) = ce_newID C" "dd_Splits (dm_Descriptor ?d) = splits"
    using c(6,7) by (simp_all add: Diamond_WithState_def)
  have path: "GetArchivePathToDiamond (dm_RepoID ?d) (dm_ID ?d) (dd_State (dm_Descriptor ?d)) = GetArchivePathToFinalDiamond (dm_RepoID d) (dm_ID d)"
    by (simp add: d diamond_paths c(4,5))
  from object_store.Diamond_upload_new [OF st(2) assms(5), of v ?d] assms(10) obtain v1 buf where
    up: "Diamond_uploadDescriptor E (sx_VMetadata sx) v ?d = (v1, None)" "cd_Unmarshal (en_diamond E) buf = Inr (dm_Descriptor ?d)"
      "gcs_content ov gv v1 (GetArchivePathToFinalDiamond (dm_RepoID d) (dm_ID d)) = Some buf"
    by (auto simp: path)
  have "diamondReady E sx m v d = None" using assms(9,11,12) by (simp add: diamondReady_def GetDiamond_def)
  then have "implCommit E cd C epf sx settings m v d = Some (Inr (m1, v1, ?d, None))"
    using assms(9,21) c(1) up(1) by (simp add: implCommit_def checkBundleID_def commit_done_def)
  moreover have "\<exists>e \<in> set (commit_entries C out). be_Hash e = be_Hash f \<and> (be_NameWithPath e = be_NameWithPath f \<or>
        (\<exists>s' f'. (s', f') \<in> set (files_of bss splits) \<and> be_NameWithPath f' = be_NameWithPath f
           \<and> be_NameWithPath e = deconflicter (dd_Mode (dm_Descriptor d)) s' (be_NameWithPath f)))"
    if "(s, f) \<in> set (files_of bss splits)" for s f
  proof -
    from c(8) that have "version_kept (dd_Mode (dm_Descriptor d)) (files_of bss splits) out f" by auto
    then obtain p where p: "p \<in> set out" "fp_hash p = be_Hash f" "fp_name p = be_NameWithPath f \<or>
        (\<exists>s' f'. (s', f') \<in> set (files_of bss splits) \<and> be_NameWithPath f' = be_NameWithPath f
          \<and> fp_name p = deconflicter (dd_Mode (dm_Descriptor d)) s' (be_NameWithPath f))" unfolding version_kept_def by blast
    from commit_entries_of [OF p(1), of C] p(2,3) show ?thesis by metis
  qed
  ultimately show ?thesis
    using c(2,3) d object_store.Diamond_read_final [OF st(2) up(3,2)] by (intro exI conjI) (auto 0 0)
qed


text \<open>A diamond with one split of one file.\<close>

definition done_split :: SplitDescriptor where
  "done_split = (NewSplitDescriptor ''s'' 1)\<lparr>sd_State := SplitDone, sd_EndTime := 2, sd_GenerationID := ''g'',
     sd_SplitEntriesFileCount := 1\<rparr>"

definition diamond_bucket :: "(string \<times> bytes) list" where
  "diamond_bucket =
     [(''diamonds/r/d/diamond-running.yaml'', projr (cd_Marshal (en_diamond list_env) (dm_Descriptor tag_diamond))),
      (''diamonds/r/d/splits/s/g/bundle-files-0.yaml'', projr (cd_Marshal entries_codec [entry ''f'' ''1'' 1])),
      (''diamonds/r/d/splits/s/split-done.yaml'', projr (cd_Marshal (en_split list_env) done_split)),
      (''diamonds/r/d/splits/s/split-running.yaml'', [])]"

definition repo_bucket :: "(string \<times> bytes) list" where
  "repo_bucket = [(''repos/r/repo.yaml'', [0])]"

definition tag_commit :: "(string \<times> mergeEntry) list commit_env" where
  "tag_commit = \<lparr>ce_R = assoc_radix, ce_order = rev, ce_early = 0, ce_seen = 0, ce_clock = (\<lambda>i. i), ce_end = 9,
     ce_newID = ''n'', ce_preserve = False\<rparr>"

lemma tag_page: "meta_store_page (sx_VMetadata tag_stores) diamond_bucket (GetArchivePathPrefixToSplits ''r'' ''d'') '''' n tok =
    Inr ([''diamonds/r/d/splits/s/g/bundle-files-0.yaml'', ''diamonds/r/d/splits/s/split-done.yaml'', ''diamonds/r/d/splits/s/split-running.yaml''], '''')"
  by (simp add: bucket_eval diamond_bucket_def GetArchivePathPrefixToSplits_def)


lemma tag_codecs: "cd_Unmarshal (en_split list_env) (projr (cd_Marshal (en_split list_env) x)) = Inr x"
    "cd_Unmarshal (en_diamond list_env) (projr (cd_Marshal (en_diamond list_env) y)) = Inr y"
  using codec_projr [OF list_env_codecs(2)] codec_projr [OF list_env_codecs(1)] by blast+

lemma tag_ready:
  "RepoExists (sx_Metadata tag_stores) repo_bucket ''r'' = None"
  "DiamondExists (sx_VMetadata tag_stores) diamond_bucket ''r'' ''d'' = None"
  "Diamond_downloadDescriptor list_env (sx_VMetadata tag_stores) diamond_bucket tag_diamond = Inr tag_diamond"
proof -
  show "RepoExists (sx_Metadata tag_stores) repo_bucket ''r'' = None"
    "DiamondExists (sx_VMetadata tag_stores) diamond_bucket ''r'' ''d'' = None"
    by (simp_all add: RepoExists_def DiamondExists_def bucket_eval repo_bucket_def diamond_bucket_def build_path file_names)
  have ids: "dm_RepoID tag_diamond = ''r''" "dm_ID tag_diamond = ''d''"
    by (simp_all add: tag_diamond_def tag_bundle_def NewDiamondDescriptor_def)
  have "gcs_content map_of plain_gcs diamond_bucket (GetArchivePathToFinalDiamond ''r'' ''d'') = None"
    "gcs_content map_of plain_gcs diamond_bucket (GetArchivePathToInitialDiamond ''r'' ''d'') =
      Some (projr (cd_Marshal (en_diamond list_env) (dm_Descriptor tag_diamond)))"
    by (simp_all add: gcs_content_def diamond_bucket_def getFullObjectName_def build_path file_names)
  with object_store.Diamond_read_initial [OF gcs_is_store [OF steady.bucket_api_axioms], of plain_gcs diamond_bucket tag_diamond _ list_env] tag_codecs(2)
  show "Diamond_downloadDescriptor list_env (sx_VMetadata tag_stores) diamond_bucket tag_diamond = Inr tag_diamond"
    by (simp add: ids tag_stores_def)
qed

lemma tag_splits: "ListSplits list_env tag_stores repo_bucket diamond_bucket ''r'' ''d'' defaultSettings = Some ([done_split], None)"
proof -
  let ?done = "''diamonds/r/d/splits/s/split-done.yaml''" and ?running = "''diamonds/r/d/splits/s/split-running.yaml''"
  have keys: "fetchKeys (\<lambda>tok. basenameKeyFilter ''split-'' (meta_store_page (sx_VMetadata tag_stores) diamond_bucket
      (GetArchivePathPrefixToSplits ''r'' ''d'') '''' (set_batchSize defaultSettings) tok)) '''' = Some [good_batch [?done, ?running]]"
    unfolding tag_page by (subst fetchKeys.simps) (simp add: basenameKeyFilter_def path_Base_def starts_with_def)
  have final: "GetArchivePathComponents (\<lambda>_. True) ?done = Inr (no_components\<lparr>apc_Repo := ''r'', apc_DiamondID := ''d'',
      apc_SplitID := ''s'', apc_ArchiveFileName := splitFinalDescriptorFile, apc_IsFinalState := True\<rparr>)"
    using split_keys(1) [of "''r''" "''d''" "''s''" "\<lambda>_. True"] by (simp add: build_path file_names)
  have merged: "mergeKeys (\<lambda>_. True) (\<lambda>_. None) [good_batch [?done, ?running]] = [good_batch [?done]]"
    by (simp add: merge_key_def parse_path no_components_def no_state_def)
  have "read_yaml (sx_VMetadata tag_stores) (en_split list_env) diamond_bucket (GetArchivePathToFinalSplit ''r'' ''d'' ''s'') = Inr done_split"
    using tag_codecs(1) [of done_split] by (simp add: read_yaml_def bucket_eval diamond_bucket_def build_path file_names)
  then have "getSplitAsync list_env (sx_VMetadata tag_stores) diamond_bucket ''r'' ?done = Inr (Some done_split)"
    by (simp add: getSplitAsync_def readSplit_def skip_missing_def list_env_def final no_components_def done_split_def NewSplitDescriptor_def
        build_path file_names)
  then show ?thesis
    using merged by (simp add: ListSplits_def listSplitsChan_def tag_ready keys list_env_def fetchSplits_def fetchSplitBatch_def
        fetch_batch_def go_sort_def del: mergeKeys.simps)
qed


lemma clean_file: "clean_path ''f''"
proof -
  have "comps ''f'' = [''f'']" by (rule comps_last) simp
  then show ?thesis
    by (simp add: clean_path_def plain_comp_def IsGeneratedFile_def opt_dot_slash_def starts_with_def)
qed

abbreviation one_file :: "SplitDescriptor \<Rightarrow> BundleEntry list list" where
  "one_file \<equiv> \<lambda>_. [[entry ''f'' ''1'' 1]]"

lemma tag_split_stored: "split_stored entries_codec (gcs_content map_of plain_gcs diamond_bucket) ''r'' ''d'' done_split (one_file done_split)"
proof -
  have "digit_char 0 = CHR ''0''" by code_simp
  then have "nth_path (split_path ''r'' ''d'' done_split) 0 = ''diamonds/r/d/splits/s/g/bundle-files-0.yaml''"
    by (simp add: nth_path_def split_path_def done_split_def NewSplitDescriptor_def build_path file_names show_nat.simps)
  with codec_projr [OF entries_codec_ok, of "[entry ''f'' ''1'' 1]"] show ?thesis
    by (simp add: split_stored_def index_stored_def gcs_content_def diamond_bucket_def getFullObjectName_def done_split_def NewSplitDescriptor_def)
qed

lemma tag_diamond_simps:
  "dm_RepoID tag_diamond = ''r''" "dm_ID tag_diamond = ''d''" "dd_State (dm_Descriptor tag_diamond) = DiamondInitialized"
  "dd_Mode (dm_Descriptor tag_diamond) = EnableConflicts" "bn_BundleID (dm_Bundle tag_diamond) = ''''" "validateBundle (dm_Bundle tag_diamond)"
  by (simp_all add: tag_diamond_def tag_bundle_def NewDiamondDescriptor_def validateBundle_def)

lemma tag_files: "files_of one_file [done_split] = [(''s'', entry ''f'' ''1'' 1)]" "clean_upload (files_of one_file [done_split])"
    "[done_split] = filter (\<lambda>sd. sd_State sd = SplitDone) [done_split]"
proof -
  show files: "files_of one_file [done_split] = [(''s'', entry ''f'' ''1'' 1)]"
    by (simp add: files_of_def done_split_def NewSplitDescriptor_def)
  show "clean_upload (files_of one_file [done_split])"
    using clean_file unfolding files by (simp add: clean_upload_def entry_def plain_comp_def)
qed (simp add: done_split_def)

lemma tag_free:
  "gcs_content map_of plain_gcs repo_bucket (GetArchivePathToBundleFileList (dm_RepoID tag_diamond) (ce_newID tag_commit) n) = None"
  "gcs_content map_of plain_gcs repo_bucket (GetArchivePathToBundle (dm_RepoID tag_diamond) (ce_newID tag_commit)) = None"
  "gcs_content map_of plain_gcs diamond_bucket (GetArchivePathToFinalDiamond (dm_RepoID tag_diamond) (dm_ID tag_diamond)) = None"
  by (simp_all add: tag_diamond_simps gcs_content_def repo_bucket_def diamond_bucket_def getFullObjectName_def build_path file_names)

lemma tag_commit_env: "ce_order tag_commit = rev" "ce_newID tag_commit = ''n''"
    "radix_tree (ce_R tag_commit) map_of (\<lambda>t. sorted_wrt (<) (map fst t))"
  using assoc.radix_tree_axioms by (simp_all add: tag_commit_def)

theorem Commit_publishes_witness:
  "\<exists>m' v' d'. implCommit list_env entries_codec tag_commit 1000 tag_stores defaultSettings repo_bucket diamond_bucket tag_diamond =
      Some (Inr (m', v', d', None))
    \<and> dd_State (dm_Descriptor d') = DiamondDone \<and> dd_BundleID (dm_Descriptor d') = ''n''"
proof -
  note ids = tag_diamond_simps
  note ok = Commit_publishes [OF steady.bucket_api_axioms steady.bucket_api_axioms tag_commit_env(3) entries_codec_ok list_env_codecs(1) yaml_bundles_marshals [OF list_env_codecs(3)] _
      tag_stores_def _ tag_free(3) tag_ready(3) ids(3) _ tag_files(3) _ _ tag_files(2), where epf = 1000 and m = repo_bucket and settings = defaultSettings]
  show ?thesis
    using ok tag_ready(1) tag_splits tag_split_stored tag_free by (simp add: ids tag_commit_env tag_files(1) del: One_nat_def) blast
qed

text \<open>
  C7: a diamond can be cancelled and yet publish its bundle. When a cancellation gets through between the
  moment a commit has made the bundle and the moment it writes the terminal descriptor, whatever else
  happens in between, the commit ends with an error and the diamond reads as cancelled, but the bundle
  is complete in the metadata bucket, as a successful commit would have left it.
\<close>

theorem cancelled_bundle_published:
  assumes "bucket_api clm om" and "bucket_api clv ov" and "radix_tree (ce_R C) view ok"
    and "codec_ok cd" and "codec_ok (en_diamond E)" and "yaml_marshals E" and "0 < epf"
    and sx: "sx = \<lparr>sx_Metadata = gcs_store clm gm, sx_VMetadata = gcs_store clv gv\<rparr>"
    and "ListSplits E sx m v (dm_RepoID d) (dm_ID d) settings = Some (sds, None)"
    and "splits = filter (\<lambda>sd. sd_State sd = SplitDone) sds" and "splits \<noteq> []"
    and "\<And>sp. sp \<in> set splits \<Longrightarrow> split_stored cd (gcs_content ov gv v) (dm_RepoID d) (dm_ID d) sp (bss sp)"
    and "clean_upload (files_of bss splits)" and "length (files_of bss splits) < 2 ^ 62"
    and "dd_Mode (dm_Descriptor d) \<in> {EnableConflicts, EnableCheckpoints}" and "\<And>js. mset (ce_order C js) = mset js"
    and "bn_BundleID (dm_Bundle d) = ''''" and "validateBundle (dm_Bundle d)"
    and "\<And>n. gcs_content om gm m (GetArchivePathToBundleFileList (dm_RepoID d) (ce_newID C) n) = None"
    and "gcs_content om gm m (GetArchivePathToBundle (dm_RepoID d) (ce_newID C)) = None"
    and "Cancel E (sx_VMetadata sx) now v1 dc = (v2, dc', None)" and "dm_RepoID dc = dm_RepoID d"
    and "dm_ID dc' = dm_ID d" and "(vmeta_step E cd sx)\<^sup>*\<^sup>* v2 v3"
  shows "\<exists>m' d' es v4 d'' e. commit_bundle E cd C epf sx settings m v d = Some (Inr (m', d', None))
    \<and> commit_done E C (sx_VMetadata sx) v3 d' = (v4, d'', Some e)
    \<and> Diamond_downloadDescriptor E (sx_VMetadata sx) v4 d = Inr (d\<lparr>dm_Descriptor := dm_Descriptor dc'\<rparr>)
    \<and> dd_State (dm_Descriptor dc') = DiamondCanceled
    \<and> bn_BundleID (dm_Bundle d') = ce_newID C \<and> bundle_stored E cd epf (gcs_content om gm m') (dm_Bundle d') es"
proof -
  have st: "object_store (sx_Metadata sx) (gcs_content om gm)" "object_store (sx_VMetadata sx) (gcs_content ov gv)"
    using gcs_is_store [OF assms(1), of gm] gcs_is_store [OF assms(2), of gv] by (simp_all add: sx)
  obtain m' d' out where c: "commit_bundle E cd C epf sx settings m v d = Some (Inr (m', d', None))"
      "bundle_stored E cd epf (gcs_content om gm m') (dm_Bundle d') (commit_entries C out)"
      "bn_BundleID (dm_Bundle d') = ce_newID C" "dm_RepoID d' = dm_RepoID d" "dm_ID d' = dm_ID d"
    using commit_bundle_ok [OF st assms(3,4,6,7,9-20)] by blast
  let ?d = "Diamond_WithState (ce_end C) DiamondDone d'"
  have d: "dm_RepoID ?d = dm_RepoID d" "dm_ID ?d = dm_ID d" "dd_State (dm_Descriptor ?d) \<noteq> DiamondInitialized"
    using c(4,5) by (simp_all add: Diamond_WithState_def)
  from object_store.Cancel_uploads [OF st(2) assms(21)] assms(22)
  have cu: "Diamond_uploadDescriptor E (sx_VMetadata sx) v1 dc' = (v2, None)" "dd_State (dm_Descriptor dc') = DiamondCanceled"
      "dm_RepoID dc' = dm_RepoID d" by simp_all
  have "dd_State (dm_Descriptor dc') \<noteq> DiamondInitialized" by (simp add: cu(2))
  note stays = object_store.terminal_stays [OF st(2) refl assms(5) cu(1) this assms(24), unfolded cu(3) assms(23)]
  from stays [OF d(1,2)] d(3) obtain v4 e where
    v4: "Diamond_uploadDescriptor E (sx_VMetadata sx) v3 ?d = (v4, Some e)" by blast
  then have "vmeta_step E cd sx v3 v4" by (rule diamond_upload)
  with assms(24) have "(vmeta_step E cd sx)\<^sup>*\<^sup>* v2 v4" by (rule rtranclp.rtrancl_into_rtrancl)
  from object_store.terminal_stays [OF st(2) refl assms(5) cu(1) _ this, of d] cu(2,3) assms(23)
  have "Diamond_downloadDescriptor E (sx_VMetadata sx) v4 d = Inr (d\<lparr>dm_Descriptor := dm_Descriptor dc'\<rparr>)" by simp
  moreover have "commit_done E C (sx_VMetadata sx) v3 d' = (v4, ?d, Some e)" by (simp add: commit_done_def v4)
  ultimately show ?thesis using c cu(2) by blast
qed

theorem cancelled_bundle_published_witness:
  "\<exists>v2 dc m' d' v4 d'' e. Cancel list_env (sx_VMetadata tag_stores) 5 diamond_bucket tag_diamond = (v2, dc, None)
    \<and> commit_bundle list_env entries_codec tag_commit 1000 tag_stores defaultSettings repo_bucket diamond_bucket tag_diamond = Some (Inr (m', d', None))
    \<and> commit_done list_env tag_commit (sx_VMetadata tag_stores) v2 d' = (v4, d'', Some e)"
proof -
  note ids = tag_diamond_simps
  let ?dc = "Diamond_WithState 5 DiamondCanceled tag_diamond"
  have dc: "dm_ID ?dc = dm_ID tag_diamond" "dm_Bundle ?dc = dm_Bundle tag_diamond" "dd_State (dm_Descriptor ?dc) = DiamondCanceled"
    using ids(3) by (simp_all add: Diamond_WithState_def)
  obtain v2 where "Diamond_uploadDescriptor list_env (sx_VMetadata tag_stores) diamond_bucket ?dc = (v2, None)"
    using object_store.Diamond_upload_new [OF gcs_is_store [OF steady.bucket_api_axioms] list_env_codecs(1), of plain_gcs diamond_bucket ?dc]
      tag_free(3) by (auto simp: dc diamond_paths tag_stores_def)
  then have c: "Cancel list_env (sx_VMetadata tag_stores) 5 diamond_bucket tag_diamond = (v2, ?dc, None)"
    using tag_ready(3) ids(3) by (simp add: Cancel_def)
  note ok = cancelled_bundle_published [OF steady.bucket_api_axioms steady.bucket_api_axioms tag_commit_env(3) entries_codec_ok list_env_codecs(1) yaml_bundles_marshals [OF list_env_codecs(3)] _
      tag_stores_def _ tag_files(3) _ _ tag_files(2) _ _ _ _ _ _ _ c refl dc(1) rtranclp.rtrancl_refl,
      where epf = 1000 and m = repo_bucket and settings = defaultSettings and v = diamond_bucket]
  show ?thesis
    using ok c tag_splits tag_split_stored tag_free by (simp add: ids tag_commit_env tag_files(1) del: One_nat_def) blast
qed

end
