(* ===== verification/RepoOps.thy ===== *)
theory RepoOps
  imports Diamonds
begin

text \<open>
  Operations on whole repositories: creating, deleting, renaming and squashing them, deleting bundles,
  labels and file entries (\<open>pkg/core/repo_create.go\<close>, \<open>delete.go\<close>, \<open>rename.go\<close>, \<open>repo_squash.go\<close>). The
  metadata store has the descriptors of repositories and bundles, the versioned one the labels.
\<close>

section \<open>Errors and options\<close>

datatype repo_err =
    CannotFindRepo meta_err
  | RMeta meta_err
  | RStore store_err
  | RBundle bundle_err
  | RYaml string
  | RName name_error
  | RepoAlreadyExists string

record deleteOptions =
  do_skipCheckRepo :: bool
  do_skipDeleteLabel :: bool
  do_ignoreBundleError :: bool

definition no_deleteOptions :: deleteOptions where
  "no_deleteOptions = \<lparr>do_skipCheckRepo = False, do_skipDeleteLabel = False, do_ignoreBundleError = False\<rparr>"

definition check_repo :: "deleteOptions \<Rightarrow> 'm Store \<Rightarrow> 'm \<Rightarrow> string \<Rightarrow> repo_err option" where
  "check_repo opts st m repo = (if do_skipCheckRepo opts then None else map_option CannotFindRepo (RepoExists st m repo))"

section \<open>Creating a repository\<close>

text \<open>
  \<open>runes\<close> decodes a name, \<open>ok\<close> says which runes are accepted, and \<open>precondition\<close> which errors carry the
  message of the service about a failed precondition. When the descriptor cannot be marshalled
  the error of the validation is returned, which is none: nothing is written and no error reported.
\<close>

definition CreateRepo ::
  "'v env \<Rightarrow> (string \<Rightarrow> rune list) \<Rightarrow> (rune \<Rightarrow> bool) \<Rightarrow> (store_err \<Rightarrow> bool) \<Rightarrow> 'm Store \<Rightarrow> 'm \<Rightarrow> RepoDescriptor \<Rightarrow>
   (panic, 'm \<times> repo_err option) res" where
  "CreateRepo E runes ok precondition st m rd =
     (case ValidateRepo ok (runes (rd_Name rd)) (rd_Description rd) of
        Inl p \<Rightarrow> Inl p
      | Inr (Some e) \<Rightarrow> Inr (m, Some (RName e))
      | Inr None \<Rightarrow>
          (case cd_Marshal (en_repo E) rd of
             Inl e \<Rightarrow> Inr (m, None)
           | Inr r \<Rightarrow>
               (case st_Put st m (GetArchivePathToRepoDescriptor (rd_Name rd)) r NoOverWrite of
                  (m', e) \<Rightarrow> Inr (m', map_option (\<lambda>x. if precondition x then RepoAlreadyExists (rd_Name rd) else RStore x) e))))"

section \<open>Deleting\<close>

definition DeleteLabel ::
  "deleteOptions \<Rightarrow> ('m, 'v) Stores \<Rightarrow> 'm \<Rightarrow> 'v \<Rightarrow> string \<Rightarrow> string \<Rightarrow> 'v \<times> repo_err option" where
  "DeleteLabel opts sx m v repo label =
     (case check_repo opts (sx_Metadata sx) m repo of
        Some e \<Rightarrow> (v, Some e)
      | None \<Rightarrow>
          (case st_Delete (sx_VMetadata sx) v (GetArchivePathToLabel repo label) of (v', e) \<Rightarrow> (v', map_option RStore e)))"

text \<open>Deleting labels one after the other, up to the first error unless errors are ignored.\<close>

fun delete_labels ::
  "deleteOptions \<Rightarrow> bool \<Rightarrow> ('m, 'v) Stores \<Rightarrow> 'm \<Rightarrow> string \<Rightarrow> 'v \<Rightarrow> string list \<Rightarrow> 'v \<times> repo_err option" where
  "delete_labels opts ignore sx m repo v [] = (v, None)"
| "delete_labels opts ignore sx m repo v (l # ls) =
     (case DeleteLabel opts sx m v repo l of
        (v', e) \<Rightarrow> if e \<noteq> None \<and> \<not> ignore then (v', e) else delete_labels opts ignore sx m repo v' ls)"

text \<open>The index files of a bundle: a known number of them, or all until one cannot be deleted.\<close>

fun delete_lists ::
  "bool \<Rightarrow> 'm Store \<Rightarrow> (64 word \<Rightarrow> string) \<Rightarrow> 'm \<Rightarrow> 64 word list \<Rightarrow> 'm \<times> repo_err option" where
  "delete_lists ignore st pth m [] = (m, None)"
| "delete_lists ignore st pth m (i # is) =
     (case st_Delete st m (pth i) of
        (m', e) \<Rightarrow> if e \<noteq> None \<and> \<not> ignore then (m', map_option RStore e) else delete_lists ignore st pth m' is)"

partial_function (option) delete_until :: "'m Store \<Rightarrow> (64 word \<Rightarrow> string) \<Rightarrow> 64 word \<Rightarrow> 'm \<Rightarrow> 'm option" where
  "delete_until st pth i m =
     (case st_Delete st m (pth i) of
        (m', Some e) \<Rightarrow> Some m'
      | (m', None) \<Rightarrow> delete_until st pth (i + 1) m')"

text \<open>
  \<open>DeleteBundle\<close>; \<open>now\<close> is the time that the listing of labels starts from. \<open>None\<close> means that a listing or the
  deletion of index files does not end.
\<close>

definition bundle_labels ::
  "'v env \<Rightarrow> go_time \<Rightarrow> deleteOptions \<Rightarrow> ('m, 'v) Stores \<Rightarrow> 'm \<Rightarrow> 'v \<Rightarrow> string \<Rightarrow> string \<Rightarrow> ('v \<times> repo_err option) option" where
  "bundle_labels E now opts sx m v repo bundleID =
     (if do_skipDeleteLabel opts then Some (v, None)
      else map_option (\<lambda>(labels, e). case e of
            Some x \<Rightarrow> (v, Some (RMeta x))
          | None \<Rightarrow> delete_labels opts (do_ignoreBundleError opts) sx m repo v
              (map ld_Name (filter (\<lambda>l. ld_BundleID l = bundleID) labels)))
        (ListLabels E sx m v now repo defaultSettings))"

definition delete_indices ::
  "bool \<Rightarrow> 'm Store \<Rightarrow> (64 word \<Rightarrow> string) \<Rightarrow> 'm \<Rightarrow> nat \<Rightarrow> ('m \<times> repo_err option) option" where
  "delete_indices ignore st pth m indexFiles =
     (if indexFiles = 0 \<and> ignore then map_option (\<lambda>m'. (m', None)) (delete_until st pth 0 m)
      else Some (delete_lists ignore st pth m (map of_nat [0..<indexFiles])))"

definition DeleteBundle ::
  "'v env \<Rightarrow> go_time \<Rightarrow> deleteOptions \<Rightarrow> ('m, 'v) Stores \<Rightarrow> 'm \<Rightarrow> 'v \<Rightarrow> string \<Rightarrow> string \<Rightarrow> ('m \<times> 'v \<times> repo_err option) option" where
  "DeleteBundle E now opts sx m v repo bundleID =
     (case check_repo opts (sx_Metadata sx) m repo of
        Some e \<Rightarrow> Some (m, v, Some e)
      | None \<Rightarrow>
          (case (downloadBundleDescriptor E (sx_Metadata sx) m repo (GetArchivePathToBundle repo bundleID) defaultSettings,
                do_ignoreBundleError opts) of
             (Inl e, False) \<Rightarrow> Some (m, v, Some (RMeta e))
           | (desc, ignore) \<Rightarrow>
               (case bundle_labels E now opts sx m v repo bundleID of
                  None \<Rightarrow> None
                | Some (v', Some e) \<Rightarrow> Some (m, v', Some e)
                | Some (v', None) \<Rightarrow>
                    (case delete_indices ignore (sx_Metadata sx) (GetArchivePathToBundleFileList repo bundleID) m
                        (case desc of Inl _ \<Rightarrow> 0 | Inr b \<Rightarrow> bd_BundleEntriesFileCount b) of
                       None \<Rightarrow> None
                     | Some (m', Some e) \<Rightarrow> Some (m', v', Some e)
                     | Some (m', None) \<Rightarrow>
                         (case st_Delete (sx_Metadata sx) m' (GetArchivePathToBundle repo bundleID) of
                            (m'', e) \<Rightarrow> Some (m'', v', if ignore then None else map_option RStore e))))))"

fun delete_bundles ::
  "'v env \<Rightarrow> go_time \<Rightarrow> deleteOptions \<Rightarrow> ('m, 'v) Stores \<Rightarrow> string \<Rightarrow> 'm \<Rightarrow> 'v \<Rightarrow> string list \<Rightarrow> ('m \<times> 'v \<times> repo_err option) option" where
  "delete_bundles E now opts sx repo m v [] = Some (m, v, None)"
| "delete_bundles E now opts sx repo m v (b # bs) =
     (case DeleteBundle E now opts sx m v repo b of
        None \<Rightarrow> None
      | Some (m', v', Some e) \<Rightarrow> Some (m', v', Some e)
      | Some (m', v', None) \<Rightarrow> delete_bundles E now opts sx repo m' v' bs)"

definition DeleteRepo ::
  "'v env \<Rightarrow> go_time \<Rightarrow> deleteOptions \<Rightarrow> ('m, 'v) Stores \<Rightarrow> 'm \<Rightarrow> 'v \<Rightarrow> string \<Rightarrow> ('m \<times> 'v \<times> repo_err option) option" where
  "DeleteRepo E now opts sx m v repo =
     (case check_repo opts (sx_Metadata sx) m repo of
        Some e \<Rightarrow> Some (m, v, Some e)
      | None \<Rightarrow>
          (case ListBundles E (sx_Metadata sx) m repo defaultSettings of
             None \<Rightarrow> None
           | Some (bundles, Some e) \<Rightarrow> Some (m, v, Some (RMeta e))
           | Some (bundles, None) \<Rightarrow>
               (case delete_bundles E now \<lparr>do_skipCheckRepo = True, do_skipDeleteLabel = True, do_ignoreBundleError = True\<rparr> sx repo m v
                   (map bd_ID bundles) of
                  None \<Rightarrow> None
                | Some (m', v', Some e) \<Rightarrow> Some (m', v', Some e)
                | Some (m', v', None) \<Rightarrow>
                    (case ListLabels E sx m' v' now repo defaultSettings of
                       None \<Rightarrow> None
                     | Some (labels, Some e) \<Rightarrow> Some (m', v', Some (RMeta e))
                     | Some (labels, None) \<Rightarrow>
                         (case delete_labels (no_deleteOptions\<lparr>do_skipCheckRepo := True\<rparr>) False sx m' repo v' (map ld_Name labels) of
                            (v'', Some e) \<Rightarrow> Some (m', v'', Some e)
                          | (v'', None) \<Rightarrow>
                              (case st_Delete (sx_Metadata sx) m' (GetArchivePathToRepoDescriptor repo) of
                                 (m'', e) \<Rightarrow> Some (m'', v'', map_option RStore e)))))))"

section \<open>Deleting files from all the bundles of a repository\<close>

text \<open>An index file is written again, in place, without the entries of the given names.\<close>

definition delete_from_list ::
  "BundleEntry list codec \<Rightarrow> 'm Store \<Rightarrow> string list \<Rightarrow> 'm \<Rightarrow> string \<Rightarrow> 'm \<times> repo_err option" where
  "delete_from_list cd st toDelete m pth =
     (case st_Get st m pth of
        Inl e \<Rightarrow> (m, Some (RStore e))
      | Inr buffer \<Rightarrow>
          (case cd_Unmarshal cd buffer of
             Inl e \<Rightarrow> (m, Some (RYaml e))
           | Inr entries \<Rightarrow>
               if list_ex (\<lambda>e. be_NameWithPath e \<in> set toDelete) entries then
                 (case cd_Marshal cd (filter (\<lambda>e. be_NameWithPath e \<notin> set toDelete) entries) of
                    Inl e \<Rightarrow> (m, Some (RYaml e))
                  | Inr buffer' \<Rightarrow> (case st_Put st m pth buffer' OverWrite of (m', e) \<Rightarrow> (m', map_option RStore e)))
               else (m, None)))"

fun delete_from_lists ::
  "BundleEntry list codec \<Rightarrow> 'm Store \<Rightarrow> string list \<Rightarrow> 'm \<Rightarrow> string list \<Rightarrow> 'm \<times> repo_err option" where
  "delete_from_lists cd st toDelete m [] = (m, None)"
| "delete_from_lists cd st toDelete m (pth # pths) =
     (case delete_from_list cd st toDelete m pth of
        (m', Some e) \<Rightarrow> (m', Some e)
      | (m', None) \<Rightarrow> delete_from_lists cd st toDelete m' pths)"

fun delete_from_bundles ::
  "'v env \<Rightarrow> BundleEntry list codec \<Rightarrow> 'm Store \<Rightarrow> string list \<Rightarrow> string \<Rightarrow> 'm \<Rightarrow> string list \<Rightarrow> 'm \<times> repo_err option" where
  "delete_from_bundles E cd st toDelete repo m [] = (m, None)"
| "delete_from_bundles E cd st toDelete repo m (bundleID # bundleIDs) =
     (case downloadBundleDescriptor E st m repo (GetArchivePathToBundle repo bundleID) defaultSettings of
        Inl e \<Rightarrow> (m, Some (RMeta e))
      | Inr bundle \<Rightarrow>
          (case delete_from_lists cd st toDelete m
              (map (\<lambda>i. GetArchivePathToBundleFileList repo bundleID (of_nat i)) [0..<bd_BundleEntriesFileCount bundle]) of
             (m', Some e) \<Rightarrow> (m', Some e)
           | (m', None) \<Rightarrow> delete_from_bundles E cd st toDelete repo m' bundleIDs))"

definition DeleteEntriesFromRepo ::
  "'v env \<Rightarrow> BundleEntry list codec \<Rightarrow> 'm Store \<Rightarrow> 'm \<Rightarrow> string \<Rightarrow> string list \<Rightarrow> ('m \<times> repo_err option) option" where
  "DeleteEntriesFromRepo E cd st m repo toDelete =
     (case RepoExists st m repo of
        Some e \<Rightarrow> Some (m, Some (CannotFindRepo e))
      | None \<Rightarrow>
          (case ListBundles E st m repo defaultSettings of
             None \<Rightarrow> None
           | Some (bundles, Some e) \<Rightarrow> Some (m, Some (RMeta e))
           | Some (bundles, None) \<Rightarrow> Some (delete_from_bundles E cd st toDelete repo m (map bd_ID bundles))))"

section \<open>Renaming a repository\<close>

text \<open>
  The operation applied to each listed bundle copies its descriptor and its index files. The check after
  reading an index file looks at the wrong error: a file that cannot be read is a nil reader, and reading
  from it ends the process (\<open>DevPanic\<close>).
\<close>

definition bundle_meta_err :: "bundle_err \<Rightarrow> meta_err" where
  "bundle_meta_err e = (case e of BMeta x \<Rightarrow> x | BStore x \<Rightarrow> StoreFail x | _ \<Rightarrow> YamlFail ''failed to validate bundle'')"

fun rename_lists :: "'m Store \<Rightarrow> 'm \<Rightarrow> (string \<times> string) list \<Rightarrow> 'm \<times> meta_err option" where
  "rename_lists st m [] = (m, None)"
| "rename_lists st m ((oldFileList, newFileList) # fs) =
     (case st_Get st m oldFileList of
        Inl ee \<Rightarrow> (m, Some DevPanic)
      | Inr buffer \<Rightarrow>
          (case put_crc st m newFileList buffer NoOverWrite of
             (m', Some e) \<Rightarrow> (m', Some (StoreFail e))
           | (m', None) \<Rightarrow> rename_lists st m' fs))"

definition rename_bundle :: "'v env \<Rightarrow> 'm Store \<Rightarrow> string \<Rightarrow> string \<Rightarrow> BundleDescriptor \<Rightarrow> 'm \<Rightarrow> 'm \<times> meta_err option" where
  "rename_bundle E st repo newRepo bundle m =
     (case uploadBundleDescriptor E st m \<lparr>bn_RepoID = newRepo, bn_BundleID = bd_ID bundle, bn_Descriptor = bundle,
         bn_Entries = [], bn_SkipOnError = False\<rparr> of
        (m', Some e) \<Rightarrow> (m', Some (bundle_meta_err e))
      | (m', None) \<Rightarrow>
          rename_lists st m' (map (\<lambda>i. (GetArchivePathToBundleFileList repo (bd_ID bundle) (of_nat i),
              GetArchivePathToBundleFileList newRepo (bd_ID bundle) (of_nat i))) [0..<bd_BundleEntriesFileCount bundle]))"

definition rename_label ::
  "'v env \<Rightarrow> ('m, 'v) Stores \<Rightarrow> 'm \<Rightarrow> string \<Rightarrow> LabelDescriptor \<Rightarrow> 'v \<Rightarrow> 'v \<times> meta_err option" where
  "rename_label E sx m newRepo label v = UploadDescriptor E sx m v newRepo (ld_BundleID label) label"

text \<open>
  \<open>lateb\<close> and \<open>latel\<close> are what the stages of the two listings report after a failure. The copies go to
  another repository, so that the listings do not see them.
\<close>

definition RenameRepo ::
  "'v env \<Rightarrow> (string \<Rightarrow> rune list) \<Rightarrow> (rune \<Rightarrow> bool) \<Rightarrow> (store_err \<Rightarrow> bool) \<Rightarrow> go_time \<Rightarrow> meta_err option \<Rightarrow> meta_err option \<Rightarrow>
   ('m, 'v) Stores \<Rightarrow> 'm \<Rightarrow> 'v \<Rightarrow> string \<Rightarrow> string \<Rightarrow> (panic, 'm \<times> 'v \<times> repo_err option) res option" where
  "RenameRepo E runes ok precondition now lateb latel sx m v repo newRepo =
     (let st = sx_Metadata sx in
      if RepoExists st m repo \<noteq> None then Some (Inr (m, v, map_option CannotFindRepo (RepoExists st m repo)))
      else if RepoExists st m newRepo = None then Some (Inr (m, v, Some (RepoAlreadyExists newRepo)))
      else case GetRepo E st m repo of
          Inl e \<Rightarrow> Some (Inr (m, v, Some (RMeta e)))
        | Inr desc \<Rightarrow>
            (case CreateRepo E runes ok precondition st m (desc\<lparr>rd_Name := newRepo\<rparr>) of
               Inl p \<Rightarrow> Some (Inl p)
             | Inr (m1, Some e) \<Rightarrow> Some (Inr (m1, v, Some e))
             | Inr (m1, None) \<Rightarrow>
                 (case ListBundlesApply E st m1 repo defaultSettings lateb (rename_bundle E st repo newRepo) m1 of
                    None \<Rightarrow> None
                  | Some (m2, Some DevPanic) \<Rightarrow> Some (Inl NilDereference)
                  | Some (m2, Some e) \<Rightarrow> Some (Inr (m2, v, Some (RMeta e)))
                  | Some (m2, None) \<Rightarrow>
                      (case ListLabelsApply E sx m2 v now repo defaultSettings latel (rename_label E sx m2 newRepo) v of
                         None \<Rightarrow> None
                       | Some (v1, Some e) \<Rightarrow> Some (Inr (m2, v1, Some (RMeta e)))
                       | Some (v1, None) \<Rightarrow> map_option Inr (DeleteRepo E now no_deleteOptions sx m2 v1 repo)))))"

section \<open>Squashing a repository\<close>

text \<open>
  All bundles but the latest are deleted, except, if so asked, those with a label, or with a label that
  is a semantic version. The number of bundles to keep is positive, as its option requires, or zero,
  which stands for one.
\<close>

definition labelled ::
  "(string \<Rightarrow> bool) \<Rightarrow> Settings \<Rightarrow> LabelDescriptor list \<Rightarrow> string \<Rightarrow> bool" where
  "labelled semver settings labels bundleID \<longleftrightarrow>
     list_ex (\<lambda>l. ld_BundleID l = bundleID \<and> (set_retainTags settings \<or> semver (ld_Name l))) labels"

definition squashed ::
  "(string \<Rightarrow> bool) \<Rightarrow> Settings \<Rightarrow> nat \<Rightarrow> LabelDescriptor list \<Rightarrow> string list \<Rightarrow> string list" where
  "squashed semver settings keep labels bundles =
     filter (\<lambda>b. \<not> ((set_retainTags settings \<or> set_retainSemverTags settings) \<and> labelled semver settings labels b))
       (take (length bundles - keep) bundles)"

text \<open>Labels whose bundle is gone are removed at the end.\<close>

definition clean_labels ::
  "'v env \<Rightarrow> go_time \<Rightarrow> ('m, 'v) Stores \<Rightarrow> Settings \<Rightarrow> string \<Rightarrow> 'm \<Rightarrow> 'v \<Rightarrow> ('m \<times> 'v \<times> repo_err option) option" where
  "clean_labels E now sx settings repo m v =
     (case ListBundlesApply E (sx_Metadata sx) m repo settings None (\<lambda>b acc. (acc @ [bd_ID b], None)) [] of
        None \<Rightarrow> None
      | Some (ids, Some e) \<Rightarrow> Some (m, v, Some (RMeta e))
      | Some (ids, None) \<Rightarrow>
          (case ListLabels E sx m v now repo defaultSettings of
             None \<Rightarrow> None
           | Some (labels, Some e) \<Rightarrow> Some (m, v, Some (RMeta e))
           | Some (labels, None) \<Rightarrow>
               (case delete_labels (no_deleteOptions\<lparr>do_skipCheckRepo := True\<rparr>) False sx m repo v
                   (map ld_Name (filter (\<lambda>l. ld_BundleID l \<notin> set ids) labels)) of
                  (v', e) \<Rightarrow> Some (m, v', e))))"

definition RepoSquash ::
  "'v env \<Rightarrow> (string \<Rightarrow> bool) \<Rightarrow> go_time \<Rightarrow> ('m, 'v) Stores \<Rightarrow> Settings \<Rightarrow> 'm \<Rightarrow> 'v \<Rightarrow> string \<Rightarrow> ('m \<times> 'v \<times> repo_err option) option" where
  "RepoSquash E semver now sx opts m v repo =
     (let settings = opts\<lparr>set_withMinimalBundle := True\<rparr>;
          keep = (if set_retainNLatest settings = 0 then 1 else nat (set_retainNLatest settings))
      in case RepoExists (sx_Metadata sx) m repo of
           Some e \<Rightarrow> Some (m, v, Some (CannotFindRepo e))
         | None \<Rightarrow>
             (case ListBundles E (sx_Metadata sx) m repo settings of
                None \<Rightarrow> None
              | Some (bundles, Some e) \<Rightarrow> Some (m, v, Some (RMeta e))
              | Some (bundles, None) \<Rightarrow>
                  if length bundles < keep + 1 then Some (m, v, None)
                  else
                    (case if set_retainTags settings \<or> set_retainSemverTags settings
                          then ListLabels E sx m v now repo settings else Some ([], None) of
                       None \<Rightarrow> None
                     | Some (labels, Some e) \<Rightarrow> Some (m, v, Some (RMeta e))
                     | Some (labels, None) \<Rightarrow>
                         (case delete_bundles E now \<lparr>do_skipCheckRepo = True, do_skipDeleteLabel = True, do_ignoreBundleError = True\<rparr> sx repo m v
                             (squashed semver settings keep labels (map bd_ID bundles)) of
                            None \<Rightarrow> None
                          | Some (m', v', Some e) \<Rightarrow> Some (m', v', Some e)
                          | Some (m', v', None) \<Rightarrow> clean_labels E now sx settings repo m' v'))))"


section \<open>What deletions remove\<close>

text \<open>A change that only removes objects, of a given set of names.\<close>

definition removes :: "string set \<Rightarrow> (string \<Rightarrow> bytes option) \<Rightarrow> (string \<Rightarrow> bytes option) \<Rightarrow> bool" where
  "removes K m m' \<longleftrightarrow> (\<forall>k. m' k = m k \<or> k \<in> K \<and> m' k = None)"

lemma removes_refl [simp]: "removes K m m"
  by (simp add: removes_def)

lemma removes_trans: "removes K m m1 \<Longrightarrow> removes K' m1 m2 \<Longrightarrow> removes (K \<union> K') m m2"
  unfolding removes_def by (metis Un_iff)

lemma removes_mono: "removes K m m' \<Longrightarrow> K \<subseteq> K' \<Longrightarrow> removes K' m m'"
  unfolding removes_def by blast

lemma removes_one: "k \<in> K \<Longrightarrow> removes K m (m(k := None))"
  by (simp add: removes_def)

lemma removes_None: "removes K m m' \<Longrightarrow> m k = None \<Longrightarrow> m' k = None"
  unfolding removes_def by metis

context object_store
begin

lemma delete_lists_removes:
  "\<exists>m' e. delete_lists ignore st pth m is = (m', e) \<and> removes (range pth) (content m) (content m') \<and> (ignore \<longrightarrow> e = None)"
proof (induction "is" arbitrary: m)
  case (Cons i "is")
  obtain m1 e1 where d: "st_Delete st m (pth i) = (m1, e1)" by force
  then have m1: "removes (range pth) (content m) (content m1)"
    using delete_gone [of m "pth i"] by (simp add: removes_one)
  from Cons.IH [of m1] obtain m' e where "delete_lists ignore st pth m1 is = (m', e)"
      "removes (range pth) (content m1) (content m')" "ignore \<longrightarrow> e = None" by blast
  with d m1 removes_trans [OF m1, of "range pth" "content m'"] show ?case by auto
qed simp

end

context bucket_api
begin

text \<open>
  Deleting until something cannot be deleted ends, even if the numbers wrap around: what was deleted
  cannot be deleted again.
\<close>

lemma delete_until_ends:
  "\<exists>m'. delete_until (gcs_store cl g) pth i m = Some m' \<and> removes (range pth) (gcs_content objects g m) (gcs_content objects g m')"
proof (induction "card {k \<in> range pth. gcs_content objects g m k \<noteq> None}" arbitrary: i m rule: less_induct)
  case less
  let ?c = "gcs_content objects g"
  obtain m1 e where d: "st_Delete (gcs_store cl g) m (pth i) = (m1, e)" by force
  have gone: "?c m1 = (?c m)(pth i := None)" using gcs.delete_gone [of g m "pth i"] d by simp
  show ?case
  proof (cases e)
    case (Some x)
    with d gone show ?thesis by (subst delete_until.simps) (simp add: removes_one)
  next
    case None
    have "?c m (pth i) \<noteq> None"
    proof
      assume "?c m (pth i) = None"
      then have "st_Delete (gcs_store cl g) m (pth i) = (m, Some ErrNotExists)"
        by (simp add: gcs_Delete_def gcs_content_def delete_none)
      with d None show False by simp
    qed
    then have "{k \<in> range pth. ?c m1 k \<noteq> None} \<subset> {k \<in> range pth. ?c m k \<noteq> None}" by (auto simp: gone split: if_splits)
    then have "card {k \<in> range pth. ?c m1 k \<noteq> None} < card {k \<in> range pth. ?c m k \<noteq> None}"
      by (rule psubset_card_mono [rotated]) simp
    from less [OF this, of "i + 1"] obtain m' where
      "delete_until (gcs_store cl g) pth (i + 1) m1 = Some m'" "removes (range pth) (?c m1) (?c m')" by blast
    moreover have "removes (range pth) (?c m) (?c m1)" unfolding gone by (simp add: removes_one)
    ultimately show ?thesis using removes_trans [of "range pth" "?c m" "?c m1" "range pth" "?c m'"] d None
      by (subst delete_until.simps) simp
  qed
qed

end


definition bundle_paths :: "string \<Rightarrow> string \<Rightarrow> string set" where
  "bundle_paths repo i = insert (GetArchivePathToBundle repo i) (range (GetArchivePathToBundleFileList repo i))"

lemma bundle_paths_apart:
  assumes "no_slash i" and "no_slash j" and "k \<in> bundle_paths repo i" and "k \<in> bundle_paths repo j"
  shows "i = j"
proof -
  have cut: "i = j" if "i @ CHR ''/'' # x = j @ CHR ''/'' # y" for x y
    using that assms(1,2) takeWhile_neq_append [of "CHR ''/''" i x] takeWhile_neq_append [of "CHR ''/''" j y] by metis
  have "\<exists>x. k = ''bundles/'' @ repo @ ''/'' @ i @ CHR ''/'' # x" "\<exists>y. k = ''bundles/'' @ repo @ ''/'' @ j @ CHR ''/'' # y"
    using assms(3,4) by (auto simp: bundle_paths_def build_path)
  with cut show ?thesis by auto
qed

definition squash_options :: deleteOptions where
  "squash_options = \<lparr>do_skipCheckRepo = True, do_skipDeleteLabel = True, do_ignoreBundleError = True\<rparr>"

context bucket_api
begin

lemma delete_indices_removes:
  "\<exists>m'. delete_indices True (gcs_store cl g) pth m n = Some (m', None)
    \<and> removes (range pth) (gcs_content objects g m) (gcs_content objects g m')"
  using delete_until_ends [of g pth 0 m] gcs.delete_lists_removes [of True g pth m "map of_nat [0..<n]"]
  by (auto simp: delete_indices_def)

lemma DeleteBundle_removes:
  assumes "sx_Metadata sx = gcs_store cl g"
  shows "\<exists>m'. DeleteBundle E now squash_options sx m v repo i = Some (m', v, None)
    \<and> removes (bundle_paths repo i) (gcs_content objects g m) (gcs_content objects g m')
    \<and> gcs_content objects g m' (GetArchivePathToBundle repo i) = None"
proof -
  let ?c = "gcs_content objects g" and ?p = "GetArchivePathToBundle repo i"
  let ?desc = "downloadBundleDescriptor E (gcs_store cl g) m repo ?p defaultSettings"
  let ?n = "case ?desc of Inl _ \<Rightarrow> 0 | Inr b \<Rightarrow> bd_BundleEntriesFileCount b"
  obtain m1 where m1: "delete_indices True (gcs_store cl g) (GetArchivePathToBundleFileList repo i) m ?n = Some (m1, None)"
      "removes (range (GetArchivePathToBundleFileList repo i)) (?c m) (?c m1)"
    using delete_indices_removes by blast
  obtain m2 e where d: "gcs_Delete cl g m1 ?p = (m2, e)" by force
  have gone: "?c m2 = (?c m1)(?p := None)" using gcs.delete_gone [of g m1 ?p] d by simp
  have "DeleteBundle E now squash_options sx m v repo i = Some (m2, v, None)"
    using m1(1) d by (auto simp: DeleteBundle_def squash_options_def check_repo_def bundle_labels_def assms split: sum.split)
  moreover have "removes (bundle_paths repo i) (?c m) (?c m2)"
    using removes_trans [OF m1(2) removes_one [of ?p "{?p}" "?c m1"]] unfolding gone bundle_paths_def by simp
  ultimately show ?thesis using gone by auto
qed

lemma delete_bundles_removes:
  assumes "sx_Metadata sx = gcs_store cl g"
  shows "\<exists>m'. delete_bundles E now squash_options sx repo m v is = Some (m', v, None)
    \<and> removes (\<Union>i \<in> set is. bundle_paths repo i) (gcs_content objects g m) (gcs_content objects g m')
    \<and> (\<forall>i \<in> set is. gcs_content objects g m' (GetArchivePathToBundle repo i) = None)"
proof (induction "is" arbitrary: m)
  case (Cons i "is")
  from DeleteBundle_removes [OF assms, of E now m v repo i] obtain m1 where
    m1: "DeleteBundle E now squash_options sx m v repo i = Some (m1, v, None)"
      "removes (bundle_paths repo i) (gcs_content objects g m) (gcs_content objects g m1)"
      "gcs_content objects g m1 (GetArchivePathToBundle repo i) = None" by blast
  from Cons.IH [of m1] obtain m' where
    m': "delete_bundles E now squash_options sx repo m1 v is = Some (m', v, None)"
      "removes (\<Union>i \<in> set is. bundle_paths repo i) (gcs_content objects g m1) (gcs_content objects g m')"
      "\<forall>i \<in> set is. gcs_content objects g m' (GetArchivePathToBundle repo i) = None" by blast
  from removes_trans [OF m1(2) m'(2)] removes_None [OF m'(2) m1(3)] m1(1) m'(1,3) show ?case by auto
qed simp

end

text \<open>
  C8: squashing a repository deletes what it should and nothing else. With the bundles in the order of the
  listing, the given number of latest bundles and, if asked for, every bundle with a label (or a semantic
  version for label) keep their descriptor and all their index files as they were; the other bundles have
  no descriptor any more; everything outside the bundles of the repository is untouched. The deletions always end, whatever the
  state of the metadata, and the call goes on to remove the labels without a bundle.
\<close>

theorem RepoSquash_exact:
  assumes "bucket_api cl objects" and "sx_Metadata sx = gcs_store cl g" and "RepoExists (sx_Metadata sx) m repo = None"
    and "settings = opts\<lparr>set_withMinimalBundle := True\<rparr>"
    and "keep = (if set_retainNLatest settings = 0 then 1 else nat (set_retainNLatest settings))"
    and "ListBundles E (sx_Metadata sx) m repo settings = Some (bundles, None)" and "keep < length bundles"
    and "retain = (set_retainTags settings \<or> set_retainSemverTags settings)"
    and "(if retain then ListLabels E sx m v now repo settings else Some ([], None)) = Some (labels, None)"
    and "ids = map bd_ID bundles" and "distinct ids" and "\<forall>i \<in> set ids. no_slash i"
  shows "\<exists>m'. RepoSquash E semver now sx opts m v repo = clean_labels E now sx settings repo m' v
    \<and> (\<forall>i \<in> set ids. if i \<in> set (drop (length ids - keep) ids) \<or> retain \<and> labelled semver settings labels i
        then \<forall>k \<in> bundle_paths repo i. gcs_content objects g m' k = gcs_content objects g m k
        else gcs_content objects g m' (GetArchivePathToBundle repo i) = None)
    \<and> (\<forall>k. (\<forall>i \<in> set ids. k \<notin> bundle_paths repo i) \<longrightarrow> gcs_content objects g m' k = gcs_content objects g m k)"
proof -
  let ?del = "squashed semver settings keep labels ids"
  have split: "i \<in> set (take n ids) \<longleftrightarrow> i \<notin> set (drop n ids)" if "i \<in> set ids" for i n
  proof -
    have "set ids = set (take n ids) \<union> set (drop n ids)" by (metis append_take_drop_id set_append)
    with that set_take_disj_set_drop_if_distinct [OF assms(11), of n n] show ?thesis by blast
  qed
  have del: "i \<in> set ?del \<longleftrightarrow> i \<notin> set (drop (length ids - keep) ids) \<and> \<not> (retain \<and> labelled semver settings labels i)"
    if "i \<in> set ids" for i
    using split [OF that, of "length ids - keep"] by (auto simp: squashed_def assms(8))
  have sub: "set ?del \<subseteq> set ids" by (auto simp: squashed_def dest: in_set_takeD)
  from bucket_api.delete_bundles_removes [OF assms(1,2), of E now repo m v ?del] obtain m' where
    m': "delete_bundles E now squash_options sx repo m v ?del = Some (m', v, None)"
      "removes (\<Union>i \<in> set ?del. bundle_paths repo i) (gcs_content objects g m) (gcs_content objects g m')"
      "\<forall>i \<in> set ?del. gcs_content objects g m' (GetArchivePathToBundle repo i) = None" by blast
  have "RepoSquash E semver now sx opts m v repo = clean_labels E now sx settings repo m' v"
    using assms(3,5-9) m'(1) unfolding RepoSquash_def Let_def assms(4) [symmetric] squash_options_def [symmetric] assms(10)
    by (simp split: if_splits)
  moreover have "gcs_content objects g m' k = gcs_content objects g m k"
    if "i \<in> set ids" "i \<notin> set ?del" "k \<in> bundle_paths repo i" for i k
  proof -
    have "k \<notin> bundle_paths repo j" if "j \<in> set ?del" for j
      using bundle_paths_apart [of i j k repo] that \<open>i \<notin> set ?del\<close> \<open>k \<in> _\<close> \<open>i \<in> set ids\<close> sub assms(12) by blast
    then show ?thesis using m'(2) unfolding removes_def by blast
  qed
  moreover have "gcs_content objects g m' k = gcs_content objects g m k" if "\<forall>i \<in> set ids. k \<notin> bundle_paths repo i" for k
    using m'(2) that sub unfolding removes_def by blast
  ultimately show ?thesis using m'(3) del by (intro exI [of _ m']) auto
qed


definition two_bundles :: "(string \<times> bytes) list" where
  "two_bundles = [(''repos/r/repo.yaml'', [0]), (''bundles/r/a/bundle.yaml'', []), (''bundles/r/b/bundle.yaml'', [])]"

lemma two_bundles_repo: "RepoExists (sx_Metadata tag_stores) two_bundles ''r'' = None"
  by (simp add: RepoExists_def bucket_eval two_bundles_def build_path file_names)

lemma two_bundles_listed:
  assumes "set_withMinimalBundle settings"
  shows "ListBundles list_env (sx_Metadata tag_stores) two_bundles ''r'' settings = Some (map minimal_bundle [''a'', ''b''], None)"
proof (rule ListBundles_listed [OF two_bundles_repo, where kss = "[[''bundles/r/a/'', ''bundles/r/b/'']]"])
  show "pages (bundle_page (sx_Metadata tag_stores) two_bundles ''r'' settings) '''' [[''bundles/r/a/'', ''bundles/r/b/'']] None"
    by (simp add: pages_simps bucket_eval two_bundles_def GetArchivePathPrefixToBundles_def)
  show "downloadBundleDescriptor list_env (sx_Metadata tag_stores) two_bundles ''r'' (GetArchivePathPrefixToBundles ''r'' @ i @ ''/'') settings =
      Inr (minimal_bundle i) \<and> bd_ID (minimal_bundle i) = i" if "i \<in> set [''a'', ''b'']" for i
  proof -
    have "no_slash i" using that by auto
    with assms show ?thesis by (simp add: downloadBundleDescriptor_def bundle_prefix_path no_components_def minimal_bundle_def)
  qed
qed (simp_all add: GetArchivePathPrefixToBundles_def list_env_def less_char_def)

theorem RepoSquash_exact_witness:
  "\<exists>m'. RepoSquash list_env (\<lambda>_. False) 1 tag_stores defaultSettings two_bundles [] ''r'' =
      clean_labels list_env 1 tag_stores (defaultSettings\<lparr>set_withMinimalBundle := True\<rparr>) ''r'' m' []
    \<and> gcs_content map_of plain_gcs m' ''bundles/r/a/bundle.yaml'' = None
    \<and> gcs_content map_of plain_gcs m' ''bundles/r/b/bundle.yaml'' = Some []"
proof -
  let ?s = "defaultSettings\<lparr>set_withMinimalBundle := True\<rparr>" and ?ids = "map bd_ID (map minimal_bundle [''a'', ''b''])"
  have meta: "sx_Metadata tag_stores = gcs_store steady_client plain_gcs" by (simp add: tag_stores_def)
  have ids: "?ids = [''a'', ''b'']" by (simp add: minimal_bundle_def)
  have listed: "ListBundles list_env (sx_Metadata tag_stores) two_bundles ''r'' ?s = Some (map minimal_bundle [''a'', ''b''], None)"
    by (rule two_bundles_listed) simp
  have "set_retainNLatest ?s = 1" "\<not> set_retainTags ?s" "\<not> set_retainSemverTags ?s" by (simp_all add: defaultSettings_def)
  with RepoSquash_exact [OF steady.bucket_api_axioms meta two_bundles_repo refl _ listed _ _ _ refl, where keep = 1 and retain = False and labels = "[]"
      and semver = "\<lambda>_. False" and now = 1 and v = "[]"]
  obtain m' where m': "RepoSquash list_env (\<lambda>_. False) 1 tag_stores defaultSettings two_bundles [] ''r'' = clean_labels list_env 1 tag_stores ?s ''r'' m' []"
      "\<forall>i \<in> set ?ids. if i \<in> set (drop (length ?ids - 1) ?ids)
        then \<forall>k \<in> bundle_paths ''r'' i. gcs_content map_of plain_gcs m' k = gcs_content map_of plain_gcs two_bundles k
        else gcs_content map_of plain_gcs m' (GetArchivePathToBundle ''r'' i) = None"
    unfolding ids by auto
  moreover have "gcs_content map_of plain_gcs two_bundles ''bundles/r/b/bundle.yaml'' = Some []"
    by (simp add: gcs_content_def two_bundles_def getFullObjectName_def)
  ultimately show ?thesis
    by (intro exI [of _ m']) (simp add: minimal_bundle_def bundle_paths_def build_path file_names)
qed


section \<open>What the deletion of files does to bundles\<close>

abbreviation keeping :: "string list \<Rightarrow> BundleEntry list \<Rightarrow> BundleEntry list" where
  "keeping toDelete \<equiv> filter (\<lambda>e. be_NameWithPath e \<notin> set toDelete)"

text \<open>The metadata of a bundle as the listing and the deletions use it.\<close>

definition bundle_listed ::
  "'v env \<Rightarrow> BundleEntry list codec \<Rightarrow> (string \<Rightarrow> bytes option) \<Rightarrow> string \<Rightarrow> string \<Rightarrow> BundleEntry list list \<Rightarrow> bool" where
  "bundle_listed E cd m repo i bs \<longleftrightarrow>
     (\<exists>buf d. m (GetArchivePathToBundle repo i) = Some buf \<and> cd_Unmarshal (en_bundle E) buf = Inr d \<and> bd_ID d = i
        \<and> bd_BundleEntriesFileCount d = length bs)
     \<and> index_stored cd (GetArchivePathToBundleFileList repo i) m 0 bs"

lemma keeping_none: "\<not> list_ex (\<lambda>e. be_NameWithPath e \<in> set toDelete) es \<Longrightarrow> keeping toDelete es = es"
  by (auto simp: list_ex_iff intro: filter_True)

lemma index_stored_same:
  assumes "index_stored cd pth m 0 bs" and "\<And>k. k \<in> range pth \<Longrightarrow> m' k = m k"
  shows "index_stored cd pth m' 0 bs"
  using assms by (auto simp: index_stored_def nth_path_def)

lemma index_stored_upd:
  assumes "inj pth" and "index_stored cd pth m 0 bs" and "j < length bs" and "length bs < 2 ^ 64" and "cd_Marshal cd x = Inr buf"
  shows "index_stored cd pth (m(nth_path pth j \<mapsto> buf)) 0 (bs[j := x])"
proof -
  have "nth_path pth k = nth_path pth j \<longleftrightarrow> k = j" if "k < length bs" for k
    using inj_eq [OF assms(1)] of_nat_word_inj [of k j] that assms(3,4) by (auto simp: nth_path_def)
  with assms(2,3,5) show ?thesis by (auto simp: index_stored_def nth_list_update)
qed

context object_store
begin

lemma delete_from_list_ok:
  assumes "codec_ok cd" and "cd_Marshal cd es = Inr buf" and "content m pth = Some buf"
  shows "\<exists>m' buf'. delete_from_list cd st toDelete m pth = (m', None) \<and> cd_Marshal cd (keeping toDelete es) = Inr buf'
    \<and> content m' = (content m)(pth \<mapsto> buf')"
proof (cases "list_ex (\<lambda>e. be_NameWithPath e \<in> set toDelete) es")
  case True
  from codec_okD [OF assms(1)] obtain buf' where "cd_Marshal cd (keeping toDelete es) = Inr buf'" by blast
  moreover obtain m' where "st_Put st m pth buf' OverWrite = (m', None)" "content m' = (content m)(pth \<mapsto> buf')"
    using put_new [of OverWrite m pth buf'] by (auto simp: OverWrite_def)
  ultimately show ?thesis
    using True assms codec_okD [OF assms(1), of es] by (auto simp: delete_from_list_def get)
next
  case False
  then show ?thesis
    using assms codec_okD [OF assms(1), of es] keeping_none [OF False]
    by (intro exI [of _ m] exI [of _ buf]) (auto simp: delete_from_list_def get fun_upd_idem)
qed

lemma delete_from_lists_ok:
  assumes "codec_ok cd" and "inj pth" and "length bs < 2 ^ 64"
  shows "\<lbrakk>index_stored cd pth (content m) 0 bs; distinct js; \<forall>j \<in> set js. j < length bs\<rbrakk> \<Longrightarrow>
    \<exists>m'. delete_from_lists cd st toDelete m (map (\<lambda>j. pth (of_nat j)) js) = (m', None)
    \<and> index_stored cd pth (content m') 0 (map (\<lambda>j. if j \<in> set js then keeping toDelete (bs ! j) else bs ! j) [0..<length bs])
    \<and> (\<forall>k. k \<notin> nth_path pth ` set js \<longrightarrow> content m' k = content m k)"
  using assms(3)
proof (induction js arbitrary: m bs)
  case Nil
  then show ?case by (simp add: map_nth)
next
  case (Cons j js)
  from Cons.prems(1,3) obtain buf where buf: "cd_Marshal cd (bs ! j) = Inr buf" "content m (nth_path pth j) = Some buf"
    by (auto simp: index_stored_def)
  from delete_from_list_ok [OF assms(1) buf, of toDelete] obtain m1 buf' where
    m1: "delete_from_list cd st toDelete m (nth_path pth j) = (m1, None)" "cd_Marshal cd (keeping toDelete (bs ! j)) = Inr buf'"
      "content m1 = (content m)(nth_path pth j \<mapsto> buf')" by blast
  let ?bs = "bs[j := keeping toDelete (bs ! j)]"
  have "index_stored cd pth (content m1) 0 ?bs"
    unfolding m1(3) using Cons.prems by (intro index_stored_upd assms(2) m1(2)) simp_all
  with Cons.IH [of m1 ?bs] Cons.prems obtain m' where
    m': "delete_from_lists cd st toDelete m1 (map (\<lambda>j. pth (of_nat j)) js) = (m', None)"
      "index_stored cd pth (content m') 0 (map (\<lambda>k. if k \<in> set js then keeping toDelete (?bs ! k) else ?bs ! k) [0..<length bs])"
      "\<forall>k. k \<notin> nth_path pth ` set js \<longrightarrow> content m' k = content m1 k" by auto
  have "map (\<lambda>k. if k \<in> set js then keeping toDelete (?bs ! k) else ?bs ! k) [0..<length bs] =
      map (\<lambda>k. if k \<in> set (j # js) then keeping toDelete (bs ! k) else bs ! k) [0..<length bs]"
    using Cons.prems(2,3) by (intro map_cong) (auto simp: nth_list_update)
  with m1(1,3) m' show ?case by (auto simp: nth_path_def)
qed

end


definition index_paths :: "string \<Rightarrow> string \<Rightarrow> nat \<Rightarrow> string set" where
  "index_paths repo i n = nth_path (GetArchivePathToBundleFileList repo i) ` {..<n}"

lemma index_paths_in: "index_paths repo i n \<subseteq> bundle_paths repo i"
  by (auto simp: index_paths_def bundle_paths_def nth_path_def)

lemma bundle_listed_same:
  assumes "bundle_listed E cd m repo i bs" and "\<And>k. k \<in> bundle_paths repo i \<Longrightarrow> m' k = m k"
  shows "bundle_listed E cd m' repo i bs"
  using assms index_stored_same [of cd "GetArchivePathToBundleFileList repo i" m bs m']
  by (auto simp: bundle_listed_def bundle_paths_def)

context object_store
begin

lemma listed_descriptor:
  assumes "bundle_listed E cd (content m) repo i bs" and "no_slash repo" and "no_slash i"
  shows "\<exists>d. downloadBundleDescriptor E st m repo (GetArchivePathToBundle repo i) defaultSettings = Inr d
    \<and> bd_BundleEntriesFileCount d = length bs"
proof -
  have "GetArchivePathComponents (en_ksuid E) (GetArchivePathToBundle repo i) =
      Inr (no_components\<lparr>apc_Repo := repo, apc_BundleID := i, apc_ArchiveFileName := bundleDescriptorFile\<rparr>)"
    using assms(2,3) by (simp add: build_path parse_path no_components_def)
  with assms(1) show ?thesis
    by (auto simp: bundle_listed_def downloadBundleDescriptor_def read_yaml_def get no_components_def defaultSettings_def)
qed

lemma delete_from_bundles_ok:
  assumes "codec_ok cd" and "no_slash repo"
  shows "\<lbrakk>distinct is; \<forall>i \<in> set is. no_slash i \<and> length (bss i) < 2 ^ 64 \<and> bundle_listed E cd (content m) repo i (bss i)\<rbrakk> \<Longrightarrow>
    \<exists>m'. delete_from_bundles E cd st toDelete repo m is = (m', None)
    \<and> (\<forall>i \<in> set is. bundle_listed E cd (content m') repo i (map (keeping toDelete) (bss i)))
    \<and> (\<forall>k. (\<forall>i \<in> set is. k \<notin> index_paths repo i (length (bss i))) \<longrightarrow> content m' k = content m k)"
proof (induction "is" arbitrary: m)
  case (Cons i "is")
  let ?p = "GetArchivePathToBundleFileList repo i" and ?d = "GetArchivePathToBundle repo i"
  from Cons.prems have i: "no_slash i" "length (bss i) < 2 ^ 64" "bundle_listed E cd (content m) repo i (bss i)" by auto
  from listed_descriptor [OF i(3) assms(2) i(1)] obtain d where
    d: "downloadBundleDescriptor E st m repo ?d defaultSettings = Inr d" "bd_BundleEntriesFileCount d = length (bss i)" by blast
  from delete_from_lists_ok [OF assms(1) bundle_list_inj [of repo i] i(2), of m "[0..<length (bss i)]" toDelete] i(3) obtain m1 where
    m1: "delete_from_lists cd st toDelete m (map (\<lambda>j. ?p (of_nat j)) [0..<length (bss i)]) = (m1, None)"
      "index_stored cd ?p (content m1) 0 (map (\<lambda>j. if j \<in> set [0..<length (bss i)] then keeping toDelete (bss i ! j) else bss i ! j) [0..<length (bss i)])"
      "\<forall>k. k \<notin> index_paths repo i (length (bss i)) \<longrightarrow> content m1 k = content m k"
    by (auto simp: bundle_listed_def index_paths_def atLeast0LessThan)
  have "map (\<lambda>j. if j \<in> set [0..<length (bss i)] then keeping toDelete (bss i ! j) else bss i ! j) [0..<length (bss i)] = map (keeping toDelete) (bss i)"
    by (rule nth_equalityI) simp_all
  moreover have "content m1 ?d = content m ?d" using m1(3) descriptor_not_index [of repo i] by (auto simp: index_paths_def nth_path_def)
  ultimately have new: "bundle_listed E cd (content m1) repo i (map (keeping toDelete) (bss i))"
    using m1(2) i(3) by (simp add: bundle_listed_def)
  have m1_same: "content m1 k = content m k" if "k \<notin> bundle_paths repo i" for k
    using that m1(3) index_paths_in by blast
  have apart: "k \<notin> bundle_paths repo i" if "i' \<in> set is" "k \<in> bundle_paths repo i'" for i' k
    using bundle_paths_apart [of i i' k repo] that Cons.prems by auto
  have "\<forall>i \<in> set is. no_slash i \<and> length (bss i) < 2 ^ 64 \<and> bundle_listed E cd (content m1) repo i (bss i)"
    using Cons.prems(2) m1_same apart by (auto intro: bundle_listed_same)
  with Cons.IH [of m1] Cons.prems(1) obtain m' where
    m': "delete_from_bundles E cd st toDelete repo m1 is = (m', None)"
      "\<forall>i \<in> set is. bundle_listed E cd (content m') repo i (map (keeping toDelete) (bss i))"
      "\<forall>k. (\<forall>i \<in> set is. k \<notin> index_paths repo i (length (bss i))) \<longrightarrow> content m' k = content m1 k" by auto
  have "content m' k = content m1 k" if "k \<in> bundle_paths repo i" for k using m'(3) apart index_paths_in that by blast
  then have "bundle_listed E cd (content m') repo i (map (keeping toDelete) (bss i))" by (rule bundle_listed_same [OF new])
  with d m1(1,3) m' show ?case by auto
qed simp

text \<open>A download of file lists that succeeds has found every list but the last one full.\<close>

lemma download_lists_mem:
  assumes "downloadBundleFileList cd False (Some (st, m)) co b js = Inr (co', rs)" and "j \<in> set js"
    and "content m (GetArchivePathToBundleFileList (bn_RepoID b) (bn_BundleID b) (of_nat j)) = Some buf" and "cd_Unmarshal cd buf = Inr es"
  shows "(j, Inr es) \<in> set rs"
  using assms(1,2)
proof (induction js arbitrary: co rs)
  case (Cons i js)
  then obtain co1 r rs1 where
    one: "downloadBundleFileListFile cd False (Some (st, m)) co b (of_nat i) = Inr (co1, r)"
      "downloadBundleFileList cd False (Some (st, m)) co1 b js = Inr (co', rs1)" "rs = (i, r) # rs1"
    by (auto split: sum.splits prod.splits)
  have "r = Inr es" if "i = j"
    using one(1) that assms(3,4) by (auto simp: downloadBundleFileListFile_def get Let_def split: sum.splits)
  with Cons.IH [OF one(2)] Cons.prems(2) one(3) show ?case by auto
qed simp

end

lemma unpack_lists_full:
  "unpack_lists epf cnt es rs = Inr (es', None) \<Longrightarrow> (i, Inr new) \<in> set rs \<Longrightarrow> i + 1 \<noteq> cnt \<Longrightarrow> length new = epf"
  by (induction epf cnt es rs rule: unpack_lists.induct) (auto simp: Let_def split: if_splits)


text \<open>An index file other than the last loses an entry.\<close>

definition loses_entry :: "string list \<Rightarrow> nat \<Rightarrow> BundleEntry list list \<Rightarrow> bool" where
  "loses_entry toDelete epf bs \<longleftrightarrow> (\<exists>j. j + 1 < length bs \<and> length (bs ! j) = epf \<and> (\<exists>e \<in> set (bs ! j). be_NameWithPath e \<in> set toDelete))"

context object_store
begin

lemma short_list_unreadable:
  assumes "codec_ok cd" and "bundle_listed E cd (content m) (bn_RepoID b) (bn_BundleID b) (map (keeping toDelete) bs)" and "loses_entry toDelete epf bs"
    and "bd_BundleEntriesFileCount (bn_Descriptor b) = length bs" and "mset (order [0..<length bs]) = mset [0..<length bs]"
  shows "unpackBundleFileList cd order False epf (Some (st, m)) co b \<noteq> Inr (co', b', None)"
proof
  from assms(3) obtain j where j: "j + 1 < length bs" "length (bs ! j) = epf" "\<exists>e \<in> set (bs ! j). be_NameWithPath e \<in> set toDelete"
    unfolding loses_entry_def by blast
  let ?n = "length bs" and ?new = "keeping toDelete (bs ! j)"
  assume "unpackBundleFileList cd order False epf (Some (st, m)) co b = Inr (co', b', None)"
  then obtain rs es where rs: "downloadBundleFileList cd False (Some (st, m)) co b (order [0..<?n]) = Inr (co', rs)"
      "unpack_lists epf ?n (replicate (?n * epf) empty_entry) rs = Inr (es, None)"
    using assms(4) by (auto simp: unpackBundleFileList_def Let_def split: sum.splits prod.splits)
  have "j \<in> set (order [0..<?n])" using mset_eq_setD [OF assms(5)] j(1) by simp
  moreover obtain buf where "cd_Marshal cd ?new = Inr buf"
      "content m (GetArchivePathToBundleFileList (bn_RepoID b) (bn_BundleID b) (of_nat j)) = Some buf"
    using assms(2) j(1) by (auto simp: bundle_listed_def index_stored_def nth_path_def dest!: Suc_lessD)
  moreover from this(1) codec_okD [OF assms(1), of ?new] have "cd_Unmarshal cd buf = Inr ?new" by auto
  ultimately have "(j, Inr ?new) \<in> set rs" using download_lists_mem [OF rs(1)] by blast
  with unpack_lists_full [OF rs(2)] j(1) have "length ?new = epf" by simp
  moreover from j(3) have "length ?new < length (bs ! j)" by (auto intro: length_filter_less)
  ultimately show False using j(2) by simp
qed

end

text \<open>
  C9: deleting files from a repository rewrites exactly the index files of its bundles, without the entries
  of these names, and leaves every other object alone, the descriptors of the bundles too. A bundle with more than one index file does not
  survive it: when an index file other than the last loses an entry, it is no longer full, and no
  download of the bundle's file list succeeds any more, in whatever order the lists arrive.
\<close>

theorem DeleteEntries_exact:
  assumes "bucket_api cl objects" and "codec_ok cd" and "RepoExists (gcs_store cl g) m repo = None"
    and "ListBundles E (gcs_store cl g) m repo defaultSettings = Some (bundles, None)" and "ids = map bd_ID bundles"
    and "distinct ids" and "no_slash repo"
    and "\<forall>i \<in> set ids. no_slash i \<and> length (bss i) < 2 ^ 64 \<and> bundle_listed E cd (gcs_content objects g m) repo i (bss i)"
  shows "\<exists>m'. DeleteEntriesFromRepo E cd (gcs_store cl g) m repo toDelete = Some (m', None)
    \<and> (\<forall>i \<in> set ids. bundle_listed E cd (gcs_content objects g m') repo i (map (keeping toDelete) (bss i)))
    \<and> (\<forall>k. (\<forall>i \<in> set ids. k \<notin> index_paths repo i (length (bss i))) \<longrightarrow> gcs_content objects g m' k = gcs_content objects g m k)
    \<and> (\<forall>i \<in> set ids. \<forall>b epf order co co' b'. loses_entry toDelete epf (bss i) \<longrightarrow> bn_RepoID b = repo \<longrightarrow> bn_BundleID b = i
        \<longrightarrow> bd_BundleEntriesFileCount (bn_Descriptor b) = length (bss i) \<longrightarrow> mset (order [0..<length (bss i)]) = mset [0..<length (bss i)]
        \<longrightarrow> unpackBundleFileList cd order False epf (Some (gcs_store cl g, m')) co b \<noteq> Inr (co', b', None))"
proof -
  note st = gcs_is_store [OF assms(1), of g]
  from object_store.delete_from_bundles_ok [OF st assms(2,7,6,8), of toDelete] obtain m' where
    m': "delete_from_bundles E cd (gcs_store cl g) toDelete repo m ids = (m', None)"
      "\<forall>i \<in> set ids. bundle_listed E cd (gcs_content objects g m') repo i (map (keeping toDelete) (bss i))"
      "\<forall>k. (\<forall>i \<in> set ids. k \<notin> index_paths repo i (length (bss i))) \<longrightarrow> gcs_content objects g m' k = gcs_content objects g m k" by blast
  have "DeleteEntriesFromRepo E cd (gcs_store cl g) m repo toDelete = Some (m', None)"
    using m'(1) assms(3-5) by (simp add: DeleteEntriesFromRepo_def)
  moreover have "\<forall>i \<in> set ids. \<forall>b epf order co co' b'. loses_entry toDelete epf (bss i) \<longrightarrow> bn_RepoID b = repo \<longrightarrow> bn_BundleID b = i
      \<longrightarrow> bd_BundleEntriesFileCount (bn_Descriptor b) = length (bss i) \<longrightarrow> mset (order [0..<length (bss i)]) = mset [0..<length (bss i)]
      \<longrightarrow> unpackBundleFileList cd order False epf (Some (gcs_store cl g, m')) co b \<noteq> Inr (co', b', None)"
    using object_store.short_list_unreadable [OF st assms(2)] m'(2) by metis
  ultimately show ?thesis using m'(2,3) by blast
qed


text \<open>A bundle with two index files of one entry each.\<close>

definition wide_bundle :: Bundle where
  "wide_bundle = \<lparr>bn_RepoID = ''r'', bn_BundleID = ''a'', bn_Descriptor = (minimal_bundle ''a'')\<lparr>bd_BundleEntriesFileCount := 2\<rparr>,
     bn_Entries = [], bn_SkipOnError = False\<rparr>"

definition wide_bucket :: "(string \<times> bytes) list" where
  "wide_bucket = [(''repos/r/repo.yaml'', [0]), (''bundles/r/a/bundle.yaml'', projr (cd_Marshal (en_bundle list_env) (bn_Descriptor wide_bundle))),
     (''bundles/r/a/bundle-files-0.yaml'', projr (cd_Marshal entries_codec [entry ''f'' ''1'' 1])),
     (''bundles/r/a/bundle-files-1.yaml'', projr (cd_Marshal entries_codec [entry ''g'' ''2'' 1]))]"

abbreviation wide_lists :: "string \<Rightarrow> BundleEntry list list" where
  "wide_lists \<equiv> \<lambda>_. [[entry ''f'' ''1'' 1], [entry ''g'' ''2'' 1]]"

lemma wide_facts:
  "RepoExists (gcs_store steady_client plain_gcs) wide_bucket ''r'' = None"
  "bundle_listed list_env entries_codec (gcs_content map_of plain_gcs wide_bucket) ''r'' ''a'' (wide_lists ''a'')"
  "ListBundles list_env (gcs_store steady_client plain_gcs) wide_bucket ''r'' defaultSettings = Some ([bn_Descriptor wide_bundle], None)"
proof -
  show repo: "RepoExists (gcs_store steady_client plain_gcs) wide_bucket ''r'' = None"
    by (simp add: RepoExists_def bucket_eval wide_bucket_def build_path file_names)
  have digits: "digit_char 0 = CHR ''0''" "digit_char 1 = CHR ''1''" by code_simp+
  have yaml: "cd_Unmarshal (en_bundle list_env) (projr (cd_Marshal (en_bundle list_env) x)) = Inr x" for x
    using codec_projr [OF ser_codec_ok [OF bundle_ser_ok]] by (simp add: list_env_def)
  have desc: "bd_ID (bn_Descriptor wide_bundle) = ''a''" "bd_BundleEntriesFileCount (bn_Descriptor wide_bundle) = 2"
    by (simp_all add: wide_bundle_def minimal_bundle_def)
  have cont: "gcs_content map_of plain_gcs wide_bucket (GetArchivePathToBundle ''r'' ''a'') = Some (projr (cd_Marshal (en_bundle list_env) (bn_Descriptor wide_bundle)))"
      "gcs_content map_of plain_gcs wide_bucket (nth_path (GetArchivePathToBundleFileList ''r'' ''a'') 0) = Some (projr (cd_Marshal entries_codec [entry ''f'' ''1'' 1]))"
      "gcs_content map_of plain_gcs wide_bucket (nth_path (GetArchivePathToBundleFileList ''r'' ''a'') 1) = Some (projr (cd_Marshal entries_codec [entry ''g'' ''2'' 1]))"
    using digits by (simp_all add: gcs_content_def wide_bucket_def getFullObjectName_def build_path file_names nth_path_def show_nat.simps)
  have "index_stored entries_codec (GetArchivePathToBundleFileList ''r'' ''a'') (gcs_content map_of plain_gcs wide_bucket) 0 (wide_lists ''a'')"
    using cont(2,3) codec_projr [OF entries_codec_ok] by (auto simp: index_stored_def less_Suc_eq)
  with cont(1) yaml desc show "bundle_listed list_env entries_codec (gcs_content map_of plain_gcs wide_bucket) ''r'' ''a'' (wide_lists ''a'')"
    by (simp add: bundle_listed_def)
  have page: "pages (bundle_page (gcs_store steady_client plain_gcs) wide_bucket ''r'' defaultSettings) '''' [[''bundles/r/a/'']] None"
    by (simp add: pages_simps bucket_eval wide_bucket_def GetArchivePathPrefixToBundles_def)
  have down: "downloadBundleDescriptor list_env (gcs_store steady_client plain_gcs) wide_bucket ''r'' (GetArchivePathPrefixToBundles ''r'' @ i @ ''/'') defaultSettings =
      Inr (bn_Descriptor wide_bundle) \<and> bd_ID (bn_Descriptor wide_bundle) = i" if "i \<in> set [''a'']" for i
    using that bundle_prefix_path [of "''r''" "''a''" "en_ksuid list_env"] cont(1) yaml desc object_store.get [OF gcs_is_store [OF steady.bucket_api_axioms], of plain_gcs wide_bucket]
    by (simp add: downloadBundleDescriptor_def no_components_def defaultSettings_def read_yaml_def)
  from ListBundles_listed [OF repo page _ _ _ _ down, where ids = "[''a'']"]
  show "ListBundles list_env (gcs_store steady_client plain_gcs) wide_bucket ''r'' defaultSettings = Some ([bn_Descriptor wide_bundle], None)"
    by (simp add: GetArchivePathPrefixToBundles_def list_env_def)
qed

theorem DeleteEntries_exact_witness:
  "\<exists>m'. DeleteEntriesFromRepo list_env entries_codec (gcs_store steady_client plain_gcs) wide_bucket ''r'' [''f''] = Some (m', None)
    \<and> (\<forall>co' b'. unpackBundleFileList entries_codec rev False 1 (Some (gcs_store steady_client plain_gcs, m')) (None :: unit opened) wide_bundle \<noteq> Inr (co', b', None))"
proof -
  have desc: "bd_ID (bn_Descriptor wide_bundle) = ''a''" "bn_BundleID wide_bundle = ''a''" "bn_RepoID wide_bundle = ''r''"
      "bd_BundleEntriesFileCount (bn_Descriptor wide_bundle) = 2" by (simp_all add: wide_bundle_def minimal_bundle_def)
  have lose: "loses_entry [''f''] 1 (wide_lists ''a'')"
    unfolding loses_entry_def by (intro exI [of _ 0]) (simp add: entry_def)
  from DeleteEntries_exact [OF steady.bucket_api_axioms entries_codec_ok wide_facts(1,3) refl, where bss = wide_lists and toDelete = "[''f'']"] wide_facts(2)
  obtain m' where m': "DeleteEntriesFromRepo list_env entries_codec (gcs_store steady_client plain_gcs) wide_bucket ''r'' [''f''] = Some (m', None)"
      "\<forall>b epf order co co' b'. loses_entry [''f''] epf (wide_lists ''a'') \<longrightarrow> bn_RepoID b = ''r'' \<longrightarrow> bn_BundleID b = ''a''
        \<longrightarrow> bd_BundleEntriesFileCount (bn_Descriptor b) = length (wide_lists ''a'') \<longrightarrow> mset (order [0..<length (wide_lists ''a'')]) = mset [0..<length (wide_lists ''a'')]
        \<longrightarrow> unpackBundleFileList entries_codec order False epf (Some (gcs_store steady_client plain_gcs, m')) (co :: unit opened) b \<noteq> Inr (co', b', None)"
    by (auto simp: desc)
  with lose desc show ?thesis by auto
qed

end
