(* ===== verification/GoTime.thy ===== *)
theory GoTime
  imports GoStd "HOL-Library.Monad_Syntax"
begin

text \<open>
  What \<open>pkg/core/purge.go\<close> uses of Go's package \<open>time\<close>: the text of a UTC time in the layout
  \<open>time.RFC3339Nano\<close> and its parsing. Times are nanoseconds since the beginning of 1970. Parsing is that
  of the strict form of the layout, in UTC and not before 1970.
\<close>

section \<open>The calendar\<close>

definition leap :: "nat \<Rightarrow> bool" where
  "leap y \<longleftrightarrow> y mod 4 = 0 \<and> (y mod 100 \<noteq> 0 \<or> y mod 400 = 0)"

definition year_days :: "nat \<Rightarrow> nat" where
  "year_days y = (if leap y then 366 else 365)"

definition month_days :: "nat \<Rightarrow> nat list" where
  "month_days y = [31, if leap y then 29 else 28, 31, 30, 31, 30, 31, 31, 30, 31, 30, 31]"

lemma year_days_pos [simp]: "0 < year_days y"
  by (simp add: year_days_def)

text \<open>The year of a day counted from the first day of year \<open>y\<close>, and the day within the year.\<close>

function day_year :: "nat \<Rightarrow> nat \<Rightarrow> nat \<times> nat" where
  "day_year d y = (if d < year_days y then (y, d) else day_year (d - year_days y) (y + 1))"
  by pat_completeness auto
termination
  by (relation "measure fst") (auto simp: year_days_def)

declare day_year.simps [simp del]

fun day_month :: "nat \<Rightarrow> nat list \<Rightarrow> nat \<times> nat" where
  "day_month d [] = (0, d)"
| "day_month d (m # ms) = (if d < m then (0, d) else case day_month (d - m) ms of (k, r) \<Rightarrow> (k + 1, r))"

definition days_before :: "nat \<Rightarrow> nat" where
  "days_before y = sum_list (map year_days [1970..<y])"

lemma day_year_sum:
  "day_year d y = (y', r) \<Longrightarrow> y \<le> y' \<and> r < year_days y' \<and> d = sum_list (map year_days [y..<y']) + r"
proof (induction d y rule: day_year.induct)
  case (1 d y)
  show ?case
  proof (cases "d < year_days y")
    case True
    with "1.prems" show ?thesis by (subst (asm) day_year.simps) simp
  next
    case False
    with "1.prems" have "day_year (d - year_days y) (y + 1) = (y', r)" by (subst (asm) day_year.simps) simp
    with "1.IH" [OF False] have ih: "y + 1 \<le> y'" "r < year_days y'"
        "d - year_days y = sum_list (map year_days [y + 1..<y']) + r" by auto
    from ih(1) have "[y..<y'] = y # [y + 1..<y']" by (simp add: upt_conv_Cons)
    with ih False show ?thesis by simp
  qed
qed

lemma day_month_sum:
  "day_month d ms = (k, r) \<Longrightarrow> d < sum_list ms \<Longrightarrow> k < length ms \<and> r < ms ! k \<and> d = sum_list (take k ms) + r"
proof (induction ms arbitrary: d k)
  case (Cons m ms)
  show ?case
  proof (cases "d < m")
    case False
    with Cons.prems obtain j where "day_month (d - m) ms = (j, r)" "k = Suc j" by (auto split: prod.splits)
    moreover from False Cons.prems(2) have "d - m < sum_list ms" by simp
    ultimately show ?thesis using Cons.IH [of "d - m" j] False by auto
  qed (use Cons.prems in auto)
qed simp

lemma month_days_year: "sum_list (month_days y) = year_days y" "length (month_days y) = 12"
  by (simp_all add: month_days_def year_days_def)

lemma month_days_bound: "k < 12 \<Longrightarrow> month_days y ! k \<le> 31"
  by (simp add: month_days_def less_Suc_eq numeral_eq_Suc) auto

section \<open>The text of a time\<close>

text \<open>Digits padded with zeros to a width.\<close>

definition pad :: "nat \<Rightarrow> nat \<Rightarrow> string" where
  "pad w n = (let ds = show_nat n in replicate (w - length ds) (CHR ''0'') @ ds)"

text \<open>The fraction of a second loses the zeros at its end, and the point with the last of them.\<close>

definition trim_zeros :: "string \<Rightarrow> string" where
  "trim_zeros s = rev (dropWhile (\<lambda>c. c = CHR ''0'') (rev s))"

definition frac_text :: "nat \<Rightarrow> string" where
  "frac_text ns = (let s = trim_zeros (pad 9 ns) in if s = [] then [] else CHR ''.'' # s)"

definition format_time :: "nat \<Rightarrow> string" where
  "format_time t =
     (let ns = t mod 10 ^ 9; s = t div 10 ^ 9; sod = s mod 86400;
          (y, yd) = day_year (s div 86400) 1970; (mo, dom) = day_month yd (month_days y)
      in pad 4 y @ ''-'' @ pad 2 (mo + 1) @ ''-'' @ pad 2 (dom + 1) @ ''T'' @
         pad 2 (sod div 3600) @ '':'' @ pad 2 (sod mod 3600 div 60) @ '':'' @ pad 2 (sod mod 60) @ frac_text ns @ ''Z'')"

section \<open>Parsing\<close>

definition read_digits :: "nat \<Rightarrow> string \<Rightarrow> (nat \<times> string) option" where
  "read_digits w s =
     (if w \<le> length s \<and> list_all is_digit (take w s) then Some (read_nat (take w s), drop w s) else None)"

definition read_char :: "char \<Rightarrow> string \<Rightarrow> string option" where
  "read_char c s = (case s of [] \<Rightarrow> None | x # r \<Rightarrow> if x = c then Some r else None)"

text \<open>Digits of the fraction after the ninth do not count.\<close>

definition read_frac :: "string \<Rightarrow> (nat \<times> string) option" where
  "read_frac s =
     (case s of
        [] \<Rightarrow> Some (0, [])
      | c # r \<Rightarrow>
          if c = CHR ''.'' then
            let ds = takeWhile is_digit r in
            if ds = [] then None
            else Some (read_nat (take 9 (ds @ replicate (9 - length ds) (CHR ''0''))), dropWhile is_digit r)
          else Some (0, s))"

definition parse_time :: "string \<Rightarrow> nat option" where
  "parse_time s0 = do {
     (y, s) \<leftarrow> read_digits 4 s0; s \<leftarrow> read_char (CHR ''-'') s;
     (mo, s) \<leftarrow> read_digits 2 s; s \<leftarrow> read_char (CHR ''-'') s;
     (dom, s) \<leftarrow> read_digits 2 s; s \<leftarrow> read_char (CHR ''T'') s;
     (h, s) \<leftarrow> read_digits 2 s; s \<leftarrow> read_char (CHR '':'') s;
     (mi, s) \<leftarrow> read_digits 2 s; s \<leftarrow> read_char (CHR '':'') s;
     (sec, s) \<leftarrow> read_digits 2 s; (ns, s) \<leftarrow> read_frac s;
     if s = ''Z'' \<and> 1970 \<le> y \<and> 1 \<le> mo \<and> mo \<le> 12 \<and> 1 \<le> dom \<and> dom \<le> month_days y ! (mo - 1)
        \<and> h < 24 \<and> mi < 60 \<and> sec < 60
     then Some ((((days_before y + sum_list (take (mo - 1) (month_days y)) + (dom - 1)) * 86400
       + h * 3600 + mi * 60 + sec) * 10 ^ 9) + ns)
     else None }"

lemma read_nat_zeros [simp]: "read_nat (replicate k (CHR ''0'') @ s) = read_nat s"
proof (induction k)
  case (Suc k)
  then show ?case by (simp add: read_nat_def digit_val_def)
qed simp

lemma zero_digit [simp]: "is_digit CHR ''0''"
  by (simp add: is_digit_def)

lemma length_show_nat: "0 < w \<Longrightarrow> n < 10 ^ w \<Longrightarrow> length (show_nat n) \<le> w"
proof (induction w arbitrary: n)
  case (Suc w)
  show ?case
  proof (cases "n < 10")
    case False
    with Suc.prems have w: "0 < w" by (cases w) auto
    from Suc.prems have "n div 10 < 10 ^ w" by (simp add: less_mult_imp_div_less mult.commute)
    with Suc.IH w have "length (show_nat (n div 10)) \<le> w" by blast
    with False show ?thesis by (subst show_nat.simps) simp
  qed (subst show_nat.simps, simp)
qed simp

lemma length_pad: "0 < w \<Longrightarrow> n < 10 ^ w \<Longrightarrow> length (pad w n) = w"
  using length_show_nat [of w n] by (simp add: pad_def Let_def)

lemma pad_digits [simp]: "list_all is_digit (pad w n)" and read_pad [simp]: "read_nat (pad w n) = n"
  using show_nat_digits [of n] by (auto simp: pad_def Let_def list_all_iff)

lemma read_digits_pad: "0 < w \<Longrightarrow> n < 10 ^ w \<Longrightarrow> read_digits w (pad w n @ r) = Some (n, r)"
  using length_pad [of w n] by (simp add: read_digits_def)

lemma read_char_Cons [simp]: "read_char c (c # r) = Some r"
  by (simp add: read_char_def)

lemma trim_zeros_pad: "s = trim_zeros s @ replicate (length s - length (trim_zeros s)) (CHR ''0'')"
proof -
  have *: "xs = takeWhile (\<lambda>c. c = CHR ''0'') xs @ dropWhile (\<lambda>c. c = CHR ''0'') xs" for xs :: string by simp
  have "takeWhile (\<lambda>c. c = CHR ''0'') xs = replicate (length (takeWhile (\<lambda>c. c = CHR ''0'') xs)) (CHR ''0'')" for xs
    by (induction xs) auto
  then have "s = trim_zeros s @ replicate (length (takeWhile (\<lambda>c. c = CHR ''0'') (rev s))) (CHR ''0'')"
    unfolding trim_zeros_def by (metis * rev_append rev_replicate rev_rev_ident)
  then show ?thesis by (metis add_diff_cancel_left' length_append length_replicate)
qed

lemma read_frac_text:
  assumes "ns < 10 ^ 9"
  shows "read_frac (frac_text ns @ ''Z'') = Some (ns, ''Z'')"
proof -
  let ?s = "pad 9 ns"
  have len: "length ?s = 9" using length_pad [of 9 ns] assms by simp
  have z: "\<not> is_digit CHR ''Z''" by (simp add: is_digit_def)
  note pad = trim_zeros_pad [of ?s, unfolded len]
  have digits: "list_all is_digit (trim_zeros ?s)"
    using pad_digits [of 9 ns] by (subst (asm) pad) simp
  have short: "length (trim_zeros ?s) \<le> 9" using len length_dropWhile_le [of _ "rev ?s"] by (simp add: trim_zeros_def)
  show ?thesis
  proof (cases "trim_zeros ?s = []")
    case True
    with pad have "?s = replicate 9 (CHR ''0'') @ []" by simp
    then have "read_nat ?s = read_nat []" by (metis read_nat_zeros)
    with True show ?thesis by (simp add: frac_text_def read_frac_def read_nat_def [of "[]"])
  next
    case False
    have all: "\<And>x. x \<in> set (trim_zeros ?s) \<Longrightarrow> is_digit x" using digits by (simp add: list_all_iff)
    then have "takeWhile is_digit (trim_zeros ?s @ ''Z'') = trim_zeros ?s" "dropWhile is_digit (trim_zeros ?s @ ''Z'') = ''Z''"
      using z by (simp_all add: takeWhile_append dropWhile_append)
    moreover have "read_nat (take 9 (trim_zeros ?s @ replicate (9 - length (trim_zeros ?s)) (CHR ''0''))) = ns"
      using short pad by (metis len order_refl read_pad take_all)
    ultimately show ?thesis using False short by (simp add: frac_text_def read_frac_def Let_def)
  qed
qed

text \<open>The year of a time, which the layout has four digits for.\<close>

definition time_year :: "nat \<Rightarrow> nat" where
  "time_year t = fst (day_year (t div 10 ^ 9 div 86400) 1970)"

lemma parse_format_time:
  assumes "time_year t < 10000"
  shows "parse_time (format_time t) = Some t"
proof -
  define ns where "ns = t mod 10 ^ 9"
  define s where "s = t div 10 ^ 9"
  define sod where "sod = s mod 86400"
  obtain y yd where y: "day_year (s div 86400) 1970 = (y, yd)" by fastforce
  obtain mo dom where mo: "day_month yd (month_days y) = (mo, dom)" by fastforce
  from day_year_sum [OF y] have ys: "1970 \<le> y" "yd < year_days y" "s div 86400 = days_before y + yd"
    by (auto simp: days_before_def)
  from day_month_sum [OF mo] ys(2) have ms: "mo < 12" "dom < month_days y ! mo" "yd = sum_list (take mo (month_days y)) + dom"
    by (simp_all add: month_days_year)
  from month_days_bound [OF ms(1), of y] ms(2) have dom: "dom < 31" by simp
  have y4: "y < 10000" using assms y by (simp add: time_year_def s_def)
  have sod: "sod < 86400" by (simp add: sod_def)
  have ns: "ns < 10 ^ 9" by (simp add: ns_def)
  have hms: "sod div 3600 < 24" "sod mod 3600 div 60 < 60" "sod mod 60 < 60"
    using sod by (auto simp: less_mult_imp_div_less)
  have fmt: "format_time t = pad 4 y @ ''-'' @ pad 2 (mo + 1) @ ''-'' @ pad 2 (dom + 1) @ ''T'' @
      pad 2 (sod div 3600) @ '':'' @ pad 2 (sod mod 3600 div 60) @ '':'' @ pad 2 (sod mod 60) @ frac_text ns @ ''Z''"
    unfolding format_time_def Let_def s_def [symmetric] ns_def [symmetric] sod_def [symmetric] y by (simp add: mo)
  have "sod mod 3600 mod 60 = sod mod 60" by (simp add: mod_mod_cancel)
  then have "sod = sod div 3600 * 3600 + sod mod 3600 div 60 * 60 + sod mod 60"
    using div_mult_mod_eq [of sod 3600] div_mult_mod_eq [of "sod mod 3600" 60] by linarith
  then have "s = (days_before y + sum_list (take mo (month_days y)) + dom) * 86400
      + sod div 3600 * 3600 + sod mod 3600 div 60 * 60 + sod mod 60"
    using ys(3) ms(3) div_mult_mod_eq [of s 86400] unfolding sod_def by (metis add.assoc)
  then have "t = ((days_before y + sum_list (take mo (month_days y)) + dom) * 86400
      + sod div 3600 * 3600 + sod mod 3600 div 60 * 60 + sod mod 60) * 10 ^ 9 + ns"
    using div_mult_mod_eq [of t "10 ^ 9"] unfolding ns_def s_def by metis
  moreover have "parse_time (format_time t) = Some (((days_before y + sum_list (take mo (month_days y)) + dom) * 86400
      + sod div 3600 * 3600 + sod mod 3600 div 60 * 60 + sod mod 60) * 10 ^ 9 + ns)"
    using ys(1) ms(1,2) dom hms y4
    by (simp add: fmt parse_time_def read_digits_pad read_frac_text [OF ns])
  ultimately show ?thesis by simp
qed

end
