(* ===== verification/KvStore.thy ===== *)
theory KvStore
  imports GoStd
begin

text \<open>
  The local key-value store of the purge job: the interface of \<open>pkg/core/kv.go\<close> and its default
  implementation on the package \<open>pebble\<close> (\<open>purge_pebble.go\<close>). The package is a parameter, a record of the
  calls the code makes; the locale \<open>pebble_api\<close> states their documented behaviour. What the purge job
  relies on is the locale \<open>kv_store\<close>. \<open>Size\<close> and \<open>Close\<close>, which only serve to report and to release resources,
  are left out, and so is the implementation on the package \<open>badger\<close>.
\<close>

section \<open>The interface\<close>

record 'd kvStore =
  kv_Drop :: "'d \<Rightarrow> 'd \<times> string option"
  kv_Exists :: "'d \<Rightarrow> string \<Rightarrow> (string, bool) res"
  kv_Get :: "'d \<Rightarrow> string \<Rightarrow> (string, string) res"
  kv_Set :: "'d \<Rightarrow> string \<Rightarrow> string \<Rightarrow> 'd \<times> string option"
  kv_SetIfNotExists :: "'d \<Rightarrow> string \<Rightarrow> string \<Rightarrow> 'd \<times> string option"
  \<comment> \<open>what an iterator gives, item by item\<close>
  kv_AllKeys :: "'d \<Rightarrow> (string, string \<times> string) res list"
  kv_Compact :: "'d \<Rightarrow> 'd \<times> string option"

section \<open>The package\<close>

datatype pb_err = PbNotFound | PbOther string

text \<open>
  \<open>Merge\<close> combines the value of a key, if any, with a new one by the merge function the database was opened
  with. \<open>RangeBounds\<close> is asked of a new iterator; a missing bound is \<open>nil\<close>.
\<close>

record 'd pebble =
  pb_Get :: "'d \<Rightarrow> string \<Rightarrow> (pb_err, string) res"
  pb_Set :: "'d \<Rightarrow> string \<Rightarrow> string \<Rightarrow> 'd \<times> pb_err option"
  pb_Merge :: "(string option \<Rightarrow> string \<Rightarrow> string option) \<Rightarrow> 'd \<Rightarrow> string \<Rightarrow> string \<Rightarrow> 'd \<times> pb_err option"
  pb_Delete :: "'d \<Rightarrow> string \<Rightarrow> 'd \<times> pb_err option"
  pb_DeleteRange :: "'d \<Rightarrow> string \<Rightarrow> string \<Rightarrow> 'd \<times> pb_err option"
  pb_Compact :: "'d \<Rightarrow> string \<Rightarrow> string \<Rightarrow> 'd \<times> pb_err option"
  pb_RangeBounds :: "'d \<Rightarrow> string option \<times> string option"
  pb_Items :: "'d \<Rightarrow> (string \<times> string) list" \<comment> \<open>from \<open>First\<close>, as long as there is a \<open>Next\<close>\<close>

fun pb_text :: "pb_err \<Rightarrow> string" where
  "pb_text PbNotFound = ''pebble: not found''"
| "pb_text (PbOther e) = e"

section \<open>The merge function\<close>

text \<open>\<open>ignoreNewMerger\<close>: its buffer, \<open>None\<close> for \<open>nil\<close>.\<close>

definition ignoreNew_MergeNewer :: "string option \<Rightarrow> string option \<Rightarrow> string option" where
  "ignoreNew_MergeNewer buf val = (if buf = None then val else buf)"

definition ignoreNew_MergeOlder :: "string option \<Rightarrow> string option \<Rightarrow> string option" where
  "ignoreNew_MergeOlder buf val = (if val \<noteq> None then val else buf)"

definition ignoreNew_Finish :: "string option \<Rightarrow> string option" where
  "ignoreNew_Finish buf = buf"

text \<open>The merger is made with the new value and then sees the older one.\<close>

definition ignore_new :: "string option \<Rightarrow> string \<Rightarrow> string option" where
  "ignore_new older value = ignoreNew_Finish (ignoreNew_MergeOlder (Some value) older)"

section \<open>The implementation\<close>

abbreviation pb_result :: "'d \<times> pb_err option \<Rightarrow> 'd \<times> string option" where
  "pb_result r \<equiv> map_prod id (map_option pb_text) r"

text \<open>The bounds are compared as byte strings, \<open>nil\<close> being the empty one.\<close>

fun bytes_less :: "string \<Rightarrow> string \<Rightarrow> bool" where
  "bytes_less s [] = False"
| "bytes_less [] (d # t) = True"
| "bytes_less (c # s) (d # t) =
     ((of_char c :: nat) < of_char d \<or> c = d \<and> bytes_less s t)"

definition bound :: "string option \<Rightarrow> string" where
  "bound b = (case b of None \<Rightarrow> '''' | Some k \<Rightarrow> k)"

definition kvPebble_Drop :: "'d pebble \<Rightarrow> 'd \<Rightarrow> 'd \<times> string option" where
  "kvPebble_Drop pb d =
     (let start = bound (fst (pb_RangeBounds pb d)); end = bound (snd (pb_RangeBounds pb d)) in
      if \<not> bytes_less start end then (d, None)
      else case pb_DeleteRange pb d start end of
          (d', Some e) \<Rightarrow> (d', Some (pb_text e))
        | (d', None) \<Rightarrow>
            (case pb_Delete pb d' end of
               (d'', e) \<Rightarrow> (d'', if e = None \<or> e = Some PbNotFound then None else map_option pb_text e)))"

definition kvPebble_Get :: "'d pebble \<Rightarrow> 'd \<Rightarrow> string \<Rightarrow> (string, string) res" where
  "kvPebble_Get pb d key = (case pb_Get pb d key of Inl e \<Rightarrow> Inl (pb_text e) | Inr v \<Rightarrow> Inr v)"

definition kvPebble_Exists :: "'d pebble \<Rightarrow> 'd \<Rightarrow> string \<Rightarrow> (string, bool) res" where
  "kvPebble_Exists pb d key =
     (case pb_Get pb d key of
        Inl e \<Rightarrow> if e = PbNotFound then Inr False else Inl (pb_text e)
      | Inr _ \<Rightarrow> Inr True)"

definition kvPebble_Set :: "'d pebble \<Rightarrow> 'd \<Rightarrow> string \<Rightarrow> string \<Rightarrow> 'd \<times> string option" where
  "kvPebble_Set pb d key v = pb_result (pb_Set pb d key v)"

definition kvPebble_SetIfNotExists :: "'d pebble \<Rightarrow> 'd \<Rightarrow> string \<Rightarrow> string \<Rightarrow> 'd \<times> string option" where
  "kvPebble_SetIfNotExists pb d key v =
     (case kvPebble_Exists pb d key of
        Inl e \<Rightarrow> (d, Some e)
      | Inr found \<Rightarrow> if found then (d, None) else pb_result (pb_Merge pb ignore_new d key v))"

definition kvPebble_AllKeys :: "'d pebble \<Rightarrow> 'd \<Rightarrow> (string, string \<times> string) res list" where
  "kvPebble_AllKeys pb d = map Inr (pb_Items pb d)"

definition kvPebble_Compact :: "'d pebble \<Rightarrow> 'd \<Rightarrow> 'd \<times> string option" where
  "kvPebble_Compact pb d =
     (let start = bound (fst (pb_RangeBounds pb d)); end = bound (snd (pb_RangeBounds pb d)) in
      if \<not> bytes_less start end then (d, None) else pb_result (pb_Compact pb d start end))"

definition kvPebble :: "'d pebble \<Rightarrow> 'd kvStore" where
  "kvPebble pb = \<lparr>kv_Drop = kvPebble_Drop pb, kv_Exists = kvPebble_Exists pb, kv_Get = kvPebble_Get pb, kv_Set = kvPebble_Set pb,
     kv_SetIfNotExists = kvPebble_SetIfNotExists pb, kv_AllKeys = kvPebble_AllKeys pb, kv_Compact = kvPebble_Compact pb\<rparr>"

text \<open>
  \<open>makeKVPebble\<close> opens the database of a directory (the arguments are what creating the directory and
  \<open>pebble.Open\<close> returned) and is meant to scratch what an earlier run has left in it.
\<close>

definition makeKVPebble :: "'d pebble \<Rightarrow> string option \<Rightarrow> (string, 'd) res \<Rightarrow> (string, 'd) res" where
  "makeKVPebble pb mkdir opened =
     (case mkdir of
        Some e \<Rightarrow> Inl e
      | None \<Rightarrow>
          (case opened of
             Inl e \<Rightarrow> Inl e
           | Inr d \<Rightarrow> (case kvPebble_Drop pb d of (d', Some e) \<Rightarrow> Inl e | (d', None) \<Rightarrow> Inr d')))"

section \<open>What the purge job relies on\<close>

text \<open>
  A store without failures is a map from keys to values: an insertion keeps what is there, and an
  iterator gives every key once.
\<close>

locale kv_store =
  fixes kv :: "'d kvStore"
    and view :: "'d \<Rightarrow> string \<Rightarrow> string option"
  assumes exists [simp]: "kv_Exists kv d k = Inr (view d k \<noteq> None)"
    and set_ok: "\<exists>d'. kv_Set kv d k v = (d', None) \<and> view d' = (view d)(k \<mapsto> v)"
    and insert_ok: "\<exists>d'. kv_SetIfNotExists kv d k v = (d', None)
      \<and> view d' = (if view d k = None then (view d)(k \<mapsto> v) else view d)"
    and items: "\<exists>xs. kv_AllKeys kv d = map Inr xs \<and> distinct (map fst xs) \<and> set xs = {(k, v). view d k = Some v}"
    and compact_ok: "\<exists>d'. kv_Compact kv d = (d', None) \<and> view d' = view d"

text \<open>
  The documented behaviour of the package on a database without failures. A new iterator has no position,
  and no range key covers it: its \<open>RangeBounds\<close> are \<open>nil\<close>.
\<close>

locale pebble_api =
  fixes pb :: "'d pebble"
    and rows :: "'d \<Rightarrow> string \<Rightarrow> string option"
  assumes get: "pb_Get pb d k = (case rows d k of None \<Rightarrow> Inl PbNotFound | Some v \<Rightarrow> Inr v)"
    and set: "\<exists>d'. pb_Set pb d k v = (d', None) \<and> rows d' = (rows d)(k \<mapsto> v)"
    and merge: "\<exists>d'. pb_Merge pb mf d k v = (d', None) \<and> rows d' = (rows d)(k := mf (rows d k) v)"
    and iterated: "distinct (map fst (pb_Items pb d))" "set (pb_Items pb d) = {(k, v). rows d k = Some v}"
    and bounds: "pb_RangeBounds pb d = (None, None)"

sublocale pebble_api \<subseteq> kv: kv_store "kvPebble pb" rows
proof
  fix d k v
  show ex: "kv_Exists (kvPebble pb) d k = Inr (rows d k \<noteq> None)"
    by (simp add: kvPebble_def kvPebble_Exists_def get split: option.splits)
  show "\<exists>d'. kv_Set (kvPebble pb) d k v = (d', None) \<and> rows d' = (rows d)(k \<mapsto> v)"
    using set [of d k v] by (auto simp: kvPebble_def kvPebble_Set_def)
  show "\<exists>d'. kv_SetIfNotExists (kvPebble pb) d k v = (d', None)
      \<and> rows d' = (if rows d k = None then (rows d)(k \<mapsto> v) else rows d)"
    using merge [of ignore_new d k v] ex
    by (auto simp: kvPebble_def kvPebble_SetIfNotExists_def ignore_new_def ignoreNew_MergeOlder_def ignoreNew_Finish_def)
  show "\<exists>xs. kv_AllKeys (kvPebble pb) d = map Inr xs \<and> distinct (map fst xs) \<and> set xs = {(k, v). rows d k = Some v}"
    using iterated [of d] by (auto simp: kvPebble_def kvPebble_AllKeys_def)
  show "\<exists>d'. kv_Compact (kvPebble pb) d = (d', None) \<and> rows d' = rows d"
    by (simp add: kvPebble_def kvPebble_Compact_def bounds bound_def)
qed

context pebble_api
begin

lemma is_kv: "kv_store (kvPebble pb) rows"
  by unfold_locales

text \<open>The bounds that \<open>Drop\<close> asks for are never there: nothing is scratched.\<close>

lemma drop_keeps: "kv_Drop (kvPebble pb) d = (d, None)"
  by (simp add: kvPebble_def kvPebble_Drop_def bounds bound_def)

lemma make_keeps: "makeKVPebble pb None (Inr d) = Inr d"
  using drop_keeps [of d] by (simp add: makeKVPebble_def kvPebble_def)

end

section \<open>A database in memory\<close>

text \<open>Rows kept in the order of their keys, each key once.\<close>

fun put_row :: "string \<Rightarrow> string option \<Rightarrow> (string \<times> string) list \<Rightarrow> (string \<times> string) list" where
  "put_row k v [] = (case v of None \<Rightarrow> [] | Some x \<Rightarrow> [(k, x)])"
| "put_row k v ((k', x') # rs) =
     (if k = k' then (case v of None \<Rightarrow> rs | Some x \<Rightarrow> (k, x) # rs)
      else if bytes_less k k' then (case v of None \<Rightarrow> [] | Some x \<Rightarrow> [(k, x)]) @ (k', x') # rs
      else (k', x') # put_row k v rs)"

lemma bytes_less_irrefl [simp]: "\<not> bytes_less s s"
  by (induction s) auto

lemma bytes_less_trans: "bytes_less s t \<Longrightarrow> bytes_less t u \<Longrightarrow> bytes_less s u"
  by (induction s t arbitrary: u rule: bytes_less.induct) (case_tac u; auto)+

lemma bytes_less_linear: "bytes_less s t \<or> s = t \<or> bytes_less t s"
proof (induction s t rule: bytes_less.induct)
  case (1 s)
  then show ?case by (cases s) auto
next
  case (3 c s d t)
  have "(of_char c :: nat) = of_char d \<Longrightarrow> c = d" by (metis char_of_char)
  with 3 show ?case by (auto simp: not_less_iff_gr_or_eq)
qed simp

definition ordered_rows :: "(string \<times> string) list \<Rightarrow> bool" where
  "ordered_rows rs = sorted_wrt bytes_less (map fst rs)"

lemma ordered_distinct: "ordered_rows rs \<Longrightarrow> distinct (map fst rs)"
  unfolding ordered_rows_def by (induction rs) auto

lemma put_row_keys: "fst ` set (put_row k v rs) \<subseteq> insert k (fst ` set rs)"
  by (induction k v rs rule: put_row.induct) (auto split: if_splits option.splits)

lemma put_row_ordered: "ordered_rows rs \<Longrightarrow> ordered_rows (put_row k v rs)"
proof (induction k v rs rule: put_row.induct)
  case (2 k v k' x' rs)
  show ?case
  proof (cases "k = k' \<or> bytes_less k k'")
    case True
    with "2.prems" show ?thesis
      by (auto simp: ordered_rows_def split: option.splits intro: bytes_less_trans)
  next
    case False
    with bytes_less_linear [of k k'] have "bytes_less k' k" by blast
    moreover have "\<forall>x \<in> fst ` set rs. bytes_less k' x" using "2.prems" by (simp add: ordered_rows_def)
    ultimately have "\<forall>x \<in> fst ` set (put_row k v rs). bytes_less k' x" using put_row_keys [of k v rs] by blast
    moreover have "ordered_rows (put_row k v rs)" using 2 False by (auto simp: ordered_rows_def)
    ultimately show ?thesis using False by (simp add: ordered_rows_def)
  qed
qed (auto simp: ordered_rows_def split: option.splits)

lemma put_row_map: "ordered_rows rs \<Longrightarrow> map_of (put_row k v rs) = (map_of rs)(k := v)"
proof (induction k v rs rule: put_row.induct)
  case (2 k v k' x' rs)
  have after: "map_of rs k = None" if "k = k' \<or> bytes_less k k'"
  proof -
    have "bytes_less k (fst r)" if "r \<in> set rs" for r
    proof -
      have "bytes_less k' (fst r)" using "2.prems" that by (simp add: ordered_rows_def)
      with \<open>k = k' \<or> bytes_less k k'\<close> bytes_less_trans [of k k' "fst r"] show ?thesis by blast
    qed
    then show ?thesis by (metis bytes_less_irrefl imageE map_of_eq_None_iff)
  qed
  show ?case
  proof (cases "k = k' \<or> bytes_less k k'")
    case True
    with after show ?thesis by (auto simp: fun_eq_iff split: option.splits)
  next
    case False
    with 2 show ?thesis by (auto simp: ordered_rows_def fun_eq_iff)
  qed
qed (auto split: option.splits)

typedef rows_db = "{rs. ordered_rows rs}"
  by (rule exI [of _ "[]"]) (simp add: ordered_rows_def)

setup_lifting type_definition_rows_db

lift_definition db_rows :: "rows_db \<Rightarrow> (string \<times> string) list" is "\<lambda>rs. rs" .
lift_definition db_put :: "string \<Rightarrow> string option \<Rightarrow> rows_db \<Rightarrow> rows_db" is put_row by (rule put_row_ordered)
lift_definition db_empty :: rows_db is "[]" by (simp add: ordered_rows_def)

abbreviation db_view :: "rows_db \<Rightarrow> string \<Rightarrow> string option" where
  "db_view d \<equiv> map_of (db_rows d)"

lemma db_view_put [simp]: "db_view (db_put k v d) = (db_view d)(k := v)"
  by transfer (rule put_row_map)

lemma db_rows_put: "db_rows (db_put k v d) = put_row k v (db_rows d)"
  by transfer rule

lemma db_rows_empty [simp]: "db_rows db_empty = []"
  by transfer rule

lemma db_rows_items: "distinct (map fst (db_rows d))" "set (db_rows d) = {(k, v). db_view d k = Some v}"
proof -
  show dist: "distinct (map fst (db_rows d))" by transfer (rule ordered_distinct)
  show "set (db_rows d) = {(k, v). db_view d k = Some v}" using dist by auto
qed

definition mem_pebble :: "rows_db pebble" where
  "mem_pebble = \<lparr>pb_Get = (\<lambda>d k. case db_view d k of None \<Rightarrow> Inl PbNotFound | Some v \<Rightarrow> Inr v),
     pb_Set = (\<lambda>d k v. (db_put k (Some v) d, None)), pb_Merge = (\<lambda>mf d k v. (db_put k (mf (db_view d k) v) d, None)),
     pb_Delete = (\<lambda>d k. (db_put k None d, None)),
     pb_DeleteRange = (\<lambda>d a b. (foldr (\<lambda>k. db_put k None) (filter (\<lambda>k. \<not> bytes_less k a \<and> bytes_less k b) (map fst (db_rows d))) d, None)),
     pb_Compact = (\<lambda>d a b. (d, None)), pb_RangeBounds = (\<lambda>d. (None, None)), pb_Items = db_rows\<rparr>"

interpretation mem_pebble: pebble_api mem_pebble db_view
proof
  show "set (pb_Items mem_pebble d) = {(k, v). db_view d k = Some v}" for d
    using db_rows_items(2) [of d] by (simp only: mem_pebble_def pebble.simps)
qed (simp_all add: mem_pebble_def db_rows_items(1))

end
