(* ===== verification/Purge.thy ===== *)
theory Purge
  imports BundleUpload GoTime KvStore
begin

text \<open>
  The purge job of \<open>pkg/core/purge.go\<close>: building the reverse-lookup index of the blob keys that bundles
  refer to, loading it into the local key-value store, and deleting the blobs that it does not have. The
  metadata that the scan reads is that of the moment it begins: what the uploader of the index writes
  meanwhile are index files, which the scan never reads. Progress reports and logging are left out.
\<close>

section \<open>Names of index files\<close>

definition PurgeLock_path :: string where "PurgeLock_path = purgeLockFile"
definition ReverseIndex :: string where "ReverseIndex = reverseIndexFile"

text \<open>
  \<open>fmt.Sscanf\<close> with the pattern \<open>chunk-%d.yaml\<close> on the base name: blanks are skipped before the number, which
  has to fit 64 bits, and what follows the pattern is not looked at.
\<close>

definition is_blank :: "char \<Rightarrow> bool" where
  "is_blank c \<longleftrightarrow> c \<in> {CHR '' '', CHR 0x09, CHR 0x0B, CHR 0x0C, CHR 0x0D}"

definition ReverseIndexChunk :: "string \<Rightarrow> 64 word option" where
  "ReverseIndexChunk chunk =
     (case strip_prefix ''chunk-'' (path_Base chunk) of
        None \<Rightarrow> None
      | Some s \<Rightarrow>
          let t = dropWhile is_blank s; ds = takeWhile is_digit t in
          if ds = [] \<or> \<not> read_nat ds < 2 ^ 64 \<or> strip_prefix ''.yaml'' (dropWhile is_digit t) = None then None
          else Some (of_nat (read_nat ds)))"

section \<open>Errors, options and results\<close>

datatype purge_err =
    PMeta meta_err
  | PStore store_err
  | PKv string
  | PCafs cafs_err
  | PPanic panic
  | BadChunkName string
  | BadIndexHeader
  | PCancelled

record purgeOptions =
  po_force :: bool
  po_dryRun :: bool
  po_resume :: bool
  po_indexChunkSize :: nat
  po_indexStart :: "64 word"

definition defaultPurgeOptions :: purgeOptions where
  "defaultPurgeOptions = \<lparr>po_force = False, po_dryRun = False, po_resume = False, po_indexChunkSize = 500000, po_indexStart = 0\<rparr>"

text \<open>
  The stores of a context, the hash function, the YAML of file lists, and the order in which concurrent
  downloads arrive.
\<close>

record ('b, 'm, 'd, 'v) purge_env =
  px_env :: "'v env"
  px_hasher :: hasher
  px_entries :: "BundleEntry list codec"
  px_order :: "nat list \<Rightarrow> nat list"
  px_blob :: "'b Store"
  px_index :: "'m Store"
  px_kv :: "'d kvStore"

section \<open>Keys of a bundle\<close>

text \<open>
  \<open>bundleKeys\<close>, first part: the entries of a bundle, none when its file list cannot be read. A panic of the
  unpacking ends the process.
\<close>

definition purge_bundle :: "string \<Rightarrow> BundleDescriptor \<Rightarrow> Bundle" where
  "purge_bundle repo d = \<lparr>bn_RepoID = repo, bn_BundleID = bd_ID d, bn_Descriptor = d, bn_Entries = [], bn_SkipOnError = False\<rparr>"

definition bundle_entries ::
  "('b, 'm, 'd, 'v) purge_env \<Rightarrow> 'm Store \<Rightarrow> 'm \<Rightarrow> string \<Rightarrow> BundleDescriptor \<Rightarrow> (panic, BundleEntry list) res" where
  "bundle_entries P st m repo d =
     (case unpackBundleFileList (px_entries P) (px_order P) False defaultBundleEntriesPerFile (Some (st, m)) (None :: unit opened)
         (purge_bundle repo d) of
        Inl p \<Rightarrow> Inl p
      | Inr (co, b, Some e) \<Rightarrow> Inr []
      | Inr (co, b, None) \<Rightarrow> Inr (bn_Entries b))"

text \<open>
  Second part, for one entry: nothing when the root key is already in the local store, otherwise the root
  and its leaves, or the root alone when its leaves cannot be told.
\<close>

definition entry_keys ::
  "('b, 'm, 'd, 'v) purge_env \<Rightarrow> 'b \<Rightarrow> 'd \<Rightarrow> nat \<Rightarrow> BundleEntry \<Rightarrow> (purge_err, string list) res" where
  "entry_keys P b db leafSize ent =
     (case KeyFromString (be_Hash ent) of
        Inl e \<Rightarrow> Inl (PCafs e)
      | Inr root \<Rightarrow>
          (case kv_Exists (px_kv P) db (Key_String root) of
             Inl e \<Rightarrow> Inl (PKv e)
           | Inr found \<Rightarrow>
               if found then Inr []
               else case leavesForHash (px_hasher P) (px_blob P) b root leafSize '''' of
                   Inl e \<Rightarrow> Inr [Key_String root]
                 | Inr leafKeys \<Rightarrow> Inr (Key_String root # map Key_String leafKeys)))"

section \<open>Scanning the metadata\<close>

text \<open>
  One worker for each repository goes through its bundles: it looks up the entries of a bundle one after
  the other, collecting keys, then inserts what it has collected. All workers share the local store, so
  that their steps interleave. The end of a listing that failed is an error, as is a panic.
\<close>

datatype scan_task =
    Lookup nat "BundleEntry list" "string list"
  | Insert "string list"
  | Fail purge_err

definition bundle_task ::
  "('b, 'm, 'd, 'v) purge_env \<Rightarrow> 'm Store \<Rightarrow> 'm \<Rightarrow> string \<Rightarrow> BundleDescriptor \<Rightarrow> scan_task" where
  "bundle_task P st m repo d =
     (case bundle_entries P st m repo d of
        Inl p \<Rightarrow> Fail (PPanic p)
      | Inr entries \<Rightarrow> Lookup (bd_LeafSize d) entries [])"

definition repoKeysScanner ::
  "('b, 'm, 'd, 'v) purge_env \<Rightarrow> 'm Store \<Rightarrow> 'm \<Rightarrow> string \<Rightarrow> scan_task list option" where
  "repoKeysScanner P st m repo =
     map_option (\<lambda>(bundles, e). map (bundle_task P st m repo) bundles @ (case e of None \<Rightarrow> [] | Some x \<Rightarrow> [Fail (PMeta x)]))
       (ListBundles (px_env P) st m repo (defaultSettings\<lparr>set_ignoreCorruptedMetadata := True\<rparr>))"

fun all_some :: "'a option list \<Rightarrow> 'a list option" where
  "all_some [] = Some []"
| "all_some (None # xs) = None"
| "all_some (Some x # xs) = map_option ((#) x) (all_some xs)"

text \<open>The workers of a context; \<open>None\<close> when a listing does not end.\<close>

definition context_workers ::
  "('b, 'm, 'd, 'v) purge_env \<Rightarrow> 'm Store \<Rightarrow> 'm \<Rightarrow> (purge_err, scan_task list list) res option" where
  "context_workers P st m =
     (case ListRepos (px_env P) st m defaultSettings of
        None \<Rightarrow> None
      | Some (repos, Some e) \<Rightarrow> Some (Inl (PMeta e))
      | Some (repos, None) \<Rightarrow> map_option Inr (all_some (map (\<lambda>r. repoKeysScanner P st m (rd_Name r)) repos)))"

text \<open>One step of a worker: the local store, what is left of its work, and how many keys it counts as new.\<close>

fun worker_step ::
  "('b, 'm, 'd, 'v) purge_env \<Rightarrow> 'b \<Rightarrow> 'd \<Rightarrow> scan_task list \<Rightarrow> 'd \<times> nat \<times> (purge_err, scan_task list) res" where
  "worker_step P b db [] = (db, 0, Inr [])"
| "worker_step P b db (Fail e # ts) = (db, 0, Inl e)"
| "worker_step P b db (Lookup leafSize [] keys # ts) = (db, 0, Inr (Insert keys # ts))"
| "worker_step P b db (Lookup leafSize (ent # es) keys # ts) =
     (case entry_keys P b db leafSize ent of
        Inl e \<Rightarrow> (db, 0, Inl e)
      | Inr ks \<Rightarrow> (db, 0, Inr (Lookup leafSize es (keys @ ks) # ts)))"
| "worker_step P b db (Insert [] # ts) = (db, 0, Inr ts)"
| "worker_step P b db (Insert (key # keys) # ts) =
     (case kv_SetIfNotExists (px_kv P) db key '''' of
        (db', Some e) \<Rightarrow> (db', 0, Inl (PKv e))
      | (db', None) \<Rightarrow> (db', 1, Inr (Insert keys # ts)))"

section \<open>Reading keys out of the local store\<close>

text \<open>
  \<open>dbReader\<close>: a first line with the time of the index, then the keys that its iterator sends, one on each
  line; what does not fit the buffer of a read is kept for the next one. A key is marked in the local store
  when it is read.
\<close>

record dbReader =
  dr_readOnce :: bool
  dr_header :: string
  dr_out :: "string list"
  dr_count :: nat
  dr_partial :: string

datatype read_result = ReadData string | ReadEOF | ReadFail string

text \<open>\<open>iterateKV\<close>: the keys without a mark, up to a number of them, and up to an item that cannot be had.\<close>

fun unmarked :: "(string, string \<times> string) res list \<Rightarrow> string list" where
  "unmarked [] = []"
| "unmarked (Inl e # xs) = []"
| "unmarked (Inr (key, val) # xs) = (if val \<noteq> [] then unmarked xs else key # unmarked xs)"

definition iterateKV :: "'d kvStore \<Rightarrow> 'd \<Rightarrow> nat \<Rightarrow> string list" where
  "iterateKV kv db maxKeys = take maxKeys (unmarked (kv_AllKeys kv db))"

definition newDBReader :: "'d kvStore \<Rightarrow> 'd \<Rightarrow> nat \<Rightarrow> nat \<Rightarrow> dbReader" where
  "newDBReader kv db indexTime maxKeys =
     \<lparr>dr_readOnce = False, dr_header = format_time indexTime, dr_out = iterateKV kv db maxKeys, dr_count = 0, dr_partial = ''''\<rparr>"

definition newline :: char where "newline = CHR 0x0A"

definition give :: "'d \<Rightarrow> dbReader \<Rightarrow> nat \<Rightarrow> string \<Rightarrow> 'd \<times> dbReader \<times> read_result" where
  "give db r n b =
     (if n < length b then (db, r\<lparr>dr_partial := drop n b\<rparr>, ReadData (take n b)) else (db, r\<lparr>dr_partial := ''''\<rparr>, ReadData b))"

definition dbReader_Read :: "'d kvStore \<Rightarrow> 'd \<Rightarrow> dbReader \<Rightarrow> nat \<Rightarrow> 'd \<times> dbReader \<times> read_result" where
  "dbReader_Read kv db r n =
     (if dr_partial r \<noteq> '''' then give db r n (dr_partial r)
      else if \<not> dr_readOnce r then give db (r\<lparr>dr_readOnce := True\<rparr>) n (dr_header r @ [newline])
      else case dr_out r of
          [] \<Rightarrow> (db, r, ReadEOF)
        | key # ks \<Rightarrow>
            (case kv_Set kv db key ''X'' of
               (db', Some e) \<Rightarrow> (db', r\<lparr>dr_out := ks\<rparr>, ReadFail e)
             | (db', None) \<Rightarrow> give db' (r\<lparr>dr_out := ks, dr_count := dr_count r + 1\<rparr>) n (key @ [newline])))"


text \<open>
  What a store reads of it when it copies an object in: everything to the end, or to an error, which neither
  backend passes on.
\<close>

definition copy_buffer :: nat where "copy_buffer = 32768"

partial_function (option) drain :: "'d kvStore \<Rightarrow> nat \<Rightarrow> 'd \<Rightarrow> dbReader \<Rightarrow> string \<Rightarrow> ('d \<times> dbReader \<times> string) option" where
  "drain kv n db r acc =
     (case dbReader_Read kv db r n of
        (db', r', ReadData b) \<Rightarrow> drain kv n db' r' (acc @ b)
      | (db', r', ReadEOF) \<Rightarrow> Some (db', r', acc)
      | (db', r', ReadFail e) \<Rightarrow> Some (db', r', acc))"

section \<open>Uploading an index file\<close>

text \<open>What a write that fails has read: as many reads as it came to, or fewer when there is no more.\<close>

fun read_some :: "'d kvStore \<Rightarrow> nat \<Rightarrow> nat \<Rightarrow> 'd \<Rightarrow> dbReader \<Rightarrow> 'd \<times> dbReader" where
  "read_some kv n 0 db r = (db, r)"
| "read_some kv n (Suc reads) db r =
     (case dbReader_Read kv db r n of
        (db', r', ReadData b) \<Rightarrow> read_some kv n reads db' r'
      | (db', r', ReadEOF) \<Rightarrow> (db', r')
      | (db', r', ReadFail e) \<Rightarrow> (db', r'))"

text \<open>
  \<open>dbReader.Close\<close> waits for \<open>iterateKV\<close>, which goes on until it has sent all its keys. Those that nobody reads have to
  fit in the channel; when there are more, the wait does not end.
\<close>

definition out_capacity :: nat where "out_capacity = 1024"

definition dbReader_Close :: "dbReader \<Rightarrow> unit option" where
  "dbReader_Close r = (if length (dr_out r) \<le> out_capacity then Some () else None)"

text \<open>
  One attempt of \<open>chunkUploader\<close>: a new reader, deletion of the index file, writing of the index file, and the deferred
  \<open>Close\<close> on every way out. A write that fails has made \<open>reads\<close> reads; the keys read stay marked.
\<close>

definition chunk_attempt ::
  "'d kvStore \<Rightarrow> 'm Store \<Rightarrow> nat \<Rightarrow> nat \<Rightarrow> 64 word \<Rightarrow> nat \<Rightarrow> 'd \<Rightarrow> 'm \<Rightarrow> ('d \<times> 'm \<times> (store_err, nat) res) option" where
  "chunk_attempt kv st indexTime chunkSize chunkIndex reads db m =
     (let indexFile = ReverseIndexFile chunkIndex; dbr = newDBReader kv db indexTime chunkSize in
      case st_Delete st m indexFile of (m1, e) \<Rightarrow>
        if e \<noteq> None \<and> e \<noteq> Some ErrNotExists then map_option (\<lambda>x. (db, m1, Inl (the e))) (dbReader_Close dbr)
        else case drain kv copy_buffer db dbr '''' of
            None \<Rightarrow> None
          | Some (db', r, txt) \<Rightarrow>
              (case st_Put st m1 indexFile (text_bytes txt) NoOverWrite of
                 (m2, None) \<Rightarrow> map_option (\<lambda>x. (db', m2, Inr (dr_count r))) (dbReader_Close r)
               | (m2, Some err) \<Rightarrow>
                   (case read_some kv copy_buffer reads db dbr of
                      (db1, r1) \<Rightarrow> map_option (\<lambda>x. (db1, m2, Inl err)) (dbReader_Close r1))))"

text \<open>The retry policy allows as many further attempts as there are numbers in the list. \<open>None\<close>: an attempt does not return.\<close>

fun chunkUploader ::
  "'d kvStore \<Rightarrow> 'm Store \<Rightarrow> nat \<Rightarrow> nat \<Rightarrow> 64 word \<Rightarrow> nat list \<Rightarrow> 'd \<Rightarrow> 'm \<Rightarrow> ('d \<times> 'm \<times> (store_err, nat) res) option" where
  "chunkUploader kv st indexTime chunkSize chunkIndex [] db m = chunk_attempt kv st indexTime chunkSize chunkIndex 0 db m"
| "chunkUploader kv st indexTime chunkSize chunkIndex (reads # takes) db m =
     (case chunk_attempt kv st indexTime chunkSize chunkIndex reads db m of
        None \<Rightarrow> None
      | Some (db', m', Inr n) \<Rightarrow> Some (db', m', Inr n)
      | Some (db', m', Inl e) \<Rightarrow> chunkUploader kv st indexTime chunkSize chunkIndex takes db' m')"

section \<open>Loading the index\<close>

text \<open>\<open>bufio.Scanner\<close> on lines: without their carriage return, and only up to a line that its buffer cannot hold.\<close>

definition drop_cr :: "string \<Rightarrow> string" where
  "drop_cr s = (if s \<noteq> [] \<and> last s = CHR 0x0D then butlast s else s)"

function scan_lines :: "string \<Rightarrow> string list" where
  "scan_lines s =
     (let line = takeWhile (\<lambda>c. c \<noteq> newline) s in
      if s = [] \<or> 65536 \<le> length line then []
      else drop_cr line # scan_lines (drop (Suc (length line)) s))"
  by pat_completeness auto
termination
  by (relation "measure length") auto

declare scan_lines.simps [simp del]

text \<open>\<open>loadChunk\<close>\<close>

fun load_keys :: "'d kvStore \<Rightarrow> 'd \<Rightarrow> nat \<Rightarrow> string list \<Rightarrow> 'd \<times> (purge_err, nat) res" where
  "load_keys kv db n [] = (db, Inr n)"
| "load_keys kv db n (key # keys) =
     (case kv_Set kv db key ''X'' of
        (db', Some e) \<Rightarrow> (db', Inl (PKv e))
      | (db', None) \<Rightarrow> load_keys kv db' (n + 1) keys)"

definition loadChunk :: "'d kvStore \<Rightarrow> 'd \<Rightarrow> bytes \<Rightarrow> 'd \<times> (purge_err, nat \<times> nat) res" where
  "loadChunk kv db r =
     (case scan_lines (bytes_text r) of
        [] \<Rightarrow> (db, Inl BadIndexHeader)
      | h # keys \<Rightarrow>
          (case parse_time h of
             None \<Rightarrow> (db, Inl BadIndexHeader)
           | Some ts \<Rightarrow>
               (case load_keys kv db 0 keys of
                  (db', Inl e) \<Rightarrow> (db', Inl e)
                | (db', Inr n) \<Rightarrow> (db', Inr (ts, n)))))"

text \<open>
  \<open>copyIndexChunks\<close> lists the index files, page after page, and has them loaded concurrently: the time that
  is kept is that of the file loaded last.
\<close>

fun chunk_numbers :: "64 word \<Rightarrow> string list \<Rightarrow> (purge_err, 64 word) res" where
  "chunk_numbers lastIndex [] = Inr lastIndex"
| "chunk_numbers lastIndex (chunk # ks) =
     (case ReverseIndexChunk chunk of
        None \<Rightarrow> Inl (BadChunkName chunk)
      | Some index \<Rightarrow> chunk_numbers (if lastIndex < index then index else lastIndex) ks)"

partial_function (option) index_chunks ::
  "'m Store \<Rightarrow> 'm \<Rightarrow> string \<Rightarrow> 64 word \<Rightarrow> string list \<Rightarrow> (purge_err, string list \<times> 64 word) res option" where
  "index_chunks st m tok lastIndex chunks =
     (case st_KeysPrefix st m tok ReverseIndexPrefix '''' 1024 of
        Inl e \<Rightarrow> Some (Inl (PStore e))
      | Inr (ks, next_tok) \<Rightarrow>
          if ks = [] then Some (Inr (chunks, lastIndex))
          else case chunk_numbers lastIndex ks of
              Inl e \<Rightarrow> Some (Inl e)
            | Inr lastIndex' \<Rightarrow>
                if next_tok = '''' then Some (Inr (chunks @ ks, lastIndex'))
                else index_chunks st m next_tok lastIndex' (chunks @ ks))"

fun load_chunks ::
  "'d kvStore \<Rightarrow> 'm Store \<Rightarrow> 'm \<Rightarrow> 'd \<Rightarrow> nat option \<Rightarrow> nat \<Rightarrow> string list \<Rightarrow> 'd \<times> (purge_err, nat option \<times> nat) res" where
  "load_chunks kv st m db ts n [] = (db, Inr (ts, n))"
| "load_chunks kv st m db ts n (chunk # chunks) =
     (case st_Get st m chunk of
        Inl e \<Rightarrow> (db, Inl (PStore e))
      | Inr r \<Rightarrow>
          (case loadChunk kv db r of
             (db', Inl e) \<Rightarrow> (db', Inl e)
           | (db', Inr (ts', k)) \<Rightarrow> load_chunks kv st m db' (Some ts') (n + k) chunks))"

definition copyIndexChunks ::
  "'d kvStore \<Rightarrow> 'm Store \<Rightarrow> (string list \<Rightarrow> string list) \<Rightarrow> 'd \<Rightarrow> 'm \<Rightarrow> ('d \<times> (purge_err, nat option \<times> nat \<times> 64 word) res) option" where
  "copyIndexChunks kv st sched db m =
     (case index_chunks st m '''' 0 [] of
        None \<Rightarrow> None
      | Some (Inl e) \<Rightarrow> Some (db, Inl e)
      | Some (Inr (chunks, lastIndex)) \<Rightarrow>
          (case load_chunks kv st m db None 0 (sched chunks) of
             (db', Inl e) \<Rightarrow> Some (db', Inl e)
           | (db', Inr (ts, n)) \<Rightarrow>
               (case kv_Compact kv db' of
                  (db'', Some e) \<Rightarrow> Some (db'', Inl (PKv e))
                | (db'', None) \<Rightarrow> Some (db'', Inr (ts, n, lastIndex)))))"


section \<open>Building the index\<close>

text \<open>
  The state that the workers and the uploader share: the local store, the store of the index files, the
  number of the last index file, the counts of keys, and the error with which the uploader has ended.
\<close>

record ('d, 'm) build =
  bu_db :: 'd
  bu_index :: 'm
  bu_chunk :: "64 word"
  bu_lastSeen :: nat
  bu_unique :: nat
  bu_uploaded :: nat
  bu_failed :: "purge_err option"

text \<open>
  What may happen next: a step of worker \<open>i\<close>, or a tick of the uploader's clock. On a tick an upload of an
  index file is started, with what its retries meet, unless the upload before it is still in progress
  (\<open>None\<close>). An upload reads a snapshot of the local store and marks keys that are there already, which
  the workers leave as they are: it is one step. One that does not return keeps the whole job from returning, unless a
  scan fails later and cancels it, which is not considered.
\<close>

datatype build_event = Work nat | Tick "nat list option"

definition upload_chunk ::
  "('b, 'm, 'd, 'v) purge_env \<Rightarrow> nat \<Rightarrow> nat \<Rightarrow> nat list \<Rightarrow> ('d, 'm) build \<Rightarrow> ('d, 'm) build option" where
  "upload_chunk P indexTime chunkSize takes u =
     (case chunkUploader (px_kv P) (px_index P) indexTime chunkSize (bu_chunk u) takes (bu_db u) (bu_index u) of
        None \<Rightarrow> None
      | Some (db, m, Inl e) \<Rightarrow> Some (u\<lparr>bu_db := db, bu_index := m, bu_failed := Some (PStore e)\<rparr>)
      | Some (db, m, Inr n) \<Rightarrow> Some (u\<lparr>bu_db := db, bu_index := m, bu_uploaded := bu_uploaded u + n\<rparr>))"

definition tick ::
  "('b, 'm, 'd, 'v) purge_env \<Rightarrow> nat \<Rightarrow> nat \<Rightarrow> nat list option \<Rightarrow> ('d, 'm) build \<Rightarrow> ('d, 'm) build option" where
  "tick P indexTime chunkSize started u =
     (if bu_failed u \<noteq> None \<or> bu_unique u < bu_lastSeen u + chunkSize then Some u
      else let u' = u\<lparr>bu_lastSeen := bu_unique u, bu_chunk := bu_chunk u + 1\<rparr> in
        case started of None \<Rightarrow> Some u' | Some takes \<Rightarrow> upload_chunk P indexTime chunkSize takes u')"

fun scan_run ::
  "('b, 'm, 'd, 'v) purge_env \<Rightarrow> 'b \<Rightarrow> nat \<Rightarrow> nat \<Rightarrow> build_event list \<Rightarrow> scan_task list list \<Rightarrow> ('d, 'm) build \<Rightarrow>
   (scan_task list list \<times> ('d, 'm) build \<times> purge_err option) option" where
  "scan_run P b indexTime chunkSize [] ws u = Some (ws, u, None)"
| "scan_run P b indexTime chunkSize (Work i # evs) ws u =
     (if length ws \<le> i then scan_run P b indexTime chunkSize evs ws u
      else case worker_step P b (bu_db u) (ws ! i) of
          (db, n, Inl e) \<Rightarrow> Some (ws, u\<lparr>bu_db := db\<rparr>, Some e)
        | (db, n, Inr w) \<Rightarrow>
            scan_run P b indexTime chunkSize evs (ws[i := w]) (u\<lparr>bu_db := db, bu_unique := bu_unique u + n\<rparr>))"
| "scan_run P b indexTime chunkSize (Tick started # evs) ws u =
     (case tick P indexTime chunkSize started u of
        None \<Rightarrow> None
      | Some u' \<Rightarrow> scan_run P b indexTime chunkSize evs ws u')"

text \<open>
  \<open>scanContext\<close>, for a schedule of what happens while it runs: \<open>None\<close> when a listing does not end, or when the
  schedule stops before the workers have.
\<close>

definition scanContext ::
  "('b, 'm, 'd, 'v) purge_env \<Rightarrow> 'b \<Rightarrow> nat \<Rightarrow> nat \<Rightarrow> build_event list \<Rightarrow> 'm Store \<Rightarrow> 'm \<Rightarrow> ('d, 'm) build \<Rightarrow>
   (('d, 'm) build \<times> purge_err option) option" where
  "scanContext P b indexTime chunkSize evs st m u =
     (case context_workers P st m of
        None \<Rightarrow> None
      | Some (Inl e) \<Rightarrow> Some (u, Some e)
      | Some (Inr ws) \<Rightarrow>
          (case scan_run P b indexTime chunkSize evs ws u of
             None \<Rightarrow> None
           | Some (ws', u', Some e) \<Rightarrow> Some (u', Some e)
           | Some (ws', u', None) \<Rightarrow> if list_all (\<lambda>w. w = []) ws' then Some (u', None) else None))"

fun scan_contexts ::
  "('b, 'm, 'd, 'v) purge_env \<Rightarrow> 'b \<Rightarrow> nat \<Rightarrow> nat \<Rightarrow> ('m Store \<times> 'm \<times> build_event list) list \<Rightarrow> ('d, 'm) build \<Rightarrow>
   (('d, 'm) build \<times> purge_err option) option" where
  "scan_contexts P b indexTime chunkSize [] u = Some (u, None)"
| "scan_contexts P b indexTime chunkSize ((st, m, evs) # cs) u =
     (case scanContext P b indexTime chunkSize evs st m u of
        None \<Rightarrow> None
      | Some (u', Some e) \<Rightarrow> Some (u', Some e)
      | Some (u', None) \<Rightarrow> scan_contexts P b indexTime chunkSize cs u')"

text \<open>The last index files, until one has no keys. \<open>retries i\<close> is what the retries of index file \<open>i\<close> meet.\<close>

partial_function (option) last_chunks ::
  "('b, 'm, 'd, 'v) purge_env \<Rightarrow> nat \<Rightarrow> nat \<Rightarrow> (64 word \<Rightarrow> nat list) \<Rightarrow> ('d, 'm) build \<Rightarrow> ('d, 'm) build option" where
  "last_chunks P indexTime chunkSize retries u =
     Option.bind (upload_chunk P indexTime chunkSize (retries (bu_chunk u + 1)) (u\<lparr>bu_chunk := bu_chunk u + 1\<rparr>)) (\<lambda>u'.
       if bu_failed u' \<noteq> None \<or> bu_uploaded u' \<le> bu_uploaded u then Some u'
       else last_chunks P indexTime chunkSize retries u')"

text \<open>
  \<open>PurgeBuildReverseIndex\<close>, with the time \<open>now\<close>, the order \<open>sched\<close> in which index files are loaded when it resumes,
  and the contexts to scan, the one of the index first. When a scan fails, the uploader is
  cancelled and it is the cancellation that is returned.
\<close>

record PurgeIndex =
  pi_IndexTime :: nat
  pi_NumEntries :: nat

definition new_build :: "'d \<Rightarrow> 'm \<Rightarrow> 64 word \<Rightarrow> ('d, 'm) build" where
  "new_build db m start = \<lparr>bu_db = db, bu_index = m, bu_chunk = start, bu_lastSeen = 0, bu_unique = 0, bu_uploaded = 0, bu_failed = None\<rparr>"

definition build_index ::
  "('b, 'm, 'd, 'v) purge_env \<Rightarrow> 'b \<Rightarrow> nat \<Rightarrow> nat \<Rightarrow> (64 word \<Rightarrow> nat list) \<Rightarrow> ('m Store \<times> 'm \<times> build_event list) list \<Rightarrow>
   ('d, 'm) build \<Rightarrow> ('d \<times> 'm \<times> (purge_err, PurgeIndex) res) option" where
  "build_index P b indexTime chunkSize retries contexts u0 =
     (case scan_contexts P b indexTime chunkSize contexts u0 of
        None \<Rightarrow> None
      | Some (u, Some e) \<Rightarrow> Some (bu_db u, bu_index u, Inl (case bu_failed u of None \<Rightarrow> PCancelled | Some x \<Rightarrow> x))
      | Some (u, None) \<Rightarrow>
          (case bu_failed u of
             Some x \<Rightarrow> Some (bu_db u, bu_index u, Inl x)
           | None \<Rightarrow>
               map_option (\<lambda>u'. (bu_db u', bu_index u',
                   case bu_failed u' of Some x \<Rightarrow> Inl x | None \<Rightarrow> Inr \<lparr>pi_IndexTime = indexTime, pi_NumEntries = bu_uploaded u'\<rparr>))
                 (last_chunks P indexTime chunkSize retries u)))"

definition PurgeBuildReverseIndex ::
  "('b, 'm, 'd, 'v) purge_env \<Rightarrow> purgeOptions \<Rightarrow> 'b \<Rightarrow> nat \<Rightarrow> (string list \<Rightarrow> string list) \<Rightarrow> (64 word \<Rightarrow> nat list) \<Rightarrow>
   ('m Store \<times> 'm \<times> build_event list) list \<Rightarrow> 'd \<Rightarrow> 'm \<Rightarrow> ('d \<times> 'm \<times> (purge_err, PurgeIndex) res) option" where
  "PurgeBuildReverseIndex P opts b now sched retries contexts db m =
     (if \<not> po_resume opts
      then build_index P b now (po_indexChunkSize opts) retries contexts (new_build db m (po_indexStart opts))
      else case copyIndexChunks (px_kv P) (px_index P) sched db m of
          None \<Rightarrow> None
        | Some (db', Inl e) \<Rightarrow> Some (db', m, Inl e)
        | Some (db', Inr (None, n, lastIndex)) \<Rightarrow> Some (db', m, Inl (PPanic NilDereference))
        | Some (db', Inr (Some ts, n, lastIndex)) \<Rightarrow>
            build_index P b ts (po_indexChunkSize opts) retries contexts (new_build db' m (max lastIndex (po_indexStart opts))))"

section \<open>Deleting what is not in the index\<close>

record PurgeBlobs =
  pr_ScannedEntries :: nat
  pr_IndexedEntries :: nat
  pr_MoreRecentEntries :: nat
  pr_DeletedEntries :: nat
  pr_DeletedSize :: nat

text \<open>
  Both retried operations return the error of the lookup before them, which is none: they run once, and
  their own errors are dropped. Attributes that could not be read are those of the zero value.
\<close>

definition checkAndDeleteKey ::
  "'d kvStore \<Rightarrow> 'b Store \<Rightarrow> 'd \<Rightarrow> nat \<Rightarrow> bool \<Rightarrow> string \<Rightarrow> 'b \<times> PurgeBlobs \<Rightarrow> ('b \<times> PurgeBlobs) \<times> purge_err option" where
  "checkAndDeleteKey kv st db indexTime dryRun key s =
     (case s of (b, stats) \<Rightarrow>
        (case kv_Exists kv db key of
           Inl e \<Rightarrow> (s, Some (PKv e))
         | Inr found \<Rightarrow>
             if found then ((b, stats\<lparr>pr_IndexedEntries := pr_IndexedEntries stats + 1\<rparr>), None)
             else let attrs = (case st_GetAttr st b key of Inl e \<Rightarrow> \<lparr>attr_Updated = 0, attr_Size = 0, attr_CRC32C = 0\<rparr> | Inr a \<Rightarrow> a) in
               if indexTime < attr_Updated attrs
               then ((b, stats\<lparr>pr_MoreRecentEntries := pr_MoreRecentEntries stats + 1\<rparr>), None)
               else ((if dryRun then b else fst (st_Delete st b key),
                      stats\<lparr>pr_DeletedSize := pr_DeletedSize stats + attr_Size attrs, pr_DeletedEntries := pr_DeletedEntries stats + 1\<rparr>), None)))"

text \<open>
  \<open>scanBlob\<close>: the batches of keys are checked concurrently, in the order that \<open>sched\<close> gives for all keys. After an
  error of the listing, only \<open>seen\<close> of the keys listed before it have been looked at.
\<close>

definition blob_page :: "'b Store \<Rightarrow> 'b \<Rightarrow> string \<Rightarrow> (meta_err, string list \<times> string) res" where
  "blob_page st b = meta_store_page st b '''' '''' 1024"

definition scanBlob ::
  "'d kvStore \<Rightarrow> 'b Store \<Rightarrow> (string list \<Rightarrow> string list) \<Rightarrow> nat \<Rightarrow> 'd \<Rightarrow> nat \<Rightarrow> bool \<Rightarrow> 'b \<Rightarrow>
   ('b \<times> (purge_err, PurgeBlobs) res) option" where
  "scanBlob kv st sched seen db indexTime dryRun b =
     (case fetchKeys (blob_page st b) '''' of
        None \<Rightarrow> None
      | Some batches \<Rightarrow>
          let good = takeWhile (\<lambda>k. kb_err k = None) batches;
              keys = sched (concat (map kb_keys good));
              failed = (case drop (length good) batches of [] \<Rightarrow> None | k # _ \<Rightarrow> kb_err k);
              stats = \<lparr>pr_ScannedEntries = length keys, pr_IndexedEntries = 0, pr_MoreRecentEntries = 0, pr_DeletedEntries = 0, pr_DeletedSize = 0\<rparr>
          in (case apply_until (checkAndDeleteKey kv st db indexTime dryRun) (if failed = None then keys else take seen keys) (b, stats) of
                ((b', stats'), Some e) \<Rightarrow> Some (b', Inl e)
              | ((b', stats'), None) \<Rightarrow> Some (b', case failed of None \<Rightarrow> Inr stats' | Some e \<Rightarrow> Inl (PMeta e))))"

definition PurgeDeleteUnused ::
  "'d kvStore \<Rightarrow> 'm Store \<Rightarrow> 'b Store \<Rightarrow> purgeOptions \<Rightarrow> (string list \<Rightarrow> string list) \<Rightarrow> (string list \<Rightarrow> string list) \<Rightarrow> nat \<Rightarrow>
   'd \<Rightarrow> 'm \<Rightarrow> 'b \<Rightarrow> ('d \<times> 'b \<times> (purge_err, PurgeBlobs) res) option" where
  "PurgeDeleteUnused kv ist st opts loads sched seen db m b =
     (case copyIndexChunks kv ist loads db m of
        None \<Rightarrow> None
      | Some (db', Inl e) \<Rightarrow> Some (db', b, Inl e)
      | Some (db', Inr (None, n, lastIndex)) \<Rightarrow> Some (db', b, Inl (PPanic NilDereference))
      | Some (db', Inr (Some indexTime, n, lastIndex)) \<Rightarrow>
          map_option (\<lambda>(b', r). (db', b', r)) (scanBlob kv st sched seen db' indexTime (po_dryRun opts) b))"

section \<open>Locking and dropping the index\<close>

text \<open>\<open>now\<close> is the text of the time; \<open>precondition\<close> says which errors have the message of a failed precondition.\<close>

datatype lock_err = LockExists store_err | LockFail store_err

definition PurgeLock ::
  "(store_err \<Rightarrow> bool) \<Rightarrow> 'm Store \<Rightarrow> purgeOptions \<Rightarrow> string \<Rightarrow> 'm \<Rightarrow> 'm \<times> lock_err option" where
  "PurgeLock precondition st opts now m =
     (case st_Put st m PurgeLock_path (text_bytes (''locked_at: '' @ now @ [newline])) (if po_force opts then OverWrite else NoOverWrite) of
        (m', e) \<Rightarrow> (m', map_option (\<lambda>x. if precondition x then LockExists x else LockFail x) e))"

definition PurgeUnlock :: "'m Store \<Rightarrow> 'm \<Rightarrow> 'm \<times> store_err option" where
  "PurgeUnlock st m = st_Delete st m PurgeLock_path"

fun delete_chunks :: "'m Store \<Rightarrow> 'm \<Rightarrow> string list \<Rightarrow> 'm \<times> store_err option" where
  "delete_chunks st m [] = (m, None)"
| "delete_chunks st m (chunk # ks) =
     (case st_Delete st m chunk of (m', Some e) \<Rightarrow> (m', Some e) | (m', None) \<Rightarrow> delete_chunks st m' ks)"

partial_function (option) drop_index :: "'m Store \<Rightarrow> string \<Rightarrow> 'm \<Rightarrow> ('m \<times> store_err option) option" where
  "drop_index st tok m =
     (case st_KeysPrefix st m tok ReverseIndexPrefix '''' 1024 of
        Inl e \<Rightarrow> Some (m, Some e)
      | Inr (ks, next_tok) \<Rightarrow>
          if ks = [] then Some (m, None)
          else case delete_chunks st m ks of
              (m', Some e) \<Rightarrow> Some (m', Some e)
            | (m', None) \<Rightarrow> if next_tok = '''' then Some (m', None) else drop_index st next_tok m')"

definition PurgeDropReverseIndex :: "'m Store \<Rightarrow> 'm \<Rightarrow> ('m \<times> store_err option) option" where
  "PurgeDropReverseIndex st m = drop_index st '''' m"

end
