(* ===== verification/PurgeIndex.thy ===== *)
theory PurgeIndex
  imports Purge
begin

text \<open>
  Correctness of the reverse-lookup index: an index file holds the keys that were read out of the local store,
  and the scan finds every key of every readable bundle, however its workers and the uploader interleave.
\<close>

section \<open>Index files as text\<close>

definition index_text :: "string \<Rightarrow> string list \<Rightarrow> string" where
  "index_text h ks = concat (map (\<lambda>l. l @ [newline]) (h # ks))"

definition plain_line :: "string \<Rightarrow> bool" where
  "plain_line l \<longleftrightarrow> newline \<notin> set l \<and> CHR 0x0D \<notin> set l \<and> length l < 65536"

lemma scan_lines_text: "list_all plain_line ls \<Longrightarrow> scan_lines (concat (map (\<lambda>l. l @ [newline]) ls)) = ls"
proof (induction ls)
  case Nil
  show ?case by (subst scan_lines.simps) simp
next
  case (Cons l ls)
  let ?r = "concat (map (\<lambda>l. l @ [newline]) ls)"
  from Cons.prems have l: "newline \<notin> set l" "CHR 0x0D \<notin> set l" "length l < 65536" and ls: "list_all plain_line ls"
    by (auto simp: plain_line_def [of l])
  from l(1) have line: "takeWhile (\<lambda>c. c \<noteq> newline) (l @ newline # ?r) = l" by (rule takeWhile_neq_append)
  have "drop_cr l = l" using l(2) last_in_set [of l] unfolding drop_cr_def by metis
  with Cons.IH [OF ls] l(3) line show ?case by (subst scan_lines.simps) (simp add: Let_def)
qed

text \<open>Keys and times are printable.\<close>

definition printable :: "char \<Rightarrow> bool" where
  "printable c \<longleftrightarrow> 32 \<le> (of_char c :: nat)"

lemma printable_plain:
  assumes "list_all printable l" and "length l < 65536"
  shows "plain_line l"
proof -
  have "\<not> printable newline" "\<not> printable CHR 0x0D" by (simp_all add: printable_def newline_def)
  with assms show ?thesis by (auto simp: plain_line_def list_all_iff)
qed

lemma hex_char_printable: "d < 16 \<Longrightarrow> printable (hex_char d)"
  by (auto simp: printable_def hex_char_def)

lemma Key_String_plain: "is_key k \<Longrightarrow> plain_line (Key_String k)"
proof (rule printable_plain)
  have "unat b div 16 < 16" "unat b mod 16 < 16" for b :: byte using unat_byte_less [of b] by auto
  then show "list_all printable (Key_String k)"
    by (auto simp: Key_String_def hex_encode_def hex_of_byte_def list_all_iff hex_char_printable)
  show "is_key k \<Longrightarrow> length (Key_String k) < 65536" by (simp add: Key_String_def KeySize_def)
qed

lemma digits_printable: "list_all is_digit s \<Longrightarrow> list_all printable s"
  by (auto simp: list_all_iff is_digit_def printable_def)

lemma pad_printable [simp]: "list_all printable (pad w n)"
  by (rule digits_printable) simp

lemma frac_text_printable: "list_all printable (frac_text ns)"
  using pad_printable [of 9 ns]
  by (auto simp: frac_text_def trim_zeros_def Let_def list_all_iff printable_def dest: set_dropWhileD)

lemma frac_text_length: "ns < 10 ^ 9 \<Longrightarrow> length (frac_text ns) \<le> 10"
  using length_pad [of 9 ns] length_dropWhile_le [of _ "rev (pad 9 ns)"]
  by (auto simp: frac_text_def trim_zeros_def Let_def)

lemma format_time_text:
  assumes "time_year t < 10000"
  shows "length (format_time t) \<le> 40 \<and> list_all printable (format_time t)"
proof -
  let ?s = "t div 10 ^ 9 mod 86400"
  obtain y yd where y: "day_year (t div 10 ^ 9 div 86400) 1970 = (y, yd)" by fastforce
  obtain mo dom where mo: "day_month yd (month_days y) = (mo, dom)" by fastforce
  from day_month_sum [OF mo] day_year_sum [OF y] have ms: "mo < 12" "dom < month_days y ! mo"
    by (simp_all add: month_days_year)
  from month_days_bound [OF ms(1), of y] ms(2) have dom: "dom < 31" by simp
  have fmt: "format_time t = pad 4 y @ ''-'' @ pad 2 (mo + 1) @ ''-'' @ pad 2 (dom + 1) @ ''T'' @
      pad 2 (?s div 3600) @ '':'' @ pad 2 (?s mod 3600 div 60) @ '':'' @ pad 2 (?s mod 60) @ frac_text (t mod 10 ^ 9) @ ''Z''"
    unfolding format_time_def Let_def y by (simp add: mo)
  have "y < 10000" using assms y by (simp add: time_year_def)
  moreover have "?s div 3600 < 100" "?s mod 3600 div 60 < 100" "?s mod 60 < 100" by (auto simp: less_mult_imp_div_less)
  ultimately have "length (format_time t) \<le> 40"
    using ms(1) dom frac_text_length [of "t mod 10 ^ 9"] by (simp add: fmt length_pad)
  moreover have "list_all printable (format_time t)"
    unfolding fmt using frac_text_printable by (simp add: printable_def)
  ultimately show ?thesis by simp
qed

lemma format_time_plain: "time_year t < 10000 \<Longrightarrow> plain_line (format_time t)"
  using format_time_text [of t] by (intro printable_plain) simp_all

text \<open>The names of index files and their numbers.\<close>

lemma reverse_index_file: "ReverseIndexFile i = ''reverse-index/chunk-'' @ show_nat (unat i) @ ''.yaml''"
  and reverse_index_prefix: "ReverseIndexPrefix = ''reverse-index/chunk-''"
proof -
  have "plain_comp ''reverse-index''" "plain_comp ''chunk-''" "plain_comp (''chunk-'' @ show_nat (unat i) @ ''.yaml'')"
    by (auto simp: plain_comp_def)
  with path_Clean_plain [of "[''reverse-index'', ''chunk-'' @ show_nat (unat i) @ ''.yaml'']"]
    path_Clean_plain [of "[''reverse-index'', ''chunk-'']"]
  show "ReverseIndexFile i = ''reverse-index/chunk-'' @ show_nat (unat i) @ ''.yaml''" "ReverseIndexPrefix = ''reverse-index/chunk-''"
    by (simp_all add: ReverseIndexFile_def ReverseIndexPrefix_def reverseIndexFile_def indexFilePrefix_def path_Join_def)
qed

lemma reverse_index_inj [simp]: "ReverseIndexFile i = ReverseIndexFile j \<longleftrightarrow> i = j"
  by (simp add: reverse_index_file show_nat_inj word_unat_eq_iff)

lemma reverse_index_under: "prefix ReverseIndexPrefix (ReverseIndexFile i)"
  by (simp add: reverse_index_file reverse_index_prefix)

lemma ReverseIndexChunk_file: "ReverseIndexChunk (ReverseIndexFile i) = Some i"
proof -
  let ?n = "show_nat (unat i)"
  have digits: "list_all is_digit ?n" using show_nat_digits by (simp add: list_all_iff)
  have base: "path_Base (ReverseIndexFile i) = ''chunk-'' @ ?n @ ''.yaml''"
  proof -
    have "CHR ''/'' \<notin> set (rev (''chunk-'' @ ?n @ ''.yaml''))" by simp
    moreover have "rev (ReverseIndexFile i) = rev (''chunk-'' @ ?n @ ''.yaml'') @ CHR ''/'' # rev ''reverse-index''"
      by (simp add: reverse_index_file)
    ultimately have "takeWhile (\<lambda>c. c \<noteq> CHR ''/'') (rev (ReverseIndexFile i)) = rev (''chunk-'' @ ?n @ ''.yaml'')"
      by (metis takeWhile_neq_append)
    moreover have "dropWhile (\<lambda>c. c = CHR ''/'') (rev (ReverseIndexFile i)) = rev (ReverseIndexFile i)" "ReverseIndexFile i \<noteq> ''''"
      by (simp_all add: reverse_index_file)
    ultimately show ?thesis by (simp add: path_Base_def Let_def)
  qed
  have dot: "\<not> is_digit CHR ''.''" by simp
  have "dropWhile is_blank (?n @ ''.yaml'') = ?n @ ''.yaml''"
  proof -
    obtain c r where c: "?n = c # r" by (cases ?n) auto
    with digits have "is_digit c" by simp
    then have "\<not> is_blank c" by (auto simp: is_blank_def is_digit_def)
    with c show ?thesis by simp
  qed
  moreover have "takeWhile is_digit (?n @ ''.yaml'') = ?n" "dropWhile is_digit (?n @ ''.yaml'') = ''.yaml''"
    using digits dot by (simp_all add: takeWhile_append dropWhile_append list_all_iff)
  moreover have "unat i < 2 ^ 64" using unsigned_less [of i] by simp
  ultimately show ?thesis by (simp add: ReverseIndexChunk_def base Let_def)
qed


section \<open>Reading the keys out\<close>

definition marked :: "(string \<Rightarrow> string option) \<Rightarrow> string set \<Rightarrow> string \<Rightarrow> string option" where
  "marked v K = (\<lambda>k. if k \<in> K then Some ''X'' else v k)"

lemma marked_simps [simp]: "marked v {} = v" "marked (marked v K) L = marked v (K \<union> L)"
  by (auto simp: marked_def)

text \<open>What a reader has still to give.\<close>

definition unread :: "dbReader \<Rightarrow> string" where
  "unread r = dr_partial r @ (if dr_readOnce r then '''' else dr_header r @ [newline]) @ concat (map (\<lambda>k. k @ [newline]) (dr_out r))"

definition waiting :: "(string \<Rightarrow> string option) \<Rightarrow> string set" where
  "waiting v = {k. v k = Some ''''}"

lemma waiting_marked: "waiting (marked v K) = waiting v - K"
  by (auto simp: waiting_def marked_def)

context kv_store
begin

lemma kv_mark:
  obtains d' where "kv_Set kv d k ''X'' = (d', None)" "view d' = marked (view d) {k}"
proof -
  have "(view d)(k \<mapsto> ''X'') = marked (view d) {k}" by (auto simp: marked_def)
  with set_ok [of d k "''X''"] that show ?thesis by metis
qed

lemma read_step:
  assumes "0 < n" and "unread r \<noteq> ''''"
  shows "\<exists>d' r' c ks. dbReader_Read kv d r n = (d', r', ReadData c) \<and> c \<noteq> '''' \<and> unread r = c @ unread r'
    \<and> dr_out r = ks @ dr_out r' \<and> view d' = marked (view d) (set ks) \<and> dr_count r' = dr_count r + length ks"
proof -
  have give: "\<exists>r' c. give d r1 n b = (d, r', ReadData c) \<and> c \<noteq> '''' \<and> b = c @ dr_partial r' \<and> dr_out r' = dr_out r1
      \<and> dr_readOnce r' = dr_readOnce r1 \<and> dr_header r' = dr_header r1 \<and> dr_count r' = dr_count r1"
    if "b \<noteq> ''''" for d :: 'd and r1 b using that assms(1) by (auto simp: give_def)
  consider (part) "dr_partial r \<noteq> ''''" | (head) "dr_partial r = ''''" "\<not> dr_readOnce r"
    | (key) k ks where "dr_partial r = ''''" "dr_readOnce r" "dr_out r = k # ks"
    using assms(2) by (cases "dr_out r") (auto simp: unread_def split: if_splits)
  then show ?thesis
  proof cases
    case part
    from give [OF this, of d r] obtain r' c where r': "give d r n (dr_partial r) = (d, r', ReadData c)" "c \<noteq> ''''"
        "dr_partial r = c @ dr_partial r'" "dr_out r' = dr_out r" "dr_readOnce r' = dr_readOnce r" "dr_header r' = dr_header r"
        "dr_count r' = dr_count r" by blast
    then have "unread r = c @ unread r'" by (simp add: unread_def)
    with r' part show ?thesis by (intro exI [of _ d] exI [of _ r'] exI [of _ c] exI [of _ "[]"]) (simp add: dbReader_Read_def)
  next
    case head
    let ?h = "dr_header r @ [newline]"
    from give [of ?h d "r\<lparr>dr_readOnce := True\<rparr>"] obtain r' c where r': "give d (r\<lparr>dr_readOnce := True\<rparr>) n ?h = (d, r', ReadData c)" "c \<noteq> ''''"
        "?h = c @ dr_partial r'" "dr_out r' = dr_out r" "dr_readOnce r'" "dr_header r' = dr_header r" "dr_count r' = dr_count r" by auto
    then have "unread r = c @ unread r'" using head by (simp add: unread_def)
    with r' head show ?thesis by (intro exI [of _ d] exI [of _ r'] exI [of _ c] exI [of _ "[]"]) (simp add: dbReader_Read_def)
  next
    case key
    let ?b = "k @ [newline]" and ?r = "r\<lparr>dr_out := ks, dr_count := dr_count r + 1\<rparr>"
    obtain d' where d': "kv_Set kv d k ''X'' = (d', None)" "view d' = marked (view d) {k}" by (rule kv_mark)
    from give [of ?b d' ?r] obtain r' c where r': "give d' ?r n ?b = (d', r', ReadData c)" "c \<noteq> ''''"
        "?b = c @ dr_partial r'" "dr_out r' = ks" "dr_readOnce r' = dr_readOnce r" "dr_header r' = dr_header r" "dr_count r' = dr_count r + 1" by auto
    then have "unread r = c @ unread r'" using key by (simp add: unread_def)
    with r' key d' show ?thesis by (intro exI [of _ d'] exI [of _ r'] exI [of _ c] exI [of _ "[k]"]) (simp add: dbReader_Read_def)
  qed
qed

lemma drain_reads:
  assumes "0 < n"
  shows "\<exists>d' r'. drain kv n d r acc = Some (d', r', acc @ unread r) \<and> view d' = marked (view d) (set (dr_out r))
    \<and> dr_count r' = dr_count r + length (dr_out r) \<and> dr_out r' = []"
proof (induction "length (unread r)" arbitrary: d r acc rule: less_induct)
  case less
  show ?case
  proof (cases "unread r = ''''")
    case True
    then have "dr_partial r = ''''" "dr_readOnce r" "dr_out r = []" by (auto simp: unread_def split: if_splits)
    with True show ?thesis by (subst drain.simps) (simp add: dbReader_Read_def)
  next
    case False
    from read_step [OF assms False, of d] obtain d1 r1 c ks where
      one: "dbReader_Read kv d r n = (d1, r1, ReadData c)" "c \<noteq> ''''" "unread r = c @ unread r1" "dr_out r = ks @ dr_out r1"
        "view d1 = marked (view d) (set ks)" "dr_count r1 = dr_count r + length ks" by blast
    from less [of r1 d1 "acc @ c"] one(2,3) obtain d' r' where
      rest: "drain kv n d1 r1 (acc @ c) = Some (d', r', acc @ c @ unread r1)" "view d' = marked (view d1) (set (dr_out r1))"
        "dr_count r' = dr_count r1 + length (dr_out r1)" "dr_out r' = []" by auto
    with one show ?thesis by (subst drain.simps) simp
  qed
qed

lemma drain_new:
  "\<exists>d' r'. drain kv copy_buffer d (newDBReader kv d t sz) '''' = Some (d', r', index_text (format_time t) (iterateKV kv d sz))
    \<and> view d' = marked (view d) (set (iterateKV kv d sz)) \<and> dr_count r' = length (iterateKV kv d sz) \<and> dbReader_Close r' = Some ()"
proof -
  from drain_reads [of copy_buffer d "newDBReader kv d t sz" "''''"] obtain d' r' where
    "drain kv copy_buffer d (newDBReader kv d t sz) '''' = Some (d', r', index_text (format_time t) (iterateKV kv d sz))"
    "view d' = marked (view d) (set (iterateKV kv d sz))" "dr_count r' = length (iterateKV kv d sz)" "dr_out r' = []"
    by (auto simp: copy_buffer_def unread_def newDBReader_def index_text_def)
  then show ?thesis by (intro exI [of _ d'] exI [of _ r']) (simp add: dbReader_Close_def)
qed

text \<open>Some reads mark the keys that they give.\<close>

lemma read_some_marks:
  assumes "0 < n"
  shows "\<exists>d' r' ks. read_some kv n reads d r = (d', r') \<and> dr_out r = ks @ dr_out r' \<and> view d' = marked (view d) (set ks)"
proof (induction reads arbitrary: d r)
  case (Suc reads)
  show ?case
  proof (cases "unread r = ''''")
    case True
    then have "dr_partial r = ''''" "dr_readOnce r" "dr_out r = []" by (auto simp: unread_def split: if_splits)
    then show ?thesis by (intro exI [of _ d] exI [of _ r] exI [of _ "[]"]) (simp add: dbReader_Read_def)
  next
    case False
    from read_step [OF assms False, of d] obtain d1 r1 c ks where
      one: "dbReader_Read kv d r n = (d1, r1, ReadData c)" "dr_out r = ks @ dr_out r1" "view d1 = marked (view d) (set ks)" by blast
    from Suc [of d1 r1] obtain d' r' ls where
      "read_some kv n reads d1 r1 = (d', r')" "dr_out r1 = ls @ dr_out r'" "view d' = marked (view d1) (set ls)" by blast
    with one show ?thesis by (intro exI [of _ d'] exI [of _ r'] exI [of _ "ks @ ls"]) simp
  qed
qed simp

text \<open>One key for each read, where keys fit the buffer; the first read is for the time.\<close>

lemma read_some_keys:
  assumes "dr_partial r = ''''" and "dr_readOnce r" and "\<forall>k \<in> set (dr_out r). length k < n"
  shows "dr_out (snd (read_some kv n reads d r)) = drop reads (dr_out r)"
  using assms
proof (induction reads arbitrary: d r)
  case (Suc reads)
  show ?case
  proof (cases "dr_out r")
    case (Cons k ks)
    obtain d' where "kv_Set kv d k ''X'' = (d', None)" by (rule kv_mark)
    then have "dbReader_Read kv d r n = (d', r\<lparr>dr_out := ks, dr_count := dr_count r + 1, dr_partial := ''''\<rparr>, ReadData (k @ [newline]))"
      using Suc.prems Cons by (simp add: dbReader_Read_def give_def)
    then show ?thesis using Suc.IH [of "r\<lparr>dr_out := ks, dr_count := dr_count r + 1, dr_partial := ''''\<rparr>" d'] Suc.prems Cons by simp
  qed (use Suc.prems in \<open>simp add: dbReader_Read_def\<close>)
qed simp

lemma read_some_new:
  assumes "length (format_time t) < copy_buffer" and "\<forall>k \<in> set (iterateKV kv d sz). length k < copy_buffer"
  shows "\<exists>d' r'. read_some kv copy_buffer reads d (newDBReader kv d t sz) = (d', r') \<and> dr_out r' = drop (reads - 1) (iterateKV kv d sz)
    \<and> view d' = marked (view d) (set (take (reads - 1) (iterateKV kv d sz)))"
proof -
  let ?ks = "iterateKV kv d sz" and ?r = "newDBReader kv d t sz"
  have "dr_out (snd (read_some kv copy_buffer reads d ?r)) = drop (reads - 1) ?ks"
  proof (cases reads)
    case (Suc n)
    have "dbReader_Read kv d ?r copy_buffer = (d, ?r\<lparr>dr_readOnce := True, dr_partial := ''''\<rparr>, ReadData (format_time t @ [newline]))"
      using assms(1) by (simp add: dbReader_Read_def give_def newDBReader_def)
    then show ?thesis using read_some_keys [of "?r\<lparr>dr_readOnce := True, dr_partial := ''''\<rparr>" copy_buffer n d] assms(2) Suc
      by (simp add: newDBReader_def)
  qed (simp add: newDBReader_def)
  moreover obtain d' r' ks where "read_some kv copy_buffer reads d ?r = (d', r')" "?ks = ks @ dr_out r'" "view d' = marked (view d) (set ks)"
    using read_some_marks [of copy_buffer reads d ?r] by (auto simp: copy_buffer_def newDBReader_def)
  ultimately show ?thesis by (metis append_eq_conv_conj append_take_drop_id same_append_eq append_same_eq snd_conv)
qed

lemma unmarked_waiting: "distinct (unmarked (kv_AllKeys kv d)) \<and> set (unmarked (kv_AllKeys kv d)) = waiting (view d)"
proof -
  from items [of d] obtain xs where xs: "kv_AllKeys kv d = map Inr xs" "distinct (map fst xs)" "set xs = {(k, v). view d k = Some v}"
    by blast
  have um: "unmarked (map Inr xs) = map fst (filter (\<lambda>x. snd x = '''') xs)" for xs by (induction xs) auto
  have "distinct (map fst (filter (\<lambda>x. snd x = '''') xs))" using xs(2) by (rule distinct_map_filter)
  with xs um show ?thesis by (force simp: waiting_def)
qed

lemma finite_view: "finite (dom (view d))"
proof -
  from items [of d] obtain xs where "set xs = {(k, v). view d k = Some v}" by blast
  then have "dom (view d) = fst ` set xs" by force
  then show ?thesis by simp
qed

lemma finite_waiting: "finite (waiting (view d))"
  by (rule finite_subset [OF _ finite_view [of d]]) (auto simp: waiting_def)

end


section \<open>Stores that are listed\<close>

text \<open>
  What the purge job relies on besides: deleting an object that is not there is no error, or the one that
  says so; a deletion leaves the attributes of the other objects alone; and the pages of a listing
  have each object of a prefix once, none of them empty but perhaps the last.
\<close>

locale listing_store = object_store st content
  for st :: "'s Store" and content :: "'s \<Rightarrow> string \<Rightarrow> bytes option" +
  assumes delete_missing: "content s k = None \<Longrightarrow> snd (st_Delete st s k) \<in> {None, Some ErrNotExists}"
    and delete_attrs: "k' \<noteq> k \<Longrightarrow> st_GetAttr st (fst (st_Delete st s k)) k' = st_GetAttr st s k'"
    and listed: "0 < n \<Longrightarrow> \<exists>kss. pages (meta_store_page st s pfx '''' n) '''' kss None \<and> [] \<notin> set (butlast kss)
      \<and> distinct (concat kss) \<and> set (concat kss) = {k. content s k \<noteq> None \<and> prefix pfx k}"

text \<open>The same of the storage service.\<close>

inductive bucket_pages ::
  "(string \<Rightarrow> (gcs_err, (string \<times> string) list \<times> string) res) \<Rightarrow> string \<Rightarrow> string list list \<Rightarrow> bool" for page where
  last_page: "page tok = Inr (map (Pair '''') ns, '''') \<Longrightarrow> bucket_pages page tok [ns]"
| next_page: "page tok = Inr (map (Pair '''') ns, nxt) \<Longrightarrow> nxt \<noteq> '''' \<Longrightarrow> bucket_pages page nxt nss \<Longrightarrow> bucket_pages page tok (ns # nss)"

locale bucket_listing = bucket_api cl objects
  for cl :: "'b gcsClient" and objects :: "'b \<Rightarrow> string \<Rightarrow> bytes option" +
  assumes delete_other: "n' \<noteq> n \<Longrightarrow> cl_Attrs cl (fst (cl_Delete cl b n)) n' = cl_Attrs cl b n'"
    and listing: "0 < c \<Longrightarrow> \<exists>nss. bucket_pages (cl_NextPage cl b pfx '''' c) '''' nss \<and> [] \<notin> set (butlast nss)
      \<and> distinct (concat nss) \<and> set (concat nss) = {n. objects b n \<noteq> None \<and> prefix pfx n}"

lemma bucket_pages_store:
  assumes "bucket_pages (cl_NextPage cl b (getFullObjectName g pfx) '''' c) tok nss"
  shows "pages (meta_store_page (gcs_store cl g) b pfx '''' c) tok (map (map (getRelObjectName g)) nss) None"
  using assms
proof (induction rule: bucket_pages.induct)
  case (last_page tok ns)
  then show ?case by (simp add: pages_simps gcs_store_def gcs_KeysPrefix_def comp_def)
next
  case (next_page tok ns nxt nss)
  then show ?case by (simp add: gcs_store_def gcs_KeysPrefix_def comp_def pages.more_pages)
qed

lemma rel_full_name: "prefix (getFullObjectName g pfx) n \<Longrightarrow> getFullObjectName g (getRelObjectName g n) = n"
  by (auto simp: prefix_def getFullObjectName_def getRelObjectName_def)

sublocale bucket_listing \<subseteq> gcs_list: listing_store "gcs_store cl g" "gcs_content objects g" for g
proof
  fix s k k' pfx and n :: nat
  show "gcs_content objects g s k = None \<Longrightarrow> snd (st_Delete (gcs_store cl g) s k) \<in> {None, Some ErrNotExists}"
    by (simp add: gcs_content_def gcs_Delete_def delete_none)
  show "k' \<noteq> k \<Longrightarrow> st_GetAttr (gcs_store cl g) (fst (st_Delete (gcs_store cl g) s k)) k' = st_GetAttr (gcs_store cl g) s k'"
    using delete_other [of "getFullObjectName g k'" "getFullObjectName g k" s]
    by (simp add: gcs_GetAttr_def gcs_Delete_def split: prod.splits) force
  assume "0 < n"
  with listing [of n s "getFullObjectName g pfx"] obtain nss where
    nss: "bucket_pages (cl_NextPage cl s (getFullObjectName g pfx) '''' n) '''' nss" "[] \<notin> set (butlast nss)" "distinct (concat nss)"
      "set (concat nss) = {n. objects s n \<noteq> None \<and> prefix (getFullObjectName g pfx) n}" by blast
  let ?kss = "map (map (getRelObjectName g)) nss"
  have full: "getFullObjectName g (getRelObjectName g x) = x" if "x \<in> set (concat nss)" for x
    using that rel_full_name unfolding nss(4) by blast
  have cat: "concat ?kss = map (getRelObjectName g) (concat nss)" by (simp add: map_concat)
  have "inj_on (getRelObjectName g) (set (concat nss))" by (metis full inj_onI)
  then have "distinct (concat ?kss)" using nss(3) by (simp only: cat distinct_map)
  moreover have "[] \<notin> set (butlast ?kss)" using nss(2) by (auto simp: map_butlast [symmetric])
  moreover have "set (concat ?kss) = {k. gcs_content objects g s k \<noteq> None \<and> prefix pfx k}"
  proof -
    have "k \<in> set (concat ?kss) \<longleftrightarrow> getFullObjectName g k \<in> set (concat nss)" for k
    proof
      assume "k \<in> set (concat ?kss)"
      then obtain x where "x \<in> set (concat nss)" "k = getRelObjectName g x" unfolding cat set_map by blast
      with full show "getFullObjectName g k \<in> set (concat nss)" by simp
    next
      assume "getFullObjectName g k \<in> set (concat nss)"
      moreover have "getRelObjectName g (getFullObjectName g k) = k" by (simp add: getRelObjectName_def getFullObjectName_def)
      ultimately show "k \<in> set (concat ?kss)" unfolding cat by (metis image_eqI set_map)
    qed
    then have "k \<in> set (concat ?kss) \<longleftrightarrow> gcs_content objects g s k \<noteq> None \<and> prefix pfx k" for k
      unfolding nss(4) by (simp add: gcs_content_def getFullObjectName_def)
    then show ?thesis by blast
  qed
  ultimately show "\<exists>kss. pages (meta_store_page (gcs_store cl g) s pfx '''' n) '''' kss None \<and> [] \<notin> set (butlast kss)
      \<and> distinct (concat kss) \<and> set (concat kss) = {k. gcs_content objects g s k \<noteq> None \<and> prefix pfx k}"
    using bucket_pages_store [OF nss(1)] by blast
qed

context bucket_listing
begin

lemma is_listing: "listing_store (gcs_store cl g) (gcs_content objects g)"
  by unfold_locales

end

interpretation dated: bucket_listing "dated_client t" map_of for t
proof
  show "n' \<noteq> n \<Longrightarrow> cl_Attrs (dated_client t) (fst (cl_Delete (dated_client t) b n)) n' = cl_Attrs (dated_client t) b n'" for n' n b
    by (simp add: dated_client_def steady_client_def steady_def mem_Attrs_def mem_Delete_def map_of_filter_neq)
  fix c :: nat and b :: "(string \<times> bytes) list" and pfx
  let ?ps = "remdups (map (Pair '''') (map fst (filter (\<lambda>p. strip_prefix pfx (fst p) \<noteq> None) b))) :: (string \<times> string) list"
  have page: "cl_NextPage (dated_client t) b pfx '''' c '''' = Inr (?ps, '''')"
    by (simp add: dated_client_def steady_client_def steady_def mem_NextPage_def page_item_def comp_def)

  let ?ms = "remdups (map fst (filter (\<lambda>p. strip_prefix pfx (fst p) \<noteq> None) b))"
  have "remdups (map (Pair '''') ns) = map (Pair '''') (remdups ns)" for ns :: "string list" by (induction ns) auto
  then have "?ps = map (Pair '''') ?ms" by blast
  with page have "bucket_pages (cl_NextPage (dated_client t) b pfx '''' c) '''' [?ms]" by (simp add: bucket_pages.last_page)
  moreover have "set ?ms = {n. map_of b n \<noteq> None \<and> prefix pfx n}"
    by (auto simp: map_of_eq_None_iff strip_prefix_Some prefix_def image_iff)
  ultimately show "\<exists>nss. bucket_pages (cl_NextPage (dated_client t) b pfx '''' c) '''' nss \<and> [] \<notin> set (butlast nss)
      \<and> distinct (concat nss) \<and> set (concat nss) = {n. map_of b n \<noteq> None \<and> prefix pfx n}"
    by (intro exI [of _ "[?ms]"]) simp
qed


section \<open>Writing index files\<close>

locale indexing = kv_store kv view + listing_store ist icontent
  for kv :: "'d kvStore" and view :: "'d \<Rightarrow> string \<Rightarrow> string option"
    and ist :: "'m Store" and icontent :: "'m \<Rightarrow> string \<Rightarrow> bytes option"
begin

lemma chunk_written:
  "\<exists>d' m'. chunkUploader kv ist t sz i takes d m = Some (d', m', Inr (length (iterateKV kv d sz)))
    \<and> view d' = marked (view d) (set (iterateKV kv d sz))
    \<and> icontent m' = (icontent m)(ReverseIndexFile i \<mapsto> text_bytes (index_text (format_time t) (iterateKV kv d sz)))"
proof -
  let ?f = "ReverseIndexFile i" and ?ks = "iterateKV kv d sz"
  obtain m1 e where del: "st_Delete ist m ?f = (m1, e)" by fastforce
  from delete_gone [of m ?f] del have m1: "icontent m1 = (icontent m)(?f := None)" by simp
  have e: "e = None \<or> e = Some ErrNotExists"
    using delete_ok [of m ?f] delete_missing [of m ?f] del by (cases "icontent m ?f") auto
  from drain_new [of d t sz] obtain d' r' where
    read: "drain kv copy_buffer d (newDBReader kv d t sz) '''' = Some (d', r', index_text (format_time t) ?ks)"
      "view d' = marked (view d) (set ?ks)" "dr_count r' = length ?ks" "dbReader_Close r' = Some ()"
    by blast
  from put_new [of NoOverWrite m1 ?f "text_bytes (index_text (format_time t) ?ks)"] m1 obtain m2 where
    m2: "st_Put ist m1 ?f (text_bytes (index_text (format_time t) ?ks)) NoOverWrite = (m2, None)"
      "icontent m2 = (icontent m1)(?f \<mapsto> text_bytes (index_text (format_time t) ?ks))" by auto
  have "chunk_attempt kv ist t sz i reads d m = Some (d', m2, Inr (length ?ks))" for reads
    using del e read m2(1) by (auto simp: chunk_attempt_def)
  then have "chunkUploader kv ist t sz i takes d m = Some (d', m2, Inr (length ?ks))" by (cases takes) simp_all
  with read(2) m2(2) m1 show ?thesis by simp
qed

end

text \<open>
  The state of the index: every marked key is in an index file, and every index file is one of those written,
  with keys of the local store.
\<close>

definition index_ok :: "nat \<Rightarrow> (string \<Rightarrow> bytes option) \<Rightarrow> (string \<Rightarrow> string option) \<Rightarrow> 64 word \<Rightarrow> bool" where
  "index_ok t c v n \<longleftrightarrow>
     (\<forall>k. v k = Some ''X'' \<longrightarrow> (\<exists>i ks. c (ReverseIndexFile i) = Some (text_bytes (index_text (format_time t) ks)) \<and> k \<in> set ks \<and> set ks \<subseteq> dom v))
   \<and> (\<forall>f b. c f = Some b \<longrightarrow> prefix ReverseIndexPrefix f \<longrightarrow>
        (\<exists>i ks. f = ReverseIndexFile i \<and> unat i \<le> unat n \<and> b = text_bytes (index_text (format_time t) ks) \<and> set ks \<subseteq> dom v))
   \<and> (\<forall>k x. v k = Some x \<longrightarrow> x = '''' \<or> x = ''X'')"

lemma index_ok_insert: "index_ok t c v n \<Longrightarrow> v k = None \<Longrightarrow> index_ok t c (v(k \<mapsto> '''')) n"
  unfolding index_ok_def dom_fun_upd
  by (intro conjI allI impI; elim conjE; clarsimp split: if_splits) blast+

lemma index_ok_later: "index_ok t c v n \<Longrightarrow> unat n \<le> unat n' \<Longrightarrow> index_ok t c v n'"
  unfolding index_ok_def by (meson order_trans)

lemma index_ok_chunk:
  assumes ok: "index_ok t c v n" and new: "unat n < unat n'" and sub: "set ks \<subseteq> dom v"
  shows "index_ok t (c(ReverseIndexFile n' \<mapsto> text_bytes (index_text (format_time t) ks))) (marked v (set ks)) n'"
proof -
  have fresh: "c (ReverseIndexFile n') = None"
  proof (rule ccontr)
    assume "c (ReverseIndexFile n') \<noteq> None"
    then obtain i where "ReverseIndexFile n' = ReverseIndexFile i" "unat i \<le> unat n"
      using ok reverse_index_under unfolding index_ok_def by blast
    with new show False by simp
  qed
  have dom: "dom (marked v (set ks)) = dom v" using sub by (auto simp: marked_def dom_def split: if_splits)
  show ?thesis
    unfolding index_ok_def dom
  proof (intro conjI allI impI)
    fix k assume "marked v (set ks) k = Some ''X''"
    then consider "k \<in> set ks" | "v k = Some ''X''" by (auto simp: marked_def split: if_splits)
    then show "\<exists>i ls. (c(ReverseIndexFile n' \<mapsto> text_bytes (index_text (format_time t) ks))) (ReverseIndexFile i) =
        Some (text_bytes (index_text (format_time t) ls)) \<and> k \<in> set ls \<and> set ls \<subseteq> dom v"
    proof cases
      case 2
      with ok obtain i ls where i: "c (ReverseIndexFile i) = Some (text_bytes (index_text (format_time t) ls))" "k \<in> set ls" "set ls \<subseteq> dom v"
        unfolding index_ok_def by blast
      with fresh have "i \<noteq> n'" by auto
      with i show ?thesis by (intro exI [of _ i] exI [of _ ls]) simp
    qed (use sub in \<open>auto intro!: exI [of _ n']\<close>)
  next
    fix f b
    assume "(c(ReverseIndexFile n' \<mapsto> text_bytes (index_text (format_time t) ks))) f = Some b" "prefix ReverseIndexPrefix f"
    moreover have "\<exists>i ks. f = ReverseIndexFile i \<and> unat i \<le> unat n \<and> b = text_bytes (index_text (format_time t) ks) \<and> set ks \<subseteq> dom v"
      if "c f = Some b" "prefix ReverseIndexPrefix f" using ok that unfolding index_ok_def by blast
    ultimately show "\<exists>i ks. f = ReverseIndexFile i \<and> unat i \<le> unat n' \<and> b = text_bytes (index_text (format_time t) ks) \<and> set ks \<subseteq> dom v"
      using new sub by (auto split: if_splits)
  next
    fix k x assume "marked v (set ks) k = Some x"
    with ok show "x = '''' \<or> x = ''X''" unfolding index_ok_def marked_def by (auto split: if_splits)
  qed
qed


section \<open>The scan\<close>

text \<open>The blobs of an entry, with the leaf size of its bundle: the root and the leaves that the root tells.\<close>

definition entry_root :: "nat \<times> BundleEntry \<Rightarrow> string" where
  "entry_root a = (case KeyFromString (be_Hash (snd a)) of Inl e \<Rightarrow> '''' | Inr root \<Rightarrow> Key_String root)"

definition entry_blobs :: "('b, 'm, 'd, 'v) purge_env \<Rightarrow> 'b \<Rightarrow> nat \<times> BundleEntry \<Rightarrow> string set" where
  "entry_blobs P b a =
     (case KeyFromString (be_Hash (snd a)) of
        Inl e \<Rightarrow> {}
      | Inr root \<Rightarrow> insert (Key_String root)
          (case leavesForHash (px_hasher P) (px_blob P) b root (fst a) '''' of Inl e \<Rightarrow> {} | Inr ks \<Rightarrow> Key_String ` set ks))"

definition valid_hash :: "nat \<times> BundleEntry \<Rightarrow> bool" where
  "valid_hash a \<longleftrightarrow> (\<exists>root. KeyFromString (be_Hash (snd a)) = Inr root)"

text \<open>
  A key that is the root of an entry is not found among the blobs of another one unless all blobs of that
  entry are: roots are no leaves, and a root tells the same leaves wherever it is found.
\<close>

definition keys_apart :: "('b, 'm, 'd, 'v) purge_env \<Rightarrow> 'b \<Rightarrow> (nat \<times> BundleEntry) set \<Rightarrow> bool" where
  "keys_apart P b U \<longleftrightarrow> (\<forall>a \<in> U. \<forall>a' \<in> U. entry_root a \<in> entry_blobs P b a' \<longrightarrow> entry_blobs P b a \<subseteq> entry_blobs P b a')"

fun promised :: "scan_task \<Rightarrow> string set" where
  "promised (Lookup n es keys) = set keys"
| "promised (Insert keys) = set keys"
| "promised (Fail e) = {}"

fun to_look :: "scan_task \<Rightarrow> (nat \<times> BundleEntry) set" where
  "to_look (Lookup n es keys) = Pair n ` set es"
| "to_look t = {}"

fun fails :: "scan_task \<Rightarrow> bool" where
  "fails (Fail e) \<longleftrightarrow> True"
| "fails t \<longleftrightarrow> False"

abbreviation all_promised :: "scan_task list list \<Rightarrow> string set" where
  "all_promised ws \<equiv> (\<Union>w \<in> set ws. \<Union>t \<in> set w. promised t)"

abbreviation all_to_look :: "scan_task list list \<Rightarrow> (nat \<times> BundleEntry) set" where
  "all_to_look ws \<equiv> (\<Union>w \<in> set ws. \<Union>t \<in> set w. to_look t)"

text \<open>
  \<open>U\<close> are the entries of all contexts, \<open>A\<close> those of the contexts scanned so far and the present one, \<open>K0\<close> the keys
  that the local store has from the beginning. The keys in the local store and those on their way to it
  always have all blobs of the entries looked up, and with a root all blobs of its entry: but for the entries
  whose root is among the first keys, which are skipped.
\<close>

definition new_blobs :: "('b, 'm, 'd, 'v) purge_env \<Rightarrow> 'b \<Rightarrow> (nat \<times> BundleEntry) set \<Rightarrow> string set \<Rightarrow> string set" where
  "new_blobs P b U K0 = (\<Union>a \<in> {a \<in> U. entry_root a \<notin> K0}. entry_blobs P b a)"

definition scan_ok ::
  "('b, 'm, 'd, 'v) purge_env \<Rightarrow> 'b \<Rightarrow> (nat \<times> BundleEntry) set \<Rightarrow> string set \<Rightarrow> (nat \<times> BundleEntry) set \<Rightarrow> scan_task list list \<Rightarrow> string set \<Rightarrow> bool" where
  "scan_ok P b U K0 A ws K \<longleftrightarrow>
     (\<forall>w \<in> set ws. \<forall>t \<in> set w. \<not> fails t) \<and> all_to_look ws \<subseteq> A \<and> A \<subseteq> U
   \<and> (\<forall>a \<in> A. a \<in> all_to_look ws \<or> entry_root a \<in> K0 \<or> entry_blobs P b a \<subseteq> K \<union> all_promised ws)
   \<and> (\<forall>a \<in> U. entry_root a \<in> K \<union> all_promised ws - K0 \<longrightarrow> entry_blobs P b a \<subseteq> K \<union> all_promised ws)
   \<and> K \<union> all_promised ws \<subseteq> K0 \<union> new_blobs P b U K0 \<and> K0 \<subseteq> K"

lemma scan_ok_replace:
  assumes "scan_ok P b U K0 A (us @ w # vs) K" and "\<forall>t \<in> set w'. \<not> fails t"
    and "(\<Union>t \<in> set w. to_look t) \<subseteq> (\<Union>t \<in> set w'. to_look t) \<union> Seen" and "(\<Union>t \<in> set w'. to_look t) \<subseteq> (\<Union>t \<in> set w. to_look t)"
    and "K' \<union> all_promised (us @ w' # vs) = K \<union> all_promised (us @ w # vs) \<union> New"
    and "\<forall>a \<in> Seen. entry_root a \<in> K0 \<or> entry_blobs P b a \<subseteq> K \<union> all_promised (us @ w # vs) \<union> New"
    and "\<forall>a \<in> U. entry_root a \<in> New \<longrightarrow> entry_blobs P b a \<subseteq> New" and "New \<subseteq> new_blobs P b U K0" and "K0 \<subseteq> K'"
  shows "scan_ok P b U K0 A (us @ w' # vs) K'"
proof -
  define D where "D = K \<union> all_promised (us @ w # vs)"
  have ok: "\<forall>w \<in> set (us @ w # vs). \<forall>t \<in> set w. \<not> fails t" "all_to_look (us @ w # vs) \<subseteq> A" "A \<subseteq> U"
      "\<forall>a \<in> A. a \<in> all_to_look (us @ w # vs) \<or> entry_root a \<in> K0 \<or> entry_blobs P b a \<subseteq> D"
      "\<forall>a \<in> U. entry_root a \<in> D - K0 \<longrightarrow> entry_blobs P b a \<subseteq> D" "D \<subseteq> K0 \<union> new_blobs P b U K0"
    using assms(1) [unfolded scan_ok_def, folded D_def] by - (elim conjE; assumption)+
  have look: "all_to_look (us @ w' # vs) \<subseteq> all_to_look (us @ w # vs)" "all_to_look (us @ w # vs) \<subseteq> all_to_look (us @ w' # vs) \<union> Seen"
    using assms(3,4) by auto
  show ?thesis
    unfolding scan_ok_def assms(5) D_def [symmetric]
  proof (intro conjI)
    show "\<forall>w \<in> set (us @ w' # vs). \<forall>t \<in> set w. \<not> fails t" using ok(1) assms(2) by auto
    show "all_to_look (us @ w' # vs) \<subseteq> A" using look(1) ok(2) by blast
    show "\<forall>a \<in> A. a \<in> all_to_look (us @ w' # vs) \<or> entry_root a \<in> K0 \<or> entry_blobs P b a \<subseteq> D \<union> New"
    proof
      fix a assume "a \<in> A"
      with ok(4) consider "a \<in> all_to_look (us @ w' # vs)" | "a \<in> Seen" | "entry_root a \<in> K0" | "entry_blobs P b a \<subseteq> D" using look(2) by blast
      then show "a \<in> all_to_look (us @ w' # vs) \<or> entry_root a \<in> K0 \<or> entry_blobs P b a \<subseteq> D \<union> New"
        by cases (use assms(6) [folded D_def] in blast)+
    qed
    show "\<forall>a \<in> U. entry_root a \<in> D \<union> New - K0 \<longrightarrow> entry_blobs P b a \<subseteq> D \<union> New" using ok(5) assms(7) by blast
    show "D \<union> New \<subseteq> K0 \<union> new_blobs P b U K0" using ok(6) assms(8) by blast
  qed (rule ok(3), rule assms(9))
qed

context kv_store
begin

lemma entry_keys_eq:
  assumes "px_kv P = kv" and "valid_hash (n, e)"
  shows "\<exists>ks. entry_keys P b d n e = Inr ks \<and> set ks = (if view d (entry_root (n, e)) = None then entry_blobs P b (n, e) else {})"
  using assms by (auto simp: entry_keys_def valid_hash_def entry_root_def entry_blobs_def split: sum.splits)

lemma worker_step_ok:
  assumes ok: "scan_ok P b U K0 A (us @ w # vs) (dom (view d))" and kv: "px_kv P = kv" and valid: "\<forall>a \<in> U. valid_hash a"
    and apart: "keys_apart P b U"
  shows "\<exists>d' n w'. worker_step P b d w = (d', n, Inr w') \<and> scan_ok P b U K0 A (us @ w' # vs) (dom (view d'))
    \<and> (view d' = view d \<or> (\<exists>k. view d k = None \<and> view d' = (view d)(k \<mapsto> '''')))"
proof (cases w)
  case Nil
  with ok show ?thesis by auto
next
  case w: (Cons t ts)
  have nofail: "\<forall>t \<in> set w. \<not> fails t" using ok by (auto simp: scan_ok_def)
  have base: "K0 \<subseteq> dom (view d)" using ok by (simp add: scan_ok_def)
  show ?thesis
  proof (cases t)
    case (Fail e)
    with nofail w show ?thesis by simp
  next
    case (Insert keys)
    show ?thesis
    proof (cases keys)
      case Nil
      have "scan_ok P b U K0 A (us @ ts # vs) (dom (view d))"
        by (rule scan_ok_replace [OF ok, where Seen = "{}" and New = "{}"]) (use w Insert Nil nofail base in auto)
      with w Insert Nil show ?thesis by auto
    next
      case (Cons k ks)
      from insert_ok [of d k "''''"] obtain d' where
        d': "kv_SetIfNotExists kv d k '''' = (d', None)" "view d' = (if view d k = None then (view d)(k \<mapsto> '''') else view d)" by blast
      then have dom: "dom (view d') = insert k (dom (view d))" by auto
      have "scan_ok P b U K0 A (us @ (Insert ks # ts) # vs) (dom (view d'))"
        by (rule scan_ok_replace [OF ok, where Seen = "{}" and New = "{}"]) (use w Insert Cons nofail dom base in auto)
      with w Insert Cons d' kv show ?thesis by auto
    qed
  next
    case (Lookup n es keys)
    show ?thesis
    proof (cases es)
      case Nil
      have "scan_ok P b U K0 A (us @ (Insert keys # ts) # vs) (dom (view d))"
        by (rule scan_ok_replace [OF ok, where Seen = "{}" and New = "{}"]) (use w Lookup Nil nofail base in auto)
      with w Lookup Nil show ?thesis by auto
    next
      case (Cons e es')
      have inU: "(n, e) \<in> U" using ok w Lookup Cons by (auto simp: scan_ok_def)
      with entry_keys_eq [OF kv, of n e b d] valid obtain ks where
        ks: "entry_keys P b d n e = Inr ks" "set ks = (if view d (entry_root (n, e)) = None then entry_blobs P b (n, e) else {})" by blast
      have new: "\<forall>a \<in> U. entry_root a \<in> set ks \<longrightarrow> entry_blobs P b a \<subseteq> set ks"
        using apart inU by (auto simp: ks(2) keys_apart_def split: if_splits)
      have "entry_root (n, e) \<in> K0 \<or> entry_blobs P b (n, e) \<subseteq> dom (view d) \<union> all_promised (us @ w # vs) \<union> set ks"
      proof (cases "view d (entry_root (n, e)) = None")
        case False
        then show ?thesis using ok inU unfolding scan_ok_def by blast
      qed (simp add: ks(2))
      moreover have "set ks \<subseteq> new_blobs P b U K0" using inU base by (auto simp: ks(2) new_blobs_def split: if_splits)
      ultimately have "scan_ok P b U K0 A (us @ (Lookup n es' (keys @ ks) # ts) # vs) (dom (view d))"
        by (intro scan_ok_replace [OF ok, where Seen = "{(n, e)}" and New = "set ks"]) (use w Lookup Cons nofail new base in auto)
      with w Lookup Cons ks(1) show ?thesis by auto
    qed
  qed
qed

end


section \<open>Building the index\<close>

lemma unat_Suc_word: "unat (n :: 64 word) + 1 < 2 ^ 64 \<Longrightarrow> unat (n + 1) = unat n + 1"
  using no_olen_add_nat [of n 1] unat_plus_simple [of n 1] by simp

text \<open>The part of the state that the uploader works on; \<open>c0\<close> is what the metadata had besides.\<close>

definition files_ok ::
  "('d \<Rightarrow> string \<Rightarrow> string option) \<Rightarrow> ('m \<Rightarrow> string \<Rightarrow> bytes option) \<Rightarrow> (string \<Rightarrow> bytes option) \<Rightarrow> nat \<Rightarrow> nat \<Rightarrow> ('d, 'm) build \<Rightarrow> bool" where
  "files_ok view icontent c0 k0 t u \<longleftrightarrow>  bu_failed u = None \<and> index_ok t (icontent (bu_index u)) (view (bu_db u)) (bu_chunk u)
     \<and> (\<forall>f. \<not> prefix ReverseIndexPrefix f \<longrightarrow> icontent (bu_index u) f = c0 f)
     \<and> bu_uploaded u + card (waiting (view (bu_db u))) + k0 = card (dom (view (bu_db u)))"

context indexing
begin

lemma iterate_waiting: "set (iterateKV kv d sz) \<subseteq> waiting (view d)" "distinct (iterateKV kv d sz)"
    "length (iterateKV kv d sz) = min sz (card (waiting (view d)))"
proof -
  note um = unmarked_waiting [of d]
  show "set (iterateKV kv d sz) \<subseteq> waiting (view d)" using um set_take_subset [of sz "unmarked (kv_AllKeys kv d)"] by (auto simp: iterateKV_def)
  show "distinct (iterateKV kv d sz)" using um by (simp add: iterateKV_def)
  have "length (unmarked (kv_AllKeys kv d)) = card (waiting (view d))" using um distinct_card by metis
  then show "length (iterateKV kv d sz) = min sz (card (waiting (view d)))" by (simp add: iterateKV_def min_def)
qed

lemma dom_marked: "set ks \<subseteq> waiting v \<Longrightarrow> dom (marked v (set ks)) = dom v"
  by (auto simp: marked_def waiting_def split: if_splits)

lemma upload_chunk_ok:
  assumes P: "px_kv P = kv" "px_index P = ist" and ok: "files_ok view icontent c0 k0 t u" and new: "unat (bu_chunk u) < unat n"
  shows "\<exists>u'. upload_chunk P t sz takes (u\<lparr>bu_chunk := n\<rparr>) = Some u' \<and> files_ok view icontent c0 k0 t u' \<and> bu_chunk u' = n
    \<and> bu_uploaded u' = bu_uploaded u + min sz (card (waiting (view (bu_db u)))) \<and> bu_unique u' = bu_unique u
    \<and> dom (view (bu_db u')) = dom (view (bu_db u))
    \<and> card (waiting (view (bu_db u'))) = card (waiting (view (bu_db u))) - min sz (card (waiting (view (bu_db u))))
    \<and> icontent (bu_index u') (ReverseIndexFile n) \<noteq> None"
proof -
  let ?d = "bu_db u" and ?m = "bu_index u" and ?ks = "iterateKV kv (bu_db u) sz"
  note ks = iterate_waiting [of ?d sz]
  from chunk_written [of t sz n takes ?d ?m] obtain d' m' where
    up: "chunkUploader kv ist t sz n takes ?d ?m = Some (d', m', Inr (length ?ks))" "view d' = marked (view ?d) (set ?ks)"
      "icontent m' = (icontent ?m)(ReverseIndexFile n \<mapsto> text_bytes (index_text (format_time t) ?ks))" by blast
  let ?u = "u\<lparr>bu_chunk := n, bu_db := d', bu_index := m', bu_uploaded := bu_uploaded u + length ?ks\<rparr>"
  have sub: "set ?ks \<subseteq> dom (view ?d)" using ks(1) by (auto simp: waiting_def)
  have "index_ok t (icontent m') (view d') n"
    unfolding up(2,3) using ok by (intro index_ok_chunk [OF _ new sub]) (simp add: files_ok_def)
  moreover have "\<forall>f. \<not> prefix ReverseIndexPrefix f \<longrightarrow> icontent m' f = c0 f"
    using ok reverse_index_under by (auto simp: files_ok_def up(3))
  moreover have wait: "card (waiting (view d')) = card (waiting (view ?d)) - length ?ks"
  proof -
    have "finite (waiting (view ?d))" by (rule finite_waiting)
    with ks show ?thesis unfolding up(2) waiting_marked by (metis card_Diff_subset distinct_card finite_set)
  qed
  moreover have dom: "dom (view d') = dom (view ?d)" unfolding up(2) by (rule dom_marked [OF ks(1)])
  ultimately have "files_ok view icontent c0 k0 t ?u" using ok ks(3) by (simp add: files_ok_def)
  moreover note wait dom
  moreover have "icontent m' (ReverseIndexFile n) \<noteq> None" by (simp add: up(3))
  ultimately show ?thesis using up(1) ks(3) P by (intro exI [of _ ?u]) (simp add: upload_chunk_def)
qed

lemma tick_ok:
  assumes P: "px_kv P = kv" "px_index P = ist" and ok: "files_ok view icontent c0 k0 t u" and room: "unat (bu_chunk u) + 1 < 2 ^ 64"
  shows "\<exists>u'. tick P t sz started u = Some u' \<and> files_ok view icontent c0 k0 t u' \<and> unat (bu_chunk u') \<le> unat (bu_chunk u) + 1
    \<and> dom (view (bu_db u')) = dom (view (bu_db u))"
proof (cases "bu_failed u \<noteq> None \<or> bu_unique u < bu_lastSeen u + sz")
  case True
  with ok show ?thesis by (simp add: tick_def)
next
  case go: False
  let ?u = "u\<lparr>bu_lastSeen := bu_unique u\<rparr>" and ?n = "bu_chunk u + 1"
  note n = unat_Suc_word [OF room]
  have ok': "files_ok view icontent c0 k0 t ?u" using ok by (simp add: files_ok_def)
  show ?thesis
  proof (cases started)
    case None
    have "files_ok view icontent c0 k0 t (?u\<lparr>bu_chunk := ?n\<rparr>)" using ok n by (auto simp: files_ok_def intro: index_ok_later)
    with go None n show ?thesis by (simp add: tick_def)
  next
    case (Some takes)
    from upload_chunk_ok [OF P ok', of ?n sz takes] n obtain u' where
      "upload_chunk P t sz takes (?u\<lparr>bu_chunk := ?n\<rparr>) = Some u'" "files_ok view icontent c0 k0 t u'" "bu_chunk u' = ?n"
      "dom (view (bu_db u')) = dom (view (bu_db u))" by auto
    with go Some n show ?thesis by (simp add: tick_def)
  qed
qed

lemma scan_run_ok:
  assumes P: "px_kv P = kv" "px_index P = ist" and valid: "\<forall>a \<in> U. valid_hash a" and apart: "keys_apart P b U"
    and "files_ok view icontent c0 k0 t u" and "scan_ok P b U K0 A ws (dom (view (bu_db u)))" and "unat (bu_chunk u) + length evs < 2 ^ 64"
  shows "\<exists>ws' u'. scan_run P b t sz evs ws u = Some (ws', u', None) \<and> files_ok view icontent c0 k0 t u'
    \<and> scan_ok P b U K0 A ws' (dom (view (bu_db u'))) \<and> unat (bu_chunk u') \<le> unat (bu_chunk u) + length evs"
  using assms(5-7)
proof (induction evs arbitrary: ws u)
  case (Cons ev evs)
  show ?case
  proof (cases ev)
    case (Tick started)
    from tick_ok [OF P Cons.prems(1), of sz started] Cons.prems(3) obtain u1 where
      u1: "tick P t sz started u = Some u1" "files_ok view icontent c0 k0 t u1" "unat (bu_chunk u1) \<le> unat (bu_chunk u) + 1"
        "dom (view (bu_db u1)) = dom (view (bu_db u))" by auto
    with Cons.IH [of u1 ws] Cons.prems Tick show ?thesis by fastforce
  next
    case (Work i)
    show ?thesis
    proof (cases "length ws \<le> i")
      case True
      with Cons.IH [of u ws] Cons.prems Work show ?thesis by fastforce
    next
      case False
      then have i: "i < length ws" by simp
      note split = id_take_nth_drop [OF i]
      from Cons.prems(2) have "scan_ok P b U K0 A (take i ws @ ws ! i # drop (Suc i) ws) (dom (view (bu_db u)))" using split by simp
      from worker_step_ok [OF this P(1) valid apart] obtain d' n w' where
        st: "worker_step P b (bu_db u) (ws ! i) = (d', n, Inr w')" "scan_ok P b U K0 A (take i ws @ w' # drop (Suc i) ws) (dom (view d'))"
          "view d' = view (bu_db u) \<or> (\<exists>k. view (bu_db u) k = None \<and> view d' = (view (bu_db u))(k \<mapsto> ''''))" by blast
      let ?u = "u\<lparr>bu_db := d', bu_unique := bu_unique u + n\<rparr>"
      have "card (waiting ((view (bu_db u))(k \<mapsto> ''''))) = card (waiting (view (bu_db u))) + 1
          \<and> card (dom ((view (bu_db u))(k \<mapsto> ''''))) = card (dom (view (bu_db u))) + 1" if "view (bu_db u) k = None" for k
      proof -
        have "waiting ((view (bu_db u))(k \<mapsto> '''')) = insert k (waiting (view (bu_db u)))" "k \<notin> waiting (view (bu_db u))"
          using that by (auto simp: waiting_def)
        with that finite_waiting [of "bu_db u"] finite_view [of "bu_db u"] show ?thesis by (simp add: domIff)
      qed
      then have "files_ok view icontent c0 k0 t ?u" using Cons.prems(1) st(3) by (auto simp: files_ok_def intro: index_ok_insert)
      moreover have "scan_ok P b U K0 A (ws[i := w']) (dom (view d'))" using st(2) by (simp add: upd_conv_take_nth_drop i)
      ultimately show ?thesis using Cons.IH [of ?u "ws[i := w']"] Cons.prems(3) Work i st(1) by fastforce
    qed
  qed
qed simp

lemma last_chunks_ok:
  assumes P: "px_kv P = kv" "px_index P = ist" and sz: "0 < sz" and "files_ok view icontent c0 k0 t u"
    and "unat (bu_chunk u) + card (waiting (view (bu_db u))) + 1 < 2 ^ 64"
  shows "\<exists>u'. last_chunks P t sz retries u = Some u' \<and> files_ok view icontent c0 k0 t u' \<and> dom (view (bu_db u')) = dom (view (bu_db u))
    \<and> waiting (view (bu_db u')) = {} \<and> bu_uploaded u' = bu_uploaded u + card (waiting (view (bu_db u)))
    \<and> (\<exists>i. icontent (bu_index u') (ReverseIndexFile i) \<noteq> None)"
  using assms(4,5)
proof (induction "card (waiting (view (bu_db u)))" arbitrary: u rule: less_induct)
  case less
  let ?c = "card (waiting (view (bu_db u)))" and ?n = "bu_chunk u + 1"
  have n: "unat ?n = unat (bu_chunk u) + 1" using less.prems(2) by (intro unat_Suc_word) simp
  from upload_chunk_ok [OF P less.prems(1), of ?n sz "retries ?n"] n obtain u1 where
    u1: "upload_chunk P t sz (retries ?n) (u\<lparr>bu_chunk := ?n\<rparr>) = Some u1" "files_ok view icontent c0 k0 t u1" "bu_chunk u1 = ?n"
      "bu_uploaded u1 = bu_uploaded u + min sz ?c" "dom (view (bu_db u1)) = dom (view (bu_db u))"
      "card (waiting (view (bu_db u1))) = ?c - min sz ?c" "icontent (bu_index u1) (ReverseIndexFile ?n) \<noteq> None" by auto
  have run: "last_chunks P t sz retries u = (if bu_uploaded u1 \<le> bu_uploaded u then Some u1 else last_chunks P t sz retries u1)"
    using u1(1,2) by (subst last_chunks.simps) (simp add: files_ok_def)
  show ?case
  proof (cases "?c = 0")
    case True
    have "finite (waiting (view (bu_db u1)))" by (rule finite_waiting)
    with True u1 run show ?thesis by (intro exI [of _ u1]) auto
  next
    case False
    with sz have min: "0 < min sz ?c" by simp
    have "card (waiting (view (bu_db u1))) < ?c" using min False by (simp add: u1(6))
    moreover from this have "unat (bu_chunk u1) + card (waiting (view (bu_db u1))) + 1 < 2 ^ 64"
      using less.prems(2) n by (simp add: u1(3))
    ultimately obtain u' where
      u': "last_chunks P t sz retries u1 = Some u'" "files_ok view icontent c0 k0 t u'" "dom (view (bu_db u')) = dom (view (bu_db u1))"
        "waiting (view (bu_db u')) = {}" "bu_uploaded u' = bu_uploaded u1 + card (waiting (view (bu_db u1)))"
        "\<exists>i. icontent (bu_index u') (ReverseIndexFile i) \<noteq> None" using less.hyps [OF _ u1(2)] by blast
    with run min u1 show ?thesis by (intro exI [of _ u']) auto
  qed
qed

end


section \<open>What the contexts refer to\<close>

abbreviation scan_settings :: Settings where
  "scan_settings \<equiv> defaultSettings\<lparr>set_ignoreCorruptedMetadata := True\<rparr>"

text \<open>The entries of the bundles of a context, each with the leaf size of its bundle.\<close>

definition in_use :: "('b, 'm, 'd, 'v) purge_env \<Rightarrow> 'm Store \<Rightarrow> 'm \<Rightarrow> (nat \<times> BundleEntry) set" where
  "in_use P st m = {(bd_LeafSize d, e) | repos r bundles d es e.
     ListRepos (px_env P) st m defaultSettings = Some (repos, None) \<and> r \<in> set repos
   \<and> ListBundles (px_env P) st m (rd_Name r) scan_settings = Some (bundles, None) \<and> d \<in> set bundles
   \<and> bundle_entries P st m (rd_Name r) d = Inr es \<and> e \<in> set es}"

text \<open>The repositories and bundles of a context are listed, and unpacking a bundle does not panic.\<close>

definition scannable :: "('b, 'm, 'd, 'v) purge_env \<Rightarrow> 'm Store \<Rightarrow> 'm \<Rightarrow> bool" where
  "scannable P st m \<longleftrightarrow> (\<exists>repos. ListRepos (px_env P) st m defaultSettings = Some (repos, None)
     \<and> (\<forall>r \<in> set repos. \<exists>bundles. ListBundles (px_env P) st m (rd_Name r) scan_settings = Some (bundles, None)
         \<and> (\<forall>d \<in> set bundles. \<exists>es. bundle_entries P st m (rd_Name r) d = Inr es)))"

lemma all_some_map: "\<forall>x \<in> set xs. f x = Some (g x) \<Longrightarrow> all_some (map f xs) = Some (map g xs)"
  by (induction xs) auto

lemma context_workers_ok:
  assumes "scannable P st m"
  obtains ws where "context_workers P st m = Some (Inr ws)" "\<forall>w \<in> set ws. \<forall>t \<in> set w. \<not> fails t" "all_promised ws = {}"
    "all_to_look ws = in_use P st m"
proof -
  from assms obtain repos where repos: "ListRepos (px_env P) st m defaultSettings = Some (repos, None)"
      "\<forall>r \<in> set repos. \<exists>bundles. ListBundles (px_env P) st m (rd_Name r) scan_settings = Some (bundles, None)
         \<and> (\<forall>d \<in> set bundles. \<exists>es. bundle_entries P st m (rd_Name r) d = Inr es)" by (auto simp: scannable_def)
  then obtain bs where bs: "\<And>r. r \<in> set repos \<Longrightarrow> ListBundles (px_env P) st m (rd_Name r) scan_settings = Some (bs r, None)
         \<and> (\<forall>d \<in> set (bs r). \<exists>es. bundle_entries P st m (rd_Name r) d = Inr es)" by metis
  define ws where "ws = map (\<lambda>r. map (bundle_task P st m (rd_Name r)) (bs r)) repos"
  have task: "\<exists>es. bundle_entries P st m (rd_Name r) d = Inr es \<and> bundle_task P st m (rd_Name r) d = Lookup (bd_LeafSize d) es []"
    if "r \<in> set repos" "d \<in> set (bs r)" for r d using bs [OF that(1)] that(2) by (auto simp: bundle_task_def)
  have "\<forall>r \<in> set repos. repoKeysScanner P st m (rd_Name r) = Some (map (bundle_task P st m (rd_Name r)) (bs r))"
    using bs by (simp add: repoKeysScanner_def)
  then have run: "context_workers P st m = Some (Inr ws)"
    by (simp add: context_workers_def repos(1) all_some_map ws_def)
  have tasks: "t \<in> (\<Union>w \<in> set ws. set w) \<longleftrightarrow> (\<exists>r \<in> set repos. \<exists>d \<in> set (bs r). t = bundle_task P st m (rd_Name r) d)" for t
    by (auto simp: ws_def)
  have "\<not> fails t \<and> promised t = {}" if "t \<in> (\<Union>w \<in> set ws. set w)" for t
  proof -
    from that obtain r d where rd: "r \<in> set repos" "d \<in> set (bs r)" "t = bundle_task P st m (rd_Name r) d" unfolding tasks by blast
    from task [OF rd(1,2)] rd(3) show ?thesis by auto
  qed
  then have "\<forall>w \<in> set ws. \<forall>t \<in> set w. \<not> fails t" "all_promised ws = {}" by blast+
  moreover have "all_to_look ws = in_use P st m"
  proof (intro set_eqI iffI)
    fix a assume "a \<in> all_to_look ws"
    then obtain t where "t \<in> (\<Union>w \<in> set ws. set w)" "a \<in> to_look t" by blast
    then obtain r d where rd: "r \<in> set repos" "d \<in> set (bs r)" "a \<in> to_look (bundle_task P st m (rd_Name r) d)" unfolding tasks by blast
    from task [OF rd(1,2)] rd(3) obtain es e where "bundle_entries P st m (rd_Name r) d = Inr es" "e \<in> set es" "a = (bd_LeafSize d, e)" by auto
    with rd bs repos(1) show "a \<in> in_use P st m" unfolding in_use_def by blast
  next
    fix a assume "a \<in> in_use P st m"
    then obtain r bundles d es e where a: "a = (bd_LeafSize d, e)" "r \<in> set repos"
        "ListBundles (px_env P) st m (rd_Name r) scan_settings = Some (bundles, None)" "d \<in> set bundles"
        "bundle_entries P st m (rd_Name r) d = Inr es" "e \<in> set es" unfolding in_use_def using repos(1) by auto
    with bs have d: "d \<in> set (bs r)" by fastforce
    from task [OF a(2) d] a have "a \<in> to_look (bundle_task P st m (rd_Name r) d)" by auto
    moreover have "bundle_task P st m (rd_Name r) d \<in> (\<Union>w \<in> set ws. set w)" unfolding tasks using a(2) d by blast
    ultimately show "a \<in> all_to_look ws" by blast
  qed
  ultimately show ?thesis by (rule that [OF run])
qed

lemma scan_ok_start:
  "scan_ok P b U K0 A [] K \<Longrightarrow> \<forall>w \<in> set ws. \<forall>t \<in> set w. \<not> fails t \<Longrightarrow> all_promised ws = {} \<Longrightarrow> all_to_look ws \<subseteq> U \<Longrightarrow>
   scan_ok P b U K0 (A \<union> all_to_look ws) ws K"
  unfolding scan_ok_def by auto

lemma scan_ok_end: "scan_ok P b U K0 A ws K \<Longrightarrow> list_all (\<lambda>w. w = []) ws \<Longrightarrow> scan_ok P b U K0 A [] K"
proof -
  assume "scan_ok P b U K0 A ws K" "list_all (\<lambda>w. w = []) ws"
  moreover from this(2) have "all_to_look ws = {}" "all_promised ws = {}" by (auto simp: list_all_iff)
  ultimately show ?thesis unfolding scan_ok_def by auto
qed

text \<open>An index of a set of keys: the index files have exactly these keys, and there is one at least.\<close>

definition index_of :: "nat \<Rightarrow> (string \<Rightarrow> bytes option) \<Rightarrow> string set \<Rightarrow> bool" where
  "index_of t c K \<longleftrightarrow>
     (\<forall>f b. c f = Some b \<longrightarrow> prefix ReverseIndexPrefix f \<longrightarrow>
        (\<exists>i ks. f = ReverseIndexFile i \<and> b = text_bytes (index_text (format_time t) ks) \<and> set ks \<subseteq> K))
   \<and> (\<forall>k \<in> K. \<exists>i ks. c (ReverseIndexFile i) = Some (text_bytes (index_text (format_time t) ks)) \<and> k \<in> set ks \<and> set ks \<subseteq> K)
   \<and> (\<exists>i. c (ReverseIndexFile i) \<noteq> None)"

definition scope :: "('b, 'm, 'd, 'v) purge_env \<Rightarrow> ('m Store \<times> 'm \<times> 'e) list \<Rightarrow> (nat \<times> BundleEntry) set" where
  "scope P cs = (\<Union>(st, m, evs) \<in> set cs. in_use P st m)"

abbreviation used_blobs :: "('b, 'm, 'd, 'v) purge_env \<Rightarrow> 'b \<Rightarrow> ('m Store \<times> 'm \<times> 'e) list \<Rightarrow> string set" where
  "used_blobs P b cs \<equiv> (\<Union>a \<in> scope P cs. entry_blobs P b a)"

abbreviation schedule_length :: "('m Store \<times> 'm \<times> build_event list) list \<Rightarrow> nat" where
  "schedule_length cs \<equiv> sum_list (map (\<lambda>(st, m, evs). length evs) cs)"

context indexing
begin

lemma scanContext_ok:
  assumes P: "px_kv P = kv" "px_index P = ist" and valid: "\<forall>a \<in> U. valid_hash a" and apart: "keys_apart P b U"
    and ok: "files_ok view icontent c0 k0 t u" "scan_ok P b U K0 A [] (dom (view (bu_db u)))" and room: "unat (bu_chunk u) + length evs < 2 ^ 64"
    and scan: "scannable P st m" "in_use P st m \<subseteq> U" and run: "scanContext P b t sz evs st m u \<noteq> None"
  shows "\<exists>u'. scanContext P b t sz evs st m u = Some (u', None) \<and> files_ok view icontent c0 k0 t u'
    \<and> scan_ok P b U K0 (A \<union> in_use P st m) [] (dom (view (bu_db u'))) \<and> unat (bu_chunk u') \<le> unat (bu_chunk u) + length evs"
proof -
  obtain ws where
    ws: "context_workers P st m = Some (Inr ws)" "\<forall>w \<in> set ws. \<forall>t \<in> set w. \<not> fails t" "all_promised ws = {}" "all_to_look ws = in_use P st m"
    by (rule context_workers_ok [OF scan(1)])
  from scan_ok_start [OF ok(2) ws(2,3)] scan(2) have "scan_ok P b U K0 (A \<union> in_use P st m) ws (dom (view (bu_db u)))" by (simp add: ws(4))
  from scan_run_ok [OF P valid apart ok(1) this room, of sz] obtain ws' u' where
    u': "scan_run P b t sz evs ws u = Some (ws', u', None)" "files_ok view icontent c0 k0 t u'"
      "scan_ok P b U K0 (A \<union> in_use P st m) ws' (dom (view (bu_db u')))" "unat (bu_chunk u') \<le> unat (bu_chunk u) + length evs" by blast
  from run ws(1) u'(1) have "list_all (\<lambda>w. w = []) ws'" by (auto simp: scanContext_def split: if_splits)
  with ws(1) u' scan_ok_end [OF u'(3)] show ?thesis by (auto simp: scanContext_def)
qed

lemma scan_contexts_ok:
  assumes P: "px_kv P = kv" "px_index P = ist" and valid: "\<forall>a \<in> U. valid_hash a" and apart: "keys_apart P b U"
    and "files_ok view icontent c0 k0 t u" "scan_ok P b U K0 A [] (dom (view (bu_db u)))" and "unat (bu_chunk u) + schedule_length cs < 2 ^ 64"
    and "\<forall>(st, m, evs) \<in> set cs. scannable P st m" and "scope P cs \<subseteq> U" and "scan_contexts P b t sz cs u \<noteq> None"
  shows "\<exists>u'. scan_contexts P b t sz cs u = Some (u', None) \<and> files_ok view icontent c0 k0 t u'
    \<and> scan_ok P b U K0 (A \<union> scope P cs) [] (dom (view (bu_db u'))) \<and> unat (bu_chunk u') \<le> unat (bu_chunk u) + schedule_length cs"
  using assms(5-)
proof (induction cs arbitrary: u A)
  case (Cons c cs)
  obtain st m evs where c: "c = (st, m, evs)" by (cases c)
  have sub: "in_use P st m \<subseteq> U" "scope P cs \<subseteq> U" using Cons.prems(5) by (auto simp: scope_def c)
  from Cons.prems(6) c have "scanContext P b t sz evs st m u \<noteq> None" by (cases "scanContext P b t sz evs st m u") auto
  with scanContext_ok [OF P valid apart Cons.prems(1,2), of evs st m sz] Cons.prems(3,4) sub(1) c obtain u1 where
    u1: "scanContext P b t sz evs st m u = Some (u1, None)" "files_ok view icontent c0 k0 t u1"
      "scan_ok P b U K0 (A \<union> in_use P st m) [] (dom (view (bu_db u1)))" "unat (bu_chunk u1) \<le> unat (bu_chunk u) + length evs" by auto
  from Cons.IH [OF u1(2,3)] u1(1,4) Cons.prems(3,4,6) sub(2) c obtain u' where
    "scan_contexts P b t sz cs u1 = Some (u', None)" "files_ok view icontent c0 k0 t u'"
    "scan_ok P b U K0 (A \<union> in_use P st m \<union> scope P cs) [] (dom (view (bu_db u')))" "unat (bu_chunk u') \<le> unat (bu_chunk u1) + schedule_length cs"
    by auto
  moreover have "scope P (c # cs) = in_use P st m \<union> scope P cs" by (simp add: scope_def c)
  ultimately show ?case using u1(1,4) c by (auto simp: Un_assoc)
qed (simp add: scope_def)

lemma build_index_ok:
  assumes P: "px_kv P = kv" "px_index P = ist" and valid: "\<forall>a \<in> scope P cs. valid_hash a" and apart: "keys_apart P b (scope P cs)"
    and sz: "0 < sz" and start: "view d = marked Map.empty K0" "index_ok t (icontent m) (view d) start"
    and scan: "\<forall>(st, m, evs) \<in> set cs. scannable P st m"
    and room: "unat start + schedule_length cs + card (K0 \<union> new_blobs P b (scope P cs) K0) + 1 < 2 ^ 64"
    and run: "scan_contexts P b t sz cs (new_build d m start) \<noteq> None"
  shows "\<exists>d' m'. build_index P b t sz retries cs (new_build d m start) =
      Some (d', m', Inr \<lparr>pi_IndexTime = t, pi_NumEntries = card (K0 \<union> new_blobs P b (scope P cs) K0) - card K0\<rparr>)
    \<and> index_of t (icontent m') (K0 \<union> new_blobs P b (scope P cs) K0) \<and> (\<forall>f. \<not> prefix ReverseIndexPrefix f \<longrightarrow> icontent m' f = icontent m f)"
proof -
  let ?u = "new_build d m start" and ?U = "scope P cs" and ?K = "K0 \<union> new_blobs P b (scope P cs) K0"
  have dom0: "dom (view d) = K0" "waiting (view d) = {}" by (auto simp: start(1) marked_def waiting_def split: if_splits)
  have files: "files_ok view icontent (icontent m) (card K0) t ?u"
    using start(2) dom0 by (simp add: files_ok_def new_build_def)
  have ok0: "scan_ok P b ?U K0 {} [] (dom (view (bu_db ?u)))" using dom0(1) by (simp add: scan_ok_def new_build_def)
  from scan_contexts_ok [OF P valid apart files ok0, of cs sz] run scan room obtain u1 where
    u1: "scan_contexts P b t sz cs ?u = Some (u1, None)" "files_ok view icontent (icontent m) (card K0) t u1"
      "scan_ok P b ?U K0 ?U [] (dom (view (bu_db u1)))" "unat (bu_chunk u1) \<le> unat start + schedule_length cs"
    by (auto simp: new_build_def)
  have dom: "dom (view (bu_db u1)) = ?K" using u1(3) unfolding scan_ok_def new_blobs_def by auto
  have "card (waiting (view (bu_db u1))) \<le> card ?K"
    using finite_view [of "bu_db u1"] by (intro card_mono) (auto simp: waiting_def simp flip: dom)
  with u1(4) room have "unat (bu_chunk u1) + card (waiting (view (bu_db u1))) + 1 < 2 ^ 64" by simp
  from last_chunks_ok [OF P sz u1(2) this, of retries] obtain u' where
    u': "last_chunks P t sz retries u1 = Some u'" "files_ok view icontent (icontent m) (card K0) t u'" "dom (view (bu_db u')) = ?K"
      "waiting (view (bu_db u')) = {}" "\<exists>i. icontent (bu_index u') (ReverseIndexFile i) \<noteq> None" unfolding dom by blast
  have all: "view (bu_db u') k = Some ''X''" if "k \<in> ?K" for k
  proof -
    from that u'(3) obtain x where "view (bu_db u') k = Some x" by (metis domD)
    moreover from this u'(4) have "x \<noteq> ''''" by (auto simp: waiting_def)
    ultimately show ?thesis using u'(2) by (auto simp: files_ok_def index_ok_def)
  qed
  have "\<forall>f c. icontent (bu_index u') f = Some c \<longrightarrow> prefix ReverseIndexPrefix f \<longrightarrow>
      (\<exists>i ks. f = ReverseIndexFile i \<and> c = text_bytes (index_text (format_time t) ks) \<and> set ks \<subseteq> ?K)"
    using u'(2) unfolding files_ok_def index_ok_def u'(3) by blast
  moreover have "\<forall>k \<in> ?K. \<exists>i ks. icontent (bu_index u') (ReverseIndexFile i) = Some (text_bytes (index_text (format_time t) ks)) \<and> k \<in> set ks \<and> set ks \<subseteq> ?K"
    using u'(2) all unfolding files_ok_def index_ok_def u'(3) by blast
  ultimately have "index_of t (icontent (bu_index u')) ?K" using u'(5) unfolding index_of_def by blast
  moreover have "bu_uploaded u' + card K0 = card ?K" using u'(2,4) by (simp add: files_ok_def u'(3))
  moreover from this have "bu_uploaded u' = card ?K - card K0" by simp
  moreover have "bu_failed u' = None" "bu_failed u1 = None" using u'(2) u1(2) by (simp_all add: files_ok_def)
  ultimately show ?thesis using u1(1) u'(1,2) by (simp add: build_index_def files_ok_def)
qed

end

end
