(* ===== verification/PurgeSafe.thy ===== *)
theory PurgeSafe
  imports PurgeIndex Diamonds
begin

text \<open>
  Correctness of the purge job: the index read back is what was written, and deleting unused blobs keeps
  every file that a readable bundle refers to.
\<close>

section \<open>Loading the index\<close>

text \<open>The number that is found is the greatest.\<close>

definition greatest :: "64 word \<Rightarrow> string list \<Rightarrow> 64 word \<Rightarrow> bool" where
  "greatest l ks l' \<longleftrightarrow> l \<le> l' \<and> (\<forall>i. ReverseIndexFile i \<in> set ks \<longrightarrow> i \<le> l') \<and> (l' = l \<or> ReverseIndexFile l' \<in> set ks)"

lemma greatest_append: "greatest l ks l1 \<Longrightarrow> greatest l1 ks' l' \<Longrightarrow> greatest l (ks @ ks') l'"
  unfolding greatest_def by (auto intro: order_trans)

lemma chunk_numbers_ok: "\<forall>k \<in> set ks. \<exists>i. k = ReverseIndexFile i \<Longrightarrow> \<exists>l'. chunk_numbers l ks = Inr l' \<and> greatest l ks l'"
proof (induction ks arbitrary: l)
  case (Cons k ks)
  then obtain i where k: "k = ReverseIndexFile i" by auto
  from Cons obtain l' where l': "chunk_numbers (if l < i then i else l) ks = Inr l'" "greatest (if l < i then i else l) ks l'" by fastforce
  have "greatest l [k] (if l < i then i else l)" by (auto simp: greatest_def k)
  from greatest_append [OF this l'(2)] l'(1) k show ?case by (simp add: ReverseIndexChunk_file)
qed (simp add: greatest_def)

lemma index_chunks_listed:
  assumes "pages (meta_store_page st m ReverseIndexPrefix '''' 1024) tok kss e" and "e = None" and "[] \<notin> set (butlast kss)"
    and "\<forall>k \<in> set (concat kss). \<exists>i. k = ReverseIndexFile i"
  shows "\<exists>l'. index_chunks st m tok l chunks = Some (Inr (chunks @ concat kss, l')) \<and> greatest l (concat kss) l'"
  using assms
proof (induction "meta_store_page st m ReverseIndexPrefix '''' 1024" tok kss e arbitrary: l chunks rule: pages.induct)
  case (final_page tok ks)
  then have "st_KeysPrefix st m tok ReverseIndexPrefix '''' 1024 = Inr (ks, '''')" by (simp split: sum.splits)
  with final_page chunk_numbers_ok [of ks l] show ?case by (subst index_chunks.simps) (auto simp: greatest_def)
next
  case (more_pages tok ks nxt kss e)
  then have page: "st_KeysPrefix st m tok ReverseIndexPrefix '''' 1024 = Inr (ks, nxt)" by (simp split: sum.splits)
  have "kss \<noteq> []" using more_pages(3) \<open>e = None\<close> by (auto simp: pages_simps)
  with more_pages.prems(2) have "ks \<noteq> []" "[] \<notin> set (butlast kss)" by auto
  moreover obtain l1 where l1: "chunk_numbers l ks = Inr l1" "greatest l ks l1" using chunk_numbers_ok [of ks l] more_pages.prems(3) by auto
  moreover obtain l' where "index_chunks st m nxt l1 (chunks @ ks) = Some (Inr ((chunks @ ks) @ concat kss, l'))" "greatest l1 (concat kss) l'"
    using more_pages.hyps(4) [of l1 "chunks @ ks"] more_pages.prems calculation(2) by auto
  ultimately show ?case
    using page more_pages(2) greatest_append [of l ks l1 "concat kss" l'] by (subst index_chunks.simps) simp
qed simp

context kv_store
begin

lemma load_keys_ok: "\<exists>d'. load_keys kv d n ks = (d', Inr (n + length ks)) \<and> view d' = marked (view d) (set ks)"
proof (induction ks arbitrary: d n)
  case (Cons k ks)
  obtain d1 where "kv_Set kv d k ''X'' = (d1, None)" "view d1 = marked (view d) {k}" by (rule kv_mark)
  with Cons [of d1 "n + 1"] show ?case by simp
qed simp

lemma loadChunk_ok:
  assumes "time_year t < 10000" and "list_all plain_line ks"
  shows "\<exists>d'. loadChunk kv d (text_bytes (index_text (format_time t) ks)) = (d', Inr (t, length ks)) \<and> view d' = marked (view d) (set ks)"
proof -
  have "scan_lines (index_text (format_time t) ks) = format_time t # ks"
    unfolding index_text_def using assms format_time_plain by (intro scan_lines_text) simp
  with load_keys_ok [of d 0 ks] parse_format_time [OF assms(1)] show ?thesis by (auto simp: loadChunk_def)
qed

end

context indexing
begin

lemma load_chunks_ok:
  assumes "time_year t < 10000"
    and "\<forall>f \<in> set fs. icontent m f = Some (text_bytes (index_text (format_time t) (keys f))) \<and> list_all plain_line (keys f)"
  shows "\<exists>d' n'. load_chunks kv ist m d ts n fs = (d', Inr (if fs = [] then ts else Some t, n'))
    \<and> view d' = marked (view d) (\<Union>f \<in> set fs. set (keys f))"
  using assms(2)
proof (induction fs arbitrary: d ts n)
  case (Cons f fs)
  then have f: "icontent m f = Some (text_bytes (index_text (format_time t) (keys f)))" "list_all plain_line (keys f)" by auto
  from loadChunk_ok [OF assms(1) f(2), of d] obtain d1 where
    d1: "loadChunk kv d (text_bytes (index_text (format_time t) (keys f))) = (d1, Inr (t, length (keys f)))"
      "view d1 = marked (view d) (set (keys f))" by blast
  from Cons.IH [of d1 "Some t" "n + length (keys f)"] Cons.prems obtain d' n' where
    "load_chunks kv ist m d1 (Some t) (n + length (keys f)) fs = (d', Inr (Some t, n'))"
    "view d' = marked (view d1) (\<Union>f \<in> set fs. set (keys f))" by auto
  with d1 f(1) show ?case by (simp add: get)
qed simp

lemma copyIndexChunks_ok:
  assumes ix: "index_of t (icontent m) K" and year: "time_year t < 10000" and plain: "\<forall>k \<in> K. plain_line k"
    and sched: "\<And>fs. mset (sched fs) = mset fs"
  shows "\<exists>d' n l. copyIndexChunks kv ist sched d m = Some (d', Inr (Some t, n, l)) \<and> view d' = marked (view d) K
    \<and> (\<forall>i. icontent m (ReverseIndexFile i) \<noteq> None \<longrightarrow> i \<le> l) \<and> (l = 0 \<or> icontent m (ReverseIndexFile l) \<noteq> None)"
proof -
  from listed [of 1024 m ReverseIndexPrefix] obtain kss where
    kss: "pages (meta_store_page ist m ReverseIndexPrefix '''' 1024) '''' kss None" "[] \<notin> set (butlast kss)"
      "set (concat kss) = {f. icontent m f \<noteq> None \<and> prefix ReverseIndexPrefix f}" by auto
  have idx: "\<exists>i ks. f = ReverseIndexFile i \<and> icontent m f = Some (text_bytes (index_text (format_time t) ks)) \<and> set ks \<subseteq> K"
    if "f \<in> set (concat kss)" for f
    using that ix unfolding kss(3) index_of_def by blast
  then obtain keys where keys: "\<And>f. f \<in> set (concat kss) \<Longrightarrow>
      icontent m f = Some (text_bytes (index_text (format_time t) (keys f))) \<and> set (keys f) \<subseteq> K" by metis
  from idx have "\<forall>f \<in> set (concat kss). \<exists>i. f = ReverseIndexFile i" by metis
  from index_chunks_listed [OF kss(1) refl kss(2) this, of 0 "[]"] obtain l where
    l: "index_chunks ist m '''' 0 [] = Some (Inr (concat kss, l))" "greatest 0 (concat kss) l" by auto
  have set: "set (sched (concat kss)) = set (concat kss)" by (rule mset_eq_setD [OF sched])
  have "\<forall>f \<in> set (sched (concat kss)). icontent m f = Some (text_bytes (index_text (format_time t) (keys f))) \<and> list_all plain_line (keys f)"
    unfolding set using keys plain unfolding list_all_iff by blast
  from load_chunks_ok [OF year this, of d None 0] obtain d' n' where
    d': "load_chunks kv ist m d None 0 (sched (concat kss)) = (d', Inr (if sched (concat kss) = [] then None else Some t, n'))"
      "view d' = marked (view d) (\<Union>f \<in> set (concat kss). set (keys f))" unfolding set by blast
  from ix obtain i where "icontent m (ReverseIndexFile i) \<noteq> None" unfolding index_of_def by blast
  with reverse_index_under have "ReverseIndexFile i \<in> set (concat kss)" unfolding kss(3) by blast
  with set have ne: "sched (concat kss) \<noteq> []" by (metis empty_iff list.set(1))
  have "(\<Union>f \<in> set (concat kss). set (keys f)) = K"
  proof
    show "(\<Union>f \<in> set (concat kss). set (keys f)) \<subseteq> K" using keys by blast
    show "K \<subseteq> (\<Union>f \<in> set (concat kss). set (keys f))"
    proof
      fix k assume "k \<in> K"
      with ix obtain i ks where i: "icontent m (ReverseIndexFile i) = Some (text_bytes (index_text (format_time t) ks))" "k \<in> set ks" "set ks \<subseteq> K"
        unfolding index_of_def by blast
      with reverse_index_under have f: "ReverseIndexFile i \<in> set (concat kss)" unfolding kss(3) by auto
      with keys i(1) have "index_text (format_time t) ks = index_text (format_time t) (keys (ReverseIndexFile i))"
        by (metis bytes_text_bytes option.inject)
      moreover have "scan_lines (index_text (format_time t) ls) = format_time t # ls" if "set ls \<subseteq> K" for ls
        using that plain format_time_plain [OF year] unfolding index_text_def by (intro scan_lines_text) (auto simp: list_all_iff)
      ultimately have "ks = keys (ReverseIndexFile i)" using i(3) keys [OF f] by (metis list.inject)
      with f i(2) show "k \<in> (\<Union>f \<in> set (concat kss). set (keys f))" by blast
    qed
  qed
  moreover have "(\<forall>i. icontent m (ReverseIndexFile i) \<noteq> None \<longrightarrow> i \<le> l) \<and> (l = 0 \<or> icontent m (ReverseIndexFile l) \<noteq> None)"
    using l(2) reverse_index_under unfolding greatest_def kss(3) by blast
  ultimately show ?thesis using d' ne l(1) compact_ok [of d'] by (auto simp: copyIndexChunks_def)
qed

end


section \<open>Deleting unused blobs\<close>

definition updated :: "'b Store \<Rightarrow> 'b \<Rightarrow> string \<Rightarrow> nat" where
  "updated st b k = (case st_GetAttr st b k of Inl e \<Rightarrow> 0 | Inr a \<Rightarrow> attr_Updated a)"

text \<open>What is left when all the keys that are neither indexed nor more recent than the index are deleted.\<close>

definition purged :: "'b Store \<Rightarrow> 'b \<Rightarrow> string set \<Rightarrow> nat \<Rightarrow> string \<Rightarrow> bool" where
  "purged st b K t k \<longleftrightarrow> k \<notin> K \<and> updated st b k \<le> t"

context indexing
begin

lemma checkAndDeleteKey_ok:
  "\<exists>b' stats'. checkAndDeleteKey kv ist d t dry k (b, stats) = ((b', stats'), None)
    \<and> b' = (if purged ist b (dom (view d)) t k \<and> \<not> dry then fst (st_Delete ist b k) else b)
    \<and> pr_ScannedEntries stats' = pr_ScannedEntries stats
    \<and> pr_DeletedEntries stats' = pr_DeletedEntries stats + (if purged ist b (dom (view d)) t k then 1 else 0)"
  by (auto simp: checkAndDeleteKey_def purged_def updated_def Let_def domIff not_less split: sum.splits)

lemma delete_updated: "k' \<noteq> k \<Longrightarrow> updated ist (fst (st_Delete ist b k)) k' = updated ist b k'"
  by (simp add: updated_def delete_attrs)

lemma check_all_ok:
  assumes "distinct keys"
  shows "\<exists>b' stats'. apply_until (checkAndDeleteKey kv ist d t dry) keys (b, stats) = ((b', stats'), None)
    \<and> icontent b' = (\<lambda>k. if k \<in> set keys \<and> purged ist b (dom (view d)) t k \<and> \<not> dry then None else icontent b k)
    \<and> (dry \<longrightarrow> b' = b) \<and> pr_ScannedEntries stats' = pr_ScannedEntries stats
    \<and> pr_DeletedEntries stats' = pr_DeletedEntries stats + length (filter (purged ist b (dom (view d)) t) keys)"
  using assms
proof (induction keys arbitrary: b stats)
  case (Cons k keys)
  let ?p = "purged ist b (dom (view d)) t"
  from checkAndDeleteKey_ok [of d t dry k b stats] obtain b1 s1 where
    one: "checkAndDeleteKey kv ist d t dry k (b, stats) = ((b1, s1), None)" "b1 = (if ?p k \<and> \<not> dry then fst (st_Delete ist b k) else b)"
      "pr_ScannedEntries s1 = pr_ScannedEntries stats" "pr_DeletedEntries s1 = pr_DeletedEntries stats + (if ?p k then 1 else 0)" by blast
  have same: "purged ist b1 (dom (view d)) t k' = ?p k'" if "k' \<in> set keys" for k'
  proof -
    have "k' \<noteq> k" using that Cons.prems by auto
    with delete_updated [of k' k b] show ?thesis by (simp add: one(2) purged_def)
  qed
  then have flt: "filter (purged ist b1 (dom (view d)) t) keys = filter ?p keys" by (rule filter_cong [OF refl])
  from Cons.IH [of b1 s1] Cons.prems obtain b' s' where
    rest: "apply_until (checkAndDeleteKey kv ist d t dry) keys (b1, s1) = ((b', s'), None)"
      "icontent b' = (\<lambda>k'. if k' \<in> set keys \<and> purged ist b1 (dom (view d)) t k' \<and> \<not> dry then None else icontent b1 k')"
      "dry \<longrightarrow> b' = b1" "pr_ScannedEntries s' = pr_ScannedEntries s1"
      "pr_DeletedEntries s' = pr_DeletedEntries s1 + length (filter ?p keys)" unfolding flt by auto
  have b1: "icontent b1 = (if ?p k \<and> \<not> dry then (icontent b)(k := None) else icontent b)" by (simp add: one(2) delete_gone)
  have "icontent b' = (\<lambda>k'. if k' \<in> set (k # keys) \<and> ?p k' \<and> \<not> dry then None else icontent b k')"
    unfolding rest(2) b1 using same Cons.prems by (auto simp: fun_eq_iff)
  with one rest show ?case by auto
qed simp

lemma fetch_listed:
  obtains kss where "fetchKeys (blob_page ist b) '''' = Some (map good_batch (takeWhile (\<lambda>ks. ks \<noteq> []) kss))"
    "concat (takeWhile (\<lambda>ks. ks \<noteq> []) kss) = concat kss" "distinct (concat kss)" "set (concat kss) = dom (icontent b)"
proof -
  from listed [of 1024 b "''''"] obtain kss where
    kss: "pages (blob_page ist b) '''' kss None" "[] \<notin> set (butlast kss)" "distinct (concat kss)" "set (concat kss) = dom (icontent b)"
    by (auto simp: blob_page_def dom_def)
  from kss(1) have "kss \<noteq> []" by (auto simp: pages_simps)
  then have "concat (takeWhile (\<lambda>ks. ks \<noteq> []) kss) = concat kss" using kss(2)
    by (induction kss) (auto split: if_splits)
  with kss fetchKeys_pages [OF kss(1)] that show ?thesis by simp
qed

lemma scanBlob_ok:
  assumes sched: "\<And>ks. mset (sched ks) = mset ks"
  shows "\<exists>b' stats. scanBlob kv ist sched seen d t dry b = Some (b', Inr stats)
    \<and> icontent b' = (\<lambda>k. if purged ist b (dom (view d)) t k \<and> \<not> dry then None else icontent b k)
    \<and> (dry \<longrightarrow> b' = b) \<and> pr_ScannedEntries stats = card (dom (icontent b))
    \<and> pr_DeletedEntries stats = card {k \<in> dom (icontent b). purged ist b (dom (view d)) t k}"
proof -
  obtain kss where kss: "fetchKeys (blob_page ist b) '''' = Some (map good_batch (takeWhile (\<lambda>ks. ks \<noteq> []) kss))"
      "concat (takeWhile (\<lambda>ks. ks \<noteq> []) kss) = concat kss" "distinct (concat kss)" "set (concat kss) = dom (icontent b)" by (rule fetch_listed)
  let ?keys = "sched (concat kss)" and ?p = "purged ist b (dom (view d)) t"
  have keys: "set ?keys = dom (icontent b)" "distinct ?keys"
    using mset_eq_setD [OF sched [of "concat kss"]] kss(3,4) mset_eq_imp_distinct_iff [OF sched [of "concat kss"]] by auto
  define stats0 where "stats0 = \<lparr>pr_ScannedEntries = length ?keys, pr_IndexedEntries = 0, pr_MoreRecentEntries = 0, pr_DeletedEntries = 0, pr_DeletedSize = 0\<rparr>"
  from check_all_ok [OF keys(2), of d t dry b stats0] obtain b' stats where
    run: "apply_until (checkAndDeleteKey kv ist d t dry) ?keys (b, stats0) = ((b', stats), None)"
      "icontent b' = (\<lambda>k. if k \<in> set ?keys \<and> ?p k \<and> \<not> dry then None else icontent b k)" "dry \<longrightarrow> b' = b"
      "pr_ScannedEntries stats = length ?keys" "pr_DeletedEntries stats = length (filter ?p ?keys)" by (auto simp: stats0_def)
  have good: "takeWhile (\<lambda>k. kb_err k = None) (map good_batch xss) = map good_batch xss" for xss
    by (induction xss) auto
  have "scanBlob kv ist sched seen d t dry b = Some (b', Inr stats)"
    using run(1) by (simp add: scanBlob_def kss(1,2) good Let_def comp_def stats0_def)
  moreover have "icontent b' = (\<lambda>k. if ?p k \<and> \<not> dry then None else icontent b k)"
    unfolding run(2) keys(1) by (auto simp: fun_eq_iff)
  moreover have "length ?keys = card (dom (icontent b))" using keys distinct_card by metis
  moreover have "length (filter ?p ?keys) = card {k \<in> dom (icontent b). ?p k}"
    using keys distinct_card [of "filter ?p ?keys"] by simp
  ultimately show ?thesis using run(3-5) by auto
qed

end

lemma PurgeDeleteUnused_ok:
  assumes ix: "indexing kv view ist icontent" and bl: "indexing kv view bst bcontent"
    and idx: "index_of t (icontent m) K" and year: "time_year t < 10000" and plain: "\<forall>k \<in> K. plain_line k"
    and empty: "view d = Map.empty" and loads: "\<And>fs. mset (loads fs) = mset fs" and sched: "\<And>ks. mset (sched ks) = mset ks"
  shows "\<exists>d' b' stats. PurgeDeleteUnused kv ist bst opts loads sched seen d m b = Some (d', b', Inr stats)
    \<and> bcontent b' = (\<lambda>k. if purged bst b K t k \<and> \<not> po_dryRun opts then None else bcontent b k)
    \<and> (po_dryRun opts \<longrightarrow> b' = b) \<and> pr_ScannedEntries stats = card (dom (bcontent b))
    \<and> pr_DeletedEntries stats = card {k \<in> dom (bcontent b). purged bst b K t k}"
proof -
  from indexing.copyIndexChunks_ok [OF ix idx year plain loads, of d] obtain d' n l where
    d': "copyIndexChunks kv ist loads d m = Some (d', Inr (Some t, n, l))" "view d' = marked (view d) K" by blast
  from d'(2) empty have dom: "dom (view d') = K" by (auto simp: marked_def split: if_splits)
  from indexing.scanBlob_ok [OF bl sched, of seen d' t "po_dryRun opts" b] d'(1) show ?thesis
    unfolding dom by (auto simp: PurgeDeleteUnused_def)
qed


section \<open>Purging is safe\<close>

lemma entry_blobs_plain: "k \<in> entry_blobs P b a \<Longrightarrow> plain_line k"
proof -
  assume "k \<in> entry_blobs P b a"
  then obtain root where root: "KeyFromString (be_Hash (snd a)) = Inr root"
      "k = Key_String root \<or> (\<exists>ks. leavesForHash (px_hasher P) (px_blob P) b root (fst a) '''' = Inr ks \<and> k \<in> Key_String ` set ks)"
    by (auto simp: entry_blobs_def split: sum.splits)
  have "is_key root" using root(1) by (auto simp: KeyFromString_def NewKey_length split: option.splits)
  moreover have "list_all is_key ks" if "leavesForHash (px_hasher P) (px_blob P) b root (fst a) '''' = Inr ks" for ks
    using that by (auto simp: leavesForHash_def verifiedKeys_def rbind_eq_Inr dest: leaves_Inr split: if_splits)
  ultimately show ?thesis using root(2) by (auto simp: Key_String_plain list_all_iff)
qed

lemma stored_in_use:
  assumes "object_store (px_blob P) bcontent" and "stored (px_hasher P) f (bcontent b) d r" and "fs_prefix f = ''''"
    and "be_Hash e = Key_String r" and "(p, c) \<in> put_blobs (px_hasher P) f d r"
  shows "p \<in> entry_blobs P b (fs_leafSize f, e)"
proof -
  have lv: "leavesForHash (px_hasher P) (px_blob P) b r (fs_leafSize f) '''' = Inr (file_keys (px_hasher P) (fs_leafSize f) d)"
    using object_store.leavesForHash_stored [OF assms(1,2)] assms(3) by simp
  have "is_key r" using assms(2) rootHash_length by (auto simp: stored_def)
  then have "KeyFromString (be_Hash e) = Inr r" by (simp add: assms(4) KeyFromString_String)
  moreover have "p = Key_String r \<or> p \<in> Key_String ` set (file_keys (px_hasher P) (fs_leafSize f) d)"
    using assms(3,5) by (auto simp: put_blobs_def file_blobs_def file_keys_def StringWithPrefix_def)
  ultimately show ?thesis using lv by (auto simp: entry_blobs_def)
qed

locale purge_backends = pebble_api pb rows + meta: bucket_listing cl objects + blob: bucket_listing bcl bobjects
  for pb :: "'d pebble" and rows :: "'d \<Rightarrow> string \<Rightarrow> string option"
    and cl :: "'m gcsClient" and objects :: "'m \<Rightarrow> string \<Rightarrow> bytes option"
    and bcl :: "'b gcsClient" and bobjects :: "'b \<Rightarrow> string \<Rightarrow> bytes option"

sublocale purge_backends \<subseteq> meta_index: indexing "kvPebble pb" rows "gcs_store cl g" "gcs_content objects g" for g
  by unfold_locales

sublocale purge_backends \<subseteq> blob_index: indexing "kvPebble pb" rows "gcs_store bcl g" "gcs_content bobjects g" for g
  by unfold_locales

context purge_backends
begin

lemma are_indexing:
  "indexing (kvPebble pb) rows (gcs_store cl g) (gcs_content objects g)"
  "indexing (kvPebble pb) rows (gcs_store bcl g) (gcs_content bobjects g)"
  by unfold_locales

lemma blob_store: "object_store (gcs_store bcl g) (gcs_content bobjects g)"
  by unfold_locales

end

interpretation mem_backends: purge_backends mem_pebble db_view "dated_client t" map_of "dated_client t'" map_of for t t'
  by unfold_locales

text \<open>
  C10: the purge job never deletes a blob that a readable bundle needs. Take any contexts whose repositories and
  bundles are listed, any interleaving of the concurrent scanners with the periodic upload of index files that
  lets the scanners finish, fresh local stores, and no earlier index. Then building the index succeeds, and
  deleting unused blobs afterwards, whatever the blob store has become by then and in whatever order
  index files are loaded and keys are checked, succeeds too: it removes exactly the blobs that no entry of
  these bundles refers to and that are not more recent than the index, and nothing in a dry run; every file
  that such a bundle refers to, if it was stored when its blobs were indexed and still is, stays stored.
\<close>

theorem Purge_safe:
  fixes P :: "('b, 'm, 'd, 'v) purge_env"
  assumes "purge_backends pb rows cl objects bcl bobjects"
    and "px_kv P = kvPebble pb" and "px_index P = gcs_store cl g" and "px_blob P = gcs_store bcl bg"
    and "\<forall>(st, m, evs) \<in> set contexts. scannable P st m" and "\<forall>a \<in> scope P contexts. valid_hash a" and "keys_apart P b (scope P contexts)"
    and "scan_contexts P b now (po_indexChunkSize opts) contexts (new_build d m (po_indexStart opts)) \<noteq> None"
    and "\<not> po_resume opts" and "0 < po_indexChunkSize opts" and "time_year now < 10000"
    and "unat (po_indexStart opts) + schedule_length contexts + card (used_blobs P b contexts) + 1 < 2 ^ 64"
    and "rows d = Map.empty" and "rows d2 = Map.empty" and "\<forall>f. prefix ReverseIndexPrefix f \<longrightarrow> gcs_content objects g m f = None"
    and "\<And>fs. mset (loads fs) = mset fs" and "\<And>ks. mset (sched ks) = mset ks"
  shows "\<exists>d1 m1. PurgeBuildReverseIndex P opts b now loads retries contexts d m =
      Some (d1, m1, Inr \<lparr>pi_IndexTime = now, pi_NumEntries = card (used_blobs P b contexts)\<rparr>)
    \<and> (\<forall>b2. \<exists>d3 b3 stats. PurgeDeleteUnused (kvPebble pb) (gcs_store cl g) (gcs_store bcl bg) opts2 loads sched seen d2 m1 b2 = Some (d3, b3, Inr stats)
        \<and> gcs_content bobjects bg b3 = (\<lambda>k. if purged (gcs_store bcl bg) b2 (used_blobs P b contexts) now k \<and> \<not> po_dryRun opts2 then None
            else gcs_content bobjects bg b2 k)
        \<and> pr_DeletedEntries stats = card {k \<in> dom (gcs_content bobjects bg b2). purged (gcs_store bcl bg) b2 (used_blobs P b contexts) now k}
        \<and> (\<forall>f e content r. (fs_leafSize f, e) \<in> scope P contexts \<longrightarrow> be_Hash e = Key_String r \<longrightarrow> fs_prefix f = ''''
            \<longrightarrow> stored (px_hasher P) f (gcs_content bobjects bg b) content r \<longrightarrow> stored (px_hasher P) f (gcs_content bobjects bg b2) content r
            \<longrightarrow> stored (px_hasher P) f (gcs_content bobjects bg b3) content r))"
proof -
  note ix = purge_backends.are_indexing(1) [OF assms(1), of g] purge_backends.are_indexing(2) [OF assms(1), of bg] and blobs = purge_backends.blob_store [OF assms(1), of bg]
  let ?K = "used_blobs P b contexts"
  have start: "rows d = marked Map.empty {}" "index_ok now (gcs_content objects g m) (rows d) (po_indexStart opts)"
    using assms(13,15) by (auto simp: index_ok_def)
  have K: "new_blobs P b (scope P contexts) {} = ?K" by (simp add: new_blobs_def)
  from indexing.build_index_ok [OF ix(1) assms(2,3,6,7,10) start assms(5) _ assms(8), of retries] assms(12) obtain d1 m1 where
    built: "PurgeBuildReverseIndex P opts b now loads retries contexts d m = Some (d1, m1, Inr \<lparr>pi_IndexTime = now, pi_NumEntries = card ?K\<rparr>)"
      "index_of now (gcs_content objects g m1) ?K" using assms(9) by (auto simp: PurgeBuildReverseIndex_def K)
  have plain: "\<forall>k \<in> ?K. plain_line k" by (auto intro: entry_blobs_plain)
  show ?thesis
  proof (rule exI, rule exI, rule conjI, rule built(1), rule allI)
    fix b2
    from PurgeDeleteUnused_ok [OF ix built(2) assms(11) plain assms(14,16,17), of opts2 seen b2] obtain d3 b3 stats where
      del: "PurgeDeleteUnused (kvPebble pb) (gcs_store cl g) (gcs_store bcl bg) opts2 loads sched seen d2 m1 b2 = Some (d3, b3, Inr stats)"
        "gcs_content bobjects bg b3 = (\<lambda>k. if purged (gcs_store bcl bg) b2 ?K now k \<and> \<not> po_dryRun opts2 then None else gcs_content bobjects bg b2 k)"
        "pr_DeletedEntries stats = card {k \<in> dom (gcs_content bobjects bg b2). purged (gcs_store bcl bg) b2 ?K now k}" by blast
    have kept: "gcs_content bobjects bg b3 k = gcs_content bobjects bg b2 k" if "k \<in> ?K" for k
      using that unfolding del(2) purged_def by (intro if_not_P) blast
    have "stored (px_hasher P) f (gcs_content bobjects bg b3) content r"
      if h: "(fs_leafSize f, e) \<in> scope P contexts" "be_Hash e = Key_String r" "fs_prefix f = ''''"
        "stored (px_hasher P) f (gcs_content bobjects bg b) content r" "stored (px_hasher P) f (gcs_content bobjects bg b2) content r" for f e content r
    proof -
      have "p \<in> ?K" if "(p, c) \<in> put_blobs (px_hasher P) f content r" for p c
      proof -
        have st: "object_store (px_blob P) (gcs_content bobjects bg)" using blobs by (simp add: assms(4))
        have "p \<in> entry_blobs P b (fs_leafSize f, e)" by (rule stored_in_use [OF st h(4,3,2) that])
        with h(1) show ?thesis by blast
      qed
      with h(5) kept show ?thesis unfolding stored_def by fastforce
    qed
    with del show "\<exists>d3 b3 stats. PurgeDeleteUnused (kvPebble pb) (gcs_store cl g) (gcs_store bcl bg) opts2 loads sched seen d2 m1 b2 = Some (d3, b3, Inr stats)
        \<and> gcs_content bobjects bg b3 = (\<lambda>k. if purged (gcs_store bcl bg) b2 ?K now k \<and> \<not> po_dryRun opts2 then None else gcs_content bobjects bg b2 k)
        \<and> pr_DeletedEntries stats = card {k \<in> dom (gcs_content bobjects bg b2). purged (gcs_store bcl bg) b2 ?K now k}
        \<and> (\<forall>f e content r. (fs_leafSize f, e) \<in> scope P contexts \<longrightarrow> be_Hash e = Key_String r \<longrightarrow> fs_prefix f = ''''
            \<longrightarrow> stored (px_hasher P) f (gcs_content bobjects bg b) content r \<longrightarrow> stored (px_hasher P) f (gcs_content bobjects bg b2) content r
            \<longrightarrow> stored (px_hasher P) f (gcs_content bobjects bg b3) content r)" by blast
  qed
qed


text \<open>
  A repository with one bundle of one file, whose blobs are stored beside a blob that nothing refers to and
  one that is more recent than the index.
\<close>

definition purge_dates :: "string \<Rightarrow> nat" where
  "purge_dates n = (if n = ''new'' then 10 else 1)"

definition purge_desc :: BundleDescriptor where
  "purge_desc = (minimal_bundle ''a'')\<lparr>bd_LeafSize := 64, bd_BundleEntriesFileCount := 1\<rparr>"

definition purge_repo :: RepoDescriptor where
  "purge_repo = \<lparr>rd_Name = ''r'', rd_Description = '''', rd_Timestamp = 0, rd_Contributor = \<lparr>c_Name = '''', c_Email = ''''\<rparr>\<rparr>"

definition purge_entry :: BundleEntry where
  "purge_entry = entry ''f'' (Key_String tag_root) 1"

definition purge_meta :: "(string \<times> bytes) list" where
  "purge_meta = [(''repos/r/repo.yaml'', projr (cd_Marshal (ser_codec repo_ser) purge_repo)),
     (''bundles/r/a/bundle.yaml'', projr (cd_Marshal (ser_codec bundle_ser) purge_desc)),
     (''bundles/r/a/bundle-files-0.yaml'', projr (cd_Marshal entries_codec [purge_entry]))]"

definition purge_blobs :: "(string \<times> bytes) list" where
  "purge_blobs = tag_bucket @ [(''old'', [1]), (''new'', [2])]"

abbreviation purge_store :: "(string \<times> bytes) list Store" where
  "purge_store \<equiv> gcs_store (dated_client purge_dates) plain_gcs"

definition purge_example :: "((string \<times> bytes) list, (string \<times> bytes) list, rows_db, unit) purge_env" where
  "purge_example = \<lparr>px_env = ser_env, px_hasher = tag_hash, px_entries = entries_codec, px_order = rev, px_blob = purge_store,
     px_index = purge_store, px_kv = kvPebble mem_pebble\<rparr>"

lemmas purge_eval = gcs_store_def gcs_KeysPrefix_def gcs_Has_def gcs_Get_def dated_client_def steady_client_def mem_NextPage_def page_item_def
  mem_Attrs_def mem_Read_def steady_def getFullObjectName_def getRelObjectName_def

lemma purge_content: "gcs_content map_of plain_gcs os k = map_of os k"
  by (simp add: gcs_content_def getFullObjectName_def)

lemma purge_files:
  "map_of purge_meta ''repos/r/repo.yaml'' = Some (projr (cd_Marshal (ser_codec repo_ser) purge_repo))"
  "map_of purge_meta ''bundles/r/a/bundle.yaml'' = Some (projr (cd_Marshal (ser_codec bundle_ser) purge_desc))"
  "map_of purge_meta ''bundles/r/a/bundle-files-0.yaml'' = Some (projr (cd_Marshal entries_codec [purge_entry]))"
  by (simp_all add: purge_meta_def)

lemma purge_read:
  "gcs_Has (dated_client purge_dates) plain_gcs os k = Inr (map_of os k \<noteq> None)"
  "gcs_Get (dated_client purge_dates) plain_gcs os k = (case map_of os k of None \<Rightarrow> Inl ErrNotExists | Some d \<Rightarrow> Inr d)"
  using dated.gcs.has [of purge_dates plain_gcs os k] dated.gcs.get [of purge_dates plain_gcs os k] by (simp_all add: purge_content)

lemma purge_yaml:
  "cd_Unmarshal (ser_codec bundle_ser) (projr (cd_Marshal (ser_codec bundle_ser) x)) = Inr x"
  "cd_Unmarshal (ser_codec repo_ser) (projr (cd_Marshal (ser_codec repo_ser) y)) = Inr y"
  using codec_projr [OF ser_codec_ok [OF bundle_ser_ok], of x] codec_projr [OF ser_codec_ok [OF repo_ser_ok], of y] by simp_all

lemma purge_repo_name: "rd_Name purge_repo = ''r''" "bd_ID purge_desc = ''a''"
  by (simp_all add: purge_repo_def purge_desc_def minimal_bundle_def)

lemma purge_repos: "ListRepos ser_env purge_store purge_meta defaultSettings = Some ([purge_repo], None)"
proof -
  let ?page = "meta_store_page purge_store purge_meta GetArchivePathPrefixToRepos '''' 1024"
  have "pages ?page '''' [[''repos/r/repo.yaml'']] None"
    by (simp add: pages_simps purge_eval purge_meta_def GetArchivePathPrefixToRepos_def)
  note keys = fetchKeys_pages [OF this]
  have "GetArchivePathComponents (en_ksuid ser_env) ''repos/r/repo.yaml'' = Inr (no_components\<lparr>apc_ArchiveFileName := ''repo.yaml'', apc_Repo := ''r''\<rparr>)"
    using GetArchivePathComponents_def [of "en_ksuid ser_env" "''repos/r/repo.yaml''"]
    by (simp add: repo_components_def numeral_eq_Suc repoDescriptorFile_def)
  then have "getRepoAsync ser_env purge_store purge_meta ''repos/r/repo.yaml'' = Inr (Some purge_repo)"
    using purge_files(1) purge_yaml(2) [of purge_repo]
    by (simp add: getRepoAsync_def getRepoDescriptorByRepoName_def no_components_def build_path file_names purge_read read_yaml_def
        skip_missing_def ser_env_def purge_repo_name)
  with keys show ?thesis
    by (simp add: ListRepos_def listReposChan_def fetchRepos_def fetchRepoBatch_def fetch_batch_def defaultSettings_def go_sort_def ser_env_def)
qed

lemma purge_bundles: "ListBundles ser_env purge_store purge_meta ''r'' scan_settings = Some ([purge_desc], None)"
proof -
  have repo: "RepoExists purge_store purge_meta ''r'' = None"
    using purge_files(1) by (simp add: RepoExists_def purge_read build_path file_names)
  have page: "pages (bundle_page purge_store purge_meta ''r'' scan_settings) '''' [[''bundles/r/a/'']] None"
    by (simp add: pages_simps purge_eval purge_meta_def GetArchivePathPrefixToBundles_def)
  have down: "downloadBundleDescriptor ser_env purge_store purge_meta ''r'' (GetArchivePathPrefixToBundles ''r'' @ i @ ''/'') scan_settings = Inr purge_desc
      \<and> bd_ID purge_desc = i" if "i \<in> set [''a'']" for i
    using that bundle_prefix_path [of "''r''" "''a''" "en_ksuid ser_env"] purge_files(2) purge_yaml(1) [of purge_desc]
    by (simp add: downloadBundleDescriptor_def no_components_def defaultSettings_def read_yaml_def purge_read build_path file_names ser_env_def
        purge_repo_name)
  from ListBundles_listed [OF repo page _ _ _ _ down, where ids = "[''a'']"] show ?thesis
    by (simp add: GetArchivePathPrefixToBundles_def ser_env_def)
qed

lemma purge_entries: "bundle_entries purge_example purge_store purge_meta ''r'' purge_desc = Inr [purge_entry]"
proof -
  let ?b = "purge_bundle ''r'' purge_desc"
  have "digit_char 0 = CHR ''0''" by code_simp
  then have path: "nth_path (bundle_pather ?b) 0 = ''bundles/r/a/bundle-files-0.yaml''"
    by (simp add: nth_path_def purge_bundle_def purge_desc_def minimal_bundle_def build_path file_names show_nat.simps)
  have pos: "0 < defaultBundleEntriesPerFile" by (simp add: defaultBundleEntriesPerFile_def)
  then have one: "blocks defaultBundleEntriesPerFile [purge_entry] = [[purge_entry]]"
    by (simp add: blocks_step defaultBundleEntriesPerFile_def)
  have idx: "index_stored entries_codec (bundle_pather ?b) (gcs_content map_of plain_gcs purge_meta) 0 (blocks defaultBundleEntriesPerFile [purge_entry])"
    using codec_projr [OF entries_codec_ok, of "[purge_entry]"] path purge_files(3)
    by (auto simp: index_stored_def one purge_content)
  have "unpackBundleFileList entries_codec rev False defaultBundleEntriesPerFile (Some (purge_store, purge_meta)) (None :: unit opened) ?b =
      Inr (None, ?b\<lparr>bn_Entries := [purge_entry]\<rparr>, None)"
    by (rule object_store.unpackBundleFileList_ok [OF gcs_is_store [OF dated.bucket_api_axioms] entries_codec_ok idx])
      (use pos in \<open>simp_all add: one purge_bundle_def purge_desc_def minimal_bundle_def\<close>)
  then show ?thesis by (simp add: bundle_entries_def purge_example_def)
qed


abbreviation purge_contexts :: "((string \<times> bytes) list Store \<times> (string \<times> bytes) list \<times> build_event list) list" where
  "purge_contexts \<equiv> [(purge_store, purge_meta, [Work 0, Work 0, Work 0, Tick None, Work 0, Work 0])]"

lemma purge_scope:
  "scannable purge_example purge_store purge_meta" "scope purge_example purge_contexts = {(64, purge_entry)}"
proof -
  have env: "px_env purge_example = ser_env" by (simp add: purge_example_def)
  show "scannable purge_example purge_store purge_meta"
    unfolding scannable_def env using purge_repos purge_bundles purge_entries by (auto simp: purge_repo_name)
  have "bd_LeafSize purge_desc = 64" by (simp add: purge_desc_def)
  then show "scope purge_example purge_contexts = {(64, purge_entry)}"
    unfolding scope_def in_use_def env using purge_repos purge_bundles purge_entries by (auto simp: purge_repo_name)
qed

lemma purge_leaves: "leavesForHash tag_hash purge_store purge_blobs tag_root 64 '''' = Inr [tag_leaf]"
proof -
  have "gcs_content map_of plain_gcs purge_blobs (Key_String tag_leaf) = Some [7]"
    "gcs_content map_of plain_gcs purge_blobs (Key_String tag_root) = Some (tag_leaf @ tag_root)"
    using tag_distinct by (simp_all add: purge_content purge_blobs_def)
  note st = tag_stored [OF this]
  show ?thesis using object_store.leavesForHash_stored [OF gcs_is_store [OF dated.bucket_api_axioms] st, of purge_dates] by (simp add: tag_fs_def)
qed

lemma purge_hash: "KeyFromString (be_Hash purge_entry) = Inr tag_root"
  by (simp add: purge_entry_def entry_def KeyFromString_String NewKey_def Let_def KeySize_def)

lemma purge_used: "entry_blobs purge_example purge_blobs (64, purge_entry) = {Key_String tag_root, Key_String tag_leaf}"
  using purge_leaves by (simp add: entry_blobs_def purge_hash purge_example_def)

lemma purge_workers: "context_workers purge_example purge_store purge_meta = Some (Inr [[Lookup 64 [purge_entry] []]])"
  using purge_repos purge_bundles purge_entries
  by (simp add: context_workers_def repoKeysScanner_def bundle_task_def purge_example_def purge_repo_name purge_desc_def)

lemma purge_run:
  "scan_contexts purge_example purge_blobs 5 (po_indexChunkSize defaultPurgeOptions) purge_contexts (new_build db_empty purge_meta 0) \<noteq> None"
proof -
  have "entry_keys purge_example purge_blobs d 64 purge_entry =
      Inr (if db_view d (Key_String tag_root) = None then [Key_String tag_root, Key_String tag_leaf] else [])" for d
    using purge_leaves by (simp add: entry_keys_def purge_hash purge_example_def)
  moreover have "kv_SetIfNotExists (px_kv purge_example) d k '''' = (if db_view d k = None then db_put k (Some '''') d else d, None)" for d k
    by (simp add: purge_example_def kvPebble_def kvPebble_SetIfNotExists_def kvPebble_Exists_def mem_pebble_def ignore_new_def
        ignoreNew_MergeOlder_def ignoreNew_Finish_def split: option.splits)
  ultimately show ?thesis using purge_workers by (simp add: scanContext_def new_build_def tick_def defaultPurgeOptions_def)
qed

theorem Purge_safe_witness:
  "\<exists>d1 m1 d3 b3 stats. PurgeBuildReverseIndex purge_example defaultPurgeOptions purge_blobs 5 rev (\<lambda>_. []) purge_contexts db_empty purge_meta =
      Some (d1, m1, Inr \<lparr>pi_IndexTime = 5, pi_NumEntries = 2\<rparr>)
    \<and> PurgeDeleteUnused (kvPebble mem_pebble) purge_store purge_store defaultPurgeOptions rev rev 0 db_empty m1 purge_blobs = Some (d3, b3, Inr stats)
    \<and> pr_DeletedEntries stats = 1 \<and> map_of b3 ''old'' = None \<and> map_of b3 ''new'' = Some [2]
    \<and> stored tag_hash tag_fs (map_of b3) [7] tag_root"
proof -
  have P: "px_kv purge_example = kvPebble mem_pebble" "px_index purge_example = purge_store" "px_blob purge_example = purge_store"
      "px_hasher purge_example = tag_hash" by (simp_all add: purge_example_def)
  let ?K = "{Key_String tag_root, Key_String tag_leaf}"
  have K: "used_blobs purge_example purge_blobs purge_contexts = ?K" by (simp add: purge_scope(2) purge_used)
  have year: "time_year 5 < 10000" by (simp add: time_year_def day_year.simps)
  have card: "card ?K = 2" using tag_distinct by (simp add: card_insert_if)
  have none: "\<forall>f. prefix ReverseIndexPrefix f \<longrightarrow> gcs_content map_of plain_gcs purge_meta f = None"
    by (auto simp: purge_content purge_meta_def reverse_index_prefix prefix_def)
  have opts: "po_indexStart defaultPurgeOptions = 0" "\<not> po_resume defaultPurgeOptions" "0 < po_indexChunkSize defaultPurgeOptions"
      "\<not> po_dryRun defaultPurgeOptions" by (simp_all add: defaultPurgeOptions_def)
  from Purge_safe [OF mem_backends.purge_backends_axioms P(1,2,3), where contexts = purge_contexts and b = purge_blobs and now = 5
      and opts = defaultPurgeOptions and d = db_empty and m = purge_meta and ?d2.0 = db_empty and loads = rev and sched = rev
      and retries = "\<lambda>_. []" and ?opts2.0 = defaultPurgeOptions and seen = 0]
    purge_scope purge_run year none card purge_hash purge_used opts obtain d1 m1 where
    built: "PurgeBuildReverseIndex purge_example defaultPurgeOptions purge_blobs 5 rev (\<lambda>_. []) purge_contexts db_empty purge_meta =
      Some (d1, m1, Inr \<lparr>pi_IndexTime = 5, pi_NumEntries = 2\<rparr>)"
    and del: "\<forall>b2. \<exists>d3 b3 stats. PurgeDeleteUnused (kvPebble mem_pebble) purge_store purge_store defaultPurgeOptions rev rev 0 db_empty m1 b2 = Some (d3, b3, Inr stats)
        \<and> gcs_content map_of plain_gcs b3 = (\<lambda>k. if purged purge_store b2 ?K 5 k \<and> \<not> po_dryRun defaultPurgeOptions then None else gcs_content map_of plain_gcs b2 k)
        \<and> pr_DeletedEntries stats = card {k \<in> dom (gcs_content map_of plain_gcs b2). purged purge_store b2 ?K 5 k}
        \<and> (\<forall>f e content r. (fs_leafSize f, e) \<in> {(64, purge_entry)} \<longrightarrow> be_Hash e = Key_String r \<longrightarrow> fs_prefix f = ''''
            \<longrightarrow> stored tag_hash f (gcs_content map_of plain_gcs purge_blobs) content r \<longrightarrow> stored tag_hash f (gcs_content map_of plain_gcs b2) content r
            \<longrightarrow> stored tag_hash f (gcs_content map_of plain_gcs b3) content r)"
    unfolding K P(4) by (auto simp: keys_apart_def valid_hash_def)
  have plainly: "gcs_content map_of plain_gcs = map_of" by (auto simp: fun_eq_iff purge_content)
  from del [rule_format, of purge_blobs] obtain d3 b3 stats where
    run: "PurgeDeleteUnused (kvPebble mem_pebble) purge_store purge_store defaultPurgeOptions rev rev 0 db_empty m1 purge_blobs = Some (d3, b3, Inr stats)"
      "map_of b3 = (\<lambda>k. if purged purge_store purge_blobs ?K 5 k then None else map_of purge_blobs k)"
      "pr_DeletedEntries stats = card {k \<in> dom (map_of purge_blobs). purged purge_store purge_blobs ?K 5 k}"
      "stored tag_hash tag_fs (map_of purge_blobs) [7] tag_root \<longrightarrow> stored tag_hash tag_fs (map_of b3) [7] tag_root"
    unfolding plainly using opts(4) by (auto simp: tag_fs_def purge_entry_def entry_def)
  have len: "length (Key_String tag_root) = 128" "length (Key_String tag_leaf) = 128" by (simp_all add: Key_String_def)
  have other: "Key_String tag_root \<noteq> ''old''" "Key_String tag_root \<noteq> ''new''" "Key_String tag_leaf \<noteq> ''old''" "Key_String tag_leaf \<noteq> ''new''"
    using len by fastforce+
  have upd: "updated purge_store purge_blobs ''old'' = 1" "updated purge_store purge_blobs ''new'' = 10"
    using other by (simp_all add: updated_def gcs_GetAttr_def dated_client_def steady_def mem_Attrs_def getFullObjectName_def purge_blobs_def purge_dates_def)
  have dom: "dom (map_of purge_blobs) = {Key_String tag_leaf, Key_String tag_root, ''old'', ''new''}"
    by (simp add: purge_blobs_def dom_def) auto
  have purged: "purged purge_store purge_blobs ?K 5 ''old''" "\<not> purged purge_store purge_blobs ?K 5 ''new''"
      "k \<in> ?K \<Longrightarrow> \<not> purged purge_store purge_blobs ?K 5 k" for k
    using other upd by (auto simp: purged_def)
  then have "{k \<in> dom (map_of purge_blobs). purged purge_store purge_blobs ?K 5 k} = {''old''}" unfolding dom by auto
  moreover have "map_of purge_blobs ''new'' = Some [2]" using other by (auto simp: purge_blobs_def)
  moreover have "stored tag_hash tag_fs (map_of purge_blobs) [7] tag_root"
    using tag_stored [of plain_gcs purge_blobs] tag_distinct unfolding plainly by (simp add: purge_blobs_def)
  ultimately have "pr_DeletedEntries stats = 1" "map_of b3 ''old'' = None" "map_of b3 ''new'' = Some [2]"
      "stored tag_hash tag_fs (map_of b3) [7] tag_root" using run(2-4) purged(1,2) by simp_all
  with built run(1) show ?thesis by blast
qed

end

