(* ===== verification/PurgeFaults.thy ===== *)
theory PurgeFaults
  imports PurgeSafe
begin

text \<open>
  The purge job when something has gone wrong before: an index whose construction was interrupted and is
  resumed, an index file whose upload is retried; and that the scan can always be brought to its end.
\<close>

section \<open>Resuming an interrupted index\<close>

lemma index_of_resumed:
  assumes "index_of t c K0" and "\<forall>i. c (ReverseIndexFile i) \<noteq> None \<longrightarrow> i \<le> n"
  shows "index_ok t c (marked Map.empty K0) n"
proof -
  have dom: "dom (marked Map.empty K0) = K0" by (auto simp: marked_def split: if_splits)
  have le: "unat i \<le> unat n" if "c (ReverseIndexFile i) = Some x" for i x using assms(2) that by (auto simp: word_le_nat_alt)
  show ?thesis
    unfolding index_ok_def dom
  proof (intro conjI allI impI)
    fix k assume "marked Map.empty K0 k = Some ''X''"
    then have "k \<in> K0" by (auto simp: marked_def split: if_splits)
    with assms(1) show "\<exists>i ks. c (ReverseIndexFile i) = Some (text_bytes (index_text (format_time t) ks)) \<and> k \<in> set ks \<and> set ks \<subseteq> K0"
      unfolding index_of_def by blast
  next
    fix f b assume fb: "c f = Some b" "prefix ReverseIndexPrefix f"
    with assms(1) obtain i ks where "f = ReverseIndexFile i" "b = text_bytes (index_text (format_time t) ks)" "set ks \<subseteq> K0"
      unfolding index_of_def by blast
    with fb(1) le show "\<exists>i ks. f = ReverseIndexFile i \<and> unat i \<le> unat n \<and> b = text_bytes (index_text (format_time t) ks) \<and> set ks \<subseteq> K0" by blast
  next
    fix k x assume "marked Map.empty K0 k = Some x"
    then show "x = '''' \<or> x = ''X''" by (auto simp: marked_def split: if_splits)
  qed
qed

text \<open>
  C12: an index whose construction is resumed may lack blobs that are in use. The entries whose root key is in the
  index files already written are skipped, whether their leaves are there or not: the index that results has
  exactly the keys \<open>K0\<close> it had and the blobs of the entries whose root it did not have, and deleting unused
  blobs on any later state of the blob store removes everything else that is not more recent: a
  leaf of a file that a bundle refers to, for one, when the construction was interrupted between the
  upload of its root and its own.
\<close>

theorem Purge_resume_skips:
  fixes P :: "('b, 'm, 'd, 'v) purge_env"
  assumes "purge_backends pb rows cl objects bcl bobjects"
    and "px_kv P = kvPebble pb" and "px_index P = gcs_store cl g" and "px_blob P = gcs_store bcl bg"
    and "\<forall>(st, m, evs) \<in> set contexts. scannable P st m" and "\<forall>a \<in> scope P contexts. valid_hash a" and "keys_apart P b (scope P contexts)"
    and "\<forall>d0 n. rows d0 = marked Map.empty K0 \<longrightarrow> scan_contexts P b t (po_indexChunkSize opts) contexts (new_build d0 m n) \<noteq> None"
    and "po_resume opts" and "0 < po_indexChunkSize opts" and "time_year t < 10000"
    and "index_of t (gcs_content objects g m) K0" and "\<forall>k \<in> K0. plain_line k"
    and "unat (po_indexStart opts) \<le> N" and "\<forall>i. gcs_content objects g m (ReverseIndexFile i) \<noteq> None \<longrightarrow> unat i \<le> N"
    and "N + schedule_length contexts + card (K0 \<union> new_blobs P b (scope P contexts) K0) + 1 < 2 ^ 64"
    and "rows d = Map.empty" and "rows d2 = Map.empty"
    and "\<And>fs. mset (loads fs) = mset fs" and "\<And>ks. mset (sched ks) = mset ks"
  shows "\<exists>d1 m1 n. PurgeBuildReverseIndex P opts b now loads retries contexts d m = Some (d1, m1, Inr \<lparr>pi_IndexTime = t, pi_NumEntries = n\<rparr>)
    \<and> (\<forall>b2. \<exists>d3 b3 stats. PurgeDeleteUnused (kvPebble pb) (gcs_store cl g) (gcs_store bcl bg) opts2 loads sched seen d2 m1 b2 = Some (d3, b3, Inr stats)
        \<and> gcs_content bobjects bg b3 = (\<lambda>k. if purged (gcs_store bcl bg) b2 (K0 \<union> new_blobs P b (scope P contexts) K0) t k \<and> \<not> po_dryRun opts2 then None
            else gcs_content bobjects bg b2 k))"
proof -
  note ix = purge_backends.are_indexing(1) [OF assms(1), of g] purge_backends.are_indexing(2) [OF assms(1), of bg]
  let ?K = "K0 \<union> new_blobs P b (scope P contexts) K0" and ?sz = "po_indexChunkSize opts"
  from indexing.copyIndexChunks_ok [OF ix(1) assms(12,11,13,19), of d] obtain d0 n l where
    l: "copyIndexChunks (kvPebble pb) (gcs_store cl g) loads d m = Some (d0, Inr (Some t, n, l))" "rows d0 = marked (rows d) K0"
      "\<forall>i. gcs_content objects g m (ReverseIndexFile i) \<noteq> None \<longrightarrow> i \<le> l" "l = 0 \<or> gcs_content objects g m (ReverseIndexFile l) \<noteq> None" by blast
  let ?n = "max l (po_indexStart opts)"
  have run: "PurgeBuildReverseIndex P opts b now loads retries contexts d m = build_index P b t ?sz retries contexts (new_build d0 m ?n)"
    using assms(9) l(1) by (simp add: PurgeBuildReverseIndex_def assms(2,3))
  have start: "rows d0 = marked Map.empty K0" using l(2) assms(17) by simp
  have ok: "index_ok t (gcs_content objects g m) (rows d0) ?n"
    unfolding start by (rule index_of_resumed [OF assms(12)]) (use l(3) in \<open>auto simp: le_max_iff_disj\<close>)
  have "unat ?n \<le> N" using assms(14,15) l(4) by (auto simp: max_def)
  then have room: "unat ?n + schedule_length contexts + card ?K + 1 < 2 ^ 64" using assms(16) by simp
  have scan: "scan_contexts P b t ?sz contexts (new_build d0 m ?n) \<noteq> None"
    using assms(8) start by blast
  from indexing.build_index_ok [OF ix(1) assms(2,3,6,7,10) start ok assms(5) room scan, of retries] obtain d1 m1 where
    built: "build_index P b t ?sz retries contexts (new_build d0 m ?n) = Some (d1, m1, Inr \<lparr>pi_IndexTime = t, pi_NumEntries = card ?K - card K0\<rparr>)"
      "index_of t (gcs_content objects g m1) ?K" by blast
  have plain: "\<forall>k \<in> ?K. plain_line k" using assms(13) by (auto simp: new_blobs_def intro: entry_blobs_plain)
  from PurgeDeleteUnused_ok [OF ix built(2) assms(11) plain assms(18,19,20), of opts2 seen] built(1) show ?thesis
    unfolding run by blast
qed


text \<open>The repository of the example above, with an index file that has the root of its file and not its leaf.\<close>

definition interrupted_meta :: "(string \<times> bytes) list" where
  "interrupted_meta = purge_meta @ [(''reverse-index/chunk-1.yaml'', text_bytes (index_text (format_time 5) [Key_String tag_root]))]"

definition resume_options :: purgeOptions where
  "resume_options = defaultPurgeOptions\<lparr>po_resume := True\<rparr>"

abbreviation resume_contexts :: "((string \<times> bytes) list Store \<times> (string \<times> bytes) list \<times> build_event list) list" where
  "resume_contexts \<equiv> [(purge_store, purge_meta, [Work 0, Work 0, Work 0])]"

lemma interrupted_file: "ReverseIndexFile 1 = ''reverse-index/chunk-1.yaml''"
proof -
  have "digit_char 1 = CHR ''1''" by code_simp
  then show ?thesis by (simp add: reverse_index_file show_nat.simps)
qed

lemma interrupted_index: "index_of 5 (gcs_content map_of plain_gcs interrupted_meta) {Key_String tag_root}"
proof -
  have other: "map_of purge_meta f = None" if "prefix ReverseIndexPrefix f" for f
    using that by (auto simp: purge_meta_def reverse_index_prefix prefix_def)
  have one: "map_of interrupted_meta (ReverseIndexFile 1) = Some (text_bytes (index_text (format_time 5) [Key_String tag_root]))"
    using other [OF reverse_index_under, of 1] by (simp add: interrupted_meta_def interrupted_file map_add_def)
  have only: "f = ReverseIndexFile 1" if "map_of interrupted_meta f = Some c" "prefix ReverseIndexPrefix f" for f c
    using that(1) other [OF that(2)] by (auto simp: interrupted_meta_def interrupted_file split: if_splits)
  show ?thesis
    unfolding index_of_def purge_content
  proof (intro conjI allI impI ballI)
    fix f c assume fc: "map_of interrupted_meta f = Some c" "prefix ReverseIndexPrefix f"
    with only one show "\<exists>i ks. f = ReverseIndexFile i \<and> c = text_bytes (index_text (format_time 5) ks) \<and> set ks \<subseteq> {Key_String tag_root}"
      by (intro exI [of _ 1] exI [of _ "[Key_String tag_root]"]) (metis empty_set list.simps(15) option.inject order_refl)
  qed (use one in \<open>auto intro!: exI [of _ 1] exI [of _ "[Key_String tag_root]"]\<close>)
qed

theorem Purge_resume_skips_witness:
  "\<exists>d1 m1 n d3 b3 stats. PurgeBuildReverseIndex purge_example resume_options purge_blobs 7 rev (\<lambda>_. []) resume_contexts db_empty interrupted_meta =
      Some (d1, m1, Inr \<lparr>pi_IndexTime = 5, pi_NumEntries = n\<rparr>)
    \<and> PurgeDeleteUnused (kvPebble mem_pebble) purge_store purge_store defaultPurgeOptions rev rev 0 db_empty m1 purge_blobs = Some (d3, b3, Inr stats)
    \<and> (64, purge_entry) \<in> scope purge_example resume_contexts
    \<and> Key_String tag_leaf \<in> entry_blobs purge_example purge_blobs (64, purge_entry) \<and> map_of b3 (Key_String tag_leaf) = None"
proof -
  have P: "px_kv purge_example = kvPebble mem_pebble" "px_index purge_example = purge_store" "px_blob purge_example = purge_store"
      by (simp_all add: purge_example_def)
  let ?K0 = "{Key_String tag_root}"
  have scope: "scope purge_example resume_contexts = {(64, purge_entry)}" using purge_scope(2) by (simp add: scope_def)
  have new: "new_blobs purge_example purge_blobs {(64, purge_entry)} ?K0 = {}" by (auto simp: new_blobs_def entry_root_def purge_hash)
  have year: "time_year 5 < 10000" by (simp add: time_year_def day_year.simps)
  have plain: "\<forall>k \<in> ?K0. plain_line k" using Key_String_plain [of tag_root] by (simp add: KeySize_def)
  have opts: "po_indexStart resume_options = 0" "po_resume resume_options" "0 < po_indexChunkSize resume_options" "\<not> po_dryRun defaultPurgeOptions"
    by (simp_all add: resume_options_def defaultPurgeOptions_def)
  have le1: "\<forall>i. gcs_content map_of plain_gcs interrupted_meta (ReverseIndexFile i) \<noteq> None \<longrightarrow> unat i \<le> 1"
  proof (intro allI impI)
    fix i assume "gcs_content map_of plain_gcs interrupted_meta (ReverseIndexFile i) \<noteq> None"
    then have "ReverseIndexFile i = ReverseIndexFile 1"
      using reverse_index_under [of i]
      by (auto simp: purge_content interrupted_meta_def purge_meta_def interrupted_file reverse_index_prefix prefix_def split: if_splits)
    then show "unat i \<le> 1" by simp
  qed
  have run: "\<forall>d0 n. db_view d0 = marked Map.empty ?K0 \<longrightarrow>
      scan_contexts purge_example purge_blobs 5 (po_indexChunkSize resume_options) resume_contexts (new_build d0 interrupted_meta n) \<noteq> None"
  proof (intro allI impI)
    fix d0 n assume d0: "db_view d0 = marked Map.empty ?K0"
    have "entry_keys purge_example purge_blobs d0 64 purge_entry = Inr []"
      using d0 by (simp add: entry_keys_def purge_hash purge_example_def marked_def)
    then show "scan_contexts purge_example purge_blobs 5 (po_indexChunkSize resume_options) resume_contexts (new_build d0 interrupted_meta n) \<noteq> None"
      using purge_workers by (simp add: scanContext_def new_build_def)
  qed
  have h: "\<forall>(st, m, evs) \<in> set resume_contexts. scannable purge_example st m" "\<forall>a \<in> scope purge_example resume_contexts. valid_hash a"
      "keys_apart purge_example purge_blobs (scope purge_example resume_contexts)" "unat (po_indexStart resume_options) \<le> 1"
      "1 + schedule_length resume_contexts + card (?K0 \<union> new_blobs purge_example purge_blobs (scope purge_example resume_contexts) ?K0) + 1 < 2 ^ 64"
      "db_view db_empty = Map.empty"
    using purge_scope(1) opts(1) new by (simp_all add: scope valid_hash_def purge_hash keys_apart_def)
  from Purge_resume_skips [OF mem_backends.purge_backends_axioms P h(1-3) run opts(2,3) year interrupted_index plain h(4) le1 h(5,6,6) mset_rev mset_rev,
      where retries = "\<lambda>_. []" and ?opts2.0 = defaultPurgeOptions and seen = 0 and now = 7, unfolded scope new Un_empty_right] obtain d1 m1 n where
    built: "PurgeBuildReverseIndex purge_example resume_options purge_blobs 7 rev (\<lambda>_. []) resume_contexts db_empty interrupted_meta =
      Some (d1, m1, Inr \<lparr>pi_IndexTime = 5, pi_NumEntries = n\<rparr>)"
    and del: "\<forall>b2. \<exists>d3 b3 stats. PurgeDeleteUnused (kvPebble mem_pebble) purge_store purge_store defaultPurgeOptions rev rev 0 db_empty m1 b2 = Some (d3, b3, Inr stats)
        \<and> gcs_content map_of plain_gcs b3 = (\<lambda>k. if purged purge_store b2 ?K0 5 k \<and> \<not> po_dryRun defaultPurgeOptions then None
            else gcs_content map_of plain_gcs b2 k)"
    by (elim exE conjE)
  from del [rule_format, of purge_blobs] obtain d3 b3 stats where
    run: "PurgeDeleteUnused (kvPebble mem_pebble) purge_store purge_store defaultPurgeOptions rev rev 0 db_empty m1 purge_blobs = Some (d3, b3, Inr stats)"
      "gcs_content map_of plain_gcs b3 = (\<lambda>k. if purged purge_store purge_blobs ?K0 5 k \<and> \<not> po_dryRun defaultPurgeOptions then None
        else gcs_content map_of plain_gcs purge_blobs k)" by (elim exE conjE)
  have "updated purge_store purge_blobs (Key_String tag_leaf) = 1"
  proof -
    have "length (Key_String tag_leaf) = 128" by (simp add: Key_String_def)
    then have "Key_String tag_leaf \<noteq> ''new''" by fastforce
    then show ?thesis
      by (simp add: updated_def gcs_GetAttr_def dated_client_def steady_def mem_Attrs_def getFullObjectName_def purge_blobs_def purge_dates_def)
  qed
  then have "purged purge_store purge_blobs ?K0 5 (Key_String tag_leaf)" using tag_distinct by (simp add: purged_def)
  with fun_cong [OF run(2), of "Key_String tag_leaf"] opts(4) have "map_of b3 (Key_String tag_leaf) = None" by (simp add: purge_content)
  with built run(1) scope purge_used show ?thesis by blast
qed


section \<open>Retrying the upload of an index file\<close>

text \<open>
  C13: an upload of an index file that fails and is retried blocks for ever or loses keys. Suppose that the write of
  an index file fails after a number of reads, the first of which gets the time of the index and every other one key. If more
  keys are left than the channel of the reader holds, closing the reader waits for ever and there is no
  retry. Otherwise the retry is made, and when it succeeds the upload reports success, but the keys read by the first attempt
  are in no index file: they stay marked as uploaded, the file that the retry writes does not have them, and no later
  reader gives them again. The blobs of these keys are then unused to the next purge. (Keys are shorter
  than the buffer of a read.)
\<close>

theorem retried_chunk_loses_keys:
  assumes "kv_store kv view" and "time_year t < 10000" and "\<forall>k \<in> waiting (view d). length k < copy_buffer"
    and "st_Delete st m (ReverseIndexFile i) = (m1, e1)" and "e1 = None \<or> e1 = Some ErrNotExists"
    and "\<forall>txt. \<exists>x. st_Put st m1 (ReverseIndexFile i) txt NoOverWrite = (m2, Some x)"
    and "st_Delete st m2 (ReverseIndexFile i) = (m3, e3)" and "e3 = None \<or> e3 = Some ErrNotExists"
    and "\<forall>txt. st_Put st m3 (ReverseIndexFile i) txt NoOverWrite = (after txt, None)"
    and "lost = take (reads - 1) (iterateKV kv d sz)" and "left = drop (reads - 1) (iterateKV kv d sz)"
  shows "if 1024 < length left then chunkUploader kv st t sz i [reads] d m = None
    else \<exists>d' ks. chunkUploader kv st t sz i [reads] d m = Some (d', after (text_bytes (index_text (format_time t) ks)), Inr (length ks))
      \<and> set ks \<subseteq> waiting (view d) - set lost \<and> waiting (view d') = waiting (view d) - set lost - set ks
      \<and> set lost \<subseteq> waiting (view d) \<and> (\<forall>k \<in> set lost. view d' k = Some ''X'')"
proof -
  let ?f = "ReverseIndexFile i" and ?ks = "iterateKV kv d sz"
  have waits: "set (iterateKV kv x sz) \<subseteq> waiting (view x)" for x
    using kv_store.unmarked_waiting [OF assms(1), of x] by (auto simp: iterateKV_def dest: in_set_takeD)
  have "length (format_time t) < copy_buffer" using format_time_text [OF assms(2)] by (simp add: copy_buffer_def)
  from kv_store.read_some_new [OF assms(1) this, of d sz reads] assms(3) waits [of d] obtain d1 r1 where
    some: "read_some kv copy_buffer reads d (newDBReader kv d t sz) = (d1, r1)" "dr_out r1 = left" "view d1 = marked (view d) (set lost)"
    unfolding assms(10,11) by blast
  from kv_store.drain_new [OF assms(1), of d t sz] obtain d0 r0 where
    "drain kv copy_buffer d (newDBReader kv d t sz) '''' = Some (d0, r0, index_text (format_time t) ?ks)" by blast
  moreover obtain x where "st_Put st m1 ?f (text_bytes (index_text (format_time t) ?ks)) NoOverWrite = (m2, Some x)" using assms(6) by blast
  ultimately have first: "chunk_attempt kv st t sz i reads d m = (if 1024 < length left then None else Some (d1, m2, Inl x))"
    using some assms(4,5) by (auto simp: chunk_attempt_def dbReader_Close_def out_capacity_def)
  define ks where "ks = iterateKV kv d1 sz"
  from kv_store.drain_new [OF assms(1), of d1 t sz] obtain d' where
    d': "chunk_attempt kv st t sz i 0 d1 m2 = Some (d', after (text_bytes (index_text (format_time t) ks)), Inr (length ks))"
      "view d' = marked (view d1) (set ks)"
    using assms(7-9) by (auto simp: chunk_attempt_def ks_def)
  have "set ks \<subseteq> waiting (view d) - set lost" using waits [of d1] by (simp add: ks_def some(3) waiting_marked)
  moreover have "set lost \<subseteq> waiting (view d)" using waits [of d] by (auto simp: assms(10) dest!: in_set_takeD)
  moreover have "waiting (view d') = waiting (view d) - set lost - set ks" "\<forall>k \<in> set lost. view d' k = Some ''X''"
    by (auto simp: d'(2) some(3) waiting_def marked_def split: if_splits)
  ultimately show ?thesis using first d'(1) by auto
qed

theorem retried_chunk_loses_keys_witness:
  "\<exists>d' m'. chunkUploader (kvPebble mem_pebble) (gcs_store mem_client plain_gcs) 5 10 1 [2] (db_put ''k'' (Some '''') db_empty)
      \<lparr>bk_objects = [], bk_failures = 1\<rparr> = Some (d', m', Inr 0)
    \<and> map_of (bk_objects m') (ReverseIndexFile 1) = Some (text_bytes (index_text (format_time 5) [])) \<and> waiting (db_view d') = {}"
proof -
  let ?f = "ReverseIndexFile 1" and ?m = "\<lparr>bk_objects = [], bk_failures = 1\<rparr>" and ?m' = "\<lparr>bk_objects = [], bk_failures = 0\<rparr>"
  let ?st = "gcs_store mem_client plain_gcs" and ?d = "db_put ''k'' (Some '''') db_empty"
  have del: "st_Delete ?st m ?f = (m, Some ErrNotExists)" if "bk_objects m = []" for m
    using that by (simp add: gcs_Delete_def mem_client_def mem_Delete_def)
  have put1: "\<forall>txt. \<exists>x. st_Put ?st ?m ?f txt NoOverWrite = (?m', Some x)"
    by (simp add: gcs_Put_def putObject_def mem_client_def mem_Upload_def put_attempts.simps)
  have put2: "\<forall>txt. st_Put ?st ?m' ?f txt NoOverWrite = (\<lparr>bk_objects = [(?f, txt)], bk_failures = 0\<rparr>, None)"
    by (simp add: gcs_Put_def putObject_def mem_client_def mem_Upload_def put_attempts.simps getFullObjectName_def)
  have keys: "iterateKV (kvPebble mem_pebble) ?d 10 = [''k'']"
    by (simp add: iterateKV_def kvPebble_def kvPebble_AllKeys_def mem_pebble_def db_rows_put)
  have wait: "waiting (db_view ?d) = {''k''}" by (auto simp: waiting_def split: if_splits)
  have year: "time_year 5 < 10000" by (simp add: time_year_def day_year.simps)
  have short: "\<forall>k \<in> waiting (db_view ?d). length k < copy_buffer" unfolding wait by (simp add: copy_buffer_def)
  from retried_chunk_loses_keys [OF mem_pebble.is_kv year short del _ put1 del _ put2 refl refl, where sz = 10 and reads = 2]
  obtain d' ks where
    r: "chunkUploader (kvPebble mem_pebble) ?st 5 10 1 [2] ?d ?m = Some (d', \<lparr>bk_objects = [(?f, text_bytes (index_text (format_time 5) ks))], bk_failures = 0\<rparr>, Inr (length ks))"
      "set ks \<subseteq> waiting (db_view ?d) - {''k''}" "waiting (db_view d') = waiting (db_view ?d) - {''k''} - set ks"
    unfolding keys by auto
  from r(2) have "ks = []" unfolding wait by simp
  with r(3) have "waiting (db_view d') = {}" unfolding wait by simp
  with r(1) show ?thesis unfolding \<open>ks = []\<close> list.size(3) by (intro exI conjI) (assumption, simp_all)
qed

end
