(* ===== verification/PurgeEnds.thy ===== *)
theory PurgeEnds
  imports PurgeSafe
begin

text \<open>
  Building the reverse index ends where closing a reader of keys cannot block: whatever the stores answer and however the scan
  of the metadata and the uploads of index files interleave, as long as every worker gets its turns. The bound on the turns is
  the work that a worker has, counted from its entries and their keys.
\<close>

section \<open>The work of a scan\<close>

definition entry_work :: "('b, 'm, 'd, 'v) purge_env \<Rightarrow> 'b \<Rightarrow> nat \<Rightarrow> BundleEntry \<Rightarrow> nat" where
  "entry_work P b leafSize ent =
     (case KeyFromString (be_Hash ent) of
        Inl e \<Rightarrow> 1
      | Inr root \<Rightarrow> (case leavesForHash (px_hasher P) (px_blob P) b root leafSize '''' of Inl e \<Rightarrow> 2 | Inr ks \<Rightarrow> length ks + 2))"

fun task_work :: "('b, 'm, 'd, 'v) purge_env \<Rightarrow> 'b \<Rightarrow> scan_task \<Rightarrow> nat" where
  "task_work P b (Fail e) = 1"
| "task_work P b (Insert keys) = length keys + 1"
| "task_work P b (Lookup leafSize ents keys) = sum_list (map (entry_work P b leafSize) ents) + length keys + 2"

definition worker_work :: "('b, 'm, 'd, 'v) purge_env \<Rightarrow> 'b \<Rightarrow> scan_task list \<Rightarrow> nat" where
  "worker_work P b w = sum_list (map (task_work P b) w)"

lemma worker_work_simps [simp]:
  "worker_work P b [] = 0" "worker_work P b (t # ts) = task_work P b t + worker_work P b ts"
  by (simp_all add: worker_work_def)

lemma task_work_pos: "0 < task_work P b t"
  by (cases t) simp_all

lemma worker_work_zero: "worker_work P b w = 0 \<longleftrightarrow> w = []"
  using task_work_pos [of P b "hd w"] by (cases w) auto

lemma entry_keys_work:
  assumes "entry_keys P b db leafSize ent = Inr ks"
  shows "length ks < entry_work P b leafSize ent"
  using assms by (auto simp: entry_keys_def entry_work_def split: sum.splits if_splits)

text \<open>Every step of a worker that does not fail leaves it less to do.\<close>

lemma worker_step_work:
  assumes "worker_step P b db w = (db', n, Inr w')"
  shows "worker_work P b w' \<le> worker_work P b w - 1"
  using assms
proof (cases rule: worker_step.cases [of "(P, b, db, w)"])
  case (4 P' b' db0 leafSize ent es keys ts)
  with assms obtain ks where ks: "entry_keys P b db leafSize ent = Inr ks" "w' = Lookup leafSize es (keys @ ks) # ts"
    by (auto split: sum.splits)
  with entry_keys_work [OF ks(1)] 4 show ?thesis by simp
qed (auto split: prod.splits option.splits)

section \<open>Uploads\<close>

text \<open>
  When no upload of an index file can block: either no attempt fails, or the keys of an index file fit in the channel of the reader, so that the
  reader can be closed after a failure.
\<close>

definition never_blocks :: "'m Store \<Rightarrow> nat \<Rightarrow> bool" where
  "never_blocks st sz \<longleftrightarrow> sz \<le> 1024 \<or>
     (\<forall>m f txt. snd (st_Delete st m f) \<in> {None, Some ErrNotExists} \<and> snd (st_Put st (fst (st_Delete st m f)) f txt NoOverWrite) = None)"

context kv_store
begin

lemma attempt_ends:
  assumes "never_blocks st sz"
  shows "\<exists>d' m' r. chunk_attempt kv st t sz i reads d m = Some (d', m', r) \<and> waiting (view d') \<subseteq> waiting (view d)
    \<and> (\<forall>n. r = Inr n \<longrightarrow> n = length (iterateKV kv d sz) \<and> waiting (view d') = waiting (view d) - set (iterateKV kv d sz))"
proof -
  let ?ks = "iterateKV kv d sz" and ?r = "newDBReader kv d t sz"
  from drain_new [of d t sz] obtain d' r' where
    read: "drain kv copy_buffer d ?r '''' = Some (d', r', index_text (format_time t) ?ks)"
      "view d' = marked (view d) (set ?ks)" "dr_count r' = length ?ks" "dbReader_Close r' = Some ()" by blast
  obtain m1 e where del: "st_Delete st m (ReverseIndexFile i) = (m1, e)" by fastforce
  obtain m2 x where put: "st_Put st m1 (ReverseIndexFile i) (text_bytes (index_text (format_time t) ?ks)) NoOverWrite = (m2, x)" by fastforce
  obtain d1 r1 ls where some: "read_some kv copy_buffer reads d ?r = (d1, r1)" "?ks = ls @ dr_out r1" "view d1 = marked (view d) (set ls)"
    using read_some_marks [of copy_buffer reads d ?r] by (auto simp: copy_buffer_def newDBReader_def)
  consider "(e = None \<or> e = Some ErrNotExists) \<and> x = None" | "sz \<le> 1024"
    using assms del put unfolding never_blocks_def by (metis fst_conv snd_conv insert_iff singletonD)
  then show ?thesis
  proof cases
    case 1
    then show ?thesis using read del put by (auto simp: chunk_attempt_def waiting_marked)
  next
    case 2
    then have "length ?ks \<le> 1024" by (simp add: iterateKV_def)
    then have "dbReader_Close ?r = Some ()" "dbReader_Close r1 = Some ()"
      using arg_cong [OF some(2), of length] by (simp_all add: dbReader_Close_def newDBReader_def out_capacity_def)
    then show ?thesis
      by (cases "e \<noteq> None \<and> e \<noteq> Some ErrNotExists"; cases x)
        (use read del put some in \<open>auto simp: chunk_attempt_def waiting_marked\<close>)
  qed
qed

lemma iterateKV_waiting: "distinct (iterateKV kv d sz) \<and> set (iterateKV kv d sz) \<subseteq> waiting (view d)"
  using unmarked_waiting [of d] by (auto simp: iterateKV_def dest: in_set_takeD)

text \<open>An upload that succeeds leaves fewer keys to wait, by those that it counts.\<close>

definition counts :: "'d \<Rightarrow> 'd \<Rightarrow> (store_err, nat) res \<Rightarrow> bool" where
  "counts d d' r \<longleftrightarrow> card (waiting (view d')) + (case r of Inl e \<Rightarrow> 0 | Inr n \<Rightarrow> n) \<le> card (waiting (view d))"

lemma attempt_counts:
  assumes "never_blocks st sz"
  shows "\<exists>d' m' r. chunk_attempt kv st t sz i reads d m = Some (d', m', r) \<and> counts d d' r"
proof -
  let ?ks = "iterateKV kv d sz"
  from attempt_ends [OF assms, of t i reads d m] obtain d' m' r where
    a: "chunk_attempt kv st t sz i reads d m = Some (d', m', r)" "waiting (view d') \<subseteq> waiting (view d)"
      "\<And>n. r = Inr n \<Longrightarrow> n = length ?ks \<and> waiting (view d') = waiting (view d) - set ?ks" by blast
  have "card (set ?ks) = length ?ks" "card (set ?ks) \<le> card (waiting (view d))"
    using iterateKV_waiting [of d sz] by (auto intro: distinct_card card_mono [OF finite_waiting])
  with a(3) have "counts d d' (Inr n)" if "r = Inr n" for n
    using that iterateKV_waiting [of d sz] by (simp add: counts_def card_Diff_subset)
  moreover have "counts d d' (Inl e)" for e using card_mono [OF finite_waiting a(2)] by (simp add: counts_def)
  ultimately have "counts d d' r" by (cases r) simp_all
  with a(1) show ?thesis by blast
qed

lemma counts_trans: "counts d d1 (Inl e) \<Longrightarrow> counts d1 d' r \<Longrightarrow> counts d d' r"
  by (auto simp: counts_def split: sum.splits)

lemma uploader_counts:
  assumes "never_blocks st sz"
  shows "\<exists>d' m' r. chunkUploader kv st t sz i takes d m = Some (d', m', r) \<and> counts d d' r"
proof (induction takes arbitrary: d m)
  case (Cons reads takes)
  from attempt_counts [OF assms, of t i reads d m] obtain d1 m1 r where
    one: "chunk_attempt kv st t sz i reads d m = Some (d1, m1, r)" "counts d d1 r" by blast
  show ?case
  proof (cases r)
    case (Inl e)
    from Cons [of d1 m1] obtain d' m' r' where "chunkUploader kv st t sz i takes d1 m1 = Some (d', m', r')" "counts d1 d' r'" by blast
    with one Inl show ?thesis by (auto intro: counts_trans)
  qed (use one in auto)
qed (use attempt_counts [OF assms] in simp)

lemma upload_ends:
  assumes "px_kv P = kv" and "never_blocks (px_index P) sz"
  shows "\<exists>u'. upload_chunk P t sz takes u = Some u' \<and> bu_uploaded u \<le> bu_uploaded u'
    \<and> card (waiting (view (bu_db u'))) + (bu_uploaded u' - bu_uploaded u) \<le> card (waiting (view (bu_db u)))"
proof -
  from uploader_counts [OF assms(2), of t "bu_chunk u" takes "bu_db u" "bu_index u"] obtain d' m' r where
    "chunkUploader kv (px_index P) t sz (bu_chunk u) takes (bu_db u) (bu_index u) = Some (d', m', r)" "counts (bu_db u) d' r" by blast
  then show ?thesis using assms(1) by (cases r) (auto simp: upload_chunk_def counts_def)
qed

lemma tick_ends:
  assumes "px_kv P = kv" and "never_blocks (px_index P) sz"
  shows "\<exists>u'. tick P t sz started u = Some u'"
  using upload_ends [OF assms] by (auto simp: tick_def Let_def split: option.splits) blast

text \<open>Every worker gets at least as many turns as it has work.\<close>

lemma scan_ends:
  assumes P: "px_kv P = kv" "never_blocks (px_index P) sz" and "\<And>i. i < length ws \<Longrightarrow> worker_work P b (ws ! i) \<le> count_list evs (Work i)"
  shows "\<exists>ws' u' e. scan_run P b t sz evs ws u = Some (ws', u', e) \<and> (e = None \<longrightarrow> list_all (\<lambda>w. w = []) ws')"
  using assms(3)
proof (induction evs arbitrary: ws u)
  case Nil
  then have "list_all (\<lambda>w. w = []) ws" by (auto simp: list_all_length worker_work_zero)
  then show ?case by simp
next
  case (Cons ev evs)
  show ?case
  proof (cases ev)
    case (Tick started)
    from tick_ends [OF P, of t started u] obtain u1 where "tick P t sz started u = Some u1" by blast
    with Cons.IH [of ws u1] Cons.prems Tick show ?thesis by simp
  next
    case (Work i)
    show ?thesis
    proof (cases "length ws \<le> i")
      case True
      then have "worker_work P b (ws ! j) \<le> count_list evs (Work j)" if "j < length ws" for j
        using Cons.prems [OF that] that Work by auto
      with Cons.IH [of ws u] Work True show ?thesis by simp
    next
      case i: False
      obtain d n r where step: "worker_step P b (bu_db u) (ws ! i) = (d, n, r)" by (metis prod_cases3)
      show ?thesis
      proof (cases r)
        case (Inr w)
        have "worker_work P b (ws[i := w] ! j) \<le> count_list evs (Work j)" if "j < length ws" for j
          using Cons.prems [OF that] that Work worker_step_work [OF step [unfolded Inr]] by (cases "j = i") auto
        with Cons.IH [of "ws[i := w]" "u\<lparr>bu_db := d, bu_unique := bu_unique u + n\<rparr>"] Work i step Inr show ?thesis by simp
      qed (use Work i step in simp)
    qed
  qed
qed

lemma last_chunks_end:
  assumes P: "px_kv P = kv" "never_blocks (px_index P) sz"
  shows "\<exists>u'. last_chunks P t sz retries u = Some u'"
proof (induction "card (waiting (view (bu_db u)))" arbitrary: u rule: less_induct)
  case less
  from upload_ends [OF P, of t "retries (bu_chunk u + 1)" "u\<lparr>bu_chunk := bu_chunk u + 1\<rparr>"] obtain u1 where
    u1: "upload_chunk P t sz (retries (bu_chunk u + 1)) (u\<lparr>bu_chunk := bu_chunk u + 1\<rparr>) = Some u1"
      "card (waiting (view (bu_db u1))) + (bu_uploaded u1 - bu_uploaded u) \<le> card (waiting (view (bu_db u)))" by auto
  show ?case
  proof (cases "bu_failed u1 \<noteq> None \<or> bu_uploaded u1 \<le> bu_uploaded u")
    case False
    with u1(2) have "card (waiting (view (bu_db u1))) < card (waiting (view (bu_db u)))" by linarith
    from less [OF this] u1(1) False show ?thesis by (subst last_chunks.simps) simp
  qed (use u1(1) in \<open>subst last_chunks.simps, auto\<close>)
qed

end

section \<open>Building the index\<close>

text \<open>Every listing of the context ends, and its schedule is long enough for the work that is there.\<close>

definition fair_scan :: "('b, 'm, 'd, 'v) purge_env \<Rightarrow> 'b \<Rightarrow> 'm Store \<times> 'm \<times> build_event list \<Rightarrow> bool" where
  "fair_scan P b = (\<lambda>(st, m, evs).
     case context_workers P st m of
       None \<Rightarrow> False
     | Some (Inl e) \<Rightarrow> True
     | Some (Inr ws) \<Rightarrow> \<forall>i < length ws. worker_work P b (ws ! i) \<le> count_list evs (Work i))"

lemma scan_contexts_end:
  assumes "kv_store (px_kv P) view" and "never_blocks (px_index P) sz" and "list_all (fair_scan P b) cs"
  shows "\<exists>r. scan_contexts P b t sz cs u = Some r"
  using assms(3)
proof (induction cs arbitrary: u)
  case (Cons c cs)
  obtain st m evs where c: "c = (st, m, evs)" by (cases c)
  with Cons.prems have fair: "fair_scan P b (st, m, evs)" "list_all (fair_scan P b) cs" by auto
  have "\<exists>r. scanContext P b t sz evs st m u = Some r"
  proof (cases "context_workers P st m")
    case None
    with fair(1) show ?thesis by (simp add: fair_scan_def)
  next
    case (Some r)
    show ?thesis
    proof (cases r)
      case (Inr ws)
      with fair(1) Some have "\<And>i. i < length ws \<Longrightarrow> worker_work P b (ws ! i) \<le> count_list evs (Work i)" by (simp add: fair_scan_def)
      from kv_store.scan_ends [OF assms(1) refl assms(2) this, of t u] Some Inr show ?thesis
        by (auto simp: scanContext_def split: option.splits)
    qed (simp add: Some scanContext_def)
  qed
  then obtain u1 e where "scanContext P b t sz evs st m u = Some (u1, e)" by auto
  with Cons.IH [OF fair(2), of u1] c show ?case by (cases e) simp_all
qed simp


lemma build_index_ends:
  assumes "kv_store (px_kv P) view" and "never_blocks (px_index P) sz" and "list_all (fair_scan P b) contexts"
  shows "\<exists>r. build_index P b t sz retries contexts u = Some r"
proof -
  from scan_contexts_end [OF assms, of t u] obtain u1 e where scan: "scan_contexts P b t sz contexts u = Some (u1, e)" by auto
  from kv_store.last_chunks_end [OF assms(1) refl assms(2), of t retries u1] obtain u2 where "last_chunks P t sz retries u1 = Some u2" by blast
  with scan show ?thesis by (auto simp: build_index_def split: option.splits)
qed

text \<open>
  C11: \<open>PurgeBuildReverseIndex\<close> returns, as long as closing the reader of an index file cannot block. That is so when the index
  files hold at most 1024 keys each, whatever fails then, or when the store of the index takes them all without a failure, of whatever size they are.
  Whatever the blob store and the metadata answer, failures included, whatever uploads of index files are retried, in
  whatever order the scans of the repositories, the ticks of the uploader and its uploads interleave: when every
  listing of metadata ends, as does the loading of a former index when it resumes, and the schedule gives each worker at least as many turns as it has keys and entries
  to handle, the job ends, with an index or with an error. In particular the loop that writes the last index
  files ends. (With larger index files, as with the default options, closing the
  reader after a failed upload can block the job for ever.)
\<close>

theorem PurgeBuildReverseIndex_ends:
  assumes "kv_store (px_kv P) view" and "never_blocks (px_index P) (po_indexChunkSize opts)" and "list_all (fair_scan P b) contexts"
    and "po_resume opts \<longrightarrow> copyIndexChunks (px_kv P) (px_index P) sched d m \<noteq> None"
  shows "\<exists>d' m' r. PurgeBuildReverseIndex P opts b now sched retries contexts d m = Some (d', m', r)"
proof -
  have "\<exists>d' m' r. build_index P b t (po_indexChunkSize opts) retries contexts u = Some (d', m', r)" for t u
    using build_index_ends [OF assms(1-3), of t retries u] by auto
  with assms(4) show ?thesis
    by (auto simp: PurgeBuildReverseIndex_def split: sum.splits prod.splits option.splits)
qed

theorem PurgeBuildReverseIndex_ends_witness:
  "\<exists>d' m' r. PurgeBuildReverseIndex purge_example (defaultPurgeOptions\<lparr>po_indexChunkSize := 1\<rparr>) purge_blobs 5 rev (\<lambda>_. [3, 1])
    [(purge_store, purge_meta, [Work 0, Tick (Some [0]), Work 0, Work 0, Tick (Some []), Work 0, Tick None, Work 0])] db_empty purge_meta = Some (d', m', r)"
proof (rule PurgeBuildReverseIndex_ends [where view = db_view])
  show "kv_store (px_kv purge_example) db_view" using mem_pebble.is_kv by (simp add: purge_example_def)
  have "entry_work purge_example purge_blobs 64 purge_entry = 3"
    using purge_leaves by (simp add: entry_work_def purge_hash purge_example_def)
  then show "list_all (fair_scan purge_example purge_blobs)
      [(purge_store, purge_meta, [Work 0, Tick (Some [0]), Work 0, Work 0, Tick (Some []), Work 0, Tick None, Work 0])]"
    by (simp add: fair_scan_def purge_workers)
qed (simp_all add: defaultPurgeOptions_def never_blocks_def)

end
