(* ===== verification/FuseFs.thy ===== *)
theory FuseFs
  imports BundlePublish
begin

unbundle bit_operations_syntax

text \<open>
  The read-only mount, \<open>pkg/fuse/fs_ro_ops.go\<close> and \<open>pkg/fuse/bundle_read.go\<close>, with what it shares with the
  mutable one: the keys of \<open>pkg/fuse/fs_common.go\<close>, and the attributes and directory entries of the
  package \<open>jacobsa/fuse\<close>. The radix trees of \<open>hashicorp/go-immutable-radix\<close> are a parameter, a record of
  the calls made; so is \<open>WriteDirent\<close>, of which only the number of bytes matters.
\<close>

section \<open>Nodes\<close>

text \<open>\<open>os.FileMode\<close> is 32 bits wide, the highest one marks a directory.\<close>

definition ModeDir :: "32 word" where "ModeDir = 0x80000000"

definition IsDir :: "32 word \<Rightarrow> bool" where "IsDir m \<longleftrightarrow> m AND ModeDir \<noteq> 0"

definition dirDefaultMode :: "32 word" where "dirDefaultMode = 511 OR ModeDir"
definition fileDefaultMode :: "32 word" where "fileDefaultMode = 438"
definition dirReadOnlyMode :: "32 word" where "dirReadOnlyMode = 365 OR ModeDir"
definition fileReadOnlyMode :: "32 word" where "fileReadOnlyMode = 292"

lemma modes [simp]:
  "IsDir dirDefaultMode" "\<not> IsDir fileDefaultMode" "IsDir dirReadOnlyMode" "\<not> IsDir fileReadOnlyMode"
  by (simp_all add: IsDir_def ModeDir_def dirDefaultMode_def fileDefaultMode_def dirReadOnlyMode_def fileReadOnlyMode_def)

type_synonym inode = "64 word"

definition RootInodeID :: inode where "RootInodeID = 1"
definition firstINode :: inode where "firstINode = 1023"
definition dirLinkCount :: "32 word" where "dirLinkCount = 2"
definition fileLinkCount :: "32 word" where "fileLinkCount = 1"
definition rootPath :: string where "rootPath = ''/''"

record InodeAttributes =
  at_Size :: nat
  at_Nlink :: "32 word"
  at_Mode :: "32 word"
  at_Atime :: go_time
  at_Mtime :: go_time
  at_Ctime :: go_time
  at_Crtime :: go_time
  at_Uid :: nat
  at_Gid :: nat

datatype DirentType =
  DT_Unknown | DT_Socket | DT_Link | DT_File | DT_Block | DT_Directory | DT_Char | DT_FIFO

record Dirent =
  dt_Offset :: "64 word"
  dt_Inode :: inode
  dt_Name :: string
  dt_Type :: DirentType

datatype fuse_err =
    ENOENT | EIO | ENOSYS | EINVAL | ENOTDIR | EEXIST | ENOTEMPTY
  | ErrUnexpectedUpdate string
  | ErrCafsKey cafs_err
  | ErrReadAt cafs_err
  | FuseBundle bundle_err
  | FuseText string

section \<open>Keys of the trees\<close>

text \<open>\<open>binary.BigEndian.PutUint64\<close>\<close>

definition formKey :: "inode \<Rightarrow> bytes" where
  "formKey i = map (\<lambda>k. ucast (drop_bit (8 * (7 - k)) i)) [0..<8]"

definition formLookupKey :: "inode \<Rightarrow> string \<Rightarrow> bytes" where
  "formLookupKey i childName = formKey i @ text_bytes childName"

text \<open>
  The calls made on a radix tree. \<open>Insert\<close> and \<open>Delete\<close> return the value that was there; a transaction is the
  tree that it works on.
\<close>

record ('t, 'v) iradix =
  ir_New :: 't
  ir_Get :: "'t \<Rightarrow> bytes \<Rightarrow> 'v option"
  ir_Insert :: "'t \<Rightarrow> bytes \<Rightarrow> 'v \<Rightarrow> 't \<times> 'v option"
  ir_Delete :: "'t \<Rightarrow> bytes \<Rightarrow> 't \<times> 'v option"

locale byte_map =
  fixes R :: "('t, 'v) iradix" and look :: "'t \<Rightarrow> bytes \<Rightarrow> 'v option"
  assumes new [simp]: "look (ir_New R) = Map.empty"
    and get [simp]: "ir_Get R t k = look t k"
    and insert_old [simp]: "snd (ir_Insert R t k v) = look t k"
    and insert_look [simp]: "look (fst (ir_Insert R t k v)) = (look t)(k \<mapsto> v)"
    and delete_old [simp]: "snd (ir_Delete R t k) = look t k"
    and delete_look [simp]: "look (fst (ir_Delete R t k)) = (look t)(k := None)"

section \<open>Entries of a bundle\<close>

record FsEntry =
  fe_hash :: string
  fe_iNode :: inode
  fe_attributes :: InodeAttributes
  fe_fullPath :: string

definition FsEntry_isDir :: "FsEntry \<Rightarrow> bool" where
  "FsEntry_isDir f \<longleftrightarrow> fe_hash f = ''''"

definition newFsEntry :: "BundleEntry \<Rightarrow> go_time \<Rightarrow> inode \<Rightarrow> 32 word \<Rightarrow> FsEntry" where
  "newFsEntry bundleEntry t i linkCount =
     \<lparr>fe_hash = be_Hash bundleEntry, fe_iNode = i,
      fe_attributes = \<lparr>at_Size = be_Size bundleEntry, at_Nlink = linkCount,
        at_Mode = (if be_Hash bundleEntry = '''' then dirReadOnlyMode else fileReadOnlyMode),
        at_Atime = t, at_Mtime = t, at_Ctime = t, at_Crtime = t, at_Uid = 1020, at_Gid = 2000\<rparr>,
      fe_fullPath = be_NameWithPath bundleEntry\<rparr>"

definition newBundleEntry :: "string \<Rightarrow> BundleEntry" where
  "newBundleEntry nameWithPath = \<lparr>be_Hash = '''', be_NameWithPath = nameWithPath, be_FileMode = unat dirReadOnlyMode,
     be_Size = 2048, be_Timestamp = 0\<rparr>"

text \<open>The trees that are filled, and the lists of children.\<close>

record 't populate =
  pp_dirStore :: 't
  pp_lookupTree :: 't
  pp_fsEntryStore :: 't
  pp_readDirMap :: "inode \<Rightarrow> Dirent list option"

text \<open>The parents of a path get shorter until the root is met.\<close>

abbreviation weight :: "string list \<Rightarrow> nat" where
  "weight cs \<equiv> sum_list (map (\<lambda>c. length c + 1) cs)"

lemma weight_join: "length (join_slash cs) = weight cs - 1"
  by (induction cs rule: join_slash.induct) auto

lemma weight_comps: "weight (comps s) = length s + 1"
proof (induction s rule: comps.induct)
  case (1 s)
  show ?case
  proof (cases "dropWhile (\<lambda>c. c \<noteq> CHR ''/'') s")
    case (Cons x r)
    have "length (takeWhile (\<lambda>c. c \<noteq> CHR ''/'') s) + length (x # r) = length s"
      using Cons takeWhile_dropWhile_id [of "\<lambda>c. c \<noteq> CHR ''/''" s] by (metis length_append)
    with 1 [OF Cons] Cons show ?thesis by (subst comps.simps) simp
  next
    case Nil
    then have "CHR ''/'' \<notin> set s" by auto
    then show ?thesis by (simp add: comps_last)
  qed
qed

lemma weight_clean: "weight (clean_comps b acc cs) \<le> weight acc + weight (filter (\<lambda>c. c \<noteq> '''') cs)"
proof (induction cs arbitrary: acc)
  case (Cons c cs)
  show ?case
  proof (cases "c = '''' \<or> c = ''.''")
    case True
    with Cons [of acc] show ?thesis by (auto intro: order_trans)
  next
    case False
    show ?thesis
      using False Cons [of acc] Cons [of "[]"] Cons [of "[''..'']"] Cons [of "''..'' # acc"] Cons [of "tl acc"] Cons [of "c # acc"]
      by (cases acc) (auto split: if_splits)
  qed
qed (simp add: rev_map [symmetric])


lemma comps_slash: "comps (s @ ''/'') = comps s @ ['''']"
proof (induction s rule: comps.induct)
  case (1 s)
  show ?case
  proof (cases "dropWhile (\<lambda>c. c \<noteq> CHR ''/'') s")
    case Nil
    then have "CHR ''/'' \<notin> set s" by auto
    then show ?thesis using comps_cut [of s "''''"] comps_last by (simp add: comps.simps [of "''''"])
  next
    case (Cons x r)
    then have x: "x = CHR ''/''" using hd_dropWhile [of "\<lambda>c. c \<noteq> CHR ''/''" s] by auto
    obtain a where s: "s = a @ CHR ''/'' # r" and a: "CHR ''/'' \<notin> set a"
      using Cons x takeWhile_dropWhile_id [of "\<lambda>c. c \<noteq> CHR ''/''" s] set_takeWhileD by (metis (mono_tags, lifting))
    show ?thesis using 1 [OF Cons] comps_cut [OF a, of r] comps_cut [OF a, of "r @ ''/''"] unfolding s by simp
  qed
qed

lemma path_Dir_shorter:
  assumes "path_Dir p \<noteq> ''.''" and "path_Dir p \<noteq> ''/''"
  shows "length (path_Dir p) < length p"
proof -
  let ?d = "rev (dropWhile (\<lambda>c. c \<noteq> CHR ''/'') (rev p))"
  have le: "length ?d \<le> length p" by (simp add: length_dropWhile_le [of _ "rev p", simplified])
  show ?thesis
  proof (cases "dropWhile (\<lambda>c. c \<noteq> CHR ''/'') (rev p)")
    case Nil
    then show ?thesis using assms by (simp add: path_Dir_def path_Clean_def)
  next
    case (Cons x r)
    then have "x = CHR ''/''" using hd_dropWhile [of "\<lambda>c. c \<noteq> CHR ''/''" "rev p"] by auto
    with Cons have d: "?d = rev r @ ''/''" by simp
    have w: "weight (filter (\<lambda>c. c \<noteq> '''') cs) \<le> weight cs" for cs :: "string list" by (induction cs) auto
    have clean: "weight (clean_comps b [] (comps ?d)) \<le> weight (comps (rev r))" for b
      using weight_clean [of b "[]" "comps ?d"] w [of "comps (rev r)"] unfolding d comps_slash by simp
    show ?thesis
    proof (cases "hd ?d = CHR ''/''")
      case True
      have "weight (clean_comps True [] (comps ?d)) + 1 \<le> weight (comps (rev r)) \<or> rev r = ''''"
      proof (cases "rev r")
        case (Cons y ys)
        with True d have "y = CHR ''/''" by simp
        then have "comps (rev r) = '''' # comps ys" using Cons comps_cut [of "''''" ys] by simp
        then show ?thesis
          using weight_clean [of True "[]" "comps ?d"] w [of "comps ys"] unfolding d comps_slash by simp
      qed simp
      moreover have "path_Dir p = CHR ''/'' # join_slash (clean_comps True [] (comps ?d))"
        using True d unfolding path_Dir_def path_Clean_def by simp
      moreover have "clean_comps True [] (comps ?d) \<noteq> []" using calculation(2) assms(2) by auto
      moreover have "rev r \<noteq> ''''" using calculation(3) comps_slash [of "''''"] by (auto simp: d comps_last)
      moreover have "0 < weight (clean_comps True [] (comps ?d))" using calculation(3) by (cases "clean_comps True [] (comps ?d)") auto
      ultimately show ?thesis using le d weight_comps [of "rev r"] by (auto simp: weight_join)
    next
      case False
      then have "path_Dir p = join_slash (clean_comps False [] (comps ?d))" "clean_comps False [] (comps ?d) \<noteq> []"
        using d assms(1) unfolding path_Dir_def path_Clean_def by (auto split: list.splits)
      with clean [of False] le d weight_comps [of "rev r"] show ?thesis by (cases "clean_comps False [] (comps ?d)") (auto simp: weight_join)
    qed
  qed
qed


section \<open>Building the tree\<close>

text \<open>
  \<open>WithNodesFromEntry\<close>: the node of an entry and those of its parents that are not there yet, each with the inode of
  its parent, from the file up; with the last inode number given out. The loop of the source sets the
  parent of a node when it meets the next one.
\<close>

function nodes_from ::
  "('t, FsEntry) iradix \<Rightarrow> 't \<Rightarrow> go_time \<Rightarrow> string \<Rightarrow> FsEntry \<Rightarrow> inode \<Rightarrow> (inode \<times> FsEntry) list \<times> inode" where
  "nodes_from R dirs t nameWithPath fsEntry iNode =
     (let parentPath = path_Dir nameWithPath in
      if parentPath = '''' \<or> parentPath = ''.'' \<or> parentPath = ''/'' then ([(RootInodeID, fsEntry)], iNode)
      else case ir_Get R dirs (text_bytes parentPath) of
          Some parentDirEntry \<Rightarrow> ([(fe_iNode parentDirEntry, fsEntry)], iNode)
        | None \<Rightarrow>
            let dirEntry = newFsEntry (newBundleEntry parentPath) t (iNode + 1) dirLinkCount in
            (case nodes_from R dirs t parentPath dirEntry (iNode + 1) of
               (nodes, i) \<Rightarrow> ((fe_iNode dirEntry, fsEntry) # nodes, i)))"
  by pat_completeness auto
termination
  by (relation "measure (\<lambda>(R, dirs, t, p, e, i). length p)") (auto intro: path_Dir_shorter)

declare nodes_from.simps [simp del]

definition WithNodesFromEntry ::
  "('t, FsEntry) iradix \<Rightarrow> 't \<Rightarrow> go_time \<Rightarrow> BundleEntry \<Rightarrow> inode \<Rightarrow> (inode \<times> FsEntry) list \<times> inode" where
  "WithNodesFromEntry R dirs t be iNode =
     nodes_from R dirs t (be_NameWithPath be) (newFsEntry be t (iNode + 1) fileLinkCount) (iNode + 1)"

text \<open>A child is appended to the list of its parent, with the position after it as offset.\<close>

definition add_child :: "inode \<Rightarrow> inode \<Rightarrow> string \<Rightarrow> DirentType \<Rightarrow> 't populate \<Rightarrow> 't populate" where
  "add_child parent child base ty p =
     (let childEntries = (case pp_readDirMap p parent of None \<Rightarrow> [] | Some ds \<Rightarrow> ds) in
      p\<lparr>pp_readDirMap := (pp_readDirMap p)(parent \<mapsto> childEntries @
          [\<lparr>dt_Offset = of_nat (length childEntries + 1), dt_Inode = child, dt_Name = base, dt_Type = ty\<rparr>])\<rparr>)"

definition insertDirEntry ::
  "('t, FsEntry) iradix \<Rightarrow> 't populate \<Rightarrow> inode \<Rightarrow> FsEntry \<Rightarrow> (fuse_err, 't populate) res" where
  "insertDirEntry R p parentInode e =
     (let pth = fe_fullPath e in
      case ir_Insert R (pp_dirStore p) (text_bytes pth) e of
        (ds, Some old) \<Rightarrow> Inl (ErrUnexpectedUpdate pth)
      | (ds, None) \<Rightarrow>
          (case ir_Insert R (pp_fsEntryStore p) (formKey (fe_iNode e)) e of
             (es, Some old) \<Rightarrow> Inl (ErrUnexpectedUpdate pth)
           | (es, None) \<Rightarrow>
               (let p1 = p\<lparr>pp_dirStore := ds, pp_fsEntryStore := es\<rparr> in
                if fe_iNode e = RootInodeID then Inr p1
                else
                  (case ir_Insert R (pp_lookupTree p1) (formLookupKey parentInode (path_Base pth)) e of
                     (ls, Some old) \<Rightarrow> Inl (ErrUnexpectedUpdate pth)
                   | (ls, None) \<Rightarrow>
                       Inr (add_child parentInode (fe_iNode e) (path_Base pth) DT_Directory (p1\<lparr>pp_lookupTree := ls\<rparr>))))))"

definition insertFsEntry ::
  "('t, FsEntry) iradix \<Rightarrow> 't populate \<Rightarrow> inode \<Rightarrow> FsEntry \<Rightarrow> (fuse_err, 't populate) res" where
  "insertFsEntry R p parentInode e =
     (let pth = fe_fullPath e; base = path_Base pth in
      case ir_Insert R (pp_fsEntryStore p) (formKey (fe_iNode e)) e of
        (es, Some old) \<Rightarrow> Inl (ErrUnexpectedUpdate pth)
      | (es, None) \<Rightarrow>
          (case ir_Insert R (pp_lookupTree p) (formLookupKey parentInode base) e of
             (ls, Some old) \<Rightarrow> Inl (ErrUnexpectedUpdate pth)
           | (ls, None) \<Rightarrow>
               Inr (add_child parentInode (fe_iNode e) base DT_File (p\<lparr>pp_fsEntryStore := es, pp_lookupTree := ls\<rparr>))))"

fun populateFSAddNodes ::
  "('t, FsEntry) iradix \<Rightarrow> 't populate \<Rightarrow> (inode \<times> FsEntry) list \<Rightarrow> (fuse_err, 't populate) res" where
  "populateFSAddNodes R p [] = Inr p"
| "populateFSAddNodes R p ((parentINode, e) # nodesToAdd) =
     rbind (if at_Nlink (fe_attributes e) = dirLinkCount then insertDirEntry R p parentINode e else insertFsEntry R p parentINode e)
       (\<lambda>p'. populateFSAddNodes R p' nodesToAdd)"

fun populateFSAddBundleEntries ::
  "('t, FsEntry) iradix \<Rightarrow> go_time \<Rightarrow> inode \<Rightarrow> 't populate \<Rightarrow> BundleEntry list \<Rightarrow> (fuse_err, 't populate) res" where
  "populateFSAddBundleEntries R t inode p [] = Inr p"
| "populateFSAddBundleEntries R t inode p (be # bes) =
     (case WithNodesFromEntry R (pp_dirStore p) t be inode of
        (nodesToAdd, inode') \<Rightarrow>
          rbind (populateFSAddNodes R p nodesToAdd) (\<lambda>p'. populateFSAddBundleEntries R t inode' p' bes))"

text \<open>The mounted file system; its directory store is dropped once it is populated.\<close>

record 't readOnlyFs =
  ro_bundle :: Bundle
  ro_lookupTree :: 't
  ro_fsEntryStore :: 't
  ro_readDirMap :: "inode \<Rightarrow> Dirent list option"
  ro_isReadOnly :: bool
  ro_streamed :: bool
  ro_cafs :: "defaultFs option"

definition no_nodes :: "('t, FsEntry) iradix \<Rightarrow> 't populate" where
  "no_nodes R = \<lparr>pp_dirStore = ir_New R, pp_lookupTree = ir_New R, pp_fsEntryStore = ir_New R, pp_readDirMap = Map.empty\<rparr>"

definition populateFS ::
  "('t, FsEntry) iradix \<Rightarrow> bool \<Rightarrow> defaultFs option \<Rightarrow> Bundle \<Rightarrow> (fuse_err, 't readOnlyFs) res" where
  "populateFS R streamed cafs bundle =
     (let t = bd_Timestamp (bn_Descriptor bundle);
          dirFsEntry = newFsEntry (newBundleEntry rootPath) t RootInodeID dirLinkCount in
      rbind (insertDirEntry R (no_nodes R) RootInodeID dirFsEntry) (\<lambda>p.
      rbind (populateFSAddBundleEntries R t firstINode p (bn_Entries bundle)) (\<lambda>p'.
        Inr \<lparr>ro_bundle = bundle, ro_lookupTree = pp_lookupTree p', ro_fsEntryStore = pp_fsEntryStore p',
             ro_readDirMap = pp_readDirMap p', ro_isReadOnly = True, ro_streamed = streamed, ro_cafs = cafs\<rparr>)))"

text \<open>
  \<open>NewReadOnlyFS\<close>: the metadata alone is fetched for a mount that is streamed, otherwise the whole bundle is
  downloaded. The local file system is returned with the mount.
\<close>

definition NewReadOnlyFS ::
  "('t, FsEntry) iradix \<Rightarrow> 'v env \<Rightarrow> BundleEntry list codec \<Rightarrow> 'k publish_env \<Rightarrow> (unpack_job list \<Rightarrow> unpack_job list) \<Rightarrow> 'f afero \<Rightarrow>
   'b Store \<Rightarrow> 'b \<Rightarrow> 'm opened \<Rightarrow> bool \<Rightarrow> 'f \<Rightarrow> Bundle \<Rightarrow> (panic, 'f \<times> (fuse_err, 't readOnlyFs) res) res option" where
  "NewReadOnlyFS R E cd P order A st s mo streamed c bundle =
     (if streamed then
        (case fs_New (pe_lruNew P) (bundle_fs (pe_opts P) bundle) of
           Inl e \<Rightarrow> Some (Inr (c, Inl (FuseBundle (BCafs e))))
         | Inr (f, leafPool) \<Rightarrow>
             (case PublishMetadata E cd P mo (local_store P A c) bundle of
                None \<Rightarrow> None
              | Some (Inl p) \<Rightarrow> Some (Inl p)
              | Some (Inr (co, b1, Some e)) \<Rightarrow> Some (Inr (opened_fs co c, Inl (FuseBundle e)))
              | Some (Inr (co, b1, None)) \<Rightarrow> Some (Inr (opened_fs co c, populateFS R True (Some f) b1))))
      else
        (case Publish E cd P order A st s mo c bundle of
           None \<Rightarrow> None
         | Some (Inl p) \<Rightarrow> Some (Inl p)
         | Some (Inr (c1, b1, Some e)) \<Rightarrow> Some (Inr (c1, Inl (FuseBundle e)))
         | Some (Inr (c1, b1, None)) \<Rightarrow> Some (Inr (c1, populateFS R False None b1))))"


section \<open>Operations of the mount\<close>

definition ro_LookUpInode ::
  "('t, FsEntry) iradix \<Rightarrow> 't readOnlyFs \<Rightarrow> inode \<Rightarrow> string \<Rightarrow> (fuse_err, inode \<times> InodeAttributes) res" where
  "ro_LookUpInode R fs parent childName =
     (case ir_Get R (ro_lookupTree fs) (formLookupKey parent childName) of
        Some childEntry \<Rightarrow> Inr (fe_iNode childEntry, fe_attributes childEntry)
      | None \<Rightarrow> Inl ENOENT)"

definition ro_GetInodeAttributes ::
  "('t, FsEntry) iradix \<Rightarrow> 't readOnlyFs \<Rightarrow> inode \<Rightarrow> (fuse_err, InodeAttributes) res" where
  "ro_GetInodeAttributes R fs i =
     (case ir_Get R (ro_fsEntryStore fs) (formKey i) of None \<Rightarrow> Inl ENOENT | Some fe \<Rightarrow> Inr (fe_attributes fe))"

definition ro_OpenDir :: "('t, FsEntry) iradix \<Rightarrow> 't readOnlyFs \<Rightarrow> inode \<Rightarrow> fuse_err option" where
  "ro_OpenDir R fs i =
     (case ir_Get R (ro_fsEntryStore fs) (formKey i) of
        None \<Rightarrow> Some ENOENT
      | Some fe \<Rightarrow> if \<not> FsEntry_isDir fe then Some ENOENT else None)"

text \<open>
  Entries are written as long as they fit: \<open>wd room d\<close> is the number of bytes that \<open>WriteDirent\<close> writes. What is
  read is the list of the entries written and their bytes.
\<close>

fun write_dirents :: "(nat \<Rightarrow> Dirent \<Rightarrow> nat) \<Rightarrow> nat \<Rightarrow> nat \<Rightarrow> Dirent list \<Rightarrow> Dirent list \<times> nat" where
  "write_dirents wd room bytesRead [] = ([], bytesRead)"
| "write_dirents wd room bytesRead (d # ds) =
     (let n = wd (room - bytesRead) d in
      if n = 0 then ([], bytesRead)
      else case write_dirents wd room (bytesRead + n) ds of (out, b) \<Rightarrow> (d # out, b))"

definition ro_ReadDir ::
  "(nat \<Rightarrow> Dirent \<Rightarrow> nat) \<Rightarrow> 't readOnlyFs \<Rightarrow> inode \<Rightarrow> 64 word \<Rightarrow> nat \<Rightarrow> (panic, (fuse_err, Dirent list \<times> nat) res) res" where
  "ro_ReadDir wd fs i opOffset room =
     (let offset = sint opOffset in
      case ro_readDirMap fs i of
        None \<Rightarrow> Inr (Inl ENOENT)
      | Some children \<Rightarrow>
          if int (length children) < offset then Inr (Inl ENOENT)
          else if offset < 0 then Inl IndexOutOfRange
          else Inr (Inr (write_dirents wd room 0 (drop (nat offset) children))))"

text \<open>\<open>ReadAt\<close> of a file of the local file system, by the contract of \<open>io.ReaderAt\<close>.\<close>

definition file_ReadAt :: "bytes \<Rightarrow> bytes \<Rightarrow> int \<Rightarrow> bytes \<times> nat \<times> io_err option" where
  "file_ReadAt content dst off =
     (if off < 0 then (dst, 0, Some (ReadErr ''negative offset''))
      else let got = take (length dst) (drop (nat off) content) in
        (got @ drop (length got) dst, length got, if length got < length dst then Some EOF else None))"

text \<open>\<open>GetAt\<close> of the local file system backend is \<open>Open\<close>.\<close>

definition lfs_GetAt :: "'f afero \<Rightarrow> 'f \<Rightarrow> string \<Rightarrow> (os_err, bytes) res" where
  "lfs_GetAt A c objectName = af_Read A c objectName"

definition errNotEOF :: "read_err option \<Rightarrow> bool" where
  "errNotEOF e \<longleftrightarrow> e \<noteq> None \<and> e \<noteq> Some (IoErr EOF)"

text \<open>What the reads of a mount go through: the local files, or the blobs with their caches.\<close>

record ('k, 'c) read_env =
  re_H :: hasher
  re_LK :: "('k, Key, Key list) lru"
  re_L :: "('c, string, bytes) lru"
  re_read :: io_read

definition readAtBundle ::
  "('k, 'c) read_env \<Rightarrow> 'f afero \<Rightarrow> 'f \<Rightarrow> 'b Store \<Rightarrow> 'b \<Rightarrow> 't readOnlyFs \<Rightarrow> FsEntry \<Rightarrow> bytes \<Rightarrow> int \<Rightarrow> 'k \<times> 'c \<Rightarrow>
   ('k \<times> 'c) \<times> (panic, bytes \<times> nat \<times> fuse_err option) res" where
  "readAtBundle V A c st s fs fe destination offset kcc =
     (case kcc of (kc, cache) \<Rightarrow>
      if \<not> ro_streamed fs then
        (case lfs_GetAt A c (fe_fullPath fe) of
           Inl e \<Rightarrow> (kcc, Inr (destination, 0, Some EIO))
         | Inr content \<Rightarrow>
             (case file_ReadAt content destination offset of
                (d, n, e) \<Rightarrow> (kcc, Inr (d, n, if errNotEOF (map_option IoErr e) then Some EIO else None))))
      else case KeyFromString (fe_hash fe) of
          Inl e \<Rightarrow> (kcc, Inr (destination, 0, Some (ErrCafsKey e)))
        | Inr key \<Rightarrow>
            (case ro_cafs fs of
               None \<Rightarrow> (kcc, Inl NilDereference)
             | Some f \<Rightarrow>
                 (case fs_reader (re_H V) st (re_LK V) f s kc key of
                    (kc1, Inl e) \<Rightarrow> ((kc1, cache), Inr (destination, 0, Some (ErrReadAt e)))
                  | (kc1, Inr (cfg, rdr)) \<Rightarrow>
                      (case ReadAt (re_H V) st (re_L V) (re_read V) cfg s cache destination offset of
                         (cache1, Inl p) \<Rightarrow> ((kc1, cache1), Inl p)
                       | (cache1, Inr (d, n, e)) \<Rightarrow> ((kc1, cache1), Inr (d, n, if errNotEOF e then Some EIO else None))))))"

definition ro_ReadFile ::
  "('t, FsEntry) iradix \<Rightarrow> ('k, 'c) read_env \<Rightarrow> 'f afero \<Rightarrow> 'f \<Rightarrow> 'b Store \<Rightarrow> 'b \<Rightarrow> 't readOnlyFs \<Rightarrow> inode \<Rightarrow> bytes \<Rightarrow> int \<Rightarrow> 'k \<times> 'c \<Rightarrow>
   ('k \<times> 'c) \<times> (panic, bytes \<times> nat \<times> fuse_err option) res" where
  "ro_ReadFile R V A c st s fs i dst offset kcc =
     (case ir_Get R (ro_fsEntryStore fs) (formKey i) of
        None \<Rightarrow> (kcc, Inr (dst, 0, Some ENOENT))
      | Some fe \<Rightarrow> readAtBundle V A c st s fs fe dst offset kcc)"

text \<open>Resolving a path is a sequence of lookups from the root.\<close>

fun ro_walk :: "('t, FsEntry) iradix \<Rightarrow> 't readOnlyFs \<Rightarrow> inode \<Rightarrow> string list \<Rightarrow> (fuse_err, inode) res" where
  "ro_walk R fs i [] = Inr i"
| "ro_walk R fs i (c # cs) = rbind (ro_LookUpInode R fs i c) (\<lambda>(j, a). ro_walk R fs j cs)"

end
