(* ===== verification/FuseMutable.thy ===== *)
theory FuseMutable
  imports FuseFs BundleUpload "HOL-Library.AList"
begin

text \<open>
  The mutable mount, \<open>pkg/fuse/fs_rw_ops.go\<close> and \<open>pkg/fuse/inode.go\<close>: a file system in memory whose files
  are kept in a staging directory, and its commit as a bundle. Each operation is one function on the state
  of the mount, run under the locks that the source takes; nodes are kept by value, and a change through
  a pointer to a node is a new value under its key. The radix trees, the staging directory and the clock are
  parameters.
\<close>

section \<open>State\<close>

record iNodeGenerator =
  ig_highestInode :: inode
  ig_freeInodes :: "inode list"

record lookupEntry =
  le_iNode :: inode
  le_mode :: "32 word"

record nodeEntry =
  ne_refCount :: int
  ne_attr :: InodeAttributes
  ne_pathToBackingFile :: string

text \<open>The numbers are 64 bits wide: the increment wraps around.\<close>

definition allocINode :: "iNodeGenerator \<Rightarrow> inode \<times> iNodeGenerator" where
  "allocINode g =
     (if ig_freeInodes g = [] then
        let n = ig_highestInode g + 1 in (n, g\<lparr>ig_highestInode := n\<rparr>)
      else
        let n = last (ig_freeInodes g); free = butlast (ig_freeInodes g) in
        (n, g\<lparr>ig_freeInodes := free, ig_highestInode := (if free = [] then firstINode else ig_highestInode g)\<rparr>))"

definition freeINode :: "inode \<Rightarrow> iNodeGenerator \<Rightarrow> iNodeGenerator" where
  "freeINode i g =
     (if ig_highestInode g = i then g\<lparr>ig_highestInode := ig_highestInode g - 1\<rparr>
      else g\<lparr>ig_freeInodes := ig_freeInodes g @ [i]\<rparr>)"

text \<open>
  The calls made on the staging directory: \<open>Create\<close>, \<open>OpenFile\<close> without creating, the calls on an open file, and
  the bytes that reading it from the start delivers.
\<close>

record 'f rw_files =
  rw_Create :: "'f \<Rightarrow> string \<Rightarrow> 'f \<times> os_err option"
  rw_Open :: "'f \<Rightarrow> string \<Rightarrow> os_err option"
  rw_ReadAt :: "'f \<Rightarrow> string \<Rightarrow> bytes \<Rightarrow> int \<Rightarrow> bytes \<times> nat \<times> io_err option"
  rw_WriteAt :: "'f \<Rightarrow> string \<Rightarrow> bytes \<Rightarrow> int \<Rightarrow> 'f \<times> nat \<times> os_err option"
  rw_Truncate :: "'f \<Rightarrow> string \<Rightarrow> nat \<Rightarrow> 'f \<times> os_err option"
  rw_Stat :: "'f \<Rightarrow> string \<Rightarrow> (os_err, nat) res"
  rw_Sync :: "'f \<Rightarrow> string \<Rightarrow> os_err option"
  rw_Read :: "'f \<Rightarrow> string \<Rightarrow> bytes"

record ('t, 'n, 'f) mount_env =
  me_L :: "('t, lookupEntry) iradix"
  me_N :: "('n, nodeEntry) iradix"
  me_F :: "'f rw_files"

text \<open>
  The map of the children of a directory is an association list; an open backing file is kept as its name in
  the staging directory.
\<close>

record ('t, 'n, 'f) fsMutable =
  mf_bundle :: Bundle
  mf_lookupTree :: 't
  mf_iNodeStore :: 'n
  mf_readDirMap :: "inode \<Rightarrow> (inode \<times> Dirent) list option"
  mf_backingFiles :: "inode \<Rightarrow> string option"
  mf_iNodeGenerator :: iNodeGenerator
  mf_localCache :: 'f

text \<open>An operation changes the state and returns a value or an error; or it panics.\<close>

type_synonym ('s, 'a) fuse_out = "(panic, 's \<times> (fuse_err, 'a) res) res"

definition defaultMutableFS :: "('t, 'n, 'f) mount_env \<Rightarrow> 'f \<Rightarrow> Bundle \<Rightarrow> ('t, 'n, 'f) fsMutable" where
  "defaultMutableFS M c bundle =
     \<lparr>mf_bundle = bundle, mf_lookupTree = ir_New (me_L M), mf_iNodeStore = ir_New (me_N M), mf_readDirMap = Map.empty,
      mf_backingFiles = Map.empty, mf_iNodeGenerator = \<lparr>ig_highestInode = firstINode, ig_freeInodes = []\<rparr>, mf_localCache = c\<rparr>"

definition getPathToBackingFile :: "inode \<Rightarrow> string" where
  "getPathToBackingFile i = show_nat (unat i)"

definition mf_lookup :: "('t, 'n, 'f) mount_env \<Rightarrow> ('t, 'n, 'f) fsMutable \<Rightarrow> inode \<Rightarrow> string \<Rightarrow> lookupEntry option" where
  "mf_lookup M s p c = ir_Get (me_L M) (mf_lookupTree s) (formLookupKey p c)"

definition get_node :: "('t, 'n, 'f) mount_env \<Rightarrow> ('t, 'n, 'f) fsMutable \<Rightarrow> inode \<Rightarrow> nodeEntry option" where
  "get_node M s i = ir_Get (me_N M) (mf_iNodeStore s) (formKey i)"

definition set_node :: "('t, 'n, 'f) mount_env \<Rightarrow> inode \<Rightarrow> nodeEntry \<Rightarrow> ('t, 'n, 'f) fsMutable \<Rightarrow> ('t, 'n, 'f) fsMutable" where
  "set_node M i n s = s\<lparr>mf_iNodeStore := fst (ir_Insert (me_N M) (mf_iNodeStore s) (formKey i) n)\<rparr>"

abbreviation node_IsDir :: "nodeEntry \<Rightarrow> bool" where
  "node_IsDir n \<equiv> IsDir (at_Mode (ne_attr n))"

abbreviation with_Nlink :: "(32 word \<Rightarrow> 32 word) \<Rightarrow> nodeEntry \<Rightarrow> nodeEntry" where
  "with_Nlink g n \<equiv> n\<lparr>ne_attr := (ne_attr n)\<lparr>at_Nlink := g (at_Nlink (ne_attr n))\<rparr>\<rparr>"

definition no_node :: panic where
  "no_node = ExplicitPanic ''interface conversion: interface is nil''"

section \<open>Changes of the namespace\<close>

definition dir_entries :: "('t, 'n, 'f) fsMutable \<Rightarrow> inode \<Rightarrow> (inode \<times> Dirent) list" where
  "dir_entries s i = (case mf_readDirMap s i of None \<Rightarrow> [] | Some m \<Rightarrow> m)"

text \<open>\<open>delete\<close> on a map of children; on a map that is missing it does nothing.\<close>

definition delete_child :: "inode \<Rightarrow> inode \<Rightarrow> ('t, 'n, 'f) fsMutable \<Rightarrow> ('t, 'n, 'f) fsMutable" where
  "delete_child p i s =
     (case mf_readDirMap s p of
        None \<Rightarrow> s
      | Some children \<Rightarrow> s\<lparr>mf_readDirMap := (mf_readDirMap s)(p \<mapsto> AList.delete i children)\<rparr>)"

definition deleteNSEntry :: "('t, 'n, 'f) mount_env \<Rightarrow> ('t, 'n, 'f) fsMutable \<Rightarrow> inode \<Rightarrow> string \<Rightarrow> (('t, 'n, 'f) fsMutable, unit) fuse_out" where
  "deleteNSEntry M s p c =
     (case get_node M s p of
        None \<Rightarrow> Inr (s, Inl ENOENT)
      | Some pNode \<Rightarrow>
          (case mf_lookup M s p c of
             None \<Rightarrow> Inr (s, Inl ENOENT)
           | Some cLE \<Rightarrow>
               (case get_node M s (le_iNode cLE) of
                  None \<Rightarrow> Inl (ExplicitPanic ''did not find node after lookup'')
                | Some cNode \<Rightarrow>
                    if node_IsDir cNode \<and> dir_entries s (le_iNode cLE) \<noteq> []
                    then Inr (s, Inl ENOTEMPTY)
                    else
                      let s1 = (if node_IsDir cNode then
                            set_node M p (with_Nlink (\<lambda>n. n - 1) pNode) (s\<lparr>mf_readDirMap := (mf_readDirMap s)(le_iNode cLE := None)\<rparr>)
                          else s);
                          s2 = s1\<lparr>mf_lookupTree := fst (ir_Delete (me_L M) (mf_lookupTree s1) (formLookupKey p c))\<rparr>
                      in Inr (delete_child p (le_iNode cLE) s2, Inr ()))))"

definition insertReadDirEntry :: "inode \<Rightarrow> Dirent \<Rightarrow> ('t, 'n, 'f) fsMutable \<Rightarrow> ('t, 'n, 'f) fsMutable" where
  "insertReadDirEntry p d s =
     s\<lparr>mf_readDirMap := (mf_readDirMap s)(p \<mapsto> AList.update (dt_Inode d) d (dir_entries s p))\<rparr>"

definition insertLookupEntry :: "('t, 'n, 'f) mount_env \<Rightarrow> inode \<Rightarrow> string \<Rightarrow> lookupEntry \<Rightarrow> ('t, 'n, 'f) fsMutable \<Rightarrow> ('t, 'n, 'f) fsMutable" where
  "insertLookupEntry M p child le s = s\<lparr>mf_lookupTree := fst (ir_Insert (me_L M) (mf_lookupTree s) (formLookupKey p child) le)\<rparr>"

definition preCreateCheck :: "('t, 'n, 'f) mount_env \<Rightarrow> ('t, 'n, 'f) fsMutable \<Rightarrow> inode \<Rightarrow> string \<Rightarrow> fuse_err option" where
  "preCreateCheck M s p c =
     (case get_node M s p of
        None \<Rightarrow> Some ENOENT
      | Some n \<Rightarrow>
          if \<not> node_IsDir n then Some ENOTDIR
          else if mf_lookup M s p c \<noteq> None then Some EEXIST
          else None)"

text \<open>
  \<open>createNode\<close> at the time \<open>ts\<close>. A backing file that cannot be created is no error. The source gives no mode
  to the entry of the lookup tree.
\<close>

definition new_attr :: "DirentType \<Rightarrow> go_time \<Rightarrow> InodeAttributes" where
  "new_attr nodeType ts =
     \<lparr>at_Size = (if nodeType = DT_Directory then 64 else 0),
      at_Nlink = (if nodeType = DT_Directory then dirLinkCount else fileLinkCount),
      at_Mode = (if nodeType = DT_Directory then dirDefaultMode else fileDefaultMode),
      at_Atime = ts, at_Mtime = ts, at_Ctime = ts, at_Crtime = ts, at_Uid = 0, at_Gid = 0\<rparr>"

definition make_storage :: "('t, 'n, 'f) mount_env \<Rightarrow> DirentType \<Rightarrow> inode \<Rightarrow> ('t, 'n, 'f) fsMutable \<Rightarrow> ('t, 'n, 'f) fsMutable" where
  "make_storage M nodeType i s =
     (if nodeType = DT_Directory then s\<lparr>mf_readDirMap := (mf_readDirMap s)(i \<mapsto> [])\<rparr>
      else case rw_Create (me_F M) (mf_localCache s) (show_nat (unat i)) of
          (c, None) \<Rightarrow> s\<lparr>mf_localCache := c, mf_backingFiles := (mf_backingFiles s)(i \<mapsto> show_nat (unat i))\<rparr>
        | (c, Some e) \<Rightarrow> s\<lparr>mf_localCache := c\<rparr>)"

definition createNode ::
  "('t, 'n, 'f) mount_env \<Rightarrow> go_time \<Rightarrow> ('t, 'n, 'f) fsMutable \<Rightarrow> inode \<Rightarrow> string \<Rightarrow> DirentType \<Rightarrow> bool \<Rightarrow>
   (('t, 'n, 'f) fsMutable, inode \<times> InodeAttributes) fuse_out" where
  "createNode M ts s parent child nodeType isRoot =
     (case (if isRoot then (parent, mf_iNodeGenerator s) else allocINode (mf_iNodeGenerator s)) of
        (i, g) \<Rightarrow>
          let s1 = insertLookupEntry M parent child \<lparr>le_iNode = i, le_mode = 0\<rparr> (s\<lparr>mf_iNodeGenerator := g\<rparr>);
              s2 = make_storage M nodeType i s1;
              d = \<lparr>dt_Offset = 0, dt_Inode = i, dt_Name = child, dt_Type = nodeType\<rparr>;
              s3 = (if isRoot then s2 else insertReadDirEntry parent d s2);
              attr = new_attr nodeType ts;
              s4 = set_node M i \<lparr>ne_refCount = 1, ne_attr = attr, ne_pathToBackingFile = getPathToBackingFile i\<rparr> s3
          in if nodeType = DT_Directory then
               (case get_node M s4 parent of
                  None \<Rightarrow> Inl no_node
                | Some pNode \<Rightarrow> Inr (set_node M parent (with_Nlink (\<lambda>n. n + 1) pNode) s4, Inr (i, attr)))
             else Inr (s4, Inr (i, attr)))"

definition initRoot :: "('t, 'n, 'f) mount_env \<Rightarrow> go_time \<Rightarrow> ('t, 'n, 'f) fsMutable \<Rightarrow> (('t, 'n, 'f) fsMutable, unit) fuse_out" where
  "initRoot M ts s =
     (if ir_Get (me_L M) (mf_lookupTree s) (formKey RootInodeID) \<noteq> None then Inr (s, Inr ())
      else rbind (createNode M ts s RootInodeID rootPath DT_Directory True) (\<lambda>(s', r). Inr (s', rbind r (\<lambda>x. Inr ()))))"

text \<open>\<open>strings.Split\<close> of the description of the consumable store.\<close>

definition localPath :: "string \<Rightarrow> (fuse_err, string) res" where
  "localPath fullPath =
     (let parts = splitN (length fullPath + 1) CHR ''@'' fullPath in
      if length parts < 2 \<or> hd parts \<noteq> ''localfs'' then Inl (FuseText ''bundle doesn't have localfs consumable store'')
      else Inr (parts ! 1))"

text \<open>\<open>cache\<close> is the file system at a path.\<close>

definition NewMutableFS ::
  "('t, 'n, 'f) mount_env \<Rightarrow> (string \<Rightarrow> 'f) \<Rightarrow> string \<Rightarrow> go_time \<Rightarrow> Bundle \<Rightarrow> (panic, (fuse_err, ('t, 'n, 'f) fsMutable) res) res" where
  "NewMutableFS M cache consumable ts bundle =
     (case localPath consumable of
        Inl e \<Rightarrow> Inr (Inl e)
      | Inr pathToStaging \<Rightarrow>
          rbind (initRoot M ts (defaultMutableFS M (cache pathToStaging) bundle)) (\<lambda>(s, r). Inr (rbind r (\<lambda>x. Inr s))))"

section \<open>Operations\<close>

text \<open>\<open>LookUpInode\<close> counts a reference.\<close>

definition rw_LookUpInode ::
  "('t, 'n, 'f) mount_env \<Rightarrow> ('t, 'n, 'f) fsMutable \<Rightarrow> inode \<Rightarrow> string \<Rightarrow> (('t, 'n, 'f) fsMutable, inode \<times> InodeAttributes) fuse_out" where
  "rw_LookUpInode M s parent child =
     (case mf_lookup M s parent child of
        None \<Rightarrow> Inr (s, Inl ENOENT)
      | Some childEntry \<Rightarrow>
          (case get_node M s (le_iNode childEntry) of
             None \<Rightarrow> Inl no_node
           | Some n \<Rightarrow> Inr (set_node M (le_iNode childEntry) (n\<lparr>ne_refCount := ne_refCount n + 1\<rparr>) s, Inr (le_iNode childEntry, ne_attr n))))"

definition rw_GetInodeAttributes ::
  "('t, 'n, 'f) mount_env \<Rightarrow> ('t, 'n, 'f) fsMutable \<Rightarrow> inode \<Rightarrow> (fuse_err, InodeAttributes) res" where
  "rw_GetInodeAttributes M s i = (case get_node M s i of None \<Rightarrow> Inl ENOENT | Some n \<Rightarrow> Inr (ne_attr n))"

record setattr_op =
  sa_Size :: "nat option"
  sa_Mode :: "32 word option"
  sa_Atime :: "go_time option"
  sa_Mtime :: "go_time option"

text \<open>The new size, a 64-bit number, is set on the backing file first.\<close>

definition set_size :: "('t, 'n, 'f) mount_env \<Rightarrow> ('t, 'n, 'f) fsMutable \<Rightarrow> inode \<Rightarrow> nat option \<Rightarrow> InodeAttributes \<Rightarrow>
   ('t, 'n, 'f) fsMutable \<times> (fuse_err, InodeAttributes) res" where
  "set_size M s i newSize a =
     (case newSize of
        None \<Rightarrow> (s, Inr a)
      | Some n \<Rightarrow>
          (case rw_Open (me_F M) (mf_localCache s) (show_nat (unat i)) of
             Some e \<Rightarrow> (s, Inl EIO)
           | None \<Rightarrow>
               if 2 ^ 63 \<le> n then (s, Inl EINVAL)
               else (case rw_Truncate (me_F M) (mf_localCache s) (show_nat (unat i)) n of
                       (c, Some e) \<Rightarrow> (s\<lparr>mf_localCache := c\<rparr>, Inl EIO)
                     | (c, None) \<Rightarrow> (s\<lparr>mf_localCache := c\<rparr>, Inr (a\<lparr>at_Size := n\<rparr>)))))"

definition rw_SetInodeAttributes ::
  "('t, 'n, 'f) mount_env \<Rightarrow> ('t, 'n, 'f) fsMutable \<Rightarrow> inode \<Rightarrow> setattr_op \<Rightarrow> ('t, 'n, 'f) fsMutable \<times> (fuse_err, InodeAttributes) res" where
  "rw_SetInodeAttributes M s i op =
     (if sa_Mode op \<noteq> None then (s, Inl ENOSYS)
      else case get_node M s i of
          None \<Rightarrow> (s, Inl ENOENT)
        | Some n \<Rightarrow>
            (case set_size M s i (sa_Size op) (ne_attr n) of
               (s1, Inl e) \<Rightarrow> (s1, Inl e)
             | (s1, Inr a) \<Rightarrow>
                 let a1 = (case sa_Atime op of None \<Rightarrow> a | Some t \<Rightarrow> a\<lparr>at_Atime := t\<rparr>);
                     a2 = (case sa_Mtime op of None \<Rightarrow> a1 | Some t \<Rightarrow> a1\<lparr>at_Mtime := t\<rparr>)
                 in (set_node M i (n\<lparr>ne_attr := a2\<rparr>) s1, Inr a2)))"

definition shouldDelete :: "nodeEntry \<Rightarrow> bool" where
  "shouldDelete n \<longleftrightarrow> (if node_IsDir n then ne_refCount n = 0 else ne_refCount n = 0 \<and> at_Nlink (ne_attr n) = 0)"

text \<open>\<open>ForgetInode\<close> drops one reference, whatever number the request carries.\<close>

definition rw_ForgetInode ::
  "('t, 'n, 'f) mount_env \<Rightarrow> ('t, 'n, 'f) fsMutable \<Rightarrow> inode \<Rightarrow> (('t, 'n, 'f) fsMutable, unit) fuse_out" where
  "rw_ForgetInode M s i =
     (case get_node M s i of
        None \<Rightarrow> Inl (ExplicitPanic ''not found iNode'')
      | Some n \<Rightarrow>
          let n1 = n\<lparr>ne_refCount := ne_refCount n - 1\<rparr>; s1 = set_node M i n1 s in
          if ne_refCount n1 < 0 then Inl (ExplicitPanic ''RefCount below zero'')
          else if shouldDelete n1 then
            Inr (s1\<lparr>mf_iNodeStore := fst (ir_Delete (me_N M) (mf_iNodeStore s1) (formKey i)),
                    mf_iNodeGenerator := freeINode i (mf_iNodeGenerator s1)\<rparr>, Inr ())
          else Inr (s1, Inr ()))"

text \<open>
  The lock that \<open>MkDir\<close> takes is released twice when the check fails, which stops the program.
\<close>

definition rw_MkDir ::
  "('t, 'n, 'f) mount_env \<Rightarrow> go_time \<Rightarrow> ('t, 'n, 'f) fsMutable \<Rightarrow> inode \<Rightarrow> string \<Rightarrow> (('t, 'n, 'f) fsMutable, inode \<times> InodeAttributes) fuse_out" where
  "rw_MkDir M ts s parent child =
     (case preCreateCheck M s parent child of
        Some e \<Rightarrow> Inl (ExplicitPanic ''sync: unlock of unlocked mutex'')
      | None \<Rightarrow> createNode M ts s parent child DT_Directory False)"

definition rw_CreateFile ::
  "('t, 'n, 'f) mount_env \<Rightarrow> go_time \<Rightarrow> ('t, 'n, 'f) fsMutable \<Rightarrow> inode \<Rightarrow> string \<Rightarrow> (('t, 'n, 'f) fsMutable, inode \<times> InodeAttributes) fuse_out" where
  "rw_CreateFile M ts s parent child =
     (case preCreateCheck M s parent child of
        Some e \<Rightarrow> Inr (s, Inl e)
      | None \<Rightarrow> createNode M ts s parent child DT_File False)"

text \<open>\<open>Rename\<close> once the target is out of the way.\<close>

definition move_entry ::
  "('t, 'n, 'f) mount_env \<Rightarrow> ('t, 'n, 'f) fsMutable \<Rightarrow> inode \<Rightarrow> inode \<Rightarrow> string \<Rightarrow> inode \<Rightarrow> string \<Rightarrow> (('t, 'n, 'f) fsMutable, unit) fuse_out" where
  "move_entry M s i oldParent oldName newParent newName =
     (case map_of (dir_entries s oldParent) i of
        None \<Rightarrow> Inl NilDereference
      | Some rC \<Rightarrow>
          let newRC = \<lparr>dt_Offset = 0, dt_Inode = dt_Inode rC, dt_Name = newName, dt_Type = dt_Type rC\<rparr>;
              s1 = delete_child oldParent (dt_Inode rC) s
          in (case ir_Delete (me_L M) (mf_lookupTree s1) (formLookupKey oldParent oldName) of
                (t, None) \<Rightarrow> Inl no_node
              | (t, Some l) \<Rightarrow>
                  Inr (insertLookupEntry M newParent newName l (insertReadDirEntry newParent newRC (s1\<lparr>mf_lookupTree := t\<rparr>)), Inr ())))"

definition rw_Rename ::
  "('t, 'n, 'f) mount_env \<Rightarrow> ('t, 'n, 'f) fsMutable \<Rightarrow> inode \<Rightarrow> string \<Rightarrow> inode \<Rightarrow> string \<Rightarrow> (('t, 'n, 'f) fsMutable, unit) fuse_out" where
  "rw_Rename M s oldParent oldName newParent newName =
     (case mf_lookup M s oldParent oldName of
        None \<Rightarrow> Inr (s, Inl ENOENT)
      | Some oldChild \<Rightarrow>
          (case mf_lookup M s newParent newName of
             None \<Rightarrow> move_entry M s (le_iNode oldChild) oldParent oldName newParent newName
           | Some newChild \<Rightarrow>
               if IsDir (le_mode newChild) then Inr (s, Inl ENOSYS)
               else (case deleteNSEntry M s newParent newName of
                       Inl p \<Rightarrow> Inl p
                     | Inr (s1, ignored) \<Rightarrow> move_entry M s1 (le_iNode oldChild) oldParent oldName newParent newName)))"

definition rw_RmDir :: "('t, 'n, 'f) mount_env \<Rightarrow> ('t, 'n, 'f) fsMutable \<Rightarrow> inode \<Rightarrow> string \<Rightarrow> (('t, 'n, 'f) fsMutable, unit) fuse_out" where
  "rw_RmDir M s parent child = deleteNSEntry M s parent child"

definition rw_Unlink :: "('t, 'n, 'f) mount_env \<Rightarrow> ('t, 'n, 'f) fsMutable \<Rightarrow> inode \<Rightarrow> string \<Rightarrow> (('t, 'n, 'f) fsMutable, unit) fuse_out" where
  "rw_Unlink M s parent child = deleteNSEntry M s parent child"

text \<open>
  \<open>ReadDir\<close>: \<open>children\<close> is the map of children in the order in which one run over it meets them. An entry is
  given the position after it, counted from two, as offset, and is passed over only if that lies below the
  offset asked for.
\<close>

fun number_dirents :: "64 word \<Rightarrow> (inode \<times> Dirent) list \<Rightarrow> (64 word \<times> Dirent) list" where
  "number_dirents i [] = []"
| "number_dirents i ((j, d) # ds) = (i + 1, d\<lparr>dt_Offset := i + 1\<rparr>) # number_dirents (i + 1) ds"

definition rw_ReadDir ::
  "(nat \<Rightarrow> Dirent \<Rightarrow> nat) \<Rightarrow> ((inode \<times> Dirent) list \<Rightarrow> (inode \<times> Dirent) list) \<Rightarrow> ('t, 'n, 'f) fsMutable \<Rightarrow> inode \<Rightarrow> 64 word \<Rightarrow> nat \<Rightarrow>
   (fuse_err, Dirent list \<times> nat) res" where
  "rw_ReadDir wd run s i opOffset room =
     (case mf_readDirMap s i of
        None \<Rightarrow> Inl ENOENT
      | Some children \<Rightarrow>
          if int (length children) < sint opOffset then Inr ([], 0)
          else Inr (write_dirents wd room 0 (map snd (filter (\<lambda>(k, d). opOffset \<le> k) (number_dirents 1 (run children))))))"

text \<open>Any error of the read, the end of the file too, is an I/O error.\<close>

definition rw_ReadFile ::
  "('t, 'n, 'f) mount_env \<Rightarrow> ('t, 'n, 'f) fsMutable \<Rightarrow> inode \<Rightarrow> bytes \<Rightarrow> int \<Rightarrow> ('t, 'n, 'f) fsMutable \<times> bytes \<times> nat \<times> fuse_err option" where
  "rw_ReadFile M s i dst off =
     (let k = getPathToBackingFile i in
      case rw_Open (me_F M) (mf_localCache s) k of
        Some e \<Rightarrow> (s, dst, 0, Some EIO)
      | None \<Rightarrow>
          (case rw_ReadAt (me_F M) (mf_localCache s) k dst off of
             (d, n, e) \<Rightarrow> (s\<lparr>mf_backingFiles := (mf_backingFiles s)(i \<mapsto> k)\<rparr>, d, n, if e \<noteq> None then Some EIO else None)))"

definition rw_WriteFile ::
  "('t, 'n, 'f) mount_env \<Rightarrow> ('t, 'n, 'f) fsMutable \<Rightarrow> inode \<Rightarrow> bytes \<Rightarrow> int \<Rightarrow> (('t, 'n, 'f) fsMutable, unit) fuse_out" where
  "rw_WriteFile M s i data off =
     (let k = getPathToBackingFile i in
      case rw_Open (me_F M) (mf_localCache s) k of
        Some e \<Rightarrow> Inr (s, Inl EIO)
      | None \<Rightarrow>
          (case rw_WriteAt (me_F M) (mf_localCache s) k data off of
             (c, n, err) \<Rightarrow>
               let s1 = s\<lparr>mf_backingFiles := (mf_backingFiles s)(i \<mapsto> k), mf_localCache := c\<rparr> in
               if err \<noteq> None then Inr (s1, Inl EIO)
               else (case get_node M s1 i of
                       None \<Rightarrow> Inl (ExplicitPanic ''Invalid state inode: not found'')
                     | Some ne \<Rightarrow>
                         (case rw_Stat (me_F M) c k of
                            Inl e \<Rightarrow> Inl NilDereference
                          | Inr sz \<Rightarrow> Inr (set_node M i (ne\<lparr>ne_attr := (ne_attr ne)\<lparr>at_Size := sz\<rparr>\<rparr>) s1, Inr ())))))"

definition rw_SyncFile :: "('t, 'n, 'f) mount_env \<Rightarrow> ('t, 'n, 'f) fsMutable \<Rightarrow> inode \<Rightarrow> (panic, fuse_err option) res" where
  "rw_SyncFile M s i =
     (case mf_backingFiles s i of
        None \<Rightarrow> Inl NilDereference
      | Some k \<Rightarrow> Inr (if rw_Sync (me_F M) (mf_localCache s) k \<noteq> None then Some EIO else None))"

definition rw_FlushFile :: "('t, 'n, 'f) mount_env \<Rightarrow> ('t, 'n, 'f) fsMutable \<Rightarrow> inode \<Rightarrow> fuse_err option" where
  "rw_FlushFile M s i =
     (case mf_backingFiles s i of
        None \<Rightarrow> None
      | Some k \<Rightarrow> if rw_Sync (me_F M) (mf_localCache s) k \<noteq> None then Some EIO else None)"

section \<open>Commit\<close>

text \<open>
  The directories still to visit are an agenda; each gives the files to upload, named by their path from
  the root, and the directories below it. \<open>run\<close> is the order in which a map is run over. A namespace
  with a cycle would be walked for ever.
\<close>

type_synonym commitUploadTask = "inode \<times> string"

definition upload_tasks :: "((inode \<times> Dirent) list \<Rightarrow> (inode \<times> Dirent) list) \<Rightarrow> ('t, 'n, 'f) fsMutable \<Rightarrow> DirentType \<Rightarrow> commitUploadTask \<Rightarrow> commitUploadTask list" where
  "upload_tasks run s ty task =
     (case task of (i, nm) \<Rightarrow> map (\<lambda>(j, d). (j, nm @ ''/'' @ dt_Name d)) (filter (\<lambda>(j, d). dt_Type d = ty) (run (dir_entries s i))))"

partial_function (option) commitUploadDir ::
  "((inode \<times> Dirent) list \<Rightarrow> (inode \<times> Dirent) list) \<Rightarrow> ('t, 'n, 'f) fsMutable \<Rightarrow> commitUploadTask list \<Rightarrow> commitUploadTask list option" where
  "commitUploadDir run s agenda =
     (case agenda of
        [] \<Rightarrow> Some []
      | task # tasks \<Rightarrow>
          Option.bind (commitUploadDir run s (upload_tasks run s DT_Directory task @ tasks))
            (\<lambda>fs. Some (upload_tasks run s DT_File task @ fs)))"

definition commitWalkReadDirMap ::
  "((inode \<times> Dirent) list \<Rightarrow> (inode \<times> Dirent) list) \<Rightarrow> ('t, 'n, 'f) fsMutable \<Rightarrow> commitUploadTask list option" where
  "commitWalkReadDirMap run s = commitUploadDir run s [(RootInodeID, '''')]"

text \<open>
  The uploads in the order in which they complete, each an entry or an error; an upload that does not
  return keeps the commit from returning.
\<close>

datatype commit_event = CommitEntry BundleEntry | CommitErr fuse_err

fun commitFileUpload ::
  "'k upload_env \<Rightarrow> ('t, 'n, 'f) mount_env \<Rightarrow> ('t, 'n, 'f) fsMutable \<Rightarrow> 'b Store \<Rightarrow> defaultFs \<Rightarrow> 'b \<Rightarrow> 'k \<Rightarrow> commitUploadTask list \<Rightarrow>
   (panic, 'b \<times> commit_event list) res option" where
  "commitFileUpload U M fs st f s kc [] = Some (Inr (s, []))"
| "commitFileUpload U M fs st f s kc ((i, nm) # tasks) =
     (let k = getPathToBackingFile i in
      case rw_Open (me_F M) (mf_localCache fs) k of
        Some e \<Rightarrow>
          (case commitFileUpload U M fs st f s kc tasks of
             Some (Inr (s', es)) \<Rightarrow> Some (Inr (s', CommitErr (FuseText (os_text e)) # es))
           | other \<Rightarrow> other)
      | None \<Rightarrow>
          (case Put (ue_H U) st (ue_LK U) (ue_flush U) f s kc (Source (ue_read U (rw_Read (me_F M) (mf_localCache fs) k)) None False) of
             None \<Rightarrow> None
           | Some (Inl p) \<Rightarrow> Some (Inl p)
           | Some (Inr (s1, kc1, Inl e)) \<Rightarrow>
               (case commitFileUpload U M fs st f s1 kc1 tasks of
                  Some (Inr (s', es)) \<Rightarrow> Some (Inr (s', CommitErr (FuseBundle (BCafs e)) # es))
                | other \<Rightarrow> other)
           | Some (Inr (s1, kc1, Inr putRes)) \<Rightarrow>
               (case commitFileUpload U M fs st f s1 kc1 tasks of
                  Some (Inr (s', es)) \<Rightarrow>
                    Some (Inr (s', CommitEntry \<lparr>be_Hash = Key_String (pr_Key putRes), be_NameWithPath = nm, be_FileMode = 0,
                        be_Size = pr_Written putRes, be_Timestamp = 0\<rparr> # es))
                | other \<Rightarrow> other)))"

fun commit_collect :: "BundleEntry list \<Rightarrow> commit_event list \<Rightarrow> (fuse_err, BundleEntry list) res" where
  "commit_collect fileList [] = Inr fileList"
| "commit_collect fileList (CommitErr e # es) = Inl e"
| "commit_collect fileList (CommitEntry be # es) = commit_collect (fileList @ [be]) es"

text \<open>
  \<open>order\<close> is the order of completion. The result has the new states of the metadata and blob stores, the
  bundle, and the error.
\<close>

definition commitImpl ::
  "'v env \<Rightarrow> 'k upload_env \<Rightarrow> ('t, 'n, 'f) mount_env \<Rightarrow> ((inode \<times> Dirent) list \<Rightarrow> (inode \<times> Dirent) list) \<Rightarrow>
   (commitUploadTask list \<Rightarrow> commitUploadTask list) \<Rightarrow> 'm Store \<Rightarrow> BundleEntry list codec \<Rightarrow> 'b Store \<Rightarrow> defaultFs \<Rightarrow>
   'm \<Rightarrow> 'b \<Rightarrow> 'k \<Rightarrow> ('t, 'n, 'f) fsMutable \<Rightarrow> (panic, 'm \<times> 'b \<times> Bundle \<times> fuse_err option) res option" where
  "commitImpl E U M run order mst cd bst f m s kc fs =
     (let b = (if bn_BundleID (mf_bundle fs) = '''' then setBundleID (ue_newID U) (mf_bundle fs) else mf_bundle fs) in
      case commitWalkReadDirMap run fs of
        None \<Rightarrow> None
      | Some tasks \<Rightarrow>
          (case commitFileUpload U M fs bst f s kc (order tasks) of
             None \<Rightarrow> None
           | Some (Inl p) \<Rightarrow> Some (Inl p)
           | Some (Inr (s', es)) \<Rightarrow>
               (case commit_collect [] es of
                  Inl e \<Rightarrow> Some (Inr (m, s', b, Some e))
                | Inr fileList \<Rightarrow>
                    (case UploadBundleEntries E mst cd m (b\<lparr>bn_Entries := fileList\<rparr>) of
                       (m', b', e) \<Rightarrow> Some (Inr (m', s', b', map_option FuseBundle e))))))"

definition rw_Commit ::
  "'v env \<Rightarrow> 'k upload_env \<Rightarrow> (int \<Rightarrow> string option) \<Rightarrow> ('t, 'n, 'f) mount_env \<Rightarrow> ((inode \<times> Dirent) list \<Rightarrow> (inode \<times> Dirent) list) \<Rightarrow>
   (commitUploadTask list \<Rightarrow> commitUploadTask list) \<Rightarrow> 'm Store \<Rightarrow> BundleEntry list codec \<Rightarrow> 'b Store \<Rightarrow> defaultFs \<Rightarrow>
   'm \<Rightarrow> 'b \<Rightarrow> 'k \<Rightarrow> ('t, 'n, 'f) fsMutable \<Rightarrow> (panic, 'm \<times> 'b \<times> Bundle \<times> fuse_err option) res option" where
  "rw_Commit E U lruNew M run order mst cd bst opts m s kc fs =
     (case fs_New lruNew (bundle_fs opts (mf_bundle fs)) of
        Inl e \<Rightarrow> Some (Inr (m, s, mf_bundle fs, Some (FuseBundle (BCafs e))))
      | Inr (f, leafPool) \<Rightarrow> commitImpl E U M run order mst cd bst f m s kc fs)"

section \<open>The staging directory\<close>

text \<open>
  The documented behaviour of the calls, for the names in use: \<open>Create\<close> makes or empties a file, a file that is
  there can be opened, and reads, writes, truncation and size are those of a POSIX file without failures.
\<close>

definition write_at :: "bytes \<Rightarrow> nat \<Rightarrow> bytes \<Rightarrow> bytes" where
  "write_at d off data = (if data = [] then d else take off d @ replicate (off - length d) 0 @ data @ drop (off + length data) d)"

definition resize :: "nat \<Rightarrow> bytes \<Rightarrow> bytes" where
  "resize n d = take n d @ replicate (n - length d) 0"

lemma length_resize [simp]: "length (resize n d) = n"
  by (simp add: resize_def)

locale staging =
  fixes F :: "'f rw_files" and files :: "'f \<Rightarrow> string \<Rightarrow> bytes option"
  assumes create: "\<exists>c'. rw_Create F c (show_nat k) = (c', None) \<and> files c' = (files c)(show_nat k \<mapsto> [])"
    and open_there: "files c (show_nat k) \<noteq> None \<Longrightarrow> rw_Open F c (show_nat k) = None"
    and open_missing: "files c (show_nat k) = None \<Longrightarrow> rw_Open F c (show_nat k) = Some OsNotExist"
    and readAt: "files c (show_nat k) = Some d \<Longrightarrow> rw_ReadAt F c (show_nat k) dst off = file_ReadAt d dst off"
    and writeAt: "files c (show_nat k) = Some d \<Longrightarrow> 0 \<le> off \<Longrightarrow>
      \<exists>c'. rw_WriteAt F c (show_nat k) data off = (c', length data, None) \<and> files c' = (files c)(show_nat k \<mapsto> write_at d (nat off) data)"
    and truncate: "files c (show_nat k) = Some d \<Longrightarrow>
      \<exists>c'. rw_Truncate F c (show_nat k) n = (c', None) \<and> files c' = (files c)(show_nat k \<mapsto> resize n d)"
    and size_of: "files c (show_nat k) = Some d \<Longrightarrow> rw_Stat F c (show_nat k) = Inr (length d)"
    and all_of: "files c (show_nat k) = Some d \<Longrightarrow> rw_Read F c (show_nat k) = d"

text \<open>A staging directory in memory.\<close>

definition mem_rw :: "(string \<rightharpoonup> bytes) rw_files" where
  "mem_rw = \<lparr>rw_Create = (\<lambda>c k. (c(k \<mapsto> []), None)),
     rw_Open = (\<lambda>c k. if c k = None then Some OsNotExist else None),
     rw_ReadAt = (\<lambda>c k dst off. file_ReadAt (the (c k)) dst off),
     rw_WriteAt = (\<lambda>c k data off. if off < 0 then (c, 0, Some (OsOther ''negative offset''))
        else (c(k \<mapsto> write_at (the (c k)) (nat off) data), length data, None)),
     rw_Truncate = (\<lambda>c k n. (c(k \<mapsto> resize n (the (c k))), None)),
     rw_Stat = (\<lambda>c k. case c k of None \<Rightarrow> Inl OsNotExist | Some d \<Rightarrow> Inr (length d)),
     rw_Sync = (\<lambda>c k. None), rw_Read = (\<lambda>c k. the (c k))\<rparr>"

interpretation mem_rw: staging mem_rw "\<lambda>c. c"
  by unfold_locales (simp_all add: mem_rw_def)

end
