(* ===== verification/FuseMount.thy ===== *)
theory FuseMount
  imports FuseFs
begin

text \<open>
  The read-only mount shows exactly the files of its bundle. A tree of nodes, a map from component lists to
  entries, is the abstract view of what the trees and lists of the mount hold; every insertion adds one node to
  it, and the nodes of an entry are inserted from the file up.
\<close>

section \<open>Keys\<close>

lemma length_formKey [simp]: "length (formKey i) = 8"
  by (simp add: formKey_def)

lemma formKey_nth: "k < 8 \<Longrightarrow> formKey i ! k = ucast (drop_bit (8 * (7 - k)) i)"
  by (simp add: formKey_def)

lemma formKey_inj: "formKey i = formKey j \<longleftrightarrow> i = j"
proof
  assume eq: "formKey i = formKey j"
  show "i = j"
  proof (rule bit_word_eqI)
    fix n :: nat
    assume n: "n < LENGTH(64)"
    let ?k = "7 - n div 8"
    have k: "?k < 8" "8 * (7 - ?k) + n mod 8 = n" using n by simp_all
    have low: "bit (ucast w :: byte) m = bit w m" if "m < 8" for w :: inode and m
      using that by (auto simp: bit_ucast_iff)
    have "bit x n = bit (formKey x ! ?k) (n mod 8)" for x :: inode
      using k low [of "n mod 8"] by (simp add: formKey_nth bit_drop_bit_eq)
    with eq show "bit i n = bit j n" by metis
  qed
qed simp

lemma text_bytes_inj: "text_bytes a = text_bytes b \<longleftrightarrow> a = b"
  by (metis bytes_text_bytes)

lemma formLookupKey_inj: "formLookupKey i a = formLookupKey j b \<longleftrightarrow> i = j \<and> a = b"
  by (simp add: formLookupKey_def formKey_inj text_bytes_inj)

lemmas key_inj [simp] = formKey_inj text_bytes_inj formLookupKey_inj

section \<open>Paths\<close>

definition path_of :: "string list \<Rightarrow> string" where
  "path_of cs = (if cs = [] then rootPath else join_slash cs)"

lemma join_comps: "join_slash (comps s) = s"
proof (induction s rule: comps.induct)
  case (1 s)
  show ?case
  proof (cases "dropWhile (\<lambda>c. c \<noteq> CHR ''/'') s")
    case Nil
    then have "CHR ''/'' \<notin> set s" by auto
    then show ?thesis by (simp add: comps_last)
  next
    case (Cons x r)
    then have x: "x = CHR ''/''" using hd_dropWhile [of "\<lambda>c. c \<noteq> CHR ''/''" s] by auto
    obtain c cs where r: "comps r = c # cs" by (cases "comps r") (auto simp: comps.simps [of r] split: list.splits)
    have "s = takeWhile (\<lambda>c. c \<noteq> CHR ''/'') s @ CHR ''/'' # r"
      using Cons x takeWhile_dropWhile_id [of "\<lambda>c. c \<noteq> CHR ''/''" s] by metis
    moreover have "comps s = takeWhile (\<lambda>c. c \<noteq> CHR ''/'') s # comps r" using Cons by (subst comps.simps) simp
    ultimately show ?thesis using 1 [OF Cons] r by simp
  qed
qed

lemma plain_slash: "list_all plain_comp cs \<Longrightarrow> c \<in> set cs \<Longrightarrow> CHR ''/'' \<notin> set c"
  by (auto simp: list_all_iff plain_comp_def)

lemma comps_path_of: "cs \<noteq> [] \<Longrightarrow> list_all plain_comp cs \<Longrightarrow> comps (path_of cs) = cs"
  using comps_join [of cs] plain_slash [of cs] by (simp add: path_of_def)

lemma path_of_inj:
  assumes "list_all plain_comp cs" and "list_all plain_comp ds"
  shows "path_of cs = path_of ds \<longleftrightarrow> cs = ds"
proof -
  have root: "path_of es \<noteq> path_of []" if es: "es \<noteq> []" "list_all plain_comp es" for es
  proof
    assume "path_of es = path_of []"
    then have "es = comps ''/''" using comps_path_of [OF es] by (simp add: path_of_def rootPath_def)
    moreover have "comps ''/'' = ['''', '''']" using comps_slash [of "''''"] by (simp add: comps_last)
    ultimately show False using es(2) by (simp add: plain_comp_def)
  qed
  show ?thesis
    using root [of cs] root [of ds] comps_path_of [of cs] comps_path_of [of ds] assms by (cases "cs = []"; cases "ds = []") metis+
qed

lemma last_slash:
  assumes "CHR ''/'' \<notin> set c"
  shows "dropWhile (\<lambda>x. x \<noteq> CHR ''/'') (rev (p @ CHR ''/'' # c)) = CHR ''/'' # rev p"
    and "takeWhile (\<lambda>x. x \<noteq> CHR ''/'') (rev (p @ CHR ''/'' # c)) = rev c"
  using assms by (simp_all add: dropWhile_append takeWhile_append)

lemma path_Dir_plain:
  assumes "list_all plain_comp (cs @ [c])"
  shows "path_Dir (path_of (cs @ [c])) = (if cs = [] then ''.'' else path_of cs)"
proof (cases "cs = []")
  case True
  from assms True have "CHR ''/'' \<notin> set c" by (simp add: plain_comp_def)
  then have "dropWhile (\<lambda>x. x \<noteq> CHR ''/'') (rev c) = []" by auto
  with True show ?thesis by (simp add: path_Dir_def path_of_def path_Clean_def)
next
  case False
  have c: "CHR ''/'' \<notin> set c" using assms by (simp add: plain_comp_def)
  have cs: "list_all plain_comp cs" using assms by simp
  have "path_of (cs @ [c]) = join_slash cs @ CHR ''/'' # c" using False by (simp add: path_of_def join_slash_append)
  with last_slash(1) [OF c, of "join_slash cs"] have "path_Dir (path_of (cs @ [c])) = path_Clean (join_slash cs @ ''/'')"
    by (simp add: path_Dir_def)
  also have "\<dots> = join_slash cs"
  proof -
    have "comps (join_slash cs @ ''/'') = cs @ ['''']" using comps_slash [of "join_slash cs"] comps_path_of [OF False cs] False by (simp add: path_of_def)
    moreover obtain a as where "cs = a # as" using False by (cases cs) auto
    with cs have "join_slash cs \<noteq> ''''" "hd (join_slash cs @ ''/'') \<noteq> CHR ''/''"
      by (cases as; cases a; auto simp: plain_comp_def)+
    moreover have "clean_comps False acc (cs @ ['''']) = rev acc @ cs" for acc
      using cs by (induction cs arbitrary: acc) (auto simp: plain_comp_def)
    ultimately show ?thesis using False by (simp add: path_Clean_def split: list.splits)
  qed
  finally show ?thesis using False by (simp add: path_of_def)
qed

lemma path_Base_plain:
  assumes "list_all plain_comp (cs @ [c])"
  shows "path_Base (path_of (cs @ [c])) = c"
proof -
  have c: "CHR ''/'' \<notin> set c" "c \<noteq> ''''" using assms by (simp_all add: plain_comp_def)
  define p where "p = path_of (cs @ [c])"
  have p: "p = c \<or> p = join_slash cs @ CHR ''/'' # c" by (cases "cs = []") (simp_all add: p_def path_of_def join_slash_append)
  then have "p \<noteq> ''''" "last p = last c" using c(2) by auto
  moreover have "last c \<noteq> CHR ''/''" using c last_in_set [of c] by metis
  ultimately have "dropWhile (\<lambda>x. x = CHR ''/'') (rev p) = rev p" by (cases p rule: rev_cases) auto
  moreover have "takeWhile (\<lambda>x. x \<noteq> CHR ''/'') (rev p) = rev c"
    using p
  proof
    assume "p = c"
    then show ?thesis using c(1) by (auto simp: takeWhile_eq_all_conv)
  next
    assume "p = join_slash cs @ CHR ''/'' # c"
    then show ?thesis using last_slash(2) [OF c(1)] by simp
  qed
  ultimately show ?thesis using \<open>p \<noteq> ''''\<close> by (simp add: path_Base_def p_def [symmetric])
qed

lemma path_of_not_top: "cs \<noteq> [] \<Longrightarrow> list_all plain_comp cs \<Longrightarrow> path_of cs \<notin> {'''', ''.'', ''/''}"
proof -
  assume cs: "cs \<noteq> []" "list_all plain_comp cs"
  have "comps '''' = ['''']" "comps ''.'' = [''.'']" "comps ''/'' = ['''', '''']"
    using comps_slash [of "''''"] by (simp_all add: comps_last)
  with comps_path_of [OF cs] cs(2) show ?thesis by (auto simp: plain_comp_def)
qed


section \<open>Trees of nodes\<close>

type_synonym nodes = "string list \<Rightarrow> FsEntry option"

definition entry_type :: "FsEntry \<Rightarrow> DirentType" where
  "entry_type e = (if FsEntry_isDir e then DT_Directory else DT_File)"

text \<open>
  A tree of nodes: the root is there, a node has a directory above it, its path and a number of its own up to
  the last one given out, and its link count tells directories from files.
\<close>

definition node_ok :: "inode \<Rightarrow> string list \<Rightarrow> FsEntry \<Rightarrow> bool" where
  "node_ok last_i cs e \<longleftrightarrow> list_all plain_comp cs \<and> fe_fullPath e = path_of cs
     \<and> (at_Nlink (fe_attributes e) = dirLinkCount \<longleftrightarrow> FsEntry_isDir e)
     \<and> (if cs = [] then fe_iNode e = RootInodeID \<and> FsEntry_isDir e
        else unat firstINode < unat (fe_iNode e) \<and> unat (fe_iNode e) \<le> unat last_i)"

definition tree_ok :: "nodes \<Rightarrow> inode \<Rightarrow> bool" where
  "tree_ok N last_i \<longleftrightarrow> N [] \<noteq> None
     \<and> (\<forall>cs e. N cs = Some e \<longrightarrow> node_ok last_i cs e)
     \<and> (\<forall>cs c. N (cs @ [c]) \<noteq> None \<longrightarrow> (\<exists>p. N cs = Some p \<and> FsEntry_isDir p))
     \<and> (\<forall>cs ds e e'. N cs = Some e \<longrightarrow> N ds = Some e' \<longrightarrow> fe_iNode e = fe_iNode e' \<longrightarrow> cs = ds)"

lemma tree_okD:
  assumes "tree_ok N last_i"
  shows "N [] \<noteq> None" "N cs = Some e \<Longrightarrow> node_ok last_i cs e" "N (cs @ [c]) \<noteq> None \<Longrightarrow> \<exists>p. N cs = Some p \<and> FsEntry_isDir p"
    "N cs = Some e \<Longrightarrow> N ds = Some e' \<Longrightarrow> fe_iNode e = fe_iNode e' \<Longrightarrow> cs = ds"
  using assms unfolding tree_ok_def by blast+

lemma node_ok_plain: "node_ok last_i cs e \<Longrightarrow> list_all plain_comp cs"
  by (simp add: node_ok_def)

lemma node_ok_path: "node_ok last_i cs e \<Longrightarrow> fe_fullPath e = path_of cs"
  by (simp add: node_ok_def)

lemma node_not_root: "node_ok last_i cs e \<Longrightarrow> cs \<noteq> [] \<Longrightarrow> fe_iNode e \<noteq> RootInodeID"
  by (auto simp: node_ok_def RootInodeID_def firstINode_def)

text \<open>The children that a list of directory entries stands for.\<close>

definition child_of :: "nodes \<Rightarrow> string list set \<Rightarrow> inode \<Rightarrow> string \<Rightarrow> FsEntry \<Rightarrow> bool" where
  "child_of N S i c e \<longleftrightarrow> (\<exists>cs par. cs @ [c] \<in> S \<and> N (cs @ [c]) = Some e \<and> N cs = Some par \<and> fe_iNode par = i)"

definition lists_children :: "nodes \<Rightarrow> string list set \<Rightarrow> inode \<Rightarrow> Dirent list \<Rightarrow> bool" where
  "lists_children N S i ds \<longleftrightarrow> distinct (map dt_Name ds)
     \<and> (\<forall>k < length ds. dt_Offset (ds ! k) = of_nat (k + 1))
     \<and> (\<forall>c j ty. (\<exists>d \<in> set ds. dt_Name d = c \<and> dt_Inode d = j \<and> dt_Type d = ty)
          \<longleftrightarrow> (\<exists>e. child_of N S i c e \<and> fe_iNode e = j \<and> entry_type e = ty))"

definition children :: "(inode \<Rightarrow> Dirent list option) \<Rightarrow> inode \<Rightarrow> Dirent list" where
  "children m i = (case m i of None \<Rightarrow> [] | Some ds \<Rightarrow> ds)"

text \<open>The trees and lists of the mount hold the nodes of a set of paths.\<close>

definition holds :: "('t \<Rightarrow> bytes \<Rightarrow> FsEntry option) \<Rightarrow> nodes \<Rightarrow> string list set \<Rightarrow> 't populate \<Rightarrow> bool" where
  "holds look N S p \<longleftrightarrow>
     (\<forall>k e. look (pp_dirStore p) k = Some e \<longleftrightarrow> (\<exists>cs \<in> S. N cs = Some e \<and> FsEntry_isDir e \<and> k = text_bytes (path_of cs)))
   \<and> (\<forall>k e. look (pp_fsEntryStore p) k = Some e \<longleftrightarrow> (\<exists>cs \<in> S. N cs = Some e \<and> k = formKey (fe_iNode e)))
   \<and> (\<forall>k e. look (pp_lookupTree p) k = Some e \<longleftrightarrow> (\<exists>i c. child_of N S i c e \<and> k = formLookupKey i c))
   \<and> (\<forall>i. lists_children N S i (children (pp_readDirMap p) i)) \<and> (\<forall>i. pp_readDirMap p i \<noteq> Some [])"

lemma child_of_insert:
  assumes "N (cs @ [c]) = Some e" and "N cs = Some par"
  shows "child_of N (insert (cs @ [c]) S) i b x \<longleftrightarrow> child_of N S i b x \<or> i = fe_iNode par \<and> b = c \<and> x = e"
  using assms by (auto simp: child_of_def)

lemma child_of_unique:
  assumes "tree_ok N last_i" and "child_of N S i c e" and "N cs = Some par" and "fe_iNode par = i"
  shows "cs @ [c] \<in> S \<and> N (cs @ [c]) = Some e"
  using assms tree_okD(4) [OF assms(1)] unfolding child_of_def by blast

lemma lists_children_add:
  assumes "tree_ok N last_i" and "lists_children N S i ds" and "cs @ [c] \<notin> S" and "N (cs @ [c]) = Some e" and "N cs = Some par"
    and "fe_iNode par = i"
  shows "lists_children N (insert (cs @ [c]) S) i
    (ds @ [\<lparr>dt_Offset = of_nat (length ds + 1), dt_Inode = fe_iNode e, dt_Name = c, dt_Type = entry_type e\<rparr>])"
proof -
  have "c \<notin> dt_Name ` set ds"
    using assms(2,3) child_of_unique [OF assms(1) _ assms(5,6)] unfolding lists_children_def by blast
  moreover have "(\<exists>d \<in> set ds. dt_Name d = b \<and> dt_Inode d = j \<and> dt_Type d = ty) \<longleftrightarrow> (\<exists>e. child_of N S i b e \<and> fe_iNode e = j \<and> entry_type e = ty)" for b j ty
    using assms(2) unfolding lists_children_def by blast
  ultimately show ?thesis
    using assms(2) unfolding lists_children_def child_of_insert [OF assms(4,5)]
    by (auto simp: nth_append assms(6) less_Suc_eq)
qed

lemma lists_children_other:
  assumes "lists_children N S i ds" and "N (cs @ [c]) = Some e" and "N cs = Some par" and "fe_iNode par \<noteq> i"
  shows "lists_children N (insert (cs @ [c]) S) i ds"
  using assms unfolding lists_children_def child_of_insert [OF assms(2,3)] by auto

lemma children_add_child:
  "children (pp_readDirMap (add_child i j b ty p)) k =
    (let ds = children (pp_readDirMap p) i in
     if k = i then ds @ [\<lparr>dt_Offset = of_nat (length ds + 1), dt_Inode = j, dt_Name = b, dt_Type = ty\<rparr>] else children (pp_readDirMap p) k)"
  by (simp add: add_child_def children_def Let_def)

lemma add_child_stores [simp]:
  "pp_dirStore (add_child i j b ty p) = pp_dirStore p" "pp_lookupTree (add_child i j b ty p) = pp_lookupTree p"
  "pp_fsEntryStore (add_child i j b ty p) = pp_fsEntryStore p" "pp_readDirMap (add_child i j b ty p) k \<noteq> Some [] \<longleftrightarrow> k = i \<or> pp_readDirMap p k \<noteq> Some []"
  by (simp_all add: add_child_def Let_def)


section \<open>Inserting nodes\<close>

context byte_map
begin

lemma insert_new: "look t k = None \<Longrightarrow> \<exists>t'. ir_Insert R t k v = (t', None) \<and> look t' = (look t)(k \<mapsto> v)"
  using insert_old [of t k v] insert_look [of t k v] by (metis prod.collapse)

end

locale entry_map = byte_map R look for R :: "('t, FsEntry) iradix" and look
begin

lemma holds_stores:
  assumes "holds look N S p"
  shows "look (pp_dirStore p) k = Some e \<longleftrightarrow> (\<exists>cs \<in> S. N cs = Some e \<and> FsEntry_isDir e \<and> k = text_bytes (path_of cs))"
    "look (pp_fsEntryStore p) k = Some e \<longleftrightarrow> (\<exists>cs \<in> S. N cs = Some e \<and> k = formKey (fe_iNode e))"
    "look (pp_lookupTree p) k = Some e \<longleftrightarrow> (\<exists>i c. child_of N S i c e \<and> k = formLookupKey i c)"
    "lists_children N S i (children (pp_readDirMap p) i)" "pp_readDirMap p i \<noteq> Some []"
  using assms unfolding holds_def by blast+

text \<open>The keys of a node that is not there yet are free.\<close>

lemma fresh_keys:
  assumes "tree_ok N last_i" and "holds look N S p" and "cs @ [c] \<notin> S" and e: "N (cs @ [c]) = Some e" and par: "N cs = Some par"
  shows "FsEntry_isDir e \<Longrightarrow> look (pp_dirStore p) (text_bytes (fe_fullPath e)) = None"
    "look (pp_fsEntryStore p) (formKey (fe_iNode e)) = None"
    "look (pp_lookupTree p) (formLookupKey (fe_iNode par) c) = None"
proof -
  note tree = tree_okD [OF assms(1)] and st = holds_stores [OF assms(2)]
  have path: "fe_fullPath x = path_of ds \<and> list_all plain_comp ds" if "N ds = Some x" for ds x
    using tree(2) [OF that] by (simp add: node_ok_def)
  show "look (pp_dirStore p) (text_bytes (fe_fullPath e)) = None"
  proof (rule ccontr)
    assume "look (pp_dirStore p) (text_bytes (fe_fullPath e)) \<noteq> None"
    then obtain x ds where "ds \<in> S" "N ds = Some x" "path_of ds = fe_fullPath e" using st(1) by fastforce
    with path [of ds] path [OF e] path_of_inj [of ds "cs @ [c]"] assms(3) show False by auto
  qed
  show "look (pp_fsEntryStore p) (formKey (fe_iNode e)) = None"
    using st(2) [of "formKey (fe_iNode e)"] tree(4) [OF _ e] assms(3) by (metis formKey_inj not_None_eq)
  show "look (pp_lookupTree p) (formLookupKey (fe_iNode par) c) = None"
  proof (rule ccontr)
    assume "look (pp_lookupTree p) (formLookupKey (fe_iNode par) c) \<noteq> None"
    then obtain x where "child_of N S (fe_iNode par) c x" using st(3) by fastforce
    from child_of_unique [OF assms(1) this par refl] assms(3) show False by simp
  qed
qed

lemma insert_node:
  assumes tr: "tree_ok N last_i" and h: "holds look N S p" and new: "cs @ [c] \<notin> S" and e: "N (cs @ [c]) = Some e" and par: "N cs = Some par"
  shows "\<exists>p'. (if at_Nlink (fe_attributes e) = dirLinkCount then insertDirEntry R p (fe_iNode par) e else insertFsEntry R p (fe_iNode par) e) = Inr p'
    \<and> holds look N (insert (cs @ [c]) S) p'"
proof -
  note tree = tree_okD [OF tr] and st = holds_stores [OF h] and fresh = fresh_keys [OF tr h new e par]
  have nok: "node_ok last_i (cs @ [c]) e" by (rule tree(2) [OF e])
  then have base: "path_Base (fe_fullPath e) = c" and pth: "fe_fullPath e = path_of (cs @ [c])"
    using path_Base_plain [of cs c] by (simp_all add: node_ok_def)
  have root: "fe_iNode e \<noteq> RootInodeID" using node_not_root [OF nok] by simp
  have dir: "at_Nlink (fe_attributes e) = dirLinkCount \<longleftrightarrow> FsEntry_isDir e" using nok by (simp add: node_ok_def)
  define ds where "ds = (if FsEntry_isDir e then fst (ir_Insert R (pp_dirStore p) (text_bytes (fe_fullPath e)) e) else pp_dirStore p)"
  define es where "es = fst (ir_Insert R (pp_fsEntryStore p) (formKey (fe_iNode e)) e)"
  define ls where "ls = fst (ir_Insert R (pp_lookupTree p) (formLookupKey (fe_iNode par) c) e)"
  define p' where "p' = add_child (fe_iNode par) (fe_iNode e) c (entry_type e) (p\<lparr>pp_dirStore := ds, pp_fsEntryStore := es, pp_lookupTree := ls\<rparr>)"
  have "(if at_Nlink (fe_attributes e) = dirLinkCount then insertDirEntry R p (fe_iNode par) e else insertFsEntry R p (fe_iNode par) e) = Inr p'"
  proof -
    have ins: "look t k = None \<Longrightarrow> ir_Insert R t k e = (fst (ir_Insert R t k e), None)" for t k
      by (metis insert_old prod.collapse)
    have new: "FsEntry_isDir e \<Longrightarrow> ir_Insert R (pp_dirStore p) (text_bytes (fe_fullPath e)) e = (ds, None)"
      "ir_Insert R (pp_fsEntryStore p) (formKey (fe_iNode e)) e = (es, None)"
      "ir_Insert R (pp_lookupTree p) (formLookupKey (fe_iNode par) c) e = (ls, None)"
      using ins fresh unfolding ds_def es_def ls_def by presburger+
    have "\<not> FsEntry_isDir e \<Longrightarrow> ds = pp_dirStore p" by (simp add: ds_def)
    then show ?thesis
      using new base root dir by (auto simp: insertDirEntry_def insertFsEntry_def Let_def p'_def entry_type_def)
  qed
  moreover have "holds look N (insert (cs @ [c]) S) p'"
    unfolding holds_def
  proof (intro conjI allI)
    fix k x i
    show "look (pp_dirStore p') k = Some x \<longleftrightarrow> (\<exists>q \<in> insert (cs @ [c]) S. N q = Some x \<and> FsEntry_isDir x \<and> k = text_bytes (path_of q))"
      using fresh(1) e st(1) [of k x] by (auto simp: p'_def ds_def pth)
    show "look (pp_fsEntryStore p') k = Some x \<longleftrightarrow> (\<exists>q \<in> insert (cs @ [c]) S. N q = Some x \<and> k = formKey (fe_iNode x))"
    proof -
      have "look (pp_fsEntryStore p') = (look (pp_fsEntryStore p))(formKey (fe_iNode e) \<mapsto> e)" by (simp add: p'_def es_def)
      moreover have "k = formKey (fe_iNode e) \<Longrightarrow> \<not> (\<exists>q \<in> S. N q = Some x \<and> k = formKey (fe_iNode x))"
        using fresh(2) st(2) [of k x] by simp
      ultimately show ?thesis using e st(2) [of k x] by (cases "k = formKey (fe_iNode e)") (simp, blast)+
    qed
    show "look (pp_lookupTree p') k = Some x \<longleftrightarrow> (\<exists>i b. child_of N (insert (cs @ [c]) S) i b x \<and> k = formLookupKey i b)"
      unfolding child_of_insert [OF e par] using fresh(3) st(3) [of k x] by (auto simp: p'_def ls_def)
    show "pp_readDirMap p' i \<noteq> Some []" using st(5) [of i] by (simp add: p'_def)
    show "lists_children N (insert (cs @ [c]) S) i (children (pp_readDirMap p') i)"
      using lists_children_add [OF tr st(4) new e par refl] lists_children_other [OF st(4) e par, of i]
      by (simp add: p'_def children_add_child Let_def)
  qed
  ultimately show ?thesis by blast
qed

end


lemma child_of_extend:
  assumes "tree_ok N last_i" and "N \<subseteq>\<^sub>m N'"
  shows "child_of N' (dom N) i c e \<longleftrightarrow> child_of N (dom N) i c e"
proof -
  have same: "N' cs = N cs" if "cs \<in> dom N" for cs using assms(2) that by (auto simp: map_le_def)
  have "cs \<in> dom N" if "cs @ [c] \<in> dom N" for cs using tree_okD(3) [OF assms(1), of cs c] that by auto
  with same show ?thesis unfolding child_of_def by (metis (no_types, lifting))
qed

lemma holds_extend:
  assumes "tree_ok N last_i" and "holds look N (dom N) p" and "N \<subseteq>\<^sub>m N'"
  shows "holds look N' (dom N) p"
proof -
  have same: "cs \<in> dom N \<Longrightarrow> N' cs = N cs" for cs using assms(3) by (auto simp: map_le_def)
  show ?thesis
    using assms(2) unfolding holds_def lists_children_def child_of_extend [OF assms(1,3)] by (simp add: same cong: bex_cong)
qed

lemma tree_ok_add:
  assumes "tree_ok N last_i" and "N cs = Some par" and "FsEntry_isDir par" and "N (cs @ [c]) = None" and "node_ok last_i (cs @ [c]) e"
    and "\<And>q x. N q = Some x \<Longrightarrow> fe_iNode x \<noteq> fe_iNode e"
  shows "tree_ok (N(cs @ [c] \<mapsto> e)) last_i"
proof -
  note tree = tree_okD [OF assms(1)]
  have kids: "\<exists>p. (N(cs @ [c] \<mapsto> e)) ds = Some p \<and> FsEntry_isDir p" if "(N(cs @ [c] \<mapsto> e)) (ds @ [d]) \<noteq> None" for ds d
  proof (cases "ds @ [d] = cs @ [c]")
    case True
    with assms(2,3) show ?thesis by auto
  next
    case False
    with that tree(3) [of ds d] obtain p where p: "N ds = Some p" "FsEntry_isDir p" by (metis fun_upd_other)
    moreover have "ds \<noteq> cs @ [c]" using p assms(4) by auto
    ultimately show ?thesis by auto
  qed
  show ?thesis
    unfolding tree_ok_def
  proof (intro conjI allI impI)
    fix ds es x y
    assume *: "(N(cs @ [c] \<mapsto> e)) ds = Some x" "(N(cs @ [c] \<mapsto> e)) es = Some y" "fe_iNode x = fe_iNode y"
    then show "ds = es" using assms(6) tree(4) by (metis fun_upd_apply option.inject)
  qed (use assms(5) tree(1,2) kids in \<open>auto split: if_splits\<close>)
qed

lemma node_ok_later: "node_ok i cs e \<Longrightarrow> unat i \<le> unat j \<Longrightarrow> node_ok j cs e"
  by (auto simp: node_ok_def split: if_splits)

lemma tree_ok_later: "tree_ok N i \<Longrightarrow> unat i \<le> unat j \<Longrightarrow> tree_ok N j"
  unfolding tree_ok_def using node_ok_later by blast

text \<open>The nodes that an entry adds: itself and the directories above it that are missing.\<close>

definition adds_chain :: "nodes \<Rightarrow> string list \<Rightarrow> FsEntry \<Rightarrow> (inode \<times> FsEntry) list \<Rightarrow> inode \<Rightarrow> nodes \<Rightarrow> string list list \<Rightarrow> bool" where
  "adds_chain N ds e ns last_i N' qs \<longleftrightarrow>
     tree_ok N' last_i \<and> N \<subseteq>\<^sub>m N' \<and> N' ds = Some e \<and> distinct qs \<and> set qs = dom N' - dom N
   \<and> ns = map (\<lambda>q. (fe_iNode (the (N' (butlast q))), the (N' q))) qs
   \<and> (\<forall>q \<in> set qs. q \<noteq> [] \<and> prefix q ds \<and> (q \<noteq> ds \<longrightarrow> FsEntry_isDir (the (N' q))) \<and> unat (fe_iNode e) \<le> unat (fe_iNode (the (N' q))))"

lemma adds_chainD:
  assumes "adds_chain N ds e ns last_i N' qs"
  shows "tree_ok N' last_i" "N \<subseteq>\<^sub>m N'" "N' ds = Some e" "distinct qs" "set qs = dom N' - dom N"
    "ns = map (\<lambda>q. (fe_iNode (the (N' (butlast q))), the (N' q))) qs"
    "q \<in> set qs \<Longrightarrow> q \<noteq> [] \<and> prefix q ds \<and> (q \<noteq> ds \<longrightarrow> FsEntry_isDir (the (N' q))) \<and> unat (fe_iNode e) \<le> unat (fe_iNode (the (N' q)))"
  using assms unfolding adds_chain_def by blast+

lemma adds_chain_up:
  assumes ch: "adds_chain N cs d ns last_i N1 qs" and new: "N1 (cs @ [c]) = None" and cs: "N cs = None"
    and tr: "tree_ok (N1(cs @ [c] \<mapsto> e)) last_i" and d: "FsEntry_isDir d" "unat (fe_iNode e) \<le> unat (fe_iNode d)"
  shows "adds_chain N (cs @ [c]) e ((fe_iNode d, e) # ns) last_i (N1(cs @ [c] \<mapsto> e)) ((cs @ [c]) # qs)"
proof -
  let ?N = "N1(cs @ [c] \<mapsto> e)"
  note chD = adds_chainD [OF ch]
  have old: "?N q = N1 q" "?N (butlast q) = N1 (butlast q)" if "q \<in> set qs" for q
  proof -
    have "length q \<le> length cs" using chD(7) [OF that] by (auto dest: prefix_length_le)
    then have "length q < length (cs @ [c])" "length (butlast q) < length (cs @ [c])" by simp_all
    then have "q \<noteq> cs @ [c]" "butlast q \<noteq> cs @ [c]" by (metis less_irrefl)+
    then show "?N q = N1 q" "?N (butlast q) = N1 (butlast q)" by simp_all
  qed
  have none: "N (cs @ [c]) = None" using chD(2) new by (metis domIff map_le_def)
  have sub: "N \<subseteq>\<^sub>m ?N"
    unfolding map_le_def
  proof
    fix a
    assume a: "a \<in> dom N"
    then have "a \<noteq> cs @ [c]" using none by (metis domIff)
    moreover have "N a = N1 a" using chD(2) a unfolding map_le_def by blast
    ultimately show "N a = ?N a" by simp
  qed
  have notin: "cs @ [c] \<notin> set qs" using chD(5) new by auto
  have dom: "set ((cs @ [c]) # qs) = dom ?N - dom N" using chD(5) none by auto
  have "map (\<lambda>q. (fe_iNode (the (?N (butlast q))), the (?N q))) qs = ns" using old unfolding chD(6) by simp
  then have nodes: "(fe_iNode d, e) # ns = map (\<lambda>q. (fe_iNode (the (?N (butlast q))), the (?N q))) ((cs @ [c]) # qs)"
    using chD(3) by simp
  have above: "q \<noteq> [] \<and> prefix q (cs @ [c]) \<and> FsEntry_isDir (the (?N q)) \<and> unat (fe_iNode e) \<le> unat (fe_iNode (the (?N q)))"
    if q: "q \<in> set qs" for q
  proof -
    have "FsEntry_isDir (the (N1 q))" using chD(3) chD(7) [OF q] d(1) by (cases "q = cs") simp_all
    then show ?thesis using chD(7) [OF q] old(1) [OF q] d(2) by (auto simp: prefix_append)
  qed
  show ?thesis
    unfolding adds_chain_def
  proof (intro conjI ballI)
    fix q
    assume "q \<in> set ((cs @ [c]) # qs)"
    then consider "q = cs @ [c]" | "q \<in> set qs" by auto
    then have "q \<noteq> [] \<and> prefix q (cs @ [c]) \<and> (q \<noteq> cs @ [c] \<longrightarrow> FsEntry_isDir (the (?N q))) \<and> unat (fe_iNode e) \<le> unat (fe_iNode (the (?N q)))"
    proof cases
      case 2
      from above [OF this] show ?thesis by blast
    qed simp
    then show "q \<noteq> []" "prefix q (cs @ [c])" "q \<noteq> cs @ [c] \<longrightarrow> FsEntry_isDir (the (?N q))" "unat (fe_iNode e) \<le> unat (fe_iNode (the (?N q)))" by blast+
  qed (fact tr sub dom nodes | use notin chD(4) in simp)+
qed

lemma newFsEntry_dir:
  assumes "list_all plain_comp cs" and "cs \<noteq> []" and "unat firstINode < unat i"
  shows "node_ok i cs (newFsEntry (newBundleEntry (path_of cs)) t i dirLinkCount)" "FsEntry_isDir (newFsEntry (newBundleEntry p) t i dirLinkCount)"
    "fe_iNode (newFsEntry b t i l) = i"
  using assms by (simp_all add: node_ok_def newFsEntry_def newBundleEntry_def FsEntry_isDir_def)

lemma one_more: "unat (i :: 64 word) + n < 2 ^ 64 \<Longrightarrow> 0 < n \<Longrightarrow> unat (i + 1) = unat i + 1"
  by (subst unat_word_ariths) (simp add: mod_less)

context entry_map
begin

lemma nodes_from_ok:
  assumes "tree_ok N j" and "holds look N (dom N) p"
  shows "\<lbrakk>ds \<noteq> []; N ds = None; node_ok i ds e; fe_iNode e = i; unat j < unat i; unat i + length ds \<le> 2 ^ 64;
      \<And>q x. strict_prefix q ds \<Longrightarrow> N q = Some x \<Longrightarrow> FsEntry_isDir x\<rbrakk> \<Longrightarrow>
    \<exists>ns last_i N' qs. nodes_from R (pp_dirStore p) t (path_of ds) e i = (ns, last_i)
      \<and> unat i \<le> unat last_i \<and> unat last_i < unat i + length ds \<and> adds_chain N ds e ns last_i N' qs"
proof (induction ds arbitrary: e i rule: rev_induct)
  case (snoc c cs)
  note tree = tree_okD [OF assms(1)] and st = holds_stores [OF assms(2)]
  have plain: "list_all plain_comp (cs @ [c])" using snoc.prems(3) by (rule node_ok_plain)
  have dirs: "path_Dir (path_of (cs @ [c])) = (if cs = [] then ''.'' else path_of cs)" by (rule path_Dir_plain [OF plain])
  have fresh: "fe_iNode x \<noteq> fe_iNode e" if "N q = Some x" for q x
    using tree(2) [OF that] snoc.prems(3-5) by (auto simp: node_ok_def RootInodeID_def firstINode_def split: if_splits)
  have here: "adds_chain N (cs @ [c]) e [(fe_iNode par, e)] i (N(cs @ [c] \<mapsto> e)) [cs @ [c]]" if par: "N cs = Some par" for par
  proof -
    have "FsEntry_isDir par" using snoc.prems(7) [OF _ par] by (simp add: strict_prefix_def)
    then have "tree_ok (N(cs @ [c] \<mapsto> e)) i"
      using tree_ok_later [OF assms(1)] snoc.prems(2,3,5) fresh by (intro tree_ok_add [of N i cs par c e]) (auto simp: par)
    with par snoc.prems(2) show ?thesis by (auto simp: adds_chain_def map_le_def)
  qed
  show ?case
  proof (cases "N cs")
    case (Some par)
    have isdir: "FsEntry_isDir par" using snoc.prems(7) [OF _ Some] by (simp add: strict_prefix_def)
    have "nodes_from R (pp_dirStore p) t (path_of (cs @ [c])) e i = ([(fe_iNode par, e)], i)"
    proof (cases "cs = []")
      case True
      with Some tree(2) have "fe_iNode par = RootInodeID" by (simp add: node_ok_def)
      with True show ?thesis unfolding nodes_from.simps [of R _ t "path_of (cs @ [c])"] dirs by simp
    next
      case False
      have "look (pp_dirStore p) (text_bytes (path_of cs)) = Some par" using st(1) Some isdir by blast
      with False path_of_not_top [of cs] plain show ?thesis
        unfolding nodes_from.simps [of R _ t "path_of (cs @ [c])"] dirs by simp
    qed
    with here [OF Some] show ?thesis
      by (intro exI conjI) (assumption | simp)+
  next
    case None
    then have cs: "cs \<noteq> []" using tree(1) by auto
    let ?d = "newFsEntry (newBundleEntry (path_of cs)) t (i + 1) dirLinkCount"
    have next_i: "unat (i + 1) = unat i + 1" using snoc.prems(6) cs by (intro one_more [of i "length cs"]) auto
    have big: "unat firstINode < unat (i + 1)" using snoc.prems(3,4) next_i by (simp add: node_ok_def)
    have plain_cs: "list_all plain_comp cs" using plain by simp
    note d = newFsEntry_dir [OF plain_cs cs big, where t = t]
    have "\<exists>ns last_i N' qs. nodes_from R (pp_dirStore p) t (path_of cs) ?d (i + 1) = (ns, last_i)
      \<and> unat (i + 1) \<le> unat last_i \<and> unat last_i < unat (i + 1) + length cs \<and> adds_chain N cs ?d ns last_i N' qs"
    proof (rule snoc.IH [OF cs None])
      show "FsEntry_isDir x" if "strict_prefix q cs" "N q = Some x" for q x
        using that by (intro snoc.prems(7) [OF _ that(2)]) (auto simp: strict_prefix_def dest: prefix_length_le)
    qed (use d plain next_i snoc.prems(5,6) in \<open>simp_all\<close>)
    then obtain ns last_i N1 qs where
      up: "nodes_from R (pp_dirStore p) t (path_of cs) ?d (i + 1) = (ns, last_i)" "unat (i + 1) \<le> unat last_i"
        "unat last_i < unat (i + 1) + length cs" "adds_chain N cs ?d ns last_i N1 qs" by blast
    have "look (pp_dirStore p) (text_bytes (path_of cs)) = None"
    proof (rule ccontr)
      assume "look (pp_dirStore p) (text_bytes (path_of cs)) \<noteq> None"
      then obtain x q where q: "N q = Some x" "path_of q = path_of cs" using st(1) by fastforce
      with path_of_inj [of q cs] tree(2) [OF q(1)] plain None show False by (auto simp: node_ok_def)
    qed
    with cs path_of_not_top [of cs] plain up(1)
    have run: "nodes_from R (pp_dirStore p) t (path_of (cs @ [c])) e i = ((fe_iNode ?d, e) # ns, last_i)"
      unfolding nodes_from.simps [of R _ t "path_of (cs @ [c])"] dirs by (simp add: Let_def)
    note ch = up(4) [unfolded adds_chain_def]
    have new: "N1 (cs @ [c]) = None"
    proof (rule ccontr)
      assume "N1 (cs @ [c]) \<noteq> None"
      then have "cs @ [c] \<in> set qs" using ch snoc.prems(2) by auto
      then have "prefix (cs @ [c]) cs" using ch by blast
      then show False by (auto dest: prefix_length_le)
    qed
    have "fe_iNode x \<noteq> fe_iNode e" if "N1 q = Some x" for q x
    proof (cases "q \<in> dom N")
      case True
      then have "N q = Some x" using ch that by (auto simp: map_le_def)
      then show ?thesis by (rule fresh)
    next
      case False
      then have "q \<in> set qs" using ch that by auto
      then have "unat (fe_iNode ?d) \<le> unat (fe_iNode (the (N1 q)))" using ch by blast
      then have "unat (i + 1) \<le> unat (fe_iNode x)" using that d(3) by simp
      then show ?thesis using next_i snoc.prems(4) by auto
    qed
    then have tr: "tree_ok (N1(cs @ [c] \<mapsto> e)) last_i"
      using ch new d(2) node_ok_later [OF snoc.prems(3)] next_i up(2) by (intro tree_ok_add [of N1 last_i cs ?d]) auto
    have "adds_chain N (cs @ [c]) e ((fe_iNode ?d, e) # ns) last_i (N1(cs @ [c] \<mapsto> e)) ((cs @ [c]) # qs)"
      using next_i snoc.prems(4) d(2,3) by (intro adds_chain_up [OF up(4) new None tr]) simp_all
    with run up(2,3) next_i show ?thesis by (intro exI conjI) (assumption | simp)+
  qed
qed simp

end


section \<open>Populating the mount\<close>

definition entry_path :: "BundleEntry \<Rightarrow> string list" where
  "entry_path e = comps (be_NameWithPath e)"

text \<open>Names that can be files of one tree: clean, apart, and none of them a directory above another.\<close>

definition good_names :: "BundleEntry list \<Rightarrow> bool" where
  "good_names es \<longleftrightarrow> (\<forall>e \<in> set es. list_all plain_comp (entry_path e) \<and> be_Hash e \<noteq> '''') \<and> distinct (map be_NameWithPath es)
     \<and> (\<forall>e \<in> set es. \<forall>e' \<in> set es. \<not> strict_prefix (entry_path e) (entry_path e'))"

text \<open>The abstract view of a bundle: its files, and the directories above them.\<close>

definition shows_entries :: "go_time \<Rightarrow> BundleEntry list \<Rightarrow> nodes \<Rightarrow> bool" where
  "shows_entries t es N \<longleftrightarrow>
     (\<forall>q. N q \<noteq> None \<longleftrightarrow> q = [] \<or> (\<exists>e \<in> set es. prefix q (entry_path e)))
   \<and> (\<forall>e \<in> set es. \<exists>i. N (entry_path e) = Some (newFsEntry e t i fileLinkCount))
   \<and> (\<forall>q x. N q = Some x \<longrightarrow> q \<notin> entry_path ` set es \<longrightarrow> FsEntry_isDir x)"

lemma shows_entriesD:
  assumes "shows_entries t es N"
  shows "N q \<noteq> None \<longleftrightarrow> q = [] \<or> (\<exists>e \<in> set es. prefix q (entry_path e))"
    "e \<in> set es \<Longrightarrow> \<exists>i. N (entry_path e) = Some (newFsEntry e t i fileLinkCount)"
    "N q = Some x \<Longrightarrow> q \<notin> entry_path ` set es \<Longrightarrow> FsEntry_isDir x"
  using assms unfolding shows_entries_def by blast+

lemma comps_nonempty [simp]: "comps s \<noteq> []"
  by (subst comps.simps) (simp split: list.split)

lemma entry_path_ne [simp]: "entry_path e \<noteq> []"
  by (simp add: entry_path_def)

lemma path_of_entry: "path_of (entry_path e) = be_NameWithPath e"
  by (simp add: path_of_def entry_path_def join_comps)

lemma entry_path_inj: "entry_path e = entry_path e' \<Longrightarrow> be_NameWithPath e = be_NameWithPath e'"
  by (metis path_of_entry)

lemma good_names_snoc:
  assumes "good_names (ds @ e # es)"
  shows "list_all plain_comp (entry_path e)" "be_Hash e \<noteq> ''''" "e' \<in> set ds \<Longrightarrow> \<not> prefix (entry_path e) (entry_path e')"
    "e' \<in> set ds \<Longrightarrow> \<not> strict_prefix (entry_path e') (entry_path e)"
proof -
  show "list_all plain_comp (entry_path e)" "be_Hash e \<noteq> ''''" using assms unfolding good_names_def by simp_all
  show "\<not> strict_prefix (entry_path e') (entry_path e)" if "e' \<in> set ds" using assms that unfolding good_names_def by simp
  show "\<not> prefix (entry_path e) (entry_path e')" if e': "e' \<in> set ds"
  proof
    assume "prefix (entry_path e) (entry_path e')"
    then have "entry_path e = entry_path e' \<or> strict_prefix (entry_path e) (entry_path e')" by (auto simp: strict_prefix_def)
    moreover have "be_NameWithPath e \<noteq> be_NameWithPath e'" using assms e' unfolding good_names_def by (auto simp: image_iff)
    moreover have "\<not> strict_prefix (entry_path e) (entry_path e')" using assms e' unfolding good_names_def by simp
    ultimately show False using entry_path_inj by blast
  qed
qed

lemma shows_entries_add:
  assumes sh: "shows_entries t ds N" and good: "good_names (ds @ e # es)"
    and ch: "adds_chain N (entry_path e) (newFsEntry e t i fileLinkCount) ns last_i N' qs"
  shows "shows_entries t (ds @ [e]) N'"
proof -
  note old = shows_entriesD [OF sh] and chD = adds_chainD [OF ch] and g = good_names_snoc [OF good]
  have same: "N' q = N q" if "q \<in> dom N" for q using chD(2) that unfolding map_le_def by simp
  have dom: "q \<in> dom N' \<longleftrightarrow> q \<in> dom N \<or> q \<in> set qs" for q
    using chD(2,5) map_le_implies_dom_le [OF chD(2)] by auto
  have up: "q \<in> dom N'" if pre: "prefix q (entry_path e)" for q
  proof -
    have "N' (q @ r) \<noteq> None \<Longrightarrow> N' q \<noteq> None" for r
    proof (induction r rule: rev_induct)
      case (snoc x r)
      then show ?case using tree_okD(3) [OF chD(1), of "q @ r" x] by auto
    qed simp
    moreover obtain r where "entry_path e = q @ r" using pre by (auto simp: prefix_def)
    moreover from this have "N' (q @ r) \<noteq> None" using chD(3) by simp
    ultimately show ?thesis by blast
  qed
  show ?thesis
    unfolding shows_entries_def
  proof (intro conjI allI ballI impI)
    fix q
    have "q \<in> set qs \<Longrightarrow> prefix q (entry_path e)" using chD(7) by blast
    then show "N' q \<noteq> None \<longleftrightarrow> q = [] \<or> (\<exists>x \<in> set (ds @ [e]). prefix q (entry_path x))"
      using dom [of q] old(1) [of q] up [of q] by (auto simp: domIff)
  next
    fix x
    assume x: "x \<in> set (ds @ [e])"
    show "\<exists>i. N' (entry_path x) = Some (newFsEntry x t i fileLinkCount)"
    proof (cases "x \<in> set ds")
      case True
      from old(2) [OF this] same [of "entry_path x"] show ?thesis by (metis domI)
    next
      case False
      with x have "x = e" by simp
      with chD(3) show ?thesis by blast
    qed
  next
    fix q x
    assume q: "N' q = Some x" "q \<notin> entry_path ` set (ds @ [e])"
    then consider "q \<in> dom N" | "q \<in> set qs" using dom [of q] by auto
    then show "FsEntry_isDir x"
    proof cases
      case 1
      then show ?thesis using old(3) [of q x] q same [of q] by auto
    next
      case 2
      then show ?thesis using chD(7) [OF 2] q by auto
    qed
  qed
qed

context entry_map
begin

lemma add_nodes_ok:
  assumes "tree_ok N last_i"
  shows "holds look N S p \<Longrightarrow> distinct qs \<Longrightarrow> (\<And>q. q \<in> set qs \<Longrightarrow> q \<noteq> [] \<and> q \<notin> S \<and> q \<in> dom N) \<Longrightarrow>
    \<exists>p'. populateFSAddNodes R p (map (\<lambda>q. (fe_iNode (the (N (butlast q))), the (N q))) qs) = Inr p' \<and> holds look N (S \<union> set qs) p'"
proof (induction qs arbitrary: p S)
  case (Cons q qs)
  have q: "q \<noteq> [] \<and> q \<notin> S \<and> q \<in> dom N" by (rule Cons.prems(3)) simp
  then obtain cs c e where qc: "q = cs @ [c]" "N (cs @ [c]) = Some e" by (metis append_butlast_last_id domD)
  with tree_okD(3) [OF assms, of cs c] obtain par where par: "N cs = Some par" by auto
  from insert_node [OF assms Cons.prems(1) _ qc(2) par] q qc(1) obtain p1 where
    p1: "(if at_Nlink (fe_attributes e) = dirLinkCount then insertDirEntry R p (fe_iNode par) e else insertFsEntry R p (fe_iNode par) e) = Inr p1"
      "holds look N (insert q S) p1" by auto
  have "\<exists>p'. populateFSAddNodes R p1 (map (\<lambda>q. (fe_iNode (the (N (butlast q))), the (N q))) qs) = Inr p' \<and> holds look N (insert q S \<union> set qs) p'"
    using Cons.prems(2,3) by (intro Cons.IH [OF p1(2)]) auto
  with p1(1) qc par show ?case by auto
qed simp

lemma populate_entries_ok:
  assumes "unat firstINode \<le> unat i0"
  shows "\<lbrakk>tree_ok N i; unat i0 \<le> unat i; holds look N (dom N) p; shows_entries t ds N; good_names (ds @ es);
      unat i + sum_list (map (length \<circ> entry_path) es) < 2 ^ 64\<rbrakk> \<Longrightarrow>
    \<exists>p' N' j. populateFSAddBundleEntries R t i p es = Inr p' \<and> tree_ok N' j \<and> holds look N' (dom N') p' \<and> shows_entries t (ds @ es) N'"
proof (induction es arbitrary: i p N ds)
  case (Cons e es)
  let ?p = "entry_path e" and ?e = "newFsEntry e t (i + 1) fileLinkCount"
  note old = shows_entriesD [OF Cons.prems(4)] and g = good_names_snoc [OF Cons.prems(5)]
  have next_i: "unat (i + 1) = unat i + 1" using Cons.prems(6) by (intro one_more [of i "length ?p"]) auto
  have "\<exists>ns last_i N' qs. nodes_from R (pp_dirStore p) t (path_of ?p) ?e (i + 1) = (ns, last_i)
      \<and> unat (i + 1) \<le> unat last_i \<and> unat last_i < unat (i + 1) + length ?p \<and> adds_chain N ?p ?e ns last_i N' qs"
  proof (rule nodes_from_ok [OF Cons.prems(1,3)])
    show "N ?p = None" using old(1) [of ?p] g(3) by auto
    show "node_ok (i + 1) ?p ?e"
      using g(1,2) next_i assms Cons.prems(2) path_of_entry [of e]
      by (simp add: node_ok_def newFsEntry_def FsEntry_isDir_def fileLinkCount_def dirLinkCount_def)
    show "FsEntry_isDir x" if "strict_prefix q ?p" "N q = Some x" for q x
      using that g(4) old(3) [OF that(2)] by auto
  qed (use Cons.prems(6) next_i in \<open>simp_all add: newFsEntry_def\<close>)
  then obtain ns j N1 qs where
    chain: "nodes_from R (pp_dirStore p) t (path_of ?p) ?e (i + 1) = (ns, j)" "unat (i + 1) \<le> unat j"
      "unat j < unat (i + 1) + length ?p" "adds_chain N ?p ?e ns j N1 qs" by blast
  note chD = adds_chainD [OF chain(4)]
  have "holds look N1 (dom N) p" by (rule holds_extend [OF Cons.prems(1,3) chD(2)])
  moreover have "q \<noteq> [] \<and> q \<notin> dom N \<and> q \<in> dom N1" if "q \<in> set qs" for q using chD(5) chD(7) [OF that] that by auto
  ultimately obtain p1 where p1: "populateFSAddNodes R p ns = Inr p1" "holds look N1 (dom N \<union> set qs) p1"
    using add_nodes_ok [OF chD(1) _ chD(4), of "dom N" p] unfolding chD(6) by blast
  moreover have "dom N \<union> set qs = dom N1" using chD(5) map_le_implies_dom_le [OF chD(2)] by auto
  ultimately have "holds look N1 (dom N1) p1" by simp
  moreover have "shows_entries t (ds @ [e]) N1" by (rule shows_entries_add [OF Cons.prems(4,5) chain(4)])
  ultimately obtain p' N' j' where
    "populateFSAddBundleEntries R t j p1 es = Inr p'" "tree_ok N' j'" "holds look N' (dom N') p'" "shows_entries t ((ds @ [e]) @ es) N'"
    using Cons.IH [OF chD(1), of p1 "ds @ [e]"] Cons.prems(2,5,6) chain(2,3) next_i by auto
  with chain(1) p1(1) show ?case by (auto simp: WithNodesFromEntry_def path_of_entry)
qed auto

end


section \<open>What the mount shows\<close>

lemma tree_up: "tree_ok N j \<Longrightarrow> N (q @ r) \<noteq> None \<Longrightarrow> N q \<noteq> None"
proof (induction r rule: rev_induct)
  case (snoc x r)
  then show ?case using tree_okD(3) [OF snoc.prems(1), of "q @ r" x] by auto
qed simp

definition mount_of :: "Bundle \<Rightarrow> bool \<Rightarrow> defaultFs option \<Rightarrow> 't populate \<Rightarrow> 't readOnlyFs" where
  "mount_of b streamed cf p = \<lparr>ro_bundle = b, ro_lookupTree = pp_lookupTree p, ro_fsEntryStore = pp_fsEntryStore p,
     ro_readDirMap = pp_readDirMap p, ro_isReadOnly = True, ro_streamed = streamed, ro_cafs = cf\<rparr>"

abbreviation room_for_nodes :: "BundleEntry list \<Rightarrow> bool" where
  "room_for_nodes es \<equiv> 1023 + sum_list (map (length \<circ> entry_path) es) < 2 ^ 64"

context entry_map
begin

lemma populateFS_ok:
  assumes "good_names (bn_Entries b)" and "room_for_nodes (bn_Entries b)"
  shows "\<exists>p N j. populateFS R streamed cf b = Inr (mount_of b streamed cf p) \<and> tree_ok N j \<and> holds look N (dom N) p
    \<and> shows_entries (bd_Timestamp (bn_Descriptor b)) (bn_Entries b) N"
proof -
  let ?t = "bd_Timestamp (bn_Descriptor b)"
  let ?r = "newFsEntry (newBundleEntry rootPath) ?t RootInodeID dirLinkCount"
  let ?N = "[[] \<mapsto> ?r]"
  have r: "fe_iNode ?r = RootInodeID" "fe_fullPath ?r = path_of []" "FsEntry_isDir ?r" "at_Nlink (fe_attributes ?r) = dirLinkCount"
    by (simp_all add: newFsEntry_def newBundleEntry_def path_of_def FsEntry_isDir_def)
  have tree: "tree_ok ?N firstINode" using r by (auto simp: tree_ok_def node_ok_def)
  have "\<exists>p. insertDirEntry R (no_nodes R) RootInodeID ?r = Inr p \<and> holds look ?N (dom ?N) p"
  proof -
    obtain ds where ds: "ir_Insert R (ir_New R) (text_bytes (path_of [])) ?r = (ds, None)" "look ds = [text_bytes (path_of []) \<mapsto> ?r]"
      using insert_new [of "ir_New R" "text_bytes (path_of [])" ?r] by auto
    obtain es where es: "ir_Insert R (ir_New R) (formKey RootInodeID) ?r = (es, None)" "look es = [formKey RootInodeID \<mapsto> ?r]"
      using insert_new [of "ir_New R" "formKey RootInodeID" ?r] by auto
    let ?p = "(no_nodes R)\<lparr>pp_dirStore := ds, pp_fsEntryStore := es\<rparr>"
    have "insertDirEntry R (no_nodes R) RootInodeID ?r = Inr ?p"
      using ds(1) es(1) by (simp add: insertDirEntry_def Let_def r(1,2) no_nodes_def)
    moreover have "holds look ?N (dom ?N) ?p"
      using r ds(2) es(2) by (auto simp: holds_def no_nodes_def lists_children_def children_def child_of_def)
    ultimately show ?thesis by blast
  qed
  then obtain p where p: "insertDirEntry R (no_nodes R) RootInodeID ?r = Inr p" "holds look ?N (dom ?N) p" by blast
  have "shows_entries ?t [] ?N" using r(3) by (auto simp: shows_entries_def split: if_splits)
  moreover have "unat firstINode = 1023" by (simp add: firstINode_def)
  ultimately obtain p' N j where
    "populateFSAddBundleEntries R ?t firstINode p (bn_Entries b) = Inr p'" "tree_ok N j" "holds look N (dom N) p'"
      "shows_entries ?t (bn_Entries b) N"
    using populate_entries_ok [OF order_refl tree order_refl p(2), of ?t "[]" "bn_Entries b"] assms by auto
  with p(1) show ?thesis unfolding populateFS_def mount_of_def Let_def by auto
qed

lemma mount_lookup:
  assumes "tree_ok N j" and "holds look N (dom N) p" and "N cs = Some par"
  shows "ro_LookUpInode R (mount_of b streamed cf p) (fe_iNode par) c =
    (case N (cs @ [c]) of None \<Rightarrow> Inl ENOENT | Some e \<Rightarrow> Inr (fe_iNode e, fe_attributes e))"
proof -
  note st = holds_stores(3) [OF assms(2)]
  have kid: "child_of N (dom N) (fe_iNode par) c e \<longleftrightarrow> N (cs @ [c]) = Some e" for e
    using child_of_unique [OF assms(1) _ assms(3) refl, of "dom N" c e] assms(3) by (auto simp: child_of_def)
  have "look (pp_lookupTree p) (formLookupKey (fe_iNode par) c) = N (cs @ [c])"
    using st [of "formLookupKey (fe_iNode par) c"] kid by (cases "N (cs @ [c])"; cases "look (pp_lookupTree p) (formLookupKey (fe_iNode par) c)") auto
  then show ?thesis by (simp add: ro_LookUpInode_def mount_of_def split: option.splits)
qed

lemma mount_walk:
  assumes "tree_ok N j" and "holds look N (dom N) p"
  shows "N cs = Some x \<Longrightarrow> ro_walk R (mount_of b streamed cf p) (fe_iNode x) ds =
    (case N (cs @ ds) of None \<Rightarrow> Inl ENOENT | Some e \<Rightarrow> Inr (fe_iNode e))"
proof (induction ds arbitrary: cs x)
  case (Cons c ds)
  show ?case
  proof (cases "N (cs @ [c])")
    case None
    then have "N (cs @ c # ds) = None" using tree_up [OF assms(1), of "cs @ [c]" ds] by fastforce
    with None show ?thesis using mount_lookup [OF assms Cons.prems, of b streamed cf c] by simp
  next
    case (Some e)
    with Cons.IH [OF Some] show ?thesis using mount_lookup [OF assms Cons.prems, of b streamed cf c] by simp
  qed
qed simp

lemma mount_entry:
  assumes "tree_ok N j" and "holds look N (dom N) p" and "N cs = Some e"
  shows "ir_Get R (ro_fsEntryStore (mount_of b streamed cf p)) (formKey (fe_iNode e)) = Some e"
  using holds_stores(2) [OF assms(2)] assms(3) by (auto simp: mount_of_def)

lemma mount_children:
  assumes "tree_ok N j" and "holds look N (dom N) p" and "N cs = Some par" and "ds = children (ro_readDirMap (mount_of b streamed cf p)) (fe_iNode par)"
  shows "distinct (map dt_Name ds)" and "\<And>k. k < length ds \<Longrightarrow> dt_Offset (ds ! k) = of_nat (k + 1)"
    and "\<And>c i ty. (\<exists>d \<in> set ds. dt_Name d = c \<and> dt_Inode d = i \<and> dt_Type d = ty) \<longleftrightarrow> (\<exists>e. N (cs @ [c]) = Some e \<and> fe_iNode e = i \<and> entry_type e = ty)"
proof -
  have kid: "child_of N (dom N) (fe_iNode par) c e \<longleftrightarrow> N (cs @ [c]) = Some e" for e c
    using child_of_unique [OF assms(1) _ assms(3) refl, of "dom N" c e] assms(3) by (auto simp: child_of_def)
  have "lists_children N (dom N) (fe_iNode par) ds" using holds_stores(4) [OF assms(2)] by (simp add: assms(4) mount_of_def)
  then show "distinct (map dt_Name ds)" "\<And>k. k < length ds \<Longrightarrow> dt_Offset (ds ! k) = of_nat (k + 1)"
    "\<And>c i ty. (\<exists>d \<in> set ds. dt_Name d = c \<and> dt_Inode d = i \<and> dt_Type d = ty) \<longleftrightarrow> (\<exists>e. N (cs @ [c]) = Some e \<and> fe_iNode e = i \<and> entry_type e = ty)"
    unfolding lists_children_def kid by blast+
qed

end


text \<open>The attributes of a file of the bundle.\<close>

definition file_attributes :: "go_time \<Rightarrow> BundleEntry \<Rightarrow> InodeAttributes" where
  "file_attributes t e = \<lparr>at_Size = be_Size e, at_Nlink = fileLinkCount, at_Mode = fileReadOnlyMode,
     at_Atime = t, at_Mtime = t, at_Ctime = t, at_Crtime = t, at_Uid = 1020, at_Gid = 2000\<rparr>"

lemma shown_isDir:
  assumes "shows_entries t es N" and "good_names es" and "N q = Some x"
  shows "FsEntry_isDir x \<longleftrightarrow> q \<notin> entry_path ` set es"
proof
  assume dir: "FsEntry_isDir x"
  show "q \<notin> entry_path ` set es"
  proof
    assume "q \<in> entry_path ` set es"
    then obtain e i where "e \<in> set es" "x = newFsEntry e t i fileLinkCount" using shows_entriesD(2) [OF assms(1)] assms(3) by fastforce
    with dir assms(2) show False by (simp add: FsEntry_isDir_def newFsEntry_def good_names_def)
  qed
qed (rule shows_entriesD(3) [OF assms(1,3)])

context entry_map
begin

lemma mount_root_walk:
  assumes "tree_ok N j" and "holds look N (dom N) p"
  shows "ro_walk R (mount_of b streamed cf p) RootInodeID q = (case N q of None \<Rightarrow> Inl ENOENT | Some e \<Rightarrow> Inr (fe_iNode e))"
proof -
  obtain r where r: "N [] = Some r" "fe_iNode r = RootInodeID" using tree_okD(1,2) [OF assms(1)] by (force simp: node_ok_def)
  show ?thesis using mount_walk [OF assms r(1), of b streamed cf q] r(2) by simp
qed

lemma mount_get:
  assumes "tree_ok N j" and "holds look N (dom N) p" and "N q = Some e"
  shows "ro_GetInodeAttributes R (mount_of b streamed cf p) (fe_iNode e) = Inr (fe_attributes e)"
    "ro_OpenDir R (mount_of b streamed cf p) (fe_iNode e) = (if FsEntry_isDir e then None else Some ENOENT)"
  using mount_entry [OF assms, of b streamed cf] by (simp_all add: ro_GetInodeAttributes_def ro_OpenDir_def)

lemma mount_file:
  assumes tree: "tree_ok N j" and h: "holds look N (dom N) p" and sh: "shows_entries t es N" and good: "good_names es" and e: "e \<in> set es"
  shows "\<exists>i. ro_walk R (mount_of b streamed cf p) RootInodeID (entry_path e) = Inr i
    \<and> ro_GetInodeAttributes R (mount_of b streamed cf p) i = Inr (file_attributes t e)
    \<and> ro_OpenDir R (mount_of b streamed cf p) i = Some ENOENT"
proof -
  from shows_entriesD(2) [OF sh e] obtain i where i: "N (entry_path e) = Some (newFsEntry e t i fileLinkCount)" by blast
  have "be_Hash e \<noteq> ''''" using good e by (simp add: good_names_def)
  with i mount_get [OF tree h i, of b streamed cf] mount_root_walk [OF tree h, of b streamed cf "entry_path e"] show ?thesis
    by (simp add: newFsEntry_def file_attributes_def FsEntry_isDir_def)
qed

lemma mount_dir:
  assumes tree: "tree_ok N j" and h: "holds look N (dom N) p" and sh: "shows_entries t es N" and good: "good_names es"
    and q: "q = [] \<or> (\<exists>e \<in> set es. strict_prefix q (entry_path e))" and F: "F = mount_of b streamed cf p"
  shows "\<exists>i ds. ro_walk R F RootInodeID q = Inr i \<and> ro_OpenDir R F i = None \<and> ds = children (ro_readDirMap F) i \<and> distinct (map dt_Name ds)
    \<and> set (map dt_Name ds) = {c. \<exists>e \<in> set es. prefix (q @ [c]) (entry_path e)}
    \<and> (\<forall>d \<in> set ds. ro_walk R F RootInodeID (q @ [dt_Name d]) = Inr (dt_Inode d)
         \<and> dt_Type d = (if q @ [dt_Name d] \<in> entry_path ` set es then DT_File else DT_Directory))"
proof -
  note sD = shows_entriesD [OF sh] and walk = mount_root_walk [OF tree h, of b streamed cf, folded F]
  from q sD(1) [of q] obtain x where x: "N q = Some x" by (auto simp: strict_prefix_def)
  have "q \<notin> entry_path ` set es" using q good by (auto simp: good_names_def)
  with shown_isDir [OF sh good x] mount_get(2) [OF tree h x, of b streamed cf] have open_dir: "ro_OpenDir R F (fe_iNode x) = None"
    by (simp add: F)
  define ds where "ds = children (ro_readDirMap F) (fe_iNode x)"
  note kids = mount_children [OF tree h x ds_def [unfolded F]]
  have "c \<in> set (map dt_Name ds) \<longleftrightarrow> N (q @ [c]) \<noteq> None" for c
  proof -
    have "c \<in> set (map dt_Name ds) \<longleftrightarrow> (\<exists>i ty. \<exists>d \<in> set ds. dt_Name d = c \<and> dt_Inode d = i \<and> dt_Type d = ty)" by auto
    also have "\<dots> \<longleftrightarrow> N (q @ [c]) \<noteq> None" unfolding kids(3) by auto
    finally show ?thesis .
  qed
  then have "set (map dt_Name ds) = {c. N (q @ [c]) \<noteq> None}" by blast
  then have names: "set (map dt_Name ds) = {c. \<exists>e \<in> set es. prefix (q @ [c]) (entry_path e)}" using sD(1) by simp
  have "ro_walk R F RootInodeID (q @ [dt_Name d]) = Inr (dt_Inode d)
      \<and> dt_Type d = (if q @ [dt_Name d] \<in> entry_path ` set es then DT_File else DT_Directory)" if "d \<in> set ds" for d
  proof -
    from kids(3) [of "dt_Name d" "dt_Inode d" "dt_Type d"] that obtain y where
      y: "N (q @ [dt_Name d]) = Some y" "fe_iNode y = dt_Inode d" "entry_type y = dt_Type d" by blast
    with walk [of "q @ [dt_Name d]"] shown_isDir [OF sh good y(1)] show ?thesis by (auto simp: entry_type_def)
  qed
  with walk [of q] x open_dir kids(1) names ds_def show ?thesis by (intro exI [of _ "fe_iNode x"] exI [of _ ds]) auto
qed

end

text \<open>A radix tree for the examples: a map.\<close>

definition map_radix :: "(bytes \<Rightarrow> 'v option, 'v) iradix" where
  "map_radix = \<lparr>ir_New = Map.empty, ir_Get = (\<lambda>t. t), ir_Insert = (\<lambda>t k v. (t(k \<mapsto> v), t k)), ir_Delete = (\<lambda>t k. (t(k := None), t k))\<rparr>"

interpretation map_radix: byte_map map_radix "\<lambda>t. t"
  by unfold_locales (simp_all add: map_radix_def)

interpretation map_entries: entry_map map_radix "\<lambda>t. t"
  by unfold_locales

text \<open>
  C15: a read-only mount refines the tree of the names of its bundle. Populating succeeds when the names are clean and
  none of them is a directory above another. Then a path resolves to a file with the size of its entry and
  the time of the bundle exactly when the bundle has it, to a directory exactly when it is above a file, and
  to nothing otherwise; the list of a directory has each name below it once, with the number and type that
  the name resolves to; and no two paths share a number.
\<close>

theorem Mount_exact:
  assumes "byte_map R look" and good: "good_names (bn_Entries b)" and room: "room_for_nodes (bn_Entries b)"
    and t: "t = bd_Timestamp (bn_Descriptor b)" and es: "es = bn_Entries b"
  shows "\<exists>F. populateFS R streamed cf b = Inr F
    \<and> (\<forall>e \<in> set es. \<exists>i. ro_walk R F RootInodeID (entry_path e) = Inr i \<and> ro_GetInodeAttributes R F i = Inr (file_attributes t e)
         \<and> ro_OpenDir R F i = Some ENOENT)
    \<and> (\<forall>q. q = [] \<or> (\<exists>e \<in> set es. strict_prefix q (entry_path e)) \<longrightarrow>
         (\<exists>i ds. ro_walk R F RootInodeID q = Inr i \<and> ro_OpenDir R F i = None \<and> ds = children (ro_readDirMap F) i \<and> distinct (map dt_Name ds)
           \<and> set (map dt_Name ds) = {c. \<exists>e \<in> set es. prefix (q @ [c]) (entry_path e)}
           \<and> (\<forall>d \<in> set ds. ro_walk R F RootInodeID (q @ [dt_Name d]) = Inr (dt_Inode d)
                \<and> dt_Type d = (if q @ [dt_Name d] \<in> entry_path ` set es then DT_File else DT_Directory))))
    \<and> (\<forall>q. q \<noteq> [] \<longrightarrow> \<not> (\<exists>e \<in> set es. prefix q (entry_path e)) \<longrightarrow> ro_walk R F RootInodeID q = Inl ENOENT)
    \<and> (\<forall>q q' i. ro_walk R F RootInodeID q = Inr i \<longrightarrow> ro_walk R F RootInodeID q' = Inr i \<longrightarrow> q = q')"
proof -
  have em: "entry_map R look" using assms(1) by (simp add: entry_map_def)
  from entry_map.populateFS_ok [OF em good room, of streamed cf] obtain p N j where
    pop: "populateFS R streamed cf b = Inr (mount_of b streamed cf p)" and tree: "tree_ok N j" and h: "holds look N (dom N) p"
    and sh: "shows_entries t es N" unfolding t es by blast
  let ?F = "mount_of b streamed cf p"
  note sD = shows_entriesD [OF sh] and walk = entry_map.mount_root_walk [OF em tree h, of b streamed cf]
  show ?thesis
  proof (intro exI [of _ ?F] conjI ballI allI impI)
    show "populateFS R streamed cf b = Inr ?F" by (rule pop)
  next
    fix e
    assume "e \<in> set es"
    then show "\<exists>i. ro_walk R ?F RootInodeID (entry_path e) = Inr i \<and> ro_GetInodeAttributes R ?F i = Inr (file_attributes t e)
         \<and> ro_OpenDir R ?F i = Some ENOENT" by (rule entry_map.mount_file [OF em tree h sh good [folded es]])
  next
    fix q
    assume "q = [] \<or> (\<exists>e \<in> set es. strict_prefix q (entry_path e))"
    then show "\<exists>i ds. ro_walk R ?F RootInodeID q = Inr i \<and> ro_OpenDir R ?F i = None \<and> ds = children (ro_readDirMap ?F) i \<and> distinct (map dt_Name ds)
           \<and> set (map dt_Name ds) = {c. \<exists>e \<in> set es. prefix (q @ [c]) (entry_path e)}
           \<and> (\<forall>d \<in> set ds. ro_walk R ?F RootInodeID (q @ [dt_Name d]) = Inr (dt_Inode d)
                \<and> dt_Type d = (if q @ [dt_Name d] \<in> entry_path ` set es then DT_File else DT_Directory))"
      by (rule entry_map.mount_dir [OF em tree h sh good [folded es] _ refl])
  next
    fix q
    assume "q \<noteq> []" "\<not> (\<exists>e \<in> set es. prefix q (entry_path e))"
    then show "ro_walk R ?F RootInodeID q = Inl ENOENT" using walk [of q] sD(1) [of q] by simp
  next
    fix q q' i
    assume "ro_walk R ?F RootInodeID q = Inr i" "ro_walk R ?F RootInodeID q' = Inr i"
    then show "q = q'" using walk tree_okD(4) [OF tree] by (auto split: option.splits)
  qed
qed


text \<open>A bundle of three files in two directories.\<close>

definition small_tree :: Bundle where
  "small_tree = \<lparr>bn_RepoID = ''r'', bn_BundleID = ''b'', bn_Descriptor = some_bundle,
     bn_Entries = map (\<lambda>n. \<lparr>be_Hash = ''h'', be_NameWithPath = n, be_FileMode = 0, be_Size = 3, be_Timestamp = 0\<rparr>) [''a/f'', ''a/g'', ''k''],
     bn_SkipOnError = False\<rparr>"

lemma small_comps: "comps ''a/f'' = [''a'', ''f'']" "comps ''a/g'' = [''a'', ''g'']" "comps ''k'' = [''k'']"
  by (simp_all add: comps.simps)

lemma small_good: "good_names (bn_Entries small_tree)" "room_for_nodes (bn_Entries small_tree)"
  by (simp_all add: small_tree_def good_names_def entry_path_def small_comps plain_comp_def strict_prefix_def)

theorem Mount_exact_witness:
  "\<exists>F. populateFS map_radix True None small_tree = Inr F \<and> ro_walk map_radix F RootInodeID [''b''] = Inl ENOENT
    \<and> (\<exists>i ds. ro_walk map_radix F RootInodeID [''a''] = Inr i \<and> ds = children (ro_readDirMap F) i \<and> set (map dt_Name ds) = {''f'', ''g''})
    \<and> (\<exists>i a. ro_walk map_radix F RootInodeID [''a'', ''g''] = Inr i \<and> ro_GetInodeAttributes map_radix F i = Inr a \<and> at_Size a = 3)"
proof -
  let ?es = "bn_Entries small_tree"
  have paths: "entry_path ` set ?es = {[''a'', ''f''], [''a'', ''g''], [''k'']}"
    by (simp add: small_tree_def entry_path_def small_comps)
  have any: "(\<exists>e \<in> set ?es. Q (entry_path e)) \<longleftrightarrow> Q [''a'', ''f''] \<or> Q [''a'', ''g''] \<or> Q [''k'']" for Q
    by (simp add: small_tree_def entry_path_def small_comps)
  show ?thesis
    using Mount_exact [OF map_radix.byte_map_axioms small_good refl refl, of True None]
  proof (elim exE conjE, goal_cases)
    case (1 F)
    note files = 1(2) and dirs = 1(3) and none = 1(4)
    have nb: "ro_walk map_radix F RootInodeID [''b''] = Inl ENOENT" using none [rule_format, of "[''b'']"] unfolding any by simp
    have na: "\<exists>i ds. ro_walk map_radix F RootInodeID [''a''] = Inr i \<and> ds = children (ro_readDirMap F) i \<and> set (map dt_Name ds) = {''f'', ''g''}"
    proof -
      from dirs [rule_format, of "[''a'']"] obtain i where
        "ro_walk map_radix F RootInodeID [''a''] = Inr i" "set (map dt_Name (children (ro_readDirMap F) i)) = {c. \<exists>e \<in> set ?es. prefix ([''a''] @ [c]) (entry_path e)}"
        unfolding any by (auto simp: strict_prefix_def)
      then show ?thesis unfolding any by auto
    qed
    let ?e = "\<lparr>be_Hash = ''h'', be_NameWithPath = ''a/g'', be_FileMode = 0, be_Size = 3, be_Timestamp = 0\<rparr>"
    have "?e \<in> set ?es" "entry_path ?e = [''a'', ''g'']" by (simp_all add: small_tree_def entry_path_def small_comps)
    with files [rule_format, of ?e] have ng: "\<exists>i a. ro_walk map_radix F RootInodeID [''a'', ''g''] = Inr i \<and> ro_GetInodeAttributes map_radix F i = Inr a \<and> at_Size a = 3"
      by (auto simp: file_attributes_def)
    show ?thesis by (rule exI [of _ F]) (intro conjI 1(1) nb na ng)
  qed
qed

section \<open>Reading directories\<close>

text \<open>
  A directory is read by calls that each start at the offset of the last entry received, until one brings
  nothing.
\<close>

partial_function (option) list_dir :: "(nat \<Rightarrow> Dirent \<Rightarrow> nat) \<Rightarrow> 't readOnlyFs \<Rightarrow> inode \<Rightarrow> nat \<Rightarrow> 64 word \<Rightarrow> Dirent list option" where
  "list_dir wd fs i room off =
     (case ro_ReadDir wd fs i off room of
        Inr (Inr (ds, n)) \<Rightarrow> if ds = [] then Some []
          else Option.bind (list_dir wd fs i room (dt_Offset (last ds))) (\<lambda>more. Some (ds @ more))
      | _ \<Rightarrow> None)"

lemma write_dirents_prefix:
  "\<exists>k b. write_dirents wd room n ds = (take k ds, b) \<and> k \<le> length ds \<and> (ds \<noteq> [] \<longrightarrow> 0 < wd (room - n) (hd ds) \<longrightarrow> 0 < k)"
proof (induction ds arbitrary: n)
  case (Cons d ds)
  show ?case
  proof (cases "wd (room - n) d = 0")
    case False
    from Cons [of "n + wd (room - n) d"] obtain k b where "write_dirents wd room (n + wd (room - n) d) ds = (take k ds, b)" "k \<le> length ds" by blast
    with False show ?thesis by (intro exI [of _ "Suc k"] exI [of _ b]) (simp add: Let_def)
  qed (simp add: Let_def)
qed simp

lemma list_dir_ok:
  assumes m: "ro_readDirMap fs i = Some ds" and off: "\<And>k. k < length ds \<Longrightarrow> dt_Offset (ds ! k) = of_nat (k + 1)" and len: "length ds < 2 ^ 63"
    and fits: "\<And>d. d \<in> set ds \<Longrightarrow> 0 < wd room d"
  shows "k \<le> length ds \<Longrightarrow> list_dir wd fs i room (of_nat k) = Some (drop k ds)"
proof (induction "length ds - k" arbitrary: k rule: less_induct)
  case less
  have k: "sint (of_nat k :: 64 word) = int k" using less.prems len by (simp add: signed_of_nat signed_take_bit_int_eq_self)
  from write_dirents_prefix [of wd room 0 "drop k ds"] obtain j b where
    w: "write_dirents wd room 0 (drop k ds) = (take j (drop k ds), b)" "j \<le> length ds - k" "drop k ds \<noteq> [] \<longrightarrow> 0 < wd room (hd (drop k ds)) \<longrightarrow> 0 < j"
    by auto
  have rd: "ro_ReadDir wd fs i (of_nat k) room = Inr (Inr (take j (drop k ds), b))"
    using m k less.prems w(1) by (simp add: ro_ReadDir_def Let_def)
  show ?case
  proof (cases "k = length ds")
    case True
    with rd show ?thesis by (subst list_dir.simps) simp
  next
    case False
    then have lt: "k < length ds" using less.prems by simp
    then have "hd (drop k ds) \<in> set ds" by (simp add: hd_drop_conv_nth)
    with w(3) fits lt have j: "0 < j" by simp
    let ?l = "k + j - 1"
    have l: "?l < length ds" using j w(2) lt by simp
    have "last (take j (drop k ds)) = ds ! ?l" using j w(2) lt by (simp add: last_conv_nth min_def)
    then have "dt_Offset (last (take j (drop k ds))) = of_nat (k + j)" using off [OF l] j by simp
    moreover have "list_dir wd fs i room (of_nat (k + j)) = Some (drop (k + j) ds)" using j w(2) lt by (intro less.hyps) auto
    moreover have "take j (drop k ds) @ drop (k + j) ds = drop k ds" by (metis add.commute append_take_drop_id drop_drop)
    ultimately show ?thesis using rd j lt by (subst list_dir.simps) simp
  qed
qed

context entry_map
begin

lemma mount_listing:
  assumes tree: "tree_ok N j" and h: "holds look N (dom N) p" and F: "F = mount_of b streamed cf p" and i: "ro_walk R F RootInodeID q = Inr i"
  shows "ro_readDirMap F i \<noteq> Some []" and "\<And>k. k < length (children (ro_readDirMap F) i) \<Longrightarrow> dt_Offset (children (ro_readDirMap F) i ! k) = of_nat (k + 1)"
proof -
  from i mount_root_walk [OF tree h, of b streamed cf q] obtain x where x: "N q = Some x" "i = fe_iNode x" by (auto simp: F split: option.splits)
  show "ro_readDirMap F i \<noteq> Some []" using h by (simp add: F mount_of_def holds_def)
  show "dt_Offset (children (ro_readDirMap F) i ! k) = of_nat (k + 1)" if "k < length (children (ro_readDirMap F) i)" for k
    using mount_children(2) [OF tree h x(1) refl, of k b streamed cf] that by (simp add: F x(2))
qed

end

text \<open>
  C14: reading a directory of a read-only mount, call after call, each from the offset of the last entry received, ends and
  delivers every name in that directory exactly once, with the number and the type that looking it up gives,
  however few entries fit into the buffer of one call, as long as each of them fits.
\<close>

theorem ReadDir_complete:
  assumes "byte_map R look" and es: "es = bn_Entries b" and good: "good_names es" and room: "room_for_nodes es" and "length es < 2 ^ 63"
    and pop: "populateFS R streamed cf b = Inr F" and q: "\<exists>e \<in> set es. strict_prefix q (entry_path e)"
    and fits: "\<And>d e. e \<in> set es \<Longrightarrow> dt_Name d \<in> set (entry_path e) \<Longrightarrow> 0 < wd buf d"
  shows "\<exists>i ds. ro_walk R F RootInodeID q = Inr i \<and> list_dir wd F i buf 0 = Some ds \<and> distinct (map dt_Name ds)
    \<and> set (map dt_Name ds) = {c. \<exists>e \<in> set es. prefix (q @ [c]) (entry_path e)}
    \<and> (\<forall>d \<in> set ds. ro_walk R F RootInodeID (q @ [dt_Name d]) = Inr (dt_Inode d)
         \<and> dt_Type d = (if q @ [dt_Name d] \<in> entry_path ` set es then DT_File else DT_Directory))"
proof -
  have em: "entry_map R look" using assms(1) by (simp add: entry_map_def)
  from entry_map.populateFS_ok [OF em, of b streamed cf] good room pop obtain p N j where
    F: "F = mount_of b streamed cf p" and tree: "tree_ok N j" and h: "holds look N (dom N) p"
    and sh: "shows_entries (bd_Timestamp (bn_Descriptor b)) es N" by (auto simp: es)
  from entry_map.mount_dir [OF em tree h sh good _ F, of q] q obtain i where
    i: "ro_walk R F RootInodeID q = Inr i" and d: "distinct (map dt_Name (children (ro_readDirMap F) i))"
    and names: "set (map dt_Name (children (ro_readDirMap F) i)) = {c. \<exists>e \<in> set es. prefix (q @ [c]) (entry_path e)}"
    and kids: "\<forall>d \<in> set (children (ro_readDirMap F) i). ro_walk R F RootInodeID (q @ [dt_Name d]) = Inr (dt_Inode d)
         \<and> dt_Type d = (if q @ [dt_Name d] \<in> entry_path ` set es then DT_File else DT_Directory)" by blast
  let ?ds = "children (ro_readDirMap F) i"
  note listing = entry_map.mount_listing [OF em tree h F i]
  obtain e c r where "e \<in> set es" "entry_path e = q @ c # r" using q by (auto elim!: strict_prefixE')
  then have "\<exists>e \<in> set es. prefix (q @ [c]) (entry_path e)" by (auto simp: prefix_def)
  then have "?ds \<noteq> []" using names by auto
  then have m: "ro_readDirMap F i = Some ?ds" by (auto simp: children_def split: option.splits)
  have "set (map dt_Name ?ds) \<subseteq> (\<lambda>e. entry_path e ! length q) ` set es"
    unfolding names by (force simp: prefix_def nth_append)
  then have "card (set (map dt_Name ?ds)) \<le> length es" by (meson List.finite_set card_image_le card_length card_mono finite_imageI le_trans)
  then have len: "length ?ds < 2 ^ 63" using distinct_card [OF d] assms(5) by simp
  have wd: "0 < wd buf d" if "d \<in> set ?ds" for d
  proof -
    have "dt_Name d \<in> set (map dt_Name ?ds)" using that by simp
    then obtain e where "e \<in> set es" "prefix (q @ [dt_Name d]) (entry_path e)" unfolding names by blast
    then show ?thesis by (intro fits [of e]) (auto simp: prefix_def)
  qed
  have "list_dir wd F i buf (of_nat 0) = Some (drop 0 ?ds)" by (rule list_dir_ok [where wd = wd, OF m listing(2) len wd]) simp_all
  then have "list_dir wd F i buf 0 = Some ?ds" by simp
  then show ?thesis using i d names kids by blast
qed

theorem ReadDir_complete_witness:
  "\<exists>F i ds. populateFS map_radix True None small_tree = Inr F \<and> list_dir (\<lambda>r d. if 24 \<le> r then 24 else 0) F i 24 0 = Some ds \<and> set (map dt_Name ds) = {''f'', ''g''}"
proof -
  let ?es = "bn_Entries small_tree"
  from map_entries.populateFS_ok [OF small_good, of True None] obtain F where F: "populateFS map_radix True None small_tree = Inr F" by blast
  have q: "\<exists>e \<in> set ?es. strict_prefix [''a''] (entry_path e)" by (simp add: small_tree_def entry_path_def small_comps strict_prefix_def)
  have any: "(\<exists>e \<in> set ?es. Q (entry_path e)) \<longleftrightarrow> Q [''a'', ''f''] \<or> Q [''a'', ''g''] \<or> Q [''k'']" for Q
    by (simp add: small_tree_def entry_path_def small_comps)
  have len: "length ?es < 2 ^ 63" by (simp add: small_tree_def)
  from ReadDir_complete [OF map_radix.byte_map_axioms refl small_good len F q, of "\<lambda>r d. if 24 \<le> r then 24 else 0" 24] obtain i ds where
    "list_dir (\<lambda>r d. if 24 \<le> r then 24 else 0) F i 24 0 = Some ds" "set (map dt_Name ds) = {c. \<exists>e \<in> set ?es. prefix ([''a''] @ [c]) (entry_path e)}" by auto
  then show ?thesis using F unfolding any by auto
qed

end
