(* ===== verification/FuseTree.thy ===== *)
theory FuseTree
  imports FuseMutable FuseMount
begin

text \<open>
  The namespace of the mutable mount as a tree. The source keeps it twice, in the lookup tree and in the maps
  of children, beside the store of nodes; here are the invariant that ties them together, its preservation
  by the two elementary changes (an entry is taken out or put in), and what such a change does to
  the paths of the tree.
\<close>

section \<open>The invariant of a namespace\<close>

text \<open>
  \<open>lk\<close> resolves a name in a directory, \<open>K\<close> tells the nodes and which of them are directories, \<open>C\<close> are the
  entries of a directory by inode.
\<close>

type_synonym lookup_map = "inode \<Rightarrow> string \<Rightarrow> inode option"
type_synonym kind_map = "inode \<Rightarrow> bool option"
type_synonym child_map = "inode \<Rightarrow> inode \<Rightarrow> Dirent option"

definition edges :: "child_map \<Rightarrow> (inode \<times> inode) set" where
  "edges C = {(p, i). C p i \<noteq> None}"

definition kind_of_type :: "bool \<Rightarrow> DirentType" where
  "kind_of_type d = (if d then DT_Directory else DT_File)"

definition dirent_ok :: "kind_map \<Rightarrow> inode \<Rightarrow> inode \<Rightarrow> Dirent \<Rightarrow> bool" where
  "dirent_ok K p i d \<longleftrightarrow> dt_Inode d = i \<and> plain_comp (dt_Name d) \<and> i \<noteq> RootInodeID \<and> K p = Some True
     \<and> (\<exists>b. K i = Some b \<and> dt_Type d = kind_of_type b)"

definition ns_ok :: "lookup_map \<Rightarrow> kind_map \<Rightarrow> child_map \<Rightarrow> bool" where
  "ns_ok lk K C \<longleftrightarrow> K RootInodeID = Some True
     \<and> (\<forall>p c i. lk p c = Some i \<longleftrightarrow> (\<exists>d. C p i = Some d \<and> dt_Name d = c))
     \<and> (\<forall>p i d. C p i = Some d \<longrightarrow> dirent_ok K p i d)
     \<and> (\<forall>p q i. C p i \<noteq> None \<longrightarrow> C q i \<noteq> None \<longrightarrow> p = q)
     \<and> acyclic (edges C)"

lemma ns_okI:
  assumes "K RootInodeID = Some True" and "\<And>p c i. lk p c = Some i \<longleftrightarrow> (\<exists>d. C p i = Some d \<and> dt_Name d = c)"
    and "\<And>p i d. C p i = Some d \<Longrightarrow> dirent_ok K p i d" and "\<And>p q i. C p i \<noteq> None \<Longrightarrow> C q i \<noteq> None \<Longrightarrow> p = q" and "acyclic (edges C)"
  shows "ns_ok lk K C"
  using assms unfolding ns_ok_def by blast

lemma ns_okD:
  assumes "ns_ok lk K C"
  shows "K RootInodeID = Some True" and "lk p c = Some i \<longleftrightarrow> (\<exists>d. C p i = Some d \<and> dt_Name d = c)"
    and "C p i = Some d \<Longrightarrow> dirent_ok K p i d" and "C p i \<noteq> None \<Longrightarrow> C q i \<noteq> None \<Longrightarrow> p = q" and "acyclic (edges C)"
  using assms unfolding ns_ok_def by blast+

lemma in_edges: "(p, i) \<in> edges C \<longleftrightarrow> C p i \<noteq> None"
  by (simp add: edges_def)

lemma edges_lk: "ns_ok lk K C \<Longrightarrow> (p, i) \<in> edges C \<longleftrightarrow> (\<exists>c. lk p c = Some i)"
  by (auto simp: in_edges ns_okD(2))

lemma one_parent: "ns_ok lk K C \<Longrightarrow> lk p c = Some i \<Longrightarrow> lk q c' = Some i \<Longrightarrow> p = q \<and> c = c'"
  using ns_okD(4) [of lk K C p i q] by (auto simp: ns_okD(2))

lemma lk_plain: "ns_ok lk K C \<Longrightarrow> lk p c = Some i \<Longrightarrow> plain_comp c \<and> i \<noteq> RootInodeID \<and> K p = Some True \<and> K i \<noteq> None"
  using ns_okD(3) [of lk K C p i] by (auto simp: ns_okD(2) dirent_ok_def)

definition unlink_lk :: "inode \<Rightarrow> string \<Rightarrow> lookup_map \<Rightarrow> lookup_map" where
  "unlink_lk p c lk = lk(p := (lk p)(c := None))"

definition unlink_C :: "inode \<Rightarrow> inode \<Rightarrow> child_map \<Rightarrow> child_map" where
  "unlink_C p i C = C(p := (C p)(i := None))"

definition link_lk :: "inode \<Rightarrow> string \<Rightarrow> inode \<Rightarrow> lookup_map \<Rightarrow> lookup_map" where
  "link_lk p c i lk = lk(p := (lk p)(c \<mapsto> i))"

definition link_C :: "inode \<Rightarrow> Dirent \<Rightarrow> child_map \<Rightarrow> child_map" where
  "link_C p d C = C(p := (C p)(dt_Inode d \<mapsto> d))"

lemma ns_unlink:
  assumes ok: "ns_ok lk K C" and i: "lk p c = Some i"
  shows "ns_ok (unlink_lk p c lk) K (unlink_C p i C)"
proof -
  have sub: "edges (unlink_C p i C) \<subseteq> edges C" by (auto simp: edges_def unlink_C_def split: if_splits)
  obtain di where di: "C p i = Some di" "dt_Name di = c" using i unfolding ns_okD(2) [OF ok] by blast
  have one: "j = i" if "C p j = Some d" "dt_Name d = c" for j d
  proof -
    have "lk p c = Some j" unfolding ns_okD(2) [OF ok] using that by blast
    with i show ?thesis by simp
  qed
  have eq: "unlink_lk p c lk q e = Some j \<longleftrightarrow> (\<exists>d. unlink_C p i C q j = Some d \<and> dt_Name d = e)" for q e j
  proof -
    have lk: "lk q e = Some j \<longleftrightarrow> (\<exists>d. C q j = Some d \<and> dt_Name d = e)" by (rule ns_okD(2) [OF ok])
    show ?thesis
    proof (cases "q = p \<and> (e = c \<or> j = i)")
      case True
      have "lk p e \<noteq> Some i" if "e \<noteq> c" using lk True that di unfolding ns_okD(2) [OF ok] by simp
      moreover have "\<not> (C p j = Some d \<and> dt_Name d = c)" if "j \<noteq> i" for d using one that by blast
      ultimately show ?thesis using True by (auto simp: unlink_lk_def unlink_C_def)
    next
      case False
      then have "unlink_lk p c lk q e = lk q e" "unlink_C p i C q j = C q j" by (auto simp: unlink_lk_def unlink_C_def)
      with lk show ?thesis by simp
    qed
  qed
  have old: "unlink_C p i C q j = Some d \<Longrightarrow> C q j = Some d" for q j d by (auto simp: unlink_C_def split: if_splits)
  show ?thesis
  proof (rule ns_okI)
    show "acyclic (edges (unlink_C p i C))" by (rule acyclic_subset [OF ns_okD(5) [OF ok] sub])
    show "q = q'" if "unlink_C p i C q j \<noteq> None" "unlink_C p i C q' j \<noteq> None" for q q' j
      using that old ns_okD(4) [OF ok, of q j q'] by blast
  qed (use ns_okD(1,3) [OF ok] eq old in blast)+
qed

lemma ns_link:
  assumes ok: "ns_ok lk K C" and free: "lk p (dt_Name d) = None" and d: "dirent_ok K p (dt_Inode d) d"
    and single: "\<And>q. C q (dt_Inode d) = None" and apart: "(dt_Inode d, p) \<notin> (edges C)\<^sup>*"
  shows "ns_ok (link_lk p (dt_Name d) (dt_Inode d) lk) K (link_C p d C)"
proof -
  let ?i = "dt_Inode d"
  have new: "link_C p d C q j = (if q = p \<and> j = ?i then Some d else C q j)" for q j by (simp add: link_C_def)
  have e: "edges (link_C p d C) = insert (p, ?i) (edges C)" by (auto simp: edges_def new split: if_splits)
  have none: "C p j = Some d' \<Longrightarrow> dt_Name d' \<noteq> dt_Name d" for j d' using free ns_okD(2) [OF ok, of p "dt_Name d" j] by auto
  have eq: "link_lk p (dt_Name d) ?i lk q c = Some j \<longleftrightarrow> (\<exists>d'. link_C p d C q j = Some d' \<and> dt_Name d' = c)" for q c j
    using ns_okD(2) [OF ok, of q c j] none [of j] single [of q] by (auto simp: link_lk_def link_C_def)
  show ?thesis
  proof (rule ns_okI)
    show "acyclic (edges (link_C p d C))" unfolding e using apart ns_okD(5) [OF ok] by (simp add: acyclic_insert)
    show "dirent_ok K q j d'" if "link_C p d C q j = Some d'" for q j d'
      using that d ns_okD(3) [OF ok, of q j] unfolding new by (auto split: if_splits)
    show "q = q'" if "link_C p d C q j \<noteq> None" "link_C p d C q' j \<noteq> None" for q q' j
      using that single ns_okD(4) [OF ok, of q j q'] unfolding new by (auto split: if_splits)
    show "link_lk p (dt_Name d) ?i lk q c = Some j \<longleftrightarrow> (\<exists>d'. link_C p d C q j = Some d' \<and> dt_Name d' = c)" for q c j by (rule eq)
  qed (rule ns_okD(1) [OF ok])
qed

text \<open>Only the kinds of the nodes in the tree matter.\<close>

lemma ns_nodes:
  assumes "ns_ok lk K C" and "\<And>i b. K i = Some b \<Longrightarrow> K' i = Some b"
  shows "ns_ok lk K' C"
proof (rule ns_okI)
  show "dirent_ok K' p i d" if "C p i = Some d" for p i d
    using ns_okD(3) [OF assms(1) that] assms(2) unfolding dirent_ok_def by blast
  show "K' RootInodeID = Some True" using ns_okD(1) [OF assms(1)] assms(2) by blast
qed (use ns_okD(2,4,5) [OF assms(1)] in blast)+

section \<open>Paths\<close>

primrec walk :: "lookup_map \<Rightarrow> inode \<Rightarrow> string list \<Rightarrow> inode option" where
  "walk lk i [] = Some i"
| "walk lk i (c # cs) = (case lk i c of None \<Rightarrow> None | Some j \<Rightarrow> walk lk j cs)"

lemma walk_append: "walk lk i (cs @ ds) = (case walk lk i cs of None \<Rightarrow> None | Some j \<Rightarrow> walk lk j ds)"
  by (induction cs arbitrary: i) (auto split: option.splits)

lemma walk_snoc: "walk lk i (cs @ [c]) = Some j \<longleftrightarrow> (\<exists>p. walk lk i cs = Some p \<and> lk p c = Some j)"
  by (auto simp: walk_append split: option.splits)

lemma walk_edges: "ns_ok lk K C \<Longrightarrow> walk lk i cs = Some j \<Longrightarrow> (i, j) \<in> (edges C)\<^sup>*"
proof (induction cs arbitrary: j rule: rev_induct)
  case (snoc c cs)
  then obtain p where "walk lk i cs = Some p" "lk p c = Some j" by (auto simp: walk_snoc)
  with snoc.IH [OF snoc.prems(1)] edges_lk [OF snoc.prems(1)] show ?case by (metis rtrancl.rtrancl_into_rtrancl)
qed simp

lemma edges_walk:
  assumes ok: "ns_ok lk K C" and "(i, j) \<in> (edges C)\<^sup>*"
  shows "\<exists>cs. walk lk i cs = Some j"
  using assms(2)
proof (induction j rule: rtrancl_induct)
  case base
  show ?case by (rule exI [of _ "[]"]) simp
next
  case (step p j)
  then obtain cs where "walk lk i cs = Some p" by auto
  with step edges_lk [OF ok] show ?case by (metis walk_snoc)
qed

lemma no_cycle: "ns_ok lk K C \<Longrightarrow> lk p c = Some i \<Longrightarrow> (i, p) \<notin> (edges C)\<^sup>*"
  using ns_okD(5) edges_lk by (metis acyclic_def rtrancl_into_trancl1)

text \<open>A node of the tree has one path.\<close>

lemma walk_root_inj: "ns_ok lk K C \<Longrightarrow> walk lk RootInodeID cs = Some i \<Longrightarrow> walk lk RootInodeID ds = Some i \<Longrightarrow> cs = ds"
proof (induction cs arbitrary: i ds rule: rev_induct)
  case Nil
  show ?case
  proof (cases ds rule: rev_cases)
    case (snoc es e)
    with Nil show ?thesis using lk_plain [OF Nil.prems(1)] by (auto simp: walk_snoc)
  qed simp
next
  case (snoc c cs)
  then obtain p where p: "walk lk RootInodeID cs = Some p" "lk p c = Some i" by (auto simp: walk_snoc)
  show ?case
  proof (cases ds rule: rev_cases)
    case Nil
    with snoc.prems p show ?thesis using lk_plain [OF snoc.prems(1) p(2)] by simp
  next
    case (snoc es e)
    then obtain q where q: "walk lk RootInodeID es = Some q" "lk q e = Some i" using snoc.prems by (auto simp: walk_snoc)
    have "p = q" "c = e" using one_parent [OF snoc.prems(1) p(2) q(2)] by simp_all
    with snoc.IH [OF snoc.prems(1) p(1)] q(1) snoc show ?thesis by simp
  qed
qed

text \<open>What a change of one name does to the paths.\<close>

lemma walk_unchanged:
  assumes "\<And>ds e. prefix (ds @ [e]) cs \<Longrightarrow> walk lk i ds = Some q \<Longrightarrow> e \<noteq> c" and new: "\<And>p e. (p, e) \<noteq> (q, c) \<Longrightarrow> lk' p e = lk p e"
  shows "walk lk' i cs = walk lk i cs"
  using assms(1)
proof (induction cs rule: rev_induct)
  case (snoc e cs)
  have IH: "walk lk' i cs = walk lk i cs"
  proof (rule snoc.IH)
    show "e' \<noteq> c" if "prefix (ds @ [e']) cs" "walk lk i ds = Some q" for ds e'
      using snoc.prems [of ds e'] that by (simp add: prefix_prefix)
  qed
  show ?case
  proof (cases "walk lk i cs")
    case (Some j)
    then have "lk' j e = lk j e" using snoc.prems [of cs e] new [of j e] by auto
    with IH Some show ?thesis by (simp add: walk_append split: option.split)
  qed (simp add: IH walk_append)
qed simp

lemma walk_beside:
  assumes "ns_ok lk K C" and "walk lk RootInodeID q = Some p" and "\<not> prefix (q @ [c]) r"
  shows "walk (lk(p := (lk p)(c := v))) RootInodeID r = walk lk RootInodeID r"
  using walk_root_inj [OF assms(1) assms(2)] assms(3) by (intro walk_unchanged [where q = p and c = c]) auto

lemma walk_to_parent:
  assumes "ns_ok lk K C" and "walk lk RootInodeID q = Some p"
  shows "walk (lk(p := (lk p)(c := v))) RootInodeID q = Some p"
  using walk_beside [OF assms, of c q v] assms(2) by (simp add: prefix_def)

lemma walk_unlink:
  assumes "ns_ok lk K C" and "walk lk RootInodeID q = Some p"
  shows "walk (unlink_lk p c lk) RootInodeID r = (if prefix (q @ [c]) r then None else walk lk RootInodeID r)"
proof (cases "prefix (q @ [c]) r")
  case True
  then obtain ds where r: "r = q @ c # ds" by (auto simp: prefix_def)
  show ?thesis using walk_to_parent [OF assms, of c None] True unfolding r unlink_lk_def by (simp add: walk_append)
qed (simp add: walk_beside [OF assms] unlink_lk_def)

text \<open>Below the new entry the paths are those below its node, which the change does not touch.\<close>

lemma walk_link:
  assumes ok: "ns_ok lk K C" and q: "walk lk RootInodeID q = Some p" and apart: "(i, p) \<notin> (edges C)\<^sup>*"
  shows "walk (link_lk p c i lk) RootInodeID r = (if prefix (q @ [c]) r then walk lk i (drop (length q + 1) r) else walk lk RootInodeID r)"
proof (cases "prefix (q @ [c]) r")
  case True
  then obtain ds where r: "r = q @ c # ds" by (auto simp: prefix_def)
  have "walk (link_lk p c i lk) i ds = walk lk i ds"
    unfolding link_lk_def using walk_edges [OF ok, of i _ p] apart by (intro walk_unchanged [where q = p and c = c]) auto
  then show ?thesis using walk_to_parent [OF ok q, of c "Some i"] True unfolding r link_lk_def by (simp add: walk_append)
qed (simp add: walk_beside [OF ok q] link_lk_def)

end
