(* ===== verification/FuseState.thy ===== *)
theory FuseState
  imports FuseTree
begin

text \<open>
  The operations of the mutable mount keep its invariant and act on the tree of paths as a file system
  should. The requests are those that a kernel sends; where the code would go wrong on one of them, the
  condition on the request says so.
\<close>

section \<open>Views of the state\<close>

text \<open>The root resolves to itself under a name that no request carries.\<close>

definition lk :: "('t, 'n, 'f) mount_env \<Rightarrow> ('t, 'n, 'f) fsMutable \<Rightarrow> lookup_map" where
  "lk M s p c = (if c = rootPath then None else map_option le_iNode (mf_lookup M s p c))"

definition kinds :: "('t, 'n, 'f) mount_env \<Rightarrow> ('t, 'n, 'f) fsMutable \<Rightarrow> kind_map" where
  "kinds M s i = map_option node_IsDir (get_node M s i)"

definition entries :: "('t, 'n, 'f) fsMutable \<Rightarrow> child_map" where
  "entries s p = map_of (dir_entries s p)"

definition file_of :: "('f \<Rightarrow> string \<Rightarrow> bytes option) \<Rightarrow> ('t, 'n, 'f) fsMutable \<Rightarrow> inode \<Rightarrow> bytes option" where
  "file_of files s i = files (mf_localCache s) (getPathToBackingFile i)"

text \<open>
  The numbers of the nodes have been given out and none is free; every file has its backing file, whose size is the one
  that the attributes show.
\<close>

definition numbers_ok :: "('t, 'n, 'f) mount_env \<Rightarrow> ('t, 'n, 'f) fsMutable \<Rightarrow> bool" where
  "numbers_ok M s \<longleftrightarrow> ig_freeInodes (mf_iNodeGenerator s) = [] \<and> firstINode \<le> ig_highestInode (mf_iNodeGenerator s)
     \<and> (\<forall>i. kinds M s i \<noteq> None \<longrightarrow> i = RootInodeID \<or> firstINode < i \<and> i \<le> ig_highestInode (mf_iNodeGenerator s))"

definition files_ok :: "('t, 'n, 'f) mount_env \<Rightarrow> ('f \<Rightarrow> string \<Rightarrow> bytes option) \<Rightarrow> ('t, 'n, 'f) fsMutable \<Rightarrow> bool" where
  "files_ok M files s \<longleftrightarrow> (\<forall>i n. get_node M s i = Some n \<longrightarrow> \<not> node_IsDir n \<longrightarrow>
     at_Nlink (ne_attr n) = fileLinkCount \<and> (\<exists>d. file_of files s i = Some d \<and> at_Size (ne_attr n) = length d))"

definition dirs_ok :: "('t, 'n, 'f) mount_env \<Rightarrow> ('t, 'n, 'f) fsMutable \<Rightarrow> bool" where
  "dirs_ok M s \<longleftrightarrow> (\<forall>p m. mf_readDirMap s p = Some m \<longrightarrow> kinds M s p = Some True \<and> distinct (map fst m))
     \<and> mf_readDirMap s RootInodeID \<noteq> None \<and> (\<forall>p c le. mf_lookup M s p c = Some le \<longrightarrow> le_mode le = 0)"

definition mount_ok :: "('t, 'n, 'f) mount_env \<Rightarrow> ('f \<Rightarrow> string \<Rightarrow> bytes option) \<Rightarrow> ('t, 'n, 'f) fsMutable \<Rightarrow> bool" where
  "mount_ok M files s \<longleftrightarrow> ns_ok (lk M s) (kinds M s) (entries s) \<and> numbers_ok M s \<and> files_ok M files s \<and> dirs_ok M s"

lemma mount_okD:
  assumes "mount_ok M files s"
  shows "ns_ok (lk M s) (kinds M s) (entries s)" and "numbers_ok M s" and "files_ok M files s" and "dirs_ok M s"
  using assms by (simp_all add: mount_ok_def)

lemma backing_inj [simp]: "getPathToBackingFile i = getPathToBackingFile j \<longleftrightarrow> i = j"
  unfolding getPathToBackingFile_def using read_show_nat [of "unat i"] read_show_nat [of "unat j"] by (metis word_unat_eq_iff)

section \<open>Elementary changes\<close>

locale mutable_mount = lt: byte_map "me_L M" lookL + nt: byte_map "me_N M" lookN + sg: staging "me_F M" files
  for M :: "('t, 'n, 'f) mount_env" and lookL lookN files
begin

lemma node_set [simp]: "get_node M (set_node M i n s) = (get_node M s)(i \<mapsto> n)"
  by (auto simp: get_node_def set_node_def)

lemma kinds_set [simp]: "kinds M (set_node M i n s) = (kinds M s)(i \<mapsto> node_IsDir n)"
  by (auto simp: kinds_def)

lemma set_node_keeps [simp]:
  "mf_lookup M (set_node M i n s) = mf_lookup M s" "lk M (set_node M i n s) = lk M s" "mf_readDirMap (set_node M i n s) = mf_readDirMap s"
  "dir_entries (set_node M i n s) = dir_entries s"
  "entries (set_node M i n s) = entries s" "mf_localCache (set_node M i n s) = mf_localCache s" "mf_iNodeGenerator (set_node M i n s) = mf_iNodeGenerator s"
  "file_of files (set_node M i n s) = file_of files s"
  by (auto simp: set_node_def lk_def mf_lookup_def entries_def dir_entries_def file_of_def fun_eq_iff)

lemma lookup_insert: "mf_lookup M (insertLookupEntry M p c le s) = (mf_lookup M s)(p := (mf_lookup M s p)(c \<mapsto> le))"
  by (auto simp: mf_lookup_def insertLookupEntry_def fun_eq_iff)

lemma lk_insert [simp]: "c \<noteq> rootPath \<Longrightarrow> lk M (insertLookupEntry M p c le s) = link_lk p c (le_iNode le) (lk M s)"
  by (auto simp: lk_def lookup_insert link_lk_def fun_eq_iff)

lemma insert_keeps [simp]:
  "get_node M (insertLookupEntry M p c le s) = get_node M s" "kinds M (insertLookupEntry M p c le s) = kinds M s"
  "mf_readDirMap (insertLookupEntry M p c le s) = mf_readDirMap s" "dir_entries (insertLookupEntry M p c le s) = dir_entries s"
  "entries (insertLookupEntry M p c le s) = entries s"
  "mf_localCache (insertLookupEntry M p c le s) = mf_localCache s" "mf_iNodeGenerator (insertLookupEntry M p c le s) = mf_iNodeGenerator s"
  "file_of files (insertLookupEntry M p c le s) = file_of files s"
  by (auto simp: insertLookupEntry_def get_node_def kinds_def entries_def dir_entries_def file_of_def fun_eq_iff)

lemma lookup_tree: "mf_lookup M (s\<lparr>mf_lookupTree := t\<rparr>) p c = lookL t (formLookupKey p c)"
  by (simp add: mf_lookup_def)

lemma lk_delete: "c \<noteq> rootPath \<Longrightarrow> lookL t = (lookL (mf_lookupTree s))(formLookupKey p c := None) \<Longrightarrow>
    lk M (s\<lparr>mf_lookupTree := t\<rparr>) = unlink_lk p c (lk M s)"
  by (auto simp: lk_def unlink_lk_def mf_lookup_def fun_eq_iff)

lemma tree_keeps [simp]:
  "get_node M (s\<lparr>mf_lookupTree := t\<rparr>) = get_node M s" "kinds M (s\<lparr>mf_lookupTree := t\<rparr>) = kinds M s"
  "entries (s\<lparr>mf_lookupTree := t\<rparr>) = entries s" "dir_entries (s\<lparr>mf_lookupTree := t\<rparr>) = dir_entries s"
  "file_of files (s\<lparr>mf_lookupTree := t\<rparr>) = file_of files s"
  by (auto simp: get_node_def kinds_def entries_def dir_entries_def file_of_def fun_eq_iff)

lemma entries_delete [simp]: "entries (delete_child p i s) = unlink_C p i (entries s)"
  by (auto simp: delete_child_def entries_def dir_entries_def unlink_C_def fun_eq_iff delete_conv' split: option.splits)

lemma delete_keeps [simp]:
  "get_node M (delete_child p i s) = get_node M s" "kinds M (delete_child p i s) = kinds M s" "mf_lookup M (delete_child p i s) = mf_lookup M s"
  "lk M (delete_child p i s) = lk M s" "mf_lookupTree (delete_child p i s) = mf_lookupTree s"
  "mf_localCache (delete_child p i s) = mf_localCache s" "mf_iNodeGenerator (delete_child p i s) = mf_iNodeGenerator s"
  "file_of files (delete_child p i s) = file_of files s"
  by (auto simp: delete_child_def get_node_def kinds_def lk_def mf_lookup_def file_of_def fun_eq_iff split: option.splits)

lemma entries_insert [simp]: "entries (insertReadDirEntry p d s) = link_C p d (entries s)"
  by (auto simp: insertReadDirEntry_def entries_def dir_entries_def link_C_def fun_eq_iff update_conv' split: option.splits)

lemma insert_entry_keeps [simp]:
  "get_node M (insertReadDirEntry p d s) = get_node M s" "kinds M (insertReadDirEntry p d s) = kinds M s" "mf_lookup M (insertReadDirEntry p d s) = mf_lookup M s"
  "lk M (insertReadDirEntry p d s) = lk M s"
  "mf_localCache (insertReadDirEntry p d s) = mf_localCache s" "mf_iNodeGenerator (insertReadDirEntry p d s) = mf_iNodeGenerator s"
  "file_of files (insertReadDirEntry p d s) = file_of files s"
  by (auto simp: insertReadDirEntry_def get_node_def kinds_def lk_def mf_lookup_def file_of_def fun_eq_iff)

end

section \<open>Removing an entry\<close>

context mutable_mount
begin

lemma drop_dir [simp]:
  "get_node M (s\<lparr>mf_readDirMap := D\<rparr>) = get_node M s" "kinds M (s\<lparr>mf_readDirMap := D\<rparr>) = kinds M s"
  "mf_lookup M (s\<lparr>mf_readDirMap := D\<rparr>) = mf_lookup M s" "lk M (s\<lparr>mf_readDirMap := D\<rparr>) = lk M s"
  "file_of files (s\<lparr>mf_readDirMap := D\<rparr>) = file_of files s"
  by (auto simp: get_node_def kinds_def lk_def mf_lookup_def file_of_def fun_eq_iff)

lemma no_entries: "entries s i = Map.empty \<longleftrightarrow> dir_entries s i = []"
  by (simp add: entries_def)

lemma entries_drop_dir:
  "dir_entries s i = [] \<Longrightarrow> entries (s\<lparr>mf_readDirMap := (mf_readDirMap s)(i := None)\<rparr>) = entries s"
  by (auto simp: entries_def dir_entries_def fun_eq_iff)

lemma lk_Some: "lk M s p c = Some i \<longleftrightarrow> c \<noteq> rootPath \<and> (\<exists>le. mf_lookup M s p c = Some le \<and> le_iNode le = i)"
  by (auto simp: lk_def)

lemma kinds_Some: "kinds M s i = Some b \<longleftrightarrow> (\<exists>n. get_node M s i = Some n \<and> node_IsDir n = b)"
  by (auto simp: kinds_def)

definition unlinked :: "('t, 'n, 'f) fsMutable \<Rightarrow> inode \<Rightarrow> string \<Rightarrow> inode \<Rightarrow> ('t, 'n, 'f) fsMutable \<Rightarrow> bool" where
  "unlinked s p c i s' \<longleftrightarrow> mount_ok M files s' \<and> lk M s' = unlink_lk p c (lk M s) \<and> kinds M s' = kinds M s
     \<and> entries s' = unlink_C p i (entries s) \<and> file_of files s' = file_of files s \<and> mf_iNodeGenerator s' = mf_iNodeGenerator s
     \<and> (\<forall>j. j \<noteq> p \<longrightarrow> get_node M s' j = get_node M s j)"

lemma unlinkedI:
  assumes ok: "mount_ok M files s" and i: "lk M s p c = Some i"
    and lk': "lk M s' = unlink_lk p c (lk M s)" and K: "kinds M s' = kinds M s" and C: "entries s' = unlink_C p i (entries s)"
    and same: "file_of files s' = file_of files s" "mf_iNodeGenerator s' = mf_iNodeGenerator s"
    and nodes: "\<And>j n. get_node M s' j = Some n \<Longrightarrow> \<not> node_IsDir n \<Longrightarrow> get_node M s j = Some n"
    and others: "\<And>j. j \<noteq> p \<Longrightarrow> get_node M s' j = get_node M s j"
    and D: "\<And>q m. mf_readDirMap s' q = Some m \<Longrightarrow> \<exists>m0. mf_readDirMap s q = Some m0 \<and> m \<in> {m0, AList.delete i m0}"
    and root: "mf_readDirMap s' RootInodeID \<noteq> None" and L: "\<And>q e le. mf_lookup M s' q e = Some le \<Longrightarrow> mf_lookup M s q e = Some le"
  shows "unlinked s p c i s'"
proof -
  note okD = mount_okD [OF ok]
  have "ns_ok (lk M s') (kinds M s') (entries s')" unfolding lk' K C by (rule ns_unlink [OF okD(1) i])
  moreover have "numbers_ok M s'" using okD(2) by (simp add: numbers_ok_def K same)
  moreover have "files_ok M files s'" using okD(3) nodes by (auto simp: files_ok_def same)
  moreover have "dirs_ok M s'"
  proof -
    have "kinds M s' q = Some True \<and> distinct (map fst m)" if "mf_readDirMap s' q = Some m" for q m
      using D [OF that] okD(4) unfolding dirs_ok_def K by (auto intro: distinct_delete)
    then show ?thesis using root L okD(4) unfolding dirs_ok_def by blast
  qed
  ultimately show ?thesis using lk' K C same others by (simp add: unlinked_def mount_ok_def)
qed

lemma deleteNSEntry_missing: "c \<noteq> rootPath \<Longrightarrow> lk M s p c = None \<Longrightarrow> deleteNSEntry M s p c = Inr (s, Inl ENOENT)"
  by (auto simp: deleteNSEntry_def lk_def split: option.splits)

lemma deleteNSEntry_ok:
  assumes ok: "mount_ok M files s" and i: "lk M s p c = Some i"
  shows "if kinds M s i = Some True \<and> entries s i \<noteq> Map.empty then deleteNSEntry M s p c = Inr (s, Inl ENOTEMPTY)
    else \<exists>s'. deleteNSEntry M s p c = Inr (s', Inr ()) \<and> unlinked s p c i s'"
proof -
  note okD = mount_okD [OF ok] and pl = lk_plain [OF okD(1) i]
  obtain le where le: "mf_lookup M s p c = Some le" "le_iNode le = i" and c: "c \<noteq> rootPath" using i by (auto simp: lk_Some)
  obtain pn cn where pn: "get_node M s p = Some pn" "node_IsDir pn" and cn: "get_node M s i = Some cn"
    using pl by (auto simp: kinds_Some kinds_def)
  have iR: "i \<noteq> RootInodeID" using pl by simp
  have Kp: "(kinds M s)(p \<mapsto> True) = kinds M s" using pl by (simp add: fun_upd_idem)
  let ?t = "\<lambda>s. fst (ir_Delete (me_L M) (mf_lookupTree s) (formLookupKey p c))"
  show ?thesis
  proof (cases "node_IsDir cn \<and> dir_entries s i \<noteq> []")
    case True
    then show ?thesis using pn le cn by (simp add: deleteNSEntry_def kinds_Some no_entries)
  next
    case False
    define s1 where "s1 = (if node_IsDir cn then set_node M p (with_Nlink (\<lambda>n. n - 1) pn) (s\<lparr>mf_readDirMap := (mf_readDirMap s)(i := None)\<rparr>) else s)"
    define s' where "s' = delete_child p i (s1\<lparr>mf_lookupTree := ?t s1\<rparr>)"
    have del: "deleteNSEntry M s p c = Inr (s', Inr ())" using False pn le cn by (auto simp: deleteNSEntry_def s1_def s'_def Let_def)
    have K1: "kinds M s1 = kinds M s" "lk M s1 = lk M s" "file_of files s1 = file_of files s" "mf_iNodeGenerator s1 = mf_iNodeGenerator s"
      "entries s1 = entries s"
      using Kp pn False entries_drop_dir [of s i] unfolding s1_def by simp_all
    have "unlinked s p c i s'"
    proof (rule unlinkedI [OF ok i])
      show "lk M s' = unlink_lk p c (lk M s)" unfolding s'_def delete_keeps K1(2) [symmetric] by (rule lk_delete [OF c]) simp
      show "kinds M s' = kinds M s" "entries s' = unlink_C p i (entries s)" "file_of files s' = file_of files s" "mf_iNodeGenerator s' = mf_iNodeGenerator s"
        unfolding s'_def by (simp_all add: K1)
      show "get_node M s j = Some n" if "get_node M s' j = Some n" "\<not> node_IsDir n" for j n
        using that pn by (auto simp: s'_def s1_def split: if_splits)
      show "get_node M s' j = get_node M s j" if "j \<noteq> p" for j using that by (simp add: s'_def s1_def)
      show "\<exists>m0. mf_readDirMap s q = Some m0 \<and> m \<in> {m0, AList.delete i m0}" if "mf_readDirMap s' q = Some m" for q m
        using that by (auto simp: s'_def s1_def delete_child_def split: if_splits option.splits)
      show "mf_readDirMap s' RootInodeID \<noteq> None"
        using okD(4) iR by (auto simp: s'_def s1_def delete_child_def dirs_ok_def split: if_splits option.splits)
      show "mf_lookup M s q e = Some le'" if "mf_lookup M s' q e = Some le'" for q e le'
        using that by (auto simp: s'_def s1_def mf_lookup_def set_node_def split: if_splits)
    qed
    with del False cn show ?thesis by (auto simp: kinds_Some no_entries)
  qed
qed

end

section \<open>Adding an entry\<close>

context mutable_mount
begin

lemma gen_keeps [simp]:
  "get_node M (s\<lparr>mf_iNodeGenerator := g\<rparr>) = get_node M s" "kinds M (s\<lparr>mf_iNodeGenerator := g\<rparr>) = kinds M s"
  "mf_lookup M (s\<lparr>mf_iNodeGenerator := g\<rparr>) = mf_lookup M s" "lk M (s\<lparr>mf_iNodeGenerator := g\<rparr>) = lk M s"
  "entries (s\<lparr>mf_iNodeGenerator := g\<rparr>) = entries s" "file_of files (s\<lparr>mf_iNodeGenerator := g\<rparr>) = file_of files s"
  by (auto simp: get_node_def kinds_def lk_def mf_lookup_def entries_def dir_entries_def file_of_def fun_eq_iff)

lemma set_node_insert: "set_node M i n (insertReadDirEntry p d s) = insertReadDirEntry p d (set_node M i n s)"
  by (rule fsMutable.equality) (simp_all add: insertReadDirEntry_def set_node_def dir_entries_def)

lemma dirs_insert_entry: "dirs_ok M s \<Longrightarrow> kinds M s p = Some True \<Longrightarrow> dirs_ok M (insertReadDirEntry p d s)"
  by (auto simp: dirs_ok_def insertReadDirEntry_def dir_entries_def distinct_update split: option.splits if_splits)

lemma dirs_insert_lookup: "dirs_ok M s \<Longrightarrow> le_mode le = 0 \<Longrightarrow> dirs_ok M (insertLookupEntry M p c le s)"
  by (auto simp: dirs_ok_def lookup_insert)

lemma dirs_set_node: "dirs_ok M s \<Longrightarrow> kinds M s i \<in> {None, Some (node_IsDir n)} \<Longrightarrow> dirs_ok M (set_node M i n s)"
  by (fastforce simp: dirs_ok_def)

lemma make_dir: "make_storage M DT_Directory i s = s\<lparr>mf_readDirMap := (mf_readDirMap s)(i \<mapsto> [])\<rparr>"
  by (simp add: make_storage_def)

lemma make_file:
  assumes "t \<noteq> DT_Directory"
  shows "\<exists>c b. make_storage M t i s = s\<lparr>mf_localCache := c, mf_backingFiles := b\<rparr> \<and> files c = (files (mf_localCache s))(getPathToBackingFile i \<mapsto> [])"
proof -
  from sg.create [of "mf_localCache s" "unat i"] obtain c where
    "rw_Create (me_F M) (mf_localCache s) (show_nat (unat i)) = (c, None)" "files c = (files (mf_localCache s))(show_nat (unat i) \<mapsto> [])" by auto
  then show ?thesis using assms
    by (intro exI [of _ c] exI [of _ "(mf_backingFiles s)(i \<mapsto> show_nat (unat i))"]) (simp add: make_storage_def getPathToBackingFile_def)
qed

lemma storage_keeps [simp]:
  "get_node M (s\<lparr>mf_localCache := c, mf_backingFiles := b\<rparr>) = get_node M s" "kinds M (s\<lparr>mf_localCache := c, mf_backingFiles := b\<rparr>) = kinds M s"
  "mf_lookup M (s\<lparr>mf_localCache := c, mf_backingFiles := b\<rparr>) = mf_lookup M s" "lk M (s\<lparr>mf_localCache := c, mf_backingFiles := b\<rparr>) = lk M s"
  "entries (s\<lparr>mf_localCache := c, mf_backingFiles := b\<rparr>) = entries s"
  by (auto simp: get_node_def kinds_def lk_def mf_lookup_def entries_def dir_entries_def fun_eq_iff)

lemma file_of_storage:
  "files c = (files (mf_localCache s))(getPathToBackingFile i \<mapsto> d) \<Longrightarrow> file_of files (s\<lparr>mf_localCache := c, mf_backingFiles := b\<rparr>) = (file_of files s)(i \<mapsto> d)"
  by (auto simp: file_of_def fun_eq_iff)

lemma fresh_number:
  assumes ok: "mount_ok M files s" and room: "ig_highestInode (mf_iNodeGenerator s) \<noteq> - 1"
  defines "i \<equiv> ig_highestInode (mf_iNodeGenerator s) + 1"
  shows "allocINode (mf_iNodeGenerator s) = (i, \<lparr>ig_highestInode = i, ig_freeInodes = []\<rparr>)" and "kinds M s i = None" and "i \<noteq> RootInodeID"
    and "entries s q i = None" and "mf_readDirMap s i = None" and "entries s i = Map.empty" and "(i, p) \<in> (edges (entries s))\<^sup>* \<Longrightarrow> p = i"
    and "ig_highestInode (mf_iNodeGenerator s) < i"
proof -
  let ?h = "ig_highestInode (mf_iNodeGenerator s)"
  note okD = mount_okD [OF ok]
  have gen: "ig_freeInodes (mf_iNodeGenerator s) = []" "firstINode \<le> ?h"
    and used: "\<And>j. kinds M s j \<noteq> None \<Longrightarrow> j = RootInodeID \<or> firstINode < j \<and> j \<le> ?h" using okD(2) by (auto simp: numbers_ok_def)
  show "allocINode (mf_iNodeGenerator s) = (i, \<lparr>ig_highestInode = i, ig_freeInodes = []\<rparr>)" using gen by (simp add: allocINode_def i_def Let_def)
  have "1 + ?h \<noteq> 0" using room by (metis add.commute add_eq_0_iff)
  from unatSuc [OF this] show gt: "?h < i" unfolding i_def word_less_nat_alt by (simp add: add.commute)
  have "RootInodeID < firstINode" by (simp add: RootInodeID_def firstINode_def)
  then show iR: "i \<noteq> RootInodeID" using gt gen(2) by auto
  show K: "kinds M s i = None" using used [of i] gt iR by (cases "kinds M s i") auto
  show "entries s q i = None" using ns_okD(3) [OF okD(1), of q i] K by (cases "entries s q i") (auto simp: dirent_ok_def)
  show D: "mf_readDirMap s i = None" using okD(4) K unfolding dirs_ok_def by (metis not_None_eq option.distinct(1))
  then show C: "entries s i = Map.empty" by (simp add: entries_def dir_entries_def)
  show "p = i" if "(i, p) \<in> (edges (entries s))\<^sup>*" using that C by (auto elim: converse_rtranclE simp: in_edges)
qed

end

context mutable_mount
begin

definition linked :: "('t, 'n, 'f) fsMutable \<Rightarrow> inode \<Rightarrow> Dirent \<Rightarrow> ('t, 'n, 'f) fsMutable \<Rightarrow> bool" where
  "linked s p d s' \<longleftrightarrow> mount_ok M files s' \<and> lk M s' = link_lk p (dt_Name d) (dt_Inode d) (lk M s) \<and> entries s' = link_C p d (entries s)"

lemma linkedI:
  assumes ok: "mount_ok M files s" and free: "lk M s p (dt_Name d) = None" and d: "dirent_ok (kinds M s') p (dt_Inode d) d"
    and single: "\<And>q. entries s q (dt_Inode d) = None" and apart: "(dt_Inode d, p) \<notin> (edges (entries s))\<^sup>*"
    and K: "\<And>j b. kinds M s j = Some b \<Longrightarrow> kinds M s' j = Some b"
    and lk': "lk M s' = link_lk p (dt_Name d) (dt_Inode d) (lk M s)" and C: "entries s' = link_C p d (entries s)"
    and rest: "numbers_ok M s'" "files_ok M files s'" "dirs_ok M s'"
  shows "linked s p d s'"
proof -
  have "ns_ok (lk M s') (kinds M s') (entries s')"
    unfolding lk' C using ns_nodes [OF mount_okD(1) [OF ok]] K by (intro ns_link free d single apart) blast
  with rest lk' C show ?thesis by (simp add: linked_def mount_ok_def)
qed

definition node_made :: "('t, 'n, 'f) fsMutable \<Rightarrow> inode \<Rightarrow> string \<Rightarrow> DirentType \<Rightarrow> inode \<Rightarrow> ('t, 'n, 'f) fsMutable \<Rightarrow> bool" where
  "node_made s p c t i s' \<longleftrightarrow> linked s p \<lparr>dt_Offset = 0, dt_Inode = i, dt_Name = c, dt_Type = t\<rparr> s'
     \<and> kinds M s i = None \<and> kinds M s' = (kinds M s)(i \<mapsto> t = DT_Directory) \<and> entries s i = Map.empty
     \<and> file_of files s' = (if t = DT_Directory then file_of files s else (file_of files s)(i \<mapsto> []))
     \<and> mf_iNodeGenerator s' = \<lparr>ig_highestInode = i, ig_freeInodes = []\<rparr> \<and> i = ig_highestInode (mf_iNodeGenerator s) + 1
     \<and> (\<exists>n. get_node M s' i = Some n \<and> ne_refCount n = 1) \<and> (\<forall>j. j \<noteq> i \<longrightarrow> j \<noteq> p \<longrightarrow> get_node M s' j = get_node M s j)"

lemma make_storage_ok:
  assumes "mf_readDirMap s i = None" and "kinds M s i = None" and "dirs_ok M s" and n: "node_IsDir n \<longleftrightarrow> t = DT_Directory"
  defines "s' \<equiv> make_storage M t i s"
  shows "get_node M s' = get_node M s" and "kinds M s' = kinds M s" and "lk M s' = lk M s" and "entries s' = entries s" and "mf_iNodeGenerator s' = mf_iNodeGenerator s"
    and "dirs_ok M (set_node M i n s')" and "file_of files s' = (if t = DT_Directory then file_of files s else (file_of files s)(i \<mapsto> []))"
proof -
  have "get_node M s' = get_node M s \<and> kinds M s' = kinds M s \<and> lk M s' = lk M s \<and> entries s' = entries s \<and> mf_iNodeGenerator s' = mf_iNodeGenerator s
    \<and> dirs_ok M (set_node M i n s') \<and> file_of files s' = (if t = DT_Directory then file_of files s else (file_of files s)(i \<mapsto> []))"
  proof (cases "t = DT_Directory")
    case True
    have "entries s' = entries s" using assms(1) True by (auto simp: s'_def make_dir entries_def dir_entries_def fun_eq_iff)
    moreover have "dirs_ok M (set_node M i n s')" using assms(1-3) n True by (auto simp: s'_def make_dir dirs_ok_def)
    ultimately show ?thesis using True by (simp add: s'_def make_dir)
  next
    case False
    from make_file [OF False, of i s] obtain c b where
      s': "s' = s\<lparr>mf_localCache := c, mf_backingFiles := b\<rparr>" "files c = (files (mf_localCache s))(getPathToBackingFile i \<mapsto> [])" unfolding s'_def by blast
    moreover have "dirs_ok M (set_node M i n s')" using assms(1-3) n False by (auto simp: s'(1) dirs_ok_def)
    ultimately show ?thesis using False file_of_storage [OF s'(2)] by simp
  qed
  then show "get_node M s' = get_node M s" "kinds M s' = kinds M s" "lk M s' = lk M s" "entries s' = entries s" "mf_iNodeGenerator s' = mf_iNodeGenerator s"
    "dirs_ok M (set_node M i n s')" "file_of files s' = (if t = DT_Directory then file_of files s else (file_of files s)(i \<mapsto> []))" by blast+
qed

lemma createNode_ok:
  assumes ok: "mount_ok M files s" and room: "ig_highestInode (mf_iNodeGenerator s) \<noteq> - 1" and c: "plain_comp c"
    and p: "kinds M s p = Some True" and free: "lk M s p c = None" and t: "t \<in> {DT_File, DT_Directory}"
  shows "\<exists>i s'. createNode M ts s p c t False = Inr (s', Inr (i, new_attr t ts)) \<and> node_made s p c t i s'"
proof -
  define i where "i = ig_highestInode (mf_iNodeGenerator s) + 1"
  note fr = fresh_number [OF ok room, folded i_def] and okD = mount_okD [OF ok]
  define d where "d = \<lparr>dt_Offset = 0, dt_Inode = i, dt_Name = c, dt_Type = t\<rparr>"
  define g where "g = \<lparr>ig_highestInode = i, ig_freeInodes = []\<rparr>"
  define s1 where "s1 = insertLookupEntry M p c \<lparr>le_iNode = i, le_mode = 0\<rparr> (s\<lparr>mf_iNodeGenerator := g\<rparr>)"
  define s2 where "s2 = make_storage M t i s1"
  define n where "n = \<lparr>ne_refCount = 1, ne_attr = new_attr t ts, ne_pathToBackingFile = getPathToBackingFile i\<rparr>"
  define s4 where "s4 = set_node M i n (insertReadDirEntry p d s2)"
  have ip: "i \<noteq> p" using fr(2) p by auto
  have cR: "c \<noteq> rootPath" using c by (auto simp: plain_comp_def rootPath_def)
  obtain pn where pn: "get_node M s p = Some pn" "node_IsDir pn" using p by (auto simp: kinds_Some)
  have n_dir: "node_IsDir n \<longleftrightarrow> t = DT_Directory" using t by (auto simp: n_def new_attr_def)
  have d1: "dirs_ok M s1" unfolding s1_def using okD(4) by (intro dirs_insert_lookup) (simp_all add: dirs_ok_def)
  have s1: "get_node M s1 = get_node M s" "kinds M s1 = kinds M s" "lk M s1 = link_lk p c i (lk M s)" "entries s1 = entries s" "mf_iNodeGenerator s1 = g"
      "file_of files s1 = file_of files s" "mf_readDirMap s1 = mf_readDirMap s"
    using cR by (simp_all add: s1_def)
  note s2 = make_storage_ok [of s1 i n t, unfolded s1, OF fr(5,2) d1 n_dir, folded s2_def]
  have n4: "get_node M s4 = (get_node M s)(i \<mapsto> n)" by (simp add: s4_def s2)
  define s' where "s' = (if t = DT_Directory then set_node M p (with_Nlink (\<lambda>n. n + 1) pn) s4 else s4)"
  have cr: "createNode M ts s p c t False = Inr (s', Inr (i, new_attr t ts))"
  proof -
    have "createNode M ts s p c t False = (if t = DT_Directory then
        (case get_node M s4 p of None \<Rightarrow> Inl no_node | Some pNode \<Rightarrow> Inr (set_node M p (with_Nlink (\<lambda>n. n + 1) pNode) s4, Inr (i, new_attr t ts)))
      else Inr (s4, Inr (i, new_attr t ts)))"
      unfolding createNode_def fr(1) g_def [symmetric] s4_def s2_def s1_def n_def d_def by (simp only: if_False Let_def prod.case)
    then show ?thesis using n4 ip pn(1) by (simp add: s'_def)
  qed
  have nodes: "get_node M s' j = (if j = i then Some n else if j = p \<and> t = DT_Directory then Some (with_Nlink (\<lambda>n. n + 1) pn) else get_node M s j)" for j
    using n4 ip by (simp add: s'_def)
  have K: "kinds M s' = (kinds M s)(i \<mapsto> t = DT_Directory)"
    using nodes pn n_dir by (auto simp: kinds_def fun_eq_iff)
  have same: "lk M s' = link_lk p c i (lk M s)" "entries s' = link_C p d (entries s)" "mf_iNodeGenerator s' = g"
    "file_of files s' = (if t = DT_Directory then file_of files s else (file_of files s)(i \<mapsto> []))"
    by (simp_all add: s'_def s4_def s2)
  have d_simps: "dt_Name d = c" "dt_Inode d = i" by (simp_all add: d_def)
  have "linked s p d s'"
  proof (rule linkedI [OF ok], unfold d_simps)
    show "lk M s p c = None" by (rule free)
    show "dirent_ok (kinds M s') p i d" using c fr(3) p ip t unfolding K dirent_ok_def by (auto simp: d_def kind_of_type_def)
    show "(i, p) \<notin> (edges (entries s))\<^sup>*" using fr(7) ip by blast
    show "kinds M s' j = Some b" if "kinds M s j = Some b" for j b using that fr(2) unfolding K by auto
    show "numbers_ok M s'"
    proof -
      have "firstINode \<le> ig_highestInode (mf_iNodeGenerator s)" using okD(2) by (simp add: numbers_ok_def)
      then show ?thesis using okD(2) fr(8) unfolding numbers_ok_def K same(3) by (auto simp: g_def)
    qed
    show "files_ok M files s'"
      using okD(3) n_dir pn fr(2) unfolding files_ok_def nodes same(4) by (auto simp: n_def new_attr_def split: if_splits)
    show "dirs_ok M s'"
    proof -
      have "dirs_ok M (insertReadDirEntry p d (set_node M i n s2))" using p ip s2(6) by (intro dirs_insert_entry) (simp_all add: s2)
      then have "dirs_ok M s4" unfolding s4_def by (simp only: set_node_insert)
      then show ?thesis unfolding s'_def using pn ip n4 by (auto intro!: dirs_set_node simp: kinds_def)
    qed
  qed (use fr(4) same in simp_all)
  moreover have "\<exists>n. get_node M s' i = Some n \<and> ne_refCount n = 1" "\<forall>j. j \<noteq> i \<longrightarrow> j \<noteq> p \<longrightarrow> get_node M s' j = get_node M s j"
    using nodes by (simp_all add: n_def)
  ultimately show ?thesis using cr K same(3,4) fr(2,6) unfolding node_made_def d_def g_def i_def by blast
qed

end

section \<open>Moving an entry\<close>

lemma unlink_edges: "edges (unlink_C p i C) \<subseteq> edges C"
  by (auto simp: edges_def unlink_C_def split: if_splits)

context mutable_mount
begin

definition moved :: "('t, 'n, 'f) fsMutable \<Rightarrow> inode \<Rightarrow> string \<Rightarrow> inode \<Rightarrow> inode \<Rightarrow> string \<Rightarrow> ('t, 'n, 'f) fsMutable \<Rightarrow> bool" where
  "moved s p c i p' c' s' \<longleftrightarrow> mount_ok M files s' \<and> lk M s' = link_lk p' c' i (unlink_lk p c (lk M s)) \<and> kinds M s' = kinds M s
     \<and> file_of files s' = file_of files s"

lemma move_entry_ok:
  assumes ok: "mount_ok M files s" and i: "lk M s p c = Some i" and c': "plain_comp c'" and free: "lk M s p' c' = None"
    and p': "kinds M s p' = Some True" and apart: "(i, p') \<notin> (edges (entries s))\<^sup>*"
  shows "\<exists>s'. move_entry M s i p c p' c' = Inr (s', Inr ()) \<and> moved s p c i p' c' s'"
proof -
  note okD = mount_okD [OF ok] and pl = lk_plain [OF mount_okD(1) [OF ok] i]
  obtain le where le: "mf_lookup M s p c = Some le" "le_iNode le = i" and cR: "c \<noteq> rootPath" using i by (auto simp: lk_Some)
  have mode: "le_mode le = 0" using okD(4) le(1) by (auto simp: dirs_ok_def)
  obtain rC where rC: "entries s p i = Some rC" "dt_Name rC = c" using i ns_okD(2) [OF okD(1)] by blast
  have rC_ok: "dirent_ok (kinds M s) p i rC" by (rule ns_okD(3) [OF okD(1) rC(1)])
  then have rC_i: "dt_Inode rC = i" by (simp add: dirent_ok_def)
  obtain t where del: "ir_Delete (me_L M) (mf_lookupTree s) (formLookupKey p c) = (t, Some le)" "lookL t = (lookL (mf_lookupTree s))(formLookupKey p c := None)"
    using le(1) lt.delete_old [of "mf_lookupTree s" "formLookupKey p c"] lt.delete_look [of "mf_lookupTree s" "formLookupKey p c"]
    by (cases "ir_Delete (me_L M) (mf_lookupTree s) (formLookupKey p c)") (simp add: mf_lookup_def)
  define s1 where "s1 = delete_child p i s\<lparr>mf_lookupTree := t\<rparr>"
  define d where "d = \<lparr>dt_Offset = 0, dt_Inode = i, dt_Name = c', dt_Type = dt_Type rC\<rparr>"
  define s' where "s' = insertLookupEntry M p' c' le (insertReadDirEntry p' d s1)"
  have un: "unlinked s p c i s1"
  proof (rule unlinkedI [OF ok i])
    show "lk M s1 = unlink_lk p c (lk M s)" unfolding s1_def using lk_delete [OF cR, of t "delete_child p i s" p] del(2) by simp
    show "\<exists>m0. mf_readDirMap s q = Some m0 \<and> m \<in> {m0, AList.delete i m0}" if "mf_readDirMap s1 q = Some m" for q m
      using that by (auto simp: s1_def delete_child_def split: if_splits option.splits)
    show "mf_readDirMap s1 RootInodeID \<noteq> None"
      using okD(4) by (auto simp: s1_def delete_child_def dirs_ok_def split: if_splits option.splits)
    show "mf_lookup M s q e = Some le'" if "mf_lookup M s1 q e = Some le'" for q e le'
      using that del(2) by (auto simp: s1_def mf_lookup_def split: if_splits)
  qed (simp_all add: s1_def)
  then have ok1: "mount_ok M files s1" and v1: "lk M s1 = unlink_lk p c (lk M s)" "kinds M s1 = kinds M s" "entries s1 = unlink_C p i (entries s)"
    "file_of files s1 = file_of files s" by (simp_all add: unlinked_def)
  have c'R: "c' \<noteq> rootPath" using c' by (auto simp: plain_comp_def rootPath_def)
  have mv: "move_entry M s i p c p' c' = Inr (s', Inr ())"
    using rC(1) rC_i del(1) by (simp add: move_entry_def entries_def [symmetric] s'_def d_def s1_def Let_def)
  have lk': "lk M s' = link_lk p' c' i (lk M s1)" "kinds M s' = kinds M s" "file_of files s' = file_of files s" "entries s' = link_C p' d (entries s1)"
    using c'R le(2) by (simp_all add: s'_def v1)
  have d_simps: "dt_Name d = c'" "dt_Inode d = i" by (simp_all add: d_def)
  have "linked s1 p' d s'"
  proof (rule linkedI [OF ok1], unfold d_simps)
    show "lk M s1 p' c' = None" using free by (auto simp: v1 unlink_lk_def)
    show "dirent_ok (kinds M s') p' i d" using rC_ok c' p' by (auto simp: lk' dirent_ok_def d_def)
    show "entries s1 q i = None" for q using ns_okD(4) [OF okD(1), of p i q] rC(1) unfolding v1 unlink_C_def by (cases "q = p"; cases "entries s q i") auto
    show "(i, p') \<notin> (edges (entries s1))\<^sup>*" using apart rtrancl_mono [OF unlink_edges [of p i "entries s"]] by (auto simp: v1)
    show "numbers_ok M s'" using mount_okD(2) [OF ok1] by (simp add: numbers_ok_def s'_def)
    show "files_ok M files s'" using mount_okD(3) [OF ok1] by (simp add: files_ok_def s'_def)
    show "dirs_ok M s'" unfolding s'_def using mount_okD(4) [OF ok1] p' mode by (intro dirs_insert_lookup dirs_insert_entry) (simp_all add: v1)
  qed (use lk' v1 in simp_all)
  then show ?thesis using mv lk' v1 by (auto simp: moved_def linked_def)
qed

lemma Rename_ok:
  assumes ok: "mount_ok M files s" and i: "lk M s p c = Some i" and c': "plain_comp c'" and other: "(p, c) \<noteq> (p', c')"
    and p': "kinds M s p' = Some True" and apart: "(i, p') \<notin> (edges (entries s))\<^sup>*"
    and over: "\<And>j. lk M s p' c' = Some j \<Longrightarrow> entries s j = Map.empty"
  shows "\<exists>s'. rw_Rename M s p c p' c' = Inr (s', Inr ()) \<and> mount_ok M files s'
    \<and> lk M s' = link_lk p' c' i (unlink_lk p c (unlink_lk p' c' (lk M s))) \<and> kinds M s' = kinds M s \<and> file_of files s' = file_of files s"
proof -
  obtain le where le: "mf_lookup M s p c = Some le" "le_iNode le = i" using i by (auto simp: lk_Some)
  have c'R: "c' \<noteq> rootPath" using c' by (auto simp: plain_comp_def rootPath_def)
  show ?thesis
  proof (cases "lk M s p' c'")
    case None
    then have "mf_lookup M s p' c' = None" using c'R by (simp add: lk_def)
    moreover have "unlink_lk p' c' (lk M s) = lk M s" using None by (auto simp: unlink_lk_def fun_eq_iff)
    moreover note move_entry_ok [OF ok i c' None p' apart]
    ultimately show ?thesis using le by (auto simp: rw_Rename_def moved_def)
  next
    case (Some j)
    then obtain lj where lj: "mf_lookup M s p' c' = Some lj" by (auto simp: lk_Some)
    have "le_mode lj = 0" using mount_okD(4) [OF ok] lj by (auto simp: dirs_ok_def)
    moreover from deleteNSEntry_ok [OF ok Some] over [OF Some] obtain s1 where
      del: "deleteNSEntry M s p' c' = Inr (s1, Inr ())" and "unlinked s p' c' j s1" by auto
    then have ok1: "mount_ok M files s1" and v1: "lk M s1 = unlink_lk p' c' (lk M s)" "kinds M s1 = kinds M s" "entries s1 = unlink_C p' j (entries s)"
      "file_of files s1 = file_of files s" by (simp_all add: unlinked_def)
    have "\<exists>s'. move_entry M s1 i p c p' c' = Inr (s', Inr ()) \<and> moved s1 p c i p' c' s'"
    proof (rule move_entry_ok [OF ok1])
      show "lk M s1 p c = Some i" "lk M s1 p' c' = None" using i other by (auto simp: v1 unlink_lk_def)
      show "(i, p') \<notin> (edges (entries s1))\<^sup>*" using apart rtrancl_mono [OF unlink_edges [of p' j "entries s"]] by (auto simp: v1)
    qed (use c' p' v1 in simp_all)
    ultimately show ?thesis using le lj del by (auto simp: rw_Rename_def moved_def v1 IsDir_def)
  qed
qed

end

section \<open>Requests\<close>

text \<open>
  The requests that the mount handles. One to read a directory comes with the size that an entry has in the buffer and the order in
  which this run over the map of children meets them. Opening and releasing leave the mount as it is, as does \<open>StatFS\<close>;
  all others of the interface are answered by its default, that they are not implemented.
\<close>

datatype fuse_op =
    LookUpInodeOp inode string
  | GetInodeAttributesOp inode
  | SetInodeAttributesOp inode setattr_op
  | ForgetInodeOp inode
  | MkDirOp inode string
  | CreateFileOp inode string
  | RenameOp inode string inode string
  | RmDirOp inode string
  | UnlinkOp inode string
  | ReadFileOp inode bytes int
  | WriteFileOp inode bytes int
  | ReadDirOp "nat \<Rightarrow> Dirent \<Rightarrow> nat" "(inode \<times> Dirent) list \<Rightarrow> (inode \<times> Dirent) list" inode "64 word" nat
  | FlushFileOp inode
  | SyncFileOp inode
  | OpenDirOp inode
  | ReleaseDirHandleOp
  | OpenFileOp inode
  | ReleaseFileHandleOp
  | StatFSOp

definition without_value :: "('s, 'a) fuse_out \<Rightarrow> (panic, 's \<times> fuse_err option) res" where
  "without_value r = rbind r (\<lambda>(s, v). Inr (s, case v of Inl e \<Rightarrow> Some e | Inr x \<Rightarrow> None))"

lemma without_value_simps [simp]:
  "without_value (Inl p) = Inl p" "without_value (Inr (s, Inl e)) = Inr (s, Some e)" "without_value (Inr (s, Inr x)) = Inr (s, None)"
  by (simp_all add: without_value_def)

text \<open>A request served at the time \<open>ts\<close>: the new state and the error.\<close>

fun serve :: "('t, 'n, 'f) mount_env \<Rightarrow> go_time \<Rightarrow> ('t, 'n, 'f) fsMutable \<Rightarrow> fuse_op \<Rightarrow> (panic, ('t, 'n, 'f) fsMutable \<times> fuse_err option) res" where
  "serve M ts s (LookUpInodeOp p c) = without_value (rw_LookUpInode M s p c)"
| "serve M ts s (GetInodeAttributesOp i) = without_value (Inr (s, rw_GetInodeAttributes M s i))"
| "serve M ts s (SetInodeAttributesOp i op) = without_value (Inr (rw_SetInodeAttributes M s i op))"
| "serve M ts s (ForgetInodeOp i) = without_value (rw_ForgetInode M s i)"
| "serve M ts s (MkDirOp p c) = without_value (rw_MkDir M ts s p c)"
| "serve M ts s (CreateFileOp p c) = without_value (rw_CreateFile M ts s p c)"
| "serve M ts s (RenameOp p c p' c') = without_value (rw_Rename M s p c p' c')"
| "serve M ts s (RmDirOp p c) = without_value (rw_RmDir M s p c)"
| "serve M ts s (UnlinkOp p c) = without_value (rw_Unlink M s p c)"
| "serve M ts s (ReadFileOp i dst off) = (case rw_ReadFile M s i dst off of (s', d, n, e) \<Rightarrow> Inr (s', e))"
| "serve M ts s (WriteFileOp i data off) = without_value (rw_WriteFile M s i data off)"
| "serve M ts s (ReadDirOp wd run i off room) = without_value (Inr (s, rw_ReadDir wd run s i off room))"
| "serve M ts s (FlushFileOp i) = Inr (s, rw_FlushFile M s i)"
| "serve M ts s (SyncFileOp i) = rbind (rw_SyncFile M s i) (\<lambda>e. Inr (s, e))"
| "serve M ts s (OpenDirOp i) = Inr (s, None)"
| "serve M ts s ReleaseDirHandleOp = Inr (s, None)"
| "serve M ts s (OpenFileOp i) = Inr (s, None)"
| "serve M ts s ReleaseFileHandleOp = Inr (s, None)"
| "serve M ts s StatFSOp = Inr (s, None)"

text \<open>
  The requests considered. Some restrictions are what a kernel keeps to: names are components of a path, files are read, written (at
  positions that are not negative) and truncated, directories are not, a rename goes into a directory and not below the entry itself,
  and a node that is forgotten is known and has references. The others exclude what the code does not survive or does not check: a
  directory made under a name in use, a rename of an entry onto itself or over a directory with entries in it, a
  synchronization of a file that was never read or written, the last reference to a directory given back, and a
  new node when the numbers are used up.
\<close>

fun sent :: "('t, 'n, 'f) mount_env \<Rightarrow> ('t, 'n, 'f) fsMutable \<Rightarrow> fuse_op \<Rightarrow> bool" where
  "sent M s (LookUpInodeOp p c) \<longleftrightarrow> plain_comp c"
| "sent M s (GetInodeAttributesOp i) \<longleftrightarrow> True"
| "sent M s (SetInodeAttributesOp i op) \<longleftrightarrow> (sa_Size op \<noteq> None \<longrightarrow> kinds M s i \<noteq> Some True)"
| "sent M s (ForgetInodeOp i) \<longleftrightarrow> (\<exists>n. get_node M s i = Some n \<and> (if node_IsDir n then 1 < ne_refCount n else 0 < ne_refCount n))"
| "sent M s (MkDirOp p c) \<longleftrightarrow> plain_comp c \<and> preCreateCheck M s p c = None \<and> ig_highestInode (mf_iNodeGenerator s) \<noteq> - 1"
| "sent M s (CreateFileOp p c) \<longleftrightarrow> plain_comp c \<and> ig_highestInode (mf_iNodeGenerator s) \<noteq> - 1"
| "sent M s (RenameOp p c p' c') \<longleftrightarrow> plain_comp c \<and> plain_comp c' \<and> (p, c) \<noteq> (p', c') \<and> kinds M s p' = Some True
     \<and> (\<forall>i. lk M s p c = Some i \<longrightarrow> (i, p') \<notin> (edges (entries s))\<^sup>*) \<and> (\<forall>j. lk M s p' c' = Some j \<longrightarrow> entries s j = Map.empty)"
| "sent M s (RmDirOp p c) \<longleftrightarrow> plain_comp c"
| "sent M s (UnlinkOp p c) \<longleftrightarrow> plain_comp c"
| "sent M s (ReadFileOp i dst off) \<longleftrightarrow> kinds M s i = Some False"
| "sent M s (WriteFileOp i data off) \<longleftrightarrow> kinds M s i = Some False \<and> 0 \<le> off"
| "sent M s (SyncFileOp i) \<longleftrightarrow> mf_backingFiles s i \<noteq> None"
| "sent M s op \<longleftrightarrow> True"

text \<open>The states of a mount from its start.\<close>

inductive mounted :: "('t, 'n, 'f) mount_env \<Rightarrow> ('t, 'n, 'f) fsMutable \<Rightarrow> ('t, 'n, 'f) fsMutable \<Rightarrow> bool" for M s0 where
  start: "mounted M s0 s0"
| served: "mounted M s0 s \<Longrightarrow> sent M s op \<Longrightarrow> serve M ts s op = Inr (s', e) \<Longrightarrow> mounted M s0 s'"

section \<open>What the requests do\<close>

definition kept :: "('t, 'n, 'f) mount_env \<Rightarrow> ('f \<Rightarrow> string \<Rightarrow> bytes option) \<Rightarrow> ('t, 'n, 'f) fsMutable \<Rightarrow> ('t, 'n, 'f) fsMutable \<Rightarrow> bool" where
  "kept M files s s' \<longleftrightarrow> mount_ok M files s' \<and> lk M s' = lk M s \<and> kinds M s' = kinds M s \<and> file_of files s' = file_of files s"

lemma keptI: "mount_ok M files s \<Longrightarrow> kept M files s s"
  by (simp add: kept_def)

lemma plain_not_root: "plain_comp c \<Longrightarrow> c \<noteq> rootPath"
  by (auto simp: plain_comp_def rootPath_def)

context mutable_mount
begin

text \<open>A node may change where its kind, its size and its links stay.\<close>

lemma kept_set_node:
  assumes ok: "mount_ok M files s" and n: "get_node M s i = Some n" and n': "node_IsDir n' = node_IsDir n"
    and links: "\<not> node_IsDir n \<Longrightarrow> at_Nlink (ne_attr n') = at_Nlink (ne_attr n)" "\<not> node_IsDir n \<Longrightarrow> at_Size (ne_attr n') = at_Size (ne_attr n)"
  shows "kept M files s (set_node M i n' s)"
proof -
  note okD = mount_okD [OF ok]
  have K: "kinds M (set_node M i n' s) = kinds M s" using n n' by (auto simp: kinds_def fun_eq_iff)
  have "dirs_ok M (set_node M i n' s)" using n n' by (intro dirs_set_node [OF okD(4)]) (simp add: kinds_def)
  moreover have "files_ok M files (set_node M i n' s)" using okD(3) n n' links by (auto simp: files_ok_def)
  ultimately show ?thesis using okD unfolding kept_def mount_ok_def numbers_ok_def K by simp
qed

lemma LookUp_ok:
  assumes ok: "mount_ok M files s" and c: "plain_comp c"
  shows "\<exists>s'. serve M ts s (LookUpInodeOp p c) = Inr (s', if lk M s p c = None then Some ENOENT else None) \<and> kept M files s s'"
proof (cases "lk M s p c")
  case None
  then show ?thesis using keptI [OF ok] plain_not_root [OF c] by (simp add: rw_LookUpInode_def lk_def)
next
  case (Some i)
  obtain le where le: "mf_lookup M s p c = Some le" "le_iNode le = i" using Some by (auto simp: lk_Some)
  obtain n where n: "get_node M s i = Some n" using lk_plain [OF mount_okD(1) [OF ok] Some] by (auto simp: kinds_def)
  show ?thesis using kept_set_node [OF ok n, of "n\<lparr>ne_refCount := ne_refCount n + 1\<rparr>"] le n Some by (simp add: rw_LookUpInode_def)
qed

lemma Forget_ok:
  assumes ok: "mount_ok M files s" and "sent M s (ForgetInodeOp i)"
  shows "\<exists>s'. serve M ts s (ForgetInodeOp i) = Inr (s', None) \<and> kept M files s s'"
proof -
  obtain n where n: "get_node M s i = Some n" "if node_IsDir n then 1 < ne_refCount n else 0 < ne_refCount n" using assms(2) by auto
  let ?n = "n\<lparr>ne_refCount := ne_refCount n - 1\<rparr>"
  have "\<not> shouldDelete ?n" using n mount_okD(3) [OF ok] by (auto simp: shouldDelete_def files_ok_def fileLinkCount_def split: if_splits)
  moreover have "\<not> ne_refCount ?n < 0" using n(2) by (simp split: if_splits)
  ultimately show ?thesis using kept_set_node [OF ok n(1), of ?n] n(1) by (simp add: rw_ForgetInode_def Let_def)
qed

lemma make_ok:
  assumes ok: "mount_ok M files s" and c: "plain_comp c" and room: "ig_highestInode (mf_iNodeGenerator s) \<noteq> - 1"
    and t: "t \<in> {DT_File, DT_Directory}" and check: "preCreateCheck M s p c = None"
  shows "\<exists>i s'. createNode M ts s p c t False = Inr (s', Inr (i, new_attr t ts)) \<and> node_made s p c t i s'"
proof (rule createNode_ok [OF ok room c _ _ t])
  show "kinds M s p = Some True" "lk M s p c = None" using check plain_not_root [OF c]
    by (auto simp: preCreateCheck_def kinds_def lk_def split: option.splits if_splits)
qed

end

text \<open>The contents of a file may change with the size in its attributes.\<close>

definition rewritten :: "('t, 'n, 'f) mount_env \<Rightarrow> ('f \<Rightarrow> string \<Rightarrow> bytes option) \<Rightarrow> ('t, 'n, 'f) fsMutable \<Rightarrow> inode \<Rightarrow> bytes \<Rightarrow> ('t, 'n, 'f) fsMutable \<Rightarrow> bool" where
  "rewritten M files s i d s' \<longleftrightarrow> mount_ok M files s' \<and> lk M s' = lk M s \<and> kinds M s' = kinds M s \<and> file_of files s' = (file_of files s)(i \<mapsto> d)
     \<and> mf_iNodeGenerator s' = mf_iNodeGenerator s"

context mutable_mount
begin

lemma file_node:
  assumes "mount_ok M files s" and "kinds M s i = Some False"
  shows "\<exists>n d. get_node M s i = Some n \<and> \<not> node_IsDir n \<and> file_of files s i = Some d \<and> at_Size (ne_attr n) = length d \<and> at_Nlink (ne_attr n) = fileLinkCount"
  using assms mount_okD(3) [OF assms(1)] by (auto simp: kinds_Some files_ok_def)

lemma rewrittenI:
  assumes ok: "mount_ok M files s" and n: "get_node M s i = Some n" "\<not> node_IsDir n"
    and n': "\<not> node_IsDir n'" "at_Nlink (ne_attr n') = fileLinkCount" "at_Size (ne_attr n') = length d"
    and c: "files c = (files (mf_localCache s))(getPathToBackingFile i \<mapsto> d)"
  shows "rewritten M files s i d (set_node M i n' (s\<lparr>mf_localCache := c, mf_backingFiles := b\<rparr>))"
proof -
  let ?s = "s\<lparr>mf_localCache := c, mf_backingFiles := b\<rparr>"
  note okD = mount_okD [OF ok]
  have K: "kinds M (set_node M i n' ?s) = kinds M s" using n n' by (auto simp: kinds_def fun_eq_iff)
  have f: "file_of files (set_node M i n' ?s) = (file_of files s)(i \<mapsto> d)" using file_of_storage [OF c] by simp
  have "dirs_ok M ?s" using okD(4) by (simp add: dirs_ok_def)
  then have "dirs_ok M (set_node M i n' ?s)" using n n' by (intro dirs_set_node) (simp_all add: kinds_def)
  moreover have "files_ok M files (set_node M i n' ?s)" using okD(3) n n' unfolding files_ok_def f by auto
  ultimately show ?thesis using okD f K unfolding rewritten_def mount_ok_def numbers_ok_def K by simp
qed

lemma SetAttr_ok:
  assumes ok: "mount_ok M files s" and "sent M s (SetInodeAttributesOp i op)"
  shows "(\<exists>s' e. serve M ts s (SetInodeAttributesOp i op) = Inr (s', e) \<and> kept M files s s' \<and> (e = None \<longrightarrow> sa_Size op = None)
      \<and> (\<forall>n. sa_Size op = Some n \<longrightarrow> sa_Mode op = None \<longrightarrow> kinds M s i = Some False \<longrightarrow> 2 ^ 63 \<le> n \<and> e = Some EINVAL))
    \<or> (\<exists>s' n d. serve M ts s (SetInodeAttributesOp i op) = Inr (s', None) \<and> sa_Size op = Some n \<and> n < 2 ^ 63 \<and> kinds M s i = Some False
         \<and> file_of files s i = Some d \<and> rewritten M files s i (resize n d) s')"
proof (cases "sa_Mode op = None \<and> get_node M s i \<noteq> None")
  case False
  then show ?thesis using keptI [OF ok] by (auto simp: rw_SetInodeAttributes_def kinds_def)
next
  case True
  then obtain n where mode: "sa_Mode op = None" and n: "get_node M s i = Some n" by auto
  define stamp where "stamp = (\<lambda>a :: InodeAttributes. let a1 = (case sa_Atime op of None \<Rightarrow> a | Some t \<Rightarrow> a\<lparr>at_Atime := t\<rparr>)
    in case sa_Mtime op of None \<Rightarrow> a1 | Some t \<Rightarrow> a1\<lparr>at_Mtime := t\<rparr>)"
  have stamp: "at_Mode (stamp a) = at_Mode a" "at_Size (stamp a) = at_Size a" "at_Nlink (stamp a) = at_Nlink a" for a
    by (auto simp: stamp_def Let_def split: option.splits)
  have serve: "serve M ts s (SetInodeAttributesOp i op) = (case set_size M s i (sa_Size op) (ne_attr n) of
      (s1, Inl e) \<Rightarrow> Inr (s1, Some e) | (s1, Inr a) \<Rightarrow> Inr (set_node M i (n\<lparr>ne_attr := stamp a\<rparr>) s1, None))"
    using mode n by (simp add: rw_SetInodeAttributes_def stamp_def Let_def split: prod.split sum.split)
  show ?thesis
  proof (cases "sa_Size op")
    case None
    then show ?thesis using kept_set_node [OF ok n, of "n\<lparr>ne_attr := stamp (ne_attr n)\<rparr>"] stamp serve by (simp add: set_size_def)
  next
    case (Some sz)
    with assms(2) n have nd: "\<not> node_IsDir n" by (auto simp: kinds_def)
    then have K: "kinds M s i = Some False" using n by (simp add: kinds_def)
    from file_node [OF ok K] n obtain d where d: "file_of files s i = Some d" "at_Nlink (ne_attr n) = fileLinkCount" by auto
    then have d': "files (mf_localCache s) (show_nat (unat i)) = Some d" by (simp add: file_of_def getPathToBackingFile_def)
    show ?thesis
    proof (cases "2 ^ 63 \<le> sz")
      case True
      then show ?thesis using keptI [OF ok] Some serve sg.open_there [of "mf_localCache s" "unat i"] d' by (simp add: set_size_def)
    next
      case False
      from sg.truncate [OF d', of sz] obtain c where
        c: "rw_Truncate (me_F M) (mf_localCache s) (show_nat (unat i)) sz = (c, None)"
          "files c = (files (mf_localCache s))(getPathToBackingFile i \<mapsto> resize sz d)" by (auto simp: getPathToBackingFile_def)
      let ?n = "n\<lparr>ne_attr := stamp ((ne_attr n)\<lparr>at_Size := sz\<rparr>)\<rparr>"
      have "rewritten M files s i (resize sz d) (set_node M i ?n (s\<lparr>mf_localCache := c\<rparr>))"
        using rewrittenI [OF ok n nd _ _ _ c(2), of ?n "mf_backingFiles s"] nd d stamp by simp
      moreover have "serve M ts s (SetInodeAttributesOp i op) = Inr (set_node M i ?n (s\<lparr>mf_localCache := c\<rparr>), None)"
        using serve Some False c(1) sg.open_there [of "mf_localCache s" "unat i"] d' by (simp add: set_size_def)
      ultimately show ?thesis using Some False K d by auto
    qed
  qed
qed

lemma SetAttr_times:
  assumes ok: "mount_ok M files s" and "sa_Mode op = None" and "kinds M s i \<noteq> None" and "sa_Size op = None"
  shows "\<exists>s'. serve M ts s (SetInodeAttributesOp i op) = Inr (s', None) \<and> kept M files s s'"
proof -
  obtain n where n: "get_node M s i = Some n" using assms(3) by (auto simp: kinds_def)
  define a1 where "a1 = (case sa_Atime op of None \<Rightarrow> ne_attr n | Some t \<Rightarrow> (ne_attr n)\<lparr>at_Atime := t\<rparr>)"
  define a where "a = (case sa_Mtime op of None \<Rightarrow> a1 | Some t \<Rightarrow> a1\<lparr>at_Mtime := t\<rparr>)"
  have "serve M ts s (SetInodeAttributesOp i op) = Inr (set_node M i (n\<lparr>ne_attr := a\<rparr>) s, None)"
    using n assms(2,4) unfolding a_def a1_def by (simp add: rw_SetInodeAttributes_def set_size_def Let_def)
  moreover have "at_Mode a = at_Mode (ne_attr n)" "at_Size a = at_Size (ne_attr n)" "at_Nlink a = at_Nlink (ne_attr n)"
    by (auto simp: a_def a1_def split: option.splits)
  ultimately show ?thesis using kept_set_node [OF ok n, of "n\<lparr>ne_attr := a\<rparr>"] by simp
qed

lemma backing_keeps [simp]:
  "get_node M (s\<lparr>mf_backingFiles := b\<rparr>) = get_node M s" "kinds M (s\<lparr>mf_backingFiles := b\<rparr>) = kinds M s"
  "mf_lookup M (s\<lparr>mf_backingFiles := b\<rparr>) = mf_lookup M s" "lk M (s\<lparr>mf_backingFiles := b\<rparr>) = lk M s"
  "entries (s\<lparr>mf_backingFiles := b\<rparr>) = entries s" "file_of files (s\<lparr>mf_backingFiles := b\<rparr>) = file_of files s"
  by (auto simp: get_node_def kinds_def lk_def mf_lookup_def entries_def dir_entries_def file_of_def fun_eq_iff)

lemma Read_ok:
  assumes ok: "mount_ok M files s"
  shows "\<exists>s' e. serve M ts s (ReadFileOp i dst off) = Inr (s', e) \<and> kept M files s s'"
proof -
  have same: "kept M files s (s\<lparr>mf_backingFiles := b\<rparr>)" for b
    using ok by (simp add: kept_def mount_ok_def numbers_ok_def files_ok_def dirs_ok_def)
  show ?thesis using same keptI [OF ok] by (auto simp: rw_ReadFile_def Let_def split: option.splits prod.splits)
qed

lemma Write_ok:
  assumes ok: "mount_ok M files s" and i: "kinds M s i = Some False" and off: "0 \<le> off"
  shows "\<exists>s' d. serve M ts s (WriteFileOp i data off) = Inr (s', None) \<and> file_of files s i = Some d \<and> rewritten M files s i (write_at d (nat off) data) s'"
proof -
  from file_node [OF ok i] obtain n d where n: "get_node M s i = Some n" "\<not> node_IsDir n" and d: "file_of files s i = Some d" "at_Nlink (ne_attr n) = fileLinkCount"
    by auto
  let ?k = "show_nat (unat i)" and ?d = "write_at d (nat off) data"
  have d': "files (mf_localCache s) ?k = Some d" using d by (simp add: file_of_def getPathToBackingFile_def)
  from sg.writeAt [OF d' off, of data] obtain c where
    c: "rw_WriteAt (me_F M) (mf_localCache s) ?k data off = (c, length data, None)" "files c = (files (mf_localCache s))(?k \<mapsto> ?d)" by auto
  let ?b = "(mf_backingFiles s)(i \<mapsto> ?k)" and ?n = "n\<lparr>ne_attr := (ne_attr n)\<lparr>at_Size := length ?d\<rparr>\<rparr>"
  let ?s1 = "s\<lparr>mf_localCache := c, mf_backingFiles := ?b\<rparr>"
  have eq: "s\<lparr>mf_backingFiles := ?b, mf_localCache := c\<rparr> = ?s1" by simp
  have "rw_Stat (me_F M) c ?k = Inr (length ?d)" using c(2) by (intro sg.size_of) simp
  then have "serve M ts s (WriteFileOp i data off) = Inr (set_node M i ?n ?s1, None)"
    using sg.open_there [of "mf_localCache s" "unat i"] d' c(1) n(1) unfolding serve.simps rw_WriteFile_def Let_def getPathToBackingFile_def
    by (simp only: eq option.distinct simp_thms if_False prod.case option.case storage_keeps sum.case without_value_simps)
  moreover have "rewritten M files s i ?d (set_node M i ?n ?s1)"
    by (rule rewrittenI [OF ok n]) (use n d c(2) in \<open>simp_all add: getPathToBackingFile_def\<close>)
  ultimately show ?thesis using d(1) by blast
qed

end

end
