(* ===== verification/FuseSim.thy ===== *)
theory FuseSim
  imports FuseState
begin

text \<open>
  The mutable mount implements a file system: a map from paths to directories and files on which each
  request has the effect of its call. The states of a mount keep the invariant from the start, and no request as \<open>sent\<close> describes
  them stops the program.
\<close>

section \<open>A file system of paths\<close>

datatype node_view = VDir | VFile (content: bytes)

type_synonym path_tree = "string list \<Rightarrow> node_view option"

datatype path_op =
    PLookUp "string list" string
  | PMake "string list" string node_view
  | PRemove "string list" string
  | PRename "string list" string "string list" string
  | PWrite "string list" nat bytes
  | PTruncate "string list" nat
  | PAnswer "fuse_err option"
  | PKeep

definition fs_move :: "string list \<Rightarrow> string list \<Rightarrow> path_tree \<Rightarrow> path_tree" where
  "fs_move q q' t r = (if prefix q' r then t (q @ drop (length q') r) else if prefix q r then None else t r)"

text \<open>
  The tree and the error after a call: names are unique in a directory, only an entry without entries of its
  own is removed, a rename moves all that is below. \<open>PAnswer\<close> and \<open>PKeep\<close> leave the tree as it is, the first with a given answer, the
  second with one that is up to the backing files.
\<close>

fun fs_call :: "path_op \<Rightarrow> path_tree \<Rightarrow> path_tree \<Rightarrow> fuse_err option \<Rightarrow> bool" where
  "fs_call (PLookUp q c) t t' e \<longleftrightarrow> t' = t \<and> e = (if t (q @ [c]) = None then Some ENOENT else None)"
| "fs_call (PMake q c v) t t' e \<longleftrightarrow>
     (if t q \<noteq> Some VDir then t' = t \<and> e = Some ENOTDIR
      else if t (q @ [c]) \<noteq> None then t' = t \<and> e = Some EEXIST
      else t' = t(q @ [c] \<mapsto> v) \<and> e = None)"
| "fs_call (PRemove q c) t t' e \<longleftrightarrow>
     (if t (q @ [c]) = None then t' = t \<and> e = Some ENOENT
      else if \<exists>d. t (q @ [c, d]) \<noteq> None then t' = t \<and> e = Some ENOTEMPTY
      else t' = t(q @ [c] := None) \<and> e = None)"
| "fs_call (PRename q c q' c') t t' e \<longleftrightarrow>
     (if t (q @ [c]) = None then t' = t \<and> e = Some ENOENT else t' = fs_move (q @ [c]) (q' @ [c']) t \<and> e = None)"
| "fs_call (PWrite q off data) t t' e \<longleftrightarrow> t' = t(q \<mapsto> VFile (write_at (content (the (t q))) off data)) \<and> e = None"
| "fs_call (PTruncate q n) t t' e \<longleftrightarrow>
     (if 2 ^ 63 \<le> n then t' = t \<and> e = Some EINVAL else t' = t(q \<mapsto> VFile (resize n (content (the (t q))))) \<and> e = None)"
| "fs_call (PAnswer a) t t' e \<longleftrightarrow> t' = t \<and> e = a"
| "fs_call PKeep t t' e \<longleftrightarrow> t' = t"

text \<open>The tree that a mount shows, and the call that a request is on it.\<close>

definition node_at :: "('t, 'n, 'f) mount_env \<Rightarrow> ('t, 'n, 'f) fsMutable \<Rightarrow> string list \<Rightarrow> inode option" where
  "node_at M s r = walk (lk M s) RootInodeID r"

definition view :: "('t, 'n, 'f) mount_env \<Rightarrow> ('f \<Rightarrow> string \<Rightarrow> bytes option) \<Rightarrow> ('t, 'n, 'f) fsMutable \<Rightarrow> inode \<Rightarrow> node_view" where
  "view M files s i = (if kinds M s i = Some True then VDir else VFile (the (file_of files s i)))"

definition tree :: "('t, 'n, 'f) mount_env \<Rightarrow> ('f \<Rightarrow> string \<Rightarrow> bytes option) \<Rightarrow> ('t, 'n, 'f) fsMutable \<Rightarrow> path_tree" where
  "tree M files s r = map_option (view M files s) (node_at M s r)"

inductive denotes :: "('t, 'n, 'f) mount_env \<Rightarrow> ('t, 'n, 'f) fsMutable \<Rightarrow> fuse_op \<Rightarrow> path_op \<Rightarrow> bool" for M s where
  "node_at M s q = Some p \<Longrightarrow> denotes M s (LookUpInodeOp p c) (PLookUp q c)"
| "node_at M s q = Some p \<Longrightarrow> denotes M s (MkDirOp p c) (PMake q c VDir)"
| "node_at M s q = Some p \<Longrightarrow> denotes M s (CreateFileOp p c) (PMake q c (VFile []))"
| "node_at M s q = Some p \<Longrightarrow> denotes M s (RmDirOp p c) (PRemove q c)"
| "node_at M s q = Some p \<Longrightarrow> denotes M s (UnlinkOp p c) (PRemove q c)"
| "node_at M s q = Some p \<Longrightarrow> node_at M s q' = Some p' \<Longrightarrow> denotes M s (RenameOp p c p' c') (PRename q c q' c')"
| "node_at M s q = Some i \<Longrightarrow> denotes M s (WriteFileOp i data off) (PWrite q (nat off) data)"
| "(\<And>q. node_at M s q \<noteq> Some i) \<Longrightarrow> denotes M s (WriteFileOp i data off) (PAnswer None)"
| "node_at M s q = Some i \<Longrightarrow> sa_Mode op = None \<Longrightarrow> sa_Size op = Some n \<Longrightarrow> denotes M s (SetInodeAttributesOp i op) (PTruncate q n)"
| "(\<And>q. node_at M s q \<noteq> Some i) \<Longrightarrow> kinds M s i = Some False \<Longrightarrow> sa_Mode op = None \<Longrightarrow> sa_Size op = Some n \<Longrightarrow>
     denotes M s (SetInodeAttributesOp i op) (PAnswer (if 2 ^ 63 \<le> n then Some EINVAL else None))"
| "sa_Mode op \<noteq> None \<Longrightarrow> denotes M s (SetInodeAttributesOp i op) (PAnswer (Some ENOSYS))"
| "sa_Mode op = None \<Longrightarrow> kinds M s i = None \<Longrightarrow> denotes M s (SetInodeAttributesOp i op) (PAnswer (Some ENOENT))"
| "sa_Mode op = None \<Longrightarrow> kinds M s i \<noteq> None \<Longrightarrow> sa_Size op = None \<Longrightarrow> denotes M s (SetInodeAttributesOp i op) (PAnswer None)"
| "denotes M s (GetInodeAttributesOp i) (PAnswer (if kinds M s i = None then Some ENOENT else None))"
| "denotes M s (ForgetInodeOp i) (PAnswer None)"
| "denotes M s (ReadFileOp i dst off) PKeep"
| "denotes M s (ReadDirOp wd run i off room) (PAnswer (if mf_readDirMap s i = None then Some ENOENT else None))"
| "denotes M s (FlushFileOp i) PKeep"
| "denotes M s (SyncFileOp i) PKeep"
| "op \<in> {OpenDirOp i, ReleaseDirHandleOp, OpenFileOp i, ReleaseFileHandleOp, StatFSOp} \<Longrightarrow> denotes M s op (PAnswer None)"

section \<open>Paths of a mount\<close>

lemma walk_kind: "ns_ok l K C \<Longrightarrow> walk l RootInodeID r = Some j \<Longrightarrow> K j \<noteq> None"
  by (cases r rule: rev_cases) (use ns_okD(1) lk_plain in \<open>fastforce simp: walk_snoc\<close>)+

lemma leaf_lk: "ns_ok l K C \<Longrightarrow> C i = Map.empty \<Longrightarrow> l i c = None"
  using ns_okD(2) [of l K C i c] by (cases "l i c") auto

lemma walk_leaf: "ns_ok l K C \<Longrightarrow> C i = Map.empty \<Longrightarrow> walk l i ds = (if ds = [] then Some i else None)"
  by (cases ds) (simp_all add: leaf_lk)

lemma file_leaf: "ns_ok l K C \<Longrightarrow> K i \<noteq> Some True \<Longrightarrow> C i = Map.empty"
  using ns_okD(3) [of l K C i] by (intro ext) (metis dirent_ok_def option.exhaust)

text \<open>A new leaf is one more path.\<close>

lemma walk_new_leaf:
  assumes ok: "ns_ok l K C" and q: "walk l RootInodeID q = Some p" and free: "l p c = None" and leaf: "C i = Map.empty" and ip: "i \<noteq> p"
  shows "walk (link_lk p c i l) RootInodeID r = (if r = q @ [c] then Some i else walk l RootInodeID r)"
proof -
  have "(i, p) \<notin> (edges C)\<^sup>*"
  proof
    assume "(i, p) \<in> (edges C)\<^sup>*"
    then show False by (cases rule: converse_rtranclE) (use ip leaf in \<open>simp_all add: in_edges\<close>)
  qed
  note link = walk_link [OF ok q this, of c r]
  show ?thesis
  proof (cases "prefix (q @ [c]) r")
    case True
    then obtain ds where r: "r = (q @ [c]) @ ds" by (auto simp: prefix_def)
    have "walk l RootInodeID r = None" unfolding r using q free by (simp add: walk_append)
    then show ?thesis using link True walk_leaf [OF ok leaf] unfolding r by simp
  qed (use link in auto)
qed

text \<open>Without a leaf there is one path less.\<close>

lemma walk_no_leaf:
  assumes ok: "ns_ok l K C" and q: "walk l RootInodeID q = Some p" and i: "l p c = Some i" and leaf: "C i = Map.empty"
  shows "walk (unlink_lk p c l) RootInodeID r = (if r = q @ [c] then None else walk l RootInodeID r)"
proof (cases "prefix (q @ [c]) r")
  case True
  then obtain ds where r: "r = (q @ [c]) @ ds" by (auto simp: prefix_def)
  have "walk l RootInodeID r = (if ds = [] then Some i else None)" unfolding r using q i walk_leaf [OF ok leaf] by (simp add: walk_append)
  then show ?thesis using walk_unlink [OF ok q, of c r] True r by simp
qed (use walk_unlink [OF ok q, of c r] in auto)

text \<open>A move takes along what is below.\<close>

lemma ns_unlink_any:
  assumes "ns_ok l K C"
  shows "\<exists>C'. ns_ok (unlink_lk p c l) K C' \<and> edges C' \<subseteq> edges C"
proof (cases "l p c")
  case None
  then have "unlink_lk p c l = l" by (auto simp: unlink_lk_def fun_eq_iff)
  then show ?thesis using assms by auto
next
  case (Some i)
  show ?thesis using ns_unlink [OF assms Some] unlink_edges by blast
qed

lemma walk_move:
  assumes ok: "ns_ok l K C" and q: "walk l RootInodeID q = Some p" and i: "l p c = Some i" and q': "walk l RootInodeID q' = Some p'"
    and apart: "(i, p') \<notin> (edges C)\<^sup>*" and over: "\<And>j. l p' c' = Some j \<Longrightarrow> C j = Map.empty"
  shows "walk (link_lk p' c' i (unlink_lk p c (unlink_lk p' c' l))) RootInodeID r =
    (if prefix (q' @ [c']) r then walk l RootInodeID (q @ [c] @ drop (length q' + 1) r)
     else if prefix (q @ [c]) r then None else walk l RootInodeID r)"
proof -
  let ?l1 = "unlink_lk p' c' l" and ?l2 = "unlink_lk p c (unlink_lk p' c' l)"
  obtain C1 where ok1: "ns_ok ?l1 K C1" "edges C1 \<subseteq> edges C" using ns_unlink_any [OF ok] by blast
  then obtain C2 where ok2: "ns_ok ?l2 K C2" "edges C2 \<subseteq> edges C" using ns_unlink_any [OF ok1(1), of p c] by blast
  have not_below: "\<not> prefix (q @ [c]) q'"
  proof
    assume "prefix (q @ [c]) q'"
    then obtain ds where "q' = (q @ [c]) @ ds" by (auto simp: prefix_def)
    then have "walk l i ds = Some p'" using q' q i by (simp add: walk_append)
    with walk_edges [OF ok] apart show False by blast
  qed
  show ?thesis
  proof (cases "prefix (q' @ [c']) q")
    case False
    have q1: "walk ?l1 RootInodeID q = Some p" using walk_unlink [OF ok q', of c' q] False q by simp
    have w2: "walk ?l2 RootInodeID r = (if prefix (q @ [c]) r then None else if prefix (q' @ [c']) r then None else walk l RootInodeID r)" for r
      using walk_unlink [OF ok1(1) q1, of c r] walk_unlink [OF ok q', of c' r] by simp
    have "walk ?l2 RootInodeID q' = Some p'" using w2 [of q'] not_below q' by (simp add: prefix_def)
    moreover have "(i, p') \<notin> (edges C2)\<^sup>*" using apart rtrancl_mono [OF ok2(2)] by blast
    ultimately have link: "walk (link_lk p' c' i ?l2) RootInodeID r = (if prefix (q' @ [c']) r then walk ?l2 i (drop (length q' + 1) r) else walk ?l2 RootInodeID r)"
      by (rule walk_link [OF ok2(1)])
    have below: "walk ?l2 i ds = walk l i ds" for ds
    proof -
      have "walk ?l2 i ds = walk ?l1 i ds"
        by (rule walk_unchanged [where q = p and c = c]) (use walk_edges [OF ok1(1)] no_cycle [OF ok i] rtrancl_mono [OF ok1(2)] in \<open>auto simp: unlink_lk_def\<close>)
      also have "\<dots> = walk l i ds"
        by (rule walk_unchanged [where q = p' and c = c']) (use walk_edges [OF ok] apart in \<open>auto simp: unlink_lk_def\<close>)
      finally show ?thesis .
    qed
    show ?thesis using link w2 [of r] below q i by (simp add: walk_append)
  next
    case True
    then obtain ds where "q = (q' @ [c']) @ ds" by (auto simp: prefix_def)
    then obtain j where j: "l p' c' = Some j" "walk l j ds = Some p" using q q' by (auto simp: walk_append split: option.splits)
    then have "p = j" using walk_leaf [OF ok over [OF j(1)], of ds] by (auto split: if_splits)
    then show ?thesis using leaf_lk [OF ok over [OF j(1)], of c] i by simp
  qed
qed

section \<open>Requests as calls\<close>

context mutable_mount
begin

lemma tree_node: "node_at M s q = Some p \<Longrightarrow> tree M files s q = Some (view M files s p)"
  by (simp add: tree_def)

lemma tree_child: "node_at M s q = Some p \<Longrightarrow> tree M files s (q @ [c]) = map_option (view M files s) (lk M s p c)"
  by (simp add: tree_def node_at_def walk_append split: option.split)

lemma tree_kept: "kept M files s s' \<Longrightarrow> tree M files s' = tree M files s"
proof
  fix r
  assume k: "kept M files s s'"
  then have "view M files s' = view M files s" by (simp add: view_def kept_def fun_eq_iff)
  with k show "tree M files s' r = tree M files s r" by (simp add: tree_def node_at_def kept_def)
qed

lemma view_eqI: "kinds M s' j = kinds M s j \<Longrightarrow> file_of files s' j = file_of files s j \<Longrightarrow> view M files s' j = view M files s j"
  by (simp add: view_def)

lemma tree_made:
  assumes ok: "mount_ok M files s" and q: "node_at M s q = Some p" and made: "node_made s p c t i s'" and free: "lk M s p c = None" and t: "t \<in> {DT_File, DT_Directory}"
  shows "tree M files s' = (tree M files s)(q @ [c] \<mapsto> (if t = DT_Directory then VDir else VFile []))"
proof
  fix r
  note ns = mount_okD(1) [OF ok] and q' = q [unfolded node_at_def]
  have v: "lk M s' = link_lk p c i (lk M s)" "kinds M s i = None" "kinds M s' = (kinds M s)(i \<mapsto> t = DT_Directory)" "entries s i = Map.empty"
    "file_of files s' = (if t = DT_Directory then file_of files s else (file_of files s)(i \<mapsto> []))"
    using made by (auto simp: node_made_def linked_def)
  have "i \<noteq> p" using walk_kind [OF ns q'] v(2) by auto
  note w = walk_new_leaf [OF ns q' free v(4) this, of r]
  show "tree M files s' r = ((tree M files s)(q @ [c] \<mapsto> (if t = DT_Directory then VDir else VFile []))) r"
  proof (cases "r = q @ [c]")
    case True
    then show ?thesis using w v t by (auto simp: tree_def node_at_def view_def)
  next
    case False
    have "view M files s' j = view M files s j" if "walk (lk M s) RootInodeID r = Some j" for j
      using walk_kind [OF ns that] v by (intro view_eqI) auto
    with False w show ?thesis by (cases "walk (lk M s) RootInodeID r") (simp_all add: tree_def node_at_def v(1))
  qed
qed

lemma tree_unlinked:
  assumes ok: "mount_ok M files s" and q: "node_at M s q = Some p" and i: "lk M s p c = Some i" and un: "unlinked s p c i s'" and leaf: "entries s i = Map.empty"
  shows "tree M files s' = (tree M files s)(q @ [c] := None)"
proof
  fix r
  have v: "lk M s' = unlink_lk p c (lk M s)" "kinds M s' = kinds M s" "file_of files s' = file_of files s" using un by (simp_all add: unlinked_def)
  have "view M files s' = view M files s" by (simp add: view_def fun_eq_iff v)
  with walk_no_leaf [OF mount_okD(1) [OF ok] q [unfolded node_at_def] i leaf, of r]
  show "tree M files s' r = ((tree M files s)(q @ [c] := None)) r" by (simp add: tree_def node_at_def v)
qed

lemma tree_rewritten:
  assumes ok: "mount_ok M files s" and i: "kinds M s i = Some False" and re: "rewritten M files s i d s'"
  shows "node_at M s q = Some i \<Longrightarrow> tree M files s' = (tree M files s)(q \<mapsto> VFile d)"
    and "(\<And>q. node_at M s q \<noteq> Some i) \<Longrightarrow> tree M files s' = tree M files s"
proof -
  have v: "lk M s' = lk M s" "kinds M s' = kinds M s" "file_of files s' = (file_of files s)(i \<mapsto> d)" using re by (simp_all add: rewritten_def)
  have n: "node_at M s' = node_at M s" by (simp add: node_at_def v fun_eq_iff)
  have new: "view M files s' j = (if j = i then VFile d else view M files s j)" for j by (simp add: view_def v i)
  have one: "r = q" if "node_at M s q = Some i" "node_at M s r = Some i" for r q
    using that walk_root_inj [OF mount_okD(1) [OF ok]] by (auto simp: node_at_def)
  show "tree M files s' = (tree M files s)(q \<mapsto> VFile d)" if "node_at M s q = Some i"
  proof
    fix r
    show "tree M files s' r = ((tree M files s)(q \<mapsto> VFile d)) r"
      using that one [OF that, of r] by (cases "node_at M s r") (auto simp: tree_def n new)
  qed
  show "tree M files s' = tree M files s" if other: "\<And>q. node_at M s q \<noteq> Some i"
  proof
    fix r
    show "tree M files s' r = tree M files s r" using other [of r] by (cases "node_at M s r") (auto simp: tree_def n new)
  qed
qed

lemma make_call:
  assumes ok: "mount_ok M files s" and c: "plain_comp c" and room: "ig_highestInode (mf_iNodeGenerator s) \<noteq> - 1" and q: "node_at M s q = Some p"
    and t: "t \<in> {DT_File, DT_Directory}"
    and srv: "(case preCreateCheck M s p c of Some e \<Rightarrow> Inr (s, Inl e) | None \<Rightarrow> createNode M ts s p c t False) = Inr (s', r)"
  shows "fs_call (PMake q c (if t = DT_Directory then VDir else VFile [])) (tree M files s) (tree M files s') (case r of Inl e \<Rightarrow> Some e | Inr x \<Rightarrow> None)
    \<and> mount_ok M files s'"
proof -
  note ns = mount_okD(1) [OF ok]
  obtain n where n: "get_node M s p = Some n" using walk_kind [OF ns q [unfolded node_at_def]] by (auto simp: kinds_def)
  have look: "mf_lookup M s p c = None \<longleftrightarrow> lk M s p c = None" using plain_not_root [OF c] by (simp add: lk_def)
  have dir: "tree M files s q = Some VDir \<longleftrightarrow> node_IsDir n" using tree_node [OF q] n by (simp add: view_def kinds_def)
  show ?thesis
  proof (cases "preCreateCheck M s p c")
    case (Some e)
    then have "s' = s" "r = Inl e" using srv by simp_all
    with Some ok n look dir tree_child [OF q, of c] show ?thesis by (auto simp: preCreateCheck_def split: if_splits)
  next
    case None
    from make_ok [OF ok c room t None, of ts] srv None obtain i where made: "node_made s p c t i s'" and r: "r = Inr (i, new_attr t ts)" by auto
    have free: "lk M s p c = None" and d: "node_IsDir n" using None n look by (auto simp: preCreateCheck_def split: if_splits)
    show ?thesis using tree_made [OF ok q made free t] dir d tree_child [OF q, of c] free r made by (simp add: node_made_def linked_def)
  qed
qed

end

context mutable_mount
begin

lemma remove_call:
  assumes ok: "mount_ok M files s" and c: "plain_comp c" and q: "node_at M s q = Some p" and srv: "deleteNSEntry M s p c = Inr (s', r)"
  shows "fs_call (PRemove q c) (tree M files s) (tree M files s') (case r of Inl e \<Rightarrow> Some e | Inr x \<Rightarrow> None) \<and> mount_ok M files s'"
proof (cases "lk M s p c")
  case None
  then show ?thesis using deleteNSEntry_missing [OF plain_not_root [OF c] None] srv ok tree_child [OF q, of c] by simp
next
  case (Some i)
  note ns = mount_okD(1) [OF ok]
  have qi: "node_at M s (q @ [c]) = Some i" using q Some by (simp add: node_at_def walk_append)
  have kids: "(\<exists>d. tree M files s (q @ [c, d]) \<noteq> None) \<longleftrightarrow> entries s i \<noteq> Map.empty"
  proof -
    have "(\<exists>d. tree M files s (q @ [c, d]) \<noteq> None) \<longleftrightarrow> (\<exists>d. lk M s i d \<noteq> None)" using tree_child [OF qi] by auto
    also have "\<dots> \<longleftrightarrow> (\<exists>j. entries s i j \<noteq> None)" using ns_okD(2) [OF ns, of i] by (metis not_None_eq)
    finally show ?thesis by (auto simp: fun_eq_iff)
  qed
  show ?thesis
  proof (cases "entries s i = Map.empty")
    case True
    with deleteNSEntry_ok [OF ok Some] srv have "r = Inr ()" "unlinked s p c i s'" by (auto split: if_splits)
    then show ?thesis using tree_unlinked [OF ok q Some _ True, of s'] kids True tree_child [OF q, of c] Some by (simp add: unlinked_def)
  next
    case False
    then have "kinds M s i = Some True" using file_leaf [OF ns, of i] by blast
    with deleteNSEntry_ok [OF ok Some] srv False have "r = Inl ENOTEMPTY" "s' = s" by (auto split: if_splits)
    then show ?thesis using kids False tree_child [OF q, of c] Some ok by simp
  qed
qed

lemma rename_call:
  assumes ok: "mount_ok M files s" and sent: "sent M s (RenameOp p c p' c')" and q: "node_at M s q = Some p" and q': "node_at M s q' = Some p'"
    and srv: "rw_Rename M s p c p' c' = Inr (s', r)"
  shows "fs_call (PRename q c q' c') (tree M files s) (tree M files s') (case r of Inl e \<Rightarrow> Some e | Inr x \<Rightarrow> None) \<and> mount_ok M files s'"
proof (cases "lk M s p c")
  case None
  then have "mf_lookup M s p c = None" using plain_not_root [of c] sent by (simp add: lk_def)
  then show ?thesis using srv ok tree_child [OF q, of c] None by (auto simp: rw_Rename_def)
next
  case (Some i)
  have c': "plain_comp c'" "(p, c) \<noteq> (p', c')" "kinds M s p' = Some True" "(i, p') \<notin> (edges (entries s))\<^sup>*"
    and over: "\<And>j. lk M s p' c' = Some j \<Longrightarrow> entries s j = Map.empty" using sent Some by auto
  from Rename_ok [OF ok Some c' over] srv have r: "r = Inr ()" and ok': "mount_ok M files s'"
    and v: "lk M s' = link_lk p' c' i (unlink_lk p c (unlink_lk p' c' (lk M s)))" "kinds M s' = kinds M s" "file_of files s' = file_of files s" by auto
  have vw: "view M files s' = view M files s" by (simp add: view_def fun_eq_iff v)
  have "tree M files s' = fs_move (q @ [c]) (q' @ [c']) (tree M files s)"
  proof
    fix r
    show "tree M files s' r = fs_move (q @ [c]) (q' @ [c']) (tree M files s) r"
      using walk_move [OF mount_okD(1) [OF ok] q [unfolded node_at_def] Some q' [unfolded node_at_def] c'(4) over, where r = r]
      by (simp add: tree_def node_at_def v(1) vw fs_move_def)
  qed
  then show ?thesis using r ok' tree_child [OF q, of c] Some by simp
qed

text \<open>A request that a kernel sends is served without a panic.\<close>

lemma serve_ok:
  assumes ok: "mount_ok M files s" and sent: "sent M s op"
  shows "\<exists>s' e. serve M ts s op = Inr (s', e) \<and> mount_ok M files s'"
proof (cases op)
  case (LookUpInodeOp p c)
  then show ?thesis using LookUp_ok [OF ok, of c ts p] sent by (auto simp: kept_def)
next
  case (GetInodeAttributesOp i)
  then show ?thesis using ok by (cases "rw_GetInodeAttributes M s i") auto
next
  case (SetInodeAttributesOp i sa)
  then show ?thesis using SetAttr_ok [OF ok, of i sa ts] sent by (auto simp: kept_def rewritten_def)
next
  case (ForgetInodeOp i)
  then show ?thesis using Forget_ok [OF ok, of i ts] sent by (auto simp: kept_def)
next
  case (MkDirOp p c)
  then show ?thesis using make_ok [OF ok, of c DT_Directory p ts] sent by (auto simp: rw_MkDir_def node_made_def linked_def)
next
  case (CreateFileOp p c)
  then show ?thesis using make_ok [OF ok, of c DT_File p ts] sent ok
    by (cases "preCreateCheck M s p c") (auto simp: rw_CreateFile_def node_made_def linked_def)
next
  case (RenameOp p c p' c')
  show ?thesis
  proof (cases "lk M s p c")
    case None
    then have "mf_lookup M s p c = None" using plain_not_root [of c] sent RenameOp by (simp add: lk_def)
    then show ?thesis using ok RenameOp by (simp add: rw_Rename_def)
  next
    case (Some i)
    then show ?thesis using Rename_ok [OF ok Some, of c' p'] sent RenameOp by auto
  qed
next
  case (RmDirOp p c)
  then show ?thesis using deleteNSEntry_missing [of c s p] deleteNSEntry_ok [OF ok, of p c] plain_not_root [of c] sent ok
    by (cases "lk M s p c") (auto simp: rw_RmDir_def unlinked_def split: if_splits)
next
  case (UnlinkOp p c)
  then show ?thesis using deleteNSEntry_missing [of c s p] deleteNSEntry_ok [OF ok, of p c] plain_not_root [of c] sent ok
    by (cases "lk M s p c") (auto simp: rw_Unlink_def unlinked_def split: if_splits)
next
  case (ReadFileOp i dst off)
  then show ?thesis using Read_ok [OF ok, of ts i dst off] by (auto simp: kept_def)
next
  case (WriteFileOp i data off)
  then show ?thesis using Write_ok [OF ok, of i off ts data] sent by (auto simp: rewritten_def)
next
  case (ReadDirOp wd run i off room)
  then show ?thesis using ok by (cases "rw_ReadDir wd run s i off room") auto
next
  case (SyncFileOp i)
  then show ?thesis using ok sent by (auto simp: rw_SyncFile_def)
qed (use ok in auto)

end

lemma without_valueD: "without_value r = Inr (s', e) \<Longrightarrow> \<exists>v. r = Inr (s', v) \<and> e = (case v of Inl x \<Rightarrow> Some x | Inr x \<Rightarrow> None)"
  by (auto simp: without_value_def rbind_def split: sum.splits prod.splits)

text \<open>No request changes the bundle of a mount.\<close>

lemma bundle_parts [simp]:
  "mf_bundle (set_node M i n s) = mf_bundle s" "mf_bundle (insertLookupEntry M p c le s) = mf_bundle s" "mf_bundle (insertReadDirEntry p d s) = mf_bundle s"
  "mf_bundle (delete_child p i s) = mf_bundle s" "mf_bundle (make_storage M t i s) = mf_bundle s"
  by (auto simp: set_node_def insertLookupEntry_def insertReadDirEntry_def delete_child_def make_storage_def split: option.split prod.split)

lemma bundle_ops:
  "deleteNSEntry M s p c = Inr (s', r) \<Longrightarrow> mf_bundle s' = mf_bundle s"
  "createNode M ts s p c t b = Inr (s', r1) \<Longrightarrow> mf_bundle s' = mf_bundle s"
  "move_entry M s i p c p' c' = Inr (s', r2) \<Longrightarrow> mf_bundle s' = mf_bundle s"
  "set_size M s i n a = (s', r3) \<Longrightarrow> mf_bundle s' = mf_bundle s"
  by (auto simp: deleteNSEntry_def createNode_def move_entry_def set_size_def Let_def split: option.splits if_splits prod.splits)

lemma serve_bundle: "serve M ts s op = Inr (s', e) \<Longrightarrow> mf_bundle s' = mf_bundle s"
proof (cases op)
  case (RenameOp p c p' c')
  assume "serve M ts s op = Inr (s', e)"
  then show ?thesis using RenameOp
    by (auto simp: rw_Rename_def dest!: without_valueD split: option.splits if_splits sum.splits; metis bundle_ops(1,3))
qed (auto simp: rw_LookUpInode_def rw_SetInodeAttributes_def rw_ForgetInode_def rw_MkDir_def rw_CreateFile_def rw_RmDir_def
    rw_Unlink_def rw_ReadFile_def rw_WriteFile_def rw_SyncFile_def Let_def dest!: without_valueD dest: bundle_ops split: option.splits if_splits prod.splits sum.splits)

lemma mounted_bundle: "mounted M s0 s \<Longrightarrow> mf_bundle s = mf_bundle s0"
  by (induction rule: mounted.induct) (simp_all add: serve_bundle)

section \<open>The start of a mount\<close>

context mutable_mount
begin

lemma initRoot_ok: "\<exists>s0. initRoot M ts (defaultMutableFS M c b) = Inr (s0, Inr ()) \<and> mount_ok M files s0 \<and> lk M s0 = (\<lambda>p c. None) \<and> mf_bundle s0 = b
    \<and> mf_iNodeGenerator s0 = \<lparr>ig_highestInode = firstINode, ig_freeInodes = []\<rparr>"
proof -
  let ?s = "defaultMutableFS M c b" and ?R = RootInodeID
  let ?n = "\<lparr>ne_refCount = 1, ne_attr = new_attr DT_Directory ts, ne_pathToBackingFile = getPathToBackingFile ?R\<rparr>"
  define s1 where "s1 = insertLookupEntry M ?R rootPath \<lparr>le_iNode = ?R, le_mode = 0\<rparr> (?s\<lparr>mf_iNodeGenerator := mf_iNodeGenerator ?s\<rparr>)"
  define s4 where "s4 = set_node M ?R ?n (s1\<lparr>mf_readDirMap := (mf_readDirMap s1)(?R \<mapsto> [])\<rparr>)"
  define s0 where "s0 = set_node M ?R (with_Nlink (\<lambda>n. n + 1) ?n) s4"
  have empty: "mf_lookup M ?s p e = None" "get_node M ?s p = None" "mf_readDirMap ?s = Map.empty" for p e
    by (simp_all add: mf_lookup_def get_node_def defaultMutableFS_def)
  have init: "initRoot M ts ?s = Inr (s0, Inr ())"
    using node_set [of ?R ?n] by (simp add: initRoot_def createNode_def make_dir defaultMutableFS_def Let_def s0_def s4_def s1_def)
  have L: "mf_lookup M s0 p e = (if p = ?R \<and> e = rootPath then Some \<lparr>le_iNode = ?R, le_mode = 0\<rparr> else None)" for p e
    by (simp add: s0_def s4_def s1_def lookup_insert empty)
  have N: "get_node M s0 = [?R \<mapsto> with_Nlink (\<lambda>n. n + 1) ?n]" by (simp add: s0_def s4_def s1_def empty fun_eq_iff)
  have D: "mf_readDirMap s0 = [?R \<mapsto> []]" by (simp add: s0_def s4_def s1_def empty)
  have G: "mf_iNodeGenerator s0 = \<lparr>ig_highestInode = firstINode, ig_freeInodes = []\<rparr>" by (simp add: s0_def s4_def s1_def defaultMutableFS_def)
  have lk0: "lk M s0 = (\<lambda>p c. None)" by (auto simp: lk_def L fun_eq_iff)
  have K: "kinds M s0 i = (if i = ?R then Some True else None)" for i by (simp add: kinds_def N new_attr_def)
  have C: "entries s0 = (\<lambda>p. Map.empty)" by (auto simp: entries_def dir_entries_def D fun_eq_iff)
  have "mount_ok M files s0"
    unfolding mount_ok_def numbers_ok_def files_ok_def dirs_ok_def lk0 C
    by (auto simp: K N L D G new_attr_def ns_ok_def edges_def acyclic_def split: if_splits)
  moreover have "mf_bundle s0 = b" by (simp add: s0_def s4_def s1_def set_node_def insertLookupEntry_def defaultMutableFS_def)
  ultimately show ?thesis using init lk0 G by blast
qed

lemma NewMutableFS_ok:
  assumes "NewMutableFS M cache consumable ts b = Inr (Inr s0)"
  shows "mount_ok M files s0 \<and> tree M files s0 = [[] \<mapsto> VDir] \<and> mf_bundle s0 = b
    \<and> mf_iNodeGenerator s0 = \<lparr>ig_highestInode = firstINode, ig_freeInodes = []\<rparr>"
proof -
  obtain pth where "localPath consumable = Inr pth" using assms by (auto simp: NewMutableFS_def split: sum.splits)
  with assms initRoot_ok [of ts "cache pth" b] have s0: "mount_ok M files s0" "lk M s0 = (\<lambda>p c. None)" "mf_bundle s0 = b"
      "mf_iNodeGenerator s0 = \<lparr>ig_highestInode = firstINode, ig_freeInodes = []\<rparr>"
    by (auto simp: NewMutableFS_def)
  have "tree M files s0 r = [[] \<mapsto> VDir] r" for r
    using ns_okD(1) [OF mount_okD(1) [OF s0(1)]] by (cases r) (auto simp: tree_def node_at_def s0(2) view_def)
  with s0 show ?thesis by (auto simp: fun_eq_iff)
qed

lemma mounted_ok: "mounted M s0 s \<Longrightarrow> mount_ok M files s0 \<Longrightarrow> mount_ok M files s"
proof (induction rule: mounted.induct)
  case (served s op ts s' e)
  from serve_ok [OF served.IH [OF served.prems] served.hyps(2), of ts] served.hyps(3) show ?case by auto
qed

lemma call_ok:
  assumes ok: "mount_ok M files s" and sent: "sent M s op" and den: "denotes M s op pop" and srv: "serve M ts s op = Inr (s', e)"
  shows "fs_call pop (tree M files s) (tree M files s') e"
  using den
proof (cases rule: denotes.cases)
  case (1 q p c)
  then show ?thesis using LookUp_ok [OF ok, of c ts p] sent srv tree_kept tree_child [of s q p c] by (auto split: if_splits)
next
  case (2 q p c)
  then have "rw_MkDir M ts s p c = createNode M ts s p c DT_Directory False" and check: "preCreateCheck M s p c = None" using sent by (auto simp: rw_MkDir_def)
  then obtain v where "createNode M ts s p c DT_Directory False = Inr (s', v)" "e = (case v of Inl x \<Rightarrow> Some x | Inr x \<Rightarrow> None)"
    using without_valueD srv 2 by fastforce
  then show ?thesis using make_call [OF ok, of c q p DT_Directory ts s' v] check sent 2 by simp
next
  case (3 q p c)
  then obtain v where "rw_CreateFile M ts s p c = Inr (s', v)" "e = (case v of Inl x \<Rightarrow> Some x | Inr x \<Rightarrow> None)" using without_valueD srv by fastforce
  then show ?thesis using make_call [OF ok, of c q p DT_File ts s' v] sent 3 by (simp add: rw_CreateFile_def)
next
  case (4 q p c)
  then obtain v where "deleteNSEntry M s p c = Inr (s', v)" "e = (case v of Inl x \<Rightarrow> Some x | Inr x \<Rightarrow> None)"
    using without_valueD srv by (fastforce simp: rw_RmDir_def)
  then show ?thesis using remove_call [OF ok, of c q p s' v] sent 4 by simp
next
  case (5 q p c)
  then obtain v where "deleteNSEntry M s p c = Inr (s', v)" "e = (case v of Inl x \<Rightarrow> Some x | Inr x \<Rightarrow> None)"
    using without_valueD srv by (fastforce simp: rw_Unlink_def)
  then show ?thesis using remove_call [OF ok, of c q p s' v] sent 5 by simp
next
  case (6 q p q' p' c c')
  then obtain v where "rw_Rename M s p c p' c' = Inr (s', v)" "e = (case v of Inl x \<Rightarrow> Some x | Inr x \<Rightarrow> None)" using without_valueD srv by fastforce
  then show ?thesis using rename_call [OF ok, of p c p' c' q q' s' v] sent 6 by simp
next
  case (7 q i data off)
  with Write_ok [OF ok, of i off ts data] sent srv obtain d where
    d: "file_of files s i = Some d" "rewritten M files s i (write_at d (nat off) data) s'" "e = None" "kinds M s i = Some False" by auto
  then show ?thesis using tree_rewritten(1) [OF ok d(4,2)] 7 tree_node [of s q i] by (simp add: view_def)
next
  case (8 i data off)
  with Write_ok [OF ok, of i off ts data] sent srv obtain d where
    d: "rewritten M files s i d s'" "kinds M s i = Some False" "e = None" by auto
  then show ?thesis using tree_rewritten(2) [OF ok d(2,1)] 8 by simp
next
  case (9 q i sa n)
  have "kinds M s i \<noteq> None" using walk_kind [OF mount_okD(1) [OF ok]] 9 by (auto simp: node_at_def)
  with sent 9 have K: "kinds M s i = Some False" by auto
  have "sent M s (SetInodeAttributesOp i sa)" using sent 9 by simp
  from SetAttr_ok [OF ok this, of ts] show ?thesis
  proof (elim disjE exE conjE, goal_cases)
    case (1 s1 e1)
    then show ?thesis using srv K 9 tree_kept [of s s1] by auto
  next
    case (2 s1 n1 d)
    then show ?thesis using srv K 9 tree_rewritten(1) [OF ok K, of "resize n1 d" s1 q] tree_node [of s q i] by (simp add: view_def)
  qed
next
  case (10 i sa n)
  have "sent M s (SetInodeAttributesOp i sa)" using sent 10 by simp
  from SetAttr_ok [OF ok this, of ts] show ?thesis
  proof (elim disjE exE conjE, goal_cases)
    case (1 s1 e1)
    then show ?thesis using srv 10 tree_kept [of s s1] by auto
  next
    case (2 s1 n1 d)
    then show ?thesis using srv 10 tree_rewritten(2) [OF ok 2(4), of "resize n1 d" s1] by simp
  qed
next
  case (11 sa i)
  then show ?thesis using srv by (auto simp: rw_SetInodeAttributes_def)
next
  case (12 sa i)
  then show ?thesis using srv by (auto simp: rw_SetInodeAttributes_def kinds_def)
next
  case (13 i sa)
  then show ?thesis using SetAttr_times [OF ok, of i sa ts] srv tree_kept by auto
next
  case (14 i)
  then show ?thesis using srv by (auto simp: rw_GetInodeAttributes_def kinds_def split: option.splits)
next
  case (15 i)
  then show ?thesis using Forget_ok [OF ok, of i ts] sent srv tree_kept by auto
next
  case (16 i dst off)
  then show ?thesis using Read_ok [OF ok, of ts i dst off] srv tree_kept by auto
next
  case (17 wd run i off room)
  then show ?thesis using srv by (auto simp: rw_ReadDir_def split: option.splits if_splits)
next
  case (18 i)
  then show ?thesis using srv by auto
next
  case (19 i)
  then show ?thesis using srv sent by (auto simp: rw_SyncFile_def)
next
  case (20 i)
  then show ?thesis using srv by auto
qed

end

text \<open>A mount whose trees are maps and whose files are in memory.\<close>

definition map_env :: "(bytes \<Rightarrow> lookupEntry option, bytes \<Rightarrow> nodeEntry option, string \<rightharpoonup> bytes) mount_env" where
  "map_env = \<lparr>me_L = map_radix, me_N = map_radix, me_F = mem_rw\<rparr>"

lemma map_env_laws: "byte_map (me_L map_env) (\<lambda>t. t)" "byte_map (me_N map_env) (\<lambda>t. t)" "staging (me_F map_env) (\<lambda>c. c)"
  by (simp_all add: map_env_def map_radix.byte_map_axioms mem_rw.staging_axioms)

interpretation map_mount: mutable_mount map_env "\<lambda>t. t" "\<lambda>t. t" "\<lambda>c. c"
  using map_env_laws by (simp add: mutable_mount_def)

text \<open>
  C17: a mutable mount stays consistent under any sequence of requests as \<open>sent\<close> describes them, and every such request, of any kind that
  the mount implements, is answered: none stops the program. The lookup tree and the maps of children tell the same tree, in
  which every node has one parent and no cycle; the entries have the types of their nodes; the sizes in the attributes are
  those of the backing files; the numbers of the nodes were given out and are not given out again. The requests exclude
  what the code does not survive: \<open>MkDir\<close> under a name in use or below a file, the rename of an entry onto itself or over a
  directory that is not empty, \<open>SyncFile\<close> for a file that was never read or written, giving back the last reference to a
  directory, and new nodes when the numbers are used up. They also keep to what a kernel keeps to: names without a slash, no
  rename into a file or below the entry itself, reads, writes and sizes only for files, no negative offset of a write, no forgetting
  of nodes without references.
\<close>

theorem Mutable_safe:
  assumes "byte_map (me_L M) lookL" and "byte_map (me_N M) lookN" and "staging (me_F M) files"
    and "NewMutableFS M cache consumable ts bundle = Inr (Inr s0)" and "mounted M s0 s" and "sent M s op"
  shows "ns_ok (lk M s) (kinds M s) (entries s) \<and> numbers_ok M s \<and> files_ok M files s \<and> dirs_ok M s
    \<and> (\<exists>s' e. serve M now s op = Inr (s', e))"
proof -
  have mm: "mutable_mount M lookL lookN files" using assms(1-3) by (simp add: mutable_mount_def)
  have "mount_ok M files s0" using mutable_mount.NewMutableFS_ok [OF mm assms(4)] by simp
  then have "mount_ok M files s" by (rule mutable_mount.mounted_ok [OF mm assms(5)])
  then show ?thesis using mutable_mount.serve_ok [OF mm _ assms(6), of now] by (auto simp: mount_ok_def)
qed

text \<open>A directory made in a new mount.\<close>

definition first_mount :: "(bytes \<Rightarrow> lookupEntry option, bytes \<Rightarrow> nodeEntry option, string \<rightharpoonup> bytes) fsMutable" where
  "first_mount = projr (projr (NewMutableFS map_env (\<lambda>p. Map.empty) ''localfs@/s'' 5 tag_bundle))"

lemma first_local: "localPath ''localfs@/s'' = Inr ''/s''"
  by (simp add: localPath_def splitN_cut [of _ "''localfs''", simplified] splitN_last numeral_eq_Suc Let_def)

lemma first_new: "NewMutableFS map_env (\<lambda>p. Map.empty) ''localfs@/s'' 5 tag_bundle = Inr (Inr first_mount)"
  using map_mount.initRoot_ok [of 5 Map.empty tag_bundle] by (auto simp: first_mount_def NewMutableFS_def first_local)

lemma first_sent: "sent map_env first_mount (MkDirOp RootInodeID ''a'')"
proof -
  note ok = map_mount.NewMutableFS_ok [OF first_new]
  then have m: "mount_ok map_env (\<lambda>c. c) first_mount" and t: "tree map_env (\<lambda>c. c) first_mount = [[] \<mapsto> VDir]"
    and g: "mf_iNodeGenerator first_mount = \<lparr>ig_highestInode = firstINode, ig_freeInodes = []\<rparr>" by auto
  have "node_at map_env first_mount [] = Some RootInodeID" by (simp add: node_at_def)
  from map_mount.tree_child [OF this, of "''a''"] t have "lk map_env first_mount RootInodeID ''a'' = None" by simp
  then have "mf_lookup map_env first_mount RootInodeID ''a'' = None" by (simp add: lk_def rootPath_def)
  moreover have "kinds map_env first_mount RootInodeID = Some True" by (rule ns_okD(1) [OF mount_okD(1) [OF m]])
  ultimately show ?thesis using g by (auto simp: preCreateCheck_def kinds_def plain_comp_def firstINode_def)
qed

theorem Mutable_safe_witness: "\<exists>s' e. serve map_env 7 first_mount (MkDirOp RootInodeID ''a'') = Inr (s', e)"
  using Mutable_safe [OF map_env_laws first_new mounted.start first_sent, of 7] by blast

text \<open>
  C16: a mutable mount implements a file system of paths. It starts as one empty directory; each request as \<open>sent\<close> describes
  them, on the nodes at some paths, answers with the error, and leaves the tree, that the call on those paths has:
  lookups, \<open>MkDir\<close>, \<open>CreateFile\<close>, \<open>RmDir\<close>, \<open>Unlink\<close>, \<open>Rename\<close> (which moves all that is below), writes and truncations.
  Writes and truncations of files that are open and no longer have a path, and all other requests, leave the tree as it is;
  a change of the mode is refused. Not among the requests are \<open>MkDir\<close> under a name in use or below a file, the rename of an entry
  onto itself or over a directory that is not empty, \<open>SyncFile\<close> for a file that was never read or written, giving back the
  last reference to a directory and new nodes when the numbers are used up, for which the code fails, and what a kernel
  does not send: names with a slash, a rename into a file or below the entry itself, reads, writes or sizes for directories, writes at
  negative offsets, forgetting a node without references.
\<close>

theorem Mutable_simulates:
  assumes "byte_map (me_L M) lookL" and "byte_map (me_N M) lookN" and "staging (me_F M) files"
    and "NewMutableFS M cache consumable ts bundle = Inr (Inr s0)" and "mounted M s0 s" and "sent M s op"
    and "denotes M s op pop" and "serve M now s op = Inr (s', e)"
  shows "tree M files s0 = [[] \<mapsto> VDir] \<and> fs_call pop (tree M files s) (tree M files s') e"
proof -
  have mm: "mutable_mount M lookL lookN files" using assms(1-3) by (simp add: mutable_mount_def)
  note new = mutable_mount.NewMutableFS_ok [OF mm assms(4)]
  have "mount_ok M files s" using new by (intro mutable_mount.mounted_ok [OF mm assms(5)]) simp
  then show ?thesis using mutable_mount.call_ok [OF mm _ assms(6-8)] new by blast
qed

theorem Mutable_simulates_witness:
  "\<exists>s' e. serve map_env 7 first_mount (MkDirOp RootInodeID ''a'') = Inr (s', e) \<and> e = None \<and> tree map_env (\<lambda>c. c) s' [''a''] = Some VDir"
proof -
  have m: "mount_ok map_env (\<lambda>c. c) first_mount" and t: "tree map_env (\<lambda>c. c) first_mount = [[] \<mapsto> VDir]"
    using map_mount.NewMutableFS_ok [OF first_new] by auto
  from map_mount.serve_ok [OF m first_sent, of 7] obtain s' e where s': "serve map_env 7 first_mount (MkDirOp RootInodeID ''a'') = Inr (s', e)" by blast
  have "denotes map_env first_mount (MkDirOp RootInodeID ''a'') (PMake [] ''a'' VDir)" by (rule denotes.intros) (simp add: node_at_def)
  from Mutable_simulates [OF map_env_laws first_new mounted.start first_sent this s']
  have "fs_call (PMake [] ''a'' VDir) (tree map_env (\<lambda>c. c) first_mount) (tree map_env (\<lambda>c. c) s') e" by (rule conjunct2)
  then show ?thesis using s' by (auto simp: t simp del: serve.simps)
qed

end
