(* ===== verification/FuseCommit.thy ===== *)
theory FuseCommit
  imports FuseSim
begin

text \<open>
  The commit of a mutable mount: the walk over the directories ends and meets every file once, and the bundle
  that is uploaded has the files of the tree that the mount shows.
\<close>

section \<open>Uploading a list of entries\<close>

context object_store
begin

lemma upload_slices_ok:
  assumes cd: "codec_ok cd"
  shows "\<lbrakk>bs = blocks 1000 (drop (i * 1000) fl); index_free (bundle_pather b) (content m) i (length bs); i + length bs + 1 < 2 ^ 64\<rbrakk> \<Longrightarrow>
    \<exists>m'. upload_slices st cd fl i m (with_count i b) = (m', with_count (i + length bs) b, None)
      \<and> index_stored cd (bundle_pather b) (content m') i bs \<and> (\<forall>p. outside (bundle_pather b) i (length bs) p \<longrightarrow> content m' p = content m p)"
proof (induction bs arbitrary: i m)
  case Nil
  have "drop (i * 1000) fl = []" using Nil(1) blocks_step [of 1000 "drop (i * 1000) fl"] by (cases "drop (i * 1000) fl") auto
  then show ?case by (subst upload_slices.simps) (simp add: index_stored_def defaultBundleEntriesPerFile_def)
next
  case (Cons sl bs)
  let ?P = "bundle_pather b" and ?r = "drop (i * 1000) fl"
  have ne: "?r \<noteq> []" using Cons.prems(1) by auto
  then have bs: "sl = take 1000 ?r" "bs = blocks 1000 (drop (Suc i * 1000) fl)" using Cons.prems(1) blocks_step [of 1000 ?r] by (simp_all add: add.commute)
  have lt: "i * 1000 < length fl" using ne by simp
  have slice: "take 1000 ?r = sl" "\<not> 1000 + i * 1000 < length fl \<Longrightarrow> ?r = sl" using bs(1) by simp_all
  have "content m (nth_path ?P i) = None" using Cons.prems(2) unfolding index_free_def by (metis add.right_neutral length_greater_0_conv list.discI)
  from uploadIndex_ok [OF cd this, of sl] obtain m1 buf where
    up: "uploadIndex st cd m sl (nth_path ?P i) = (m1, None)" "cd_Marshal cd sl = Inr buf" "content m1 = (content m)(nth_path ?P i \<mapsto> buf)" by blast
  have inj: "nth_path ?P (Suc i + j) \<noteq> nth_path ?P i" if "j < length bs" for j
  proof
    assume "nth_path ?P (Suc i + j) = nth_path ?P i"
    then have "(of_nat (Suc i + j) :: 64 word) = of_nat i" unfolding nth_path_def by (rule injD [OF bundle_list_inj])
    then show False using of_nat_word_inj [of "Suc i + j" i] that Cons.prems(3) by simp
  qed
  have "index_free ?P (content m1) (Suc i) (length bs)" using Cons.prems(2) up(3) inj unfolding index_free_def by (auto simp: less_Suc_eq_0_disj)
  from Cons.IH [OF bs(2) this] Cons.prems(3) obtain m2 where
    rest: "upload_slices st cd fl (Suc i) m1 (with_count (Suc i) b) = (m2, with_count (Suc i + length bs) b, None)"
      "index_stored cd ?P (content m2) (Suc i) bs" "\<forall>p. outside ?P (Suc i) (length bs) p \<longrightarrow> content m2 p = content m1 p" by auto
  have n: "i + 1 < 2 ^ 64" using Cons.prems(3) by simp
  have "uploadBundleEntriesFileList st cd m (with_count i b) sl = (m1, with_count (Suc i) b, None)"
    using upload_list_is_uploadIndex [OF n, of st cd m b sl] up(1) by (simp add: nth_path_def)
  then have "upload_slices st cd fl i m (with_count i b) = (m2, with_count (i + length (sl # bs)) b, None)"
    using lt slice rest(1) by (subst upload_slices.simps) (simp add: defaultBundleEntriesPerFile_def Let_def)
  moreover have "content m2 (nth_path ?P i) = Some buf" using rest(3) [rule_format, of "nth_path ?P i"] inj up(3) by (auto dest: sym)
  then have "index_stored cd ?P (content m2) i (sl # bs)" using up(2) rest(2) by (intro index_stored_Cons) simp_all
  moreover have "content m2 p = content m p" if out: "outside ?P i (length (sl # bs)) p" for p
  proof -
    have "p \<noteq> nth_path ?P i" using out by (metis add.right_neutral length_greater_0_conv list.discI)
    moreover have "outside ?P (Suc i) (length bs) p" using out by auto
    ultimately show ?thesis using rest(3) up(3) by simp
  qed
  ultimately show ?case by blast
qed

lemma UploadBundleEntries_ok:
  assumes "codec_ok cd" and "yaml_marshals E" and "length (bn_Entries b) + 1 < 2 ^ 63" and "bd_BundleEntriesFileCount (bn_Descriptor b) = 0" and "validateBundle b"
    and "bundle_free (content m) b (length (blocks 1000 (bn_Entries b)))"
  shows "\<exists>m'. UploadBundleEntries E st cd m b = (m', with_count (length (blocks 1000 (bn_Entries b))) b, None)
    \<and> bundle_stored E cd 1000 (content m') (with_count (length (blocks 1000 (bn_Entries b))) b) (bn_Entries b)"
proof -
  let ?es = "bn_Entries b"
  let ?bs = "blocks 1000 ?es" and ?P = "bundle_pather b"
  let ?b = "with_count (length ?bs) b"
  have b0: "with_count 0 b = b" using assms(4) by simp
  have "index_free ?P (content m) 0 (length ?bs)" using assms(6) by (simp add: bundle_free_def)
  moreover have "0 + length ?bs + 1 < 2 ^ 64" using length_blocks_le [of 1000 ?es] assms(3) by simp
  ultimately obtain m1 where m1: "upload_slices st cd ?es 0 m b = (m1, ?b, None)" "index_stored cd ?P (content m1) 0 ?bs"
    "\<forall>p. outside ?P 0 (length ?bs) p \<longrightarrow> content m1 p = content m p"
    using upload_slices_ok [OF assms(1), of ?bs 0 ?es b m] unfolding b0 by auto
  have "content m1 (GetArchivePathToBundle (bn_RepoID b) (bn_BundleID b)) = None"
    using m1(3) assms(6) descriptor_not_index by (auto simp: bundle_free_def nth_path_def)
  then have "\<exists>m2. uploadBundleDescriptor E st m1 ?b = (m2, None) \<and> bundle_stored E cd 1000 (content m2) ?b ?es"
    using m1(2) assms(5) by (intro descriptor_completes [OF assms(2)]) (simp_all add: validateBundle_def)
  with m1(1) show ?thesis by (auto simp: UploadBundleEntries_def)
qed

end

section \<open>The walk\<close>

text \<open>A path is named from the root, with a slash before each component.\<close>

definition name_of :: "string list \<Rightarrow> string" where
  "name_of cs = concat (map (\<lambda>c. ''/'' @ c) cs)"

lemma name_of_simps [simp]: "name_of [] = ''''" "name_of (c # cs) = ''/'' @ c @ name_of cs"
  by (simp_all add: name_of_def)

text \<open>Directories to visit that do not lie below one another.\<close>

definition apart :: "child_map \<Rightarrow> inode list \<Rightarrow> bool" where
  "apart C is \<longleftrightarrow> distinct is \<and> (\<forall>a \<in> set is. \<forall>b \<in> set is. (a, b) \<in> (edges C)\<^sup>* \<longrightarrow> a = b)"

lemma parent_above:
  assumes ok: "ns_ok l K C" and "(a, j) \<in> (edges C)\<^sup>*" and "a \<noteq> j" and p: "(p, j) \<in> edges C"
  shows "(a, p) \<in> (edges C)\<^sup>*"
proof -
  obtain p' where "(a, p') \<in> (edges C)\<^sup>*" "(p', j) \<in> edges C" using assms(2,3) by (metis rtranclE)
  moreover have "p' = p" using ns_okD(4) [OF ok, of p' j p] calculation(2) p by (auto simp: in_edges)
  ultimately show ?thesis by simp
qed

lemma apart_children:
  assumes ok: "ns_ok l K C" and ap: "apart C (i # is)" and ch: "distinct js" "\<And>j. j \<in> set js \<Longrightarrow> (i, j) \<in> edges C"
  shows "apart C (js @ is)"
proof -
  have up: "(j, i) \<notin> (edges C)\<^sup>*" if "j \<in> set js" for j
    using ch(2) [OF that] ns_okD(5) [OF ok] by (meson acyclic_def rtrancl_into_trancl2)
  have beside: "(a, b) \<notin> (edges C)\<^sup>*" "(b, a) \<notin> (edges C)\<^sup>*" if "a \<in> set is" "b \<in> set js" for a b
  proof -
    have ne: "a \<noteq> i" "(a, i) \<notin> (edges C)\<^sup>*" "(i, a) \<notin> (edges C)\<^sup>*" using ap that(1) by (auto simp: apart_def)
    have ab: "a \<noteq> b" using ne(3) ch(2) [OF that(2)] by auto
    show "(a, b) \<notin> (edges C)\<^sup>*" using parent_above [OF ok _ ab ch(2) [OF that(2)]] ne(2) by blast
    show "(b, a) \<notin> (edges C)\<^sup>*" using ch(2) [OF that(2)] ne(3) by (meson converse_rtrancl_into_rtrancl)
  qed
  have inside: "a = b" if "a \<in> set js" "b \<in> set js" "(a, b) \<in> (edges C)\<^sup>*" for a b
    using parent_above [OF ok that(3) _ ch(2) [OF that(2)]] up [OF that(1)] by blast
  have "set js \<inter> set is = {}" using beside by auto
  then show ?thesis using ap ch(1) beside inside by (auto simp: apart_def)
qed

context mutable_mount
begin

lemma entries_set:
  assumes "mount_ok M files s"
  shows "(j, d) \<in> set (dir_entries s i) \<longleftrightarrow> entries s i j = Some d"
proof -
  have "distinct (map fst (dir_entries s i))" using mount_okD(4) [OF assms] by (cases "mf_readDirMap s i") (auto simp: dir_entries_def dirs_ok_def)
  then show ?thesis by (simp add: entries_def)
qed

lemma in_upload_tasks:
  assumes ok: "mount_ok M files s" and run: "\<And>xs. mset (run xs) = mset xs" and ty: "ty \<in> {DT_File, DT_Directory}"
  shows "(j, nm') \<in> set (upload_tasks run s ty (i, nm)) \<longleftrightarrow> (\<exists>c. lk M s i c = Some j \<and> kinds M s j = Some (ty = DT_Directory) \<and> nm' = nm @ ''/'' @ c)"
proof -
  note ns = mount_okD(1) [OF ok]
  have run_set: "set (run xs) = set xs" for xs using mset_eq_setD [OF run] by simp
  have "(j, nm') \<in> set (upload_tasks run s ty (i, nm)) \<longleftrightarrow> (\<exists>d. entries s i j = Some d \<and> dt_Type d = ty \<and> nm' = nm @ ''/'' @ dt_Name d)"
    using entries_set [OF ok] run_set by (auto simp: upload_tasks_def image_iff)
  also have "\<dots> \<longleftrightarrow> (\<exists>d. entries s i j = Some d \<and> kinds M s j = Some (ty = DT_Directory) \<and> nm' = nm @ ''/'' @ dt_Name d)"
  proof -
    have "dt_Type d = ty \<longleftrightarrow> kinds M s j = Some (ty = DT_Directory)" if "entries s i j = Some d" for d
      using ns_okD(3) [OF ns that] ty by (auto simp: dirent_ok_def kind_of_type_def split: if_splits)
    then show ?thesis by blast
  qed
  also have "\<dots> \<longleftrightarrow> (\<exists>c. lk M s i c = Some j \<and> kinds M s j = Some (ty = DT_Directory) \<and> nm' = nm @ ''/'' @ c)"
    unfolding ns_okD(2) [OF ns] by auto
  finally show ?thesis .
qed

lemma distinct_tasks:
  assumes ok: "mount_ok M files s" and run: "\<And>xs. mset (run xs) = mset xs"
  shows "distinct (map fst (upload_tasks run s ty (i, nm)))"
proof -
  have "distinct (map fst (dir_entries s i))" using mount_okD(4) [OF ok] by (cases "mf_readDirMap s i") (auto simp: dir_entries_def dirs_ok_def)
  moreover have "mset (map fst (run (dir_entries s i))) = mset (map fst (dir_entries s i))" using run by (metis mset_map)
  ultimately have "distinct (map fst (run (dir_entries s i)))" by (metis mset_eq_imp_distinct_iff)
  then have "distinct (map fst (filter (\<lambda>(j, d). dt_Type d = ty) (run (dir_entries s i))))" by (rule distinct_map_filter)
  then show ?thesis by (simp add: upload_tasks_def comp_def case_prod_unfold)
qed

end

context mutable_mount
begin

text \<open>What the walk from a list of directories finds.\<close>

definition found :: "('t, 'n, 'f) fsMutable \<Rightarrow> commitUploadTask list \<Rightarrow> inode \<Rightarrow> string \<Rightarrow> bool" where
  "found s agenda j nm' \<longleftrightarrow> (\<exists>i nm cs. (i, nm) \<in> set agenda \<and> cs \<noteq> [] \<and> walk (lk M s) i cs = Some j \<and> kinds M s j = Some False \<and> nm' = nm @ name_of cs)"

lemma found_step:
  assumes ok: "mount_ok M files s" and run: "\<And>xs. mset (run xs) = mset xs"
  shows "found s ((i, nm) # agenda) j nm' \<longleftrightarrow> (j, nm') \<in> set (upload_tasks run s DT_File (i, nm)) \<or> found s (upload_tasks run s DT_Directory (i, nm) @ agenda) j nm'"
proof -
  note ns = mount_okD(1) [OF ok] and task = in_upload_tasks [OF ok run]
  have "(\<exists>cs. cs \<noteq> [] \<and> walk (lk M s) i cs = Some j \<and> kinds M s j = Some False \<and> nm' = nm @ name_of cs) \<longleftrightarrow>
    (j, nm') \<in> set (upload_tasks run s DT_File (i, nm)) \<or> found s (upload_tasks run s DT_Directory (i, nm)) j nm'" (is "?L \<longleftrightarrow> ?F \<or> ?D")
  proof
    assume ?L
    then obtain c cs i' where c: "lk M s i c = Some i'" "walk (lk M s) i' cs = Some j" "kinds M s j = Some False" "nm' = nm @ ''/'' @ c @ name_of cs"
      by (auto simp: neq_Nil_conv split: option.splits)
    show "?F \<or> ?D"
    proof (cases "cs = []")
      case True
      then show ?thesis using c task [of DT_File j nm' i nm] by auto
    next
      case False
      then obtain e es where "cs = e # es" by (auto simp: neq_Nil_conv)
      then obtain k where "lk M s i' e = Some k" using c(2) by (auto split: option.splits)
      then have "kinds M s i' = Some True" using lk_plain [OF ns] by blast
      then have "(i', nm @ ''/'' @ c) \<in> set (upload_tasks run s DT_Directory (i, nm))" using c(1) task [of DT_Directory i' _ i nm] by auto
      then show ?thesis using False c by (auto simp: found_def intro!: exI [of _ i'] exI [of _ "nm @ ''/'' @ c"] exI [of _ cs])
    qed
  next
    assume "?F \<or> ?D"
    then show ?L
    proof
      assume ?F
      then obtain c where "lk M s i c = Some j" "kinds M s j = Some False" "nm' = nm @ ''/'' @ c" using task [of DT_File j nm' i nm] by auto
      then show ?L by (intro exI [of _ "[c]"]) simp
    next
      assume ?D
      then obtain i' nm0 cs where d: "(i', nm0) \<in> set (upload_tasks run s DT_Directory (i, nm))" "walk (lk M s) i' cs = Some j" "kinds M s j = Some False"
        "nm' = nm0 @ name_of cs" by (auto simp: found_def)
      then obtain c where "lk M s i c = Some i'" "nm0 = nm @ ''/'' @ c" using task [of DT_Directory i' nm0 i nm] by auto
      with d show ?L by (intro exI [of _ "c # cs"]) simp
    qed
  qed
  then show ?thesis unfolding found_def by (simp add: Bex_def) blast
qed

lemma commitUploadDir_ok:
  assumes ok: "mount_ok M files s" and run: "\<And>xs. mset (run xs) = mset xs"
    and "apart (entries s) (map fst agenda)"
  shows "\<exists>fl. commitUploadDir run s agenda = Some fl \<and> distinct (map fst fl) \<and> (\<forall>j nm. (j, nm) \<in> set fl \<longleftrightarrow> found s agenda j nm)"
proof -
  have "finite (edges (entries s))" by simp
  then have "wf (mult ((edges (entries s))\<inverse>))" using ns_okD(5) [OF mount_okD(1) [OF ok]] by (intro wf_mult finite_acyclic_wf_converse)
  then show ?thesis
    using assms(3)
  proof (induction "mset (map fst agenda)" arbitrary: agenda rule: wf_induct_rule)
    case (less agenda)
    note ns = mount_okD(1) [OF ok]
    let ?E = "edges (entries s)"
    show ?case
    proof (cases agenda)
      case Nil
      then show ?thesis by (subst commitUploadDir.simps) (simp add: found_def)
    next
      case (Cons t ts)
      obtain i nm where t: "t = (i, nm)" by (cases t)
      let ?F = "upload_tasks run s DT_File t" and ?D = "upload_tasks run s DT_Directory t"
      have child: "(i, j) \<in> ?E" if "(j, nm') \<in> set ?D \<union> set ?F" for j nm'
        using that in_upload_tasks [OF ok run, of DT_Directory j nm' i nm] in_upload_tasks [OF ok run, of DT_File j nm' i nm] edges_lk [OF ns]
        unfolding t by auto
      have ch: "(i, j) \<in> ?E" if "j \<in> set (map fst ?D)" for j using child that by force
      have "apart (entries s) (map fst ?D @ map fst ts)"
        using less.prems Cons t ch distinct_tasks [OF ok run, of DT_Directory i nm] by (intro apart_children [OF ns, of i]) simp_all
      then have ap: "apart (entries s) (map fst (?D @ ts))" by simp
      have "(mset (map fst (?D @ ts)), mset (map fst agenda)) \<in> mult (?E\<inverse>)"
        using one_step_implies_mult [of "{#i#}" "mset (map fst ?D)" "?E\<inverse>" "mset (map fst ts)"] ch Cons t by (simp add: ac_simps)
      from less.hyps [OF this ap] obtain fl where
        fl: "commitUploadDir run s (?D @ ts) = Some fl" "distinct (map fst fl)" "\<forall>j nm. (j, nm) \<in> set fl \<longleftrightarrow> found s (?D @ ts) j nm" by blast
      have "commitUploadDir run s agenda = Some (?F @ fl)" using fl(1) Cons by (subst commitUploadDir.simps) simp
      moreover have "fst ` set ?F \<inter> fst ` set fl = {}"
      proof -
        have False if F: "(j, n1) \<in> set ?F" and f: "(j, n2) \<in> set fl" for j n1 n2
        proof -
          from f fl(3) obtain a n0 cs where a: "(a, n0) \<in> set (?D @ ts)" "cs \<noteq> []" "walk (lk M s) a cs = Some j" by (auto simp: found_def)
          have ij: "(i, j) \<in> ?E" using child F by blast
          have aj: "(a, j) \<in> ?E\<^sup>*" by (rule walk_edges [OF ns a(3)])
          have "a \<noteq> j"
          proof
            assume "a = j"
            then obtain c cs' k where "lk M s j c = Some k" "walk (lk M s) k cs' = Some j" using a(2,3) by (cases cs) (auto split: option.splits)
            then show False using walk_edges [OF ns] no_cycle [OF ns] by blast
          qed
          from parent_above [OF ns aj this ij] have ai: "(a, i) \<in> ?E\<^sup>*" .
          show False
          proof (cases "(a, n0) \<in> set ?D")
            case True
            then show False using child [of a n0] ai ns_okD(5) [OF ns] by (meson UnI1 acyclic_def rtrancl_into_trancl2)
          next
            case False
            then have "(a, n0) \<in> set ts" using a(1) by simp
            then show False using less.prems Cons t ai by (force simp: apart_def)
          qed
        qed
        then show ?thesis by force
      qed
      then have "distinct (map fst (?F @ fl))" using fl(2) distinct_tasks [OF ok run, of DT_File i nm] t by auto
      moreover have "(j, nm') \<in> set (?F @ fl) \<longleftrightarrow> found s agenda j nm'" for j nm'
        using fl(3) found_step [OF ok run, of i nm ts j nm'] Cons t by auto
      ultimately show ?thesis by blast
    qed
  qed
qed

end

section \<open>The bundle of a mount\<close>

text \<open>The entry that is uploaded for a file.\<close>

definition committed_entry :: "hasher \<Rightarrow> defaultFs \<Rightarrow> string \<Rightarrow> bytes \<Rightarrow> BundleEntry" where
  "committed_entry H f nm d = \<lparr>be_Hash = Key_String (root_of H (fs_leafSize f) d), be_NameWithPath = nm, be_FileMode = 0, be_Size = length d, be_Timestamp = 0\<rparr>"

locale mount_commit = mutable_mount M lookL lookN files + bst: object_store bst bcontent
  for M :: "('t, 'n, 'f) mount_env" and lookL lookN files and bst :: "'b Store" and bcontent
begin

lemma commitFileUpload_ok:
  assumes "blake_ok (ue_H U)" and "0 < fs_leafSize f" and "\<And>jobs. mset (ue_flush U jobs) = mset jobs"
  shows "\<forall>(j, nm) \<in> set tasks. \<exists>d. file_of files fs j = Some d \<and> reads_well U f d \<Longrightarrow>
    room_for (bcontent s) (\<Union>(j, nm) \<in> set tasks. blobs_of (ue_H U) f (the (file_of files fs j))) \<Longrightarrow>
    \<exists>s'. commitFileUpload U M fs bst f s kc tasks =
        Some (Inr (s', map (\<lambda>(j, nm). CommitEntry (committed_entry (ue_H U) f nm (the (file_of files fs j)))) tasks))
      \<and> holds_also (bcontent s) (bcontent s') (\<Union>(j, nm) \<in> set tasks. blobs_of (ue_H U) f (the (file_of files fs j)))"
proof (induction tasks arbitrary: s kc)
  case (Cons t tasks)
  obtain j nm where t: "t = (j, nm)" by (cases t)
  let ?H = "ue_H U" and ?blobs = "\<lambda>(j, nm :: string). blobs_of (ue_H U) f (the (file_of files fs j))"
  let ?B = "\<Union>(j, nm) \<in> set tasks. blobs_of (ue_H U) f (the (file_of files fs j))"
  from Cons.prems(1) t obtain d where d: "file_of files fs j = Some d" and chunks: "concat (ue_read U d) = d" "\<forall>p \<in> set (ue_read U d). length p \<le> fs_leafSize f"
    by (auto simp: reads_well_def)
  have d': "files (mf_localCache fs) (show_nat (unat j)) = Some d" using d by (simp add: file_of_def getPathToBackingFile_def)
  have opened: "rw_Open (me_F M) (mf_localCache fs) (getPathToBackingFile j) = None" "rw_Read (me_F M) (mf_localCache fs) (getPathToBackingFile j) = d"
    using sg.open_there [of "mf_localCache fs" "unat j"] sg.all_of [OF d'] d' by (simp_all add: getPathToBackingFile_def)
  let ?A = "blobs_of (ue_H U) f d"
  from Cons.prems(2) t d have room: "room_for (bcontent s) (?A \<union> ?B)" by simp
  note r = root_of [OF assms(1), of "fs_leafSize f" d]
  have "room_for (bcontent s) ?A" by (rule room_for_subset [OF room]) simp
  from bst.Put_ok [OF assms(1,2) chunks(2) assms(3), unfolded chunks(1), OF r this, where LK = "ue_LK U" and kc = kc and piped = False]
  obtain s1 kc1 fnd where
    put: "Put ?H bst (ue_LK U) (ue_flush U) f s kc (Source (ue_read U d) None False) =
        Some (Inr (s1, kc1, Inr \<lparr>pr_Written = length d, pr_Key = root_of ?H (fs_leafSize f) d,
          pr_Keys = concat (file_keys ?H (fs_leafSize f) d), pr_Found = fnd\<rparr>))"
      "holds_also (bcontent s) (bcontent s1) ?A"
    by auto
  from Cons.IH [of s1 kc1] Cons.prems(1) room_after [OF room put(2)] obtain s2 where
    rest: "commitFileUpload U M fs bst f s1 kc1 tasks = Some (Inr (s2, map (\<lambda>(j, nm). CommitEntry (committed_entry ?H f nm (the (file_of files fs j)))) tasks))"
      "holds_also (bcontent s1) (bcontent s2) ?B" by auto
  have "holds_also (bcontent s) (bcontent s2) (?A \<union> ?B)" by (rule holds_also_trans [OF put(2) rest(2) room])
  with put(1) rest(1) t d opened show ?case by (simp add: committed_entry_def Let_def)
qed simp

end

lemma commit_collect_entries: "commit_collect fl (map CommitEntry es) = Inr (fl @ es)"
  by (induction es arbitrary: fl) auto

lemma comps_name: "CHR ''/'' \<notin> set c \<Longrightarrow> \<forall>d \<in> set cs. CHR ''/'' \<notin> set d \<Longrightarrow> comps (c @ name_of cs) = c # cs"
proof (induction cs arbitrary: c)
  case Nil
  then show ?case by (simp add: comps_last)
next
  case (Cons d cs)
  then have "comps (d @ name_of cs) = d # cs" by simp
  then show ?case using comps_cut [of c "d @ name_of cs"] Cons.prems(1) by simp
qed

lemma name_of_inj:
  assumes "\<forall>d \<in> set cs. CHR ''/'' \<notin> set d" and "\<forall>d \<in> set ds. CHR ''/'' \<notin> set d" and "name_of cs = name_of ds"
  shows "cs = ds"
  using comps_name [of "''''" cs] comps_name [of "''''" ds] assms by simp

lemma walk_plain: "ns_ok l K C \<Longrightarrow> walk l i cs = Some j \<Longrightarrow> \<forall>c \<in> set cs. CHR ''/'' \<notin> set c"
  by (induction cs arbitrary: i) (auto split: option.splits dest!: lk_plain simp: plain_comp_def)

context mutable_mount
begin

text \<open>The uploads of a commit are the files of the tree.\<close>

lemma commit_tasks:
  assumes ok: "mount_ok M files s" and run: "\<And>xs. mset (run xs) = mset xs"
  shows "\<exists>tasks. commitWalkReadDirMap run s = Some tasks \<and> distinct (map snd tasks)
    \<and> (\<forall>j nm. (j, nm) \<in> set tasks \<longleftrightarrow> (\<exists>q. node_at M s q = Some j \<and> kinds M s j = Some False \<and> nm = name_of q))"
proof -
  note ns = mount_okD(1) [OF ok]
  from commitUploadDir_ok [OF ok run, of "[(RootInodeID, '''')]"] obtain tasks where
    tasks: "commitUploadDir run s [(RootInodeID, '''')] = Some tasks" "distinct (map fst tasks)"
      "\<And>j nm. (j, nm) \<in> set tasks \<longleftrightarrow> found s [(RootInodeID, '''')] j nm" by (auto simp: apart_def)
  have found: "(j, nm) \<in> set tasks \<longleftrightarrow> (\<exists>q. node_at M s q = Some j \<and> kinds M s j = Some False \<and> nm = name_of q)" for j nm
  proof -
    have "q \<noteq> []" if "node_at M s q = Some j" "kinds M s j = Some False" for q using that ns_okD(1) [OF ns] by (auto simp: node_at_def)
    then show ?thesis unfolding tasks(3) found_def node_at_def by auto
  qed
  have "inj_on snd (set tasks)"
  proof (rule inj_onI, clarify)
    fix j nm j' nm'
    assume "(j, nm) \<in> set tasks" "(j', nm') \<in> set tasks" and eq: "snd (j, nm) = snd (j', nm')"
    then obtain q q' where q: "node_at M s q = Some j" "node_at M s q' = Some j'" "nm = name_of q" "nm' = name_of q'" unfolding found by blast
    then have "q = q'" using name_of_inj [of q q'] walk_plain [OF ns] eq by (auto simp: node_at_def)
    then show "j = j' \<and> nm = nm'" using q by simp
  qed
  then have "distinct (map snd tasks)" using tasks(2) by (simp add: distinct_map)
  then show ?thesis using tasks(1) found by (auto simp: commitWalkReadDirMap_def)
qed

end

context mount_commit
begin

definition tree_files :: "('t, 'n, 'f) fsMutable \<Rightarrow> (string list \<times> bytes) set" where
  "tree_files s = {(q, d). tree M files s q = Some (VFile d)}"

lemma tree_file:
  assumes "mount_ok M files s"
  shows "(q, d) \<in> tree_files s \<longleftrightarrow> (\<exists>j. node_at M s q = Some j \<and> kinds M s j = Some False \<and> file_of files s j = Some d)"
proof (cases "node_at M s q")
  case (Some j)
  obtain k where k: "kinds M s j = Some k" using walk_kind [OF mount_okD(1) [OF assms]] Some by (auto simp: node_at_def)
  show ?thesis using Some k file_node [OF assms, of j] by (cases k) (auto simp: tree_files_def tree_def view_def)
qed (simp add: tree_files_def tree_def)

lemma tree_file_inj: "mount_ok M files s \<Longrightarrow> inj_on (name_of \<circ> fst) (tree_files s)"
proof (rule inj_onI, clarify)
  fix q d q' d'
  assume ok: "mount_ok M files s" and f: "(q, d) \<in> tree_files s" "(q', d') \<in> tree_files s" and eq: "(name_of \<circ> fst) (q, d) = (name_of \<circ> fst) (q', d')"
  have "q = q'" using f name_of_inj [of q q'] walk_plain [OF mount_okD(1) [OF ok]] eq unfolding tree_file [OF ok] by (auto simp: node_at_def)
  then show "q = q' \<and> d = d'" using f by (auto simp: tree_files_def)
qed

lemma commit_upload:
  assumes ok: "mount_ok M files s" and run: "\<And>xs. mset (run xs) = mset xs" and order: "\<And>tasks. mset (order tasks) = mset tasks"
    and H: "blake_ok (ue_H U)" and flush: "\<And>jobs. mset (ue_flush U jobs) = mset jobs" and leaf: "0 < fs_leafSize f"
    and reads: "\<forall>(q, d) \<in> tree_files s. reads_well U f d" and room: "room_for (bcontent s1) (\<Union>(q, d) \<in> tree_files s. blobs_of (ue_H U) f d)"
  shows "\<exists>tasks s' es. commitWalkReadDirMap run s = Some tasks \<and> commitFileUpload U M s bst f s1 kc (order tasks) = Some (Inr (s', map CommitEntry es))
    \<and> distinct (map be_NameWithPath es) \<and> length es = card (tree_files s)
    \<and> set es = {committed_entry (ue_H U) f (name_of q) d | q d. (q, d) \<in> tree_files s}
    \<and> holds_also (bcontent s1) (bcontent s') (\<Union>(q, d) \<in> tree_files s. blobs_of (ue_H U) f d)"
proof -
  let ?H = "ue_H U" and ?file = "\<lambda>j. the (file_of files s j)"
  from commit_tasks [OF ok run] obtain tasks where
    tasks: "commitWalkReadDirMap run s = Some tasks" "distinct (map snd tasks)"
    and ts: "\<And>j nm. (j, nm) \<in> set tasks \<longleftrightarrow> (\<exists>q. node_at M s q = Some j \<and> kinds M s j = Some False \<and> nm = name_of q)" by blast
  have ts_set: "set (order tasks) = set tasks" by (rule mset_eq_setD [OF order])
  have by_path: "(\<lambda>(j, nm). (nm, ?file j)) ` set tasks = (\<lambda>(q, d). (name_of q, d)) ` tree_files s"
  proof (intro set_eqI iffI)
    fix x
    assume "x \<in> (\<lambda>(j, nm). (nm, ?file j)) ` set tasks"
    then obtain j q where j: "node_at M s q = Some j" "kinds M s j = Some False" "x = (name_of q, ?file j)" by (auto simp: ts)
    then have "(q, ?file j) \<in> tree_files s" using file_node [OF ok j(2)] unfolding tree_file [OF ok] by auto
    then show "x \<in> (\<lambda>(q, d). (name_of q, d)) ` tree_files s" using j(3) by force
  next
    fix x
    assume "x \<in> (\<lambda>(q, d). (name_of q, d)) ` tree_files s"
    then obtain q d j where "x = (name_of q, d)" "node_at M s q = Some j" "kinds M s j = Some False" "file_of files s j = Some d" by (auto simp: tree_file [OF ok])
    then show "x \<in> (\<lambda>(j, nm). (nm, ?file j)) ` set tasks" by (auto simp: ts image_iff intro!: bexI [of _ "(j, name_of q)"])
  qed
  define es where "es = map (\<lambda>(j, nm). committed_entry ?H f nm (?file j)) (order tasks)"
  have "set es = (\<lambda>(nm, d). committed_entry ?H f nm d) ` (\<lambda>(j, nm). (nm, ?file j)) ` set tasks"
    unfolding es_def by (simp add: ts_set image_image case_prod_unfold)
  then have es_set: "set es = {committed_entry ?H f (name_of q) d | q d. (q, d) \<in> tree_files s}" unfolding by_path by force
  have blobs: "(\<Union>(j, nm) \<in> set tasks. blobs_of ?H f (?file j)) = (\<Union>(q, d) \<in> tree_files s. blobs_of ?H f d)"
    using arg_cong [OF by_path, of "\<lambda>A. \<Union>(nm, d) \<in> A. blobs_of ?H f d"] by (simp add: case_prod_unfold)
  have "\<forall>(j, nm) \<in> set (order tasks). \<exists>d. file_of files s j = Some d \<and> reads_well U f d"
    using reads file_node [OF ok] unfolding ts_set by (fastforce simp: ts tree_file [OF ok])
  from commitFileUpload_ok [OF H leaf flush this, unfolded ts_set blobs, OF room, of kc] obtain s' where
    up: "commitFileUpload U M s bst f s1 kc (order tasks) = Some (Inr (s', map CommitEntry es))"
      "holds_also (bcontent s1) (bcontent s') (\<Union>(q, d) \<in> tree_files s. blobs_of ?H f d)" by (auto simp: es_def comp_def case_prod_unfold)
  have names: "map be_NameWithPath es = map snd (order tasks)" by (simp add: es_def committed_entry_def case_prod_unfold)
  have perm: "mset (map snd (order tasks)) = mset (map snd tasks)" using order by (metis mset_map)
  have "distinct (map be_NameWithPath es)" unfolding names using tasks(2) mset_eq_imp_distinct_iff [OF perm] by simp
  moreover have "length es = card (tree_files s)"
  proof -
    have "length es = card (set (map snd tasks))" using distinct_card [OF tasks(2)] mset_eq_length [OF order, of tasks] by (simp add: es_def)
    also have "set (map snd tasks) = (name_of \<circ> fst) ` tree_files s"
      using arg_cong [OF by_path, of "image fst"] by (simp add: image_image case_prod_unfold comp_def)
    finally show ?thesis using card_image [OF tree_file_inj [OF ok]] by simp
  qed
  ultimately show ?thesis using tasks(1) up es_set by blast
qed

end

text \<open>The laws hold of the mount over association maps and a bucket.\<close>

interpretation map_commit: mount_commit map_env "\<lambda>t. t" "\<lambda>t. t" "\<lambda>c. c" "gcs_store steady_client g" "gcs_content map_of g" for g
  by (intro mount_commit.intro map_mount.mutable_mount_axioms gcs_is_store steady.bucket_api_axioms)

text \<open>
  C18: a commit uploads the tree that the mount shows, after any requests as \<open>sent\<close> describes them. Whatever the order in which the maps of children are run over and the
  uploads complete, the walk ends, the upload succeeds, and the metadata that is read back has one entry for
  each file of the tree, and none else: named by its path with a slash before every component, with its size and the root
  key of its contents, whose blobs are in the store. The descriptor read back is that of the commit, with the fields that
  YAML omits as the reading bundle had them (\<open>decoded_over\<close>). No object of the new bundle is there before, and no blob of other contents
  under a key of the upload.
\<close>

theorem MutableCommit_exact:
  assumes "byte_map (me_L M) lookL" and "byte_map (me_N M) lookN" and "staging (me_F M) files"
    and "object_store mst mcontent" and "object_store bst bcontent"
    and "NewMutableFS M cache consumable ts bundle = Inr (Inr s0)" and "mounted M s0 s"
    and run: "\<And>xs. mset (run xs) = mset xs" and order: "\<And>tasks. mset (order tasks) = mset tasks"
    and "blake_ok (ue_H U)" and "\<And>jobs. mset (ue_flush U jobs) = mset jobs" and "codec_ok cd" and "yaml_bundles E"
    and f: "fs_New lruNew (bundle_fs opts (mf_bundle s)) = Inr (f, leafPool)"
    and b: "b = (if bn_BundleID (mf_bundle s) = '''' then setBundleID (ue_newID U) (mf_bundle s) else mf_bundle s)"
    and "bd_BundleEntriesFileCount (bn_Descriptor b) = 0" and "validateBundle b" and "bn_BundleID b \<noteq> ''''" and "CHR 0x0A \<notin> set (bn_BundleID b)"
    and "\<And>n. bundle_free (mcontent m) b n"
    and tfiles: "tfiles = {(q, d). tree M files s q = Some (VFile d)}" and "card tfiles + 1 < 2 ^ 63"
    and "\<forall>(q, d) \<in> tfiles. reads_well U f d" and "room_for (bcontent s1) (\<Union>(q, d) \<in> tfiles. blobs_of (ue_H U) f d)"
    and "\<And>js. mset (idx_order js) = mset js" and "bn_RepoID br = bn_RepoID b" and "bn_BundleID br = bn_BundleID b"
  shows "\<exists>m' s' es b'. rw_Commit E U lruNew M run order mst cd bst opts m s1 kc s = Some (Inr (m', s', b', None))
    \<and> implPublishMetadata E cd idx_order False 1000 (Some (mst, m')) (None :: 'x opened) br =
        Some (Inr (None, br\<lparr>bn_Descriptor := decoded_over (bn_Descriptor br) (bn_Descriptor b'), bn_Entries := es\<rparr>, None))
    \<and> distinct (map be_NameWithPath es) \<and> set es = {committed_entry (ue_H U) f (name_of q) d | q d. (q, d) \<in> tfiles}
    \<and> (\<forall>(q, d) \<in> tfiles. stored (ue_H U) f (bcontent s') d (root_of (ue_H U) (fs_leafSize f) d))"
proof -
  have mm: "mutable_mount M lookL lookN files" using assms(1-3) by (simp add: mutable_mount_def)
  have mc: "mount_commit M lookL lookN files bst bcontent" using mm assms(5) by (simp add: mount_commit_def)
  have ok: "mount_ok M files s" using mutable_mount.NewMutableFS_ok [OF mm assms(6)] by (intro mutable_mount.mounted_ok [OF mm assms(7)]) simp
  let ?H = "ue_H U"
  note fN = fs_New_fs [OF f]
  have tf: "mount_commit.tree_files M files s = tfiles" unfolding mount_commit.tree_files_def [OF mc] by (rule tfiles [symmetric])
  from mount_commit.commit_upload [OF mc ok run order assms(10,11), of f s1 kc, unfolded tf] assms(23,24) fN obtain tasks s' es where
    up: "commitWalkReadDirMap run s = Some tasks" "commitFileUpload U M s bst f s1 kc (order tasks) = Some (Inr (s', map CommitEntry es))"
    and es: "distinct (map be_NameWithPath es)" "length es = card tfiles" "set es = {committed_entry ?H f (name_of q) d | q d. (q, d) \<in> tfiles}"
    and blobs: "holds_also (bcontent s1) (bcontent s') (\<Union>(q, d) \<in> tfiles. blobs_of ?H f d)" by auto
  let ?b = "b\<lparr>bn_Entries := es\<rparr>"
  let ?n = "length (blocks 1000 es)"
  have "bundle_free (mcontent m) ?b ?n" using assms(20) [of ?n] by (simp add: bundle_free_def)
  then obtain m' where
    md: "UploadBundleEntries E mst cd m ?b = (m', with_count ?n ?b, None)" "bundle_stored E cd 1000 (mcontent m') (with_count ?n ?b) es"
    using object_store.UploadBundleEntries_ok [OF assms(4,12) yaml_bundles_marshals [OF assms(13)], of ?b m] assms(16,17,22) es(2) by (auto simp: validateBundle_def)
  have commit: "rw_Commit E U lruNew M run order mst cd bst opts m s1 kc s = Some (Inr (m', s', with_count ?n ?b, None))"
    using up md(1) commit_collect_entries [of "[]" es] by (simp add: rw_Commit_def f commitImpl_def b [symmetric])
  have "implPublishMetadata E cd idx_order False 1000 (Some (mst, m')) (None :: 'x opened) br =
      Some (Inr (None, br\<lparr>bn_Descriptor := decoded_over (bn_Descriptor br) (bn_Descriptor (with_count ?n ?b)), bn_Entries := es\<rparr>, None))"
  proof (rule object_store.implPublishMetadata_ok [OF assms(4,12) md(2)])
    show "length (blocks 1000 es) < 2 ^ 63" using length_blocks_le [of 1000 es] assms(22) es(2) by simp
    show "en_bundle_over E base buf = Inr (decoded_over base x)" if "cd_Marshal (en_bundle E) x = Inr buf" for base x buf
      using assms(13) that by (rule yaml_bundles_over)
  qed (use assms in simp_all)
  moreover have "stored ?H f (bcontent s') d (root_of ?H (fs_leafSize f) d)" if "(q, d) \<in> tfiles" for q d
    using blobs that fN root_of [OF assms(10)] assms(10) by (force simp: stored_def holds_also_def)
  ultimately show ?thesis using commit es by blast
qed

text \<open>A mount in which one file was created and written.\<close>

lemma first_facts:
  "mount_ok map_env (\<lambda>c. c) first_mount" "tree map_env (\<lambda>c. c) first_mount = [[] \<mapsto> VDir]" "mf_bundle first_mount = tag_bundle"
  "ig_highestInode (mf_iNodeGenerator first_mount) = firstINode"
  using map_mount.NewMutableFS_ok [OF first_new] by simp_all

lemma one_file: "\<exists>s. mounted map_env first_mount s \<and> tree map_env (\<lambda>c. c) s = [[] \<mapsto> VDir, [''f''] \<mapsto> VFile [7]]"
proof -
  let ?cr = "CreateFileOp RootInodeID ''f''"
  have sent: "sent map_env first_mount ?cr" using first_facts(4) by (simp add: plain_comp_def firstINode_def)
  from map_mount.serve_ok [OF first_facts(1) sent, of 6] obtain s1 e1 where
    s1: "serve map_env 6 first_mount ?cr = Inr (s1, e1)" and ok1: "mount_ok map_env (\<lambda>c. c) s1" by blast
  have "denotes map_env first_mount ?cr (PMake [] ''f'' (VFile []))" by (rule denotes.intros) (simp add: node_at_def)
  from map_mount.call_ok [OF first_facts(1) sent this s1] have t1: "tree map_env (\<lambda>c. c) s1 = [[] \<mapsto> VDir, [''f''] \<mapsto> VFile []]"
    by (simp add: first_facts(2))
  have "map_option (view map_env (\<lambda>c. c) s1) (node_at map_env s1 [''f'']) = Some (VFile [])" using t1 by (simp add: tree_def [symmetric])
  then obtain i where i: "node_at map_env s1 [''f''] = Some i" "view map_env (\<lambda>c. c) s1 i = VFile []" by auto
  have "kinds map_env s1 i \<noteq> None" using walk_kind [OF mount_okD(1) [OF ok1] i(1) [unfolded node_at_def]] .
  then have k: "kinds map_env s1 i = Some False" using i(2) by (auto simp: view_def split: if_splits)
  let ?wr = "WriteFileOp i [7] 0"
  have sent1: "sent map_env s1 ?wr" using k by simp
  from map_mount.serve_ok [OF ok1 sent1, of 7] obtain s2 e2 where s2: "serve map_env 7 s1 ?wr = Inr (s2, e2)" by blast
  have "denotes map_env s1 ?wr (PWrite [''f''] (nat 0) [7])" by (rule denotes.intros) (rule i(1))
  from map_mount.call_ok [OF ok1 sent1 this s2] have "tree map_env (\<lambda>c. c) s2 = [[] \<mapsto> VDir, [''f''] \<mapsto> VFile [7]]"
    by (simp add: t1 write_at_def fun_upd_twist)
  moreover have "mounted map_env first_mount s2" by (rule mounted.served [OF mounted.served [OF mounted.start sent s1] sent1 s2])
  ultimately show ?thesis by blast
qed

theorem MutableCommit_exact_witness:
  "\<exists>s m' s' es b'. mounted map_env first_mount s \<and> rw_Commit ser_env tag_upload (\<lambda>_. None) map_env rev rev (gcs_store steady_client plain_gcs) entries_codec
      (gcs_store steady_client plain_gcs) tag_fs [] [] [] s = Some (Inr (m', s', b', None))
    \<and> implPublishMetadata ser_env entries_codec rev False 1000 (Some (gcs_store steady_client plain_gcs, m')) (None :: unit opened) tag_reader =
        Some (Inr (None, tag_reader\<lparr>bn_Descriptor := decoded_over (bn_Descriptor tag_reader) (bn_Descriptor b'), bn_Entries := es\<rparr>, None))
    \<and> set es = {committed_entry tag_hash tag_fs ''/f'' [7]}"
proof -
  from one_file obtain s where s: "mounted map_env first_mount s" and t: "tree map_env (\<lambda>c. c) s = [[] \<mapsto> VDir, [''f''] \<mapsto> VFile [7]]" by blast
  have b: "mf_bundle s = tag_bundle" using mounted_bundle [OF s] first_facts(3) by simp
  have fs: "\<exists>pool. fs_New (\<lambda>_. None) (bundle_fs tag_fs (mf_bundle s)) = Inr (tag_fs, pool)"
    unfolding b tag_fs_of by (simp add: fs_New_def tag_fs_def Let_def KeySize_def MaxLeafSize_def MiB_def)
  then obtain pool where fs: "fs_New (\<lambda>_. None) (bundle_fs tag_fs (mf_bundle s)) = Inr (tag_fs, pool)" by blast
  have files: "{([''f''], [7])} = {(q, d). tree map_env (\<lambda>c. c) s q = Some (VFile d)}" by (auto simp: t split: if_splits)
  have root: "root_of tag_hash 64 [7] = tag_root" using tag_rootHash by (simp add: root_of_def)
  have room: "room_for (gcs_content map_of plain_gcs []) (\<Union>(q, d) \<in> {([''f''], [7])}. blobs_of tag_hash tag_fs d)"
    using tag_room [of plain_gcs] root by (simp add: tag_fs_def)
  note gcs = gcs_is_store [OF steady.bucket_api_axioms, of plain_gcs]
  have "\<exists>m' s' es b'. rw_Commit ser_env tag_upload (\<lambda>_. None) map_env rev rev (gcs_store steady_client plain_gcs) entries_codec
      (gcs_store steady_client plain_gcs) tag_fs [] [] [] s = Some (Inr (m', s', b', None))
    \<and> implPublishMetadata ser_env entries_codec rev False 1000 (Some (gcs_store steady_client plain_gcs, m')) (None :: unit opened) tag_reader =
        Some (Inr (None, tag_reader\<lparr>bn_Descriptor := decoded_over (bn_Descriptor tag_reader) (bn_Descriptor b'), bn_Entries := es\<rparr>, None))
    \<and> distinct (map be_NameWithPath es) \<and> set es = {committed_entry (ue_H tag_upload) tag_fs (name_of q) d | q d. (q, d) \<in> {([''f''], [7])}}
    \<and> (\<forall>(q, d) \<in> {([''f''], [7])}. stored (ue_H tag_upload) tag_fs (gcs_content map_of plain_gcs s') d (root_of (ue_H tag_upload) (fs_leafSize tag_fs) d))"
    by (rule MutableCommit_exact [OF map_env_laws gcs gcs first_new s _ _ _ _ entries_codec_ok ser_env_bundles fs _ _ _ _ _ _ files, where b = tag_bundle])
      (use room b in \<open>simp_all add: tag_upload_def tag_hash_ok tag_reader_def tag_bundle_def validateBundle_def bundle_free_def index_free_def gcs_content_def
        reads_well_def tag_fs_def\<close>)
  then show ?thesis using s by (simp add: tag_upload_def) blast
qed

end
