(* ===== verification/FuseFaults.thy ===== *)
theory FuseFaults
  imports FuseCommit
begin

text \<open>
  Where the mutable mount goes wrong: requests that a kernel may send and that the code does not survive, or
  answers by losing data.
\<close>

section \<open>Nodes that are forgotten\<close>

context mutable_mount
begin

lemma forget_directory:
  assumes n: "get_node M s i = Some n" "node_IsDir n" "ne_refCount n = 1"
  shows "\<exists>s'. rw_ForgetInode M s i = Inr (s', Inr ()) \<and> get_node M s' = (get_node M s)(i := None) \<and> mf_lookup M s' = mf_lookup M s
    \<and> mf_iNodeGenerator s' = freeINode i (mf_iNodeGenerator s) \<and> file_of files s' = file_of files s"
proof -
  let ?n = "n\<lparr>ne_refCount := ne_refCount n - 1\<rparr>"
  let ?s1 = "set_node M i ?n s"
  let ?s' = "?s1\<lparr>mf_iNodeStore := fst (ir_Delete (me_N M) (mf_iNodeStore ?s1) (formKey i)), mf_iNodeGenerator := freeINode i (mf_iNodeGenerator ?s1)\<rparr>"
  have "rw_ForgetInode M s i = Inr (?s', Inr ())" using n by (simp add: rw_ForgetInode_def shouldDelete_def Let_def)
  moreover have "get_node M ?s' j = ((get_node M s)(i := None)) j" for j by (simp add: get_node_def set_node_def)
  moreover have "mf_lookup M ?s' p c = mf_lookup M s p c" "file_of files ?s' j = file_of files s j" for p c j
    by (simp_all add: mf_lookup_def set_node_def file_of_def)
  ultimately show ?thesis by (intro exI [of _ ?s']) (auto simp: fun_eq_iff)
qed

end

text \<open>
  C20: a directory whose last reference the kernel gives back stops the program at the next lookup. In any state
  of a mount, after \<open>MkDir\<close> and one \<open>ForgetInode\<close> of the new node, which returns the reference that \<open>MkDir\<close> counted, the name is still in
  the lookup tree but its node is gone: to look it up, and to remove it, panics.
\<close>

theorem Forgotten_directory_panics:
  assumes "byte_map (me_L M) lookL" and "byte_map (me_N M) lookN" and "staging (me_F M) files"
    and "NewMutableFS M cache consumable ts bundle = Inr (Inr s0)" and "mounted M s0 s" and "sent M s (MkDirOp p c)"
  shows "\<exists>s1 i a s2. rw_MkDir M now s p c = Inr (s1, Inr (i, a)) \<and> rw_ForgetInode M s1 i = Inr (s2, Inr ())
    \<and> rw_LookUpInode M s2 p c = Inl no_node \<and> rw_RmDir M s2 p c = Inl (ExplicitPanic ''did not find node after lookup'')"
proof -
  have mm: "mutable_mount M lookL lookN files" using assms(1-3) by (simp add: mutable_mount_def)
  note unfolds = mutable_mount.node_made_def [OF mm] mutable_mount.linked_def [OF mm]
  have ok: "mount_ok M files s" using mutable_mount.NewMutableFS_ok [OF mm assms(4)] by (intro mutable_mount.mounted_ok [OF mm assms(5)]) simp
  have c: "plain_comp c" and check: "preCreateCheck M s p c = None" using assms(6) by simp_all
  from mutable_mount.make_ok [OF mm ok c _ _ check, of DT_Directory now] assms(6) obtain i s1 where
    mk: "createNode M now s p c DT_Directory False = Inr (s1, Inr (i, new_attr DT_Directory now))" and made: "mutable_mount.node_made M files s p c DT_Directory i s1" by auto
  obtain n where n: "get_node M s1 i = Some n" "ne_refCount n = 1" using made unfolding unfolds by blast
  have "kinds M s1 i = Some True" using made by (auto simp: unfolds)
  then have dir: "node_IsDir n" using n(1) by (simp add: kinds_def)
  have lk1: "lk M s1 p c = Some i" using made by (simp add: unfolds link_lk_def)
  then obtain le where le: "mf_lookup M s1 p c = Some le" "le_iNode le = i" by (auto simp: lk_def split: if_splits)
  have p: "kinds M s1 p = Some True" using made check by (auto simp: unfolds preCreateCheck_def kinds_def split: option.splits if_splits)
  have "p \<noteq> i" using lk1 made no_cycle [of "lk M s1" "kinds M s1" "entries s1" p c i] by (auto simp: unfolds mount_ok_def)
  then obtain pn where pn: "get_node M s1 p = Some pn" using p by (auto simp: kinds_def)
  from mutable_mount.forget_directory [OF mm n(1) dir n(2)] obtain s2 where
    s2: "rw_ForgetInode M s1 i = Inr (s2, Inr ())" "get_node M s2 = (get_node M s1)(i := None)" "mf_lookup M s2 = mf_lookup M s1" by blast
  have "rw_LookUpInode M s2 p c = Inl no_node" using s2 le by (simp add: rw_LookUpInode_def)
  moreover have "rw_RmDir M s2 p c = Inl (ExplicitPanic ''did not find node after lookup'')"
    using s2 le pn \<open>p \<noteq> i\<close> by (simp add: rw_RmDir_def deleteNSEntry_def)
  ultimately show ?thesis using mk check s2(1) by (auto simp: rw_MkDir_def)
qed

theorem Forgotten_directory_panics_witness:
  "\<exists>s1 i a s2. rw_MkDir map_env 7 first_mount RootInodeID ''a'' = Inr (s1, Inr (i, a)) \<and> rw_ForgetInode map_env s1 i = Inr (s2, Inr ())
    \<and> rw_LookUpInode map_env s2 RootInodeID ''a'' = Inl no_node"
  using Forgotten_directory_panics [OF map_env_laws first_new mounted.start first_sent, of 7] by blast

section \<open>Numbers that are given out twice\<close>

context mutable_mount
begin

lemma cache_keeps [simp]: "mf_lookup M (s\<lparr>mf_localCache := k\<rparr>) = mf_lookup M s" "get_node M (s\<lparr>mf_localCache := k\<rparr>) = get_node M s"
  by (auto simp: mf_lookup_def get_node_def fun_eq_iff)

text \<open>A file made in any state, whatever number it gets.\<close>

lemma CreateFile_any:
  assumes "preCreateCheck M s p c = None" and "allocINode (mf_iNodeGenerator s) = (i, g)"
  shows "\<exists>s' n. rw_CreateFile M ts s p c = Inr (s', Inr (i, new_attr DT_File ts)) \<and> mf_iNodeGenerator s' = g
    \<and> mf_lookup M s' = (mf_lookup M s)(p := (mf_lookup M s p)(c \<mapsto> \<lparr>le_iNode = i, le_mode = 0\<rparr>)) \<and> get_node M s' = (get_node M s)(i \<mapsto> n)
    \<and> \<not> node_IsDir n \<and> file_of files s' = (file_of files s)(i \<mapsto> [])"
proof -
  let ?s1 = "insertLookupEntry M p c \<lparr>le_iNode = i, le_mode = 0\<rparr> (s\<lparr>mf_iNodeGenerator := g\<rparr>)"
  let ?d = "\<lparr>dt_Offset = 0, dt_Inode = i, dt_Name = c, dt_Type = DT_File\<rparr>"
  let ?n = "\<lparr>ne_refCount = 1, ne_attr = new_attr DT_File ts, ne_pathToBackingFile = getPathToBackingFile i\<rparr>"
  from make_file [of DT_File i ?s1] obtain k b where
    st: "make_storage M DT_File i ?s1 = ?s1\<lparr>mf_localCache := k, mf_backingFiles := b\<rparr>" "files k = (files (mf_localCache ?s1))(getPathToBackingFile i \<mapsto> [])" by auto
  let ?s' = "set_node M i ?n (insertReadDirEntry p ?d (?s1\<lparr>mf_localCache := k, mf_backingFiles := b\<rparr>))"
  have "rw_CreateFile M ts s p c = Inr (?s', Inr (i, new_attr DT_File ts))" using assms st(1) by (simp add: rw_CreateFile_def createNode_def Let_def)
  moreover have "\<not> node_IsDir ?n" by (simp add: new_attr_def)
  ultimately show ?thesis using file_of_storage [OF st(2), of b] by (intro exI [of _ ?s'] exI [of _ ?n]) (simp add: lookup_insert)
qed

lemma allocs: "allocINode \<lparr>ig_highestInode = h, ig_freeInodes = [i]\<rparr> = (i, \<lparr>ig_highestInode = firstINode, ig_freeInodes = []\<rparr>)"
  "allocINode \<lparr>ig_highestInode = firstINode, ig_freeInodes = []\<rparr> = (firstINode + 1, \<lparr>ig_highestInode = firstINode + 1, ig_freeInodes = []\<rparr>)"
  by (simp_all add: allocINode_def Let_def)

lemma check_None: "plain_comp c \<Longrightarrow> preCreateCheck M s p c = None \<longleftrightarrow> kinds M s p = Some True \<and> lk M s p c = None"
  using plain_not_root [of c] by (auto simp: preCreateCheck_def kinds_def lk_def split: option.splits if_splits)

text \<open>Once the only free number is taken, the next one given out is the first of all.\<close>

lemma two_creates:
  assumes gen: "mf_iNodeGenerator s = \<lparr>ig_highestInode = h, ig_freeInodes = [i]\<rparr>" and p: "kinds M s p = Some True" and ip: "i \<noteq> p"
    and c: "plain_comp c" "plain_comp c'" "c \<noteq> c'" and free: "lk M s p c = None" "lk M s p c' = None"
  shows "\<exists>s1 a1 s2 a2. rw_CreateFile M ts s p c = Inr (s1, Inr (i, a1)) \<and> rw_CreateFile M ts s1 p c' = Inr (s2, Inr (firstINode + 1, a2))
    \<and> (\<forall>q e j. lk M s q e = Some j \<longrightarrow> lk M s2 q e = Some j) \<and> file_of files s2 (firstINode + 1) = Some []"
proof -
  have c1: "preCreateCheck M s p c = None" using check_None [OF c(1)] p free by simp
  from CreateFile_any [OF c1, unfolded gen, OF allocs(1), of ts] obtain s1 n1 where
    s1: "rw_CreateFile M ts s p c = Inr (s1, Inr (i, new_attr DT_File ts))" "mf_iNodeGenerator s1 = \<lparr>ig_highestInode = firstINode, ig_freeInodes = []\<rparr>"
      "mf_lookup M s1 = (mf_lookup M s)(p := (mf_lookup M s p)(c \<mapsto> \<lparr>le_iNode = i, le_mode = 0\<rparr>))" "get_node M s1 = (get_node M s)(i \<mapsto> n1)" by blast
  have "kinds M s1 p = Some True" "lk M s1 p c' = None" using p ip free(2) c(3) s1(3,4) by (auto simp: kinds_def lk_def)
  then have c2: "preCreateCheck M s1 p c' = None" using check_None [OF c(2)] by simp
  from CreateFile_any [OF c2, unfolded s1(2), OF allocs(2), of ts] obtain s2 where
    s2: "rw_CreateFile M ts s1 p c' = Inr (s2, Inr (firstINode + 1, new_attr DT_File ts))"
      "mf_lookup M s2 = (mf_lookup M s1)(p := (mf_lookup M s1 p)(c' \<mapsto> \<lparr>le_iNode = firstINode + 1, le_mode = 0\<rparr>))"
      "file_of files s2 = (file_of files s1)(firstINode + 1 \<mapsto> [])" by blast
  have "lk M s2 q e = Some j" if "lk M s q e = Some j" for q e j
    using that free unfolding lk_def s2(2) s1(3) by (auto split: if_splits)
  then show ?thesis using s1(1) s2(1,3) by auto
qed

end

context mutable_mount
begin

text \<open>A directory that is removed and given back leaves its number free.\<close>

lemma number_freed:
  assumes ok: "mount_ok M files s" and room: "unat (ig_highestInode (mf_iNodeGenerator s)) + 2 < 2 ^ 64"
    and p: "kinds M s p = Some True" and c: "plain_comp a" "plain_comp y" "a \<noteq> y" and free: "lk M s p a = None" "lk M s p y = None"
  shows "\<exists>s1 i a1 s2 j a2 s3 s4. rw_MkDir M ts s p a = Inr (s1, Inr (i, a1)) \<and> rw_CreateFile M ts s1 p y = Inr (s2, Inr (j, a2))
    \<and> rw_RmDir M s2 p a = Inr (s3, Inr ()) \<and> rw_ForgetInode M s3 i = Inr (s4, Inr ()) \<and> mf_iNodeGenerator s4 = \<lparr>ig_highestInode = j, ig_freeInodes = [i]\<rparr>
    \<and> i \<noteq> p \<and> kinds M s4 p = Some True \<and> (\<forall>q e. (q, e) \<notin> {(p, a), (p, y)} \<longrightarrow> lk M s4 q e = lk M s q e)
    \<and> (\<forall>k. kinds M s k = Some False \<longrightarrow> file_of files s4 k = file_of files s k)"
proof -
  note made_defs = node_made_def linked_def
  have room1: "ig_highestInode (mf_iNodeGenerator s) \<noteq> - 1" "ig_highestInode (mf_iNodeGenerator s) + 1 \<noteq> - 1"
  proof -
    have "unat (- 1 :: 64 word) = 2 ^ 64 - 1" by (simp add: unsigned_minus_1_eq_mask mask_eq_exp_minus_1)
    then have "unat (ig_highestInode (mf_iNodeGenerator s)) \<noteq> unat (- 1 :: 64 word)" "unat (ig_highestInode (mf_iNodeGenerator s) + 1) \<noteq> unat (- 1 :: 64 word)"
      using room one_more [of "ig_highestInode (mf_iNodeGenerator s)" 2] by simp_all
    then show "ig_highestInode (mf_iNodeGenerator s) \<noteq> - 1" "ig_highestInode (mf_iNodeGenerator s) + 1 \<noteq> - 1" by metis+
  qed
  have c1: "preCreateCheck M s p a = None" using check_None [OF c(1)] p free by simp
  from make_ok [OF ok c(1) room1(1) _ c1, of DT_Directory ts] obtain i s1 where
    mk: "createNode M ts s p a DT_Directory False = Inr (s1, Inr (i, new_attr DT_Directory ts))" and made1: "node_made s p a DT_Directory i s1" by auto
  have v1: "mount_ok M files s1" "lk M s1 = link_lk p a i (lk M s)" "kinds M s i = None" "kinds M s1 = (kinds M s)(i \<mapsto> True)" "entries s i = Map.empty"
    "entries s1 = link_C p \<lparr>dt_Offset = 0, dt_Inode = i, dt_Name = a, dt_Type = DT_Directory\<rparr> (entries s)" "file_of files s1 = file_of files s"
    "ig_highestInode (mf_iNodeGenerator s1) = i" "i = ig_highestInode (mf_iNodeGenerator s) + 1" using made1 unfolding made_defs by auto
  obtain n where n: "get_node M s1 i = Some n" "ne_refCount n = 1" using made1 unfolding made_defs by blast
  have ip: "i \<noteq> p" using v1(3) p by auto
  have c2: "preCreateCheck M s1 p y = None" using check_None [OF c(2)] p free ip c(3) by (simp add: v1(2,4) link_lk_def)
  have room2: "ig_highestInode (mf_iNodeGenerator s1) \<noteq> - 1" using room1(2) v1(8,9) by simp
  from make_ok [OF v1(1) c(2) room2 _ c2, of DT_File ts] obtain j s2 where
    cr: "createNode M ts s1 p y DT_File False = Inr (s2, Inr (j, new_attr DT_File ts))" and made2: "node_made s1 p y DT_File j s2" by auto
  have v2: "mount_ok M files s2" "lk M s2 = link_lk p y j (lk M s1)" "kinds M s1 j = None" "kinds M s2 = (kinds M s1)(j \<mapsto> False)"
    "entries s2 = link_C p \<lparr>dt_Offset = 0, dt_Inode = j, dt_Name = y, dt_Type = DT_File\<rparr> (entries s1)" "file_of files s2 = (file_of files s1)(j \<mapsto> [])"
    "mf_iNodeGenerator s2 = \<lparr>ig_highestInode = j, ig_freeInodes = []\<rparr>" and node2: "\<forall>k. k \<noteq> j \<longrightarrow> k \<noteq> p \<longrightarrow> get_node M s2 k = get_node M s1 k"
    using made2 unfolding made_defs by auto
  have ij: "i \<noteq> j" using v2(3) v1(4) by auto
  have "lk M s2 p a = Some i" using c(3) by (simp add: v2(2) v1(2) link_lk_def)
  moreover have "entries s2 i = Map.empty" using ip by (simp add: v2(5) v1(5,6) link_C_def)
  ultimately obtain s3 where s3: "deleteNSEntry M s2 p a = Inr (s3, Inr ())" "unlinked s2 p a i s3" using deleteNSEntry_ok [OF v2(1)] by fastforce
  then have v3: "lk M s3 = unlink_lk p a (lk M s2)" "kinds M s3 = kinds M s2" "file_of files s3 = file_of files s2" "mf_iNodeGenerator s3 = mf_iNodeGenerator s2"
    and node3: "\<forall>k. k \<noteq> p \<longrightarrow> get_node M s3 k = get_node M s2 k" by (simp_all add: unlinked_def)
  have n3: "get_node M s3 i = Some n" using n(1) node2 node3 ip ij by simp
  have "node_IsDir n" using v1(4) n(1) by (auto simp: kinds_def fun_eq_iff dest: spec [of _ i])
  from forget_directory [OF n3 this n(2)] obtain s4 where
    s4: "rw_ForgetInode M s3 i = Inr (s4, Inr ())" "get_node M s4 = (get_node M s3)(i := None)" "mf_lookup M s4 = mf_lookup M s3"
      "mf_iNodeGenerator s4 = freeINode i (mf_iNodeGenerator s3)" "file_of files s4 = file_of files s3" by blast
  have "mf_iNodeGenerator s4 = \<lparr>ig_highestInode = j, ig_freeInodes = [i]\<rparr>" using ij by (simp add: s4(4) v3(4) v2(7) freeINode_def)
  moreover have "kinds M s4 p = Some True"
  proof -
    have "kinds M s4 p = kinds M s3 p" using ip by (simp add: kinds_def s4(2))
    then show ?thesis using p ip v2(3) v1(4) by (auto simp: v3(2) v2(4))
  qed
  moreover have "lk M s4 q e = lk M s q e" if "(q, e) \<notin> {(p, a), (p, y)}" for q e
  proof -
    have "lk M s4 = lk M s3" by (simp add: lk_def s4(3) fun_eq_iff)
    then show ?thesis using that by (auto simp: v3(1) v2(2) v1(2) unlink_lk_def link_lk_def)
  qed
  moreover have "file_of files s4 k = file_of files s k" if "kinds M s k = Some False" for k
    using that v2(3) v1(4) by (auto simp: s4(5) v3(3) v2(6) v1(7) split: if_splits)
  moreover have "rw_MkDir M ts s p a = Inr (s1, Inr (i, new_attr DT_Directory ts))" using mk c1 by (simp add: rw_MkDir_def)
  moreover have "rw_CreateFile M ts s1 p y = Inr (s2, Inr (j, new_attr DT_File ts))" using cr c2 by (simp add: rw_CreateFile_def)
  ultimately show ?thesis using s3(1) s4(1) ip by (auto simp: rw_RmDir_def)
qed

end

text \<open>
  C19: the numbers of nodes are given out twice, and a file is lost. In any state of a mount whose first node is a
  file that is not empty, make a directory and a file, remove the directory, let the kernel give back its node, and make two files: the first
  gets the number of the directory, the second the number of the file that is there, whose contents are
  gone. Both names then lead to one node. The generator forgets the highest number when its list of free numbers runs empty.
\<close>

theorem Reused_number_loses_file:
  assumes "byte_map (me_L M) lookL" and "byte_map (me_N M) lookN" and "staging (me_F M) files"
    and "NewMutableFS M cache consumable ts bundle = Inr (Inr s0)" and "mounted M s0 s"
    and room: "unat (ig_highestInode (mf_iNodeGenerator s)) + 2 < 2 ^ 64"
    and p: "kinds M s p = Some True" and names: "distinct [a, y, c, c']" "list_all plain_comp [a, y, c, c']" "\<forall>e \<in> {a, y, c, c'}. lk M s p e = None"
    and x: "lk M s q nm = Some (firstINode + 1)" "file_of files s (firstINode + 1) = Some d" "d \<noteq> []" "kinds M s (firstINode + 1) = Some False"
  shows "\<exists>s1 i a1 s2 j a2 s3 s4 s5 a5 s6 a6. rw_MkDir M now s p a = Inr (s1, Inr (i, a1)) \<and> rw_CreateFile M now s1 p y = Inr (s2, Inr (j, a2))
    \<and> rw_RmDir M s2 p a = Inr (s3, Inr ()) \<and> rw_ForgetInode M s3 i = Inr (s4, Inr ()) \<and> file_of files s4 (firstINode + 1) = Some d
    \<and> rw_CreateFile M now s4 p c = Inr (s5, Inr (i, a5)) \<and> rw_CreateFile M now s5 p c' = Inr (s6, Inr (firstINode + 1, a6))
    \<and> lk M s6 q nm = Some (firstINode + 1) \<and> file_of files s6 (firstINode + 1) = Some []"
proof -
  have mm: "mutable_mount M lookL lookN files" using assms(1-3) by (simp add: mutable_mount_def)
  have ok: "mount_ok M files s" using mutable_mount.NewMutableFS_ok [OF mm assms(4)] by (intro mutable_mount.mounted_ok [OF mm assms(5)]) simp
  from mutable_mount.number_freed [OF mm ok room p, of a y now] names obtain s1 i a1 s2 j a2 s3 s4 where
    run: "rw_MkDir M now s p a = Inr (s1, Inr (i, a1))" "rw_CreateFile M now s1 p y = Inr (s2, Inr (j, a2))" "rw_RmDir M s2 p a = Inr (s3, Inr ())"
      "rw_ForgetInode M s3 i = Inr (s4, Inr ())"
    and gen: "mf_iNodeGenerator s4 = \<lparr>ig_highestInode = j, ig_freeInodes = [i]\<rparr>" and p4: "i \<noteq> p" "kinds M s4 p = Some True"
    and same: "\<forall>q e. (q, e) \<notin> {(p, a), (p, y)} \<longrightarrow> lk M s4 q e = lk M s q e" "\<forall>k. kinds M s k = Some False \<longrightarrow> file_of files s4 k = file_of files s k"
    by auto
  have "lk M s4 p c = None" "lk M s4 p c' = None" using same(1) names by auto
  with mutable_mount.two_creates [OF mm gen p4(2,1), of c c' now] names obtain s5 a5 s6 a6 where
    two: "rw_CreateFile M now s4 p c = Inr (s5, Inr (i, a5))" "rw_CreateFile M now s5 p c' = Inr (s6, Inr (firstINode + 1, a6))"
      "\<forall>q e k. lk M s4 q e = Some k \<longrightarrow> lk M s6 q e = Some k" "file_of files s6 (firstINode + 1) = Some []" by auto
  have "(q, nm) \<notin> {(p, a), (p, y)}" using x(1) names by auto
  then have "lk M s4 q nm = Some (firstINode + 1)" using same(1) x(1) by simp
  moreover have "file_of files s4 (firstINode + 1) = Some d" using same(2) x(2,4) by simp
  ultimately show ?thesis using run two by blast
qed

text \<open>A mount whose first node is a file of one byte.\<close>

lemma first_file:
  "\<exists>s. mounted map_env first_mount s \<and> lk map_env s RootInodeID ''f'' = Some (firstINode + 1) \<and> file_of (\<lambda>c. c) s (firstINode + 1) = Some [7]
    \<and> kinds map_env s (firstINode + 1) = Some False \<and> kinds map_env s RootInodeID = Some True \<and> (\<forall>e. e \<noteq> ''f'' \<longrightarrow> lk map_env s RootInodeID e = None)
    \<and> ig_highestInode (mf_iNodeGenerator s) = firstINode + 1"
proof -
  let ?R = RootInodeID
  have room: "ig_highestInode (mf_iNodeGenerator first_mount) \<noteq> - 1" using first_facts(4) by (simp add: firstINode_def)
  have root: "node_at map_env first_mount [] = Some ?R" by (simp add: node_at_def)
  have none: "lk map_env first_mount ?R e = None" for e using map_mount.tree_child [OF root, of e] first_facts(2) by simp
  have c: "plain_comp ''f''" by (simp add: plain_comp_def)
  have check: "preCreateCheck map_env first_mount ?R ''f'' = None"
    using map_mount.check_None [OF c] none ns_okD(1) [OF mount_okD(1) [OF first_facts(1)]] by simp
  from map_mount.make_ok [OF first_facts(1) c room _ check, of DT_File 6] obtain i s1 where
    cr: "createNode map_env 6 first_mount ?R ''f'' DT_File False = Inr (s1, Inr (i, new_attr DT_File 6))" and made: "map_mount.node_made first_mount ?R ''f'' DT_File i s1" by auto
  have v1: "mount_ok map_env (\<lambda>c. c) s1" "lk map_env s1 = link_lk ?R ''f'' i (lk map_env first_mount)" "kinds map_env s1 = (kinds map_env first_mount)(i \<mapsto> False)"
    "kinds map_env first_mount i = None" "file_of (\<lambda>c. c) s1 i = Some []" "ig_highestInode (mf_iNodeGenerator s1) = i" "i = firstINode + 1"
    using made first_facts(4) unfolding map_mount.node_made_def map_mount.linked_def by auto
  have s1: "serve map_env 6 first_mount (CreateFileOp ?R ''f'') = Inr (s1, None)" using cr check by (simp add: rw_CreateFile_def)
  have m1: "mounted map_env first_mount s1" by (rule mounted.served [OF mounted.start _ s1]) (use c room in simp)
  have k: "kinds map_env s1 i = Some False" by (simp add: v1(3))
  from map_mount.Write_ok [OF v1(1) k, of 0 7 "[7]"] v1(5) obtain s2 where
    s2: "serve map_env 7 s1 (WriteFileOp i [7] 0) = Inr (s2, None)" "rewritten map_env (\<lambda>c. c) s1 i (write_at [] 0 [7]) s2" by auto
  have "mounted map_env first_mount s2" by (rule mounted.served [OF m1 _ s2(1)]) (use k in simp)
  moreover have "i \<noteq> ?R" using v1(4) ns_okD(1) [OF mount_okD(1) [OF first_facts(1)]] by auto
  moreover have "kinds map_env first_mount ?R = Some True" by (rule ns_okD(1) [OF mount_okD(1) [OF first_facts(1)]])
  ultimately show ?thesis using s2(2) v1(2,3,6) none unfolding v1(7) [symmetric]
    by (intro exI [of _ s2]) (simp add: rewritten_def write_at_def link_lk_def)
qed

theorem Reused_number_loses_file_witness:
  "\<exists>s s6 a6 s5. mounted map_env first_mount s \<and> file_of (\<lambda>c. c) s (firstINode + 1) = Some [7]
    \<and> rw_CreateFile map_env 9 s5 RootInodeID ''n'' = Inr (s6, Inr (firstINode + 1, a6)) \<and> lk map_env s6 RootInodeID ''f'' = Some (firstINode + 1)
    \<and> file_of (\<lambda>c. c) s6 (firstINode + 1) = Some []"
proof -
  from first_file obtain s where s: "mounted map_env first_mount s" "lk map_env s RootInodeID ''f'' = Some (firstINode + 1)"
    "file_of (\<lambda>c. c) s (firstINode + 1) = Some [7]" "kinds map_env s (firstINode + 1) = Some False" "kinds map_env s RootInodeID = Some True"
    "\<forall>e. e \<noteq> ''f'' \<longrightarrow> lk map_env s RootInodeID e = None" "ig_highestInode (mf_iNodeGenerator s) = firstINode + 1" by blast
  have "unat (ig_highestInode (mf_iNodeGenerator s)) + 2 < 2 ^ 64" unfolding s(7) by (simp add: firstINode_def)
  from Reused_number_loses_file [OF map_env_laws first_new s(1) this s(5), of "''a''" "''y''" "''m''" "''n''" RootInodeID "''f''" "[7]" 9]
  show ?thesis using s(1-6) by (simp add: plain_comp_def) blast
qed

end
