(* ===== verification/SidecarParams.thy ===== *)
theory SidecarParams
  imports ModelDescriptors
begin

text \<open>
  The parameters of the sidecar containers, \<open>pkg/sidecar/param\<close>: building them from options
  (\<open>pub_api.go\<close>) and passing them as environment variables (\<open>params.go\<close>) whose text is read back by
  \<open>deserialize_dict\<close> of \<open>hack/fuse-demo/wrap_datamon.sh\<close>. The texts are lists of runes, as the code chooses
  its separators rune by rune. The messages that wrap an error are left out.
\<close>

section \<open>Data\<close>

type_synonym rtext = "rune list"

definition lit :: "string \<Rightarrow> rtext" where
  "lit s = map of_char s"

datatype param_err =
    ErrSeparatorInValue
  | ErrCoordPointNotSet
  | ErrConfigBucketNotSet
  | ErrContextNotSet
  | ErrUnsupportedKind
  | ErrUnknownFormat
  | ErrBundleNameNotSet
  | ErrLabelAndBundle
  | ErrDestLabelWithoutDest
  | ErrDestBundleIDWithoutDest
  | ErrDatabaseNameNotSet
  | ErrDatabasePortNotSet
  | ErrDatabaseDestNotSet
  | ErrOther string

record fuseParamsBundleParams =
  bp_Name :: rtext
  bp_SrcPath :: rtext
  bp_SrcRepo :: rtext
  bp_SrcLabel :: rtext
  bp_SrcBundle :: rtext
  bp_DestPath :: rtext
  bp_DestRepo :: rtext
  bp_DestMessage :: rtext
  bp_DestLabel :: rtext
  bp_DestBundleID :: rtext

record FUSEParams =
  fp_SleepInsteadOfExit :: bool
  fp_CoordPoint :: rtext
  fp_ConfigBucketName :: rtext
  fp_ContextName :: rtext
  fp_Bundles :: "fuseParamsBundleParams list"

record pgParamsDBParams =
  db_Name :: rtext
  db_Port :: int
  db_DestRepo :: rtext
  db_DestMessage :: rtext
  db_DestLabel :: rtext
  db_DestBundleID :: rtext
  db_SrcRepo :: rtext
  db_SrcLabel :: rtext
  db_SrcBundle :: rtext

record PGParams =
  pp_SleepInsteadOfExit :: bool
  pp_IgnorePGVersionMismatch :: bool
  pp_CoordPoint :: rtext
  pp_ContributorName :: rtext
  pp_ContributorEmail :: rtext
  pp_Databases :: "pgParamsDBParams list"

section \<open>Building the parameters\<close>

text \<open>The zero values of the structs.\<close>

definition no_bundle :: fuseParamsBundleParams where
  "no_bundle = \<lparr>bp_Name = [], bp_SrcPath = [], bp_SrcRepo = [], bp_SrcLabel = [], bp_SrcBundle = [], bp_DestPath = [],
     bp_DestRepo = [], bp_DestMessage = [], bp_DestLabel = [], bp_DestBundleID = []\<rparr>"

definition no_fuse :: FUSEParams where
  "no_fuse = \<lparr>fp_SleepInsteadOfExit = False, fp_CoordPoint = [], fp_ConfigBucketName = [], fp_ContextName = [], fp_Bundles = []\<rparr>"

definition no_database :: pgParamsDBParams where
  "no_database = \<lparr>db_Name = [], db_Port = 0, db_DestRepo = [], db_DestMessage = [], db_DestLabel = [], db_DestBundleID = [],
     db_SrcRepo = [], db_SrcLabel = [], db_SrcBundle = []\<rparr>"

definition no_pg :: PGParams where
  "no_pg = \<lparr>pp_SleepInsteadOfExit = False, pp_IgnorePGVersionMismatch = False, pp_CoordPoint = [], pp_ContributorName = [],
     pp_ContributorEmail = [], pp_Databases = []\<rparr>"

definition FUSECoordPoint :: "rtext \<Rightarrow> FUSEParams \<Rightarrow> FUSEParams" where
  "FUSECoordPoint coordPoint p = p\<lparr>fp_CoordPoint := coordPoint\<rparr>"

definition FUSEConfigBucketName :: "rtext \<Rightarrow> FUSEParams \<Rightarrow> FUSEParams" where
  "FUSEConfigBucketName configBucketName p = p\<lparr>fp_ConfigBucketName := configBucketName\<rparr>"

definition FUSEContextName :: "rtext \<Rightarrow> FUSEParams \<Rightarrow> FUSEParams" where
  "FUSEContextName contextName p = p\<lparr>fp_ContextName := contextName\<rparr>"

definition NewFUSEParams :: "(FUSEParams \<Rightarrow> FUSEParams) list \<Rightarrow> (param_err, FUSEParams) res" where
  "NewFUSEParams fuseOpts =
     (let p = fold (\<lambda>apply p. apply p) fuseOpts no_fuse
      in if fp_CoordPoint p = [] then Inl ErrCoordPointNotSet else Inr p)"

definition BDName :: "rtext \<Rightarrow> fuseParamsBundleParams \<Rightarrow> fuseParamsBundleParams" where
  "BDName nm b = b\<lparr>bp_Name := nm\<rparr>"

definition BDSrcByLabel :: "rtext \<Rightarrow> rtext \<Rightarrow> rtext \<Rightarrow> fuseParamsBundleParams \<Rightarrow> fuseParamsBundleParams" where
  "BDSrcByLabel pth repo label b = b\<lparr>bp_SrcPath := pth, bp_SrcRepo := repo, bp_SrcLabel := label\<rparr>"

definition BDSrcByBundleID :: "rtext \<Rightarrow> rtext \<Rightarrow> rtext \<Rightarrow> fuseParamsBundleParams \<Rightarrow> fuseParamsBundleParams" where
  "BDSrcByBundleID pth repo bundle b = b\<lparr>bp_SrcPath := pth, bp_SrcRepo := repo, bp_SrcBundle := bundle\<rparr>"

definition BDDest :: "rtext \<Rightarrow> rtext \<Rightarrow> rtext \<Rightarrow> fuseParamsBundleParams \<Rightarrow> fuseParamsBundleParams" where
  "BDDest repo msg pth b = b\<lparr>bp_DestRepo := repo, bp_DestMessage := msg, bp_DestPath := pth\<rparr>"

definition BDDestLabel :: "rtext \<Rightarrow> fuseParamsBundleParams \<Rightarrow> fuseParamsBundleParams" where
  "BDDestLabel label b = b\<lparr>bp_DestLabel := label\<rparr>"

definition BDDestBundleIDFile :: "rtext \<Rightarrow> fuseParamsBundleParams \<Rightarrow> fuseParamsBundleParams" where
  "BDDestBundleIDFile bundleIDFile b = b\<lparr>bp_DestBundleID := bundleIDFile\<rparr>"

definition AddBundle ::
  "(fuseParamsBundleParams \<Rightarrow> fuseParamsBundleParams) list \<Rightarrow> FUSEParams \<Rightarrow> (param_err, FUSEParams) res" where
  "AddBundle bdOpts p =
     (let b = fold (\<lambda>apply b. apply b) bdOpts no_bundle;
          destIsSet = (bp_DestRepo b \<noteq> [] \<and> bp_DestMessage b \<noteq> [])
      in if bp_Name b = [] then Inl ErrBundleNameNotSet
         else if bp_SrcLabel b \<noteq> [] \<and> bp_SrcBundle b \<noteq> [] then Inl ErrLabelAndBundle
         else if bp_DestLabel b \<noteq> [] \<and> \<not> destIsSet then Inl ErrDestLabelWithoutDest
         else if bp_DestBundleID b \<noteq> [] \<and> \<not> destIsSet then Inl ErrDestBundleIDWithoutDest
         else Inr (p\<lparr>fp_Bundles := fp_Bundles p @ [b]\<rparr>))"

definition PGCoordPoint :: "rtext \<Rightarrow> PGParams \<Rightarrow> PGParams" where
  "PGCoordPoint coordPoint p = p\<lparr>pp_CoordPoint := coordPoint\<rparr>"

definition PGContributor :: "rtext \<Rightarrow> rtext \<Rightarrow> PGParams \<Rightarrow> PGParams" where
  "PGContributor nm email p = p\<lparr>pp_ContributorName := nm, pp_ContributorEmail := email\<rparr>"

definition NewPGParams :: "(PGParams \<Rightarrow> PGParams) list \<Rightarrow> (param_err, PGParams) res" where
  "NewPGParams pgOpts =
     (let p = fold (\<lambda>apply p. apply p) pgOpts no_pg
      in if pp_CoordPoint p = [] then Inl ErrCoordPointNotSet else Inr p)"

definition DBNameAndPort :: "rtext \<Rightarrow> int \<Rightarrow> pgParamsDBParams \<Rightarrow> pgParamsDBParams" where
  "DBNameAndPort nm port d = d\<lparr>db_Name := nm, db_Port := port\<rparr>"

definition DBDest :: "rtext \<Rightarrow> rtext \<Rightarrow> pgParamsDBParams \<Rightarrow> pgParamsDBParams" where
  "DBDest repo message d = d\<lparr>db_DestRepo := repo, db_DestMessage := message\<rparr>"

definition DBDestLabel :: "rtext \<Rightarrow> pgParamsDBParams \<Rightarrow> pgParamsDBParams" where
  "DBDestLabel label d = d\<lparr>db_DestLabel := label\<rparr>"

definition DBSrcByLabel :: "rtext \<Rightarrow> rtext \<Rightarrow> pgParamsDBParams \<Rightarrow> pgParamsDBParams" where
  "DBSrcByLabel repo label d = d\<lparr>db_SrcRepo := repo, db_SrcLabel := label\<rparr>"

definition DBSrcByBundle :: "rtext \<Rightarrow> rtext \<Rightarrow> pgParamsDBParams \<Rightarrow> pgParamsDBParams" where
  "DBSrcByBundle repo bundle d = d\<lparr>db_SrcRepo := repo, db_SrcBundle := bundle\<rparr>"

definition DBDestBundleIDFile :: "rtext \<Rightarrow> pgParamsDBParams \<Rightarrow> pgParamsDBParams" where
  "DBDestBundleIDFile bundleIDFile d = d\<lparr>db_DestBundleID := bundleIDFile\<rparr>"

definition AddDatabase :: "(pgParamsDBParams \<Rightarrow> pgParamsDBParams) list \<Rightarrow> PGParams \<Rightarrow> (param_err, PGParams) res" where
  "AddDatabase dbOpts p =
     (let d = fold (\<lambda>apply d. apply d) dbOpts no_database
      in if db_Name d = [] then Inl ErrDatabaseNameNotSet
         else if db_Port d = 0 then Inl ErrDatabasePortNotSet
         else if db_DestRepo d = [] \<or> db_DestMessage d = [] then Inl ErrDatabaseDestNotSet
         else if db_SrcLabel d \<noteq> [] \<and> db_SrcBundle d \<noteq> [] then Inl ErrLabelAndBundle
         else Inr (p\<lparr>pp_Databases := pp_Databases p @ [d]\<rparr>))"

text \<open>
  The serializations to YAML. The YAML package and the file system are parameters; the only known format is 0.
\<close>

definition CerialFmtYAM :: nat where
  "CerialFmtYAM = 0"

definition CerialString :: "('p \<Rightarrow> (string, bytes) res) \<Rightarrow> nat \<Rightarrow> 'p \<Rightarrow> (param_err, bytes) res" where
  "CerialString marshal knownFmt p =
     (if knownFmt \<noteq> CerialFmtYAM then Inl ErrUnknownFormat
      else case marshal p of Inl e \<Rightarrow> Inl (ErrOther e) | Inr buf \<Rightarrow> Inr buf)"

definition FirstCutSidecarFmt ::
  "('p \<Rightarrow> (string, bytes) res) \<Rightarrow> ('f \<Rightarrow> string \<Rightarrow> bytes \<Rightarrow> 'f \<times> string option) \<Rightarrow> string \<Rightarrow> 'p \<Rightarrow> 'f \<Rightarrow> 'f \<times> param_err option" where
  "FirstCutSidecarFmt marshal put_file destPath p f =
     (case marshal p of
        Inl e \<Rightarrow> (f, Some (ErrOther e))
      | Inr buf \<Rightarrow> (case put_file f destPath buf of (f', e) \<Rightarrow> (f', map_option ErrOther e)))"

section \<open>Separators\<close>

text \<open>
  What \<open>reflect\<close> shows of a value: its kind and, for a struct, its fields with a flag for the exported ones. The
  blank fields of the structs are not exported.
\<close>

datatype gval = GInt int | GBool bool | GString rtext | GStruct "(bool \<times> gval) list" | GSlice "gval list" | GOther

definition Itoa :: "int \<Rightarrow> rtext" where
  "Itoa i = lit (if i < 0 then CHR ''-'' # show_nat (nat (- i)) else show_nat (nat i))"

fun fieldsAsStringValues :: "gval \<Rightarrow> (param_err, rtext list) res"
  and field_values :: "(bool \<times> gval) list \<Rightarrow> (param_err, rtext list) res"
  and slice_values :: "gval list \<Rightarrow> (param_err, rtext list) res" where
  "fieldsAsStringValues (GInt i) = Inr [Itoa i]"
| "fieldsAsStringValues (GBool b) = Inr [if b then lit ''true'' else lit ''false'']"
| "fieldsAsStringValues (GString s) = Inr [s]"
| "fieldsAsStringValues (GStruct fs) = field_values fs"
| "fieldsAsStringValues (GSlice vs) = slice_values vs"
| "fieldsAsStringValues GOther = Inl ErrUnsupportedKind"
| "field_values [] = Inr []"
| "field_values ((exported, v) # fs) =
     (if \<not> exported then field_values fs
      else rbind (fieldsAsStringValues v) (\<lambda>a. rbind (field_values fs) (\<lambda>b. Inr (a @ b))))"
| "slice_values [] = Inr []"
| "slice_values (v # vs) = rbind (fieldsAsStringValues v) (\<lambda>a. rbind (slice_values vs) (\<lambda>b. Inr (a @ b)))"

definition blank :: "bool \<times> gval" where
  "blank = (False, GStruct [])"

definition bundle_value :: "fuseParamsBundleParams \<Rightarrow> gval" where
  "bundle_value b = GStruct (map (\<lambda>s. (True, GString s)) [bp_Name b, bp_SrcPath b, bp_SrcRepo b, bp_SrcLabel b, bp_SrcBundle b,
     bp_DestPath b, bp_DestRepo b, bp_DestMessage b, bp_DestLabel b, bp_DestBundleID b] @ [blank])"

definition fuse_value :: "FUSEParams \<Rightarrow> gval" where
  "fuse_value p = GStruct
     [(True, GStruct [(True, GBool (fp_SleepInsteadOfExit p)), (True, GString (fp_CoordPoint p)),
        (True, GString (fp_ConfigBucketName p)), (True, GString (fp_ContextName p)), blank]),
      (True, GSlice (map bundle_value (fp_Bundles p))), blank]"

definition database_value :: "pgParamsDBParams \<Rightarrow> gval" where
  "database_value d = GStruct ([(True, GString (db_Name d)), (True, GInt (db_Port d))] @ map (\<lambda>s. (True, GString s)) [db_DestRepo d,
     db_DestMessage d, db_DestLabel d, db_DestBundleID d, db_SrcRepo d, db_SrcLabel d, db_SrcBundle d] @ [blank])"

definition pg_value :: "PGParams \<Rightarrow> gval" where
  "pg_value p = GStruct
     [(True, GStruct [(True, GBool (pp_SleepInsteadOfExit p)), (True, GBool (pp_IgnorePGVersionMismatch p)), (True, GString (pp_CoordPoint p)),
        (True, GStruct [(True, GString (pp_ContributorName p)), (True, GString (pp_ContributorEmail p)), blank]), blank]),
      (True, GSlice (map database_value (pp_Databases p))), blank]"

text \<open>
  The separators are the first runes from \<open>0\<close> on that occur in no value. A rune that is not valid is written as the
  replacement character.
\<close>

definition encode_rune :: "rune \<Rightarrow> rtext" where
  "encode_rune r = (if r \<le> 0x10FFFF \<and> \<not> (0xD800 \<le> r \<and> r \<le> 0xDFFF) then [r] else [0xFFFD])"

fun stringToUniqRunes :: "rtext \<Rightarrow> rtext \<Rightarrow> rtext" where
  "stringToUniqRunes rv [] = rv"
| "stringToUniqRunes rv (ch # str) = stringToUniqRunes (if ch \<in> set rv then rv else rv @ [ch]) str"

fun uniqify :: "rtext \<Rightarrow> rtext \<Rightarrow> rtext" where
  "uniqify rv [] = rv"
| "uniqify rv (runeNew # runes) = uniqify (if runeNew \<in> set rv then rv else rv @ encode_rune runeNew) runes"

definition mergeAndUniqifyRunes :: "rtext list \<Rightarrow> rtext" where
  "mergeAndUniqifyRunes runesArrs = fold (\<lambda>runes rv. uniqify rv runes) runesArrs []"

lemma card_above_less:
  fixes a b :: nat
  assumes "finite A" and "a \<in> A" and "a < b"
  shows "card {r \<in> A. b \<le> r} < card {r \<in> A. a \<le> r}"
proof (rule psubset_card_mono)
  have "{r \<in> A. b \<le> r} \<subseteq> {r \<in> A. a \<le> r}" using assms(3) by (intro Collect_mono impI) linarith
  moreover have "a \<in> {r \<in> A. a \<le> r}" "a \<notin> {r \<in> A. b \<le> r}" using assms(2,3) by simp_all
  ultimately show "{r \<in> A. b \<le> r} \<subset> {r \<in> A. a \<le> r}" by blast
qed (use assms(1) in simp)

function next_free :: "rtext \<Rightarrow> rune \<Rightarrow> rune" where
  "next_free runes addRune =
     (if addRune \<in> set runes then next_free runes (if addRune + 1 = of_char CHR ''.'' then addRune + 2 else addRune + 1)
      else addRune)"
  by pat_completeness auto
termination
  by (relation "measure (\<lambda>(runes, addRune). card {r \<in> set runes. addRune \<le> r})")
    (simp, simp only: in_measure case_prod_conv, rule card_above_less, simp_all)

declare next_free.simps [simp del]

definition randCharNotInString :: "rtext \<Rightarrow> rtext" where
  "randCharNotInString str = encode_rune (next_free (stringToUniqRunes [] str) (of_char CHR ''0''))"

text \<open>The separators are variables of the package.\<close>

record seps =
  itemSep :: rtext
  kvSep :: rtext

definition init_seps :: seps where
  "init_seps = \<lparr>itemSep = lit '';'', kvSep = lit '':''\<rparr>"

definition setSeparators :: "gval \<Rightarrow> seps \<Rightarrow> seps \<times> param_err option" where
  "setSeparators paramsStruct S =
     (case fieldsAsStringValues paramsStruct of
        Inl e \<Rightarrow> (S, Some e)
      | Inr stringVals \<Rightarrow>
          let invalidSeps = mergeAndUniqifyRunes stringVals;
              i = randCharNotInString invalidSeps;
              k = randCharNotInString (invalidSeps @ i)
          in (\<lparr>itemSep = i, kvSep = k\<rparr>, None))"

section \<open>Environment variables\<close>

fun Contains :: "rtext \<Rightarrow> rtext \<Rightarrow> bool" where
  "Contains [] sub = (sub = [])"
| "Contains (c # s) sub = (take (length sub) (c # s) = sub \<or> Contains s sub)"

definition TrimSuffix :: "rtext \<Rightarrow> rtext \<Rightarrow> rtext" where
  "TrimSuffix s sfx = (if suffix sfx s then take (length s - length sfx) s else s)"

definition containsSep :: "seps \<Rightarrow> rtext \<Rightarrow> bool" where
  "containsSep S val = (Contains val (itemSep S) \<or> Contains val (kvSep S))"

definition appendToParamString :: "seps \<Rightarrow> rtext \<Rightarrow> rtext \<Rightarrow> rtext \<Rightarrow> (param_err, rtext) res" where
  "appendToParamString S paramString paramName paramVal =
     (if paramVal = [] then Inr paramString
      else if containsSep S paramVal then Inl ErrSeparatorInValue
      else Inr (paramString @ paramName @ kvSep S @ paramVal @ itemSep S))"

definition fuseParamsGlobalString :: "seps \<Rightarrow> FUSEParams \<Rightarrow> (param_err, rtext) res" where
  "fuseParamsGlobalString S p =
     (let rv = itemSep S @ kvSep S;
          rv = (if fp_SleepInsteadOfExit p then rv @ lit ''S'' @ itemSep S else rv)
      in if fp_CoordPoint p = [] then Inl ErrCoordPointNotSet
         else rbind (appendToParamString S rv (lit ''c'') (fp_CoordPoint p)) (\<lambda>rv.
           if fp_ConfigBucketName p = [] then Inl ErrConfigBucketNotSet
           else rbind (appendToParamString S rv (lit ''b'') (fp_ConfigBucketName p)) (\<lambda>rv.
             if fp_ContextName p = [] then Inl ErrContextNotSet
             else rbind (appendToParamString S rv (lit ''a'') (fp_ContextName p)) (\<lambda>rv.
               Inr (TrimSuffix rv (itemSep S))))))"

definition fuseParamsBundleString :: "seps \<Rightarrow> fuseParamsBundleParams \<Rightarrow> (param_err, rtext) res" where
  "fuseParamsBundleString S b =
     rbind (appendToParamString S (itemSep S @ kvSep S) (lit ''sp'') (bp_SrcPath b)) (\<lambda>rv.
     rbind (appendToParamString S rv (lit ''sr'') (bp_SrcRepo b)) (\<lambda>rv.
     rbind (appendToParamString S rv (lit ''sl'') (bp_SrcLabel b)) (\<lambda>rv.
     rbind (appendToParamString S rv (lit ''sb'') (bp_SrcBundle b)) (\<lambda>rv.
     rbind (appendToParamString S rv (lit ''dp'') (bp_DestPath b)) (\<lambda>rv.
     rbind (appendToParamString S rv (lit ''dr'') (bp_DestRepo b)) (\<lambda>rv.
     rbind (appendToParamString S rv (lit ''dm'') (bp_DestMessage b)) (\<lambda>rv.
     rbind (appendToParamString S rv (lit ''dl'') (bp_DestLabel b)) (\<lambda>rv.
     rbind (appendToParamString S rv (lit ''dif'') (bp_DestBundleID b)) (\<lambda>rv.
     Inr (TrimSuffix rv (itemSep S)))))))))))"

fun fuseParamsBundleStrings :: "seps \<Rightarrow> (rtext \<rightharpoonup> rtext) \<Rightarrow> fuseParamsBundleParams list \<Rightarrow> (param_err, rtext \<rightharpoonup> rtext) res" where
  "fuseParamsBundleStrings S rv [] = Inr rv"
| "fuseParamsBundleStrings S rv (b # bs) =
     rbind (fuseParamsBundleString S b) (\<lambda>bundleString. fuseParamsBundleStrings S (rv(bp_Name b \<mapsto> bundleString)) bs)"

text \<open>
  The variables that are built from a map of strings, by running over the map and putting the prefix before
  every name.
\<close>

definition prefixed :: "rtext \<Rightarrow> (rtext \<rightharpoonup> rtext) \<Rightarrow> rtext \<rightharpoonup> rtext" where
  "prefixed pre strs v = (if take (length pre) v = pre then strs (drop (length pre) v) else None)"

definition FUSEParamsToEnvVars :: "FUSEParams \<Rightarrow> seps \<Rightarrow> seps \<times> (param_err, rtext \<rightharpoonup> rtext) res" where
  "FUSEParamsToEnvVars p S =
     (case setSeparators (fuse_value p) S of
        (S1, Some e) \<Rightarrow> (S1, Inl e)
      | (S1, None) \<Rightarrow>
          (S1, rbind (fuseParamsBundleStrings S1 Map.empty (fp_Bundles p)) (\<lambda>bundleStrings.
               rbind (fuseParamsGlobalString S1 p) (\<lambda>globalString.
               Inr ((prefixed (lit ''dm_fuse_bd_'') bundleStrings)(lit ''dm_fuse_opts'' \<mapsto> globalString))))))"

definition pgParamsGlobalString :: "seps \<Rightarrow> PGParams \<Rightarrow> (param_err, rtext) res" where
  "pgParamsGlobalString S p =
     (let rv = itemSep S @ kvSep S;
          rv = (if pp_SleepInsteadOfExit p then rv @ lit ''S'' @ itemSep S else rv)
      in if pp_CoordPoint p = [] then Inl ErrCoordPointNotSet
         else rbind (appendToParamString S rv (lit ''c'') (pp_CoordPoint p)) (\<lambda>rv.
           rbind (if pp_IgnorePGVersionMismatch p then appendToParamString S rv (lit ''V'') (lit ''true'')
                  else appendToParamString S rv (lit ''V'') (lit ''false'')) (\<lambda>rv.
             Inr (TrimSuffix rv (itemSep S)))))"

definition pgParamsDatabaseString :: "seps \<Rightarrow> pgParamsDBParams \<Rightarrow> (param_err, rtext) res" where
  "pgParamsDatabaseString S d =
     rbind (appendToParamString S (itemSep S @ kvSep S) (lit ''p'') (Itoa (db_Port d))) (\<lambda>rv.
     rbind (appendToParamString S rv (lit ''m'') (db_DestMessage d)) (\<lambda>rv.
     rbind (appendToParamString S rv (lit ''l'') (db_DestLabel d)) (\<lambda>rv.
     rbind (appendToParamString S rv (lit ''r'') (db_DestRepo d)) (\<lambda>rv.
     rbind (appendToParamString S rv (lit ''sl'') (db_SrcLabel d)) (\<lambda>rv.
     rbind (appendToParamString S rv (lit ''sr'') (db_SrcRepo d)) (\<lambda>rv.
     rbind (appendToParamString S rv (lit ''sb'') (db_SrcBundle d)) (\<lambda>rv.
     Inr (TrimSuffix rv (itemSep S)))))))))"

fun pgParamsDatabaseStrings :: "seps \<Rightarrow> (rtext \<rightharpoonup> rtext) \<Rightarrow> pgParamsDBParams list \<Rightarrow> (param_err, rtext \<rightharpoonup> rtext) res" where
  "pgParamsDatabaseStrings S rv [] = Inr rv"
| "pgParamsDatabaseStrings S rv (d # ds) =
     rbind (pgParamsDatabaseString S d) (\<lambda>dbString. pgParamsDatabaseStrings S (rv(db_Name d \<mapsto> dbString)) ds)"

definition PGParamsToEnvVars :: "PGParams \<Rightarrow> seps \<Rightarrow> seps \<times> (param_err, rtext \<rightharpoonup> rtext) res" where
  "PGParamsToEnvVars p S =
     (case setSeparators (pg_value p) S of
        (S1, Some e) \<Rightarrow> (S1, Inl e)
      | (S1, None) \<Rightarrow>
          (S1, rbind (pgParamsDatabaseStrings S1 Map.empty (pp_Databases p)) (\<lambda>dbStrings.
               rbind (pgParamsGlobalString S1 p) (\<lambda>globalString.
               Inr ((prefixed (lit ''dm_pg_db_'') dbStrings)(lit ''dm_pg_opts'' \<mapsto> globalString))))))"

section \<open>Reading the variables\<close>

text \<open>The fields of a text between separators, as \<open>cut\<close> counts them.\<close>

fun text_fields :: "'a \<Rightarrow> 'a list \<Rightarrow> 'a list list" where
  "text_fields c [] = [[]]"
| "text_fields c (x # xs) =
     (if x = c then [] # text_fields c xs else (case text_fields c xs of [] \<Rightarrow> [[x]] | f # fs \<Rightarrow> (x # f) # fs))"

text \<open>
  \<open>deserialize_dict\<close>: the first two characters are the separators; the rest is split into items, of which the shell drops
  the empty ones; an item without a value gets \<open>true\<close>. \<open>None\<close> is the end of the script.
\<close>

definition read_item :: "rune \<Rightarrow> rtext \<Rightarrow> (rtext \<rightharpoonup> rtext) \<Rightarrow> (rtext \<rightharpoonup> rtext)" where
  "read_item kv_sep item output_dict =
     output_dict(hd (text_fields kv_sep item) \<mapsto> (if kv_sep \<in> set item then text_fields kv_sep item ! 1 else lit ''true''))"

fun deserialize_dict :: "rtext \<Rightarrow> (rtext \<rightharpoonup> rtext) option" where
  "deserialize_dict [] = Some Map.empty"
| "deserialize_dict [c] = (if c = of_char CHR ''.'' then None else Some Map.empty)"
| "deserialize_dict (item_sep # kv_sep # input_val) =
     (if item_sep = of_char CHR ''.'' \<or> kv_sep = of_char CHR ''.'' then None
      else Some (fold (read_item kv_sep) (filter (\<lambda>item. item \<noteq> []) (text_fields item_sep input_val)) Map.empty))"

text \<open>
  The script takes its variables from the lines that \<open>export\<close> prints: of the line \<open>name='value'\<close> the field between the first and the
  second \<open>=\<close>, from which a level of quotes is removed. A value with an \<open>=\<close> in it is cut there. This, and \<open>deserialize_dict\<close>,
  are what the script does for texts of printable characters without quotes and backslashes: it works line by line, \<open>print\<close>
  expands backslashes, and the variables are set in single quotes.
\<close>

definition unquote :: "rtext \<Rightarrow> rtext" where
  "unquote t = (if 2 \<le> length t \<and> hd t = 0x27 \<and> last t = 0x27 then butlast (tl t) else t)"

definition read_env_var :: "rtext \<Rightarrow> rtext \<Rightarrow> rtext" where
  "read_env_var env_var_name val = unquote (text_fields 0x3D (env_var_name @ [0x3D, 0x27] @ val @ [0x27]) ! 1)"

definition read_options :: "rtext \<Rightarrow> rtext \<Rightarrow> (rtext \<rightharpoonup> rtext) option" where
  "read_options env_var_name val = deserialize_dict (read_env_var env_var_name val)"

definition shell_plain :: "rtext \<Rightarrow> bool" where
  "shell_plain t \<longleftrightarrow> (\<forall>c \<in> set t. 0x20 \<le> c \<and> c \<le> 0x7E \<and> c \<notin> {0x27, 0x3D, 0x5C})"

text \<open>A text that may be part of the name of a variable.\<close>

definition var_name :: "rtext \<Rightarrow> bool" where
  "var_name n \<longleftrightarrow> n \<noteq> [] \<and> set n \<subseteq> {0x30..0x39} \<union> {0x41..0x5A} \<union> {0x5F} \<union> {0x61..0x7A}"

section \<open>The separators occur in no value\<close>

lemma set_stringToUniqRunes [simp]: "set (stringToUniqRunes rv s) = set rv \<union> set s"
  by (induction rv s rule: stringToUniqRunes.induct) auto

lemma encode_small: "r < 0xD800 \<Longrightarrow> encode_rune r = [r]"
  by (simp add: encode_rune_def)

lemma encode_other: "r \<noteq> x \<Longrightarrow> x < 0xD800 \<Longrightarrow> \<exists>k. encode_rune r = [k] \<and> k \<noteq> x"
  by (simp add: encode_rune_def)

lemma in_encode: "r < 0xD800 \<Longrightarrow> r \<in> set (encode_rune x) \<longleftrightarrow> r = x"
  by (auto simp: encode_rune_def)

lemma in_uniqify: "r < 0xD800 \<Longrightarrow> r \<in> set (uniqify rv s) \<longleftrightarrow> r \<in> set rv \<or> r \<in> set s"
  by (induction rv s rule: uniqify.induct) (auto simp: in_encode)

lemma in_mergeAndUniqifyRunes: "r < 0xD800 \<Longrightarrow> r \<in> set (mergeAndUniqifyRunes ss) \<longleftrightarrow> (\<exists>s \<in> set ss. r \<in> set s)"
proof -
  assume r: "r < 0xD800"
  then have "r \<in> set (fold (\<lambda>runes rv. uniqify rv runes) ss rv) \<longleftrightarrow> r \<in> set rv \<or> (\<exists>s \<in> set ss. r \<in> set s)" for rv
    by (induction ss arbitrary: rv) (auto simp: in_uniqify)
  then show ?thesis by (simp add: mergeAndUniqifyRunes_def)
qed

lemma next_free_unused: "next_free rs a \<notin> set rs"
  by (induction rs a rule: next_free.induct) (subst next_free.simps, simp)

lemma next_free_ge: "a \<le> next_free rs a"
proof (induction rs a rule: next_free.induct)
  case (1 rs a)
  show ?case by (subst next_free.simps) (use 1 in \<open>auto split: if_splits\<close>)
qed

lemma next_free_le:
  "0x30 \<le> a \<Longrightarrow> a \<le> x \<Longrightarrow> x \<notin> set rs \<Longrightarrow> next_free rs a \<le> x"
proof (induction rs a rule: next_free.induct)
  case (1 rs a)
  show ?case
  proof (cases "a \<in> set rs")
    case True
    with 1(3,4) have "a + 1 \<le> x" by (cases "a = x") auto
    moreover have "a + 1 \<noteq> of_char CHR ''.''" using 1(2) by simp
    ultimately have "next_free rs (a + 1) \<le> x" using 1(1) [OF True] 1(2,4) by simp
    with True \<open>a + 1 \<noteq> of_char CHR ''.''\<close> show ?thesis by (subst next_free.simps) simp
  next
    case False
    with 1(3) show ?thesis by (subst next_free.simps) simp
  qed
qed

lemma rand_eq:
  assumes "x \<notin> set str" and "0x30 \<le> x" and "x < 0xD800" and "{0x30..<x} \<subseteq> set str"
  shows "randCharNotInString str = [x]"
proof -
  let ?r = "next_free (stringToUniqRunes [] str) (of_char CHR ''0'')"
  have "?r \<le> x" by (rule next_free_le) (use assms in simp_all)
  moreover have "0x30 \<le> ?r" using next_free_ge [of "of_char CHR ''0''" "stringToUniqRunes [] str"] by simp
  moreover have "?r \<notin> set str" using next_free_unused [of "stringToUniqRunes [] str"] by simp
  ultimately have "?r = x" using assms(4) by (metis atLeastLessThan_iff nless_le subsetD)
  with assms(3) show ?thesis unfolding randCharNotInString_def by (simp add: encode_small)
qed

lemma rand_free:
  assumes "x \<notin> set str" and "0x30 \<le> x" and "x \<le> 0x3C"
  obtains r where "randCharNotInString str = [r]" "0x30 \<le> r" "r \<le> 0x3C" "r \<notin> set str"
proof
  let ?r = "next_free (stringToUniqRunes [] str) (of_char CHR ''0'')"
  have "?r \<le> x" by (rule next_free_le) (use assms in simp_all)
  with assms(3) show le: "?r \<le> 0x3C" by linarith
  show "0x30 \<le> ?r" using next_free_ge [of "of_char CHR ''0''" "stringToUniqRunes [] str"] by simp
  show "randCharNotInString str = [?r]" unfolding randCharNotInString_def by (rule encode_small) (use le in simp)
  show "?r \<notin> set str" using next_free_unused [of "stringToUniqRunes [] str"] by simp
qed

text \<open>Separators as the rest of the code needs them: two characters before the letters that occur in no value.\<close>

definition good_seps :: "seps \<Rightarrow> rune \<Rightarrow> rune \<Rightarrow> bool" where
  "good_seps S i k \<longleftrightarrow> itemSep S = [i] \<and> kvSep S = [k] \<and> i \<noteq> k \<and> {i, k} \<subseteq> {0x30..0x3C}"

lemma setSeparators_ok:
  assumes vals: "fieldsAsStringValues v = Inr vals"
    and x: "x \<in> {0x30..0x3C}" "\<forall>s \<in> set vals. x \<notin> set s" and y: "y \<in> {0x30..0x3C}" "\<forall>s \<in> set vals. y \<notin> set s" and "x \<noteq> y"
  obtains S' i k where "setSeparators v S = (S', None)" "good_seps S' i k" "\<forall>s \<in> set vals. i \<notin> set s \<and> k \<notin> set s"
proof -
  let ?m = "mergeAndUniqifyRunes vals"
  have xm: "x \<notin> set ?m" and ym: "y \<notin> set ?m" using x y by (simp_all add: in_mergeAndUniqifyRunes)
  obtain i where i: "randCharNotInString ?m = [i]" "0x30 \<le> i" "i \<le> 0x3C" "i \<notin> set ?m"
    by (rule rand_free [OF xm]) (use x(1) in simp_all)
  obtain z where z: "z \<in> {0x30..0x3C}" "z \<notin> set (?m @ [i])" using xm ym x(1) y(1) \<open>x \<noteq> y\<close> by (cases "x = i") auto
  obtain k where k: "randCharNotInString (?m @ [i]) = [k]" "0x30 \<le> k" "k \<le> 0x3C" "k \<notin> set (?m @ [i])"
    by (rule rand_free [OF z(2)]) (use z(1) in simp_all)
  have "i \<notin> set s \<and> k \<notin> set s" if "s \<in> set vals" for s
    using i(3,4) k(3,4) that in_mergeAndUniqifyRunes [of i vals] in_mergeAndUniqifyRunes [of k vals] by auto
  with i k vals that [of "\<lparr>itemSep = [i], kvSep = [k]\<rparr>" i k] show thesis
    by (auto simp: setSeparators_def good_seps_def)
qed

section \<open>The text of a list of options\<close>

lemma text_fields_neq_Nil [simp]: "text_fields c xs \<noteq> []"
  by (cases xs) (auto split: list.split)

lemma text_fields_none: "c \<notin> set xs \<Longrightarrow> text_fields c xs = [xs]"
  by (induction xs) auto

lemma text_fields_cut: "c \<notin> set a \<Longrightarrow> text_fields c (a @ c # r) = a # text_fields c r"
  by (induction a) auto

lemma text_fields_snoc: "text_fields c (xs @ [c]) = text_fields c xs @ [[]]"
  by (induction xs) (auto split: list.splits)

lemma shell_plain_simps [simp]: "shell_plain []" "shell_plain (a @ b) \<longleftrightarrow> shell_plain a \<and> shell_plain b"
  by (auto simp: shell_plain_def)

lemma shell_plain_trim: "shell_plain t \<Longrightarrow> shell_plain (TrimSuffix t u)"
  by (auto simp: shell_plain_def TrimSuffix_def dest: in_set_takeD)

lemma read_env_var_plain: "0x3D \<notin> set nm \<Longrightarrow> shell_plain t \<Longrightarrow> read_env_var nm t = t"
proof -
  assume "0x3D \<notin> set nm" and "shell_plain t"
  then have "text_fields 0x3D (nm @ [0x3D, 0x27] @ t @ [0x27]) = [nm, 0x27 # t @ [0x27]]"
    using text_fields_cut [of "0x3D" nm "0x27 # t @ [0x27]"] text_fields_none [of "0x3D" "0x27 # t @ [0x27]"] by (auto simp: shell_plain_def)
  then show ?thesis by (simp add: read_env_var_def unquote_def)
qed

lemma var_name_plain: "var_name n \<Longrightarrow> 0x3D \<notin> set n"
  by (auto simp: var_name_def)

text \<open>An option with its value, or a flag without one.\<close>

fun item :: "rune \<Rightarrow> rtext \<times> rtext option \<Rightarrow> rtext" where
  "item k (n, None) = n"
| "item k (n, Some v) = n @ k # v"

fun item_value :: "rtext \<times> rtext option \<Rightarrow> rtext \<times> rtext" where
  "item_value (n, None) = (n, lit ''true'')"
| "item_value (n, Some v) = (n, v)"

definition plain_item :: "rune \<Rightarrow> rune \<Rightarrow> rtext \<times> rtext option \<Rightarrow> bool" where
  "plain_item i k it \<longleftrightarrow> fst it \<noteq> [] \<and> i \<notin> set (fst it) \<and> k \<notin> set (fst it) \<and> (\<forall>v. snd it = Some v \<longrightarrow> i \<notin> set v \<and> k \<notin> set v)"

lemma read_item_plain: "plain_item i k it \<Longrightarrow> read_item k (item k it) d = d(fst (item_value it) \<mapsto> snd (item_value it))"
  by (cases "(k, it)" rule: item.cases) (auto simp: read_item_def plain_item_def text_fields_none text_fields_cut)

lemma item_fields:
  "\<lbrakk>i \<noteq> k; \<forall>it \<in> set its. plain_item i k it\<rbrakk> \<Longrightarrow>
    filter (\<lambda>t. t \<noteq> []) (text_fields i (concat (map (\<lambda>it. item k it @ [i]) its))) = map (item k) its"
proof (induction its)
  case (Cons it its)
  have "i \<notin> set (item k it)" "item k it \<noteq> []" using Cons.prems by (cases "(k, it)" rule: item.cases; auto simp: plain_item_def)+
  with Cons show ?case by (simp add: text_fields_cut)
qed simp

lemma fold_items:
  "\<forall>it \<in> set its. plain_item i k it \<Longrightarrow> fold (read_item k) (map (item k) its) d = d ++ map_of (rev (map item_value its))"
proof (induction its arbitrary: d)
  case (Cons it its)
  then have "fold (read_item k) (map (item k) (it # its)) d = d(fst (item_value it) \<mapsto> snd (item_value it)) ++ map_of (rev (map item_value its))"
    by (simp add: read_item_plain [of i])
  then show ?case by (auto simp: fun_eq_iff map_add_def split: option.splits)
qed simp

lemma deserialize_trim:
  assumes "i \<noteq> k"
  shows "deserialize_dict (TrimSuffix (i # k # t) [i]) = deserialize_dict (i # k # t)"
proof (cases "suffix [i] (i # k # t)")
  case True
  then obtain ys where ys: "i # k # t = ys @ [i]" by (auto simp: suffix_def)
  with assms obtain r where r: "ys = i # k # r" "t = r @ [i]" by (cases ys; cases "tl ys") auto
  then have "TrimSuffix (i # k # t) [i] = i # k # r" using True by (simp add: TrimSuffix_def)
  then show ?thesis by (simp add: r text_fields_snoc)
qed (simp add: TrimSuffix_def)

lemma deserialize_items:
  assumes "i \<noteq> k" and "{i, k} \<subseteq> {0x30..0x3C}" and "\<forall>it \<in> set its. plain_item i k it"
  shows "deserialize_dict (TrimSuffix (i # k # concat (map (\<lambda>it. item k it @ [i]) its)) [i]) = Some (map_of (rev (map item_value its)))"
  using assms by (simp add: deserialize_trim item_fields fold_items)

section \<open>What the sidecar reads\<close>

text \<open>The options of a bundle, of a database and of the globals, in the order of the code; empty ones are not sent.\<close>

definition bundle_options :: "fuseParamsBundleParams \<Rightarrow> (rtext \<times> rtext) list" where
  "bundle_options b = [(lit ''sp'', bp_SrcPath b), (lit ''sr'', bp_SrcRepo b), (lit ''sl'', bp_SrcLabel b), (lit ''sb'', bp_SrcBundle b),
     (lit ''dp'', bp_DestPath b), (lit ''dr'', bp_DestRepo b), (lit ''dm'', bp_DestMessage b), (lit ''dl'', bp_DestLabel b),
     (lit ''dif'', bp_DestBundleID b)]"

definition database_options :: "pgParamsDBParams \<Rightarrow> (rtext \<times> rtext) list" where
  "database_options d = [(lit ''p'', Itoa (db_Port d)), (lit ''m'', db_DestMessage d), (lit ''l'', db_DestLabel d), (lit ''r'', db_DestRepo d),
     (lit ''sl'', db_SrcLabel d), (lit ''sr'', db_SrcRepo d), (lit ''sb'', db_SrcBundle d)]"

definition flag :: "bool \<Rightarrow> rtext" where
  "flag b = (if b then lit ''true'' else [])"

definition fuse_options :: "FUSEParams \<Rightarrow> (rtext \<times> rtext) list" where
  "fuse_options p = [(lit ''S'', flag (fp_SleepInsteadOfExit p)), (lit ''c'', fp_CoordPoint p), (lit ''b'', fp_ConfigBucketName p),
     (lit ''a'', fp_ContextName p)]"

definition pg_options :: "PGParams \<Rightarrow> (rtext \<times> rtext) list" where
  "pg_options p = [(lit ''S'', flag (pp_SleepInsteadOfExit p)), (lit ''c'', pp_CoordPoint p),
     (lit ''V'', if pp_IgnorePGVersionMismatch p then lit ''true'' else lit ''false'')]"

definition given :: "(rtext \<times> rtext) list \<Rightarrow> (rtext \<times> rtext) list" where
  "given = filter (\<lambda>(n, v). v \<noteq> [])"

fun append_all :: "seps \<Rightarrow> rtext \<Rightarrow> (rtext \<times> rtext) list \<Rightarrow> (param_err, rtext) res" where
  "append_all S rv [] = Inr rv"
| "append_all S rv ((n, v) # ps) = rbind (appendToParamString S rv n v) (\<lambda>rv. append_all S rv ps)"

lemma bundle_string_all: "fuseParamsBundleString S b = rbind (append_all S (itemSep S @ kvSep S) (bundle_options b)) (\<lambda>rv. Inr (TrimSuffix rv (itemSep S)))"
  by (simp add: fuseParamsBundleString_def bundle_options_def rbind_def split: sum.split)

lemma database_string_all: "pgParamsDatabaseString S d = rbind (append_all S (itemSep S @ kvSep S) (database_options d)) (\<lambda>rv. Inr (TrimSuffix rv (itemSep S)))"
  by (simp add: pgParamsDatabaseString_def database_options_def rbind_def split: sum.split)

lemma Contains_single [simp]: "Contains s [r] \<longleftrightarrow> r \<in> set s"
  by (induction s) auto

lemma append_all_ok:
  "good_seps S i k \<Longrightarrow> \<forall>(n, v) \<in> set ps. i \<notin> set v \<and> k \<notin> set v \<Longrightarrow>
    append_all S rv ps = Inr (rv @ concat (map (\<lambda>(n, v). item k (n, Some v) @ [i]) (given ps)))"
  by (induction S rv ps rule: append_all.induct) (auto simp: appendToParamString_def containsSep_def good_seps_def given_def)

text \<open>The names of the options are letters, which no separator is.\<close>

lemma option_names:
  assumes "{i, k} \<subseteq> {0x30..0x3C}" and "n \<in> set (map fst (bundle_options b)) \<union> set (map fst (database_options d))
    \<union> set (map fst (fuse_options p)) \<union> set (map fst (pg_options q))"
  shows "n \<noteq> [] \<and> i \<notin> set n \<and> k \<notin> set n"
  using assms by (auto simp: bundle_options_def database_options_def fuse_options_def pg_options_def lit_def)

lemma distinct_names [simp]:
  "distinct (map fst (bundle_options b))" "distinct (map fst (database_options d))" "distinct (map fst (fuse_options p))" "distinct (map fst (pg_options q))"
  by (simp_all add: bundle_options_def database_options_def fuse_options_def pg_options_def lit_def)

lemma map_of_rev_given: "distinct (map fst ps) \<Longrightarrow> map_of (rev (given ps)) = map_of (given ps)"
  by (subst map_of_inject_set) (simp_all add: given_def distinct_map_filter flip: rev_map)

lemma deserialize_options:
  assumes S: "good_seps S i k" and names: "\<forall>n \<in> set (map fst ps). n \<noteq> [] \<and> i \<notin> set n \<and> k \<notin> set n"
    and vals: "\<forall>(n, v) \<in> set ps. i \<notin> set v \<and> k \<notin> set v" and d: "distinct (map fst ps)"
    and its: "map item_value its = given ps"
  shows "deserialize_dict (TrimSuffix (i # k # concat (map (\<lambda>it. item k it @ [i]) its)) [i]) = Some (map_of (given ps))"
proof -
  have "plain_item i k it" if "it \<in> set its" for it
  proof -
    from that its have "item_value it \<in> set ps" by (metis given_def filter_is_subset image_eqI list.set_map subsetD)
    then have "fst (item_value it) \<in> set (map fst ps)" "case item_value it of (n, v) \<Rightarrow> i \<notin> set v \<and> k \<notin> set v"
      using vals by auto
    with names show ?thesis by (cases "(k, it)" rule: item.cases) (auto simp: plain_item_def)
  qed
  then show ?thesis using deserialize_items [of i k its] S unfolding its map_of_rev_given [OF d] by (simp add: good_seps_def)
qed

lemma append_options:
  assumes S: "good_seps S i k" and vals: "\<forall>(n, v) \<in> set ps. i \<notin> set v \<and> k \<notin> set v"
  shows "append_all S rv ps = Inr (rv @ concat (map (\<lambda>it. item k it @ [i]) (map (\<lambda>(n, v). (n, Some v)) (given ps))))"
  using append_all_ok [OF S vals] by (simp add: comp_def case_prod_unfold)

lemma item_value_Some [simp]: "map item_value (map (\<lambda>(n, v). (n, Some v)) ps) = ps"
  by (simp add: comp_def case_prod_unfold)

lemma deserialize_string:
  assumes S: "good_seps S i k" and names: "\<forall>n \<in> set (map fst ps). n \<noteq> [] \<and> i \<notin> set n \<and> k \<notin> set n"
    and vals: "\<forall>(n, v) \<in> set ps. i \<notin> set v \<and> k \<notin> set v" and d: "distinct (map fst ps)"
  shows "\<exists>t. rbind (append_all S (itemSep S @ kvSep S) ps) (\<lambda>rv. Inr (TrimSuffix rv (itemSep S))) = Inr t
    \<and> deserialize_dict t = Some (map_of (given ps))"
proof -
  have "itemSep S = [i]" "kvSep S = [k]" using S by (simp_all add: good_seps_def)
  with deserialize_options [OF S names vals d item_value_Some] show ?thesis
    by (simp only: append_options [OF S vals] rbind_simps append_Cons append_Nil) blast
qed

lemma bundle_string_ok:
  assumes S: "good_seps S i k" and "\<forall>s \<in> set (map snd (bundle_options b)). i \<notin> set s \<and> k \<notin> set s"
  shows "\<exists>t. fuseParamsBundleString S b = Inr t \<and> deserialize_dict t = Some (map_of (given (bundle_options b)))"
  unfolding bundle_string_all
  by (rule deserialize_string [OF S]) (use option_names [of i k _ b] S assms(2) in \<open>auto simp: good_seps_def\<close>)

lemma database_string_ok:
  assumes S: "good_seps S i k" and "\<forall>s \<in> set (map snd (database_options d)). i \<notin> set s \<and> k \<notin> set s"
  shows "\<exists>t. pgParamsDatabaseString S d = Inr t \<and> deserialize_dict t = Some (map_of (given (database_options d)))"
  unfolding database_string_all
  by (rule deserialize_string [OF S]) (use option_names [of i k _ _ d] S assms(2) in \<open>auto simp: good_seps_def\<close>)

lemma global_string:
  assumes S: "good_seps S i k" and vals: "\<forall>(n, v) \<in> set ps. i \<notin> set v \<and> k \<notin> set v" and d: "distinct (lit ''S'' # map fst ps)"
    and names: "\<forall>n \<in> set (map fst ps). n \<noteq> [] \<and> i \<notin> set n \<and> k \<notin> set n"
  shows "\<exists>t. rbind (append_all S (if sleep then (itemSep S @ kvSep S) @ lit ''S'' @ itemSep S else itemSep S @ kvSep S) ps)
      (\<lambda>rv. Inr (TrimSuffix rv (itemSep S))) = Inr t \<and> deserialize_dict t = Some (map_of (given ((lit ''S'', flag sleep) # ps)))"
proof -
  have seps: "itemSep S = [i]" "kvSep S = [k]" and ik: "{i, k} \<subseteq> {0x30..0x3C}" using S by (simp_all add: good_seps_def)
  then have letters: "i \<notin> set (lit ''S'')" "k \<notin> set (lit ''S'')" "i \<notin> set (flag sleep)" "k \<notin> set (flag sleep)"
    by (auto simp: lit_def flag_def)
  let ?ps = "(lit ''S'', flag sleep) # ps"
  let ?its = "(if sleep then [(lit ''S'', None)] else []) @ map (\<lambda>(n, v). (n, Some v)) (given ps)"
  have its: "map item_value ?its = given ?ps"
    by (simp only: map_append item_value_Some) (simp add: given_def flag_def lit_def)
  have "deserialize_dict (TrimSuffix (i # k # concat (map (\<lambda>it. item k it @ [i]) ?its)) [i]) = Some (map_of (given ?ps))"
    by (rule deserialize_options [OF S _ _ _ its]) (use letters vals names d in \<open>auto simp: lit_def\<close>)
  then show ?thesis by (cases sleep) (simp_all only: append_options [OF S vals] rbind_simps seps, simp_all)
qed

lemma fuse_global_ok:
  assumes S: "good_seps S i k" and "\<forall>s \<in> {fp_CoordPoint p, fp_ConfigBucketName p, fp_ContextName p}. s \<noteq> [] \<and> i \<notin> set s \<and> k \<notin> set s"
  shows "\<exists>t. fuseParamsGlobalString S p = Inr t \<and> deserialize_dict t = Some (map_of (given (fuse_options p)))"
proof -
  let ?ps = "[(lit ''c'', fp_CoordPoint p), (lit ''b'', fp_ConfigBucketName p), (lit ''a'', fp_ContextName p)]"
  have "fuseParamsGlobalString S p = rbind (append_all S (if fp_SleepInsteadOfExit p then (itemSep S @ kvSep S) @ lit ''S'' @ itemSep S
      else itemSep S @ kvSep S) ?ps) (\<lambda>rv. Inr (TrimSuffix rv (itemSep S)))"
    using assms(2) by (simp add: fuseParamsGlobalString_def Let_def rbind_def split: sum.split)
  moreover have "fuse_options p = (lit ''S'', flag (fp_SleepInsteadOfExit p)) # ?ps" by (simp add: fuse_options_def)
  ultimately show ?thesis
    using global_string [OF S, of ?ps "fp_SleepInsteadOfExit p"] option_names [of i k _ _ _ p] S assms(2)
    by (simp add: good_seps_def lit_def fuse_options_def)
qed

lemma pg_global_ok:
  assumes S: "good_seps S i k" and "pp_CoordPoint p \<noteq> []" "i \<notin> set (pp_CoordPoint p)" "k \<notin> set (pp_CoordPoint p)"
  shows "\<exists>t. pgParamsGlobalString S p = Inr t \<and> deserialize_dict t = Some (map_of (given (pg_options p)))"
proof -
  let ?ps = "[(lit ''c'', pp_CoordPoint p), (lit ''V'', if pp_IgnorePGVersionMismatch p then lit ''true'' else lit ''false'')]"
  have "pgParamsGlobalString S p = rbind (append_all S (if pp_SleepInsteadOfExit p then (itemSep S @ kvSep S) @ lit ''S'' @ itemSep S
      else itemSep S @ kvSep S) ?ps) (\<lambda>rv. Inr (TrimSuffix rv (itemSep S)))"
    using assms(2) by (simp add: pgParamsGlobalString_def Let_def rbind_def split: sum.split)
  moreover have "pg_options p = (lit ''S'', flag (pp_SleepInsteadOfExit p)) # ?ps" by (simp add: pg_options_def)
  moreover have "i \<notin> set (lit ''true'') \<and> k \<notin> set (lit ''true'') \<and> i \<notin> set (lit ''false'') \<and> k \<notin> set (lit ''false'')"
    using S by (auto simp: good_seps_def lit_def)
  ultimately show ?thesis
    using global_string [OF S, of ?ps "pp_SleepInsteadOfExit p"] option_names [of i k _ _ _ _ p] S assms(2-4)
    by (simp add: good_seps_def lit_def pg_options_def)
qed

text \<open>Texts made of plain texts are plain.\<close>

lemma append_all_plain:
  "append_all S rv ps = Inr rv' \<Longrightarrow> shell_plain (rv @ itemSep S @ kvSep S) \<Longrightarrow> \<forall>(n, v) \<in> set ps. shell_plain n \<and> shell_plain v \<Longrightarrow> shell_plain rv'"
proof (induction S rv ps rule: append_all.induct)
  case (2 S rv n v ps)
  then obtain rv1 where rv1: "appendToParamString S rv n v = Inr rv1" "append_all S rv1 ps = Inr rv'" by (auto simp: rbind_eq_Inr)
  then have "shell_plain (rv1 @ itemSep S @ kvSep S)" using 2(3,4) by (auto simp: appendToParamString_def split: if_splits)
  then show ?case using 2(1) [OF rv1(2)] 2(4) by simp
qed simp

lemma good_seps_plain: "good_seps S i k \<Longrightarrow> shell_plain (itemSep S @ kvSep S)"
  by (auto simp: good_seps_def shell_plain_def)

lemma option_plain: "(n, v) \<in> set (bundle_options b) \<Longrightarrow> shell_plain n"
  by (auto simp: bundle_options_def lit_def shell_plain_def)

lemma bundle_string_plain:
  assumes "good_seps S i k" and "fuseParamsBundleString S b = Inr t" and "\<forall>s \<in> set (map snd (bundle_options b)). shell_plain s"
  shows "shell_plain t"
proof -
  from assms(2) obtain rv where rv: "append_all S (itemSep S @ kvSep S) (bundle_options b) = Inr rv" "t = TrimSuffix rv (itemSep S)"
    by (auto simp: bundle_string_all rbind_eq_Inr)
  have "\<forall>(n, v) \<in> set (bundle_options b). shell_plain n \<and> shell_plain v" using assms(3) option_plain [of _ _ b] by force
  then show ?thesis using append_all_plain [OF rv(1)] good_seps_plain [OF assms(1)] rv(2) by (simp add: shell_plain_trim)
qed

lemma global_string_all:
  assumes "fuseParamsGlobalString S p = Inr t"
  obtains rv where "append_all S (if fp_SleepInsteadOfExit p then (itemSep S @ kvSep S) @ lit ''S'' @ itemSep S else itemSep S @ kvSep S)
      [(lit ''c'', fp_CoordPoint p), (lit ''b'', fp_ConfigBucketName p), (lit ''a'', fp_ContextName p)] = Inr rv" "t = TrimSuffix rv (itemSep S)"
  using assms by (simp add: fuseParamsGlobalString_def Let_def rbind_eq_Inr split: if_split_asm) blast+

lemma global_string_plain:
  assumes "good_seps S i k" and "fuseParamsGlobalString S p = Inr t"
    and "\<forall>s \<in> {fp_CoordPoint p, fp_ConfigBucketName p, fp_ContextName p}. shell_plain s"
  shows "shell_plain t"
proof -
  have lits: "shell_plain (lit ''S'')" "shell_plain (lit ''c'')" "shell_plain (lit ''b'')" "shell_plain (lit ''a'')" by (simp_all add: shell_plain_def lit_def)
  show ?thesis
  proof (rule global_string_all [OF assms(2)])
    fix rv
    assume rv: "append_all S (if fp_SleepInsteadOfExit p then (itemSep S @ kvSep S) @ lit ''S'' @ itemSep S else itemSep S @ kvSep S)
        [(lit ''c'', fp_CoordPoint p), (lit ''b'', fp_ConfigBucketName p), (lit ''a'', fp_ContextName p)] = Inr rv" "t = TrimSuffix rv (itemSep S)"
    from append_all_plain [OF rv(1)] good_seps_plain [OF assms(1)] assms(3) lits have "shell_plain rv" by simp
    then show ?thesis using rv(2) by (simp add: shell_plain_trim)
  qed
qed

text \<open>Of several bundles with one name, the last one is kept.\<close>

lemma bundle_strings_ok:
  "\<forall>b \<in> set bs. fuseParamsBundleString S b = Inr (g b) \<Longrightarrow>
    fuseParamsBundleStrings S rv bs = Inr (rv ++ map_of (rev (map (\<lambda>b. (bp_Name b, g b)) bs)))"
  by (induction bs arbitrary: rv) (auto simp: fun_eq_iff map_add_def split: option.splits)

lemma database_strings_ok:
  "\<forall>d \<in> set ds. pgParamsDatabaseString S d = Inr (g d) \<Longrightarrow>
    pgParamsDatabaseStrings S rv ds = Inr (rv ++ map_of (rev (map (\<lambda>d. (db_Name d, g d)) ds)))"
  by (induction ds arbitrary: rv) (auto simp: fun_eq_iff map_add_def split: option.splits)

lemma prefixed_append [simp]: "prefixed pre m (pre @ n) = m n"
  by (simp add: prefixed_def)

lemma prefixed_dom: "prefixed pre m v = Some t \<Longrightarrow> \<exists>n. v = pre @ n"
  by (metis append_take_drop_id option.distinct(1) prefixed_def)

lemma map_of_rev_map: "map_of (rev (map (\<lambda>b. (nm b, f b)) bs)) n = map_option f (map_of (rev (map (\<lambda>b. (nm b, b)) bs)) n)"
  by (simp add: rev_map map_of_map comp_def)
    (induction bs rule: rev_induct, auto)

definition bundle_texts :: "fuseParamsBundleParams \<Rightarrow> rtext list" where
  "bundle_texts b = [bp_Name b, bp_SrcPath b, bp_SrcRepo b, bp_SrcLabel b, bp_SrcBundle b, bp_DestPath b, bp_DestRepo b, bp_DestMessage b,
     bp_DestLabel b, bp_DestBundleID b]"

definition fuse_texts :: "FUSEParams \<Rightarrow> rtext list" where
  "fuse_texts p = [if fp_SleepInsteadOfExit p then lit ''true'' else lit ''false'', fp_CoordPoint p, fp_ConfigBucketName p, fp_ContextName p]
     @ concat (map bundle_texts (fp_Bundles p))"

definition database_texts :: "pgParamsDBParams \<Rightarrow> rtext list" where
  "database_texts d = [db_Name d, Itoa (db_Port d), db_DestRepo d, db_DestMessage d, db_DestLabel d, db_DestBundleID d, db_SrcRepo d, db_SrcLabel d,
     db_SrcBundle d]"

definition pg_texts :: "PGParams \<Rightarrow> rtext list" where
  "pg_texts p = [if pp_SleepInsteadOfExit p then lit ''true'' else lit ''false'', if pp_IgnorePGVersionMismatch p then lit ''true'' else lit ''false'',
     pp_CoordPoint p, pp_ContributorName p, pp_ContributorEmail p] @ concat (map database_texts (pp_Databases p))"

lemma fuse_values: "fieldsAsStringValues (fuse_value p) = Inr (fuse_texts p)"
proof -
  have "slice_values (map bundle_value bs) = Inr (concat (map bundle_texts bs))" for bs
    by (induction bs) (simp_all add: bundle_value_def bundle_texts_def blank_def)
  then show ?thesis by (simp add: fuse_value_def fuse_texts_def blank_def)
qed

lemma pg_values: "fieldsAsStringValues (pg_value p) = Inr (pg_texts p)"
proof -
  have "slice_values (map database_value ds) = Inr (concat (map database_texts ds))" for ds
    by (induction ds) (simp_all add: database_value_def database_texts_def blank_def)
  then show ?thesis by (simp add: pg_value_def pg_texts_def blank_def)
qed

section \<open>Properties\<close>

lemma env_of_strings:
  assumes g: "\<forall>b \<in> set bs. R (pre @ nm b) (g b) = Some (D b)" and "\<not> prefix pre opts"
    and env: "env = (prefixed pre (map_of (rev (map (\<lambda>b. (nm b, g b)) bs))))(opts \<mapsto> t)"
  shows "map_option (R (pre @ n)) (env (pre @ n)) = map_option (\<lambda>b. Some (D b)) (map_of (rev (map (\<lambda>b. (nm b, b)) bs)) n)"
    and "env v = Some u \<Longrightarrow> v = opts \<and> u = t \<or> (\<exists>b \<in> set bs. v = pre @ nm b \<and> u = g b)"
proof -
  have "pre @ n \<noteq> opts" using assms(2) by auto
  then have "env (pre @ n) = map_option g (map_of (rev (map (\<lambda>b. (nm b, b)) bs)) n)" by (simp add: env map_of_rev_map [of nm g])
  with g show "map_option (R (pre @ n)) (env (pre @ n)) = map_option (\<lambda>b. Some (D b)) (map_of (rev (map (\<lambda>b. (nm b, b)) bs)) n)"
    by (cases "map_of (rev (map (\<lambda>b. (nm b, b)) bs)) n") (auto dest!: map_of_SomeD)
  show "v = opts \<and> u = t \<or> (\<exists>b \<in> set bs. v = pre @ nm b \<and> u = g b)" if "env v = Some u"
  proof (cases "v = opts")
    case False
    with that have pv: "prefixed pre (map_of (rev (map (\<lambda>b. (nm b, g b)) bs))) v = Some u" by (simp add: env)
    from prefixed_dom [OF this] obtain n where "v = pre @ n" by blast
    with pv show ?thesis by (auto dest!: map_of_SomeD)
  qed (use that in \<open>simp add: env\<close>)
qed

lemma fuse_env:
  assumes "fp_CoordPoint p \<noteq> []" and "fp_ConfigBucketName p \<noteq> []" and "fp_ContextName p \<noteq> []"
    and "\<forall>s \<in> set (fuse_texts p). shell_plain s" and "\<forall>b \<in> set (fp_Bundles p). var_name (bp_Name b)"
    and x: "x \<in> {0x30..0x3C}" "\<forall>s \<in> set (fuse_texts p). x \<notin> set s" and y: "y \<in> {0x30..0x3C}" "\<forall>s \<in> set (fuse_texts p). y \<notin> set s" and "x \<noteq> y"
  shows "\<exists>S' env t. FUSEParamsToEnvVars p S = (S', Inr env)
    \<and> env (lit ''dm_fuse_opts'') = Some t \<and> read_options (lit ''dm_fuse_opts'') t = Some (map_of (given (fuse_options p)))
    \<and> (\<forall>n. map_option (read_options (lit ''dm_fuse_bd_'' @ n)) (env (lit ''dm_fuse_bd_'' @ n)) =
        map_option (\<lambda>b. Some (map_of (given (bundle_options b)))) (map_of (rev (map (\<lambda>b. (bp_Name b, b)) (fp_Bundles p))) n))
    \<and> (\<forall>v u. env v = Some u \<longrightarrow> shell_plain u \<and> (v = lit ''dm_fuse_opts'' \<or> (\<exists>n. var_name n \<and> v = lit ''dm_fuse_bd_'' @ n)))"
proof -
  let ?pre = "lit ''dm_fuse_bd_''" and ?opts = "lit ''dm_fuse_opts''"
  obtain S' i k where S': "setSeparators (fuse_value p) S = (S', None)" "good_seps S' i k" and vals: "\<forall>s \<in> set (fuse_texts p). i \<notin> set s \<and> k \<notin> set s"
    by (rule setSeparators_ok [OF fuse_values x y \<open>x \<noteq> y\<close>])
  have eq: "0x3D \<notin> set ?opts" "b \<in> set (fp_Bundles p) \<Longrightarrow> 0x3D \<notin> set (?pre @ bp_Name b)" for b
    using assms(5) var_name_plain [of "bp_Name b"] by (auto simp: lit_def)
  have "\<exists>t. fuseParamsBundleString S' b = Inr t \<and> shell_plain t \<and> read_options (?pre @ bp_Name b) t = Some (map_of (given (bundle_options b)))"
    if "b \<in> set (fp_Bundles p)" for b
  proof -
    have "\<forall>s \<in> set (map snd (bundle_options b)). i \<notin> set s \<and> k \<notin> set s" "\<forall>s \<in> set (map snd (bundle_options b)). shell_plain s"
      using vals assms(4) that by (auto simp: fuse_texts_def bundle_texts_def bundle_options_def)
    with bundle_string_ok [OF S'(2), of b] bundle_string_plain [OF S'(2), of b] read_env_var_plain [OF eq(2) [OF that]] show ?thesis
      by (auto simp: read_options_def)
  qed
  then obtain g where g: "\<forall>b \<in> set (fp_Bundles p). fuseParamsBundleString S' b = Inr (g b)" "\<forall>b \<in> set (fp_Bundles p). shell_plain (g b)"
      "\<forall>b \<in> set (fp_Bundles p). read_options (?pre @ bp_Name b) (g b) = Some (map_of (given (bundle_options b)))" by metis
  from fuse_global_ok [OF S'(2), of p] vals assms(1-3) obtain t where
    t: "fuseParamsGlobalString S' p = Inr t" "deserialize_dict t = Some (map_of (given (fuse_options p)))" by (auto simp: fuse_texts_def)
  have tp: "shell_plain t" using assms(4) by (intro global_string_plain [OF S'(2) t(1)]) (simp add: fuse_texts_def)
  define env where "env = (prefixed ?pre (map_of (rev (map (\<lambda>b. (bp_Name b, g b)) (fp_Bundles p)))))(?opts \<mapsto> t)"
  have "FUSEParamsToEnvVars p S = (S', Inr env)" using S'(1) bundle_strings_ok [OF g(1)] t(1) by (simp add: FUSEParamsToEnvVars_def env_def)
  moreover have "env ?opts = Some t" by (simp add: env_def)
  moreover have "read_options ?opts t = Some (map_of (given (fuse_options p)))" using t(2) read_env_var_plain [OF eq(1) tp] by (simp add: read_options_def)
  moreover have "\<not> prefix ?pre ?opts" by (simp add: lit_def)
  note es = env_of_strings [OF g(3) this env_def]
  have "shell_plain u \<and> (v = ?opts \<or> (\<exists>n. var_name n \<and> v = ?pre @ n))" if "env v = Some u" for v u
    using es(2) [OF that] tp g(2) assms(5) by blast
  ultimately show ?thesis using es(1) by blast
qed

text \<open>
  C21: the parameters of a file system sidecar survive the way through the environment. When two of the characters from \<open>0\<close> to
  \<open><\<close> occur in no value, the coordination point, the configuration bucket and the context are set, all values consist of printable ASCII characters
  without \<open>=\<close>, single quote and backslash, and the names of the bundles are identifiers, the variables are built without
  error, and the script of the sidecar reads from them exactly the options that were set: those of the globals, and for
  every bundle name those of the last bundle with that name. There is no other variable.
\<close>

theorem FUSE_env_roundtrip:
  assumes "fp_CoordPoint p \<noteq> []" and "fp_ConfigBucketName p \<noteq> []" and "fp_ContextName p \<noteq> []"
    and "\<forall>s \<in> set (fuse_texts p). shell_plain s" and "\<forall>b \<in> set (fp_Bundles p). var_name (bp_Name b)"
    and "x \<in> {0x30..0x3C}" and "\<forall>s \<in> set (fuse_texts p). x \<notin> set s" and "y \<in> {0x30..0x3C}" and "\<forall>s \<in> set (fuse_texts p). y \<notin> set s" and "x \<noteq> y"
  shows "\<exists>S' env t. FUSEParamsToEnvVars p S = (S', Inr env)
    \<and> env (lit ''dm_fuse_opts'') = Some t \<and> read_options (lit ''dm_fuse_opts'') t = Some (map_of (given (fuse_options p)))
    \<and> (\<forall>n. map_option (read_options (lit ''dm_fuse_bd_'' @ n)) (env (lit ''dm_fuse_bd_'' @ n)) =
        map_option (\<lambda>b. Some (map_of (given (bundle_options b)))) (map_of (rev (map (\<lambda>b. (bp_Name b, b)) (fp_Bundles p))) n))
    \<and> (\<forall>v u. env v = Some u \<longrightarrow> shell_plain u \<and> (v = lit ''dm_fuse_opts'' \<or> (\<exists>n. var_name n \<and> v = lit ''dm_fuse_bd_'' @ n)))"
  using assms by (rule fuse_env)

text \<open>The parameters of the tests of the source: one bundle to read.\<close>

definition demo_bundle :: fuseParamsBundleParams where
  "demo_bundle = no_bundle\<lparr>bp_Name := lit ''src'', bp_SrcPath := lit ''/tmp/mount'', bp_SrcRepo := lit ''repo'', bp_SrcLabel := lit ''label''\<rparr>"

definition demo_fuse :: FUSEParams where
  "demo_fuse = no_fuse\<lparr>fp_SleepInsteadOfExit := True, fp_CoordPoint := lit ''/tmp/coord'', fp_ConfigBucketName := lit ''bucket'',
     fp_ContextName := lit ''dev'', fp_Bundles := [demo_bundle]\<rparr>"

theorem FUSE_env_roundtrip_witness:
  "\<exists>S' env t s. FUSEParamsToEnvVars demo_fuse init_seps = (S', Inr env) \<and> env (lit ''dm_fuse_opts'') = Some t
    \<and> read_options (lit ''dm_fuse_opts'') t = Some [lit ''S'' \<mapsto> lit ''true'', lit ''c'' \<mapsto> lit ''/tmp/coord'', lit ''b'' \<mapsto> lit ''bucket'', lit ''a'' \<mapsto> lit ''dev'']
    \<and> env (lit ''dm_fuse_bd_src'') = Some s
    \<and> read_options (lit ''dm_fuse_bd_src'') s = Some [lit ''sp'' \<mapsto> lit ''/tmp/mount'', lit ''sr'' \<mapsto> lit ''repo'', lit ''sl'' \<mapsto> lit ''label'']"
proof -
  have "\<exists>S' env t. FUSEParamsToEnvVars demo_fuse init_seps = (S', Inr env)
    \<and> env (lit ''dm_fuse_opts'') = Some t \<and> read_options (lit ''dm_fuse_opts'') t = Some (map_of (given (fuse_options demo_fuse)))
    \<and> (\<forall>n. map_option (read_options (lit ''dm_fuse_bd_'' @ n)) (env (lit ''dm_fuse_bd_'' @ n)) =
        map_option (\<lambda>b. Some (map_of (given (bundle_options b)))) (map_of (rev (map (\<lambda>b. (bp_Name b, b)) (fp_Bundles demo_fuse))) n))
    \<and> (\<forall>v u. env v = Some u \<longrightarrow> shell_plain u \<and> (v = lit ''dm_fuse_opts'' \<or> (\<exists>n. var_name n \<and> v = lit ''dm_fuse_bd_'' @ n)))"
    by (rule FUSE_env_roundtrip [where x = 48 and y = 49])
      (simp_all add: demo_fuse_def demo_bundle_def no_fuse_def no_bundle_def fuse_texts_def bundle_texts_def lit_def shell_plain_def var_name_def)
  then obtain S' env t where env: "FUSEParamsToEnvVars demo_fuse init_seps = (S', Inr env)" "env (lit ''dm_fuse_opts'') = Some t"
      "read_options (lit ''dm_fuse_opts'') t = Some (map_of (given (fuse_options demo_fuse)))"
    and bd: "map_option (read_options (lit ''dm_fuse_bd_'' @ lit ''src'')) (env (lit ''dm_fuse_bd_'' @ lit ''src'')) =
        map_option (\<lambda>b. Some (map_of (given (bundle_options b)))) (map_of (rev (map (\<lambda>b. (bp_Name b, b)) (fp_Bundles demo_fuse))) (lit ''src''))" by blast
  have "lit ''dm_fuse_bd_'' @ lit ''src'' = lit ''dm_fuse_bd_src''" by (simp add: lit_def)
  with bd have "map_option (read_options (lit ''dm_fuse_bd_src'')) (env (lit ''dm_fuse_bd_src'')) = Some (Some (map_of (given (bundle_options demo_bundle))))"
    by (simp add: demo_fuse_def demo_bundle_def no_fuse_def)
  then obtain s where s: "env (lit ''dm_fuse_bd_src'') = Some s" "read_options (lit ''dm_fuse_bd_src'') s = Some (map_of (given (bundle_options demo_bundle)))" by auto
  have "map_of (given (bundle_options demo_bundle)) = [lit ''sp'' \<mapsto> lit ''/tmp/mount'', lit ''sr'' \<mapsto> lit ''repo'', lit ''sl'' \<mapsto> lit ''label'']"
    "map_of (given (fuse_options demo_fuse)) = [lit ''S'' \<mapsto> lit ''true'', lit ''c'' \<mapsto> lit ''/tmp/coord'', lit ''b'' \<mapsto> lit ''bucket'', lit ''a'' \<mapsto> lit ''dev'']"
    by (auto simp: given_def bundle_options_def fuse_options_def flag_def demo_bundle_def demo_fuse_def no_bundle_def no_fuse_def lit_def fun_eq_iff)
  with env s show ?thesis by auto
qed

text \<open>
  The parameters of a database sidecar are written in the same form, and can be read back in the same way.
\<close>

theorem PG_env_roundtrip:
  assumes "pp_CoordPoint p \<noteq> []"
    and x: "x \<in> {0x30..0x3C}" "\<forall>s \<in> set (pg_texts p). x \<notin> set s" and y: "y \<in> {0x30..0x3C}" "\<forall>s \<in> set (pg_texts p). y \<notin> set s" and "x \<noteq> y"
  shows "\<exists>S' env t. PGParamsToEnvVars p S = (S', Inr env)
    \<and> env (lit ''dm_pg_opts'') = Some t \<and> deserialize_dict t = Some (map_of (given (pg_options p)))
    \<and> (\<forall>n. map_option deserialize_dict (env (lit ''dm_pg_db_'' @ n)) =
        map_option (\<lambda>d. Some (map_of (given (database_options d)))) (map_of (rev (map (\<lambda>d. (db_Name d, d)) (pp_Databases p))) n))
    \<and> (\<forall>v u. env v = Some u \<longrightarrow> v = lit ''dm_pg_opts'' \<or> (\<exists>n. v = lit ''dm_pg_db_'' @ n))"
proof -
  obtain S' i k where S': "setSeparators (pg_value p) S = (S', None)" "good_seps S' i k" and vals: "\<forall>s \<in> set (pg_texts p). i \<notin> set s \<and> k \<notin> set s"
    by (rule setSeparators_ok [OF pg_values x y \<open>x \<noteq> y\<close>])
  have "\<exists>t. pgParamsDatabaseString S' d = Inr t \<and> deserialize_dict t = Some (map_of (given (database_options d)))" if "d \<in> set (pp_Databases p)" for d
    by (rule database_string_ok [OF S'(2)]) (use vals that in \<open>auto simp: pg_texts_def database_texts_def database_options_def\<close>)
  then obtain g where g: "\<forall>d \<in> set (pp_Databases p). pgParamsDatabaseString S' d = Inr (g d)"
      "\<forall>d \<in> set (pp_Databases p). deserialize_dict (g d) = Some (map_of (given (database_options d)))" by metis
  from pg_global_ok [OF S'(2), of p] vals assms(1) obtain t where
    t: "pgParamsGlobalString S' p = Inr t" "deserialize_dict t = Some (map_of (given (pg_options p)))" by (auto simp: pg_texts_def)
  define env where "env = (prefixed (lit ''dm_pg_db_'') (map_of (rev (map (\<lambda>d. (db_Name d, g d)) (pp_Databases p)))))(lit ''dm_pg_opts'' \<mapsto> t)"
  have "PGParamsToEnvVars p S = (S', Inr env)" using S'(1) database_strings_ok [OF g(1)] t(1) by (simp add: PGParamsToEnvVars_def env_def)
  moreover have "env (lit ''dm_pg_opts'') = Some t" by (simp add: env_def)
  moreover have "\<not> prefix (lit ''dm_pg_db_'') (lit ''dm_pg_opts'')" by (simp add: lit_def)
  note es = env_of_strings [where R = "\<lambda>_. deserialize_dict", OF g(2) this env_def]
  ultimately show ?thesis using t(2) es by blast
qed

subsection \<open>Parameters built by the options\<close>

inductive fuse_built :: "FUSEParams \<Rightarrow> bool" where
  New: "set opts \<subseteq> range FUSECoordPoint \<union> range FUSEConfigBucketName \<union> range FUSEContextName \<Longrightarrow> NewFUSEParams opts = Inr p \<Longrightarrow> fuse_built p"
| Add: "fuse_built p \<Longrightarrow> AddBundle bdOpts p = Inr p' \<Longrightarrow> fuse_built p'"

definition wf_bundle :: "fuseParamsBundleParams \<Rightarrow> bool" where
  "wf_bundle b \<longleftrightarrow> bp_Name b \<noteq> [] \<and> (bp_SrcLabel b = [] \<or> bp_SrcBundle b = [])
     \<and> (bp_DestLabel b \<noteq> [] \<or> bp_DestBundleID b \<noteq> [] \<longrightarrow> bp_DestRepo b \<noteq> [] \<and> bp_DestMessage b \<noteq> [])"

lemma fuse_built_wf: "fuse_built p \<Longrightarrow> fp_CoordPoint p \<noteq> [] \<and> (\<forall>b \<in> set (fp_Bundles p). wf_bundle b)"
proof (induction rule: fuse_built.induct)
  case (New opts p)
  have "fp_Bundles (fold (\<lambda>apply p. apply p) opts q) = fp_Bundles q" for q
    using New(1) by (induction opts arbitrary: q) (auto simp: FUSECoordPoint_def FUSEConfigBucketName_def FUSEContextName_def)
  with New(2) show ?case by (auto simp: NewFUSEParams_def Let_def no_fuse_def split: if_splits)
next
  case (Add p bdOpts p')
  then show ?case by (auto simp: AddBundle_def Let_def wf_bundle_def split: if_splits)
qed

lemma dom_given:
  "n \<in> dom (map_of (given ps)) \<longleftrightarrow> (\<exists>v. (n, v) \<in> set ps \<and> v \<noteq> [])"
  by (auto simp: dom_map_of_conv_image_fst given_def image_iff)

text \<open>
  C22: parameters that are built by the options of the package reach the sidecar in a form that it can work with: every bundle variable
  is read as options of which the label and the bundle identifier of a source never occur together, and the label or the identifier file of a
  destination only with its repository and message; the coordination point is always there. The configuration bucket and the context must be
  set, two of the characters from \<open>0\<close> to \<open><\<close> must occur in no value, the values must consist of printable ASCII characters
  without \<open>=\<close>, single quote and backslash, and the names of the bundles must be identifiers.
\<close>

theorem Built_params_wellformed:
  assumes "fuse_built p" and "fp_ConfigBucketName p \<noteq> []" and "fp_ContextName p \<noteq> []"
    and "\<forall>s \<in> set (fuse_texts p). shell_plain s" and "\<forall>b \<in> set (fp_Bundles p). var_name (bp_Name b)"
    and "x \<in> {0x30..0x3C}" and "\<forall>s \<in> set (fuse_texts p). x \<notin> set s" and "y \<in> {0x30..0x3C}" and "\<forall>s \<in> set (fuse_texts p). y \<notin> set s" and "x \<noteq> y"
  shows "\<exists>S' env t d. FUSEParamsToEnvVars p S = (S', Inr env) \<and> env (lit ''dm_fuse_opts'') = Some t \<and> read_options (lit ''dm_fuse_opts'') t = Some d \<and> lit ''c'' \<in> dom d
    \<and> (\<forall>n t. env (lit ''dm_fuse_bd_'' @ n) = Some t \<longrightarrow> n \<noteq> []
        \<and> (\<exists>d. read_options (lit ''dm_fuse_bd_'' @ n) t = Some d \<and> \<not> {lit ''sl'', lit ''sb''} \<subseteq> dom d \<and> ({lit ''dl'', lit ''dif''} \<inter> dom d \<noteq> {} \<longrightarrow> {lit ''dr'', lit ''dm''} \<subseteq> dom d)))"
proof -
  note wf = fuse_built_wf [OF assms(1)]
  have reads: "n \<noteq> [] \<and> \<not> {lit ''sl'', lit ''sb''} \<subseteq> dom (map_of (given (bundle_options b)))
      \<and> ({lit ''dl'', lit ''dif''} \<inter> dom (map_of (given (bundle_options b))) \<noteq> {} \<longrightarrow> {lit ''dr'', lit ''dm''} \<subseteq> dom (map_of (given (bundle_options b))))"
    if "map_of (rev (map (\<lambda>b. (bp_Name b, b)) (fp_Bundles p))) n = Some b" for n b
  proof -
    from map_of_SomeD [OF that] wf have "wf_bundle b" "n = bp_Name b" by auto
    then show ?thesis by (auto simp: wf_bundle_def bundle_options_def lit_def dom_given)
  qed
  have "lit ''c'' \<in> dom (map_of (given (fuse_options p)))" using wf by (auto simp: dom_given fuse_options_def)
  moreover from wf have "fp_CoordPoint p \<noteq> []" ..
  from fuse_env [OF this assms(2-), of S] obtain S' env t where env: "FUSEParamsToEnvVars p S = (S', Inr env)"
      "env (lit ''dm_fuse_opts'') = Some t" "read_options (lit ''dm_fuse_opts'') t = Some (map_of (given (fuse_options p)))"
    and bd: "\<forall>n. map_option (read_options (lit ''dm_fuse_bd_'' @ n)) (env (lit ''dm_fuse_bd_'' @ n)) =
        map_option (\<lambda>b. Some (map_of (given (bundle_options b)))) (map_of (rev (map (\<lambda>b. (bp_Name b, b)) (fp_Bundles p))) n)" by blast
  have "n \<noteq> [] \<and> (\<exists>d. read_options (lit ''dm_fuse_bd_'' @ n) u = Some d \<and> \<not> {lit ''sl'', lit ''sb''} \<subseteq> dom d \<and> ({lit ''dl'', lit ''dif''} \<inter> dom d \<noteq> {} \<longrightarrow> {lit ''dr'', lit ''dm''} \<subseteq> dom d))"
    if "env (lit ''dm_fuse_bd_'' @ n) = Some u" for n u
  proof -
    have "map_option (\<lambda>b. Some (map_of (given (bundle_options b)))) (map_of (rev (map (\<lambda>b. (bp_Name b, b)) (fp_Bundles p))) n) =
        Some (read_options (lit ''dm_fuse_bd_'' @ n) u)" using spec [OF bd, of n] unfolding that option.map by (rule sym)
    then obtain b where "map_of (rev (map (\<lambda>b. (bp_Name b, b)) (fp_Bundles p))) n = Some b"
      and u: "read_options (lit ''dm_fuse_bd_'' @ n) u = Some (map_of (given (bundle_options b)))" by auto
    from reads [OF this(1)] u show ?thesis by blast
  qed
  ultimately show ?thesis using env by blast
qed

theorem Built_params_wellformed_witness:
  "\<exists>p0 p S' env t d. NewFUSEParams [FUSECoordPoint (lit ''/c''), FUSEConfigBucketName (lit ''b''), FUSEContextName (lit ''dev'')] = Inr p0
    \<and> AddBundle [BDName (lit ''dest''), BDDest (lit ''repo'') (lit ''result'') (lit ''/up''), BDDestLabel (lit ''demo'')] p0 = Inr p
    \<and> FUSEParamsToEnvVars p init_seps = (S', Inr env) \<and> env (lit ''dm_fuse_opts'') = Some t \<and> read_options (lit ''dm_fuse_opts'') t = Some d \<and> lit ''c'' \<in> dom d
    \<and> (\<forall>n t. env (lit ''dm_fuse_bd_'' @ n) = Some t \<longrightarrow> n \<noteq> []
        \<and> (\<exists>d. read_options (lit ''dm_fuse_bd_'' @ n) t = Some d \<and> \<not> {lit ''sl'', lit ''sb''} \<subseteq> dom d \<and> ({lit ''dl'', lit ''dif''} \<inter> dom d \<noteq> {} \<longrightarrow> {lit ''dr'', lit ''dm''} \<subseteq> dom d)))"
proof -
  let ?opts = "[FUSECoordPoint (lit ''/c''), FUSEConfigBucketName (lit ''b''), FUSEContextName (lit ''dev'')]"
  let ?bd = "[BDName (lit ''dest''), BDDest (lit ''repo'') (lit ''result'') (lit ''/up''), BDDestLabel (lit ''demo'')]"
  define p0 where "p0 = no_fuse\<lparr>fp_CoordPoint := lit ''/c'', fp_ConfigBucketName := lit ''b'', fp_ContextName := lit ''dev''\<rparr>"
  define b where "b = no_bundle\<lparr>bp_Name := lit ''dest'', bp_DestRepo := lit ''repo'', bp_DestMessage := lit ''result'', bp_DestPath := lit ''/up'',
    bp_DestLabel := lit ''demo''\<rparr>"
  have new: "NewFUSEParams ?opts = Inr p0"
    by (simp add: NewFUSEParams_def FUSECoordPoint_def FUSEConfigBucketName_def FUSEContextName_def p0_def lit_def)
  have add: "AddBundle ?bd p0 = Inr (p0\<lparr>fp_Bundles := [b]\<rparr>)"
    by (simp add: AddBundle_def BDName_def BDDest_def BDDestLabel_def b_def p0_def no_fuse_def no_bundle_def lit_def)
  have "fuse_built p0" by (rule fuse_built.New [OF _ new]) auto
  then have "fuse_built (p0\<lparr>fp_Bundles := [b]\<rparr>)" by (rule fuse_built.Add [OF _ add])
  from Built_params_wellformed [OF this, of 48 49 init_seps] new add show ?thesis
    by (simp add: p0_def b_def no_fuse_def no_bundle_def fuse_texts_def bundle_texts_def lit_def shell_plain_def var_name_def)
qed

subsection \<open>When the separators are letters\<close>

lemma text_fields_free: "f \<in> set (text_fields c xs) \<Longrightarrow> c \<notin> set f"
  by (induction xs arbitrary: f) (auto split: if_splits list.splits)

lemma hd_text_fields: "set (hd (text_fields c xs)) \<subseteq> set xs"
  by (induction xs) (auto split: list.splits)

lemma read_items_free:
  "\<forall>t \<in> set ts. i \<notin> set t \<Longrightarrow> \<forall>n \<in> dom d. i \<notin> set n \<Longrightarrow> \<forall>n \<in> dom (fold (read_item k) ts d). i \<notin> set n"
proof (induction ts arbitrary: d)
  case (Cons t ts)
  have "\<forall>n \<in> dom (read_item k t d). i \<notin> set n" using Cons.prems hd_text_fields [of k t] by (auto simp: read_item_def split: if_splits)
  with Cons show ?case by simp
qed simp

lemma deserialize_free: "deserialize_dict (i # k # v) = Some d \<Longrightarrow> n \<in> dom d \<Longrightarrow> i \<notin> set n"
  using read_items_free [of "filter (\<lambda>t. t \<noteq> []) (text_fields i v)" i Map.empty k] text_fields_free [of _ i v]
  by (auto split: if_splits)

lemma TrimSuffix_starts: "i \<noteq> k \<Longrightarrow> \<exists>w. TrimSuffix (i # k # v) [i] = i # k # w"
  using append_butlast_last_id [of v] by (cases v rule: rev_cases) (auto simp: TrimSuffix_def suffix_def)

lemma append_all_starts: "append_all S rv ps = Inr rv' \<Longrightarrow> prefix rv rv'"
proof (induction S rv ps rule: append_all.induct)
  case (2 S rv n v ps)
  then obtain rv1 where rv1: "appendToParamString S rv n v = Inr rv1" "append_all S rv1 ps = Inr rv'" by (auto simp: rbind_eq_Inr)
  then have "prefix rv rv1" by (auto simp: appendToParamString_def split: if_splits)
  then show ?case using 2(1) [OF rv1(2)] by (rule prefix_order.trans)
qed simp

lemma global_string_starts:
  assumes "fuseParamsGlobalString S p = Inr t"
  shows "\<exists>rv. prefix (itemSep S @ kvSep S) rv \<and> t = TrimSuffix rv (itemSep S)"
proof -
  let ?rv = "if fp_SleepInsteadOfExit p then (itemSep S @ kvSep S) @ lit ''S'' @ itemSep S else itemSep S @ kvSep S"
  let ?ps = "[(lit ''c'', fp_CoordPoint p), (lit ''b'', fp_ConfigBucketName p), (lit ''a'', fp_ContextName p)]"
  obtain rv where rv: "append_all S ?rv ?ps = Inr rv" "t = TrimSuffix rv (itemSep S)" by (rule global_string_all [OF assms])
  have "prefix (itemSep S @ kvSep S) ?rv" by simp
  from prefix_order.trans [OF this append_all_starts [OF rv(1)]] rv(2) show ?thesis by blast
qed

text \<open>
  The separators are chosen apart from the values, not from the names of the options. When the values use every character from \<open>0\<close> to
  \<open>R\<close> but not \<open>S\<close>, the items are separated by the very letter of the flag that keeps the sidecar alive after an error, and the sidecar
  never sees that flag.
\<close>

theorem Sleep_flag_lost:
  assumes used: "\<forall>r \<in> {0x30..0x52}. \<exists>s \<in> set (fuse_texts p). r \<in> set s" and free: "\<forall>s \<in> set (fuse_texts p). 0x53 \<notin> set s"
    and env: "FUSEParamsToEnvVars p S = (S', Inr env)" and t: "env (lit ''dm_fuse_opts'') = Some t" and d: "deserialize_dict t = Some d"
  shows "d (lit ''S'') = None"
proof -
  let ?m = "mergeAndUniqifyRunes (fuse_texts p)"
  have m: "r \<in> set ?m \<longleftrightarrow> (\<exists>s \<in> set (fuse_texts p). r \<in> set s)" if "r < 0xD800" for r using that by (rule in_mergeAndUniqifyRunes)
  have i: "randCharNotInString ?m = [0x53]"
    by (rule rand_eq) (use free used in \<open>auto simp: m\<close>)
  obtain k where k: "randCharNotInString (?m @ [0x53]) = [k]" "k \<noteq> 0x53"
    using next_free_unused [of "stringToUniqRunes [] (?m @ [0x53])" "of_char CHR ''0''"] encode_other [of _ "0x53"]
    by (simp add: randCharNotInString_def) blast
  have "setSeparators (fuse_value p) S = (\<lparr>itemSep = [0x53], kvSep = [k]\<rparr>, None)"
    using i k by (simp add: setSeparators_def fuse_values Let_def)
  with env t have "fuseParamsGlobalString \<lparr>itemSep = [0x53], kvSep = [k]\<rparr> p = Inr t"
    by (auto simp: FUSEParamsToEnvVars_def rbind_eq_Inr)
  from global_string_starts [OF this] obtain rv where "prefix [0x53, k] rv" "t = TrimSuffix rv [0x53]" by auto
  then obtain w where "t = 0x53 # k # w" using TrimSuffix_starts [of "0x53" k] k(2) by (auto simp: prefix_def)
  with d have "0x53 \<notin> set n" if "n \<in> dom d" for n using deserialize_free that by blast
  moreover have "0x53 \<in> set (lit ''S'')" by (simp add: lit_def)
  ultimately show ?thesis by blast
qed

text \<open>A coordination point that uses all these characters.\<close>

definition crowded :: FUSEParams where
  "crowded = no_fuse\<lparr>fp_SleepInsteadOfExit := True, fp_CoordPoint := [0x30..<0x53], fp_ConfigBucketName := lit ''b'', fp_ContextName := lit ''d''\<rparr>"

lemma crowded_seps: "setSeparators (fuse_value crowded) init_seps = (\<lparr>itemSep = [0x53], kvSep = [0x54]\<rparr>, None)"
proof -
  let ?m = "mergeAndUniqifyRunes (fuse_texts crowded)"
  have m: "r \<in> set ?m \<longleftrightarrow> r \<in> {0x30..<0x53} \<or> r \<in> set (lit ''trueb'') \<or> r \<in> set (lit ''d'')" if "r < 0xD800" for r
    unfolding in_mergeAndUniqifyRunes [OF that] by (auto simp: crowded_def fuse_texts_def no_fuse_def lit_def simp del: upt_rec_numeral)
  have "randCharNotInString ?m = [0x53]" by (rule rand_eq) (auto simp: m lit_def)
  moreover have "randCharNotInString (?m @ [0x53]) = [0x54]"
    by (rule rand_eq) (auto simp: m lit_def)
  ultimately show ?thesis by (simp add: setSeparators_def fuse_values Let_def)
qed

theorem Sleep_flag_lost_witness:
  "\<exists>S' env t d. FUSEParamsToEnvVars crowded init_seps = (S', Inr env) \<and> fp_SleepInsteadOfExit crowded
    \<and> env (lit ''dm_fuse_opts'') = Some t \<and> deserialize_dict t = Some d \<and> d (lit ''S'') = None \<and> d (lit ''c'') = Some [0x30..<0x53]"
proof -
  let ?S = "\<lparr>itemSep = [0x53], kvSep = [0x54]\<rparr>"
  let ?t = "0x53 # 0x54 # 0x53 # 0x53 # lit ''c'' @ 0x54 # [0x30..<0x53] @ 0x53 # lit ''b'' @ 0x54 # lit ''b'' @ 0x53 # lit ''a'' @ 0x54 # lit ''d''"
  have t: "fuseParamsGlobalString ?S crowded = Inr ?t" by code_simp
  then have env: "FUSEParamsToEnvVars crowded init_seps = (?S, Inr [lit ''dm_fuse_opts'' \<mapsto> ?t])"
    unfolding FUSEParamsToEnvVars_def crowded_seps by (simp add: crowded_def no_fuse_def prefixed_def fun_eq_iff)
  obtain d where d: "deserialize_dict ?t = Some d" by simp
  have "fold (read_item 0x54) (filter (\<lambda>t. t \<noteq> []) (text_fields 0x53 (drop 2 ?t))) Map.empty (lit ''c'') = Some [0x30..<0x53]" by code_simp
  with d have c: "d (lit ''c'') = Some [0x30..<0x53]" by (simp split: if_splits)
  have used: "\<forall>r \<in> {0x30..0x52}. \<exists>s \<in> set (fuse_texts crowded). r \<in> set s"
  proof
    have "fp_CoordPoint crowded \<in> set (fuse_texts crowded)" "set (fp_CoordPoint crowded) = {0x30..<0x53}" by (simp_all add: crowded_def fuse_texts_def del: upt_rec_numeral)
    then show "\<exists>s \<in> set (fuse_texts crowded). r \<in> set s" if "r \<in> {0x30..0x52}" for r using that by (intro bexI [of _ "fp_CoordPoint crowded"]) simp_all
  qed
  have free: "\<forall>s \<in> set (fuse_texts crowded). 0x53 \<notin> set s" by (simp add: crowded_def fuse_texts_def no_fuse_def lit_def)
  have "d (lit ''S'') = None" by (rule Sleep_flag_lost [OF used free env _ d]) simp
  with env d c show ?thesis by (auto simp: crowded_def)
qed

end
