(* ===== verification/FileTracker.thy ===== *)
theory FileTracker
  imports FuseFs "HOL-Library.RBT"
begin

text \<open>
  The file tracker, \<open>pkg/filetracker/file_tracker.go\<close>: which parts of a file were written on top of a base
  file. The regions are kept as marks in a radix tree, a start and an end for each, under the big-endian bytes of the
  offset. The tree is a parameter, with the walk over its entries in the order of the keys.
\<close>

section \<open>The tracker\<close>

text \<open>What the tracker calls beside insertion and deletion: the entries in the order of a walk, and their number.\<close>

record 't walker =
  wk_Walk :: "'t \<Rightarrow> (bytes \<times> bool) list"
  wk_Len :: "'t \<Rightarrow> nat"

locale walk_tree = byte_map R look
  for R :: "('t, bool) iradix" and look :: "'t \<Rightarrow> bytes \<Rightarrow> bool option" +
  fixes W :: "'t walker"
  assumes walk_sorted: "sorted_wrt (<) (map fst (wk_Walk W t))"
    and walk_map: "map_of (wk_Walk W t) = look t"
    and len: "wk_Len W t = length (wk_Walk W t)"

record 't TFile =
  tf_name :: string
  tf_tracker :: 't

definition newTFile :: "('t, bool) iradix \<Rightarrow> string \<Rightarrow> 't TFile" where
  "newTFile R nm = \<lparr>tf_name = nm, tf_tracker = ir_New R\<rparr>"

text \<open>Offsets are 64-bit signed integers.\<close>

definition wrap64 :: "int \<Rightarrow> int" where
  "wrap64 i = sint (word_of_int i :: 64 word)"

lemma wrap64_id: "- (2 ^ 63) \<le> i \<Longrightarrow> i < 2 ^ 63 \<Longrightarrow> wrap64 i = i"
  by (simp add: wrap64_def sint_sbintrunc' signed_take_bit_int_eq_self)

definition getFileRange :: "int \<Rightarrow> int \<Rightarrow> int \<times> int" where
  "getFileRange offset n = (offset, wrap64 (offset + n))"

definition getKey :: "int \<Rightarrow> bytes" where
  "getKey key = (if key < 0 then [] else formKey (word_of_int key))"

definition be_val :: "bytes \<Rightarrow> nat" where
  "be_val bs = foldl (\<lambda>n b. n * 256 + unat b) 0 bs"

definition getOffset :: "bytes \<Rightarrow> (panic, int) res" where
  "getOffset k = (if length k < 8 then Inl IndexOutOfRange else Inr (sint (of_nat (be_val (take 8 k)) :: 64 word)))"

text \<open>The walk of a write: the transaction and the two flags.\<close>

fun track_visit :: "('t, bool) iradix \<Rightarrow> int \<Rightarrow> int \<Rightarrow> (bytes \<times> bool) list \<Rightarrow> 't \<Rightarrow> bool \<Rightarrow> bool \<Rightarrow> (panic, 't \<times> bool \<times> bool) res" where
  "track_visit R start fin [] txn insertStart insertEnd = Inr (txn, insertStart, insertEnd)"
| "track_visit R start fin ((k, isStart) # es) txn insertStart insertEnd =
     rbind (getOffset k) (\<lambda>key.
       let deleteKey = (if key \<le> fin then fst (ir_Delete R txn k) else txn)
       in if isStart \<and> key = start then track_visit R start fin es txn False insertEnd
          else if isStart \<and> key < start then track_visit R start fin es txn insertStart insertEnd
          else if isStart \<and> key > start then track_visit R start fin es deleteKey insertStart insertEnd
          else if \<not> isStart \<and> key < start then track_visit R start fin es txn insertStart insertEnd
          else if \<not> isStart \<and> key > start then
            (if key \<ge> fin then Inr (txn, False, False)
             else track_visit R start fin es deleteKey False insertEnd)
          else track_visit R start fin es txn insertStart insertEnd)"

definition trackWrite :: "('t, bool) iradix \<Rightarrow> 't walker \<Rightarrow> int \<Rightarrow> int \<Rightarrow> 't TFile \<Rightarrow> (panic, 't TFile) res" where
  "trackWrite R W offset n t =
     (case getFileRange offset n of
        (start, fin) \<Rightarrow>
          let put = (\<lambda>key v txn. fst (ir_Insert R txn (getKey key) v))
          in if wk_Len W (tf_tracker t) = 0 then Inr (t\<lparr>tf_tracker := put fin False (put start True (tf_tracker t))\<rparr>)
             else rbind (track_visit R start fin (wk_Walk W (tf_tracker t)) (tf_tracker t) True True) (\<lambda>(txn, insertStart, insertEnd).
               let txn = (if insertStart then put start True txn else txn);
                   txn = (if insertEnd then put fin False txn else txn)
               in Inr (t\<lparr>tf_tracker := txn\<rparr>)))"

text \<open>
  The walk of a read: how many bytes are in one store, and whether that is the mutable one. The distances are between the marks
  and the offset of the read, none of which is negative: they do not overflow.
\<close>

fun range_visit :: "int \<Rightarrow> int \<Rightarrow> (bytes \<times> bool) list \<Rightarrow> int \<Rightarrow> bool \<Rightarrow> (panic, int \<times> bool) res" where
  "range_visit offset n [] contiguous mutable = Inr (contiguous, mutable)"
| "range_visit offset n ((k, isStart) # es) contiguous mutable =
     rbind (getOffset k) (\<lambda>key.
       if isStart \<and> key \<le> offset then range_visit offset n es contiguous True
       else if isStart \<and> key > offset then Inr (min (key - offset) n, False)
       else if \<not> isStart \<and> key \<le> offset then range_visit offset n es contiguous False
       else Inr (min (key - offset) n, True))"

definition getRangeToRead :: "'t walker \<Rightarrow> int \<Rightarrow> int \<Rightarrow> 't TFile \<Rightarrow> (panic, int \<times> bool) res" where
  "getRangeToRead W offset n t = range_visit offset n (wk_Walk W (tf_tracker t)) n False"

section \<open>Keys\<close>

lemma digit_order:
  fixes a b :: nat
  assumes "a < 256" and "b < 256"
  shows "m * 256 + a < n * 256 + b \<longleftrightarrow> m < n \<or> m = n \<and> a < b" and "m * 256 + a = n * 256 + b \<longleftrightarrow> m = n \<and> a = b"
  using assms by (cases m n rule: linorder_cases; linarith)+

lemma be_val_less:
  assumes "length xs = length ys"
  shows "(foldl (\<lambda>n b. n * 256 + unat b) m xs < foldl (\<lambda>n b. n * 256 + unat b) n ys) \<longleftrightarrow> m < n \<or> m = n \<and> xs < (ys :: bytes)"
  using assms
proof (induction xs ys arbitrary: m n rule: list_induct2)
  case (Cons x xs y ys)
  have step: "m * 256 + unat x < n * 256 + unat y \<longleftrightarrow> m < n \<or> m = n \<and> x < y" "m * 256 + unat x = n * 256 + unat y \<longleftrightarrow> m = n \<and> x = y"
    unfolding word_less_nat_alt word_unat_eq_iff by (rule digit_order; rule unat_byte_less)+
  from Cons.IH [of "m * 256 + unat x" "n * 256 + unat y"] show ?case unfolding step by auto
qed simp

lemma unat_key_byte: "unat (ucast (drop_bit n (w :: 64 word)) :: byte) = unat w div 2 ^ n mod 256"
proof -
  have "unat w < 2 ^ 64" using unsigned_less [of w] by simp
  then have "unat (drop_bit n w) = unat w div 2 ^ n"
    unfolding unsigned_drop_bit_eq by (simp add: drop_bit_eq_div take_bit_eq_mod)
  then show ?thesis by (simp only: unsigned_ucast_eq take_bit_eq_mod) simp
qed

lemma horner_step: "(x :: nat) div (256 * m) * 256 + x div m mod 256 = x div m"
  by (metis div_mult2_eq mult.commute div_mult_mod_eq)

lemma be_val_formKey: "be_val (formKey w) = unat w"
proof -
  have "unat w < 2 ^ 64" using unsigned_less [of w] by simp
  then have z: "unat w div 2 ^ 64 = 0" by simp
  have digits: "formKey w = map (\<lambda>n. ucast (drop_bit n w)) [56, 48, 40, 32, 24, 16, 8, 0]"
    by (simp add: formKey_def upt_rec)
  have "be_val (formKey w) = ((((((((unat w div 2 ^ 64 * 256 + unat w div 2 ^ 56 mod 256) * 256 + unat w div 2 ^ 48 mod 256) * 256
     + unat w div 2 ^ 40 mod 256) * 256 + unat w div 2 ^ 32 mod 256) * 256 + unat w div 2 ^ 24 mod 256) * 256 + unat w div 2 ^ 16 mod 256) * 256
     + unat w div 2 ^ 8 mod 256) * 256 + unat w div 2 ^ 0 mod 256)"
    unfolding z digits be_val_def by (simp only: list.map foldl.simps unat_key_byte)
  also have "\<dots> = unat w"
    using horner_step [of "unat w" "2 ^ 56"] horner_step [of "unat w" "2 ^ 48"] horner_step [of "unat w" "2 ^ 40"] horner_step [of "unat w" "2 ^ 32"]
      horner_step [of "unat w" "2 ^ 24"] horner_step [of "unat w" "2 ^ 16"] horner_step [of "unat w" "2 ^ 8"] horner_step [of "unat w" 1] by simp
  finally show ?thesis .
qed

definition offset_ok :: "int \<Rightarrow> bool" where
  "offset_ok k \<longleftrightarrow> 0 \<le> k \<and> k < 2 ^ 63"

lemma length_getKey: "offset_ok k \<Longrightarrow> length (getKey k) = 8"
  by (simp add: getKey_def offset_ok_def formKey_def)

lemma be_val_getKey: "offset_ok k \<Longrightarrow> be_val (getKey k) = nat k"
  by (simp add: getKey_def offset_ok_def be_val_formKey unat_eq_nat_uint uint_word_of_int del: nat_uint_eq)

lemma getOffset_getKey [simp]: "offset_ok k \<Longrightarrow> getOffset (getKey k) = Inr k"
proof -
  assume k: "offset_ok k"
  then have "sint (of_nat (nat k) :: 64 word) = k" by (simp add: offset_ok_def sint_sbintrunc' signed_take_bit_int_eq_self)
  with k show ?thesis by (simp add: getOffset_def length_getKey be_val_getKey)
qed

lemma getKey_less: "offset_ok a \<Longrightarrow> offset_ok b \<Longrightarrow> getKey a < getKey b \<longleftrightarrow> a < b"
  using be_val_less [of "getKey a" "getKey b" 0 0] be_val_getKey [of a] be_val_getKey [of b]
  by (auto simp: length_getKey be_val_def offset_ok_def)

lemma getKey_inj: "offset_ok a \<Longrightarrow> offset_ok b \<Longrightarrow> getKey a = getKey b \<longleftrightarrow> a = b"
  using be_val_getKey [of a] be_val_getKey [of b] by (auto simp: offset_ok_def)

section \<open>Regions\<close>

text \<open>
  What the tracker means: an ascending list of regions with gaps between them, each from its start up to its end.
\<close>

fun regions_from :: "int \<Rightarrow> (int \<times> int) list \<Rightarrow> bool" where
  "regions_from lo [] = True"
| "regions_from lo ((s, e) # rs) = (lo < s \<and> s < e \<and> e < 2 ^ 63 \<and> regions_from e rs)"

abbreviation regions :: "(int \<times> int) list \<Rightarrow> bool" where
  "regions rs \<equiv> regions_from (- 1) rs"

definition covered :: "(int \<times> int) list \<Rightarrow> int set" where
  "covered rs = (\<Union>(s, e) \<in> set rs. {s..<e})"

fun marks :: "(int \<times> int) list \<Rightarrow> (int \<times> bool) list" where
  "marks [] = []"
| "marks ((s, e) # rs) = (s, True) # (e, False) # marks rs"

lemma covered_simps [simp]: "covered [] = {}" "covered ((s, e) # rs) = {s..<e} \<union> covered rs" "covered (a @ b) = covered a \<union> covered b"
  by (auto simp: covered_def)

lemma marks_append [simp]: "marks (a @ b) = marks a @ marks b"
  by (induction a rule: marks.induct) auto

lemma regions_append: "regions_from lo (a @ b) \<longleftrightarrow> regions_from lo a \<and> regions_from (if a = [] then lo else snd (last a)) b"
  by (induction lo a rule: regions_from.induct) auto

lemma regions_mono: "regions_from lo rs \<Longrightarrow> lo' \<le> lo \<Longrightarrow> regions_from lo' rs"
  by (cases "(lo, rs)" rule: regions_from.cases) auto

lemma region_bounds: "regions_from lo rs \<Longrightarrow> (s, e) \<in> set rs \<Longrightarrow> lo < s \<and> s < e \<and> e < 2 ^ 63"
  by (induction lo rs rule: regions_from.induct) (auto dest: regions_mono)

lemma mark_bounds: "regions_from lo rs \<Longrightarrow> (k, v) \<in> set (marks rs) \<Longrightarrow> lo < k \<and> k < 2 ^ 63"
  by (induction lo rs rule: regions_from.induct) auto

lemma marks_sorted: "regions_from lo rs \<Longrightarrow> sorted_wrt (<) (map fst (marks rs))"
proof (induction lo rs rule: regions_from.induct)
  case (2 lo s e rs)
  then have "\<forall>k \<in> set (map fst (marks rs)). e < k" using mark_bounds [of e rs] by auto
  with 2 show ?case by auto
qed simp

lemma marks_distinct: "regions_from lo rs \<Longrightarrow> distinct (map fst (marks rs))"
  using marks_sorted strict_sorted_iff by blast

definition keyed :: "(int \<times> bool) list \<Rightarrow> (bytes \<times> bool) list" where
  "keyed ms = map (\<lambda>(k, v). (getKey k, v)) ms"

lemma keyed_simps [simp]: "keyed [] = []" "keyed ((k, v) # ms) = (getKey k, v) # keyed ms" "keyed (a @ b) = keyed a @ keyed b"
  by (simp_all add: keyed_def)

lemma keyed_sorted:
  assumes "sorted_wrt (<) (map fst ms)" and "\<forall>(k, v) \<in> set ms. offset_ok k"
  shows "sorted_wrt (<) (map fst (keyed ms))"
  using assms by (induction ms) (fastforce simp: getKey_less keyed_def)+

text \<open>A walk is determined by the map of the tree.\<close>

lemma sorted_walk_unique:
  fixes xs ys :: "(bytes \<times> bool) list"
  assumes "sorted_wrt (<) (map fst xs)" and "sorted_wrt (<) (map fst ys)" and "map_of xs = map_of ys"
  shows "xs = ys"
proof -
  have d: "distinct (map fst xs)" "distinct (map fst ys)" using assms(1,2) by (simp_all add: strict_sorted_iff)
  have "set xs = set ys" using map_of_inject_set [OF d] assms(3) by simp
  with d assms(1,2) show ?thesis by (intro map_sorted_distinct_set_unique [of fst]) (auto simp: strict_sorted_iff distinct_map inj_on_def)
qed

lemma marks_ok: "regions_from lo rs \<Longrightarrow> - 1 \<le> lo \<Longrightarrow> (k, v) \<in> set (marks rs) \<Longrightarrow> offset_ok k"
  using mark_bounds [of lo rs k v] by (simp add: offset_ok_def)

lemma keyed_marks_sorted: "regions rs \<Longrightarrow> sorted_wrt (<) (map fst (keyed (marks rs)))"
  by (rule keyed_sorted [OF marks_sorted]) (auto intro: marks_ok)

lemma keyed_marks_distinct: "regions rs \<Longrightarrow> distinct (map fst (keyed (marks rs)))"
  using keyed_marks_sorted strict_sorted_iff by blast

text \<open>Keys between two others are taken out of a map that is given by a list.\<close>

lemma map_of_remove:
  assumes "distinct (map fst (A @ B @ C))"
  shows "(\<lambda>x. if x \<in> fst ` set B then None else map_of (A @ B @ C) x) = map_of (A @ C)"
proof
  fix x
  show "(if x \<in> fst ` set B then None else map_of (A @ B @ C) x) = map_of (A @ C) x"
  proof (cases "x \<in> fst ` set B")
    case True
    with assms have "x \<notin> fst ` set (A @ C)" by auto
    then have "map_of (A @ C) x = None" unfolding map_of_eq_None_iff .
    with True show ?thesis by (simp add: map_add_def)
  next
    case False
    then have "map_of B x = None" by (simp add: map_of_eq_None_iff)
    with False show ?thesis by (simp add: map_add_def split: option.split)
  qed
qed

lemma map_of_snoc: "k \<notin> fst ` set xs \<Longrightarrow> map_of (xs @ [(k, v)]) = (map_of xs)(k \<mapsto> v)"
  by (induction xs) (auto simp: fun_eq_iff)

definition delete_keys :: "('t, bool) iradix \<Rightarrow> (bytes \<times> bool) list \<Rightarrow> 't \<Rightarrow> 't" where
  "delete_keys R es txn = fold (\<lambda>(k, v) txn. fst (ir_Delete R txn k)) es txn"

text \<open>
  The writes that the tracker gets right: one that starts after all regions, or one that starts in a region and ends in one or after all.
\<close>

definition allowed :: "(int \<times> int) list \<Rightarrow> int \<Rightarrow> int \<Rightarrow> bool" where
  "allowed rs start fin \<longleftrightarrow> (\<forall>(s, e) \<in> set rs. e < start)
     \<or> start \<in> covered rs \<and> ((\<exists>(s, e) \<in> set rs. s \<le> fin \<and> fin \<le> e) \<or> (\<forall>(s, e) \<in> set rs. e < fin))"

lemma end_marked: "(x, y) \<in> set rs \<Longrightarrow> (y, False) \<in> set (marks rs)"
  by (induction rs rule: marks.induct) auto

lemma covered_between: "regions_from lo (rs @ [(s, e)]) \<Longrightarrow> x \<in> covered (rs @ [(s, e)]) \<Longrightarrow> x < e \<and> lo \<le> x"
proof (induction lo rs rule: regions_from.induct)
  case (2 lo a b rs)
  then have "b < e" using region_bounds [of b "rs @ [(s, e)]" s e] by auto
  with 2 show ?case by auto
qed auto

text \<open>A tracker that holds the marks of a list of regions.\<close>

definition tracks :: "'t walker \<Rightarrow> 't TFile \<Rightarrow> (int \<times> int) list \<Rightarrow> bool" where
  "tracks W t rs \<longleftrightarrow> regions rs \<and> wk_Walk W (tf_tracker t) = keyed (marks rs)"

section \<open>Walking over the marks\<close>

lemma visit_before:
  "\<forall>(k, v) \<in> set ms. offset_ok k \<and> k < start \<Longrightarrow> track_visit R start fin (keyed ms @ es) txn a b = track_visit R start fin es txn a b"
  by (induction ms) (auto simp: keyed_def)

lemma visit_between:
  "\<forall>(k, v) \<in> set ms. offset_ok k \<and> start < k \<and> (if v then k \<le> fin else k < fin) \<Longrightarrow>
    track_visit R start fin (keyed ms @ es) txn False b = track_visit R start fin es (delete_keys R (keyed ms) txn) False b"
proof (induction ms arbitrary: txn)
  case (Cons m ms)
  obtain k v where m: "m = (k, v)" by (cases m)
  with Cons.prems have "offset_ok k" "start < k" "if v then k \<le> fin else k < fin" "\<forall>(k, v) \<in> set ms. offset_ok k \<and> start < k \<and> (if v then k \<le> fin else k < fin)" by auto
  with Cons.IH [of "fst (ir_Delete R txn (getKey k))"] show ?case by (cases v) (simp_all add: m delete_keys_def)
qed (simp add: delete_keys_def)

lemma visit_from:
  assumes rs: "regions (pre @ (s, e) # post)" and "s \<le> start" and "start < e"
  shows "track_visit R start fin (keyed (marks (pre @ (s, e) # post))) txn True b =
    (if fin \<le> e then Inr (txn, False, False)
     else track_visit R start fin (keyed (marks post)) (delete_keys R (keyed [(e, False)]) txn) False b)"
proof -
  from rs have ok: "offset_ok s" "offset_ok e" by (auto intro!: marks_ok [OF rs])
  have "\<forall>(k, v) \<in> set (marks pre). offset_ok k \<and> k < start"
  proof clarify
    fix k v assume k: "(k, v) \<in> set (marks pre)"
    have "k < s" using marks_sorted [OF rs] k by (fastforce simp: sorted_wrt_append)
    with assms(2) marks_ok [OF rs, of k v] k show "offset_ok k \<and> k < start" by auto
  qed
  note skip = visit_before [OF this]
  show ?thesis using ok assms(2,3) by (auto simp: delete_keys_def skip)
qed

text \<open>The marks of the regions that a write runs over.\<close>

lemma run_over:
  assumes rs: "regions (pre @ (s, e) # mid @ aft)" and "s \<le> start" and "start < e" and "e < fin" and "\<forall>(s, e) \<in> set mid. e < fin"
  shows "track_visit R start fin (keyed (marks (pre @ (s, e) # mid @ aft))) txn True b =
    track_visit R start fin (keyed (marks aft)) (delete_keys R (keyed ((e, False) # marks mid)) txn) False b"
proof -
  from rs have mid: "regions_from e mid" by (auto simp: regions_append)
  have "k < fin" if "(k, v) \<in> set (marks mid)" "regions_from lo mid" for k v lo
    using that assms(5) by (induction lo mid rule: regions_from.induct) auto
  then have "\<forall>(k, v) \<in> set (marks mid). offset_ok k \<and> start < k \<and> (if v then k \<le> fin else k < fin)"
    using mid mark_bounds [OF mid] marks_ok [OF rs] assms(3) by fastforce
  note skip = visit_between [OF this]
  show ?thesis
    unfolding visit_from [OF rs assms(2,3)] using assms(4) by (simp add: skip) (simp add: delete_keys_def)
qed

lemma range_before:
  "\<forall>(k, v) \<in> set ms. offset_ok k \<and> k \<le> off \<Longrightarrow>
    range_visit off n (keyed ms @ es) c m = range_visit off n es c (if ms = [] then m else snd (last ms))"
proof (induction ms arbitrary: m)
  case (Cons x ms)
  then show ?case by (cases x; cases "snd x") simp_all
qed simp

text \<open>What a read finds.\<close>

lemma range_exact:
  assumes "0 < n"
  shows "regions_from lo rs \<Longrightarrow> - 1 \<le> lo \<Longrightarrow>
    \<exists>c. range_visit off n (keyed (marks rs)) n False = Inr (c, off \<in> covered rs) \<and> 0 < c \<and> c \<le> n
      \<and> (\<forall>x \<in> {off..<off + c}. x \<in> covered rs \<longleftrightarrow> off \<in> covered rs) \<and> (c < n \<longrightarrow> (off + c \<in> covered rs) \<noteq> (off \<in> covered rs))"
proof (induction lo rs rule: regions_from.induct)
  case (2 lo s e rs)
  then have ok: "offset_ok s" "offset_ok e" "s < e" "regions_from e rs" by (auto simp: offset_ok_def)
  have later: "e < x" if "x \<in> covered rs" for x using that region_bounds [OF ok(4)] by (fastforce simp: covered_def)
  consider "off < s" | "s \<le> off" "off < e" | "e \<le> off" by linarith
  then show ?case
  proof cases
    case 1
    have "x \<notin> covered rs" if "x \<le> s" for x using later that ok(3) by fastforce
    with 1 ok assms show ?thesis by (intro exI [of _ "min (s - off) n"]) (auto simp: min_def)
  next
    case 2
    have "e \<notin> covered rs" using later by blast
    with 2 ok assms show ?thesis by (intro exI [of _ "min (e - off) n"]) (auto simp: min_def)
  next
    case 3
    then have same: "x \<in> covered ((s, e) # rs) \<longleftrightarrow> x \<in> covered rs" if "off \<le> x" for x using that by auto
    from 3 ok have eq: "range_visit off n (keyed (marks ((s, e) # rs))) n False = range_visit off n (keyed (marks rs)) n False" by simp
    have "- 1 \<le> e" using ok(2) by (simp add: offset_ok_def)
    with 2(1) [OF ok(4)] obtain c where c: "range_visit off n (keyed (marks rs)) n False = Inr (c, off \<in> covered rs)" "0 < c" "c \<le> n"
      "\<forall>x \<in> {off..<off + c}. x \<in> covered rs \<longleftrightarrow> off \<in> covered rs" "c < n \<longrightarrow> (off + c \<in> covered rs) \<noteq> (off \<in> covered rs)" by blast
    have at: "off \<in> covered ((s, e) # rs) \<longleftrightarrow> off \<in> covered rs" "off + c \<in> covered ((s, e) # rs) \<longleftrightarrow> off + c \<in> covered rs"
      using c(2) by (intro same; simp)+
    have "x \<in> covered ((s, e) # rs) \<longleftrightarrow> off \<in> covered rs" if "x \<in> {off..<off + c}" for x
    proof -
      from that have "off \<le> x" by simp
      from same [OF this] bspec [OF c(4) that] show ?thesis by blast
    qed
    with c show ?thesis unfolding eq by (intro exI [of _ c] conjI ballI) (simp_all only: at simp_thms)
  qed
qed (use assms in auto)

context walk_tree
begin

lemma read_exact:
  assumes "tracks W t rs" and "0 < n"
  shows "\<exists>c. getRangeToRead W off n t = Inr (c, off \<in> covered rs) \<and> 0 < c \<and> c \<le> n
      \<and> (\<forall>x \<in> {off..<off + c}. x \<in> covered rs \<longleftrightarrow> off \<in> covered rs) \<and> (c < n \<longrightarrow> (off + c \<in> covered rs) \<noteq> (off \<in> covered rs))"
  using range_exact [OF assms(2), of "- 1" rs off] assms(1) by (simp add: tracks_def getRangeToRead_def)

lemma look_delete_keys: "look (delete_keys R es txn) = (\<lambda>x. if x \<in> fst ` set es then None else look txn x)"
  by (induction es arbitrary: txn) (auto simp: delete_keys_def fun_eq_iff)

lemma tracksI: "regions rs \<Longrightarrow> look (tf_tracker t) = map_of (keyed (marks rs)) \<Longrightarrow> tracks W t rs"
  unfolding tracks_def by (intro conjI sorted_walk_unique walk_sorted keyed_marks_sorted) (simp_all add: walk_map)

lemma tracks_look: "tracks W t rs \<Longrightarrow> look (tf_tracker t) = map_of (keyed (marks rs))"
  using walk_map [of "tf_tracker t"] by (simp add: tracks_def)

lemma new_tracks: "tracks W (newTFile R nm) []"
  by (rule tracksI) (simp_all add: newTFile_def)

text \<open>The writes that the tracker gets right.\<close>

lemma write_unchanged:
  assumes t: "tracks W t (pre @ (s, e) # post)" and "s \<le> off" "off < e" "off + n \<le> e" "0 < n"
  shows "trackWrite R W off n t = Inr t"
proof -
  from t have rs: "regions (pre @ (s, e) # post)" and w: "wk_Walk W (tf_tracker t) = keyed (marks (pre @ (s, e) # post))" by (simp_all add: tracks_def)
  from rs have "0 \<le> s" "e < 2 ^ 63" using region_bounds [OF rs, of s e] by auto
  with assms have "wrap64 (off + n) = off + n" by (intro wrap64_id) auto
  with visit_from [OF rs assms(2,3), of R "off + n" "tf_tracker t" True] assms(4) show ?thesis
    by (simp add: trackWrite_def getFileRange_def len w)
qed

lemma write_last:
  assumes t: "tracks W t rs" and "\<forall>(s, e) \<in> set rs. e < off" and off: "0 \<le> off" "0 < n" "off + n < 2 ^ 63"
  shows "\<exists>t'. trackWrite R W off n t = Inr t' \<and> tracks W t' (rs @ [(off, off + n)])"
proof -
  from t have rs: "regions rs" and w: "wk_Walk W (tf_tracker t) = keyed (marks rs)" by (simp_all add: tracks_def)
  have wrap: "wrap64 (off + n) = off + n" using off by (intro wrap64_id) auto
  have before: "\<forall>(k, v) \<in> set (marks rs). offset_ok k \<and> k < off"
  proof -
    have "k < off" if "(k, v) \<in> set (marks rs)" "regions_from lo rs" for k v lo
      using that assms(2) by (induction lo rs rule: regions_from.induct) auto
    with rs marks_ok [OF rs] show ?thesis by blast
  qed
  let ?t = "fst (ir_Insert R (fst (ir_Insert R (tf_tracker t) (getKey off) True)) (getKey (off + n)) False)"
  have "track_visit R off (off + n) (keyed (marks rs)) (tf_tracker t) True True = Inr (tf_tracker t, True, True)"
    using visit_before [OF before, of R "off + n" "[]"] by simp
  then have tw: "trackWrite R W off n t = Inr (t\<lparr>tf_tracker := ?t\<rparr>)"
    by (simp add: trackWrite_def getFileRange_def wrap len w)
  have regs: "regions (rs @ [(off, off + n)])" using rs off assms(2) by (cases rs rule: rev_cases) (auto simp: regions_append)
  have "map_of (keyed (marks (rs @ [(off, off + n)]))) = (map_of (keyed (marks rs)))(getKey off \<mapsto> True, getKey (off + n) \<mapsto> False)"
  proof -
    have d: "distinct (map fst (keyed (marks rs) @ [(getKey off, True), (getKey (off + n), False)]))"
      using keyed_marks_distinct [OF regs] by simp
    then show ?thesis using map_of_snoc [of "getKey off" "keyed (marks rs)" True]
        map_of_snoc [of "getKey (off + n)" "keyed (marks rs) @ [(getKey off, True)]" False] by auto
  qed
  then have "tracks W (t\<lparr>tf_tracker := ?t\<rparr>) (rs @ [(off, off + n)])"
    using tracks_look [OF t] by (intro tracksI [OF regs]) simp
  with tw show ?thesis by blast
qed

lemma write_over:
  assumes t: "tracks W t (pre @ (s, e) # mid @ aft)" and off: "s \<le> off" "off < e" and n: "e < off + n" "off + n < 2 ^ 63"
    and mid: "\<forall>(s, e) \<in> set mid. e < off + n"
  shows "trackWrite R W off n t = rbind (track_visit R off (off + n) (keyed (marks aft)) (delete_keys R (keyed ((e, False) # marks mid)) (tf_tracker t)) False True)
      (\<lambda>(txn, insertStart, insertEnd). Inr (t\<lparr>tf_tracker := (let txn = (if insertStart then fst (ir_Insert R txn (getKey off) True) else txn)
        in if insertEnd then fst (ir_Insert R txn (getKey (off + n)) False) else txn)\<rparr>))"
proof -
  from t have rs: "regions (pre @ (s, e) # mid @ aft)" and w: "wk_Walk W (tf_tracker t) = keyed (marks (pre @ (s, e) # mid @ aft))" by (simp_all add: tracks_def)
  have "0 \<le> s" using region_bounds [OF rs, of s e] by auto
  with off n have wrap: "wrap64 (off + n) = off + n" by (intro wrap64_id) auto
  from run_over [OF rs off n(1) mid, of R "tf_tracker t" True] show ?thesis
    unfolding trackWrite_def getFileRange_def wrap len w by (simp add: Let_def)
qed

lemma look_removed:
  assumes "tracks W t rs" and "keyed (marks rs) = A @ B @ C"
  shows "look (delete_keys R B (tf_tracker t)) = map_of (A @ C)"
proof -
  from assms(1) have "distinct (map fst (A @ B @ C))" using keyed_marks_distinct [of rs] unfolding assms(2) by (simp add: tracks_def)
  then show ?thesis unfolding look_delete_keys tracks_look [OF assms(1)] assms(2) by (rule map_of_remove)
qed

lemma write_longer:
  assumes t: "tracks W t (pre @ (s, e) # mid)" and off: "s \<le> off" "off < e" and n: "e < off + n" "off + n < 2 ^ 63"
    and mid: "\<forall>(s, e) \<in> set mid. e < off + n"
  shows "\<exists>t'. trackWrite R W off n t = Inr t' \<and> tracks W t' (pre @ [(s, off + n)])"
proof -
  let ?A = "keyed (marks pre) @ [(getKey s, True)]" and ?B = "keyed ((e, False) # marks mid)" and ?txn = "delete_keys R (keyed ((e, False) # marks mid)) (tf_tracker t)"
  from t have rs: "regions (pre @ (s, e) # mid)" by (simp add: tracks_def)
  have regs: "regions (pre @ [(s, off + n)])" using rs off n by (auto simp: regions_append)
  have "look ?txn = map_of (?A @ [])" by (rule look_removed [OF t]) simp
  then have "look ?txn = map_of ?A" by simp
  moreover have "getKey (off + n) \<notin> fst ` set ?A" using keyed_marks_distinct [OF regs] by auto
  ultimately have "look (fst (ir_Insert R ?txn (getKey (off + n)) False)) = map_of (keyed (marks (pre @ [(s, off + n)])))"
    using map_of_snoc [of "getKey (off + n)" ?A False] by simp
  then have "tracks W (t\<lparr>tf_tracker := fst (ir_Insert R ?txn (getKey (off + n)) False)\<rparr>) (pre @ [(s, off + n)])" by (intro tracksI [OF regs]) simp
  with write_over [of t pre s e mid "[]"] t off n mid show ?thesis by simp
qed

lemma write_joins:
  assumes t: "tracks W t (pre @ (s, e) # mid @ (s', e') # aft)" and off: "s \<le> off" "off < e" and n: "e < off + n"
    and fin: "s' \<le> off + n" "off + n \<le> e'"
  shows "\<exists>t'. trackWrite R W off n t = Inr t' \<and> tracks W t' (pre @ (s, e') # aft)"
proof -
  let ?A = "keyed (marks pre) @ [(getKey s, True)]" and ?B = "keyed ((e, False) # marks mid @ [(s', True)])" and ?C = "keyed ((e', False) # marks aft)"
  let ?txn = "delete_keys R ?B (tf_tracker t)"
  from t have rs: "regions (pre @ (s, e) # mid @ (s', e') # aft)" by (simp add: tracks_def)
  then have ok: "offset_ok s'" "offset_ok e'" by (auto intro!: marks_ok [OF rs])
  have "\<forall>(s, e) \<in> set mid. e < off + n"
  proof -
    have "a < s'" if "(a, v) \<in> set (marks mid)" for a v using marks_sorted [OF rs] that by (fastforce simp: sorted_wrt_append)
    moreover have "(y, False) \<in> set (marks mid)" if "(x, y) \<in> set mid" for x y using that by (induction mid rule: marks.induct) auto
    ultimately show ?thesis using fin by fastforce
  qed
  note over = write_over [OF t off n _ this]
  have "e < s'" "s' < e'" "e' < 2 ^ 63" using rs region_bounds [OF rs, of s' e'] marks_sorted [OF rs] by (auto simp: sorted_wrt_append)
  then have tw: "trackWrite R W off n t = Inr (t\<lparr>tf_tracker := ?txn\<rparr>)"
    using over off fin ok by (simp add: delete_keys_def)
  have regs: "regions (pre @ (s, e') # aft)" using rs \<open>e < s'\<close> \<open>s' < e'\<close> by (auto simp: regions_append)
  have "look ?txn = map_of (?A @ ?C)" by (rule look_removed [OF t]) simp
  then have "look ?txn = map_of (keyed (marks (pre @ (s, e') # aft)))" by simp
  then have "tracks W (t\<lparr>tf_tracker := ?txn\<rparr>) (pre @ (s, e') # aft)" by (intro tracksI [OF regs]) simp
  with tw show ?thesis by blast
qed

lemma write_exact:
  assumes t: "tracks W t rs" and off: "0 \<le> off" "0 < n" "off + n < 2 ^ 63" and "allowed rs off (off + n)"
  shows "\<exists>t' rs'. trackWrite R W off n t = Inr t' \<and> tracks W t' rs' \<and> covered rs' = covered rs \<union> {off..<off + n}"
proof (cases "\<forall>(s, e) \<in> set rs. e < off")
  case True
  moreover have "covered (rs @ [(off, off + n)]) = covered rs \<union> {off..<off + n}" by simp
  ultimately show ?thesis using write_last [OF t True off] by blast
next
  case False
  with assms(5) have cov: "off \<in> covered rs" and fin: "(\<exists>(s, e) \<in> set rs. s \<le> off + n \<and> off + n \<le> e) \<or> (\<forall>(s, e) \<in> set rs. e < off + n)"
    by (auto simp: allowed_def)
  from cov obtain s e where "(s, e) \<in> set rs" and se: "s \<le> off" "off < e" by (auto simp: covered_def)
  then obtain pre post where rs: "rs = pre @ (s, e) # post" by (meson split_list)
  from t have regs: "regions rs" by (simp add: tracks_def)
  have pre: "y < s" if "(x, y) \<in> set pre" for x y
  proof -
    have "(y, False) \<in> set (marks pre)" using that by (rule end_marked)
    with marks_sorted [OF regs] show ?thesis unfolding rs by (fastforce simp: sorted_wrt_append)
  qed
  consider (inside) "off + n \<le> e" | (longer) "e < off + n" "\<forall>(s, e) \<in> set rs. e < off + n"
    | (joins) s' e' where "e < off + n" "(s', e') \<in> set rs" "s' \<le> off + n" "off + n \<le> e'" using fin by fastforce
  then show ?thesis
  proof cases
    case inside
    with write_unchanged [of t pre s e post off n] t rs se off(2) have "trackWrite R W off n t = Inr t" by simp
    moreover have "covered rs = covered rs \<union> {off..<off + n}" using inside se by (auto simp: rs)
    ultimately show ?thesis using t by blast
  next
    case longer
    with write_longer [OF t [unfolded rs] se _ off(3)] obtain t' where t': "trackWrite R W off n t = Inr t'" "tracks W t' (pre @ [(s, off + n)])"
      by (auto simp: rs)
    have "x < off + n \<and> e \<le> x" if "x \<in> covered post" for x
    proof -
      from that obtain a b where ab: "(a, b) \<in> set post" "a \<le> x" "x < b" by (auto simp: covered_def)
      from regs have "regions_from e post" by (simp add: rs regions_append)
      moreover have "b < off + n" using bspec [OF longer(2), of "(a, b)"] ab(1) by (simp add: rs)
      ultimately show ?thesis using region_bounds [OF _ ab(1)] ab by fastforce
    qed
    then have "covered (pre @ [(s, off + n)]) = covered rs \<union> {off..<off + n}" using se longer(1) by (fastforce simp: rs)
    with t' show ?thesis by blast
  next
    case joins
    have "(s', e') \<notin> set pre" using pre [of s' e'] se joins off(2) by auto
    with joins rs have "(s', e') \<in> set post" by auto
    then obtain mid aft where post: "post = mid @ (s', e') # aft" by (meson split_list)
    from write_joins [OF t [unfolded rs post] se joins(1,3,4)] obtain t' where t': "trackWrite R W off n t = Inr t'" "tracks W t' (pre @ (s, e') # aft)" by blast
    have "x < e' \<and> e \<le> x" if "x \<in> covered (mid @ [(s', e')])" for x
    proof -
      from regs have "regions_from e (mid @ [(s', e')])" unfolding rs post by (auto simp: regions_append split: if_splits)
      then show ?thesis using that covered_between by blast
    qed
    then have "covered (pre @ (s, e') # aft) = covered rs \<union> {off..<off + n}" using se joins by (fastforce simp: rs post)
    with t' show ?thesis by blast
  qed
qed

subsection \<open>The writes that go wrong\<close>

lemma marks_below:
  assumes "regions (pre @ post)" and "\<forall>(s, e) \<in> set pre. e < off"
  shows "\<forall>(k, v) \<in> set (marks pre). offset_ok k \<and> k < off"
proof -
  have "k < off" if "(k, v) \<in> set (marks pre)" "regions_from lo pre" for k v lo
    using that assms(2) by (induction lo pre rule: regions_from.induct) auto
  moreover from assms(1) have "regions pre" by (simp add: regions_append)
  ultimately show ?thesis using marks_ok by fastforce
qed

lemma write_before_region:
  assumes t: "tracks W t (pre @ (s, e) # post)" and "\<forall>(s, e) \<in> set pre. e < off" and off: "0 \<le> off" "0 < n" "off + n < s"
  shows "trackWrite R W off n t = Inr t"
proof -
  from t have rs: "regions (pre @ (s, e) # post)" and w: "wk_Walk W (tf_tracker t) = keyed (marks (pre @ (s, e) # post))" by (simp_all add: tracks_def)
  have ok: "offset_ok s" "offset_ok e" "s < e" using region_bounds [OF rs, of s e] by (auto simp: offset_ok_def)
  then have wrap: "wrap64 (off + n) = off + n" using off by (intro wrap64_id) (auto simp: offset_ok_def)
  note skip = visit_before [OF marks_below [OF rs assms(2)]]
  have "track_visit R off (off + n) (keyed (marks (pre @ (s, e) # post))) (tf_tracker t) True True = Inr (tf_tracker t, False, False)"
    using ok off by (simp add: skip)
  then show ?thesis unfolding trackWrite_def getFileRange_def wrap len w by (simp add: Let_def)
qed

lemma write_after_region:
  assumes t: "tracks W t (pre @ [(s, e)])" and n: "0 < n" "e + n < 2 ^ 63" and x: "s \<le> x" "x < e" and "0 < m"
  shows "\<exists>t'. trackWrite R W e n t = Inr t' \<and> getRangeToRead W x m t' = Inr (min (e - x) m, False)"
proof -
  from t have rs: "regions (pre @ [(s, e)])" and w: "wk_Walk W (tf_tracker t) = keyed (marks (pre @ [(s, e)]))" by (simp_all add: tracks_def)
  have ok: "offset_ok s" "offset_ok e" "s < e" using region_bounds [OF rs, of s e] by (auto simp: offset_ok_def)
  then have wrap: "wrap64 (e + n) = e + n" and okn: "offset_ok (e + n)" using n by (auto intro!: wrap64_id simp: offset_ok_def)
  have below: "\<forall>(a, b) \<in> set pre. b < s"
    using marks_sorted [OF rs] end_marked by (fastforce simp: sorted_wrt_append)
  have pre: "\<forall>(k, v) \<in> set (marks pre). offset_ok k \<and> k < s" by (rule marks_below [OF rs below])
  then have pre_e: "\<forall>(k, v) \<in> set (marks pre). offset_ok k \<and> k < e" and pre_x: "\<forall>(k, v) \<in> set (marks pre). offset_ok k \<and> k \<le> x" using ok x by auto
  let ?t = "fst (ir_Insert R (fst (ir_Insert R (tf_tracker t) (getKey e) True)) (getKey (e + n)) False)"
  let ?L = "marks pre @ [(s, True), (e, True), (e + n, False)]"
  note skip = visit_before [OF pre_e]
  have "track_visit R e (e + n) (keyed (marks (pre @ [(s, e)]))) (tf_tracker t) True True = Inr (tf_tracker t, True, True)"
    using ok by (simp add: skip)
  then have tw: "trackWrite R W e n t = Inr (t\<lparr>tf_tracker := ?t\<rparr>)" unfolding trackWrite_def getFileRange_def wrap len w by (simp add: Let_def)
  have "sorted_wrt (<) (map fst ?L)" using marks_sorted [OF rs] pre ok(3) n(1) by (fastforce simp: sorted_wrt_append)
  then have sorted: "sorted_wrt (<) (map fst (keyed ?L))" using pre ok okn by (intro keyed_sorted) auto
  then have dist: "getKey s \<notin> fst ` set (keyed (marks pre))" "getKey e \<notin> fst ` set (keyed (marks pre))" "getKey s \<noteq> getKey e" "getKey (e + n) \<notin> fst ` set (keyed (marks pre))"
     "getKey (e + n) \<noteq> getKey e" "getKey (e + n) \<noteq> getKey s" by (auto simp: strict_sorted_iff)
  let ?A = "keyed (marks pre)"
  have two: "map_of (?A @ [(getKey s, True), (getKey e, v)]) = (map_of ?A)(getKey s \<mapsto> True, getKey e \<mapsto> v)" for v
    using map_of_snoc [of "getKey s" ?A True] map_of_snoc [of "getKey e" "?A @ [(getKey s, True)]" v] dist by simp
  have "map_of (?A @ [(getKey s, True), (getKey e, True), (getKey (e + n), False)]) =
      (map_of (?A @ [(getKey s, True), (getKey e, True)]))(getKey (e + n) \<mapsto> False)"
    using map_of_snoc [of "getKey (e + n)" "?A @ [(getKey s, True), (getKey e, True)]" False] dist by simp
  then have "map_of (keyed ?L) = (map_of ?A)(getKey s \<mapsto> True, getKey e \<mapsto> True, getKey (e + n) \<mapsto> False)"
    unfolding two by simp
  moreover have "look (tf_tracker t) = (map_of ?A)(getKey s \<mapsto> True, getKey e \<mapsto> False)"
    using tracks_look [OF t] two [of False] by simp
  ultimately have "map_of (keyed ?L) = look ?t" by simp
  then have "wk_Walk W ?t = keyed ?L" by (intro sorted_walk_unique walk_sorted sorted) (simp add: walk_map)
  then have "getRangeToRead W x m (t\<lparr>tf_tracker := ?t\<rparr>) = Inr (min (e - x) m, False)"
    using ok x range_before [OF pre_x] by (simp add: getRangeToRead_def)
  with tw show ?thesis by blast
qed

end

section \<open>A tree for the examples\<close>

definition rbt_tree :: "((bytes, bool) rbt, bool) iradix" where
  "rbt_tree = \<lparr>ir_New = RBT.empty, ir_Get = RBT.lookup, ir_Insert = (\<lambda>t k v. (RBT.insert k v t, RBT.lookup t k)),
     ir_Delete = (\<lambda>t k. (RBT.delete k t, RBT.lookup t k))\<rparr>"

definition rbt_walker :: "(bytes, bool) rbt walker" where
  "rbt_walker = \<lparr>wk_Walk = RBT.entries, wk_Len = (\<lambda>t. length (RBT.entries t))\<rparr>"

interpretation rbt_walk: walk_tree rbt_tree RBT.lookup rbt_walker
  by unfold_locales (auto simp: rbt_tree_def rbt_walker_def fun_eq_iff strict_sorted_iff RBT.distinct_entries RBT.sorted_entries)

section \<open>Properties\<close>

text \<open>
  C23: the tracker records a write exactly, when the write starts after all regions, or starts in one of them and ends in one or after all: the regions are
  then those of before together with the bytes written. From the new tracker a read at any offset learns whether its first byte was written, and how many
  of the bytes that follow are in the same store; it stops short only where the store changes.
\<close>

theorem TrackWrite_exact:
  assumes tree: "walk_tree R look W" and t: "tracks W t rs" and off: "0 \<le> off" "0 < n" "off + n < 2 ^ 63" and "allowed rs off (off + n)"
  shows "\<exists>t' rs'. trackWrite R W off n t = Inr t' \<and> tracks W t' rs' \<and> covered rs' = covered rs \<union> {off..<off + n}
    \<and> (\<forall>x m. 0 < m \<longrightarrow> (\<exists>c. getRangeToRead W x m t' = Inr (c, x \<in> covered rs') \<and> 0 < c \<and> c \<le> m
        \<and> (\<forall>y \<in> {x..<x + c}. y \<in> covered rs' \<longleftrightarrow> x \<in> covered rs') \<and> (c < m \<longrightarrow> (x + c \<in> covered rs') \<noteq> (x \<in> covered rs'))))"
proof -
  from walk_tree.write_exact [OF tree t off assms(6)] obtain t' rs' where
    "trackWrite R W off n t = Inr t'" "tracks W t' rs'" "covered rs' = covered rs \<union> {off..<off + n}" by blast
  with walk_tree.read_exact [OF tree] show ?thesis by blast
qed

theorem TrackWrite_exact_witness:
  "\<exists>t'. trackWrite rbt_tree rbt_walker 0 10 (newTFile rbt_tree ''f'') = Inr t' \<and> getRangeToRead rbt_walker 4 100 t' = Inr (6, True)"
proof -
  from TrackWrite_exact [OF rbt_walk.walk_tree_axioms rbt_walk.new_tracks, of 0 10 "''f''"] obtain t' rs' where
    t': "trackWrite rbt_tree rbt_walker 0 10 (newTFile rbt_tree ''f'') = Inr t'" and rs': "covered rs' = {0..<10}"
    and reads: "\<forall>x m. 0 < m \<longrightarrow> (\<exists>c. getRangeToRead rbt_walker x m t' = Inr (c, x \<in> covered rs') \<and> 0 < c \<and> c \<le> m
        \<and> (\<forall>y \<in> {x..<x + c}. y \<in> covered rs' \<longleftrightarrow> x \<in> covered rs') \<and> (c < m \<longrightarrow> (x + c \<in> covered rs') \<noteq> (x \<in> covered rs')))"
    by (auto simp: allowed_def)
  from reads [rule_format, of 100 4] obtain c where c: "getRangeToRead rbt_walker 4 100 t' = Inr (c, True)" "0 < c" "c \<le> 100"
    and same: "\<forall>y \<in> {4..<4 + c}. y < 10" and stop: "c < 100 \<longrightarrow> \<not> 4 + c < 10" unfolding rs' by auto
  have "3 + c < 10" using bspec [OF same, of "3 + c"] c(2) by simp
  with stop c(2) have "c = 6" by linarith
  with t' c(1) show ?thesis by blast
qed

text \<open>
  C24: writing a file from its front to its back is not tracked: a write that starts where the last region ends turns the end of that region into a
  start, and every byte of the region is then taken from the base file.
\<close>

theorem Append_hides_region:
  assumes "walk_tree R look W" and "tracks W t (pre @ [(s, e)])" and "0 < n" and "e + n < 2 ^ 63" and "s \<le> x" and "x < e" and "0 < m"
  shows "\<exists>t'. trackWrite R W e n t = Inr t' \<and> getRangeToRead W x m t' = Inr (min (e - x) m, False)"
  using assms by (rule walk_tree.write_after_region)

theorem Append_hides_region_witness:
  "\<exists>t' t''. trackWrite rbt_tree rbt_walker 0 10 (newTFile rbt_tree ''f'') = Inr t' \<and> trackWrite rbt_tree rbt_walker 10 10 t' = Inr t''
    \<and> getRangeToRead rbt_walker 4 1 t' = Inr (1, True) \<and> getRangeToRead rbt_walker 4 1 t'' = Inr (1, False)"
proof -
  from rbt_walk.write_last [OF rbt_walk.new_tracks, of 0 10 "''f''"] obtain t' where
    t': "trackWrite rbt_tree rbt_walker 0 10 (newTFile rbt_tree ''f'') = Inr t'" "tracks rbt_walker t' ([] @ [(0, 10)])" by auto
  from rbt_walk.read_exact [OF t'(2), of 1 4] have r: "getRangeToRead rbt_walker 4 1 t' = Inr (1, True)" by auto
  from Append_hides_region [OF rbt_walk.walk_tree_axioms t'(2), of 10 4 1] obtain t'' where
    "trackWrite rbt_tree rbt_walker 10 10 t' = Inr t''" "getRangeToRead rbt_walker 4 1 t'' = Inr (1, False)" by auto
  with t'(1) r show ?thesis by blast
qed

text \<open>
  A write that lies in a gap before a region is not tracked at all.
\<close>

theorem Write_before_region_lost:
  assumes "walk_tree R look W" and "tracks W t (pre @ (s, e) # post)" and "\<forall>(s, e) \<in> set pre. e < off" and "0 \<le> off" and "0 < n" and "off + n < s"
  shows "trackWrite R W off n t = Inr t"
  using assms by (rule walk_tree.write_before_region)

end
