(* ===== verification/Spec2Isabelle.thy ===== *)
theory Spec2Isabelle
  imports BundleUpdate DiamondCommit RepoOps PurgeFaults PurgeEnds FuseFaults SidecarParams FileTracker
begin

text \<open>
  \<^bold>\<open>A verification development for datamon.\<close>

  datamon keeps versioned sets of files in object stores. The bytes of the files live in a content-addressable
  file system (package \<open>cafs\<close>) over a blob bucket; a \<^emph>\<open>bundle\<close> is a list of file entries with a
  descriptor, kept as YAML objects in a metadata bucket; bundles belong to \<^emph>\<open>repositories\<close> and can carry
  \<^emph>\<open>labels\<close>. Several hosts can build one bundle together: each uploads a \<^emph>\<open>split\<close>, and a \<^emph>\<open>diamond\<close> merges the
  splits when it is committed. Bundles are downloaded to a local file system, mounted read-only, or built up in a mutable mount
  and committed. A purge job deletes the blobs that no bundle refers to. This library models these parts of
  \<open>pkg/\<close> as HOL functions and proves what makes them correct, and, where the code does
  not do what it means to do, what happens instead.

  \<^bold>\<open>Conventions.\<close> A Go function that returns a value and an error is a function into a sum (\<open>res\<close>, \<open>Inl\<close> the
  error); a run-time panic is a value of \<open>panic\<close> on the left of an outer sum; a loop that the
  code does not bound is a \<open>partial_function (option)\<close>, \<open>None\<close> for a run that does not end, and the properties
  prove that \<open>Some\<close> is returned. Structs are records whose fields carry a short prefix, 64-bit indices are
  \<open>64 word\<close> where their wrap-around matters. Goroutines are modelled by what they can change: results that
  arrive in any order are a permutation that is an argument (\<open>order\<close>, \<open>run\<close>, \<open>ue_flush\<close>), interleavings are
  schedules or inductive step relations. Code outside the repository is a parameter, its documented behaviour the laws of a
  locale, and every locale is interpreted on a concrete instance, which the witnesses use.

  \<^bold>\<open>Theories and sources.\<close>
  \<^item> \<open>Prelude\<close>, \<open>GoStd\<close>, \<open>GoTime\<close>: shared lemmas; what the code uses of Go's strings, paths, hex, integers and time.
  \<^item> \<open>ModelPaths\<close> (\<open>pkg/model\<close>, paths): archive and consumable paths, built and parsed; \<open>ModelDescriptors\<close>: descriptors, their
    orders and validation, and what decoding a descriptor over another one keeps of it (\<open>decoded_over\<close>: YAML omits empty
    fields); \<open>Codec\<close>: serialization as a parameter. What is assumed of the YAML package is \<open>yaml_marshals\<close> and \<open>yaml_bundles\<close>
    in \<open>BundleUpload\<close>.
  \<^item> \<open>ObjectStore\<close> (\<open>pkg/storage\<close>): the store interface as a record, its laws as the locale \<open>object_store\<close>;
    \<open>GcsStore\<close> (\<open>pkg/storage/gcs\<close>) implements them over the service (locale \<open>bucket_api\<close>), \<open>LocalFs\<close>
    (\<open>pkg/storage/localfs\<close>) over afero (locale \<open>afero_api\<close>).
  \<^item> \<open>CafsKeys\<close>, \<open>CafsWriter\<close>, \<open>CafsFlush\<close>, \<open>CafsCache\<close>, \<open>CafsReader\<close>, \<open>CafsReadAt\<close>, \<open>Cafs\<close> (\<open>pkg/cafs\<close>): keys and
    hashes, the writer that cuts a stream into leaves and flushes them concurrently, the buffer pool and caches, sequential
    and random reads, and \<open>Put\<close>, \<open>Get\<close>, \<open>Delete\<close>. BLAKE2b and the LRU cache are parameters.
  \<^item> \<open>FileIndex\<close>, \<open>MetaLists\<close>, \<open>Bundles\<close>, \<open>BundleUpload\<close>, \<open>BundlePublish\<close>, \<open>BundleUpdate\<close> (\<open>pkg/core\<close>): index files; the
    paged and concurrent listings; upload, download, publication and update of bundles.
  \<^item> \<open>DiamondMerge\<close>, \<open>Diamonds\<close>, \<open>DiamondCommit\<close>: merging of splits in every conflict mode, the life of diamonds and splits
    (relation \<open>vmeta_step\<close>), the commit.
  \<^item> \<open>RepoOps\<close>: creation, deletion, renaming, squashing of repositories; deletion of bundles, labels and entries.
  \<^item> \<open>KvStore\<close>, \<open>Purge\<close>, \<open>PurgeIndex\<close>, \<open>PurgeSafe\<close>, \<open>PurgeEnds\<close>, \<open>PurgeFaults\<close>: the reverse index of used
    keys, its concurrent construction, its chunks, the deletion of unused blobs.
  \<^item> \<open>FuseFs\<close>, \<open>FuseMount\<close> (\<open>pkg/fuse\<close>, read-only); \<open>FuseMutable\<close>, \<open>FuseTree\<close>, \<open>FuseState\<close>, \<open>FuseSim\<close>,
    \<open>FuseCommit\<close>, \<open>FuseFaults\<close> (mutable): every request of the mounts, the invariant of the namespace,
    the simulation of a file system of paths, the commit.
  \<^item> \<open>SidecarParams\<close> (\<open>pkg/sidecar/param\<close>): parameters of the sidecar containers as environment variables, and how the script of the
    sidecar reads them; \<open>FileTracker\<close> (\<open>pkg/filetracker\<close>): which parts of a file were written over a base file.

  \<^bold>\<open>What is shown.\<close>
  \<^item> Storage: a store over Google Cloud Storage refines a finite map for any client without failures (\<open>gcs_put_get\<close>); what \<open>Put\<close> stores, \<open>Get\<close>
    returns, in sequence, at any offset and in parallel (\<open>Put_Get_roundtrip\<close>, \<open>Read_delivers\<close>, \<open>ReadAt_exact\<close>), whatever the
    order in which leaves are flushed (\<open>Flush_any_order\<close>); a pooled buffer is not handed out again while
    anyone holds or pins it (\<open>pool_safe\<close>).
  \<^item> Bundles: upload then download gives the same entries and bytes (\<open>Upload_download\<close>); publication and update leave
    exactly the files of the bundle (\<open>Publish_complete\<close>, \<open>Update_exact\<close>); index files and metadata paths round-trip;
    the listings return everything once, whatever the page sizes and the concurrency.
  \<^item> Diamonds: no version of a file is lost by a merge (\<open>merge_keeps_versions\<close>), a diamond or split ends at most once
    (\<open>diamond_terminates_once\<close>), a commit publishes the merge (\<open>Commit_publishes\<close>).
  \<^item> Purge: the index covers every readable bundle under every interleaving, and deletion keeps every blob in use (\<open>Purge_safe\<close>);
    its construction ends where closing the reader of an index file cannot block (\<open>PurgeBuildReverseIndex_ends\<close>).
  \<^item> Mounts: a read-only mount is the tree of the bundle (\<open>Mount_exact\<close>, \<open>ReadDir_complete\<close>); a mutable mount never panics and keeps its
    invariant for the requests that \<open>sent\<close> describes (all kinds, without those that the code does not survive, which it
    lists), and simulates a file system of paths (\<open>Mutable_safe\<close>, \<open>Mutable_simulates\<close>);
    its commit uploads exactly the tree (\<open>MutableCommit_exact\<close>).
  \<^item> Faults: properties of kind error show what the code does where it fails: retries that lose the start of an object, a hidden
    download loss, a cancelled diamond whose bundle is published, a failed upload of an index chunk that blocks or loses
    keys, reused inode numbers.
  \<^item> Sidecars: the script reads back what the parameters say, for values that the shell passes unchanged (\<open>shell_plain\<close>)
    and while two separators are free (\<open>FUSE_env_roundtrip\<close>).

  \<^bold>\<open>Bounds and fuel.\<close> No model runs on fuel. Retry loops take the number of attempts as an argument, as the backoff policy of the code bounds
  them. A wait that may last for ever (\<open>dbReader_Close\<close>) is \<open>None\<close> too. Loops that end for every input have termination proofs with a measure (the bytes left, the leaves left, the positions
  of a path); \<open>read_loop\<close>, \<open>write_loop\<close>, \<open>fetchKeys\<close>, \<open>drain\<close>, \<open>last_chunks\<close>, \<open>delete_until\<close>,
  \<open>commitUploadDir\<close> and \<open>list_dir\<close> are partial functions whose callers are proved to return. Sizes
  below \<open>2 ^ 63\<close> are hypotheses where the source would overflow an \<open>int\<close>.

  \<^bold>\<open>Not modelled.\<close> The command line, the web server, metrics, authentication and logging are glue or instrumentation around
  the modelled packages; the badger store and the S3 store wrap calls of their packages and are not chosen by
  default; the write-ahead log is not imported by any other package; prefetching in the cafs reader only warms a cache; the calls that
  mount and unmount have no state. Generated code and mocks are left out.
\<close>

end
